(* ===== verification/UB_Prelude.thy ===== *)
theory UB_Prelude
  imports Main "HOL-Library.Word" "HOL-Library.Sublist"
begin

text \<open>
  Shared vocabulary of the development: the widths of the C integers of the MIPS32 little-endian
  target (\<open>unsigned char\<close>, \<open>unsigned short\<close>, \<open>unsigned long\<close> are 8, 16 and 32 bits), the byte
  memory the string library works on, the bytes of a word in memory, and the
  generic list, option and word lemmas the components use.
\<close>

unbundle bit_operations_syntax

type_synonym u8 = "8 word"
type_synonym u16 = "16 word"
type_synonym u32 = "32 word"
type_synonym addr = nat
type_synonym mem = "addr \<Rightarrow> u8"

subsection \<open>Words\<close>

lemma unat_u8_bound [simp]: "unat (x :: u8) < 256"
  using unsigned_less [of x] by simp

lemma unat_u16_bound [simp]: "unat (x :: u16) < 65536"
  using unsigned_less [of x] by simp

lemma unat_u32_bound [simp]: "unat (x :: u32) < 4294967296"
  using unsigned_less [of x] by simp

lemma uint_zero_iff [simp]: "uint x = 0 \<longleftrightarrow> x = 0"
  by (simp add: word_uint_eq_iff)

lemma uint_pos_iff [simp]: "0 < uint x \<longleftrightarrow> x \<noteq> 0"
  using uint_ge_0 [of x] by (simp add: order_less_le)

lemma word_xor_left_cancel: "(a :: 'a :: len word) XOR b = a XOR c \<longleftrightarrow> b = c"
proof
  assume "a XOR b = a XOR c"
  then have "a XOR (a XOR b) = a XOR (a XOR c)" by simp
  then show "b = c" by (simp flip: xor.assoc)
qed simp

lemma word_xor_right_cancel: "(b :: 'a :: len word) XOR a = c XOR a \<longleftrightarrow> b = c"
  by (metis word_xor_left_cancel xor.commute)

lemma u8_and_ff [simp]: "(0xff :: u8) AND b = b"
proof -
  have "(0xff :: u8) = - 1" by simp
  then show ?thesis by (simp only: and.left_neutral)
qed

lemma bit_u8_bound: "bit (x :: u8) n \<Longrightarrow> n < 8"
  by (drule bit_imp_le_length) simp

lemma bit_u32_bound: "bit (x :: u32) n \<Longrightarrow> n < 32"
  by (drule bit_imp_le_length) simp

lemma ucast_u8_u32_inj: "(ucast (a :: u8) :: u32) = ucast b \<Longrightarrow> a = b"
proof (rule bit_word_eqI)
  fix n assume eq: "(ucast a :: u32) = ucast b" and n: "n < LENGTH(8)"
  have "bit (ucast a :: u32) n = bit (ucast b :: u32) n" by (simp only: eq)
  with n show "bit a n \<longleftrightarrow> bit b n" by (simp add: bit_simps)
qed

lemma unat_of_char [simp]: "unat (of_char c :: u8) = of_char c"
proof -
  have "(of_char c :: u8) = of_nat (of_char c)" by (simp add: of_nat_of_char)
  moreover have "of_char c < (256 :: nat)" by (rule nat_of_char_less_256)
  ultimately show ?thesis by (simp only: unat_of_nat) simp
qed

lemma of_char_u8_eq_iff [simp]: "(of_char c :: u8) = of_char d \<longleftrightarrow> c = d"
proof
  assume "(of_char c :: u8) = of_char d"
  then have "unat (of_char c :: u8) = unat (of_char d :: u8)" by simp
  then show "c = d" by simp
qed simp

subsection \<open>Bytes of a 32-bit word\<close>

definition le32 :: "u32 \<Rightarrow> u8 list" where
  "le32 w = [ucast w, ucast (drop_bit 8 w), ucast (drop_bit 16 w), ucast (drop_bit 24 w)]"

definition of_le32 :: "u8 list \<Rightarrow> u32" where
  "of_le32 bs = ucast (bs ! 0) OR push_bit 8 (ucast (bs ! 1)) OR push_bit 16 (ucast (bs ! 2)) OR push_bit 24 (ucast (bs ! 3))"

lemma length_le32 [simp]: "length (le32 w) = 4" by (simp add: le32_def)

lemma of_le32_le32 [simp]: "of_le32 (le32 w) = w"
proof (rule bit_word_eqI)
  fix n assume n: "n < LENGTH(32)"
  consider "n < 8" | "8 \<le> n" "n < 16" | "16 \<le> n" "n < 24" | "24 \<le> n" "n < 32" using n by (simp; linarith)
  then show "bit (of_le32 (le32 w)) n \<longleftrightarrow> bit w n"
    by cases (auto simp: of_le32_def le32_def bit_simps dest: bit_imp_le_length)
qed

lemma of_le32_append [simp]: "of_le32 (le32 w @ xs) = w"
proof -
  have "of_le32 (le32 w @ xs) = of_le32 (le32 w)" by (simp add: of_le32_def le32_def)
  then show ?thesis by simp
qed

lemma unat_and_ff: "unat (x AND 0xff :: u32) < 256"
  using word_and_le1 [of x "0xff"] by (simp add: word_le_nat_alt)

subsection \<open>Lists\<close>

lemma takeWhile_append_stop [simp]:
  "\<forall>x\<in>set xs. P x \<Longrightarrow> \<not> P y \<Longrightarrow> takeWhile P (xs @ y # ys) = xs"
  by (induction xs) auto

lemma nth_append_shift [simp]: "(xs @ ys) ! (length xs + i) = ys ! i"
  by (simp add: nth_append)

end
