(* ===== verification/Ctype.thy ===== *)
theory Ctype
  imports UB_Prelude
begin

text \<open>
  \<open>lib_generic/ctype.c\<close> and \<open>include/linux/ctype.h\<close>: the 256-entry classification table and the
  predicates that mask it. The lemmas give the predicates the C code relies on as ranges of
  character codes, so that no other theory looks into the table.
\<close>

definition ct_U :: u8 where "ct_U = 0x01"
definition ct_L :: u8 where "ct_L = 0x02"
definition ct_D :: u8 where "ct_D = 0x04"
definition ct_C :: u8 where "ct_C = 0x08"
definition ct_P :: u8 where "ct_P = 0x10"
definition ct_S :: u8 where "ct_S = 0x20"
definition ct_X :: u8 where "ct_X = 0x40"
definition ct_SP :: u8 where "ct_SP = 0x80"

lemmas ct_bits = ct_U_def ct_L_def ct_D_def ct_C_def ct_P_def ct_S_def ct_X_def ct_SP_def

definition ctype_table :: "u8 list" where
  "ctype_table = [
     ct_C,ct_C,ct_C,ct_C,ct_C,ct_C,ct_C,ct_C,
     ct_C,ct_C OR ct_S,ct_C OR ct_S,ct_C OR ct_S,ct_C OR ct_S,ct_C OR ct_S,ct_C,ct_C,
     ct_C,ct_C,ct_C,ct_C,ct_C,ct_C,ct_C,ct_C,
     ct_C,ct_C,ct_C,ct_C,ct_C,ct_C,ct_C,ct_C,
     ct_S OR ct_SP,ct_P,ct_P,ct_P,ct_P,ct_P,ct_P,ct_P,
     ct_P,ct_P,ct_P,ct_P,ct_P,ct_P,ct_P,ct_P,
     ct_D,ct_D,ct_D,ct_D,ct_D,ct_D,ct_D,ct_D,
     ct_D,ct_D,ct_P,ct_P,ct_P,ct_P,ct_P,ct_P,
     ct_P,ct_U OR ct_X,ct_U OR ct_X,ct_U OR ct_X,ct_U OR ct_X,ct_U OR ct_X,ct_U OR ct_X,ct_U,
     ct_U,ct_U,ct_U,ct_U,ct_U,ct_U,ct_U,ct_U,
     ct_U,ct_U,ct_U,ct_U,ct_U,ct_U,ct_U,ct_U,
     ct_U,ct_U,ct_U,ct_P,ct_P,ct_P,ct_P,ct_P,
     ct_P,ct_L OR ct_X,ct_L OR ct_X,ct_L OR ct_X,ct_L OR ct_X,ct_L OR ct_X,ct_L OR ct_X,ct_L,
     ct_L,ct_L,ct_L,ct_L,ct_L,ct_L,ct_L,ct_L,
     ct_L,ct_L,ct_L,ct_L,ct_L,ct_L,ct_L,ct_L,
     ct_L,ct_L,ct_L,ct_P,ct_P,ct_P,ct_P,ct_C,
     0,0,0,0,0,0,0,0,0,0,0,0,0,0,0,0,
     0,0,0,0,0,0,0,0,0,0,0,0,0,0,0,0,
     ct_S OR ct_SP,ct_P,ct_P,ct_P,ct_P,ct_P,ct_P,ct_P,ct_P,ct_P,ct_P,ct_P,ct_P,ct_P,ct_P,ct_P,
     ct_P,ct_P,ct_P,ct_P,ct_P,ct_P,ct_P,ct_P,ct_P,ct_P,ct_P,ct_P,ct_P,ct_P,ct_P,ct_P,
     ct_U,ct_U,ct_U,ct_U,ct_U,ct_U,ct_U,ct_U,ct_U,ct_U,ct_U,ct_U,ct_U,ct_U,ct_U,ct_U,
     ct_U,ct_U,ct_U,ct_U,ct_U,ct_U,ct_U,ct_P,ct_U,ct_U,ct_U,ct_U,ct_U,ct_U,ct_U,ct_L,
     ct_L,ct_L,ct_L,ct_L,ct_L,ct_L,ct_L,ct_L,ct_L,ct_L,ct_L,ct_L,ct_L,ct_L,ct_L,ct_L,
     ct_L,ct_L,ct_L,ct_L,ct_L,ct_L,ct_L,ct_P,ct_L,ct_L,ct_L,ct_L,ct_L,ct_L,ct_L,ct_L]"

definition ismask :: "u8 \<Rightarrow> u8" where
  "ismask x = ctype_table ! unat x"

definition isalnum :: "u8 \<Rightarrow> bool" where "isalnum c \<longleftrightarrow> ismask c AND (ct_U OR ct_L OR ct_D) \<noteq> 0"
definition isalpha :: "u8 \<Rightarrow> bool" where "isalpha c \<longleftrightarrow> ismask c AND (ct_U OR ct_L) \<noteq> 0"
definition iscntrl :: "u8 \<Rightarrow> bool" where "iscntrl c \<longleftrightarrow> ismask c AND ct_C \<noteq> 0"
definition isdigit :: "u8 \<Rightarrow> bool" where "isdigit c \<longleftrightarrow> ismask c AND ct_D \<noteq> 0"
definition islower :: "u8 \<Rightarrow> bool" where "islower c \<longleftrightarrow> ismask c AND ct_L \<noteq> 0"
definition isprint :: "u8 \<Rightarrow> bool" where
  "isprint c \<longleftrightarrow> ismask c AND (ct_P OR ct_U OR ct_L OR ct_D OR ct_SP) \<noteq> 0"
definition isspace :: "u8 \<Rightarrow> bool" where "isspace c \<longleftrightarrow> ismask c AND ct_S \<noteq> 0"
definition isupper :: "u8 \<Rightarrow> bool" where "isupper c \<longleftrightarrow> ismask c AND ct_U \<noteq> 0"
definition isxdigit :: "u8 \<Rightarrow> bool" where "isxdigit c \<longleftrightarrow> ismask c AND (ct_D OR ct_X) \<noteq> 0"

definition tolower :: "u8 \<Rightarrow> u8" where
  "tolower c = (if isupper c then c - (65 - 97) else c)"

definition toupper :: "u8 \<Rightarrow> u8" where
  "toupper c = (if islower c then c - (97 - 65) else c)"

subsection \<open>The table by ranges\<close>

lemma length_ctype_table: "length ctype_table = 256"
  by (simp add: ctype_table_def)

text \<open>A fact about every byte is checked on the 256 numbers, once per predicate.\<close>

lemma all_bytes_by_index:
  assumes "list_all (\<lambda>(i, v). P i v) (enumerate 0 ctype_table)"
  shows "P (unat x) (ismask x)"
proof -
  have lt: "unat x < length ctype_table"
    by (simp add: length_ctype_table)
  then have "(unat x, ctype_table ! unat x) \<in> set (enumerate 0 ctype_table)"
    by (simp add: in_set_enumerate_eq)
  with assms show ?thesis by (auto simp: list_all_iff ismask_def)
qed

lemma isdigit_range: "isdigit c \<longleftrightarrow> unat c \<in> {48..57}"
proof -
  have "(ismask c AND ct_D \<noteq> 0) = (unat c \<in> {48..57})"
    by (rule all_bytes_by_index) (simp add: ctype_table_def ct_bits)
  then show ?thesis by (simp add: isdigit_def)
qed

lemma isxdigit_range: "isxdigit c \<longleftrightarrow> unat c \<in> {48..57} \<union> {65..70} \<union> {97..102}"
proof -
  have "(ismask c AND (ct_D OR ct_X) \<noteq> 0) = (unat c \<in> {48..57} \<union> {65..70} \<union> {97..102})"
    by (rule all_bytes_by_index) (simp add: ctype_table_def ct_bits)
  then show ?thesis by (simp add: isxdigit_def)
qed

lemma islower_ascii: "unat c < 128 \<Longrightarrow> islower c \<longleftrightarrow> unat c \<in> {97..122}"
proof -
  have "unat c < 128 \<longrightarrow> (ismask c AND ct_L \<noteq> 0) = (unat c \<in> {97..122})"
    by (rule all_bytes_by_index) (simp add: ctype_table_def ct_bits)
  then show "unat c < 128 \<Longrightarrow> ?thesis" by (simp add: islower_def)
qed

lemma isupper_ascii: "unat c < 128 \<Longrightarrow> isupper c \<longleftrightarrow> unat c \<in> {65..90}"
proof -
  have "unat c < 128 \<longrightarrow> (ismask c AND ct_U \<noteq> 0) = (unat c \<in> {65..90})"
    by (rule all_bytes_by_index) (simp add: ctype_table_def ct_bits)
  then show "unat c < 128 \<Longrightarrow> ?thesis" by (simp add: isupper_def)
qed

end
