(* ===== verification/CString.thy ===== *)
theory CString
  imports Ctype
begin

text \<open>
  \<open>lib_generic/string.c\<close>: the C string and memory library over a byte memory. A pointer is a
  natural number, a store is a function update, and an out-parameter or a written buffer is the
  returned memory. A loop that stops only at a NUL byte is a \<open>partial_function (option)\<close>, so that
  \<open>None\<close> is a run that never ends; the lemmas prove the runs that do end. \<open>NULL\<close> is \<open>None\<close> of an
  optional address.
\<close>

subsection \<open>The routines\<close>

partial_function (option) strlen_loop :: "mem \<Rightarrow> addr \<Rightarrow> addr option" where
  "strlen_loop m sc = (if m sc \<noteq> 0 then strlen_loop m (sc + 1) else Some sc)"

definition strlen :: "mem \<Rightarrow> addr \<Rightarrow> nat option" where
  "strlen m s = map_option (\<lambda>sc. sc - s) (strlen_loop m s)"

fun strnlen_loop :: "mem \<Rightarrow> addr \<Rightarrow> nat \<Rightarrow> addr" where
  "strnlen_loop m sc 0 = sc"
| "strnlen_loop m sc (Suc count) = (if m sc \<noteq> 0 then strnlen_loop m (sc + 1) count else sc)"

definition strnlen :: "mem \<Rightarrow> addr \<Rightarrow> nat \<Rightarrow> nat" where
  "strnlen m s count = strnlen_loop m s count - s"

fun strnicmp_loop :: "mem \<Rightarrow> addr \<Rightarrow> addr \<Rightarrow> nat \<Rightarrow> u8 \<times> u8" where
  "strnicmp_loop m s1 s2 0 = (0, 0)"
| "strnicmp_loop m s1 s2 (Suc len) =
     (let c1 = m s1; c2 = m s2 in
      if c1 = 0 then (c1, c2)
      else if c2 = 0 then (c1, c2)
      else if c1 = c2 then (if len = 0 then (c1, c2) else strnicmp_loop m (s1 + 1) (s2 + 1) len)
      else (let c1 = tolower c1; c2 = tolower c2 in
            if c1 \<noteq> c2 then (c1, c2)
            else if len = 0 then (c1, c2)
            else strnicmp_loop m (s1 + 1) (s2 + 1) len))"

definition strnicmp :: "mem \<Rightarrow> addr \<Rightarrow> addr \<Rightarrow> nat \<Rightarrow> int" where
  "strnicmp m s1 s2 len = (case strnicmp_loop m s1 s2 len of (c1, c2) \<Rightarrow> uint c1 - uint c2)"

partial_function (option) strcpy_loop :: "mem \<Rightarrow> addr \<Rightarrow> addr \<Rightarrow> mem option" where
  "strcpy_loop m dest src =
     (let m' = m(dest := m src) in
      if m src \<noteq> 0 then strcpy_loop m' (dest + 1) (src + 1) else Some m')"

definition strcpy :: "mem \<Rightarrow> addr \<Rightarrow> addr \<Rightarrow> (mem \<times> addr) option" where
  "strcpy m dest src = map_option (\<lambda>m'. (m', dest)) (strcpy_loop m dest src)"

fun strncpy_loop :: "mem \<Rightarrow> addr \<Rightarrow> addr \<Rightarrow> nat \<Rightarrow> mem" where
  "strncpy_loop m dest src 0 = m"
| "strncpy_loop m dest src (Suc count) =
     (let m' = m(dest := m src) in
      if m src \<noteq> 0 then strncpy_loop m' (dest + 1) (src + 1) count else m')"

definition strncpy :: "mem \<Rightarrow> addr \<Rightarrow> addr \<Rightarrow> nat \<Rightarrow> mem \<times> addr" where
  "strncpy m dest src count = (strncpy_loop m dest src count, dest)"

definition strcat :: "mem \<Rightarrow> addr \<Rightarrow> addr \<Rightarrow> (mem \<times> addr) option" where
  "strcat m dest src =
     (case strlen_loop m dest of
        None \<Rightarrow> None
      | Some d \<Rightarrow> map_option (\<lambda>m'. (m', dest)) (strcpy_loop m d src))"

fun strncat_loop :: "mem \<Rightarrow> addr \<Rightarrow> addr \<Rightarrow> nat \<Rightarrow> mem" where
  "strncat_loop m dest src 0 = m"
| "strncat_loop m dest src (Suc count) =
     (let m' = m(dest := m src) in
      if m src = 0 then m'
      else if count = 0 then m'(dest + 1 := 0)
      else strncat_loop m' (dest + 1) (src + 1) count)"

definition strncat :: "mem \<Rightarrow> addr \<Rightarrow> addr \<Rightarrow> nat \<Rightarrow> (mem \<times> addr) option" where
  "strncat m dest src count =
     (if count = 0 then Some (m, dest)
      else map_option (\<lambda>d. (strncat_loop m d src count, dest)) (strlen_loop m dest))"

partial_function (option) strcmp :: "mem \<Rightarrow> addr \<Rightarrow> addr \<Rightarrow> int option" where
  "strcmp m cs ct =
     (let res = m cs - m ct in
      if res \<noteq> 0 \<or> m cs = 0 then Some (sint res) else strcmp m (cs + 1) (ct + 1))"

fun strncmp_loop :: "mem \<Rightarrow> addr \<Rightarrow> addr \<Rightarrow> nat \<Rightarrow> u8 \<Rightarrow> u8" where
  "strncmp_loop m cs ct 0 res = res"
| "strncmp_loop m cs ct (Suc count) _ =
     (let res = m cs - m ct in
      if res \<noteq> 0 \<or> m cs = 0 then res else strncmp_loop m (cs + 1) (ct + 1) count res)"

definition strncmp :: "mem \<Rightarrow> addr \<Rightarrow> addr \<Rightarrow> nat \<Rightarrow> int" where
  "strncmp m cs ct count = sint (strncmp_loop m cs ct count 0)"

partial_function (option) strchr :: "mem \<Rightarrow> addr \<Rightarrow> u8 \<Rightarrow> addr option option" where
  "strchr m s c =
     (if m s \<noteq> c then (if m s = 0 then Some None else strchr m (s + 1) c) else Some (Some s))"

fun strrchr_loop :: "mem \<Rightarrow> addr \<Rightarrow> u8 \<Rightarrow> nat \<Rightarrow> addr option" where
  "strrchr_loop m s c 0 = (if m s = c then Some s else None)"
| "strrchr_loop m s c (Suc k) = (if m (s + Suc k) = c then Some (s + Suc k) else strrchr_loop m s c k)"

definition strrchr :: "mem \<Rightarrow> addr \<Rightarrow> u8 \<Rightarrow> addr option option" where
  "strrchr m s c = map_option (strrchr_loop m s c) (strlen m s)"

definition strdup :: "(nat \<Rightarrow> addr option) \<Rightarrow> mem \<Rightarrow> addr option \<Rightarrow> (mem \<times> addr option) option" where
  "strdup malloc m s =
     (case s of
        None \<Rightarrow> Some (m, None)
      | Some p \<Rightarrow>
          (case strlen m p of
             None \<Rightarrow> None
           | Some n \<Rightarrow>
               (case malloc (n + 1) of
                  None \<Rightarrow> Some (m, None)
                | Some new \<Rightarrow> map_option (\<lambda>(m', _). (m', Some new)) (strcpy m new p))))"

text \<open>The inner loop shared by \<open>strspn\<close> and \<open>strpbrk\<close>: the first position of the set \<open>a\<close> that holds
  the byte \<open>c\<close>, or the position of its NUL.\<close>

partial_function (option) set_scan :: "mem \<Rightarrow> u8 \<Rightarrow> addr \<Rightarrow> addr option" where
  "set_scan m c a = (if m a \<noteq> 0 then (if c = m a then Some a else set_scan m c (a + 1)) else Some a)"

partial_function (option) strspn_loop :: "mem \<Rightarrow> addr \<Rightarrow> addr \<Rightarrow> nat \<Rightarrow> nat option" where
  "strspn_loop m p accept count =
     (if m p \<noteq> 0
      then (case set_scan m (m p) accept of
              None \<Rightarrow> None
            | Some a \<Rightarrow> if m a = 0 then Some count else strspn_loop m (p + 1) accept (count + 1))
      else Some count)"

definition strspn :: "mem \<Rightarrow> addr \<Rightarrow> addr \<Rightarrow> nat option" where
  "strspn m s accept = strspn_loop m s accept 0"

partial_function (option) strpbrk :: "mem \<Rightarrow> addr \<Rightarrow> addr \<Rightarrow> addr option option" where
  "strpbrk m sc1 ct =
     (if m sc1 \<noteq> 0
      then (case set_scan m (m sc1) ct of
              None \<Rightarrow> None
            | Some sc2 \<Rightarrow> if m sc2 \<noteq> 0 then Some (Some sc1) else strpbrk m (sc1 + 1) ct)
      else Some None)"

text \<open>\<open>strtok\<close> keeps its position in the global \<open>___strtok\<close>, passed and returned here.\<close>

definition strtok :: "mem \<Rightarrow> addr option \<Rightarrow> addr option \<Rightarrow> addr \<Rightarrow> (mem \<times> addr option \<times> addr option) option" where
  "strtok m saved s ct =
     (case (case s of Some p \<Rightarrow> Some p | None \<Rightarrow> saved) of
        None \<Rightarrow> Some (m, saved, None)
      | Some sbegin0 \<Rightarrow>
          (case strspn m sbegin0 ct of
             None \<Rightarrow> None
           | Some n \<Rightarrow>
               (let sbegin = sbegin0 + n in
                if m sbegin = 0 then Some (m, None, None)
                else (case strpbrk m sbegin ct of
                        None \<Rightarrow> None
                      | Some None \<Rightarrow> Some (m, None, Some sbegin)
                      | Some (Some send) \<Rightarrow>
                          if m send \<noteq> 0 then Some (m(send := 0), Some (send + 1), Some sbegin)
                          else Some (m, Some send, Some sbegin)))))"

definition strsep :: "mem \<Rightarrow> addr option \<Rightarrow> addr \<Rightarrow> (mem \<times> addr option \<times> addr option) option" where
  "strsep m s ct =
     (case s of
        None \<Rightarrow> Some (m, s, None)
      | Some sbegin \<Rightarrow>
          (case strpbrk m sbegin ct of
             None \<Rightarrow> None
           | Some None \<Rightarrow> Some (m, None, Some sbegin)
           | Some (Some e) \<Rightarrow> Some (m(e := 0), Some (e + 1), Some sbegin)))"

partial_function (option) strswab_loop :: "mem \<Rightarrow> addr \<Rightarrow> mem option" where
  "strswab_loop m p =
     (if m p \<noteq> 0
      then (let tmp = m (p - 1) in strswab_loop ((m(p - 1 := m p))(p := tmp)) (p + 2))
      else Some m)"

definition strswab :: "mem \<Rightarrow> addr option \<Rightarrow> (mem \<times> addr option) option" where
  "strswab m s =
     (case s of
        None \<Rightarrow> Some (m, None)
      | Some p \<Rightarrow> if m p = 0 then Some (m, None)
                  else map_option (\<lambda>m'. (m', Some p)) (strswab_loop m (p + 1)))"

fun memset_loop :: "mem \<Rightarrow> addr \<Rightarrow> u8 \<Rightarrow> nat \<Rightarrow> mem" where
  "memset_loop m xs c 0 = m"
| "memset_loop m xs c (Suc count) = memset_loop (m(xs := c)) (xs + 1) c count"

definition memset :: "mem \<Rightarrow> addr \<Rightarrow> u8 \<Rightarrow> nat \<Rightarrow> mem \<times> addr" where
  "memset m s c count = (memset_loop m s c count, s)"

fun copy_up :: "mem \<Rightarrow> addr \<Rightarrow> addr \<Rightarrow> nat \<Rightarrow> mem" where
  "copy_up m tmp s 0 = m"
| "copy_up m tmp s (Suc count) = copy_up (m(tmp := m s)) (tmp + 1) (s + 1) count"

fun copy_down :: "mem \<Rightarrow> addr \<Rightarrow> addr \<Rightarrow> nat \<Rightarrow> mem" where
  "copy_down m dest src 0 = m"
| "copy_down m dest src (Suc count) = copy_down (m(dest + count := m (src + count))) dest src count"

definition bcopy :: "mem \<Rightarrow> addr \<Rightarrow> addr \<Rightarrow> nat \<Rightarrow> mem \<times> addr" where
  "bcopy m src dest count = (copy_up m dest src count, dest)"

definition memcpy :: "mem \<Rightarrow> addr \<Rightarrow> addr \<Rightarrow> nat \<Rightarrow> mem \<times> addr" where
  "memcpy m dest src count = (copy_up m dest src count, dest)"

definition memmove :: "mem \<Rightarrow> addr \<Rightarrow> addr \<Rightarrow> nat \<Rightarrow> mem \<times> addr" where
  "memmove m dest src count =
     (if dest \<le> src then (copy_up m dest src count, dest) else (copy_down m dest src count, dest))"

fun memcmp_loop :: "mem \<Rightarrow> addr \<Rightarrow> addr \<Rightarrow> nat \<Rightarrow> int" where
  "memcmp_loop m su1 su2 0 = 0"
| "memcmp_loop m su1 su2 (Suc count) =
     (let res = uint (m su1) - uint (m su2) in
      if res \<noteq> 0 then res else memcmp_loop m (su1 + 1) (su2 + 1) count)"

definition memcmp :: "mem \<Rightarrow> addr \<Rightarrow> addr \<Rightarrow> nat \<Rightarrow> int" where
  "memcmp m cs ct count = memcmp_loop m cs ct count"

fun memscan :: "mem \<Rightarrow> addr \<Rightarrow> int \<Rightarrow> nat \<Rightarrow> addr" where
  "memscan m p c 0 = p"
| "memscan m p c (Suc n) = (if uint (m p) = c then p else memscan m (p + 1) c n)"

fun strstr_loop :: "mem \<Rightarrow> addr \<Rightarrow> addr \<Rightarrow> nat \<Rightarrow> nat \<Rightarrow> addr option" where
  "strstr_loop m s1 s2 l2 0 = None"
| "strstr_loop m s1 s2 l2 (Suc l1) =
     (if l2 \<le> Suc l1
      then (if memcmp m s1 s2 l2 = 0 then Some s1 else strstr_loop m (s1 + 1) s2 l2 l1)
      else None)"

definition strstr :: "mem \<Rightarrow> addr \<Rightarrow> addr \<Rightarrow> addr option option" where
  "strstr m s1 s2 =
     (case strlen m s2 of
        None \<Rightarrow> None
      | Some l2 \<Rightarrow> if l2 = 0 then Some (Some s1)
                   else map_option (strstr_loop m s1 s2 l2) (strlen m s1))"

fun memchr :: "mem \<Rightarrow> addr \<Rightarrow> u8 \<Rightarrow> nat \<Rightarrow> addr option" where
  "memchr m p c 0 = None"
| "memchr m p c (Suc n) = (if c = m p then Some p else memchr m (p + 1) c n)"

subsection \<open>Strings and byte runs in memory\<close>

text \<open>\<open>cstr_at m p xs\<close>: the NUL-terminated string \<open>xs\<close> is stored at \<open>p\<close>; \<open>blit m p xs\<close> is the memory
  with the bytes \<open>xs\<close> stored from \<open>p\<close> on; \<open>bytes m p n\<close> reads \<open>n\<close> bytes.\<close>

fun cstr_at :: "mem \<Rightarrow> addr \<Rightarrow> u8 list \<Rightarrow> bool" where
  "cstr_at m p [] \<longleftrightarrow> m p = 0"
| "cstr_at m p (x # xs) \<longleftrightarrow> x \<noteq> 0 \<and> m p = x \<and> cstr_at m (p + 1) xs"

fun blit :: "mem \<Rightarrow> addr \<Rightarrow> u8 list \<Rightarrow> mem" where
  "blit m p [] = m"
| "blit m p (x # xs) = blit (m(p := x)) (p + 1) xs"

definition bytes :: "mem \<Rightarrow> addr \<Rightarrow> nat \<Rightarrow> u8 list" where
  "bytes m p n = map m [p..<p + n]"

lemma bytes_0 [simp]: "bytes m p 0 = []"
  by (simp add: bytes_def)

lemma bytes_Suc: "bytes m p (Suc n) = m p # bytes m (p + 1) n"
  by (simp add: bytes_def upt_conv_Cons del: upt_Suc)

lemma length_bytes [simp]: "length (bytes m p n) = n"
  by (simp add: bytes_def)

lemma nth_bytes [simp]: "i < n \<Longrightarrow> bytes m p n ! i = m (p + i)"
  by (simp add: bytes_def)

lemma blit_apply: "blit m p xs a = (if p \<le> a \<and> a < p + length xs then xs ! (a - p) else m a)"
proof (induction xs arbitrary: m p)
  case (Cons x xs)
  have "blit m p (x # xs) a = blit (m(p := x)) (p + 1) xs a" by (simp del: fun_upd_apply)
  then show ?case by (auto simp: Cons.IH nth_Cons')
qed auto

lemma blit_outside: "a < p \<or> p + length xs \<le> a \<Longrightarrow> blit m p xs a = m a"
  by (auto simp: blit_apply)

lemma bytes_blit_same [simp]: "length xs = n \<Longrightarrow> bytes (blit m p xs) p n = xs"
  by (rule nth_equalityI) (auto simp: blit_apply)

lemma bytes_upd_outside: "a < p \<or> p + n \<le> a \<Longrightarrow> bytes (m(a := x)) p n = bytes m p n"
  by (rule nth_equalityI) auto

lemma cstr_at_upd_outside: "a < p \<or> p + length xs < a \<Longrightarrow> cstr_at (m(a := v)) p xs = cstr_at m p xs"
  by (induction xs arbitrary: p) auto

lemma cstr_at_iff:
  "cstr_at m p xs \<longleftrightarrow> bytes m p (length xs) = xs \<and> 0 \<notin> set xs \<and> m (p + length xs) = 0"
  by (induction xs arbitrary: p) (auto simp: bytes_Suc)

lemma cstr_at_blit [simp]: "0 \<notin> set xs \<Longrightarrow> cstr_at (blit m p (xs @ [0])) p xs"
  by (auto simp: cstr_at_iff blit_apply nth_append intro!: nth_equalityI)

lemma cstr_at_inj: "cstr_at m p xs \<Longrightarrow> cstr_at m p ys \<Longrightarrow> xs = ys"
proof (induction xs arbitrary: p ys)
  case Nil then show ?case by (cases ys) auto
next
  case (Cons x xs) then show ?case by (cases ys) auto
qed

subsection \<open>Lengths\<close>

lemma strlen_loop_cstr: "cstr_at m p xs \<Longrightarrow> strlen_loop m p = Some (p + length xs)"
  by (induction xs arbitrary: p) (auto simp: strlen_loop.simps)

lemma strlen_cstr [simp]: "cstr_at m p xs \<Longrightarrow> strlen m p = Some (length xs)"
  by (simp add: strlen_def strlen_loop_cstr)

lemma strnlen_loop_cstr: "cstr_at m p xs \<Longrightarrow> strnlen_loop m p n = p + min n (length xs)"
proof (induction n arbitrary: p xs)
  case (Suc n) then show ?case by (cases xs) auto
qed simp

lemma strnlen_cstr: "cstr_at m p xs \<Longrightarrow> strnlen m p n = min n (length xs)"
  by (simp add: strnlen_def strnlen_loop_cstr)

subsection \<open>Copies\<close>

lemma strcpy_loop_cstr:
  "cstr_at m src xs \<Longrightarrow> dest \<le> src \<or> src + length xs < dest \<Longrightarrow>
   strcpy_loop m dest src = Some (blit m dest (xs @ [0]))"
proof (induction xs arbitrary: m src dest)
  case Nil then show ?case by (simp add: strcpy_loop.simps del: fun_upd_apply)
next
  case (Cons x xs)
  then have "cstr_at (m(dest := x)) (src + 1) xs"
    by (subst cstr_at_upd_outside) auto
  with Cons show ?case by (subst strcpy_loop.simps) (auto simp: Let_def simp del: fun_upd_apply)
qed

lemma copy_up_blit:
  "dest \<le> src \<or> src + n \<le> dest \<Longrightarrow> copy_up m dest src n = blit m dest (bytes m src n)"
proof (induction n arbitrary: m dest src)
  case (Suc n)
  have "bytes (m(dest := m src)) (src + 1) n = bytes m (src + 1) n"
    using Suc.prems by (intro bytes_upd_outside) auto
  moreover have "dest + 1 \<le> src + 1 \<or> src + 1 + n \<le> dest + 1" using Suc.prems by auto
  ultimately show ?case by (simp add: Suc.IH bytes_Suc del: fun_upd_apply)
qed simp

lemma copy_down_apply:
  "src \<le> dest \<Longrightarrow> copy_down m dest src n a =
     (if dest \<le> a \<and> a < dest + n then m (src + (a - dest)) else m a)"
proof (induction n arbitrary: m)
  case (Suc n)
  then show ?case by (auto simp: Suc.IH)
qed auto

lemma copy_down_blit: "src \<le> dest \<Longrightarrow> copy_down m dest src n = blit m dest (bytes m src n)"
  by (rule ext) (auto simp: copy_down_apply blit_apply)

lemma memset_loop_blit: "memset_loop m p c n = blit m p (replicate n c)"
  by (induction n arbitrary: m p) auto

lemma strncpy_loop_cstr:
  "cstr_at m src xs \<Longrightarrow> dest \<le> src \<or> src + length xs < dest \<Longrightarrow>
   strncpy_loop m dest src n = blit m dest (take n (xs @ [0]))"
proof (induction xs arbitrary: m src dest n)
  case Nil then show ?case by (cases n) auto
next
  case (Cons x xs)
  then have "cstr_at (m(dest := x)) (src + 1) xs"
    by (subst cstr_at_upd_outside) auto
  with Cons show ?case by (cases n) (auto simp: Let_def simp del: fun_upd_apply)
qed

lemma strncat_loop_cstr:
  "cstr_at m src xs \<Longrightarrow> dest + 1 \<le> src \<or> src + length xs < dest \<Longrightarrow> 0 < n \<Longrightarrow>
   strncat_loop m dest src n = blit m dest (take n xs @ [0])"
proof (induction xs arbitrary: m src dest n)
  case Nil then show ?case by (cases n) auto
next
  case (Cons x xs)
  then have "cstr_at (m(dest := x)) (src + 1) xs"
    by (subst cstr_at_upd_outside) auto
  with Cons show ?case by (cases n) (auto simp: Let_def simp del: fun_upd_apply)
qed

subsection \<open>Comparisons\<close>

lemma memcmp_loop_zero: "memcmp_loop m p q n = 0 \<longleftrightarrow> bytes m p n = bytes m q n"
  by (induction n arbitrary: p q) (auto simp: bytes_Suc Let_def word_uint_eq_iff)

lemma memcmp_zero [simp]: "memcmp m p q n = 0 \<longleftrightarrow> bytes m p n = bytes m q n"
  by (simp add: memcmp_def memcmp_loop_zero)

lemma strncmp_loop_zero:
  "cstr_at m p xs \<Longrightarrow> cstr_at m q ys \<Longrightarrow>
   strncmp_loop m p q n 0 = 0 \<longleftrightarrow> take n xs = take n ys"
proof (induction n arbitrary: p q xs ys)
  case (Suc n)
  then show ?case by (cases xs; cases ys) (auto simp: Let_def)
qed simp

lemma strncmp_zero: "cstr_at m p xs \<Longrightarrow> cstr_at m q ys \<Longrightarrow> strncmp m p q n = 0 \<longleftrightarrow> take n xs = take n ys"
  by (simp add: strncmp_def strncmp_loop_zero signed_eq_0_iff)

lemma strcmp_total: "cstr_at m p xs \<Longrightarrow> cstr_at m q ys \<Longrightarrow> \<exists>r. strcmp m p q = Some r \<and> (r = 0 \<longleftrightarrow> xs = ys)"
proof (induction xs arbitrary: p q ys)
  case Nil
  then show ?case by (cases ys) (auto simp: strcmp.simps Let_def signed_eq_0_iff)
next
  case (Cons x xs)
  then show ?case
    by (cases ys) (subst strcmp.simps, auto simp: Let_def signed_eq_0_iff)+
qed

subsection \<open>The block copies\<close>

lemma memmove_blit: "memmove m dest src n = (blit m dest (bytes m src n), dest)"
  by (simp add: memmove_def copy_up_blit copy_down_blit)

lemma memcpy_blit:
  "dest \<le> src \<or> src + n \<le> dest \<Longrightarrow> memcpy m dest src n = (blit m dest (bytes m src n), dest)"
  by (simp add: memcpy_def copy_up_blit)

subsection \<open>Concatenation\<close>

lemma bytes_append: "bytes m p (j + k) = bytes m p j @ bytes m (p + j) k"
  by (rule nth_equalityI) (auto simp: nth_append)

lemma bytes_blit_before: "p + n \<le> q \<Longrightarrow> bytes (blit m q ys) p n = bytes m p n"
  by (rule nth_equalityI) (auto simp: blit_apply)

lemma cstr_at_blit_end:
  assumes "cstr_at m d xs" "0 \<notin> set ys"
  shows "cstr_at (blit m (d + length xs) (ys @ [0])) d (xs @ ys)"
proof -
  let ?m = "blit m (d + length xs) (ys @ [0])"
  have "bytes ?m d (length xs) = xs"
    using assms(1) by (simp add: bytes_blit_before cstr_at_iff)
  moreover have "bytes ?m (d + length xs) (length ys) = ys"
    by (rule nth_equalityI) (auto simp: blit_apply nth_append)
  ultimately show ?thesis
    using assms by (auto simp: cstr_at_iff bytes_append blit_apply nth_append)
qed

lemma cstr_no_nul: "cstr_at m p xs \<Longrightarrow> 0 \<notin> set xs"
  by (simp add: cstr_at_iff)

lemma strcat_cstr:
  assumes "cstr_at m d xs" "cstr_at m s ys" "d + length xs \<le> s \<or> s + length ys < d + length xs"
  shows "strcat m d s = Some (blit m (d + length xs) (ys @ [0]), d)"
  using assms by (simp add: strcat_def strlen_loop_cstr strcpy_loop_cstr)

lemma strncat_cstr:
  assumes "cstr_at m d xs" "cstr_at m s ys" "d + length xs < s \<or> s + length ys < d + length xs" "0 < n"
  shows "strncat m d s n = Some (blit m (d + length xs) (take n ys @ [0]), d)"
proof -
  have "strncat_loop m (d + length xs) s n = blit m (d + length xs) (take n ys @ [0])"
    using assms by (intro strncat_loop_cstr) auto
  with assms show ?thesis by (simp add: strncat_def strlen_loop_cstr)
qed

subsection \<open>Searches\<close>

lemma strchr_cstr:
  "cstr_at m p xs \<Longrightarrow> c \<noteq> 0 \<Longrightarrow>
   strchr m p c = Some (if c \<in> set xs then Some (p + length (takeWhile (\<lambda>x. x \<noteq> c) xs)) else None)"
proof (induction xs arbitrary: p)
  case Nil then show ?case by (subst strchr.simps) auto
next
  case (Cons x xs) then show ?case by (subst strchr.simps) auto
qed

lemma set_scan_cstr:
  "cstr_at m p xs \<Longrightarrow> \<exists>a. set_scan m c p = Some a \<and> (m a \<noteq> 0 \<longleftrightarrow> c \<in> set xs)"
proof (induction xs arbitrary: p)
  case Nil then show ?case by (subst set_scan.simps) auto
next
  case (Cons x xs) then show ?case by (subst set_scan.simps) auto
qed

lemma strspn_loop_cstr:
  assumes "cstr_at m q ys"
  shows "cstr_at m p xs \<Longrightarrow> strspn_loop m p q k = Some (k + length (takeWhile (\<lambda>c. c \<in> set ys) xs))"
proof (induction xs arbitrary: p k)
  case Nil then show ?case by (subst strspn_loop.simps) auto
next
  case (Cons x xs)
  obtain a where "set_scan m x q = Some a" "m a \<noteq> 0 \<longleftrightarrow> x \<in> set ys"
    using set_scan_cstr [OF assms] by blast
  with Cons show ?case by (subst strspn_loop.simps) auto
qed

lemma strspn_cstr:
  "cstr_at m p xs \<Longrightarrow> cstr_at m q ys \<Longrightarrow> strspn m p q = Some (length (takeWhile (\<lambda>c. c \<in> set ys) xs))"
  by (simp add: strspn_def strspn_loop_cstr)

lemma strpbrk_cstr:
  assumes "cstr_at m q ys"
  shows "cstr_at m p xs \<Longrightarrow>
    strpbrk m p q = Some (if \<exists>c\<in>set xs. c \<in> set ys
                          then Some (p + length (takeWhile (\<lambda>c. c \<notin> set ys) xs)) else None)"
proof (induction xs arbitrary: p)
  case Nil then show ?case by (subst strpbrk.simps) auto
next
  case (Cons x xs)
  obtain a where "set_scan m x q = Some a" "m a \<noteq> 0 \<longleftrightarrow> x \<in> set ys"
    using set_scan_cstr [OF assms] by blast
  with Cons show ?case by (subst strpbrk.simps) auto
qed

lemma cstr_at_drop: "cstr_at m p (xs @ ys) \<Longrightarrow> cstr_at m (p + length xs) ys"
proof (induction xs arbitrary: p)
  case (Cons x xs)
  then have "cstr_at m (p + 1 + length xs) ys" by (intro Cons.IH) simp
  then show ?case by simp
qed simp

lemma cstr_at_prefix_bytes: "cstr_at m p xs \<Longrightarrow> n \<le> length xs \<Longrightarrow> bytes m p n = take n xs"
proof -
  assume "cstr_at m p xs" "n \<le> length xs"
  then have "bytes m p (n + (length xs - n)) = xs" by (simp add: cstr_at_iff)
  then have "take n (bytes m p n @ bytes m (p + n) (length xs - n)) = take n xs"
    by (simp only: bytes_append)
  then show ?thesis by simp
qed

lemma prefix_iff_bytes:
  assumes "cstr_at m p xs" "cstr_at m q ys"
  shows "prefix ys xs \<longleftrightarrow> length ys \<le> length xs \<and> bytes m p (length ys) = bytes m q (length ys)"
proof -
  have "prefix ys xs \<longleftrightarrow> length ys \<le> length xs \<and> take (length ys) xs = ys"
    by (metis append_eq_conv_conj prefix_def prefix_length_le take_is_prefix)
  with assms show ?thesis by (auto simp: cstr_at_prefix_bytes)
qed

lemma strstr_loop_cstr:
  "cstr_at m p xs \<Longrightarrow> cstr_at m q ys \<Longrightarrow> ys \<noteq> [] \<Longrightarrow>
   strstr_loop m p q (length ys) (length xs) =
     (if \<exists>i. prefix ys (drop i xs) then Some (p + (LEAST i. prefix ys (drop i xs))) else None)"
proof (induction xs arbitrary: p)
  case (Cons x xs)
  have here: "prefix ys (x # xs) \<longleftrightarrow> length ys \<le> Suc (length xs) \<and> bytes m p (length ys) = bytes m q (length ys)"
    using prefix_iff_bytes [OF Cons.prems(1, 2)] by simp
  have tail: "(\<exists>i. prefix ys (drop i (x # xs))) \<longleftrightarrow> prefix ys (x # xs) \<or> (\<exists>i. prefix ys (drop i xs))"
    by (metis drop0 drop_Suc_Cons not0_implies_Suc)
  have least: "(LEAST i. prefix ys (drop i (x # xs))) = Suc (LEAST i. prefix ys (drop i xs))"
    if "\<not> prefix ys (x # xs)" "prefix ys (drop j xs)" for j
    using Least_Suc [of "\<lambda>i. prefix ys (drop i (x # xs))" "Suc j"] that by simp
  have long: "\<not> prefix ys (drop i xs)" if "length xs < length ys" for i
    using that prefix_length_le [of ys "drop i xs"] by auto
  have first: "(LEAST i. prefix ys (drop i (x # xs))) = 0" if "prefix ys (x # xs)"
    using that by (simp add: Least_eq_0)
  show ?case
  proof (cases "prefix ys (x # xs)")
    case True
    with here tail first show ?thesis by simp
  next
    case False
    show ?thesis
    proof (cases "length ys \<le> Suc (length xs)")
      case True
      with False here have "strstr_loop m p q (length ys) (length (x # xs)) =
          strstr_loop m (p + 1) q (length ys) (length xs)" by simp
      with Cons False tail least show ?thesis by auto
    next
      case gt: False
      with False tail long show ?thesis by simp
    qed
  qed
qed simp

subsection \<open>Tokens\<close>

lemma split_token:
  "xs = takeWhile P xs @ takeWhile (\<lambda>c. \<not> P c) (dropWhile P xs) @ dropWhile (\<lambda>c. \<not> P c) (dropWhile P xs)"
  by simp

lemma cstr_at_cut:
  assumes "cstr_at m p (xs @ y # ys)"
  shows "cstr_at (m(p + length xs := 0)) p xs" "cstr_at (m(p + length xs := 0)) (p + length xs + 1) ys"
proof -
  have "bytes (m(p + length xs := 0)) p (length xs) = bytes m p (length xs)"
    by (simp add: bytes_upd_outside)
  also have "\<dots> = xs" using cstr_at_prefix_bytes [OF assms, of "length xs"] by simp
  finally show "cstr_at (m(p + length xs := 0)) p xs"
    using cstr_no_nul [OF assms] by (auto simp: cstr_at_iff)
  have "cstr_at m (p + length xs + 1) ys" using cstr_at_drop [OF assms] by simp
  then show "cstr_at (m(p + length xs := 0)) (p + length xs + 1) ys"
    by (subst cstr_at_upd_outside) auto
qed

text \<open>The bytes before the token, the token and what is left after the separator that ends it.\<close>

definition tok_skip :: "u8 list \<Rightarrow> u8 list \<Rightarrow> nat" where
  "tok_skip seps xs = length (takeWhile (\<lambda>c. c \<in> set seps) xs)"

definition tok_head :: "u8 list \<Rightarrow> u8 list \<Rightarrow> u8 list" where
  "tok_head seps xs = takeWhile (\<lambda>c. c \<notin> set seps) (dropWhile (\<lambda>c. c \<in> set seps) xs)"

definition tok_rest :: "u8 list \<Rightarrow> u8 list \<Rightarrow> u8 list" where
  "tok_rest seps xs = dropWhile (\<lambda>c. c \<notin> set seps) (dropWhile (\<lambda>c. c \<in> set seps) xs)"

lemma cstr_at_skip: "cstr_at m p xs \<Longrightarrow> cstr_at m (p + tok_skip seps xs) (dropWhile (\<lambda>c. c \<in> set seps) xs)"
  unfolding tok_skip_def by (rule cstr_at_drop) simp

lemma takeWhile_all: "\<forall>c\<in>set xs. P c \<Longrightarrow> takeWhile P xs = xs"
  by (induction xs) auto

lemma cstr_at_head_nonzero: "cstr_at m p xs \<Longrightarrow> m p = 0 \<longleftrightarrow> xs = []"
  by (cases xs) auto

lemma strtok_result:
  assumes "cstr_at m p xs" "cstr_at m q seps"
  shows "strtok m saved (Some p) q =
    (if tok_head seps xs = [] then Some (m, None, None)
     else let b = p + tok_skip seps xs; e = b + length (tok_head seps xs) in
          if tok_rest seps xs = [] then Some (m, None, Some b) else Some (m(e := 0), Some (e + 1), Some b))"
proof -
  define ys where "ys = dropWhile (\<lambda>c. c \<in> set seps) xs"
  have ys: "cstr_at m (p + tok_skip seps xs) ys" unfolding ys_def by (rule cstr_at_skip [OF assms(1)])
  have head0: "tok_head seps xs = [] \<longleftrightarrow> ys = []"
    using hd_dropWhile [of "\<lambda>c. c \<in> set seps" xs] unfolding tok_head_def ys_def [symmetric]
    by (cases ys) (auto split: if_splits)
  have rest0: "(\<exists>c\<in>set ys. c \<in> set seps) \<longleftrightarrow> tok_rest seps xs \<noteq> []"
    by (auto simp: tok_rest_def ys_def [symmetric])
  have nz: "m (p + tok_skip seps xs + length (tok_head seps xs)) \<noteq> 0" if "tok_rest seps xs \<noteq> []"
  proof -
    have "cstr_at m (p + tok_skip seps xs + length (tok_head seps xs)) (tok_rest seps xs)"
      unfolding tok_head_def tok_rest_def ys_def [symmetric] using ys by (intro cstr_at_drop) simp
    with that show ?thesis by (simp add: cstr_at_head_nonzero)
  qed
  have spn: "strspn m p q = Some (tok_skip seps xs)"
    using strspn_cstr [OF assms] by (simp add: tok_skip_def)
  have pbrk: "strpbrk m (p + tok_skip seps xs) q =
      Some (if tok_rest seps xs \<noteq> [] then Some (p + tok_skip seps xs + length (tok_head seps xs)) else None)"
    using strpbrk_cstr [OF assms(2) ys] rest0 by (simp add: tok_head_def ys_def)
  show ?thesis
  proof (cases "ys = []")
    case True
    with ys head0 show ?thesis by (simp add: strtok_def spn Let_def)
  next
    case False
    with ys have "m (p + tok_skip seps xs) \<noteq> 0" by (simp add: cstr_at_head_nonzero)
    with False head0 nz show ?thesis by (simp add: strtok_def spn pbrk Let_def)
  qed
qed

subsection \<open>Order\<close>

lemma sint_diff_7bit:
  assumes "unat (x :: u8) < 128" "unat (y :: u8) < 128"
  shows "sint (x - y) = int (unat x) - int (unat y)"
proof -
  have "x - y = word_of_int (int (unat x) - int (unat y))"
    by simp
  then have "sint (x - y) = signed_take_bit 7 (int (unat x) - int (unat y))"
    by (simp only: signed_of_int) simp
  also have "\<dots> = int (unat x) - int (unat y)"
  proof (rule signed_take_bit_int_eq_self)
    have "- (2 ^ 7) \<le> int a - int b \<and> int a - int b < 2 ^ 7" if "a < 128" "b < 128" for a b
      using that by simp
    from this [OF assms] show "- (2 ^ 7) \<le> int (unat x) - int (unat y)" "int (unat x) - int (unat y) < 2 ^ 7"
      by blast+
  qed
  finally show ?thesis .
qed

fun lex_less :: "u8 list \<Rightarrow> u8 list \<Rightarrow> bool" where
  "lex_less _ [] \<longleftrightarrow> False"
| "lex_less [] (y # ys) \<longleftrightarrow> True"
| "lex_less (x # xs) (y # ys) \<longleftrightarrow> x < y \<or> x = y \<and> lex_less xs ys"

lemma lex_less_trichotomy: "xs = ys \<or> lex_less xs ys \<or> lex_less ys xs"
proof (induction xs ys rule: lex_less.induct)
  case (1 xs) then show ?case by (cases xs) auto
qed auto

lemma lex_less_irrefl [simp]: "\<not> lex_less xs xs"
  by (induction xs) auto

lemma lex_less_asym: "\<not> (lex_less xs ys \<and> lex_less ys xs)"
  by (induction xs ys rule: lex_less.induct) auto

lemma strcmp_7bit:
  "cstr_at m p xs \<Longrightarrow> cstr_at m q ys \<Longrightarrow> \<forall>c\<in>set xs \<union> set ys. unat c < 128 \<Longrightarrow>
   \<exists>r. strcmp m p q = Some r \<and> (r < 0 \<longleftrightarrow> lex_less xs ys) \<and> (r = 0 \<longleftrightarrow> xs = ys)"
proof (induction xs ys arbitrary: p q rule: lex_less.induct)
  case (1 xs)
  show ?case
  proof (cases xs)
    case Nil with 1 show ?thesis by (subst strcmp.simps) (auto simp: Let_def)
  next
    case (Cons x xs')
    with 1 have "sint (x - 0) = int (unat x) - int (unat (0 :: u8))" by (intro sint_diff_7bit) auto
    with 1 Cons show ?thesis
      by (subst strcmp.simps) (auto simp: Let_def signed_eq_0_iff)
  qed
next
  case (2 y ys)
  then have "sint (0 - y) = int (unat (0 :: u8)) - int (unat y)" by (intro sint_diff_7bit) auto
  with 2 show ?case
    by (subst strcmp.simps) (auto simp: Let_def)
next
  case (3 x xs y ys)
  then have d: "sint (x - y) = int (unat x) - int (unat y)" by (intro sint_diff_7bit) auto
  show ?case
  proof (cases "x = y")
    case True with 3 show ?thesis by (subst strcmp.simps) (auto simp: Let_def)
  next
    case False
    then have "uint x \<noteq> uint y" by (simp add: word_uint_eq_iff)
    moreover have "strcmp m p q = Some (sint (x - y))"
      using 3 False by (subst strcmp.simps) (simp add: Let_def)
    ultimately show ?thesis using False d by (simp add: word_less_def)
  qed
qed

subsection \<open>The contracts of the library\<close>

text \<open>\<open>memmove\<close> moves a block correctly however source and destination overlap: afterwards the
  destination holds the bytes the source held before, every other byte of the memory is unchanged,
  and the destination is returned.\<close>

theorem memmove_moves:
  "bytes (fst (memmove m dest src n)) dest n = bytes m src n \<and>
   (\<forall>a. a < dest \<or> dest + n \<le> a \<longrightarrow> fst (memmove m dest src n) a = m a) \<and>
   snd (memmove m dest src n) = dest"
  by (simp add: memmove_blit blit_outside)

theorem memmove_moves_witness:
  "let m = blit (\<lambda>_. 0) 10 [1, 2, 3, 4, 5] in
   bytes (fst (memmove m 11 10 4)) 11 4 = [1, 2, 3, 4] \<and> fst (memmove m 11 10 4) 10 = 1"
  using memmove_moves [of "blit (\<lambda>_. 0) 10 [1, 2, 3, 4, 5]" 11 10 4]
  by (simp add: Let_def blit_apply bytes_def upt_rec)

text \<open>\<open>strncat\<close> of two strings in memory returns (its loops end), leaves at the destination the
  first string followed by at most \<open>n\<close> bytes of the second and a NUL, and writes no byte outside the
  \<open>min n (length ys) + 1\<close> bytes from the old terminator on.\<close>

theorem strncat_appends:
  assumes "cstr_at m d xs" "cstr_at m s ys" "d + length xs < s \<or> s + length ys < d + length xs"
  shows "\<exists>m'. strncat m d s n = Some (m', d) \<and> cstr_at m' d (xs @ take n ys) \<and>
    (\<forall>a. a < d + length xs \<or> d + length xs + min n (length ys) < a \<longrightarrow> m' a = m a)"
proof (cases "n = 0")
  case True
  with assms show ?thesis by (simp add: strncat_def)
next
  case False
  let ?m = "blit m (d + length xs) (take n ys @ [0])"
  have "0 \<notin> set (take n ys)" using cstr_no_nul [OF assms(2)] in_set_takeD by fastforce
  then have "cstr_at ?m d (xs @ take n ys)" by (rule cstr_at_blit_end [OF assms(1)])
  moreover have "\<forall>a. a < d + length xs \<or> d + length xs + min n (length ys) < a \<longrightarrow> ?m a = m a"
    by (intro allI impI blit_outside) (auto simp: min.commute)
  ultimately show ?thesis using strncat_cstr [OF assms, of n] False by blast
qed

theorem strncat_appends_witness:
  "\<exists>m'. strncat (blit (\<lambda>_. 0) 20 [97, 98, 99]) 10 20 2 = Some (m', 10) \<and> cstr_at m' 10 [97, 98]"
  using strncat_appends [of "blit (\<lambda>_. 0) 20 [97, 98, 99]" 10 "[]" 20 "[97, 98, 99]" 2]
  by (auto simp: blit_apply)

text \<open>\<open>strstr\<close> on two strings in memory ends and finds the leftmost occurrence: it returns the
  address of the least offset at which the second string is a prefix of the rest of the first, and
  NULL exactly when there is none.\<close>

theorem strstr_leftmost:
  assumes "cstr_at m p xs" "cstr_at m q ys"
  shows "strstr m p q =
    Some (if \<exists>i. prefix ys (drop i xs) then Some (p + (LEAST i. prefix ys (drop i xs))) else None)"
proof (cases "ys = []")
  case True
  with strlen_cstr [OF assms(2)] show ?thesis by (simp add: strstr_def Least_eq_0)
next
  case False
  with assms show ?thesis by (simp add: strstr_def strstr_loop_cstr)
qed

theorem strstr_leftmost_witness:
  "strstr (blit (blit (\<lambda>_. 0) 20 [97, 98, 97]) 10 [97]) 20 10 = Some (Some 20)"
  using strstr_leftmost [of "blit (blit (\<lambda>_. 0) 20 [97, 98, 97]) 10 [97]" 20 "[97, 98, 97]" 10 "[97]"]
  by (auto simp: blit_apply Least_eq_0 split: if_splits intro: exI [of _ 0] dest: spec [of _ 0])

text \<open>A first call of \<open>strtok\<close> on a string in memory skips the leading separators, returns the
  longest separator-free run after them as a terminated string, and saves the position just behind
  the separator it overwrote, where the rest of the string is still intact; when there is no token it
  returns NULL and changes nothing.\<close>

theorem strtok_takes_token:
  assumes "cstr_at m p xs" "cstr_at m q seps"
  shows "if tok_head seps xs = [] then strtok m saved (Some p) q = Some (m, None, None)
    else \<exists>m' saved'. strtok m saved (Some p) q = Some (m', saved', Some (p + tok_skip seps xs)) \<and>
      cstr_at m' (p + tok_skip seps xs) (tok_head seps xs) \<and>
      (case saved' of None \<Rightarrow> tok_rest seps xs = [] | Some r \<Rightarrow> cstr_at m' r (tl (tok_rest seps xs)))"
proof (cases "tok_head seps xs = []")
  case True
  then show ?thesis using strtok_result [OF assms] by simp
next
  case ne: False
  have split: "cstr_at m (p + tok_skip seps xs) (tok_head seps xs @ tok_rest seps xs)"
    using cstr_at_skip [OF assms(1), of seps] by (simp add: tok_head_def tok_rest_def)
  show ?thesis
  proof (cases "tok_rest seps xs")
    case Nil
    with ne split strtok_result [OF assms] show ?thesis by (simp add: Let_def)
  next
    case (Cons r rs)
    with cstr_at_cut [of m "p + tok_skip seps xs" "tok_head seps xs" r rs] ne split strtok_result [OF assms]
    show ?thesis by (simp add: Let_def del: fun_upd_apply)
  qed
qed

theorem strtok_takes_token_witness:
  "\<exists>m' saved'. strtok (blit (blit (\<lambda>_. 0) 20 [32, 97, 32, 98]) 10 [32]) None (Some 20) 10
     = Some (m', saved', Some 21) \<and> cstr_at m' 21 [97]"
  using strtok_takes_token [of "blit (blit (\<lambda>_. 0) 20 [32, 97, 32, 98]) 10 [32]" 20 "[32, 97, 32, 98]" 10 "[32]" None]
  by (auto simp: blit_apply tok_head_def tok_skip_def)

text \<open>On strings of 7-bit bytes \<open>strcmp\<close> returns a value whose sign is the lexicographic order of
  the two strings, zero exactly for equal strings.\<close>

theorem strcmp_is_order:
  assumes "cstr_at m p xs" "cstr_at m q ys" "\<forall>c\<in>set xs \<union> set ys. unat c < 128"
  shows "\<exists>r. strcmp m p q = Some r \<and> (r < 0 \<longleftrightarrow> lex_less xs ys) \<and> (r = 0 \<longleftrightarrow> xs = ys) \<and>
    (r > 0 \<longleftrightarrow> lex_less ys xs)"
proof -
  obtain r where r: "strcmp m p q = Some r" "r < 0 \<longleftrightarrow> lex_less xs ys" "r = 0 \<longleftrightarrow> xs = ys"
    using strcmp_7bit [OF assms] by blast
  have "\<not> (lex_less xs ys \<and> lex_less ys xs)" by (rule lex_less_asym)
  then have "r > 0 \<longleftrightarrow> lex_less ys xs"
    using r(2, 3) lex_less_trichotomy [of xs ys] lex_less_irrefl [of ys] by (cases "r = 0") auto
  with r show ?thesis by blast
qed

theorem strcmp_is_order_witness:
  "\<exists>r. strcmp (blit (blit (\<lambda>_. 0) 20 [97, 98]) 10 [97, 99]) 20 10 = Some r \<and> r < 0"
  using strcmp_is_order [of "blit (blit (\<lambda>_. 0) 20 [97, 98]) 10 [97, 99]" 20 "[97, 98]" 10 "[97, 99]"]
  by (auto simp: blit_apply)

text \<open>For bytes above 127 the sign can be wrong: the difference is truncated to a \<open>signed char\<close>, so the
  one-byte strings 0xff and 0x01 compare as if the first were smaller.\<close>

lemma strcmp_sign_wrong:
  "strcmp (blit (blit (\<lambda>_. 0) 20 [0xff]) 10 [0x01]) 20 10 = Some (- 2)"
  by (subst strcmp.simps) (simp add: Let_def blit_apply)

end
