(* ===== verification/Crc32.thy ===== *)
theory Crc32
  imports UB_Prelude
begin

text \<open>
  \<open>lib_generic/crc32.c\<close>: the CRC-32 of the environment and of the image headers. The table is
  built at the first call and cached in the statics \<open>crc_table\<close> and \<open>crc_table_empty\<close>; the checksum
  loop is unrolled eight times. The lemmas show that the unrolled table-driven loop is the bit-serial
  division, that checksums compose over concatenation, and that a checksum changes whenever the bytes
  inside one byte position change.
\<close>

subsection \<open>The code\<close>

record crc_state =
  crc_table_empty :: bool
  crc_table :: "u32 list"

definition crc_terms :: "nat list" where
  "crc_terms = [0,1,2,4,5,7,8,10,11,12,16,22,23,26]"

definition crc_poly :: u32 where
  "crc_poly = foldl (\<lambda>poly n. poly OR push_bit (31 - n) 1) 0 crc_terms"

definition crc_shift :: "u32 \<Rightarrow> u32" where
  "crc_shift c = (if c AND 1 \<noteq> 0 then crc_poly XOR drop_bit 1 c else drop_bit 1 c)"

definition crc_table_entry :: "nat \<Rightarrow> u32" where
  "crc_table_entry n = (crc_shift ^^ 8) (of_nat n)"

definition make_crc_table :: "crc_state \<Rightarrow> crc_state" where
  "make_crc_table s = s\<lparr>crc_table := map crc_table_entry [0..<256], crc_table_empty := False\<rparr>"

definition DO1 :: "u32 list \<Rightarrow> u32 \<Rightarrow> u8 \<Rightarrow> u32" where
  "DO1 tab crc b = tab ! unat ((crc XOR ucast b) AND 0xff) XOR drop_bit 8 crc"

definition DO2 :: "u32 list \<Rightarrow> u32 \<Rightarrow> u8 \<Rightarrow> u8 \<Rightarrow> u32" where
  "DO2 tab crc b0 b1 = DO1 tab (DO1 tab crc b0) b1"

definition DO4 :: "u32 list \<Rightarrow> u32 \<Rightarrow> u8 \<Rightarrow> u8 \<Rightarrow> u8 \<Rightarrow> u8 \<Rightarrow> u32" where
  "DO4 tab crc b0 b1 b2 b3 = DO2 tab (DO2 tab crc b0 b1) b2 b3"

fun crc_loop :: "u32 list \<Rightarrow> u32 \<Rightarrow> u8 list \<Rightarrow> u32" where
  "crc_loop tab crc (b0 # b1 # b2 # b3 # b4 # b5 # b6 # b7 # bs) =
     crc_loop tab (DO4 tab (DO4 tab crc b0 b1 b2 b3) b4 b5 b6 b7) bs"
| "crc_loop tab crc (b # bs) = crc_loop tab (DO1 tab crc b) bs"
| "crc_loop tab crc [] = crc"

definition crc32 :: "crc_state \<Rightarrow> u32 \<Rightarrow> u8 list \<Rightarrow> crc_state \<times> u32" where
  "crc32 s crc buf =
     (let s = (if crc_table_empty s then make_crc_table s else s) in
      (s, crc_loop (crc_table s) (crc XOR 0xffffffff) buf XOR 0xffffffff))"

definition crc32_no_comp :: "crc_state \<Rightarrow> u32 \<Rightarrow> u8 list \<Rightarrow> crc_state \<times> u32" where
  "crc32_no_comp s crc buf =
     (let s = (if crc_table_empty s then make_crc_table s else s) in
      (s, crc_loop (crc_table s) crc buf))"

subsection \<open>The bit-serial reference\<close>

definition crc_byte :: "u32 \<Rightarrow> u8 \<Rightarrow> u32" where
  "crc_byte c b = (crc_shift ^^ 8) (c XOR ucast b)"

definition crc_ref :: "u32 \<Rightarrow> u8 list \<Rightarrow> u32" where
  "crc_ref c bs = foldl crc_byte c bs"

definition crc_wf :: "crc_state \<Rightarrow> bool" where
  "crc_wf s \<longleftrightarrow> crc_table_empty s \<or> crc_table s = map crc_table_entry [0..<256]"

lemma crc_poly_value: "crc_poly = 0xedb88320"
  by (simp add: crc_poly_def crc_terms_def)

lemma crc_shift_alt: "crc_shift c = (if bit c 0 then 0xedb88320 else 0) XOR drop_bit 1 c"
  by (simp add: crc_shift_def crc_poly_value bit_0 and_one_eq odd_iff_mod_2_eq_one)

lemma crc_shift_xor: "crc_shift (x XOR y) = crc_shift x XOR crc_shift y"
  by (simp add: crc_shift_alt bit_xor_iff drop_bit_xor ac_simps)

lemma crc_shift_pow_xor: "(crc_shift ^^ n) (x XOR y) = (crc_shift ^^ n) x XOR (crc_shift ^^ n) y"
  by (induction n) (simp_all add: crc_shift_xor)

lemma crc_shift_even: "\<not> bit c 0 \<Longrightarrow> crc_shift c = drop_bit 1 c"
  by (simp add: crc_shift_alt)

lemma crc_shift_pow_zeros: "(\<forall>i<n. \<not> bit x i) \<Longrightarrow> (crc_shift ^^ n) x = drop_bit n x"
proof (induction n)
  case (Suc n)
  then have "(crc_shift ^^ n) x = drop_bit n x" "\<not> bit (drop_bit n x) 0"
    by (simp_all add: bit_drop_bit_eq)
  then show ?case by (simp add: crc_shift_even)
qed simp

lemma u32_ff_mask: "(0xff :: u32) = mask 8"
  by (simp add: mask_eq_exp_minus_1)

lemma crc_table_byte: "(crc_shift ^^ 8) x = (crc_shift ^^ 8) (x AND 0xff) XOR drop_bit 8 x"
proof -
  have "x = (x AND 0xff) XOR (x AND NOT 0xff)"
    by (rule bit_word_eqI) (auto simp: bit_simps)
  moreover have "(crc_shift ^^ 8) (x AND NOT 0xff) = drop_bit 8 (x AND NOT 0xff)"
    by (rule crc_shift_pow_zeros) (simp add: u32_ff_mask bit_simps del: mask_numeral)
  moreover have "drop_bit 8 (x AND NOT 0xff) = drop_bit 8 x"
    unfolding u32_ff_mask
    by (rule bit_word_eqI) (auto simp: bit_simps simp del: mask_numeral dest: bit_u32_bound)
  ultimately show ?thesis by (metis crc_shift_pow_xor)
qed

lemma DO1_is_crc_byte: "DO1 (map crc_table_entry [0..<256]) crc b = crc_byte crc b"
proof -
  let ?x = "crc XOR ucast b :: u32"
  have "drop_bit 8 ?x = drop_bit 8 crc"
    by (rule bit_word_eqI) (auto simp: bit_simps dest: bit_u8_bound)
  moreover have "map crc_table_entry [0..<256] ! unat (?x AND 0xff) = (crc_shift ^^ 8) (?x AND 0xff)"
    using unat_and_ff [of ?x] by (simp add: crc_table_entry_def del: upt_Suc)
  ultimately show ?thesis
    using crc_table_byte [of ?x] by (simp only: DO1_def crc_byte_def)
qed

lemma crc_loop_ref: "crc_loop (map crc_table_entry [0..<256]) c bs = crc_ref c bs"
  by (induction "map crc_table_entry [0..<256]" c bs rule: crc_loop.induct)
     (simp_all add: DO4_def DO2_def DO1_is_crc_byte crc_ref_def)

subsection \<open>Injectivity of the register\<close>

lemma crc_shift_bit31: "bit (crc_shift c) 31 \<longleftrightarrow> bit c 0"
  by (auto simp: crc_shift_alt bit_simps dest: bit_u32_bound)

lemma crc_shift_inj: "crc_shift x = crc_shift y \<Longrightarrow> x = y"
proof -
  assume eq: "crc_shift x = crc_shift y"
  then have b0: "bit x 0 \<longleftrightarrow> bit y 0" by (metis crc_shift_bit31)
  with eq have d: "drop_bit 1 x = drop_bit 1 y"
    by (simp add: crc_shift_alt word_xor_left_cancel split: if_splits)
  have tl: "bit x (Suc n) \<longleftrightarrow> bit y (Suc n)" for n
  proof -
    have "bit (drop_bit 1 x) n = bit (drop_bit 1 y) n" by (simp only: d)
    then show ?thesis by (simp add: bit_drop_bit_eq)
  qed
  show "x = y"
  proof (rule bit_word_eqI)
    fix n show "bit x n \<longleftrightarrow> bit y n" using b0 tl by (cases n) auto
  qed
qed

lemma crc_shift_pow_inj: "(crc_shift ^^ n) x = (crc_shift ^^ n) y \<Longrightarrow> x = y"
  by (induction n) (auto dest: crc_shift_inj)

lemma crc_byte_inj_state: "crc_byte c b = crc_byte d b \<Longrightarrow> c = d"
  unfolding crc_byte_def by (drule crc_shift_pow_inj) (simp add: word_xor_right_cancel)

lemma crc_byte_inj_byte: "crc_byte c a = crc_byte c b \<Longrightarrow> a = b"
proof -
  assume "crc_byte c a = crc_byte c b"
  then have "c XOR ucast a = c XOR (ucast b :: u32)" unfolding crc_byte_def by (rule crc_shift_pow_inj)
  then show "a = b" by (simp add: word_xor_left_cancel ucast_u8_u32_inj)
qed

lemma crc_ref_inj: "crc_ref c bs = crc_ref d bs \<Longrightarrow> c = d"
  by (induction bs arbitrary: c d) (auto simp: crc_ref_def dest: crc_byte_inj_state)

lemma crc_ref_append: "crc_ref c (xs @ ys) = crc_ref (crc_ref c xs) ys"
  by (simp add: crc_ref_def)

lemma crc32_ref:
  "crc_wf s \<Longrightarrow> snd (crc32 s c bs) = crc_ref (c XOR 0xffffffff) bs XOR 0xffffffff"
  by (auto simp: crc32_def Let_def crc_wf_def make_crc_table_def crc_loop_ref simp del: upt_Suc upt_rec_numeral)

lemma crc32_wf: "crc_wf s \<Longrightarrow> crc_wf (fst (crc32 s c bs)) \<and> \<not> crc_table_empty (fst (crc32 s c bs))"
  by (auto simp: crc32_def Let_def crc_wf_def make_crc_table_def simp del: upt_Suc upt_rec_numeral)

lemma crc_shift_8:
  "(crc_shift ^^ 8) x = crc_shift (crc_shift (crc_shift (crc_shift (crc_shift (crc_shift (crc_shift (crc_shift x)))))))"
  by (simp add: eval_nat_numeral)

lemmas crc_eval = crc_shift_8 crc_shift_def crc_poly_value

lemma crc32_byte_sensitive:
  assumes "crc_wf s" "a \<noteq> b"
  shows "snd (crc32 s c (xs @ a # ys)) \<noteq> snd (crc32 s c (xs @ b # ys))"
proof
  assume "snd (crc32 s c (xs @ a # ys)) = snd (crc32 s c (xs @ b # ys))"
  then have "crc_ref (c XOR 0xffffffff) (xs @ a # ys) = crc_ref (c XOR 0xffffffff) (xs @ b # ys)"
    by (simp only: crc32_ref [OF assms(1)] word_xor_right_cancel)
  then have "crc_ref (crc_byte (crc_ref (c XOR 0xffffffff) xs) a) ys = crc_ref (crc_byte (crc_ref (c XOR 0xffffffff) xs) b) ys"
    by (simp only: crc_ref_def foldl_append foldl.simps)
  then have "crc_byte (crc_ref (c XOR 0xffffffff) xs) a = crc_byte (crc_ref (c XOR 0xffffffff) xs) b"
    by (rule crc_ref_inj)
  then have "a = b" by (rule crc_byte_inj_byte)
  with assms(2) show False ..
qed

subsection \<open>What the checksum promises\<close>

text \<open>C24: \<open>crc32\<close> equals its bit-serial definition: from any state in which the cached table is either
  not built or correct, the table-driven, eight-fold unrolled loop returns the remainder computed one
  bit at a time, and leaves a built, correct table.\<close>

theorem crc32_is_bit_serial:
  assumes "crc_wf s"
  shows "snd (crc32 s c bs) = crc_ref (c XOR 0xffffffff) bs XOR 0xffffffff \<and>
    crc_wf (fst (crc32 s c bs)) \<and> \<not> crc_table_empty (fst (crc32 s c bs))"
  using crc32_ref [OF assms] crc32_wf [OF assms] by blast

theorem crc32_is_bit_serial_witness:
  "snd (crc32 \<lparr>crc_table_empty = True, crc_table = []\<rparr> 0 [0x61]) = 0xe8b7be43"
  using crc32_is_bit_serial [of "\<lparr>crc_table_empty = True, crc_table = []\<rparr>" 0 "[0x61]"]
  by (simp add: crc_wf_def crc_ref_def crc_byte_def crc_eval)

text \<open>The checksum of a stream can be computed piecewise: feeding the checksum of a first part back
  as the start value of the second gives the checksum of the whole, which is how callers chain buffers.\<close>

theorem crc32_chains:
  assumes "crc_wf s"
  shows "snd (crc32 (fst (crc32 s c xs)) (snd (crc32 s c xs)) ys) = snd (crc32 s c (xs @ ys))"
  using crc32_ref [OF assms] crc32_ref [of "fst (crc32 s c xs)"] crc32_wf [OF assms]
  by (simp add: crc_ref_append xor.assoc)

theorem crc32_chains_witness:
  "let s = \<lparr>crc_table_empty = True, crc_table = []\<rparr> in
   snd (crc32 (fst (crc32 s 0 [1])) (snd (crc32 s 0 [1])) [2]) = snd (crc32 s 0 [1, 2])"
  using crc32_chains [of "\<lparr>crc_table_empty = True, crc_table = []\<rparr>" 0 "[1]" "[2]"]
  by (simp add: crc_wf_def Let_def)

text \<open>A corrupted byte is always detected: two buffers that differ in exactly one byte, anywhere,
  have different checksums, whatever the start value.\<close>

theorem crc32_detects_byte:
  assumes "crc_wf s" "a \<noteq> b"
  shows "snd (crc32 s c (xs @ a # ys)) \<noteq> snd (crc32 s c (xs @ b # ys))"
  using assms by (rule crc32_byte_sensitive)

theorem crc32_detects_byte_witness:
  "snd (crc32 \<lparr>crc_table_empty = True, crc_table = []\<rparr> 0 ([1, 2] @ 3 # [4]))
     \<noteq> snd (crc32 \<lparr>crc_table_empty = True, crc_table = []\<rparr> 0 ([1, 2] @ 5 # [4]))"
  by (rule crc32_detects_byte) (simp_all add: crc_wf_def)

end
