(* ===== verification/Lists.thy ===== *)
theory Lists
  imports UB_Prelude "HOL-Library.Monad_Syntax"
begin

text \<open>
  \<open>common/lists.c\<close>: growable arrays behind a handle. The model keeps the handle's block of bytes: a
  \<open>ListStruct\<close> header (six ints, 24 bytes, and the padding of \<open>itemList[1]\<close>, so that a list of capacity
  \<open>n\<close> owns \<open>n * itemSize + 4\<close> item bytes) and the item bytes. Every copy is checked against the block;
  one that leaves it is \<open>None\<close>. Whether \<open>realloc\<close> can provide a size is the parameter \<open>mem_ok\<close>. A
  \<open>NULL\<close> list or item pointer is \<open>None\<close> of an option argument.
\<close>

subsection \<open>Handles and blocks\<close>

record clist =
  percentIncrease :: int
  minNumItemsIncrease :: int
  listSize :: int
  itemSize :: int
  numItems :: int
  itemList :: "u8 list"

definition LIST_START :: int where "LIST_START = - 1"
definition LIST_END :: int where "LIST_END = 0"

text \<open>\<open>sizeof (ListStruct)\<close>, and the offset of \<open>itemList\<close> in it.\<close>

definition sizeof_ListStruct :: int where "sizeof_ListStruct = 28"
definition items_offset :: int where "items_offset = 24"

definition GetHandleSize :: "clist \<Rightarrow> int" where
  "GetHandleSize l = items_offset + int (length (itemList l))"

definition SetHandleSize :: "(int \<Rightarrow> bool) \<Rightarrow> clist \<Rightarrow> int \<Rightarrow> clist \<times> bool" where
  "SetHandleSize mem_ok l newSize =
     (let oldSize = GetHandleSize l in
      if oldSize = newSize then (l, True)
      else if mem_ok newSize \<or> newSize = 0
      then (l\<lparr>itemList := take (nat (newSize - items_offset)) (itemList l) @ replicate (nat (newSize - oldSize)) 0\<rparr>, True)
      else (l, False))"

definition block_put :: "u8 list \<Rightarrow> int \<Rightarrow> u8 list \<Rightarrow> u8 list option" where
  "block_put m dst bs =
     (if 0 \<le> dst \<and> dst + int (length bs) \<le> int (length m)
      then Some (take (nat dst) m @ bs @ drop (nat dst + length bs) m) else None)"

definition block_get :: "u8 list \<Rightarrow> int \<Rightarrow> int \<Rightarrow> u8 list option" where
  "block_get m src n =
     (if 0 \<le> src \<and> 0 \<le> n \<and> src + n \<le> int (length m) then Some (take (nat n) (drop (nat src) m)) else None)"

definition block_move :: "u8 list \<Rightarrow> int \<Rightarrow> int \<Rightarrow> int \<Rightarrow> u8 list option" where
  "block_move m dst src n = do { bs \<leftarrow> block_get m src n; block_put m dst bs }"

subsection \<open>The operations\<close>

definition NUMITEMSPERALLOC :: "clist \<Rightarrow> int" where
  "NUMITEMSPERALLOC l = max (listSize l * (percentIncrease l + 100) div 100) (minNumItemsIncrease l)"

definition ExpandListSpace :: "(int \<Rightarrow> bool) \<Rightarrow> clist \<Rightarrow> int \<Rightarrow> clist \<times> bool" where
  "ExpandListSpace mem_ok l numNewItems =
     (let numNewItems = (if numNewItems = 0 then NUMITEMSPERALLOC l
                         else if numNewItems < 0 then - numNewItems + NUMITEMSPERALLOC l
                         else numNewItems);
          (l', ok) = SetHandleSize mem_ok l (sizeof_ListStruct + (listSize l + numNewItems) * itemSize l)
      in if ok then (l'\<lparr>listSize := listSize l + numNewItems\<rparr>, True) else (l, False))"

definition ListCompact :: "(int \<Rightarrow> bool) \<Rightarrow> clist \<Rightarrow> clist" where
  "ListCompact mem_ok l =
     (let (l', ok) = SetHandleSize mem_ok l (sizeof_ListStruct + numItems l * itemSize l)
      in if ok then l'\<lparr>listSize := numItems l\<rparr> else l)"

definition ListCreate :: "bool \<Rightarrow> int \<Rightarrow> clist option" where
  "ListCreate handle_ok elementSize =
     (if handle_ok
      then Some \<lparr>percentIncrease = 10, minNumItemsIncrease = 4, listSize = 0, itemSize = elementSize, numItems = 0,
        itemList = replicate 4 0\<rparr>
      else None)"

definition ListSetAllocationPolicy :: "clist \<Rightarrow> int \<Rightarrow> int \<Rightarrow> clist" where
  "ListSetAllocationPolicy l minItemsPerAlloc percentIncreasePerAlloc =
     l\<lparr>percentIncrease := percentIncreasePerAlloc, minNumItemsIncrease := minItemsPerAlloc\<rparr>"

definition ListClear :: "clist option \<Rightarrow> clist option" where
  "ListClear l = map_option (\<lambda>l. l\<lparr>numItems := 0\<rparr>) l"

definition ListNumItems :: "clist \<Rightarrow> int" where "ListNumItems l = numItems l"
definition ListGetItemSize :: "clist \<Rightarrow> int" where "ListGetItemSize l = itemSize l"

definition ListCopy :: "bool \<Rightarrow> (int \<Rightarrow> bool) \<Rightarrow> clist option \<Rightarrow> clist option option" where
  "ListCopy handle_ok mem_ok originalList =
     (case originalList of
        None \<Rightarrow> Some None
      | Some ol \<Rightarrow>
          (case ListCreate handle_ok (itemSize ol) of
             None \<Rightarrow> Some None
           | Some t \<Rightarrow>
               (let n = ListNumItems ol;
                    (t, ok) = SetHandleSize mem_ok t (sizeof_ListStruct + n * itemSize t)
                in if \<not> ok then Some None
                else do {
                  let t = t\<lparr>numItems := numItems ol, listSize := numItems ol, itemSize := itemSize ol,
                            percentIncrease := percentIncrease ol, minNumItemsIncrease := minNumItemsIncrease ol\<rparr>;
                  bs \<leftarrow> block_get (itemList ol) 0 (n * itemSize t);
                  m \<leftarrow> block_put (itemList t) 0 bs;
                  Some (Some (t\<lparr>itemList := m\<rparr>))
                })))"

definition ListAppend :: "(int \<Rightarrow> bool) \<Rightarrow> clist option \<Rightarrow> clist option \<Rightarrow> (clist option \<times> bool) option" where
  "ListAppend mem_ok list1 list2 =
     (case (list1, list2) of
        (_, None) \<Rightarrow> Some (list1, True)
      | (None, _) \<Rightarrow> Some (None, False)
      | (Some l1, Some l2) \<Rightarrow>
          if itemSize l1 \<noteq> itemSize l2 then Some (list1, False)
          else if ListNumItems l2 = 0 then Some (list1, True)
          else (let n1 = ListNumItems l1; n2 = ListNumItems l2;
                    (l, ok) = SetHandleSize mem_ok l1 (sizeof_ListStruct + (n1 + n2) * itemSize l1)
                in if \<not> ok then Some (list1, False)
                else do {
                  bs \<leftarrow> block_get (itemList l2) 0 (n2 * itemSize l2);
                  m \<leftarrow> block_put (itemList l) (n1 * itemSize l) bs;
                  Some (Some (l\<lparr>numItems := n1 + n2, listSize := n1 + n2, itemList := m\<rparr>), True)
                }))"

text \<open>The bytes to insert: the caller's, or zeros when \<open>ptrToItems\<close> is NULL. A caller's block shorter than
  \<open>itemSize * numItemsToInsert\<close> would be read past its end.\<close>

definition new_bytes :: "u8 list option \<Rightarrow> int \<Rightarrow> u8 list option" where
  "new_bytes ptrToItems n =
     (case ptrToItems of
        None \<Rightarrow> if 0 \<le> n then Some (replicate (nat n) 0) else None
      | Some bs \<Rightarrow> block_get bs 0 n)"

definition ListInsertItems :: "(int \<Rightarrow> bool) \<Rightarrow> clist \<Rightarrow> u8 list option \<Rightarrow> int \<Rightarrow> int \<Rightarrow> (clist \<times> bool) option" where
  "ListInsertItems mem_ok l ptrToItems firstItemPosition numItemsToInsert =
     (let n = numItems l in
      if firstItemPosition \<noteq> n + 1 \<and> firstItemPosition > n then Some (l, False)
      else
        (let pos = (if firstItemPosition = n + 1 then LIST_END else firstItemPosition);
             (l, ok) = (if numItems l \<ge> listSize l then ExpandListSpace mem_ok l (- numItemsToInsert) else (l, True))
         in if \<not> ok then Some (l, False)
         else
           (let pos = (if pos = LIST_START then (if n = 0 then LIST_END else 1) else pos) in
            do {
              bs \<leftarrow> new_bytes ptrToItems (itemSize l * numItemsToInsert);
              m \<leftarrow> (if pos = LIST_END then block_put (itemList l) (n * itemSize l) bs
                    else do {
                      m \<leftarrow> block_move (itemList l) ((pos - 1 + numItemsToInsert) * itemSize l) ((pos - 1) * itemSize l)
                             ((n + 1 - pos) * itemSize l);
                      block_put m ((pos - 1) * itemSize l) bs
                    });
              Some (l\<lparr>itemList := m, numItems := numItems l + numItemsToInsert\<rparr>, True)
            })))"

definition ListInsertItem :: "(int \<Rightarrow> bool) \<Rightarrow> clist \<Rightarrow> u8 list option \<Rightarrow> int \<Rightarrow> (clist \<times> bool) option" where
  "ListInsertItem mem_ok l ptrToItem itemPosition = ListInsertItems mem_ok l ptrToItem itemPosition 1"

definition ListEqual :: "bool \<Rightarrow> clist option \<Rightarrow> clist option \<Rightarrow> bool option" where
  "ListEqual same_ptr list1 list2 =
     (if same_ptr then Some True
      else (case (list1, list2) of
              (Some l1, Some l2) \<Rightarrow>
                if itemSize l1 = itemSize l1 \<and> numItems l1 = numItems l2
                then do {
                  a \<leftarrow> block_get (itemList l1) 0 (itemSize l1 * numItems l1);
                  b \<leftarrow> block_get (itemList l2) 0 (itemSize l1 * numItems l1);
                  Some (a = b)
                }
                else Some False
            | _ \<Rightarrow> Some False))"

definition item_pos :: "clist \<Rightarrow> int \<Rightarrow> int" where
  "item_pos l pos = (if pos = LIST_START then 1 else if pos = LIST_END then numItems l else pos)"

definition ListReplaceItems :: "clist \<Rightarrow> u8 list \<Rightarrow> int \<Rightarrow> int \<Rightarrow> clist option" where
  "ListReplaceItems l ptrToItems firstItemPosition numItemsToReplace =
     do {
       bs \<leftarrow> block_get ptrToItems 0 (itemSize l * numItemsToReplace);
       m \<leftarrow> block_put (itemList l) ((item_pos l firstItemPosition - 1) * itemSize l) bs;
       Some (l\<lparr>itemList := m\<rparr>)
     }"

definition ListReplaceItem :: "clist \<Rightarrow> u8 list \<Rightarrow> int \<Rightarrow> clist option" where
  "ListReplaceItem l ptrToItem itemPosition = ListReplaceItems l ptrToItem itemPosition 1"

definition ListGetItems :: "clist \<Rightarrow> int \<Rightarrow> int \<Rightarrow> u8 list option" where
  "ListGetItems l firstItemPosition numItemsToGet =
     block_get (itemList l) ((item_pos l firstItemPosition - 1) * itemSize l) (itemSize l * numItemsToGet)"

definition ListGetItem :: "clist \<Rightarrow> int \<Rightarrow> u8 list option" where
  "ListGetItem l itemPosition = ListGetItems l itemPosition 1"

text \<open>\<open>want\<close> says whether a destination was given; the removed bytes are returned then.\<close>

definition ListRemoveItems :: "clist \<Rightarrow> bool \<Rightarrow> int \<Rightarrow> int \<Rightarrow> (clist \<times> u8 list option) option" where
  "ListRemoveItems l want firstItemPosition numItemsToRemove =
     (let pos = item_pos l firstItemPosition;
          firstItemAfterChunk = pos + numItemsToRemove;
          numToMove = numItems l - (firstItemAfterChunk - 1)
      in do {
        out \<leftarrow> (if want then map_option Some (block_get (itemList l) ((pos - 1) * itemSize l) (itemSize l * numItemsToRemove))
                else Some None);
        m \<leftarrow> (if numToMove > 0
              then block_move (itemList l) ((pos - 1) * itemSize l) ((firstItemAfterChunk - 1) * itemSize l) (itemSize l * numToMove)
              else Some (itemList l));
        Some (l\<lparr>itemList := m, numItems := numItems l - numItemsToRemove\<rparr>, out)
      })"

definition ListRemoveItem :: "clist \<Rightarrow> bool \<Rightarrow> int \<Rightarrow> (clist \<times> u8 list option) option" where
  "ListRemoveItem l want itemPosition = ListRemoveItems l want itemPosition 1"

text \<open>The address returned, as an offset into the item bytes.\<close>

definition ListGetPtrToItem :: "clist \<Rightarrow> int \<Rightarrow> int" where
  "ListGetPtrToItem l itemPosition = (item_pos l itemPosition - 1) * itemSize l"

definition ListPreAllocate :: "(int \<Rightarrow> bool) \<Rightarrow> clist \<Rightarrow> int \<Rightarrow> clist \<times> bool" where
  "ListPreAllocate mem_ok l n =
     (if listSize l - numItems l < n then ExpandListSpace mem_ok l (n - (listSize l - numItems l)) else (l, True))"

subsection \<open>Searching\<close>

text \<open>\<open>memcmp\<close> of two blocks of the same length.\<close>

fun ListMemBlockCmp :: "u8 list \<Rightarrow> u8 list \<Rightarrow> int" where
  "ListMemBlockCmp (a # as) (b # bs) = (if a \<noteq> b then uint a - uint b else ListMemBlockCmp as bs)"
| "ListMemBlockCmp _ _ = 0"

definition compare :: "(u8 list \<Rightarrow> u8 list \<Rightarrow> int) option \<Rightarrow> u8 list \<Rightarrow> u8 list \<Rightarrow> int" where
  "compare compareFunction a b = (case compareFunction of Some f \<Rightarrow> f a b | None \<Rightarrow> ListMemBlockCmp a b)"

function bin_loop :: "('a \<Rightarrow> 'a \<Rightarrow> int) \<Rightarrow> (int \<Rightarrow> 'a) \<Rightarrow> 'a \<Rightarrow> int \<Rightarrow> int \<Rightarrow> int \<Rightarrow> int \<Rightarrow> int" where
  "bin_loop cmpf array item low high mid cmp =
     (if low \<le> high
      then (let mid = (low + high) div 2; cmp = cmpf item (array mid) in
            if cmp = 0 then mid
            else if cmp < 0 then bin_loop cmpf array item low (mid - 1) mid cmp
            else bin_loop cmpf array item (mid + 1) high mid cmp)
      else (let mid = (if cmp > 0 then mid + 1 else mid) in - mid - 1))"
  by pat_completeness auto
termination by (relation "measure (\<lambda>(_, _, _, low, high, _). nat (high - low + 1))") auto

declare bin_loop.simps [simp del]

definition BinSearch :: "('a \<Rightarrow> 'a \<Rightarrow> int) \<Rightarrow> (int \<Rightarrow> 'a) \<Rightarrow> int \<Rightarrow> 'a \<Rightarrow> int" where
  "BinSearch cmpf array numElements item = bin_loop cmpf array item 0 (numElements - 1) 0 (- 1)"

definition item_at :: "clist \<Rightarrow> int \<Rightarrow> u8 list" where
  "item_at l i = take (nat (itemSize l)) (drop (nat (i * itemSize l)) (itemList l))"

definition ListBinSearch :: "clist \<Rightarrow> u8 list \<Rightarrow> (u8 list \<Rightarrow> u8 list \<Rightarrow> int) option \<Rightarrow> int" where
  "ListBinSearch l item compareFunction =
     (let index = BinSearch (compare compareFunction) (item_at l) (numItems l) item
      in if index \<ge> 0 then index + 1 else 0)"

function find_loop :: "clist \<Rightarrow> u8 list \<Rightarrow> (u8 list \<Rightarrow> u8 list \<Rightarrow> int) option \<Rightarrow> int \<Rightarrow> int" where
  "find_loop l item cf index =
     (if index \<le> numItems l
      then (if compare cf item (item_at l (index - 1)) = 0 then index else find_loop l item cf (index + 1))
      else 0)"
  by pat_completeness auto
termination by (relation "measure (\<lambda>(l, _, _, index). nat (numItems l - index + 1))") auto

declare find_loop.simps [simp del]

definition ListFindItem :: "clist \<Rightarrow> u8 list \<Rightarrow> int \<Rightarrow> (u8 list \<Rightarrow> u8 list \<Rightarrow> int) option \<Rightarrow> int" where
  "ListFindItem l item startingPosition cf =
     (if numItems l = 0 then 0 else find_loop l item cf (item_pos l startingPosition))"

fun apply_up :: "(int \<Rightarrow> u8 list \<Rightarrow> 'd \<Rightarrow> 'd \<times> int) \<Rightarrow> clist \<Rightarrow> 'd \<Rightarrow> int \<Rightarrow> nat \<Rightarrow> int \<Rightarrow> 'd \<times> int" where
  "apply_up f l d result 0 index = (d, result)"
| "apply_up f l d result (Suc k) index =
     (let (d, result) = f index (item_at l (index - 1)) d
      in if result < 0 then (d, result) else apply_up f l d result k (index + 1))"

fun apply_down :: "(int \<Rightarrow> u8 list \<Rightarrow> 'd \<Rightarrow> 'd \<times> int) \<Rightarrow> clist \<Rightarrow> 'd \<Rightarrow> int \<Rightarrow> nat \<Rightarrow> 'd \<times> int" where
  "apply_down f l d result 0 = (d, result)"
| "apply_down f l d result (Suc k) =
     (let (d, result) = f (int (Suc k)) (item_at l (int k)) d
      in if result < 0 then (d, result) else apply_down f l d result k)"

text \<open>The callback works on its own data \<open>'d\<close> and does not change the list.\<close>

definition ListApplyToEach ::
  "clist option \<Rightarrow> bool \<Rightarrow> (int \<Rightarrow> u8 list \<Rightarrow> 'd \<Rightarrow> 'd \<times> int) option \<Rightarrow> 'd \<Rightarrow> 'd \<times> int" where
  "ListApplyToEach list ascending funcToApply d =
     (case (list, funcToApply) of
        (Some l, Some f) \<Rightarrow>
          if ascending then apply_up f l d 0 (nat (ListNumItems l)) 1 else apply_down f l d 0 (nat (ListNumItems l))
      | _ \<Rightarrow> (d, 0))"

lemma find_loop_le: "find_loop l item cf i \<le> max 0 (numItems l)"
proof (induction l item cf i rule: find_loop.induct)
  case (1 l item cf i)
  then show ?case by (subst find_loop.simps) auto
qed

lemma ListRemoveItem_numItems: "ListRemoveItem l w p = Some (l', x) \<Longrightarrow> numItems l' = numItems l - 1"
  by (auto simp: ListRemoveItem_def ListRemoveItems_def Let_def split: bind_splits if_splits)

function dup_loop :: "clist \<Rightarrow> (u8 list \<Rightarrow> u8 list \<Rightarrow> int) option \<Rightarrow> int \<Rightarrow> int \<Rightarrow> int \<Rightarrow> (clist \<times> int) option" where
  "dup_loop l cf index startIndexForFind n =
     (if startIndexForFind \<le> n
      then (let duplicatesIndex = ListFindItem l (item_at l (index - 1)) startIndexForFind cf in
            if duplicatesIndex > 0
            then (case ListRemoveItem l False duplicatesIndex of
                    None \<Rightarrow> None
                  | Some (l, _) \<Rightarrow> dup_loop l cf index duplicatesIndex (n - 1))
            else Some (l, n))
      else Some (l, n))"
  by pat_completeness auto
termination
proof (relation "measure (\<lambda>(l, _). nat (numItems l))", simp, goal_cases)
  case (1 l cf index start n dup x l' y)
  then have "ListFindItem l (item_at l (index - 1)) start cf \<le> max 0 (numItems l)"
    by (simp add: ListFindItem_def find_loop_le)
  with 1 ListRemoveItem_numItems [of l False dup l' y] show ?case by simp
qed

declare dup_loop.simps [simp del]

lemma dup_loop_n: "dup_loop l cf index start n = Some (l', n') \<Longrightarrow> n' \<le> n"
proof (induction l cf index start n rule: dup_loop.induct)
  case (1 l cf index start n)
  from 1(2) show ?case
    by (subst (asm) dup_loop.simps)
       (auto simp: Let_def split: if_splits option.splits dest!: 1(1) [OF _ refl])
qed

function dedup_loop :: "clist \<Rightarrow> (u8 list \<Rightarrow> u8 list \<Rightarrow> int) option \<Rightarrow> int \<Rightarrow> int \<Rightarrow> clist option" where
  "dedup_loop l cf index n =
     (if index < n
      then (case dup_loop l cf index (index + 1) n of
              None \<Rightarrow> None
            | Some (l, n) \<Rightarrow> dedup_loop l cf (index + 1) n)
      else Some l)"
  by pat_completeness auto
termination by (relation "measure (\<lambda>(_, _, index, n). nat (n - index))") (auto dest!: sym [of "Some _"] dup_loop_n)

declare dedup_loop.simps [simp del]

definition ListRemoveDuplicates :: "clist \<Rightarrow> (u8 list \<Rightarrow> u8 list \<Rightarrow> int) option \<Rightarrow> clist option" where
  "ListRemoveDuplicates l cf = dedup_loop l cf 1 (ListNumItems l)"

end
