(* ===== verification/Lists_Spec.thy ===== *)
theory Lists_Spec
  imports Lists
begin

text \<open>
  What \<open>lists.c\<close> promises: a handle represents a sequence of items of equal size, the operations act on
  the block as the list operations act on the sequence and stay inside the block, the searches find what
  is there. The last part shows where the promise ends: inserting several items at once can overrun the block.
\<close>

subsection \<open>Blocks\<close>

lemma block_put_mid:
  "length bs = length b \<Longrightarrow> d = int (length a) \<Longrightarrow> block_put (a @ b @ c) d bs = Some (a @ bs @ c)"
  by (simp add: block_put_def)

lemma block_get_mid: "d = int (length a) \<Longrightarrow> n = int (length b) \<Longrightarrow> block_get (a @ b @ c) d n = Some b"
  by (simp add: block_get_def)

lemma length_concat_eq: "\<forall>x\<in>set xs. length x = k \<Longrightarrow> length (concat xs) = length xs * k"
  by (induction xs) auto

subsection \<open>Representation\<close>

definition list_rep :: "clist \<Rightarrow> u8 list list \<Rightarrow> bool" where
  "list_rep l xs \<longleftrightarrow> 0 < itemSize l \<and> numItems l = int (length xs) \<and> int (length xs) \<le> listSize l \<and>
     (\<forall>x\<in>set xs. int (length x) = itemSize l) \<and> int (length (itemList l)) = listSize l * itemSize l + 4 \<and>
     (\<exists>tail. itemList l = concat xs @ tail) \<and> 0 \<le> percentIncrease l \<and> 0 < minNumItemsIncrease l"

lemma list_rep_length:
  assumes "list_rep l xs"
  shows "int (length (concat xs)) = numItems l * itemSize l"
proof -
  have "\<forall>x\<in>set xs. length x = nat (itemSize l)" using assms by (auto simp: list_rep_def)
  from length_concat_eq [OF this] assms show ?thesis by (simp add: list_rep_def)
qed

lemma list_rep_sub_length:
  assumes "list_rep l xs" "set us \<subseteq> set xs"
  shows "int (length (concat us)) = int (length us) * itemSize l"
proof -
  have "\<forall>x\<in>set us. int (length x) = itemSize l" using assms by (auto simp: list_rep_def subset_iff simp del: length_concat)
  then have "\<forall>x\<in>set us. length x = nat (itemSize l)" by (metis nat_int)
  from length_concat_eq [OF this] assms show ?thesis by (simp add: list_rep_def)
qed

lemma ListCreate_rep: "0 < n \<Longrightarrow> \<exists>l. ListCreate True n = Some l \<and> itemSize l = n \<and> list_rep l []"
  by (simp add: ListCreate_def list_rep_def)

lemma NUMITEMS_pos: "list_rep l xs \<Longrightarrow> 0 < NUMITEMSPERALLOC l"
  by (simp add: NUMITEMSPERALLOC_def list_rep_def less_max_iff_disj)

lemma Expand_rep:
  assumes rep: "list_rep l xs" and mem: "\<And>n. mem_ok n"
  shows "\<exists>l'. ExpandListSpace mem_ok l (- 1) = (l', True) \<and> list_rep l' xs \<and> listSize l < listSize l' \<and> itemSize l' = itemSize l"
proof -
  define k where "k = 1 + NUMITEMSPERALLOC l"
  have k: "0 < k" using NUMITEMS_pos [OF rep] by (simp add: k_def)
  have sz: "0 < itemSize l" "int (length (itemList l)) = listSize l * itemSize l + 4" using rep by (simp_all add: list_rep_def)
  obtain tail where tail: "itemList l = concat xs @ tail" using rep by (auto simp: list_rep_def)
  have pos: "0 < k * itemSize l" using k sz by simp
  define m where "m = itemList l @ replicate (nat (k * itemSize l)) 0"
  have old: "GetHandleSize l = sizeof_ListStruct + listSize l * itemSize l"
    using sz by (simp add: GetHandleSize_def items_offset_def sizeof_ListStruct_def)
  have "SetHandleSize mem_ok l (sizeof_ListStruct + (listSize l + k) * itemSize l) = (l\<lparr>itemList := m\<rparr>, True)"
    unfolding SetHandleSize_def old Let_def using mem pos sz
    by (simp add: m_def distrib_right sizeof_ListStruct_def items_offset_def)
  then have e: "ExpandListSpace mem_ok l (- 1) = (l\<lparr>itemList := m, listSize := listSize l + k\<rparr>, True)"
    by (simp add: ExpandListSpace_def k_def [symmetric])
  have "list_rep (l\<lparr>itemList := m, listSize := listSize l + k\<rparr>) xs"
    using rep k pos sz tail by (auto simp: list_rep_def m_def distrib_right)
  with e k show ?thesis by auto
qed

lemma insert_block:
  assumes rep: "list_rep l xs" and room: "numItems l < listSize l" and p: "p \<le> length xs" and x: "int (length x) = itemSize l"
  shows "\<exists>m. (if p = length xs then block_put (itemList l) (numItems l * itemSize l) x
      else do {
        m \<leftarrow> block_move (itemList l) ((int p + 1) * itemSize l) (int p * itemSize l) ((numItems l - int p) * itemSize l);
        block_put m (int p * itemSize l) x }) = Some m \<and>
    list_rep (l\<lparr>itemList := m, numItems := numItems l + 1\<rparr>) (take p xs @ x # drop p xs)"
proof -
  define us where "us = take p xs"
  define ws where "ws = drop p xs"
  define sz where "sz = length x"
  have "xs = us @ ws" by (simp add: us_def ws_def)
  then obtain tail where tail: "itemList l = concat us @ concat ws @ tail"
    using rep by (auto simp: list_rep_def)
  have n: "numItems l = int (length xs)" "itemSize l = int sz" using rep x by (simp_all add: list_rep_def sz_def)
  have lu: "int (length (concat us)) = int p * itemSize l"
    using list_rep_sub_length [OF rep, of us] p by (simp add: us_def set_take_subset)
  have lw: "int (length (concat ws)) = (numItems l - int p) * itemSize l"
    using list_rep_sub_length [OF rep, of ws] p n by (simp add: ws_def set_drop_subset)
  have "(numItems l + 1) * itemSize l \<le> listSize l * itemSize l"
    using room n(2) by (intro mult_right_mono) auto
  moreover have "int (length (itemList l)) = listSize l * itemSize l + 4" using rep by (simp add: list_rep_def)
  ultimately have "int (length tail) \<ge> itemSize l" using lu lw tail by (simp add: algebra_simps)
  then have lt: "sz \<le> length tail" using n by simp
  let ?m = "concat us @ x @ concat ws @ drop sz tail"
  have final: "list_rep (l\<lparr>itemList := ?m, numItems := numItems l + 1\<rparr>) (us @ x # ws)"
    using rep room x lt tail p by (auto simp: list_rep_def us_def ws_def sz_def dest: in_set_takeD in_set_dropD)
  have "(if p = length xs then block_put (itemList l) (numItems l * itemSize l) x
      else do {
        m \<leftarrow> block_move (itemList l) ((int p + 1) * itemSize l) (int p * itemSize l) ((numItems l - int p) * itemSize l);
        block_put m (int p * itemSize l) x }) = Some ?m"
  proof (cases "p = length xs")
    case True
    then have "ws = []" by (simp add: ws_def)
    with True tail lt show ?thesis
      using block_put_mid [of x "take sz tail" "numItems l * itemSize l" "concat us" "drop sz tail"] lu n by (simp add: sz_def)
  next
    case False
    define b where "b = concat ws @ tail"
    have get: "block_get (itemList l) (int p * itemSize l) ((numItems l - int p) * itemSize l) = Some (concat ws)"
      unfolding tail by (rule block_get_mid) (simp_all add: lu lw)
    have spl: "itemList l = (concat us @ take sz b) @ take (length (concat ws)) (drop sz b) @ drop sz tail"
    proof -
      have "drop (length (concat ws)) (drop sz b) = drop (length (concat ws) + sz) b" by simp
      then have "drop (length (concat ws)) (drop sz b) = drop sz tail" by (simp add: b_def)
      then have "b = take sz b @ take (length (concat ws)) (drop sz b) @ drop sz tail" by (metis append_take_drop_id)
      moreover have "itemList l = concat us @ b" by (simp only: tail b_def)
      ultimately show ?thesis by (metis append_assoc)
    qed
    have lb: "length (take sz b) = sz" "length (take (length (concat ws)) (drop sz b)) = length (concat ws)"
      using lt by (simp_all add: b_def)
    have "block_put (itemList l) ((int p + 1) * itemSize l) (concat ws) = Some ((concat us @ take sz b) @ concat ws @ drop sz tail)"
      unfolding spl by (rule block_put_mid) (use lb lu n in \<open>simp_all add: distrib_right\<close>)
    then have mv: "block_move (itemList l) ((int p + 1) * itemSize l) (int p * itemSize l) ((numItems l - int p) * itemSize l)
        = Some (concat us @ take sz b @ concat ws @ drop sz tail)"
      using get by (simp add: block_move_def)
    have "block_put (concat us @ take sz b @ concat ws @ drop sz tail) (int p * itemSize l) x = Some ?m"
      using lb lu by (intro block_put_mid) (simp_all add: sz_def)
    with mv False show ?thesis by simp
  qed
  with final show ?thesis by (auto simp: us_def ws_def)
qed

text \<open>The position argument after the source's special cases: an offset from 0 to the number of items.\<close>

definition insert_at :: "int \<Rightarrow> int \<Rightarrow> nat" where
  "insert_at n pos = (if pos = n + 1 \<or> pos = LIST_END then nat n else if pos = LIST_START then 0 else nat (pos - 1))"

lemma ListInsertItem_rep:
  assumes rep: "list_rep l xs" and mem: "\<And>n. mem_ok n" and x: "int (length x) = itemSize l"
    and pos: "- 1 \<le> pos" "pos \<le> numItems l + 1"
  shows "\<exists>l'. ListInsertItem mem_ok l (Some x) pos = Some (l', True) \<and>
    list_rep l' (take (insert_at (numItems l) pos) xs @ x # drop (insert_at (numItems l) pos) xs)"
proof -
  define n where "n = numItems l"
  define p where "p = insert_at n pos"
  have n: "n = int (length xs)" using rep by (simp add: n_def list_rep_def)
  have pos': "- 1 \<le> pos" "pos \<le> n + 1" using pos by (simp_all add: n_def)
  have p: "p \<le> length xs" using pos' by (auto simp: p_def insert_at_def n LIST_END_def LIST_START_def nat_le_iff)
  obtain l1 where l1: "(if numItems l \<ge> listSize l then ExpandListSpace mem_ok l (- 1) else (l, True)) = (l1, True)"
    "list_rep l1 xs" "numItems l1 < listSize l1" "itemSize l1 = itemSize l" "numItems l1 = n"
  proof (cases "numItems l \<ge> listSize l")
    case True
    obtain l' where l': "ExpandListSpace mem_ok l (- 1) = (l', True)" "list_rep l' xs" "listSize l < listSize l'" "itemSize l' = itemSize l"
      using Expand_rep [OF rep, of mem_ok] mem by blast
    have "numItems l' = numItems l" "numItems l \<le> listSize l" using l'(2) rep by (simp_all add: list_rep_def)
    with True l' show ?thesis by (intro that [of l']) (simp_all add: n_def)
  next
    case False with rep show ?thesis by (intro that [of l]) (simp_all add: n_def)
  qed
  define m where "m = (if p = length xs then block_put (itemList l1) (n * itemSize l1) x
      else do {
        m \<leftarrow> block_move (itemList l1) ((int p + 1) * itemSize l1) (int p * itemSize l1) ((n - int p) * itemSize l1);
        block_put m (int p * itemSize l1) x })"
  obtain m' where m': "m = Some m'" "list_rep (l1\<lparr>itemList := m', numItems := n + 1\<rparr>) (take p xs @ x # drop p xs)"
    using insert_block [OF l1(2, 3) p] x l1(4, 5) unfolding m_def by auto
  define q where "q = (let pos = (if pos = n + 1 then LIST_END else pos)
      in if pos = LIST_START then (if n = 0 then LIST_END else 1) else pos)"
  have q: "q = LIST_END \<longleftrightarrow> p = length xs" "q \<noteq> LIST_END \<Longrightarrow> q = int p + 1"
    using pos' by (auto simp: q_def p_def insert_at_def n LIST_END_def LIST_START_def Let_def)
  have nb: "new_bytes (Some x) (itemSize l1 * 1) = Some x"
    using x l1(4) by (simp add: new_bytes_def block_get_def)
  have "(if q = LIST_END then block_put (itemList l1) (n * itemSize l1) x
     else do { m \<leftarrow> block_move (itemList l1) ((q - 1 + 1) * itemSize l1) ((q - 1) * itemSize l1) ((n + 1 - q) * itemSize l1);
               block_put m ((q - 1) * itemSize l1) x }) = m"
    using q by (cases "q = LIST_END") (auto simp: m_def)
  moreover have "\<not> (pos \<noteq> n + 1 \<and> pos > n)" using pos' by auto
  ultimately have "ListInsertItem mem_ok l (Some x) pos = Some (l1\<lparr>itemList := m', numItems := n + 1\<rparr>, True)"
    using l1 nb m'(1)
    unfolding ListInsertItem_def ListInsertItems_def n_def [symmetric] Let_def
    by (cases "q = LIST_END") (auto simp add: q_def [unfolded Let_def, symmetric] bind_eq_Some_conv)
  with m'(2) show ?thesis by (simp add: p_def n_def)
qed

lemma ListRemoveItem_rep:
  assumes rep: "list_rep l (us @ x # ws)" and pos: "item_pos l pos = int (length us) + 1"
  shows "\<exists>l'. ListRemoveItem l want pos = Some (l', if want then Some x else None) \<and> list_rep l' (us @ ws) \<and> itemSize l' = itemSize l"
proof -
  obtain tail where tail: "itemList l = concat us @ x @ concat ws @ tail" using rep by (auto simp: list_rep_def)
  have lu: "int (length (concat us)) = int (length us) * itemSize l"
    using list_rep_sub_length [OF rep, of us] by auto
  have lw: "int (length (concat ws)) = int (length ws) * itemSize l"
    using list_rep_sub_length [OF rep, of ws] by auto
  have x: "int (length x) = itemSize l" and n: "numItems l = int (length us) + 1 + int (length ws)"
    using rep by (simp_all add: list_rep_def)
  have get: "block_get (itemList l) (int (length us) * itemSize l) (itemSize l) = Some x"
    unfolding tail using lu x by (intro block_get_mid) simp_all
  define b where "b = x @ concat ws"
  have spl: "itemList l = concat us @ take (length (concat ws)) b @ (drop (length (concat ws)) b @ tail)"
    using tail by (simp add: b_def del: take_append drop_append)
  have "length (take (length (concat ws)) b) = length (concat ws)" by (simp add: b_def)
  then have put: "block_put (itemList l) (int (length us) * itemSize l) (concat ws) = Some (concat us @ concat ws @ (drop (length (concat ws)) b @ tail))"
    unfolding spl using lu by (intro block_put_mid) simp_all
  have get2: "block_get (itemList l) ((int (length us) + 1) * itemSize l) (itemSize l * int (length ws)) = Some (concat ws)"
  proof -
    have "block_get ((concat us @ x) @ concat ws @ tail) ((int (length us) + 1) * itemSize l) (itemSize l * int (length ws)) = Some (concat ws)"
      by (rule block_get_mid) (simp_all add: lu lw x distrib_right)
    then show ?thesis by (simp add: tail)
  qed
  let ?m = "concat us @ concat ws @ (if ws = [] then x @ tail else drop (length (concat ws)) b @ tail)"
  have "ListRemoveItem l want pos = Some (l\<lparr>itemList := ?m, numItems := numItems l - 1\<rparr>, if want then Some x else None)"
    using get get2 get2 [unfolded add.commute [of _ 1]] put n tail pos
    by (auto simp: ListRemoveItem_def ListRemoveItems_def Let_def block_move_def algebra_simps)
  moreover have "length ?m = length (itemList l)" using arg_cong [OF spl, of length] arg_cong [OF tail, of length] by auto
  then have "list_rep (l\<lparr>itemList := ?m, numItems := numItems l - 1\<rparr>) (us @ ws)"
    using rep n by (auto simp: list_rep_def)
  ultimately show ?thesis by auto
qed

lemma item_at_rep:
  assumes "list_rep l xs" "i < length xs"
  shows "item_at l (int i) = xs ! i"
proof -
  have xs: "xs = take i xs @ xs ! i # drop (Suc i) xs" using assms(2) by (simp add: id_take_nth_drop)
  obtain tail where tail: "itemList l = concat xs @ tail" using assms(1) by (auto simp: list_rep_def)
  have "int (length (concat (take i xs))) = int i * itemSize l"
    using list_rep_sub_length [OF assms(1), of "take i xs"] assms(2) by (simp add: set_take_subset)
  then have pre: "nat (int i * itemSize l) = length (concat (take i xs))" by (metis nat_int)
  have sz: "nat (itemSize l) = length (xs ! i)" using assms by (auto simp: list_rep_def simp del: length_concat) (metis nat_int nth_mem)
  have "itemList l = concat (take i xs) @ (xs ! i) @ (concat (drop (Suc i) xs) @ tail)"
    unfolding tail by (subst xs) (simp only: concat_append concat.simps append_assoc)
  then show ?thesis by (simp add: item_at_def pre sz)
qed

subsection \<open>Searching\<close>

text \<open>\<open>cmpf item (array i)\<close> is positive below the place of the item, then zero, then negative.\<close>

definition cmp_sorted :: "('a \<Rightarrow> 'a \<Rightarrow> int) \<Rightarrow> (int \<Rightarrow> 'a) \<Rightarrow> int \<Rightarrow> 'a \<Rightarrow> bool" where
  "cmp_sorted cmpf array n item \<longleftrightarrow>
     (\<forall>i j. 0 \<le> i \<and> i < j \<and> j < n \<longrightarrow>
        (cmpf item (array i) \<le> 0 \<longrightarrow> cmpf item (array j) \<le> 0) \<and> (cmpf item (array i) < 0 \<longrightarrow> cmpf item (array j) < 0))"

lemma bin_loop_correct:
  "cmp_sorted cmpf array n item \<Longrightarrow> 0 \<le> low \<Longrightarrow> high < n \<Longrightarrow> low \<le> high + 1 \<Longrightarrow>
    (\<forall>i. 0 \<le> i \<and> i < low \<longrightarrow> cmpf item (array i) > 0) \<Longrightarrow> (\<forall>i. high < i \<and> i < n \<longrightarrow> cmpf item (array i) < 0) \<Longrightarrow>
    (low = high + 1 \<longrightarrow> (if cmp > 0 then mid + 1 else mid) = low) \<Longrightarrow>
    (let r = bin_loop cmpf array item low high mid cmp in
     if r \<ge> 0 then r < n \<and> cmpf item (array r) = 0
     else 0 \<le> - r - 1 \<and> - r - 1 \<le> n \<and> (\<forall>i. 0 \<le> i \<and> i < - r - 1 \<longrightarrow> cmpf item (array i) > 0) \<and>
          (\<forall>i. - r - 1 \<le> i \<and> i < n \<longrightarrow> cmpf item (array i) < 0))"
proof (induction cmpf array item low high mid cmp rule: bin_loop.induct)
  case (1 cmpf array item low high mid cmp)
  define m where "m = (low + high) div 2"
  show ?case
  proof (cases "low \<le> high")
    case False
    then have "low = high + 1" using 1 by simp
    then show ?thesis using 1 False by (subst bin_loop.simps) (auto simp: Let_def)
  next
    case True
    then have m: "low \<le> m" "m \<le> high" by (auto simp: m_def)
    consider "cmpf item (array m) = 0" | "cmpf item (array m) < 0" | "cmpf item (array m) > 0" by linarith
    then show ?thesis
    proof cases
      case 1
      then show ?thesis using True m "1.prems" by (subst bin_loop.simps) (simp add: Let_def m_def [symmetric])
    next
      case 2
      have "\<forall>i. m - 1 < i \<and> i < n \<longrightarrow> cmpf item (array i) < 0"
      proof (intro allI impI)
        fix i assume "m - 1 < i \<and> i < n"
        then consider "i = m" | "0 \<le> m \<and> m < i \<and> i < n" using m "1.prems"(2) by linarith
        then show "cmpf item (array i) < 0"
          using 2 "1.prems"(1) unfolding cmp_sorted_def by cases blast+
      qed
      then show ?thesis
        using "1.IH"(1) [OF True m_def refl] 2 m "1.prems" True
        by (subst bin_loop.simps) (simp add: Let_def m_def [symmetric])
    next
      case 3
      have up: "\<forall>i. 0 \<le> i \<and> i < m + 1 \<longrightarrow> cmpf item (array i) > 0"
      proof (intro allI impI)
        fix i assume i: "0 \<le> i \<and> i < m + 1"
        show "cmpf item (array i) > 0"
        proof (cases "i = m")
          case False
          then have "0 \<le> i \<and> i < m \<and> m < n" using i m "1.prems"(3) by linarith
          then have "cmpf item (array i) \<le> 0 \<longrightarrow> cmpf item (array m) \<le> 0" using "1.prems"(1) unfolding cmp_sorted_def by blast
          with 3 show ?thesis by linarith
        qed (use 3 in simp)
      qed
      have "bin_loop cmpf array item low high mid cmp = bin_loop cmpf array item (m + 1) high m (cmpf item (array m))"
        using 3 True by (subst bin_loop.simps) (simp add: Let_def m_def [symmetric])
      then show ?thesis
        using 3 m "1.prems"(2)
        by (simp only:, intro "1.IH"(2) [OF True m_def refl _ _ "1.prems"(1) _ "1.prems"(3) _ up "1.prems"(6)]) auto
    qed
  qed
qed

lemma BinSearch_spec:
  assumes "cmp_sorted cmpf array n item" "0 \<le> n"
  shows "let r = BinSearch cmpf array n item in
     if r \<ge> 0 then r < n \<and> cmpf item (array r) = 0
     else 0 \<le> - r - 1 \<and> - r - 1 \<le> n \<and> (\<forall>i. 0 \<le> i \<and> i < - r - 1 \<longrightarrow> cmpf item (array i) > 0) \<and>
          (\<forall>i. - r - 1 \<le> i \<and> i < n \<longrightarrow> cmpf item (array i) < 0)"
  unfolding BinSearch_def by (rule bin_loop_correct) (use assms in auto)

lemma block_cmp_zero: "length a = length b \<Longrightarrow> ListMemBlockCmp a b = 0 \<longleftrightarrow> a = b"
  by (induction a b rule: list_induct2) (auto simp: unsigned_word_eqI)

lemma list_rep_item_len: "list_rep l xs \<Longrightarrow> x \<in> set xs \<Longrightarrow> length x = nat (itemSize l)"
  by (auto simp: list_rep_def)

lemma find_loop_rep:
  assumes "list_rep l xs" "length x = nat (itemSize l)"
  shows "find_loop l x None (int i + 1) =
     (if x \<in> set (drop i xs) then int (i + length (takeWhile (\<lambda>y. y \<noteq> x) (drop i xs))) + 1 else 0)"
proof (induction "length xs - i" arbitrary: i)
  case 0
  then show ?case using assms(1) by (subst find_loop.simps) (simp add: list_rep_def)
next
  case (Suc k)
  then have i: "i < length xs" by simp
  then have d: "drop i xs = xs ! i # drop (Suc i) xs" by (simp add: Cons_nth_drop_Suc)
  have "compare None x (item_at l (int i)) = 0 \<longleftrightarrow> xs ! i = x"
    using assms i list_rep_item_len [OF assms(1), of "xs ! i"] item_at_rep [OF assms(1) i]
    by (auto simp: compare_def block_cmp_zero)
  moreover have "numItems l = int (length xs)" using assms(1) by (simp add: list_rep_def)
  moreover have "find_loop l x None (int (Suc i) + 1) =
     (if x \<in> set (drop (Suc i) xs) then int (Suc i + length (takeWhile (\<lambda>y. y \<noteq> x) (drop (Suc i) xs))) + 1 else 0)"
    using Suc by (intro Suc.hyps(1)) simp
  ultimately show ?case unfolding d using i
    by (subst find_loop.simps) (simp add: algebra_simps)
qed

lemma dup_loop_rep:
  assumes "list_rep l (us @ vs)" "k < length us"
  shows "\<exists>l'. dup_loop l None (int k + 1) (int (length us) + 1) (numItems l) =
       Some (l', int (length us + length (filter (\<lambda>y. y \<noteq> us ! k) vs))) \<and>
     list_rep l' (us @ filter (\<lambda>y. y \<noteq> us ! k) vs)"
  using assms
proof (induction vs arbitrary: l us rule: length_induct)
  case (1 vs)
  define x where "x = us ! k"
  have n: "numItems l = int (length us + length vs)" using 1(2) by (simp add: list_rep_def)
  have x: "item_at l (int k) = x" using item_at_rep [OF 1(2), of k] 1(3) by (simp add: x_def nth_append)
  have xl: "length x = nat (itemSize l)" using list_rep_item_len [OF 1(2), of x] 1(3) by (simp add: x_def)
  have f: "ListFindItem l x (int (length us) + 1) None =
      (if x \<in> set vs then int (length us + length (takeWhile (\<lambda>y. y \<noteq> x) vs)) + 1 else 0)" if "vs \<noteq> []"
  proof -
    have "numItems l \<noteq> 0" using n that by (cases vs) auto
    then show ?thesis
      using find_loop_rep [OF 1(2) xl, of "length us"] by (simp add: ListFindItem_def item_pos_def LIST_START_def LIST_END_def)
  qed
  show ?case
  proof (cases "x \<in> set vs")
    case False
    then have "filter (\<lambda>y. y \<noteq> x) vs = vs" by (auto intro: filter_True)
    with False f n x 1(2) show ?thesis
      by (cases "vs = []") (subst dup_loop.simps, simp add: x_def)+
  next
    case True
    then obtain as bs where vs: "vs = as @ x # bs" "x \<notin> set as" by (meson split_list_first)
    then have tw: "takeWhile (\<lambda>y. y \<noteq> x) vs = as" by (simp add: takeWhile_append takeWhile_eq_all_conv)
    define p where "p = int (length (us @ as)) + 1"
    have "item_pos l p = int (length (us @ as)) + 1"
      by (simp add: item_pos_def p_def LIST_START_def LIST_END_def)
    moreover have "list_rep l ((us @ as) @ x # bs)" using 1(2) vs by simp
    ultimately obtain l1 where l1: "ListRemoveItem l False p = Some (l1, None)" "list_rep l1 ((us @ as) @ bs)"
      using ListRemoveItem_rep [of l "us @ as" x bs p False] by auto
    have k: "(us @ as) ! k = x" using 1(3) by (simp add: x_def nth_append)
    obtain l' where l': "dup_loop l1 None (int k + 1) p (numItems l1) =
         Some (l', int (length (us @ as) + length (filter (\<lambda>y. y \<noteq> x) bs)))" "list_rep l' ((us @ as) @ filter (\<lambda>y. y \<noteq> x) bs)"
      using 1(1) [rule_format, of bs l1 "us @ as"] vs l1(2) 1(3) k by (auto simp: p_def)
    have "numItems l1 = numItems l - 1" using l1(1) by (rule ListRemoveItem_numItems)
    then have "dup_loop l None (int k + 1) (int (length us) + 1) (numItems l) = dup_loop l1 None (int k + 1) p (numItems l1)"
      using True f n x l1(1) tw vs by (subst dup_loop.simps) (simp add: p_def)
    moreover have "filter (\<lambda>y. y \<noteq> x) vs = as @ filter (\<lambda>y. y \<noteq> x) bs" using vs by (auto intro: filter_True)
    ultimately show ?thesis using l' by (simp add: x_def add.assoc)
  qed
qed

text \<open>Duplicates removed from the left: the first occurrence of each item stays.\<close>

fun nub :: "'a list \<Rightarrow> 'a list" where
  "nub [] = []"
| "nub (x # xs) = x # filter (\<lambda>y. y \<noteq> x) (nub xs)"

lemma set_nub [simp]: "set (nub xs) = set xs"
  by (induction xs) auto

lemma distinct_nub [simp]: "distinct (nub xs)"
  by (induction xs) auto

lemma nub_filter: "nub (filter P xs) = filter P (nub xs)"
  by (induction xs) (auto simp: filter_filter conj_commute intro: filter_cong)

lemma dedup_loop_rep:
  assumes "list_rep l (us @ vs)" "distinct us" "set us \<inter> set vs = {}"
  shows "\<exists>l'. dedup_loop l None (int (length us) + 1) (numItems l) = Some l' \<and> list_rep l' (us @ nub vs)"
  using assms
proof (induction vs arbitrary: l us rule: length_induct)
  case (1 vs)
  have n: "numItems l = int (length us + length vs)" using 1(2) by (simp add: list_rep_def)
  show ?case
  proof (cases vs)
    case Nil
    then show ?thesis using 1(2) n by (subst dedup_loop.simps) simp
  next
    case (Cons x ws)
    define ys where "ys = filter (\<lambda>y. y \<noteq> x) ws"
    obtain l1 where l1: "dup_loop l None (int (length us) + 1) (int (length us) + 1 + 1) (numItems l) = Some (l1, int (length (us @ [x]) + length ys))"
      "list_rep l1 ((us @ [x]) @ ys)"
      using dup_loop_rep [of l "us @ [x]" ws "length us"] 1(2) Cons by (auto simp: ys_def add.commute)
    have "length ys < length vs" using Cons by (simp add: ys_def le_imp_less_Suc)
    moreover have "distinct (us @ [x])" "set (us @ [x]) \<inter> set ys = {}" using 1(3, 4) Cons by (auto simp: ys_def)
    ultimately obtain l' where l': "dedup_loop l1 None (int (length (us @ [x])) + 1) (numItems l1) = Some l'" "list_rep l' ((us @ [x]) @ nub ys)"
      using 1(1) l1(2) by blast
    have n1: "numItems l1 = int (length (us @ [x]) + length ys)" using l1(2) by (simp add: list_rep_def)
    have "dedup_loop l None (int (length us) + 1) (numItems l) = Some l'"
    proof (cases "ws = []")
      case True
      then have "ys = []" by (simp add: ys_def)
      then have "l1 = l'" using l'(1) n1 by (subst (asm) dedup_loop.simps) simp
      moreover have "l1 = l" using l1(1) True n Cons by (subst (asm) dup_loop.simps) simp
      ultimately show ?thesis using n Cons True by (subst dedup_loop.simps) simp
    next
      case False
      then show ?thesis using n Cons l1(1) l'(1) n1 by (subst dedup_loop.simps) (simp add: add.commute)
    qed
    then show ?thesis using l'(2) Cons by (auto simp: ys_def nub_filter)
  qed
qed

lemma ListRemoveDuplicates_rep:
  "list_rep l xs \<Longrightarrow> \<exists>l'. ListRemoveDuplicates l None = Some l' \<and> list_rep l' (nub xs)"
  using dedup_loop_rep [of l "[]" xs] by (simp add: ListRemoveDuplicates_def ListNumItems_def)

lemma ListGetItem_rep:
  assumes "list_rep l xs" "i < length xs"
  shows "ListGetItem l (int i + 1) = Some (xs ! i)"
proof -
  have len: "int (length (itemList l)) = listSize l * itemSize l + 4" "int (length xs) \<le> listSize l" "0 < itemSize l"
    using assms by (simp_all add: list_rep_def)
  have "(int i + 1) * itemSize l \<le> listSize l * itemSize l" using len assms(2) by (intro mult_right_mono) auto
  then have "int i * itemSize l + itemSize l \<le> int (length (itemList l))" using len by (simp add: distrib_right)
  moreover have "item_pos l (int i + 1) = int i + 1" by (simp add: item_pos_def LIST_START_def LIST_END_def)
  ultimately show ?thesis
    using item_at_rep [OF assms] len
    by (simp add: ListGetItem_def ListGetItems_def block_get_def item_at_def)
qed

lemma append_rep:
  assumes "list_rep l xs" "\<And>n. mem_ok n" "int (length x) = itemSize l"
  shows "\<exists>l'. ListInsertItem mem_ok l (Some x) LIST_END = Some (l', True) \<and> list_rep l' (xs @ [x])"
  using ListInsertItem_rep [OF assms, of LIST_END] assms(1)
  by (simp add: insert_at_def LIST_END_def list_rep_def)

subsection \<open>The contract\<close>

text \<open>What a client of \<open>lists.c\<close> relies on: a representation relation, and that adding at the end, reading and
  removing act on the sequence represented.\<close>

locale item_list =
  fixes rep :: "'l \<Rightarrow> 'i list \<Rightarrow> bool"
    and fits :: "'l \<Rightarrow> 'i \<Rightarrow> bool"
    and add_last :: "'l \<Rightarrow> 'i \<Rightarrow> 'l option"
    and get_nth :: "'l \<Rightarrow> nat \<Rightarrow> 'i option"
    and del_nth :: "'l \<Rightarrow> nat \<Rightarrow> 'l option"
  assumes rep_fits: "rep l xs \<Longrightarrow> x \<in> set xs \<Longrightarrow> fits l x"
    and rep_add: "rep l xs \<Longrightarrow> fits l x \<Longrightarrow> \<exists>l'. add_last l x = Some l' \<and> rep l' (xs @ [x]) \<and> fits l' = fits l"
    and rep_get: "rep l xs \<Longrightarrow> i < length xs \<Longrightarrow> get_nth l i = Some (xs ! i)"
    and rep_del: "rep l xs \<Longrightarrow> i < length xs \<Longrightarrow> \<exists>l'. del_nth l i = Some l' \<and> rep l' (take i xs @ drop (Suc i) xs) \<and> fits l' = fits l"
begin

primrec add_all :: "'l \<Rightarrow> 'i list \<Rightarrow> 'l option" where
  "add_all l [] = Some l"
| "add_all l (x # xs) = (case add_last l x of None \<Rightarrow> None | Some l \<Rightarrow> add_all l xs)"

lemma add_all_rep:
  "rep l xs \<Longrightarrow> \<forall>y\<in>set ys. fits l y \<Longrightarrow> \<exists>l'. add_all l ys = Some l' \<and> rep l' (xs @ ys) \<and> fits l' = fits l"
proof (induction ys arbitrary: l xs)
  case (Cons y ys)
  obtain l1 where l1: "add_last l y = Some l1" "rep l1 (xs @ [y])" "fits l1 = fits l"
    using rep_add Cons.prems by force
  then show ?case using Cons.IH [OF l1(2)] Cons.prems by auto
qed simp

lemma add_all_get:
  assumes "rep l xs" "\<forall>y\<in>set ys. fits l y" "i < length ys"
  shows "\<exists>l'. add_all l ys = Some l' \<and> get_nth l' (length xs + i) = Some (ys ! i)"
  using add_all_rep [OF assms(1, 2)] rep_get [where i = "length xs + i"] assms(3) by fastforce

end

definition list_add :: "clist \<Rightarrow> u8 list \<Rightarrow> clist option" where
  "list_add l x = (case ListInsertItem (\<lambda>_. True) l (Some x) LIST_END of Some (l', True) \<Rightarrow> Some l' | _ \<Rightarrow> None)"

definition list_del :: "clist \<Rightarrow> nat \<Rightarrow> clist option" where
  "list_del l i = map_option fst (ListRemoveItem l False (int i + 1))"

lemma ListInsertItem_itemSize:
  "ListInsertItem mem_ok l x p = Some (l', b) \<Longrightarrow> itemSize l' = itemSize l"
  by (auto simp: ListInsertItem_def ListInsertItems_def ExpandListSpace_def SetHandleSize_def Let_def bind_eq_Some_conv
      split: if_splits prod.splits)

interpretation clists: item_list list_rep "\<lambda>l x. int (length x) = itemSize l" list_add "\<lambda>l i. ListGetItem l (int i + 1)" list_del
proof
  fix l xs i and x :: "u8 list"
  assume rep: "list_rep l xs"
  show "x \<in> set xs \<Longrightarrow> int (length x) = itemSize l" using rep by (simp add: list_rep_def)
  show "i < length xs \<Longrightarrow> ListGetItem l (int i + 1) = Some (xs ! i)" using rep by (rule ListGetItem_rep)
  show "\<exists>l'. list_add l x = Some l' \<and> list_rep l' (xs @ [x]) \<and> (\<lambda>x. int (length x) = itemSize l') = (\<lambda>x. int (length x) = itemSize l)"
    if fit: "int (length x) = itemSize l"
  proof -
    obtain l' where "ListInsertItem (\<lambda>_. True) l (Some x) LIST_END = Some (l', True)" "list_rep l' (xs @ [x])"
      using append_rep [OF rep TrueI fit] by blast
    then show ?thesis by (auto simp: list_add_def dest: ListInsertItem_itemSize)
  qed
  show "\<exists>l'. list_del l i = Some l' \<and> list_rep l' (take i xs @ drop (Suc i) xs) \<and> (\<lambda>x. int (length x) = itemSize l') = (\<lambda>x. int (length x) = itemSize l)"
    if i: "i < length xs"
  proof -
    have xs: "list_rep l (take i xs @ xs ! i # drop (Suc i) xs)" using rep i by (simp only: id_take_nth_drop [symmetric])
    have "item_pos l (int i + 1) = int (length (take i xs)) + 1" using i by (simp add: item_pos_def LIST_START_def LIST_END_def)
    then obtain l' where "ListRemoveItem l False (int i + 1) = Some (l', None)" "list_rep l' (take i xs @ drop (Suc i) xs)" "itemSize l' = itemSize l"
      using ListRemoveItem_rep [OF xs, of "int i + 1" False] by auto
    then show ?thesis by (simp add: list_del_def)
  qed
qed

subsection \<open>Properties\<close>

text \<open>A list of two-byte items holding \<open>[1, 2]\<close> and \<open>[5, 6]\<close> with one free slot.\<close>

definition small_list :: clist where
  "small_list = \<lparr>percentIncrease = 10, minNumItemsIncrease = 4, listSize = 3, itemSize = 2, numItems = 2,
     itemList = [1, 2, 5, 6, 0, 0, 0, 0, 0, 0]\<rparr>"

lemma small_list_rep: "list_rep small_list [[1, 2], [5, 6]]"
  by (simp add: small_list_def list_rep_def)



text \<open>\<open>ListRemoveDuplicates\<close> with the default comparison ends and leaves the items without repetition,
  each at the place of its first occurrence.\<close>

theorem remove_duplicates_refines:
  assumes "list_rep l xs"
  shows "\<exists>l'. ListRemoveDuplicates l None = Some l' \<and> list_rep l' (nub xs) \<and> distinct (nub xs) \<and> set (nub xs) = set xs"
  using ListRemoveDuplicates_rep [OF assms] by auto

theorem remove_duplicates_refines_witness:
  "\<exists>l'. ListRemoveDuplicates small_list None = Some l' \<and> list_rep l' [[1, 2], [5, 6]]"
  using remove_duplicates_refines [OF small_list_rep] by simp

text \<open>Binary search over items in the order of the comparison returns the index of a match, or, when there
  is none, \<open>- i - 1\<close> with \<open>i\<close> the place where the item belongs: all items before it are smaller and all from it
  on are larger.\<close>

theorem binsearch_correct:
  assumes "cmp_sorted cmpf array n item" "0 \<le> n"
  shows "let r = BinSearch cmpf array n item in
     if r \<ge> 0 then r < n \<and> cmpf item (array r) = 0
     else 0 \<le> - r - 1 \<and> - r - 1 \<le> n \<and> (\<forall>i. 0 \<le> i \<and> i < - r - 1 \<longrightarrow> cmpf item (array i) > 0) \<and>
          (\<forall>i. - r - 1 \<le> i \<and> i < n \<longrightarrow> cmpf item (array i) < 0)"
  using assms by (rule BinSearch_spec)

theorem binsearch_correct_witness:
  "let r = BinSearch (-) (\<lambda>i. 2 * i) 5 (3 :: int) in
     if r \<ge> 0 then r < 5 \<and> 3 - 2 * r = 0
     else 0 \<le> - r - 1 \<and> - r - 1 \<le> 5 \<and> (\<forall>i. 0 \<le> i \<and> i < - r - 1 \<longrightarrow> 3 - 2 * i > 0) \<and>
          (\<forall>i. - r - 1 \<le> i \<and> i < 5 \<longrightarrow> 3 - 2 * i < 0)"
  by (rule binsearch_correct [of "(-)" "\<lambda>i. 2 * i" 5 3, simplified cmp_sorted_def]) auto

text \<open>The capacity test of \<open>ListInsertItems\<close> asks only whether the block is full, not whether the new items
  fit: with free slots, but fewer than the items appended and more than the four bytes of padding missing, the
  copy runs past the end of the block.\<close>

theorem insert_items_overruns:
  assumes "list_rep l xs" "numItems l < listSize l" "int (length bs) = k * itemSize l"
    and "(numItems l + k) * itemSize l > listSize l * itemSize l + 4"
  shows "ListInsertItems mem_ok l (Some bs) LIST_END k = None"
proof -
  have "block_put (itemList l) (numItems l * itemSize l) bs = None"
    using assms by (simp add: block_put_def list_rep_def distrib_right)
  moreover have "0 \<le> numItems l" "LIST_END \<noteq> LIST_START" "new_bytes (Some bs) (itemSize l * k) = Some bs"
    using assms by (simp_all add: list_rep_def LIST_START_def LIST_END_def new_bytes_def block_get_def mult.commute)
  ultimately show ?thesis
    using assms(2) by (simp add: ListInsertItems_def Let_def LIST_END_def)
qed

theorem insert_items_overruns_witness:
  "ListInsertItems (\<lambda>_. True) small_list (Some (replicate 8 0)) LIST_END 4 = None"
  by (rule insert_items_overruns [OF small_list_rep]) (simp_all add: small_list_def)

end
