(* ===== verification/Devices.thy ===== *)
theory Devices
  imports Lists_Spec
begin

text \<open>
  \<open>common/devices.c\<close>: the table of console devices, a list (\<open>Lists\<close>) of \<open>device_t\<close> structures. A device is
  stored as the 52 bytes of its structure, little-endian; the addresses of its functions are 32-bit words,
  0 for NULL. A \<open>device_t *\<close> into the table is the offset of the structure in the item bytes, as
  \<open>ListGetPtrToItem\<close> computes it: registration is over before the first pointer is kept.
\<close>

subsection \<open>Structures\<close>

record device =
  dflags :: u32
  dext :: u32
  dname :: string
  dstart :: u32
  dstop :: u32
  dputc :: u32
  dputs :: u32
  dtstc :: u32
  dgetc :: u32
  dpriv :: u32

definition DEV_FLAGS_INPUT :: u32 where "DEV_FLAGS_INPUT = 0x00000001"
definition DEV_FLAGS_OUTPUT :: u32 where "DEV_FLAGS_OUTPUT = 0x00000002"
definition DEV_FLAGS_SYSTEM :: u32 where "DEV_FLAGS_SYSTEM = 0x80000000"

definition sizeof_device_t :: int where "sizeof_device_t = 52"

definition dev_bytes :: "device \<Rightarrow> u8 list" where
  "dev_bytes d = concat [le32 (dflags d), le32 (dext d), map of_char (dname d), le32 (dstart d), le32 (dstop d),
     le32 (dputc d), le32 (dputs d), le32 (dtstc d), le32 (dgetc d), le32 (dpriv d)]"

definition field32 :: "u8 list \<Rightarrow> nat \<Rightarrow> u32" where "field32 bs i = of_le32 (take 4 (drop i bs))"

definition dev_of_bytes :: "u8 list \<Rightarrow> device" where
  "dev_of_bytes bs = \<lparr>dflags = field32 bs 0, dext = field32 bs 4, dname = map (\<lambda>b. char_of (unat b)) (take 16 (drop 8 bs)),
     dstart = field32 bs 24, dstop = field32 bs 28, dputc = field32 bs 32, dputs = field32 bs 36, dtstc = field32 bs 40,
     dgetc = field32 bs 44, dpriv = field32 bs 48\<rparr>"

lemma length_dev_bytes: "length (dname d) = 16 \<Longrightarrow> int (length (dev_bytes d)) = sizeof_device_t"
  by (simp add: dev_bytes_def sizeof_device_t_def)

lemma map_char_bytes [simp]: "map (\<lambda>b. char_of (unat b)) (map of_char cs :: u8 list) = cs"
  by (induction cs) auto

lemma dev_of_bytes_bytes [simp]:
  assumes "length (dname d) = 16"
  shows "dev_of_bytes (dev_bytes d) = d"
  using assms by (cases d) (simp add: dev_of_bytes_def dev_bytes_def field32_def del: map_map)

text \<open>The name as a C string.\<close>

definition dev_name :: "device \<Rightarrow> string" where
  "dev_name d = takeWhile (\<lambda>c. c \<noteq> CHR 0x00) (dname d)"

text \<open>\<open>strcpy (dev.name, s)\<close> into the zeroed array.\<close>

definition name16 :: "string \<Rightarrow> string" where
  "name16 s = s @ replicate (16 - length s) (CHR 0x00)"

lemma length_name16: "length s \<le> 16 \<Longrightarrow> length (name16 s) = 16"
  by (simp add: name16_def)

lemma dev_name_name16 [simp]: "CHR 0x00 \<notin> set s \<Longrightarrow> length s < 16 \<Longrightarrow> takeWhile (\<lambda>c. c \<noteq> CHR 0x00) (name16 s) = s"
  by (cases "16 - length s") (auto simp: name16_def intro!: takeWhile_append_stop)

definition dev_ok :: "device \<Rightarrow> bool" where
  "dev_ok d \<longleftrightarrow> length (dname d) = 16 \<and> CHR 0x00 \<in> set (dname d)"

subsection \<open>Registration\<close>

text \<open>The addresses of the serial driver's functions.\<close>

record serial_drv =
  serial_putc :: u32
  serial_puts :: u32
  serial_getc :: u32
  serial_tstc :: u32
  serial_printf :: u32
  printf_fn :: u32

definition device_register :: "(int \<Rightarrow> bool) \<Rightarrow> clist \<Rightarrow> device \<Rightarrow> (clist \<times> int) option" where
  "device_register mem_ok devlist dev =
     do { (l, _) \<leftarrow> ListInsertItem mem_ok devlist (Some (dev_bytes dev)) LIST_END; Some (l, 0) }"

definition serial_dev :: "serial_drv \<Rightarrow> device" where
  "serial_dev drv =
     \<lparr>dflags = DEV_FLAGS_OUTPUT OR DEV_FLAGS_INPUT OR DEV_FLAGS_SYSTEM, dext = 0, dname = name16 ''serial'',
      dstart = 0, dstop = 0, dputc = serial_putc drv, dputs = serial_puts drv, dtstc = serial_tstc drv,
      dgetc = serial_getc drv, dpriv = 0\<rparr>"

definition drv_system_init :: "(int \<Rightarrow> bool) \<Rightarrow> serial_drv \<Rightarrow> clist \<Rightarrow> clist option" where
  "drv_system_init mem_ok drv devlist = map_option fst (device_register mem_ok devlist (serial_dev drv))"

text \<open>\<open>devices_init\<close>: \<open>Inl\<close> is the error return. The relocated name pointers point to the same strings.\<close>

definition devices_init :: "bool \<Rightarrow> (int \<Rightarrow> bool) \<Rightarrow> serial_drv \<Rightarrow> (int + clist) option" where
  "devices_init handle_ok mem_ok drv =
     (case ListCreate handle_ok sizeof_device_t of
        None \<Rightarrow> Some (Inl (- 1))
      | Some l \<Rightarrow> map_option Inr (drv_system_init mem_ok drv l))"

subsection \<open>Reading the table\<close>

definition dev_at :: "clist \<Rightarrow> int \<Rightarrow> device option" where
  "dev_at l off = map_option dev_of_bytes (block_get (itemList l) off sizeof_device_t)"

text \<open>The table holds the devices \<open>ds\<close>.\<close>

definition devs_rep :: "clist \<Rightarrow> device list \<Rightarrow> bool" where
  "devs_rep l ds \<longleftrightarrow> list_rep l (map dev_bytes ds) \<and> itemSize l = sizeof_device_t \<and> (\<forall>d\<in>set ds. dev_ok d)"

lemma devs_rep_num: "devs_rep l ds \<Longrightarrow> ListNumItems l = int (length ds)"
  by (simp add: devs_rep_def list_rep_def ListNumItems_def)

lemma ListGetPtrToItem_pos: "0 < i \<Longrightarrow> ListGetPtrToItem l i = (i - 1) * itemSize l"
  by (simp add: ListGetPtrToItem_def item_pos_def LIST_START_def LIST_END_def)

lemma dev_at_rep:
  assumes "devs_rep l ds" "i < length ds"
  shows "dev_at l (ListGetPtrToItem l (int i + 1)) = Some (ds ! i)"
proof -
  have "ListGetItem l (int i + 1) = Some (dev_bytes (ds ! i))"
    using ListGetItem_rep [of l "map dev_bytes ds" i] assms by (simp add: devs_rep_def)
  then have "block_get (itemList l) (ListGetPtrToItem l (int i + 1)) sizeof_device_t = Some (dev_bytes (ds ! i))"
    using assms by (simp add: ListGetItem_def ListGetItems_def ListGetPtrToItem_def devs_rep_def)
  moreover have "length (dname (ds ! i)) = 16" using assms by (simp add: devs_rep_def dev_ok_def)
  ultimately show ?thesis by (simp add: dev_at_def)
qed

lemma device_register_rep:
  assumes rep: "devs_rep l ds" and d: "dev_ok d" and mem: "\<And>n. mem_ok n"
  shows "\<exists>l'. device_register mem_ok l d = Some (l', 0) \<and> devs_rep l' (ds @ [d])"
proof -
  have len: "int (length (dev_bytes d)) = itemSize l"
    using d rep length_dev_bytes [of d] by (simp add: devs_rep_def dev_ok_def)
  from rep have "list_rep l (map dev_bytes ds)" by (simp add: devs_rep_def)
  then obtain l' where l': "ListInsertItem mem_ok l (Some (dev_bytes d)) LIST_END = Some (l', True)" "list_rep l' (map dev_bytes ds @ [dev_bytes d])"
    using append_rep [where mem_ok = mem_ok, OF _ mem len] by blast
  then have "itemSize l' = itemSize l" by (auto dest: ListInsertItem_itemSize)
  with l' rep d show ?thesis by (simp add: device_register_def devs_rep_def)
qed

lemma serial_dev_ok: "dev_ok (serial_dev drv)" "dev_name (serial_dev drv) = ''serial''"
  by (simp_all add: dev_ok_def dev_name_def serial_dev_def length_name16 eval_nat_numeral) (simp add: name16_def)

lemma devices_init_rep:
  assumes "\<And>n. mem_ok n"
  shows "\<exists>l. devices_init True mem_ok drv = Some (Inr l) \<and> devs_rep l [serial_dev drv]"
proof -
  obtain l where l: "ListCreate True sizeof_device_t = Some l" "itemSize l = sizeof_device_t" "list_rep l []"
    using ListCreate_rep [of sizeof_device_t] by (auto simp: sizeof_device_t_def)
  then have "devs_rep l []" by (simp add: devs_rep_def)
  then show ?thesis
    using device_register_rep [of l "[]" "serial_dev drv" mem_ok] l(1) assms
    by (auto simp: devices_init_def drv_system_init_def serial_dev_ok)
qed

subsection \<open>Searching and removing\<close>

text \<open>\<open>for (i = first; i <= ListNumItems (devlist); i++)\<close> up to the first device with the property, with the
  number of devices left to look at.\<close>

fun find_dev :: "clist \<Rightarrow> (device \<Rightarrow> bool) \<Rightarrow> nat \<Rightarrow> int \<Rightarrow> int option option" where
  "find_dev l P 0 i = Some None"
| "find_dev l P (Suc k) i =
     do { d \<leftarrow> dev_at l (ListGetPtrToItem l i); if P d then Some (Some i) else find_dev l P k (i + 1) }"

fun first_index :: "('a \<Rightarrow> bool) \<Rightarrow> 'a list \<Rightarrow> nat option" where
  "first_index P [] = None"
| "first_index P (x # xs) = (if P x then Some 0 else map_option Suc (first_index P xs))"

lemma first_index_Some:
  "first_index P xs = Some i \<Longrightarrow> i < length xs \<and> P (xs ! i) \<and> (\<forall>j<i. \<not> P (xs ! j))"
proof (induction xs arbitrary: i)
  case (Cons x xs)
  show ?case
  proof (cases "P x")
    case False
    with Cons.prems obtain j where j: "i = Suc j" "first_index P xs = Some j" by auto
    with Cons.IH [OF j(2)] False show ?thesis by (auto simp: less_Suc_eq_0_disj)
  qed (use Cons.prems in auto)
qed simp

lemma first_index_None: "first_index P xs = None \<longleftrightarrow> (\<forall>x\<in>set xs. \<not> P x)"
  by (induction xs) auto

lemma find_dev_rep:
  assumes "devs_rep l ds" "i \<le> length ds"
  shows "find_dev l P (length ds - i) (int i + 1) = Some (map_option (\<lambda>j. int (i + j) + 1) (first_index P (drop i ds)))"
  using assms(2)
proof (induction "length ds - i" arbitrary: i)
  case (Suc k)
  then have i: "i < length ds" by simp
  have "find_dev l P k (int (Suc i) + 1) = Some (map_option (\<lambda>j. int (Suc i + j) + 1) (first_index P (drop (Suc i) ds)))"
  proof -
    have k: "k = length ds - Suc i" using Suc.hyps(2) by simp
    show ?thesis using Suc.hyps(1) [OF k] i k by simp
  qed
  then show ?case
    unfolding Suc.hyps(2) [symmetric] using i dev_at_rep [OF assms(1) i]
    by (simp add: Cons_nth_drop_Suc [symmetric] add.commute option.map_comp comp_def)
qed simp

lemma find_dev_all:
  "devs_rep l ds \<Longrightarrow> find_dev l P (nat (ListNumItems l)) 1 = Some (map_option (\<lambda>j. int j + 1) (first_index P ds))"
  using find_dev_rep [of l ds 0 P] devs_rep_num [of l ds] by simp

text \<open>The names of the assigned devices go to \<open>char temp_names[3][8]\<close>, 24 bytes on the stack, with copies of
  \<open>sizeof (dev->name)\<close> bytes; \<open>Inl\<close> when the device is itself assigned.\<close>

fun save_names :: "clist \<Rightarrow> int \<Rightarrow> int option list \<Rightarrow> nat \<Rightarrow> u8 list \<Rightarrow> (unit + u8 list) option" where
  "save_names l dev [] k temp_names = Some (Inr temp_names)"
| "save_names l dev (p # ps) k temp_names =
     (if p = Some dev then Some (Inl ())
      else do {
        q \<leftarrow> p;
        name \<leftarrow> block_get (itemList l) (q + 8) 16;
        temp_names \<leftarrow> block_put temp_names (8 * int k) name;
        save_names l dev ps (Suc k) temp_names
      })"

definition temp_name :: "u8 list \<Rightarrow> nat \<Rightarrow> string" where
  "temp_name temp_names k = map (\<lambda>b. char_of (unat b)) (takeWhile (\<lambda>b. b \<noteq> 0) (drop (8 * k) temp_names))"

fun reassign :: "clist \<Rightarrow> u8 list \<Rightarrow> nat \<Rightarrow> int \<Rightarrow> int option list \<Rightarrow> int option list option" where
  "reassign l temp_names 0 i stdio_devices = Some stdio_devices"
| "reassign l temp_names (Suc k) i stdio_devices =
     do {
       let dev = ListGetPtrToItem l i;
       d \<leftarrow> dev_at l dev;
       reassign l temp_names k (i + 1)
         (map (\<lambda>n. if dev_name d = temp_name temp_names n then Some dev else stdio_devices ! n) [0..<length stdio_devices])
     }"

definition device_deregister :: "clist \<Rightarrow> int option list \<Rightarrow> string \<Rightarrow> (clist \<times> int option list \<times> int) option" where
  "device_deregister devlist stdio_devices devname =
     do {
       dev_index \<leftarrow> find_dev devlist (\<lambda>d. dev_name d = devname) (nat (ListNumItems devlist)) 1;
       case dev_index of
         None \<Rightarrow> Some (devlist, stdio_devices, 0)
       | Some i \<Rightarrow> do {
           r \<leftarrow> save_names devlist (ListGetPtrToItem devlist i) stdio_devices 0 (replicate 24 0);
           case r of
             Inl _ \<Rightarrow> Some (devlist, stdio_devices, - 1)
           | Inr temp_names \<Rightarrow> do {
               (l, _) \<leftarrow> ListRemoveItem devlist False i;
               s \<leftarrow> reassign l temp_names (nat (ListNumItems l)) 1 stdio_devices;
               Some (l, s, 0)
             }
         }
     }"

lemma block_get_length: "block_get m q n = Some bs \<Longrightarrow> int (length bs) = n"
  by (auto simp: block_get_def split: if_splits)

lemma block_put_length: "block_put m q bs = Some m' \<Longrightarrow> length m' = length m"
  by (auto simp: block_put_def split: if_splits)

lemma save_names_overruns:
  "length buf = 24 \<Longrightarrow> Some dev \<notin> set ps \<Longrightarrow> k + length ps = 3 \<Longrightarrow> ps \<noteq> [] \<Longrightarrow> save_names l dev ps k buf = None"
proof (induction l dev ps k buf rule: save_names.induct)
  case (2 l dev p ps k buf)
  show ?case
  proof (rule ccontr)
    assume "\<not> ?thesis"
    then obtain q name buf' r where *: "p = Some q" "block_get (itemList l) (q + 8) 16 = Some name"
      "block_put buf (8 * int k) name = Some buf'" "save_names l dev ps (Suc k) buf' = Some r"
      using 2(3) by (auto simp: not_None_eq bind_eq_Some_conv) blast
    have n: "length name = 16" using block_get_length [OF *(2)] by simp
    have b: "length buf' = 24" using block_put_length [OF *(3)] 2(2) by simp
    show False
    proof (cases ps)
      case Nil
      with 2(4) have "k = 2" by simp
      then show False using *(3) n 2(2) by (simp add: block_put_def)
    next
      case Cons
      have "p \<noteq> Some dev" using 2(3) by auto
      with Cons 2(2-5) * b 2(1) [of q name buf'] show False by simp
    qed
  qed
qed simp

subsection \<open>Properties\<close>

definition demo_drv :: serial_drv where
  "demo_drv = \<lparr>serial_putc = 0x100, serial_puts = 0x200, serial_getc = 0x300, serial_tstc = 0x400,
     serial_printf = 0x500, printf_fn = 0x600\<rparr>"

text \<open>The table with a second device registered.\<close>

definition null_dev :: device where
  "null_dev = (serial_dev demo_drv)\<lparr>dname := name16 ''nulldev''\<rparr>"

lemma null_dev_ok: "dev_ok null_dev" "dev_name null_dev = ''nulldev''"
  by (simp_all add: dev_ok_def dev_name_def null_dev_def length_name16) (simp add: name16_def eval_nat_numeral)

definition two_devs :: clist where
  "two_devs = \<lparr>percentIncrease = 10, minNumItemsIncrease = 4, listSize = 2, itemSize = 52, numItems = 2,
     itemList = dev_bytes (serial_dev demo_drv) @ dev_bytes null_dev @ replicate 4 0\<rparr>"

lemma two_devs_rep: "devs_rep two_devs [serial_dev demo_drv, null_dev]"
  using serial_dev_ok [of demo_drv] null_dev_ok length_dev_bytes [of "serial_dev demo_drv"] length_dev_bytes [of null_dev]
  by (auto simp: devs_rep_def list_rep_def two_devs_def dev_ok_def sizeof_device_t_def)

text \<open>\<open>device_deregister\<close> of a registered device that no standard file uses always writes past its local
  array \<open>temp_names\<close>: the third name copied takes bytes 16 to 31 of 24.\<close>

theorem deregister_overruns:
  assumes "devs_rep l ds" "i < length ds" "dev_name (ds ! i) = devname"
    and "\<forall>j<i. dev_name (ds ! j) \<noteq> devname" "length stdio = 3" "Some (int i * sizeof_device_t) \<notin> set stdio"
  shows "device_deregister l stdio devname = None"
proof -
  let ?P = "\<lambda>d. dev_name d = devname"
  have "first_index ?P ds = Some i"
  proof (cases "first_index ?P ds")
    case None with assms show ?thesis by (auto simp: first_index_None)
  next
    case (Some j)
    then show ?thesis using first_index_Some [OF Some] assms(2-4) by (metis linorder_neqE_nat)
  qed
  then have "find_dev l ?P (nat (ListNumItems l)) 1 = Some (Some (int i + 1))"
    using find_dev_all [OF assms(1)] by simp
  moreover have "ListGetPtrToItem l (int i + 1) = int i * sizeof_device_t"
    using assms(1) by (simp add: ListGetPtrToItem_pos devs_rep_def)
  moreover have "save_names l (int i * sizeof_device_t) stdio 0 (replicate 24 0) = None"
    using assms(5, 6) by (intro save_names_overruns) auto
  ultimately show ?thesis by (simp add: device_deregister_def)
qed

theorem deregister_overruns_witness: "device_deregister two_devs [Some 0, Some 0, Some 0] ''nulldev'' = None"
  by (rule deregister_overruns [OF two_devs_rep, of 1])
     (simp_all add: null_dev_ok serial_dev_ok sizeof_device_t_def)

end
