(* ===== verification/Vsprintf.thy ===== *)
theory Vsprintf
  imports Ctype
begin

text \<open>
  \<open>lib_generic/vsprintf.c\<close> and \<open>print_size\<close> of \<open>lib_generic/display_options.c\<close>: number parsing and
  formatted output over C strings, which are character lists without the terminating NUL; reading at
  the end of the list yields NUL. The output pointer is the string written so far. A \<open>va_arg\<close> of the
  wrong kind or past the last argument is undefined behaviour in C and the value \<open>None\<close> here; a
  \<open>%n\<close> conversion appends a pair of its target and the number of characters to the list of writes.
\<close>

subsection \<open>Reading numbers\<close>

definition NUL :: char where "NUL = CHR 0x00"

definition peek :: "string \<Rightarrow> char" where
  "peek cp = (case cp of [] \<Rightarrow> NUL | c # _ \<Rightarrow> c)"

definition digit_value :: "char \<Rightarrow> u32" where
  "digit_value c =
     (if isdigit (of_char c) then ucast (of_char c :: u8) - 48
      else ucast (if islower (of_char c) then toupper (of_char c) else of_char c :: u8) - 65 + 10)"

fun strtoul_loop :: "u32 \<Rightarrow> u32 \<Rightarrow> string \<Rightarrow> u32 \<times> string" where
  "strtoul_loop base result [] = (result, [])"
| "strtoul_loop base result (c # cp) =
     (if isxdigit (of_char c) \<and> digit_value c < base
      then strtoul_loop base (result * base + digit_value c) cp else (result, c # cp))"

definition simple_strtoul :: "string \<Rightarrow> u32 \<Rightarrow> u32 \<times> string" where
  "simple_strtoul cp base =
     (let (cp, base) =
        (if peek cp = CHR ''0''
         then (let cp = tl cp;
                   (cp, base) = (if peek cp = CHR ''x'' \<and> isxdigit (of_char (peek (tl cp)))
                                 then (tl cp, 16) else (cp, base))
               in (cp, if base = 0 then 8 else base))
         else (cp, base));
        base = (if base = 0 then 10 else base)
      in strtoul_loop base 0 cp)"

definition simple_strtol :: "string \<Rightarrow> u32 \<Rightarrow> u32 \<times> string" where
  "simple_strtol cp base =
     (if peek cp = CHR ''-'' then (let (v, endp) = simple_strtoul (tl cp) base in (- v, endp))
      else simple_strtoul cp base)"

definition is_digit :: "char \<Rightarrow> bool" where
  "is_digit c \<longleftrightarrow> (48 :: nat) \<le> of_char c \<and> of_char c \<le> (57 :: nat)"

fun skip_atoi :: "int \<Rightarrow> string \<Rightarrow> int \<times> string" where
  "skip_atoi i [] = (i, [])"
| "skip_atoi i (c # s) = (if is_digit c then skip_atoi (i * 10 + of_char c - 48) s else (i, c # s))"

subsection \<open>Writing numbers\<close>

definition ZEROPAD :: u32 where "ZEROPAD = 1"
definition SIGN :: u32 where "SIGN = 2"
definition PLUS :: u32 where "PLUS = 4"
definition SPACE :: u32 where "SPACE = 8"
definition LEFT :: u32 where "LEFT = 16"
definition SPECIAL :: u32 where "SPECIAL = 32"
definition LARGE :: u32 where "LARGE = 64"

lemmas flag_defs = ZEROPAD_def SIGN_def PLUS_def SPACE_def LEFT_def SPECIAL_def LARGE_def

definition has :: "u32 \<Rightarrow> u32 \<Rightarrow> bool" where
  "has flags f \<longleftrightarrow> flags AND f \<noteq> 0"

definition lower_digits :: string where "lower_digits = ''0123456789abcdefghijklmnopqrstuvwxyz''"
definition upper_digits :: string where "upper_digits = ''0123456789ABCDEFGHIJKLMNOPQRSTUVWXYZ''"

text \<open>\<open>tmp[i++] = digits[do_div(num,base)]\<close>: least significant digit first, on the unsigned value.\<close>

function num_digits :: "string \<Rightarrow> nat \<Rightarrow> nat \<Rightarrow> string" where
  "num_digits digits base num =
     (if num = 0 \<or> base < 2 then [] else digits ! (num mod base) # num_digits digits base (num div base))"
  by pat_completeness auto
termination by (relation "measure (\<lambda>(_, _, num). num)") auto

declare num_digits.simps [simp del]

text \<open>\<open>while (size-- > 0) *str++ = c\<close>: what it writes and what it leaves in \<open>size\<close>.\<close>

definition pad_out :: "char \<Rightarrow> int \<Rightarrow> string \<times> int" where
  "pad_out c size' = (replicate (nat size') c, if size' > 0 then - 1 else size' - 1)"

definition number_sign :: "u32 \<Rightarrow> int \<Rightarrow> u32 \<Rightarrow> string \<times> u32 \<times> int" where
  "number_sign num size' type =
     (if has type SIGN
      then (if sint num < 0 then (''-'', - num, size' - 1)
            else if has type PLUS then (''+'', num, size' - 1)
            else if has type SPACE then ('' '', num, size' - 1)
            else ([], num, size'))
      else ([], num, size'))"

definition number :: "u32 \<Rightarrow> int \<Rightarrow> int \<Rightarrow> int \<Rightarrow> u32 \<Rightarrow> string option" where
  "number num base size' precision type =
     (let digits = (if has type LARGE then upper_digits else lower_digits);
          type = (if has type LEFT then type AND NOT ZEROPAD else type)
      in if base < 2 \<or> base > 36 then None
      else
        (let c = (if has type ZEROPAD then CHR ''0'' else CHR '' '');
             (sign, num, size') = number_sign num size' type;
             size' = (if has type SPECIAL
                      then (if base = 16 then size' - 2 else if base = 8 then size' - 1 else size')
                      else size');
             tmp = (if num = 0 then ''0'' else num_digits digits (nat base) (unat num));
             i = int (length tmp);
             precision = (if i > precision then i else precision);
             size' = size' - precision;
             (pad1, size') = (if \<not> has type (ZEROPAD + LEFT) then pad_out CHR '' '' size' else ([], size'));
             special = (if has type SPECIAL
                        then (if base = 8 then ''0'' else if base = 16 then [CHR ''0'', digits ! 33] else [])
                        else []);
             (pad2, size') = (if \<not> has type LEFT then pad_out c size' else ([], size'));
             zeros = replicate (nat (precision - i)) CHR ''0'';
             (pad3, _) = pad_out CHR '' '' size'
         in Some (pad1 @ sign @ special @ pad2 @ zeros @ rev tmp @ pad3)))"

subsection \<open>Formatted output\<close>

datatype varg = VInt u32 | VStr "string option" | VPtr u32 | VNum nat

fun parse_flags :: "u32 \<Rightarrow> string \<Rightarrow> u32 \<times> string" where
  "parse_flags flags [] = (flags, [])"
| "parse_flags flags (c # fmt) =
     (if c = CHR ''-'' then parse_flags (flags OR LEFT) fmt
      else if c = CHR ''+'' then parse_flags (flags OR PLUS) fmt
      else if c = CHR '' '' then parse_flags (flags OR SPACE) fmt
      else if c = CHR ''#'' then parse_flags (flags OR SPECIAL) fmt
      else if c = CHR ''0'' then parse_flags (flags OR ZEROPAD) fmt
      else (flags, c # fmt))"

definition field_width :: "u32 \<Rightarrow> string \<Rightarrow> varg list \<Rightarrow> (int \<times> u32 \<times> string \<times> varg list) option" where
  "field_width flags fmt args =
     (if is_digit (peek fmt)
      then (let (w, fmt) = skip_atoi 0 fmt in Some (w, flags, fmt, args))
      else if peek fmt = CHR ''*''
      then (case args of
              VInt a # args \<Rightarrow>
                if sint a < 0 then Some (- sint a, flags OR LEFT, tl fmt, args)
                else Some (sint a, flags, tl fmt, args)
            | _ \<Rightarrow> None)
      else Some (- 1, flags, fmt, args))"

definition get_precision :: "string \<Rightarrow> varg list \<Rightarrow> (int \<times> string \<times> varg list) option" where
  "get_precision fmt args =
     (if peek fmt = CHR ''.''
      then (let fmt = tl fmt in
            if is_digit (peek fmt)
            then (let (p, fmt) = skip_atoi 0 fmt in Some (if p < 0 then 0 else p, fmt, args))
            else if peek fmt = CHR ''*''
            then (case args of
                    VInt a # args \<Rightarrow> Some (if sint a < 0 then 0 else sint a, tl fmt, args)
                  | _ \<Rightarrow> None)
            else Some (0, fmt, args))
      else Some (- 1, fmt, args))"

definition get_qualifier :: "string \<Rightarrow> char \<times> string" where
  "get_qualifier fmt =
     (if peek fmt = CHR ''h'' \<or> peek fmt = CHR ''l'' \<or> peek fmt = CHR ''q'' then (peek fmt, tl fmt) else (NUL, fmt))"

definition out_char :: "u32 \<Rightarrow> int \<Rightarrow> char \<Rightarrow> string" where
  "out_char flags w c =
     (if \<not> has flags LEFT then replicate (nat (w - 1)) CHR '' '' @ [c]
      else c # replicate (nat (w - 1)) CHR '' '')"

definition out_string :: "u32 \<Rightarrow> int \<Rightarrow> int \<Rightarrow> string option \<Rightarrow> string" where
  "out_string flags w precision arg =
     (let s = (case arg of None \<Rightarrow> ''<NULL>'' | Some s \<Rightarrow> s);
          len = nat (min (int (length s)) (precision mod 2 ^ 32));
          spaces = replicate (nat (w - int len)) CHR '' ''
      in if \<not> has flags LEFT then spaces @ take len s else take len s @ spaces)"

definition int_arg :: "u32 \<Rightarrow> char \<Rightarrow> u32 \<Rightarrow> u32" where
  "int_arg flags qualifier a =
     (if qualifier = CHR ''h''
      then (if has flags SIGN then scast (ucast a :: u16) else ucast (ucast a :: u16)) else a)"

type_synonym spec_result = "(string \<times> (nat \<times> int) list \<times> varg list) option"

definition conv_int :: "u32 \<Rightarrow> int \<Rightarrow> int \<Rightarrow> char \<Rightarrow> int \<Rightarrow> varg list \<Rightarrow> spec_result" where
  "conv_int flags w precision qualifier base args =
     (case args of
        VInt a # args \<Rightarrow>
          map_option (\<lambda>s. (s, [], args)) (number (int_arg flags qualifier a) base w precision flags)
      | _ \<Rightarrow> None)"

definition conv :: "nat \<Rightarrow> u32 \<Rightarrow> int \<Rightarrow> int \<Rightarrow> char \<Rightarrow> char \<Rightarrow> varg list \<Rightarrow> spec_result" where
  "conv written flags w precision qualifier c args =
     (if c = CHR ''c'' then
        (case args of VInt a # args \<Rightarrow> Some (out_char flags w (char_of (unat (ucast a :: u8))), [], args) | _ \<Rightarrow> None)
      else if c = CHR ''s'' then
        (case args of VStr s # args \<Rightarrow> Some (out_string flags w precision s, [], args) | _ \<Rightarrow> None)
      else if c = CHR ''p'' then
        (let (w, flags) = (if w = - 1 then (8, flags OR ZEROPAD) else (w, flags)) in
         case args of
           VPtr a # args \<Rightarrow> map_option (\<lambda>s. (s, [], args)) (number a 16 w precision flags) | _ \<Rightarrow> None)
      else if c = CHR ''n'' then
        (case args of VNum k # args \<Rightarrow> Some ([], [(k, int written)], args) | _ \<Rightarrow> None)
      else if c = CHR ''%'' then Some (''%'', [], args)
      else if c = CHR ''o'' then conv_int flags w precision qualifier 8 args
      else if c = CHR ''X'' then conv_int (flags OR LARGE) w precision qualifier 16 args
      else if c = CHR ''x'' then conv_int flags w precision qualifier 16 args
      else if c = CHR ''d'' \<or> c = CHR ''i'' then conv_int (flags OR SIGN) w precision qualifier 10 args
      else if c = CHR ''u'' then conv_int flags w precision qualifier 10 args
      else if c \<noteq> NUL then Some ([CHR ''%'', c], [], args)
      else Some (''%'', [], args))"

definition conv_spec :: "nat \<Rightarrow> string \<Rightarrow> varg list \<Rightarrow> (string \<times> (nat \<times> int) list \<times> string \<times> varg list) option" where
  "conv_spec written fmt args =
     (let (flags, fmt) = parse_flags 0 fmt in
      case field_width flags fmt args of
        None \<Rightarrow> None
      | Some (w, flags, fmt, args) \<Rightarrow>
          (case get_precision fmt args of
             None \<Rightarrow> None
           | Some (precision, fmt, args) \<Rightarrow>
               (let (qualifier, fmt) = get_qualifier fmt in
                map_option (\<lambda>(s, ns, args). (s, ns, tl fmt, args))
                  (conv written flags w precision qualifier (peek fmt) args))))"

lemma length_parse_flags: "length (snd (parse_flags fl fmt)) \<le> length fmt"
  by (induction fl fmt rule: parse_flags.induct) auto

lemma length_skip_atoi: "length (snd (skip_atoi i fmt)) \<le> length fmt"
  by (induction i fmt rule: skip_atoi.induct) auto

lemma length_conv_spec:
  assumes "conv_spec k fmt args = Some (s, ns, fmt', args')"
  shows "length fmt' \<le> length fmt"
proof -
  have w: "length f' \<le> length f" if "field_width fl f a = Some (w, fl', f', a')" for fl f a w fl' f' a'
    using that length_skip_atoi [of 0 f]
    by (auto simp: field_width_def split: if_splits list.splits varg.splits prod.splits)
  have p: "length f' \<le> length f" if "get_precision f a = Some (w, f', a')" for f a w f' a'
    using that length_skip_atoi [of 0 "tl f"]
    by (auto simp: get_precision_def Let_def split: if_splits list.splits varg.splits prod.splits)
  have q: "length (snd (get_qualifier f)) \<le> length f" for f by (simp add: get_qualifier_def)
  obtain fl f1 where f1: "parse_flags 0 fmt = (fl, f1)" by fastforce
  obtain w fl2 f2 a2 where f2: "field_width fl f1 args = Some (w, fl2, f2, a2)"
    using assms f1 by (auto simp: conv_spec_def split: option.splits)
  obtain pr f3 a3 where f3: "get_precision f2 a2 = Some (pr, f3, a3)"
    using assms f1 f2 by (auto simp: conv_spec_def split: option.splits)
  have "fmt' = tl (snd (get_qualifier f3))"
    using assms f1 f2 f3 by (auto simp: conv_spec_def split: prod.splits)
  with w [OF f2] p [OF f3] q [of f3] length_parse_flags [of 0 fmt] f1 show ?thesis by simp
qed

function vsprintf_loop :: "string \<Rightarrow> (nat \<times> int) list \<Rightarrow> string \<Rightarrow> varg list \<Rightarrow> (string \<times> (nat \<times> int) list) option" where
  "vsprintf_loop out ns [] args = Some (out, ns)"
| "vsprintf_loop out ns (c # fmt) args =
     (if c \<noteq> CHR ''%'' then vsprintf_loop (out @ [c]) ns fmt args
      else (case conv_spec (length out) fmt args of
              None \<Rightarrow> None
            | Some (s, n, fmt, args) \<Rightarrow> vsprintf_loop (out @ s) (ns @ n) fmt args))"
  by pat_completeness auto
termination
  by (relation "measure (\<lambda>(_, _, fmt, _). length fmt)") (auto dest!: sym [of "Some _"] length_conv_spec)

definition vsprintf :: "string \<Rightarrow> varg list \<Rightarrow> (string \<times> (nat \<times> int) list \<times> int) option" where
  "vsprintf fmt args = map_option (\<lambda>(out, ns). (out, ns, int (length out))) (vsprintf_loop [] [] fmt args)"

definition print_size :: "u32 \<Rightarrow> string \<Rightarrow> string option" where
  "print_size size' s =
     (let (c, d) = (if size' < push_bit 20 1 then (CHR ''k'', push_bit 10 1) else (CHR ''M'', push_bit 20 1));
          n = size' div d;
          m = (10 * (size' - n * d) + d div 2) div d;
          (m, n) = (if m \<ge> 10 then (m - 10, n + 1) else (m, n));
          out = (\<lambda>fmt args. map_option fst (vsprintf fmt args))
      in case (out ''%2ld'' [VInt n], (if m \<noteq> 0 then out ''.%ld'' [VInt m] else Some []),
               out '' %cB%s'' [VInt (ucast (of_char c :: u8)), VStr (Some s)]) of
           (Some a, Some b, Some e) \<Rightarrow> Some (a @ b @ e) | _ \<Rightarrow> None)"

subsection \<open>Digits\<close>

lemma all_less_16: "(\<forall>d<16. P d) \<longleftrightarrow> list_all P [0,1,2,3,4,5,6,7,8,9,10,11,12,13,14,15::nat]"
proof -
  have "(\<forall>d<16. P d) \<longleftrightarrow> list_all P [0..<16]" by (auto simp: list_all_iff)
  then show ?thesis by (simp add: upt_rec numeral_eq_Suc)
qed

lemma digit_chars:
  "\<forall>d<16. isxdigit (of_char (upper_digits ! d)) \<and> isxdigit (of_char (lower_digits ! d)) \<and>
     digit_value (upper_digits ! d) = of_nat d \<and> digit_value (lower_digits ! d) = of_nat d \<and>
     (upper_digits ! d = CHR ''0'' \<longleftrightarrow> d = 0) \<and> (lower_digits ! d = CHR ''0'' \<longleftrightarrow> d = 0)"
  unfolding all_less_16
  by (simp add: upper_digits_def lower_digits_def digit_value_def isxdigit_range isdigit_range
      islower_ascii isupper_ascii toupper_def)

definition digit_set :: "string \<Rightarrow> bool" where
  "digit_set digits \<longleftrightarrow> digits = upper_digits \<or> digits = lower_digits"

lemma digit_char:
  assumes "digit_set digits" "d < 16"
  shows "isxdigit (of_char (digits ! d))" "digit_value (digits ! d) = of_nat d"
    "digits ! d = CHR ''0'' \<longleftrightarrow> d = 0"
  using assms digit_chars by (auto simp: digit_set_def)

definition digits_value :: "u32 \<Rightarrow> u32 \<Rightarrow> string \<Rightarrow> u32" where
  "digits_value base r s = foldl (\<lambda>r c. r * base + digit_value c) r s"

lemma strtoul_loop_digits:
  "\<forall>c\<in>set s. isxdigit (of_char c) \<and> digit_value c < base \<Longrightarrow>
   strtoul_loop base r (s @ t) = strtoul_loop base (digits_value base r s) t"
  by (induction s arbitrary: r) (auto simp: digits_value_def)

lemma num_digits_valid:
  "digit_set digits \<Longrightarrow> 2 \<le> base \<Longrightarrow> base \<le> 16 \<Longrightarrow> c \<in> set (num_digits digits base n) \<Longrightarrow>
   isxdigit (of_char c) \<and> digit_value c < of_nat base"
proof (induction digits base n rule: num_digits.induct)
  case (1 digits base n)
  then have "n \<noteq> 0" by (cases "n = 0") (simp_all add: num_digits.simps [of digits base 0])
  have lt: "n mod base < base" "n mod base < 16"
    using 1 mod_less_divisor [of base n] by linarith+
  then have "(of_nat (n mod base) :: u32) < of_nat base"
    using 1 by (simp add: word_less_nat_alt unat_of_nat)
  moreover have "c = digits ! (n mod base) \<or> c \<in> set (num_digits digits base (n div base))"
    using 1 \<open>n \<noteq> 0\<close> by (simp add: num_digits.simps [of digits base n])
  ultimately show ?case using 1 \<open>n \<noteq> 0\<close> digit_char [OF 1(2) lt(2)] by auto
qed

lemma num_digits_value:
  "digit_set digits \<Longrightarrow> 2 \<le> base \<Longrightarrow> base \<le> 16 \<Longrightarrow>
   digits_value (of_nat base) 0 (rev (num_digits digits base n)) = of_nat n"
proof (induction digits base n rule: num_digits.induct)
  case (1 digits base n)
  show ?case
  proof (cases "n = 0")
    case True then show ?thesis by (simp add: num_digits.simps digits_value_def)
  next
    case False
    have lt: "n mod base < 16" using 1 mod_less_divisor [of base n] by linarith
    have "(of_nat n :: u32) = of_nat (n div base * base + n mod base)" by simp
    then have "(of_nat n :: u32) = of_nat (n div base) * of_nat base + of_nat (n mod base)"
      by (simp only: of_nat_add of_nat_mult)
    with 1 False digit_char [OF 1(2) lt] show ?thesis
      by (simp add: num_digits.simps [of digits base n] digits_value_def)
  qed
qed

lemma num_digits_leading:
  "digit_set digits \<Longrightarrow> 2 \<le> base \<Longrightarrow> base \<le> 16 \<Longrightarrow> n \<noteq> 0 \<Longrightarrow>
   num_digits digits base n \<noteq> [] \<and> last (num_digits digits base n) \<noteq> CHR ''0''"
proof (induction digits base n rule: num_digits.induct)
  case (1 digits base n)
  have lt: "n mod base < 16" using 1 mod_less_divisor [of base n] by linarith
  show ?case
  proof (cases "n div base = 0")
    case True
    then have "n mod base \<noteq> 0" using 1 by (metis div_mult_mod_eq add_eq_0_iff_both_eq_0 mult_0)
    with True 1 digit_char(3) [OF 1(2) lt] show ?thesis
      by (simp add: num_digits.simps [of digits base n] num_digits.simps [of digits base 0])
  next
    case False
    with 1 show ?thesis by (simp add: num_digits.simps [of digits base n])
  qed
qed

lemma simple_strtoul_digits:
  assumes "digit_set digits" "2 \<le> base" "base \<le> 16" "n < 2 ^ 32"
  shows "simple_strtoul (if n = 0 then ''0'' else rev (num_digits digits base n)) (of_nat base) = (of_nat n, [])"
proof (cases "n = 0")
  case True
  then show ?thesis by (simp add: simple_strtoul_def peek_def NUL_def)
next
  case False
  let ?s = "rev (num_digits digits base n)"
  have "peek ?s \<noteq> CHR ''0''" "peek ?s = last (num_digits digits base n)"
    using num_digits_leading [OF assms(1-3) False]
    by (auto simp: peek_def hd_rev [symmetric] split: list.splits)
  moreover have "(of_nat base :: u32) \<noteq> 0"
    using assms by (simp add: word_unat_eq_iff unat_of_nat)
  moreover have "strtoul_loop (of_nat base) 0 (?s @ []) = (of_nat n, [])"
    using num_digits_valid [OF assms(1-3)] num_digits_value [OF assms(1-3)]
    by (subst strtoul_loop_digits) auto
  ultimately show ?thesis using False by (simp add: simple_strtoul_def)
qed

subsection \<open>Formatted numbers\<close>

lemma has_bits:
  "\<not> has 0 f" "has (a OR b) f \<longleftrightarrow> has a f \<or> has b f"
  by (auto simp: has_def bit.conj_disj_distrib2 or_eq_0_iff)

lemma has_LARGE:
  "has LARGE LARGE" "\<not> has LARGE LEFT" "\<not> has LARGE SIGN" "\<not> has LARGE SPECIAL" "\<not> has LARGE ZEROPAD"
  "\<not> has LARGE (ZEROPAD + LEFT)" "LARGE \<noteq> 0"
  by (simp_all add: has_def flag_defs)

lemma number_plain:
  assumes "2 \<le> base" "base \<le> 36" "flags = 0 \<or> flags = LARGE"
  shows "number num base (- 1) (- 1) flags =
    Some (if num = 0 then ''0''
          else rev (num_digits (if flags = LARGE then upper_digits else lower_digits) (nat base) (unat num)))"
proof -
  have "number num base (- 1) (- 1) 0 = Some (if num = 0 then ''0'' else rev (num_digits lower_digits (nat base) (unat num)))"
    using assms(1, 2) by (simp add: number_def number_sign_def has_bits pad_out_def Let_def)
  moreover have "number num base (- 1) (- 1) LARGE = Some (if num = 0 then ''0'' else rev (num_digits upper_digits (nat base) (unat num)))"
    using assms(1, 2) by (simp add: number_def number_sign_def has_LARGE pad_out_def Let_def)
  ultimately show ?thesis using assms(3) has_LARGE(7) by auto
qed

lemma number_plain_reads_back:
  assumes "2 \<le> base" "base \<le> 16" "flags = 0 \<or> flags = LARGE"
  shows "\<exists>s. number num (int base) (- 1) (- 1) flags = Some s \<and> simple_strtoul s (of_nat base) = (num, [])"
proof -
  let ?digits = "if flags = LARGE then upper_digits else lower_digits"
  have "digit_set ?digits" by (simp add: digit_set_def)
  then have "simple_strtoul (if unat num = 0 then ''0'' else rev (num_digits ?digits base (unat num))) (of_nat base)
      = (of_nat (unat num), [])"
    using assms by (intro simple_strtoul_digits) auto
  moreover have "number num (int base) (- 1) (- 1) flags =
      Some (if unat num = 0 then ''0'' else rev (num_digits ?digits base (unat num)))"
    using number_plain [of "int base" flags num] assms by (simp only: nat_int unat_eq_zero)
  ultimately show ?thesis by simp
qed

lemma vsprintf_one:
  assumes "conv_spec 0 fmt args = Some (s, [], [], [])"
  shows "vsprintf (CHR ''%'' # fmt) args = Some (s, [], int (length s))"
  using assms by (simp add: vsprintf_def)

lemma number_total: "2 \<le> base \<Longrightarrow> base \<le> 36 \<Longrightarrow> \<exists>s. number n base w p f = Some s"
proof -
  assume "2 \<le> base" "base \<le> 36"
  then have b: "(base < 2 \<or> 36 < base) = False" by simp
  have let_ex: "(\<And>x. \<exists>s. F x = Some s) \<Longrightarrow> \<exists>s. Let a F = Some s" for a :: 'x and F :: "'x \<Rightarrow> string option"
    by (simp add: Let_def)
  have prod_ex: "(\<And>x y. \<exists>s. G x y = Some s) \<Longrightarrow> \<exists>s. case_prod G q = Some s"
    for q :: "'x \<times> 'y" and G :: "'x \<Rightarrow> 'y \<Rightarrow> string option"
    by (cases q) simp
  show ?thesis unfolding number_def b if_False by (intro let_ex prod_ex) simp
qed

lemmas conv_spec_eval = conv_spec_def field_width_def get_precision_def get_qualifier_def peek_def
  is_digit_def conv_def conv_int_def int_arg_def NUL_def

lemma conv_spec_d:
  "\<exists>s. conv_spec k (CHR ''d'' # fmt) (VInt a # args) = Some (s, [], fmt, args)"
  using number_total [of 10 a "- 1" "- 1" SIGN] by (auto simp: conv_spec_eval has_bits)

text \<open>Numbers written with \<open>%lX\<close>, \<open>%lx\<close> or \<open>%lu\<close> read back exactly: for every 32-bit value the
  formatted text is a complete numeral that \<open>simple_strtoul\<close> in the matching base turns into the value,
  leaving nothing unread. This is how \<open>filesize\<close> and \<open>fileaddr\<close> pass through the environment.\<close>

theorem sprintf_strtoul_roundtrip:
  "(\<exists>s. vsprintf ''%lX'' [VInt n] = Some (s, [], int (length s)) \<and> simple_strtoul s 16 = (n, [])) \<and>
   (\<exists>s. vsprintf ''%lx'' [VInt n] = Some (s, [], int (length s)) \<and> simple_strtoul s 16 = (n, [])) \<and>
   (\<exists>s. vsprintf ''%lu'' [VInt n] = Some (s, [], int (length s)) \<and> simple_strtoul s 10 = (n, []))"
proof -
  obtain s1 where s1: "number n 16 (- 1) (- 1) LARGE = Some s1" "simple_strtoul s1 16 = (n, [])"
    using number_plain_reads_back [of 16 LARGE n] by auto
  obtain s2 where s2: "number n 16 (- 1) (- 1) 0 = Some s2" "simple_strtoul s2 16 = (n, [])"
    using number_plain_reads_back [of 16 0 n] by auto
  obtain s3 where s3: "number n 10 (- 1) (- 1) 0 = Some s3" "simple_strtoul s3 10 = (n, [])"
    using number_plain_reads_back [of 10 0 n] by auto
  have "vsprintf ''%lX'' [VInt n] = Some (s1, [], int (length s1))"
    by (rule vsprintf_one) (simp add: conv_spec_eval s1)
  moreover have "vsprintf ''%lx'' [VInt n] = Some (s2, [], int (length s2))"
    by (rule vsprintf_one) (simp add: conv_spec_eval s2)
  moreover have "vsprintf ''%lu'' [VInt n] = Some (s3, [], int (length s3))"
    by (rule vsprintf_one) (simp add: conv_spec_eval s3)
  ultimately show ?thesis using s1 s2 s3 by blast
qed

text \<open>The length of what has to be shown: the sign, the prefix and the digits.\<close>

definition shown_length :: "u32 \<Rightarrow> int \<Rightarrow> int \<Rightarrow> u32 \<Rightarrow> int" where
  "shown_length num base precision type =
     (let (sign, num, _) = number_sign num 0 type;
          digits = (if num = 0 then 1 else length (num_digits [] (nat base) (unat num)));
          prefix = (if has type SPECIAL then (if base = 16 then 2 else if base = 8 then 1 else 0) else 0)
      in int (length sign) + prefix + max precision (int digits))"

lemma length_num_digits: "length (num_digits ds base n) = length (num_digits [] base n)"
  by (induction ds base n rule: num_digits.induct)
     (simp add: num_digits.simps [of _ _ "_ :: nat"])

lemma number_sign_shift:
  "number_sign num k type = (s, n, k') \<Longrightarrow> k' = k - int (length s) \<and> number_sign num 0 type = (s, n, - int (length s))"
  by (auto simp: number_sign_def split: if_splits)

text \<open>Whatever branch is taken, the three padding loops together write \<open>max 0 size\<close> characters.\<close>

lemma pads_length:
  assumes "(pad1, k1) = (if a then pad_out c1 k else ([], k))" "(pad2, k2) = (if b then pad_out c2 k1 else ([], k1))"
    "(pad3, k3) = pad_out c3 k2"
  shows "int (length pad1) + int (length pad2) + int (length pad3) = max 0 k"
  using assms by (auto simp: pad_out_def split: if_splits)

text \<open>\<open>number\<close> honours the field width: the text it writes is exactly as long as the larger of the
  requested width and the sign, prefix and digits it has to show, whatever the combination of flags.\<close>

theorem number_field_width:
  assumes "number num base w precision type = Some s"
  shows "int (length s) = max w (shown_length num base precision type)"
proof -
  define ds where "ds = (if has type LARGE then upper_digits else lower_digits)"
  define type' where "type' = (if has type LEFT then type AND NOT ZEROPAD else type)"
  have same: "has type' f = has type f" if "NOT ZEROPAD AND f = f" for f
    by (simp add: type'_def has_def and.assoc that)
  have sf: "has type' SIGN = has type SIGN" "has type' PLUS = has type PLUS" "has type' SPACE = has type SPACE"
    "has type' SPECIAL = has type SPECIAL"
    by (rule same, simp add: flag_defs)+
  have nt: "number_sign x i type' = number_sign x i type" for x i
    by (simp only: number_sign_def sf)
  obtain sg n k where sg: "number_sign num w type' = (sg, n, k)" by (cases "number_sign num w type'")
  have sg0: "k = w - int (length sg)" "number_sign num 0 type = (sg, n, - int (length sg))"
    using number_sign_shift [OF sg] by (simp_all add: nt)
  define tmp where "tmp = (if n = 0 then ''0'' else num_digits ds (nat base) (unat n))"
  define pre where "pre = (if has type SPECIAL then (if base = 16 then 2 else if base = 8 then 1 else 0) else 0 :: int)"
  define prec where "prec = (if int (length tmp) > precision then int (length tmp) else precision)"
  have digs: "int (length tmp) = int (if n = 0 then 1 else length (num_digits [] (nat base) (unat n)))"
    using length_num_digits [of ds "nat base" "unat n"] by (simp add: tmp_def)
  have shown: "shown_length num base precision type = int (length sg) + pre + prec"
    unfolding shown_length_def sg0(2) Let_def prod.case digs [symmetric] pre_def [symmetric] prec_def
    by auto
  obtain p1 k1 where p1: "(p1, k1) = (if \<not> has type' (ZEROPAD + LEFT) then pad_out CHR '' '' (k - pre - prec) else ([], k - pre - prec))"
    by (metis surj_pair)
  obtain p2 k2 where p2: "(p2, k2) = (if \<not> has type' LEFT then pad_out (if has type' ZEROPAD then CHR ''0'' else CHR '' '') k1 else ([], k1))"
    by (metis surj_pair)
  obtain p3 k3 where p3: "(p3, k3) = pad_out CHR '' '' k2" by (metis surj_pair)
  have ok: "(base < 2 \<or> base > 36) = False"
    using assms by (cases "base < 2 \<or> base > 36") (simp_all only: number_def Let_def if_True if_False, simp_all)
  have size2: "(if has type SPECIAL then if base = 16 then k - 2 else if base = 8 then k - 1 else k else k) = k - pre"
    by (simp add: pre_def)
  define sp where "sp = (if has type SPECIAL then (if base = 8 then ''0'' else if base = 16 then [CHR ''0'', ds ! 33] else []) else [])"
  have "s = p1 @ sg @ sp @ p2 @ replicate (nat (prec - int (length tmp))) CHR ''0'' @ rev tmp @ p3"
    using assms unfolding number_def
    by (simp only: Let_def ds_def [symmetric] type'_def [symmetric] sg prod.case sf tmp_def [symmetric] prec_def [symmetric]
        size2 p1 [symmetric] p2 [symmetric] p3 [symmetric] sp_def [symmetric] ok if_False option.inject)
  moreover have "int (length sp) = pre" by (simp add: sp_def pre_def)
  moreover have "int (nat (prec - int (length tmp))) = prec - int (length tmp)" by (simp add: prec_def)
  ultimately have "int (length s) = int (length p1) + int (length p2) + int (length p3) + int (length sg) + pre + prec"
    by simp
  then show ?thesis
    unfolding pads_length [OF p1 p2 p3] sg0(1) shown by (simp add: max_def)
qed

theorem number_field_width_witness:
  "number 255 16 8 (- 1) (SPECIAL + ZEROPAD) = Some ''0x0000ff'' \<and> max 8 (shown_length 255 16 (- 1) (SPECIAL + ZEROPAD)) = 8"
proof -
  have "num_digits lower_digits 16 255 = ''ff''" "lower_digits ! 33 = CHR ''x''"
    by (simp_all add: num_digits.simps [of _ 16] lower_digits_def)
  moreover have "replicate 4 CHR ''0'' = ''0000''" by (simp add: eval_nat_numeral)
  ultimately have n: "number 255 16 8 (- 1) (SPECIAL + ZEROPAD) = Some ''0x0000ff''"
    by (simp add: number_def number_sign_def has_def flag_defs pad_out_def Let_def)
  from number_field_width [OF n] n show ?thesis by simp
qed

end
