(* ===== verification/Env.thy ===== *)
theory Env
  imports Vsprintf Crc32 "HOL-Library.Monad_Syntax"
begin

text \<open>
  \<open>common/cmd_nvedit.c\<close> and the memory half of \<open>common/env_common.c\<close>: the environment, a block of
  \<open>ENV_SIZE\<close> bytes holding NUL-terminated \<open>name=value\<close> strings one after the other and a final NUL,
  edited in place. Reads and writes go through \<open>rd\<close> and \<open>wr\<close>, which fail (\<open>None\<close>) outside the block,
  so an operation that returns \<open>Some\<close> is also free of out-of-bounds accesses; following a NULL pointer
  is \<open>None\<close> too. The abstract environment is the list of its strings.
\<close>

subsection \<open>State\<close>

definition CFG_ENV_SIZE :: nat where "CFG_ENV_SIZE = 0x1000"
definition ENV_SIZE :: nat where "ENV_SIZE = CFG_ENV_SIZE - 4"

text \<open>The RAM copy (\<open>env_ptr->crc\<close>, \<open>env_ptr->data\<close>), the default block, the flag \<open>gd->env_valid\<close> that
  selects between them, and what \<open>setenv\<close> updates besides: \<open>gd->baudrate\<close>, \<open>bd->bi_enetaddr\<close>,
  \<open>bd->bi_ip_addr\<close>, \<open>load_addr\<close>, \<open>BootFile\<close>, the CRC table and the console assignments, whose type
  \<open>'c\<close> belongs to the console component.\<close>

record 'c env_state =
  hdr_crc :: u32
  env_data :: string
  default_env :: string
  env_valid :: bool
  gd_baudrate :: u32
  bi_enetaddr :: "u8 list"
  bi_ip_addr :: u32
  load_addr :: u32
  BootFile :: string
  crc_st :: crc_state
  con :: 'c

definition rd :: "string \<Rightarrow> nat \<Rightarrow> char option" where
  "rd d i = (if i < length d then Some (d ! i) else None)"

definition wr :: "string \<Rightarrow> nat \<Rightarrow> char \<Rightarrow> string option" where
  "wr d i c = (if i < length d then Some (d[i := c]) else None)"

text \<open>\<open>env_get_char_memory\<close> and \<open>env_get_addr\<close>: the block the accesses go to.\<close>

definition env_block :: "('c, 'm) env_state_scheme \<Rightarrow> string" where
  "env_block s = (if env_valid s then env_data s else default_env s)"

definition set_env_block :: "string \<Rightarrow> ('c, 'm) env_state_scheme \<Rightarrow> ('c, 'm) env_state_scheme" where
  "set_env_block d s = (if env_valid s then s\<lparr>env_data := d\<rparr> else s\<lparr>default_env := d\<rparr>)"

definition env_get_char :: "('c, 'm) env_state_scheme \<Rightarrow> nat \<Rightarrow> char option" where
  "env_get_char s i = rd (env_block s) i"

definition env_crc_update :: "('c, 'm) env_state_scheme \<Rightarrow> ('c, 'm) env_state_scheme" where
  "env_crc_update s =
     (let (cs, crc) = crc32 (crc_st s) 0 (map of_char (take (0x1000 - 4) (env_data s)))
      in s\<lparr>crc_st := cs, hdr_crc := crc\<rparr>)"

subsection \<open>Searching\<close>

function envmatch_loop :: "string \<Rightarrow> string \<Rightarrow> nat \<Rightarrow> int option" where
  "envmatch_loop d s1 i2 =
     (case rd d i2 of
        None \<Rightarrow> None
      | Some c \<Rightarrow>
          if peek s1 = c
          then (if c = CHR ''='' then Some (int i2 + 1)
                else if s1 = [] then None
                else envmatch_loop d (tl s1) (i2 + 1))
          else if peek s1 = NUL \<and> c = CHR ''='' then Some (int i2 + 1)
          else Some (- 1))"
  by pat_completeness auto
termination by (relation "measure (\<lambda>(d, _, i). length d - i)") (auto simp: rd_def split: if_splits)

declare envmatch_loop.simps [simp del]

definition envmatch :: "string \<Rightarrow> string \<Rightarrow> nat \<Rightarrow> int option" where
  "envmatch d s1 i2 = envmatch_loop d s1 i2"

text \<open>\<open>for (nxt=i; env_get_char(nxt) != 0; ++nxt)\<close>.\<close>

function skip_var :: "string \<Rightarrow> nat \<Rightarrow> nat option" where
  "skip_var d nxt =
     (case rd d nxt of None \<Rightarrow> None | Some c \<Rightarrow> if c \<noteq> NUL then skip_var d (nxt + 1) else Some nxt)"
  by pat_completeness auto
termination by (relation "measure (\<lambda>(d, i). length d - i)") (auto simp: rd_def split: if_splits)

declare skip_var.simps [simp del]

lemma skip_var_bounds: "skip_var d i = Some n \<Longrightarrow> i \<le> n \<and> n < length d \<and> d ! n = NUL"
proof (induction d i rule: skip_var.induct)
  case (1 d i)
  show ?case
  proof (cases "i < length d \<and> d ! i \<noteq> NUL")
    case True
    with "1.prems" have "skip_var d (i + 1) = Some n" by (subst (asm) skip_var.simps) (simp add: rd_def)
    with True 1(1) [of "d ! i"] show ?thesis by (simp add: rd_def)
  next
    case False
    with "1.prems" show ?thesis by (subst (asm) skip_var.simps) (auto simp: rd_def split: if_splits)
  qed
qed

text \<open>The scan of \<open>getenv\<close>, with its test against \<open>CFG_ENV_SIZE\<close>: \<open>Inl ()\<close> is the early \<open>return NULL\<close>.\<close>

function skip_var_limit :: "string \<Rightarrow> nat \<Rightarrow> (unit + nat) option" where
  "skip_var_limit d nxt =
     (case rd d nxt of
        None \<Rightarrow> None
      | Some c \<Rightarrow> if c \<noteq> NUL then (if nxt \<ge> CFG_ENV_SIZE then Some (Inl ()) else skip_var_limit d (nxt + 1))
                  else Some (Inr nxt))"
  by pat_completeness auto
termination by (relation "measure (\<lambda>(d, i). length d - i)") (auto simp: rd_def split: if_splits)

declare skip_var_limit.simps [simp del]

text \<open>The string at an address, up to its NUL.\<close>

definition str_at :: "string \<Rightarrow> nat \<Rightarrow> string" where
  "str_at d i = takeWhile (\<lambda>c. c \<noteq> NUL) (drop i d)"

lemma skip_var_limit_bounds: "skip_var_limit d i = Some (Inr n) \<Longrightarrow> i \<le> n \<and> n < length d"
proof (induction d i rule: skip_var_limit.induct)
  case (1 d i)
  show ?case
  proof (cases "i < length d \<and> d ! i \<noteq> NUL \<and> i < CFG_ENV_SIZE")
    case True
    with "1.prems" have "skip_var_limit d (i + 1) = Some (Inr n)"
      by (subst (asm) skip_var_limit.simps) (simp add: rd_def)
    with True 1(1) [of "d ! i"] show ?thesis by (simp add: rd_def)
  next
    case False
    with "1.prems" show ?thesis by (subst (asm) skip_var_limit.simps) (auto simp: rd_def split: if_splits)
  qed
qed

text \<open>\<open>getenv\<close> returns an address in the block, \<open>Some None\<close> for NULL.\<close>

function getenv_loop :: "string \<Rightarrow> string \<Rightarrow> nat \<Rightarrow> nat option option" where
  "getenv_loop d name i =
     (case rd d i of
        None \<Rightarrow> None
      | Some c \<Rightarrow>
          if c = NUL then Some None
          else (case skip_var_limit d i of
                  None \<Rightarrow> None
                | Some (Inl _) \<Rightarrow> Some None
                | Some (Inr nxt) \<Rightarrow>
                    (case envmatch d name i of
                       None \<Rightarrow> None
                     | Some val \<Rightarrow> if val < 0 then getenv_loop d name (nxt + 1) else Some (Some (nat val)))))"
  by pat_completeness auto
termination
  by (relation "measure (\<lambda>(d, _, i). length d - i)") (auto dest!: skip_var_limit_bounds)

declare getenv_loop.simps [simp del]

definition getenv :: "('c, 'm) env_state_scheme \<Rightarrow> string \<Rightarrow> string option option" where
  "getenv s name = map_option (map_option (str_at (env_block s))) (getenv_loop (env_block s) name 0)"

subsection \<open>Printing\<close>

text \<open>\<open>ctrlc\<close> is asked after every variable; its answers are a function of the number of polls.\<close>

function print_all :: "(nat \<Rightarrow> bool) \<Rightarrow> nat \<Rightarrow> string \<Rightarrow> string \<Rightarrow> nat \<Rightarrow> (string \<times> (unit + nat)) option" where
  "print_all ctrlc n out d i =
     (case rd d i of
        None \<Rightarrow> None
      | Some c \<Rightarrow>
          if c = NUL then Some (out, Inr i)
          else (case skip_var d i of
                  None \<Rightarrow> None
                | Some nxt \<Rightarrow>
                    let out = out @ take (nxt - i) (drop i d) @ [CHR 0x0A] in
                    if ctrlc n then Some (out @ CHR 0x0A # '' ** Abort'' @ [CHR 0x0A], Inl ())
                    else print_all ctrlc (Suc n) out d (nxt + 1)))"
  by pat_completeness auto
termination
  by (relation "measure (\<lambda>(_, _, _, d, i). length d - i)") (auto dest!: skip_var_bounds)

declare print_all.simps [simp del]

function print_one :: "string \<Rightarrow> string \<Rightarrow> nat \<Rightarrow> string option option" where
  "print_one d name j =
     (case rd d j of
        None \<Rightarrow> None
      | Some c \<Rightarrow>
          if c = NUL then Some None
          else (case skip_var d j of
                  None \<Rightarrow> None
                | Some nxt \<Rightarrow>
                    (case envmatch d name j of
                       None \<Rightarrow> None
                     | Some k \<Rightarrow>
                         if k < 0 then print_one d name (nxt + 1)
                         else Some (Some (name @ CHR ''='' # take (nxt - nat k) (drop (nat k) d) @ [CHR 0x0A])))))"
  by pat_completeness auto
termination
  by (relation "measure (\<lambda>(d, _, j). length d - j)") (auto dest!: skip_var_bounds)

declare print_one.simps [simp del]

fun print_names :: "string \<Rightarrow> string list \<Rightarrow> string \<Rightarrow> nat \<Rightarrow> (string \<times> nat) option" where
  "print_names d [] out rcode = Some (out, rcode)"
| "print_names d (name # names) out rcode =
     (case print_one d name 0 of
        None \<Rightarrow> None
      | Some None \<Rightarrow>
          print_names d names (out @ ''## Error: '' @ [CHR 0x22] @ name @ [CHR 0x22] @ '' not defined'' @ [CHR 0x0A]) (rcode + 1)
      | Some (Some txt) \<Rightarrow> print_names d names (out @ txt) rcode)"

definition do_printenv :: "(nat \<Rightarrow> bool) \<Rightarrow> ('c, 'm) env_state_scheme \<Rightarrow> string list \<Rightarrow> (string \<times> nat) option" where
  "do_printenv ctrlc s names =
     (if names = []
      then (case print_all ctrlc 0 [] (env_block s) 0 of
              None \<Rightarrow> None
            | Some (out, Inl _) \<Rightarrow> Some (out, 1)
            | Some (out, Inr i) \<Rightarrow>
                map_option (\<lambda>(txt, _). (out @ [CHR 0x0A] @ txt @ [CHR 0x0A], 0))
                  (vsprintf ''Environment size: %d/%d bytes'' [VInt (of_nat i), VInt (of_nat ENV_SIZE)]))
      else print_names (env_block s) names [] 0)"

subsection \<open>Editing\<close>

text \<open>The search of \<open>_do_setenv\<close>: \<open>env\<close>, \<open>nxt\<close> and \<open>oldval\<close> when the loop is left.\<close>

function find_var :: "string \<Rightarrow> string \<Rightarrow> nat \<Rightarrow> nat \<Rightarrow> int \<Rightarrow> (nat \<times> nat \<times> int) option" where
  "find_var d name env nxt oldval =
     (case rd d env of
        None \<Rightarrow> None
      | Some c \<Rightarrow>
          if c = NUL then Some (env, nxt, oldval)
          else (case skip_var d env of
                  None \<Rightarrow> None
                | Some nxt \<Rightarrow>
                    (case envmatch d name env of
                       None \<Rightarrow> None
                     | Some oldval \<Rightarrow>
                         if oldval \<ge> 0 then Some (env, nxt, oldval) else find_var d name (nxt + 1) nxt oldval)))"
  by pat_completeness auto
termination
  by (relation "measure (\<lambda>(d, _, env, _). length d - env)") (auto dest!: skip_var_bounds)

declare find_var.simps [simp del]

function move_down :: "string \<Rightarrow> nat \<Rightarrow> nat \<Rightarrow> (string \<times> nat) option" where
  "move_down d env nxt =
     (case rd d nxt of
        None \<Rightarrow> None
      | Some c \<Rightarrow>
          (case wr d env c of
             None \<Rightarrow> None
           | Some d' \<Rightarrow>
               (case rd d' (nxt + 1) of
                  None \<Rightarrow> None
                | Some c' \<Rightarrow> if c = NUL \<and> c' = NUL then Some (d', env) else move_down d' (env + 1) (nxt + 1))))"
  by pat_completeness auto
termination
  by (relation "measure (\<lambda>(d, _, nxt). length d - nxt)") (auto simp: rd_def wr_def split: if_splits)

declare move_down.simps [simp del]

definition delete_var :: "string \<Rightarrow> nat \<Rightarrow> nat \<Rightarrow> string option" where
  "delete_var d env nxt =
     do {
       c \<leftarrow> rd d (nxt + 1);
       (d, env) \<leftarrow>
         (if c = NUL
          then (if env > 0 then Some (d, env - 1) else map_option (\<lambda>d. (d, env)) (wr d env NUL))
          else move_down d env (nxt + 1));
       wr d (env + 1) NUL
     }"

function end_of_env :: "string \<Rightarrow> nat \<Rightarrow> nat option" where
  "end_of_env d env =
     (case rd d env of
        None \<Rightarrow> None
      | Some c \<Rightarrow>
          if c \<noteq> NUL then end_of_env d (env + 1)
          else (case rd d (env + 1) of
                  None \<Rightarrow> None
                | Some c' \<Rightarrow> if c' \<noteq> NUL then end_of_env d (env + 1) else Some env))"
  by pat_completeness auto
termination by (relation "measure (\<lambda>(d, env). length d - env)") (auto simp: rd_def split: if_splits)

declare end_of_env.simps [simp del]

text \<open>\<open>while ((*env = *s++) != 0) env++\<close>: the bytes and the NUL, \<open>env\<close> left at the NUL.\<close>

fun store_str :: "string \<Rightarrow> nat \<Rightarrow> string \<Rightarrow> (string \<times> nat) option" where
  "store_str d env [] = map_option (\<lambda>d. (d, env)) (wr d env NUL)"
| "store_str d env (c # s) =
     (case wr d env c of None \<Rightarrow> None | Some d \<Rightarrow> store_str d (env + 1) s)"

fun store_vals :: "string \<Rightarrow> nat \<Rightarrow> bool \<Rightarrow> string list \<Rightarrow> (string \<times> nat) option" where
  "store_vals d env first [] = Some (d, env)"
| "store_vals d env first (val # vals) =
     (case wr d env (if first then CHR ''='' else CHR '' '') of
        None \<Rightarrow> None
      | Some d \<Rightarrow>
          (case store_str d (env + 1) val of
             None \<Rightarrow> None
           | Some (d, env) \<Rightarrow> store_vals d env False vals))"

text \<open>\<open>Some (Inl ())\<close> is the overflow error; the block is then unchanged.\<close>

definition append_var :: "string \<Rightarrow> string \<Rightarrow> string list \<Rightarrow> (unit + string) option" where
  "append_var d name vals =
     do {
       e \<leftarrow> end_of_env d 0;
       let env = (if e > 0 then e + 1 else e);
       let len = length name + 2 + sum_list (map (\<lambda>v. length v + 1) vals);
       if int len > int ENV_SIZE - int env then Some (Inl ())
       else do {
         (d, env) \<leftarrow> store_str d env name;
         (d, env) \<leftarrow> store_vals d env True vals;
         d \<leftarrow> wr d (env + 1) NUL;
         Some (Inr d)
       }
     }"

subsection \<open>The command\<close>

definition baudrate_table :: "u32 list" where
  "baudrate_table = [9600, 19200, 38400, 57600, 115200]"

definition copy_filename :: "string \<Rightarrow> nat \<Rightarrow> string" where
  "copy_filename src size' =
     (let (src, size') = (if peek src \<noteq> NUL \<and> peek src = CHR 0x22 then (tl src, size' - 1) else (src, size'))
      in takeWhile (\<lambda>c. c \<noteq> NUL \<and> c \<noteq> CHR 0x22) (take (size' - 1) src))"

text \<open>\<open>s = (*e) ? e+1 : e\<close> after each number: the loops that split a MAC or an IP address.\<close>

definition next_field :: "string \<Rightarrow> string" where
  "next_field e = (if peek e \<noteq> NUL then tl e else e)"

fun mac_fields :: "nat \<Rightarrow> string \<Rightarrow> u8 list" where
  "mac_fields 0 s = []"
| "mac_fields (Suc n) s = (let (v, e) = simple_strtoul s 16 in ucast v # mac_fields n (next_field e))"

fun ip_fields :: "nat \<Rightarrow> u32 \<Rightarrow> string \<Rightarrow> u32" where
  "ip_fields 0 addr s = addr"
| "ip_fields (Suc n) addr s =
     (let (val, e) = simple_strtoul s 10 in ip_fields n (push_bit 8 addr OR (val AND 0xFF)) (next_field e))"

definition console_file :: "string \<Rightarrow> nat option" where
  "console_file name =
     (if name = ''stdin'' then Some 0 else if name = ''stdout'' then Some 1
      else if name = ''stderr'' then Some 2 else None)"

text \<open>What \<open>_do_setenv\<close> calls outside of the environment: \<open>console_assign\<close>, \<open>serial_setbrg\<close> and \<open>getc\<close>.\<close>

record 'c env_calls =
  env_assign :: "nat \<Rightarrow> string \<Rightarrow> 'c \<Rightarrow> ('c \<times> int) option"
  env_setbrg :: "'c \<Rightarrow> 'c"
  env_getc :: "'c \<Rightarrow> (int \<times> 'c) option"

text \<open>The keys are read until the carriage return arrives; \<open>None\<close> when it never does.\<close>

partial_function (option) wait_enter :: "('c \<Rightarrow> (int \<times> 'c) option) \<Rightarrow> 'c \<Rightarrow> 'c option" where
  "wait_enter get c = Option.bind (get c) (\<lambda>(k, c). if k = 13 then Some c else wait_enter get c)"

text \<open>The checks made before an existing variable may go: protected names, console redirection through
  \<open>console_assign\<close>, the baud rate, which is switched before the user confirms it. \<open>Inl\<close> is an error return with the
  state at that point.\<close>

definition switch_baudrate :: "'c env_calls \<Rightarrow> u32 \<Rightarrow> ('c, 'm) env_state_scheme \<Rightarrow> ('c, 'm) env_state_scheme option" where
  "switch_baudrate calls baudrate s =
     map_option (\<lambda>c. s\<lparr>gd_baudrate := baudrate, con := c\<rparr>) (wait_enter (env_getc calls) (env_setbrg calls (con s)))"

definition check_overwrite ::
  "'c env_calls \<Rightarrow> ('c, 'm) env_state_scheme \<Rightarrow> string \<Rightarrow> string option list \<Rightarrow>
   (('c, 'm) env_state_scheme + ('c, 'm) env_state_scheme) option" where
  "check_overwrite calls s name vals =
     (if name = ''serial#'' \<or> name = ''ethaddr'' then Some (Inl s)
      else do {
        r \<leftarrow> (case console_file name of
                None \<Rightarrow> Some (Inr s)
              | Some console \<Rightarrow>
                  (case vals of
                     [] \<Rightarrow> Some (Inl s)
                   | None # _ \<Rightarrow> None
                   | Some dev # _ \<Rightarrow> do {
                       (c, rc) \<leftarrow> env_assign calls console dev (con s);
                       let s = s\<lparr>con := c\<rparr>;
                       if rc < 0 then Some (Inl s) else Some (Inr s)
                     }));
        case r of
          Inl s \<Rightarrow> Some (Inl s)
        | Inr s \<Rightarrow>
            if name = ''baudrate''
            then (case vals of
                    Some v # _ \<Rightarrow>
                      let baudrate = fst (simple_strtoul v 10)
                      in if baudrate \<notin> set baudrate_table then Some (Inl s)
                         else map_option Inr (switch_baudrate calls baudrate s)
                  | _ \<Rightarrow> None)
            else Some (Inr s)
      })"

text \<open>What changes besides the block when a variable the rest of the program caches is set.\<close>

definition byte_swap32 :: "u32 \<Rightarrow> u32" where
  "byte_swap32 x = push_bit 24 (x AND 0xff) OR push_bit 8 (x AND 0xff00) OR
     (drop_bit 8 (x AND 0xff0000)) OR (drop_bit 24 (x AND 0xff000000))"

definition update_cached :: "('c, 'm) env_state_scheme \<Rightarrow> string \<Rightarrow> string \<Rightarrow> ('c, 'm) env_state_scheme" where
  "update_cached s name v =
     (if name = ''ethaddr'' then s\<lparr>bi_enetaddr := mac_fields 6 v\<rparr>
      else if name = ''ipaddr'' then s\<lparr>bi_ip_addr := byte_swap32 (ip_fields 4 0 v)\<rparr>
      else if name = ''loadaddr'' then s\<lparr>load_addr := fst (simple_strtoul v 16)\<rparr>
      else if name = ''bootfile'' then s\<lparr>BootFile := copy_filename v 128\<rparr>
      else s)"

definition remove_old ::
  "'c env_calls \<Rightarrow> ('c, 'm) env_state_scheme \<Rightarrow> string \<Rightarrow> string option list \<Rightarrow>
   (('c, 'm) env_state_scheme + ('c, 'm) env_state_scheme) option" where
  "remove_old calls s name vals =
     do {
       (env, nxt, oldval) \<leftarrow> find_var (env_block s) name 0 0 (- 1);
       if oldval < 0 then Some (Inr s)
       else do {
         r \<leftarrow> check_overwrite calls s name vals;
         case r of
           Inl s \<Rightarrow> Some (Inl s)
         | Inr s \<Rightarrow> do { d \<leftarrow> delete_var (env_block s) env nxt; Some (Inr (set_env_block d s)) }
       }
     }"

definition do_setenv_raw ::
  "'c env_calls \<Rightarrow> ('c, 'm) env_state_scheme \<Rightarrow> string \<Rightarrow> string option list \<Rightarrow>
   (('c, 'm) env_state_scheme \<times> nat) option" where
  "do_setenv_raw calls s name vals =
     do {
       r \<leftarrow> remove_old calls s name vals;
       case r of
         Inl s \<Rightarrow> Some (s, 1)
       | Inr s \<Rightarrow>
           (case vals of
              [] \<Rightarrow> Some (env_crc_update s, 0)
            | None # _ \<Rightarrow> Some (env_crc_update s, 0)
            | Some v # _ \<Rightarrow>
                if None \<in> set vals then None
                else do {
                  a \<leftarrow> append_var (env_block s) name (map the vals);
                  case a of
                    Inl _ \<Rightarrow> Some (s, 1)
                  | Inr d \<Rightarrow> Some (update_cached (env_crc_update (set_env_block d s)) name v, 0)
                })
     }"

definition setenv ::
  "'c env_calls \<Rightarrow> ('c, 'm) env_state_scheme \<Rightarrow> string \<Rightarrow> string option \<Rightarrow>
   ('c, 'm) env_state_scheme option" where
  "setenv calls s varname varvalue =
     map_option fst (do_setenv_raw calls s varname [varvalue])"

definition do_setenv ::
  "'c env_calls \<Rightarrow> ('c, 'm) env_state_scheme \<Rightarrow> string list \<Rightarrow>
   (('c, 'm) env_state_scheme \<times> nat) option" where
  "do_setenv calls s argv =
     (case argv of
        _ # name # vals \<Rightarrow> do_setenv_raw calls s name (map Some vals)
      | _ \<Rightarrow> Some (s, 1))"

text \<open>\<open>do_askenv\<close>: the size limit and the prompt; \<open>readline\<close> leaves the typed line in
  \<open>console_buffer\<close>, the parameter \<open>typed\<close> here. \<open>CFG_CBSIZE\<close> is 256.\<close>

definition ask_size :: "string list \<Rightarrow> int" where
  "ask_size argv =
     (let size' = (if length argv \<le> 2 then 255 else sint (fst (simple_strtoul (last argv) 10)))
      in if size' \<ge> 256 then 255 else size')"

definition do_askenv ::
  "'c env_calls \<Rightarrow> ('c, 'm) env_state_scheme \<Rightarrow> string list \<Rightarrow> string \<Rightarrow>
   (('c, 'm) env_state_scheme \<times> nat) option" where
  "do_askenv calls s argv typed =
     (case argv of
        _ # name # _ \<Rightarrow>
          (let size' = ask_size argv in
           if size' \<le> 0 then Some (s, 1)
           else (let buf = take (nat size') typed
                 in do_setenv_raw calls s name (if buf \<noteq> [] then [Some buf] else [])))
      | _ \<Rightarrow> Some (s, 1))"

end
