(* ===== verification/Env_Spec.thy ===== *)
theory Env_Spec
  imports Env
begin

text \<open>
  The abstract environment: a list of \<open>name=value\<close> strings with distinct names. \<open>env_repr\<close> relates it
  to the byte block; the lemmas show that each loop of \<open>cmd_nvedit.c\<close> stays inside the block and does
  on the bytes what the list operations do, and the properties conclude that \<open>getenv\<close> and \<open>setenv\<close>
  implement a finite map from names to values.
\<close>

subsection \<open>Representation\<close>

definition enc :: "string list \<Rightarrow> string" where
  "enc vs = concat (map (\<lambda>v. v @ [NUL]) vs)"

definition var_ok :: "string \<Rightarrow> bool" where
  "var_ok v \<longleftrightarrow> NUL \<notin> set v \<and> CHR ''='' \<in> set v"

definition name_ok :: "string \<Rightarrow> bool" where
  "name_ok n \<longleftrightarrow> NUL \<notin> set n \<and> CHR ''='' \<notin> set n"

definition var_name :: "string \<Rightarrow> string" where
  "var_name v = takeWhile (\<lambda>c. c \<noteq> CHR ''='') v"

definition var_value :: "string \<Rightarrow> string" where
  "var_value v = tl (dropWhile (\<lambda>c. c \<noteq> CHR ''='') v)"

definition env_repr :: "string \<Rightarrow> string list \<Rightarrow> bool" where
  "env_repr d vs \<longleftrightarrow> (\<forall>v\<in>set vs. var_ok v) \<and>
     (\<exists>rest. d = enc vs @ NUL # (if vs = [] then [NUL] else []) @ rest)"

definition lookup :: "string list \<Rightarrow> string \<Rightarrow> string option" where
  "lookup vs name = map_option var_value (find (\<lambda>v. var_name v = name) vs)"

lemma enc_simps [simp]: "enc [] = []" "enc (v # vs) = v @ NUL # enc vs" "enc (us @ vs) = enc us @ enc vs"
  by (simp_all add: enc_def)

lemma var_split:
  assumes "CHR ''='' \<in> set v" shows "v = var_name v @ CHR ''='' # var_value v"
proof -
  have "dropWhile (\<lambda>c. c \<noteq> CHR ''='') v \<noteq> []" using assms by auto
  then have "dropWhile (\<lambda>c. c \<noteq> CHR ''='') v = CHR ''='' # var_value v"
    using hd_dropWhile [of "\<lambda>c. c \<noteq> CHR ''=''" v] by (cases "dropWhile (\<lambda>c. c \<noteq> CHR ''='') v") (auto simp: var_value_def)
  then show ?thesis unfolding var_name_def by (metis takeWhile_dropWhile_id)
qed

lemma var_ok_nonempty: "var_ok v \<Longrightarrow> v \<noteq> []"
  by (auto simp: var_ok_def)

lemma rd_mid [simp]: "rd (pre @ c # post) (length pre) = Some c"
  by (simp add: rd_def)

lemma wr_mid [simp]: "wr (pre @ c # post) (length pre) x = Some (pre @ x # post)"
  by (simp add: wr_def)

lemma rd_mid_Suc: "rd (pre @ c # c' # post) (Suc (length pre)) = Some c'"
  using rd_mid [of "pre @ [c]" c' post] by simp

subsection \<open>The scans\<close>

lemma skip_var_mid:
  "NUL \<notin> set v \<Longrightarrow> skip_var (pre @ v @ NUL # post) (length pre) = Some (length pre + length v)"
proof (induction v arbitrary: pre)
  case Nil then show ?case by (subst skip_var.simps) simp
next
  case (Cons c v)
  then have "skip_var ((pre @ [c]) @ v @ NUL # post) (length (pre @ [c])) = Some (length (pre @ [c]) + length v)"
    by (intro Cons.IH) simp
  with Cons.prems show ?case by (subst skip_var.simps) auto
qed

lemma skip_var_limit_mid:
  "NUL \<notin> set v \<Longrightarrow> length pre + length v \<le> CFG_ENV_SIZE \<Longrightarrow>
   skip_var_limit (pre @ v @ NUL # post) (length pre) = Some (Inr (length pre + length v))"
proof (induction v arbitrary: pre)
  case Nil then show ?case by (subst skip_var_limit.simps) simp
next
  case (Cons c v)
  then have "skip_var_limit ((pre @ [c]) @ v @ NUL # post) (length (pre @ [c])) = Some (Inr (length (pre @ [c]) + length v))"
    by (intro Cons.IH) simp_all
  with Cons.prems show ?case by (subst skip_var_limit.simps) auto
qed

lemma envmatch_mid:
  "name_ok name \<Longrightarrow> var_ok v \<Longrightarrow>
   envmatch (pre @ v @ NUL # post) name (length pre) =
     Some (if var_name v = name then int (length pre + length name + 1) else - 1)"
  unfolding envmatch_def
proof (induction v arbitrary: pre name)
  case Nil then show ?case by (simp add: var_ok_def)
next
  case (Cons c v)
  show ?case
  proof (cases name)
    case Nil
    with Cons.prems show ?thesis
      by (subst envmatch_loop.simps) (auto simp: peek_def var_ok_def var_name_def NUL_def)
  next
    case name: (Cons n ns)
    show ?thesis
    proof (cases "n = c")
      case False
      with name Cons.prems show ?thesis
        by (subst envmatch_loop.simps) (auto simp: peek_def var_name_def name_ok_def)
    next
      case True
      with name Cons.prems have ne: "c \<noteq> CHR ''=''" and ok: "name_ok ns" "var_ok v"
        by (auto simp: name_ok_def var_ok_def)
      have "envmatch_loop ((pre @ [c]) @ v @ NUL # post) ns (length (pre @ [c])) =
          Some (if var_name v = ns then int (length (pre @ [c]) + length ns + 1) else - 1)"
        by (rule Cons.IH [OF ok])
      with name True ne show ?thesis
        by (subst envmatch_loop.simps) (simp add: peek_def var_name_def)
    qed
  qed
qed

lemma str_at_value:
  assumes "var_ok v" "var_name v = name"
  shows "str_at (pre @ v @ NUL # post) (Suc (length pre + length name)) = var_value v"
proof -
  have v: "v = name @ CHR ''='' # var_value v" using var_split assms by (auto simp: var_ok_def)
  then have d: "pre @ v @ NUL # post = (pre @ name @ [CHR ''='']) @ var_value v @ NUL # post" by simp
  have "NUL \<notin> set (name @ CHR ''='' # var_value v)" using assms(1) v by (simp add: var_ok_def)
  then have nn: "\<forall>c\<in>set (var_value v). c \<noteq> NUL" by auto
  have len: "Suc (length pre + length name) = length (pre @ name @ [CHR ''=''])" by simp
  have "drop (Suc (length pre + length name)) (pre @ v @ NUL # post) = var_value v @ NUL # post"
    unfolding d len by (rule append_eq_conv_conj [THEN iffD1, THEN conjunct2, symmetric]) simp
  then show ?thesis unfolding str_at_def using nn by simp
qed

lemma getenv_loop_enc:
  assumes "name_ok name"
  shows "\<forall>v\<in>set vs. var_ok v \<Longrightarrow> length (pre @ enc vs) \<le> CFG_ENV_SIZE \<Longrightarrow>
    map_option (map_option (str_at (pre @ enc vs @ NUL # post))) (getenv_loop (pre @ enc vs @ NUL # post) name (length pre))
      = Some (lookup vs name)"
proof (induction vs arbitrary: pre)
  case Nil then show ?case by (subst getenv_loop.simps) (simp add: lookup_def)
next
  case (Cons v vs)
  let ?d = "pre @ enc (v # vs) @ NUL # post"
  have d: "?d = pre @ v @ NUL # (enc vs @ NUL # post)" by simp
  have first: "rd ?d (length pre) = Some (hd v)" "hd v \<noteq> NUL"
    using Cons.prems by (cases v; auto simp: var_ok_def)+
  have lim: "skip_var_limit ?d (length pre) = Some (Inr (length pre + length v))"
    unfolding d using Cons.prems by (intro skip_var_limit_mid) (auto simp: var_ok_def)
  have em: "envmatch ?d name (length pre) = Some (if var_name v = name then int (length pre + length name + 1) else - 1)"
    unfolding d using Cons.prems assms by (intro envmatch_mid) auto
  show ?case
  proof (cases "var_name v = name")
    case True
    then show ?thesis using first lim em Cons.prems str_at_value [of v name pre "enc vs @ NUL # post"]
      by (subst getenv_loop.simps) (auto simp: lookup_def nat_add_distrib)
  next
    case False
    have "map_option (map_option (str_at ?d)) (getenv_loop ((pre @ v @ [NUL]) @ enc vs @ NUL # post) name (length (pre @ v @ [NUL])))
        = Some (lookup vs name)"
      using Cons.IH [of "pre @ v @ [NUL]"] Cons.prems by simp
    with False first lim em show ?thesis by (subst getenv_loop.simps) (simp add: lookup_def)
  qed
qed

lemma find_var_enc_none:
  assumes "name_ok name"
  shows "\<forall>v\<in>set vs. var_ok v \<and> var_name v \<noteq> name \<Longrightarrow> ov < 0 \<Longrightarrow>
    \<exists>e nx ov'. find_var (pre @ enc vs @ NUL # post) name (length pre) nxt ov = Some (e, nx, ov') \<and> ov' < 0"
proof (induction vs arbitrary: pre nxt ov)
  case Nil then show ?case by (subst find_var.simps) simp
next
  case (Cons v vs)
  let ?d = "pre @ enc (v # vs) @ NUL # post"
  have d: "?d = pre @ v @ NUL # (enc vs @ NUL # post)" by simp
  have first: "rd ?d (length pre) = Some (hd v)" "hd v \<noteq> NUL"
    using Cons.prems by (cases v; auto simp: var_ok_def)+
  have sk: "skip_var ?d (length pre) = Some (length pre + length v)"
    unfolding d using Cons.prems by (intro skip_var_mid) (auto simp: var_ok_def)
  have em: "envmatch ?d name (length pre) = Some (- 1)"
    unfolding d using Cons.prems assms envmatch_mid [of name v pre] by simp
  have "\<exists>e nx ov'. find_var ((pre @ v @ [NUL]) @ enc vs @ NUL # post) name (length (pre @ v @ [NUL]))
      (length pre + length v) (- 1) = Some (e, nx, ov') \<and> ov' < 0"
    using Cons.prems by (intro Cons.IH) auto
  with first sk em show ?case by (subst find_var.simps) simp
qed

lemma find_var_enc_some:
  assumes "name_ok name"
  shows "\<forall>v\<in>set (us @ [v]). var_ok v \<Longrightarrow> \<forall>u\<in>set us. var_name u \<noteq> name \<Longrightarrow> var_name v = name \<Longrightarrow>
    \<exists>k\<ge>0. find_var (pre @ enc us @ v @ NUL # post) name (length pre) nxt ov =
      Some (length (pre @ enc us), length (pre @ enc us @ v), k)"
proof (induction us arbitrary: pre nxt ov)
  case Nil
  let ?d = "pre @ v @ NUL # post"
  have first: "rd ?d (length pre) = Some (hd v)" "hd v \<noteq> NUL"
    using Nil.prems by (cases v; auto simp: var_ok_def)+
  have "skip_var ?d (length pre) = Some (length pre + length v)"
    using Nil.prems by (intro skip_var_mid) (auto simp: var_ok_def)
  with first envmatch_mid [OF assms, of v pre post] Nil.prems show ?case
    by (subst find_var.simps) simp
next
  case (Cons u us)
  let ?d = "pre @ enc (u # us) @ v @ NUL # post"
  have d: "?d = pre @ u @ NUL # (enc us @ v @ NUL # post)" by simp
  have first: "rd ?d (length pre) = Some (hd u)" "hd u \<noteq> NUL"
    using Cons.prems by (cases u; auto simp: var_ok_def)+
  have sk: "skip_var ?d (length pre) = Some (length pre + length u)"
    unfolding d using Cons.prems by (intro skip_var_mid) (auto simp: var_ok_def)
  have em: "envmatch ?d name (length pre) = Some (- 1)"
    unfolding d using Cons.prems assms envmatch_mid [of name u pre] by simp
  have "\<exists>k\<ge>0. find_var ((pre @ u @ [NUL]) @ enc us @ v @ NUL # post) name (length (pre @ u @ [NUL]))
      (length pre + length u) (- 1) = Some (length ((pre @ u @ [NUL]) @ enc us), length ((pre @ u @ [NUL]) @ enc us @ v), k)"
    using Cons.prems by (intro Cons.IH) auto
  with first sk em show ?case by (subst find_var.simps) simp
qed

subsection \<open>Deleting and appending\<close>

text \<open>The encoding of at least one variable ends in a NUL and has no two NULs in a row.\<close>

fun one_nul :: "string \<Rightarrow> bool" where
  "one_nul [] \<longleftrightarrow> False"
| "one_nul [c] \<longleftrightarrow> c = NUL"
| "one_nul (c # c' # cs) \<longleftrightarrow> \<not> (c = NUL \<and> c' = NUL) \<and> one_nul (c' # cs)"

lemma one_nul_var: "NUL \<notin> set v \<Longrightarrow> v \<noteq> [] \<Longrightarrow> one_nul (v @ NUL # cs) \<longleftrightarrow> one_nul (NUL # cs)"
proof (induction v)
  case (Cons c v) then show ?case by (cases v) auto
qed simp

lemma one_nul_enc: "\<forall>v\<in>set vs. var_ok v \<Longrightarrow> vs \<noteq> [] \<Longrightarrow> one_nul (enc vs)"
proof (induction vs)
  case (Cons v vs)
  have v: "NUL \<notin> set v" "v \<noteq> []" using Cons.prems by (auto simp: var_ok_def)
  show ?case
  proof (cases vs)
    case Nil with v show ?thesis by (simp add: one_nul_var)
  next
    case (Cons w ws)
    then obtain c cs where "enc vs = c # cs" "c \<noteq> NUL"
      using Cons.prems by (cases w) (auto simp: var_ok_def)
    with v Cons Cons.IH Cons.prems show ?thesis by (simp add: one_nul_var)
  qed
qed simp

lemma move_down_enc:
  "one_nul body \<Longrightarrow> gap \<noteq> [] \<Longrightarrow> \<exists>tail. tail \<noteq> [] \<and> length tail = length gap + Suc (length post) \<and>
   move_down (pre @ gap @ body @ NUL # post) (length pre) (length pre + length gap)
     = Some (pre @ body @ tail, length pre + length body - 1)"
proof (induction body arbitrary: pre gap rule: one_nul.induct)
  case (2 c)
  then obtain g gs where gap: "gap = g # gs" by (cases gap) auto
  have "rd (pre @ gap @ c # NUL # post) (length (pre @ gap)) = Some c" by (metis append_assoc rd_mid)
  moreover have "rd (pre @ c # gs @ c # NUL # post) (Suc (length (pre @ gap))) = Some NUL"
    using rd_mid_Suc [of "pre @ c # gs" c NUL post] by (simp add: gap)
  ultimately show ?case
    using 2 gap by (subst move_down.simps) (simp add: rd_mid_Suc)
next
  case (3 c c' cs)
  then obtain g gs where gap: "gap = g # gs" by (cases gap) auto
  have r1: "rd (pre @ gap @ c # c' # cs @ NUL # post) (length (pre @ gap)) = Some c"
    by (metis append_assoc rd_mid)
  have r2: "rd (pre @ c # gs @ c # c' # cs @ NUL # post) (Suc (length (pre @ gap))) = Some c'"
    using rd_mid_Suc [of "pre @ c # gs" c c' "cs @ NUL # post"] by (simp add: gap)
  obtain tail where tail: "tail \<noteq> []" "length tail = length (gs @ [c]) + Suc (length post)"
    "move_down ((pre @ [c]) @ (gs @ [c]) @ (c' # cs) @ NUL # post) (length (pre @ [c])) (length (pre @ [c]) + length (gs @ [c]))
       = Some ((pre @ [c]) @ (c' # cs) @ tail, length (pre @ [c]) + length (c' # cs) - 1)"
    using 3 by (metis one_nul.simps(3) snoc_eq_iff_butlast)
  with 3 r1 r2 gap show ?case by (subst move_down.simps) (auto intro!: exI [of _ tail])
qed simp

lemma end_of_env_enc:
  "one_nul body \<Longrightarrow> end_of_env (pre @ body @ NUL # post) (length pre) = Some (length pre + length body - 1)"
proof (induction body arbitrary: pre rule: one_nul.induct)
  case (2 c) then show ?case by (subst end_of_env.simps) (simp add: rd_mid_Suc)
next
  case (3 c c' cs)
  have "end_of_env ((pre @ [c]) @ (c' # cs) @ NUL # post) (length (pre @ [c])) = Some (length (pre @ [c]) + length (c' # cs) - 1)"
    using 3 by (intro "3.IH") simp
  with 3 show ?case by (subst end_of_env.simps) (auto simp: rd_mid_Suc)
qed simp

lemma store_str_mid:
  "length s < length old \<Longrightarrow>
   store_str (pre @ old) (length pre) s = Some (pre @ s @ NUL # drop (Suc (length s)) old, length pre + length s)"
proof (induction s arbitrary: pre old)
  case Nil then show ?case by (cases old) auto
next
  case (Cons c s)
  then obtain x old' where old: "old = x # old'" by (cases old) auto
  have "store_str ((pre @ [c]) @ old') (length (pre @ [c])) s =
      Some ((pre @ [c]) @ s @ NUL # drop (Suc (length s)) old', length (pre @ [c]) + length s)"
    using Cons.prems old by (intro Cons.IH) simp
  with old show ?case by simp
qed

fun join_vals :: "bool \<Rightarrow> string list \<Rightarrow> string" where
  "join_vals first [] = []"
| "join_vals first (v # vs) = (if first then CHR ''='' else CHR '' '') # v @ join_vals False vs"

lemma length_join_vals: "length (join_vals b vs) = sum_list (map (\<lambda>v. length v + 1) vs)"
  by (induction vs arbitrary: b) auto

lemma store_vals_mid:
  "length (join_vals b vs) \<le> length old \<Longrightarrow>
   store_vals (pre @ NUL # old) (length pre) b vs =
     Some (pre @ join_vals b vs @ NUL # drop (length (join_vals b vs)) old, length pre + length (join_vals b vs))"
proof (induction vs arbitrary: pre old b)
  case (Cons v vs)
  let ?c = "if b then CHR ''='' else CHR '' ''"
  have st: "store_str ((pre @ [?c]) @ old) (length (pre @ [?c])) v =
      Some ((pre @ [?c]) @ v @ NUL # drop (Suc (length v)) old, length (pre @ [?c]) + length v)"
    using Cons.prems by (intro store_str_mid) simp
  have "store_vals ((pre @ ?c # v) @ NUL # drop (Suc (length v)) old) (length (pre @ ?c # v)) False vs =
      Some ((pre @ ?c # v) @ join_vals False vs @ NUL # drop (length (join_vals False vs)) (drop (Suc (length v)) old),
        length (pre @ ?c # v) + length (join_vals False vs))"
    using Cons.prems by (intro Cons.IH) simp
  with st show ?case by (simp add: add.commute)
qed simp

lemma env_repr_rest:
  assumes "env_repr d vs"
  obtains rest where "d = enc vs @ NUL # rest"
  using assms by (auto simp: env_repr_def)

lemma delete_var_last:
  assumes "us \<noteq> []" "d = enc us @ (c # v) @ NUL # NUL # rest"
  shows "delete_var d (length (enc us)) (length (enc us @ c # v)) = Some (enc us @ NUL # v @ NUL # NUL # rest)"
proof -
  have nxt: "rd d (length (enc us @ c # v) + 1) = Some NUL"
    using rd_mid_Suc [of "enc us @ c # v" NUL NUL rest] assms(2) by simp
  have pos: "0 < length (enc us)" using assms(1) by (cases us) auto
  have "wr d (length (enc us)) NUL = Some (enc us @ NUL # v @ NUL # NUL # rest)"
    using assms(2) by simp
  then show ?thesis using nxt pos by (simp add: delete_var_def)
qed

lemma delete_var_enc:
  assumes ok: "\<forall>w\<in>set (us @ v # ws). var_ok w"
    and d: "d = enc us @ v @ NUL # enc ws @ NUL # rest"
  shows "\<exists>d'. delete_var d (length (enc us)) (length (enc us @ v)) = Some d' \<and> length d' = length d \<and> env_repr d' (us @ ws)"
proof (cases ws)
  case Nil
  have nxt: "rd d (length (enc us @ v) + 1) = Some NUL"
    using rd_mid_Suc [of "enc us @ v" NUL NUL rest] d Nil by simp
  show ?thesis
  proof (cases "us = []")
    case True
    obtain c v' where v: "v = c # v'" using ok by (cases v) (auto simp: var_ok_def)
    have "wr d 0 NUL = Some (NUL # v' @ NUL # NUL # rest)"
      using d Nil True v by (simp add: wr_def)
    moreover obtain y ys where ys: "v' @ NUL # NUL # rest = y # ys" by (cases "v' @ NUL # NUL # rest") auto
    ultimately have "delete_var d (length (enc us)) (length (enc us @ v)) = Some (NUL # NUL # ys)"
      using nxt True by (simp add: delete_var_def wr_def)
    moreover have "length d = length (NUL # NUL # ys)"
      using d Nil True v arg_cong [OF ys, of length] by simp
    ultimately show ?thesis using True Nil by (auto simp: env_repr_def)
  next
    case False
    obtain c v' where v: "v = c # v'" using ok by (cases v) (auto simp: var_ok_def)
    have "delete_var d (length (enc us)) (length (enc us @ v)) = Some (enc us @ NUL # v' @ NUL # NUL # rest)"
      using delete_var_last [OF False, of d c v' rest] d Nil v by simp
    then show ?thesis using False Nil d v ok by (auto simp: env_repr_def)
  qed
next
  case (Cons w ws')
  obtain tail where tail: "tail \<noteq> []" "length tail = length (v @ [NUL]) + Suc (length rest)"
    "move_down (enc us @ (v @ [NUL]) @ enc ws @ NUL # rest) (length (enc us)) (length (enc us) + length (v @ [NUL]))
       = Some (enc us @ enc ws @ tail, length (enc us) + length (enc ws) - 1)"
    using move_down_enc [OF one_nul_enc, of ws "v @ [NUL]" rest "enc us"] ok Cons by auto
  obtain t tl' where t: "tail = t # tl'" using tail(1) by (cases tail) auto
  have "enc ws = hd w # tl (enc ws)" "hd w \<noteq> NUL" using ok Cons by (cases w; auto simp: var_ok_def)+
  then have nxt: "rd d (length (enc us @ v) + 1) = Some (hd w)"
    using rd_mid_Suc [of "enc us @ v" NUL "hd w" "tl (enc ws) @ NUL # rest"] d by (metis append_Cons append_assoc Suc_eq_plus1)
  have "length (enc us) + length (enc ws) - 1 + 1 = length (enc us @ enc ws)" using Cons by simp
  then have w: "wr (enc us @ enc ws @ tail) (length (enc us) + length (enc ws) - 1 + 1) NUL = Some (enc us @ enc ws @ NUL # tl')"
    using wr_mid [of "enc us @ enc ws" t tl' NUL] t by (simp only: append_assoc)
  have "delete_var d (length (enc us)) (length (enc us @ v)) = Some (enc us @ enc ws @ NUL # tl')"
    using nxt \<open>hd w \<noteq> NUL\<close> tail(3) w d by (simp add: delete_var_def)
  moreover have "length (enc us @ enc ws @ NUL # tl') = length d" using d tail(2) t by simp
  ultimately show ?thesis using ok Cons by (auto simp: env_repr_def)
qed

lemma append_var_enc:
  assumes rep: "env_repr d vs" and len: "length d = ENV_SIZE"
    and entry: "var_ok (name @ join_vals True vals)"
  shows "if length (enc vs) + length (name @ join_vals True vals) + 2 \<le> ENV_SIZE
    then \<exists>d'. append_var d name vals = Some (Inr d') \<and> length d' = ENV_SIZE \<and> env_repr d' (vs @ [name @ join_vals True vals])
    else append_var d name vals = Some (Inl ())"
proof -
  obtain rest where d: "d = enc vs @ NUL # (if vs = [] then [NUL] else []) @ rest"
    using rep by (auto simp: env_repr_def)
  obtain e where e: "end_of_env d 0 = Some e" "(if e > 0 then e + 1 else e) = length (enc vs)"
  proof (cases "vs = []")
    case True
    with d have "end_of_env d 0 = Some 0" by (subst end_of_env.simps) (simp add: rd_def)
    with True that show ?thesis by simp
  next
    case False
    with rep have on: "one_nul (enc vs)" by (intro one_nul_enc) (auto simp: env_repr_def)
    with d False have end_: "end_of_env d 0 = Some (length (enc vs) - 1)"
      using end_of_env_enc [OF on, of "[]" rest] by simp
    obtain v vs' where v: "vs = v # vs'" using False by (cases vs) auto
    then have "v \<noteq> []" using rep by (auto simp: env_repr_def var_ok_def)
    then have "0 < length v" by simp
    then have "0 < length (enc vs) - 1" using v by simp
    with end_ show ?thesis by (intro that [of "length (enc vs) - 1"]) auto
  qed
  define n where "n = length (name @ join_vals True vals)"
  have req: "length name + 2 + sum_list (map (\<lambda>v. length v + 1) vals) = n + 2"
    by (simp add: n_def length_join_vals)
  define old where "old = NUL # (if vs = [] then [NUL] else []) @ rest"
  have d2: "d = enc vs @ old" by (simp add: d old_def)
  have lold: "length old = ENV_SIZE - length (enc vs)" using len d2 by simp
  show ?thesis
  proof (cases "length (enc vs) + n + 2 \<le> ENV_SIZE")
    case False
    with e req show ?thesis by (simp add: append_var_def n_def Let_def)
  next
    case True
    then have fits: "length name < length old" and fits2: "n + 2 \<le> length old" using lold by (simp_all add: n_def)
    have s1: "store_str d (length (enc vs)) name = Some (enc vs @ name @ NUL # drop (Suc (length name)) old, length (enc vs) + length name)"
      unfolding d2 by (rule store_str_mid [OF fits])
    have s2: "store_vals ((enc vs @ name) @ NUL # drop (Suc (length name)) old) (length (enc vs @ name)) True vals =
        Some ((enc vs @ name) @ join_vals True vals @ NUL # drop (length (join_vals True vals)) (drop (Suc (length name)) old),
              length (enc vs @ name) + length (join_vals True vals))"
      using fits2 by (intro store_vals_mid) (simp add: n_def)
    define tail where "tail = drop (length (join_vals True vals)) (drop (Suc (length name)) old)"
    have "length tail = length old - (n + 1)" by (simp add: tail_def n_def)
    with fits2 obtain x xs where t: "tail = x # xs" by (cases tail) auto
    let ?d = "enc vs @ name @ join_vals True vals @ NUL # NUL # xs"
    have "wr (enc vs @ name @ join_vals True vals @ NUL # x # xs) (Suc (length (enc vs) + (length name + length (join_vals True vals)))) NUL = Some ?d"
      using wr_mid [of "enc vs @ name @ join_vals True vals @ [NUL]" x xs NUL] by simp
    with e req True s1 s2 [folded tail_def, unfolded t] have "append_var d name vals = Some (Inr ?d)"
      by (simp add: append_var_def n_def Let_def add.assoc)
    moreover have "length ?d = ENV_SIZE"
      using \<open>length tail = length old - (n + 1)\<close> t lold fits2 len d2 by (simp add: n_def)
    moreover have "env_repr ?d (vs @ [name @ join_vals True vals])"
      using rep entry by (auto simp: env_repr_def)
    ultimately show ?thesis using True by (auto simp: n_def)
  qed
qed

subsection \<open>The environment as a map\<close>

definition env_ok :: "('c, 'm) env_state_scheme \<Rightarrow> string list \<Rightarrow> bool" where
  "env_ok s vs \<longleftrightarrow> env_valid s \<and> length (env_data s) = ENV_SIZE \<and> env_repr (env_data s) vs \<and>
     distinct (map var_name vs) \<and> crc_wf (crc_st s)"

definition crc_ok :: "('c, 'm) env_state_scheme \<Rightarrow> bool" where
  "crc_ok s \<longleftrightarrow> hdr_crc s = snd (crc32 (crc_st s) 0 (map of_char (env_data s)))"

definition without :: "string \<Rightarrow> string list \<Rightarrow> string list" where
  "without name vs = filter (\<lambda>v. var_name v \<noteq> name) vs"

lemma ENV_SIZE_le: "ENV_SIZE \<le> CFG_ENV_SIZE" "ENV_SIZE = 4092" "2 \<le> ENV_SIZE"
  by (simp_all add: ENV_SIZE_def CFG_ENV_SIZE_def)

lemma getenv_lookup:
  assumes "env_ok s vs" "name_ok name"
  shows "getenv s name = Some (lookup vs name)"
proof -
  have vok: "\<forall>v\<in>set vs. var_ok v" using assms(1) by (simp add: env_ok_def env_repr_def)
  obtain rest where d: "env_data s = enc vs @ NUL # rest"
    using assms(1) env_repr_rest by (metis env_ok_def)
  have "length (env_data s) = ENV_SIZE" using assms(1) by (simp add: env_ok_def)
  then have "length ([] @ enc vs) \<le> CFG_ENV_SIZE" using d ENV_SIZE_le(1) by simp
  from getenv_loop_enc [OF assms(2) vok this, of rest] assms(1) d show ?thesis
    by (simp add: getenv_def env_block_def env_ok_def)
qed

lemma crc32_idem: "crc_wf c \<Longrightarrow> snd (crc32 (fst (crc32 c x xs)) y ys) = snd (crc32 c y ys)"
  using crc32_ref [of c] crc32_ref [of "fst (crc32 c x xs)"] crc32_wf [of c] by simp

lemma env_crc_update_fields [simp]:
  "env_data (env_crc_update s) = env_data s" "env_valid (env_crc_update s) = env_valid s"
  "con (env_crc_update s) = con s"
  by (simp_all add: env_crc_update_def split: prod.splits)

lemma env_crc_update_ok:
  assumes "length (env_data s) = ENV_SIZE" "crc_wf (crc_st s)"
  shows "crc_ok (env_crc_update s)" "crc_wf (crc_st (env_crc_update s))"
proof -
  have t: "take 4092 (env_data s) = env_data s" using assms(1) ENV_SIZE_le(2) by simp
  obtain cs crc where c: "crc32 (crc_st s) 0 (map of_char (env_data s)) = (cs, crc)" by fastforce
  then have u: "env_crc_update s = s\<lparr>crc_st := cs, hdr_crc := crc\<rparr>" by (simp add: env_crc_update_def t)
  show "crc_wf (crc_st (env_crc_update s))" using crc32_wf [OF assms(2), of 0 "map of_char (env_data s)"] c u by simp
  show "crc_ok (env_crc_update s)"
    using crc32_idem [OF assms(2), of 0 "map of_char (env_data s)" 0 "map of_char (env_data s)"] c u by (simp add: crc_ok_def)
qed

lemma env_ok_vars: "env_ok s vs \<Longrightarrow> \<forall>v\<in>set vs. var_ok v"
  by (simp add: env_ok_def env_repr_def)

lemma without_split:
  assumes "distinct (map var_name (us @ v # ws))" "var_name v = name"
  shows "without name (us @ v # ws) = us @ ws" "\<forall>u\<in>set us. var_name u \<noteq> name"
proof -
  have "name \<notin> var_name ` set us" "name \<notin> var_name ` set ws" using assms by auto
  then have other: "\<forall>u\<in>set us \<union> set ws. var_name u \<noteq> name" by (metis Un_iff imageI)
  then show "\<forall>u\<in>set us. var_name u \<noteq> name" by blast
  from other have "filter (\<lambda>u. var_name u \<noteq> name) us = us" "filter (\<lambda>u. var_name u \<noteq> name) ws = ws"
    by (simp_all add: filter_id_conv)
  then show "without name (us @ v # ws) = us @ ws" using assms(2) by (simp add: without_def)
qed

lemma check_overwrite_frame:
  assumes "check_overwrite ca s name vals = Some (Inr s1)"
  shows "env_data s1 = env_data s \<and> env_valid s1 = env_valid s \<and> crc_st s1 = crc_st s \<and> hdr_crc s1 = hdr_crc s"
  using assms by (auto simp: check_overwrite_def switch_baudrate_def Let_def split: if_splits option.splits list.splits bind_splits prod.splits)

text \<open>Calls that leave the console as it is, with a user who presses return.\<close>

definition quiet_calls :: "'c env_calls" where
  "quiet_calls = \<lparr>env_assign = (\<lambda>_ _ c. Some (c, 0)), env_setbrg = (\<lambda>c. c), env_getc = (\<lambda>c. Some (13, c))\<rparr>"

text \<open>An existing variable may be replaced: it is not protected, a device for a console file is accepted, and a speed is one of the table and confirmed
  by a carriage return.\<close>

definition may_overwrite ::
  "'c env_calls \<Rightarrow> ('c, 'm) env_state_scheme \<Rightarrow> string \<Rightarrow> string option list \<Rightarrow> string list \<Rightarrow> bool" where
  "may_overwrite ca s name vals vs \<longleftrightarrow>
     (name \<in> var_name ` set vs \<longrightarrow>
        name \<noteq> ''serial#'' \<and> name \<noteq> ''ethaddr'' \<and>
        (\<forall>f. console_file name = Some f \<longrightarrow> (\<exists>v ws c rc. vals = Some v # ws \<and> env_assign ca f v (con s) = Some (c, rc) \<and> 0 \<le> rc)) \<and>
        (name = ''baudrate'' \<longrightarrow> (\<exists>v ws. vals = Some v # ws \<and> fst (simple_strtoul v 10) \<in> set baudrate_table \<and>
           wait_enter (env_getc ca) (env_setbrg ca (con s)) \<noteq> None)))"

lemma may_overwrite_checked:
  assumes "may_overwrite ca s name vals vs" "name \<in> var_name ` set vs"
  shows "\<exists>s1. check_overwrite ca s name vals = Some (Inr s1)"
proof (cases "console_file name")
  case None
  then show ?thesis using assms by (cases "name = ''baudrate''") (auto simp: may_overwrite_def check_overwrite_def switch_baudrate_def Let_def)
next
  case (Some f)
  then have "name \<noteq> ''baudrate''" by (auto simp: console_file_def)
  then show ?thesis using assms Some by (auto simp: may_overwrite_def check_overwrite_def Let_def)
qed

lemma remove_old_refines:
  assumes ok: "env_ok s vs" and nm: "name_ok name" and may: "may_overwrite ca s name vals vs"
  shows "\<exists>s2. remove_old ca s name vals = Some (Inr s2) \<and> env_ok s2 (without name vs) \<and> hdr_crc s2 = hdr_crc s"
proof (cases "name \<in> var_name ` set vs")
  case False
  then have w: "without name vs = vs" by (auto simp: without_def filter_id_conv)
  obtain rest where d: "env_data s = enc vs @ NUL # rest" using ok env_repr_rest by (metis env_ok_def)
  have "\<exists>e nx ov'. find_var (enc vs @ NUL # rest) name 0 0 (- 1) = Some (e, nx, ov') \<and> ov' < 0"
  proof -
    have "\<forall>v\<in>set vs. var_ok v \<and> var_name v \<noteq> name" using False env_ok_vars [OF ok] by blast
    from find_var_enc_none [OF nm this, of "- 1" "[]" rest 0] show ?thesis by simp
  qed
  then show ?thesis using ok w d by (auto simp: remove_old_def env_block_def env_ok_def)
next
  case True
  then obtain us v ws where vs: "vs = us @ v # ws" and v: "var_name v = name"
    by (metis imageE split_list)
  have dist: "distinct (map var_name (us @ v # ws))" using ok vs by (simp add: env_ok_def)
  note w = without_split [OF dist v]
  obtain rest where d: "env_data s = enc vs @ NUL # rest" using ok env_repr_rest by (metis env_ok_def)
  then have d2: "env_data s = enc us @ v @ NUL # enc ws @ NUL # rest" using vs by simp
  obtain k where k: "k \<ge> 0" "find_var (env_data s) name 0 0 (- 1) = Some (length (enc us), length (enc us @ v), k)"
    using find_var_enc_some [OF nm, of us v "[]" "enc ws @ NUL # rest" 0 "- 1"] env_ok_vars [OF ok] vs v w(2) d2 by auto
  obtain s1 where s1: "check_overwrite ca s name vals = Some (Inr s1)"
    using may_overwrite_checked [OF may True] by blast
  obtain d' where d': "delete_var (env_data s) (length (enc us)) (length (enc us @ v)) = Some d'"
    "length d' = length (env_data s)" "env_repr d' (us @ ws)"
    using delete_var_enc [of us v ws "env_data s" rest] env_ok_vars [OF ok] vs d2 by auto
  have "remove_old ca s name vals = Some (Inr (set_env_block d' s1))"
    using k s1 d' ok check_overwrite_frame [OF s1] by (simp add: remove_old_def env_block_def env_ok_def)
  moreover have "env_ok (set_env_block d' s1) (without name vs)"
    using ok d' dist check_overwrite_frame [OF s1] w(1) vs by (simp add: env_ok_def set_env_block_def)
  moreover have "hdr_crc (set_env_block d' s1) = hdr_crc s"
    using check_overwrite_frame [OF s1] ok by (simp add: env_ok_def set_env_block_def)
  ultimately show ?thesis by blast
qed

lemma entry_ok:
  assumes "name_ok name" "vals \<noteq> []" "\<forall>v\<in>set vals. NUL \<notin> set v"
  shows "var_ok (name @ join_vals True vals)" "var_name (name @ join_vals True vals) = name"
    "var_value (name @ join_vals True vals) = tl (join_vals True vals)"
proof -
  have nj: "NUL \<notin> set (join_vals b vals)" for b
    using assms(3) by (induction vals arbitrary: b) (auto simp: NUL_def)
  obtain w ws where vals: "vals = w # ws" using assms(2) by (cases vals) auto
  have nn: "\<forall>c\<in>set name. c \<noteq> CHR ''=''" using assms(1) by (auto simp: name_ok_def)
  then have d: "dropWhile (\<lambda>c. c \<noteq> CHR ''='') (name @ CHR ''='' # xs) = CHR ''='' # xs" for xs
    by (simp add: dropWhile_append2)
  show "var_ok (name @ join_vals True vals)" using assms(1) nj [of True] vals by (auto simp: var_ok_def name_ok_def)
  show "var_name (name @ join_vals True vals) = name" using nn vals by (simp add: var_name_def)
  show "var_value (name @ join_vals True vals) = tl (join_vals True vals)" using vals by (simp add: var_value_def d)
qed

lemma update_cached_fields [simp]:
  "env_data (update_cached s n v) = env_data s" "env_valid (update_cached s n v) = env_valid s"
  "crc_st (update_cached s n v) = crc_st s" "hdr_crc (update_cached s n v) = hdr_crc s"
  by (simp_all add: update_cached_def)

lemma setenv_refines:
  assumes ok: "env_ok s vs" and nm: "name_ok name" and may: "may_overwrite ca s name (map Some vals) vs"
    and vals: "vals \<noteq> []" "\<forall>v\<in>set vals. NUL \<notin> set v"
  shows "\<exists>s'. if length (enc (without name vs)) + length (name @ join_vals True vals) + 2 \<le> ENV_SIZE
    then do_setenv_raw ca s name (map Some vals) = Some (s', 0) \<and>
         env_ok s' (without name vs @ [name @ join_vals True vals]) \<and> crc_ok s'
    else do_setenv_raw ca s name (map Some vals) = Some (s', 1) \<and> env_ok s' (without name vs) \<and> hdr_crc s' = hdr_crc s"
proof -
  obtain s2 where s2: "remove_old ca s name (map Some vals) = Some (Inr s2)" "env_ok s2 (without name vs)" "hdr_crc s2 = hdr_crc s"
    using remove_old_refines [OF ok nm may] by blast
  note ent = entry_ok [OF nm vals]
  obtain w ws where wv: "vals = w # ws" using vals(1) by (cases vals) auto
  have blk: "env_block s2 = env_data s2" using s2(2) by (simp add: env_block_def env_ok_def)
  have app: "if length (enc (without name vs)) + length (name @ join_vals True vals) + 2 \<le> ENV_SIZE
    then \<exists>d'. append_var (env_data s2) name vals = Some (Inr d') \<and> length d' = ENV_SIZE \<and>
      env_repr d' (without name vs @ [name @ join_vals True vals])
    else append_var (env_data s2) name vals = Some (Inl ())"
    using s2(2) ent(1) by (intro append_var_enc) (simp_all add: env_ok_def)
  show ?thesis
  proof (cases "length (enc (without name vs)) + length (name @ join_vals True vals) + 2 \<le> ENV_SIZE")
    case False
    with app s2 blk wv show ?thesis by (auto simp: do_setenv_raw_def map_idI)
  next
    case True
    then obtain d' where d': "append_var (env_data s2) name vals = Some (Inr d')" "length d' = ENV_SIZE"
      "env_repr d' (without name vs @ [name @ join_vals True vals])" using app by auto
    let ?s3 = "set_env_block d' s2"
    let ?s' = "update_cached (env_crc_update ?s3) name w"
    have s3: "env_data ?s3 = d'" "env_valid ?s3" "crc_wf (crc_st ?s3)"
      using s2(2) by (simp_all add: set_env_block_def env_ok_def)
    note cr = env_crc_update_ok [of ?s3]
    have "do_setenv_raw ca s name (map Some vals) = Some (?s', 0)"
      using s2(1) d'(1) blk wv by (auto simp: do_setenv_raw_def map_idI)
    moreover have "distinct (map var_name (without name vs @ [name @ join_vals True vals]))"
      using s2(2) ent(2) by (auto simp: env_ok_def without_def)
    then have "env_ok ?s' (without name vs @ [name @ join_vals True vals])"
      using d' s3 cr by (simp add: env_ok_def)
    moreover have "crc_ok ?s'" using cr d' s3 by (simp add: crc_ok_def)
    ultimately show ?thesis using True by auto
  qed
qed

lemma setenv_delete_refines:
  assumes ok: "env_ok s vs" and nm: "name_ok name" and may: "may_overwrite ca s name vals vs"
    and vals: "vals = [] \<or> hd vals = None"
  shows "\<exists>s'. do_setenv_raw ca s name vals = Some (s', 0) \<and> env_ok s' (without name vs) \<and> crc_ok s'"
proof -
  obtain s2 where s2: "remove_old ca s name vals = Some (Inr s2)" "env_ok s2 (without name vs)"
    using remove_old_refines [OF ok nm may] by blast
  have "do_setenv_raw ca s name vals = Some (env_crc_update s2, 0)"
    using s2(1) vals by (cases vals) (auto simp: do_setenv_raw_def)
  moreover have "env_ok (env_crc_update s2) (without name vs)" "crc_ok (env_crc_update s2)"
    using s2(2) env_crc_update_ok [of s2] by (simp_all add: env_ok_def)
  ultimately show ?thesis by blast
qed

lemma lookup_without: "lookup (without name vs) n = (if n = name then None else lookup vs n)"
  by (induction vs) (auto simp: lookup_def without_def)

lemma lookup_append: "lookup (us @ vs) n = (case lookup us n of None \<Rightarrow> lookup vs n | Some v \<Rightarrow> Some v)"
  by (induction us) (auto simp: lookup_def)

subsection \<open>The contract of a variable store\<close>

text \<open>What the rest of the program relies on: a value that was stored is read back, the other names
  keep theirs, and a refused store changes no other name.\<close>

locale var_store =
  fixes inv :: "'s \<Rightarrow> bool"
    and get :: "'s \<Rightarrow> string \<Rightarrow> string option option"
    and put :: "'s \<Rightarrow> string \<Rightarrow> string \<Rightarrow> ('s \<times> nat) option"
    and key :: "string \<Rightarrow> bool"
    and val :: "string \<Rightarrow> bool"
  assumes put_total: "inv s \<Longrightarrow> key n \<Longrightarrow> val v \<Longrightarrow> \<exists>s' rc. put s n v = Some (s', rc)"
    and put_inv: "inv s \<Longrightarrow> key n \<Longrightarrow> val v \<Longrightarrow> put s n v = Some (s', rc) \<Longrightarrow> inv s'"
    and put_same: "inv s \<Longrightarrow> key n \<Longrightarrow> val v \<Longrightarrow> put s n v = Some (s', 0) \<Longrightarrow> get s' n = Some (Some v)"
    and put_other: "inv s \<Longrightarrow> key n \<Longrightarrow> val v \<Longrightarrow> put s n v = Some (s', rc) \<Longrightarrow> key m \<Longrightarrow> m \<noteq> n \<Longrightarrow> get s' m = get s m"
begin

fun puts :: "'s \<Rightarrow> (string \<times> string) list \<Rightarrow> 's option" where
  "puts s [] = Some s"
| "puts s ((n, v) # bs) = (case put s n v of Some (s', 0) \<Rightarrow> puts s' bs | _ \<Rightarrow> None)"

lemma puts_frame:
  "inv s \<Longrightarrow> \<forall>(n, v)\<in>set bs. key n \<and> val v \<Longrightarrow> puts s bs = Some s' \<Longrightarrow>
   inv s' \<and> (\<forall>m. key m \<longrightarrow> m \<notin> fst ` set bs \<longrightarrow> get s' m = get s m)"
proof (induction bs arbitrary: s)
  case (Cons b bs)
  obtain n v where b: "b = (n, v)" by (cases b)
  with Cons.prems obtain s1 where s1: "put s n v = Some (s1, 0)" "puts s1 bs = Some s'"
    by (auto split: option.splits prod.splits nat.splits)
  have "inv s1" using put_inv [OF _ _ _ s1(1)] Cons.prems b by auto
  with Cons.IH [OF this _ s1(2)] put_other [OF _ _ _ s1(1)] Cons.prems b show ?case by auto
qed simp

lemma puts_reads_back:
  "inv s \<Longrightarrow> \<forall>(n, v)\<in>set bs. key n \<and> val v \<Longrightarrow> distinct (map fst bs) \<Longrightarrow> puts s bs = Some s' \<Longrightarrow>
   (n, v) \<in> set bs \<Longrightarrow> get s' n = Some (Some v)"
proof (induction bs arbitrary: s)
  case (Cons b bs)
  obtain n1 v1 where b: "b = (n1, v1)" by (cases b)
  with Cons.prems obtain s1 where s1: "put s n1 v1 = Some (s1, 0)" "puts s1 bs = Some s'"
    by (auto split: option.splits prod.splits nat.splits)
  have i1: "inv s1" using put_inv [OF _ _ _ s1(1)] Cons.prems b by auto
  have bs: "\<forall>(n, v)\<in>set bs. key n \<and> val v" using Cons.prems by auto
  show ?case
  proof (cases "(n, v) = b")
    case True
    then have "n \<notin> fst ` set bs" "key n" using Cons.prems b by auto
    then have "get s' n = get s1 n" using puts_frame [OF i1 bs s1(2)] by blast
    then show ?thesis using put_same [OF _ _ _ s1(1)] Cons.prems b True by auto
  next
    case False
    then show ?thesis using Cons.IH [OF i1 bs _ s1(2)] Cons.prems by auto
  qed
qed simp

end

definition plain_name :: "string \<Rightarrow> bool" where
  "plain_name n \<longleftrightarrow> name_ok n \<and> n \<notin> {''serial#'', ''ethaddr'', ''stdin'', ''stdout'', ''stderr'', ''baudrate''}"

definition is_env :: "('c, 'm) env_state_scheme \<Rightarrow> bool" where
  "is_env s \<longleftrightarrow> (\<exists>vs. env_ok s vs)"

definition value_ok :: "string \<Rightarrow> bool" where
  "value_ok v \<longleftrightarrow> NUL \<notin> set v"

lemma plain_may_overwrite: "plain_name n \<Longrightarrow> may_overwrite ca s n vals vs"
  by (auto simp: plain_name_def may_overwrite_def console_file_def)

lemma setenv_one_total:
  assumes "env_ok s vs" "plain_name n" "value_ok v"
  shows "\<exists>s'. do_setenv_raw ca s n [Some v] = Some (s', 0) \<and> env_ok s' (without n vs @ [n @ CHR ''='' # v]) \<and> crc_ok s' \<or>
    do_setenv_raw ca s n [Some v] = Some (s', 1) \<and> env_ok s' (without n vs) \<and> hdr_crc s' = hdr_crc s"
proof -
  have "name_ok n" using assms(2) by (simp add: plain_name_def)
  moreover have "may_overwrite ca s n (map Some [v]) vs" by (rule plain_may_overwrite [OF assms(2)])
  ultimately show ?thesis
    using setenv_refines [OF assms(1), of n ca "[v]"] assms(3)
    by (cases "length (enc (without n vs)) + length (n @ join_vals True [v]) + 2 \<le> ENV_SIZE") (auto simp: value_ok_def)
qed

lemma setenv_one:
  assumes "env_ok s vs" "plain_name n" "value_ok v" "do_setenv_raw ca s n [Some v] = Some (s', rc)"
  shows "if rc = 0 then env_ok s' (without n vs @ [n @ CHR ''='' # v]) \<and> crc_ok s'
    else rc = 1 \<and> env_ok s' (without n vs) \<and> hdr_crc s' = hdr_crc s"
  using setenv_one_total [OF assms(1-3), of ca] assms(4) by auto

lemma lookup_put: "lookup (without n vs @ [n @ CHR ''='' # v]) m = (if m = n then Some v else lookup vs m)" if "name_ok n" "value_ok v"
proof -
  have "var_name (n @ CHR ''='' # v) = n" "var_value (n @ CHR ''='' # v) = v"
    using entry_ok(2, 3) [OF that(1), of "[v]"] that(2) by (simp_all add: value_ok_def)
  then have "lookup [n @ CHR ''='' # v] m = (if m = n then Some v else None)" by (auto simp: lookup_def)
  then show ?thesis by (auto simp: lookup_append lookup_without split: option.splits)
qed

interpretation envs: var_store is_env getenv "\<lambda>s n v. do_setenv_raw ca s n [Some v]" plain_name value_ok
  for ca :: "'c env_calls"
proof
  fix s :: "('c, 'm) env_state_scheme" and n v s' rc m
  assume s: "is_env s" and n: "plain_name n" and v: "value_ok v"
  then obtain vs where vs: "env_ok s vs" by (auto simp: is_env_def)
  have nn: "name_ok n" using n by (simp add: plain_name_def)
  show "\<exists>s' rc. do_setenv_raw ca s n [Some v] = Some (s', rc)"
    using setenv_one_total [OF vs n v, of ca] by blast
  assume put: "do_setenv_raw ca s n [Some v] = Some (s', rc)"
  note one = setenv_one [OF vs n v put]
  show "is_env s'" using one by (auto simp: is_env_def split: if_splits)
  assume m: "plain_name m" "m \<noteq> n"
  have mm: "name_ok m" using m by (simp add: plain_name_def)
  show "getenv s' m = getenv s m"
    using one getenv_lookup [OF vs mm] getenv_lookup [OF _ mm, of s'] m(2) lookup_put [OF nn v] lookup_without
    by (auto split: if_splits)
next
  fix s :: "('c, 'm) env_state_scheme" and n v s'
  assume s: "is_env s" and n: "plain_name n" and v: "value_ok v" and put: "do_setenv_raw ca s n [Some v] = Some (s', 0)"
  then obtain vs where vs: "env_ok s vs" by (auto simp: is_env_def)
  have nn: "name_ok n" using n by (simp add: plain_name_def)
  show "getenv s' n = Some (Some v)"
    using setenv_one [OF vs n v put] getenv_lookup [OF _ nn, of s'] lookup_put [OF nn v] by auto
qed

subsection \<open>Printing\<close>

lemma print_all_enc:
  "\<forall>v\<in>set vs. var_ok v \<Longrightarrow> \<forall>k. \<not> ctrlc k \<Longrightarrow>
   print_all ctrlc n out (pre @ enc vs @ NUL # post) (length pre) =
     Some (out @ concat (map (\<lambda>v. v @ [CHR 0x0A]) vs), Inr (length (pre @ enc vs)))"
proof (induction vs arbitrary: pre n out)
  case Nil then show ?case by (subst print_all.simps) simp
next
  case (Cons v vs)
  let ?d = "pre @ enc (v # vs) @ NUL # post"
  have first: "rd ?d (length pre) = Some (hd v)" "hd v \<noteq> NUL"
    using Cons.prems by (cases v; auto simp: var_ok_def)+
  have sk: "skip_var ?d (length pre) = Some (length pre + length v)"
    using Cons.prems skip_var_mid [of v pre "enc vs @ NUL # post"] by (auto simp: var_ok_def)
  have "print_all ctrlc (Suc n) (out @ v @ [CHR 0x0A]) ((pre @ v @ [NUL]) @ enc vs @ NUL # post) (length (pre @ v @ [NUL])) =
      Some ((out @ v @ [CHR 0x0A]) @ concat (map (\<lambda>v. v @ [CHR 0x0A]) vs), Inr (length ((pre @ v @ [NUL]) @ enc vs)))"
    using Cons.prems by (intro Cons.IH) auto
  with first sk Cons.prems show ?case by (subst print_all.simps) (simp add: Let_def)
qed

lemma vsprintf_two_ints:
  "\<exists>line. vsprintf ''Environment size: %d/%d bytes'' [VInt a, VInt b] = Some line"
proof -
  obtain s1 where s1: "conv_spec (length ''Environment size: '') ''d/%d bytes'' [VInt a, VInt b] = Some (s1, [], ''/%d bytes'', [VInt b])"
    using conv_spec_d by blast
  obtain s2 where s2: "conv_spec (length (''Environment size: '' @ s1 @ ''/'')) ''d bytes'' [VInt b] = Some (s2, [], '' bytes'', [])"
    using conv_spec_d by blast
  show ?thesis using s1 s2 by (simp add: vsprintf_def)
qed

subsection \<open>The properties of the environment\<close>

text \<open>A blank environment, as \<open>env_relocate\<close> clears it.\<close>

definition blank_env :: "unit env_state" where
  "blank_env = \<lparr>hdr_crc = 0, env_data = NUL # NUL # replicate 4090 NUL, default_env = [], env_valid = True,
     gd_baudrate = 115200, bi_enetaddr = [], bi_ip_addr = 0, load_addr = 0, BootFile = [],
     crc_st = \<lparr>crc_table_empty = True, crc_table = []\<rparr>, con = ()\<rparr>"

lemma blank_env_ok: "env_ok blank_env []"
  by (simp add: env_ok_def blank_env_def env_repr_def ENV_SIZE_def CFG_ENV_SIZE_def crc_wf_def)

text \<open>C8: \<open>_do_setenv\<close> on the byte block refines the abstract assignment: on a well-formed environment, when an existing definition may be replaced (it is not
  \<open>serial#\<close> or \<open>ethaddr\<close>, the device for a console file is accepted, and a new \<open>baudrate\<close> is supported and confirmed by a carriage return, for which the
  code waits), it returns, never reads or writes outside the block, removes the old definition of the name and
  either appends \<open>name=value\<close> (several values joined by blanks) with an up-to-date CRC, or, exactly when
  the entry does not fit into the rest of the block, reports the error with the variable deleted and the
  header CRC as it was before the call.\<close>

theorem setenv_refines_list:
  assumes "env_ok s vs" "name_ok name" "may_overwrite ca s name (map Some vals) vs"
    "vals \<noteq> []" "\<forall>v\<in>set vals. NUL \<notin> set v"
  shows "\<exists>s'. if length (enc (without name vs)) + length (name @ join_vals True vals) + 2 \<le> ENV_SIZE
    then do_setenv_raw ca s name (map Some vals) = Some (s', 0) \<and>
         env_ok s' (without name vs @ [name @ join_vals True vals]) \<and> crc_ok s'
    else do_setenv_raw ca s name (map Some vals) = Some (s', 1) \<and> env_ok s' (without name vs) \<and> hdr_crc s' = hdr_crc s"
  using assms by (rule setenv_refines)

definition typed_calls :: "int list env_calls" where
  "typed_calls = \<lparr>env_assign = (\<lambda>_ _ c. Some (c, 0)), env_setbrg = (\<lambda>c. c), env_getc = (\<lambda>ks. case ks of [] \<Rightarrow> None | k # ks \<Rightarrow> Some (k, ks))\<rparr>"

theorem setenv_refines_list_witness:
  "let s = \<lparr>hdr_crc = 0, env_data = ''baudrate=115200'' @ NUL # NUL # replicate 4075 NUL, default_env = [], env_valid = True, gd_baudrate = 115200,
      bi_enetaddr = [], bi_ip_addr = 0, load_addr = 0, BootFile = [], crc_st = \<lparr>crc_table_empty = True, crc_table = []\<rparr>, con = [65, 13, 66]\<rparr> in
   \<exists>s'. do_setenv_raw typed_calls s ''baudrate'' (map Some [''57600'']) = Some (s', 0) \<and> env_ok s' [''baudrate=57600'']"
proof -
  let ?s = "\<lparr>hdr_crc = 0, env_data = ''baudrate=115200'' @ NUL # NUL # replicate 4075 NUL, default_env = [], env_valid = True, gd_baudrate = 115200,
      bi_enetaddr = [], bi_ip_addr = 0, load_addr = 0, BootFile = [], crc_st = \<lparr>crc_table_empty = True, crc_table = []\<rparr>, con = [65, 13, 66]\<rparr>"
  have ok: "env_ok ?s [''baudrate=115200'']"
    by (simp add: env_ok_def env_repr_def ENV_SIZE_def CFG_ENV_SIZE_def crc_wf_def var_ok_def NUL_def)
  have w: "wait_enter (env_getc typed_calls) [65, 13, 66] = Some [66]"
    by (simp add: wait_enter.simps [of _ "_ # _"] typed_calls_def)
  have n: "fst (simple_strtoul ''57600'' 10) \<in> set baudrate_table" by code_simp
  have may: "may_overwrite typed_calls ?s ''baudrate'' (map Some [''57600'']) [''baudrate=115200'']"
    using w n by (simp add: may_overwrite_def console_file_def typed_calls_def var_name_def)
  have "name_ok ''baudrate''" by (simp add: name_ok_def NUL_def)
  from setenv_refines_list [OF ok this may] show ?thesis
    by (simp add: without_def var_name_def NUL_def ENV_SIZE_def CFG_ENV_SIZE_def Let_def) blast
qed

text \<open>The environment is a map: after a successful \<open>setenv\<close> of a variable that is not protected,
  \<open>getenv\<close> of that name returns the new value, \<open>getenv\<close> of every other name returns what it returned
  before, and the stored CRC matches the block.\<close>

theorem getenv_after_setenv:
  assumes "env_ok s vs" "plain_name n" "value_ok v" "do_setenv_raw ca s n [Some v] = Some (s', 0)"
  shows "getenv s' n = Some (Some v) \<and> (\<forall>m. name_ok m \<and> m \<noteq> n \<longrightarrow> getenv s' m = getenv s m) \<and> crc_ok s'"
proof -
  have nn: "name_ok n" using assms(2) by (simp add: plain_name_def)
  note one = setenv_one [OF assms]
  have "getenv s' m = Some (if m = n then Some v else lookup vs m)" if "name_ok m" for m
    using one getenv_lookup [OF _ that, of s' "without n vs @ [n @ CHR ''='' # v]"] lookup_put [OF nn assms(3)] by simp
  then show ?thesis using nn getenv_lookup [OF assms(1)] one by auto
qed

theorem getenv_after_setenv_witness:
  "\<exists>s'. do_setenv_raw quiet_calls blank_env ''ip'' [Some ''1.2''] = Some (s', 0) \<and>
    getenv s' ''ip'' = Some (Some ''1.2'')"
proof -
  have p: "plain_name ''ip''" "value_ok ''1.2''" by (simp_all add: plain_name_def name_ok_def value_ok_def NUL_def)
  obtain s' where s': "do_setenv_raw quiet_calls blank_env ''ip'' [Some ''1.2''] = Some (s', 0)"
    using setenv_refines [OF blank_env_ok _ plain_may_overwrite [OF p(1)], of "[''1.2'']" quiet_calls]
    by (auto simp: name_ok_def NUL_def without_def ENV_SIZE_def CFG_ENV_SIZE_def)
  from getenv_after_setenv [OF blank_env_ok p s'] s' show ?thesis by blast
qed

text \<open>Deleting works: \<open>setenv name\<close> without a value, and \<open>setenv(name, NULL)\<close>, end with return code 0,
  \<open>getenv\<close> of the name is NULL afterwards, all other names keep their values and the CRC is updated.\<close>

theorem setenv_deletes:
  assumes "env_ok s vs" "plain_name n" "vals = [] \<or> vals = [None]"
  shows "\<exists>s'. do_setenv_raw ca s n vals = Some (s', 0) \<and> getenv s' n = Some None \<and>
    (\<forall>m. name_ok m \<and> m \<noteq> n \<longrightarrow> getenv s' m = getenv s m) \<and> crc_ok s'"
proof -
  have nn: "name_ok n" using assms(2) by (simp add: plain_name_def)
  obtain s' where s': "do_setenv_raw ca s n vals = Some (s', 0)" "env_ok s' (without n vs)" "crc_ok s'"
    using setenv_delete_refines [OF assms(1) nn plain_may_overwrite [OF assms(2)], of vals ca] assms(3) by auto
  then show ?thesis using nn getenv_lookup [OF s'(2)] getenv_lookup [OF assms(1)] by (auto simp: lookup_without)
qed

theorem setenv_deletes_witness:
  "\<exists>s'. do_setenv_raw quiet_calls blank_env ''ip'' [] = Some (s', 0) \<and> getenv s' ''ip'' = Some None"
  using setenv_deletes [OF blank_env_ok, of "''ip''" "[]" quiet_calls] by (auto simp: plain_name_def name_ok_def NUL_def)

text \<open>\<open>serial#\<close> and \<open>ethaddr\<close> can be set only once: when the variable exists, every attempt to change or
  delete it returns 1 and leaves the whole state as it was.\<close>

theorem protected_once:
  assumes "env_ok s vs" "n = ''serial#'' \<or> n = ''ethaddr''" "lookup vs n \<noteq> None"
  shows "do_setenv_raw ca s n vals = Some (s, 1)"
proof -
  have nn: "name_ok n" using assms(2) by (auto simp: name_ok_def NUL_def)
  obtain us v ws where vs: "vs = us @ v # ws" and v: "var_name v = n"
    using assms(3) by (auto simp: lookup_def find_Some_iff in_set_conv_decomp dest!: nth_mem)
  have dist: "distinct (map var_name (us @ v # ws))" using assms(1) vs by (simp add: env_ok_def)
  obtain rest where "env_data s = enc vs @ NUL # rest" using assms(1) env_repr_rest by (metis env_ok_def)
  then have d: "env_data s = enc us @ v @ NUL # enc ws @ NUL # rest" using vs by simp
  obtain k where "k \<ge> 0" "find_var (env_data s) n 0 0 (- 1) = Some (length (enc us), length (enc us @ v), k)"
    using find_var_enc_some [OF nn, of us v "[]" "enc ws @ NUL # rest" 0 "- 1"] env_ok_vars [OF assms(1)] vs v
      without_split(2) [OF dist v] d by auto
  then show ?thesis
    using assms(1, 2) by (auto simp: do_setenv_raw_def remove_old_def check_overwrite_def env_block_def env_ok_def)
qed

theorem protected_once_witness:
  "let s = blank_env\<lparr>env_data := ''ethaddr=0'' @ NUL # NUL # replicate 4081 NUL\<rparr> in
   do_setenv_raw quiet_calls s ''ethaddr'' [Some ''1''] = Some (s, 1)"
  unfolding Let_def
  by (rule protected_once [of _ "[''ethaddr=0'']"])
     (simp_all add: env_ok_def blank_env_def env_repr_def ENV_SIZE_def CFG_ENV_SIZE_def crc_wf_def var_ok_def NUL_def
       lookup_def var_name_def)

text \<open>\<open>printenv\<close> without arguments lists every variable of the environment, one per line in storage
  order, unless it is interrupted.\<close>

theorem printenv_lists_all:
  assumes "env_ok s vs" "\<forall>k. \<not> ctrlc k"
  shows "\<exists>trailer. do_printenv ctrlc s [] = Some (concat (map (\<lambda>v. v @ [CHR 0x0A]) vs) @ trailer, 0)"
proof -
  obtain rest where d: "env_data s = enc vs @ NUL # rest" using assms(1) env_repr_rest by (metis env_ok_def)
  have p: "print_all ctrlc 0 [] (env_block s) 0 = Some (concat (map (\<lambda>v. v @ [CHR 0x0A]) vs), Inr (length (enc vs)))"
    using print_all_enc [OF env_ok_vars [OF assms(1)] assms(2), of 0 "[]" "[]" rest] d assms(1)
    by (simp add: env_block_def env_ok_def)
  obtain line where "vsprintf ''Environment size: %d/%d bytes'' [VInt (of_nat (length (enc vs))), VInt (of_nat ENV_SIZE)] = Some line"
    using vsprintf_two_ints by blast
  with p show ?thesis by (cases line) (auto simp: do_printenv_def)
qed

theorem printenv_lists_all_witness:
  "\<exists>trailer. do_printenv (\<lambda>_. False) blank_env [] = Some (concat (map (\<lambda>v. v @ [CHR 0x0A]) []) @ trailer, 0)"
  by (rule printenv_lists_all [OF blank_env_ok]) simp

text \<open>The failing path leaves a stale checksum: when the last variable of the environment is given a
  value that does not fit, \<open>_do_setenv\<close> deletes the variable, returns 1 without calling
  \<open>env_crc_update\<close>, and the header CRC, valid before, no longer matches the block; saved as it is, the
  next start would reject the whole environment.\<close>

theorem overflow_leaves_stale_crc:
  assumes "env_ok s (us @ [v])" "us \<noteq> []" "var_name v = n" "plain_name n" "value_ok x" "crc_ok s"
    "ENV_SIZE < length (enc us) + length (n @ CHR ''='' # x) + 2"
  shows "\<exists>s'. do_setenv_raw ca s n [Some x] = Some (s', 1) \<and> env_ok s' us \<and> \<not> crc_ok s'"
proof -
  have nn: "name_ok n" using assms(4) by (simp add: plain_name_def)
  have dist: "distinct (map var_name (us @ v # []))" using assms(1) by (simp add: env_ok_def)
  note w = without_split [OF dist assms(3)]
  obtain rest where d: "env_data s = enc us @ v @ NUL # NUL # rest"
    using assms(1) env_repr_rest [of "env_data s" "us @ [v]"] by (auto simp: env_ok_def)
  obtain c v' where v: "v = c # v'" "c \<noteq> NUL" using env_ok_vars [OF assms(1)] by (cases v) (auto simp: var_ok_def)
  let ?d = "enc us @ NUL # v' @ NUL # NUL # rest"
  obtain k where "k \<ge> 0" "find_var (env_data s) n 0 0 (- 1) = Some (length (enc us), length (enc us @ v), k)"
    using find_var_enc_some [OF nn, of us v "[]" "NUL # rest" 0 "- 1"] env_ok_vars [OF assms(1)] assms(3) w(2) d by auto
  moreover have "check_overwrite ca s n [Some x] = Some (Inr s)"
    using assms(4) by (auto simp: plain_name_def check_overwrite_def console_file_def)
  ultimately have r: "remove_old ca s n [Some x] = Some (Inr (s\<lparr>env_data := ?d\<rparr>))"
    using delete_var_last [OF assms(2), of "env_data s" c v' rest] d v(1) assms(1)
    by (simp add: remove_old_def env_block_def env_ok_def set_env_block_def)
  have vok: "env_valid s" "crc_wf (crc_st s)" using assms(1) by (simp_all add: env_ok_def)
  have rep: "env_repr ?d us" "length ?d = ENV_SIZE" "env_ok (s\<lparr>env_data := ?d\<rparr>) us"
    using assms(1, 2) d v(1) by (auto simp: env_repr_def env_ok_def)
  have "append_var ?d n [x] = Some (Inl ())"
    using append_var_enc [OF rep(1, 2), of n "[x]"] entry_ok(1) [OF nn, of "[x]"] assms(5, 7) by (auto simp: value_ok_def)
  then have fin: "do_setenv_raw ca s n [Some x] = Some (s\<lparr>env_data := ?d\<rparr>, 1)"
    using r vok by (simp add: do_setenv_raw_def env_block_def)
  have "(of_char NUL :: u8) \<noteq> of_char c" using v(2) by simp
  from crc32_byte_sensitive [OF vok(2) this, of 0 "map of_char (enc us)" "map of_char (v' @ NUL # NUL # rest)"]
  have "\<not> crc_ok (s\<lparr>env_data := ?d\<rparr>)"
    using assms(6) d v(1) by (simp add: crc_ok_def)
  then show ?thesis using fin rep(3) by blast
qed

theorem overflow_leaves_stale_crc_witness:
  "\<exists>(s :: unit env_state) s'. crc_ok s \<and> do_setenv_raw quiet_calls s ''b'' [Some (replicate 4096 CHR ''x'')] = Some (s', 1) \<and> \<not> crc_ok s'"
proof -
  define s0 where "s0 = blank_env\<lparr>env_data := ''a=1'' @ NUL # ''b=2'' @ NUL # NUL # replicate 4083 NUL\<rparr>"
  have l: "length (env_data s0) = ENV_SIZE" "crc_wf (crc_st s0)"
    by (simp_all add: s0_def blank_env_def ENV_SIZE_def CFG_ENV_SIZE_def crc_wf_def)
  note upd = env_crc_update_ok [OF l]
  have ok: "env_ok (env_crc_update s0) ([''a=1''] @ [''b=2''])"
    using upd(2) l by (simp add: env_ok_def s0_def blank_env_def env_repr_def var_ok_def NUL_def var_name_def)
  have "\<exists>s'. do_setenv_raw quiet_calls (env_crc_update s0) ''b'' [Some (replicate 4096 CHR ''x'')] = Some (s', 1) \<and>
      env_ok s' [''a=1''] \<and> \<not> crc_ok s'"
    using upd(1)
    by (intro overflow_leaves_stale_crc [OF ok])
       (simp_all add: var_name_def plain_name_def name_ok_def value_ok_def NUL_def ENV_SIZE_def CFG_ENV_SIZE_def)
  with upd(1) show ?thesis by blast
qed

end
