(* ===== verification/Console.thy ===== *)
theory Console
  imports Devices Env_Spec
begin

text \<open>
  \<open>common/console.c\<close>: the standard files \<open>stdin\<close>, \<open>stdout\<close>, \<open>stderr\<close> and the device each is assigned to, the
  character and string functions that go through them, and control-C. The functions of a device are called
  through their addresses; what a call does to the devices' own state \<open>'w\<close> is given by the parameter record
  \<open>dev_calls\<close>. Following a NULL device pointer is \<open>None\<close>. \<open>CFG_CONSOLE_IS_IN_ENV\<close>, \<open>CONFIG_SPLASH_SCREEN\<close>
  and \<open>CONFIG_SILENT_CONSOLE\<close> are not set; \<open>search_device\<close>, used only with them, is modelled too.
\<close>

subsection \<open>State\<close>

record 'w dev_calls =
  call_start :: "u32 \<Rightarrow> 'w \<Rightarrow> int \<times> 'w"
  call_putc :: "u32 \<Rightarrow> char \<Rightarrow> 'w \<Rightarrow> 'w"
  call_puts :: "u32 \<Rightarrow> string \<Rightarrow> 'w \<Rightarrow> 'w"
  call_getc :: "u32 \<Rightarrow> 'w \<Rightarrow> int \<times> 'w"
  call_tstc :: "u32 \<Rightarrow> 'w \<Rightarrow> int \<times> 'w"

record 'w console_state =
  devlist :: "clist option"
  stdio_devices :: "int option list"
  jt :: "nat \<Rightarrow> u32"
  gd_flags :: u32
  have_console :: bool
  ctrlc_disabled :: int
  ctrlc_was_pressed :: int
  world :: 'w

definition GD_FLG_DEVINIT :: u32 where "GD_FLG_DEVINIT = 2"
definition XF_getc :: nat where "XF_getc = 1"
definition XF_tstc :: nat where "XF_tstc = 2"
definition XF_putc :: nat where "XF_putc = 3"
definition XF_puts :: nat where "XF_puts = 4"
definition XF_printf :: nat where "XF_printf = 5"
definition MAX_FILES :: int where "MAX_FILES = 3"

subsection \<open>Assigning files\<close>

definition set_jt :: "serial_drv \<Rightarrow> nat \<Rightarrow> device \<Rightarrow> (nat \<Rightarrow> u32) \<Rightarrow> nat \<Rightarrow> u32" where
  "set_jt drv file dev j =
     (if file = 0 then j(XF_getc := dgetc dev, XF_tstc := dtstc dev)
      else if file = 1 then j(XF_putc := dputc dev, XF_puts := dputs dev, XF_printf := printf_fn drv)
      else j)"

definition console_setfile ::
  "'w dev_calls \<Rightarrow> serial_drv \<Rightarrow> nat \<Rightarrow> int option \<Rightarrow> 'w console_state \<Rightarrow> ('w console_state \<times> int) option" where
  "console_setfile calls drv file devp cs =
     (case devp of
        None \<Rightarrow> Some (cs, - 1)
      | Some p \<Rightarrow>
          if file > 2 then Some (cs, - 1)
          else do {
            l \<leftarrow> devlist cs;
            dev \<leftarrow> dev_at l p;
            let (error, w) = (if dstart dev \<noteq> 0 then call_start calls (dstart dev) (world cs) else (0, world cs));
            let cs = cs\<lparr>world := w\<rparr>;
            if error < 0 then Some (cs, error)
            else Some (cs\<lparr>stdio_devices := (stdio_devices cs)[file := Some p], jt := set_jt drv file dev (jt cs)\<rparr>, error)
          })"

definition file_flag :: "nat \<Rightarrow> u32 option" where
  "file_flag file = (if file = 0 then Some DEV_FLAGS_INPUT else if file = 1 \<or> file = 2 then Some DEV_FLAGS_OUTPUT else None)"

definition console_assign ::
  "'w dev_calls \<Rightarrow> serial_drv \<Rightarrow> nat \<Rightarrow> string \<Rightarrow> 'w console_state \<Rightarrow> ('w console_state \<times> int) option" where
  "console_assign calls drv file devname cs =
     (case file_flag file of
        None \<Rightarrow> Some (cs, - 1)
      | Some flag \<Rightarrow> do {
          l \<leftarrow> devlist cs;
          r \<leftarrow> find_dev l (\<lambda>dev. devname = dev_name dev) (nat (ListNumItems l)) 1;
          case r of
            None \<Rightarrow> Some (cs, - 1)
          | Some i \<Rightarrow> do {
              dev \<leftarrow> dev_at l (ListGetPtrToItem l i);
              if dflags dev AND flag \<noteq> 0 then console_setfile calls drv file (Some (ListGetPtrToItem l i)) cs
              else Some (cs, - 1)
            }
        })"

text \<open>\<open>search_device\<close>: the loop leaves \<open>dev\<close> at the last device looked at.\<close>

fun search_loop :: "clist \<Rightarrow> u32 \<Rightarrow> string \<Rightarrow> nat \<Rightarrow> int \<Rightarrow> int option \<Rightarrow> int option option" where
  "search_loop l flags name 0 i dev = Some dev"
| "search_loop l flags name (Suc k) i dev =
     do {
       let p = ListGetPtrToItem l i;
       d \<leftarrow> dev_at l p;
       if dflags d AND flags \<noteq> 0 \<and> name = dev_name d then Some (Some p) else search_loop l flags name k (i + 1) (Some p)
     }"

definition search_device :: "'w console_state \<Rightarrow> u32 \<Rightarrow> string option \<Rightarrow> int option option" where
  "search_device cs flags name =
     do {
       l \<leftarrow> devlist cs;
       case name of None \<Rightarrow> Some None | Some name \<Rightarrow> search_loop l flags name (nat (ListNumItems l)) 1 None
     }"

subsection \<open>Characters and strings\<close>

definition stdio_dev :: "'w console_state \<Rightarrow> int \<Rightarrow> device option" where
  "stdio_dev cs file =
     (if 0 \<le> file \<and> nat file < length (stdio_devices cs)
      then do { l \<leftarrow> devlist cs; p \<leftarrow> stdio_devices cs ! nat file; dev_at l p }
      else None)"

definition fgetc :: "'w dev_calls \<Rightarrow> int \<Rightarrow> 'w console_state \<Rightarrow> (int \<times> 'w console_state) option" where
  "fgetc calls file cs =
     (if file < MAX_FILES
      then do { d \<leftarrow> stdio_dev cs file; let (c, w) = call_getc calls (dgetc d) (world cs); Some (c, cs\<lparr>world := w\<rparr>) }
      else Some (- 1, cs))"

definition ftstc :: "'w dev_calls \<Rightarrow> int \<Rightarrow> 'w console_state \<Rightarrow> (int \<times> 'w console_state) option" where
  "ftstc calls file cs =
     (if file < MAX_FILES
      then do { d \<leftarrow> stdio_dev cs file; let (c, w) = call_tstc calls (dtstc d) (world cs); Some (c, cs\<lparr>world := w\<rparr>) }
      else Some (- 1, cs))"

definition fputc :: "'w dev_calls \<Rightarrow> int \<Rightarrow> char \<Rightarrow> 'w console_state \<Rightarrow> 'w console_state option" where
  "fputc calls file c cs =
     (if file < MAX_FILES
      then do { d \<leftarrow> stdio_dev cs file; Some (cs\<lparr>world := call_putc calls (dputc d) c (world cs)\<rparr>) }
      else Some cs)"

definition fputs :: "'w dev_calls \<Rightarrow> int \<Rightarrow> string \<Rightarrow> 'w console_state \<Rightarrow> 'w console_state option" where
  "fputs calls file s cs =
     (if file < MAX_FILES
      then do { d \<leftarrow> stdio_dev cs file; Some (cs\<lparr>world := call_puts calls (dputs d) s (world cs)\<rparr>) }
      else Some cs)"

definition con_getc :: "'w dev_calls \<Rightarrow> serial_drv \<Rightarrow> 'w console_state \<Rightarrow> (int \<times> 'w console_state) option" where
  "con_getc calls drv cs =
     (if gd_flags cs AND GD_FLG_DEVINIT \<noteq> 0 then fgetc calls 0 cs
      else (let (c, w) = call_getc calls (serial_getc drv) (world cs) in Some (c, cs\<lparr>world := w\<rparr>)))"

definition con_tstc :: "'w dev_calls \<Rightarrow> serial_drv \<Rightarrow> 'w console_state \<Rightarrow> (int \<times> 'w console_state) option" where
  "con_tstc calls drv cs =
     (if gd_flags cs AND GD_FLG_DEVINIT \<noteq> 0 then ftstc calls 0 cs
      else (let (c, w) = call_tstc calls (serial_tstc drv) (world cs) in Some (c, cs\<lparr>world := w\<rparr>)))"

definition con_putc :: "'w dev_calls \<Rightarrow> serial_drv \<Rightarrow> char \<Rightarrow> 'w console_state \<Rightarrow> 'w console_state option" where
  "con_putc calls drv c cs =
     (if gd_flags cs AND GD_FLG_DEVINIT \<noteq> 0 then fputc calls 1 c cs
      else Some (cs\<lparr>world := call_putc calls (serial_putc drv) c (world cs)\<rparr>))"

definition con_puts :: "'w dev_calls \<Rightarrow> serial_drv \<Rightarrow> string \<Rightarrow> 'w console_state \<Rightarrow> 'w console_state option" where
  "con_puts calls drv s cs =
     (if gd_flags cs AND GD_FLG_DEVINIT \<noteq> 0 then fputs calls 1 s cs
      else Some (cs\<lparr>world := call_puts calls (serial_puts drv) s (world cs)\<rparr>))"

text \<open>\<open>printf\<close> formats into a buffer of \<open>CFG_PBSIZE = CFG_CBSIZE + sizeof (CFG_PROMPT) + 16\<close> bytes; output that does
  not fit with its NUL is written past the end (\<open>None\<close>).\<close>

definition CFG_PBSIZE :: nat where "CFG_PBSIZE = 256 + 10 + 16"

definition con_printf :: "'w dev_calls \<Rightarrow> serial_drv \<Rightarrow> string \<Rightarrow> varg list \<Rightarrow> 'w console_state \<Rightarrow> 'w console_state option" where
  "con_printf calls drv fmt args cs =
     do {
       (s, _) \<leftarrow> vsprintf fmt args;
       if length s < CFG_PBSIZE then con_puts calls drv (takeWhile (\<lambda>c. c \<noteq> NUL) s) cs else None
     }"

subsection \<open>Control-C\<close>

definition ctrlc :: "'w dev_calls \<Rightarrow> serial_drv \<Rightarrow> 'w console_state \<Rightarrow> (bool \<times> 'w console_state) option" where
  "ctrlc calls drv cs =
     (if ctrlc_disabled cs = 0 \<and> have_console cs
      then do {
        (t, cs) \<leftarrow> con_tstc calls drv cs;
        if t \<noteq> 0
        then do {
          (c, cs) \<leftarrow> con_getc calls drv cs;
          if c = 3 then Some (True, cs\<lparr>ctrlc_was_pressed := 1\<rparr>) else Some (False, cs)
        }
        else Some (False, cs)
      }
      else Some (False, cs))"

definition disable_ctrlc :: "int \<Rightarrow> 'w console_state \<Rightarrow> int \<times> 'w console_state" where
  "disable_ctrlc disable cs = (ctrlc_disabled cs, cs\<lparr>ctrlc_disabled := disable\<rparr>)"

definition had_ctrlc :: "'w console_state \<Rightarrow> int" where "had_ctrlc cs = ctrlc_was_pressed cs"

definition clear_ctrlc :: "'w console_state \<Rightarrow> 'w console_state" where
  "clear_ctrlc cs = cs\<lparr>ctrlc_was_pressed := 0\<rparr>"

subsection \<open>Start-up\<close>

definition console_init_f :: "'w console_state \<Rightarrow> 'w console_state \<times> int" where
  "console_init_f cs = (cs\<lparr>have_console := True\<rparr>, 0)"

text \<open>The scan for the first input and the first output device.\<close>

fun scan_devs :: "clist \<Rightarrow> nat \<Rightarrow> int \<Rightarrow> int option \<Rightarrow> int option \<Rightarrow> (int option \<times> int option) option" where
  "scan_devs l 0 i inputdev outputdev = Some (inputdev, outputdev)"
| "scan_devs l (Suc k) i inputdev outputdev =
     (if inputdev = None \<or> outputdev = None
      then do {
        let dev = ListGetPtrToItem l i;
        d \<leftarrow> dev_at l dev;
        scan_devs l k (i + 1)
          (if dflags d AND DEV_FLAGS_INPUT \<noteq> 0 \<and> inputdev = None then Some dev else inputdev)
          (if dflags d AND DEV_FLAGS_OUTPUT \<noteq> 0 \<and> outputdev = None then Some dev else outputdev)
      }
      else Some (inputdev, outputdev))"

definition print_file ::
  "'w dev_calls \<Rightarrow> serial_drv \<Rightarrow> string \<Rightarrow> string \<Rightarrow> nat \<Rightarrow> 'w console_state \<Rightarrow> 'w console_state option" where
  "print_file calls drv label kind file cs =
     do {
       cs \<leftarrow> con_puts calls drv label cs;
       if stdio_devices cs ! file = None
       then con_puts calls drv (''No '' @ kind @ '' devices available!'' @ [CHR 10]) cs
       else do { d \<leftarrow> stdio_dev cs (int file); con_puts calls drv (dev_name d @ [CHR 10]) cs }
     }"

text \<open>What \<open>_do_setenv\<close> calls, on this console; \<open>serial_setbrg\<close> changes the device behind it.\<close>

definition console_env :: "'w dev_calls \<Rightarrow> serial_drv \<Rightarrow> ('w \<Rightarrow> 'w) \<Rightarrow> 'w console_state env_calls" where
  "console_env calls drv setbrg =
     \<lparr>env_assign = console_assign calls drv, env_setbrg = (\<lambda>cs. cs\<lparr>world := setbrg (world cs)\<rparr>), env_getc = con_getc calls drv\<rparr>"

definition stdio_names :: "string list" where "stdio_names = [''stdin'', ''stdout'', ''stderr'']"

fun set_stdio_vars :: "'w dev_calls \<Rightarrow> serial_drv \<Rightarrow> ('w \<Rightarrow> 'w) \<Rightarrow> nat list \<Rightarrow> 'w console_state env_state \<Rightarrow> 'w console_state env_state option" where
  "set_stdio_vars calls drv setbrg [] s = Some s"
| "set_stdio_vars calls drv setbrg (i # is) s =
     do {
       d \<leftarrow> stdio_dev (con s) (int i);
       s \<leftarrow> setenv (console_env calls drv setbrg) s (stdio_names ! i) (Some (dev_name d));
       set_stdio_vars calls drv setbrg is s
     }"

text \<open>The assignments of \<open>console_init_r\<close>, then the flag; the results of \<open>console_setfile\<close> are not looked at.\<close>

definition assign_files ::
  "'w dev_calls \<Rightarrow> serial_drv \<Rightarrow> int option \<Rightarrow> int option \<Rightarrow> 'w console_state \<Rightarrow> 'w console_state option" where
  "assign_files calls drv inputdev outputdev cs =
     do {
       cs \<leftarrow> (if outputdev \<noteq> None
              then do {
                (cs, _) \<leftarrow> console_setfile calls drv 1 outputdev cs;
                (cs, _) \<leftarrow> console_setfile calls drv 2 outputdev cs;
                Some cs
              }
              else Some cs);
       cs \<leftarrow> (if inputdev \<noteq> None then map_option fst (console_setfile calls drv 0 inputdev cs) else Some cs);
       Some (cs\<lparr>gd_flags := gd_flags cs OR GD_FLG_DEVINIT\<rparr>)
     }"

text \<open>\<open>quiet\<close> is whether \<open>CFG_CONSOLE_INFO_QUIET\<close> is defined, as it is for this board.\<close>

definition console_init_r ::
  "bool \<Rightarrow> 'w dev_calls \<Rightarrow> serial_drv \<Rightarrow> ('w \<Rightarrow> 'w) \<Rightarrow> 'w console_state env_state \<Rightarrow> ('w console_state env_state \<times> int) option" where
  "console_init_r quiet calls drv setbrg s =
     do {
       l \<leftarrow> devlist (con s);
       (inputdev, outputdev) \<leftarrow> scan_devs l (nat (ListNumItems l)) 1 None None;
       cs \<leftarrow> assign_files calls drv inputdev outputdev (con s);
       cs \<leftarrow> (if quiet then Some cs
              else do {
                cs \<leftarrow> print_file calls drv ''In:    '' ''input'' 0 cs;
                cs \<leftarrow> print_file calls drv ''Out:   '' ''output'' 1 cs;
                print_file calls drv ''Err:   '' ''error'' 2 cs
              });
       s \<leftarrow> set_stdio_vars calls drv setbrg [0, 1, 2] (s\<lparr>con := cs\<rparr>);
       Some (s, 0)
     }"

subsection \<open>Lemmas\<close>

text \<open>A console over a table of devices: what \<open>devices_init\<close> sets up.\<close>

definition con_ok :: "'w console_state \<Rightarrow> clist \<Rightarrow> device list \<Rightarrow> bool" where
  "con_ok cs l ds \<longleftrightarrow> devlist cs = Some l \<and> devs_rep l ds \<and> length (stdio_devices cs) = 3"

definition dev_ptr :: "nat \<Rightarrow> int" where "dev_ptr i = int i * sizeof_device_t"

lemma ptr_rep: "devs_rep l ds \<Longrightarrow> ListGetPtrToItem l (int i + 1) = dev_ptr i"
  by (simp add: ListGetPtrToItem_pos dev_ptr_def devs_rep_def)

lemma dev_at_ptr: "devs_rep l ds \<Longrightarrow> i < length ds \<Longrightarrow> dev_at l (dev_ptr i) = Some (ds ! i)"
  using dev_at_rep ptr_rep by metis

text \<open>Starting a device: nothing when it has no start function.\<close>

definition start_dev :: "'w dev_calls \<Rightarrow> device \<Rightarrow> 'w \<Rightarrow> int \<times> 'w" where
  "start_dev calls d w = (if dstart d \<noteq> 0 then call_start calls (dstart d) w else (0, w))"

lemma console_setfile_rep:
  assumes "con_ok cs l ds" "i < length ds" "file \<le> 2"
  shows "console_setfile calls drv file (Some (dev_ptr i)) cs =
    Some (case start_dev calls (ds ! i) (world cs) of (e, w) \<Rightarrow>
      if e < 0 then (cs\<lparr>world := w\<rparr>, e)
      else (cs\<lparr>world := w, stdio_devices := (stdio_devices cs)[file := Some (dev_ptr i)], jt := set_jt drv file (ds ! i) (jt cs)\<rparr>, e))"
  using assms dev_at_ptr [of l ds i]
  by (auto simp: console_setfile_def con_ok_def start_dev_def split: prod.splits)

lemma console_assign_rep:
  assumes ok: "con_ok cs l ds" and flag: "file_flag file = Some flag"
  shows "console_assign calls drv file devname cs =
    (case first_index (\<lambda>d. devname = dev_name d) ds of
       None \<Rightarrow> Some (cs, - 1)
     | Some i \<Rightarrow> if dflags (ds ! i) AND flag \<noteq> 0 then console_setfile calls drv file (Some (dev_ptr i)) cs else Some (cs, - 1))"
proof -
  have l: "devlist cs = Some l" "devs_rep l ds" using ok by (simp_all add: con_ok_def)
  show ?thesis
    using find_dev_all [OF l(2), of "\<lambda>d. devname = dev_name d"] l flag dev_at_ptr [OF l(2)] first_index_Some [of "\<lambda>d. devname = dev_name d" ds]
    by (auto simp: console_assign_def ptr_rep [OF l(2)] split: option.splits)
qed

lemma search_loop_none:
  assumes "devs_rep l ds" "\<forall>d\<in>set ds. dflags d AND flags = 0 \<or> name \<noteq> dev_name d" "i < length ds"
  shows "search_loop l flags name (length ds - i) (int i + 1) dev = Some (Some (dev_ptr (length ds - 1)))"
  using assms(3)
proof (induction "length ds - i" arbitrary: i dev)
  case (Suc k)
  have d: "dev_at l (ListGetPtrToItem l (int i + 1)) = Some (ds ! i)" using assms(1) Suc.prems by (rule dev_at_rep)
  have no: "dflags (ds ! i) AND flags = 0 \<or> name \<noteq> dev_name (ds ! i)" using assms(2) Suc.prems by simp
  have "search_loop l flags name (Suc k) (int i + 1) dev = search_loop l flags name k (int i + 1 + 1) (Some (dev_ptr i))"
    using d no by (auto simp: ptr_rep [OF assms(1)])
  also have "\<dots> = Some (Some (dev_ptr (length ds - 1)))"
  proof (cases k)
    case 0
    with Suc.hyps(2) have "i = length ds - 1" by simp
    with 0 show ?thesis by simp
  next
    case (Suc k')
    have k: "k = length ds - Suc i" using Suc.hyps(2) by simp
    have "Suc i < length ds" using k Suc by simp
    from Suc.hyps(1) [OF k this] k show ?thesis by (simp add: add.commute)
  qed
  finally show ?case unfolding Suc.hyps(2) .
qed simp

lemma search_device_falls_through:
  assumes "con_ok cs l ds" "ds \<noteq> []" "\<forall>d\<in>set ds. dflags d AND flags = 0 \<or> name \<noteq> dev_name d"
  shows "search_device cs flags (Some name) = Some (Some (dev_ptr (length ds - 1)))"
  using assms search_loop_none [of l ds flags name 0] devs_rep_num [of l ds] by (simp add: con_ok_def search_device_def)

text \<open>Setting a variable when \<open>console_assign\<close> would keep the console as it is.\<close>

lemma env_crc_update_con [simp]: "con (env_crc_update s) = con s"
  by (simp add: env_crc_update_def split_beta Let_def)

lemma set_env_block_con [simp]: "con (set_env_block d s) = con s"
  by (simp add: set_env_block_def)

lemma update_cached_con [simp]: "con (update_cached s n v) = con s"
  by (simp add: update_cached_def)

lemma console_file_lt: "console_file n = Some f \<Longrightarrow> f < 3"
  by (auto simp: console_file_def split: if_splits)

lemma check_overwrite_con:
  assumes "\<And>f. f < 3 \<Longrightarrow> env_assign ca f v (con s) = Some (con s, 0)" "name \<noteq> ''baudrate''" "check_overwrite ca s name [Some v] = Some r"
  shows "case r of Inl s' \<Rightarrow> con s' = con s | Inr s' \<Rightarrow> con s' = con s"
proof (cases "console_file name")
  case None then show ?thesis using assms(2, 3) by (auto simp: check_overwrite_def Let_def split: if_splits)
next
  case (Some f)
  then have "env_assign ca f v (con s) = Some (con s, 0)" using assms(1) console_file_lt by blast
  with Some show ?thesis using assms(2, 3) by (auto simp: check_overwrite_def Let_def split: if_splits)
qed

lemma setenv_con:
  assumes ca: "\<And>f. f < 3 \<Longrightarrow> env_assign ca f v (con s) = Some (con s, 0)" and nb: "name \<noteq> ''baudrate''" and r: "do_setenv_raw ca s name [Some v] = Some (s', rc)"
  shows "con s' = con s"
proof -
  obtain q where q: "remove_old ca s name [Some v] = Some q" using r by (auto simp: do_setenv_raw_def bind_eq_Some_conv)
  have "case q of Inl s' \<Rightarrow> con s' = con s | Inr s' \<Rightarrow> con s' = con s"
  proof -
    from q obtain env nxt oldval where f: "find_var (env_block s) name 0 0 (- 1) = Some (env, nxt, oldval)"
      by (auto simp: remove_old_def bind_eq_Some_conv)
    show ?thesis
    proof (cases "oldval < 0")
      case True with q f show ?thesis by (auto simp: remove_old_def)
    next
      case False
      with q f obtain c where c: "check_overwrite ca s name [Some v] = Some c" by (auto simp: remove_old_def bind_eq_Some_conv)
      with check_overwrite_con [OF ca nb c] q f False show ?thesis
        by (cases c) (auto simp: remove_old_def bind_eq_Some_conv)
    qed
  qed
  then show ?thesis
  proof (cases q)
    case (Inr b)
    with r q obtain a where a: "append_var (env_block b) name [v] = Some a" by (auto simp: do_setenv_raw_def bind_eq_Some_conv)
    show ?thesis using r q Inr a \<open>case q of Inl s' \<Rightarrow> con s' = con s | Inr s' \<Rightarrow> con s' = con s\<close>
      by (cases a) (auto simp: do_setenv_raw_def)
  qed (use r q in \<open>auto simp: do_setenv_raw_def\<close>)
qed

lemma setenv_stdio:
  assumes "\<And>f. f < 3 \<Longrightarrow> env_assign ca f v (con s) = Some (con s, 0)" "env_ok s vs" "n \<in> {''stdin'', ''stdout'', ''stderr''}" "value_ok v"
  shows "\<exists>s'. setenv ca s n (Some v) = Some s' \<and> con s' = con s \<and> is_env s'"
proof -
  have nm: "name_ok n" using assms(3) by (auto simp: name_ok_def NUL_def)
  have may: "may_overwrite ca s n (map Some [v]) vs"
    using assms(1) [of 0] assms(1) [of 1] assms(1) [of 2] assms(3) by (auto simp: may_overwrite_def console_file_def)
  have "\<exists>s' rc. do_setenv_raw ca s n [Some v] = Some (s', rc) \<and> is_env s'"
    using setenv_refines [OF assms(2) nm may] assms(4)
    by (cases "length (enc (without n vs)) + length (n @ join_vals True [v]) + 2 \<le> ENV_SIZE") (auto simp: value_ok_def is_env_def)
  then obtain s' rc where s': "do_setenv_raw ca s n [Some v] = Some (s', rc)" "is_env s'" by blast
  moreover have "n \<noteq> ''baudrate''" using assms(3) by auto
  ultimately show ?thesis using setenv_con [OF assms(1) _ s'(1)] s' by (auto simp: setenv_def)
qed

lemma scan_serial:
  assumes "devs_rep l [serial_dev drv]"
  shows "scan_devs l (nat (ListNumItems l)) 1 None None = Some (Some (dev_ptr 0), Some (dev_ptr 0))"
proof -
  have "ListNumItems l = 1" using devs_rep_num [OF assms] by simp
  then show ?thesis
    using dev_at_ptr [OF assms, of 0] ptr_rep [OF assms, of 0]
    by (simp add: serial_dev_def DEV_FLAGS_INPUT_def DEV_FLAGS_OUTPUT_def DEV_FLAGS_SYSTEM_def Let_def)
qed

text \<open>The console after start-up: every file on the serial device.\<close>

definition serial_console :: "serial_drv \<Rightarrow> 'w console_state \<Rightarrow> bool" where
  "serial_console drv cs \<longleftrightarrow> stdio_devices cs = replicate 3 (Some (dev_ptr 0)) \<and> gd_flags cs AND GD_FLG_DEVINIT \<noteq> 0 \<and>
     set_jt drv 1 (serial_dev drv) (set_jt drv 0 (serial_dev drv) (jt cs)) = jt cs"

lemma devinit_nonzero [simp]: "GD_FLG_DEVINIT \<noteq> 0" by (simp add: GD_FLG_DEVINIT_def)

lemma devinit_flag: "(x OR GD_FLG_DEVINIT) AND GD_FLG_DEVINIT \<noteq> 0"
proof -
  have "(x OR GD_FLG_DEVINIT) AND GD_FLG_DEVINIT = GD_FLG_DEVINIT" by (rule bit_word_eqI) (auto simp: bit_simps)
  then show ?thesis by simp
qed

lemma assign_files_serial:
  assumes "con_ok cs l [serial_dev drv]"
  shows "\<exists>cs'. assign_files calls drv (Some (dev_ptr 0)) (Some (dev_ptr 0)) cs = Some cs' \<and> con_ok cs' l [serial_dev drv] \<and>
    serial_console drv cs' \<and> world cs' = world cs"
proof -
  obtain a b c where st: "stdio_devices cs = [a, b, c]"
    using assms by (auto simp: con_ok_def numeral_3_eq_3 length_Suc_conv)
  have "start_dev calls (serial_dev drv) w = (0, w)" for w by (simp add: start_dev_def serial_dev_def)
  note set = console_setfile_rep [where i = 0 and ds = "[serial_dev drv]" and l = l and calls = calls and drv = drv, simplified, unfolded this]
  define c1 where "c1 = cs\<lparr>stdio_devices := [a, Some (dev_ptr 0), c], jt := set_jt drv 1 (serial_dev drv) (jt cs)\<rparr>"
  define c2 where "c2 = c1\<lparr>stdio_devices := [a, Some (dev_ptr 0), Some (dev_ptr 0)]\<rparr>"
  define c3 where "c3 = c2\<lparr>stdio_devices := replicate 3 (Some (dev_ptr 0)), jt := set_jt drv 0 (serial_dev drv) (jt c2)\<rparr>"
  have ok: "con_ok c1 l [serial_dev drv]" "con_ok c2 l [serial_dev drv]" "con_ok c3 l [serial_dev drv]"
    using assms by (simp_all add: con_ok_def c1_def c2_def c3_def)
  have "console_setfile calls drv 1 (Some (dev_ptr 0)) cs = Some (c1, 0)" using set [OF assms] st by (simp add: c1_def)
  moreover have "console_setfile calls drv 2 (Some (dev_ptr 0)) c1 = Some (c2, 0)"
    using set [OF ok(1)] by (simp add: c1_def c2_def set_jt_def numeral_2_eq_2)
  moreover have "console_setfile calls drv 0 (Some (dev_ptr 0)) c2 = Some (c3, 0)"
    using set [OF ok(2)] by (simp add: c1_def c2_def c3_def numeral_3_eq_3)
  ultimately have "assign_files calls drv (Some (dev_ptr 0)) (Some (dev_ptr 0)) cs = Some (c3\<lparr>gd_flags := gd_flags c3 OR GD_FLG_DEVINIT\<rparr>)"
    by (simp add: assign_files_def)
  moreover have "serial_console drv (c3\<lparr>gd_flags := gd_flags c3 OR GD_FLG_DEVINIT\<rparr>)"
    by (auto simp: serial_console_def c3_def c2_def c1_def devinit_flag set_jt_def XF_getc_def XF_tstc_def XF_putc_def XF_puts_def XF_printf_def)
  ultimately show ?thesis using ok(3) by (simp add: con_ok_def c1_def c2_def c3_def)
qed

lemma serial_stdio_dev:
  assumes "con_ok cs l [serial_dev drv]" "serial_console drv cs" "f < 3"
  shows "stdio_dev cs (int f) = Some (serial_dev drv)"
  using assms dev_at_ptr [of l "[serial_dev drv]" 0]
  by (simp add: stdio_dev_def con_ok_def serial_console_def)

lemma serial_puts:
  assumes "con_ok cs l [serial_dev drv]" "serial_console drv cs"
  shows "con_puts calls drv t cs = Some (cs\<lparr>world := call_puts calls (serial_puts drv) t (world cs)\<rparr>)"
  using assms serial_stdio_dev [OF assms, of 1] by (simp add: con_puts_def fputs_def serial_console_def MAX_FILES_def serial_dev_def)

lemma con_ok_world [simp]: "con_ok (cs\<lparr>world := w\<rparr>) l ds \<longleftrightarrow> con_ok cs l ds" by (simp add: con_ok_def)
lemma serial_console_world [simp]: "serial_console drv (cs\<lparr>world := w\<rparr>) \<longleftrightarrow> serial_console drv cs" by (simp add: serial_console_def)

lemma serial_print_file:
  assumes "con_ok cs l [serial_dev drv]" "serial_console drv cs" "f < 3"
  shows "print_file calls drv label kind f cs =
    Some (cs\<lparr>world := call_puts calls (serial_puts drv) (''serial'' @ [CHR 10]) (call_puts calls (serial_puts drv) label (world cs))\<rparr>)"
proof -
  have "stdio_devices cs ! f = Some (dev_ptr 0)" using assms(2, 3) by (simp add: serial_console_def)
  then show ?thesis
    using assms serial_stdio_dev [of "cs\<lparr>world := w\<rparr>" l drv f for w]
    by (simp add: print_file_def serial_puts serial_dev_ok)
qed

lemma serial_assign_keeps:
  assumes "con_ok cs l [serial_dev drv]" "serial_console drv cs" "f < 3"
  shows "console_assign calls drv f ''serial'' cs = Some (cs, 0)"
proof -
  have fl: "\<exists>flag. file_flag f = Some flag \<and> dflags (serial_dev drv) AND flag \<noteq> 0"
    using assms(3) by (auto simp: file_flag_def serial_dev_def DEV_FLAGS_INPUT_def DEV_FLAGS_OUTPUT_def DEV_FLAGS_SYSTEM_def)
  have start: "start_dev calls (serial_dev drv) w = (0, w)" for w by (simp add: start_dev_def serial_dev_def)
  have "(stdio_devices cs)[f := Some (dev_ptr 0)] = stdio_devices cs"
    using assms(2, 3) by (intro list_update_same_conv [THEN iffD2]) (simp_all add: serial_console_def)
  moreover have "set_jt drv f (serial_dev drv) (jt cs) = jt cs"
  proof -
    have j: "set_jt drv 1 (serial_dev drv) (set_jt drv 0 (serial_dev drv) (jt cs)) = jt cs" using assms(2) by (simp add: serial_console_def)
    have "set_jt drv 1 (serial_dev drv) (jt cs) = jt cs" by (subst (1 2) j [symmetric]) (auto simp: set_jt_def)
    moreover have "set_jt drv 0 (serial_dev drv) (jt cs) = jt cs"
      by (subst (1 2) j [symmetric]) (auto simp: set_jt_def XF_getc_def XF_tstc_def XF_putc_def XF_puts_def XF_printf_def)
    ultimately show ?thesis using assms(3) by (auto simp: less_Suc_eq numeral_3_eq_3 set_jt_def)
  qed
  ultimately show ?thesis
    using console_setfile_rep [OF assms(1), of 0 f calls drv] console_assign_rep [OF assms(1)] assms(3) fl
    by (auto simp: start serial_dev_ok)
qed

lemma set_stdio_vars_serial:
  assumes "con_ok (con s) l [serial_dev drv]" "serial_console drv (con s)" "is_env s" "\<forall>i\<in>set is. i < 3"
  shows "\<exists>s'. set_stdio_vars calls drv setbrg is s = Some s' \<and> con s' = con s \<and> is_env s'"
  using assms
proof (induction "is" arbitrary: s)
  case (Cons i "is")
  obtain vs where vs: "env_ok s vs" using Cons.prems(3) by (auto simp: is_env_def)
  have i: "i < 3" using Cons.prems(4) by simp
  have keep: "env_assign (console_env calls drv setbrg) f ''serial'' (con s) = Some (con s, 0)" if "f < 3" for f
    using serial_assign_keeps [OF Cons.prems(1, 2) that] by (simp add: console_env_def)
  have "stdio_names ! i \<in> {''stdin'', ''stdout'', ''stderr''}" using i by (auto simp: stdio_names_def less_Suc_eq numeral_3_eq_3)
  then obtain s1 where s1: "setenv (console_env calls drv setbrg) s (stdio_names ! i) (Some ''serial'') = Some s1" "con s1 = con s" "is_env s1"
    using setenv_stdio [of "console_env calls drv setbrg" "''serial''" s vs "stdio_names ! i"] vs keep by (auto simp: value_ok_def NUL_def)
  then obtain s' where "set_stdio_vars calls drv setbrg is s1 = Some s'" "con s' = con s1" "is_env s'"
    using Cons.IH [of s1] Cons.prems by auto
  with s1 show ?case
    using serial_stdio_dev [OF Cons.prems(1, 2) i] by (simp add: serial_dev_ok)
qed simp

subsection \<open>Properties\<close>

text \<open>What \<open>console_assign\<close> does on every branch. Standard files only; the first device of that name
  decides; it must be able to do input for \<open>stdin\<close>, output for the others; it is started when it has a start
  function, and a failing start leaves the assignment alone; otherwise the file and the exported jump table
  entries switch to the device. It never faults on a well-formed table.\<close>

theorem console_assign_spec:
  assumes "con_ok cs l ds"
  shows "console_assign calls drv file devname cs = Some (
    if file > 2 then (cs, - 1)
    else case first_index (\<lambda>d. devname = dev_name d) ds of
      None \<Rightarrow> (cs, - 1)
    | Some i \<Rightarrow>
        if dflags (ds ! i) AND (if file = 0 then DEV_FLAGS_INPUT else DEV_FLAGS_OUTPUT) = 0 then (cs, - 1)
        else case start_dev calls (ds ! i) (world cs) of (e, w) \<Rightarrow>
          if e < 0 then (cs\<lparr>world := w\<rparr>, e)
          else (cs\<lparr>world := w, stdio_devices := (stdio_devices cs)[file := Some (dev_ptr i)],
                   jt := set_jt drv file (ds ! i) (jt cs)\<rparr>, e))"
proof (cases "file > 2")
  case True then show ?thesis by (simp add: console_assign_def file_flag_def)
next
  case False
  then have "file_flag file = Some (if file = 0 then DEV_FLAGS_INPUT else DEV_FLAGS_OUTPUT)"
    by (auto simp: file_flag_def)
  from console_assign_rep [OF assms this] False show ?thesis
    using first_index_Some [of "\<lambda>d. devname = dev_name d" ds] console_setfile_rep [OF assms, of _ "file" calls drv]
    by (auto split: option.splits)
qed

definition demo_calls :: "string dev_calls" where
  "demo_calls = \<lparr>call_start = (\<lambda>_ w. (- 1, w)), call_putc = (\<lambda>_ c w. w @ [c]), call_puts = (\<lambda>_ s w. w @ s),
     call_getc = (\<lambda>_ w. (0, w)), call_tstc = (\<lambda>_ w. (0, w))\<rparr>"

definition demo_console :: "clist \<Rightarrow> string console_state" where
  "demo_console l = \<lparr>devlist = Some l, stdio_devices = [None, None, None], jt = (\<lambda>_. 0), gd_flags = 0, have_console = True,
     ctrlc_disabled = 0, ctrlc_was_pressed = 0, world = []\<rparr>"

theorem console_assign_spec_witness:
  "\<exists>cs. console_assign demo_calls demo_drv 1 ''nulldev'' (demo_console two_devs) = Some (cs, 0) \<and>
    stdio_devices cs = [None, Some 52, None] \<and> jt cs XF_puts = 0x200"
proof -
  have ok: "con_ok (demo_console two_devs) two_devs [serial_dev demo_drv, null_dev]"
    using two_devs_rep by (simp add: con_ok_def demo_console_def)
  have d: "dflags null_dev AND DEV_FLAGS_OUTPUT \<noteq> 0" "dstart null_dev = 0" "dputs null_dev = 0x200"
    by (simp_all add: null_dev_def serial_dev_def demo_drv_def DEV_FLAGS_INPUT_def DEV_FLAGS_OUTPUT_def DEV_FLAGS_SYSTEM_def)
  show ?thesis
    using console_assign_spec [OF ok, of demo_calls demo_drv 1 "''nulldev''"] d
    by (simp add: serial_dev_ok null_dev_ok start_dev_def demo_console_def dev_ptr_def sizeof_device_t_def set_jt_def
        XF_printf_def XF_puts_def XF_putc_def)
qed

text \<open>C29: The console comes up: after \<open>devices_init\<close>, \<open>console_init_r\<close> assigns all three files to the serial
  device, whatever the environment holds, prints the three names through it unless built quiet, keeps the environment well-formed,
  faults nowhere, and from then on output and input go to the serial functions.\<close>

theorem console_comes_up:
  assumes "\<And>n. mem_ok n" "devices_init True mem_ok drv = Some (Inr l)" "devlist (con s) = Some l"
    and "length (stdio_devices (con s)) = 3" "is_env s"
  shows "\<exists>s'. console_init_r quiet calls drv setbrg s = Some (s', 0) \<and> serial_console drv (con s') \<and> is_env s' \<and>
    world (con s') = (if quiet then world (con s) else fold (call_puts calls (serial_puts drv))
      [''In:    '', ''serial'' @ [CHR 10], ''Out:   '', ''serial'' @ [CHR 10], ''Err:   '', ''serial'' @ [CHR 10]] (world (con s))) \<and>
    con_putc calls drv c (con s') = Some ((con s')\<lparr>world := call_putc calls (serial_putc drv) c (world (con s'))\<rparr>)"
proof -
  have rep: "devs_rep l [serial_dev drv]" using devices_init_rep [of mem_ok drv] assms(1, 2) by auto
  have ok: "con_ok (con s) l [serial_dev drv]" using rep assms(3, 4) by (simp add: con_ok_def)
  obtain cs where cs: "assign_files calls drv (Some (dev_ptr 0)) (Some (dev_ptr 0)) (con s) = Some cs"
    "con_ok cs l [serial_dev drv]" "serial_console drv cs" "world cs = world (con s)"
    using assign_files_serial [OF ok] by blast
  define w where "w = (if quiet then world cs else fold (call_puts calls (serial_puts drv))
      [''In:    '', ''serial'' @ [CHR 10], ''Out:   '', ''serial'' @ [CHR 10], ''Err:   '', ''serial'' @ [CHR 10]] (world cs))"
  let ?s = "s\<lparr>con := cs\<lparr>world := w\<rparr>\<rparr>"
  have env: "is_env ?s" using assms(5) by (simp add: is_env_def env_ok_def)
  obtain s' where s': "set_stdio_vars calls drv setbrg [0, 1, 2] ?s = Some s'" "con s' = cs\<lparr>world := w\<rparr>" "is_env s'"
    using set_stdio_vars_serial [of ?s l drv "[0, 1, 2]" calls setbrg] env cs by auto
  have "console_init_r quiet calls drv setbrg s = Some (s', 0)"
    using assms(3) cs(1-3) cs(4) [symmetric] scan_serial [OF rep] s'(1)
    by (cases quiet) (simp_all add: console_init_r_def serial_print_file w_def del: set_stdio_vars.simps)
  moreover have "con_putc calls drv c (con s') = Some ((con s')\<lparr>world := call_putc calls (serial_putc drv) c (world (con s'))\<rparr>)"
    using cs serial_stdio_dev [of "con s'" l drv 1] s'(2)
    by (simp add: con_putc_def fputc_def MAX_FILES_def serial_dev_def serial_console_def)
  ultimately show ?thesis using s' cs by (auto simp: w_def)
qed

definition demo_env :: "clist \<Rightarrow> string console_state env_state" where
  "demo_env l = \<lparr>hdr_crc = 0, env_data = NUL # NUL # replicate 4090 NUL, default_env = [], env_valid = True,
     gd_baudrate = 115200, bi_enetaddr = [], bi_ip_addr = 0, load_addr = 0, BootFile = [],
     crc_st = \<lparr>crc_table_empty = True, crc_table = []\<rparr>, con = demo_console l\<rparr>"

theorem console_comes_up_witness:
  "\<exists>l s'. devices_init True (\<lambda>_. True) demo_drv = Some (Inr l) \<and>
    console_init_r False demo_calls demo_drv id (demo_env l) = Some (s', 0) \<and>
    world (con s') = ''In:    serial'' @ [CHR 10] @ ''Out:   serial'' @ [CHR 10] @ ''Err:   serial'' @ [CHR 10]"
proof -
  obtain l where l: "devices_init True (\<lambda>_. True) demo_drv = Some (Inr l)"
    using devices_init_rep [of "\<lambda>_. True" demo_drv] by auto
  have "env_ok (demo_env l) []"
    by (simp add: env_ok_def demo_env_def env_repr_def ENV_SIZE_def CFG_ENV_SIZE_def crc_wf_def)
  then have "is_env (demo_env l)" by (auto simp: is_env_def)
  moreover have "devlist (con (demo_env l)) = Some l" "length (stdio_devices (con (demo_env l))) = 3" "world (con (demo_env l)) = []"
    by (simp_all add: demo_env_def demo_console_def)
  ultimately show ?thesis
    using console_comes_up [OF TrueI l, of "demo_env l" False demo_calls id] l by (auto simp: demo_calls_def)
qed

end
