(* ===== verification/Serial.thy ===== *)
theory Serial
  imports Console
begin

text \<open>
  \<open>board/rt2880/serial.c\<close> with \<open>serial.h\<close>, as built for the MT7628: the driver of the console UART. The hardware is
  the parameter \<open>reg_io\<close>, what a read or a write of a 32-bit register does to the hardware's state \<open>'u\<close>. A wait
  for a status bit is a partial function, \<open>None\<close> when it never ends. The locale \<open>uart_line\<close> states what the
  driver relies on of a 16550 in operation; its lemmas are the contract of the serial functions (\<open>tty\<close>), which
  the console and the line editor are proved against.
\<close>

subsection \<open>Registers\<close>

record 'u reg_io =
  reg_read :: "u32 \<Rightarrow> 'u \<Rightarrow> u32 \<times> 'u"
  reg_write :: "u32 \<Rightarrow> u32 \<Rightarrow> 'u \<Rightarrow> 'u"

definition RALINK_SYSCTL_BASE :: u32 where "RALINK_SYSCTL_BASE = 0xB0000000"
definition RALINK_RSTCTRL_REG :: u32 where "RALINK_RSTCTRL_REG = RALINK_SYSCTL_BASE + 0x34"
definition RT2880_GPIOMODE_REG :: u32 where "RT2880_GPIOMODE_REG = RALINK_SYSCTL_BASE + 0x60"
definition CFG_RT2880_CONSOLE :: u32 where "CFG_RT2880_CONSOLE = 0x0E00"

definition RBR :: "u32 \<Rightarrow> u32" where "RBR x = RALINK_SYSCTL_BASE + x + 0x00"
definition TBR :: "u32 \<Rightarrow> u32" where "TBR x = RALINK_SYSCTL_BASE + x + 0x00"
definition IER :: "u32 \<Rightarrow> u32" where "IER x = RALINK_SYSCTL_BASE + x + 0x04"
definition FCR :: "u32 \<Rightarrow> u32" where "FCR x = RALINK_SYSCTL_BASE + x + 0x08"
definition LCR :: "u32 \<Rightarrow> u32" where "LCR x = RALINK_SYSCTL_BASE + x + 0x0C"
definition LSR :: "u32 \<Rightarrow> u32" where "LSR x = RALINK_SYSCTL_BASE + x + 0x14"
definition DLL :: "u32 \<Rightarrow> u32" where "DLL x = RALINK_SYSCTL_BASE + x + 0x00"
definition DLM :: "u32 \<Rightarrow> u32" where "DLM x = RALINK_SYSCTL_BASE + x + 0x04"

definition LSR_TEMT :: u32 where "LSR_TEMT = push_bit 6 1"
definition LSR_DR :: u32 where "LSR_DR = push_bit 0 1"
definition LCR_DLAB :: u32 where "LCR_DLAB = push_bit 7 1"
definition LCR_WLS1 :: u32 where "LCR_WLS1 = push_bit 1 1"
definition LCR_WLS0 :: u32 where "LCR_WLS0 = push_bit 0 1"

subsection \<open>The driver\<close>

definition reg_modify :: "'u reg_io \<Rightarrow> u32 \<Rightarrow> (u32 \<Rightarrow> u32) \<Rightarrow> 'u \<Rightarrow> 'u" where
  "reg_modify io a f u = (let (v, u) = reg_read io a u in reg_write io a (f v) u)"

definition SERIAL_CLOCK_DIVISOR :: u32 where "SERIAL_CLOCK_DIVISOR = 16"
definition CONFIG_BAUDRATE :: u32 where "CONFIG_BAUDRATE = 115200"

definition clock_divisor :: u32 where
  "clock_divisor = 40 * 1000 * 1000 div SERIAL_CLOCK_DIVISOR div CONFIG_BAUDRATE"

definition uart_setbrg :: "'u reg_io \<Rightarrow> 'u \<Rightarrow> 'u" where
  "uart_setbrg io u =
     (let rst = push_bit 19 3 OR push_bit 12 1;
          u = reg_modify io RALINK_RSTCTRL_REG (\<lambda>v. v OR rst) u;
          u = reg_modify io RALINK_RSTCTRL_REG (\<lambda>v. v AND NOT rst) u;
          u = reg_modify io RT2880_GPIOMODE_REG (\<lambda>v. v AND NOT (push_bit 26 3)) u;
          u = reg_write io (IER CFG_RT2880_CONSOLE) 0 u;
          u = reg_write io (FCR CFG_RT2880_CONSOLE) 0 u;
          u = reg_write io (LCR CFG_RT2880_CONSOLE) (LCR_WLS0 OR LCR_WLS1 OR LCR_DLAB) u;
          u = reg_write io (DLL CFG_RT2880_CONSOLE) (clock_divisor AND 0xff) u;
          u = reg_write io (DLM CFG_RT2880_CONSOLE) (drop_bit 8 clock_divisor) u
      in reg_write io (LCR CFG_RT2880_CONSOLE) (LCR_WLS0 OR LCR_WLS1) u)"

definition uart_init :: "'u reg_io \<Rightarrow> 'u \<Rightarrow> 'u \<times> int" where
  "uart_init io u = (uart_setbrg io u, 0)"

partial_function (option) wait_lsr :: "'u reg_io \<Rightarrow> u32 \<Rightarrow> 'u \<Rightarrow> 'u option" where
  "wait_lsr io bits u =
     (case reg_read io (LSR CFG_RT2880_CONSOLE) u of (v, u) \<Rightarrow> if v AND bits = 0 then wait_lsr io bits u else Some u)"

text \<open>The \<open>char\<close> written to the register is sign-extended. \<open>serial_putc\<close> calls itself for the carriage return after
  a newline, once.\<close>

definition uart_send :: "'u reg_io \<Rightarrow> char \<Rightarrow> 'u \<Rightarrow> 'u option" where
  "uart_send io c u =
     map_option (reg_write io (TBR CFG_RT2880_CONSOLE) (signed (of_char c :: u8))) (wait_lsr io LSR_TEMT u)"

definition uart_putc :: "'u reg_io \<Rightarrow> char \<Rightarrow> 'u \<Rightarrow> 'u option" where
  "uart_putc io c u =
     (case uart_send io c u of
        None \<Rightarrow> None
      | Some u \<Rightarrow> if c = CHR 10 then uart_send io (CHR 13) u else Some u)"

fun uart_puts :: "'u reg_io \<Rightarrow> string \<Rightarrow> 'u \<Rightarrow> 'u option" where
  "uart_puts io [] u = Some u"
| "uart_puts io (c # s) u = (case uart_putc io c u of None \<Rightarrow> None | Some u \<Rightarrow> uart_puts io s u)"

definition uart_tstc :: "'u reg_io \<Rightarrow> 'u \<Rightarrow> int \<times> 'u" where
  "uart_tstc io u = (let (v, u) = reg_read io (LSR CFG_RT2880_CONSOLE) u in (sint (v AND LSR_DR), u))"

definition uart_getc :: "'u reg_io \<Rightarrow> 'u \<Rightarrow> (int \<times> 'u) option" where
  "uart_getc io u =
     (case wait_lsr io LSR_DR u of
        None \<Rightarrow> None
      | Some u \<Rightarrow> let (v, u) = reg_read io (RBR CFG_RT2880_CONSOLE) u in Some (sint ((signed (ucast v :: u8) :: u32) AND 0xff), u))"

text \<open>The functions at the addresses the serial device is registered with. A wait that does not end never comes
  back from the call; under the contract below there is none.\<close>

definition returned :: "'u \<Rightarrow> 'u option \<Rightarrow> 'u" where "returned u r = (case r of Some u' \<Rightarrow> u' | None \<Rightarrow> u)"

definition serial_calls :: "'u reg_io \<Rightarrow> serial_drv \<Rightarrow> 'u dev_calls" where
  "serial_calls io drv =
     \<lparr>call_start = (\<lambda>_ u. (0, u)),
      call_putc = (\<lambda>a c u. if a = serial_putc drv then returned u (uart_putc io c u) else u),
      call_puts = (\<lambda>a s u. if a = serial_puts drv then returned u (uart_puts io s u) else u),
      call_getc = (\<lambda>a u. if a = serial_getc drv then (case uart_getc io u of Some r \<Rightarrow> r | None \<Rightarrow> (0, u)) else (0, u)),
      call_tstc = (\<lambda>a u. if a = serial_tstc drv then uart_tstc io u else (0, u))\<rparr>"

subsection \<open>The contracts\<close>

text \<open>A serial line in operation: \<open>pending\<close> is what will still arrive, \<open>sent\<close> what has gone out. Reading the line
  status changes neither; the transmitter empties and the next pending byte arrives after finitely many polls; a
  byte written while the transmitter is empty goes out, and a read of the receive buffer when data is ready takes
  the next byte. (No byte is lost to an overrun: the other side sends no faster than the board reads.)\<close>

locale uart_line =
  fixes io :: "'u reg_io" and pending :: "'u \<Rightarrow> string" and sent :: "'u \<Rightarrow> string" and delay :: "'u \<Rightarrow> nat"
  assumes lsr: "reg_read io (LSR CFG_RT2880_CONSOLE) u = (v, u') \<Longrightarrow> pending u' = pending u \<and> sent u' = sent u"
    and temt: "reg_read io (LSR CFG_RT2880_CONSOLE) u = (v, u') \<Longrightarrow> v AND LSR_TEMT = 0 \<Longrightarrow> delay u' < delay u"
    and dr: "reg_read io (LSR CFG_RT2880_CONSOLE) u = (v, u') \<Longrightarrow> v AND LSR_DR = 0 \<Longrightarrow> pending u \<noteq> [] \<Longrightarrow> delay u' < delay u"
    and tbr: "reg_read io (LSR CFG_RT2880_CONSOLE) u = (v, u') \<Longrightarrow> v AND LSR_TEMT \<noteq> 0 \<Longrightarrow>
      sent (reg_write io (TBR CFG_RT2880_CONSOLE) b u') = sent u' @ [char_of (unat b)] \<and>
      pending (reg_write io (TBR CFG_RT2880_CONSOLE) b u') = pending u'"
    and rbr: "reg_read io (LSR CFG_RT2880_CONSOLE) u = (v, u1) \<Longrightarrow> v AND LSR_DR \<noteq> 0 \<Longrightarrow>
      reg_read io (RBR CFG_RT2880_CONSOLE) u1 = (b, u2) \<Longrightarrow>
      pending u1 = char_of (unat b) # pending u2 \<and> sent u2 = sent u1"

text \<open>What the console relies on of the serial functions. A newline goes out as line feed and carriage return.\<close>

definition wire :: "char \<Rightarrow> string" where "wire c = (if c = CHR 10 then [CHR 10, CHR 13] else [c])"

locale tty =
  fixes calls :: "'u dev_calls" and drv :: serial_drv and pending :: "'u \<Rightarrow> string" and sent :: "'u \<Rightarrow> string"
  assumes putc: "sent (call_putc calls (serial_putc drv) c u) = sent u @ wire c"
    and putc_pending: "pending (call_putc calls (serial_putc drv) c u) = pending u"
    and puts: "sent (call_puts calls (serial_puts drv) s u) = sent u @ concat (map wire s)"
    and puts_pending: "pending (call_puts calls (serial_puts drv) s u) = pending u"
    and getc: "pending u = c # r \<Longrightarrow>
      \<exists>u'. call_getc calls (serial_getc drv) u = (of_char c, u') \<and> pending u' = r \<and> sent u' = sent u"

subsection \<open>The driver keeps the contract\<close>

lemma take_bit_signed_byte: "take_bit 8 (signed (b :: u8) :: u32) = ucast b"
proof (rule bit_word_eqI)
  fix n assume "n < LENGTH(32)"
  moreover have "n < 8 \<Longrightarrow> min 7 n = n" by simp
  ultimately show "bit (take_bit 8 (signed b :: u32)) n \<longleftrightarrow> bit (ucast b :: u32) n"
    using bit_u8_bound [of b n] by (cases "n < 8") (auto simp: bit_simps)
qed

lemma char_of_signed [simp]: "char_of (unat (signed (of_char c :: u8) :: u32)) = c"
proof -
  have "take_bit 8 (unat (signed (of_char c :: u8) :: u32)) = unat (ucast (of_char c :: u8) :: u32)"
    by (simp only: unsigned_take_bit_eq [symmetric] take_bit_signed_byte)
  also have "\<dots> = of_char c" by (simp add: unsigned_ucast_eq take_bit_nat_eq_self order.strict_trans [OF nat_of_char_less_256])
  finally have "char_of (take_bit 8 (unat (signed (of_char c :: u8) :: u32))) = c" by (simp only: char_of_char)
  then show ?thesis by (simp add: char_of_take_bit_eq)
qed

lemma sint_low_byte [simp]: "sint ((signed (b :: u8) :: u32) AND 0xff) = int (unat b)"
proof -
  have "(signed b :: u32) AND 0xff = ucast b"
    using take_bit_signed_byte [of b] by (simp add: take_bit_eq_mask mask_eq_exp_minus_1)
  moreover have "sint (ucast b :: u32) = int (unat b)"
  proof -
    have "uint b < 2 ^ 31" by (rule less_trans [OF uint_lt2p]) simp
    moreover have "- (2 ^ 31) \<le> uint b" by (rule order_trans [OF _ uint_ge_0]) simp
    ultimately have "signed_take_bit 31 (uint b) = uint b" by (simp only: signed_take_bit_int_eq_self)
    then show ?thesis by (simp add: signed_ucast_eq)
  qed
  ultimately show ?thesis by simp
qed

lemma unat_ucast_u8: "unat (ucast (b :: u32) :: u8) = unat b mod 256"
  by (simp add: unsigned_ucast_eq take_bit_eq_mod)

context uart_line
begin

lemma wait_temt:
  "\<exists>u0 v u'. wait_lsr io LSR_TEMT u = Some u' \<and> reg_read io (LSR CFG_RT2880_CONSOLE) u0 = (v, u') \<and> v AND LSR_TEMT \<noteq> 0 \<and>
     pending u' = pending u \<and> sent u' = sent u"
proof (induction "delay u" arbitrary: u rule: less_induct)
  case less
  obtain v u1 where r: "reg_read io (LSR CFG_RT2880_CONSOLE) u = (v, u1)" by fastforce
  note keep = lsr [OF r]
  show ?case
  proof (cases "v AND LSR_TEMT = 0")
    case True
    from less.hyps [OF temt [OF r True]] show ?thesis using r True keep by (subst wait_lsr.simps) simp
  next
    case False
    then have "wait_lsr io LSR_TEMT u = Some u1" using r by (subst wait_lsr.simps) simp
    with r False keep show ?thesis by blast
  qed
qed

lemma wait_dr:
  "pending u \<noteq> [] \<Longrightarrow>
   \<exists>u0 v u'. wait_lsr io LSR_DR u = Some u' \<and> reg_read io (LSR CFG_RT2880_CONSOLE) u0 = (v, u') \<and> v AND LSR_DR \<noteq> 0 \<and>
     pending u' = pending u \<and> sent u' = sent u"
proof (induction "delay u" arbitrary: u rule: less_induct)
  case less
  obtain v u1 where r: "reg_read io (LSR CFG_RT2880_CONSOLE) u = (v, u1)" by fastforce
  note keep = lsr [OF r]
  show ?case
  proof (cases "v AND LSR_DR = 0")
    case True
    from less.hyps [OF dr [OF r True less.prems]] show ?thesis using r True keep less.prems by (subst wait_lsr.simps) simp
  next
    case False
    then have "wait_lsr io LSR_DR u = Some u1" using r by (subst wait_lsr.simps) simp
    with r False keep show ?thesis by blast
  qed
qed

lemma send_sends: "\<exists>u'. uart_send io c u = Some u' \<and> sent u' = sent u @ [c] \<and> pending u' = pending u"
proof -
  obtain u0 v u1 where w: "wait_lsr io LSR_TEMT u = Some u1" "reg_read io (LSR CFG_RT2880_CONSOLE) u0 = (v, u1)"
    "v AND LSR_TEMT \<noteq> 0" "pending u1 = pending u" "sent u1 = sent u" using wait_temt by blast
  from tbr [OF w(2, 3), of "signed (of_char c :: u8)"] show ?thesis by (simp add: uart_send_def w(1, 4, 5))
qed

lemma putc_sends: "\<exists>u'. uart_putc io c u = Some u' \<and> sent u' = sent u @ wire c \<and> pending u' = pending u"
proof -
  obtain u1 where 1: "uart_send io c u = Some u1" "sent u1 = sent u @ [c]" "pending u1 = pending u" using send_sends by blast
  obtain u2 where "uart_send io (CHR 13) u1 = Some u2" "sent u2 = sent u1 @ [CHR 13]" "pending u2 = pending u1" using send_sends by blast
  with 1 show ?thesis by (simp add: uart_putc_def wire_def)
qed

lemma puts_sends: "\<exists>u'. uart_puts io s u = Some u' \<and> sent u' = sent u @ concat (map wire s) \<and> pending u' = pending u"
proof (induction s arbitrary: u)
  case (Cons c s)
  obtain u1 where 1: "uart_putc io c u = Some u1" "sent u1 = sent u @ wire c" "pending u1 = pending u" using putc_sends by blast
  from Cons.IH [of u1] 1 show ?case by auto
qed simp

lemma getc_takes:
  assumes "pending u = c # r"
  shows "\<exists>u'. uart_getc io u = Some (of_char c, u') \<and> pending u' = r \<and> sent u' = sent u"
proof -
  obtain u0 v u1 where w: "wait_lsr io LSR_DR u = Some u1" "reg_read io (LSR CFG_RT2880_CONSOLE) u0 = (v, u1)"
    "v AND LSR_DR \<noteq> 0" "pending u1 = pending u" "sent u1 = sent u" using wait_dr [of u] assms by auto
  obtain b u2 where b: "reg_read io (RBR CFG_RT2880_CONSOLE) u1 = (b, u2)" by fastforce
  from rbr [OF w(2, 3) b] have p: "char_of (unat b) = c" "pending u2 = r" "sent u2 = sent u" using w(4, 5) assms by auto
  have "unat (ucast b :: u8) = of_char c" unfolding p(1) [symmetric] by (simp add: of_char_of unat_ucast_u8)
  then have "int (unat (ucast b :: u8)) = of_char c" by (metis of_nat_of_char)
  then show ?thesis using w(1) b p by (simp add: uart_getc_def)
qed

end

sublocale uart_line < line: tty "serial_calls io drv" drv pending sent for drv
proof
  fix c s u r
  show "sent (call_putc (serial_calls io drv) (serial_putc drv) c u) = sent u @ wire c"
    "pending (call_putc (serial_calls io drv) (serial_putc drv) c u) = pending u"
    using putc_sends [of c u] by (auto simp: serial_calls_def returned_def)
  show "sent (call_puts (serial_calls io drv) (serial_puts drv) s u) = sent u @ concat (map wire s)"
    "pending (call_puts (serial_calls io drv) (serial_puts drv) s u) = pending u"
    using puts_sends [of s u] by (auto simp: serial_calls_def returned_def)
  show "pending u = c # r \<Longrightarrow>
    \<exists>u'. call_getc (serial_calls io drv) (serial_getc drv) u = (of_char c, u') \<and> pending u' = r \<and> sent u' = sent u"
    using getc_takes [of u c r] by (auto simp: serial_calls_def)
qed

context uart_line
begin

lemma serial_tty: "tty (serial_calls io drv) drv pending sent" by (rule line.tty_axioms)

end

text \<open>A 16550 without FIFOs, each byte on its way for a number of polls of the line status.\<close>

record uart16550 =
  rx :: "(nat \<times> char) list"
  tx_left :: nat
  line_out :: string

definition uart_lsr :: "uart16550 \<Rightarrow> u32" where
  "uart_lsr u = (if tx_left u = 0 then LSR_TEMT else 0) OR (if rx u \<noteq> [] \<and> fst (hd (rx u)) = 0 then LSR_DR else 0)"

definition uart_tick :: "uart16550 \<Rightarrow> uart16550" where
  "uart_tick u = u\<lparr>tx_left := tx_left u - 1, rx := (case rx u of [] \<Rightarrow> [] | (k, c) # r \<Rightarrow> (k - 1, c) # r)\<rparr>"

definition uart_io :: "nat \<Rightarrow> uart16550 reg_io" where
  "uart_io t =
     \<lparr>reg_read = (\<lambda>a u.
        if a = LSR CFG_RT2880_CONSOLE then (uart_lsr u, uart_tick u)
        else if a = RBR CFG_RT2880_CONSOLE
        then (case rx u of (0, c) # r \<Rightarrow> (of_char c, u\<lparr>rx := r\<rparr>) | _ \<Rightarrow> (0, u))
        else (0, u)),
      reg_write = (\<lambda>a v u.
        if a = TBR CFG_RT2880_CONSOLE then u\<lparr>line_out := line_out u @ [char_of (unat v)], tx_left := t\<rparr> else u)\<rparr>"

definition uart_delay :: "uart16550 \<Rightarrow> nat" where
  "uart_delay u = tx_left u + (case rx u of [] \<Rightarrow> 0 | (k, c) # r \<Rightarrow> k)"

lemma lsr_bits: "LSR_TEMT = 64" "LSR_DR = 1" by (simp_all add: LSR_TEMT_def LSR_DR_def)

lemma unat_of_char_u32 [simp]: "unat (of_char c :: u32) = of_char c"
proof -
  have eq: "(of_char c :: u32) = of_nat (of_char c)" by (simp add: of_nat_of_char)
  have "of_char c < (256 :: nat)" by (rule nat_of_char_less_256)
  then have "of_char c < (2 :: nat) ^ LENGTH(32)" by (rule order.strict_trans) simp
  with eq show ?thesis by (simp only: unat_of_nat mod_less)
qed

interpretation uart: uart_line "uart_io t" "\<lambda>u. map snd (rx u)" line_out uart_delay for t
proof
  fix u v u' b u1 u2
  have ports: "LSR CFG_RT2880_CONSOLE \<noteq> RBR CFG_RT2880_CONSOLE"
    by (simp add: LSR_def RBR_def CFG_RT2880_CONSOLE_def RALINK_SYSCTL_BASE_def)
  note defs = uart_io_def uart_lsr_def uart_tick_def uart_delay_def lsr_bits ports
  show "reg_read (uart_io t) (LSR CFG_RT2880_CONSOLE) u = (v, u') \<Longrightarrow> map snd (rx u') = map snd (rx u) \<and> line_out u' = line_out u"
    by (auto simp: defs split: list.splits)
  show "reg_read (uart_io t) (LSR CFG_RT2880_CONSOLE) u = (v, u') \<Longrightarrow> v AND LSR_TEMT = 0 \<Longrightarrow> uart_delay u' < uart_delay u"
    by (auto simp: defs split: list.splits if_splits)
  show "reg_read (uart_io t) (LSR CFG_RT2880_CONSOLE) u = (v, u') \<Longrightarrow> v AND LSR_DR = 0 \<Longrightarrow> map snd (rx u) \<noteq> [] \<Longrightarrow>
    uart_delay u' < uart_delay u"
    by (auto simp: defs split: list.splits if_splits)
  show "reg_read (uart_io t) (LSR CFG_RT2880_CONSOLE) u = (v, u') \<Longrightarrow> v AND LSR_TEMT \<noteq> 0 \<Longrightarrow>
    line_out (reg_write (uart_io t) (TBR CFG_RT2880_CONSOLE) b u') = line_out u' @ [char_of (unat b)] \<and>
    map snd (rx (reg_write (uart_io t) (TBR CFG_RT2880_CONSOLE) b u')) = map snd (rx u')"
    by (simp add: uart_io_def)
  show "reg_read (uart_io t) (LSR CFG_RT2880_CONSOLE) u = (v, u1) \<Longrightarrow> v AND LSR_DR \<noteq> 0 \<Longrightarrow>
    reg_read (uart_io t) (RBR CFG_RT2880_CONSOLE) u1 = (b, u2) \<Longrightarrow>
    map snd (rx u1) = char_of (unat b) # map snd (rx u2) \<and> line_out u2 = line_out u1"
    using ports by (cases "rx u") (auto simp: defs split: if_splits)
qed

end
