(* ===== verification/Command.thy ===== *)
theory Command
  imports Console "HOL-Library.Char_ord" "HOL-Library.List_Lexorder" "HOL-Library.Multiset"
begin

text \<open>
  \<open>common/command.c\<close>: the command table and its commands \<open>version\<close>, \<open>echo\<close>, \<open>test\<close>, \<open>exit\<close>, \<open>help\<close>, the
  look-up of a command by an abbreviation of its name, and the completion of a typed line. A command's
  function is an address, called through the parameter \<open>call_cmd\<close> of the shell; the table is a list in link
  order. Strings are C strings without their NUL.
\<close>

subsection \<open>State and output\<close>

type_synonym 'w ub_state = "'w console_state env_state"

record cmd_tbl =
  cmd_name :: string
  maxargs :: int
  repeatable :: int
  cmd_fn :: u32
  cmd_usage :: "string option"
  cmd_help :: "string option"

definition out_puts :: "'w dev_calls \<Rightarrow> serial_drv \<Rightarrow> string \<Rightarrow> 'w ub_state \<Rightarrow> 'w ub_state option" where
  "out_puts calls drv t s = do { c \<leftarrow> con_puts calls drv t (con s); Some (s\<lparr>con := c\<rparr>) }"

definition out_putc :: "'w dev_calls \<Rightarrow> serial_drv \<Rightarrow> char \<Rightarrow> 'w ub_state \<Rightarrow> 'w ub_state option" where
  "out_putc calls drv ch s = do { c \<leftarrow> con_putc calls drv ch (con s); Some (s\<lparr>con := c\<rparr>) }"

definition out_printf :: "'w dev_calls \<Rightarrow> serial_drv \<Rightarrow> string \<Rightarrow> varg list \<Rightarrow> 'w ub_state \<Rightarrow> 'w ub_state option" where
  "out_printf calls drv fmt args s = do { c \<leftarrow> con_printf calls drv fmt args (con s); Some (s\<lparr>con := c\<rparr>) }"

text \<open>\<open>strcmp\<close> of \<open>lib_generic/string.c\<close> on two C strings: the difference is kept in a signed char.\<close>

fun scmp :: "string \<Rightarrow> string \<Rightarrow> int" where
  "scmp [] [] = 0"
| "scmp [] (b # bs) = sint (- (of_char b :: u8))"
| "scmp (a # as) [] = sint (of_char a :: u8)"
| "scmp (a # as) (b # bs) = (if a = b then scmp as bs else sint (of_char a - of_char b :: u8))"

subsection \<open>Looking up a command\<close>

definition cmp_len :: "string \<Rightarrow> nat" where
  "cmp_len cmd = length (takeWhile (\<lambda>c. c \<noteq> CHR ''.'') cmd)"

fun find_cmd_loop :: "string \<Rightarrow> nat \<Rightarrow> cmd_tbl list \<Rightarrow> cmd_tbl option \<Rightarrow> nat \<Rightarrow> cmd_tbl option" where
  "find_cmd_loop cmd len [] cmdtp_temp n_found = (if n_found = 1 then cmdtp_temp else None)"
| "find_cmd_loop cmd len (cmdtp # rest) cmdtp_temp n_found =
     (if take len cmd = take len (cmd_name cmdtp)
      then (if len = length (cmd_name cmdtp) then Some cmdtp
            else find_cmd_loop cmd len rest (Some cmdtp) (n_found + 1))
      else find_cmd_loop cmd len rest cmdtp_temp n_found)"

definition find_cmd :: "cmd_tbl list \<Rightarrow> string \<Rightarrow> cmd_tbl option" where
  "find_cmd tbl cmd = find_cmd_loop cmd (cmp_len cmd) tbl None 0"

subsection \<open>The commands\<close>

definition do_version :: "'w dev_calls \<Rightarrow> serial_drv \<Rightarrow> string \<Rightarrow> 'w ub_state \<Rightarrow> ('w ub_state \<times> int) option" where
  "do_version calls drv version_string s =
     do { s \<leftarrow> out_printf calls drv ([CHR 10] @ ''%s'' @ [CHR 10]) [VStr (Some version_string)] s; Some (s, 0) }"

text \<open>\<open>echo\<close>: the characters put out for one argument, and whether a newline follows.\<close>

fun echo_arg :: "string \<Rightarrow> bool \<Rightarrow> string \<times> bool" where
  "echo_arg [] putnl = ([], putnl)"
| "echo_arg (c # p) putnl =
     (if c = CHR 0x5C \<and> p \<noteq> [] \<and> hd p = CHR ''c'' then echo_arg (tl p) False
      else (let (o', nl) = echo_arg p putnl in (c # o', nl)))"

fun echo_args :: "bool \<Rightarrow> string list \<Rightarrow> bool \<Rightarrow> string \<times> bool" where
  "echo_args first [] putnl = ([], putnl)"
| "echo_args first (a # as) putnl =
     (let (o1, nl) = echo_arg a putnl; (o2, nl) = echo_args False as nl
      in ((if first then [] else '' '') @ o1 @ o2, nl))"

fun put_chars :: "'w dev_calls \<Rightarrow> serial_drv \<Rightarrow> string \<Rightarrow> 'w ub_state \<Rightarrow> 'w ub_state option" where
  "put_chars calls drv [] s = Some s"
| "put_chars calls drv (c # cs) s = do { s \<leftarrow> out_putc calls drv c s; put_chars calls drv cs s }"

definition do_echo :: "'w dev_calls \<Rightarrow> serial_drv \<Rightarrow> string list \<Rightarrow> 'w ub_state \<Rightarrow> ('w ub_state \<times> int) option" where
  "do_echo calls drv argv s =
     (let (o', nl) = echo_args True (tl argv) True
      in do { s \<leftarrow> put_chars calls drv (o' @ (if nl then [CHR 10] else [])) s; Some (s, 0) })"

definition of_cbool :: "bool \<Rightarrow> int" where "of_cbool b = (if b then 1 else 0)"

text \<open>One comparison of \<open>test\<close>; \<open>None\<close> is an unknown operator.\<close>

definition test_rel :: "string \<Rightarrow> string \<Rightarrow> string \<Rightarrow> int option" where
  "test_rel a rel b =
     (let n = (\<lambda>x. sint (fst (simple_strtol x 10))) in
      if rel = ''='' then Some (of_cbool (scmp a b = 0))
      else if rel = ''!='' then Some (of_cbool (scmp a b \<noteq> 0))
      else if rel = ''>'' then Some (of_cbool (scmp a b > 0))
      else if rel = ''<'' then Some (of_cbool (scmp a b < 0))
      else if rel = ''-eq'' then Some (of_cbool (n a = n b))
      else if rel = ''-ne'' then Some (of_cbool (n a \<noteq> n b))
      else if rel = ''-lt'' then Some (of_cbool (n a < n b))
      else if rel = ''-le'' then Some (of_cbool (n a \<le> n b))
      else if rel = ''-gt'' then Some (of_cbool (n a > n b))
      else if rel = ''-ge'' then Some (of_cbool (n a \<ge> n b))
      else None)"

definition test_join :: "int \<Rightarrow> int \<Rightarrow> int \<Rightarrow> int" where
  "test_join last_cmp last_expr expr =
     (if last_cmp = 0 then of_cbool (last_expr \<noteq> 0 \<or> expr \<noteq> 0)
      else if last_cmp = 1 then of_cbool (last_expr \<noteq> 0 \<and> expr \<noteq> 0)
      else expr)"

fun test_loop :: "string list \<Rightarrow> int \<Rightarrow> int \<Rightarrow> int \<Rightarrow> int" where
  "test_loop [] expr last_expr last_cmp = expr"
| "test_loop (op # ap) expr last_expr last_cmp =
     (if op = ''-o'' then test_loop ap expr expr 0
      else if op = ''-a'' then test_loop ap expr expr 1
      else if op = ''-z'' \<or> op = ''-n''
      then (case ap of
              [] \<Rightarrow> 1
            | x # ap \<Rightarrow>
                test_loop ap (test_join last_cmp last_expr
                  (if op = ''-z'' then (if x = [] then 0 else 1) else (if x = [] then 1 else 0))) last_expr (- 1))
      else (case ap of
              rel # b # ap \<Rightarrow>
                (case test_rel op rel b of
                   None \<Rightarrow> 1
                 | Some e \<Rightarrow> test_loop ap (test_join last_cmp last_expr e) last_expr (- 1))
            | _ \<Rightarrow> 1))"

definition do_test :: "string list \<Rightarrow> int" where
  "do_test argv =
     (if length argv < 3 then 1
      else (let ap = tl argv; neg = (hd ap = ''!''); ap = (if neg then tl ap else ap);
                expr = test_loop ap (- 1) (- 1) (- 1);
                expr = (if neg then of_cbool (expr = 0) else expr)
            in of_cbool (expr = 0)))"

definition do_exit :: "string list \<Rightarrow> int" where
  "do_exit argv =
     (let r = (if length argv > 1 then fst (simple_strtoul (argv ! 1) 10) else 0 :: u32)
      in sint (- r - 2 :: u32))"

text \<open>The bubble sort of \<open>help\<close>, on the array of table entries.\<close>

function sort_inner :: "nat \<Rightarrow> nat \<Rightarrow> cmd_tbl list \<Rightarrow> nat \<Rightarrow> cmd_tbl list \<times> nat" where
  "sort_inner i j a swaps =
     (if j < i
      then (if scmp (cmd_name (a ! j)) (cmd_name (a ! (j + 1))) > 0
            then sort_inner i (j + 1) (a[j := a ! (j + 1), j + 1 := a ! j]) (swaps + 1)
            else sort_inner i (j + 1) a swaps)
      else (a, swaps))"
  by pat_completeness auto
termination by (relation "measure (\<lambda>(i, j, _). i - j)") auto

declare sort_inner.simps [simp del]

fun sort_outer :: "nat \<Rightarrow> cmd_tbl list \<Rightarrow> cmd_tbl list" where
  "sort_outer 0 a = a"
| "sort_outer (Suc i) a =
     (let (a, swaps) = sort_inner (Suc i) 0 a 0 in if swaps = 0 then a else sort_outer i a)"

definition sort_cmds :: "cmd_tbl list \<Rightarrow> cmd_tbl list" where
  "sort_cmds a = sort_outer (length a - 1) a"

fun print_usages :: "'w dev_calls \<Rightarrow> serial_drv \<Rightarrow> cmd_tbl list \<Rightarrow> 'w ub_state \<Rightarrow> ('w ub_state \<times> int) option" where
  "print_usages calls drv [] s = Some (s, 0)"
| "print_usages calls drv (c # cs) s =
     do {
       (stop, k) \<leftarrow> ctrlc calls drv (con s);
       let s = s\<lparr>con := k\<rparr>;
       if stop then Some (s, 1)
       else (case cmd_usage c of
               None \<Rightarrow> print_usages calls drv cs s
             | Some u \<Rightarrow> do { s \<leftarrow> out_puts calls drv u s; print_usages calls drv cs s })
     }"

fun help_args :: "'w dev_calls \<Rightarrow> serial_drv \<Rightarrow> cmd_tbl list \<Rightarrow> string list \<Rightarrow> int \<Rightarrow> 'w ub_state \<Rightarrow> ('w ub_state \<times> int) option" where
  "help_args calls drv tbl [] rcode s = Some (s, rcode)"
| "help_args calls drv tbl (a # as) rcode s =
     (case find_cmd tbl a of
        Some cmdtp \<Rightarrow> do {
          s \<leftarrow> out_puts calls drv (cmd_name cmdtp) s;
          s \<leftarrow> out_putc calls drv CHR '' '' s;
          (s, rcode) \<leftarrow> (case cmd_help cmdtp of
              Some h \<Rightarrow> do { s \<leftarrow> out_puts calls drv h s; Some (s, rcode) }
            | None \<Rightarrow> do { s \<leftarrow> out_puts calls drv (''- No help available.'' @ [CHR 10]) s; Some (s, 1) });
          s \<leftarrow> out_putc calls drv (CHR 10) s;
          help_args calls drv tbl as rcode s
        }
      | None \<Rightarrow> do {
          s \<leftarrow> out_printf calls drv (''Unknown command '' @ [CHR 0x27] @ ''%s'' @ [CHR 0x27] @ '' - try '' @ [CHR 0x27] @ ''help''
                 @ [CHR 0x27] @ '' without arguments for list of all known commands'' @ [CHR 10, CHR 10]) [VStr (Some a)] s;
          help_args calls drv tbl as 1 s
        })"

definition do_help :: "'w dev_calls \<Rightarrow> serial_drv \<Rightarrow> cmd_tbl list \<Rightarrow> string list \<Rightarrow> 'w ub_state \<Rightarrow> ('w ub_state \<times> int) option" where
  "do_help calls drv tbl argv s =
     (if length argv = 1 then print_usages calls drv (sort_cmds tbl) s else help_args calls drv tbl (tl argv) 0 s)"

subsection \<open>Completion\<close>

definition is_blank :: "char \<Rightarrow> bool" where "is_blank c \<longleftrightarrow> c = CHR '' '' \<or> c = CHR 9"

text \<open>\<open>make_argv\<close>: \<open>k\<close> is the number of slots left.\<close>

fun make_argv :: "nat \<Rightarrow> string \<Rightarrow> string list" where
  "make_argv 0 s = []"
| "make_argv (Suc k) s =
     (let s = dropWhile is_blank s in
      if s = [] then []
      else takeWhile (\<lambda>c. \<not> is_blank c) s # make_argv k (tl (dropWhile (\<lambda>c. \<not> is_blank c) s)))"

text \<open>The candidates: the names the matching loop stores, with \<open>...\<close> when there are too many.\<close>

fun collect :: "nat \<Rightarrow> nat \<Rightarrow> string list \<Rightarrow> string list" where
  "collect n_found maxv [] = []"
| "collect n_found maxv (x # xs) = (if n_found \<ge> maxv - 2 then [''...''] else x # collect (n_found + 1) maxv xs)"

definition complete_cmdv ::
  "(cmd_tbl \<Rightarrow> string list \<Rightarrow> char \<Rightarrow> nat \<Rightarrow> string list option) \<Rightarrow> cmd_tbl list \<Rightarrow> string list \<Rightarrow> char \<Rightarrow> nat \<Rightarrow> int \<times> string list" where
  "complete_cmdv complete tbl argv last_char maxv =
     (if maxv < 2 then (- 2, [])
      else (let v =
        (case argv of
           [] \<Rightarrow> collect 0 maxv (map cmd_name tbl)
         | cmd # rest \<Rightarrow>
             if rest \<noteq> [] \<or> last_char = NUL \<or> last_char = CHR '' '' \<or> last_char = CHR 9
             then (case find_cmd tbl cmd of
                     None \<Rightarrow> []
                   | Some cmdtp \<Rightarrow> (case complete cmdtp argv last_char maxv of None \<Rightarrow> [] | Some v \<Rightarrow> v))
             else collect 0 maxv
                    (filter (\<lambda>n. length n \<ge> cmp_len cmd \<and> take (cmp_len cmd) n = take (cmp_len cmd) cmd) (map cmd_name tbl)))
        in (int (length v), v)))"

fun common_len :: "string \<Rightarrow> string \<Rightarrow> nat" where
  "common_len (a # as) (b # bs) = (if a = b then Suc (common_len as bs) else 0)"
| "common_len _ _ = 0"

text \<open>\<open>find_common_prefix\<close>; the inner loop also stops at the NUL of \<open>t\<close>, which differs from the anchor's character.\<close>

fun common_loop :: "string \<Rightarrow> nat \<Rightarrow> string list \<Rightarrow> nat" where
  "common_loop anchor len [] = len"
| "common_loop anchor len (t # ts) = common_loop anchor (common_len (take len anchor) t) ts"

definition find_common_prefix :: "string list \<Rightarrow> nat" where
  "find_common_prefix argv = (case argv of [] \<Rightarrow> 0 | anchor # ts \<Rightarrow> common_loop anchor (length anchor) ts)"

subsection \<open>Lemmas: look-up\<close>

definition abbrev_of :: "string \<Rightarrow> cmd_tbl \<Rightarrow> bool" where
  "abbrev_of cmd c \<longleftrightarrow> take (cmp_len cmd) cmd = take (cmp_len cmd) (cmd_name c)"

definition full_match :: "string \<Rightarrow> cmd_tbl \<Rightarrow> bool" where
  "full_match cmd c \<longleftrightarrow> cmd_name c = takeWhile (\<lambda>c. c \<noteq> CHR ''.'') cmd"

lemma take_cmp_len: "take (cmp_len cmd) cmd = takeWhile (\<lambda>c. c \<noteq> CHR ''.'') cmd"
  by (simp add: cmp_len_def takeWhile_eq_take [symmetric])

lemma full_match_iff: "full_match cmd c \<longleftrightarrow> abbrev_of cmd c \<and> cmp_len cmd = length (cmd_name c)"
  unfolding full_match_def abbrev_of_def take_cmp_len unfolding cmp_len_def by auto

lemma find_cmd_loop_spec:
  "find_cmd_loop cmd (cmp_len cmd) tbl temp n =
    (case find (full_match cmd) tbl of
       Some c \<Rightarrow> Some c
     | None \<Rightarrow> (case filter (abbrev_of cmd) tbl of
          [] \<Rightarrow> if n = 1 then temp else None
        | cs \<Rightarrow> if n = 0 \<and> length cs = 1 then Some (last cs) else None))"
proof (induction tbl arbitrary: temp n)
  case (Cons c tbl)
  show ?case
  proof (cases "abbrev_of cmd c")
    case False
    then have "\<not> full_match cmd c" "take (cmp_len cmd) cmd \<noteq> take (cmp_len cmd) (cmd_name c)"
      by (simp_all add: full_match_iff) (simp add: abbrev_of_def)
    moreover have "filter (abbrev_of cmd) (c # tbl) = filter (abbrev_of cmd) tbl" using False by simp
    ultimately show ?thesis by (simp only: find_cmd_loop.simps find.simps if_False Cons)
  next
    case True
    then have m: "take (cmp_len cmd) cmd = take (cmp_len cmd) (cmd_name c)" by (simp add: abbrev_of_def)
    show ?thesis
    proof (cases "full_match cmd c")
      case f: True
      then have "cmp_len cmd = length (cmd_name c)" by (simp add: full_match_iff)
      with f m show ?thesis by simp
    next
      case f: False
      with True have "cmp_len cmd \<noteq> length (cmd_name c)" by (simp add: full_match_iff)
      with f m True Cons [of "Some c" "n + 1"] show ?thesis
        by (auto split: option.splits list.splits)
    qed
  qed
qed simp

subsection \<open>Lemmas: sorting\<close>

lemma scmp_self [simp]: "scmp a a = 0" by (induction a) auto

definition ascii :: "string \<Rightarrow> bool" where
  "ascii s \<longleftrightarrow> (\<forall>c\<in>set s. 0 < (of_char c :: nat) \<and> of_char c < (128 :: nat))"

lemma sint_char_diff:
  assumes "(of_char a :: nat) < 128" "(of_char b :: nat) < 128"
  shows "sint (of_char a - of_char b :: u8) = int (of_char a) - int (of_char b)"
proof -
  have "(of_char a - of_char b :: u8) = word_of_int (int (of_char a) - int (of_char b))"
    by (simp flip: of_nat_of_char [where 'a = u8])
  moreover have "- 128 \<le> int (of_char a) - int (of_char b)" "int (of_char a) - int (of_char b) < 128"
    using assms by linarith+
  ultimately show ?thesis by (simp only: sint_sbintrunc') (simp add: signed_take_bit_int_eq_self)
qed

lemma scmp_pos: "ascii a \<Longrightarrow> ascii b \<Longrightarrow> scmp a b > 0 \<longleftrightarrow> b < a"
proof (induction a b rule: scmp.induct)
  case (2 b bs)
  have "sint (- (of_char b :: u8)) = - int (of_char b)"
    using sint_char_diff [of "CHR 0x00" b] 2 by (simp add: ascii_def)
  then show ?case by simp
next
  case (3 a as)
  have "sint (of_char a :: u8) = int (of_char a)"
    using sint_char_diff [of a "CHR 0x00"] 3 by (simp add: ascii_def)
  with 3 show ?case by (simp add: ascii_def)
next
  case (4 a as b bs)
  show ?case
  proof (cases "a = b")
    case True with 4 show ?thesis by (simp add: ascii_def)
  next
    case False
    with 4 sint_char_diff [of a b] show ?thesis
      by (auto simp: ascii_def less_char_def)
  qed
qed simp

text \<open>One pass moves the largest name of \<open>0..i\<close> to \<open>i\<close> and permutes only those entries.\<close>

abbreviation nm :: "cmd_tbl list \<Rightarrow> nat \<Rightarrow> string" where "nm a k \<equiv> cmd_name (a ! k)"

lemma sort_inner_len: "length (fst (sort_inner i j a n)) = length a"
proof (induction i j a n rule: sort_inner.induct)
  case (1 i j a n) then show ?case by (subst sort_inner.simps) auto
qed

lemma mset_swap_adj: "Suc j < length a \<Longrightarrow> mset (a[j := a ! Suc j, Suc j := a ! j]) = mset a"
  using mset_swap [of "Suc j" a j] by (simp add: list_update_swap)

lemma sort_inner_mset: "i < length a \<Longrightarrow> mset (fst (sort_inner i j a n)) = mset a"
proof (induction i j a n rule: sort_inner.induct)
  case (1 i j a n) then show ?case by (subst sort_inner.simps) (auto simp: mset_swap_adj)
qed

lemma sort_inner_above: "i < k \<Longrightarrow> k < length a \<Longrightarrow> fst (sort_inner i j a n) ! k = a ! k"
proof (induction i j a n rule: sort_inner.induct)
  case (1 i j a n) then show ?case by (subst sort_inner.simps) auto
qed

lemma sort_inner_swaps: "n \<le> snd (sort_inner i j a n)"
proof (induction i j a n rule: sort_inner.induct)
  case (1 i j a n) then show ?case by (subst sort_inner.simps) auto
qed

definition names_ascii :: "cmd_tbl list \<Rightarrow> bool" where
  "names_ascii a \<longleftrightarrow> (\<forall>c\<in>set a. ascii (cmd_name c))"

lemma names_gt: "names_ascii a \<Longrightarrow> j < length a \<Longrightarrow> k < length a \<Longrightarrow> scmp (nm a j) (nm a k) > 0 \<longleftrightarrow> nm a k < nm a j"
  by (rule scmp_pos) (simp_all add: names_ascii_def)

lemma names_ascii_mset: "mset a = mset b \<Longrightarrow> names_ascii a = names_ascii b"
  by (metis names_ascii_def set_mset_mset)

lemma sort_inner_max:
  "i < length a \<Longrightarrow> j \<le> i \<Longrightarrow> names_ascii a \<Longrightarrow> \<forall>k<j. nm a k \<le> nm a j \<Longrightarrow>
   \<forall>k\<le>i. nm (fst (sort_inner i j a n)) k \<le> nm (fst (sort_inner i j a n)) i"
proof (induction i j a n rule: sort_inner.induct)
  case (1 i j a n)
  show ?case
  proof (cases "j < i")
    case False
    then show ?thesis using 1 by (subst (1 2) sort_inner.simps) (auto simp: le_less)
  next
    case True
    then have ij: "j < length a" "Suc j < length a" using 1 by simp_all
    note gt = names_gt [OF "1.prems"(3) ij]
    define b where "b = a[j := a ! Suc j, Suc j := a ! j]"
    show ?thesis
    proof (cases "nm a (Suc j) < nm a j")
      case sw: True
      have "\<forall>k<Suc j. nm b k \<le> nm b (Suc j)"
        using ij sw "1.prems"(4) by (auto simp: b_def nth_list_update less_Suc_eq)
      moreover have "names_ascii b" using "1.prems"(3) names_ascii_mset [OF mset_swap_adj [OF ij(2)]] by (simp add: b_def)
      ultimately show ?thesis
        using "1.IH"(1) True gt sw 1(3) by (subst (1 2) sort_inner.simps) (simp add: b_def)
    next
      case sw: False
      have "\<forall>k<Suc j. nm a k \<le> nm a (Suc j)"
        using sw "1.prems"(4) by (auto simp: less_Suc_eq not_less intro: order_trans)
      then show ?thesis
        using "1.IH"(2) True gt sw "1.prems" by (subst (1 2) sort_inner.simps) simp
    qed
  qed
qed

lemma sort_inner_noswap:
  "snd (sort_inner i j a n) = n \<Longrightarrow> i < length a \<Longrightarrow> names_ascii a \<Longrightarrow>
   fst (sort_inner i j a n) = a \<and> (\<forall>k. j \<le> k \<and> k < i \<longrightarrow> nm a k \<le> nm a (Suc k))"
proof (induction i j a n rule: sort_inner.induct)
  case (1 i j a n)
  show ?case
  proof (cases "j < i")
    case False then show ?thesis by (subst sort_inner.simps) auto
  next
    case True
    then have ij: "j < length a" "Suc j < length a" using 1 by simp_all
    have ns: "\<not> nm a (Suc j) < nm a j"
    proof
      assume sw: "nm a (Suc j) < nm a j"
      have "n + 1 \<le> snd (sort_inner i (j + 1) (a[j := a ! (j + 1), j + 1 := a ! j]) (n + 1))" by (rule sort_inner_swaps)
      then show False using "1.prems"(1) True sw names_gt [OF "1.prems"(3) ij] by (subst (asm) (2) sort_inner.simps) simp
    qed
    have e: "sort_inner i j a n = sort_inner i (Suc j) a n"
      using True ns names_gt [OF "1.prems"(3) ij] by (subst sort_inner.simps) simp
    have "fst (sort_inner i (Suc j) a n) = a \<and> (\<forall>k. Suc j \<le> k \<and> k < i \<longrightarrow> nm a k \<le> nm a (Suc k))"
      using "1.IH"(2) True ns names_gt [OF "1.prems"(3) ij] "1.prems" e by simp
    then show ?thesis using e ns by (metis Suc_leI le_neq_implies_less not_less)
  qed
qed

lemma sorted_from_adj: "(\<And>k. Suc k < length xs \<Longrightarrow> xs ! k \<le> xs ! Suc k) \<Longrightarrow> sorted xs"
  by (simp add: sorted_iff_nth_Suc)

text \<open>The outer loop: entries above \<open>i\<close> are sorted and not below any entry before them.\<close>

definition above_sorted :: "nat \<Rightarrow> cmd_tbl list \<Rightarrow> bool" where
  "above_sorted i a \<longleftrightarrow> (\<forall>k l. k \<le> l \<and> i < l \<and> l < length a \<longrightarrow> nm a k \<le> nm a l)"

lemma above_sorted_inner:
  assumes a: "above_sorted (Suc i) a" and i: "Suc i < length a" and asc: "names_ascii a"
  shows "above_sorted i (fst (sort_inner (Suc i) 0 a 0))"
proof -
  define b where "b = fst (sort_inner (Suc i) 0 a 0)"
  have len: "length b = length a" and ms: "mset b = mset a" by (simp_all add: b_def sort_inner_len sort_inner_mset i)
  have top: "b ! k = a ! k" if "Suc i < k" "k < length a" for k using sort_inner_above that by (simp add: b_def)
  have max: "nm b k \<le> nm b (Suc i)" if "k \<le> Suc i" for k
    using sort_inner_max [OF i _ asc, of 0 0] that by (simp add: b_def)
  have low: "nm b k \<le> nm b l" if kl: "k \<le> Suc i" "Suc i < l" "l < length a" for k l
  proof -
    have d: "drop (Suc (Suc i)) b = drop (Suc (Suc i)) a" using len top by (intro nth_equalityI) auto
    have "mset (take (Suc (Suc i)) b) = mset (take (Suc (Suc i)) a)"
      using ms d by (metis add_right_cancel append_take_drop_id mset_append)
    then have "set (take (Suc (Suc i)) b) = set (take (Suc (Suc i)) a)" by (rule mset_eq_setD)
    moreover have "b ! k \<in> set (take (Suc (Suc i)) b)" using kl i len by (auto simp: in_set_conv_nth intro!: exI [of _ k])
    ultimately obtain m where m: "m < Suc (Suc i)" "a ! m = b ! k" by (auto simp: in_set_conv_nth)
    have "nm a m \<le> nm a l" using a kl m(1) by (simp add: above_sorted_def)
    then show ?thesis using m(2) top kl by simp
  qed
  have "nm b k \<le> nm b l" if "k \<le> l" "i < l" "l < length a" for k l
  proof (cases "l = Suc i")
    case False
    with that have l: "Suc i < l" by simp
    show ?thesis
    proof (cases "k \<le> Suc i")
      case False then show ?thesis using a l that top by (simp add: above_sorted_def)
    qed (use low l that in simp)
  qed (use max that in simp)
  then show ?thesis unfolding b_def [symmetric] by (simp add: above_sorted_def len)
qed

lemma sort_outer_correct:
  "i < length a \<Longrightarrow> names_ascii a \<Longrightarrow> above_sorted i a \<Longrightarrow>
   mset (sort_outer i a) = mset a \<and> sorted (map cmd_name (sort_outer i a))"
proof (induction i arbitrary: a)
  case 0
  then have "sorted (map cmd_name a)" by (auto simp: above_sorted_def intro!: sorted_from_adj)
  then show ?case by simp
next
  case (Suc i)
  obtain b n where b: "sort_inner (Suc i) 0 a 0 = (b, n)" by (cases "sort_inner (Suc i) 0 a 0")
  have ms: "mset b = mset a" and len: "length b = length a"
    using sort_inner_mset [OF Suc.prems(1), of 0 0] sort_inner_len [of "Suc i" 0 a 0] b by simp_all
  show ?case
  proof (cases "n = 0")
    case True
    then have ba: "b = a" "\<forall>k. k < Suc i \<longrightarrow> nm a k \<le> nm a (Suc k)"
      using sort_inner_noswap [of "Suc i" 0 a 0] b Suc.prems by simp_all
    have "nm a k \<le> nm a (Suc k)" if "Suc k < length a" for k
      using ba(2) Suc.prems(3) that by (cases "k < Suc i") (simp_all add: above_sorted_def)
    then have "sorted (map cmd_name a)" by (auto intro!: sorted_from_adj)
    with b True ba show ?thesis by simp
  next
    case False
    have "above_sorted i b" using above_sorted_inner [OF Suc.prems(3, 1, 2)] b by simp
    then have "mset (sort_outer i b) = mset b \<and> sorted (map cmd_name (sort_outer i b))"
      using Suc.prems len names_ascii_mset [OF ms] by (intro Suc.IH) simp_all
    with b False ms show ?thesis by simp
  qed
qed

lemma sort_cmds_sorted:
  assumes "names_ascii a"
  shows "mset (sort_cmds a) = mset a \<and> sorted (map cmd_name (sort_cmds a))"
proof (cases "a = []")
  case False
  then show ?thesis unfolding sort_cmds_def using assms by (intro sort_outer_correct) (auto simp: above_sorted_def)
qed (simp add: sort_cmds_def)

subsection \<open>Lemmas: completion\<close>

lemma common_len_prefix: "take (common_len a b) a = take (common_len a b) b \<and> common_len a b \<le> length a"
  by (induction a b rule: common_len.induct) auto

lemma common_len_max: "take n a = take n b \<Longrightarrow> n \<le> length a \<Longrightarrow> n \<le> common_len a b"
proof (induction a b arbitrary: n rule: common_len.induct)
  case (1 a as b bs) then show ?case by (cases n) auto
qed auto

lemma common_loop_spec:
  "len \<le> length anchor \<Longrightarrow> common_loop anchor len ts \<le> len \<and>
   (\<forall>t\<in>set ts. take (common_loop anchor len ts) t = take (common_loop anchor len ts) anchor) \<and>
   (\<forall>n\<le>len. (\<forall>t\<in>set ts. take n t = take n anchor) \<longrightarrow> n \<le> common_loop anchor len ts)"
proof (induction ts arbitrary: len)
  case (Cons t ts)
  define k where "k = common_len (take len anchor) t"
  have k: "k \<le> len" "take k anchor = take k t"
    using common_len_prefix [of "take len anchor" t] by (auto simp: k_def min_def split: if_splits)
  define r where "r = common_loop anchor k ts"
  have IH: "r \<le> k" "\<forall>t\<in>set ts. take r t = take r anchor" "\<forall>n\<le>k. (\<forall>t\<in>set ts. take n t = take n anchor) \<longrightarrow> n \<le> r"
    using Cons.IH [of k] k Cons.prems by (simp_all add: r_def)
  have "take r (take k t) = take r (take k anchor)" by (simp only: k(2))
  then have "take r t = take r anchor" using IH(1) by (simp add: min_absorb1)
  moreover have "n \<le> r" if "n \<le> len" "\<forall>u\<in>set (t # ts). take n u = take n anchor" for n
  proof -
    have "n \<le> k" unfolding k_def using that Cons.prems by (intro common_len_max) (auto simp: min_def)
    then show ?thesis using IH(3) that(2) by simp
  qed
  ultimately show ?case using IH k by (auto simp: r_def [symmetric] k_def [symmetric])
qed simp

subsection \<open>Properties\<close>

definition demo_cmd :: "string \<Rightarrow> cmd_tbl" where
  "demo_cmd n = \<lparr>cmd_name = n, maxargs = 16, repeatable = 1, cmd_fn = 1, cmd_usage = None, cmd_help = None\<rparr>"

text \<open>A command is found by its full name up to the first dot, or by an abbreviation that fits exactly one
  table entry; an ambiguous or unknown name is not found. A full match wins over every abbreviation.\<close>

theorem find_cmd_spec:
  "find_cmd tbl cmd =
    (case find (full_match cmd) tbl of
       Some c \<Rightarrow> Some c
     | None \<Rightarrow> (case filter (abbrev_of cmd) tbl of [c] \<Rightarrow> Some c | _ \<Rightarrow> None))"
  unfolding find_cmd_def find_cmd_loop_spec by (auto split: option.splits list.splits)

text \<open>\<open>help\<close> without arguments lists every command once, in alphabetical order: the bubble sort with its
  early exit ends, keeps the entries and sorts them by name.\<close>

theorem help_sorts:
  assumes "names_ascii a"
  shows "mset (sort_cmds a) = mset a \<and> sorted (map cmd_name (sort_cmds a))"
  using assms by (rule sort_cmds_sorted)

theorem help_sorts_witness:
  "map cmd_name (sort_cmds (map demo_cmd [''tftp'', ''go'', ''bootm''])) = [''bootm'', ''go'', ''tftp'']"
proof -
  have "names_ascii (map demo_cmd [''tftp'', ''go'', ''bootm''])" by (simp add: names_ascii_def ascii_def demo_cmd_def)
  note s = help_sorts [OF this, THEN conjunct1] help_sorts [OF this, THEN conjunct2]
  have "mset (map cmd_name (sort_cmds (map demo_cmd [''tftp'', ''go'', ''bootm'']))) = mset [''bootm'', ''go'', ''tftp'']"
    unfolding mset_map s(1) by (simp add: demo_cmd_def add_mset_commute)
  moreover have "sorted [''bootm'', ''go'', ''tftp'']" by (simp add: less_eq_char_def less_char_def)
  ultimately show ?thesis using s(2) by (metis properties_for_sort)
qed

text \<open>The prefix that completion inserts is common to all candidates, and the longest such prefix.\<close>

theorem common_prefix_longest:
  assumes "argv \<noteq> []"
  shows "(\<forall>t\<in>set argv. take (find_common_prefix argv) t = take (find_common_prefix argv) (hd argv)) \<and>
    find_common_prefix argv \<le> length (hd argv) \<and>
    (\<forall>n\<le>length (hd argv). (\<forall>t\<in>set argv. take n t = take n (hd argv)) \<longrightarrow> n \<le> find_common_prefix argv)"
proof -
  obtain anchor ts where a: "argv = anchor # ts" using assms by (cases argv) auto
  show ?thesis using common_loop_spec [of "length anchor" anchor ts] by (auto simp: a find_common_prefix_def)
qed

theorem common_prefix_longest_witness: "take (find_common_prefix [''setenv'', ''set'']) ''setenv'' = take (find_common_prefix [''setenv'', ''set'']) ''set''"
  using common_prefix_longest [of "[''setenv'', ''set'']"] by simp

end
