(* ===== verification/Shell.thy ===== *)
theory Shell
  imports Command
begin

text \<open>
  \<open>common/main.c\<close>: splitting a line into commands and arguments, replacing \<open>$(name)\<close> and \<open>${name}\<close> by the value
  of the environment variable, running the commands of a line, \<open>run\<close>, the autoboot delay and the
  loop that reads and runs lines. Line buffers are byte arrays of \<open>CFG_CBSIZE\<close> characters accessed through
  \<open>rd\<close> and \<open>wr\<close>: leaving one is \<open>None\<close>, as is following a NULL pointer. A command's function is called through
  the parameter \<open>call_cmd\<close>. The Hush parser, boot retry, the boot counter and \<open>bootd\<close> are not built.
\<close>

definition CFG_CBSIZE :: nat where "CFG_CBSIZE = 256"
definition CFG_MAXARGS :: nat where "CFG_MAXARGS = 16"

subsection \<open>Arguments\<close>

text \<open>\<open>while (P (*line)) ++line;\<close>\<close>

function scan :: "(char \<Rightarrow> bool) \<Rightarrow> string \<Rightarrow> nat \<Rightarrow> nat option" where
  "scan P buf i = (case rd buf i of None \<Rightarrow> None | Some c \<Rightarrow> if P c then scan P buf (i + 1) else Some i)"
  by pat_completeness auto
termination by (relation "measure (\<lambda>(_, buf, i). length buf - i)") (auto simp: rd_def split: if_splits)

declare scan.simps [simp del]

text \<open>\<open>parse_line\<close>: the offsets of the arguments, the buffer with the separators overwritten, and whether the
  \<open>Too many args\<close> message is printed; the first argument counts the argument slots left.\<close>

fun parse_loop :: "nat \<Rightarrow> string \<Rightarrow> nat \<Rightarrow> nat list \<Rightarrow> (nat list \<times> string \<times> bool) option" where
  "parse_loop 0 buf line argv = Some (argv, buf, True)"
| "parse_loop (Suc k) buf line argv =
     do {
       line \<leftarrow> scan is_blank buf line;
       c \<leftarrow> rd buf line;
       if c = NUL then Some (argv, buf, False)
       else do {
         e \<leftarrow> scan (\<lambda>c. c \<noteq> NUL \<and> \<not> is_blank c) buf line;
         c \<leftarrow> rd buf e;
         if c = NUL then Some (argv @ [line], buf, False)
         else do { buf \<leftarrow> wr buf e NUL; parse_loop k buf (e + 1) (argv @ [line]) }
       }
     }"

definition parse_line :: "string \<Rightarrow> (nat list \<times> string \<times> bool) option" where
  "parse_line buf = parse_loop CFG_MAXARGS buf 0 []"

subsection \<open>Macros\<close>

text \<open>The body of the \<open>switch\<close> of \<open>process_macros\<close>: the state, the rest of the input at \<open>varname_start\<close>, the
  output so far and the room left. \<open>input\<close> is what follows the character \<open>c\<close>.\<close>

definition macro_switch ::
  "(string \<Rightarrow> string option option) \<Rightarrow> nat \<Rightarrow> char \<Rightarrow> char \<Rightarrow> string \<Rightarrow> string \<Rightarrow> string \<Rightarrow> nat \<Rightarrow> (nat \<times> string \<times> string \<times> nat) option" where
  "macro_switch env state c prev input varname_start output outputcnt =
     (if state = 0 then
        (if c = CHR 0x27 \<and> prev \<noteq> CHR 0x5C then Some (3, varname_start, output, outputcnt)
         else if c = CHR ''$'' \<and> prev \<noteq> CHR 0x5C then Some (1, varname_start, output, outputcnt)
         else Some (0, varname_start, output @ [c], outputcnt - 1))
      else if state = 1 then
        (if c = CHR ''('' \<or> c = CHR 0x7B then Some (2, input, output, outputcnt)
         else if outputcnt - 1 \<noteq> 0 then Some (0, varname_start, output @ [CHR ''$'', c], outputcnt - 2)
         else Some (0, varname_start, output @ [CHR ''$''], outputcnt - 1))
      else if state = 2 then
        (if c = CHR '')'' \<or> c = CHR 0x7D
         then do {
           envval \<leftarrow> env (take (length varname_start - length input - 1) varname_start);
           case envval of
             None \<Rightarrow> Some (0, varname_start, output, outputcnt)
           | Some v \<Rightarrow> Some (0, varname_start, output @ take outputcnt v, outputcnt - length v)
         }
         else Some (2, varname_start, output, outputcnt))
      else
        (if c = CHR 0x27 \<and> prev \<noteq> CHR 0x5C then Some (0, varname_start, output, outputcnt)
         else Some (3, varname_start, output @ [c], outputcnt - 1)))"

fun macro_loop ::
  "(string \<Rightarrow> string option option) \<Rightarrow> string \<Rightarrow> nat \<Rightarrow> char \<Rightarrow> string \<Rightarrow> string \<Rightarrow> nat \<Rightarrow> (string \<times> nat) option" where
  "macro_loop env [] state prev varname_start output outputcnt = Some (output, outputcnt)"
| "macro_loop env (c # input) state prev varname_start output outputcnt =
     (if outputcnt = 0 then Some (output, outputcnt)
      else if state \<noteq> 3 \<and> c = CHR 0x5C \<and> prev \<noteq> CHR 0x5C
      then (case input of
              [] \<Rightarrow> Some (output, outputcnt)
            | c2 # input2 \<Rightarrow> do {
                (state, varname_start, output, outputcnt) \<leftarrow> macro_switch env state c2 c input2 varname_start output outputcnt;
                macro_loop env input2 state c2 varname_start output outputcnt
              })
      else do {
        (state, varname_start, output, outputcnt) \<leftarrow> macro_switch env state c prev input varname_start output outputcnt;
        macro_loop env input state c varname_start output outputcnt
      })"

text \<open>The buffer \<open>output\<close> points to, \<open>CFG_CBSIZE\<close> characters: the NUL is written only when there is room for it.\<close>

definition process_macros :: "(string \<Rightarrow> string option option) \<Rightarrow> string \<Rightarrow> string \<Rightarrow> string option" where
  "process_macros env input finaltoken =
     do {
       (output, outputcnt) \<leftarrow> macro_loop env input 0 NUL [] [] CFG_CBSIZE;
       Some (if outputcnt \<noteq> 0 then output @ NUL # drop (length output + 1) finaltoken else output)
     }"

subsection \<open>Running a line\<close>

text \<open>The search for a separator: how many characters the token has. \<open>prev\<close> is the byte before the token, \<open>first\<close>
  whether \<open>sep\<close> is still at the start.\<close>

fun find_sep :: "char \<Rightarrow> bool \<Rightarrow> bool \<Rightarrow> string \<Rightarrow> nat" where
  "find_sep prev first inquotes [] = 0"
| "find_sep prev first inquotes (c # cs) =
     (let inquotes = (if c = CHR 0x27 \<and> prev \<noteq> CHR 0x5C then \<not> inquotes else inquotes) in
      if \<not> inquotes \<and> c = CHR '';'' \<and> \<not> first \<and> prev \<noteq> CHR 0x5C then 0
      else Suc (find_sep c False inquotes cs))"

lemma find_sep_pos: "cs \<noteq> [] \<Longrightarrow> 0 < find_sep prev True inq cs"
  by (cases cs) (simp_all add: Let_def)

definition unknown_cmd_fmt :: string where
  "unknown_cmd_fmt = ''Unknown command '' @ [CHR 0x27] @ ''%s'' @ [CHR 0x27] @ '' - try '' @ [CHR 0x27] @ ''help'' @ [CHR 0x27, CHR 10]"

definition too_many_fmt :: string where "too_many_fmt = ''** Too many args (max. %d) **'' @ [CHR 10]"
definition usage_fmt :: string where "usage_fmt = ''Usage:'' @ [CHR 10] @ ''%s'' @ [CHR 10]"

type_synonym 'w cmd_caller = "u32 \<Rightarrow> cmd_tbl \<Rightarrow> int \<Rightarrow> string list \<Rightarrow> 'w ub_state \<Rightarrow> ('w ub_state \<times> int) option"

text \<open>One token: \<open>Inl rc\<close> when the loop goes on with that return code, \<open>Inr cmdtp\<close> when a command was called.\<close>

definition run_token ::
  "'w dev_calls \<Rightarrow> serial_drv \<Rightarrow> 'w cmd_caller \<Rightarrow> cmd_tbl list \<Rightarrow> int \<Rightarrow> string \<Rightarrow> string \<Rightarrow> 'w ub_state \<Rightarrow>
   ('w ub_state \<times> string \<times> cmd_tbl option \<times> int) option" where
  "run_token calls drv call_cmd tbl flag token finaltoken s =
     do {
       finaltoken \<leftarrow> process_macros (getenv s) token finaltoken;
       (argv, finaltoken, toomany) \<leftarrow> parse_line finaltoken;
       s \<leftarrow> (if toomany then out_printf calls drv too_many_fmt [VInt (of_nat CFG_MAXARGS)] s else Some s);
       let args = map (str_at finaltoken) argv;
       case args of
         [] \<Rightarrow> None
       | name # _ \<Rightarrow>
           (case find_cmd tbl name of
              None \<Rightarrow> do {
                s \<leftarrow> out_printf calls drv unknown_cmd_fmt [VStr (Some name)] s;
                Some (s, finaltoken, None, - 1)
              }
            | Some cmdtp \<Rightarrow>
                if int (length args) > maxargs cmdtp
                then do {
                  s \<leftarrow> out_printf calls drv usage_fmt [VStr (cmd_usage cmdtp)] s;
                  Some (s, finaltoken, None, - 1)
                }
                else do {
                  (s, r) \<leftarrow> call_cmd (cmd_fn cmdtp) cmdtp flag args s;
                  Some (s, finaltoken, Some cmdtp, r)
                })
     }"

function run_loop ::
  "'w dev_calls \<Rightarrow> serial_drv \<Rightarrow> 'w cmd_caller \<Rightarrow> cmd_tbl list \<Rightarrow> int \<Rightarrow> char \<Rightarrow> string \<Rightarrow> string \<Rightarrow> int \<Rightarrow> int \<Rightarrow> 'w ub_state \<Rightarrow>
   ('w ub_state \<times> int) option" where
  "run_loop calls drv call_cmd tbl flag before str finaltoken rc rep s =
     (if str = [] then Some (s, if rc \<noteq> 0 then rc else rep)
      else (let n = find_sep before True False str in
        do {
          (s, finaltoken, cmdtp, r) \<leftarrow> run_token calls drv call_cmd tbl flag (take n str) finaltoken s;
          let rc = (if r \<noteq> 0 then - 1 else rc);
          case cmdtp of
            None \<Rightarrow> run_loop calls drv call_cmd tbl flag NUL (drop (n + 1) str) finaltoken rc rep s
          | Some c \<Rightarrow>
              let rep = rep AND repeatable c in
              if had_ctrlc (con s) \<noteq> 0 then Some (s, 0)
              else run_loop calls drv call_cmd tbl flag NUL (drop (n + 1) str) finaltoken rc rep s
        }))"
  by pat_completeness auto
termination
  by (relation "measure (\<lambda>(_, _, _, _, _, _, str, _). length str)") auto

declare run_loop.simps [simp del]

text \<open>\<open>before\<close> is the byte on the stack below \<open>cmdbuf\<close>, \<open>junk\<close> what \<open>finaltoken\<close> holds at first.\<close>

definition run_command ::
  "'w dev_calls \<Rightarrow> serial_drv \<Rightarrow> 'w cmd_caller \<Rightarrow> cmd_tbl list \<Rightarrow> char \<Rightarrow> string \<Rightarrow> string option \<Rightarrow> int \<Rightarrow> 'w ub_state \<Rightarrow>
   ('w ub_state \<times> int) option" where
  "run_command calls drv call_cmd tbl before junk cmd flag s =
     (let s = s\<lparr>con := clear_ctrlc (con s)\<rparr> in
      case cmd of
        None \<Rightarrow> Some (s, - 1)
      | Some cmd \<Rightarrow>
          if cmd = [] then Some (s, - 1)
          else if length cmd \<ge> CFG_CBSIZE
          then do { s \<leftarrow> out_puts calls drv (''## Command too long!'' @ [CHR 10]) s; Some (s, - 1) }
          else run_loop calls drv call_cmd tbl flag before cmd junk 0 1 s)"

text \<open>\<open>run\<close>: every argument names a variable whose value is run.\<close>

fun run_vars ::
  "(string option \<Rightarrow> int \<Rightarrow> 'w ub_state \<Rightarrow> ('w ub_state \<times> int) option) \<Rightarrow> 'w dev_calls \<Rightarrow> serial_drv \<Rightarrow> int \<Rightarrow> string list \<Rightarrow> 'w ub_state \<Rightarrow>
   ('w ub_state \<times> int) option" where
  "run_vars run calls drv flag [] s = Some (s, 0)"
| "run_vars run calls drv flag (a # as) s =
     do {
       arg \<leftarrow> getenv s a;
       case arg of
         None \<Rightarrow> do {
           s \<leftarrow> out_printf calls drv (''## Error: '' @ [CHR 0x22] @ ''%s'' @ [CHR 0x22] @ '' not defined'' @ [CHR 10]) [VStr (Some a)] s;
           Some (s, 1)
         }
       | Some v \<Rightarrow> do {
           (s, r) \<leftarrow> run (Some v) flag s;
           if r = - 1 then Some (s, 1) else run_vars run calls drv flag as s
         }
     }"

definition do_run ::
  "(string option \<Rightarrow> int \<Rightarrow> 'w ub_state \<Rightarrow> ('w ub_state \<times> int) option) \<Rightarrow> 'w dev_calls \<Rightarrow> serial_drv \<Rightarrow> cmd_tbl \<Rightarrow> int \<Rightarrow> string list \<Rightarrow> 'w ub_state \<Rightarrow>
   ('w ub_state \<times> int) option" where
  "do_run run calls drv cmdtp flag argv s =
     (if length argv < 2
      then do { s \<leftarrow> out_printf calls drv usage_fmt [VStr (cmd_usage cmdtp)] s; Some (s, 1) }
      else run_vars run calls drv flag (tl argv) s)"

subsection \<open>The autoboot delay\<close>

fun abort_wait :: "'w dev_calls \<Rightarrow> serial_drv \<Rightarrow> nat \<Rightarrow> 'w ub_state \<Rightarrow> (bool \<times> 'w ub_state) option" where
  "abort_wait calls drv 0 s = Some (False, s)"
| "abort_wait calls drv (Suc k) s =
     do {
       (t, c) \<leftarrow> con_tstc calls drv (con s);
       if t \<noteq> 0 then do { (_, c) \<leftarrow> con_getc calls drv c; Some (True, s\<lparr>con := c\<rparr>) }
       else abort_wait calls drv k (s\<lparr>con := c\<rparr>)
     }"

definition countdown_fmt :: string where "countdown_fmt = [CHR 8, CHR 8, CHR 8] @ ''%2d ''"

fun abort_loop :: "'w dev_calls \<Rightarrow> serial_drv \<Rightarrow> nat \<Rightarrow> 'w ub_state \<Rightarrow> (bool \<times> 'w ub_state) option" where
  "abort_loop calls drv 0 s = Some (False, s)"
| "abort_loop calls drv (Suc bootdelay) s =
     do {
       (abort, s) \<leftarrow> abort_wait calls drv 100 s;
       s \<leftarrow> out_printf calls drv countdown_fmt [VInt (if abort then 0 else of_nat bootdelay)] s;
       if abort then Some (True, s) else abort_loop calls drv bootdelay s
     }"

definition abortboot :: "'w dev_calls \<Rightarrow> serial_drv \<Rightarrow> int \<Rightarrow> 'w ub_state \<Rightarrow> (bool \<times> 'w ub_state) option" where
  "abortboot calls drv bootdelay s =
     do {
       s \<leftarrow> out_printf calls drv ''Hit any key to stop autoboot: %2d '' [VInt (word_of_int bootdelay)] s;
       (abort, s) \<leftarrow> abort_loop calls drv (nat bootdelay) s;
       s \<leftarrow> out_putc calls drv (CHR 10) s;
       Some (abort, s)
     }"

subsection \<open>The main loop\<close>

text \<open>\<open>main_loop\<close> up to its \<open>for (;;)\<close>, and one round of it. \<open>run\<close> is \<open>run_command\<close>; \<open>readline\<close> gives the
  length or -1, and the contents of \<open>console_buffer\<close>.\<close>

definition main_start ::
  "(string option \<Rightarrow> int \<Rightarrow> 'w ub_state \<Rightarrow> ('w ub_state \<times> int) option) \<Rightarrow> 'w dev_calls \<Rightarrow> serial_drv \<Rightarrow> 'w ub_state \<Rightarrow> 'w ub_state option" where
  "main_start run calls drv s =
     do {
       v \<leftarrow> getenv s ''bootdelay'';
       let bootdelay = (case v of Some v \<Rightarrow> sint (fst (simple_strtol v 10)) | None \<Rightarrow> 3);
       cmd \<leftarrow> getenv s ''bootcmd'';
       let bootdelay = - 1;
       if bootdelay \<ge> 0 \<and> cmd \<noteq> None
       then do {
         (abort, s) \<leftarrow> abortboot calls drv bootdelay s;
         if abort then Some s else map_option fst (run cmd 0 s)
       }
       else Some s
     }"

definition main_round ::
  "(string option \<Rightarrow> int \<Rightarrow> 'w ub_state \<Rightarrow> ('w ub_state \<times> int) option) \<Rightarrow> ('w ub_state \<Rightarrow> (int \<times> string \<times> 'w ub_state) option) \<Rightarrow>
   'w dev_calls \<Rightarrow> serial_drv \<Rightarrow> string \<times> int \<times> 'w ub_state \<Rightarrow> (string \<times> int \<times> 'w ub_state) option" where
  "main_round run readline calls drv st =
     (case st of (lastcommand, rc, s) \<Rightarrow>
       do {
         (len, console_buffer, s) \<leftarrow> readline s;
         let lastcommand = (if len > 0 then console_buffer else lastcommand);
         let flag = (if len = 0 then 1 else 0);
         (s, rc) \<leftarrow> (if len = - 1 then do { s \<leftarrow> out_puts calls drv (''<INTERRUPT>'' @ [CHR 10]) s; Some (s, rc) }
                     else run (Some lastcommand) flag s);
         Some (if rc \<le> 0 then [] else lastcommand, rc, s)
       })"

subsection \<open>Lemmas: arguments\<close>

lemma scan_mid:
  "\<forall>x\<in>set xs. P x \<Longrightarrow> \<not> P c \<Longrightarrow> scan P (pre @ xs @ c # rest) (length pre) = Some (length pre + length xs)"
proof (induction xs arbitrary: pre)
  case Nil then show ?case by (subst scan.simps) simp
next
  case (Cons x xs)
  have "rd (pre @ (x # xs) @ c # rest) (length pre) = Some x" by simp
  then show ?case
    using Cons.prems Cons.IH [of "pre @ [x]"] by (subst scan.simps) simp
qed

lemma wr_at [simp]: "wr (pre @ xs @ c # rest) (length pre + length xs) x = Some (pre @ xs @ x # rest)"
  using wr_mid [of "pre @ xs" c rest x] by simp

lemma rd_at [simp]: "rd (pre @ xs @ c # rest) (length pre + length xs) = Some c"
  using rd_mid [of "pre @ xs" c rest] by simp

function words :: "string \<Rightarrow> string list" where
  "words s =
     (let t = dropWhile is_blank s in
      if t = [] then [] else takeWhile (\<lambda>c. \<not> is_blank c) t # words (dropWhile (\<lambda>c. \<not> is_blank c) t))"
  by pat_completeness auto
termination
proof (relation "measure length", simp, goal_cases)
  case (1 s t)
  then have h: "\<not> is_blank (hd t)" by (metis hd_dropWhile)
  obtain a l where t: "t = a # l" using 1(2) by (cases t) auto
  have "length (dropWhile (\<lambda>c. \<not> is_blank c) t) < length t"
    using h unfolding t by (simp add: length_dropWhile_le le_imp_less_Suc)
  moreover have "length t \<le> length s" using 1 by (simp add: length_dropWhile_le)
  ultimately show ?case by simp
qed

declare words.simps [simp del]

text \<open>A line starts with blanks and, unless that is all, a word that ends at a blank or at the end.\<close>

lemma line_cases:
  obtains (blank) "\<forall>c\<in>set t. is_blank c" "words t = []"
  | (last) bl w where "t = bl @ w" "\<forall>c\<in>set bl. is_blank c" "w \<noteq> []" "\<forall>c\<in>set w. \<not> is_blank c" "words t = [w]"
  | (more) bl w b r where "t = bl @ w @ b # r" "\<forall>c\<in>set bl. is_blank c" "w \<noteq> []" "\<forall>c\<in>set w. \<not> is_blank c" "is_blank b"
      "words t = w # words r"
proof -
  define bl where "bl = takeWhile is_blank t"
  define u where "u = dropWhile is_blank t"
  define w where "w = takeWhile (\<lambda>c. \<not> is_blank c) u"
  define v where "v = dropWhile (\<lambda>c. \<not> is_blank c) u"
  have t: "t = bl @ u" "u = w @ v" by (simp_all add: bl_def u_def w_def v_def)
  have bl: "\<forall>c\<in>set bl. is_blank c" and w: "\<forall>c\<in>set w. \<not> is_blank c" by (auto simp: bl_def w_def dest: set_takeWhileD)
  show ?thesis
  proof (cases "u = []")
    case True
    moreover from this have "words t = []" by (subst words.simps) (simp add: u_def [symmetric])
    ultimately show ?thesis using blank t bl by simp
  next
    case False
    then have h: "\<not> is_blank (hd u)" unfolding u_def by (metis hd_dropWhile)
    then have wn: "w \<noteq> []" using False by (cases u) (auto simp: w_def)
    have ws: "words t = w # words v" using False by (subst words.simps) (simp add: u_def [symmetric] w_def v_def)
    show ?thesis
    proof (cases v)
      case Nil
      moreover have "words [] = []" by (subst words.simps) simp
      ultimately show ?thesis using last [of bl w] t bl w wn ws by simp
    next
      case (Cons b r)
      then have b: "is_blank b" by (metis (no_types, lifting) hd_dropWhile list.discI list.sel(1) v_def)
      have "words (b # r) = words r" using b by (subst (1 2) words.simps) simp
      then show ?thesis using more [of bl w b r] t bl w wn ws b Cons by simp
    qed
  qed
qed

lemma blank_not_nul: "is_blank c \<Longrightarrow> c \<noteq> NUL" by (auto simp: is_blank_def NUL_def)

lemma make_argv_words: "make_argv k t = take k (words t)"
proof (induction k arbitrary: t)
  case (Suc k)
  show ?case
  proof (cases rule: line_cases [of t])
    case blank
    then have "dropWhile is_blank t = []" by simp
    with blank show ?thesis by simp
  next
    case (last bl w)
    then have e: "dropWhile is_blank t = w" "takeWhile (\<lambda>c. \<not> is_blank c) w = w" "dropWhile (\<lambda>c. \<not> is_blank c) w = []"
      by (auto simp: dropWhile_append2 dropWhile_eq_self_iff takeWhile_eq_all_conv hd_in_set)
    have "make_argv k [] = []" by (cases k) simp_all
    then show ?thesis using last(3, 5) by (simp add: e)
  next
    case (more bl w b r)
    then have "dropWhile is_blank t = w @ b # r"
      by (cases w) (auto simp: dropWhile_append2)
    moreover have "takeWhile (\<lambda>c. \<not> is_blank c) (w @ b # r) = w" "dropWhile (\<lambda>c. \<not> is_blank c) (w @ b # r) = b # r"
      using more by (auto simp: takeWhile_append2 dropWhile_append2)
    ultimately show ?thesis using more Suc by simp
  qed
qed simp

lemma str_at_mid: "NUL \<notin> set w \<Longrightarrow> str_at (pre @ w @ NUL # rest) (length pre) = w"
  unfolding str_at_def by (simp, rule takeWhile_append_stop) auto

lemma parse_loop_words:
  "NUL \<notin> set t \<Longrightarrow> \<exists>as t' tm. parse_loop k (pre @ t @ NUL # rest) (length pre) argv = Some (argv @ as, pre @ t' @ NUL # rest, tm) \<and>
     length t' = length t \<and> map (str_at (pre @ t' @ NUL # rest)) as = take k (words t) \<and>
     (tm \<longrightarrow> k \<le> length (words t)) \<and> (k < length (words t) \<longrightarrow> tm)"
proof (induction k arbitrary: pre t argv)
  case (Suc k)
  show ?case
  proof (cases rule: line_cases [of t])
    case blank
    then show ?thesis
      using scan_mid [of t is_blank NUL pre rest] by (auto simp: is_blank_def NUL_def)
  next
    case (last bl w)
    have nb: "\<not> is_blank (hd w)" "hd w \<noteq> NUL" using last Suc.prems by (cases w; auto)+
    have hw: "hd w # tl w @ zs = w @ zs" for zs using last(3) by (cases w) simp_all
    have s1: "scan is_blank (pre @ t @ NUL # rest) (length pre) = Some (length (pre @ bl))"
      using scan_mid [of bl is_blank "hd w" pre "tl w @ NUL # rest"] last nb by (simp add: hw)
    have s2: "scan (\<lambda>c. c \<noteq> NUL \<and> \<not> is_blank c) (pre @ t @ NUL # rest) (length (pre @ bl)) = Some (length (pre @ bl) + length w)"
      using scan_mid [of w "\<lambda>c. c \<noteq> NUL \<and> \<not> is_blank c" NUL "pre @ bl" rest] last Suc.prems by auto
    have r1: "rd (pre @ t @ NUL # rest) (length (pre @ bl)) = Some (hd w)"
      using rd_mid [of "pre @ bl" "hd w" "tl w @ NUL # rest"] last by (simp add: hw)
    have r2: "rd (pre @ t @ NUL # rest) (length (pre @ bl) + length w) = Some NUL"
      using rd_mid [of "pre @ bl @ w" NUL rest] last by (simp add: add.assoc)
    have "str_at (pre @ t @ NUL # rest) (length (pre @ bl)) = w"
      using str_at_mid [of w "pre @ bl" rest] last Suc.prems by simp
    then show ?thesis using last s1 s2 r1 r2 nb
      by (intro exI [of _ "[length (pre @ bl)]"] exI [of _ t] exI [of _ False]) simp
  next
    case (more bl w b r)
    have nb: "\<not> is_blank (hd w)" "hd w \<noteq> NUL" using more Suc.prems by (cases w; auto)+
    have hw: "hd w # tl w @ zs = w @ zs" for zs using more(3) by (cases w) simp_all
    have s1: "scan is_blank (pre @ t @ NUL # rest) (length pre) = Some (length (pre @ bl))"
      using scan_mid [of bl is_blank "hd w" pre "tl w @ b # r @ NUL # rest"] more nb by (simp add: hw)
    have s2: "scan (\<lambda>c. c \<noteq> NUL \<and> \<not> is_blank c) (pre @ t @ NUL # rest) (length (pre @ bl)) = Some (length (pre @ bl) + length w)"
      using scan_mid [of w "\<lambda>c. c \<noteq> NUL \<and> \<not> is_blank c" b "pre @ bl" "r @ NUL # rest"] more Suc.prems by auto
    have r1: "rd (pre @ t @ NUL # rest) (length (pre @ bl)) = Some (hd w)"
      using rd_mid [of "pre @ bl" "hd w" "tl w @ b # r @ NUL # rest"] more by (simp add: hw)
    have r2: "rd (pre @ t @ NUL # rest) (length (pre @ bl) + length w) = Some b"
      using rd_mid [of "pre @ bl @ w" b "r @ NUL # rest"] more by (simp add: add.assoc)
    let ?pre = "pre @ bl @ w @ [NUL]"
    have w1: "wr (pre @ t @ NUL # rest) (length (pre @ bl) + length w) NUL = Some (?pre @ r @ NUL # rest)"
      using wr_mid [of "pre @ bl @ w" b "r @ NUL # rest" NUL] more by (simp add: add.assoc)
    obtain as t' tm where IH: "parse_loop k (?pre @ r @ NUL # rest) (length ?pre) (argv @ [length (pre @ bl)]) =
        Some ((argv @ [length (pre @ bl)]) @ as, ?pre @ t' @ NUL # rest, tm)" "length t' = length r"
      "map (str_at (?pre @ t' @ NUL # rest)) as = take k (words r)" "(tm \<longrightarrow> k \<le> length (words r)) \<and> (k < length (words r) \<longrightarrow> tm)"
      using Suc.IH [of r ?pre "argv @ [length (pre @ bl)]"] Suc.prems more by auto
    have "str_at (?pre @ t' @ NUL # rest) (length (pre @ bl)) = w"
      using str_at_mid [of w "pre @ bl" "t' @ NUL # rest"] more Suc.prems by simp
    moreover have "b \<noteq> NUL" using more(5) by (rule blank_not_nul)
    ultimately show ?thesis using more s1 s2 r1 r2 w1 nb IH
      by (intro exI [of _ "length (pre @ bl) # as"] exI [of _ "bl @ w @ NUL # t'"] exI [of _ tm]) (simp add: add.assoc)
  qed
qed auto

lemma parse_line_words:
  assumes "NUL \<notin> set t"
  shows "\<exists>argv buf tm. parse_line (t @ NUL # rest) = Some (argv, buf, tm) \<and> length buf = length (t @ NUL # rest) \<and>
    map (str_at buf) argv = take CFG_MAXARGS (words t) \<and>
    (tm \<longrightarrow> CFG_MAXARGS \<le> length (words t)) \<and> (CFG_MAXARGS < length (words t) \<longrightarrow> tm)"
  using parse_loop_words [OF assms, of CFG_MAXARGS "[]" rest "[]"] by (auto simp: parse_line_def)

lemma scan_off_end: "\<forall>x\<in>set xs. P x \<Longrightarrow> scan P (pre @ xs) (length pre) = None"
proof (induction xs arbitrary: pre)
  case Nil then show ?case by (subst scan.simps) (simp add: rd_def)
next
  case (Cons x xs)
  then show ?case using Cons.IH [of "pre @ [x]"] by (subst scan.simps) simp
qed

lemma parse_line_unterminated:
  assumes "buf \<noteq> []" "\<forall>c\<in>set buf. c \<noteq> NUL \<and> \<not> is_blank c"
  shows "parse_line buf = None"
proof -
  obtain x xs where b: "buf = x # xs" using assms(1) by (cases buf) auto
  have s1: "scan is_blank buf 0 = Some 0" using assms(2) by (subst scan.simps) (simp add: b rd_def)
  have s2: "scan (\<lambda>c. c \<noteq> NUL \<and> \<not> is_blank c) buf 0 = None" using scan_off_end [of buf _ "[]"] assms(2) by simp
  show ?thesis using s1 s2 assms(2) by (simp add: parse_line_def CFG_MAXARGS_def eval_nat_numeral rd_def b)
qed

subsection \<open>Lemmas: macros\<close>

text \<open>What has been written and the room left always make up the buffer.\<close>

lemma macro_switch_room:
  "macro_switch env state c prev input vs out cnt = Some (state', vs', out', cnt') \<Longrightarrow> 0 < cnt \<Longrightarrow>
   length out' + cnt' = length out + cnt"
  by (auto simp: macro_switch_def bind_eq_Some_conv split: if_splits option.splits)

lemma macro_loop_room:
  "macro_loop env input state prev vs out cnt = Some (out', cnt') \<Longrightarrow> length out' + cnt' = length out + cnt"
proof (induction env input state prev vs out cnt rule: macro_loop.induct)
  case (2 env c input state prev vs out cnt)
  show ?case
  proof (cases "cnt = 0")
    case False
    show ?thesis
    proof (cases "state \<noteq> 3 \<and> c = CHR 0x5C \<and> prev \<noteq> CHR 0x5C")
      case esc: True
      show ?thesis
      proof (cases input)
        case Nil then show ?thesis using 2(3) False esc by simp
      next
        case (Cons c2 input2)
        with 2(3) False esc obtain st' vs' o' k' where
          "macro_switch env state c2 c input2 vs out cnt = Some (st', vs', o', k')" "macro_loop env input2 st' c2 vs' o' k' = Some (out', cnt')"
          by (auto simp: bind_eq_Some_conv)
        with 2(1) [OF False esc Cons] False macro_switch_room show ?thesis by fastforce
      qed
    next
      case esc: False
      with 2(3) False obtain st' vs' o' k' where
        "macro_switch env state c prev input vs out cnt = Some (st', vs', o', k')" "macro_loop env input st' c vs' o' k' = Some (out', cnt')"
        by (auto simp: bind_eq_Some_conv split: if_splits)
      with 2(2) [OF False esc] False macro_switch_room show ?thesis by fastforce
    qed
  qed (use 2(3) in simp)
qed simp

definition plain_char :: "char \<Rightarrow> bool" where
  "plain_char c \<longleftrightarrow> c \<noteq> CHR 0x27 \<and> c \<noteq> CHR ''$'' \<and> c \<noteq> CHR 0x5C"

lemma macro_loop_step:
  "cnt \<noteq> 0 \<Longrightarrow> \<not> (state \<noteq> 3 \<and> c = CHR 0x5C \<and> prev \<noteq> CHR 0x5C) \<Longrightarrow>
   macro_loop env (c # input) state prev vs out cnt =
   do {
     (state, vs, out, cnt) \<leftarrow> macro_switch env state c prev input vs out cnt;
     macro_loop env input state c vs out cnt
   }"
  by (subst macro_loop.simps, subst if_not_P, simp, subst if_not_P) simp_all

lemma macro_loop_full: "macro_loop env input state prev vs out 0 = Some (out, 0)"
  by (cases input) simp_all

declare macro_loop.simps(2) [simp del]

lemma macro_loop_plain:
  "\<forall>c\<in>set t. plain_char c \<Longrightarrow> length t \<le> cnt \<Longrightarrow>
   macro_loop env (t @ rest) 0 prev vs out cnt = macro_loop env rest 0 (last (prev # t)) vs (out @ t) (cnt - length t)"
proof (induction t arbitrary: prev out cnt)
  case (Cons c t)
  then show ?case by (cases cnt) (simp_all add: plain_char_def macro_switch_def macro_loop_step)
qed simp

lemma macro_loop_quoted:
  "\<forall>c\<in>set t. c \<noteq> CHR 0x27 \<and> c \<noteq> CHR 0x5C \<Longrightarrow> length t < cnt \<Longrightarrow> prev \<noteq> CHR 0x5C \<Longrightarrow>
   macro_loop env (t @ CHR 0x27 # rest) 3 prev vs out cnt = macro_loop env rest 0 (CHR 0x27) vs (out @ t) (cnt - length t)"
proof (induction t arbitrary: prev out cnt)
  case (Cons c t)
  then show ?case by (cases cnt) (simp_all add: macro_switch_def macro_loop_step)
qed (simp add: macro_switch_def macro_loop_step)

definition name_char :: "char \<Rightarrow> bool" where
  "name_char c \<longleftrightarrow> c \<noteq> CHR '')'' \<and> c \<noteq> CHR 0x7D \<and> c \<noteq> CHR 0x5C"

lemma macro_loop_name:
  assumes "cl = CHR '')'' \<or> cl = CHR 0x7D" "0 < cnt"
  shows "\<forall>c\<in>set u. name_char c \<Longrightarrow>
   macro_loop env (u @ cl # rest) 2 prev (pre @ u @ cl # rest) out cnt =
   do {
     envval \<leftarrow> env (pre @ u);
     case envval of
       None \<Rightarrow> macro_loop env rest 0 cl (pre @ u @ cl # rest) out cnt
     | Some v \<Rightarrow> macro_loop env rest 0 cl (pre @ u @ cl # rest) (out @ take cnt v) (cnt - length v)
   }"
proof (induction u arbitrary: prev pre)
  case Nil
  show ?case using assms by (cases "env pre") (auto simp: macro_switch_def macro_loop_step split: option.splits)
next
  case (Cons c u)
  have "macro_loop env ((c # u) @ cl # rest) 2 prev vs out cnt = macro_loop env (u @ cl # rest) 2 c vs out cnt" for vs
    using Cons.prems assms by (auto simp: macro_switch_def name_char_def macro_loop_step)
  moreover have "\<forall>c\<in>set u. name_char c" using Cons.prems by simp
  note Cons.IH [OF this, of c "pre @ [c]"]
  ultimately show ?case by (simp only: append_assoc append_Cons append_Nil)
qed

text \<open>A line as the pieces the language has: literal text, a variable reference in either bracket form, and
  text in single quotes.\<close>

datatype seg = Lit string | Ref bool string | Quo string

fun seg_text :: "seg \<Rightarrow> string" where
  "seg_text (Lit t) = t"
| "seg_text (Ref br n) = (if br then CHR ''$'' # CHR 0x7B # n @ [CHR 0x7D] else CHR ''$'' # CHR ''('' # n @ [CHR '')''])"
| "seg_text (Quo t) = CHR 0x27 # t @ [CHR 0x27]"

fun seg_ok :: "seg \<Rightarrow> bool" where
  "seg_ok (Lit t) \<longleftrightarrow> (\<forall>c\<in>set t. plain_char c)"
| "seg_ok (Ref br n) \<longleftrightarrow> (\<forall>c\<in>set n. name_char c)"
| "seg_ok (Quo t) \<longleftrightarrow> (\<forall>c\<in>set t. c \<noteq> CHR 0x27 \<and> c \<noteq> CHR 0x5C)"

fun seg_value :: "(string \<Rightarrow> string option option) \<Rightarrow> seg \<Rightarrow> string" where
  "seg_value env (Lit t) = t"
| "seg_value env (Ref br n) = (case env n of Some (Some v) \<Rightarrow> v | _ \<Rightarrow> [])"
| "seg_value env (Quo t) = t"

lemma macro_loop_seg:
  assumes "seg_ok g" "prev \<noteq> CHR 0x5C" "length (seg_value env g) < cnt" "\<And>n. env n \<noteq> None"
  shows "\<exists>prev' vs'. prev' \<noteq> CHR 0x5C \<and>
    macro_loop env (seg_text g @ rest) 0 prev vs out cnt =
    macro_loop env rest 0 prev' vs' (out @ seg_value env g) (cnt - length (seg_value env g))"
proof (cases g)
  case (Lit t)
  have "last (prev # t) \<noteq> CHR 0x5C" using assms(1, 2) Lit by (auto simp: plain_char_def)
  moreover have "macro_loop env (t @ rest) 0 prev vs out cnt = macro_loop env rest 0 (last (prev # t)) vs (out @ t) (cnt - length t)"
    using assms(1, 3) Lit by (intro macro_loop_plain) simp_all
  ultimately show ?thesis unfolding Lit seg_text.simps seg_value.simps by blast
next
  case (Quo t)
  have "macro_loop env (CHR 0x27 # t @ CHR 0x27 # rest) 0 prev vs out cnt = macro_loop env (t @ CHR 0x27 # rest) 3 (CHR 0x27) vs out cnt"
    using assms(2, 3) by (simp add: macro_switch_def macro_loop_step)
  then show ?thesis using macro_loop_quoted [of t cnt "CHR 0x27" env rest vs out] assms Quo
    by (intro exI [of _ "CHR 0x27"] exI [of _ vs]) simp
next
  case (Ref br n)
  define cl where "cl = (if br then CHR 0x7D else CHR '')'')"
  define ol where "ol = (if br then CHR 0x7B else CHR ''('')"
  have g: "seg_text g = CHR ''$'' # ol # n @ [cl]" by (simp add: Ref cl_def ol_def)
  have cl: "cl = CHR '')'' \<or> cl = CHR 0x7D" "cl \<noteq> CHR 0x5C" by (simp_all add: cl_def)
  have ol: "ol = CHR ''('' \<or> ol = CHR 0x7B" "ol \<noteq> CHR 0x5C" by (simp_all add: ol_def)
  obtain ev where ev: "env n = Some ev" using assms(4) by blast
  have c0: "cnt \<noteq> 0" using assms(3) by simp
  let ?vs = "n @ cl # rest"
  have "macro_loop env (seg_text g @ rest) 0 prev vs out cnt = macro_loop env ?vs 2 ol ?vs out cnt"
    unfolding g using assms(2) c0 ol by (simp add: macro_switch_def macro_loop_step)
  also have "\<dots> = (case ev of None \<Rightarrow> macro_loop env rest 0 cl ?vs out cnt
     | Some v \<Rightarrow> macro_loop env rest 0 cl ?vs (out @ take cnt v) (cnt - length v))"
    using macro_loop_name [OF cl(1), of cnt n env rest ol "[]" out] assms(1) Ref c0 ev by (cases ev) simp_all
  finally show ?thesis using assms(3) Ref ev cl(2)
    by (intro exI [of _ cl] exI [of _ ?vs]) (auto split: option.splits)
qed

lemma macro_loop_segs:
  assumes "\<forall>g\<in>set gs. seg_ok g" "prev \<noteq> CHR 0x5C" "length (concat (map (seg_value env) gs)) < cnt" "\<And>n. env n \<noteq> None"
  shows "macro_loop env (concat (map seg_text gs)) 0 prev vs out cnt =
    Some (out @ concat (map (seg_value env) gs), cnt - length (concat (map (seg_value env) gs)))"
  using assms(1-3)
proof (induction gs arbitrary: prev vs out cnt)
  case (Cons g gs)
  have "length (seg_value env g) < cnt" using Cons.prems(3) by simp
  moreover have "seg_ok g" using Cons.prems(1) by simp
  ultimately have "\<exists>prev' vs'. prev' \<noteq> CHR 0x5C \<and> macro_loop env (seg_text g @ concat (map seg_text gs)) 0 prev vs out cnt =
      macro_loop env (concat (map seg_text gs)) 0 prev' vs' (out @ seg_value env g) (cnt - length (seg_value env g))"
    by (intro macro_loop_seg Cons.prems(2) assms(4))
  then obtain prev' vs' where
    p: "prev' \<noteq> CHR 0x5C" "macro_loop env (seg_text g @ concat (map seg_text gs)) 0 prev vs out cnt =
      macro_loop env (concat (map seg_text gs)) 0 prev' vs' (out @ seg_value env g) (cnt - length (seg_value env g))"
    by (elim exE conjE)
  have r: "length (concat (map (seg_value env) gs)) < cnt - length (seg_value env g)"
    using Cons.prems(3) unfolding list.map concat.simps length_append by linarith
  have "macro_loop env (concat (map seg_text gs)) 0 prev' vs' (out @ seg_value env g) (cnt - length (seg_value env g)) =
      Some ((out @ seg_value env g) @ concat (map (seg_value env) gs),
        cnt - length (seg_value env g) - length (concat (map (seg_value env) gs)))"
    using Cons.prems(1) p(1) r by (intro Cons.IH) simp_all
  then show ?case by (simp only: list.map concat.simps p(2) append_assoc length_append diff_diff_left)
qed simp

lemma process_macros_segs:
  assumes "\<forall>g\<in>set gs. seg_ok g" "length (concat (map (seg_value env) gs)) < CFG_CBSIZE" "\<And>n. env n \<noteq> None"
  shows "process_macros env (concat (map seg_text gs)) ft =
    Some (concat (map (seg_value env) gs) @ NUL # drop (length (concat (map (seg_value env) gs)) + 1) ft)"
  using macro_loop_segs [OF assms(1) _ assms(2, 3), of NUL "[]" "[]"] assms(2)
  by (simp add: process_macros_def NUL_def)

lemma process_macros_overlong:
  assumes "\<forall>c\<in>set n. name_char c" "env n = Some (Some v)" "CFG_CBSIZE \<le> length v"
  shows "process_macros env (seg_text (Ref br n)) ft = Some (take CFG_CBSIZE v)"
proof -
  define cl where "cl = (if br then CHR 0x7D else CHR '')'')"
  define ol where "ol = (if br then CHR 0x7B else CHR ''('')"
  have c0: "0 < CFG_CBSIZE" by (simp add: CFG_CBSIZE_def)
  have g: "seg_text (Ref br n) = CHR ''$'' # ol # n @ [cl]" by (simp add: cl_def ol_def)
  have ol: "ol = CHR ''('' \<or> ol = CHR 0x7B" "ol \<noteq> CHR 0x5C" by (simp_all add: ol_def)
  have "macro_loop env (seg_text (Ref br n)) 0 NUL [] [] CFG_CBSIZE = macro_loop env (n @ [cl]) 2 ol (n @ [cl]) [] CFG_CBSIZE"
    unfolding g using c0 ol by (simp add: macro_switch_def NUL_def macro_loop_step)
  also have "\<dots> = Some (take CFG_CBSIZE v, 0)"
    using macro_loop_name [of cl CFG_CBSIZE n env "[]" ol "[]" "[]"] assms c0 by (simp add: cl_def)
  finally show ?thesis by (simp add: process_macros_def)
qed

subsection \<open>Lemmas: running a line\<close>

definition token_ok :: "string \<Rightarrow> bool" where
  "token_ok t \<longleftrightarrow> (\<forall>c\<in>set t. plain_char c \<and> c \<noteq> CHR '';'' \<and> c \<noteq> NUL)"

definition sep_free :: "string \<Rightarrow> bool" where
  "sep_free t \<longleftrightarrow> (\<forall>c\<in>set t. c \<noteq> CHR 0x27 \<and> c \<noteq> CHR '';'' \<and> c \<noteq> CHR 0x5C)"

lemma token_sep_free: "token_ok t \<Longrightarrow> sep_free t"
  by (simp add: token_ok_def sep_free_def plain_char_def)

lemma find_sep_free: "sep_free t \<Longrightarrow> find_sep prev f False t = length t"
  by (induction t arbitrary: prev f) (simp_all add: sep_free_def)

lemma find_sep_more: "sep_free t \<Longrightarrow> t \<noteq> [] \<or> \<not> f \<and> prev \<noteq> CHR 0x5C \<Longrightarrow> find_sep prev f False (t @ CHR '';'' # rest) = length t"
  by (induction t arbitrary: prev f) (auto simp: sep_free_def)

lemma process_macros_plain:
  assumes "token_ok t" "length t < CFG_CBSIZE"
  shows "process_macros env t ft = Some (t @ NUL # drop (length t + 1) ft)"
  using macro_loop_plain [of t CFG_CBSIZE env "[]" NUL "[]" "[]"] assms
  by (auto simp: process_macros_def token_ok_def)

lemma plain_args:
  assumes "token_ok t" "length (words t) < CFG_MAXARGS"
  shows "\<exists>argv buf. parse_line (t @ NUL # rest) = Some (argv, buf, False) \<and> map (str_at buf) argv = words t"
proof -
  have "NUL \<notin> set t" using assms(1) by (auto simp: token_ok_def)
  from parse_line_words [OF this, of rest] assms(2) show ?thesis by fastforce
qed

text \<open>The meaning of a line: its commands in order, a failing look-up or call setting the result to -1,
  control-C ending the line.\<close>

fun exec_seq ::
  "'w dev_calls \<Rightarrow> serial_drv \<Rightarrow> 'w cmd_caller \<Rightarrow> cmd_tbl list \<Rightarrow> int \<Rightarrow> string list list \<Rightarrow> int \<Rightarrow> int \<Rightarrow> 'w ub_state \<Rightarrow>
   ('w ub_state \<times> int) option" where
  "exec_seq calls drv call_cmd tbl flag [] rc rep s = Some (s, if rc \<noteq> 0 then rc else rep)"
| "exec_seq calls drv call_cmd tbl flag (args # cmds) rc rep s =
     (case find_cmd tbl (hd args) of
        None \<Rightarrow> do {
          s \<leftarrow> out_printf calls drv unknown_cmd_fmt [VStr (Some (hd args))] s;
          exec_seq calls drv call_cmd tbl flag cmds (- 1) rep s
        }
      | Some c \<Rightarrow>
          if int (length args) > maxargs c
          then do {
            s \<leftarrow> out_printf calls drv usage_fmt [VStr (cmd_usage c)] s;
            exec_seq calls drv call_cmd tbl flag cmds (- 1) rep s
          }
          else do {
            (s, r) \<leftarrow> call_cmd (cmd_fn c) c flag args s;
            if had_ctrlc (con s) \<noteq> 0 then Some (s, 0)
            else exec_seq calls drv call_cmd tbl flag cmds (if r \<noteq> 0 then - 1 else rc) (rep AND repeatable c) s
          })"

fun join_cmds :: "string list \<Rightarrow> string" where
  "join_cmds [] = []"
| "join_cmds [t] = t"
| "join_cmds (t # ts) = t @ CHR '';'' # join_cmds ts"

definition cmd_ok :: "string \<Rightarrow> bool" where
  "cmd_ok t \<longleftrightarrow> token_ok t \<and> words t \<noteq> [] \<and> length (words t) < CFG_MAXARGS \<and> length t < CFG_CBSIZE"

lemma cmd_ok_nonempty: "cmd_ok t \<Longrightarrow> t \<noteq> []"
proof
  assume "cmd_ok t" "t = []"
  moreover have "words [] = []" by (subst words.simps) simp
  ultimately show False by (simp add: cmd_ok_def)
qed

text \<open>One token on its way through the buffers.\<close>

lemma run_token_cmd:
  assumes "cmd_ok t"
  shows "\<exists>ft'. run_token calls drv call_cmd tbl flag t ft s =
    (case find_cmd tbl (hd (words t)) of
       None \<Rightarrow> do { s \<leftarrow> out_printf calls drv unknown_cmd_fmt [VStr (Some (hd (words t)))] s; Some (s, ft', None, - 1) }
     | Some c \<Rightarrow>
         if int (length (words t)) > maxargs c
         then do { s \<leftarrow> out_printf calls drv usage_fmt [VStr (cmd_usage c)] s; Some (s, ft', None, - 1) }
         else do { (s, r) \<leftarrow> call_cmd (cmd_fn c) c flag (words t) s; Some (s, ft', Some c, r) })"
proof -
  have t: "token_ok t" "length t < CFG_CBSIZE" "length (words t) < CFG_MAXARGS" "words t \<noteq> []" using assms by (simp_all add: cmd_ok_def)
  obtain w ws where ws: "words t = w # ws" using t(4) by (cases "words t") auto
  obtain argv buf where p: "parse_line (t @ NUL # drop (length t + 1) ft) = Some (argv, buf, False)" "map (str_at buf) argv = words t"
    using plain_args [OF t(1, 3)] by blast
  then show ?thesis
    by (intro exI [of _ buf]) (simp add: run_token_def process_macros_plain [OF t(1, 2)] Let_def ws split: option.splits)
qed

lemma run_loop_seq:
  assumes "\<forall>t\<in>set ts. cmd_ok t"
  shows "run_loop calls drv call_cmd tbl flag before (join_cmds ts) ft rc rep s = exec_seq calls drv call_cmd tbl flag (map words ts) rc rep s"
  using assms
proof (induction ts arbitrary: before ft rc rep s)
  case Nil then show ?case by (subst run_loop.simps) simp
next
  case (Cons t ts)
  have ct: "cmd_ok t" using Cons.prems by simp
  then have t: "token_ok t" "t \<noteq> []" by (simp_all add: cmd_ok_def cmd_ok_nonempty)
  obtain rest where j: "join_cmds (t # ts) = t @ rest" "find_sep before True False (t @ rest) = length t"
    "drop (length t + 1) (t @ rest) = join_cmds ts"
    using find_sep_more [OF token_sep_free [OF t(1)], of True before "join_cmds ts"] find_sep_free [OF token_sep_free [OF t(1)], of before True] t(2)
    by (cases ts) auto
  have IH: "run_loop calls drv call_cmd tbl flag b (join_cmds ts) f r p s' = exec_seq calls drv call_cmd tbl flag (map words ts) r p s'" for b f r p s'
    using Cons by simp
  obtain ft' where tok: "run_token calls drv call_cmd tbl flag t ft s =
    (case find_cmd tbl (hd (words t)) of
       None \<Rightarrow> do { s \<leftarrow> out_printf calls drv unknown_cmd_fmt [VStr (Some (hd (words t)))] s; Some (s, ft', None, - 1) }
     | Some c \<Rightarrow>
         if int (length (words t)) > maxargs c
         then do { s \<leftarrow> out_printf calls drv usage_fmt [VStr (cmd_usage c)] s; Some (s, ft', None, - 1) }
         else do { (s, r) \<leftarrow> call_cmd (cmd_fn c) c flag (words t) s; Some (s, ft', Some c, r) })"
    using run_token_cmd [OF ct, of calls drv call_cmd tbl flag ft s] by (elim exE)
  have "run_loop calls drv call_cmd tbl flag before (t @ rest) ft rc rep s =
    do {
      (s, ft, c, r) \<leftarrow> run_token calls drv call_cmd tbl flag t ft s;
      case c of
        None \<Rightarrow> exec_seq calls drv call_cmd tbl flag (map words ts) (if r \<noteq> 0 then - 1 else rc) rep s
      | Some c \<Rightarrow>
          if had_ctrlc (con s) \<noteq> 0 then Some (s, 0)
          else exec_seq calls drv call_cmd tbl flag (map words ts) (if r \<noteq> 0 then - 1 else rc) (rep AND repeatable c) s
    }"
    using t(2) j by (subst run_loop.simps) (simp add: Let_def IH cong: option.case_cong prod.case_cong if_cong)
  then have eq: "run_loop calls drv call_cmd tbl flag before (join_cmds (t # ts)) ft rc rep s = \<dots>" unfolding j(1) .
  show ?case
  proof (cases "find_cmd tbl (hd (words t))")
    case None
    then show ?thesis unfolding eq tok
      by (cases "out_printf calls drv unknown_cmd_fmt [VStr (Some (hd (words t)))] s") simp_all
  next
    case (Some c)
    then show ?thesis unfolding eq tok
      by (cases "out_printf calls drv usage_fmt [VStr (cmd_usage c)] s"; cases "call_cmd (cmd_fn c) c flag (words t) s")
         (auto split: prod.splits)
  qed
qed

lemma join_cmds_empty: "\<forall>t\<in>set ts. t \<noteq> [] \<Longrightarrow> join_cmds ts = [] \<longleftrightarrow> ts = []"
  by (induction ts rule: join_cmds.induct) auto

lemma blank_plain: "is_blank c \<Longrightarrow> plain_char c \<and> c \<noteq> CHR '';'' \<and> c \<noteq> NUL"
  by (auto simp: plain_char_def is_blank_def NUL_def)

lemma run_token_blank:
  assumes "token_ok t" "words t = []" "length t < CFG_CBSIZE"
  shows "run_token calls drv call_cmd tbl flag t ft s = None"
proof -
  have "length (words t) < CFG_MAXARGS" using assms(2) by (simp add: CFG_MAXARGS_def)
  from plain_args [OF assms(1) this, of "drop (length t + 1) ft"] obtain argv buf where
    "parse_line (t @ NUL # drop (length t + 1) ft) = Some (argv, buf, False)" "map (str_at buf) argv = []"
    using assms(2) by auto
  then show ?thesis by (simp add: run_token_def process_macros_plain [OF assms(1, 3)])
qed

lemma conv_spec_s:
  assumes "length w < 1000"
  shows "conv_spec k (CHR ''s'' # fmt) (VStr (Some w) # args) = Some (w, [], fmt, args)"
  using assms by (simp add: conv_spec_eval conv_def out_string_def has_def flag_defs)

lemma vsprintf_unknown:
  assumes "length w < 1000"
  shows "vsprintf unknown_cmd_fmt [VStr (Some w)] =
    Some (''Unknown command '' @ [CHR 0x27] @ w @ [CHR 0x27] @ '' - try '' @ [CHR 0x27] @ ''help'' @ [CHR 0x27, CHR 10], [], int (length w) + 32)"
proof -
  have "conv_spec (length (''Unknown command '' @ [CHR 0x27])) (''s'' @ [CHR 0x27] @ '' - try '' @ [CHR 0x27] @ ''help'' @ [CHR 0x27, CHR 10]) [VStr (Some w)]
    = Some (w, [], [CHR 0x27] @ '' - try '' @ [CHR 0x27] @ ''help'' @ [CHR 0x27, CHR 10], [])"
    using conv_spec_s [OF assms] by simp
  then show ?thesis by (simp add: vsprintf_def unknown_cmd_fmt_def)
qed

subsection \<open>Properties\<close>

text \<open>\<open>parse_line\<close> splits a terminated line into its words, separated by blanks and tabs, never leaving the
  buffer: the arguments are the first sixteen words, each terminated in place, and the message is printed when
  there are more.\<close>

theorem parse_line_splits:
  assumes "NUL \<notin> set t"
  shows "\<exists>argv buf tm. parse_line (t @ NUL # rest) = Some (argv, buf, tm) \<and> length buf = length (t @ NUL # rest) \<and>
    map (str_at buf) argv = take CFG_MAXARGS (words t) \<and>
    (tm \<longrightarrow> CFG_MAXARGS \<le> length (words t)) \<and> (CFG_MAXARGS < length (words t) \<longrightarrow> tm)"
  using assms by (rule parse_line_words)

theorem parse_line_splits_witness:
  "\<exists>argv buf tm. parse_line (''setenv a  b'' @ [NUL]) = Some (argv, buf, tm) \<and> map (str_at buf) argv = [''setenv'', ''a'', ''b'']"
proof -
  have "words ''setenv a  b'' = [''setenv'', ''a'', ''b'']" by (simp add: words.simps is_blank_def)
  then show ?thesis using parse_line_splits [of "''setenv a  b''" "[]"] by (auto simp: NUL_def CFG_MAXARGS_def)
qed

text \<open>C23: \<open>process_macros\<close> replaces every \<open>$(name)\<close> and \<open>${name}\<close> by the value of the variable, or by nothing when
  it is not defined, takes one level of single quotes off quoted text without looking into it, and copies the
  rest, terminated, as long as the result fits.\<close>

theorem macros_expand:
  assumes "\<forall>g\<in>set gs. seg_ok g" "length (concat (map (seg_value env) gs)) < CFG_CBSIZE" "\<And>n. env n \<noteq> None"
  shows "process_macros env (concat (map seg_text gs)) ft =
    Some (concat (map (seg_value env) gs) @ NUL # drop (length (concat (map (seg_value env) gs)) + 1) ft)"
  using assms by (rule process_macros_segs)

theorem macros_expand_witness:
  "process_macros (\<lambda>n. Some (if n = ''ip'' then Some ''10.0.0.1'' else None)) (''ping '' @ ''${ip}'' @ [CHR 0x27] @ ''$x'' @ [CHR 0x27] @ ''$(no).'') []
   = Some (''ping 10.0.0.1$x.'' @ [NUL])"
  using macros_expand [of "[Lit ''ping '', Ref True ''ip'', Quo ''$x'', Ref False ''no'', Lit ''.'']"
      "\<lambda>n. Some (if n = ''ip'' then Some ''10.0.0.1'' else None)" "[]"]
  by (simp add: plain_char_def name_char_def CFG_CBSIZE_def)

text \<open>A variable whose value fills the buffer leaves it without a NUL, and splitting it into arguments reads
  past its end.\<close>

theorem long_value_unterminated:
  assumes "\<forall>c\<in>set n. name_char c" "sep_free n" "length n < 200" "getenv (s\<lparr>con := clear_ctrlc (con s)\<rparr>) n = Some (Some v)"
    and "CFG_CBSIZE \<le> length v" "\<forall>c\<in>set (take CFG_CBSIZE v). c \<noteq> NUL \<and> \<not> is_blank c"
  shows "run_command calls drv call_cmd tbl before junk (Some (seg_text (Ref br n))) flag s = None"
proof -
  let ?t = "seg_text (Ref br n)" and ?s = "s\<lparr>con := clear_ctrlc (con s)\<rparr>"
  have t: "?t \<noteq> []" "length ?t < CFG_CBSIZE" "sep_free ?t" using assms(2, 3) by (auto simp: CFG_CBSIZE_def sep_free_def)
  have "take CFG_CBSIZE v \<noteq> []" using assms(5) by (auto simp: CFG_CBSIZE_def)
  from parse_line_unterminated [OF this assms(6)] process_macros_overlong [of n "getenv ?s" v br junk] assms(1, 4, 5)
  have "run_token calls drv call_cmd tbl flag ?t junk ?s = None" by (simp add: run_token_def del: take_eq_Nil)
  then have "run_loop calls drv call_cmd tbl flag before ?t junk 0 1 ?s = None"
    using t(1) find_sep_free [OF t(3)] by (subst run_loop.simps) (simp add: Let_def)
  then show ?thesis using t by (simp add: run_command_def)
qed

text \<open>An environment with a variable \<open>a\<close> of 300 characters.\<close>

definition long_env :: "string ub_state" where
  "long_env = (demo_env two_devs)\<lparr>env_data := (''a='' @ replicate 300 CHR ''x'') @ NUL # NUL # replicate 3788 NUL\<rparr>"

lemma long_env_ok: "env_ok (long_env\<lparr>con := c\<rparr>) [''a='' @ replicate 300 CHR ''x'']"
  by (simp add: env_ok_def long_env_def demo_env_def env_repr_def ENV_SIZE_def CFG_ENV_SIZE_def crc_wf_def var_ok_def NUL_def)

theorem long_value_unterminated_witness:
  "run_command demo_calls demo_drv (\<lambda>_ _ _ _ s. Some (s, 0)) [] NUL [] (Some ''${a}'') 0 long_env = None"
proof -
  have "lookup [''a='' @ replicate 300 CHR ''x''] ''a'' = Some (replicate 300 CHR ''x'')"
    by (simp add: lookup_def var_name_def var_value_def)
  then have "getenv (long_env\<lparr>con := clear_ctrlc (con long_env)\<rparr>) ''a'' = Some (Some (replicate 300 CHR ''x''))"
    using getenv_lookup [OF long_env_ok, of "''a''"] by (simp add: name_ok_def NUL_def)
  from long_value_unterminated [OF _ _ _ this, of demo_calls demo_drv "\<lambda>_ _ _ _ s. Some (s, 0)" "[]" NUL "[]" True 0]
  show ?thesis by (simp add: name_char_def sep_free_def CFG_CBSIZE_def NUL_def is_blank_def)
qed

text \<open>C11: A line of commands separated by semicolons runs each command once, in order, with its words as
  arguments: an unknown command or too many arguments give a message and -1 but the next command still runs,
  a non-zero return gives -1, control-C ends the line, and otherwise the line is repeatable when all its
  commands are.\<close>

theorem run_command_runs_all:
  assumes "\<forall>t\<in>set ts. cmd_ok t" "ts \<noteq> []" "length (join_cmds ts) < CFG_CBSIZE"
  shows "run_command calls drv call_cmd tbl before junk (Some (join_cmds ts)) flag s =
    exec_seq calls drv call_cmd tbl flag (map words ts) 0 1 (s\<lparr>con := clear_ctrlc (con s)\<rparr>)"
proof -
  have "join_cmds ts \<noteq> []" using assms(1, 2) cmd_ok_nonempty join_cmds_empty by blast
  then show ?thesis using assms(3) run_loop_seq [OF assms(1)] by (simp add: run_command_def)
qed

text \<open>A line of blanks is passed to the command look-up without a command name: \<open>argv[0]\<close> is NULL and
  \<open>find_cmd\<close> follows it.\<close>

theorem blank_line_faults:
  assumes "t \<noteq> []" "\<forall>c\<in>set t. is_blank c" "length t < CFG_CBSIZE"
  shows "run_command calls drv call_cmd tbl before junk (Some t) flag s = None"
proof -
  have tok: "token_ok t" using assms(2) blank_plain by (auto simp: token_ok_def)
  have "words t = []" using assms(2) by (subst words.simps) simp
  note none = run_token_blank [OF tok this assms(3)]
  have "run_loop calls drv call_cmd tbl flag before t junk 0 1 (s\<lparr>con := clear_ctrlc (con s)\<rparr>) = None"
    using assms(1) by (subst run_loop.simps) (simp add: Let_def none find_sep_free [OF token_sep_free [OF tok]])
  then show ?thesis using assms(1, 3) by (simp add: run_command_def)
qed

theorem blank_line_faults_witness: "run_command demo_calls demo_drv (\<lambda>_ _ _ _ s. Some (s, 0)) [] NUL [] (Some '' '') 0 (demo_env two_devs) = None"
  by (rule blank_line_faults) (simp_all add: is_blank_def CFG_CBSIZE_def)

text \<open>The message for an unknown command does not fit into the buffer \<open>printf\<close> formats into when the name has
  250 characters or more, which a line of 255 characters allows.\<close>

theorem long_name_overruns:
  assumes "token_ok w" "words w = [w]" "250 \<le> length w" "length w < CFG_CBSIZE" "find_cmd tbl w = None"
  shows "run_command calls drv call_cmd tbl before junk (Some w) flag s = None"
proof -
  have ok: "cmd_ok w" using assms by (simp add: cmd_ok_def CFG_MAXARGS_def)
  have l: "length w < 1000" using assms(4) by (simp add: CFG_CBSIZE_def)
  have "out_printf calls drv unknown_cmd_fmt [VStr (Some w)] t = None" for t
    using vsprintf_unknown [OF l] assms(3) by (simp add: out_printf_def con_printf_def CFG_PBSIZE_def)
  then have "exec_seq calls drv call_cmd tbl flag [[w]] 0 1 (s\<lparr>con := clear_ctrlc (con s)\<rparr>) = None"
    using assms(5) by simp
  moreover have "w \<noteq> []" using ok by (rule cmd_ok_nonempty)
  moreover have "run_loop calls drv call_cmd tbl flag before (join_cmds [w]) junk 0 1 (s\<lparr>con := clear_ctrlc (con s)\<rparr>) =
      exec_seq calls drv call_cmd tbl flag (map words [w]) 0 1 (s\<lparr>con := clear_ctrlc (con s)\<rparr>)"
    using ok by (intro run_loop_seq) simp
  ultimately show ?thesis using assms(2, 4) by (simp add: run_command_def del: exec_seq.simps)
qed

lemma words_single: "w \<noteq> [] \<Longrightarrow> \<forall>c\<in>set w. \<not> is_blank c \<Longrightarrow> words w = [w]"
proof (cases rule: line_cases [of w])
  case (last bl w') 
  assume "w \<noteq> []" "\<forall>c\<in>set w. \<not> is_blank c"
  with last have "bl = []" by (cases bl) auto
  with last show ?thesis by simp
qed auto

theorem long_name_overruns_witness:
  "run_command demo_calls demo_drv (\<lambda>_ _ _ _ s. Some (s, 0)) [] NUL [] (Some (replicate 254 CHR ''x'')) 0 long_env = None"
  by (rule long_name_overruns)
     (simp_all add: token_ok_def plain_char_def NUL_def CFG_CBSIZE_def find_cmd_def words_single is_blank_def)

theorem run_command_runs_all_witness:
  "run_command demo_calls demo_drv (\<lambda>_ _ _ _ s. Some (s, 0)) [demo_cmd ''go'', demo_cmd ''help''] NUL [] (Some ''go;he'') 0 long_env
   = Some (long_env\<lparr>con := clear_ctrlc (con long_env)\<rparr>, 1)"
proof -
  have w: "words ''go'' = [''go'']" "words ''he'' = [''he'']" by (simp_all add: words_single is_blank_def)
  have "cmd_ok ''go''" "cmd_ok ''he''"
    by (simp_all add: cmd_ok_def w token_ok_def plain_char_def NUL_def CFG_CBSIZE_def CFG_MAXARGS_def)
  moreover have "find_cmd [demo_cmd ''go'', demo_cmd ''help''] ''go'' = Some (demo_cmd ''go'')"
    "find_cmd [demo_cmd ''go'', demo_cmd ''help''] ''he'' = Some (demo_cmd ''help'')"
    by (simp_all add: find_cmd_def demo_cmd_def cmp_len_def)
  ultimately show ?thesis
    using run_command_runs_all [of "[''go'', ''he'']" demo_calls demo_drv "\<lambda>_ _ _ _ s. Some (s, 0)" "[demo_cmd ''go'', demo_cmd ''help'']" NUL "[]" 0 long_env]
    by (simp add: w CFG_CBSIZE_def demo_cmd_def had_ctrlc_def clear_ctrlc_def)
qed

text \<open>The states the main loop passes through.\<close>

inductive main_reach ::
  "(string option \<Rightarrow> int \<Rightarrow> 'w ub_state \<Rightarrow> ('w ub_state \<times> int) option) \<Rightarrow> ('w ub_state \<Rightarrow> (int \<times> string \<times> 'w ub_state) option) \<Rightarrow>
   'w dev_calls \<Rightarrow> serial_drv \<Rightarrow> 'w ub_state \<Rightarrow> string \<times> int \<times> 'w ub_state \<Rightarrow> bool"
  for run rl calls drv s0 where
  start: "main_start run calls drv s0 = Some s \<Longrightarrow> main_reach run rl calls drv s0 ([], 1, s)"
| round: "main_reach run rl calls drv s0 st \<Longrightarrow> main_round run rl calls drv st = Some st' \<Longrightarrow> main_reach run rl calls drv s0 st'"

lemma main_reach_last: "main_reach run rl calls drv s0 st \<Longrightarrow> fst (snd st) \<le> 0 \<Longrightarrow> fst st = []"
  by (induction rule: main_reach.induct) (auto simp: main_round_def bind_eq_Some_conv split: prod.splits if_splits)

text \<open>C27: A command is repeated by an empty line only while it is repeatable: in every state the main loop
  reaches, after a line that failed, was interrupted or is not repeatable, an empty line runs nothing.\<close>

theorem no_repeat_after_failure:
  assumes "main_reach (run_command calls drv call_cmd tbl before junk) rl calls drv s0 (lastcommand, rc, s)" "rc \<le> 0"
    and "rl s = Some (0, buf, s1)"
  shows "main_round (run_command calls drv call_cmd tbl before junk) rl calls drv (lastcommand, rc, s) =
    Some ([], - 1, s1\<lparr>con := clear_ctrlc (con s1)\<rparr>)"
proof -
  have "lastcommand = []" using main_reach_last [OF assms(1)] assms(2) by simp
  then show ?thesis using assms(3) by (simp add: main_round_def run_command_def)
qed

lemma main_start_never_boots: "env_ok s vs \<Longrightarrow> main_start run calls drv s = Some s"
  using getenv_lookup [of s vs "''bootdelay''"] getenv_lookup [of s vs "''bootcmd''"]
  by (simp add: main_start_def name_ok_def NUL_def)

theorem no_repeat_after_failure_witness:
  "main_round (run_command demo_calls demo_drv (\<lambda>_ _ _ _ s. Some (s, 0)) [] NUL []) (\<lambda>s. Some (0, [], s)) demo_calls demo_drv
     ([], - 1, long_env\<lparr>con := clear_ctrlc (con long_env)\<rparr>) = Some ([], - 1, long_env\<lparr>con := clear_ctrlc (con long_env)\<rparr>)"
proof -
  let ?run = "run_command demo_calls demo_drv (\<lambda>_ _ _ _ s. Some (s, 0)) [] NUL []" and ?rl = "\<lambda>s. Some (0, [], s)"
  have "env_ok long_env [''a='' @ replicate 300 CHR ''x'']" using long_env_ok [of "con long_env"] by simp
  then have "main_start ?run demo_calls demo_drv long_env = Some long_env" by (rule main_start_never_boots)
  then have "main_reach ?run ?rl demo_calls demo_drv long_env ([], 1, long_env)" by (rule main_reach.start)
  then have "main_reach ?run ?rl demo_calls demo_drv long_env ([], - 1, long_env\<lparr>con := clear_ctrlc (con long_env)\<rparr>)"
    by (rule main_reach.round) (simp add: main_round_def run_command_def)
  from no_repeat_after_failure [OF this, of "[]" "long_env\<lparr>con := clear_ctrlc (con long_env)\<rparr>"]
  show ?thesis by (simp add: clear_ctrlc_def)
qed

end
