(* ===== verification/Readline.thy ===== *)
theory Readline
  imports Serial Shell
begin

text \<open>
  The line editor of the console, \<open>readline\<close> and \<open>delete_char\<close> of \<open>drivers/rt2880_eth.c\<close>. \<open>console_buffer\<close> is an
  array of \<open>CFG_CBSIZE\<close> characters accessed through \<open>rd\<close> and \<open>wr\<close> (leaving it is \<open>None\<close>), with the pointer
  \<open>p\<close> into it, the count \<open>n\<close> and the output column \<open>col\<close> the code keeps beside each other. \<open>CONFIG_CMD_HISTORY\<close> is
  defined in \<open>main.c\<close> only, so the history part of \<open>readline\<close> is not built; nor are \<open>CONFIG_AUTO_COMPLETE\<close>,
  \<open>CONFIG_BOOT_RETRY_TIME\<close> and \<open>CONFIG_SHOW_ACTIVITY\<close>.
\<close>

subsection \<open>State and output\<close>

record edit_state =
  ed_buf :: string
  ed_p :: nat
  ed_n :: nat
  ed_col :: int

definition TAB :: char where "TAB = CHR 9"
definition erase_seq :: string where "erase_seq = [CHR 8, CHR '' '', CHR 8]"
definition tab_seq :: string where "tab_seq = replicate 8 CHR '' ''"

text \<open>\<open>while (col > plen) { puts (erase_seq); --col; }\<close>\<close>

function erase_cols :: "'w dev_calls \<Rightarrow> serial_drv \<Rightarrow> int \<Rightarrow> int \<Rightarrow> 'w console_state \<Rightarrow> (int \<times> 'w console_state) option" where
  "erase_cols calls drv plen col cs =
     (if col > plen
      then (case con_puts calls drv erase_seq cs of None \<Rightarrow> None | Some cs \<Rightarrow> erase_cols calls drv plen (col - 1) cs)
      else Some (col, cs))"
  by pat_completeness auto
termination by (relation "measure (\<lambda>(_, _, plen, col, _). nat (col - plen))") auto

declare erase_cols.simps [simp del]

text \<open>A character to the terminal, with tabs as blanks; the same in \<open>readline\<close> and in \<open>delete_char\<close>.\<close>

definition echo_char :: "'w dev_calls \<Rightarrow> serial_drv \<Rightarrow> char \<Rightarrow> int \<times> 'w console_state \<Rightarrow> (int \<times> 'w console_state) option" where
  "echo_char calls drv c st =
     (case st of (col, cs) \<Rightarrow>
        if c = TAB then do { cs \<leftarrow> con_puts calls drv (drop (nat (col mod 8)) tab_seq) cs; Some (col + (8 - col mod 8), cs) }
        else do { cs \<leftarrow> con_putc calls drv c cs; Some (col + 1, cs) })"

fun retype :: "'w dev_calls \<Rightarrow> serial_drv \<Rightarrow> string \<Rightarrow> int \<times> 'w console_state \<Rightarrow> (int \<times> 'w console_state) option" where
  "retype calls drv [] st = Some st"
| "retype calls drv (c # s) st = do { st \<leftarrow> echo_char calls drv c st; retype calls drv s st }"

subsection \<open>Editing\<close>

text \<open>What \<open>delete_char\<close> prints when it removes \<open>c\<close>: the whole line again when \<open>c\<close> is a tab.\<close>

definition delete_echo ::
  "'w dev_calls \<Rightarrow> serial_drv \<Rightarrow> int \<Rightarrow> string \<Rightarrow> char \<Rightarrow> int \<times> 'w console_state \<Rightarrow> (int \<times> 'w console_state) option" where
  "delete_echo calls drv plen before c st =
     (case st of (col, cs) \<Rightarrow>
        if c = TAB then do { st \<leftarrow> erase_cols calls drv plen col cs; retype calls drv before st }
        else do { cs \<leftarrow> con_puts calls drv erase_seq cs; Some (col - 1, cs) })"

definition delete_char ::
  "'w dev_calls \<Rightarrow> serial_drv \<Rightarrow> int \<Rightarrow> edit_state \<times> 'w console_state \<Rightarrow> (edit_state \<times> 'w console_state) option" where
  "delete_char calls drv plen st =
     (case st of (e, cs) \<Rightarrow>
        if ed_n e = 0 then Some (e, cs)
        else if ed_p e = 0 then None
        else do {
          let p = ed_p e - 1;
          c \<leftarrow> rd (ed_buf e) p;
          (col, cs) \<leftarrow> delete_echo calls drv plen (take p (ed_buf e)) c (ed_col e, cs);
          Some (e\<lparr>ed_p := p, ed_n := ed_n e - 1, ed_col := col\<rparr>, cs)
        })"

text \<open>\<open>while ((n > 0) && (*p != ' ')) p = delete_char (...);\<close>\<close>

partial_function (option) delete_word ::
  "'w dev_calls \<Rightarrow> serial_drv \<Rightarrow> int \<Rightarrow> edit_state \<times> 'w console_state \<Rightarrow> (edit_state \<times> 'w console_state) option" where
  "delete_word calls drv plen st =
     (if ed_n (fst st) = 0 then Some st
      else (case rd (ed_buf (fst st)) (ed_p (fst st)) of
              None \<Rightarrow> None
            | Some c \<Rightarrow> if c = CHR '' '' then Some st
                        else Option.bind (delete_char calls drv plen st) (delete_word calls drv plen)))"

definition insert_char ::
  "'w dev_calls \<Rightarrow> serial_drv \<Rightarrow> char \<Rightarrow> edit_state \<times> 'w console_state \<Rightarrow> (edit_state \<times> 'w console_state) option" where
  "insert_char calls drv c st =
     (case st of (e, cs) \<Rightarrow>
        if ed_n e < CFG_CBSIZE - 2
        then do {
          (col, cs) \<leftarrow> echo_char calls drv c (ed_col e, cs);
          buf \<leftarrow> wr (ed_buf e) (ed_p e) c;
          Some (\<lparr>ed_buf = buf, ed_p = ed_p e + 1, ed_n = ed_n e + 1, ed_col = col\<rparr>, cs)
        }
        else do { cs \<leftarrow> con_putc calls drv (CHR 7) cs; Some (e, cs) })"

text \<open>The \<open>switch\<close> of \<open>readline\<close>: the value it returns with the buffer, or the state to go on with.\<close>

definition readline_key ::
  "'w dev_calls \<Rightarrow> serial_drv \<Rightarrow> int \<Rightarrow> char \<Rightarrow> edit_state \<times> 'w console_state \<Rightarrow>
   ((int \<times> string \<times> 'w console_state) + (edit_state \<times> 'w console_state)) option" where
  "readline_key calls drv plen c st =
     (case st of (e, cs) \<Rightarrow>
        if c = CHR 13 \<or> c = CHR 10 then do {
          buf \<leftarrow> wr (ed_buf e) (ed_p e) NUL;
          cs \<leftarrow> con_puts calls drv [CHR 13, CHR 10] cs;
          Some (Inl (int (ed_p e), buf, cs))
        }
        else if c = NUL then Some (Inr (e, cs))
        else if c = CHR 3 then do { buf \<leftarrow> wr (ed_buf e) 0 NUL; Some (Inl (- 1, buf, cs)) }
        else if c = CHR 0x15 then do {
          (col, cs) \<leftarrow> erase_cols calls drv plen (ed_col e) cs;
          Some (Inr (e\<lparr>ed_p := 0, ed_n := 0, ed_col := col\<rparr>, cs))
        }
        else if c = CHR 0x17 then do {
          st \<leftarrow> delete_char calls drv plen (e, cs);
          st \<leftarrow> delete_word calls drv plen st;
          Some (Inr st)
        }
        else if c = CHR 8 \<or> c = CHR 0x7F then map_option Inr (delete_char calls drv plen (e, cs))
        else map_option Inr (insert_char calls drv c (e, cs)))"

text \<open>The \<open>for (;;)\<close>: \<open>getc\<close> returns an \<open>int\<close>, of which the \<open>char\<close> keeps the low byte.\<close>

partial_function (option) readline_loop ::
  "'w dev_calls \<Rightarrow> serial_drv \<Rightarrow> int \<Rightarrow> edit_state \<times> 'w console_state \<Rightarrow> (int \<times> string \<times> 'w console_state) option" where
  "readline_loop calls drv plen st =
     (case con_getc calls drv (snd st) of
        None \<Rightarrow> None
      | Some (c, cs) \<Rightarrow>
          (case readline_key calls drv plen (char_of (nat (c mod 256))) (fst st, cs) of
             None \<Rightarrow> None
           | Some (Inl r) \<Rightarrow> Some r
           | Some (Inr st) \<Rightarrow> readline_loop calls drv plen st))"

definition cstr :: "string \<Rightarrow> string" where "cstr buf = takeWhile (\<lambda>c. c \<noteq> NUL) buf"

definition readline ::
  "'w dev_calls \<Rightarrow> serial_drv \<Rightarrow> string option \<Rightarrow> bool \<Rightarrow> string \<Rightarrow> 'w console_state \<Rightarrow> (int \<times> string \<times> 'w console_state) option" where
  "readline calls drv prompt show_buf console_buffer cs =
     do {
       let plen = (case prompt of Some t \<Rightarrow> int (length t) | None \<Rightarrow> 0);
       cs \<leftarrow> (case prompt of Some t \<Rightarrow> con_puts calls drv t cs | None \<Rightarrow> Some cs);
       if show_buf
       then do {
         let len = length (cstr console_buffer);
         cs \<leftarrow> con_puts calls drv (cstr console_buffer) cs;
         readline_loop calls drv plen (\<lparr>ed_buf = console_buffer, ed_p = len, ed_n = len, ed_col = plen + int len\<rparr>, cs)
       }
       else readline_loop calls drv plen (\<lparr>ed_buf = console_buffer, ed_p = 0, ed_n = 0, ed_col = plen\<rparr>, cs)
     }"

text \<open>The call of \<open>main_loop\<close>.\<close>

definition CFG_PROMPT :: string where "CFG_PROMPT = ''MT7628 # ''"

definition main_readline :: "'w dev_calls \<Rightarrow> serial_drv \<Rightarrow> string \<Rightarrow> 'w ub_state \<Rightarrow> (int \<times> string \<times> 'w ub_state) option" where
  "main_readline calls drv console_buffer s =
     do {
       (len, buf, cs) \<leftarrow> readline calls drv (Some CFG_PROMPT) False console_buffer (con s);
       Some (len, cstr buf, s\<lparr>con := cs\<rparr>)
     }"

text \<open>\<open>input_value\<close>, which edits a value in place: the new contents of \<open>str\<close> and of the buffer. With a NULL
  \<open>str\<close> a line that is entered is copied to address 0 (\<open>None\<close>).\<close>

definition input_value ::
  "'w dev_calls \<Rightarrow> serial_drv \<Rightarrow> string option \<Rightarrow> string \<Rightarrow> 'w console_state \<Rightarrow> (string option \<times> string \<times> 'w console_state) option" where
  "input_value calls drv str console_buffer cs =
     do {
       buf \<leftarrow> (case str of
                 Some v \<Rightarrow> if length v < length console_buffer then Some (v @ NUL # drop (length v + 1) console_buffer) else None
               | None \<Rightarrow> wr console_buffer 0 NUL);
       (len, buf, cs) \<leftarrow> readline calls drv (Some ''==:'') True buf cs;
       if len > 0 then (case str of Some _ \<Rightarrow> Some (Some (cstr buf), buf, cs) | None \<Rightarrow> None)
       else Some (str, buf, cs)
     }"

subsection \<open>What the keys mean\<close>

text \<open>The line after a key, and what the terminal shows for a line.\<close>

definition erase_word :: "string \<Rightarrow> string" where
  "erase_word line = rev (tl (dropWhile (\<lambda>c. c \<noteq> CHR '' '') (rev line)))"

definition edit_key :: "string \<Rightarrow> char \<Rightarrow> string" where
  "edit_key line c =
     (if c = NUL then line
      else if c = CHR 0x15 then []
      else if c = CHR 0x17 then erase_word line
      else if c = CHR 8 \<or> c = CHR 0x7F then butlast line
      else if length line < 254 then line @ [c] else line)"

definition stop_key :: "char \<Rightarrow> bool" where "stop_key c \<longleftrightarrow> c = CHR 13 \<or> c = CHR 10 \<or> c = CHR 3"

definition edit_control :: "char \<Rightarrow> bool" where
  "edit_control c \<longleftrightarrow> c = NUL \<or> c = CHR 0x15 \<or> c = CHR 0x17 \<or> c = CHR 8 \<or> c = CHR 0x7F"

text \<open>The length or -1, and the line, that a key ending the input gives.\<close>

definition line_result :: "string \<Rightarrow> char \<Rightarrow> int \<times> string" where
  "line_result line stop = (if stop = CHR 3 then (- 1, []) else (int (length line), line))"

definition show_char :: "string \<Rightarrow> char \<Rightarrow> string" where
  "show_char shown c = (if c = TAB then shown @ replicate (8 - length shown mod 8) CHR '' '' else shown @ [c])"

definition shown :: "string \<Rightarrow> string \<Rightarrow> string" where "shown prompt line = foldl show_char prompt line"

text \<open>A terminal with one long line: its cells and the cursor. Backspace moves left, the bell changes nothing, every
  printable character is put at the cursor (what other control characters do is not looked at).\<close>

fun term_put :: "char \<Rightarrow> string \<times> nat \<Rightarrow> string \<times> nat" where
  "term_put c (cells, k) =
     (if c = CHR 8 then (cells, k - 1) else if c = CHR 7 then (cells, k) else (take k cells @ c # drop (k + 1) cells, k + 1))"

definition printable :: "char \<Rightarrow> bool" where "printable c \<longleftrightarrow> CHR '' '' \<le> c \<and> c < CHR 0x7F"

definition visible :: "char \<Rightarrow> bool" where "visible c \<longleftrightarrow> printable c \<or> c = TAB"

definition screen_ok :: "string \<times> nat \<Rightarrow> string \<Rightarrow> bool" where
  "screen_ok t s \<longleftrightarrow> (\<exists>j. t = (s @ replicate j CHR '' '', length s))"

definition after_output :: "string \<Rightarrow> string \<times> nat" where "after_output out = fold term_put out ([], 0)"

subsection \<open>Lemmas: the screen\<close>

lemma screen_put:
  assumes "screen_ok t s" "printable c"
  shows "screen_ok (term_put c t) (s @ [c])"
proof -
  obtain j where t: "t = (s @ replicate j CHR '' '', length s)" using assms(1) by (auto simp: screen_ok_def)
  have "drop (Suc (length s)) (s @ replicate j CHR '' '') = replicate (j - 1) CHR '' ''" by simp
  then show ?thesis using assms(2) by (auto simp: t screen_ok_def printable_def)
qed

lemma screen_puts: "screen_ok t s \<Longrightarrow> \<forall>c\<in>set cs. printable c \<Longrightarrow> screen_ok (fold term_put cs t) (s @ cs)"
proof (induction cs arbitrary: t s)
  case (Cons c cs)
  then show ?case using Cons.IH [OF screen_put [OF Cons.prems(1)]] by simp
qed simp

lemma screen_erase: "screen_ok t (s @ [c]) \<Longrightarrow> screen_ok (fold term_put erase_seq t) s"
  by (auto simp: screen_ok_def erase_seq_def intro: exI [of _ "Suc j" for j])

lemma screen_bell: "screen_ok t s \<Longrightarrow> screen_ok (term_put (CHR 7) t) s"
  by (auto simp: screen_ok_def)

lemma screen_start: "screen_ok ([], 0) []" by (simp add: screen_ok_def)

lemma shown_snoc [simp]: "shown prompt (line @ [c]) = show_char (shown prompt line) c"
  by (simp add: shown_def)

lemma shown_Nil [simp]: "shown prompt [] = prompt" by (simp add: shown_def)

lemma shown_prefix: "\<exists>t. shown prompt line = prompt @ t"
  by (induction line rule: rev_induct) (auto simp: show_char_def)

lemma printable_not: "printable c \<Longrightarrow> c \<noteq> CHR 8 \<and> c \<noteq> CHR 7 \<and> c \<noteq> CHR 10"
  by (auto simp: printable_def less_eq_char_def less_char_def)

subsection \<open>Lemmas: the editor\<close>

definition on_serial :: "serial_drv \<Rightarrow> 'w console_state \<Rightarrow> bool" where
  "on_serial drv cs \<longleftrightarrow> (\<exists>l. con_ok cs l [serial_dev drv]) \<and> serial_console drv cs"

lemma on_serial_world [simp]: "on_serial drv (cs\<lparr>world := w\<rparr>) \<longleftrightarrow> on_serial drv cs"
  by (simp add: on_serial_def con_ok_def serial_console_def)

text \<open>\<open>edit_ok prompt line e\<close>: the editor holds \<open>line\<close>.\<close>

definition edit_ok :: "string \<Rightarrow> string \<Rightarrow> edit_state \<Rightarrow> bool" where
  "edit_ok prompt line e \<longleftrightarrow> length (ed_buf e) = CFG_CBSIZE \<and> ed_p e = length line \<and> ed_n e = length line \<and>
     length line \<le> CFG_CBSIZE - 2 \<and> take (length line) (ed_buf e) = line \<and> ed_col e = int (length (shown prompt line)) \<and>
     NUL \<notin> set line \<and> CHR 10 \<notin> set line"

text \<open>Output that takes the screen from showing \<open>s\<close> to showing \<open>s'\<close>.\<close>

definition redraws :: "string \<Rightarrow> string \<Rightarrow> string \<Rightarrow> bool" where
  "redraws s out s' \<longleftrightarrow> (\<forall>t. screen_ok t s \<longrightarrow> screen_ok (fold term_put out t) s')"

lemma redraws_trans: "redraws a x b \<Longrightarrow> redraws b y c \<Longrightarrow> redraws a (x @ y) c"
  unfolding redraws_def fold_append comp_apply by blast

lemma redraws_erase: "redraws (s @ [c]) erase_seq s" by (simp add: redraws_def screen_erase)

lemma redraws_put: "\<forall>c\<in>set x. printable c \<Longrightarrow> redraws s x (s @ x)" by (simp add: redraws_def screen_puts)

lemma redraws_refl [simp]: "redraws s [] s" by (simp add: redraws_def)

definition emits :: "('w \<Rightarrow> string) \<Rightarrow> ('w \<Rightarrow> string) \<Rightarrow> 'w console_state \<Rightarrow> string \<Rightarrow> 'w console_state \<Rightarrow> bool" where
  "emits pending sent cs out cs' \<longleftrightarrow>
     (\<exists>w. cs' = cs\<lparr>world := w\<rparr> \<and> sent w = sent (world cs) @ out \<and> pending w = pending (world cs))"

text \<open>Only the devices' own state differs.\<close>

definition same_con :: "'w console_state \<Rightarrow> 'w console_state \<Rightarrow> bool" where
  "same_con cs cs' \<longleftrightarrow> cs' = cs\<lparr>world := world cs'\<rparr>"

lemma same_con_serial: "same_con cs cs' \<Longrightarrow> on_serial drv cs' = on_serial drv cs"
  unfolding same_con_def using on_serial_world by metis

lemma same_con_trans: "same_con a b \<Longrightarrow> same_con b c \<Longrightarrow> same_con a c"
  unfolding same_con_def by (cases a; cases b; cases c) simp

lemma emits_same: "emits pending sent cs out cs' \<Longrightarrow> same_con cs cs'"
  by (auto simp: emits_def same_con_def)

lemma emits_refl [simp]: "emits pending sent cs [] cs"
  unfolding emits_def by (rule exI [of _ "world cs"]) simp

lemma emits_trans: "emits pending sent a x b \<Longrightarrow> emits pending sent b y c \<Longrightarrow> emits pending sent a (x @ y) c"
  by (auto simp: emits_def)

lemma emits_serial: "emits pending sent cs out cs' \<Longrightarrow> on_serial drv cs' = on_serial drv cs"
  by (auto simp: emits_def)

lemma wire_plain: "CHR 10 \<notin> set s \<Longrightarrow> concat (map wire s) = s"
  by (induction s) (auto simp: wire_def)

lemma serial_puts_call:
  assumes "on_serial drv cs"
  shows "con_puts calls drv t cs = Some (cs\<lparr>world := call_puts calls (serial_puts drv) t (world cs)\<rparr>)"
  using assms Console.serial_puts by (auto simp: on_serial_def)

lemma serial_putc_call:
  assumes "on_serial drv cs"
  shows "con_putc calls drv c cs = Some (cs\<lparr>world := call_putc calls (serial_putc drv) c (world cs)\<rparr>)"
  using assms serial_stdio_dev [of cs _ drv 1]
  by (auto simp: on_serial_def con_putc_def fputc_def serial_console_def MAX_FILES_def serial_dev_def)

lemma serial_getc_call:
  assumes "on_serial drv cs"
  shows "con_getc calls drv cs = Some (case call_getc calls (serial_getc drv) (world cs) of (c, w) \<Rightarrow> (c, cs\<lparr>world := w\<rparr>))"
  using assms serial_stdio_dev [of cs _ drv 0]
  by (auto simp: on_serial_def con_getc_def fgetc_def serial_console_def MAX_FILES_def serial_dev_def split: prod.splits)

lemma key_of_getc [simp]: "char_of (nat (of_char c mod 256)) = c"
proof -
  have "(of_char c :: int) = int (of_char c)" by (simp add: of_nat_of_char)
  moreover have "of_char c < (256 :: nat)" by (rule nat_of_char_less_256)
  ultimately show ?thesis by (metis char_of_char mod_less nat_int of_nat_numeral zmod_int)
qed

lemma set_erase_word: "set (erase_word line) \<subseteq> set line"
  unfolding erase_word_def using set_dropWhileD list.set_sel(2) by (metis (no_types, lifting) list.sel(2) set_rev subsetI)

lemma edit_key_visible:
  assumes "\<forall>c\<in>set line. visible c" "visible c \<or> edit_control c"
  shows "\<forall>x\<in>set (edit_key line c). visible x"
  using assms set_erase_word [of line] in_set_butlastD [of _ line] by (auto simp: edit_key_def edit_control_def)

context tty
begin

lemma puts_emits:
  assumes "on_serial drv cs"
  shows "\<exists>cs'. con_puts calls drv t cs = Some cs' \<and> emits pending sent cs (concat (map wire t)) cs'"
  using serial_puts_call [OF assms] by (auto simp: emits_def puts puts_pending)

lemma putc_emits:
  assumes "on_serial drv cs"
  shows "\<exists>cs'. con_putc calls drv c cs = Some cs' \<and> emits pending sent cs (wire c) cs'"
  using serial_putc_call [OF assms] by (auto simp: emits_def putc putc_pending)

lemma getc_takes:
  assumes "on_serial drv cs" "pending (world cs) = c # r"
  shows "\<exists>cs'. con_getc calls drv cs = Some (of_char c, cs') \<and> same_con cs cs' \<and> pending (world cs') = r \<and>
    sent (world cs') = sent (world cs)"
  using serial_getc_call [OF assms(1)] getc [OF assms(2)] by (auto simp: same_con_def)

text \<open>The prompt for a new speed ends with the first carriage return on the line.\<close>

lemma enter_taken:
  "on_serial drv cs \<Longrightarrow> pending (world cs) = ks @ CHR 13 # rest \<Longrightarrow> CHR 13 \<notin> set ks \<Longrightarrow>
     \<exists>cs'. wait_enter (env_getc (console_env calls drv setbrg)) cs = Some cs' \<and> same_con cs cs' \<and> pending (world cs') = rest"
proof (induction ks arbitrary: cs)
  case Nil
  then show ?case using getc_takes [of cs "CHR 13" rest] by (subst wait_enter.simps) (auto simp: console_env_def)
next
  case (Cons k ks)
  then obtain c1 where c1: "con_getc calls drv cs = Some (of_char k, c1)" "same_con cs c1" "pending (world c1) = ks @ CHR 13 # rest"
    using getc_takes [of cs k] by auto
  have os: "on_serial drv c1" using same_con_serial [OF c1(2)] Cons.prems(1) by simp
  obtain c2 where c2: "wait_enter (env_getc (console_env calls drv setbrg)) c1 = Some c2" "same_con c1 c2" "pending (world c2) = rest"
    using Cons.IH [OF os c1(3)] Cons.prems(3) by auto
  have "same_con cs c2" using same_con_trans [OF c1(2) c2(2)] .
  moreover have "(of_char k :: int) \<noteq> of_char (CHR 13)" using Cons.prems(3) by (simp only: of_char_eq_iff) auto
  then have "(of_char k :: int) \<noteq> 13" by simp
  ultimately show ?case using c1(1) c2(1, 3) by (subst wait_enter.simps) (auto simp: console_env_def)
qed

lemma erase_emits:
  assumes "on_serial drv cs"
  shows "\<exists>cs'. con_puts calls drv erase_seq cs = Some cs' \<and> emits pending sent cs erase_seq cs'"
  using puts_emits [OF assms, of erase_seq] by (simp add: erase_seq_def wire_def)

lemma erase_cols_back:
  "on_serial drv cs \<Longrightarrow>
   \<exists>cs' out. erase_cols calls drv (int (length a)) (int (length (a @ t))) cs = Some (int (length a), cs') \<and>
     emits pending sent cs out cs' \<and> redraws (a @ t) out a"
proof (induction t arbitrary: cs rule: rev_induct)
  case Nil
  then show ?case by (subst erase_cols.simps) (auto intro: exI [of _ "[]"])
next
  case (snoc c t)
  obtain c1 where c1: "con_puts calls drv erase_seq cs = Some c1" "emits pending sent cs erase_seq c1"
    using erase_emits [OF snoc.prems] by blast
  obtain cs' out where ih: "erase_cols calls drv (int (length a)) (int (length (a @ t))) c1 = Some (int (length a), cs')"
    "emits pending sent c1 out cs'" "redraws (a @ t) out a"
    using snoc.IH [of c1] snoc.prems emits_serial [OF c1(2)] by blast
  have "erase_cols calls drv (int (length a)) (int (length (a @ t @ [c]))) cs = Some (int (length a), cs')"
    using c1(1) ih(1) by (subst erase_cols.simps) simp
  moreover have "redraws (a @ t @ [c]) (erase_seq @ out) a"
    using redraws_trans [OF redraws_erase ih(3), of c] by simp
  ultimately show ?case using emits_trans [OF c1(2) ih(2)] by blast
qed

lemma echo_shows:
  assumes "on_serial drv cs" "c \<noteq> CHR 10"
  shows "\<exists>cs' out. echo_char calls drv c (int (length s), cs) = Some (int (length (show_char s c)), cs') \<and>
    emits pending sent cs out cs' \<and> (visible c \<longrightarrow> redraws s out (show_char s c))"
proof (cases "c = TAB")
  case True
  let ?b = "replicate (8 - length s mod 8) CHR '' ''"
  have m: "int (length s) mod 8 = int (length s mod 8)" by (simp add: zmod_int)
  have b: "drop (length s mod 8) tab_seq = ?b" by (simp add: tab_seq_def)
  have w: "concat (map wire ?b) = ?b" by (rule wire_plain) simp
  obtain cs' where cs': "con_puts calls drv ?b cs = Some cs'" "emits pending sent cs ?b cs'"
    using puts_emits [OF assms(1), of ?b] unfolding w by blast
  moreover have "redraws s ?b (s @ ?b)" by (rule redraws_put) (simp add: printable_def less_eq_char_def less_char_def)
  moreover have "echo_char calls drv c (int (length s), cs) = Some (int (length (show_char s c)), cs')"
    using True cs'(1) by (simp add: echo_char_def show_char_def m b of_nat_diff)
  ultimately show ?thesis using True by (auto simp: show_char_def)
next
  case False
  obtain cs' where "con_putc calls drv c cs = Some cs'" "emits pending sent cs [c] cs'"
    using putc_emits [OF assms(1), of c] assms(2) by (auto simp: wire_def)
  moreover have "visible c \<longrightarrow> redraws s [c] (s @ [c])" using False redraws_put [of "[c]" s] by (simp add: visible_def)
  ultimately show ?thesis using False by (auto simp: echo_char_def show_char_def)
qed

lemma retype_shows:
  "on_serial drv cs \<Longrightarrow> CHR 10 \<notin> set x \<Longrightarrow>
   \<exists>cs' out. retype calls drv x (int (length s), cs) = Some (int (length (foldl show_char s x)), cs') \<and>
     emits pending sent cs out cs' \<and> ((\<forall>c\<in>set x. visible c) \<longrightarrow> redraws s out (foldl show_char s x))"
proof (induction x arbitrary: s cs)
  case Nil
  then show ?case by (auto intro: exI [of _ "[]"])
next
  case (Cons c x)
  obtain c1 o1 where 1: "echo_char calls drv c (int (length s), cs) = Some (int (length (show_char s c)), c1)"
    "emits pending sent cs o1 c1" "visible c \<longrightarrow> redraws s o1 (show_char s c)"
    using echo_shows [of cs c s] Cons.prems by auto
  obtain c2 o2 where 2: "retype calls drv x (int (length (show_char s c)), c1) = Some (int (length (foldl show_char (show_char s c) x)), c2)"
    "emits pending sent c1 o2 c2" "(\<forall>c\<in>set x. visible c) \<longrightarrow> redraws (show_char s c) o2 (foldl show_char (show_char s c) x)"
    using Cons.IH [of c1 "show_char s c"] Cons.prems emits_serial [OF 1(2)] by auto
  have "retype calls drv (c # x) (int (length s), cs) = Some (int (length (foldl show_char s (c # x))), c2)"
    using 1(1) 2(1) by simp
  moreover have "(\<forall>c\<in>set (c # x). visible c) \<longrightarrow> redraws s (o1 @ o2) (foldl show_char s (c # x))"
    using 1(3) 2(3) redraws_trans by auto
  ultimately show ?case using emits_trans [OF 1(2) 2(2)] by blast
qed

lemma delete_echo_shows:
  assumes "on_serial drv cs" "CHR 10 \<notin> set line"
  shows "\<exists>cs' out. delete_echo calls drv (int (length prompt)) line c (int (length (shown prompt (line @ [c]))), cs) =
      Some (int (length (shown prompt line)), cs') \<and> emits pending sent cs out cs' \<and>
    ((\<forall>c\<in>set line. visible c) \<longrightarrow> redraws (shown prompt (line @ [c])) out (shown prompt line))"
proof (cases "c = TAB")
  case True
  obtain x where x: "shown prompt (line @ [c]) = prompt @ x" using shown_prefix by blast
  obtain c1 o1 where 1: "erase_cols calls drv (int (length prompt)) (int (length (shown prompt (line @ [c])))) cs = Some (int (length prompt), c1)"
    "emits pending sent cs o1 c1" "redraws (shown prompt (line @ [c])) o1 prompt"
    using erase_cols_back [OF assms(1), of prompt x] unfolding x by blast
  obtain c2 o2 where 2: "retype calls drv line (int (length prompt), c1) = Some (int (length (shown prompt line)), c2)"
    "emits pending sent c1 o2 c2" "(\<forall>c\<in>set line. visible c) \<longrightarrow> redraws prompt o2 (shown prompt line)"
    using retype_shows [of c1 line prompt] assms emits_serial [OF 1(2)] by (auto simp: shown_def)
  show ?thesis using True 1(1) 2(1) emits_trans [OF 1(2) 2(2)] redraws_trans [OF 1(3)] 2(3)
    by (intro exI [of _ c2] exI [of _ "o1 @ o2"]) (auto simp: delete_echo_def)
next
  case False
  obtain cs' where "con_puts calls drv erase_seq cs = Some cs'" "emits pending sent cs erase_seq cs'"
    using erase_emits [OF assms(1)] by blast
  with False show ?thesis using redraws_erase [of "shown prompt line" c] by (auto simp: delete_echo_def show_char_def)
qed

lemma delete_last:
  assumes "edit_ok prompt (line @ [c]) e" "on_serial drv cs"
  shows "\<exists>e' cs' out. delete_char calls drv (int (length prompt)) (e, cs) = Some (e', cs') \<and> edit_ok prompt line e' \<and>
    ed_buf e' = ed_buf e \<and> rd (ed_buf e) (length line) = Some c \<and> emits pending sent cs out cs' \<and>
    ((\<forall>c\<in>set line. visible c) \<longrightarrow> redraws (shown prompt (line @ [c])) out (shown prompt line))"
proof -
  have len: "length line < CFG_CBSIZE - 2" "length (ed_buf e) = CFG_CBSIZE" and e: "ed_n e = Suc (length line)" "ed_p e = Suc (length line)"
    and t: "take (Suc (length line)) (ed_buf e) = line @ [c]" and col: "ed_col e = int (length (shown prompt (line @ [c])))"
    and nl: "CHR 10 \<notin> set line" "NUL \<notin> set line"
    using assms(1) by (auto simp: edit_ok_def)
  have c: "ed_buf e ! length line = c" using arg_cong [OF t, of "\<lambda>x. x ! length line"] by simp
  then have rd: "rd (ed_buf e) (length line) = Some c" using len by (simp add: rd_def)
  have tk: "take (length line) (ed_buf e) = line" using arg_cong [OF t, of "take (length line)"] by simp
  let ?e = "e\<lparr>ed_p := length line, ed_n := length line, ed_col := int (length (shown prompt line))\<rparr>"
  have ok: "edit_ok prompt line ?e" using len tk nl by (simp add: edit_ok_def)
  obtain cs' out where o: "delete_echo calls drv (int (length prompt)) line c (ed_col e, cs) = Some (int (length (shown prompt line)), cs')"
    "emits pending sent cs out cs'" "(\<forall>c\<in>set line. visible c) \<longrightarrow> redraws (shown prompt (line @ [c])) out (shown prompt line)"
    using delete_echo_shows [OF assms(2) nl(1), of prompt c] unfolding col by blast
  have "delete_char calls drv (int (length prompt)) (e, cs) = Some (?e, cs')"
    using e rd o(1) by (simp add: delete_char_def tk Let_def)
  then show ?thesis using rd ok o(2, 3) by (intro exI [of _ ?e] exI [of _ cs'] exI [of _ out]) simp
qed

lemma delete_none: "edit_ok prompt [] e \<Longrightarrow> delete_char calls drv plen (e, cs) = Some (e, cs)"
  by (simp add: edit_ok_def delete_char_def)

lemma erase_word_snoc: "erase_word (line @ [c]) = (if c = CHR '' '' then line else erase_word line)"
  by (simp add: erase_word_def)

lemma delete_word_rest:
  "edit_ok prompt line e \<Longrightarrow> on_serial drv cs \<Longrightarrow> rd (ed_buf e) (length line) = Some d \<Longrightarrow>
   \<exists>e' cs' out. delete_word calls drv (int (length prompt)) (e, cs) = Some (e', cs') \<and>
     edit_ok prompt (if d = CHR '' '' then line else erase_word line) e' \<and> emits pending sent cs out cs' \<and>
     ((\<forall>c\<in>set line. visible c) \<longrightarrow> redraws (shown prompt line) out (shown prompt (if d = CHR '' '' then line else erase_word line)))"
proof (induction line arbitrary: e cs d rule: rev_induct)
  case Nil
  then have "delete_word calls drv (int (length prompt)) (e, cs) = Some (e, cs)"
    by (subst delete_word.simps) (simp add: edit_ok_def)
  with Nil show ?case by (auto simp: erase_word_def intro!: exI [of _ "[]"])
next
  case (snoc c line)
  have n: "ed_n e \<noteq> 0" "ed_p e = length (line @ [c])" using snoc.prems(1) by (auto simp: edit_ok_def)
  show ?case
  proof (cases "d = CHR '' ''")
    case True
    then have "delete_word calls drv (int (length prompt)) (e, cs) = Some (e, cs)"
      using snoc.prems(3) n by (subst delete_word.simps) simp
    with snoc.prems True show ?thesis by (auto intro!: exI [of _ "[]"])
  next
    case False
    obtain e1 c1 o1 where 1: "delete_char calls drv (int (length prompt)) (e, cs) = Some (e1, c1)" "edit_ok prompt line e1"
      "rd (ed_buf e1) (length line) = Some c" "emits pending sent cs o1 c1"
      "(\<forall>c\<in>set line. visible c) \<longrightarrow> redraws (shown prompt (line @ [c])) o1 (shown prompt line)"
      using delete_last [OF snoc.prems(1, 2)] by metis
    let ?l = "if c = CHR '' '' then line else erase_word line"
    obtain e2 c2 o2 where 2: "delete_word calls drv (int (length prompt)) (e1, c1) = Some (e2, c2)" "edit_ok prompt ?l e2"
      "emits pending sent c1 o2 c2" "(\<forall>c\<in>set line. visible c) \<longrightarrow> redraws (shown prompt line) o2 (shown prompt ?l)"
      using snoc.IH [OF 1(2) _ 1(3)] snoc.prems(2) emits_serial [OF 1(4)] by blast
    have "delete_word calls drv (int (length prompt)) (e, cs) = Some (e2, c2)"
      using False n snoc.prems(3) 1(1) 2(1) by (subst delete_word.simps) simp
    moreover have "(\<forall>x\<in>set (line @ [c]). visible x) \<longrightarrow> redraws (shown prompt (line @ [c])) (o1 @ o2) (shown prompt ?l)"
      using 1(5) 2(4) redraws_trans by auto
    ultimately show ?thesis using False 2(2) emits_trans [OF 1(4) 2(3)] unfolding erase_word_snoc
      by (intro exI [of _ e2] exI [of _ c2] exI [of _ "o1 @ o2"]) (simp only: if_False simp_thms)
  qed
qed

lemma insert_shows:
  assumes "edit_ok prompt line e" "on_serial drv cs" "c \<noteq> CHR 10" "c \<noteq> NUL"
  defines "line' \<equiv> if length line < 254 then line @ [c] else line"
  shows "\<exists>e' cs' out. insert_char calls drv c (e, cs) = Some (e', cs') \<and> edit_ok prompt line' e' \<and> emits pending sent cs out cs' \<and>
    ((length line < 254 \<longrightarrow> visible c) \<longrightarrow> redraws (shown prompt line) out (shown prompt line'))"
proof (cases "length line < 254")
  case True
  have e: "length (ed_buf e) = CFG_CBSIZE" "ed_p e = length line" "ed_n e = length line" "take (length line) (ed_buf e) = line"
    "ed_col e = int (length (shown prompt line))" "NUL \<notin> set line" "CHR 10 \<notin> set line"
    using assms(1) by (simp_all add: edit_ok_def)
  obtain cs' out where o: "echo_char calls drv c (ed_col e, cs) = Some (int (length (shown prompt (line @ [c]))), cs')"
    "emits pending sent cs out cs'" "visible c \<longrightarrow> redraws (shown prompt line) out (shown prompt (line @ [c]))"
    using echo_shows [OF assms(2, 3), of "shown prompt line"] e(5) by auto
  have w: "wr (ed_buf e) (ed_p e) c = Some ((ed_buf e)[length line := c])" using True e by (simp add: wr_def CFG_CBSIZE_def)
  have "take (Suc (length line)) ((ed_buf e)[length line := c]) = line @ [c]"
    using True e(1, 4) by (simp add: take_Suc_conv_app_nth CFG_CBSIZE_def)
  then have "edit_ok prompt (line @ [c]) \<lparr>ed_buf = (ed_buf e)[length line := c], ed_p = ed_p e + 1, ed_n = ed_n e + 1,
      ed_col = int (length (shown prompt (line @ [c])))\<rparr>"
    using True e assms(3, 4) by (simp add: edit_ok_def CFG_CBSIZE_def)
  moreover have "insert_char calls drv c (e, cs) = Some (\<lparr>ed_buf = (ed_buf e)[length line := c], ed_p = ed_p e + 1, ed_n = ed_n e + 1,
      ed_col = int (length (shown prompt (line @ [c])))\<rparr>, cs')"
    using True o(1) w e(3) by (simp add: insert_char_def CFG_CBSIZE_def)
  ultimately show ?thesis using True o(2, 3) by (auto simp: line'_def)
next
  case False
  have "\<not> ed_n e < CFG_CBSIZE - 2" using False assms(1) by (simp add: edit_ok_def CFG_CBSIZE_def)
  moreover obtain cs' where "con_putc calls drv (CHR 7) cs = Some cs'" "emits pending sent cs [CHR 7] cs'"
    using putc_emits [OF assms(2), of "CHR 7"] by (auto simp: wire_def)
  moreover have "redraws s [CHR 7] s" for s by (simp add: redraws_def screen_bell del: term_put.simps split_paired_All)
  ultimately show ?thesis using False assms(1) by (auto simp: insert_char_def line'_def)
qed

text \<open>One key that does not end the line.\<close>

lemma backspace_step:
  assumes "edit_ok prompt line e" "on_serial drv cs"
  shows "\<exists>e' cs' out. delete_char calls drv (int (length prompt)) (e, cs) = Some (e', cs') \<and> edit_ok prompt (butlast line) e' \<and>
    emits pending sent cs out cs' \<and> ((\<forall>c\<in>set line. visible c) \<longrightarrow> redraws (shown prompt line) out (shown prompt (butlast line)))"
proof (cases line rule: rev_cases)
  case Nil
  then show ?thesis using delete_none assms(1) by (auto intro!: exI [of _ "[]"])
next
  case (snoc l c)
  obtain e' cs' out where "delete_char calls drv (int (length prompt)) (e, cs) = Some (e', cs')" "edit_ok prompt l e'"
    "emits pending sent cs out cs'" "(\<forall>c\<in>set l. visible c) \<longrightarrow> redraws (shown prompt (l @ [c])) out (shown prompt l)"
    using delete_last [of prompt l c e cs] assms unfolding snoc by blast
  then show ?thesis unfolding snoc by (intro exI [of _ e'] exI [of _ cs'] exI [of _ out]) simp
qed

lemma word_step:
  assumes "edit_ok prompt line e" "on_serial drv cs"
  shows "\<exists>e' cs' out. Option.bind (delete_char calls drv (int (length prompt)) (e, cs)) (delete_word calls drv (int (length prompt))) = Some (e', cs') \<and>
    edit_ok prompt (erase_word line) e' \<and> emits pending sent cs out cs' \<and>
    ((\<forall>c\<in>set line. visible c) \<longrightarrow> redraws (shown prompt line) out (shown prompt (erase_word line)))"
proof (cases line rule: rev_cases)
  case Nil
  then have "ed_n e = 0" using assms(1) by (simp add: edit_ok_def)
  then have "delete_word calls drv (int (length prompt)) (e, cs) = Some (e, cs)" by (subst delete_word.simps) simp
  with Nil show ?thesis using delete_none [of prompt e] assms(1) by (auto simp: erase_word_def intro!: exI [of _ "[]"])
next
  case (snoc l c)
  obtain e1 c1 o1 where 1: "delete_char calls drv (int (length prompt)) (e, cs) = Some (e1, c1)" "edit_ok prompt l e1"
    "rd (ed_buf e1) (length l) = Some c" "emits pending sent cs o1 c1"
    "(\<forall>c\<in>set l. visible c) \<longrightarrow> redraws (shown prompt (l @ [c])) o1 (shown prompt l)"
    using delete_last [of prompt l c e cs] assms unfolding snoc by metis
  obtain e2 c2 o2 where 2: "delete_word calls drv (int (length prompt)) (e1, c1) = Some (e2, c2)" "edit_ok prompt (erase_word line) e2"
    "emits pending sent c1 o2 c2" "(\<forall>c\<in>set l. visible c) \<longrightarrow> redraws (shown prompt l) o2 (shown prompt (erase_word line))"
    using delete_word_rest [OF 1(2) _ 1(3)] assms(2) emits_serial [OF 1(4)] unfolding snoc erase_word_snoc by blast
  have "(\<forall>c\<in>set line. visible c) \<longrightarrow> redraws (shown prompt line) (o1 @ o2) (shown prompt (erase_word line))"
    using 1(5) 2(4) redraws_trans unfolding snoc by auto
  with 1(1) 2(1, 2) emits_trans [OF 1(4) 2(3)] show ?thesis by (metis Option.bind.bind_lunit)
qed

lemma key_step:
  assumes "edit_ok prompt line e" "on_serial drv cs" "\<not> stop_key c"
  shows "\<exists>e' cs' out. readline_key calls drv (int (length prompt)) c (e, cs) = Some (Inr (e', cs')) \<and>
    edit_ok prompt (edit_key line c) e' \<and> emits pending sent cs out cs' \<and>
    ((\<forall>c\<in>set line. visible c) \<longrightarrow> (\<forall>c\<in>set (edit_key line c). visible c) \<longrightarrow> redraws (shown prompt line) out (shown prompt (edit_key line c)))"
proof -
  have st: "c \<noteq> CHR 13" "c \<noteq> CHR 10" "c \<noteq> CHR 3" using assms(3) by (simp_all add: stop_key_def)
  consider "c = NUL" | "c = CHR 0x15" | "c = CHR 0x17" | "c = CHR 8 \<or> c = CHR 0x7F"
    | "c \<noteq> NUL" "c \<noteq> CHR 0x15" "c \<noteq> CHR 0x17" "c \<noteq> CHR 8" "c \<noteq> CHR 0x7F" by blast
  then show ?thesis
  proof cases
    case 1
    then show ?thesis using assms(1) by (auto simp: readline_key_def edit_key_def NUL_def intro!: exI [of _ "[]"])
  next
    case 2
    obtain x where x: "shown prompt line = prompt @ x" using shown_prefix by blast
    have col: "ed_col e = int (length (prompt @ x))" using assms(1) x by (simp add: edit_ok_def)
    obtain c1 o1 where "erase_cols calls drv (int (length prompt)) (ed_col e) cs = Some (int (length prompt), c1)"
      "emits pending sent cs o1 c1" "redraws (shown prompt line) o1 prompt"
      using erase_cols_back [OF assms(2), of prompt x] unfolding x col by blast
    moreover have "edit_ok prompt [] (e\<lparr>ed_p := 0, ed_n := 0, ed_col := int (length prompt)\<rparr>)" using assms(1) by (simp add: edit_ok_def)
    ultimately show ?thesis using 2 by (auto simp: readline_key_def edit_key_def NUL_def)
  next
    case 3
    obtain e' cs' out where w: "Option.bind (delete_char calls drv (int (length prompt)) (e, cs)) (delete_word calls drv (int (length prompt))) = Some (e', cs')"
      "edit_ok prompt (erase_word line) e'" "emits pending sent cs out cs'"
      "(\<forall>c\<in>set line. visible c) \<longrightarrow> redraws (shown prompt line) out (shown prompt (erase_word line))"
      using word_step [OF assms(1, 2)] by blast
    have "readline_key calls drv (int (length prompt)) c (e, cs) = Some (Inr (e', cs'))"
      using 3 w(1) by (auto simp: readline_key_def NUL_def bind_eq_Some_conv)
    with 3 w(2-4) show ?thesis by (auto simp: edit_key_def NUL_def)
  next
    case 4
    obtain e' cs' out where d: "delete_char calls drv (int (length prompt)) (e, cs) = Some (e', cs')" "edit_ok prompt (butlast line) e'"
      "emits pending sent cs out cs'" "(\<forall>c\<in>set line. visible c) \<longrightarrow> redraws (shown prompt line) out (shown prompt (butlast line))"
      using backspace_step [OF assms(1, 2)] by blast
    have k: "edit_key line c = butlast line" using 4 by (auto simp: edit_key_def NUL_def)
    have "readline_key calls drv (int (length prompt)) c (e, cs) = Some (Inr (e', cs'))"
      using 4 d(1) by (elim disjE) (simp_all add: readline_key_def NUL_def)
    with d(2-4) show ?thesis unfolding k by blast
  next
    case 5
    have k: "edit_key line c = (if length line < 254 then line @ [c] else line)" using 5 by (simp add: edit_key_def)
    obtain e' cs' out where i: "insert_char calls drv c (e, cs) = Some (e', cs')" "edit_ok prompt (edit_key line c) e'"
      "emits pending sent cs out cs'" "(length line < 254 \<longrightarrow> visible c) \<longrightarrow> redraws (shown prompt line) out (shown prompt (edit_key line c))"
      using insert_shows [OF assms(1, 2) st(2) 5(1)] unfolding k by blast
    have "readline_key calls drv (int (length prompt)) c (e, cs) = Some (Inr (e', cs'))" using 5 st i(1) by (simp add: readline_key_def)
    moreover have "(\<forall>c\<in>set (edit_key line c). visible c) \<Longrightarrow> length line < 254 \<longrightarrow> visible c" using 5 by (simp add: edit_key_def)
    ultimately show ?thesis using i(2-4) by blast
  qed
qed

lemma stop_step:
  assumes "edit_ok prompt line e" "on_serial drv cs" "stop_key c"
  shows "\<exists>buf cs'. readline_key calls drv plen c (e, cs) = Some (Inl (fst (line_result line c), buf, cs')) \<and> length buf = CFG_CBSIZE \<and>
    cstr buf = snd (line_result line c) \<and> emits pending sent cs (if c = CHR 3 then [] else [CHR 13, CHR 10, CHR 13]) cs'"
proof (cases "c = CHR 3")
  case True
  have b: "length (ed_buf e) = CFG_CBSIZE" using assms(1) by (simp add: edit_ok_def)
  then have "cstr ((ed_buf e)[0 := NUL]) = []" by (cases "ed_buf e") (simp_all add: cstr_def)
  with True b show ?thesis by (auto simp: readline_key_def line_result_def NUL_def wr_def CFG_CBSIZE_def)
next
  case False
  then have c: "c = CHR 13 \<or> c = CHR 10" using assms(3) by (simp add: stop_key_def)
  have e: "length (ed_buf e) = CFG_CBSIZE" "ed_p e = length line" "length line \<le> CFG_CBSIZE - 2" "take (length line) (ed_buf e) = line"
    "NUL \<notin> set line" using assms(1) by (simp_all add: edit_ok_def)
  let ?buf = "(ed_buf e)[length line := NUL]"
  have lt: "length line < length (ed_buf e)" using e(1, 3) by (simp add: CFG_CBSIZE_def)
  then have w: "wr (ed_buf e) (ed_p e) NUL = Some ?buf" using e(2) by (simp add: wr_def)
  have "?buf = line @ NUL # drop (Suc (length line)) (ed_buf e)" using upd_conv_take_nth_drop [OF lt] e(4) by simp
  moreover have "\<forall>x\<in>set line. x \<noteq> NUL" using e(5) by blast
  ultimately have "cstr ?buf = line" unfolding cstr_def by (simp add: takeWhile_append_stop)
  moreover obtain cs' where cs': "con_puts calls drv [CHR 13, CHR 10] cs = Some cs'" "emits pending sent cs [CHR 13, CHR 10, CHR 13] cs'"
    using puts_emits [OF assms(2), of "[CHR 13, CHR 10]"] by (auto simp: wire_def)
  moreover have "readline_key calls drv plen c (e, cs) = Some (Inl (int (length line), ?buf, cs'))"
    using c w e(2) cs'(1) by (simp add: readline_key_def)
  ultimately show ?thesis using False e(1) by (intro exI [of _ ?buf] exI [of _ cs']) (simp add: line_result_def)
qed

lemma loop_edits:
  "edit_ok prompt line e \<Longrightarrow> on_serial drv cs \<Longrightarrow> pending (world cs) = keys @ stop # rest \<Longrightarrow> \<forall>c\<in>set keys. \<not> stop_key c \<Longrightarrow>
   stop_key stop \<Longrightarrow>
   \<exists>buf cs' out. readline_loop calls drv (int (length prompt)) (e, cs) = Some (fst (line_result (foldl edit_key line keys) stop), buf, cs') \<and>
     length buf = CFG_CBSIZE \<and> cstr buf = snd (line_result (foldl edit_key line keys) stop) \<and> same_con cs cs' \<and> pending (world cs') = rest \<and>
     sent (world cs') = sent (world cs) @ out @ (if stop = CHR 3 then [] else [CHR 13, CHR 10, CHR 13]) \<and>
     ((\<forall>c\<in>set line. visible c) \<longrightarrow> (\<forall>c\<in>set keys. visible c \<or> edit_control c) \<longrightarrow>
        redraws (shown prompt line) out (shown prompt (foldl edit_key line keys)))"
proof (induction keys arbitrary: line e cs)
  case Nil
  obtain c1 where 1: "con_getc calls drv cs = Some (of_char stop, c1)" "same_con cs c1" "pending (world c1) = rest"
    "sent (world c1) = sent (world cs)" using getc_takes [OF Nil.prems(2), of stop rest] Nil.prems(3) by auto
  obtain buf cs' where 2: "readline_key calls drv (int (length prompt)) stop (e, c1) = Some (Inl (fst (line_result line stop), buf, cs'))"
    "length buf = CFG_CBSIZE" "cstr buf = snd (line_result line stop)"
    "emits pending sent c1 (if stop = CHR 3 then [] else [CHR 13, CHR 10, CHR 13]) cs'"
    using stop_step [OF Nil.prems(1) _ Nil.prems(5)] same_con_serial [OF 1(2)] Nil.prems(2) by blast
  have "readline_loop calls drv (int (length prompt)) (e, cs) = Some (fst (line_result line stop), buf, cs')"
    using 1(1) 2(1) by (subst readline_loop.simps) simp
  moreover have "same_con cs cs'" using same_con_trans [OF 1(2) emits_same [OF 2(4)]] .
  moreover have "pending (world cs') = rest"
    "sent (world cs') = sent (world cs) @ (if stop = CHR 3 then [] else [CHR 13, CHR 10, CHR 13])"
    using 2(4) 1 by (auto simp: emits_def)
  ultimately show ?case using 2(2, 3) by (intro exI [of _ buf] exI [of _ cs'] exI [of _ "[]"]) simp
next
  case (Cons c keys)
  have nostop: "\<not> stop_key c" "\<forall>c\<in>set keys. \<not> stop_key c" using Cons.prems(4) by simp_all
  obtain c1 where 1: "con_getc calls drv cs = Some (of_char c, c1)" "same_con cs c1" "pending (world c1) = keys @ stop # rest"
    "sent (world c1) = sent (world cs)" using getc_takes [OF Cons.prems(2), of c "keys @ stop # rest"] Cons.prems(3) by auto
  obtain e2 c2 o2 where 2: "readline_key calls drv (int (length prompt)) c (e, c1) = Some (Inr (e2, c2))"
    "edit_ok prompt (edit_key line c) e2" "emits pending sent c1 o2 c2"
    "(\<forall>c\<in>set line. visible c) \<longrightarrow> (\<forall>c\<in>set (edit_key line c). visible c) \<longrightarrow> redraws (shown prompt line) o2 (shown prompt (edit_key line c))"
    using key_step [OF Cons.prems(1) _ nostop(1)] same_con_serial [OF 1(2)] Cons.prems(2) by blast
  have same: "same_con cs c2" using same_con_trans [OF 1(2) emits_same [OF 2(3)]] .
  then have c2: "on_serial drv c2" using same_con_serial Cons.prems(2) by blast
  have p2: "pending (world c2) = keys @ stop # rest" "sent (world c2) = sent (world cs) @ o2"
    using 2(3) 1 by (auto simp: emits_def)
  let ?l = "foldl edit_key (edit_key line c) keys"
  obtain buf cs' out where ih: "readline_loop calls drv (int (length prompt)) (e2, c2) = Some (fst (line_result ?l stop), buf, cs')"
    "length buf = CFG_CBSIZE" "cstr buf = snd (line_result ?l stop)" "same_con c2 cs'" "pending (world cs') = rest"
    "sent (world cs') = sent (world c2) @ out @ (if stop = CHR 3 then [] else [CHR 13, CHR 10, CHR 13])"
    "(\<forall>c\<in>set (edit_key line c). visible c) \<longrightarrow> (\<forall>c\<in>set keys. visible c \<or> edit_control c) \<longrightarrow> redraws (shown prompt (edit_key line c)) out (shown prompt ?l)"
    using Cons.IH [OF 2(2) c2 p2(1) nostop(2) Cons.prems(5)] by blast
  have "readline_loop calls drv (int (length prompt)) (e, cs) = Some (fst (line_result ?l stop), buf, cs')"
    using 1(1) 2(1) ih(1) by (subst readline_loop.simps) simp
  moreover have "(\<forall>c\<in>set line. visible c) \<longrightarrow> (\<forall>c\<in>set (c # keys). visible c \<or> edit_control c) \<longrightarrow>
      redraws (shown prompt line) (o2 @ out) (shown prompt ?l)"
  proof (intro impI)
    assume v: "\<forall>c\<in>set line. visible c" and k: "\<forall>c\<in>set (c # keys). visible c \<or> edit_control c"
    then have "\<forall>x\<in>set (edit_key line c). visible x" by (intro edit_key_visible) simp_all
    then show "redraws (shown prompt line) (o2 @ out) (shown prompt ?l)" using 2(4) ih(7) v k by (intro redraws_trans [of "shown prompt line" o2 "shown prompt (edit_key line c)"]) simp_all
  qed
  ultimately show ?case using ih(2, 3, 5, 6) same_con_trans [OF same ih(4)] p2(2) by (intro exI [of _ buf] exI [of _ cs'] exI [of _ "o2 @ out"]) simp
qed

lemma readline_line:
  assumes "on_serial drv cs" "length buf = CFG_CBSIZE" "CHR 10 \<notin> set prompt"
    and "pending (world cs) = keys @ stop # rest" "\<forall>c\<in>set keys. \<not> stop_key c" "stop_key stop"
  shows "\<exists>buf' cs' out. readline calls drv (Some prompt) False buf cs = Some (fst (line_result (foldl edit_key [] keys) stop), buf', cs') \<and>
    length buf' = CFG_CBSIZE \<and> cstr buf' = snd (line_result (foldl edit_key [] keys) stop) \<and> same_con cs cs' \<and> pending (world cs') = rest \<and>
    sent (world cs') = sent (world cs) @ out @ (if stop = CHR 3 then [] else [CHR 13, CHR 10, CHR 13]) \<and>
    ((\<forall>c\<in>set prompt. printable c) \<longrightarrow> (\<forall>c\<in>set keys. visible c \<or> edit_control c) \<longrightarrow>
       screen_ok (after_output out) (shown prompt (foldl edit_key [] keys)))"
proof -
  obtain c1 where 1: "con_puts calls drv prompt cs = Some c1" "emits pending sent cs prompt c1"
    using puts_emits [OF assms(1), of prompt] wire_plain [OF assms(3)] by auto
  let ?e = "\<lparr>ed_buf = buf, ed_p = 0, ed_n = 0, ed_col = int (length prompt)\<rparr>" and ?l = "foldl edit_key [] keys"
  have ok: "edit_ok prompt [] ?e" using assms(2) by (simp add: edit_ok_def)
  have c1: "on_serial drv c1" "pending (world c1) = keys @ stop # rest" "sent (world c1) = sent (world cs) @ prompt"
    using 1(2) assms(4) emits_serial [OF 1(2), of drv] assms(1) by (auto simp: emits_def)
  obtain buf' cs' out where 2: "readline_loop calls drv (int (length prompt)) (?e, c1) = Some (fst (line_result ?l stop), buf', cs')"
    "length buf' = CFG_CBSIZE" "cstr buf' = snd (line_result ?l stop)" "same_con c1 cs'" "pending (world cs') = rest"
    "sent (world cs') = sent (world c1) @ out @ (if stop = CHR 3 then [] else [CHR 13, CHR 10, CHR 13])"
    "(\<forall>c\<in>set keys. visible c \<or> edit_control c) \<longrightarrow> redraws (shown prompt []) out (shown prompt ?l)"
    using loop_edits [OF ok c1(1, 2) assms(5, 6)] by auto
  have "readline calls drv (Some prompt) False buf cs = Some (fst (line_result ?l stop), buf', cs')"
    using 1(1) 2(1) by (simp add: readline_def Let_def)
  moreover have "(\<forall>c\<in>set prompt. printable c) \<longrightarrow> (\<forall>c\<in>set keys. visible c \<or> edit_control c) \<longrightarrow>
      screen_ok (after_output (prompt @ out)) (shown prompt ?l)"
  proof (intro impI)
    assume p: "\<forall>c\<in>set prompt. printable c" and k: "\<forall>c\<in>set keys. visible c \<or> edit_control c"
    have "screen_ok (fold term_put prompt ([], 0)) prompt" using screen_puts [OF screen_start p] by simp
    moreover have "redraws prompt out (shown prompt ?l)" using 2(7) k by simp
    ultimately show "screen_ok (after_output (prompt @ out)) (shown prompt ?l)" unfolding redraws_def after_output_def fold_append comp_apply by blast
  qed
  ultimately show ?thesis using 2(2, 3, 5, 6) same_con_trans [OF emits_same [OF 1(2)] 2(4)] c1(3)
    by (intro exI [of _ buf'] exI [of _ cs'] exI [of _ "prompt @ out"]) simp
qed

end

lemma edit_key_length: "length line \<le> 254 \<Longrightarrow> length (edit_key line c) \<le> 254"
proof -
  have "length (erase_word line) \<le> length line"
    unfolding erase_word_def using length_dropWhile_le [of _ "rev line"] by (simp add: le_diff_conv le_SucI)
  then show "length line \<le> 254 \<Longrightarrow> length (edit_key line c) \<le> 254" by (auto simp: edit_key_def)
qed

lemma edited_length: "length line \<le> 254 \<Longrightarrow> length (foldl edit_key line keys) \<le> 254"
  by (induction keys arbitrary: line) (simp_all add: edit_key_length)

lemma CFG_PROMPT_printable: "\<forall>c\<in>set CFG_PROMPT. printable c"
  by (simp add: CFG_PROMPT_def printable_def less_eq_char_def less_char_def)

lemma CFG_PROMPT_plain [simp]: "CHR 10 \<notin> set CFG_PROMPT" by (simp add: CFG_PROMPT_def)

text \<open>C12: Reading a line: with the console on the serial device and a UART that keeps its contract, \<open>readline\<close>
  comes back at the first end-of-line key or control-C, whatever was typed before it; it never leaves the buffer of
  256 characters, and returns the length of the line the keys make (at most 254 characters, each key edits the line
  as \<open>edit_key\<close> says) with the line in the buffer, or -1 and an empty buffer after control-C. It takes nothing typed after
  that key, and when the keys are printable, tabs or editing keys, the terminal shows the prompt and the line.\<close>

theorem readline_edits:
  assumes "uart_line io pending sent delay" "on_serial drv cs" "length buf = CFG_CBSIZE" "\<forall>c\<in>set prompt. printable c"
    and "pending (world cs) = keys @ stop # rest" "\<forall>c\<in>set keys. \<not> stop_key c" "stop_key stop"
  defines "line \<equiv> foldl edit_key [] keys"
  shows "\<exists>buf' cs' out. readline (serial_calls io drv) drv (Some prompt) False buf cs =
      Some (if stop = CHR 3 then - 1 else int (length line), buf', cs') \<and>
    length buf' = CFG_CBSIZE \<and> length line \<le> 254 \<and> cstr buf' = (if stop = CHR 3 then [] else line) \<and> pending (world cs') = rest \<and>
    sent (world cs') = sent (world cs) @ out @ (if stop = CHR 3 then [] else [CHR 13, CHR 10, CHR 13]) \<and>
    ((\<forall>c\<in>set keys. visible c \<or> edit_control c) \<longrightarrow> screen_ok (after_output out) (shown prompt line))"
proof -
  have t: "tty (serial_calls io drv) drv pending sent" using assms(1) by (rule uart_line.serial_tty)
  have "CHR 10 \<notin> set prompt" using assms(4) printable_not by blast
  from tty.readline_line [OF t assms(2, 3) this assms(5-7), folded line_def]
  obtain buf' cs' out where r: "readline (serial_calls io drv) drv (Some prompt) False buf cs = Some (fst (line_result line stop), buf', cs')"
    "length buf' = CFG_CBSIZE" "cstr buf' = snd (line_result line stop)" "pending (world cs') = rest"
    "sent (world cs') = sent (world cs) @ out @ (if stop = CHR 3 then [] else [CHR 13, CHR 10, CHR 13])"
    "(\<forall>c\<in>set keys. visible c \<or> edit_control c) \<longrightarrow> screen_ok (after_output out) (shown prompt line)" using assms(4) by auto
  have "length line \<le> 254" using edited_length [of "[]" keys] by (simp add: line_def)
  with r show ?thesis by (intro exI [of _ buf'] exI [of _ cs'] exI [of _ out]) (simp add: line_result_def)
qed

text \<open>A console on the serial device, as \<open>console_init_r\<close> leaves it.\<close>

definition tty_console :: "serial_drv \<Rightarrow> clist \<Rightarrow> 'w \<Rightarrow> 'w console_state" where
  "tty_console drv l w = \<lparr>devlist = Some l, stdio_devices = replicate 3 (Some (dev_ptr 0)),
     jt = set_jt drv 1 (serial_dev drv) (set_jt drv 0 (serial_dev drv) (\<lambda>_. 0)), gd_flags = GD_FLG_DEVINIT, have_console = True,
     ctrlc_disabled = 0, ctrlc_was_pressed = 0, world = w\<rparr>"

lemma tty_console_serial: "devs_rep l [serial_dev drv] \<Longrightarrow> on_serial drv (tty_console drv l w)"
  by (auto simp: on_serial_def tty_console_def con_ok_def serial_console_def set_jt_def XF_getc_def XF_tstc_def XF_putc_def
      XF_puts_def XF_printf_def)

definition demo_uart :: "string \<Rightarrow> uart16550" where
  "demo_uart keys = \<lparr>rx = map (Pair 2) keys, tx_left = 0, line_out = []\<rparr>"

lemma demo_uart_rx [simp]: "map snd (rx (demo_uart keys)) = keys" by (simp add: demo_uart_def comp_def)

theorem readline_edits_witness:
  "\<exists>l buf cs. devs_rep l [serial_dev demo_drv] \<and>
    readline (serial_calls (uart_io 3) demo_drv) demo_drv (Some CFG_PROMPT) False (replicate CFG_CBSIZE NUL)
      (tty_console demo_drv l (demo_uart (''hex'' @ [CHR 8] @ ''lp'' @ [CHR 13]))) = Some (4, buf, cs) \<and> cstr buf = ''help''"
proof -
  obtain l where l: "devs_rep l [serial_dev demo_drv]" using devices_init_rep [of "\<lambda>_. True" demo_drv] by auto
  have e: "foldl edit_key [] (''hex'' @ [CHR 8] @ ''lp'') = ''help''" by (simp add: edit_key_def NUL_def)
  have "map snd (rx (world (tty_console demo_drv l (demo_uart (''hex'' @ [CHR 8] @ ''lp'' @ [CHR 13]))))) =
    (''hex'' @ [CHR 8] @ ''lp'') @ CHR 13 # []" by (simp add: tty_console_def demo_uart_def)
  from readline_edits [OF uart.uart_line_axioms tty_console_serial [OF l] _ CFG_PROMPT_printable this, of "replicate CFG_CBSIZE NUL" 3, unfolded e]
  show ?thesis using l by (auto simp: stop_key_def)
qed

end
