(* ===== verification/NetAddr.thy ===== *)
theory NetAddr
  imports Env CString
begin

text \<open>
  The address and header arithmetic of \<open>net/net.c\<close> and \<open>include/net.h\<close>: byte order, the Internet
  checksum over 16-bit words in memory, and IP addresses in dotted notation. An \<open>IPaddr_t\<close> is a
  32-bit word in network byte order on a little-endian machine, so its four bytes in memory are the four
  numbers of the dotted notation in that order. A packet buffer is the memory from the start of the
  packet on.
\<close>

subsection \<open>Byte order\<close>

definition le16 :: "u16 \<Rightarrow> u8 list" where
  "le16 w = [ucast w, ucast (drop_bit 8 w)]"

text \<open>A \<open>ushort\<close> read through a \<open>ushort *\<close>.\<close>

definition rd16 :: "mem \<Rightarrow> addr \<Rightarrow> u16" where
  "rd16 m a = ucast (m a) OR push_bit 8 (ucast (m (a + 1)))"

definition htons :: "u16 \<Rightarrow> u16" where
  "htons x = push_bit 8 x OR drop_bit 8 x"

abbreviation ntohs :: "u16 \<Rightarrow> u16" where "ntohs \<equiv> htons"

text \<open>\<open>NetReadIP\<close>; \<open>NetWriteIP\<close> and \<open>NetCopyIP\<close> store the bytes \<open>le32\<close> of the address.\<close>

definition NetReadIP :: "mem \<Rightarrow> addr \<Rightarrow> u32" where
  "NetReadIP m a = of_le32 (bytes m a 4)"

subsection \<open>Checksum\<close>

fun cksum_loop :: "mem \<Rightarrow> addr \<Rightarrow> nat \<Rightarrow> u32 \<Rightarrow> u32" where
  "cksum_loop m p 0 xsum = xsum"
| "cksum_loop m p (Suc len) xsum = cksum_loop m (p + 2) len (xsum + ucast (rd16 m p))"

definition NetCksum :: "mem \<Rightarrow> addr \<Rightarrow> nat \<Rightarrow> u32" where
  "NetCksum m ptr len =
     (let xsum = cksum_loop m ptr len 0;
          xsum = (xsum AND 0xffff) + drop_bit 16 xsum;
          xsum = (xsum AND 0xffff) + drop_bit 16 xsum
      in xsum AND 0xffff)"

definition NetCksumOk :: "mem \<Rightarrow> addr \<Rightarrow> nat \<Rightarrow> bool" where
  "NetCksumOk m ptr len \<longleftrightarrow> (NetCksum m ptr len + 1) AND 0xfffe = 0"

subsection \<open>Dotted notation\<close>

definition ip_to_string :: "u32 \<Rightarrow> string option" where
  "ip_to_string x =
     (let x = byte_swap32 x
      in map_option fst (vsprintf ''%d.%d.%d.%d''
           [VInt (drop_bit 24 x AND 0xff), VInt (drop_bit 16 x AND 0xff), VInt (drop_bit 8 x AND 0xff), VInt (x AND 0xff)]))"

definition string_to_ip :: "string option \<Rightarrow> u32" where
  "string_to_ip s = (case s of None \<Rightarrow> 0 | Some s \<Rightarrow> byte_swap32 (ip_fields 4 0 s))"

definition getenv_IPaddr :: "('c, 'm) env_state_scheme \<Rightarrow> string \<Rightarrow> u32 option" where
  "getenv_IPaddr s var = map_option string_to_ip (getenv s var)"

subsection \<open>Lemmas on byte order\<close>

lemma length_le16 [simp]: "length (le16 w) = 2" by (simp add: le16_def)

lemma bit_u16_bound: "bit (x :: u16) n \<Longrightarrow> n < 16"
  by (drule bit_imp_le_length) simp

lemma htons_htons [simp]: "htons (htons x) = x"
proof (rule bit_word_eqI)
  fix n assume n: "n < LENGTH(16)"
  consider "n < 8" | "8 \<le> n" "n < 16" using n by (simp; linarith)
  then show "bit (htons (htons x)) n \<longleftrightarrow> bit x n"
    by cases (auto simp: htons_def bit_simps dest: bit_u16_bound)
qed

lemma join_le16: "ucast (ucast w :: u8) OR push_bit 8 (ucast (ucast (drop_bit 8 w) :: u8)) = (w :: u16)"
proof (rule bit_word_eqI)
  fix n assume n: "n < LENGTH(16)"
  consider "n < 8" | "8 \<le> n" "n < 16" using n by (simp; linarith)
  then show "bit (ucast (ucast w :: u8) OR push_bit 8 (ucast (ucast (drop_bit 8 w) :: u8)) :: u16) n \<longleftrightarrow> bit w n"
    by cases (auto simp: bit_simps dest: bit_u16_bound)
qed

lemma rd16_le16: "bytes m a 2 = le16 w \<Longrightarrow> rd16 m a = w"
proof -
  assume b: "bytes m a 2 = le16 w"
  have "m a = (le16 w) ! 0" "m (a + 1) = (le16 w) ! 1"
    using nth_bytes [of 0 2 m a] nth_bytes [of 1 2 m a] b by auto
  then show ?thesis by (simp add: rd16_def le16_def join_le16)
qed

lemma le16_htons: "le16 (htons w) = [ucast (drop_bit 8 w), ucast w]"
proof -
  have "(ucast (htons w) :: u8) = ucast (drop_bit 8 w)"
    by (rule bit_word_eqI) (auto simp: htons_def bit_simps)
  moreover have "(ucast (drop_bit 8 (htons w)) :: u8) = ucast w"
    by (rule bit_word_eqI) (auto simp: htons_def bit_simps dest: bit_u16_bound)
  ultimately show ?thesis by (simp add: le16_def)
qed

lemma byte_swap32_swap [simp]: "byte_swap32 (byte_swap32 x) = x"
proof (rule bit_word_eqI)
  fix n assume n: "n < LENGTH(32)"
  have m: "(0xff :: u32) = mask 8" "(0xff00 :: u32) = push_bit 8 (mask 8)" "(0xff0000 :: u32) = push_bit 16 (mask 8)"
    "(0xff000000 :: u32) = push_bit 24 (mask 8)" by (simp_all add: mask_eq_exp_minus_1)
  consider "n < 8" | "8 \<le> n" "n < 16" | "16 \<le> n" "n < 24" | "24 \<le> n" "n < 32" using n by (simp; linarith)
  then show "bit (byte_swap32 (byte_swap32 x)) n \<longleftrightarrow> bit x n"
    unfolding byte_swap32_def m
    by cases (auto simp: bit_simps dest: bit_u32_bound)
qed

subsection \<open>Lemmas on the checksum\<close>

text \<open>The one's complement sum as arithmetic: the sum of the 16-bit words, folded twice.\<close>

definition sum16 :: "mem \<Rightarrow> addr \<Rightarrow> nat \<Rightarrow> nat" where
  "sum16 m p n = (\<Sum>i<n. unat (rd16 m (p + 2 * i)))"

definition fold16 :: "nat \<Rightarrow> nat" where
  "fold16 x = (let x = x mod 65536 + x div 65536; x = x mod 65536 + x div 65536 in x mod 65536)"

lemma sum16_bound: "sum16 m p n \<le> n * 65535"
proof -
  have "sum16 m p n \<le> (\<Sum>i<n. 65535)"
    unfolding sum16_def by (rule sum_mono) (use unat_u16_bound less_Suc_eq_le in \<open>fastforce simp: less_Suc_eq_le\<close>)
  then show ?thesis by simp
qed

lemma sum16_Suc: "sum16 m p (Suc n) = unat (rd16 m p) + sum16 m (p + 2) n"
  unfolding sum16_def by (subst sum.lessThan_Suc_shift) (simp add: algebra_simps)

lemma unat_and_ffff: "unat (x AND 0xffff :: u32) = unat x mod 65536"
proof -
  have "x AND 0xffff = take_bit 16 x" by (simp add: take_bit_eq_mask mask_eq_exp_minus_1)
  then show ?thesis by (simp add: take_bit_eq_mod unat_mod)
qed

lemma unat_drop_bit_16: "unat (drop_bit 16 (x :: u32)) = unat x div 65536"
  by (simp add: drop_bit_eq_div unat_div)

lemma unat_cksum_loop:
  "unat x + sum16 m p n < 2 ^ 32 \<Longrightarrow> unat (cksum_loop m p n x) = unat x + sum16 m p n"
proof (induction n arbitrary: p x)
  case 0
  then show ?case by (simp add: sum16_def)
next
  case (Suc n)
  have u: "unat (ucast (rd16 m p) :: u32) = unat (rd16 m p)" by (simp add: unsigned_ucast_eq take_bit_eq_mod less_trans [OF unat_u16_bound])
  have "unat x + unat (ucast (rd16 m p) :: u32) < 2 ^ 32" using Suc.prems by (simp add: sum16_Suc u)
  then have a: "unat (x + ucast (rd16 m p)) = unat x + unat (rd16 m p)"
    by (simp add: unat_word_ariths u)
  with Suc.IH [of "x + ucast (rd16 m p)" "p + 2"] Suc.prems show ?case by (simp add: sum16_Suc a)
qed

lemma unat_NetCksum:
  assumes "n \<le> 65536"
  shows "unat (NetCksum m p n) = fold16 (sum16 m p n)"
proof -
  have S: "sum16 m p n < 2 ^ 32"
    using sum16_bound [of m p n] mult_le_mono1 [OF assms, of 65535] by simp
  define s where "s = sum16 m p n"
  have 0: "unat (cksum_loop m p n 0) = s" using unat_cksum_loop [of 0 m p n] S by (simp add: s_def)
  have add: "unat ((x AND 0xffff) + drop_bit 16 x) = unat x mod 65536 + unat x div 65536" for x :: u32
  proof -
    have "unat x div 65536 < 65536" using unat_u32_bound [of x] by linarith
    then have "unat x mod 65536 + unat x div 65536 < 2 ^ 32" by (simp add: add_less_mono [of _ 65536 _ 65536, THEN less_trans])
    then show ?thesis by (simp add: unat_word_ariths unat_and_ffff unat_drop_bit_16)
  qed
  show ?thesis by (simp add: NetCksum_def fold16_def Let_def unat_and_ffff add 0 s_def [symmetric])
qed

lemma fold16_mod: "x < 2 ^ 32 \<Longrightarrow> fold16 x mod 65535 = x mod 65535"
proof -
  have step: "(a mod 65536 + a div 65536) mod 65535 = a mod 65535" for a :: nat
  proof -
    have "a = 65535 * (a div 65536) + (a mod 65536 + a div 65536)"
      using div_mult_mod_eq [of a 65536] by linarith
    then show ?thesis by (metis mod_mult_self4)
  qed
  assume "x < 2 ^ 32"
  define y where "y = x mod 65536 + x div 65536"
  define z where "z = y mod 65536 + y div 65536"
  have "y \<le> 131070" using \<open>x < 2 ^ 32\<close> unfolding y_def by (simp; linarith)
  then have "z < 65536" unfolding z_def by (cases "y < 65536") (simp_all add: le_div_geq le_mod_geq)
  then have "fold16 x = z" by (simp add: fold16_def Let_def y_def z_def)
  then show ?thesis using step [of x] step [of y] by (simp add: y_def z_def)
qed

lemma fold16_bound: "fold16 x \<le> 65535"
  by (simp add: fold16_def Let_def less_Suc_eq_le [symmetric])

lemma and_fffe_zero: "(x :: u32) AND 0xfffe = 0 \<longleftrightarrow> unat x mod 65536 div 2 = 0"
proof -
  let ?y = "drop_bit 1 (take_bit 16 x)"
  have m: "(0xfffe :: u32) = push_bit 1 (mask 15)" by (simp add: mask_eq_exp_minus_1)
  have "x AND 0xfffe = push_bit 1 ?y" unfolding m
    by (rule bit_word_eqI, simp only: bit_push_bit_iff bit_and_iff bit_drop_bit_eq bit_take_bit_iff bit_mask_iff o_def) auto
  moreover have "?y = drop_bit 1 (x AND 0xfffe)" unfolding m
    by (rule bit_word_eqI, simp only: bit_push_bit_iff bit_and_iff bit_drop_bit_eq bit_take_bit_iff bit_mask_iff o_def) auto
  ultimately have "x AND 0xfffe = 0 \<longleftrightarrow> ?y = 0" by (metis drop_bit_of_0 push_bit_of_0)
  moreover have "unat ?y = unat x mod 65536 div 2"
    by (simp add: drop_bit_eq_div take_bit_eq_mod unat_div unat_mod)
  ultimately show ?thesis by (metis unat_eq_zero)
qed

lemma NetCksumOk_iff:
  assumes "n \<le> 65536"
  shows "NetCksumOk m p n \<longleftrightarrow> sum16 m p n mod 65535 = 0"
proof -
  let ?f = "fold16 (sum16 m p n)"
  define c where "c = NetCksum m p n"
  have c: "unat c = ?f" by (simp add: c_def unat_NetCksum assms)
  have f: "?f \<le> 65535" by (rule fold16_bound)
  have S: "sum16 m p n < 2 ^ 32"
    using sum16_bound [of m p n] mult_le_mono1 [OF assms, of 65535] by simp
  have "NetCksumOk m p n \<longleftrightarrow> (?f + 1) mod 65536 div 2 = 0"
    using f by (simp add: NetCksumOk_def and_fffe_zero c c_def [symmetric] unat_word_ariths)
  also have "\<dots> \<longleftrightarrow> ?f = 0 \<or> ?f = 65535" using f by (auto simp: le_less)
  also have "\<dots> \<longleftrightarrow> ?f mod 65535 = 0" using f by (auto simp: le_less)
  finally show ?thesis by (simp add: fold16_mod [OF S])
qed

subsection \<open>Lemmas on the dotted notation\<close>

definition dec :: "nat \<Rightarrow> string" where
  "dec n = (if n = 0 then ''0'' else rev (num_digits lower_digits 10 n))"

lemma number_dec:
  assumes "n < 256"
  shows "number (of_nat n) 10 (- 1) (- 1) SIGN = Some (dec n)"
proof -
  have u: "unat (of_nat n :: u32) = n" using assms by (simp add: unat_of_nat)
  have s: "sint (of_nat n :: u32) = int n"
    using assms by (simp add: signed_of_nat signed_take_bit_int_eq_self)
  have z: "(of_nat n :: u32) = 0 \<longleftrightarrow> n = 0" by (simp only: word_unat_eq_iff u unat_0)
  show ?thesis
    using assms by (simp add: number_def number_sign_def has_def flag_defs pad_out_def Let_def u s z dec_def)
qed

lemma conv_spec_dec:
  "n < 256 \<Longrightarrow> conv_spec k (CHR ''d'' # fmt) (VInt (of_nat n) # args) = Some (dec n, [], fmt, args)"
  using number_dec [of n] by (simp add: conv_spec_eval has_bits)

lemma vsprintf_dotted:
  assumes "a < 256" "b < 256" "c < 256" "d < 256"
  shows "map_option fst (vsprintf ''%d.%d.%d.%d'' [VInt (of_nat a), VInt (of_nat b), VInt (of_nat c), VInt (of_nat d)]) =
    Some (dec a @ ''.'' @ dec b @ ''.'' @ dec c @ ''.'' @ dec d)"
  using assms by (simp add: vsprintf_def conv_spec_dec)

lemma simple_strtoul_dec:
  assumes "n < 256" "t = [] \<or> hd t = CHR ''.''"
  shows "simple_strtoul (dec n @ t) 10 = (of_nat n, t)"
proof -
  have ds: "digit_set lower_digits" by (simp add: digit_set_def)
  have stop: "strtoul_loop 10 r t = (r, t)" for r
    using assms(2) by (cases t) (auto simp: isxdigit_range)
  show ?thesis
  proof (cases "n = 0")
    case True
    from assms(2) have "peek t \<noteq> CHR ''x''" by (cases t) (auto simp: peek_def NUL_def)
    with True show ?thesis by (simp add: simple_strtoul_def dec_def peek_def stop)
  next
    case False
    let ?s = "rev (num_digits lower_digits 10 n)"
    have ne: "num_digits lower_digits 10 n \<noteq> []" and l: "last (num_digits lower_digits 10 n) \<noteq> CHR ''0''"
      using num_digits_leading [OF ds _ _ False, of 10] by auto
    have p: "peek (?s @ t) \<noteq> CHR ''0''"
      using ne l by (cases ?s) (auto simp: peek_def hd_rev [symmetric])
    have "strtoul_loop (of_nat 10) 0 (?s @ t) = strtoul_loop (of_nat 10) (digits_value (of_nat 10) 0 ?s) t"
      using num_digits_valid [OF ds, of 10] by (intro strtoul_loop_digits) auto
    also have "digits_value (of_nat 10) 0 ?s = of_nat n" by (rule num_digits_value [OF ds]) simp_all
    finally have "strtoul_loop 10 0 (?s @ t) = (of_nat n, t)" by (simp add: stop)
    with p False show ?thesis by (simp add: simple_strtoul_def dec_def)
  qed
qed

lemma of_nat_and_ff: "n < 256 \<Longrightarrow> of_nat n AND (0xFF :: u32) = of_nat n"
proof -
  assume "n < 256"
  have "of_nat n AND (0xFF :: u32) = take_bit 8 (of_nat n)" by (simp add: take_bit_eq_mask mask_eq_exp_minus_1)
  also have "\<dots> = of_nat n" using \<open>n < 256\<close> by (simp add: word_unat_eq_iff take_bit_eq_mod unat_mod unat_of_nat)
  finally show ?thesis .
qed

lemma ip_fields_dec:
  assumes "n < 256"
  shows "ip_fields (Suc k) addr (dec n @ CHR ''.'' # t) = ip_fields k (push_bit 8 addr OR of_nat n) t"
    "ip_fields (Suc 0) addr (dec n) = push_bit 8 addr OR of_nat n"
  using simple_strtoul_dec [of n "CHR ''.'' # t"] simple_strtoul_dec [of n "[]"] assms of_nat_and_ff [OF assms]
  by (simp_all add: next_field_def peek_def NUL_def)

lemma ip_fields_dotted:
  assumes "a < 256" "b < 256" "c < 256" "d < 256"
  shows "ip_fields 4 0 (dec a @ ''.'' @ dec b @ ''.'' @ dec c @ ''.'' @ dec d) =
    push_bit 8 (push_bit 8 (push_bit 8 (of_nat a) OR of_nat b) OR of_nat c) OR (of_nat d :: u32)"
proof -
  have "(4 :: nat) = Suc (Suc (Suc (Suc 0)))" by simp
  then show ?thesis
    using assms by (simp only: append_Cons append_Nil ip_fields_dec push_bit_of_0 or.left_neutral)
qed

lemma length_dec: "n < 256 \<Longrightarrow> length (dec n) \<le> 3"
proof -
  assume "n < 256"
  then have "n div 10 div 10 div 10 = 0" by simp
  then show ?thesis
    by (simp add: dec_def num_digits.simps [of _ _ n] num_digits.simps [of _ _ "n div 10"]
        num_digits.simps [of _ _ "n div 10 div 10"] num_digits.simps [of _ _ 0])
qed

lemma join_bytes:
  "push_bit 8 (push_bit 8 (push_bit 8 (drop_bit 24 y AND 0xff) OR (drop_bit 16 y AND 0xff)) OR (drop_bit 8 y AND 0xff))
     OR (y AND 0xff) = (y :: u32)"
proof (rule bit_word_eqI)
  fix n assume n: "n < LENGTH(32)"
  have m: "(0xff :: u32) = mask 8" by (simp add: mask_eq_exp_minus_1)
  consider "n < 8" | "8 \<le> n" "n < 16" | "16 \<le> n" "n < 24" | "24 \<le> n" "n < 32" using n by (simp; linarith)
  then show "bit (push_bit 8 (push_bit 8 (push_bit 8 (drop_bit 24 y AND 0xff) OR (drop_bit 16 y AND 0xff)) OR
      (drop_bit 8 y AND 0xff)) OR (y AND 0xff)) n \<longleftrightarrow> bit y n"
    unfolding m by cases (auto simp: bit_simps dest: bit_u32_bound)
qed

text \<open>An IP address survives the dotted notation: \<open>ip_to_string\<close> succeeds for every address, writes
  at most 15 characters, so that it fits the buffers of 16 and 22 its callers pass, and
  \<open>string_to_ip\<close> reads its text back to the same address.\<close>

theorem ip_string_roundtrip: "\<exists>s. ip_to_string x = Some s \<and> string_to_ip (Some s) = x \<and> length s \<le> 15"
proof -
  define y where "y = byte_swap32 x"
  define f where "f i = unat (drop_bit i y AND 0xff)" for i
  have w: "drop_bit i y AND 0xff = of_nat (f i)" and lt: "f i < 256" for i
    by (simp_all add: f_def unat_and_ff)
  have w0: "y AND 0xff = of_nat (f 0)" using w [of 0] by simp
  let ?s = "dec (f 24) @ ''.'' @ dec (f 16) @ ''.'' @ dec (f 8) @ ''.'' @ dec (f 0)"
  have "ip_to_string x = Some ?s"
    unfolding ip_to_string_def Let_def y_def [symmetric] w w0 by (rule vsprintf_dotted) (rule lt)+
  moreover have "string_to_ip (Some ?s) = x"
    using join_bytes [of y] unfolding w w0
    by (simp only: string_to_ip_def option.case ip_fields_dotted [OF lt lt lt lt]) (simp only: y_def byte_swap32_swap)
  moreover have "length ?s \<le> 15" using length_dec [OF lt [of 24]] length_dec [OF lt [of 16]] length_dec [OF lt [of 8]] length_dec [OF lt [of 0]] by simp
  ultimately show ?thesis by blast
qed

end
