(* ===== verification/Net.thy ===== *)
theory Net
  imports NetAddr
begin

text \<open>
  The lower half of \<open>net/net.c\<close>: the state of the network code, the Ethernet, ARP, IP and UDP headers it
  builds, sending with address resolution, timeouts and the restart of a transfer. The state extends
  the environment of \<open>Env\<close>, whose \<open>bi_ip_addr\<close>, \<open>bi_enetaddr\<close>, \<open>load_addr\<close> and \<open>BootFile\<close> the
  network code reads. The Ethernet driver is the log of what it was asked to do. \<open>get_timer (0)\<close> reads the
  free running CPU counter: the parameter \<open>clk\<close> gives the value of each successive read. Messages
  printed on the console are left out.
\<close>

subsection \<open>State\<close>

definition PROT_IP :: u16 where "PROT_IP = 0x0800"
definition PROT_ARP :: u16 where "PROT_ARP = 0x0806"
definition PROT_RARP :: u16 where "PROT_RARP = 0x8035"
definition PROT_VLAN :: u16 where "PROT_VLAN = 0x8100"
definition ETHER_HDR_SIZE :: nat where "ETHER_HDR_SIZE = 14"
definition E802_HDR_SIZE :: nat where "E802_HDR_SIZE = 22"
definition IP_HDR_SIZE :: nat where "IP_HDR_SIZE = 28"
definition IP_HDR_SIZE_NO_UDP :: nat where "IP_HDR_SIZE_NO_UDP = 20"
definition ARP_HDR_SIZE :: nat where "ARP_HDR_SIZE = 28"
definition ARP_ETHER :: u16 where "ARP_ETHER = 1"
definition ARPOP_REQUEST :: u16 where "ARPOP_REQUEST = 1"
definition ARPOP_REPLY :: u16 where "ARPOP_REPLY = 2"
definition RARPOP_REPLY :: u16 where "RARPOP_REPLY = 4"
definition ARP_TIMEOUT :: nat where "ARP_TIMEOUT = 3"
definition ARP_TIMEOUT_COUNT :: int where "ARP_TIMEOUT_COUNT = 8"

lemmas net_consts = PROT_IP_def PROT_ARP_def PROT_RARP_def PROT_VLAN_def ETHER_HDR_SIZE_def E802_HDR_SIZE_def
  IP_HDR_SIZE_def IP_HDR_SIZE_NO_UDP_def ARP_HDR_SIZE_def ARP_ETHER_def ARPOP_REQUEST_def ARPOP_REPLY_def
  RARPOP_REPLY_def

text \<open>\<open>k * CFG_HZ\<close> with \<open>CFG_HZ\<close> the unparenthesised \<open>CPU_CLOCK_RATE/2\<close>: the product is taken first, in a
  32-bit \<open>int\<close>, and halved afterwards.\<close>

definition CPU_CLOCK_RATE :: u32 where "CPU_CLOCK_RATE = 600000000"

definition times_CFG_HZ :: "nat \<Rightarrow> u32" where
  "times_CFG_HZ k = word_of_int (sint (of_nat k * CPU_CLOCK_RATE) div 2)"

datatype netloop = NETLOOP_CONTINUE | NETLOOP_RESTART | NETLOOP_SUCCESS | NETLOOP_FAIL

datatype ether_ptr = NetServerEther_ptr | NetBcastAddr_ptr

datatype rxhand_f = TftpHandler_f | startAgainHandler_f

datatype thand_f = TftpTimeout_f | startAgainTimeout_f

datatype eth_event = EthSend "u8 list" | EthHalt

record 'c net_state = "'c env_state" +
  NetOurIP :: u32
  NetServerIP :: u32
  NetOurGatewayIP :: u32
  NetOurSubnetMask :: u32
  NetOurDNSIP :: u32
  NetOurNISDomain :: string
  NetOurHostName :: string
  NetOurRootPath :: string
  NetOurEther :: "u8 list"
  NetServerEther :: "u8 list"
  NetBcastAddr :: "u8 list"
  NetBootFileXferSize :: u32
  NetIPID :: u32
  NetState :: netloop
  NetTxPacket :: mem
  NetArpWaitTxPacket :: mem
  NetArpWaitTxPacketSize :: nat
  NetArpWaitPacketIP :: u32
  NetArpWaitReplyIP :: u32
  NetArpWaitPacketMAC :: "ether_ptr option"
  NetArpWaitTimerStart :: u32
  NetArpWaitTry :: int
  packetHandler :: "rxhand_f option"
  timeHandler :: "thand_f option"
  timeStart :: u32
  timeDelta :: u32
  ram :: "u32 \<Rightarrow> u8"
  eth_log :: "eth_event list"
  timer_reads :: nat

type_synonym clock = "nat \<Rightarrow> u32"

definition NetEtherNullAddr :: "u8 list" where "NetEtherNullAddr = [0, 0, 0, 0, 0, 0]"

definition ether_at :: "ether_ptr \<Rightarrow> ('c, 'm) net_state_scheme \<Rightarrow> u8 list" where
  "ether_at p s = (case p of NetServerEther_ptr \<Rightarrow> NetServerEther s | NetBcastAddr_ptr \<Rightarrow> NetBcastAddr s)"

definition set_ether_at :: "ether_ptr \<Rightarrow> u8 list \<Rightarrow> ('c, 'm) net_state_scheme \<Rightarrow> ('c, 'm) net_state_scheme" where
  "set_ether_at p a s =
     (case p of NetServerEther_ptr \<Rightarrow> s\<lparr>NetServerEther := a\<rparr> | NetBcastAddr_ptr \<Rightarrow> s\<lparr>NetBcastAddr := a\<rparr>)"

definition eth_send :: "u8 list \<Rightarrow> ('c, 'm) net_state_scheme \<Rightarrow> ('c, 'm) net_state_scheme" where
  "eth_send pkt s = s\<lparr>eth_log := eth_log s @ [EthSend pkt]\<rparr>"

definition eth_halt :: "('c, 'm) net_state_scheme \<Rightarrow> ('c, 'm) net_state_scheme" where
  "eth_halt s = s\<lparr>eth_log := eth_log s @ [EthHalt]\<rparr>"

definition get_timer :: "clock \<Rightarrow> u32 \<Rightarrow> ('c, 'm) net_state_scheme \<Rightarrow> u32 \<times> ('c, 'm) net_state_scheme" where
  "get_timer clk base s = (clk (timer_reads s) - base, s\<lparr>timer_reads := timer_reads s + 1\<rparr>)"

subsection \<open>Headers\<close>

definition NetEthHdrSize :: nat where "NetEthHdrSize = ETHER_HDR_SIZE"

text \<open>The packet memory with the header, and the header's size.\<close>

definition NetSetEther :: "('c, 'm) net_state_scheme \<Rightarrow> mem \<Rightarrow> addr \<Rightarrow> u8 list \<Rightarrow> u16 \<Rightarrow> mem \<times> nat" where
  "NetSetEther s m xet adr prot =
     (blit (blit (blit m xet adr) (xet + 6) (NetOurEther s)) (xet + 12) (le16 (htons prot)), ETHER_HDR_SIZE)"

text \<open>The 28 bytes of \<open>IP_t\<close> as they stand before the checksum is filled in.\<close>

definition ip_fields_bytes :: "u32 \<Rightarrow> u32 \<Rightarrow> u32 \<Rightarrow> u32 \<Rightarrow> u32 \<Rightarrow> nat \<Rightarrow> u8 list" where
  "ip_fields_bytes ipid src dest dport sport len =
     [0x45, 0] @ le16 (htons (of_nat (IP_HDR_SIZE + len))) @ le16 (htons (ucast ipid)) @ le16 (htons 0x4000) @
     [255, 17] @ le16 0 @ le32 src @ le32 dest @
     le16 (htons (ucast sport)) @ le16 (htons (ucast dport)) @ le16 (htons (of_nat (8 + len))) @ le16 0"

definition NetSetIP ::
  "('c, 'm) net_state_scheme \<Rightarrow> mem \<Rightarrow> addr \<Rightarrow> u32 \<Rightarrow> u32 \<Rightarrow> u32 \<Rightarrow> nat \<Rightarrow> mem \<times> ('c, 'm) net_state_scheme" where
  "NetSetIP s m xip dest dport sport len =
     (let m = (if odd len then m(xip + IP_HDR_SIZE + len := 0) else m);
          m = blit m xip (ip_fields_bytes (NetIPID s) (NetOurIP s) dest dport sport len);
          s = s\<lparr>NetIPID := NetIPID s + 1\<rparr>;
          m = blit m (xip + 10) (le16 (ucast (NOT (NetCksum m xip (IP_HDR_SIZE_NO_UDP div 2)))))
      in (m, s))"

subsection \<open>Address resolution\<close>

definition ArpRequest :: "('c, 'm) net_state_scheme \<Rightarrow> ('c, 'm) net_state_scheme" where
  "ArpRequest s =
     (let (m, pkt) = NetSetEther s (NetTxPacket s) 0 (NetBcastAddr s) PROT_ARP;
          m = blit m pkt (le16 (htons ARP_ETHER) @ le16 (htons PROT_IP) @ [6, 4] @ le16 (htons ARPOP_REQUEST));
          m = blit m (pkt + 8) (NetOurEther s);
          m = blit m (pkt + 8 + 6) (le32 (NetOurIP s));
          m = blit m (pkt + 8 + 10) (replicate 6 0);
          s = s\<lparr>NetArpWaitReplyIP :=
                  (if NetArpWaitPacketIP s AND NetOurSubnetMask s \<noteq> NetOurIP s AND NetOurSubnetMask s
                   then NetOurGatewayIP s else NetArpWaitPacketIP s)\<rparr>;
          m = blit m (pkt + 8 + 16) (le32 (NetArpWaitReplyIP s));
          s = s\<lparr>NetTxPacket := m\<rparr>
      in eth_send (bytes m 0 (pkt + ARP_HDR_SIZE)) s)"

subsection \<open>Timeouts, handlers and restart\<close>

definition NetSetHandler :: "rxhand_f \<Rightarrow> ('c, 'm) net_state_scheme \<Rightarrow> ('c, 'm) net_state_scheme" where
  "NetSetHandler f s = s\<lparr>packetHandler := Some f\<rparr>"

definition NetSetTimeout :: "clock \<Rightarrow> u32 \<Rightarrow> thand_f \<Rightarrow> ('c, 'm) net_state_scheme \<Rightarrow> ('c, 'm) net_state_scheme" where
  "NetSetTimeout clk iv f s =
     (if iv = 0 then s\<lparr>timeHandler := None\<rparr>
      else (let s = s\<lparr>timeHandler := Some f\<rparr>;
                (t, s) = get_timer clk 0 s;
                s = s\<lparr>timeStart := t\<rparr>
            in s\<lparr>timeDelta := iv\<rparr>))"

definition startAgainTimeout :: "('c, 'm) net_state_scheme \<Rightarrow> ('c, 'm) net_state_scheme" where
  "startAgainTimeout s = s\<lparr>NetState := NETLOOP_RESTART\<rparr>"

definition startAgainHandler :: "('c, 'm) net_state_scheme \<Rightarrow> ('c, 'm) net_state_scheme" where
  "startAgainHandler s = s"

definition NetStartAgain :: "clock \<Rightarrow> ('c, 'm) net_state_scheme \<Rightarrow> ('c, 'm) net_state_scheme option" where
  "NetStartAgain clk s =
     do {
       nretry \<leftarrow> getenv s ''netretry'';
       let noretry = (case nretry of Some v \<Rightarrow> v = ''no'' | None \<Rightarrow> False);
       if noretry then Some ((eth_halt s)\<lparr>NetState := NETLOOP_FAIL\<rparr>)
       else Some (NetSetHandler startAgainHandler_f (NetSetTimeout clk (times_CFG_HZ 10) startAgainTimeout_f s))
     }"

definition ArpTimeoutCheck :: "clock \<Rightarrow> ('c, 'm) net_state_scheme \<Rightarrow> ('c, 'm) net_state_scheme option" where
  "ArpTimeoutCheck clk s =
     (if NetArpWaitPacketIP s = 0 then Some s
      else (let (t, s) = get_timer clk 0 s in
            if t - NetArpWaitTimerStart s > times_CFG_HZ ARP_TIMEOUT
            then (let s = s\<lparr>NetArpWaitTry := NetArpWaitTry s + 1\<rparr> in
                  if NetArpWaitTry s \<ge> ARP_TIMEOUT_COUNT
                  then NetStartAgain clk (s\<lparr>NetArpWaitTry := 0\<rparr>)
                  else Some (ArpRequest (s\<lparr>NetArpWaitTimerStart := t\<rparr>)))
            else Some s))"

subsection \<open>Sending\<close>

text \<open>The result is 1 while the packet waits for the address, 0 when it was transmitted.\<close>

definition NetSendUDPPacket ::
  "clock \<Rightarrow> ether_ptr \<Rightarrow> u32 \<Rightarrow> u32 \<Rightarrow> u32 \<Rightarrow> nat \<Rightarrow> ('c, 'm) net_state_scheme \<Rightarrow> ('c, 'm) net_state_scheme \<times> int" where
  "NetSendUDPPacket clk ether dest dport sport len s =
     (let dest = (if dest = 0 then 0xFFFFFFFF else dest);
          ether = (if dest = 0xFFFFFFFF then NetBcastAddr_ptr else ether)
      in if ether_at ether s = NetEtherNullAddr
      then (let s = s\<lparr>NetArpWaitPacketIP := dest, NetArpWaitPacketMAC := Some ether\<rparr>;
                (m, pkt) = NetSetEther s (NetArpWaitTxPacket s) 0 (ether_at ether s) PROT_IP;
                (m, s) = NetSetIP s m pkt dest dport sport len;
                m = blit m (pkt + IP_HDR_SIZE) (bytes (NetTxPacket s) (pkt + IP_HDR_SIZE) len);
                s = s\<lparr>NetArpWaitTxPacket := m, NetArpWaitTxPacketSize := pkt + IP_HDR_SIZE + len, NetArpWaitTry := 1\<rparr>;
                (t, s) = get_timer clk 0 s
            in (ArpRequest (s\<lparr>NetArpWaitTimerStart := t\<rparr>), 1))
      else (let (m, pkt) = NetSetEther s (NetTxPacket s) 0 (ether_at ether s) PROT_IP;
                (m, s) = NetSetIP s m pkt dest dport sport len;
                s = s\<lparr>NetTxPacket := m\<rparr>
            in (eth_send (bytes m 0 (pkt + IP_HDR_SIZE + len)) s, 0)))"

subsection \<open>The bytes of a header\<close>

lemma length_ip_fields_bytes [simp]: "length (ip_fields_bytes i a b c d n) = 28"
  by (simp add: ip_fields_bytes_def)

lemma cksum_loop_cong:
  "(\<And>i. i < 2 * n \<Longrightarrow> m (p + i) = m' (q + i)) \<Longrightarrow> cksum_loop m p n x = cksum_loop m' q n x"
proof (induction n arbitrary: p q x)
  case (Suc n)
  have "rd16 m p = rd16 m' q" using Suc.prems [of 0] Suc.prems [of 1] by (simp add: rd16_def)
  moreover have "cksum_loop m (p + 2) n y = cksum_loop m' (q + 2) n y" for y
  proof (rule Suc.IH)
    fix i assume "i < 2 * n"
    then show "m (p + 2 + i) = m' (q + 2 + i)" using Suc.prems [of "2 + i"] by (simp add: add.assoc)
  qed
  ultimately show ?case by simp
qed simp

lemma NetCksum_bytes: "bytes m p (2 * n) = bytes m' q (2 * n) \<Longrightarrow> NetCksum m p n = NetCksum m' q n"
proof -
  assume b: "bytes m p (2 * n) = bytes m' q (2 * n)"
  have "m (p + i) = m' (q + i)" if "i < 2 * n" for i
    using arg_cong [OF b, of "\<lambda>xs. xs ! i"] that by simp
  then have "cksum_loop m p n 0 = cksum_loop m' q n 0" by (rule cksum_loop_cong)
  then show ?thesis by (simp only: NetCksum_def)
qed

definition ip_sum :: "u8 list \<Rightarrow> u16" where
  "ip_sum h = ucast (NOT (NetCksum (blit (\<lambda>_. 0) 0 h) 0 10))"

definition ip_header :: "u32 \<Rightarrow> u32 \<Rightarrow> u32 \<Rightarrow> u32 \<Rightarrow> u32 \<Rightarrow> nat \<Rightarrow> u8 list" where
  "ip_header ipid src dest dport sport len =
     (let h = ip_fields_bytes ipid src dest dport sport len in take 10 h @ le16 (ip_sum h) @ drop 12 h)"

lemma length_ip_header [simp]: "length (ip_header i a b c d n) = 28"
  by (simp add: ip_header_def Let_def)

lemma bytes_prefix: "n \<le> length xs \<Longrightarrow> bytes (blit m p xs) p n = take n xs"
  by (rule nth_equalityI) (auto simp: blit_apply)

lemma bytes_take: "j \<le> n \<Longrightarrow> bytes m p j = take j (bytes m p n)"
  by (rule nth_equalityI) auto

lemma NetSetIP_bytes:
  "bytes (fst (NetSetIP s m xip dest dport sport len)) xip 28 = ip_header (NetIPID s) (NetOurIP s) dest dport sport len"
proof -
  define h where "h = ip_fields_bytes (NetIPID s) (NetOurIP s) dest dport sport len"
  define m1 where "m1 = (if odd len then m(xip + IP_HDR_SIZE + len := 0) else m)"
  have lh: "length h = 28" by (simp add: h_def)
  have "NetCksum (blit m1 xip h) xip 10 = NetCksum (blit (\<lambda>_. 0) 0 h) 0 10"
    by (rule NetCksum_bytes) (simp add: bytes_prefix lh)
  then have "bytes (fst (NetSetIP s m xip dest dport sport len)) xip 28 =
      bytes (blit (blit m1 xip h) (xip + 10) (le16 (ip_sum h))) xip 28"
    by (simp add: NetSetIP_def Let_def m1_def [symmetric] h_def [symmetric] ip_sum_def IP_HDR_SIZE_NO_UDP_def)
  also have "\<dots> = take 10 h @ le16 (ip_sum h) @ drop 12 h"
    by (rule nth_equalityI) (auto simp: lh blit_apply nth_append)
  finally show ?thesis by (simp add: ip_header_def h_def Let_def)
qed

lemma NetSetIP_outside:
  "a < xip \<or> xip + 28 \<le> a \<and> a < xip + 28 + len \<Longrightarrow> fst (NetSetIP s m xip dest dport sport len) a = m a"
  by (auto simp: NetSetIP_def Let_def blit_apply IP_HDR_SIZE_def)

lemma NetSetIP_state: "snd (NetSetIP s m xip dest dport sport len) = s\<lparr>NetIPID := NetIPID s + 1\<rparr>"
  by (simp add: NetSetIP_def Let_def)

text \<open>The header \<open>NetSetIP\<close> writes passes the receiver's test.\<close>

lemma rd16_field: "rd16 (blit m (p + 10) (le16 w)) (p + 2 * i) = (if i = 5 then w else rd16 m (p + 2 * i))"
proof (cases "i = 5")
  case True
  have "bytes (blit m (p + 10) (le16 w)) (p + 10) 2 = le16 w" by simp
  with True rd16_le16 show ?thesis by fastforce
next
  case False
  then have "2 * i + 1 < 10 \<or> 12 \<le> 2 * i" by presburger
  with False show ?thesis by (auto simp: rd16_def blit_apply)
qed

lemma sum16_field:
  assumes "5 < n" "rd16 m (p + 10) = 0"
  shows "sum16 (blit m (p + 10) (le16 w)) p n = sum16 m p n + unat w"
proof -
  have "sum16 (blit m (p + 10) (le16 w)) p n = (\<Sum>i<n. unat (rd16 m (p + 2 * i)) + (if i = 5 then unat w else 0))"
    unfolding sum16_def rd16_field using assms(2) by (intro sum.cong) auto
  also have "\<dots> = sum16 m p n + (\<Sum>i<n. if i = 5 then unat w else 0)" by (simp add: sum.distrib sum16_def)
  also have "(\<Sum>i<n. if i = 5 then unat w else 0) = unat w" using assms(1) by simp
  finally show ?thesis .
qed

lemma unat_not_cksum:
  assumes "n \<le> 65536"
  shows "unat (ucast (NOT (NetCksum m p n)) :: u16) = 65535 - fold16 (sum16 m p n)"
proof -
  define c where "c = NetCksum m p n"
  have c: "unat c = fold16 (sum16 m p n)" unfolding c_def by (rule unat_NetCksum [OF assms])
  have lt: "unat c \<le> 65535" using fold16_bound c by simp
  have "NOT c = - 1 - c" by (simp add: not_eq_complement minus_diff_commute)
  moreover have "unat (- 1 - c) = 4294967295 - unat c" 
  proof -
    have "unat (- 1 :: u32) = 4294967295" by (simp add: unsigned_minus_1_eq_mask mask_eq_exp_minus_1)
    then show ?thesis using lt by (simp add: unat_sub_if_size word_size)
  qed
  ultimately have "unat (ucast (NOT c) :: u16) = (4294967295 - unat c) mod 65536"
    by (simp add: unsigned_ucast_eq take_bit_eq_mod)
  also have "\<dots> = 65535 - unat c"
  proof -
    have "4294967295 - unat c = (65535 - unat c) + 65535 * 65536" using lt by simp
    then show ?thesis by (simp only: mod_mult_self1) simp
  qed
  finally show ?thesis by (simp only: c) (simp only: c_def)
qed

lemma checksum_completes:
  assumes "5 < n" "n \<le> 65536" "rd16 m (p + 10) = 0"
  shows "NetCksumOk (blit m (p + 10) (le16 (ucast (NOT (NetCksum m p n))))) p n"
proof -
  let ?S = "sum16 m p n"
  have S: "?S < 2 ^ 32" using sum16_bound [of m p n] mult_le_mono1 [OF assms(2), of 65535] by simp
  have "sum16 (blit m (p + 10) (le16 (ucast (NOT (NetCksum m p n))))) p n = ?S + (65535 - fold16 ?S)"
    by (simp only: sum16_field [OF assms(1, 3)] unat_not_cksum [OF assms(2)])
  moreover have "(?S + (65535 - fold16 ?S)) mod 65535 = 0"
  proof -
    have "(?S + (65535 - fold16 ?S)) mod 65535 = (?S mod 65535 + (65535 - fold16 ?S)) mod 65535"
      by (simp only: mod_add_left_eq)
    also have "\<dots> = (fold16 ?S + (65535 - fold16 ?S)) mod 65535" unfolding fold16_mod [OF S, symmetric]
      by (simp only: mod_add_left_eq)
    finally show ?thesis using fold16_bound [of ?S] by simp
  qed
  ultimately show ?thesis by (simp only: NetCksumOk_iff [OF assms(2)])
qed

lemma NetCksumOk_bytes: "bytes m p (2 * n) = bytes m' q (2 * n) \<Longrightarrow> NetCksumOk m p n = NetCksumOk m' q n"
  unfolding NetCksumOk_def by (simp only: NetCksum_bytes [of m p n m' q])

lemma ip_header_checks:
  assumes "bytes m p 28 = ip_header ipid src dest dport sport len"
  shows "NetCksumOk m p 10"
proof -
  define h where "h = ip_fields_bytes ipid src dest dport sport len"
  have lh: "length h = 28" by (simp add: h_def)
  define m1 where "m1 = blit (\<lambda>_. 0) 0 h"
  have f: "rd16 m1 (0 + 10) = 0"
    by (simp add: m1_def rd16_def blit_apply lh) (simp add: h_def ip_fields_bytes_def le16_def le32_def)
  have "bytes m p 20 = take 20 (ip_header ipid src dest dport sport len)"
    using bytes_take [of 20 28 m p] assms by simp
  also have "\<dots> = bytes (blit m1 (0 + 10) (le16 (ip_sum h))) 0 20"
    by (rule nth_equalityI) (auto simp: lh blit_apply nth_append ip_header_def Let_def h_def [symmetric] m1_def)
  finally have "NetCksumOk m p 10 = NetCksumOk (blit m1 (0 + 10) (le16 (ip_sum h))) 0 10"
    by (intro NetCksumOk_bytes) simp
  then show ?thesis using checksum_completes [of 10 m1 0] f by (simp add: ip_sum_def m1_def [symmetric])
qed

subsection \<open>The frames sent\<close>

definition ether_header :: "u8 list \<Rightarrow> u8 list \<Rightarrow> u16 \<Rightarrow> u8 list" where
  "ether_header dst src prot = dst @ src @ le16 (htons prot)"

lemma length_ether_header [simp]: "length (ether_header dst src prot) = length dst + length src + 2"
  by (simp add: ether_header_def)

definition udp_frame ::
  "u8 list \<Rightarrow> u8 list \<Rightarrow> u32 \<Rightarrow> u32 \<Rightarrow> u32 \<Rightarrow> u32 \<Rightarrow> u32 \<Rightarrow> u8 list \<Rightarrow> u8 list" where
  "udp_frame dmac smac ipid src dest dport sport data =
     ether_header dmac smac PROT_IP @ ip_header ipid src dest dport sport (length data) @ data"

definition arp_frame :: "u8 list \<Rightarrow> u8 list \<Rightarrow> u16 \<Rightarrow> u8 list \<Rightarrow> u32 \<Rightarrow> u8 list \<Rightarrow> u32 \<Rightarrow> u8 list" where
  "arp_frame dmac smac op sha spa tha tpa =
     ether_header dmac smac PROT_ARP @ le16 (htons ARP_ETHER) @ le16 (htons PROT_IP) @ [6, 4] @ le16 (htons op) @
     sha @ le32 spa @ tha @ le32 tpa"

lemma bytes_split: "bytes m p (a + b) = bytes m p a @ bytes m (p + a) b"
  by (rule bytes_append)

lemma bytes_blit_after: "p + length ys \<le> q \<Longrightarrow> bytes (blit m p ys) q n = bytes m q n"
  by (rule nth_equalityI) (auto simp: blit_apply)

lemma bytes_cong: "(\<And>i. i < n \<Longrightarrow> m (p + i) = m' (q + i)) \<Longrightarrow> bytes m p n = bytes m' q n"
  by (rule nth_equalityI) auto

lemma NetSetEther_bytes:
  assumes "length adr = 6" "length (NetOurEther s) = 6"
  shows "bytes (fst (NetSetEther s m 0 adr prot)) 0 14 = ether_header adr (NetOurEther s) prot"
  by (rule nth_equalityI)
     (auto simp: NetSetEther_def ether_header_def assms blit_apply nth_append)

lemma NetSetEther_outside:
  assumes "length adr = 6" "length (NetOurEther s) = 6" "14 \<le> a"
  shows "fst (NetSetEther s m 0 adr prot) a = m a"
  using assms by (simp add: NetSetEther_def blit_apply)

lemma NetSetEther_size [simp]: "snd (NetSetEther s m a adr prot) = 14"
  by (simp add: NetSetEther_def ETHER_HDR_SIZE_def)

lemma udp_bytes:
  assumes "length adr = 6" "length (NetOurEther s) = 6" and that: "NetOurEther s' = NetOurEther s"
  shows "bytes (fst (NetSetIP s (fst (NetSetEther s' m 0 adr PROT_IP)) 14 dest dport sport len)) 0 (42 + len) =
    udp_frame adr (NetOurEther s) (NetIPID s) (NetOurIP s) dest dport sport (bytes m 42 len)"
proof -
  define m1 where "m1 = fst (NetSetEther s' m 0 adr PROT_IP)"
  define m2 where "m2 = fst (NetSetIP s m1 14 dest dport sport len)"
  have "bytes m2 0 14 = bytes m1 0 14"
    by (rule bytes_cong) (simp add: m2_def NetSetIP_outside)
  also have "\<dots> = ether_header adr (NetOurEther s) PROT_IP"
    using NetSetEther_bytes [of adr s'] assms that by (simp add: m1_def)
  finally have h: "bytes m2 0 14 = ether_header adr (NetOurEther s) PROT_IP" .
  have "bytes m2 42 len = bytes m1 42 len" by (rule bytes_cong) (simp add: m2_def NetSetIP_outside)
  also have "\<dots> = bytes m 42 len"
    by (rule bytes_cong) (simp add: m1_def NetSetEther_outside assms that)
  finally have p: "bytes m2 42 len = bytes m 42 len" .
  have "bytes m2 0 (14 + (28 + len)) = bytes m2 0 14 @ bytes m2 14 28 @ bytes m2 42 len"
    by (simp only: bytes_split add_0 numeral_plus_numeral) (simp add: bytes_split)
  moreover have "bytes m2 14 28 = ip_header (NetIPID s) (NetOurIP s) dest dport sport len"
    unfolding m2_def by (rule NetSetIP_bytes)
  ultimately have "bytes m2 0 (42 + len) = udp_frame adr (NetOurEther s) (NetIPID s) (NetOurIP s) dest dport sport (bytes m 42 len)"
    by (simp add: h p udp_frame_def)
  then show ?thesis by (simp only: m1_def m2_def)
qed

definition arp_target :: "('c, 'm) net_state_scheme \<Rightarrow> u32" where
  "arp_target s =
     (if NetArpWaitPacketIP s AND NetOurSubnetMask s \<noteq> NetOurIP s AND NetOurSubnetMask s
      then NetOurGatewayIP s else NetArpWaitPacketIP s)"

lemma ArpRequest_eq:
  assumes "length (NetBcastAddr s) = 6" "length (NetOurEther s) = 6"
  shows "\<exists>m. ArpRequest s = s\<lparr>NetArpWaitReplyIP := arp_target s, NetTxPacket := m, eth_log := eth_log s @ [EthSend
      (arp_frame (NetBcastAddr s) (NetOurEther s) ARPOP_REQUEST (NetOurEther s) (NetOurIP s) (replicate 6 0) (arp_target s))]\<rparr> \<and>
    (\<forall>n. bytes m 42 n = bytes (NetTxPacket s) 42 n)"
proof -
  define m0 where "m0 = fst (NetSetEther s (NetTxPacket s) 0 (NetBcastAddr s) PROT_ARP)"
  have m0: "NetSetEther s (NetTxPacket s) 0 (NetBcastAddr s) PROT_ARP = (m0, 14)"
    by (simp add: m0_def NetSetEther_def ETHER_HDR_SIZE_def)
  have h0: "bytes m0 0 14 = ether_header (NetBcastAddr s) (NetOurEther s) PROT_ARP"
    unfolding m0_def by (rule NetSetEther_bytes) (rule assms)+
  define h where "h = le16 (htons ARP_ETHER) @ le16 (htons PROT_IP) @ [6, 4] @ le16 (htons ARPOP_REQUEST)"
  have lh: "length h = 8" by (simp add: h_def)
  define m1 where "m1 = blit (blit (blit (blit (blit m0 14 h) (14 + 8) (NetOurEther s)) (14 + 8 + 6) (le32 (NetOurIP s)))
        (14 + 8 + 10) (replicate 6 0)) (14 + 8 + 16) (le32 (arp_target s))"
  have f: "bytes m1 0 (14 + 28) = bytes m0 0 14 @ h @ NetOurEther s @ le32 (NetOurIP s) @ replicate 6 0 @ le32 (arp_target s)"
    unfolding m1_def by (rule nth_equalityI) (auto simp: blit_apply nth_append lh assms)
  have "bytes m1 42 n = bytes (NetTxPacket s) 42 n" for n
    by (rule bytes_cong) (simp add: m1_def blit_apply lh assms m0_def NetSetEther_outside)
  moreover have "ArpRequest s = eth_send (bytes m1 0 (14 + 28)) (s\<lparr>NetArpWaitReplyIP := arp_target s, NetTxPacket := m1\<rparr>)"
    by (simp add: ArpRequest_def m0 Let_def m1_def h_def ARP_HDR_SIZE_def arp_target_def)
  ultimately show ?thesis unfolding f
    by (intro exI [of _ m1]) (simp add: eth_send_def arp_frame_def h0 h_def)
qed

text \<open>What a send leaves alone, and what it puts on the wire.\<close>

definition bcast_ip :: "u32 \<Rightarrow> u32" where
  "bcast_ip dest = (if dest = 0 then 0xFFFFFFFF else dest)"

definition out_ether :: "ether_ptr \<Rightarrow> u32 \<Rightarrow> ('c, 'm) net_state_scheme \<Rightarrow> u8 list" where
  "out_ether ether dest s = ether_at (if bcast_ip dest = 0xFFFFFFFF then NetBcastAddr_ptr else ether) s"

lemma send_transmits:
  assumes "length (out_ether ether dest s) = 6" "length (NetOurEther s) = 6" "out_ether ether dest s \<noteq> NetEtherNullAddr"
  shows "\<exists>m. NetSendUDPPacket clk ether dest dport sport len s =
    (s\<lparr>NetIPID := NetIPID s + 1, NetTxPacket := m,
       eth_log := eth_log s @ [EthSend (udp_frame (out_ether ether dest s) (NetOurEther s) (NetIPID s) (NetOurIP s)
         (bcast_ip dest) dport sport (bytes (NetTxPacket s) 42 len))]\<rparr>, 0) \<and>
     bytes m 42 len = bytes (NetTxPacket s) 42 len"
proof -
  define e where "e = out_ether ether dest s"
  define d where "d = bcast_ip dest"
  define m1 where "m1 = fst (NetSetEther s (NetTxPacket s) 0 e PROT_IP)"
  define m2 where "m2 = fst (NetSetIP s m1 14 d dport sport len)"
  have 1: "NetSetEther s (NetTxPacket s) 0 e PROT_IP = (m1, 14)" by (simp add: m1_def NetSetEther_def ETHER_HDR_SIZE_def)
  have 2: "NetSetIP s m1 14 d dport sport len = (m2, s\<lparr>NetIPID := NetIPID s + 1\<rparr>)"
    using NetSetIP_state [of s m1 14 d dport sport len] unfolding m2_def by (metis prod.collapse)
  have 3: "bytes m2 0 (42 + len) = udp_frame e (NetOurEther s) (NetIPID s) (NetOurIP s) d dport sport (bytes (NetTxPacket s) 42 len)"
    unfolding m2_def m1_def by (rule udp_bytes) (simp_all add: assms e_def)
  have "bytes m2 42 len = bytes (NetTxPacket s) 42 len"
    using arg_cong [OF 3, of "drop 42"] assms(1, 2)
    by (simp add: udp_frame_def bytes_split [of m2 0 42 len] e_def [symmetric])
  moreover have "NetSendUDPPacket clk ether dest dport sport len s =
      (eth_send (bytes m2 0 (42 + len)) (s\<lparr>NetIPID := NetIPID s + 1, NetTxPacket := m2\<rparr>), 0)"
    using assms(3) 1 2
    by (simp add: NetSendUDPPacket_def Let_def bcast_ip_def [symmetric] d_def [symmetric] IP_HDR_SIZE_def out_ether_def e_def)
  ultimately show ?thesis unfolding 3 by (auto simp: eth_send_def e_def d_def)
qed

lemma send_waits:
  assumes "out_ether ether dest s = NetEtherNullAddr" "length (NetBcastAddr s) = 6" "length (NetOurEther s) = 6"
  shows "\<exists>m w t r. NetSendUDPPacket clk ether dest dport sport len s =
    (s\<lparr>NetArpWaitPacketIP := bcast_ip dest,
       NetArpWaitPacketMAC := Some (if bcast_ip dest = 0xFFFFFFFF then NetBcastAddr_ptr else ether),
       NetIPID := NetIPID s + 1, NetArpWaitTxPacket := w, NetArpWaitTxPacketSize := 42 + len, NetArpWaitTry := 1,
       timer_reads := timer_reads s + 1, NetArpWaitTimerStart := t, NetArpWaitReplyIP := r, NetTxPacket := m,
       eth_log := eth_log s @ [EthSend (arp_frame (NetBcastAddr s) (NetOurEther s) ARPOP_REQUEST (NetOurEther s)
         (NetOurIP s) (replicate 6 0) r)]\<rparr>, 1)"
proof -
  define e where "e = (if bcast_ip dest = 0xFFFFFFFF then NetBcastAddr_ptr else ether)"
  define s1 where "s1 = s\<lparr>NetArpWaitPacketIP := bcast_ip dest, NetArpWaitPacketMAC := Some e\<rparr>"
  obtain m1 where 1: "NetSetEther s1 (NetArpWaitTxPacket s1) 0 (ether_at e s1) PROT_IP = (m1, 14)"
    by (simp add: NetSetEther_def ETHER_HDR_SIZE_def)
  obtain m2 where 2: "NetSetIP s1 m1 14 (bcast_ip dest) dport sport len = (m2, s1\<lparr>NetIPID := NetIPID s1 + 1\<rparr>)"
    using NetSetIP_state [of s1 m1 14 "bcast_ip dest" dport sport len] by (metis prod.collapse)
  define w where "w = blit m2 42 (bytes (NetTxPacket s) 42 len)"
  define t where "t = clk (timer_reads s) - 0"
  define s2 where "s2 = s1\<lparr>NetIPID := NetIPID s1 + 1, NetArpWaitTxPacket := w, NetArpWaitTxPacketSize := 42 + len,
    NetArpWaitTry := 1, timer_reads := timer_reads s + 1, NetArpWaitTimerStart := t\<rparr>"
  have "NetSendUDPPacket clk ether dest dport sport len s = (ArpRequest s2, 1)"
    using assms(1) 1 2
    by (simp add: NetSendUDPPacket_def Let_def bcast_ip_def [symmetric] e_def [symmetric] out_ether_def IP_HDR_SIZE_def
        s1_def [symmetric] get_timer_def w_def)
       (simp add: s2_def s1_def t_def w_def)
  moreover obtain m where "ArpRequest s2 = s2\<lparr>NetArpWaitReplyIP := arp_target s2, NetTxPacket := m, eth_log := eth_log s2 @ [EthSend
      (arp_frame (NetBcastAddr s2) (NetOurEther s2) ARPOP_REQUEST (NetOurEther s2) (NetOurIP s2) (replicate 6 0) (arp_target s2))]\<rparr>"
    using ArpRequest_eq [of s2] assms(2, 3) by (auto simp: s2_def s1_def)
  ultimately show ?thesis
    by (intro exI [of _ m] exI [of _ w] exI [of _ t] exI [of _ "arp_target s2"]) (simp add: s2_def s1_def e_def)
qed

end
