(* ===== verification/Tftp.thy ===== *)
theory Tftp
  imports Net
begin

text \<open>
  \<open>net/tftp.c\<close>: the TFTP client as a state machine driven by received packets and timeouts. A received
  packet is the memory \<open>m\<close> it lies in and the address \<open>pkt\<close> of its UDP payload; the destination of a
  transfer is the board's memory \<open>ram\<close>, which is disjoint from the packet buffers.
\<close>

subsection \<open>State\<close>

definition WELL_KNOWN_PORT :: u32 where "WELL_KNOWN_PORT = 69"
definition TIMEOUT :: nat where "TIMEOUT = 3"
definition TIMEOUT_COUNT :: int where "TIMEOUT_COUNT = 10"
definition TFTP_RRQ :: u16 where "TFTP_RRQ = 1"
definition TFTP_WRQ :: u16 where "TFTP_WRQ = 2"
definition TFTP_DATA :: u16 where "TFTP_DATA = 3"
definition TFTP_ACK :: u16 where "TFTP_ACK = 4"
definition TFTP_ERROR :: u16 where "TFTP_ERROR = 5"
definition TFTP_OACK :: u16 where "TFTP_OACK = 6"
definition TFTP_BLOCK_SIZE :: u32 where "TFTP_BLOCK_SIZE = 512"
definition TFTP_SEQUENCE_SIZE :: u32 where "TFTP_SEQUENCE_SIZE = 0x10000"

lemmas tftp_consts = TFTP_RRQ_def TFTP_WRQ_def TFTP_DATA_def TFTP_ACK_def TFTP_ERROR_def TFTP_OACK_def
  TFTP_BLOCK_SIZE_def TFTP_SEQUENCE_SIZE_def

datatype tftp_st = STATE_RRQ | STATE_DATA | STATE_TOO_LARGE | STATE_BAD_MAGIC | STATE_OACK

datatype fname_ptr = default_filename_ptr | BootFile_ptr

record 'c tftp_state = "'c net_state" +
  TftpServerPort :: u32
  TftpOurPort :: u32
  TftpTimeoutCount :: int
  TftpBlock :: u32
  TftpLastBlock :: u32
  TftpBlockWrap :: u32
  TftpBlockWrapOffset :: u32
  TftpState :: tftp_st
  TftpStarted :: bool
  default_filename :: string
  tftp_filename :: fname_ptr

definition fname_at :: "fname_ptr \<Rightarrow> ('c, 'm) tftp_state_scheme \<Rightarrow> string" where
  "fname_at p s = (case p of default_filename_ptr \<Rightarrow> default_filename s | BootFile_ptr \<Rightarrow> BootFile s)"

subsection \<open>Storing a block\<close>

text \<open>\<open>memcpy ((void *)(load_addr + offset), src, len)\<close> with 32-bit addresses.\<close>

definition ram_copy :: "u32 \<Rightarrow> (nat \<Rightarrow> u8) \<Rightarrow> u32 \<Rightarrow> (u32 \<Rightarrow> u8) \<Rightarrow> u32 \<Rightarrow> u8" where
  "ram_copy dst src len r a = (if a - dst < len then src (unat (a - dst)) else r a)"

definition store_block :: "u32 \<Rightarrow> mem \<Rightarrow> addr \<Rightarrow> u32 \<Rightarrow> ('c, 'm) tftp_state_scheme \<Rightarrow> ('c, 'm) tftp_state_scheme" where
  "store_block block m src len s =
     (let offset = block * TFTP_BLOCK_SIZE + TftpBlockWrapOffset s;
          newsize = offset + len;
          s = s\<lparr>ram := ram_copy (load_addr s + offset) (\<lambda>i. m (src + i)) len (ram s)\<rparr>
      in if NetBootFileXferSize s < newsize then s\<lparr>NetBootFileXferSize := newsize\<rparr> else s)"

subsection \<open>Sending\<close>

definition c_bytes :: "string \<Rightarrow> u8 list" where
  "c_bytes str = map of_char str @ [0]"

definition timeout_text :: string where
  "timeout_text = (case vsprintf ''%d'' [VInt (of_nat TIMEOUT)] of Some (t, _) \<Rightarrow> t | None \<Rightarrow> [])"

definition tftp_payload :: "('c, 'm) tftp_state_scheme \<Rightarrow> u8 list" where
  "tftp_payload s =
     (case TftpState s of
        STATE_RRQ \<Rightarrow>
          le16 (htons TFTP_RRQ) @ c_bytes (fname_at (tftp_filename s) s) @ c_bytes ''octet'' @
          c_bytes ''timeout'' @ c_bytes timeout_text
      | STATE_DATA \<Rightarrow> le16 (htons TFTP_ACK) @ le16 (htons (ucast (TftpBlock s)))
      | STATE_OACK \<Rightarrow> le16 (htons TFTP_ACK) @ le16 (htons (ucast (TftpBlock s)))
      | STATE_TOO_LARGE \<Rightarrow> le16 (htons TFTP_ERROR) @ le16 (htons 3) @ c_bytes ''File too large''
      | STATE_BAD_MAGIC \<Rightarrow> le16 (htons TFTP_ERROR) @ le16 (htons 2) @ c_bytes ''File has bad magic'')"

definition TftpSend :: "clock \<Rightarrow> ('c, 'm) tftp_state_scheme \<Rightarrow> ('c, 'm) tftp_state_scheme" where
  "TftpSend clk s =
     (let pkt = NetEthHdrSize + IP_HDR_SIZE;
          xp = tftp_payload s;
          s = s\<lparr>NetTxPacket := blit (NetTxPacket s) pkt xp\<rparr>
      in fst (NetSendUDPPacket clk NetServerEther_ptr (NetServerIP s) (TftpServerPort s) (TftpOurPort s) (length xp) s))"

subsection \<open>Timeouts and received packets\<close>

definition TftpTimeout :: "clock \<Rightarrow> ('c, 'm) tftp_state_scheme \<Rightarrow> ('c, 'm) tftp_state_scheme option" where
  "TftpTimeout clk s =
     (let s = s\<lparr>TftpTimeoutCount := TftpTimeoutCount s + 1\<rparr> in
      if TftpTimeoutCount s > TIMEOUT_COUNT then NetStartAgain clk s
      else Some (TftpSend clk (NetSetTimeout clk (times_CFG_HZ TIMEOUT) TftpTimeout_f s)))"

text \<open>The sequence number 0 counts a wrap of the 16-bit counter, before any other test.\<close>

definition count_wrap :: "('c, 'm) tftp_state_scheme \<Rightarrow> ('c, 'm) tftp_state_scheme" where
  "count_wrap s =
     (if TftpBlock s = 0
      then s\<lparr>TftpBlockWrap := TftpBlockWrap s + 1,
             TftpBlockWrapOffset := TftpBlockWrapOffset s + TFTP_BLOCK_SIZE * TFTP_SEQUENCE_SIZE\<rparr>
      else s)"

definition first_block :: "u32 \<Rightarrow> ('c, 'm) tftp_state_scheme \<Rightarrow> ('c, 'm) tftp_state_scheme" where
  "first_block src s =
     s\<lparr>TftpState := STATE_DATA, TftpServerPort := src, TftpLastBlock := 0, TftpBlockWrap := 0, TftpBlockWrapOffset := 0\<rparr>"

text \<open>A new block: \<open>pkt\<close> is the address of its sequence number, \<open>len\<close> the number of data bytes.\<close>

definition take_block :: "clock \<Rightarrow> mem \<Rightarrow> addr \<Rightarrow> u32 \<Rightarrow> ('c, 'm) tftp_state_scheme \<Rightarrow> ('c, 'm) tftp_state_scheme" where
  "take_block clk m pkt len s =
     (let s = s\<lparr>TftpLastBlock := TftpBlock s\<rparr>;
          s = NetSetTimeout clk (times_CFG_HZ TIMEOUT) TftpTimeout_f s;
          s = store_block (TftpBlock s - 1) m (pkt + 2) len s;
          s = TftpSend clk s
      in if len < TFTP_BLOCK_SIZE then s\<lparr>NetState := NETLOOP_SUCCESS\<rparr> else s)"

definition data_packet ::
  "clock \<Rightarrow> mem \<Rightarrow> addr \<Rightarrow> u32 \<Rightarrow> u32 \<Rightarrow> ('c, 'm) tftp_state_scheme \<Rightarrow> ('c, 'm) tftp_state_scheme option" where
  "data_packet clk m pkt src len s =
     (if len < 2 then Some s
      else (let len = len - 2;
                s = count_wrap (s\<lparr>TftpBlock := ucast (ntohs (rd16 m pkt))\<rparr>);
                fresh = (TftpState s = STATE_RRQ \<or> TftpState s = STATE_OACK);
                s = (if fresh then first_block src s else s)
            in if fresh \<and> TftpBlock s \<noteq> 1 then NetStartAgain clk s
               else if TftpBlock s = TftpLastBlock s then Some s
               else Some (take_block clk m pkt len s)))"

definition TftpHandler ::
  "clock \<Rightarrow> mem \<Rightarrow> addr \<Rightarrow> u32 \<Rightarrow> u32 \<Rightarrow> u32 \<Rightarrow> ('c, 'm) tftp_state_scheme \<Rightarrow> ('c, 'm) tftp_state_scheme option" where
  "TftpHandler clk m pkt dest src len s =
     (if dest \<noteq> TftpOurPort s then Some s
      else if TftpState s \<noteq> STATE_RRQ \<and> src \<noteq> TftpServerPort s then Some s
      else if len < 2 then Some s
      else
        (let len = len - 2; proto = ntohs (rd16 m pkt); pkt = pkt + 2 in
         if proto = TFTP_RRQ \<or> proto = TFTP_WRQ \<or> proto = TFTP_ACK then Some s
         else if proto = TFTP_OACK
         then Some (TftpSend clk (s\<lparr>TftpState := STATE_OACK, TftpServerPort := src\<rparr>))
         else if proto = TFTP_DATA then data_packet clk m pkt src len s
         else if proto = TFTP_ERROR then NetStartAgain clk s
         else Some s))"

definition TftpStart :: "clock \<Rightarrow> ('c, 'm) tftp_state_scheme \<Rightarrow> ('c, 'm) tftp_state_scheme" where
  "TftpStart clk s =
     (let s = s\<lparr>TftpStarted := True\<rparr>;
          s = (if BootFile s = [] then s\<lparr>default_filename := ''test.bin'', tftp_filename := default_filename_ptr\<rparr>
               else s\<lparr>tftp_filename := BootFile_ptr\<rparr>);
          s = NetSetTimeout clk (times_CFG_HZ TIMEOUT) TftpTimeout_f s;
          s = NetSetHandler TftpHandler_f s;
          s = s\<lparr>TftpServerPort := WELL_KNOWN_PORT, TftpTimeoutCount := 0, TftpState := STATE_RRQ\<rparr>;
          (t, s) = get_timer clk 0 s;
          s = s\<lparr>TftpOurPort := 1024 + t mod 3072, TftpBlock := 0, NetServerEther := replicate 6 0\<rparr>
      in TftpSend clk s)"

subsection \<open>What the helpers leave alone\<close>

lemma TftpSend_keeps [simp]:
  "ram (TftpSend clk s) = ram s" "load_addr (TftpSend clk s) = load_addr s" "NetState (TftpSend clk s) = NetState s"
  "NetOurIP (TftpSend clk s) = NetOurIP s" "NetServerIP (TftpSend clk s) = NetServerIP s"
  "NetOurEther (TftpSend clk s) = NetOurEther s" "NetServerEther (TftpSend clk s) = NetServerEther s"
  "NetBcastAddr (TftpSend clk s) = NetBcastAddr s" "NetBootFileXferSize (TftpSend clk s) = NetBootFileXferSize s"
  "packetHandler (TftpSend clk s) = packetHandler s" "timeHandler (TftpSend clk s) = timeHandler s"
  "timeStart (TftpSend clk s) = timeStart s" "timeDelta (TftpSend clk s) = timeDelta s"
  "TftpServerPort (TftpSend clk s) = TftpServerPort s" "TftpOurPort (TftpSend clk s) = TftpOurPort s"
  "TftpTimeoutCount (TftpSend clk s) = TftpTimeoutCount s" "TftpBlock (TftpSend clk s) = TftpBlock s"
  "TftpLastBlock (TftpSend clk s) = TftpLastBlock s" "TftpBlockWrapOffset (TftpSend clk s) = TftpBlockWrapOffset s"
  "TftpState (TftpSend clk s) = TftpState s" "TftpStarted (TftpSend clk s) = TftpStarted s"
  "env_data (TftpSend clk s) = env_data s" "default_env (TftpSend clk s) = default_env s"
  "env_valid (TftpSend clk s) = env_valid s"
  by (simp_all add: TftpSend_def NetSendUDPPacket_def NetSetEther_def NetSetIP_def ArpRequest_def eth_send_def
      get_timer_def Let_def)

lemma NetSetTimeout_keeps [simp]:
  "ram (NetSetTimeout clk iv f s) = ram s" "load_addr (NetSetTimeout clk iv f s) = load_addr s"
  "NetState (NetSetTimeout clk iv f s) = NetState s" "NetOurIP (NetSetTimeout clk iv f s) = NetOurIP s"
  "NetServerIP (NetSetTimeout clk iv f s) = NetServerIP s"
  "NetOurEther (NetSetTimeout clk iv f s) = NetOurEther s" "NetServerEther (NetSetTimeout clk iv f s) = NetServerEther s"
  "NetBcastAddr (NetSetTimeout clk iv f s) = NetBcastAddr s"
  "NetBootFileXferSize (NetSetTimeout clk iv f s) = NetBootFileXferSize s"
  "packetHandler (NetSetTimeout clk iv f s) = packetHandler s" "eth_log (NetSetTimeout clk iv f s) = eth_log s"
  by (simp_all add: NetSetTimeout_def get_timer_def Let_def)

lemma NetSetTimeout_keeps_tftp [simp]:
  "TftpServerPort (NetSetTimeout clk iv f s) = TftpServerPort s" "TftpOurPort (NetSetTimeout clk iv f s) = TftpOurPort s"
  "TftpTimeoutCount (NetSetTimeout clk iv f s) = TftpTimeoutCount s" "TftpBlock (NetSetTimeout clk iv f s) = TftpBlock s"
  "TftpLastBlock (NetSetTimeout clk iv f s) = TftpLastBlock s"
  "TftpBlockWrapOffset (NetSetTimeout clk iv f s) = TftpBlockWrapOffset s"
  "TftpState (NetSetTimeout clk iv f s) = TftpState s" "TftpStarted (NetSetTimeout clk iv f s) = TftpStarted s"
  by (simp_all add: NetSetTimeout_def get_timer_def Let_def)

lemma store_block_keeps [simp]:
  "load_addr (store_block b m a n s) = load_addr s" "NetState (store_block b m a n s) = NetState s"
  "NetOurIP (store_block b m a n s) = NetOurIP s" "NetServerIP (store_block b m a n s) = NetServerIP s"
  "NetOurEther (store_block b m a n s) = NetOurEther s" "NetServerEther (store_block b m a n s) = NetServerEther s"
  "NetBcastAddr (store_block b m a n s) = NetBcastAddr s" "packetHandler (store_block b m a n s) = packetHandler s"
  "eth_log (store_block b m a n s) = eth_log s"
  "TftpServerPort (store_block b m a n s) = TftpServerPort s" "TftpOurPort (store_block b m a n s) = TftpOurPort s"
  "TftpTimeoutCount (store_block b m a n s) = TftpTimeoutCount s" "TftpBlock (store_block b m a n s) = TftpBlock s"
  "TftpLastBlock (store_block b m a n s) = TftpLastBlock s"
  "TftpBlockWrapOffset (store_block b m a n s) = TftpBlockWrapOffset s"
  "TftpState (store_block b m a n s) = TftpState s" "TftpStarted (store_block b m a n s) = TftpStarted s"
  by (simp_all add: store_block_def Let_def)

lemma store_block_ram [simp]:
  "ram (store_block b m a n s) =
     ram_copy (load_addr s + (b * TFTP_BLOCK_SIZE + TftpBlockWrapOffset s)) (\<lambda>i. m (a + i)) n (ram s)"
  by (simp add: store_block_def Let_def)

lemma store_block_size [simp]:
  "NetBootFileXferSize (store_block b m a n s) =
     max (NetBootFileXferSize s) (b * TFTP_BLOCK_SIZE + TftpBlockWrapOffset s + n)"
  by (auto simp: store_block_def Let_def max_def not_less)

text \<open>The Ethernet addresses have six bytes.\<close>

definition eth_ok :: "('c, 'm) net_state_scheme \<Rightarrow> bool" where
  "eth_ok s \<longleftrightarrow> length (NetOurEther s) = 6 \<and> length (NetServerEther s) = 6 \<and> length (NetBcastAddr s) = 6"

lemma TftpSend_log:
  assumes "eth_ok s"
  shows "\<exists>f. eth_log (TftpSend clk s) = eth_log s @ [EthSend f] \<and>
    (if out_ether NetServerEther_ptr (NetServerIP s) s = NetEtherNullAddr
     then \<exists>r. f = arp_frame (NetBcastAddr s) (NetOurEther s) ARPOP_REQUEST (NetOurEther s) (NetOurIP s) (replicate 6 0) r
     else f = udp_frame (out_ether NetServerEther_ptr (NetServerIP s) s) (NetOurEther s) (NetIPID s) (NetOurIP s)
            (bcast_ip (NetServerIP s)) (TftpServerPort s) (TftpOurPort s) (tftp_payload s))"
proof -
  define s1 where "s1 = s\<lparr>NetTxPacket := blit (NetTxPacket s) 42 (tftp_payload s)\<rparr>"
  have send: "TftpSend clk s = fst (NetSendUDPPacket clk NetServerEther_ptr (NetServerIP s1) (TftpServerPort s1)
      (TftpOurPort s1) (length (tftp_payload s)) s1)"
    by (simp add: TftpSend_def Let_def s1_def NetEthHdrSize_def ETHER_HDR_SIZE_def IP_HDR_SIZE_def)
  have o1: "out_ether NetServerEther_ptr (NetServerIP s1) s1 = out_ether NetServerEther_ptr (NetServerIP s) s"
    by (simp add: s1_def out_ether_def ether_at_def)
  have l: "length (out_ether NetServerEther_ptr (NetServerIP s) s) = 6"
    using assms by (simp add: eth_ok_def out_ether_def ether_at_def)
  have l1: "length (NetOurEther s1) = 6" "length (NetBcastAddr s1) = 6" using assms by (simp_all add: s1_def eth_ok_def)
  show ?thesis
  proof (cases "out_ether NetServerEther_ptr (NetServerIP s) s = NetEtherNullAddr")
    case True
    show ?thesis
      using send_waits [of NetServerEther_ptr "NetServerIP s1" s1 clk "TftpServerPort s1" "TftpOurPort s1" "length (tftp_payload s)"]
        True l1 unfolding send o1 by (auto simp: s1_def)
  next
    case False
    then show ?thesis
      using send_transmits [of NetServerEther_ptr "NetServerIP s1" s1 clk "TftpServerPort s1" "TftpOurPort s1" "length (tftp_payload s)"]
        l l1 unfolding send o1 by (auto simp: s1_def)
  qed
qed

end
