(* ===== verification/NetMain.thy ===== *)
theory NetMain
  imports Tftp
begin

text \<open>
  The upper half of \<open>net/net.c\<close>: dispatch of received frames (\<open>NetReceive\<close>) and the main loop (\<open>NetLoop\<close>),
  with the handler and timeout pointers resolved to the functions they can hold. One turn of the loop
  takes as input the frames the driver hands over in \<open>eth_rx\<close> and whether ctrl-c was pressed. A frame is
  the memory from its first byte on and its length; \<open>None\<close> is a call through a NULL pointer or a
  fault in the environment.
\<close>

subsection \<open>Receiving\<close>

definition call_packetHandler ::
  "clock \<Rightarrow> mem \<Rightarrow> addr \<Rightarrow> u32 \<Rightarrow> u32 \<Rightarrow> u32 \<Rightarrow> ('c, 'm) tftp_state_scheme \<Rightarrow> ('c, 'm) tftp_state_scheme option" where
  "call_packetHandler clk m pkt dest src len s =
     (case packetHandler s of
        None \<Rightarrow> None
      | Some TftpHandler_f \<Rightarrow> TftpHandler clk m pkt dest src len s
      | Some startAgainHandler_f \<Rightarrow> Some (startAgainHandler s))"

text \<open>The reply is built in the received frame, whose ARP part begins at \<open>ip\<close>.\<close>

definition arp_reply :: "mem \<Rightarrow> addr \<Rightarrow> ('c, 'm) tftp_state_scheme \<Rightarrow> ('c, 'm) tftp_state_scheme" where
  "arp_reply et arp s =
     (let (m, pkt) = NetSetEther s et 0 (bytes et 6 6) PROT_ARP;
          m = blit m (arp + 6) (le16 (htons ARPOP_REPLY));
          m = blit m (arp + 8 + 10) (bytes m (arp + 8) 6);
          m = blit m (arp + 8 + 16) (bytes m (arp + 8 + 6) 4);
          m = blit m (arp + 8) (NetOurEther s);
          m = blit m (arp + 8 + 6) (le32 (NetOurIP s))
      in eth_send (bytes m 0 (pkt + ARP_HDR_SIZE)) s)"

definition arp_answered :: "clock \<Rightarrow> mem \<Rightarrow> addr \<Rightarrow> ('c, 'm) tftp_state_scheme \<Rightarrow> ('c, 'm) tftp_state_scheme" where
  "arp_answered clk m arp s =
     (case NetArpWaitPacketMAC s of
        None \<Rightarrow> s
      | Some mac \<Rightarrow>
          if NetArpWaitPacketIP s = 0 then s
          else if NetReadIP m (arp + 8 + 6) = NetArpWaitReplyIP s
          then (let s = set_ether_at mac (bytes m (arp + 8) 6) s;
                    s = s\<lparr>NetArpWaitPacketIP := 0, NetArpWaitTxPacketSize := 0, NetArpWaitPacketMAC := None\<rparr>
                in if TftpStarted s then TftpSend clk s else s)
          else s)"

definition receive_arp :: "clock \<Rightarrow> mem \<Rightarrow> addr \<Rightarrow> int \<Rightarrow> ('c, 'm) tftp_state_scheme \<Rightarrow> ('c, 'm) tftp_state_scheme" where
  "receive_arp clk m arp len s =
     (if len < int ARP_HDR_SIZE then s
      else if ntohs (rd16 m arp) \<noteq> ARP_ETHER then s
      else if ntohs (rd16 m (arp + 2)) \<noteq> PROT_IP then s
      else if m (arp + 4) \<noteq> 6 then s
      else if m (arp + 5) \<noteq> 4 then s
      else if NetOurIP s = 0 then s
      else if NetReadIP m (arp + 8 + 16) \<noteq> NetOurIP s then s
      else (let op = ntohs (rd16 m (arp + 6)) in
            if op = ARPOP_REQUEST then arp_reply m arp s
            else if op = ARPOP_REPLY then arp_answered clk m arp s
            else s))"

definition receive_rarp :: "clock \<Rightarrow> mem \<Rightarrow> addr \<Rightarrow> int \<Rightarrow> ('c, 'm) tftp_state_scheme \<Rightarrow> ('c, 'm) tftp_state_scheme option" where
  "receive_rarp clk m arp len s =
     (if len < int ARP_HDR_SIZE then Some s
      else if ntohs (rd16 m (arp + 6)) \<noteq> RARPOP_REPLY \<or> ntohs (rd16 m arp) \<noteq> ARP_ETHER \<or>
              ntohs (rd16 m (arp + 2)) \<noteq> PROT_IP \<or> m (arp + 4) \<noteq> 6 \<or> m (arp + 5) \<noteq> 4 then Some s
      else (let s = s\<lparr>NetOurIP := NetReadIP m (arp + 8 + 16)\<rparr>;
                s = (if NetServerIP s = 0 then s\<lparr>NetServerIP := NetReadIP m (arp + 8 + 6)\<rparr> else s);
                s = s\<lparr>NetServerEther := bytes m (arp + 8) 6\<rparr>
            in call_packetHandler clk (\<lambda>_. 0) 0 0 0 0 s))"

definition receive_ip :: "clock \<Rightarrow> mem \<Rightarrow> addr \<Rightarrow> int \<Rightarrow> ('c, 'm) tftp_state_scheme \<Rightarrow> ('c, 'm) tftp_state_scheme option" where
  "receive_ip clk m ip len s =
     (if len < int IP_HDR_SIZE then Some s
      else if len < uint (ntohs (rd16 m (ip + 2))) then Some s
      else if m ip AND 0xf0 \<noteq> 0x40 then Some s
      else if rd16 m (ip + 6) AND htons 0x1fff \<noteq> 0 then Some s
      else if \<not> NetCksumOk m ip (IP_HDR_SIZE_NO_UDP div 2) then Some s
      else (let tmp = NetReadIP m (ip + 16) in
            if NetOurIP s \<noteq> 0 \<and> tmp \<noteq> NetOurIP s \<and> tmp \<noteq> 0xFFFFFFFF then Some s
            else call_packetHandler clk m (ip + IP_HDR_SIZE)
                   (ucast (ntohs (rd16 m (ip + 22)))) (ucast (ntohs (rd16 m (ip + 20))))
                   (ucast (ntohs (rd16 m (ip + 24))) - 8) s))"

definition NetReceive :: "clock \<Rightarrow> mem \<Rightarrow> int \<Rightarrow> ('c, 'm) tftp_state_scheme \<Rightarrow> ('c, 'm) tftp_state_scheme option" where
  "NetReceive clk m len s =
     (if len < int ETHER_HDR_SIZE then Some s
      else (let x = ntohs (rd16 m 12);
                frame = (if x < 1514 then Some (ntohs (rd16 m 20), E802_HDR_SIZE, len - int E802_HDR_SIZE)
                         else if x \<noteq> PROT_VLAN then Some (x, ETHER_HDR_SIZE, len - int ETHER_HDR_SIZE)
                         else None)
            in case frame of
                 None \<Rightarrow> Some s
               | Some (x, ip, len) \<Rightarrow>
                   if x = PROT_ARP then Some (receive_arp clk m ip len s)
                   else if x = PROT_RARP then receive_rarp clk m ip len s
                   else if x = PROT_IP then receive_ip clk m ip len s
                   else Some s))"

subsection \<open>The main loop\<close>

datatype proto_t = BOOTP | RARP | ARP | TFTP | DHCP | PING | DNS | NFS | CDP | NETCONS

definition net_check_prereq :: "proto_t \<Rightarrow> ('c, 'm) tftp_state_scheme \<Rightarrow> int" where
  "net_check_prereq protocol s =
     (if protocol = NETCONS \<or> protocol = TFTP
      then (if NetServerIP s = 0 then 1
            else if NetOurIP s = 0 then 1
            else if NetOurEther s = NetEtherNullAddr then 1 else 0)
      else if protocol = DHCP \<or> protocol = RARP \<or> protocol = BOOTP \<or> protocol = CDP
      then (if NetOurEther s = NetEtherNullAddr then 1 else 0)
      else 0)"

text \<open>From the label \<open>restart\<close> to the loop; \<open>Inl\<close> is a \<open>return\<close> with its value.\<close>

type_synonym ('c, 'm) net_result = "(('c, 'm) tftp_state_scheme \<times> int + ('c, 'm) tftp_state_scheme) option"

definition net_restart :: "clock \<Rightarrow> proto_t \<Rightarrow> ('c, 'm) tftp_state_scheme \<Rightarrow> ('c, 'm) net_result" where
  "net_restart clk protocol s =
     do {
       let s = s\<lparr>NetOurEther := bi_enetaddr s, NetState := NETLOOP_CONTINUE\<rparr>;
       s \<leftarrow> (if protocol = NETCONS \<or> protocol = TFTP
             then do {
               let s = s\<lparr>NetOurIP := bi_ip_addr s\<rparr>;
               gw \<leftarrow> getenv_IPaddr s ''gatewayip'';
               nm \<leftarrow> getenv_IPaddr s ''netmask'';
               sv \<leftarrow> getenv_IPaddr s ''serverip'';
               Some (s\<lparr>NetOurGatewayIP := gw, NetOurSubnetMask := nm, NetServerIP := sv\<rparr>)
             }
             else Some s);
       if net_check_prereq protocol s = 1 then Some (Inl (s, - 1))
       else (let s = (if protocol = TFTP then TftpStart clk s else s)
             in Some (Inr (s\<lparr>NetBootFileXferSize := 0\<rparr>)))
     }"

fun eth_rx :: "clock \<Rightarrow> (mem \<times> int) list \<Rightarrow> ('c, 'm) tftp_state_scheme \<Rightarrow> ('c, 'm) tftp_state_scheme option" where
  "eth_rx clk [] s = Some s"
| "eth_rx clk ((m, len) # rx) s = do { s \<leftarrow> NetReceive clk m len s; eth_rx clk rx s }"

definition call_timeHandler :: "clock \<Rightarrow> thand_f \<Rightarrow> ('c, 'm) tftp_state_scheme \<Rightarrow> ('c, 'm) tftp_state_scheme option" where
  "call_timeHandler clk x s = (case x of TftpTimeout_f \<Rightarrow> TftpTimeout clk s | startAgainTimeout_f \<Rightarrow> Some (startAgainTimeout s))"

definition check_timeout :: "clock \<Rightarrow> ('c, 'm) tftp_state_scheme \<Rightarrow> ('c, 'm) tftp_state_scheme option" where
  "check_timeout clk s =
     (case timeHandler s of
        None \<Rightarrow> Some s
      | Some x \<Rightarrow>
          (let (t, s) = get_timer clk 0 s in
           if t - timeStart s > timeDelta s then call_timeHandler clk x (s\<lparr>timeHandler := None\<rparr>) else Some s))"

definition net_success :: "'c env_calls \<Rightarrow> ('c, 'm) tftp_state_scheme \<Rightarrow> ('c, 'm) net_result" where
  "net_success ca s =
     do {
       s \<leftarrow> (if NetBootFileXferSize s > 0
             then do {
               (b, _) \<leftarrow> vsprintf ''%lx'' [VInt (NetBootFileXferSize s)];
               s \<leftarrow> setenv ca s ''filesize'' (Some b);
               (b, _) \<leftarrow> vsprintf ''%lX'' [VInt (load_addr s)];
               setenv ca s ''fileaddr'' (Some b)
             }
             else Some s);
       let s = eth_halt s;
       Some (Inl (s, sint (NetBootFileXferSize s)))
     }"

definition net_round ::
  "clock \<Rightarrow> 'c env_calls \<Rightarrow> proto_t \<Rightarrow> (mem \<times> int) list \<Rightarrow> bool \<Rightarrow> ('c, 'm) tftp_state_scheme \<Rightarrow> ('c, 'm) net_result" where
  "net_round clk ca protocol rx ctrlc s =
     do {
       s \<leftarrow> eth_rx clk rx s;
       if ctrlc then Some (Inl (eth_halt s, - 1))
       else do {
         s \<leftarrow> ArpTimeoutCheck clk s;
         s \<leftarrow> check_timeout clk s;
         case NetState s of
           NETLOOP_RESTART \<Rightarrow> net_restart clk protocol s
         | NETLOOP_SUCCESS \<Rightarrow> net_success ca s
         | NETLOOP_FAIL \<Rightarrow> Some (Inl (s, - 1))
         | NETLOOP_CONTINUE \<Rightarrow> Some (Inr s)
       }
     }"

text \<open>The loop over a sequence of inputs; \<open>Inr\<close> while it has not returned.\<close>

fun net_rounds ::
  "clock \<Rightarrow> 'c env_calls \<Rightarrow> proto_t \<Rightarrow> ((mem \<times> int) list \<times> bool) list \<Rightarrow> ('c, 'm) tftp_state_scheme \<Rightarrow> ('c, 'm) net_result" where
  "net_rounds clk ca protocol [] s = Some (Inr s)"
| "net_rounds clk ca protocol ((rx, ctrlc) # ins) s =
     do {
       r \<leftarrow> net_round clk ca protocol rx ctrlc s;
       case r of Inl x \<Rightarrow> Some (Inl x) | Inr s \<Rightarrow> net_rounds clk ca protocol ins s
     }"

text \<open>\<open>bufs\<close> says whether the driver had packet buffers, \<open>init_rc\<close> is what \<open>eth_init\<close> returns.\<close>

definition NetLoop ::
  "clock \<Rightarrow> 'c env_calls \<Rightarrow> bool \<Rightarrow> int \<Rightarrow> ((mem \<times> int) list \<times> bool) list \<Rightarrow> proto_t \<Rightarrow> ('c, 'm) tftp_state_scheme \<Rightarrow>
   ('c, 'm) net_result" where
  "NetLoop clk ca bufs init_rc ins protocol s =
     (let s = s\<lparr>NetArpWaitPacketMAC := None, NetArpWaitPacketIP := 0, NetArpWaitReplyIP := 0\<rparr> in
      if \<not> bufs then Some (Inl (s, - 1))
      else (let s = eth_halt (s\<lparr>NetArpWaitTxPacketSize := 0\<rparr>) in
            if init_rc < 0 then Some (Inl (s, - 1))
            else do {
              r \<leftarrow> net_restart clk protocol s;
              case r of Inl x \<Rightarrow> Some (Inl x) | Inr s \<Rightarrow> net_rounds clk ca protocol ins s
            }))"

subsection \<open>Receiving what was sent\<close>

lemma bytes_sub: "bytes m 0 n = f \<Longrightarrow> a + k \<le> n \<Longrightarrow> bytes m a k = take k (drop a f)"
  by (rule nth_equalityI) (auto simp: nth_append)

lemma rd16_at: "bytes m 0 n = f \<Longrightarrow> a + 2 \<le> n \<Longrightarrow> take 2 (drop a f) = le16 w \<Longrightarrow> rd16 m a = w"
  using bytes_sub [of m n f a 2] by (intro rd16_le16) simp

lemma drop_le16 [simp]: "drop 2 (le16 w @ xs) = xs" by simp

lemma ip_header_fields:
  "ip_header ipid src dest dport sport len = [0x45, 0] @ le16 (htons (of_nat (28 + len))) @ le16 (htons (ucast ipid)) @
     le16 (htons 0x4000) @ [255, 17] @ le16 (ip_sum (ip_fields_bytes ipid src dest dport sport len)) @ le32 src @ le32 dest @
     le16 (htons (ucast sport)) @ le16 (htons (ucast dport)) @ le16 (htons (of_nat (8 + len))) @ le16 0"
  by (simp add: ip_header_def Let_def) (simp add: ip_fields_bytes_def le16_def le32_def IP_HDR_SIZE_def)

lemma u16_of_nat: "n < 65536 \<Longrightarrow> uint (of_nat n :: u16) = int n"
  by (simp add: unsigned_of_nat take_bit_nat_eq_self uint_nat unat_of_nat)

lemma ucast_of_nat_u16: "k < 65536 \<Longrightarrow> ucast (of_nat k :: u16) = (of_nat k :: u32)"
  by (simp add: word_unat_eq_iff unsigned_ucast_eq unat_of_nat take_bit_eq_mod)

lemma ucast_of_nat_minus: "8 + n < 65536 \<Longrightarrow> ucast (of_nat (8 + n) :: u16) - 8 = (of_nat n :: u32)"
  by (subst ucast_of_nat_u16) simp_all

lemma udp_frame_fields:
  assumes f: "f = udp_frame dmac smac ipid src dest dport sport data"
    and m: "bytes m 0 (length f) = f"
    and l: "length dmac = 6" "length smac = 6"
  shows "rd16 m 12 = htons PROT_IP" "rd16 m 16 = htons (of_nat (28 + length data))" "rd16 m 20 = htons 0x4000"
    "rd16 m 34 = htons (ucast sport)" "rd16 m 36 = htons (ucast dport)" "rd16 m 38 = htons (of_nat (8 + length data))"
    "NetReadIP m 30 = dest" "m 14 = 0x45" "NetCksumOk m 14 10" "bytes m 42 (length data) = data" "length f = 42 + length data"
proof -
  let ?h = "ip_header ipid src dest dport sport (length data)"
  show lf: "length f = 42 + length data" by (simp add: f udp_frame_def l)
  have h: "bytes m 14 28 = ?h"
    using bytes_sub [OF m, of 14 28] lf by (simp add: f udp_frame_def l)
  have sub: "bytes m (14 + a) k = take k (drop a ?h)" if "a + k \<le> 28" for a k
    using h that by (intro nth_equalityI) (auto simp: nth_append add.assoc simp flip: h)
  show d: "bytes m 42 (length data) = data"
    using bytes_sub [OF m, of 42 "length data"] lf by (simp add: f udp_frame_def l)
  show "rd16 m 12 = htons PROT_IP"
    by (rule rd16_at [OF m], simp add: lf) (simp add: f udp_frame_def ether_header_def l)
  have w: "rd16 m (14 + a) = v" if "a + 2 \<le> 28" "take 2 (drop a ?h) = le16 v" for a v
    using rd16_le16 [of m "14 + a" v] sub [of a 2] that by simp
  show "rd16 m 16 = htons (of_nat (28 + length data))"
    using w [of 2] by (simp add: ip_header_fields le16_def)
  show "rd16 m 20 = htons 0x4000"
    using w [of 6] by (simp add: ip_header_fields le16_def)
  show "rd16 m 34 = htons (ucast sport)"
    using w [of 20] by (simp add: ip_header_fields le16_def le32_def)
  show "rd16 m 36 = htons (ucast dport)"
    using w [of 22] by (simp add: ip_header_fields le16_def le32_def)
  show "rd16 m 38 = htons (of_nat (8 + length data))"
    using w [of 24] by (simp add: ip_header_fields le16_def le32_def)
  show "NetReadIP m 30 = dest"
    using sub [of 16 4] by (simp add: NetReadIP_def ip_header_fields le16_def)
  show "m 14 = 0x45"
    using sub [of 0 1] by (simp add: ip_header_fields bytes_Suc)
  show "NetCksumOk m 14 10" by (rule ip_header_checks [OF h])
qed

lemma receive_udp:
  assumes f: "f = udp_frame dmac smac ipid src dest dport sport data"
    and m: "bytes m 0 (length f) = f"
    and l: "length dmac = 6" "length smac = 6" "28 + length data < 65536"
    and ip: "NetOurIP r = 0 \<or> dest = NetOurIP r \<or> dest = 0xFFFFFFFF"
  shows "NetReceive clk m (int (length f)) r =
      call_packetHandler clk m 42 (ucast (ucast dport :: u16)) (ucast (ucast sport :: u16)) (of_nat (length data)) r"
    and "bytes m 42 (length data) = data"
proof -
  note f' = udp_frame_fields [OF f m l(1, 2)]
  note x = f'(1) and f1 = f'(2) and f2 = f'(3) and f3 = f'(4) and f4 = f'(5) and f5 = f'(6) and f6 = f'(7) and f7 = f'(8)
    and ck = f'(9) and lf = f'(11)
  show "bytes m 42 (length data) = data" by (rule f'(10))
  have u1: "uint (ntohs (rd16 m 16)) = 28 + int (length data)" using u16_of_nat [OF l(3)] by (simp only: f1 htons_htons)
  have u2: "ucast (ntohs (rd16 m 38)) - 8 = (of_nat (length data) :: u32)"
    unfolding f5 htons_htons by (rule ucast_of_nat_minus) (use l in simp)
  have "htons 0x4000 AND htons 0x1fff = 0" by (simp add: htons_def)
  then have "receive_ip clk m 14 (int (length f) - 14) r =
      call_packetHandler clk m 42 (ucast (ucast dport :: u16)) (ucast (ucast sport :: u16)) (of_nat (length data)) r"
    using ip l lf
    by (auto simp: receive_ip_def IP_HDR_SIZE_def IP_HDR_SIZE_NO_UDP_def Let_def u1 f2 f3 f4 u2 f6 f7 ck)
  then show "NetReceive clk m (int (length f)) r =
      call_packetHandler clk m 42 (ucast (ucast dport :: u16)) (ucast (ucast sport :: u16)) (of_nat (length data)) r"
    using lf x by (simp add: NetReceive_def ETHER_HDR_SIZE_def PROT_IP_def PROT_VLAN_def PROT_ARP_def PROT_RARP_def)
qed

end
