(* ===== verification/NetSession.thy ===== *)
theory NetSession
  imports NetMain
begin

text \<open>
  A TFTP transfer between the client of \<open>net/tftp.c\<close> and a server over a network that loses, repeats and
  delays frames. The server follows RFC 1350: it sends the first block after a read request and block
  \<open>k + 1\<close> only after the acknowledgement of block \<open>k\<close> was put on the wire. Every frame it has sent may
  arrive at any time, any number of times. The state is the client's state and the number of the last
  block the server has sent.
\<close>

subsection \<open>The server\<close>

record server =
  srv_mac :: "u8 list"
  srv_ip :: u32
  srv_port :: u32
  cli_mac :: "u8 list"
  cli_ip :: u32
  cli_port :: u32
  srv_data :: "u8 list"

definition nblocks :: "u8 list \<Rightarrow> nat" where
  "nblocks d = length d div 512 + 1"

definition block :: "u8 list \<Rightarrow> nat \<Rightarrow> u8 list" where
  "block d k = take 512 (drop (512 * (k - 1)) d)"

definition data_payload :: "u8 list \<Rightarrow> nat \<Rightarrow> u8 list" where
  "data_payload d k = le16 (htons TFTP_DATA) @ le16 (htons (of_nat k)) @ block d k"

definition data_frame :: "server \<Rightarrow> u32 \<Rightarrow> nat \<Rightarrow> u8 list" where
  "data_frame v ipid k =
     udp_frame (cli_mac v) (srv_mac v) ipid (srv_ip v) (cli_ip v) (cli_port v) (srv_port v) (data_payload (srv_data v) k)"

text \<open>How the server reads a frame of the client.\<close>

definition frame_payload :: "u8 list \<Rightarrow> u8 list option" where
  "frame_payload f = (if 42 \<le> length f \<and> take 2 (drop 12 f) = le16 (htons PROT_IP) then Some (drop 42 f) else None)"

definition is_ack :: "nat \<Rightarrow> eth_event \<Rightarrow> bool" where
  "is_ack k e \<longleftrightarrow>
     (case e of EthSend f \<Rightarrow> frame_payload f = Some (le16 (htons TFTP_ACK) @ le16 (htons (of_nat k))) | EthHalt \<Rightarrow> False)"

definition is_rrq :: "eth_event \<Rightarrow> bool" where
  "is_rrq e \<longleftrightarrow>
     (case e of EthSend f \<Rightarrow> (case frame_payload f of Some p \<Rightarrow> take 2 p = le16 (htons TFTP_RRQ) | None \<Rightarrow> False) | EthHalt \<Rightarrow> False)"

subsection \<open>The transfer\<close>

text \<open>Steps of the client: a data frame, any ARP frame, a frame for another port, the two timeout checks.\<close>

inductive client_step :: "clock \<Rightarrow> server \<Rightarrow> nat \<Rightarrow> 'c tftp_state \<Rightarrow> 'c tftp_state \<Rightarrow> bool" for clk v k where
  data: "1 \<le> j \<Longrightarrow> j \<le> k \<Longrightarrow> bytes m 0 (length (data_frame v ipid j)) = data_frame v ipid j \<Longrightarrow>
    NetReceive clk m (int (length (data_frame v ipid j))) c = Some c' \<Longrightarrow> client_step clk v k c c'"
| arp: "rd16 m 12 = htons PROT_ARP \<Longrightarrow> NetReceive clk m len c = Some c' \<Longrightarrow> client_step clk v k c c'"
| other: "rd16 m 12 = htons PROT_IP \<Longrightarrow> ucast (ntohs (rd16 m 36)) \<noteq> TftpOurPort c \<Longrightarrow>
    NetReceive clk m len c = Some c' \<Longrightarrow> client_step clk v k c c'"
| arp_timeout: "ArpTimeoutCheck clk c = Some c' \<Longrightarrow> client_step clk v k c c'"
| timeout: "check_timeout clk c = Some c' \<Longrightarrow> client_step clk v k c c'"

definition wire :: "'c tftp_state \<Rightarrow> 'c tftp_state \<Rightarrow> eth_event set" where
  "wire c0 c = set (drop (length (eth_log c0)) (eth_log c))"

inductive transfer :: "clock \<Rightarrow> server \<Rightarrow> 'c tftp_state \<Rightarrow> 'c tftp_state \<Rightarrow> nat \<Rightarrow> bool" for clk v c0 where
  start: "transfer clk v c0 c0 0"
| request: "transfer clk v c0 c 0 \<Longrightarrow> e \<in> wire c0 c \<Longrightarrow> is_rrq e \<Longrightarrow> transfer clk v c0 c 1"
| advance: "transfer clk v c0 c k \<Longrightarrow> 1 \<le> k \<Longrightarrow> k < nblocks (srv_data v) \<Longrightarrow> e \<in> wire c0 c \<Longrightarrow> is_ack k e \<Longrightarrow>
    transfer clk v c0 c (k + 1)"
| client: "transfer clk v c0 c k \<Longrightarrow> client_step clk v k c c' \<Longrightarrow> transfer clk v c0 c' k"

text \<open>The state in which \<open>NetLoop\<close> enters its loop.\<close>

definition client_ready :: "server \<Rightarrow> 'c tftp_state \<Rightarrow> bool" where
  "client_ready v c \<longleftrightarrow>
     eth_ok c \<and> packetHandler c = Some TftpHandler_f \<and> TftpState c = STATE_RRQ \<and> NetState c = NETLOOP_CONTINUE \<and>
     NetBootFileXferSize c = 0 \<and> NetOurIP c = cli_ip v \<and> TftpOurPort c = cli_port v"

definition server_ok :: "server \<Rightarrow> bool" where
  "server_ok v \<longleftrightarrow> length (srv_mac v) = 6 \<and> length (cli_mac v) = 6 \<and> unat (srv_port v) < 65536 \<and> unat (cli_port v) < 65536 \<and>
     srv_port v \<noteq> 0"

subsection \<open>The invariant of a transfer\<close>

definition stored :: "u8 list \<Rightarrow> 'c tftp_state \<Rightarrow> nat \<Rightarrow> bool" where
  "stored d c j \<longleftrightarrow> (\<forall>p. 512 * (j - 1) \<le> p \<and> p < 512 * j \<and> p < length d \<longrightarrow> ram c (load_addr c + of_nat p) = d ! p)"

definition acked_block :: "u8 list \<Rightarrow> 'c tftp_state \<Rightarrow> u32 \<Rightarrow> bool" where
  "acked_block d c b \<longleftrightarrow> (\<exists>j\<in>{1..nblocks d}. b = of_nat j \<and> stored d c j)"

definition phase :: "server \<Rightarrow> 'c tftp_state \<Rightarrow> 'c tftp_state \<Rightarrow> nat \<Rightarrow> bool" where
  "phase v c0 c k \<longleftrightarrow>
     TftpState c = STATE_RRQ \<and> k \<le> 1 \<and> (\<forall>e\<in>wire c0 c. \<forall>j\<in>{1..nblocks (srv_data v)}. \<not> is_ack j e) \<or>
     TftpState c = STATE_DATA \<and> TftpBlockWrapOffset c = 0 \<and>
       acked_block (srv_data v) c (TftpBlock c) \<and> acked_block (srv_data v) c (TftpLastBlock c)"

definition client_ok :: "server \<Rightarrow> 'c tftp_state \<Rightarrow> bool" where
  "client_ok v c \<longleftrightarrow> eth_ok c \<and> NetOurIP c = cli_ip v \<and> TftpOurPort c = cli_port v \<and>
     (packetHandler c = Some TftpHandler_f \<or> packetHandler c = Some startAgainHandler_f)"

definition transfer_inv :: "server \<Rightarrow> 'c tftp_state \<Rightarrow> 'c tftp_state \<Rightarrow> nat \<Rightarrow> bool" where
  "transfer_inv v c0 c k \<longleftrightarrow>
     client_ok v c \<and> (\<exists>es. eth_log c = eth_log c0 @ es) \<and> load_addr c = load_addr c0 \<and> k \<le> nblocks (srv_data v) \<and>
     (\<forall>j. 1 \<le> j \<and> j < k \<longrightarrow> stored (srv_data v) c j) \<and>
     (\<forall>e\<in>wire c0 c. \<forall>j\<in>{1..nblocks (srv_data v)}. is_ack j e \<longrightarrow> stored (srv_data v) c j) \<and>
     phase v c0 c k \<and> unat (NetBootFileXferSize c) \<le> length (srv_data v) \<and>
     (NetState c = NETLOOP_SUCCESS \<longrightarrow> k = nblocks (srv_data v) \<and> stored (srv_data v) c k \<and>
        unat (NetBootFileXferSize c) = length (srv_data v))"

text \<open>Steps that leave the transfer's data alone.\<close>

definition same_transfer :: "'c tftp_state \<Rightarrow> 'c tftp_state \<Rightarrow> bool" where
  "same_transfer c c' \<longleftrightarrow> ram c' = ram c \<and> load_addr c' = load_addr c \<and> TftpState c' = TftpState c \<and>
     TftpBlock c' = TftpBlock c \<and> TftpLastBlock c' = TftpLastBlock c \<and>
     TftpBlockWrapOffset c' = TftpBlockWrapOffset c \<and> NetBootFileXferSize c' = NetBootFileXferSize c"

lemma wire_append: "eth_log c = eth_log c0 @ es0 \<Longrightarrow> eth_log c' = eth_log c @ es \<Longrightarrow> wire c0 c' = wire c0 c \<union> set es"
  by (simp add: wire_def)

lemma of_nat_u32_inj: "(of_nat i :: u32) = of_nat j \<Longrightarrow> i < 4294967296 \<Longrightarrow> j < 4294967296 \<Longrightarrow> i = j"
  by (simp add: word_unat_eq_iff unat_of_nat)

definition small_file :: "u8 list \<Rightarrow> bool" where
  "small_file d \<longleftrightarrow> length d < 65535 * 512"

lemma small_file_blocks: "small_file d \<Longrightarrow> nblocks d \<le> 65535"
  by (simp add: small_file_def nblocks_def)

lemma transfer_inv_step:
  assumes inv: "transfer_inv v c0 c k" and small: "small_file (srv_data v)"
    and same: "same_transfer c c'" and ok: "client_ok v c'"
    and st: "NetState c' = NETLOOP_SUCCESS \<longrightarrow> NetState c = NETLOOP_SUCCESS"
    and log: "eth_log c' = eth_log c @ es"
    and acks: "\<And>e j. e \<in> set es \<Longrightarrow> j \<in> {1..nblocks (srv_data v)} \<Longrightarrow> is_ack j e \<Longrightarrow> TftpState c = STATE_DATA \<and> TftpBlock c = of_nat j"
  shows "transfer_inv v c0 c' k"
proof -
  obtain es0 where es0: "eth_log c = eth_log c0 @ es0" using inv by (auto simp: transfer_inv_def)
  note w = wire_append [OF es0 log]
  have s: "stored d c' j = stored d c j" for d j using same by (simp add: stored_def same_transfer_def)
  have a: "acked_block d c' b = acked_block d c b" for d b by (simp add: acked_block_def s)
  have new: "stored (srv_data v) c j" if e: "e \<in> set es" "j \<in> {1..nblocks (srv_data v)}" "is_ack j e" for e j
  proof -
    from acks [OF e] inv obtain i where i: "i \<in> {1..nblocks (srv_data v)}" "TftpBlock c = of_nat i" "stored (srv_data v) c i"
      by (auto simp: transfer_inv_def phase_def acked_block_def)
    have "(of_nat i :: u32) = of_nat j" using acks [OF e] i(2) by simp
    then have "i = j" using i(1) e(2) small_file_blocks [OF small] by (intro of_nat_u32_inj) auto
    with i show ?thesis by simp
  qed
  have f: "TftpState c' = TftpState c" "TftpBlockWrapOffset c' = TftpBlockWrapOffset c" "TftpBlock c' = TftpBlock c"
    "TftpLastBlock c' = TftpLastBlock c" "NetBootFileXferSize c' = NetBootFileXferSize c" "load_addr c' = load_addr c"
    using same by (simp_all add: same_transfer_def)
  have p: "phase v c0 c' k"
  proof (cases "TftpState c = STATE_RRQ")
    case True
    then have "\<forall>e\<in>set es. \<forall>j\<in>{1..nblocks (srv_data v)}. \<not> is_ack j e" using acks by force
    with True inv show ?thesis unfolding transfer_inv_def phase_def w f by (simp add: ball_Un)
  next
    case False
    with inv show ?thesis unfolding transfer_inv_def phase_def w f a by simp
  qed
  have "\<forall>e\<in>wire c0 c'. \<forall>j\<in>{1..nblocks (srv_data v)}. is_ack j e \<longrightarrow> stored (srv_data v) c' j"
    using inv new unfolding transfer_inv_def w s by blast
  moreover have "\<forall>j. 1 \<le> j \<and> j < k \<longrightarrow> stored (srv_data v) c' j"
    using inv unfolding transfer_inv_def s by blast
  moreover have "\<exists>es. eth_log c' = eth_log c0 @ es" using es0 log by simp
  moreover have "NetState c' = NETLOOP_SUCCESS \<longrightarrow> k = nblocks (srv_data v) \<and> stored (srv_data v) c' k \<and>
        unat (NetBootFileXferSize c') = length (srv_data v)"
    using inv st unfolding transfer_inv_def s f by blast
  ultimately show ?thesis
    using inv p ok unfolding transfer_inv_def f by blast
qed

text \<open>What the frames of the client mean to the server.\<close>

lemma le16_inj: "le16 a = le16 b \<longleftrightarrow> a = b"
proof
  assume "le16 a = le16 b"
  then have eq: "(ucast a :: u8) = ucast b" "(ucast (drop_bit 8 a) :: u8) = ucast (drop_bit 8 b)" by (simp_all add: le16_def)
  have "a = ucast (ucast a :: u8) OR push_bit 8 (ucast (ucast (drop_bit 8 a) :: u8))" by (simp only: join_le16)
  also have "\<dots> = b" by (simp only: eq join_le16)
  finally show "a = b" .
qed simp

lemma htons_inj: "htons a = htons b \<longleftrightarrow> a = b"
  by (metis htons_htons)

lemma frame_payload_udp:
  "length dmac = 6 \<Longrightarrow> length smac = 6 \<Longrightarrow> frame_payload (udp_frame dmac smac i a b p q data) = Some data"
  by (simp add: frame_payload_def udp_frame_def ether_header_def)

lemma frame_payload_arp: "take 2 (drop 12 f) = le16 (htons PROT_ARP) \<Longrightarrow> frame_payload f = None"
  by (auto simp: frame_payload_def le16_inj htons_inj PROT_ARP_def PROT_IP_def)

lemma is_ack_udp:
  "length dmac = 6 \<Longrightarrow> length smac = 6 \<Longrightarrow>
   is_ack j (EthSend (udp_frame dmac smac i a b p q data)) \<longleftrightarrow> data = le16 (htons TFTP_ACK) @ le16 (htons (of_nat j))"
  by (simp add: is_ack_def frame_payload_udp)

lemma is_ack_arp: "take 2 (drop 12 f) = le16 (htons PROT_ARP) \<Longrightarrow> \<not> is_ack j (EthSend f)"
  by (simp add: is_ack_def frame_payload_arp)

lemma arp_frame_type:
  "length dmac = 6 \<Longrightarrow> length smac = 6 \<Longrightarrow> take 2 (drop 12 (arp_frame dmac smac op a b c d)) = le16 (htons PROT_ARP)"
  by (simp add: arp_frame_def ether_header_def)

lemma u16_of_u32: "ucast (of_nat i :: u32) = (of_nat j :: u16) \<Longrightarrow> i < 65536 \<Longrightarrow> j < 65536 \<Longrightarrow> i = j"
  by (simp add: word_unat_eq_iff unsigned_ucast_eq unat_of_nat take_bit_eq_mod)

lemma inv_TftpSend:
  assumes inv: "transfer_inv v c0 c k" and small: "small_file (srv_data v)"
  shows "transfer_inv v c0 (TftpSend clk c) k"
proof -
  have ok: "eth_ok c" and ph: "phase v c0 c k" using inv by (simp_all add: transfer_inv_def client_ok_def)
  obtain f where log: "eth_log (TftpSend clk c) = eth_log c @ [EthSend f]"
    and f: "if out_ether NetServerEther_ptr (NetServerIP c) c = NetEtherNullAddr
     then \<exists>r. f = arp_frame (NetBcastAddr c) (NetOurEther c) ARPOP_REQUEST (NetOurEther c) (NetOurIP c) (replicate 6 0) r
     else f = udp_frame (out_ether NetServerEther_ptr (NetServerIP c) c) (NetOurEther c) (NetIPID c) (NetOurIP c)
            (bcast_ip (NetServerIP c)) (TftpServerPort c) (TftpOurPort c) (tftp_payload c)"
    using TftpSend_log [OF ok, of clk] by blast
  have l: "length (out_ether NetServerEther_ptr (NetServerIP c) c) = 6" "length (NetOurEther c) = 6" "length (NetBcastAddr c) = 6"
    using ok by (simp_all add: eth_ok_def out_ether_def ether_at_def)
  have acks: "TftpState c = STATE_DATA \<and> TftpBlock c = of_nat j"
    if e: "e \<in> set [EthSend f]" "j \<in> {1..nblocks (srv_data v)}" "is_ack j e" for e j
  proof -
    from e f have p: "tftp_payload c = le16 (htons TFTP_ACK) @ le16 (htons (of_nat j))"
      using is_ack_arp [OF arp_frame_type [OF l(3) l(2)]] is_ack_udp [OF l(1) l(2)] by (auto split: if_splits)
    have "TftpState c \<noteq> STATE_RRQ"
    proof
      assume "TftpState c = STATE_RRQ"
      with p have "le16 (htons TFTP_RRQ) = le16 (htons TFTP_ACK)" by (simp add: tftp_payload_def le16_def)
      then show False by (simp add: le16_inj htons_inj TFTP_RRQ_def TFTP_ACK_def)
    qed
    with ph obtain i where i: "TftpState c = STATE_DATA" "i \<in> {1..nblocks (srv_data v)}" "TftpBlock c = of_nat i"
      by (auto simp: phase_def acked_block_def)
    from p i have "(ucast (of_nat i :: u32) :: u16) = of_nat j" by (simp add: tftp_payload_def le16_inj htons_inj)
    then have "i = j" by (rule u16_of_u32) (use i(2) e(2) small_file_blocks [OF small] in auto)
    with i show ?thesis by simp
  qed
  show ?thesis
  proof (rule transfer_inv_step [OF inv small _ _ _ log acks])
    show "same_transfer c (TftpSend clk c)" by (simp add: same_transfer_def)
    show "client_ok v (TftpSend clk c)" using inv by (simp add: transfer_inv_def client_ok_def eth_ok_def)
  qed simp_all
qed

lemma inv_quiet:
  assumes "transfer_inv v c0 c k" "small_file (srv_data v)" "same_transfer c c'" "client_ok v c'"
    "NetState c' = NETLOOP_SUCCESS \<longrightarrow> NetState c = NETLOOP_SUCCESS" "eth_log c' = eth_log c @ es"
    "\<And>e j. e \<in> set es \<Longrightarrow> \<not> is_ack j e"
  shows "transfer_inv v c0 c' k"
  by (rule transfer_inv_step [OF assms(1-6)]) (use assms(7) in blast)

lemma client_okI:
  "client_ok v c \<Longrightarrow> eth_ok c' \<Longrightarrow> NetOurIP c' = NetOurIP c \<Longrightarrow> TftpOurPort c' = TftpOurPort c \<Longrightarrow>
   packetHandler c' = packetHandler c \<or> packetHandler c' = Some startAgainHandler_f \<Longrightarrow> client_ok v c'"
  by (auto simp: client_ok_def)

lemma inv_NetStartAgain:
  assumes inv: "transfer_inv v c0 c k" and small: "small_file (srv_data v)" and again: "NetStartAgain clk c = Some c'"
  shows "transfer_inv v c0 c' k"
proof -
  have ok: "client_ok v c" using inv by (simp add: transfer_inv_def)
  from again consider "c' = (eth_halt c)\<lparr>NetState := NETLOOP_FAIL\<rparr>"
    | "c' = NetSetHandler startAgainHandler_f (NetSetTimeout clk (times_CFG_HZ 10) startAgainTimeout_f c)"
    by (auto simp: NetStartAgain_def Let_def bind_eq_Some_conv split: if_splits)
  then show ?thesis
  proof cases
    case 1
    show ?thesis
      by (rule inv_quiet [OF inv small, of _ "[EthHalt]"])
         (use ok in \<open>auto simp: 1 same_transfer_def eth_halt_def is_ack_def client_ok_def eth_ok_def\<close>)
  next
    case 2
    show ?thesis
      by (rule inv_quiet [OF inv small, of _ "[]"])
         (use ok in \<open>auto simp: 2 same_transfer_def NetSetHandler_def client_ok_def eth_ok_def\<close>)
  qed
qed

lemma inv_ArpRequest:
  assumes inv: "transfer_inv v c0 c k" and small: "small_file (srv_data v)"
  shows "transfer_inv v c0 (ArpRequest c) k"
proof -
  have ok: "client_ok v c" using inv by (simp add: transfer_inv_def)
  then have l: "length (NetBcastAddr c) = 6" "length (NetOurEther c) = 6" by (simp_all add: client_ok_def eth_ok_def)
  obtain m where m: "ArpRequest c = c\<lparr>NetArpWaitReplyIP := arp_target c, NetTxPacket := m, eth_log := eth_log c @ [EthSend
      (arp_frame (NetBcastAddr c) (NetOurEther c) ARPOP_REQUEST (NetOurEther c) (NetOurIP c) (replicate 6 0) (arp_target c))]\<rparr>"
    using ArpRequest_eq [OF l] by blast
  show ?thesis
    unfolding m
    by (rule inv_quiet [OF inv small])
       (use ok is_ack_arp [OF arp_frame_type [OF l]] in \<open>auto simp: same_transfer_def client_ok_def eth_ok_def\<close>)
qed

lemma inv_timer:
  assumes "transfer_inv v c0 c k" "small_file (srv_data v)" "get_timer clk b c = (t, c')"
  shows "transfer_inv v c0 c' k"
  by (rule inv_quiet [OF assms(1, 2), of _ "[]"])
     (use assms in \<open>auto simp: get_timer_def same_transfer_def transfer_inv_def client_ok_def eth_ok_def\<close>)

lemma inv_ArpTimeoutCheck:
  assumes inv: "transfer_inv v c0 c k" and small: "small_file (srv_data v)" and step: "ArpTimeoutCheck clk c = Some c'"
  shows "transfer_inv v c0 c' k"
proof -
  obtain t c1 where t: "get_timer clk 0 c = (t, c1)" by fastforce
  have i1: "transfer_inv v c0 c1 k" by (rule inv_timer [OF inv small t])
  have ok: "client_ok v c1" using i1 by (simp add: transfer_inv_def)
  have i2: "transfer_inv v c0 (c1\<lparr>NetArpWaitTry := a, NetArpWaitTimerStart := b\<rparr>) k" for a b
    by (rule inv_quiet [OF i1 small, of _ "[]"]) (use ok in \<open>auto simp: same_transfer_def client_ok_def eth_ok_def\<close>)
  have i3: "transfer_inv v c0 (c1\<lparr>NetArpWaitTry := a\<rparr>) k" for a
    by (rule inv_quiet [OF i1 small, of _ "[]"]) (use ok in \<open>auto simp: same_transfer_def client_ok_def eth_ok_def\<close>)
  show ?thesis
  proof (cases "NetArpWaitPacketIP c = 0 \<or> \<not> t - NetArpWaitTimerStart c1 > times_CFG_HZ ARP_TIMEOUT")
    case True
    with step have "c' = c \<or> c' = c1" by (simp add: ArpTimeoutCheck_def t split: if_splits)
    with inv i1 show ?thesis by (elim disjE) (simp_all only:)
  next
    case late: False
    show ?thesis
    proof (cases "NetArpWaitTry c1 + 1 \<ge> ARP_TIMEOUT_COUNT")
      case True
      with late step have "NetStartAgain clk (c1\<lparr>NetArpWaitTry := 0\<rparr>) = Some c'" by (simp add: ArpTimeoutCheck_def t)
      then show ?thesis by (rule inv_NetStartAgain [OF i3 small])
    next
      case False
      with late step have "c' = ArpRequest (c1\<lparr>NetArpWaitTry := NetArpWaitTry c1 + 1, NetArpWaitTimerStart := t\<rparr>)"
        by (simp add: ArpTimeoutCheck_def t)
      then show ?thesis by (simp only: inv_ArpRequest [OF i2 small])
    qed
  qed
qed

lemma inv_check_timeout:
  assumes inv: "transfer_inv v c0 c k" and small: "small_file (srv_data v)" and step: "check_timeout clk c = Some c'"
  shows "transfer_inv v c0 c' k"
proof -
  obtain t c1 where t: "get_timer clk 0 c = (t, c1)" by fastforce
  have i1: "transfer_inv v c0 c1 k" by (rule inv_timer [OF inv small t])
  have ok: "client_ok v c1" using i1 by (simp add: transfer_inv_def)
  have i2: "transfer_inv v c0 (c1\<lparr>timeHandler := None, TftpTimeoutCount := n\<rparr>) k" for n
    by (rule inv_quiet [OF i1 small, of _ "[]"]) (use ok in \<open>auto simp: same_transfer_def client_ok_def eth_ok_def\<close>)
  have i3: "transfer_inv v c0 (startAgainTimeout (c1\<lparr>timeHandler := None\<rparr>)) k"
    by (rule inv_quiet [OF i1 small, of _ "[]"])
       (use ok in \<open>auto simp: startAgainTimeout_def same_transfer_def client_ok_def eth_ok_def\<close>)
  have i4: "transfer_inv v c0 (NetSetTimeout clk d h (c1\<lparr>timeHandler := None, TftpTimeoutCount := n\<rparr>)) k" for d h n
    by (rule inv_quiet [OF i1 small, of _ "[]"]) (use ok in \<open>auto simp: same_transfer_def client_ok_def eth_ok_def\<close>)
  show ?thesis
  proof (cases "timeHandler c")
    case None
    with step inv show ?thesis by (simp add: check_timeout_def)
  next
    case (Some h)
    show ?thesis
    proof (cases "t - timeStart c1 > timeDelta c1")
      case False
      with Some step have "c' = c1" by (simp add: check_timeout_def t)
      with i1 show ?thesis by (simp only:)
    next
      case True
      with Some step have call: "call_timeHandler clk h (c1\<lparr>timeHandler := None\<rparr>) = Some c'" by (simp add: check_timeout_def t)
      show ?thesis
      proof (cases h)
        case startAgainTimeout_f
        with call i3 show ?thesis by (simp add: call_timeHandler_def)
      next
        case TftpTimeout_f
        define n where "n = TftpTimeoutCount c1 + 1"
        from call TftpTimeout_f have "(if n > TIMEOUT_COUNT then NetStartAgain clk (c1\<lparr>timeHandler := None, TftpTimeoutCount := n\<rparr>)
            else Some (TftpSend clk (NetSetTimeout clk (times_CFG_HZ TIMEOUT) TftpTimeout_f
              (c1\<lparr>timeHandler := None, TftpTimeoutCount := n\<rparr>)))) = Some c'"
          by (simp add: call_timeHandler_def TftpTimeout_def Let_def n_def split: if_splits)
        then show ?thesis
          using inv_NetStartAgain [OF i2 small] inv_TftpSend [OF i4 small] by (auto simp only: option.inject split: if_splits)
      qed
    qed
  qed
qed

lemma inv_arp_reply:
  assumes inv: "transfer_inv v c0 c k" and small: "small_file (srv_data v)"
  shows "transfer_inv v c0 (arp_reply m 14 c) k"
proof -
  have ok: "client_ok v c" using inv by (simp add: transfer_inv_def)
  then have l: "length (NetOurEther c) = 6" by (simp add: client_ok_def eth_ok_def)
  obtain f where f: "arp_reply m 14 c = eth_send f c" and t: "take 2 (drop 12 f) = le16 (htons PROT_ARP)"
  proof -
    define m1 where "m1 = fst (NetSetEther c m 0 (bytes m 6 6) PROT_ARP)"
    have n: "NetSetEther c m 0 (bytes m 6 6) PROT_ARP = (m1, 14)" by (simp add: m1_def NetSetEther_def ETHER_HDR_SIZE_def)
    define f where "f = bytes (blit (blit (blit (blit (blit m1 20 (le16 (htons ARPOP_REPLY))) 32
        (bytes (blit m1 20 (le16 (htons ARPOP_REPLY))) 22 6)) 38
        (bytes (blit (blit m1 20 (le16 (htons ARPOP_REPLY))) 32 (bytes (blit m1 20 (le16 (htons ARPOP_REPLY))) 22 6)) 28 4))
        22 (NetOurEther c)) 28 (le32 (NetOurIP c))) 0 42"
    have "arp_reply m 14 c = eth_send f c"
      by (simp add: arp_reply_def n Let_def f_def ARP_HDR_SIZE_def)
    moreover have "take 2 (drop 12 f) = le16 (htons PROT_ARP)"
      by (rule nth_equalityI)
         (auto simp: f_def blit_apply m1_def NetSetEther_def l)
    ultimately show ?thesis using that by blast
  qed
  show ?thesis
    unfolding f eth_send_def
    by (rule inv_quiet [OF inv small])
       (use ok is_ack_arp [OF t] in \<open>auto simp: same_transfer_def client_ok_def eth_ok_def\<close>)
qed

lemma inv_arp_answered:
  assumes inv: "transfer_inv v c0 c k" and small: "small_file (srv_data v)"
  shows "transfer_inv v c0 (arp_answered clk m arp c) k"
proof -
  have ok: "client_ok v c" using inv by (simp add: transfer_inv_def)
  have i: "transfer_inv v c0 ((set_ether_at mac (bytes m a 6) c)\<lparr>NetArpWaitPacketIP := x, NetArpWaitTxPacketSize := y,
      NetArpWaitPacketMAC := z\<rparr>) k" for mac a x y z
    by (rule inv_quiet [OF inv small, of _ "[]"])
       (use ok in \<open>auto simp: set_ether_at_def same_transfer_def client_ok_def eth_ok_def split: ether_ptr.splits\<close>)
  show ?thesis
    using inv i inv_TftpSend [OF i small] by (auto simp: arp_answered_def Let_def split: option.splits)
qed

lemma receive_arp_frame:
  "rd16 m 12 = htons PROT_ARP \<Longrightarrow> NetReceive clk m len c = Some c' \<Longrightarrow>
   c' = c \<or> c' = receive_arp clk m 14 (len - 14) c"
  by (auto simp: NetReceive_def PROT_ARP_def PROT_VLAN_def ETHER_HDR_SIZE_def Let_def split: if_splits)

lemma receive_ip_frame:
  "rd16 m 12 = htons PROT_IP \<Longrightarrow> NetReceive clk m len c = Some c' \<Longrightarrow>
   c' = c \<or> receive_ip clk m 14 (len - 14) c = Some c'"
  by (auto simp: NetReceive_def PROT_IP_def PROT_ARP_def PROT_RARP_def PROT_VLAN_def ETHER_HDR_SIZE_def Let_def split: if_splits)

lemma inv_arp_frame:
  assumes inv: "transfer_inv v c0 c k" and small: "small_file (srv_data v)"
    and m: "rd16 m 12 = htons PROT_ARP" and step: "NetReceive clk m len c = Some c'"
  shows "transfer_inv v c0 c' k"
  using receive_arp_frame [OF m step] inv inv_arp_reply [OF inv small, of m] inv_arp_answered [OF inv small, of clk m 14]
  by (auto simp: receive_arp_def Let_def)

lemma other_port:
  assumes ok: "client_ok v c" and m: "rd16 m 12 = htons PROT_IP" and port: "ucast (ntohs (rd16 m 36)) \<noteq> TftpOurPort c"
    and step: "NetReceive clk m len c = Some c'"
  shows "c' = c"
  using receive_ip_frame [OF m step] ok port
  by (auto simp: receive_ip_def IP_HDR_SIZE_def call_packetHandler_def TftpHandler_def startAgainHandler_def client_ok_def Let_def
      split: if_splits)

subsection \<open>A data block\<close>

lemma unat_u32_of_nat: "n < 4294967296 \<Longrightarrow> unat (of_nat n :: u32) = n"
  by (simp add: unat_of_nat)

lemma unat_max_u32: "unat (max a b :: u32) = max (unat a) (unat b)"
  by (simp add: max_def word_le_nat_alt)

lemma ram_copy_at:
  assumes "p < 2 ^ 32" "q + L < 2 ^ 32"
  shows "ram_copy (la + of_nat q) src (of_nat L) r (la + of_nat p) =
    (if q \<le> p \<and> p < q + L then src (p - q) else r (la + of_nat p))"
proof (cases "q \<le> p")
  case True
  have "(la + of_nat p) - (la + of_nat q) = (of_nat (p - q) :: u32)" using True by (simp add: of_nat_diff)
  moreover have "unat (of_nat (p - q) :: u32) = p - q" "unat (of_nat L :: u32) = L"
    using assms by (simp_all add: unat_of_nat)
  ultimately show ?thesis using True by (auto simp: ram_copy_def word_less_nat_alt)
next
  case False
  have "(la + of_nat p) - (la + of_nat q) = - (of_nat (q - p) :: u32)" using False by (simp add: of_nat_diff)
  moreover have "unat (- (of_nat (q - p)) :: u32) = 2 ^ 32 - (q - p)"
  proof -
    have u: "unat (of_nat (q - p) :: u32) = q - p" using assms by (simp add: unat_of_nat)
    then have "(of_nat (q - p) :: u32) \<noteq> 0" using False by (metis diff_is_0_eq unat_0)
    then have "unat (0 - (of_nat (q - p) :: u32)) = 2 ^ 32 - (q - p)"
      using u False by (simp only: unat_sub_if_size) (simp add: word_size)
    then show ?thesis by simp
  qed
  moreover have "unat (of_nat L :: u32) = L" using assms by (simp add: unat_of_nat)
  moreover have "\<not> 2 ^ 32 - (q - p) < L" using False assms by simp
  ultimately have "\<not> (la + of_nat p) - (la + of_nat q) < (of_nat L :: u32)" by (simp only: word_less_nat_alt) simp
  then show ?thesis using False by (simp add: ram_copy_def)
qed

lemma length_block: "length (block d k) = min 512 (length d - 512 * (k - 1))"
  by (simp add: block_def)

lemma block_nth: "i < length (block d k) \<Longrightarrow> block d k ! i = d ! (512 * (k - 1) + i)"
  by (auto simp: block_def)

lemma block_end: "1 \<le> j \<Longrightarrow> j \<le> nblocks d \<Longrightarrow> 512 * (j - 1) + length (block d j) \<le> length d"
  by (simp add: length_block nblocks_def)

lemma short_block_last: "1 \<le> j \<Longrightarrow> j \<le> nblocks d \<Longrightarrow> length (block d j) < 512 \<Longrightarrow>
    j = nblocks d \<and> 512 * (j - 1) + length (block d j) = length d"
  by (simp add: length_block nblocks_def)

text \<open>The state after the block is stored, before it is acknowledged.\<close>

lemma inv_store:
  assumes inv: "transfer_inv v c0 c k" and small: "small_file (srv_data v)" and j: "1 \<le> j" "j \<le> k"
    and src: "\<And>i. i < length (block (srv_data v) j) \<Longrightarrow> src i = block (srv_data v) j ! i"
    and ram: "ram c' = ram_copy (load_addr c + of_nat (512 * (j - 1))) src (of_nat (length (block (srv_data v) j))) (ram c)"
    and size: "NetBootFileXferSize c' = max (NetBootFileXferSize c) (of_nat (512 * (j - 1) + length (block (srv_data v) j)))"
    and st: "TftpState c' = STATE_DATA" "TftpBlockWrapOffset c' = 0" "TftpBlock c' = of_nat j" "TftpLastBlock c' = of_nat j"
      "load_addr c' = load_addr c" "eth_log c' = eth_log c" "NetState c' = NetState c" and ok: "client_ok v c'"
  shows "transfer_inv v c0 c' k" "stored (srv_data v) c' j"
    "unat (NetBootFileXferSize c') \<ge> 512 * (j - 1) + length (block (srv_data v) j)"
proof -
  let ?d = "srv_data v"
  let ?L = "length (block ?d j)"
  have k: "k \<le> nblocks ?d" using inv by (simp add: transfer_inv_def)
  have d: "length ?d < 33553920" using small by (simp add: small_file_def)
  have e: "512 * (j - 1) + ?L \<le> length ?d" using block_end j k by simp
  have val: "ram c' (load_addr c + of_nat p) =
      (if 512 * (j - 1) \<le> p \<and> p < 512 * (j - 1) + ?L then ?d ! p else ram c (load_addr c + of_nat p))"
    if "p < length ?d" for p
    unfolding ram using ram_copy_at [of p "512 * (j - 1)" ?L "load_addr c" src "ram c"] that d e src [of "p - 512 * (j - 1)"]
      block_nth [of "p - 512 * (j - 1)" ?d j] by auto
  have keep: "stored ?d c i \<Longrightarrow> stored ?d c' i" for i
    unfolding stored_def st using val by simp
  show now: "stored ?d c' j"
    unfolding stored_def st using val by (auto simp: length_block)
  have u: "unat (of_nat (512 * (j - 1) + ?L) :: u32) = 512 * (j - 1) + ?L" by (rule unat_u32_of_nat) (use d e in simp)
  have sz: "unat (NetBootFileXferSize c') = max (unat (NetBootFileXferSize c)) (512 * (j - 1) + ?L)"
    by (simp only: size unat_max_u32 u)
  then show "unat (NetBootFileXferSize c') \<ge> 512 * (j - 1) + ?L" by simp
  have w: "wire c0 c' = wire c0 c" by (simp add: wire_def st)
  have a: "acked_block ?d c' (of_nat j)" using now j k by (auto simp: acked_block_def)
  have "phase v c0 c' k" using a st by (simp add: phase_def)
  moreover have "\<forall>e\<in>wire c0 c'. \<forall>j\<in>{1..nblocks ?d}. is_ack j e \<longrightarrow> stored ?d c' j"
    unfolding w using inv keep unfolding transfer_inv_def by blast
  moreover have "\<forall>j. 1 \<le> j \<and> j < k \<longrightarrow> stored ?d c' j" using inv keep unfolding transfer_inv_def by blast
  moreover have "\<exists>es. eth_log c' = eth_log c0 @ es" "load_addr c' = load_addr c0" "unat (NetBootFileXferSize c') \<le> length ?d"
    using inv e sz by (simp_all add: transfer_inv_def st)
  moreover have "NetState c' = NETLOOP_SUCCESS \<longrightarrow> k = nblocks ?d \<and> stored ?d c' k \<and> unat (NetBootFileXferSize c') = length ?d"
    using inv keep e unfolding sz st transfer_inv_def by auto
  ultimately show "transfer_inv v c0 c' k" using ok k unfolding transfer_inv_def by blast
qed

text \<open>What the handler sees of a data frame.\<close>

lemma length_block_le: "length (block d j) \<le> 512"
  by (simp add: length_block)

lemma length_data_payload [simp]: "length (data_payload d j) = 4 + length (block d j)"
  by (simp add: data_payload_def)

lemma port_casts: "unat (p :: u32) < 65536 \<Longrightarrow> ucast (ucast p :: u16) = p"
  by (simp add: word_unat_eq_iff unsigned_ucast_eq take_bit_eq_mod unat_mod)

lemma data_frame_bytes:
  assumes "bytes m 42 (length (data_payload d j)) = data_payload d j"
  shows "rd16 m 42 = htons TFTP_DATA" "rd16 m 44 = htons (of_nat j)" "\<And>i. i < length (block d j) \<Longrightarrow> m (46 + i) = block d j ! i"
proof -
  have n: "m (42 + i) = data_payload d j ! i" if "i < 4 + length (block d j)" for i
    using arg_cong [OF assms, of "\<lambda>xs. xs ! i"] that by simp
  show "rd16 m 42 = htons TFTP_DATA" "rd16 m 44 = htons (of_nat j)"
    using n [of 0] n [of 1] n [of 2] n [of 3]
    by (simp_all add: rd16_def data_payload_def le16_def join_le16)
  fix i assume "i < length (block d j)"
  then show "m (46 + i) = block d j ! i" using n [of "4 + i"] by (simp add: data_payload_def le16_def)
qed

lemma receive_data:
  assumes v: "server_ok v" and ok: "client_ok v c"
    and m: "bytes m 0 (length (data_frame v ipid j)) = data_frame v ipid j"
  shows "NetReceive clk m (int (length (data_frame v ipid j))) c =
    (if packetHandler c = Some startAgainHandler_f \<or> TftpState c \<noteq> STATE_RRQ \<and> srv_port v \<noteq> TftpServerPort c then Some c
     else data_packet clk m 44 (srv_port v) (of_nat (2 + length (block (srv_data v) j))) c)"
    and "bytes m 42 (length (data_payload (srv_data v) j)) = data_payload (srv_data v) j"
proof -
  let ?L = "length (block (srv_data v) j)"
  have L: "?L \<le> 512" by (rule length_block_le)
  have ip: "NetOurIP c = 0 \<or> cli_ip v = NetOurIP c \<or> cli_ip v = 0xFFFFFFFF" using ok by (simp add: client_ok_def)
  have a: "length (cli_mac v) = 6" "length (srv_mac v) = 6" "28 + length (data_payload (srv_data v) j) < 65536"
    using v L by (simp_all add: server_ok_def)
  note r = receive_udp [OF data_frame_def m a ip]
  show b: "bytes m 42 (length (data_payload (srv_data v) j)) = data_payload (srv_data v) j" by (rule r(2))
  have p: "ucast (ucast (cli_port v) :: u16) = cli_port v" "ucast (ucast (srv_port v) :: u16) = srv_port v"
    using v by (simp_all add: server_ok_def port_casts)
  have n: "\<not> of_nat (4 + ?L) < (2 :: u32)"
    using L by (simp only: word_less_nat_alt unat_u32_of_nat) simp
  have s: "of_nat (4 + ?L) - 2 = (of_nat (2 + ?L) :: u32)" by simp
  have h: "TftpHandler clk m 42 (cli_port v) (srv_port v) (of_nat (4 + ?L)) c =
      (if TftpState c \<noteq> STATE_RRQ \<and> srv_port v \<noteq> TftpServerPort c then Some c
       else data_packet clk m 44 (srv_port v) (of_nat (2 + ?L)) c)"
    using ok n s data_frame_bytes(1) [OF b]
    by (simp add: TftpHandler_def client_ok_def Let_def TFTP_RRQ_def TFTP_WRQ_def TFTP_ACK_def TFTP_OACK_def TFTP_DATA_def)
  show "NetReceive clk m (int (length (data_frame v ipid j))) c =
    (if packetHandler c = Some startAgainHandler_f \<or> TftpState c \<noteq> STATE_RRQ \<and> srv_port v \<noteq> TftpServerPort c then Some c
     else data_packet clk m 44 (srv_port v) (of_nat (2 + ?L)) c)"
    using ok by (auto simp only: r(1) p h length_data_payload call_packetHandler_def client_ok_def startAgainHandler_def
        option.case rxhand_f.case rxhand_f.simps option.inject if_True if_False simp_thms)
qed

lemma data_packet_eq:
  assumes "rd16 m 44 = htons w" "L \<le> 512"
  shows "data_packet clk m 44 src (of_nat (2 + L)) c =
    (let c1 = count_wrap (c\<lparr>TftpBlock := ucast w\<rparr>);
         fresh = (TftpState c1 = STATE_RRQ \<or> TftpState c1 = STATE_OACK);
         c2 = (if fresh then first_block src c1 else c1)
     in if fresh \<and> TftpBlock c2 \<noteq> 1 then NetStartAgain clk c2
        else if TftpBlock c2 = TftpLastBlock c2 then Some c2
        else Some (take_block clk m 44 (of_nat L) c2))"
proof -
  have "\<not> of_nat (2 + L) < (2 :: u32)" using assms by (simp only: word_less_nat_alt unat_u32_of_nat) simp
  then show ?thesis using assms(1) by (simp add: data_packet_def Let_def)
qed

lemma ucast_block: "j < 65536 \<Longrightarrow> ucast (of_nat j :: u16) = (of_nat j :: u32)"
  by (rule ucast_of_nat_u16)

lemma block_offset: "1 \<le> j \<Longrightarrow> (of_nat j - 1) * TFTP_BLOCK_SIZE = (of_nat (512 * (j - 1)) :: u32)"
  by (simp add: TFTP_BLOCK_SIZE_def of_nat_diff)

lemma of_nat_nonzero: "1 \<le> j \<Longrightarrow> j < 65536 \<Longrightarrow> (of_nat j :: u32) \<noteq> 0"
  using of_nat_u32_inj [of j 0] by auto

lemma lt_block_size: "L \<le> 512 \<Longrightarrow> (of_nat L :: u32) < TFTP_BLOCK_SIZE \<longleftrightarrow> L < 512"
  by (simp only: TFTP_BLOCK_SIZE_def word_less_nat_alt unat_u32_of_nat) simp

lemma inv_take_block:
  assumes inv: "transfer_inv v c0 c k" and small: "small_file (srv_data v)" and j: "1 \<le> j" "j \<le> k"
    and src: "\<And>i. i < length (block (srv_data v) j) \<Longrightarrow> m (46 + i) = block (srv_data v) j ! i"
    and c1: "ram c1 = ram c" "load_addr c1 = load_addr c" "NetBootFileXferSize c1 = NetBootFileXferSize c"
      "TftpState c1 = STATE_DATA" "TftpBlockWrapOffset c1 = 0" "TftpBlock c1 = of_nat j" "eth_log c1 = eth_log c"
      "NetState c1 = NetState c" "client_ok v c1"
  shows "transfer_inv v c0 (take_block clk m 44 (of_nat (length (block (srv_data v) j))) c1) k"
proof -
  let ?d = "srv_data v"
  let ?L = "length (block ?d j)"
  define c2 where "c2 = NetSetTimeout clk (times_CFG_HZ TIMEOUT) TftpTimeout_f (c1\<lparr>TftpLastBlock := TftpBlock c1\<rparr>)"
  define c3 where "c3 = store_block (TftpBlock c2 - 1) m 46 (of_nat ?L) c2"
  have t: "take_block clk m 44 (of_nat ?L) c1 =
      (if ?L < 512 then (TftpSend clk c3)\<lparr>NetState := NETLOOP_SUCCESS\<rparr> else TftpSend clk c3)"
    by (simp add: take_block_def Let_def c2_def [symmetric] c3_def [symmetric] lt_block_size [OF length_block_le])
  have jn: "j \<le> nblocks ?d" using inv j by (simp add: transfer_inv_def)
  have r: "ram c3 = ram_copy (load_addr c + of_nat (512 * (j - 1))) (\<lambda>i. m (46 + i)) (of_nat ?L) (ram c)"
    by (simp add: c3_def c2_def c1 block_offset [OF j(1), simplified])
  have z: "NetBootFileXferSize c3 = max (NetBootFileXferSize c) (of_nat (512 * (j - 1) + ?L))"
    by (simp add: c3_def c2_def c1 block_offset [OF j(1), simplified])
  have ok3: "client_ok v c3" using c1(9) by (simp add: c3_def c2_def client_ok_def eth_ok_def)
  note st = inv_store [OF inv small j src r z _ _ _ _ _ _ _ ok3]
  have st1: "transfer_inv v c0 c3 k" by (rule st(1)) (simp_all add: c3_def c2_def c1)
  have st2: "stored ?d c3 j" by (rule st(2)) (simp_all add: c3_def c2_def c1)
  have st3: "unat (NetBootFileXferSize c3) \<ge> 512 * (j - 1) + ?L" by (rule st(3)) (simp_all add: c3_def c2_def c1)
  have i4: "transfer_inv v c0 (TftpSend clk c3) k" by (rule inv_TftpSend [OF st1 small])
  show ?thesis
  proof (cases "?L < 512")
    case False
    with i4 show ?thesis by (simp add: t)
  next
    case True
    have last: "j = nblocks ?d" "512 * (j - 1) + ?L = length ?d" using short_block_last [OF j(1) jn True] by blast+
    have k: "k = j" using last j inv by (simp add: transfer_inv_def)
    have sz: "unat (NetBootFileXferSize c3) = length ?d" using st3 st1 last by (simp add: transfer_inv_def)
    have s': "stored ?d (c\<lparr>NetState := x\<rparr>) i = stored ?d c i" "acked_block ?d (c\<lparr>NetState := x\<rparr>) b = acked_block ?d c b"
      "wire c0 (c\<lparr>NetState := x\<rparr>) = wire c0 c" for c :: "'a tftp_state" and x i b
      by (simp_all add: stored_def acked_block_def wire_def)
    have fin: "stored ?d (TftpSend clk c3) j" using st2 by (simp add: stored_def)
    have t': "take_block clk m 44 (of_nat ?L) c1 = (TftpSend clk c3)\<lparr>NetState := NETLOOP_SUCCESS\<rparr>" using True by (simp add: t)
    show ?thesis
      unfolding t' using i4 k last(1) sz fin
      by (simp add: transfer_inv_def phase_def s' client_ok_def eth_ok_def)
  qed
qed

lemma inv_data:
  assumes inv: "transfer_inv v c0 c k" and small: "small_file (srv_data v)" and v: "server_ok v" and j: "1 \<le> j" "j \<le> k"
    and m: "bytes m 0 (length (data_frame v ipid j)) = data_frame v ipid j"
    and step: "NetReceive clk m (int (length (data_frame v ipid j))) c = Some c'"
  shows "transfer_inv v c0 c' k"
proof (cases "packetHandler c = Some startAgainHandler_f \<or> TftpState c \<noteq> STATE_RRQ \<and> srv_port v \<noteq> TftpServerPort c")
  case True
  have ok: "client_ok v c" using inv by (simp add: transfer_inv_def)
  from True inv step show ?thesis by (simp add: receive_data(1) [OF v ok m])
next
  case False
  let ?d = "srv_data v"
  let ?L = "length (block ?d j)"
  have ok: "client_ok v c" and ph: "phase v c0 c k" using inv by (simp_all add: transfer_inv_def)
  have jn: "j < 65536" "j \<le> nblocks ?d" using inv j small_file_blocks [OF small] by (simp_all add: transfer_inv_def)
  note b = data_frame_bytes [OF receive_data(2) [OF v ok m]]
  define c1 where "c1 = c\<lparr>TftpBlock := of_nat j\<rparr>"
  have w: "count_wrap (c\<lparr>TftpBlock := ucast (of_nat j :: u16)\<rparr>) = c1"
    using of_nat_nonzero [OF j(1) jn(1)] by (simp add: count_wrap_def ucast_block jn c1_def)
  have ok1: "client_ok v c1" using ok by (simp add: c1_def client_ok_def eth_ok_def)
  from step False have dp: "data_packet clk m 44 (srv_port v) (of_nat (2 + ?L)) c = Some c'"
    by (simp only: receive_data(1) [OF v ok m] if_False)
  note dp' = dp [unfolded data_packet_eq [OF b(2) length_block_le] w Let_def]
  show ?thesis
  proof (cases "TftpState c = STATE_RRQ")
    case True
    have "k \<le> 1" using ph True by (simp add: phase_def)
    then have j1: "j = 1" using j by simp
    define c2 where "c2 = first_block (srv_port v) c1"
    have "c' = take_block clk m 44 (of_nat ?L) c2"
      using dp' True j1 by (simp add: c1_def c2_def [unfolded c1_def, symmetric]) (simp add: c2_def c1_def first_block_def)
    moreover have "transfer_inv v c0 (take_block clk m 44 (of_nat ?L) c2) k"
      by (rule inv_take_block [OF inv small j b(3)]) (use ok1 in \<open>simp_all add: c2_def first_block_def c1_def client_ok_def eth_ok_def\<close>)
    ultimately show ?thesis by simp
  next
    case False
    with ph have data: "TftpState c = STATE_DATA" "TftpBlockWrapOffset c = 0" "acked_block ?d c (TftpLastBlock c)"
      by (auto simp: phase_def)
    show ?thesis
    proof (cases "of_nat j = TftpLastBlock c")
      case True
      with dp' data have c': "c' = c1" by (simp add: c1_def)
      have "acked_block ?d c (of_nat j)" using data(3) True by simp
      moreover have "stored ?d (c\<lparr>TftpBlock := x\<rparr>) i = stored ?d c i" "wire c0 (c\<lparr>TftpBlock := x\<rparr>) = wire c0 c"
        "acked_block ?d (c\<lparr>TftpBlock := x\<rparr>) y = acked_block ?d c y" for x y i
        by (simp_all add: stored_def acked_block_def wire_def)
      ultimately show ?thesis
        using inv data ok1 unfolding c' c1_def transfer_inv_def phase_def by (simp, blast)
    next
      case False
      with dp' data have "c' = take_block clk m 44 (of_nat ?L) c1" by (simp add: c1_def)
      moreover have "transfer_inv v c0 (take_block clk m 44 (of_nat ?L) c1) k"
        by (rule inv_take_block [OF inv small j b(3)]) (use ok1 data in \<open>simp_all add: c1_def\<close>)
      ultimately show ?thesis by simp
    qed
  qed
qed

subsection \<open>Safety of a transfer\<close>

lemma inv_client_step:
  assumes "client_step clk v k c c'" "transfer_inv v c0 c k" "small_file (srv_data v)" "server_ok v"
  shows "transfer_inv v c0 c' k"
  using assms(1)
proof cases
  case data
  then show ?thesis using inv_data assms by blast
next
  case arp
  then show ?thesis using inv_arp_frame assms by blast
next
  case other
  have ok: "client_ok v c" using assms(2) by (simp add: transfer_inv_def)
  show ?thesis using other_port [OF ok other] assms(2) by simp
next
  case arp_timeout
  then show ?thesis using inv_ArpTimeoutCheck assms by blast
next
  case timeout
  then show ?thesis using inv_check_timeout assms by blast
qed

lemma transfer_invariant:
  assumes "transfer clk v c0 c k" "client_ready v c0" "small_file (srv_data v)" "server_ok v"
  shows "transfer_inv v c0 c k"
  using assms(1)
proof induction
  case start
  then show ?case
    using assms(2) by (auto simp: transfer_inv_def client_ready_def client_ok_def phase_def wire_def)
next
  case (request c e)
  then have "phase v c0 c 1" "1 \<le> nblocks (srv_data v)" by (auto simp: transfer_inv_def phase_def nblocks_def)
  with request show ?case by (auto simp: transfer_inv_def nblocks_def)
next
  case (advance c k e)
  have st: "stored (srv_data v) c k" using advance by (auto simp: transfer_inv_def)
  have ph: "phase v c0 c (k + 1)" using advance by (auto simp: transfer_inv_def phase_def)
  have "\<forall>j. 1 \<le> j \<and> j < k + 1 \<longrightarrow> stored (srv_data v) c j"
    using advance st unfolding transfer_inv_def by (auto simp: less_Suc_eq)
  then show ?case using advance st ph unfolding transfer_inv_def by auto
next
  case (client c k c')
  then show ?case using inv_client_step assms by blast
qed

text \<open>C1: a TFTP transfer that reports success has put the file in memory. Between the first request and
  the success frames may have been lost, repeated, delayed and reordered, timeouts may have caused
  retransmissions, and any ARP traffic and traffic for other ports may have arrived; the server only
  has to wait for the acknowledgement of a block before it sends the next one. For every file of less
  than 65535 full blocks, every byte of the file is then at its place after \<open>load_addr\<close> and
  \<open>NetBootFileXferSize\<close> is its length.\<close>

theorem tftp_transfer_safe:
  assumes "transfer clk v c0 c k" "client_ready v c0" "server_ok v" "length (srv_data v) < 65535 * 512"
    and "NetState c = NETLOOP_SUCCESS"
  shows "(\<forall>p<length (srv_data v). ram c (load_addr c0 + of_nat p) = srv_data v ! p) \<and>
    unat (NetBootFileXferSize c) = length (srv_data v) \<and> k = nblocks (srv_data v)"
proof (intro conjI)
  have inv: "transfer_inv v c0 c k"
    using transfer_invariant [OF assms(1, 2) _ assms(3)] assms(4) by (simp add: small_file_def)
  then show "unat (NetBootFileXferSize c) = length (srv_data v)" and k: "k = nblocks (srv_data v)"
    using assms(5) by (simp_all add: transfer_inv_def)
  show "\<forall>p<length (srv_data v). ram c (load_addr c0 + of_nat p) = srv_data v ! p"
  proof (intro allI impI)
    fix p assume p: "p < length (srv_data v)"
    define j where "j = p div 512 + 1"
    have "j < k \<or> j = k" using p k by (auto simp: j_def nblocks_def div_le_mono le_less [symmetric])
    then have "stored (srv_data v) c j" using inv assms(5) by (auto simp: transfer_inv_def j_def)
    moreover have "512 * (j - 1) \<le> p" "p < 512 * j" by (simp_all add: j_def dividend_less_times_div)
    ultimately have "ram c (load_addr c + of_nat p) = srv_data v ! p" using p by (simp add: stored_def)
    then show "ram c (load_addr c0 + of_nat p) = srv_data v ! p" using inv by (simp add: transfer_inv_def)
  qed
qed

end
