(* ===== verification/NetDelivery.thy ===== *)
theory NetDelivery
  imports NetSession
begin

text \<open>
  Progress of a TFTP transfer: blocks delivered in order, through the wrap of the 16-bit sequence
  number, end in success with the file in memory; and what happens to the wrap count when the block
  numbered 0 arrives twice.
\<close>

subsection \<open>Blocks in order\<close>

definition progress :: "server \<Rightarrow> 'c tftp_state \<Rightarrow> 'c tftp_state \<Rightarrow> nat \<Rightarrow> bool" where
  "progress v c0 c n \<longleftrightarrow>
     client_ok v c \<and> packetHandler c = Some TftpHandler_f \<and> load_addr c = load_addr c0 \<and> (\<exists>es. eth_log c = eth_log c0 @ es) \<and>
     NetServerEther c = NetServerEther c0 \<and> NetServerIP c = NetServerIP c0 \<and>
     (if n = 0 then TftpState c = STATE_RRQ
      else TftpState c = STATE_DATA \<and> TftpServerPort c = srv_port v \<and> TftpLastBlock c = of_nat (n mod 65536) \<and>
        TftpBlockWrapOffset c = of_nat (512 * 65536 * (n div 65536))) \<and>
     (\<forall>p. p < 512 * n \<and> p < length (srv_data v) \<longrightarrow> ram c (load_addr c0 + of_nat p) = srv_data v ! p) \<and>
     NetBootFileXferSize c = of_nat (min (512 * n) (length (srv_data v))) \<and>
     (out_ether NetServerEther_ptr (NetServerIP c0) c0 \<noteq> NetEtherNullAddr \<and>
        bcast_ip (NetServerIP c0) \<noteq> 0xFFFFFFFF \<longrightarrow> (\<forall>j\<in>{1..n}. \<exists>e\<in>wire c0 c. is_ack j e))"

lemma seq_word: "ucast (of_nat j :: u16) = (of_nat (j mod 65536) :: u32)"
  by (simp add: word_unat_eq_iff unsigned_ucast_eq unat_of_nat take_bit_eq_mod)

lemma seq_zero: "(of_nat (j mod 65536) :: u32) = 0 \<longleftrightarrow> j mod 65536 = 0"
  using of_nat_u32_inj [of "j mod 65536" 0] by (auto intro: less_trans [OF mod_less_divisor])

lemma seq_next: "(of_nat (Suc n mod 65536) :: u32) \<noteq> of_nat (n mod 65536)"
proof
  assume "(of_nat (Suc n mod 65536) :: u32) = of_nat (n mod 65536)"
  moreover have "Suc n mod 65536 < 65536" "n mod 65536 < 65536" by simp_all
  ultimately have "Suc n mod 65536 = n mod 65536" by (intro of_nat_u32_inj) simp_all
  then show False by (simp add: mod_Suc split: if_splits)
qed

lemma wrap_offset:
  "(of_nat (Suc n mod 65536) - 1) * TFTP_BLOCK_SIZE + of_nat (512 * 65536 * (Suc n div 65536)) = (of_nat (512 * n) :: u32)"
proof -
  have "512 * (Suc n mod 65536) + 512 * 65536 * (Suc n div 65536) = 512 * Suc n"
  proof -
    define q where "q = Suc n div 65536"
    define r where "r = Suc n mod 65536"
    have "q * 65536 + r = Suc n" unfolding q_def r_def by (rule div_mult_mod_eq)
    then show ?thesis unfolding q_def [symmetric] r_def [symmetric] by simp
  qed
  from arg_cong [OF this, of "of_nat :: nat \<Rightarrow> u32"] show ?thesis
    by (simp add: TFTP_BLOCK_SIZE_def algebra_simps)
qed

lemma wrap_count:
  "of_nat (512 * 65536 * (n div 65536)) + (if Suc n mod 65536 = 0 then TFTP_BLOCK_SIZE * TFTP_SEQUENCE_SIZE else 0) =
   (of_nat (512 * 65536 * (Suc n div 65536)) :: u32)"
proof (cases "Suc n mod 65536 = 0")
  case True
  then have "Suc n div 65536 = Suc (n div 65536)" by (simp add: div_Suc)
  with True show ?thesis by (simp add: TFTP_BLOCK_SIZE_def TFTP_SEQUENCE_SIZE_def algebra_simps)
next
  case False
  then have "Suc n div 65536 = n div 65536" by (simp add: div_Suc)
  with False show ?thesis by simp
qed

text \<open>The acknowledgement leaves at once when the server's address is known.\<close>

lemma ack_sent:
  assumes ok: "eth_ok c" and st: "TftpState c = STATE_DATA" and blk: "TftpBlock c = of_nat (j mod 65536)"
    and ether: "out_ether NetServerEther_ptr (NetServerIP c) c \<noteq> NetEtherNullAddr"
  shows "\<exists>e. eth_log (TftpSend clk c) = eth_log c @ [e] \<and> is_ack j e"
proof -
  have l: "length (out_ether NetServerEther_ptr (NetServerIP c) c) = 6" "length (NetOurEther c) = 6"
    using ok by (simp_all add: eth_ok_def out_ether_def ether_at_def)
  have "(ucast (of_nat (j mod 65536) :: u32) :: u16) = of_nat j"
    by (simp add: word_unat_eq_iff unsigned_ucast_eq unat_of_nat take_bit_eq_mod)
  then have "tftp_payload c = le16 (htons TFTP_ACK) @ le16 (htons (of_nat j))" by (simp add: tftp_payload_def st blk)
  then show ?thesis using TftpSend_log [OF ok, of clk] ether is_ack_udp [OF l] by auto
qed

lemma take_block_keeps:
  "load_addr (take_block clk m a len c) = load_addr c" "packetHandler (take_block clk m a len c) = packetHandler c"
  "NetServerEther (take_block clk m a len c) = NetServerEther c" "NetServerIP (take_block clk m a len c) = NetServerIP c"
  "TftpState (take_block clk m a len c) = TftpState c" "TftpServerPort (take_block clk m a len c) = TftpServerPort c"
  "TftpOurPort (take_block clk m a len c) = TftpOurPort c" "TftpBlock (take_block clk m a len c) = TftpBlock c"
  "TftpLastBlock (take_block clk m a len c) = TftpBlock c" "TftpTimeoutCount (take_block clk m a len c) = TftpTimeoutCount c"
  "TftpBlockWrapOffset (take_block clk m a len c) = TftpBlockWrapOffset c" "NetOurIP (take_block clk m a len c) = NetOurIP c"
  "NetOurEther (take_block clk m a len c) = NetOurEther c" "NetBcastAddr (take_block clk m a len c) = NetBcastAddr c"
  "NetState (take_block clk m a len c) = (if len < TFTP_BLOCK_SIZE then NETLOOP_SUCCESS else NetState c)"
  "ram (take_block clk m a len c) =
     ram_copy (load_addr c + ((TftpBlock c - 1) * TFTP_BLOCK_SIZE + TftpBlockWrapOffset c)) (\<lambda>i. m (a + 2 + i)) len (ram c)"
  "NetBootFileXferSize (take_block clk m a len c) =
     max (NetBootFileXferSize c) ((TftpBlock c - 1) * TFTP_BLOCK_SIZE + TftpBlockWrapOffset c + len)"
  by (simp_all add: take_block_def Let_def)

lemma take_block_log:
  assumes "eth_ok c" "TftpState c = STATE_DATA" "TftpBlock c = of_nat (j mod 65536)"
  shows "\<exists>e. eth_log (take_block clk m a len c) = eth_log c @ [e] \<and>
    (out_ether NetServerEther_ptr (NetServerIP c) c \<noteq> NetEtherNullAddr \<longrightarrow> is_ack j e)"
proof -
  define c3 where "c3 = store_block (TftpBlock c - 1) m (a + 2) len
    (NetSetTimeout clk (times_CFG_HZ TIMEOUT) TftpTimeout_f (c\<lparr>TftpLastBlock := TftpBlock c\<rparr>))"
  have log: "eth_log (take_block clk m a len c) = eth_log (TftpSend clk c3)" by (simp add: take_block_def Let_def c3_def)
  have l: "eth_log c3 = eth_log c" by (simp add: c3_def)
  have f: "eth_ok c3" "TftpState c3 = STATE_DATA" "TftpBlock c3 = of_nat (j mod 65536)"
    using assms by (simp_all add: c3_def eth_ok_def)
  have o: "out_ether NetServerEther_ptr (NetServerIP c3) c3 = out_ether NetServerEther_ptr (NetServerIP c) c"
    by (simp add: c3_def out_ether_def ether_at_def)
  show ?thesis
    using TftpSend_log [OF f(1), of clk] ack_sent [OF f, of clk] unfolding log l o by metis
qed

lemma progress_step:
  assumes pr: "progress v c0 c n" and v: "server_ok v" and n: "n < nblocks (srv_data v)" and big: "length (srv_data v) < 2 ^ 32 - 512"
    and m: "bytes m 0 (length (data_frame v ipid (Suc n))) = data_frame v ipid (Suc n)"
  shows "\<exists>c'. NetReceive clk m (int (length (data_frame v ipid (Suc n)))) c = Some c' \<and> progress v c0 c' (Suc n) \<and>
    NetState c' = (if Suc n = nblocks (srv_data v) then NETLOOP_SUCCESS else NetState c)"
proof -
  let ?d = "srv_data v" and ?j = "Suc n"
  let ?L = "length (block ?d ?j)"
  have ok: "client_ok v c" and h: "packetHandler c = Some TftpHandler_f" using pr by (simp_all add: progress_def)
  note b = data_frame_bytes [OF receive_data(2) [OF v ok m]]
  define c1 where "c1 = (if n = 0 then first_block (srv_port v) (c\<lparr>TftpBlock := 1\<rparr>)
      else c\<lparr>TftpBlock := of_nat (?j mod 65536), TftpBlockWrapOffset := of_nat (512 * 65536 * (?j div 65536)),
             TftpBlockWrap := TftpBlockWrap c + (if ?j mod 65536 = 0 then 1 else 0)\<rparr>)"
  have rcv: "NetReceive clk m (int (length (data_frame v ipid ?j))) c = data_packet clk m 44 (srv_port v) (of_nat (2 + ?L)) c"
  proof -
    have "TftpState c = STATE_RRQ \<or> srv_port v = TftpServerPort c" using pr by (auto simp: progress_def split: if_splits)
    then show ?thesis using h by (auto simp: receive_data(1) [OF v ok m])
  qed
  have dp: "data_packet clk m 44 (srv_port v) (of_nat (2 + ?L)) c = Some (take_block clk m 44 (of_nat ?L) c1)"
  proof (cases "n = 0")
    case True
    have "count_wrap (c\<lparr>TftpBlock := ucast (of_nat ?j :: u16)\<rparr>) = c\<lparr>TftpBlock := 1\<rparr>" by (simp add: True count_wrap_def)
    moreover have "TftpState c = STATE_RRQ" using pr True by (simp add: progress_def)
    ultimately show ?thesis
      unfolding data_packet_eq [OF b(2) length_block_le] using True by (simp add: Let_def c1_def first_block_def)
  next
    case False
    with pr have st: "TftpState c = STATE_DATA" "TftpLastBlock c = of_nat (n mod 65536)"
      "TftpBlockWrapOffset c = of_nat (512 * 65536 * (n div 65536))" by (simp_all add: progress_def)
    have "count_wrap (c\<lparr>TftpBlock := ucast (of_nat ?j :: u16)\<rparr>) = c1"
      using wrap_count [of n] False st by (auto simp: count_wrap_def c1_def seq_word seq_zero simp del: of_nat_mult of_nat_Suc)
    then show ?thesis
      unfolding data_packet_eq [OF b(2) length_block_le] using False st seq_next [of n] by (simp add: Let_def c1_def)
  qed
  have L: "?L \<le> 512" by (rule length_block_le)
  have e: "512 * n + ?L \<le> length ?d" using block_end [of ?j ?d] n by simp
  have fin: "?L < 512 \<longleftrightarrow> ?j = nblocks ?d"
    using short_block_last [of ?j ?d] n by (auto simp: length_block nblocks_def)
  have mn: "min (512 * ?j) (length ?d) = 512 * n + ?L" using e by (simp add: length_block)
  have c1: "ram c1 = ram c" "load_addr c1 = load_addr c0" "packetHandler c1 = Some TftpHandler_f" "eth_log c1 = eth_log c"
    "NetServerEther c1 = NetServerEther c0" "NetServerIP c1 = NetServerIP c0" "TftpState c1 = STATE_DATA"
    "TftpServerPort c1 = srv_port v" "TftpBlock c1 = of_nat (?j mod 65536)"
    "TftpBlockWrapOffset c1 = of_nat (512 * 65536 * (?j div 65536))" "NetState c1 = NetState c" "NetBcastAddr c1 = NetBcastAddr c"
    "NetBootFileXferSize c1 = NetBootFileXferSize c"
    using pr by (simp_all add: c1_def progress_def first_block_def)
  have ok1: "client_ok v c1" "eth_ok c1" using ok by (simp_all add: c1_def first_block_def client_ok_def eth_ok_def)
  let ?c = "take_block clk m 44 (of_nat ?L) c1"
  have r: "ram ?c (load_addr c0 + of_nat p) = (if 512 * n \<le> p \<and> p < 512 * n + ?L then ?d ! p else ram c (load_addr c0 + of_nat p))"
    if "p < length ?d" for p
    unfolding take_block_keeps c1 wrap_offset
    using ram_copy_at [of p "512 * n" ?L "load_addr c0" "\<lambda>i. m (44 + 2 + i)" "ram c"] that e big b(3) [of "p - 512 * n"]
      block_nth [of "p - 512 * n" ?d ?j] by auto
  have z: "NetBootFileXferSize ?c = of_nat (min (512 * ?j) (length ?d))"
  proof -
    have "NetBootFileXferSize ?c = max (of_nat (min (512 * n) (length ?d))) (of_nat (512 * n + ?L))"
      unfolding take_block_keeps c1 wrap_offset using pr by (simp add: progress_def)
    moreover have "unat (of_nat (min (512 * n) (length ?d)) :: u32) = 512 * n" "unat (of_nat (512 * n + ?L) :: u32) = 512 * n + ?L"
      using e big by (subst unat_u32_of_nat; simp)+
    ultimately show ?thesis unfolding mn by (simp add: word_unat_eq_iff unat_max_u32)
  qed
  obtain ev where ev: "eth_log ?c = eth_log c @ [ev]"
    "out_ether NetServerEther_ptr (NetServerIP c0) c1 \<noteq> NetEtherNullAddr \<Longrightarrow> is_ack ?j ev"
    using take_block_log [OF ok1(2) c1(7) c1(9), of clk m 44 "of_nat ?L"] by (auto simp: c1)
  have w: "wire c0 ?c = insert ev (wire c0 c)" using pr ev(1) by (auto simp: progress_def wire_def)
  have acks: "\<forall>j\<in>{1..?j}. \<exists>e\<in>wire c0 ?c. is_ack j e"
    if nz: "out_ether NetServerEther_ptr (NetServerIP c0) c0 \<noteq> NetEtherNullAddr" "bcast_ip (NetServerIP c0) \<noteq> 0xFFFFFFFF"
  proof -
    have "out_ether NetServerEther_ptr (NetServerIP c0) c1 = out_ether NetServerEther_ptr (NetServerIP c0) c0"
      using nz(2) c1(5) by (simp add: out_ether_def ether_at_def)
    then have "is_ack ?j ev" using ev(2) nz by simp
    moreover have "\<forall>j\<in>{1..n}. \<exists>e\<in>wire c0 c. is_ack j e" using pr nz by (simp add: progress_def)
    ultimately show ?thesis unfolding w by (auto simp: le_Suc_eq)
  qed
  have mem: "ram ?c (load_addr c0 + of_nat p) = ?d ! p" if "p < 512 * ?j" "p < length ?d" for p
  proof (cases "512 * n \<le> p")
    case True
    have "p < 512 * n + ?L" using that unfolding mn [symmetric] by simp
    with True r [OF that(2)] show ?thesis by simp
  next
    case False
    with pr that(2) have "ram c (load_addr c0 + of_nat p) = ?d ! p" by (simp add: progress_def)
    with False r [OF that(2)] show ?thesis by simp
  qed
  have "progress v c0 ?c ?j"
  proof -
    have k: "client_ok v ?c" "packetHandler ?c = Some TftpHandler_f" "load_addr ?c = load_addr c0" "\<exists>es. eth_log ?c = eth_log c0 @ es"
      "NetServerEther ?c = NetServerEther c0" "NetServerIP ?c = NetServerIP c0" "TftpState ?c = STATE_DATA"
      "TftpServerPort ?c = srv_port v" "TftpLastBlock ?c = of_nat (?j mod 65536)"
      "TftpBlockWrapOffset ?c = of_nat (512 * 65536 * (?j div 65536))"
      using ok1 pr ev(1) by (auto simp: take_block_keeps c1 client_ok_def eth_ok_def progress_def)
    moreover have "\<forall>p. p < 512 * ?j \<and> p < length ?d \<longrightarrow> ram ?c (load_addr c0 + of_nat p) = ?d ! p" using mem by blast
    moreover have "out_ether NetServerEther_ptr (NetServerIP c0) c0 \<noteq> NetEtherNullAddr \<and>
        bcast_ip (NetServerIP c0) \<noteq> 0xFFFFFFFF \<longrightarrow> (\<forall>j\<in>{1..?j}. \<exists>e\<in>wire c0 ?c. is_ack j e)" using acks by blast
    ultimately show ?thesis unfolding progress_def using z by (simp only: nat.distinct if_False simp_thms)
  qed
  moreover have "NetState ?c = (if ?j = nblocks ?d then NETLOOP_SUCCESS else NetState c)"
    by (simp only: take_block_keeps c1 lt_block_size [OF L] fin)
  ultimately show ?thesis using rcv dp by (intro exI [of _ ?c]) (simp only:)
qed

subsection \<open>Delivery in order\<close>

text \<open>The frames of blocks \<open>n + 1 .. N\<close>, as the driver hands them over.\<close>

fun frames_from :: "server \<Rightarrow> nat \<Rightarrow> (mem \<times> int) list \<Rightarrow> bool" where
  "frames_from v n [] = True"
| "frames_from v n ((m, len) # rx) \<longleftrightarrow>
     (\<exists>ipid. bytes m 0 (length (data_frame v ipid (Suc n))) = data_frame v ipid (Suc n) \<and>
        len = int (length (data_frame v ipid (Suc n)))) \<and> frames_from v (Suc n) rx"

lemma progress_frames:
  assumes "frames_from v n rx" "progress v c0 c n" "server_ok v" "length (srv_data v) < 2 ^ 32 - 512"
    and "n + length rx \<le> nblocks (srv_data v)" "rx \<noteq> []"
  shows "\<exists>c'. eth_rx clk rx c = Some c' \<and> progress v c0 c' (n + length rx) \<and>
    NetState c' = (if n + length rx = nblocks (srv_data v) then NETLOOP_SUCCESS else NetState c)"
  using assms
proof (induction rx arbitrary: n c)
  case (Cons f rx)
  obtain m len where f: "f = (m, len)" by fastforce
  obtain ipid where b: "bytes m 0 (length (data_frame v ipid (Suc n))) = data_frame v ipid (Suc n)"
    and len: "len = int (length (data_frame v ipid (Suc n)))" and rest: "frames_from v (Suc n) rx"
    using Cons.prems(1) by (auto simp: f)
  have n: "n < nblocks (srv_data v)" using Cons.prems(5) by simp
  obtain c1 where c1: "NetReceive clk m len c = Some c1" "progress v c0 c1 (Suc n)"
    "NetState c1 = (if Suc n = nblocks (srv_data v) then NETLOOP_SUCCESS else NetState c)"
    using progress_step [OF Cons.prems(2, 3) n Cons.prems(4) b, of clk] by (auto simp: len)
  show ?case
  proof (cases "rx = []")
    case True
    then show ?thesis using c1 by (simp add: f)
  next
    case False
    then have "0 < length rx" by blast
    then have "Suc n \<noteq> nblocks (srv_data v)" using Cons.prems(5) by (simp del: length_greater_0_conv)
    moreover have "\<exists>c'. eth_rx clk rx c1 = Some c' \<and> progress v c0 c' (Suc n + length rx) \<and>
        NetState c' = (if Suc n + length rx = nblocks (srv_data v) then NETLOOP_SUCCESS else NetState c1)"
      by (rule Cons.IH [OF rest c1(2) Cons.prems(3, 4)]) (use Cons.prems(5) False in simp_all)
    ultimately show ?thesis using c1 by (auto simp: f)
  qed
qed simp

lemma progress_start: "client_ready v c0 \<Longrightarrow> progress v c0 c0 0"
  by (simp add: client_ready_def progress_def client_ok_def)

text \<open>C13: a transfer whose blocks arrive in order completes: from the state in which the request was sent,
  receiving the data frames of all blocks of a file of less than 4 GB, also past the 65535th block where the
  16-bit block number wraps to 0, ends with \<open>NETLOOP_SUCCESS\<close>, every byte of the file at its place
  after \<open>load_addr\<close> and \<open>NetBootFileXferSize\<close> equal to the length of the file; none of the steps fails.\<close>

theorem tftp_delivery_completes:
  assumes "client_ready v c0" "server_ok v" "length (srv_data v) < 2 ^ 32 - 512"
    and "frames_from v 0 rx" "length rx = nblocks (srv_data v)"
  shows "\<exists>c. eth_rx clk rx c0 = Some c \<and> NetState c = NETLOOP_SUCCESS \<and>
    (\<forall>p<length (srv_data v). ram c (load_addr c0 + of_nat p) = srv_data v ! p) \<and>
    NetBootFileXferSize c = of_nat (length (srv_data v))"
proof -
  have "rx \<noteq> []" using assms(5) by (auto simp: nblocks_def)
  then obtain c where c: "eth_rx clk rx c0 = Some c" "progress v c0 c (nblocks (srv_data v))" "NetState c = NETLOOP_SUCCESS"
    using progress_frames [OF assms(4) progress_start [OF assms(1)] assms(2, 3), of clk] assms(5) by auto
  have "length (srv_data v) < 512 * nblocks (srv_data v)" by (simp add: nblocks_def dividend_less_times_div)
  then have "min (512 * nblocks (srv_data v)) (length (srv_data v)) = length (srv_data v)"
    "\<And>p. p < length (srv_data v) \<Longrightarrow> p < 512 * nblocks (srv_data v)" by simp_all
  with c show ?thesis by (auto simp: progress_def)
qed

text \<open>C32: the wrap of the block number is counted before the test for a repeated block: when the frame of a
  block numbered 0 arrives a second time, the client ignores its data but has already moved its offset on by
  another 32 MB, so that the next block is stored 32 MB behind its place.\<close>

theorem repeated_wrap_misplaces:
  assumes v: "server_ok v" and pr: "progress v c0 c n" and n: "n mod 65536 = 0" "0 < n" "n < nblocks (srv_data v)"
    and m: "bytes m 0 (length (data_frame v ipid n)) = data_frame v ipid n"
    and m': "bytes m' 0 (length (data_frame v ipid' (Suc n))) = data_frame v ipid' (Suc n)"
  shows "\<exists>c1 c2. NetReceive clk m (int (length (data_frame v ipid n))) c = Some c1 \<and>
    TftpBlockWrapOffset c1 = TftpBlockWrapOffset c + 0x2000000 \<and> ram c1 = ram c \<and> eth_log c1 = eth_log c \<and>
    NetReceive clk m' (int (length (data_frame v ipid' (Suc n)))) c1 = Some c2 \<and>
    ram c2 = ram_copy (load_addr c + of_nat (512 * n) + 0x2000000) (\<lambda>i. m' (46 + i))
      (of_nat (length (block (srv_data v) (Suc n)))) (ram c)"
proof -
  have ok: "client_ok v c" and h: "packetHandler c = Some TftpHandler_f"
    and st: "TftpState c = STATE_DATA" "TftpServerPort c = srv_port v" "TftpLastBlock c = 0"
      "TftpBlockWrapOffset c = of_nat (512 * 65536 * (n div 65536))"
    using pr n by (simp_all add: progress_def)
  define c1 where "c1 = c\<lparr>TftpBlock := 0, TftpBlockWrap := TftpBlockWrap c + 1,
    TftpBlockWrapOffset := TftpBlockWrapOffset c + TFTP_BLOCK_SIZE * TFTP_SEQUENCE_SIZE\<rparr>"
  note b = data_frame_bytes [OF receive_data(2) [OF v ok m]]
  have "count_wrap (c\<lparr>TftpBlock := ucast (of_nat n :: u16)\<rparr>) = c1" by (simp add: count_wrap_def c1_def seq_word n)
  then have r1: "NetReceive clk m (int (length (data_frame v ipid n))) c = Some c1"
    using h st unfolding receive_data(1) [OF v ok m] data_packet_eq [OF b(2) length_block_le] by (simp add: Let_def c1_def)
  have ok1: "client_ok v c1" using ok by (simp add: c1_def client_ok_def eth_ok_def)
  note b' = data_frame_bytes [OF receive_data(2) [OF v ok1 m']]
  have one: "Suc n mod 65536 = 1" using n by (simp add: mod_Suc)
  define c2 where "c2 = take_block clk m' 44 (of_nat (length (block (srv_data v) (Suc n)))) (c1\<lparr>TftpBlock := 1\<rparr>)"
  have "count_wrap (c1\<lparr>TftpBlock := ucast (of_nat (Suc n) :: u16)\<rparr>) = c1\<lparr>TftpBlock := 1\<rparr>"
    unfolding seq_word one by (simp add: count_wrap_def)
  then have r2: "NetReceive clk m' (int (length (data_frame v ipid' (Suc n)))) c1 = Some c2"
    using h st unfolding receive_data(1) [OF v ok1 m'] data_packet_eq [OF b'(2) length_block_le]
    by (simp add: Let_def c1_def c2_def)
  have off: "of_nat (512 * 65536 * (n div 65536)) = (of_nat (512 * n) :: u32)"
  proof -
    have "65536 * (n div 65536) = n" using n by (metis add_0_right mult_div_mod_eq)
    then have "512 * 65536 * (n div 65536) = 512 * n" by (simp only: mult.assoc)
    then show ?thesis by (rule arg_cong)
  qed
  have "ram c2 = ram_copy (load_addr c + of_nat (512 * n) + 0x2000000) (\<lambda>i. m' (46 + i))
      (of_nat (length (block (srv_data v) (Suc n)))) (ram c)"
    using st(4) unfolding off
    by (simp add: c2_def take_block_keeps c1_def TFTP_BLOCK_SIZE_def TFTP_SEQUENCE_SIZE_def add.assoc)
  then show ?thesis
    using r1 r2 by (intro exI [of _ c1] exI [of _ c2]) (simp add: c1_def TFTP_BLOCK_SIZE_def TFTP_SEQUENCE_SIZE_def)
qed

subsection \<open>Complete transfers exist\<close>

text \<open>A frame laid out in memory.\<close>

definition mem_of :: "u8 list \<Rightarrow> mem" where
  "mem_of f a = (if a < length f then f ! a else 0)"

lemma bytes_mem_of [simp]: "bytes (mem_of f) 0 (length f) = f"
  by (rule nth_equalityI) (simp_all add: mem_of_def)

lemma rrq_sent:
  assumes ok: "eth_ok c" and st: "TftpState c = STATE_RRQ"
    and ether: "out_ether NetServerEther_ptr (NetServerIP c) c \<noteq> NetEtherNullAddr"
  shows "\<exists>e. eth_log (TftpSend clk c) = eth_log c @ [e] \<and> is_rrq e"
proof -
  have l: "length (out_ether NetServerEther_ptr (NetServerIP c) c) = 6" "length (NetOurEther c) = 6"
    using ok by (simp_all add: eth_ok_def out_ether_def ether_at_def)
  have "take 2 (tftp_payload c) = le16 (htons TFTP_RRQ)" by (simp add: tftp_payload_def st)
  then show ?thesis
    using TftpSend_log [OF ok, of clk] ether frame_payload_udp [OF l] by (auto simp: is_rrq_def)
qed

definition due :: "clock \<Rightarrow> 'c tftp_state \<Rightarrow> bool" where
  "due clk c \<longleftrightarrow> timeHandler c = Some TftpTimeout_f \<and> clk (timer_reads c) - timeStart c > timeDelta c \<and>
     TftpTimeoutCount c < TIMEOUT_COUNT"

lemma request_repeated:
  assumes rdy: "client_ready v c0" and due: "due clk c0"
    and ether: "out_ether NetServerEther_ptr (NetServerIP c0) c0 \<noteq> NetEtherNullAddr"
  shows "\<exists>c1. check_timeout clk c0 = Some c1 \<and> client_ready v c1 \<and> load_addr c1 = load_addr c0 \<and>
    (\<exists>e. eth_log c1 = eth_log c0 @ [e] \<and> is_rrq e) \<and> NetServerEther c1 = NetServerEther c0 \<and> NetServerIP c1 = NetServerIP c0"
proof -
  define c where "c = NetSetTimeout clk (times_CFG_HZ TIMEOUT) TftpTimeout_f (c0\<lparr>timer_reads := timer_reads c0 + 1,
    timeHandler := None, TftpTimeoutCount := TftpTimeoutCount c0 + 1\<rparr>)"
  have step: "check_timeout clk c0 = Some (TftpSend clk c)"
    using due by (simp add: check_timeout_def due_def get_timer_def call_timeHandler_def TftpTimeout_def c_def Let_def)
  have rc: "client_ready v c" using rdy by (simp add: client_ready_def c_def eth_ok_def)
  have "out_ether NetServerEther_ptr (NetServerIP c) c \<noteq> NetEtherNullAddr"
    using ether by (simp add: c_def out_ether_def ether_at_def split: ether_ptr.splits if_splits)
  then obtain e where e: "eth_log (TftpSend clk c) = eth_log c @ [e]" "is_rrq e"
    using rrq_sent [of c clk] rc by (auto simp: client_ready_def)
  have "client_ready v (TftpSend clk c)" using rc by (simp add: client_ready_def eth_ok_def)
  moreover have "eth_log c = eth_log c0" "load_addr c = load_addr c0" "NetServerEther c = NetServerEther c0" "NetServerIP c = NetServerIP c0"
    by (simp_all add: c_def)
  ultimately show ?thesis using step e by (intro exI [of _ "TftpSend clk c"]) simp
qed

lemma wire_mono: "eth_log c1 = eth_log c0 @ es \<Longrightarrow> wire c1 c \<subseteq> wire c0 c"
  using set_drop_subset [of _ "drop (length (eth_log c0)) (eth_log c)"]
  by (simp add: wire_def) (metis drop_drop add.commute length_append set_drop_subset)

lemma transfer_extend:
  assumes t1: "transfer clk v c0 c1 1" and log: "eth_log c1 = eth_log c0 @ es" and rdy: "client_ready v c1" and v: "server_ok v"
    and ether: "out_ether NetServerEther_ptr (NetServerIP c1) c1 \<noteq> NetEtherNullAddr" "bcast_ip (NetServerIP c1) \<noteq> 0xFFFFFFFF"
    and big: "length (srv_data v) < 2 ^ 32 - 512" and n: "n < nblocks (srv_data v)"
  shows "\<exists>c. transfer clk v c0 c (Suc n) \<and> progress v c1 c n"
  using n
proof (induction n)
  case 0
  then show ?case using t1 progress_start [OF rdy] by (intro exI [of _ c1]) simp
next
  case (Suc n)
  then obtain c where t: "transfer clk v c0 c (Suc n)" and p: "progress v c1 c n" by auto
  let ?f = "data_frame v 0 (Suc n)"
  obtain c' where c': "NetReceive clk (mem_of ?f) (int (length ?f)) c = Some c'" "progress v c1 c' (Suc n)"
    using progress_step [OF p v _ big, of "mem_of ?f" 0 clk] Suc.prems by auto
  have "client_step clk v (Suc n) c c'" by (rule client_step.data [of "Suc n" _ "mem_of ?f" v 0]) (use c'(1) in simp_all)
  then have t': "transfer clk v c0 c' (Suc n)" by (rule transfer.client [OF t])
  have "\<forall>j\<in>{1..Suc n}. \<exists>e\<in>wire c1 c'. is_ack j e" using c'(2) ether unfolding progress_def by blast
  moreover have "Suc n \<in> {1..Suc n}" by simp
  ultimately obtain e where "e \<in> wire c1 c'" "is_ack (Suc n) e" by blast
  then have "transfer clk v c0 c' (Suc n + 1)"
    using transfer.advance [OF t'] wire_mono [OF log, of c'] Suc.prems by auto
  then show ?case using c'(2) by auto
qed

lemma transfer_exists:
  assumes rdy: "client_ready v c0" and v: "server_ok v" and due: "due clk c0"
    and ether: "NetServerEther c0 \<noteq> NetEtherNullAddr" "NetServerIP c0 \<noteq> 0" "NetServerIP c0 \<noteq> 0xFFFFFFFF"
    and big: "length (srv_data v) < 2 ^ 32 - 512"
  shows "\<exists>c. transfer clk v c0 c (nblocks (srv_data v)) \<and> NetState c = NETLOOP_SUCCESS"
proof -
  have o: "out_ether NetServerEther_ptr (NetServerIP c) c \<noteq> NetEtherNullAddr \<and> bcast_ip (NetServerIP c) \<noteq> 0xFFFFFFFF"
    if "NetServerEther c = NetServerEther c0" "NetServerIP c = NetServerIP c0" for c :: "'a tftp_state"
    using that ether by (simp add: out_ether_def bcast_ip_def ether_at_def)
  obtain c1 e where c1: "check_timeout clk c0 = Some c1" "client_ready v c1" "eth_log c1 = eth_log c0 @ [e]" "is_rrq e"
    "NetServerEther c1 = NetServerEther c0" "NetServerIP c1 = NetServerIP c0"
    using request_repeated [OF rdy due] o [of c0] by auto
  have "transfer clk v c0 c1 0" by (rule transfer.client [OF transfer.start client_step.timeout [OF c1(1)]])
  then have t1: "transfer clk v c0 c1 1" by (rule transfer.request [of _ _ _ _ e]) (use c1 in \<open>simp_all add: wire_def\<close>)
  define n where "n = nblocks (srv_data v) - 1"
  have n: "n < nblocks (srv_data v)" "Suc n = nblocks (srv_data v)" by (simp_all add: n_def nblocks_def)
  obtain c where t: "transfer clk v c0 c (Suc n)" and p: "progress v c1 c n"
    using transfer_extend [OF t1 c1(3, 2) v _ _ big n(1)] o [OF c1(5, 6)] by auto
  let ?f = "data_frame v 0 (Suc n)"
  obtain c' where c': "NetReceive clk (mem_of ?f) (int (length ?f)) c = Some c'" "NetState c' = NETLOOP_SUCCESS"
    using progress_step [OF p v n(1) big, of "mem_of ?f" 0 clk] n by auto
  have "client_step clk v (Suc n) c c'" by (rule client_step.data [of "Suc n" _ "mem_of ?f" v 0]) (use c'(1) in simp_all)
  then have "transfer clk v c0 c' (Suc n)" by (rule transfer.client [OF t])
  with c'(2) n(2) show ?thesis by auto
qed

text \<open>Transfers do complete: from every state in which \<open>NetLoop\<close> waits for the answer to its request, with
  the server's Ethernet address known and a timeout due, there is a run of client, server and network
  in which the request is repeated, every block is sent, stored and acknowledged in turn, and the client
  ends with \<open>NETLOOP_SUCCESS\<close>.\<close>

theorem tftp_transfer_possible:
  assumes rdy: "client_ready v c0" and v: "server_ok v" and due: "due clk c0"
    and ether: "NetServerEther c0 \<noteq> NetEtherNullAddr" "NetServerIP c0 \<noteq> 0" "NetServerIP c0 \<noteq> 0xFFFFFFFF"
    and big: "length (srv_data v) < 2 ^ 32 - 512"
  shows "\<exists>c. transfer clk v c0 c (nblocks (srv_data v)) \<and> NetState c = NETLOOP_SUCCESS"
  using assms by (rule transfer_exists)

subsection \<open>Concrete transfers\<close>

definition demo_client :: "unit tftp_state" where
  "demo_client =
     \<lparr>hdr_crc = 0, env_data = [NUL, NUL], default_env = [NUL, NUL], env_valid = True, gd_baudrate = 57600,
      bi_enetaddr = [0, 0x0c, 0x43, 0x28, 0x80, 1], bi_ip_addr = 0x0a0a0a0a, load_addr = 0x80100000, BootFile = ''uImage'',
      crc_st = \<lparr>crc_table_empty = True, crc_table = []\<rparr>, con = (),
      NetOurIP = 0x0a0a0a0a, NetServerIP = 0x030a0a0a, NetOurGatewayIP = 0, NetOurSubnetMask = 0x00ffffff, NetOurDNSIP = 0,
      NetOurNISDomain = [], NetOurHostName = [], NetOurRootPath = [], NetOurEther = [0, 0x0c, 0x43, 0x28, 0x80, 1],
      NetServerEther = [2, 0, 0, 0, 0, 1], NetBcastAddr = replicate 6 0xff, NetBootFileXferSize = 0, NetIPID = 0,
      NetState = NETLOOP_CONTINUE, NetTxPacket = (\<lambda>_. 0), NetArpWaitTxPacket = (\<lambda>_. 0), NetArpWaitTxPacketSize = 0,
      NetArpWaitPacketIP = 0, NetArpWaitReplyIP = 0, NetArpWaitPacketMAC = None, NetArpWaitTimerStart = 0, NetArpWaitTry = 0,
      packetHandler = Some TftpHandler_f, timeHandler = Some TftpTimeout_f, timeStart = 0, timeDelta = 900000000,
      ram = (\<lambda>_. 0), eth_log = [], timer_reads = 0,
      TftpServerPort = 69, TftpOurPort = 2000, TftpTimeoutCount = 0, TftpBlock = 0, TftpLastBlock = 0, TftpBlockWrap = 0,
      TftpBlockWrapOffset = 0, TftpState = STATE_RRQ, TftpStarted = True, default_filename = [], tftp_filename = BootFile_ptr\<rparr>"

definition demo_server :: "u8 list \<Rightarrow> server" where
  "demo_server d = \<lparr>srv_mac = [2, 0, 0, 0, 0, 1], srv_ip = 0x030a0a0a, srv_port = 3000,
     cli_mac = [0, 0x0c, 0x43, 0x28, 0x80, 1], cli_ip = 0x0a0a0a0a, cli_port = 2000, srv_data = d\<rparr>"

lemma demo_server_ok [simp]: "server_ok (demo_server d)"
  by (simp add: server_ok_def demo_server_def)

lemma demo_client_ready [simp]: "client_ready (demo_server d) demo_client"
  by (simp add: client_ready_def demo_client_def demo_server_def eth_ok_def)

lemma srv_data_demo [simp]: "srv_data (demo_server d) = d"
  by (simp add: demo_server_def)

lemma demo_due: "due (\<lambda>_. 1000000000) demo_client"
  by (simp add: due_def demo_client_def TIMEOUT_COUNT_def)

theorem tftp_transfer_possible_witness:
  "\<exists>c. transfer (\<lambda>_. 1000000000) (demo_server [1, 2, 3]) demo_client c 1 \<and> NetState c = NETLOOP_SUCCESS"
  using tftp_transfer_possible [OF demo_client_ready demo_server_ok demo_due, of "[1, 2, 3]"]
  by (simp add: nblocks_def demo_client_def NetEtherNullAddr_def)

lemma demo_load_addr: "load_addr demo_client = 0x80100000"
  by (simp add: demo_client_def)

lemma one_frame:
  "frames_from v n [(mem_of (data_frame v i (Suc n)), int (length (data_frame v i (Suc n))))]"
  by (auto intro!: exI [of _ i])

theorem tftp_delivery_completes_witness:
  "\<exists>c. eth_rx (\<lambda>_. 0) [(mem_of (data_frame (demo_server [1, 2, 3]) 7 1), int (length (data_frame (demo_server [1, 2, 3]) 7 1)))]
      demo_client = Some c \<and> NetState c = NETLOOP_SUCCESS \<and>
    (\<forall>p<length [1, 2, 3 :: u8]. ram c (0x80100000 + of_nat p) = [1, 2, 3] ! p) \<and>
    NetBootFileXferSize c = of_nat (length [1, 2, 3 :: u8])"
  using tftp_delivery_completes [OF demo_client_ready demo_server_ok _ one_frame [of _ 0 7], of "[1, 2, 3]" "\<lambda>_. 0"]
  unfolding demo_load_addr srv_data_demo One_nat_def by (simp only: nblocks_def) simp

theorem tftp_transfer_safe_witness:
  "\<exists>c. transfer (\<lambda>_. 1000000000) (demo_server [1, 2, 3]) demo_client c 1 \<and>
    (\<forall>p<length [1, 2, 3 :: u8]. ram c (0x80100000 + of_nat p) = [1, 2, 3] ! p) \<and>
    unat (NetBootFileXferSize c) = length [1, 2, 3 :: u8]"
proof -
  have "nblocks [1, 2, 3 :: u8] = 1" by (simp add: nblocks_def)
  moreover obtain c where "transfer (\<lambda>_. 1000000000) (demo_server [1, 2, 3]) demo_client c (nblocks [1, 2, 3 :: u8])"
    "NetState c = NETLOOP_SUCCESS"
    using transfer_exists [OF demo_client_ready demo_server_ok demo_due, of "[1, 2, 3]"]
    by (auto simp: demo_client_def NetEtherNullAddr_def)
  ultimately show ?thesis
    using tftp_transfer_safe [OF _ demo_client_ready demo_server_ok, of _ "[1, 2, 3]" c 1]
    unfolding demo_load_addr srv_data_demo by (intro exI [of _ c]) simp
qed

definition demo_wrapped :: "unit tftp_state" where
  "demo_wrapped = demo_client\<lparr>NetServerEther := [0, 0, 0, 0, 0, 0], TftpState := STATE_DATA, TftpServerPort := 3000,
     TftpBlockWrapOffset := 0x2000000, NetBootFileXferSize := 0x2000000\<rparr>"

lemma demo_wrapped_progress:
  "progress (demo_server (replicate 33554432 0)) demo_wrapped demo_wrapped 65536"
proof -
  have f: "client_ok (demo_server (replicate 33554432 0)) demo_wrapped" "packetHandler demo_wrapped = Some TftpHandler_f"
    "TftpState demo_wrapped = STATE_DATA" "TftpServerPort demo_wrapped = 3000" "TftpLastBlock demo_wrapped = 0"
    "TftpBlockWrapOffset demo_wrapped = 0x2000000" "NetBootFileXferSize demo_wrapped = 0x2000000" "\<And>a. ram demo_wrapped a = 0"
    by (simp_all add: demo_wrapped_def demo_client_def demo_server_def client_ok_def eth_ok_def)
  moreover have "out_ether NetServerEther_ptr (NetServerIP demo_wrapped) demo_wrapped = NetEtherNullAddr"
    by (simp add: out_ether_def bcast_ip_def ether_at_def demo_wrapped_def demo_client_def NetEtherNullAddr_def)
  moreover have "srv_port (demo_server (replicate 33554432 0)) = 3000" by (simp add: demo_server_def)
  ultimately show ?thesis by (simp add: progress_def)
qed

theorem repeated_wrap_misplaces_witness:
  "\<exists>c1. NetReceive (\<lambda>_. 0) (mem_of (data_frame (demo_server (replicate 33554432 0)) 7 65536))
      (int (length (data_frame (demo_server (replicate 33554432 0)) 7 65536))) demo_wrapped = Some c1 \<and>
    TftpBlockWrapOffset c1 = TftpBlockWrapOffset demo_wrapped + 0x2000000 \<and> ram c1 = ram demo_wrapped"
proof -
  have n: "65536 mod 65536 = (0 :: nat)" "(0 :: nat) < 65536" "65536 < nblocks (srv_data (demo_server (replicate 33554432 0)))"
    by (simp_all add: nblocks_def)
  show ?thesis
    using repeated_wrap_misplaces [OF demo_server_ok demo_wrapped_progress n bytes_mem_of bytes_mem_of, of "\<lambda>_. 0"] by blast
qed

end
