(* ===== verification/NetExchange.thy ===== *)
theory NetExchange
  imports NetDelivery Env_Spec
begin

text \<open>
  Exchanges between two stations running \<open>net/net.c\<close>: a UDP packet one sends and the other receives, an
  address resolved by an ARP request and its reply, the state in which \<open>NetLoop\<close> enters its loop and the
  environment it leaves, and the packets whose UDP length is not checked.
\<close>

subsection \<open>UDP\<close>

text \<open>C22: a UDP packet arrives as it was sent: the frame \<open>NetSendUDPPacket\<close> transmits passes every check of
  \<open>NetReceive\<close> at the station it is addressed to, the header checksum included, and is handed to that
  station's handler with the ports, the length and the payload of the sender, wherever the receive buffer
  lies and whatever follows the frame in it.\<close>

theorem udp_roundtrip:
  assumes "length (out_ether ether dest s) = 6" "length (NetOurEther s) = 6" "out_ether ether dest s \<noteq> NetEtherNullAddr"
    and "unat dport < 65536" "unat sport < 65536" "28 + len < 65536"
    and "NetOurIP r = 0 \<or> bcast_ip dest = NetOurIP r \<or> bcast_ip dest = 0xFFFFFFFF"
  shows "\<exists>s' f. NetSendUDPPacket clk ether dest dport sport len s = (s', 0) \<and> eth_log s' = eth_log s @ [EthSend f] \<and>
    (\<forall>m. bytes m 0 (length f) = f \<longrightarrow>
       NetReceive clk' m (int (length f)) r = call_packetHandler clk' m 42 dport sport (of_nat len) r \<and>
       bytes m 42 len = bytes (NetTxPacket s) 42 len)"
proof -
  let ?d = "bytes (NetTxPacket s) 42 len"
  let ?f = "udp_frame (out_ether ether dest s) (NetOurEther s) (NetIPID s) (NetOurIP s) (bcast_ip dest) dport sport ?d"
  obtain s' where s': "NetSendUDPPacket clk ether dest dport sport len s = (s', 0)" "eth_log s' = eth_log s @ [EthSend ?f]"
    using send_transmits [OF assms(1-3), of clk dport sport len] by auto
  have "NetReceive clk' m (int (length ?f)) r = call_packetHandler clk' m 42 dport sport (of_nat len) r \<and> bytes m 42 len = ?d"
    if m: "bytes m 0 (length ?f) = ?f" for m
    using receive_udp [OF refl m assms(1, 2) _ assms(7)] assms(6) port_casts [OF assms(4)] port_casts [OF assms(5)] by simp
  with s' show ?thesis by blast
qed

subsection \<open>ARP\<close>

lemma arp_frame_fields:
  assumes m: "bytes m 0 42 = arp_frame dmac smac op sha spa tha tpa"
    and l: "length dmac = 6" "length smac = 6" "length sha = 6" "length tha = 6"
  shows "rd16 m 12 = htons PROT_ARP" "rd16 m 14 = htons ARP_ETHER" "rd16 m 16 = htons PROT_IP" "m 18 = 6" "m 19 = 4"
    "rd16 m 20 = htons op" "bytes m 22 6 = sha" "NetReadIP m 28 = spa" "NetReadIP m 38 = tpa" "bytes m 6 6 = smac"
    "bytes m 32 6 = tha"
proof -
  note w = rd16_at [OF m]
  show "rd16 m 12 = htons PROT_ARP" "rd16 m 14 = htons ARP_ETHER" "rd16 m 16 = htons PROT_IP" "rd16 m 20 = htons op"
    by (rule w, simp, simp add: arp_frame_def ether_header_def l le16_def)+
  have n: "m i = arp_frame dmac smac op sha spa tha tpa ! i" if "i < 42" for i
    using arg_cong [OF m, of "\<lambda>xs. xs ! i"] that by simp
  show "m 18 = 6" "m 19 = 4" using n [of 18] n [of 19] by (simp_all add: arp_frame_def ether_header_def l nth_append le16_def)
  have b: "bytes m a k = take k (drop a (arp_frame dmac smac op sha spa tha tpa))" if "a + k \<le> 42" for a k
    by (rule bytes_sub [OF m that])
  show "bytes m 22 6 = sha" "bytes m 6 6 = smac" "bytes m 32 6 = tha"
    by (simp_all add: b arp_frame_def ether_header_def l le16_def)
  show "NetReadIP m 28 = spa" "NetReadIP m 38 = tpa"
    by (simp_all add: NetReadIP_def b arp_frame_def ether_header_def l le16_def)
qed

lemma length_arp_frame:
  "length dmac = 6 \<Longrightarrow> length smac = 6 \<Longrightarrow> length sha = 6 \<Longrightarrow> length tha = 6 \<Longrightarrow>
   length (arp_frame dmac smac op sha spa tha tpa) = 42"
  by (simp add: arp_frame_def)

lemma receive_arp_frame_eq:
  assumes m: "bytes m 0 42 = arp_frame dmac smac op sha spa tha tpa"
    and l: "length dmac = 6" "length smac = 6" "length sha = 6" "length tha = 6"
    and ip: "NetOurIP s = tpa" "tpa \<noteq> 0" and op: "op = ARPOP_REQUEST \<or> op = ARPOP_REPLY"
  shows "NetReceive clk m 42 s = Some (if op = ARPOP_REQUEST then arp_reply m 14 s else arp_answered clk m 14 s)"
  using ip op arp_frame_fields [OF m l]
  by (auto simp: NetReceive_def receive_arp_def net_consts Let_def)

lemma arp_reply_eq:
  assumes m: "bytes m 0 42 = arp_frame dmac smac op sha spa tha tpa"
    and l: "length dmac = 6" "length smac = 6" "length sha = 6" "length tha = 6" "length (NetOurEther s) = 6"
  shows "arp_reply m 14 s = eth_send (arp_frame smac (NetOurEther s) ARPOP_REPLY (NetOurEther s) (NetOurIP s) sha spa) s"
proof -
  note f = arp_frame_fields [OF m l(1-4)]
  define m0 where "m0 = fst (NetSetEther s m 0 smac PROT_ARP)"
  have n: "NetSetEther s m 0 (bytes m 6 6) PROT_ARP = (m0, 14)" by (simp add: m0_def f NetSetEther_def ETHER_HDR_SIZE_def)
  define m1 where "m1 = blit m0 20 (le16 (htons ARPOP_REPLY))"
  define m2 where "m2 = blit m1 32 (bytes m1 22 6)"
  define m3 where "m3 = blit m2 38 (bytes m2 28 4)"
  define m4 where "m4 = blit (blit m3 22 (NetOurEther s)) 28 (le32 (NetOurIP s))"
  have r: "arp_reply m 14 s = eth_send (bytes m4 0 42) s"
    by (simp add: arp_reply_def n Let_def m1_def m2_def m3_def m4_def ARP_HDR_SIZE_def)
  have out: "m0 a = m a" if "14 \<le> a" for a unfolding m0_def by (rule NetSetEther_outside) (use l that in simp_all)
  have b1: "bytes m1 22 6 = sha"
    unfolding f(7) [symmetric] by (rule bytes_cong) (simp add: m1_def blit_apply out)
  have b2: "bytes m2 28 4 = le32 spa"
  proof -
    have "bytes m2 28 4 = bytes m 28 4" by (rule bytes_cong) (simp add: m2_def m1_def blit_apply out)
    also have "\<dots> = le32 spa" using bytes_sub [OF m, of 28 4] by (simp add: arp_frame_def ether_header_def l le16_def)
    finally show ?thesis .
  qed
  have m2': "m2 = blit m1 32 sha" and m3': "m3 = blit m2 38 (le32 spa)" by (simp add: m2_def b1) (simp only: m3_def b2)
  have h: "bytes m4 0 14 = ether_header smac (NetOurEther s) PROT_ARP"
  proof -
    have "bytes m4 0 14 = bytes m0 0 14" by (rule bytes_cong) (simp add: m4_def m3_def m2_def m1_def blit_apply)
    also have "\<dots> = ether_header smac (NetOurEther s) PROT_ARP" unfolding m0_def by (rule NetSetEther_bytes) (use l in simp_all)
    finally show ?thesis .
  qed
  have p: "bytes m4 14 6 = le16 (htons ARP_ETHER) @ le16 (htons PROT_IP) @ [6, 4]"
  proof -
    have "bytes m4 14 6 = bytes m 14 6"
      by (rule bytes_cong) (simp add: m4_def m3_def m2_def m1_def blit_apply out)
    also have "\<dots> = le16 (htons ARP_ETHER) @ le16 (htons PROT_IP) @ [6, 4]"
      using bytes_sub [OF m, of 14 6] by (simp add: arp_frame_def ether_header_def l le16_def)
    finally show ?thesis .
  qed
  have q: "bytes m4 20 2 = le16 (htons ARPOP_REPLY)" "bytes m4 22 6 = NetOurEther s" "bytes m4 28 4 = le32 (NetOurIP s)"
    "bytes m4 32 6 = sha" "bytes m4 38 4 = le32 spa"
    unfolding m4_def m3' m2' m1_def by (rule nth_equalityI; simp add: blit_apply l)+
  have "bytes m4 0 42 = bytes m4 0 14 @ bytes m4 14 6 @ bytes m4 20 2 @ bytes m4 22 6 @ bytes m4 28 4 @ bytes m4 32 6 @ bytes m4 38 4"
    using bytes_append [of m4 0 14 28] bytes_append [of m4 14 6 22] bytes_append [of m4 20 2 20] bytes_append [of m4 22 6 14]
      bytes_append [of m4 28 4 10] bytes_append [of m4 32 6 4] by simp
  then show ?thesis unfolding r h p q by (simp add: arp_frame_def)
qed

lemma TftpSend_resolved:
  assumes ok: "eth_ok c" and e: "out_ether NetServerEther_ptr (NetServerIP c) c \<noteq> NetEtherNullAddr"
  shows "NetArpWaitPacketIP (TftpSend clk c) = NetArpWaitPacketIP c"
proof -
  define c1 where "c1 = c\<lparr>NetTxPacket := blit (NetTxPacket c) (NetEthHdrSize + IP_HDR_SIZE) (tftp_payload c)\<rparr>"
  have "out_ether NetServerEther_ptr (NetServerIP c1) c1 = out_ether NetServerEther_ptr (NetServerIP c) c"
    by (simp add: c1_def out_ether_def ether_at_def)
  moreover have "length (out_ether NetServerEther_ptr (NetServerIP c) c) = 6" "length (NetOurEther c1) = 6"
    using ok by (simp_all add: c1_def eth_ok_def out_ether_def ether_at_def)
  ultimately obtain m f where "NetSendUDPPacket clk NetServerEther_ptr (NetServerIP c1) (TftpServerPort c1) (TftpOurPort c1)
      (length (tftp_payload c)) c1 = (c1\<lparr>NetIPID := NetIPID c1 + 1, NetTxPacket := m, eth_log := f\<rparr>, 0)"
    using send_transmits [of NetServerEther_ptr "NetServerIP c1" c1 clk "TftpServerPort c1" "TftpOurPort c1" "length (tftp_payload c)"] e
    by auto
  then show ?thesis by (simp add: TftpSend_def c1_def Let_def)
qed

text \<open>An ARP exchange resolves the address: when a station broadcasts its request for an address, the
  station that owns it answers, and the answer, received by the first, sets the server's Ethernet address
  to the one of the owner and ends the wait; a TFTP client whose transfer waited for the address sends its
  packet there at once.\<close>

theorem arp_exchange_resolves:
  assumes a: "eth_ok a" "NetOurIP a \<noteq> 0" "NetArpWaitPacketIP a \<noteq> 0" "NetArpWaitPacketMAC a = Some NetServerEther_ptr" "TftpStarted a"
    and b: "eth_ok b" "NetOurIP b = arp_target a" "NetOurIP b \<noteq> 0" "NetOurEther b \<noteq> NetEtherNullAddr"
    and srv: "NetServerIP a \<noteq> 0" "NetServerIP a \<noteq> 0xFFFFFFFF"
  shows "\<exists>f g b' a'. eth_log (ArpRequest a) = eth_log a @ [EthSend f] \<and>
    NetReceive clkb (mem_of f) (int (length f)) b = Some b' \<and> eth_log b' = eth_log b @ [EthSend g] \<and>
    NetReceive clka (mem_of g) (int (length g)) (ArpRequest a) = Some a' \<and>
    NetServerEther a' = NetOurEther b \<and> NetArpWaitPacketIP a' = 0 \<and>
    (\<exists>h. eth_log a' = eth_log (ArpRequest a) @ [EthSend h] \<and> take 6 h = NetOurEther b \<and> frame_payload h = Some (tftp_payload a))"
proof -
  let ?f = "arp_frame (NetBcastAddr a) (NetOurEther a) ARPOP_REQUEST (NetOurEther a) (NetOurIP a) (replicate 6 0) (arp_target a)"
  let ?g = "arp_frame (NetOurEther a) (NetOurEther b) ARPOP_REPLY (NetOurEther b) (NetOurIP b) (NetOurEther a) (NetOurIP a)"
  have la: "length (NetBcastAddr a) = 6" "length (NetOurEther a) = 6" and lb: "length (NetOurEther b) = 6"
    using a b by (simp_all add: eth_ok_def)
  have lf: "length ?f = 42" and lg: "length ?g = 42" by (simp_all add: length_arp_frame la lb)
  obtain m where a1: "ArpRequest a = a\<lparr>NetArpWaitReplyIP := arp_target a, NetTxPacket := m, eth_log := eth_log a @ [EthSend ?f]\<rparr>"
    using ArpRequest_eq [OF la] by blast
  have bf: "bytes (mem_of ?f) 0 42 = ?f" using bytes_mem_of [of ?f] unfolding lf .
  have bg: "bytes (mem_of ?g) 0 42 = ?g" using bytes_mem_of [of ?g] unfolding lg .
  have l6: "length (replicate 6 (0 :: u8)) = 6" by simp
  have rb: "NetReceive clkb (mem_of ?f) (int (length ?f)) b = Some (eth_send ?g b)"
    using receive_arp_frame_eq [OF bf la la(2) l6 b(2), of clkb] b(3) arp_reply_eq [OF bf la la(2) l6 lb] unfolding lf by (simp add: b(2))
  let ?a1 = "ArpRequest a"
  define a2 where "a2 = ?a1\<lparr>NetServerEther := NetOurEther b, NetArpWaitPacketIP := 0, NetArpWaitTxPacketSize := 0, NetArpWaitPacketMAC := None\<rparr>"
  note g = arp_frame_fields [OF bg la(2) lb lb la(2)]
  have "arp_answered clka (mem_of ?g) 14 ?a1 = TftpSend clka a2"
    using a b(2) g(7, 8) by (simp add: arp_answered_def a1 a2_def set_ether_at_def Let_def)
  then have ra: "NetReceive clka (mem_of ?g) (int (length ?g)) ?a1 = Some (TftpSend clka a2)"
    using receive_arp_frame_eq [OF bg la(2) lb lb la(2), of ?a1 clka] a(2) unfolding lg by (simp add: a1 ARPOP_REPLY_def ARPOP_REQUEST_def)
  have ok2: "eth_ok a2" using a lb by (simp add: a2_def a1 eth_ok_def)
  have e: "out_ether NetServerEther_ptr (NetServerIP a2) a2 = NetOurEther b"
    using srv by (simp add: out_ether_def bcast_ip_def ether_at_def a2_def a1)
  obtain h where h: "eth_log (TftpSend clka a2) = eth_log a2 @ [EthSend h]"
    "h = udp_frame (NetOurEther b) (NetOurEther a2) (NetIPID a2) (NetOurIP a2) (bcast_ip (NetServerIP a2)) (TftpServerPort a2)
       (TftpOurPort a2) (tftp_payload a2)"
    using TftpSend_log [OF ok2, of clka] b(4) unfolding e by auto
  have pl: "tftp_payload a2 = tftp_payload a" by (simp add: tftp_payload_def a2_def a1 fname_at_def split: tftp_st.splits fname_ptr.splits)
  have "take 6 h = NetOurEther b" "frame_payload h = Some (tftp_payload a)"
    using frame_payload_udp [OF lb, of "NetOurEther a2"] ok2 lb by (simp_all add: h(2) eth_ok_def pl) (simp add: udp_frame_def ether_header_def)
  moreover have "NetArpWaitPacketIP (TftpSend clka a2) = 0"
  proof -
    have "NetArpWaitPacketIP a2 = 0" by (simp add: a2_def)
    with TftpSend_resolved [OF ok2, of clka] b(4) show ?thesis unfolding e by simp
  qed
  moreover have "eth_log a2 = eth_log ?a1" "NetServerEther a2 = NetOurEther b" by (simp_all add: a2_def)
  ultimately show ?thesis
    using rb ra h(1) by (intro exI [of _ ?f] exI [of _ ?g] exI [of _ "eth_send ?g b"] exI [of _ "TftpSend clka a2"])
      (simp add: eth_send_def a1)
qed

text \<open>A station that owns the address the demonstration client asks for.\<close>

definition demo_waiting :: "unit tftp_state" where
  "demo_waiting = demo_client\<lparr>NetServerEther := [0, 0, 0, 0, 0, 0], NetArpWaitPacketIP := 0x030a0a0a,
     NetArpWaitPacketMAC := Some NetServerEther_ptr\<rparr>"

definition demo_owner :: "unit tftp_state" where
  "demo_owner = demo_client\<lparr>NetOurIP := 0x030a0a0a, NetOurEther := [2, 0, 0, 0, 0, 1]\<rparr>"

theorem udp_roundtrip_witness:
  "\<exists>s' f. NetSendUDPPacket (\<lambda>_. 0) NetServerEther_ptr (NetServerIP demo_client) 69 2000 4 demo_client = (s', 0) \<and>
    eth_log s' = [EthSend f] \<and>
    NetReceive (\<lambda>_. 0) (mem_of f) (int (length f)) demo_owner = call_packetHandler (\<lambda>_. 0) (mem_of f) 42 69 2000 4 demo_owner"
proof -
  have "\<exists>s' f. NetSendUDPPacket (\<lambda>_. 0) NetServerEther_ptr (NetServerIP demo_client) 69 2000 4 demo_client = (s', 0) \<and>
    eth_log s' = eth_log demo_client @ [EthSend f] \<and>
    (\<forall>m. bytes m 0 (length f) = f \<longrightarrow>
       NetReceive (\<lambda>_. 0) m (int (length f)) demo_owner = call_packetHandler (\<lambda>_. 0) m 42 69 2000 (of_nat 4) demo_owner \<and>
       bytes m 42 4 = bytes (NetTxPacket demo_client) 42 4)"
    by (rule udp_roundtrip) (simp_all add: NetEtherNullAddr_def demo_owner_def demo_client_def bcast_ip_def out_ether_def ether_at_def)
  then obtain s' f where w: "NetSendUDPPacket (\<lambda>_. 0) NetServerEther_ptr (NetServerIP demo_client) 69 2000 4 demo_client = (s', 0)"
    "eth_log s' = eth_log demo_client @ [EthSend f]"
    "\<forall>m. bytes m 0 (length f) = f \<longrightarrow>
       NetReceive (\<lambda>_. 0) m (int (length f)) demo_owner = call_packetHandler (\<lambda>_. 0) m 42 69 2000 (of_nat 4) demo_owner"
    by blast
  have "eth_log demo_client = []" by (simp add: demo_client_def)
  with w show ?thesis by (intro exI [of _ s'] exI [of _ f]) (simp add: w(3) [rule_format, OF bytes_mem_of])
qed

theorem arp_exchange_resolves_witness:
  "\<exists>f g b' a'. eth_log (ArpRequest demo_waiting) = eth_log demo_waiting @ [EthSend f] \<and>
    NetReceive (\<lambda>_. 0) (mem_of f) (int (length f)) demo_owner = Some b' \<and> eth_log b' = eth_log demo_owner @ [EthSend g] \<and>
    NetReceive (\<lambda>_. 0) (mem_of g) (int (length g)) (ArpRequest demo_waiting) = Some a' \<and> NetServerEther a' = NetOurEther demo_owner"
proof -
  have a: "eth_ok demo_waiting" "NetOurIP demo_waiting \<noteq> 0" "NetArpWaitPacketIP demo_waiting \<noteq> 0"
    "NetArpWaitPacketMAC demo_waiting = Some NetServerEther_ptr" "TftpStarted demo_waiting"
    and b: "eth_ok demo_owner" "NetOurIP demo_owner = arp_target demo_waiting" "NetOurIP demo_owner \<noteq> 0" "NetOurEther demo_owner \<noteq> NetEtherNullAddr"
    and c: "NetServerIP demo_waiting \<noteq> 0" "NetServerIP demo_waiting \<noteq> 0xFFFFFFFF"
    by (simp_all add: demo_waiting_def demo_owner_def demo_client_def eth_ok_def arp_target_def NetEtherNullAddr_def)
  show ?thesis using arp_exchange_resolves [OF a b c, of "\<lambda>_. 0" "\<lambda>_. 0"] by blast
qed

subsection \<open>Unchecked lengths\<close>

text \<open>The UDP length field is not checked: the header checksum does not cover it and \<open>NetReceive\<close>
  passes on the field minus 8. A data frame of the running transfer whose length field is below 8 makes
  the client store at least 4294967284 bytes from the 46th byte of the packet on, whatever the length of the
  frame, instead of dropping it.\<close>

theorem short_udp_length_overruns:
  assumes v: "server_ok v" and ok: "client_ok v c" and h: "packetHandler c = Some TftpHandler_f"
    and st: "TftpState c = STATE_DATA" "TftpServerPort c = srv_port v" and j: "1 \<le> j" "j < 65536" "TftpLastBlock c \<noteq> of_nat j"
    and m: "bytes m 0 (length (data_frame v ipid j)) = data_frame v ipid j" and u: "u < 8"
  shows "\<exists>c'. NetReceive clk (blit m 38 (le16 (htons (of_nat u)))) (int (length (data_frame v ipid j))) c = Some c' \<and>
    ram c' = ram_copy (load_addr c + ((of_nat j - 1) * TFTP_BLOCK_SIZE + TftpBlockWrapOffset c))
      (\<lambda>i. blit m 38 (le16 (htons (of_nat u))) (46 + i)) (of_nat u - 12) (ram c) \<and>
    4294967284 \<le> unat (of_nat u - 12 :: u32)"
proof -
  let ?d = "data_payload (srv_data v) j"
  define m' where "m' = blit m 38 (le16 (htons (of_nat u)))"
  have L: "length (data_frame v ipid j) = 42 + length ?d" using v by (simp add: data_frame_def udp_frame_def server_ok_def)
  have ld: "28 + length ?d < 65536" using length_block_le [of "srv_data v" j] by simp
  have same: "rd16 m' a = rd16 m a" if "a + 1 < 38 \<or> 40 \<le> a" for a using that by (auto simp: m'_def rd16_def blit_apply)
  note f = udp_frame_fields [OF data_frame_def m, folded L]
  have l: "length (cli_mac v) = 6" "length (srv_mac v) = 6" using v by (simp_all add: server_ok_def)
  have p: "ucast (ucast (cli_port v) :: u16) = cli_port v" "ucast (ucast (srv_port v) :: u16) = srv_port v"
    using v by (simp_all add: server_ok_def port_casts)
  have ck: "NetCksumOk m' 14 10"
  proof -
    have "bytes m' 14 (2 * 10) = bytes m 14 (2 * 10)" by (rule bytes_cong) (simp add: m'_def blit_apply)
    then show ?thesis using NetCksumOk_bytes f(9) [OF l] by blast
  qed
  have dst: "NetReadIP m' 30 = cli_ip v"
  proof -
    have "bytes m' 30 4 = bytes m 30 4" by (rule bytes_cong) (simp add: m'_def blit_apply)
    then show ?thesis using f(7) [OF l] by (simp add: NetReadIP_def)
  qed
  have len: "rd16 m' 38 = htons (of_nat u)" by (rule rd16_le16) (simp add: m'_def)
  have hl: "m' 14 = 0x45" using f(8) [OF l] by (simp add: m'_def blit_apply)
  have u16: "ucast (of_nat u :: u16) = (of_nat u :: u32)" using u by (intro ucast_of_nat_u16) simp
  have total: "uint (ntohs (rd16 m' 16)) = 28 + int (length ?d)"
    using same [of 16] u16_of_nat [OF ld] by (simp only: f(2) [OF l] htons_htons) simp
  have frag: "rd16 m' 20 AND htons 0x1fff = 0" using same [of 20] f(3) [OF l] by (simp add: htons_def)
  have rcv: "NetReceive clk m' (int (length (data_frame v ipid j))) c = call_packetHandler clk m' 42 (cli_port v) (srv_port v) (of_nat u - 8) c"
    using ok same [of 12] same [of 34] same [of 36] f(1, 4, 5) [OF l] p
    by (simp add: NetReceive_def receive_ip_def net_consts client_ok_def L total hl frag ck dst len u16)
  note b = data_frame_bytes [OF f(10) [OF l]]
  have b': "rd16 m' 42 = htons TFTP_DATA" "rd16 m' 44 = htons (of_nat j)" using same [of 42] same [of 44] b by simp_all
  have big: "4294967284 \<le> unat (of_nat u - 12 :: u32)" "\<not> (of_nat u - 8 :: u32) < 2" "\<not> (of_nat u - 10 :: u32) < 2"
  proof -
    have w: "unat (of_nat u - of_nat k :: u32) = 4294967296 + u - k" if "8 \<le> k" "k < 100" for k
    proof -
      have "unat (of_nat u :: u32) = u" "unat (of_nat k :: u32) = k" using u that by (simp_all add: unat_u32_of_nat)
      then show ?thesis using u that by (simp add: unat_sub_if_size word_size)
    qed
    show "4294967284 \<le> unat (of_nat u - 12 :: u32)" using w [of 12] u by simp
    show "\<not> (of_nat u - 8 :: u32) < 2" using w [of 8] u by (simp add: word_less_nat_alt)
    show "\<not> (of_nat u - 10 :: u32) < 2" using w [of 10] u by (simp add: word_less_nat_alt)
  qed
  define c1 where "c1 = c\<lparr>TftpBlock := of_nat j\<rparr>"
  have w: "count_wrap (c\<lparr>TftpBlock := ucast (of_nat j :: u16)\<rparr>) = c1"
    using of_nat_nonzero [OF j(1, 2)] by (simp add: count_wrap_def ucast_block j c1_def)
  have dp: "data_packet clk m' 44 (srv_port v) (of_nat u - 10) c = Some (take_block clk m' 44 (of_nat u - 12) c1)"
    using b' big st j by (simp add: data_packet_def Let_def w) (simp add: c1_def)
  have "TftpHandler clk m' 42 (cli_port v) (srv_port v) (of_nat u - 8) c = data_packet clk m' 44 (srv_port v) (of_nat u - 10) c"
    using ok st big b' by (simp add: TftpHandler_def client_ok_def Let_def tftp_consts)
  then have "NetReceive clk m' (int (length (data_frame v ipid j))) c = Some (take_block clk m' 44 (of_nat u - 12) c1)"
    using h by (simp add: rcv dp call_packetHandler_def)
  moreover have "ram (take_block clk m' 44 (of_nat u - 12) c1) =
      ram_copy (load_addr c + ((of_nat j - 1) * TFTP_BLOCK_SIZE + TftpBlockWrapOffset c)) (\<lambda>i. m' (46 + i)) (of_nat u - 12) (ram c)"
    by (simp add: take_block_keeps c1_def)
  ultimately show ?thesis using big(1) unfolding m'_def by blast
qed

theorem short_udp_length_overruns_witness:
  "\<exists>c'. NetReceive (\<lambda>_. 0) (blit (mem_of (data_frame (demo_server [1, 2, 3]) 7 1)) 38 (le16 (htons (of_nat 0))))
      (int (length (data_frame (demo_server [1, 2, 3]) 7 1)))
      (demo_client\<lparr>TftpState := STATE_DATA, TftpServerPort := 3000\<rparr>) = Some c' \<and> 4294967284 \<le> unat (of_nat 0 - 12 :: u32)"
proof -
  let ?c = "demo_client\<lparr>TftpState := STATE_DATA, TftpServerPort := 3000\<rparr>" and ?v = "demo_server [1, 2, 3]"
  have c: "client_ok ?v ?c" "packetHandler ?c = Some TftpHandler_f" "TftpState ?c = STATE_DATA" "TftpServerPort ?c = srv_port ?v"
    "TftpLastBlock ?c \<noteq> of_nat 1"
    by (simp_all add: client_ok_def eth_ok_def demo_client_def demo_server_def)
  show ?thesis
    using short_udp_length_overruns [OF demo_server_ok c(1-4) _ _ c(5) bytes_mem_of, of 0 "\<lambda>_. 0" 7] by auto
qed

end
