(* ===== verification/NetBoot.thy ===== *)
theory NetBoot
  imports NetExchange
begin

text \<open>
  \<open>common/cmd_net.c\<close>: the \<open>tftpboot\<close> command around \<open>NetLoop\<close>, and what a transfer leaves in the
  environment. \<open>do_bootm\<close> and \<open>saveenv\<close> are parameters here; \<open>flush_cache\<close> has no effect on the state
  of the model.
\<close>

subsection \<open>The command\<close>

definition setenv_ip ::
  "'c env_calls \<Rightarrow> string \<Rightarrow> u32 \<Rightarrow> ('c, 'm) tftp_state_scheme \<Rightarrow> ('c, 'm) tftp_state_scheme option" where
  "setenv_ip ca name ip s = (if ip \<noteq> 0 then do { tmp \<leftarrow> ip_to_string ip; setenv ca s name (Some tmp) } else Some s)"

definition setenv_text ::
  "'c env_calls \<Rightarrow> string \<Rightarrow> string \<Rightarrow> ('c, 'm) tftp_state_scheme \<Rightarrow> ('c, 'm) tftp_state_scheme option" where
  "setenv_text ca name t s = (if t \<noteq> [] then setenv ca s name (Some t) else Some s)"

definition netboot_update_env :: "'c env_calls \<Rightarrow> ('c, 'm) tftp_state_scheme \<Rightarrow> ('c, 'm) tftp_state_scheme option" where
  "netboot_update_env ca s =
     do {
       s \<leftarrow> setenv_ip ca ''gatewayip'' (NetOurGatewayIP s) s;
       s \<leftarrow> setenv_ip ca ''netmask'' (NetOurSubnetMask s) s;
       s \<leftarrow> setenv_text ca ''hostname'' (NetOurHostName s) s;
       s \<leftarrow> setenv_text ca ''rootpath'' (NetOurRootPath s) s;
       s \<leftarrow> setenv_ip ca ''ipaddr'' (NetOurIP s) s;
       s \<leftarrow> setenv_ip ca ''serverip'' (NetServerIP s) s;
       s \<leftarrow> setenv_ip ca ''dnsip'' (NetOurDNSIP s) s;
       setenv_text ca ''domain'' (NetOurNISDomain s) s
     }"

text \<open>What the arguments select: the load address and the file name, \<open>None\<close> for a usage error.\<close>

definition netboot_args :: "string list \<Rightarrow> ('c, 'm) tftp_state_scheme \<Rightarrow> ('c, 'm) tftp_state_scheme option" where
  "netboot_args argv s =
     (case argv of
        [_] \<Rightarrow> Some s
      | [_, a] \<Rightarrow>
          if peek a = CHR 0x22 then Some (s\<lparr>BootFile := copy_filename a 128\<rparr>)
          else Some (s\<lparr>load_addr := fst (simple_strtoul a 16)\<rparr>)
      | [_, a, b] \<Rightarrow> Some (s\<lparr>load_addr := fst (simple_strtoul a 16), BootFile := copy_filename b 128\<rparr>)
      | _ \<Rightarrow> None)"

definition netboot_autostart ::
  "'c env_calls \<Rightarrow> bool \<Rightarrow> (('c, 'm) tftp_state_scheme \<Rightarrow> ('c, 'm) tftp_state_scheme) \<Rightarrow>
   (string list \<Rightarrow> ('c, 'm) tftp_state_scheme \<Rightarrow> ('c, 'm) tftp_state_scheme \<times> int) \<Rightarrow> string list \<Rightarrow>
   ('c, 'm) tftp_state_scheme \<Rightarrow> (('c, 'm) tftp_state_scheme \<times> int) option" where
  "netboot_autostart ca modifies saveenv do_bootm argv s =
     do {
       a \<leftarrow> getenv s ''autostart'';
       if a = Some ''yes''
       then do {
         s \<leftarrow> (if modifies
               then do {
                 s \<leftarrow> setenv ca s ''autostart'' (Some ''no'');
                 s \<leftarrow> setenv ca s ''bootfile'' (Some (BootFile s));
                 Some (saveenv s)
               }
               else Some s);
         Some (do_bootm (take 1 argv) s)
       }
       else Some (s, 0)
     }"

definition netboot_common ::
  "clock \<Rightarrow> 'c env_calls \<Rightarrow> bool \<Rightarrow> int \<Rightarrow> ((mem \<times> int) list \<times> bool) list \<Rightarrow> bool \<Rightarrow>
   (('c, 'm) tftp_state_scheme \<Rightarrow> ('c, 'm) tftp_state_scheme) \<Rightarrow>
   (string list \<Rightarrow> ('c, 'm) tftp_state_scheme \<Rightarrow> ('c, 'm) tftp_state_scheme \<times> int) \<Rightarrow>
   proto_t \<Rightarrow> string list \<Rightarrow> ('c, 'm) tftp_state_scheme \<Rightarrow> ('c, 'm) net_result" where
  "netboot_common clk ca bufs init_rc ins modifies saveenv do_bootm proto argv s =
     do {
       la \<leftarrow> getenv s ''loadaddr'';
       let s = (case la of Some v \<Rightarrow> s\<lparr>load_addr := fst (simple_strtoul v 16)\<rparr> | None \<Rightarrow> s);
       case netboot_args argv s of
         None \<Rightarrow> Some (Inl (s, 1))
       | Some s \<Rightarrow>
           do {
             r \<leftarrow> NetLoop clk ca bufs init_rc ins proto s;
             case r of
               Inr s \<Rightarrow> Some (Inr s)
             | Inl (s, sz) \<Rightarrow>
                 if sz < 0 then Some (Inl (s, 1))
                 else do {
                   s \<leftarrow> netboot_update_env ca s;
                   if sz = 0 then Some (Inl (s, 0))
                   else map_option Inl (netboot_autostart ca modifies saveenv do_bootm argv s)
                 }
           }
     }"

definition do_tftpb ::
  "clock \<Rightarrow> 'c env_calls \<Rightarrow> bool \<Rightarrow> int \<Rightarrow> ((mem \<times> int) list \<times> bool) list \<Rightarrow> bool \<Rightarrow>
   (('c, 'm) tftp_state_scheme \<Rightarrow> ('c, 'm) tftp_state_scheme) \<Rightarrow>
   (string list \<Rightarrow> ('c, 'm) tftp_state_scheme \<Rightarrow> ('c, 'm) tftp_state_scheme \<times> int) \<Rightarrow>
   string list \<Rightarrow> ('c, 'm) tftp_state_scheme \<Rightarrow> ('c, 'm) net_result" where
  "do_tftpb clk ca bufs init_rc ins modifies saveenv do_bootm argv s =
     netboot_common clk ca bufs init_rc ins modifies saveenv do_bootm TFTP argv s"

subsection \<open>Entering the loop\<close>

lemma TftpStart_ready:
  assumes "length (NetOurEther s) = 6" "length (NetBcastAddr s) = 6" "NetState s = NETLOOP_CONTINUE"
  shows "client_ready v ((TftpStart clk s)\<lparr>NetBootFileXferSize := 0\<rparr>) \<longleftrightarrow>
    NetOurIP s = cli_ip v \<and> TftpOurPort (TftpStart clk s) = cli_port v"
proof -
  have "packetHandler (TftpStart clk s) = Some TftpHandler_f" "TftpState (TftpStart clk s) = STATE_RRQ"
    "NetState (TftpStart clk s) = NetState s" "NetOurIP (TftpStart clk s) = NetOurIP s"
    "NetOurEther (TftpStart clk s) = NetOurEther s" "NetServerEther (TftpStart clk s) = replicate 6 0"
    "NetBcastAddr (TftpStart clk s) = NetBcastAddr s"
    by (simp_all add: TftpStart_def Let_def get_timer_def NetSetHandler_def)
  with assms show ?thesis by (simp add: client_ready_def eth_ok_def)
qed

text \<open>\<open>NetLoop\<close> starts a TFTP transfer in the state the transfer theorems begin with: when the server's and
  the board's address and the Ethernet address are set it enters its loop with the read request pending,
  its handler and timeout installed, the addresses taken from the environment and the board data, and a
  local port between 1024 and 4095; when one of them is missing it returns -1 without sending anything.\<close>

theorem net_restart_tftp:
  assumes env: "getenv_IPaddr s ''gatewayip'' = Some gw" "getenv_IPaddr s ''netmask'' = Some nm" "getenv_IPaddr s ''serverip'' = Some sv"
    and l: "length (bi_enetaddr s) = 6" "length (NetBcastAddr s) = 6"
  shows "if sv = 0 \<or> bi_ip_addr s = 0 \<or> bi_enetaddr s = NetEtherNullAddr
    then \<exists>s'. net_restart clk TFTP s = Some (Inl (s', - 1)) \<and> eth_log s' = eth_log s
    else \<exists>c. net_restart clk TFTP s = Some (Inr c) \<and> 1024 \<le> TftpOurPort c \<and> TftpOurPort c < 4096 \<and>
      NetServerIP c = sv \<and> TftpTimeoutCount c = 0 \<and> timeHandler c = Some TftpTimeout_f \<and>
      (\<forall>v. cli_ip v = bi_ip_addr s \<and> cli_port v = TftpOurPort c \<longrightarrow> client_ready v c)"
proof -
  define s1 where "s1 = s\<lparr>NetOurEther := bi_enetaddr s, NetState := NETLOOP_CONTINUE, NetOurIP := bi_ip_addr s\<rparr>"
  define s2 where "s2 = s1\<lparr>NetOurGatewayIP := gw, NetOurSubnetMask := nm, NetServerIP := sv\<rparr>"
  have g: "getenv_IPaddr s1 n = getenv_IPaddr s n" for n
    by (simp add: getenv_IPaddr_def getenv_def env_block_def s1_def)
  have r: "net_restart clk TFTP s =
      (if net_check_prereq TFTP s2 = 1 then Some (Inl (s2, - 1))
       else Some (Inr ((TftpStart clk s2)\<lparr>NetBootFileXferSize := 0\<rparr>)))"
    using env by (simp add: net_restart_def Let_def s1_def [symmetric] g s2_def)
  have p: "net_check_prereq TFTP s2 = 1 \<longleftrightarrow> sv = 0 \<or> bi_ip_addr s = 0 \<or> bi_enetaddr s = NetEtherNullAddr"
    by (simp add: net_check_prereq_def s2_def s1_def)
  have port: "1024 \<le> TftpOurPort (TftpStart clk s2) \<and> TftpOurPort (TftpStart clk s2) < 4096"
  proof -
    have e: "\<exists>t. TftpOurPort (TftpStart clk s2) = 1024 + t mod 3072" by (auto simp: TftpStart_def Let_def get_timer_def)
    have "1024 \<le> 1024 + t mod 3072 \<and> 1024 + t mod 3072 < (4096 :: u32)" for t :: u32
    proof -
      have "unat (t mod 3072) < 3072" by (simp add: unat_mod)
      then show ?thesis by (simp add: word_le_nat_alt word_less_nat_alt unat_word_ariths)
    qed
    with e show ?thesis by metis
  qed
  have f: "NetServerIP (TftpStart clk s2) = sv" "TftpTimeoutCount (TftpStart clk s2) = 0" "timeHandler (TftpStart clk s2) = Some TftpTimeout_f"
    by (simp_all add: TftpStart_def Let_def get_timer_def NetSetHandler_def NetSetTimeout_def s2_def s1_def times_CFG_HZ_def
        TIMEOUT_def CPU_CLOCK_RATE_def)
  have "client_ready v ((TftpStart clk s2)\<lparr>NetBootFileXferSize := 0\<rparr>) \<longleftrightarrow>
      NetOurIP s2 = cli_ip v \<and> TftpOurPort (TftpStart clk s2) = cli_port v" for v
    by (rule TftpStart_ready) (use l in \<open>simp_all add: s2_def s1_def\<close>)
  moreover have "NetOurIP s2 = bi_ip_addr s" "eth_log s2 = eth_log s" by (simp_all add: s2_def s1_def)
  ultimately show ?thesis unfolding r using p port f by auto
qed

subsection \<open>What \<open>setenv\<close> leaves alone\<close>

text \<open>Setting a variable no other component caches changes nothing but the environment block.\<close>

definition uncached :: "string \<Rightarrow> bool" where
  "uncached n \<longleftrightarrow> plain_name n \<and> n \<notin> {''ipaddr'', ''loadaddr'', ''bootfile''}"

definition outside_env :: "('c, 'm) env_state_scheme \<Rightarrow> ('c, 'm) env_state_scheme" where
  "outside_env s = s\<lparr>hdr_crc := 0, env_data := [], default_env := [], crc_st := \<lparr>crc_table_empty = True, crc_table = []\<rparr>\<rparr>"

lemma outside_env_steps:
  "outside_env (set_env_block d t) = outside_env t" "outside_env (env_crc_update t) = outside_env t"
  by (simp_all add: outside_env_def set_env_block_def env_crc_update_def split: prod.splits)

lemma setenv_effect:
  assumes n: "uncached n" and st: "do_setenv_raw ca s n [Some v] = Some (s', rc)"
  shows "outside_env s' = outside_env s"
proof -
  have cu: "update_cached t n v = t" for t :: "('a, 'b) env_state_scheme"
    using n by (simp add: update_cached_def uncached_def plain_name_def)
  have co: "check_overwrite ca t n vals = Some (Inr t)" if "n \<noteq> ''serial#''" for t :: "('a, 'b) env_state_scheme" and vals
    using n by (auto simp: check_overwrite_def uncached_def plain_name_def console_file_def)
  have ns: "n \<noteq> ''serial#''" using n by (simp add: uncached_def plain_name_def)
  obtain r where r: "remove_old ca s n [Some v] = Some r" using st by (auto simp: do_setenv_raw_def bind_eq_Some_conv)
  have "\<exists>t. r = Inr t \<and> outside_env t = outside_env s"
    using r by (auto simp: remove_old_def co [OF ns] bind_eq_Some_conv outside_env_steps split: if_splits)
  then obtain t where t: "r = Inr t" "outside_env t = outside_env s" by blast
  obtain a :: "unit + string" where a: "(case a of Inl _ \<Rightarrow> Some (t, Suc 0) | Inr d \<Rightarrow> Some (env_crc_update (set_env_block d t), 0)) = Some (s', rc)"
    using st r t by (auto simp: do_setenv_raw_def bind_eq_Some_conv cu)
  then have "outside_env s' = outside_env t" by (cases a) (auto simp: outside_env_steps)
  with t show ?thesis by simp
qed

lemma outside_env_fields:
  assumes "outside_env s' = outside_env s"
  shows "NetBootFileXferSize s' = NetBootFileXferSize s" "load_addr s' = load_addr s" "eth_log s' = eth_log s" "ram s' = ram s"
  using arg_cong [OF assms, of NetBootFileXferSize] arg_cong [OF assms, of load_addr] arg_cong [OF assms, of eth_log]
    arg_cong [OF assms, of ram] by (simp_all add: outside_env_def)

subsection \<open>The end of a transfer\<close>

lemma length_num_digits_bound: "2 \<le> b \<Longrightarrow> n < b ^ k \<Longrightarrow> length (num_digits ds b n) \<le> k"
proof (induction k arbitrary: n)
  case 0
  then show ?case by (simp add: num_digits.simps [of ds b 0])
next
  case (Suc k)
  have "n div b < b ^ k" using Suc.prems by (simp add: less_mult_imp_div_less mult.commute)
  then have "length (num_digits ds b (n div b)) \<le> k" using Suc by simp
  then show ?case by (simp add: num_digits.simps [of ds b n])
qed

lemma hex_text:
  assumes "fl = 0 \<and> fmt = ''%lx'' \<or> fl = LARGE \<and> fmt = ''%lX''"
  obtains b where "vsprintf fmt [VInt n] = Some (b, [], int (length b))" "simple_strtoul b 16 = (n, [])" "length b \<le> 8" "value_ok b"
proof -
  have fl: "fl = 0 \<or> fl = LARGE" using assms by auto
  obtain b where b: "number n 16 (- 1) (- 1) fl = Some b" "simple_strtoul b 16 = (n, [])"
    using number_plain_reads_back [of 16 fl n] fl by auto
  let ?ds = "if fl = LARGE then upper_digits else lower_digits"
  have be: "b = (if n = 0 then ''0'' else rev (num_digits ?ds 16 (unat n)))" using number_plain [of 16 fl n] fl b(1) by simp
  have "vsprintf fmt [VInt n] = Some (b, [], int (length b))"
    using assms b(1) by (elim disjE conjE) (simp_all add: vsprintf_def conv_spec_eval)
  moreover have "length b \<le> 8"
    using length_num_digits_bound [of 16 "unat n" 8 ?ds] by (simp add: be)
  moreover have "value_ok b"
  proof -
    have "isxdigit (of_char c)" if "c \<in> set b" for c
      using that num_digits_valid [of ?ds 16 c "unat n"] by (auto simp: be digit_set_def isxdigit_range split: if_splits)
    moreover have "\<not> isxdigit (of_char NUL)" by (simp add: NUL_def isxdigit_range)
    ultimately show ?thesis by (auto simp: value_ok_def)
  qed
  ultimately show ?thesis using b(2) that by blast
qed

lemma enc_without: "length (enc (without n vs)) \<le> length (enc vs)"
  by (induction vs) (simp_all add: without_def)

text \<open>A short value fits, is read back and leaves the other variables and the rest of the state alone.\<close>

lemma setenv_short:
  assumes ok: "env_ok s vs" and n: "uncached n" and v: "value_ok v" and fits: "length (enc vs) + length n + length v + 3 \<le> ENV_SIZE"
  shows "\<exists>s'. setenv ca s n (Some v) = Some s' \<and> env_ok s' (without n vs @ [n @ CHR ''='' # v]) \<and> getenv s' n = Some (Some v) \<and>
    (\<forall>m. plain_name m \<and> m \<noteq> n \<longrightarrow> getenv s' m = getenv s m) \<and> outside_env s' = outside_env s"
proof -
  have pn: "plain_name n" "name_ok n" using n by (simp_all add: uncached_def plain_name_def)
  have "length (enc (without n vs)) + length (n @ join_vals True [v]) + 2 \<le> ENV_SIZE" using enc_without [of n vs] fits by simp
  then obtain s' where s': "do_setenv_raw ca s n [Some v] = Some (s', 0)" "env_ok s' (without n vs @ [n @ CHR ''='' # v])"
    using setenv_refines [OF ok pn(2), of ca "[v]"] plain_may_overwrite [OF pn(1), of ca s] v by (auto simp: value_ok_def)
  have i: "is_env s" using ok by (auto simp: is_env_def)
  have "setenv ca s n (Some v) = Some s'" using s'(1) by (simp add: setenv_def)
  moreover have "getenv s' n = Some (Some v)" by (rule envs.put_same [OF i pn(1) v s'(1)])
  moreover have "getenv s' m = getenv s m" if "plain_name m" "m \<noteq> n" for m
    by (rule envs.put_other [OF i pn(1) v s'(1) that])
  moreover have "outside_env s' = outside_env s" by (rule setenv_effect [OF n s'(1)])
  ultimately show ?thesis using s'(2) by blast
qed

lemma file_names: "uncached ''filesize''" "uncached ''fileaddr''"
  by (simp_all add: uncached_def plain_name_def name_ok_def NUL_def)

text \<open>A finished transfer is reported to the rest of the system: when the loop ends with success and the
  environment has room, \<open>NetLoop\<close> halts the Ethernet and returns the number of bytes transferred, and the
  variables \<open>filesize\<close> and \<open>fileaddr\<close> hold numerals that read back, in base 16, to that number and to
  the load address; every other plain variable keeps its value.\<close>

theorem net_success_sets_env:
  assumes ok: "env_ok s vs" and room: "length (enc vs) + 39 \<le> ENV_SIZE" and size: "NetBootFileXferSize s > 0"
  shows "\<exists>s' a b. net_success ca s = Some (Inl (s', sint (NetBootFileXferSize s))) \<and> eth_log s' = eth_log s @ [EthHalt] \<and>
    getenv s' ''filesize'' = Some (Some a) \<and> simple_strtoul a 16 = (NetBootFileXferSize s, []) \<and>
    getenv s' ''fileaddr'' = Some (Some b) \<and> simple_strtoul b 16 = (load_addr s, []) \<and>
    (\<forall>m. plain_name m \<and> m \<noteq> ''filesize'' \<and> m \<noteq> ''fileaddr'' \<longrightarrow> getenv s' m = getenv s m) \<and> ram s' = ram s"
proof -
  obtain a where a: "vsprintf ''%lx'' [VInt (NetBootFileXferSize s)] = Some (a, [], int (length a))"
    "simple_strtoul a 16 = (NetBootFileXferSize s, [])" "length a \<le> 8" "value_ok a"
    using hex_text [of 0 "''%lx''" "NetBootFileXferSize s"] by auto
  obtain s1 where s1: "setenv ca s ''filesize'' (Some a) = Some s1" "env_ok s1 (without ''filesize'' vs @ [''filesize'' @ CHR ''='' # a])"
    "getenv s1 ''filesize'' = Some (Some a)" "\<forall>m. plain_name m \<and> m \<noteq> ''filesize'' \<longrightarrow> getenv s1 m = getenv s m" "outside_env s1 = outside_env s"
    using setenv_short [OF ok file_names(1) a(4), of ca] room a(3) by auto
  note f1 = outside_env_fields [OF s1(5)]
  obtain b where b: "vsprintf ''%lX'' [VInt (load_addr s)] = Some (b, [], int (length b))"
    "simple_strtoul b 16 = (load_addr s, [])" "length b \<le> 8" "value_ok b"
    using hex_text [of LARGE "''%lX''" "load_addr s"] by auto
  have "length (enc (without ''filesize'' vs @ [''filesize'' @ CHR ''='' # a])) + length ''fileaddr'' + length b + 3 \<le> ENV_SIZE"
    using enc_without [of "''filesize''" vs] room a(3) b(3) by simp
  then obtain s2 where s2: "setenv ca s1 ''fileaddr'' (Some b) = Some s2" "getenv s2 ''fileaddr'' = Some (Some b)"
    "\<forall>m. plain_name m \<and> m \<noteq> ''fileaddr'' \<longrightarrow> getenv s2 m = getenv s1 m" "outside_env s2 = outside_env s1"
    using setenv_short [OF s1(2) file_names(2) b(4), of ca] by auto
  note f2 = outside_env_fields [OF s2(4)]
  have ns: "net_success ca s = Some (Inl (eth_halt s2, sint (NetBootFileXferSize s)))"
    using size a(1) b(1) s1(1) s2(1) f1 f2 by (simp add: net_success_def Let_def eth_halt_def)
  have g: "getenv (eth_halt s2) m = getenv s2 m" for m by (simp add: getenv_def env_block_def eth_halt_def)
  have "getenv s2 ''filesize'' = Some (Some a)" using s2(3) s1(3) file_names by (simp add: uncached_def)
  then show ?thesis
    using ns s2 s1 a(2) b(2) f1 f2
    by (intro exI [of _ "eth_halt s2"] exI [of _ a] exI [of _ b]) (simp add: g, simp add: eth_halt_def)
qed

subsection \<open>A board with its addresses set\<close>

definition demo_booted :: "unit tftp_state" where
  "demo_booted = demo_client\<lparr>env_data := ''serverip=10.10.10.3'' @ NUL # NUL # replicate 4071 NUL, NetBootFileXferSize := 0x1234\<rparr>"

lemma demo_booted_env: "env_ok demo_booted [''serverip=10.10.10.3'']"
proof -
  have "env_repr (env_data demo_booted) [''serverip=10.10.10.3'']"
    unfolding env_repr_def by (intro conjI exI [of _ "replicate 4071 NUL"]) (simp_all add: demo_booted_def var_ok_def NUL_def)
  moreover have "length (env_data demo_booted) = ENV_SIZE" by (simp add: demo_booted_def ENV_SIZE_def CFG_ENV_SIZE_def)
  moreover have "env_valid demo_booted" "crc_wf (crc_st demo_booted)" by (simp_all add: demo_booted_def demo_client_def crc_wf_def)
  ultimately show ?thesis by (simp add: env_ok_def)
qed

lemma dec_examples: "dec 10 = ''10''" "dec 3 = ''3''"
  by (simp_all add: dec_def num_digits.simps [of _ 10] lower_digits_def)

lemma demo_booted_addresses:
  "getenv_IPaddr demo_booted ''gatewayip'' = Some 0" "getenv_IPaddr demo_booted ''netmask'' = Some 0"
  "getenv_IPaddr demo_booted ''serverip'' = Some 0x030a0a0a"
proof -
  have g: "getenv demo_booted n = Some (lookup [''serverip=10.10.10.3''] n)" if "name_ok n" for n
    by (rule getenv_lookup [OF demo_booted_env that])
  have "ip_fields 4 0 ''10.10.10.3'' = 0x0a0a0a03"
    using ip_fields_dotted [of 10 10 10 3] by (simp add: dec_examples)
  then have "string_to_ip (Some ''10.10.10.3'') = 0x030a0a0a" by (simp add: string_to_ip_def byte_swap32_def)
  then show "getenv_IPaddr demo_booted ''gatewayip'' = Some 0" "getenv_IPaddr demo_booted ''netmask'' = Some 0"
    "getenv_IPaddr demo_booted ''serverip'' = Some 0x030a0a0a"
    by (simp_all add: getenv_IPaddr_def g name_ok_def NUL_def lookup_def var_name_def var_value_def string_to_ip_def)
qed

theorem net_restart_tftp_witness:
  "\<exists>c. net_restart (\<lambda>_. 5000) TFTP demo_booted = Some (Inr c) \<and> 1024 \<le> TftpOurPort c \<and> TftpOurPort c < 4096 \<and>
     NetServerIP c = 0x030a0a0a"
proof -
  have l: "length (bi_enetaddr demo_booted) = 6" "length (NetBcastAddr demo_booted) = 6" "bi_ip_addr demo_booted \<noteq> 0"
    "bi_enetaddr demo_booted \<noteq> NetEtherNullAddr"
    by (simp_all add: demo_booted_def demo_client_def NetEtherNullAddr_def)
  show ?thesis using net_restart_tftp [OF demo_booted_addresses l(1, 2), of "\<lambda>_. 5000"] l by auto
qed

theorem net_success_sets_env_witness:
  "\<exists>s' a. net_success quiet_calls demo_booted = Some (Inl (s', 0x1234)) \<and>
     getenv s' ''filesize'' = Some (Some a) \<and> simple_strtoul a 16 = (0x1234, []) \<and>
     getenv s' ''serverip'' = getenv demo_booted ''serverip''"
proof -
  have s: "NetBootFileXferSize demo_booted = 0x1234" by (simp add: demo_booted_def)
  have r: "length (enc [''serverip=10.10.10.3'']) + 39 \<le> ENV_SIZE" by (simp add: ENV_SIZE_def CFG_ENV_SIZE_def)
  have z: "NetBootFileXferSize demo_booted > 0" by (simp add: s)
  have p: "plain_name ''serverip''" by (simp add: plain_name_def name_ok_def NUL_def)
  show ?thesis
    using net_success_sets_env [OF demo_booted_env r z, of quiet_calls] p unfolding s by auto
qed

end
