(* ===== verification/Kermit.thy ===== *)
theory Kermit
  imports Readline NetBoot
begin

text \<open>
  \<open>loadb\<close>: reception of a file over the serial line with the Kermit protocol (\<open>common/cmd_load.c\<close>). The receiver puts data into memory
  as they come, before the check of their packet, and goes back to the state of the last packet when the check fails or the packet is a
  repetition. Characters come from and go to the console. \<open>os_data_state\<close>, which is always 0, and \<open>os_data_count\<close>, which is never read, are left
  out, as are messages and the array \<open>a_b\<close> between two packets. C's \<open>char\<close> is signed here.
\<close>

definition START_CHAR :: u8 where "START_CHAR = 1"
definition ETX_CHAR :: u8 where "ETX_CHAR = 3"
definition END_CHAR :: u8 where "END_CHAR = 0x0D"
definition K_ESCAPE :: u8 where "K_ESCAPE = 0x23"
definition SEND_TYPE :: u8 where "SEND_TYPE = 0x53"
definition DATA_TYPE :: u8 where "DATA_TYPE = 0x44"
definition ACK_TYPE :: u8 where "ACK_TYPE = 0x59"
definition NACK_TYPE :: u8 where "NACK_TYPE = 0x4E"
definition BREAK_TYPE :: u8 where "BREAK_TYPE = 0x42"
definition SEND_DATA_SIZE :: nat where "SEND_DATA_SIZE = 20"

lemmas kermit_chars = START_CHAR_def ETX_CHAR_def END_CHAR_def K_ESCAPE_def SEND_TYPE_def DATA_TYPE_def ACK_TYPE_def NACK_TYPE_def BREAK_TYPE_def

definition tochar :: "int \<Rightarrow> u8" where "tochar x = word_of_int (x + 32)"
definition untochar :: "u8 \<Rightarrow> int" where "untochar c = uint (c - 32)"

subsection \<open>State\<close>

record 'w kermit =
  k_con :: "'w console_state"
  k_ram :: "u32 \<Rightarrow> u8"
  his_eol :: u8
  his_pad_count :: int
  his_pad_char :: u8
  his_quote :: u8
  k_state :: u8
  k_state_saved :: u8
  os_data_addr :: u32
  os_data_addr_saved :: u32
  k_data_escape :: bool
  k_data_escape_saved :: bool
  send_parms :: "u8 list"
  send_ptr :: nat
  k_n :: int
  last_n :: int

subsection \<open>Characters\<close>

definition k_getc :: "'w dev_calls \<Rightarrow> serial_drv \<Rightarrow> 'w kermit \<Rightarrow> (u8 \<times> 'w kermit) option" where
  "k_getc calls drv k = do { (c, cs) \<leftarrow> con_getc calls drv (k_con k); Some (word_of_int c, k\<lparr>k_con := cs\<rparr>) }"

fun k_puts :: "'w dev_calls \<Rightarrow> serial_drv \<Rightarrow> u8 list \<Rightarrow> 'w kermit \<Rightarrow> 'w kermit option" where
  "k_puts calls drv [] k = Some k"
| "k_puts calls drv (c # cs) k =
     do { con \<leftarrow> con_putc calls drv (char_of (unat c)) (k_con k); k_puts calls drv cs (k\<lparr>k_con := con\<rparr>) }"

definition ktrans :: "u8 \<Rightarrow> u8" where
  "ktrans c = (if c AND 0x60 = 0x40 then c AND NOT 0x40 else if c AND 0x7f = 0x3f then c OR 0x40 else c)"

definition fold_sum :: "int \<Rightarrow> int" where "fold_sum t = (t + (drop_bit 6 t AND 3)) AND 0x3f"

definition chk1 :: "u8 list \<Rightarrow> int" where "chk1 buffer = fold_sum (sum_list (map sint (takeWhile (\<lambda>c. c \<noteq> 0) buffer)))"

text \<open>A packet goes out up to its first NUL, behind the padding.\<close>

definition send_pad :: "'w dev_calls \<Rightarrow> serial_drv \<Rightarrow> 'w kermit \<Rightarrow> 'w kermit option" where
  "send_pad calls drv k = k_puts calls drv (replicate (nat (his_pad_count k)) (his_pad_char k)) k"

definition s1_sendpacket :: "'w dev_calls \<Rightarrow> serial_drv \<Rightarrow> u8 list \<Rightarrow> 'w kermit \<Rightarrow> 'w kermit option" where
  "s1_sendpacket calls drv packet k =
     do {
       k \<leftarrow> send_pad calls drv k;
       k_puts calls drv (takeWhile (\<lambda>c. c \<noteq> 0) packet) k
     }"

definition answer :: "u8 \<Rightarrow> int \<Rightarrow> u8 \<Rightarrow> u8 list" where
  "answer type n eol = (let a_b = [tochar 3, tochar n, type] in START_CHAR # a_b @ [tochar (chk1 a_b), eol])"

definition send_ack :: "'w dev_calls \<Rightarrow> serial_drv \<Rightarrow> int \<Rightarrow> 'w kermit \<Rightarrow> 'w kermit option" where
  "send_ack calls drv n k = s1_sendpacket calls drv (answer ACK_TYPE n (his_eol k)) k"

definition send_nack :: "'w dev_calls \<Rightarrow> serial_drv \<Rightarrow> int \<Rightarrow> 'w kermit \<Rightarrow> 'w kermit option" where
  "send_nack calls drv n k = s1_sendpacket calls drv (answer NACK_TYPE n (his_eol k)) k"

subsection \<open>Data\<close>

definition bin_data_init :: "u32 \<Rightarrow> 'w kermit \<Rightarrow> 'w kermit" where
  "bin_data_init bin_start_address k = k\<lparr>os_data_addr := bin_start_address\<rparr>"

definition os_data_save :: "'w kermit \<Rightarrow> 'w kermit" where
  "os_data_save k = k\<lparr>os_data_addr_saved := os_data_addr k\<rparr>"

definition os_data_restore :: "'w kermit \<Rightarrow> 'w kermit" where
  "os_data_restore k = k\<lparr>os_data_addr := os_data_addr_saved k\<rparr>"

definition bin_data_char :: "u8 \<Rightarrow> 'w kermit \<Rightarrow> 'w kermit" where
  "bin_data_char c k = k\<lparr>k_ram := (k_ram k)(os_data_addr k := c), os_data_addr := os_data_addr k + 1\<rparr>"

definition k_data_init :: "u32 \<Rightarrow> 'w kermit \<Rightarrow> 'w kermit" where
  "k_data_init bin_start_address k = bin_data_init bin_start_address (k\<lparr>k_data_escape := False\<rparr>)"

definition k_data_save :: "'w kermit \<Rightarrow> 'w kermit" where
  "k_data_save k = os_data_save (k\<lparr>k_data_escape_saved := k_data_escape k\<rparr>)"

definition k_data_restore :: "'w kermit \<Rightarrow> 'w kermit" where
  "k_data_restore k = os_data_restore (k\<lparr>k_data_escape := k_data_escape_saved k\<rparr>)"

definition k_data_char :: "u8 \<Rightarrow> 'w kermit \<Rightarrow> 'w kermit" where
  "k_data_char c k =
     (if k_data_escape k then (bin_data_char (ktrans c) k)\<lparr>k_data_escape := False\<rparr>
      else if c = his_quote k then k\<lparr>k_data_escape := True\<rparr>
      else bin_data_char c k)"

lemmas k_data_defs = k_data_init_def bin_data_init_def k_data_save_def os_data_save_def k_data_restore_def os_data_restore_def

subsection \<open>The parameters of the sender\<close>

text \<open>How many fields are answered, and the answer to each.\<close>

definition parm_answers :: "u8 list" where
  "parm_answers = [tochar 94, tochar 1, tochar 0, 0x40, tochar (uint END_CHAR), 0x23, 0x4E, 0x31, 0x4E, tochar 2, tochar 0, tochar 94, tochar 94]"

definition answer_count :: "nat \<Rightarrow> nat" where "answer_count n = (if n \<ge> 10 then 13 else n)"

definition take_parms :: "'w kermit \<Rightarrow> 'w kermit" where
  "take_parms k =
     (let k = k\<lparr>his_eol := END_CHAR, his_pad_count := 0, his_pad_char := 0, his_quote := K_ESCAPE\<rparr>;
          k = (if send_ptr k = SEND_DATA_SIZE - 1 then k\<lparr>send_ptr := send_ptr k - 1\<rparr> else k);
          nbytes = send_ptr k;
          p = send_parms k;
          k = (if nbytes \<ge> 3 then k\<lparr>his_pad_count := untochar (p ! 2)\<rparr> else k);
          k = (if nbytes \<ge> 4 then k\<lparr>his_pad_char := ktrans (p ! 3)\<rparr> else k);
          k = (if nbytes \<ge> 5 then k\<lparr>his_eol := word_of_int (untochar (p ! 4))\<rparr> else k)
      in if nbytes \<ge> 6 then k\<lparr>his_quote := p ! 5\<rparr> else k)"

definition handle_send_packet :: "'w dev_calls \<Rightarrow> serial_drv \<Rightarrow> int \<Rightarrow> 'w kermit \<Rightarrow> 'w kermit option" where
  "handle_send_packet calls drv n k =
     (let k = take_parms k;
          m = answer_count (send_ptr k);
          a_b = [tochar (3 + int m), tochar n, ACK_TYPE] @ take m parm_answers
      in s1_sendpacket calls drv (START_CHAR # a_b @ [tochar (chk1 a_b), his_eol k]) k)"

subsection \<open>A packet\<close>

text \<open>\<open>Inl\<close> is \<open>goto packet_error\<close>.\<close>

definition ebind :: "('e + 'a) option \<Rightarrow> ('a \<Rightarrow> ('e + 'b) option) \<Rightarrow> ('e + 'b) option" where
  "ebind x f = (case x of None \<Rightarrow> None | Some (Inl e) \<Rightarrow> Some (Inl e) | Some (Inr a) \<Rightarrow> f a)"

definition control :: "u8 \<Rightarrow> bool" where "control c \<longleftrightarrow> c AND 0xE0 = 0"

definition k_field :: "'w dev_calls \<Rightarrow> serial_drv \<Rightarrow> int \<Rightarrow> 'w kermit \<Rightarrow> ('w kermit + u8 \<times> int \<times> 'w kermit) option" where
  "k_field calls drv sm k = do { (c, k) \<leftarrow> k_getc calls drv k; Some (if control c then Inl k else Inr (c, sm + uint c, k)) }"

text \<open>The check of what came before: of the header of a long packet, or of the whole packet.\<close>

definition k_check :: "'w dev_calls \<Rightarrow> serial_drv \<Rightarrow> int \<Rightarrow> 'w kermit \<Rightarrow> ('w kermit + u8 \<times> int \<times> 'w kermit) option" where
  "k_check calls drv sm k =
     ebind (k_field calls drv sm k) (\<lambda>(c, sm', k). Some (if c \<noteq> tochar (fold_sum sm) then Inl k else Inr (c, sm', k)))"

text \<open>A new sequence number is a checkpoint; the last one again goes back to it.\<close>

definition k_sequence :: "int \<Rightarrow> 'w kermit \<Rightarrow> 'w kermit" where
  "k_sequence n k =
     (let k = k\<lparr>k_n := n\<rparr>
      in if n = last_n k then k_data_restore (k\<lparr>k_state := k_state_saved k\<rparr>)
         else k_data_save (k\<lparr>last_n := n, k_state_saved := k_state k\<rparr>))"

definition k_long_length :: "'w dev_calls \<Rightarrow> serial_drv \<Rightarrow> int \<Rightarrow> 'w kermit \<Rightarrow> ('w kermit + int \<times> int \<times> 'w kermit) option" where
  "k_long_length calls drv sm k =
     ebind (k_field calls drv sm k) (\<lambda>(hi, sm, k).
     ebind (k_field calls drv sm k) (\<lambda>(lo, sm, k).
     ebind (k_check calls drv sm k) (\<lambda>(c, sm, k). Some (Inr (untochar hi * 95 + untochar lo, sm, k)))))"

definition k_take :: "u8 \<Rightarrow> 'w kermit \<Rightarrow> 'w kermit" where
  "k_take c k =
     (if k_state k = DATA_TYPE then k_data_char c k
      else if k_state k = SEND_TYPE
      then k\<lparr>send_parms := (send_parms k)[send_ptr k := c], send_ptr := (if send_ptr k + 1 \<ge> SEND_DATA_SIZE then send_ptr k else send_ptr k + 1)\<rparr>
      else k)"

fun k_rest :: "'w dev_calls \<Rightarrow> serial_drv \<Rightarrow> nat \<Rightarrow> int \<Rightarrow> 'w kermit \<Rightarrow> ('w kermit + int \<times> 'w kermit) option" where
  "k_rest calls drv 0 sm k = Some (Inr (sm, k))"
| "k_rest calls drv (Suc m) sm k =
     ebind (k_field calls drv sm k) (\<lambda>(c, sm, k). k_rest calls drv m sm (k_take c k))"

definition k_packet :: "'w dev_calls \<Rightarrow> serial_drv \<Rightarrow> 'w kermit \<Rightarrow> ('w kermit + 'w kermit) option" where
  "k_packet calls drv k =
     ebind (k_field calls drv 0 k) (\<lambda>(len, sm, k).
     ebind (k_field calls drv sm k) (\<lambda>(c, sm, k).
     ebind (k_field calls drv sm (k_sequence (untochar c) k)) (\<lambda>(c, sm, k).
     ebind (if untochar len - 2 = - 2 then k_long_length calls drv sm (k\<lparr>k_state := c\<rparr>)
            else Some (Inr (untochar len - 2, sm, k\<lparr>k_state := c\<rparr>))) (\<lambda>(length, sm, k).
     ebind (k_rest calls drv (nat (length - 1)) sm k) (\<lambda>(sm, k).
     ebind (k_check calls drv sm k) (\<lambda>(_, _, k).
       do { (c, k) \<leftarrow> k_getc calls drv k; Some (if c \<noteq> END_CHAR then Inl k else Inr k) }))))))"

subsection \<open>Reception\<close>

text \<open>Whether a packet starts; otherwise \<open>^C\<close> was typed.\<close>

partial_function (option) wait_start :: "'w dev_calls \<Rightarrow> serial_drv \<Rightarrow> 'w kermit \<Rightarrow> (bool \<times> 'w kermit) option" where
  "wait_start calls drv k =
     Option.bind (con_getc calls drv (k_con k)) (\<lambda>(c, cs).
       if c = uint START_CHAR then Some (True, k\<lparr>k_con := cs\<rparr>)
       else if c = uint ETX_CHAR then Some (False, k\<lparr>k_con := cs\<rparr>)
       else wait_start calls drv (k\<lparr>k_con := cs\<rparr>))"

text \<open>After a packet: its answer, and whether it was the end of transmission.\<close>

definition k_finish :: "'w dev_calls \<Rightarrow> serial_drv \<Rightarrow> 'w kermit + 'w kermit \<Rightarrow> (bool \<times> 'w kermit) option" where
  "k_finish calls drv r =
     (case r of
        Inl k \<Rightarrow> map_option (Pair False) (send_nack calls drv (k_n k) (k_data_restore (k\<lparr>k_state := k_state_saved k\<rparr>)))
      | Inr k \<Rightarrow> if k_state k = SEND_TYPE then map_option (Pair False) (handle_send_packet calls drv (k_n k) k)
                 else map_option (Pair (k_state k = BREAK_TYPE)) (send_ack calls drv (k_n k) k))"

partial_function (option) k_loop :: "'w dev_calls \<Rightarrow> serial_drv \<Rightarrow> 'w kermit \<Rightarrow> (bool \<times> 'w kermit) option" where
  "k_loop calls drv k =
     Option.bind (wait_start calls drv (k\<lparr>send_ptr := 0\<rparr>)) (\<lambda>(go, k).
       if \<not> go then Some (False, k)
       else Option.bind (Option.bind (k_packet calls drv k) (k_finish calls drv)) (\<lambda>(fin, k). if fin then Some (True, k) else k_loop calls drv k))"

text \<open>The size of the file, 0 after \<open>^C\<close>.\<close>

definition k_recv :: "'w dev_calls \<Rightarrow> serial_drv \<Rightarrow> u32 \<Rightarrow> 'w kermit \<Rightarrow> (u32 \<times> 'w kermit) option" where
  "k_recv calls drv bin_start_address k =
     (let k = k\<lparr>his_eol := END_CHAR, his_pad_count := 0, his_pad_char := 0, his_quote := K_ESCAPE, k_state := 0\<rparr>;
          k = k_data_init bin_start_address k;
          k = k_data_save (k\<lparr>k_state_saved := k_state k\<rparr>);
          k = k\<lparr>k_n := 0, last_n := - 1\<rparr>
      in map_option (\<lambda>(fin, k). (if fin then os_data_addr k - bin_start_address else 0, k)) (k_loop calls drv k))"

subsection \<open>The command\<close>

text \<open>The variables of the receiver that a reception sets before it reads them start as zero.\<close>

definition kermit_of :: "('w console_state, 'm) net_state_scheme \<Rightarrow> 'w kermit" where
  "kermit_of s =
     \<lparr>k_con = con s, k_ram = ram s, his_eol = 0, his_pad_count = 0, his_pad_char = 0, his_quote = 0, k_state = 0, k_state_saved = 0,
      os_data_addr = 0, os_data_addr_saved = 0, k_data_escape = False, k_data_escape_saved = False,
      send_parms = replicate SEND_DATA_SIZE 0, send_ptr = 0, k_n = 0, last_n = 0\<rparr>"

fun drain :: "'w dev_calls \<Rightarrow> serial_drv \<Rightarrow> nat \<Rightarrow> 'w console_state \<Rightarrow> 'w console_state option" where
  "drain calls drv 0 cs = Some cs"
| "drain calls drv (Suc i) cs =
     do {
       (t, cs) \<leftarrow> con_tstc calls drv cs;
       cs \<leftarrow> (if t \<noteq> 0 then map_option snd (con_getc calls drv cs) else Some cs);
       drain calls drv i cs
     }"

definition load_serial_bin ::
  "'w console_state env_calls \<Rightarrow> 'w dev_calls \<Rightarrow> serial_drv \<Rightarrow> u32 \<Rightarrow> ('w console_state, 'm) net_state_scheme \<Rightarrow>
   (u32 \<times> ('w console_state, 'm) net_state_scheme) option" where
  "load_serial_bin ca calls drv offset s =
     do {
       (size, k) \<leftarrow> k_recv calls drv offset (kermit_of s);
       cs \<leftarrow> drain calls drv 100 (k_con k);
       (buf, _) \<leftarrow> vsprintf ''%X'' [VInt size];
       s \<leftarrow> setenv ca (s\<lparr>con := cs, ram := k_ram k\<rparr>) ''filesize'' (Some buf);
       Some (offset, s)
     }"

partial_function (option) wait_key :: "'w dev_calls \<Rightarrow> serial_drv \<Rightarrow> int \<Rightarrow> 'w console_state \<Rightarrow> 'w console_state option" where
  "wait_key calls drv key cs =
     Option.bind (con_getc calls drv cs) (\<lambda>(c, cs). if c = key then Some cs else wait_key calls drv key cs)"

text \<open>The other speed is set with \<open>serial_setbrg\<close>, the argument \<open>setbrg\<close>; then a key is waited for.\<close>

definition switch_speed ::
  "'w dev_calls \<Rightarrow> serial_drv \<Rightarrow> ('w \<Rightarrow> 'w) \<Rightarrow> u32 \<Rightarrow> int \<Rightarrow> ('w console_state, 'm) net_state_scheme \<Rightarrow>
   ('w console_state, 'm) net_state_scheme option" where
  "switch_speed calls drv setbrg rate key s =
     do {
       let s = s\<lparr>gd_baudrate := rate\<rparr>;
       cs \<leftarrow> wait_key calls drv key ((con s)\<lparr>world := setbrg (world (con s))\<rparr>);
       Some (s\<lparr>con := cs\<rparr>)
     }"

definition CFG_LOAD_ADDR :: u32 where "CFG_LOAD_ADDR = 0x80100000"

definition load_offset :: "string list \<Rightarrow> ('w console_state, 'm) net_state_scheme \<Rightarrow> u32 option" where
  "load_offset argv s =
     do {
       a \<leftarrow> getenv s ''loadaddr'';
       let offset = (case a of None \<Rightarrow> CFG_LOAD_ADDR | Some a \<Rightarrow> fst (simple_strtoul a 16));
       Some (if length argv \<ge> 2 then fst (simple_strtoul (argv ! 1) 16) else offset)
     }"

definition load_rate :: "string list \<Rightarrow> u32 \<Rightarrow> u32" where
  "load_rate argv current =
     (if length argv = 3 then (let rate = fst (simple_strtoul (argv ! 2) 10) in if rate = 0 then current else rate) else current)"

definition do_load_serial_bin ::
  "'w console_state env_calls \<Rightarrow> 'w dev_calls \<Rightarrow> serial_drv \<Rightarrow> ('w \<Rightarrow> 'w) \<Rightarrow> string list \<Rightarrow> ('w console_state, 'm) net_state_scheme \<Rightarrow>
   (('w console_state, 'm) net_state_scheme \<times> int) option" where
  "do_load_serial_bin ca calls drv setbrg argv s =
     do {
       offset \<leftarrow> load_offset argv s;
       let current_baudrate = gd_baudrate s;
       let load_baudrate = load_rate argv current_baudrate;
       s \<leftarrow> (if load_baudrate \<noteq> current_baudrate then switch_speed calls drv setbrg load_baudrate 13 s else Some s);
       (addr, s) \<leftarrow> load_serial_bin ca calls drv offset s;
       let (s, rcode) = (if addr = 0xFFFFFFFF then (s\<lparr>load_addr := 0\<rparr>, 1) else (s\<lparr>load_addr := addr\<rparr>, 0));
       s \<leftarrow> (if load_baudrate \<noteq> current_baudrate then switch_speed calls drv setbrg current_baudrate 27 s else Some s);
       Some (s, rcode)
     }"

end
