(* ===== verification/Flash.thy ===== *)
theory Flash
  imports UB_Prelude
begin

text \<open>
  \<open>drivers/spi_rt6855A_flash.c\<close> in the configuration it is built with (\<open>BBU_MODE\<close>, \<open>MORE_BUF_MODE\<close>):
  reading, erasing, programming and read-modify-write of the SPI NOR flash. The controller registers and
  the chip behind them are hardware: one transfer of at most 32 bytes, the status poll, write enable,
  write disable and unprotect are the parameters collected in \<open>nor_ops\<close>. What the data sheets of NOR
  chips promise about them is the locale \<open>nor_chip\<close>: programming only clears bits, and it and erasing
  work only while the write-enable latch is set.
\<close>

subsection \<open>The driver\<close>

record 'f nor_ops =
  nor_read :: "'f \<Rightarrow> nat \<Rightarrow> nat \<Rightarrow> u8 list option"
  nor_prog :: "'f \<Rightarrow> nat \<Rightarrow> u8 list \<Rightarrow> 'f"
  nor_erase :: "'f \<Rightarrow> nat \<Rightarrow> 'f"
  nor_wren :: "'f \<Rightarrow> 'f"
  nor_wrdi :: "'f \<Rightarrow> 'f"
  nor_unprotect :: "'f \<Rightarrow> 'f"
  nor_ready :: "'f \<Rightarrow> nat \<Rightarrow> 'f \<times> bool"

record chip_info =
  sector_size :: nat
  n_sectors :: nat
  addr4b :: bool

definition FLASH_PAGESIZE :: nat where "FLASH_PAGESIZE = 256"

definition CFG_BOOTLOADER_SIZE :: nat where "CFG_BOOTLOADER_SIZE = 0x30000"
definition CFG_CONFIG_SIZE :: nat where "CFG_CONFIG_SIZE = 0x10000"
definition CFG_FACTORY_SIZE :: nat where "CFG_FACTORY_SIZE = 0x10000"

definition raspi_erase_sector :: "'f nor_ops \<Rightarrow> chip_info \<Rightarrow> 'f \<Rightarrow> nat \<Rightarrow> 'f \<times> int" where
  "raspi_erase_sector ops ci f offset =
     (let (f, ok) = nor_ready ops f 950 in
      if \<not> ok then (f, - 1)
      else (let f = nor_unprotect ops (nor_wren ops f);
                f = (if addr4b ci then nor_wren ops f else f);
                f = nor_erase ops f offset;
                f = fst (nor_ready ops f 950)
            in (nor_wrdi ops f, 0)))"

text \<open>With a sector size of 0 the loop would never end; that is \<open>None\<close>.\<close>

function raspi_erase :: "'f nor_ops \<Rightarrow> chip_info \<Rightarrow> 'f \<Rightarrow> nat \<Rightarrow> int \<Rightarrow> ('f \<times> int) option" where
  "raspi_erase ops ci f offs len =
     (if len \<le> 0 then Some (f, 0)
      else if sector_size ci = 0 then None
      else (let (f, r) = raspi_erase_sector ops ci f offs in
            if r \<noteq> 0 then Some (f, - 1)
            else raspi_erase ops ci f (offs + sector_size ci) (len - int (sector_size ci))))"
  by pat_completeness auto
termination by (relation "measure (\<lambda>(_, _, _, _, len). nat len)") auto

declare raspi_erase.simps [simp del]

function read_loop :: "'f nor_ops \<Rightarrow> 'f \<Rightarrow> nat \<Rightarrow> nat \<Rightarrow> u8 list \<Rightarrow> u8 list" where
  "read_loop ops f from len buf =
     (if len \<le> 32
      then (case nor_read ops f from len of None \<Rightarrow> buf | Some bs \<Rightarrow> buf @ bs)
      else (case nor_read ops f from 32 of
              None \<Rightarrow> buf
            | Some bs \<Rightarrow> read_loop ops f (from + 32) (len - 32) (buf @ bs)))"
  by pat_completeness auto
termination by (relation "measure (\<lambda>(_, _, _, len, _). len)") auto

declare read_loop.simps [simp del]

text \<open>What is in the buffer; the return value is its length, or -1.\<close>

definition raspi_read :: "'f nor_ops \<Rightarrow> 'f \<Rightarrow> nat \<Rightarrow> nat \<Rightarrow> 'f \<times> u8 list \<times> int" where
  "raspi_read ops f from len =
     (if len = 0 then (f, [], 0)
      else (let (f, ok) = nor_ready ops f 1 in
            if \<not> ok then (f, [], - 1)
            else (let buf = read_loop ops f from len [] in (f, buf, int (length buf)))))"

function prog_chunks :: "'f nor_ops \<Rightarrow> 'f \<Rightarrow> nat \<Rightarrow> u8 list \<Rightarrow> 'f" where
  "prog_chunks ops f wrto bs =
     (if length bs \<le> 32 then nor_prog ops f wrto bs
      else (let f = nor_prog ops f wrto (take 32 bs);
                f = nor_wren ops (fst (nor_ready ops (nor_wrdi ops f) 100))
            in prog_chunks ops f (wrto + 32) (drop 32 bs)))"
  by pat_completeness auto
termination by (relation "measure (\<lambda>(_, _, _, bs). length bs)") auto

declare prog_chunks.simps [simp del]

function write_pages :: "'f nor_ops \<Rightarrow> 'f \<Rightarrow> nat \<Rightarrow> nat \<Rightarrow> u8 list \<Rightarrow> nat \<Rightarrow> 'f \<times> nat" where
  "write_pages ops f page_offset to bs retlen =
     (if bs = [] \<or> FLASH_PAGESIZE \<le> page_offset then (f, retlen)
      else (let page_size = min (length bs) (FLASH_PAGESIZE - page_offset);
                f = nor_unprotect ops (nor_wren ops (fst (nor_ready ops f 3)));
                f = prog_chunks ops f to (take page_size bs)
            in write_pages ops f 0 (to + page_size) (drop page_size bs) (retlen + page_size)))"
  by pat_completeness auto
termination by (relation "measure (\<lambda>(_, _, _, _, bs, _). length bs)") (auto simp: min_def)

declare write_pages.simps [simp del]

definition raspi_write :: "'f nor_ops \<Rightarrow> chip_info \<Rightarrow> 'f \<Rightarrow> u8 list \<Rightarrow> nat \<Rightarrow> 'f \<times> int" where
  "raspi_write ops ci f buf to =
     (if buf = [] then (f, 0)
      else if to + length buf > sector_size ci * n_sectors ci then (f, - 1)
      else (let (f, ok) = nor_ready ops f 2 in
            if \<not> ok then (f, - 1)
            else (let (f, retlen) = write_pages ops f (to mod FLASH_PAGESIZE) to buf 0
                  in (nor_wrdi ops (fst (nor_ready ops f 100)), int retlen))))"

text \<open>One round of \<open>raspi_erase_write\<close>: the state, a negative error code or the number of bytes done.
  \<open>malloc_ok\<close> says whether the two block buffers can be had, \<open>check\<close> is \<open>RALINK_SPI_UPGRADE_CHECK\<close>.\<close>

definition write_piece ::
  "'f nor_ops \<Rightarrow> chip_info \<Rightarrow> bool \<Rightarrow> bool \<Rightarrow> 'f \<Rightarrow> u8 list \<Rightarrow> nat \<Rightarrow> ('f \<times> (int + nat)) option" where
  "write_piece ops ci malloc_ok check f buf offs =
     (let blocksize = sector_size ci;
          blockaddr = offs - offs mod blocksize;
          piece = offs mod blocksize;
          piece_size = min (length buf) (blocksize - piece)
      in if \<not> malloc_ok then Some (f, Inl (- 1))
      else (let (f, block, r) = raspi_read ops f blockaddr blocksize in
        if r \<noteq> int blocksize then Some (f, Inl (- 2))
        else (let block = take piece block @ take piece_size buf @ drop (piece + piece_size) block in
          case raspi_erase ops ci f blockaddr (int blocksize) of
            None \<Rightarrow> None
          | Some (f, r) \<Rightarrow>
            if r \<noteq> 0 then Some (f, Inl (- 3))
            else (let (f, r) = raspi_write ops ci f block blockaddr in
              if r \<noteq> int blocksize then Some (f, Inl (- 4))
              else if \<not> check then Some (f, Inr piece_size)
              else (let (f, temp, r) = raspi_read ops f blockaddr blocksize in
                if r \<noteq> int blocksize then Some (f, Inl (- 2))
                else if temp \<noteq> block then Some (f, Inl (- 2))
                else Some (f, Inr piece_size))))))"

fun check_blocks :: "'f nor_ops \<Rightarrow> 'f \<Rightarrow> nat \<Rightarrow> nat \<Rightarrow> u8 list \<Rightarrow> nat \<Rightarrow> 'f \<times> bool" where
  "check_blocks ops f blocksize offs buf 0 = (f, True)"
| "check_blocks ops f blocksize offs buf (Suc n) =
     (let (f, temp, r) = raspi_read ops f offs blocksize in
      if r \<noteq> int blocksize then (f, False)
      else if temp \<noteq> take blocksize buf then (f, False)
      else check_blocks ops f blocksize (offs + blocksize) (drop blocksize buf) n)"

definition write_aligned ::
  "'f nor_ops \<Rightarrow> chip_info \<Rightarrow> bool \<Rightarrow> bool \<Rightarrow> 'f \<Rightarrow> u8 list \<Rightarrow> nat \<Rightarrow> ('f \<times> (int + nat)) option" where
  "write_aligned ops ci malloc_ok check f buf offs =
     (let blocksize = sector_size ci;
          aligned_size = length buf - length buf mod blocksize
      in if \<not> malloc_ok then Some (f, Inl (- 1))
      else (case raspi_erase ops ci f offs (int aligned_size) of
          None \<Rightarrow> None
        | Some (f, r) \<Rightarrow>
          if r \<noteq> 0 then Some (f, Inl (- 1))
          else (let (f, r) = raspi_write ops ci f (take aligned_size buf) offs in
            if r \<noteq> int aligned_size then Some (f, Inl (- 1))
            else if \<not> check then Some (f, Inr aligned_size)
            else (let (f, ok) = check_blocks ops f blocksize offs buf (aligned_size div blocksize) in
              if ok then Some (f, Inr aligned_size) else Some (f, Inl (- 2))))))"

lemma write_piece_progress:
  "write_piece ops ci m c f buf offs = Some (f', Inr n) \<Longrightarrow> n = min (length buf) (sector_size ci - offs mod sector_size ci)"
  by (auto simp: write_piece_def Let_def split: if_splits prod.splits option.splits)

lemma write_aligned_progress:
  "write_aligned ops ci m c f buf offs = Some (f', Inr n) \<Longrightarrow> n = length buf - length buf mod sector_size ci"
  by (auto simp: write_aligned_def Let_def split: if_splits prod.splits option.splits)

function erase_write_loop ::
  "'f nor_ops \<Rightarrow> chip_info \<Rightarrow> bool \<Rightarrow> bool \<Rightarrow> 'f \<Rightarrow> u8 list \<Rightarrow> nat \<Rightarrow> ('f \<times> int) option" where
  "erase_write_loop ops ci m c f buf offs =
     (if buf = [] then Some (f, 0)
      else if sector_size ci = 0 then None
      else (case (if offs mod sector_size ci \<noteq> 0 \<or> length buf < sector_size ci
                  then write_piece ops ci m c f buf offs else write_aligned ops ci m c f buf offs) of
              None \<Rightarrow> None
            | Some (f, Inl e) \<Rightarrow> Some (f, e)
            | Some (f, Inr n) \<Rightarrow> erase_write_loop ops ci m c f (drop n buf) (offs + n)))"
  by pat_completeness auto
termination
proof (relation "measure (\<lambda>(_, _, _, _, _, buf, _). length buf)", simp, goal_cases)
  case (1 ops ci m c f buf offs r x f' n)
  then have "0 < n"
  proof (cases "offs mod sector_size ci \<noteq> 0 \<or> length buf < sector_size ci")
    case True
    with 1 have "n = min (length buf) (sector_size ci - offs mod sector_size ci)"
      by (auto dest!: sym [of "Some _"] write_piece_progress split: if_splits)
    with 1 show ?thesis by simp
  next
    case False
    with 1 have "n = length buf - length buf mod sector_size ci"
      by (auto dest!: sym [of "Some _"] write_aligned_progress)
    moreover have "length buf mod sector_size ci < sector_size ci" using 1 by simp
    ultimately show ?thesis using False by linarith
  qed
  with 1 show ?case by simp
qed

declare erase_write_loop.simps [simp del]

definition raspi_erase_write ::
  "'f nor_ops \<Rightarrow> chip_info \<Rightarrow> bool \<Rightarrow> bool \<Rightarrow> 'f \<Rightarrow> u8 list \<Rightarrow> nat \<Rightarrow> ('f \<times> int) option" where
  "raspi_erase_write ops ci malloc_ok check f buf offs =
     (if int (length buf) > int (sector_size ci * n_sectors ci) - int (CFG_BOOTLOADER_SIZE + CFG_CONFIG_SIZE + CFG_FACTORY_SIZE)
      then Some (f, - 1)
      else erase_write_loop ops ci malloc_ok check f buf offs)"

subsection \<open>The contract of the chip\<close>

definition prog_cells :: "(nat \<Rightarrow> u8) \<Rightarrow> nat \<Rightarrow> u8 list \<Rightarrow> nat \<Rightarrow> u8" where
  "prog_cells c a bs x = (if a \<le> x \<and> x < a + length bs then c x AND bs ! (x - a) else c x)"

definition erase_cells :: "(nat \<Rightarrow> u8) \<Rightarrow> nat \<Rightarrow> nat \<Rightarrow> nat \<Rightarrow> u8" where
  "erase_cells c a n x = (if a \<le> x \<and> x < a + n then 0xff else c x)"

definition set_cells :: "(nat \<Rightarrow> u8) \<Rightarrow> nat \<Rightarrow> u8 list \<Rightarrow> nat \<Rightarrow> u8" where
  "set_cells c a bs x = (if a \<le> x \<and> x < a + length bs then bs ! (x - a) else c x)"

lemma prog_cells_append: "prog_cells (prog_cells c a bs) (a + length bs) cs = prog_cells c a (bs @ cs)"
  by (rule ext) (auto simp: prog_cells_def nth_append)

lemma set_cells_append: "set_cells (set_cells c a bs) (a + length bs) cs = set_cells c a (bs @ cs)"
  by (rule ext) (auto simp: set_cells_def nth_append)

lemma erase_cells_append: "erase_cells (erase_cells c a m) (a + m) n = erase_cells c a (m + n)"
  by (rule ext) (auto simp: erase_cells_def)

lemma prog_erased: "length bs \<le> n \<Longrightarrow> prog_cells (erase_cells c a n) a bs = set_cells (erase_cells c a n) a bs"
  by (rule ext) (auto simp: prog_cells_def erase_cells_def set_cells_def)

lemma set_over_erased: "set_cells (erase_cells c a (length bs)) a bs = set_cells c a bs"
  by (rule ext) (auto simp: erase_cells_def set_cells_def)

locale nor_chip =
  fixes ops :: "'f nor_ops"
    and cells :: "'f \<Rightarrow> nat \<Rightarrow> u8"
    and wel :: "'f \<Rightarrow> bool"
    and prot :: "'f \<Rightarrow> bool"
    and ssize :: nat
  assumes ready: "snd (nor_ready ops f k)" "cells (fst (nor_ready ops f k)) = cells f"
      "wel (fst (nor_ready ops f k)) = wel f" "prot (fst (nor_ready ops f k)) = prot f"
    and wren: "wel (nor_wren ops f)" "cells (nor_wren ops f) = cells f" "prot (nor_wren ops f) = prot f"
    and wrdi: "cells (nor_wrdi ops f) = cells f" "prot (nor_wrdi ops f) = prot f"
    and unprotect: "\<not> prot f \<Longrightarrow> wel (nor_unprotect ops f) = wel f" "cells (nor_unprotect ops f) = cells f"
      "\<not> prot (nor_unprotect ops f)"
    and read: "n \<le> 32 \<Longrightarrow> nor_read ops f a n = Some (map (cells f) [a..<a + n])"
    and prog: "wel f \<Longrightarrow> \<not> prot f \<Longrightarrow> length bs \<le> 32 \<Longrightarrow> a mod 256 + length bs \<le> 256 \<Longrightarrow>
      cells (nor_prog ops f a bs) = prog_cells (cells f) a bs" "prot (nor_prog ops f a bs) = prot f"
    and erase: "wel f \<Longrightarrow> \<not> prot f \<Longrightarrow>
      cells (nor_erase ops f a) = erase_cells (cells f) (a - a mod ssize) ssize" "prot (nor_erase ops f a) = prot f"
begin

lemmas chip_simps = ready wren wrdi unprotect

lemma read_loop_cells: "read_loop ops f fr len buf = buf @ map (cells f) [fr..<fr + len]"
proof (induction len arbitrary: fr buf rule: less_induct)
  case (less len)
  show ?case
  proof (cases "len \<le> 32")
    case True then show ?thesis by (subst read_loop.simps) (simp add: read)
  next
    case False
    then have "[fr..<fr + len] = [fr..<fr + 32] @ [fr + 32..<fr + 32 + (len - 32)]"
      using upt_add_eq_append [of fr "fr + 32" "len - 32"] by simp
    with False less [of "len - 32"] show ?thesis by (subst read_loop.simps) (simp add: read del: upt_Suc)
  qed
qed

lemma raspi_read_cells:
  "\<exists>f'. raspi_read ops f fr len = (f', map (cells f) [fr..<fr + len], int len) \<and>
     cells f' = cells f \<and> prot f' = prot f"
  using ready [of f 1] by (auto simp: raspi_read_def Let_def read_loop_cells split: prod.splits)

lemma prog_chunks_cells:
  "wel f \<Longrightarrow> \<not> prot f \<Longrightarrow> a mod 256 + length bs \<le> 256 \<Longrightarrow>
   cells (prog_chunks ops f a bs) = prog_cells (cells f) a bs \<and> prot (prog_chunks ops f a bs) = prot f"
proof (induction bs arbitrary: f a rule: length_induct)
  case (1 bs)
  show ?case
  proof (cases "length bs \<le> 32")
    case True with 1 show ?thesis by (subst (1 2) prog_chunks.simps) (simp add: prog)
  next
    case False
    define g where "g = nor_wren ops (fst (nor_ready ops (nor_wrdi ops (nor_prog ops f a (take 32 bs))) 100))"
    have g: "wel g" "\<not> prot g" "cells g = prog_cells (cells f) a (take 32 bs)"
      using 1 False by (simp_all add: g_def chip_simps prog)
    have "(a + 32) mod 256 = (a mod 256 + 32) mod 256" by (simp add: mod_add_left_eq)
    then have "(a + 32) mod 256 = a mod 256 + 32" using 1(4) False by simp
    then have "cells (prog_chunks ops g (a + 32) (drop 32 bs)) = prog_cells (cells g) (a + 32) (drop 32 bs) \<and>
        prot (prog_chunks ops g (a + 32) (drop 32 bs)) = prot g"
      using 1(1, 4) g(1, 2) False by simp
    moreover have "prog_cells (prog_cells (cells f) a (take 32 bs)) (a + 32) (drop 32 bs) = prog_cells (cells f) a bs"
      using prog_cells_append [of "cells f" a "take 32 bs" "drop 32 bs"] False by simp
    ultimately show ?thesis using False g 1(3) by (subst (1 2) prog_chunks.simps) (simp add: Let_def g_def [symmetric])
  qed
qed

lemma write_pages_cells:
  "off = a mod 256 \<Longrightarrow> \<not> prot f \<Longrightarrow>
   \<exists>f'. write_pages ops f off a bs ret = (f', ret + length bs) \<and> cells f' = prog_cells (cells f) a bs \<and> \<not> prot f'"
proof (induction bs arbitrary: f off a ret rule: length_induct)
  case (1 bs)
  show ?case
  proof (cases "bs = []")
    case True
    then show ?thesis using 1 by (subst write_pages.simps) (auto simp: prog_cells_def fun_eq_iff)
  next
    case False
    have off: "off < 256" using 1 by simp
    define n where "n = min (length bs) (256 - off)"
    define g where "g = prog_chunks ops (nor_unprotect ops (nor_wren ops (fst (nor_ready ops f 3)))) a (take n bs)"
    have n: "0 < n" "n \<le> length bs" "off + n \<le> 256" using False off by (auto simp: n_def)
    have g: "cells g = prog_cells (cells f) a (take n bs)" "\<not> prot g"
      using prog_chunks_cells [of "nor_unprotect ops (nor_wren ops (fst (nor_ready ops f 3)))" a "take n bs"] 1 n
      by (simp_all add: g_def chip_simps min_absorb2)
    have step: "write_pages ops f off a bs ret = write_pages ops g 0 (a + n) (drop n bs) (ret + n)"
      using False off by (subst write_pages.simps) (simp add: Let_def FLASH_PAGESIZE_def n_def g_def)
    show ?thesis
    proof (cases "drop n bs = []")
      case True
      then have "write_pages ops g 0 (a + n) (drop n bs) (ret + n) = (g, ret + n)"
        by (subst write_pages.simps) simp
      moreover have "n = length bs" using True n by simp
      ultimately show ?thesis using step g by simp
    next
      case rest: False
      then have "n = 256 - off" by (auto simp: n_def min_def split: if_splits)
      then have "(a + n) mod 256 = 0" using 1 off by (metis add.commute le_add_diff_inverse less_imp_le_nat mod_add_right_eq mod_self)
      then obtain f' where f': "write_pages ops g 0 (a + n) (drop n bs) (ret + n) = (f', ret + n + length (drop n bs))"
        "cells f' = prog_cells (cells g) (a + n) (drop n bs)" "\<not> prot f'"
        using 1(1) n g(2) False by (metis diff_less length_drop length_greater_0_conv)
      moreover have "prog_cells (prog_cells (cells f) a (take n bs)) (a + n) (drop n bs) = prog_cells (cells f) a bs"
        using prog_cells_append [of "cells f" a "take n bs" "drop n bs"] n by (simp add: min_absorb2)
      ultimately show ?thesis using step g n by simp
    qed
  qed
qed

lemma raspi_write_cells:
  assumes "\<not> prot f" "a + length bs \<le> sector_size ci * n_sectors ci"
  shows "\<exists>f'. raspi_write ops ci f bs a = (f', int (length bs)) \<and> cells f' = prog_cells (cells f) a bs \<and> \<not> prot f'"
proof (cases "bs = []")
  case True
  with assms show ?thesis by (auto simp: raspi_write_def prog_cells_def fun_eq_iff)
next
  case False
  obtain g where g: "nor_ready ops f 2 = (g, True)" "cells g = cells f" "\<not> prot g"
    using ready [of f 2] assms(1) by (cases "nor_ready ops f 2") auto
  obtain h where "write_pages ops g (a mod 256) a bs 0 = (h, 0 + length bs)" "cells h = prog_cells (cells g) a bs" "\<not> prot h"
    using write_pages_cells [OF refl g(3)] by blast
  with False g assms(2) show ?thesis by (auto simp: raspi_write_def FLASH_PAGESIZE_def chip_simps)
qed

lemma raspi_erase_cells:
  "sector_size ci = ssize \<Longrightarrow> 0 < ssize \<Longrightarrow> a mod ssize = 0 \<Longrightarrow> \<not> prot f \<Longrightarrow>
   \<exists>f'. raspi_erase ops ci f a (int (k * ssize)) = Some (f', 0) \<and> cells f' = erase_cells (cells f) a (k * ssize) \<and> \<not> prot f'"
proof (induction k arbitrary: f a)
  case 0 then show ?case by (subst raspi_erase.simps) (auto simp: erase_cells_def fun_eq_iff)
next
  case (Suc k)
  obtain g where g: "raspi_erase_sector ops ci f a = (g, 0)" "cells g = erase_cells (cells f) a ssize" "\<not> prot g"
    using Suc.prems ready [of f 950]
    by (cases "nor_ready ops f 950") (auto simp: raspi_erase_sector_def Let_def chip_simps erase)
  have al: "(a + ssize) mod ssize = 0" using Suc.prems by simp
  obtain f' where f': "raspi_erase ops ci g (a + ssize) (int (k * ssize)) = Some (f', 0)"
    "cells f' = erase_cells (cells g) (a + ssize) (k * ssize)" "\<not> prot f'"
    using Suc.IH [OF Suc.prems(1, 2) al g(3)] by metis
  have "raspi_erase ops ci f a (int (Suc k * ssize)) = raspi_erase ops ci g (a + ssize) (int (k * ssize))"
  proof -
    have "\<not> int (Suc k * ssize) \<le> 0" "int (Suc k * ssize) - int ssize = int (k * ssize)" "ssize \<noteq> 0"
      using Suc.prems by (simp_all del: of_nat_mult)
    with g Suc.prems(1) show ?thesis by (subst raspi_erase.simps) (simp only: if_False Let_def prod.case, simp)
  qed
  with f' g erase_cells_append [of "cells f" a ssize "k * ssize"] show ?case by simp
qed

lemma write_piece_cells:
  assumes ci: "sector_size ci = ssize" "0 < ssize" and np: "\<not> prot f"
    and fits: "offs + length buf \<le> ssize * n_sectors ci" and ne: "buf \<noteq> []"
  shows "\<exists>f'. write_piece ops ci True check f buf offs = Some (f', Inr (min (length buf) (ssize - offs mod ssize))) \<and>
    cells f' = set_cells (cells f) offs (take (min (length buf) (ssize - offs mod ssize)) buf) \<and> \<not> prot f'"
proof -
  define b where "b = offs - offs mod ssize"
  define p where "p = offs mod ssize"
  define n where "n = min (length buf) (ssize - p)"
  have p: "p < ssize" "offs = b + p" "b mod ssize = 0" using ci by (simp_all add: p_def b_def minus_mod_eq_mult_div)
  have n: "0 < n" "n \<le> length buf" "p + n \<le> ssize" using ne p by (auto simp: n_def)
  define old where "old = map (cells f) [b..<b + ssize]"
  define block where "block = take p old @ take n buf @ drop (p + n) old"
  have len: "length block = ssize" using n p by (simp add: block_def old_def)
  have "b div ssize < n_sectors ci"
  proof -
    have "b + p < ssize * n_sectors ci" using fits n p by linarith
    then have "b < n_sectors ci * ssize" by (simp add: mult.commute)
    then show ?thesis by (simp add: less_mult_imp_div_less)
  qed
  then have "(b div ssize + 1) * ssize \<le> n_sectors ci * ssize" by (intro mult_le_mono1) simp
  then have room: "b + ssize \<le> ssize * n_sectors ci" 
    using div_mult_mod_eq [of b ssize] p(3) by (simp add: mult.commute)
  obtain f1 where f1: "raspi_read ops f b ssize = (f1, old, int ssize)" "cells f1 = cells f" "\<not> prot f1"
    using raspi_read_cells [of f b ssize] np by (auto simp: old_def)
  obtain f2 where f2: "raspi_erase ops ci f1 b (int ssize) = Some (f2, 0)" "cells f2 = erase_cells (cells f) b ssize" "\<not> prot f2"
    using raspi_erase_cells [OF ci p(3) f1(3), of 1] f1 by auto
  obtain f3 where f3: "raspi_write ops ci f2 block b = (f3, int ssize)" "cells f3 = prog_cells (cells f2) b block" "\<not> prot f3"
    using raspi_write_cells [OF f2(3), of b block ci] len room ci by auto
  have "prog_cells (erase_cells (cells f) b ssize) b block = set_cells (cells f) b block"
    using prog_erased [of block ssize "cells f" b] set_over_erased [of "cells f" b block] len by simp
  also have "\<dots> = set_cells (cells f) offs (take n buf)"
    using n p by (auto simp: fun_eq_iff set_cells_def block_def old_def nth_append)
  finally have c3: "cells f3 = set_cells (cells f) offs (take n buf)" using f3 f2 by simp
  obtain f4 where f4: "raspi_read ops f3 b ssize = (f4, map (cells f3) [b..<b + ssize], int ssize)" "cells f4 = cells f3" "\<not> prot f4"
    using raspi_read_cells [of f3 b ssize] f3 by auto
  have same: "map (cells f3) [b..<b + ssize] = block"
    using f3 f2 len \<open>prog_cells (erase_cells (cells f) b ssize) b block = set_cells (cells f) b block\<close>
    by (intro nth_equalityI) (auto simp: set_cells_def)
  have "write_piece ops ci True check f buf offs = Some (if check then f4 else f3, Inr n)"
    unfolding write_piece_def Let_def ci(1) b_def [symmetric] unfolding p_def [symmetric] n_def [symmetric]
    by (simp add: f1(1) f2(1) f3(1) f4(1) same block_def [symmetric])
  then show ?thesis
    using f3(3) f4(2, 3) c3 by (simp add: p_def [symmetric] n_def [symmetric])
qed

lemma check_blocks_ok:
  "map (cells f) [a..<a + k * bsz] = take (k * bsz) buf \<Longrightarrow> k * bsz \<le> length buf \<Longrightarrow> \<not> prot f \<Longrightarrow>
   \<exists>f'. check_blocks ops f bsz a buf k = (f', True) \<and> cells f' = cells f \<and> \<not> prot f'"
proof (induction k arbitrary: f a buf)
  case (Suc k)
  obtain f1 where f1: "raspi_read ops f a bsz = (f1, map (cells f) [a..<a + bsz], int bsz)" "cells f1 = cells f" "\<not> prot f1"
    using raspi_read_cells [of f a bsz] Suc.prems by auto
  have spl: "[a..<a + Suc k * bsz] = [a..<a + bsz] @ [a + bsz..<a + bsz + k * bsz]"
    using upt_add_eq_append [of a "a + bsz" "k * bsz"] by (simp add: add.assoc)
  have "take (Suc k * bsz) buf = take bsz buf @ take (k * bsz) (drop bsz buf)"
    by (simp add: take_add)
  moreover have "length (take bsz buf) = bsz" using Suc.prems by simp
  ultimately have parts: "map (cells f) [a..<a + bsz] = take bsz buf"
    "map (cells f) [a + bsz..<a + bsz + k * bsz] = take (k * bsz) (drop bsz buf)"
    using Suc.prems(1) unfolding spl by (simp_all add: append_eq_append_conv)
  then show ?case using Suc.IH [of f1 "a + bsz" "drop bsz buf"] f1 Suc.prems by auto
qed auto

lemma write_aligned_cells:
  assumes ci: "sector_size ci = ssize" "0 < ssize" and np: "\<not> prot f" and al: "offs mod ssize = 0"
    and fits: "offs + length buf \<le> ssize * n_sectors ci"
  shows "\<exists>f'. write_aligned ops ci True check f buf offs = Some (f', Inr (length buf - length buf mod ssize)) \<and>
    cells f' = set_cells (cells f) offs (take (length buf - length buf mod ssize) buf) \<and> \<not> prot f'"
proof -
  define k where "k = length buf div ssize"
  define n where "n = k * ssize"
  have n: "length buf - length buf mod ssize = n" "n \<le> length buf"
    by (simp_all add: n_def k_def minus_mod_eq_div_mult)
  have "n div ssize = k" using ci by (simp add: n_def)
  obtain f2 where f2: "raspi_erase ops ci f offs (int n) = Some (f2, 0)" "cells f2 = erase_cells (cells f) offs n" "\<not> prot f2"
    using raspi_erase_cells [OF ci al np, of k] by (auto simp: n_def)
  obtain f3 where f3: "raspi_write ops ci f2 (take n buf) offs = (f3, int n)" "cells f3 = prog_cells (cells f2) offs (take n buf)" "\<not> prot f3"
    using raspi_write_cells [OF f2(3), of offs "take n buf" ci] n fits ci by auto
  have c3: "cells f3 = set_cells (cells f) offs (take n buf)"
    using prog_erased [of "take n buf" n "cells f" offs] set_over_erased [of "cells f" offs "take n buf"] f2 f3 n by (simp add: min_absorb2)
  have "map (cells f3) [offs..<offs + k * ssize] = take (k * ssize) buf"
    using c3 n by (intro nth_equalityI) (auto simp: set_cells_def n_def)
  then obtain f4 where f4: "check_blocks ops f3 ssize offs buf k = (f4, True)" "cells f4 = cells f3" "\<not> prot f4"
    using check_blocks_ok [of f3 offs k ssize buf] f3 n by (auto simp: n_def)
  have "write_aligned ops ci True check f buf offs = Some (if check then f4 else f3, Inr n)"
    unfolding write_aligned_def Let_def ci(1) n(1) \<open>n div ssize = k\<close> by (simp add: f2(1) f3(1) f4(1))
  then show ?thesis unfolding n(1) using f3(3) f4(2, 3) c3 by simp
qed

lemma erase_write_loop_cells:
  assumes ci: "sector_size ci = ssize" "0 < ssize"
  shows "\<not> prot f \<Longrightarrow> offs + length buf \<le> ssize * n_sectors ci \<Longrightarrow>
    \<exists>f'. erase_write_loop ops ci True check f buf offs = Some (f', 0) \<and> cells f' = set_cells (cells f) offs buf \<and> \<not> prot f'"
proof (induction buf arbitrary: f offs rule: length_induct)
  case (1 buf)
  show ?case
  proof (cases "buf = []")
    case True then show ?thesis using 1 by (subst erase_write_loop.simps) (auto simp: set_cells_def fun_eq_iff)
  next
    case False
    define n where "n = (if offs mod ssize \<noteq> 0 \<or> length buf < ssize then min (length buf) (ssize - offs mod ssize)
        else length buf - length buf mod ssize)"
    obtain g where g: "(if offs mod ssize \<noteq> 0 \<or> length buf < ssize then write_piece ops ci True check f buf offs
        else write_aligned ops ci True check f buf offs) = Some (g, Inr n)"
      "cells g = set_cells (cells f) offs (take n buf)" "\<not> prot g"
      using write_piece_cells [OF ci 1(2, 3) False, of check] write_aligned_cells [OF ci 1(2) _ 1(3), of check]
      by (cases "offs mod ssize \<noteq> 0 \<or> length buf < ssize") (auto simp: n_def)
    have n: "0 < n" "n \<le> length buf"
      using False ci mod_less_divisor [OF ci(2), of offs] mod_less_divisor [OF ci(2), of "length buf"]
      by (auto simp: n_def)
    obtain f' where "erase_write_loop ops ci True check g (drop n buf) (offs + n) = Some (f', 0)"
      "cells f' = set_cells (cells g) (offs + n) (drop n buf)" "\<not> prot f'"
    proof -
      have "length (drop n buf) < length buf" "offs + n + length (drop n buf) \<le> ssize * n_sectors ci" using n 1(3) by simp_all
      then show ?thesis using 1(1) g(3) that by blast
    qed
    moreover have "set_cells (set_cells (cells f) offs (take n buf)) (offs + n) (drop n buf) = set_cells (cells f) offs buf"
      using set_cells_append [of "cells f" offs "take n buf" "drop n buf"] n by (simp add: min_absorb2)
    ultimately show ?thesis using g False ci by (subst erase_write_loop.simps) simp
  qed
qed

end

subsection \<open>A NOR chip\<close>

text \<open>The behaviour of the serial NOR chips listed in the driver's table: a cell array, the write-enable
  latch, which a program or erase cycle clears, and the block-protect bits. Clearing the protection with a
  status-register write consumes the latch.\<close>

record nor =
  nor_cells :: "nat \<Rightarrow> u8"
  nor_wel :: bool
  nor_prot :: bool

definition nor_device :: "nat \<Rightarrow> nor nor_ops" where
  "nor_device ss = \<lparr>
     nor_read = (\<lambda>f a n. if n \<le> 32 then Some (map (nor_cells f) [a..<a + n]) else None),
     nor_prog = (\<lambda>f a bs. if nor_wel f \<and> \<not> nor_prot f
        then f\<lparr>nor_cells := prog_cells (nor_cells f) a bs, nor_wel := False\<rparr> else f),
     nor_erase = (\<lambda>f a. if nor_wel f \<and> \<not> nor_prot f
        then f\<lparr>nor_cells := erase_cells (nor_cells f) (a - a mod ss) ss, nor_wel := False\<rparr> else f),
     nor_wren = (\<lambda>f. f\<lparr>nor_wel := True\<rparr>),
     nor_wrdi = (\<lambda>f. f\<lparr>nor_wel := False\<rparr>),
     nor_unprotect = (\<lambda>f. if nor_prot f then f\<lparr>nor_prot := False, nor_wel := False\<rparr> else f),
     nor_ready = (\<lambda>f _. (f, True))\<rparr>"

lemma nor_device_chip: "nor_chip (nor_device ss) nor_cells nor_wel nor_prot ss"
  by unfold_locales (auto simp: nor_device_def)

interpretation dev: nor_chip "nor_device ss" nor_cells nor_wel nor_prot ss for ss
  by (rule nor_device_chip)

subsection \<open>Flashing\<close>

text \<open>C25: on a chip that behaves as documented and is not write-protected, \<open>raspi_erase_write\<close> of an image
  that fits returns 0 and leaves exactly the image in the flash: the bytes from \<open>offs\<close> on are the
  buffer, whatever the alignment of its two ends, and every other byte, also in the partly
  overwritten first and last sector, keeps its value.\<close>

theorem erase_write_exact:
  assumes "nor_chip ops cells wel prot ss" "sector_size ci = ss" "0 < ss" "\<not> prot f"
    "offs + length buf \<le> ss * n_sectors ci"
    "length buf + (CFG_BOOTLOADER_SIZE + CFG_CONFIG_SIZE + CFG_FACTORY_SIZE) \<le> ss * n_sectors ci"
  shows "\<exists>f'. raspi_erase_write ops ci True check f buf offs = Some (f', 0) \<and> \<not> prot f' \<and>
    cells f' = (\<lambda>x. if offs \<le> x \<and> x < offs + length buf then buf ! (x - offs) else cells f x)"
proof -
  have room: "\<not> int (length buf) > int (sector_size ci * n_sectors ci) - int (CFG_BOOTLOADER_SIZE + CFG_CONFIG_SIZE + CFG_FACTORY_SIZE)"
    using assms(6) unfolding assms(2) by linarith
  show ?thesis
    using nor_chip.erase_write_loop_cells [OF assms(1-5), of check] room
    by (auto simp: raspi_erase_write_def set_cells_def fun_eq_iff)
qed

theorem erase_write_exact_witness:
  "let f = \<lparr>nor_cells = (\<lambda>_. 7), nor_wel = False, nor_prot = False\<rparr>;
       ci = \<lparr>sector_size = 0x10000, n_sectors = 64, addr4b = False\<rparr> in
   \<exists>f'. raspi_erase_write (nor_device 0x10000) ci True True f [1, 2, 3] 0x50001 = Some (f', 0) \<and> nor_cells f' 0x50000 = 7 \<and>
     nor_cells f' 0x50002 = 2"
  unfolding Let_def
  using erase_write_exact [OF nor_device_chip [of "0x10000"], where ci = "\<lparr>sector_size = 0x10000, n_sectors = 64, addr4b = False\<rparr>"
      and f = "\<lparr>nor_cells = (\<lambda>_. 7), nor_wel = False, nor_prot = False\<rparr>" and offs = "0x50001" and buf = "[1, 2, 3]" and check = True]
  by (auto simp: CFG_BOOTLOADER_SIZE_def CFG_CONFIG_SIZE_def CFG_FACTORY_SIZE_def)

text \<open>When the chip stops answering the status poll, nothing is lost silently: reading, erasing and
  writing a non-empty range all return -1, and erasing and writing leave the chip in the state the poll left.\<close>

theorem raspi_reports_busy:
  assumes "\<And>f k. nor_ready ops f k = (f, False)" "0 < len" "buf \<noteq> []" "0 < sector_size ci"
    "to + length buf \<le> sector_size ci * n_sectors ci"
  shows "raspi_read ops f a len = (f, [], - 1) \<and> raspi_erase ops ci f a (int len) = Some (f, - 1) \<and>
    raspi_write ops ci f buf to = (f, - 1)"
  using assms by (subst raspi_erase.simps) (simp add: raspi_read_def raspi_write_def raspi_erase_sector_def)

theorem raspi_reports_busy_witness:
  "let f = \<lparr>nor_cells = (\<lambda>_. 7), nor_wel = False, nor_prot = False\<rparr>; ops = (nor_device 16)\<lparr>nor_ready := \<lambda>f _. (f, False)\<rparr>
   in raspi_write ops \<lparr>sector_size = 16, n_sectors = 2, addr4b = False\<rparr> f [1] 0 = (f, - 1)"
  using raspi_reports_busy [of "(nor_device 16)\<lparr>nor_ready := \<lambda>f _. (f, False)\<rparr>" 1 "[1]" "\<lparr>sector_size = 16, n_sectors = 2, addr4b = False\<rparr>" 0]
  by (simp add: Let_def)

end
