(* ===== verification/Image.thy ===== *)
theory Image
  imports Flash NetBoot
begin

text \<open>
  Boot images: the header of \<open>include/image.h\<close> as it lies in memory, and the checks \<open>do_bootm\<close>, \<open>image_info\<close>
  (\<open>common/cmd_bootm.c\<close>) and \<open>do_bootm_linux\<close> (\<open>lib_mips/mips_linux.c\<close>) apply to it. The numbers of a header are big-endian, so
  the code reads them through \<open>ntohl\<close>, which swaps the bytes on this CPU. The state of the boot commands extends the state of
  the network code by the header \<open>do_bootm\<close> works on, the flash, and what the kernel is told of the board.
\<close>

subsection \<open>The header\<close>

record image_header =
  ih_magic :: u32
  ih_hcrc :: u32
  ih_time :: u32
  ih_size :: u32
  ih_load :: u32
  ih_ep :: u32
  ih_dcrc :: u32
  ih_os :: u8
  ih_arch :: u8
  ih_type :: u8
  ih_comp :: u8
  ih_name :: "u8 list"

definition IH_OS_LINUX :: u8 where "IH_OS_LINUX = 5"
definition IH_CPU_MIPS :: u8 where "IH_CPU_MIPS = 5"
definition IH_TYPE_STANDALONE :: u8 where "IH_TYPE_STANDALONE = 1"
definition IH_TYPE_KERNEL :: u8 where "IH_TYPE_KERNEL = 2"
definition IH_TYPE_RAMDISK :: u8 where "IH_TYPE_RAMDISK = 3"
definition IH_TYPE_MULTI :: u8 where "IH_TYPE_MULTI = 4"
definition IH_COMP_NONE :: u8 where "IH_COMP_NONE = 0"
definition IH_COMP_LZMA :: u8 where "IH_COMP_LZMA = 3"
definition IH_MAGIC :: u32 where "IH_MAGIC = 0x27051956"
definition IH_NMLEN :: nat where "IH_NMLEN = 32"
definition sizeof_header :: nat where "sizeof_header = 64"

definition ntohl :: "u32 \<Rightarrow> u32" where "ntohl x = byte_swap32 x"

definition word_at :: "u8 list \<Rightarrow> nat \<Rightarrow> u32" where "word_at bs i = of_le32 (take 4 (drop i bs))"

definition header_of_bytes :: "u8 list \<Rightarrow> image_header" where
  "header_of_bytes bs =
     \<lparr>ih_magic = word_at bs 0, ih_hcrc = word_at bs 4, ih_time = word_at bs 8, ih_size = word_at bs 12, ih_load = word_at bs 16,
      ih_ep = word_at bs 20, ih_dcrc = word_at bs 24, ih_os = bs ! 28, ih_arch = bs ! 29, ih_type = bs ! 30, ih_comp = bs ! 31,
      ih_name = take IH_NMLEN (drop 32 bs)\<rparr>"

definition header_bytes :: "image_header \<Rightarrow> u8 list" where
  "header_bytes h = le32 (ih_magic h) @ le32 (ih_hcrc h) @ le32 (ih_time h) @ le32 (ih_size h) @ le32 (ih_load h) @ le32 (ih_ep h) @
     le32 (ih_dcrc h) @ [ih_os h, ih_arch h, ih_type h, ih_comp h] @ ih_name h"

subsection \<open>State\<close>

record ('c, 'f) boot_state = "'c tftp_state" +
  header :: image_header
  nor :: 'f
  ram_size :: u32
  bi_boot_params :: u32
  bi_flashstart :: u32
  bi_flashsize :: u32

definition ram_bytes :: "(u32 \<Rightarrow> u8) \<Rightarrow> u32 \<Rightarrow> nat \<Rightarrow> u8 list" where
  "ram_bytes r a n = map (\<lambda>i. r (a + of_nat i)) [0..<n]"

text \<open>\<open>memmove\<close> between two places of the memory, which the string library shows to copy correctly for every overlap.\<close>

definition ram_move :: "u32 \<Rightarrow> u32 \<Rightarrow> u32 \<Rightarrow> (u32 \<Rightarrow> u8) \<Rightarrow> u32 \<Rightarrow> u8" where
  "ram_move dst src len r = ram_copy dst (\<lambda>i. r (src + of_nat i)) len r"

definition crc_of :: "u8 list \<Rightarrow> ('c, 'm) env_state_scheme \<Rightarrow> u32 \<times> ('c, 'm) env_state_scheme" where
  "crc_of bs s = (let (c, v) = crc32 (crc_st s) 0 bs in (v, s\<lparr>crc_st := c\<rparr>))"

subsection \<open>Checks\<close>

definition CFG_FLASH_BASE :: u32 where "CFG_FLASH_BASE = 0xBC000000"
definition CFG_SPINAND_LOAD_ADDR :: u32 where "CFG_SPINAND_LOAD_ADDR = 0x80C00000"

text \<open>The header copied from memory or, for an address at or above \<open>CFG_FLASH_BASE\<close>, read from the flash. The result of the
  read is not looked at: when the chip stays busy, the header is what it was.\<close>

definition load_header :: "'f nor_ops \<Rightarrow> u32 \<Rightarrow> ('c, 'f, 'm) boot_state_scheme \<Rightarrow> ('c, 'f, 'm) boot_state_scheme" where
  "load_header ops addr s =
     (if addr \<ge> CFG_FLASH_BASE
      then (let (f, bs, _) = raspi_read ops (nor s) (unat (addr - CFG_FLASH_BASE)) sizeof_header;
                hdr = header_of_bytes (bs @ drop (length bs) (header_bytes (header s)))
            in s\<lparr>nor := f, header := hdr\<rparr>)
      else s\<lparr>header := header_of_bytes (ram_bytes (ram s) addr sizeof_header)\<rparr>)"

text \<open>Magic number and checksum of the header, whose checksum field is cleared; 0 when both are right.\<close>

definition check_header :: "('c, 'f, 'm) boot_state_scheme \<Rightarrow> ('c, 'f, 'm) boot_state_scheme \<times> int" where
  "check_header s =
     (if ntohl (ih_magic (header s)) \<noteq> IH_MAGIC then (s, 1)
      else (let checksum = ntohl (ih_hcrc (header s));
                s = s\<lparr>header := (header s)\<lparr>ih_hcrc := 0\<rparr>\<rparr>;
                (v, s) = crc_of (header_bytes (header s)) s
            in if v \<noteq> checksum then (s, 1) else (s, 0)))"

definition load_data :: "'f nor_ops \<Rightarrow> u32 \<Rightarrow> ('c, 'f, 'm) boot_state_scheme \<Rightarrow> u32 \<times> u32 \<times> ('c, 'f, 'm) boot_state_scheme" where
  "load_data ops addr s =
     (let data = addr + of_nat sizeof_header;
          len = ntohl (ih_size (header s))
      in if addr \<ge> CFG_FLASH_BASE
         then (let (f, bs, _) = raspi_read ops (nor s) (unat (data - CFG_FLASH_BASE)) (unat len)
               in (CFG_SPINAND_LOAD_ADDR, len,
                   s\<lparr>nor := f, ram := ram_copy CFG_SPINAND_LOAD_ADDR (\<lambda>i. bs ! i) (of_nat (length bs)) (ram s)\<rparr>))
         else (data, len, s))"

definition check_data :: "u32 \<Rightarrow> u32 \<Rightarrow> ('c, 'f, 'm) boot_state_scheme \<Rightarrow> ('c, 'f, 'm) boot_state_scheme \<times> int" where
  "check_data data len s =
     (let (v, s) = crc_of (ram_bytes (ram s) data (unat len)) s
      in (s, if v \<noteq> ntohl (ih_dcrc (header s)) then 1 else 0))"

subsection \<open>\<open>iminfo\<close>\<close>

definition image_info :: "u32 \<Rightarrow> ('c, 'f, 'm) boot_state_scheme \<Rightarrow> ('c, 'f, 'm) boot_state_scheme \<times> int" where
  "image_info addr s =
     (let s = s\<lparr>header := header_of_bytes (ram_bytes (ram s) addr sizeof_header)\<rparr>;
          (s, r) = check_header s
      in if r \<noteq> 0 then (s, 1)
         else check_data (addr + of_nat sizeof_header) (ntohl (ih_size (header s))) s)"

fun iminfo_args :: "string list \<Rightarrow> int \<Rightarrow> ('c, 'f, 'm) boot_state_scheme \<Rightarrow> ('c, 'f, 'm) boot_state_scheme \<times> int" where
  "iminfo_args [] rcode s = (s, rcode)"
| "iminfo_args (a # as) rcode s =
     (let (s, r) = image_info (fst (simple_strtoul a 16)) s in iminfo_args as (if r \<noteq> 0 then 1 else rcode) s)"

definition do_iminfo :: "string list \<Rightarrow> ('c, 'f, 'm) boot_state_scheme \<Rightarrow> ('c, 'f, 'm) boot_state_scheme \<times> int" where
  "do_iminfo argv s = (if length argv < 2 then image_info (load_addr s) s else iminfo_args (tl argv) 0 s)"

end
