(* ===== verification/Bootm.thy ===== *)
theory Bootm
  imports Image
begin

text \<open>
  Starting an image: \<open>do_bootm\<close> of \<open>common/cmd_bootm.c\<close> in the built configuration (no compression or LZMA; stand-alone
  programs and kernels; SPI flash), and \<open>do_bootm_linux\<close> with the arguments and the environment of the kernel in
  \<open>lib_mips/mips_linux.c\<close>. Where control goes is the outcome. The LZMA decoder is the parameter \<open>lzma\<close>, what it does to the memory
  and its result. Messages are left out.
\<close>

datatype boot_outcome =
  Returned int
| Jumped u32
| Started_app u32 "string list"
| Started_kernel u32 int u32 u32
| Reset_board

type_synonym lzma_fn = "u32 \<Rightarrow> u32 \<Rightarrow> u32 \<Rightarrow> (u32 \<Rightarrow> u8) \<Rightarrow> (u32 \<Rightarrow> u8) \<times> int"

subsection \<open>Memory of the kernel's parameters\<close>

text \<open>The parameters are written through physical addresses and read by the kernel through KSEG0; both name the same cell.\<close>

definition KSEG0ADDR :: "u32 \<Rightarrow> u32" where "KSEG0ADDR a = (a AND 0x1fffffff) OR 0x80000000"
definition UNCACHED_SDRAM :: "u32 \<Rightarrow> u32" where "UNCACHED_SDRAM a = a AND 0x1fffffff"

fun put_bytes :: "u32 \<Rightarrow> u8 list \<Rightarrow> (u32 \<Rightarrow> u8) \<Rightarrow> u32 \<Rightarrow> u8" where
  "put_bytes a [] r = r"
| "put_bytes a (b # bs) r = put_bytes (a + 1) bs (r(KSEG0ADDR a := b))"

definition put_word :: "u32 \<Rightarrow> u32 \<Rightarrow> (u32 \<Rightarrow> u8) \<Rightarrow> u32 \<Rightarrow> u8" where "put_word a w r = put_bytes a (le32 w) r"

definition get_word :: "u32 \<Rightarrow> (u32 \<Rightarrow> u8) \<Rightarrow> u32" where
  "get_word a r = of_le32 (map (\<lambda>i. r (KSEG0ADDR (a + of_nat i))) [0..<4])"

subsection \<open>Arguments\<close>

definition LINUX_MAX_ENVS :: nat where "LINUX_MAX_ENVS = 256"
definition LINUX_MAX_ARGS :: nat where "LINUX_MAX_ARGS = 256"

text \<open>\<open>strchr (line + k, c)\<close> as an offset into the line.\<close>

definition strchr_from :: "string \<Rightarrow> nat \<Rightarrow> char \<Rightarrow> nat option" where
  "strchr_from line k c =
     (let i = k + length (takeWhile (\<lambda>x. x \<noteq> c) (drop k line)) in if i < length line then Some i else None)"

text \<open>The blank that ends an argument: a blank between a left quote and its right quote is passed over.\<close>

function quote_loop :: "string \<Rightarrow> nat option \<Rightarrow> nat option \<Rightarrow> nat option" where
  "quote_loop line nxt quote =
     (case (nxt, quote) of
        (Some n, Some q) \<Rightarrow>
          if q < n
          then (case strchr_from line (q + 1) (CHR 0x22) of
                  None \<Rightarrow> None
                | Some r \<Rightarrow> quote_loop line (strchr_from line (r + 1) (CHR '' '')) (strchr_from line (r + 1) (CHR 0x22)))
          else Some n
      | _ \<Rightarrow> nxt)"
  by pat_completeness auto
termination
  by (relation "measure (\<lambda>(line, _, q). case q of None \<Rightarrow> 0 | Some q \<Rightarrow> length line + 1 - q)")
    (auto simp: strchr_from_def Let_def split: if_splits option.splits)

declare quote_loop.simps [simp del]

definition arg_end :: "string \<Rightarrow> nat" where
  "arg_end line =
     (case quote_loop line (strchr_from line 0 (CHR '' '')) (strchr_from line 0 (CHR 0x22)) of None \<Rightarrow> length line | Some n \<Rightarrow> n)"

lemma strchr_from_bound: "strchr_from line k c = Some i \<Longrightarrow> k \<le> i \<and> i < length line"
  by (auto simp: strchr_from_def Let_def split: if_splits)

lemma quote_loop_bound: "quote_loop line n q = Some i \<Longrightarrow> (\<And>j. n = Some j \<Longrightarrow> j < length line) \<Longrightarrow> i < length line"
proof (induction line n q rule: quote_loop.induct)
  case (1 line n q)
  show ?case
  proof (cases n)
    case None with 1(2) show ?thesis by (simp add: quote_loop.simps)
  next
    case (Some m)
    note n = Some
    show ?thesis
    proof (cases q)
      case None with n 1(2, 3) show ?thesis by (simp add: quote_loop.simps)
    next
      case (Some k)
      with n 1 show ?thesis
        by (subst (asm) (2) quote_loop.simps) (auto split: if_splits option.splits, meson strchr_from_bound)
    qed
  qed
qed

lemma arg_end_le: "arg_end line \<le> length line"
  using quote_loop_bound [of line "strchr_from line 0 (CHR '' '')"] strchr_from_bound [of line 0 "CHR '' ''"]
  by (auto simp: arg_end_def less_imp_le split: option.splits)

function params_loop :: "u32 \<Rightarrow> string \<Rightarrow> nat \<Rightarrow> u32 \<Rightarrow> (u32 \<Rightarrow> u8) \<Rightarrow> nat \<times> u32 \<times> (u32 \<Rightarrow> u8)" where
  "params_loop argv line argc argp r =
     (if line = [] \<or> argc \<ge> LINUX_MAX_ARGS then (argc, argp, r)
      else (let n = arg_end line;
                r = put_word (argv + 4 * of_nat argc) argp r;
                r = put_bytes argp (map of_char (take n line) @ [0]) r
            in params_loop argv (drop (if n < length line then n + 1 else n) line) (argc + 1) (argp + of_nat n + 1) r))"
  by pat_completeness auto
termination
  by (relation "measure (\<lambda>(_, line, _). length line)")
    (auto intro!: diff_less simp: Suc_le_eq not_less dest: le_antisym [OF arg_end_le])

declare params_loop.simps [simp del]

record linux_params =
  linux_argc :: nat
  linux_argv :: u32
  linux_env :: u32
  linux_env_p :: u32
  linux_env_idx :: nat

definition linux_params_init :: "u32 \<Rightarrow> string option \<Rightarrow> (u32 \<Rightarrow> u8) \<Rightarrow> linux_params \<times> (u32 \<Rightarrow> u8)" where
  "linux_params_init start commandline r =
     (let r = put_word start 0 r;
          argp = start + 4 * of_nat LINUX_MAX_ARGS;
          (argc, argp, r) = (case commandline of None \<Rightarrow> (1, argp, r) | Some line \<Rightarrow> params_loop start line 1 argp r);
          env = (argp + 15) AND NOT 15;
          r = put_word env 0 r
      in (\<lparr>linux_argc = argc, linux_argv = start, linux_env = env, linux_env_p = env + 4 * of_nat LINUX_MAX_ENVS, linux_env_idx = 0\<rparr>, r))"

definition linux_env_set :: "string \<Rightarrow> string \<Rightarrow> linux_params \<times> (u32 \<Rightarrow> u8) \<Rightarrow> linux_params \<times> (u32 \<Rightarrow> u8)" where
  "linux_env_set env_name env_val st =
     (case st of (p, r) \<Rightarrow>
        if linux_env_idx p < LINUX_MAX_ENVS - 1
        then (let entry = env_name @ ''='' @ env_val;
                  r = put_word (linux_env p + 4 * of_nat (linux_env_idx p)) (linux_env_p p) r;
                  r = put_bytes (linux_env_p p) (map of_char entry @ [0]) r;
                  r = put_word (linux_env p + 4 * of_nat (linux_env_idx p + 1)) 0 r
              in (p\<lparr>linux_env_p := linux_env_p p + of_nat (length entry) + 1, linux_env_idx := linux_env_idx p + 1\<rparr>, r))
        else (p, r))"

subsection \<open>Starting the kernel\<close>

text \<open>The RAM disk: where its data are and how long they are, 0 without one; \<open>None\<close> in the middle is a reset of the
  board. \<open>len_ptr\<close> is the address of the lengths of a multi-file image.\<close>

text \<open>\<open>for (i = 1; len_ptr[i]; ++i) data += 4;\<close>\<close>

partial_function (option) count_lengths :: "(u32 \<Rightarrow> u8) \<Rightarrow> u32 \<Rightarrow> nat \<Rightarrow> nat option" where
  "count_lengths r len_ptr i =
     (if of_le32 (ram_bytes r (len_ptr + 4 * of_nat i) 4) \<noteq> 0 then count_lengths r len_ptr (i + 1) else Some i)"

definition multi_initrd :: "(u32 \<Rightarrow> u8) \<Rightarrow> u32 \<Rightarrow> (u32 \<times> u32) option" where
  "multi_initrd r len_ptr =
     (case count_lengths r len_ptr 1 of
        None \<Rightarrow> None
      | Some i \<Rightarrow>
          (let kern = ntohl (of_le32 (ram_bytes r len_ptr 4));
               tail = kern mod 4;
               data = len_ptr + 8 + 4 * of_nat (i - 1) + kern
           in Some (if tail \<noteq> 0 then data + 4 - tail else data, ntohl (of_le32 (ram_bytes r (len_ptr + 4) 4)))))"

definition find_initrd ::
  "string list \<Rightarrow> u32 \<Rightarrow> bool \<Rightarrow> ('c, 'f, 'm) boot_state_scheme \<Rightarrow> (('c, 'f, 'm) boot_state_scheme \<times> (u32 \<times> u32) option) option" where
  "find_initrd argv len_ptr verify s =
     (if length argv \<ge> 3
      then (let addr = fst (simple_strtoul (argv ! 2) 16);
                s = s\<lparr>header := header_of_bytes (ram_bytes (ram s) addr sizeof_header)\<rparr>;
                (s, r) = check_header s
            in if r \<noteq> 0 then Some (s, None)
               else (let data = addr + of_nat sizeof_header;
                         len = ntohl (ih_size (header s));
                         (s, r) = (if verify then check_data data len s else (s, 0))
                     in if r \<noteq> 0 then Some (s, None)
                        else if ih_os (header s) \<noteq> IH_OS_LINUX \<or> ih_arch (header s) \<noteq> IH_CPU_MIPS \<or> ih_type (header s) \<noteq> IH_TYPE_RAMDISK
                        then Some (s, None)
                        else Some (s, Some (data, len))))
      else if ih_type (header s) = IH_TYPE_MULTI \<and> of_le32 (ram_bytes (ram s) (len_ptr + 4) 4) \<noteq> 0
      then map_option (\<lambda>p. (s, Some p)) (multi_initrd (ram s) len_ptr)
      else Some (s, Some (0, 0)))"

definition sprintf1 :: "string \<Rightarrow> u32 \<Rightarrow> string option" where
  "sprintf1 fmt v = map_option fst (vsprintf fmt [VInt v])"

text \<open>The variables the kernel is given, each formatted into \<open>env_buf\<close>, an array of 12 characters (\<open>None\<close> when it
  does not fit).\<close>

definition env_text :: "string \<Rightarrow> u32 \<Rightarrow> string option" where
  "env_text fmt v = (case sprintf1 fmt v of Some t \<Rightarrow> if length t < 12 then Some t else None | None \<Rightarrow> None)"

fun env_vars :: "(string \<times> string \<times> u32) list \<Rightarrow> linux_params \<times> (u32 \<Rightarrow> u8) \<Rightarrow> (linux_params \<times> (u32 \<Rightarrow> u8)) option" where
  "env_vars [] st = Some st"
| "env_vars ((n, fmt, v) # vs) st =
     (case env_text fmt v of None \<Rightarrow> None | Some t \<Rightarrow> env_vars vs (linux_env_set n t st))"

text \<open>\<open>for (i = from; i < to; i++) p[i] = KSEG0ADDR (p[i]);\<close>\<close>

fun kseg_loop :: "u32 \<Rightarrow> nat list \<Rightarrow> (u32 \<Rightarrow> u8) \<Rightarrow> u32 \<Rightarrow> u8" where
  "kseg_loop p [] r = r"
| "kseg_loop p (i # is) r = kseg_loop p is (put_word (p + 4 * of_nat i) (KSEG0ADDR (get_word (p + 4 * of_nat i) r)) r)"

definition kernel_vars :: "('c, 'f, 'm) boot_state_scheme \<Rightarrow> u32 \<Rightarrow> u32 \<Rightarrow> (string \<times> string \<times> u32) list" where
  "kernel_vars s initrd_start initrd_end =
     [(''memsize'', ''%lu'', drop_bit 20 (ram_size s)),
      (''initrd_start'', ''0x%08X'', UNCACHED_SDRAM initrd_start),
      (''initrd_size'', ''0x%X'', initrd_end - initrd_start),
      (''flash_start'', ''0x%08X'', bi_flashstart s),
      (''flash_size'', ''0x%X'', bi_flashsize s)]"

text \<open>The part of \<open>do_bootm_linux\<close> behind the search for a RAM disk.\<close>

definition launch_kernel ::
  "u32 \<Rightarrow> string option \<Rightarrow> u32 \<Rightarrow> u32 \<Rightarrow> ('c, 'f, 'm) boot_state_scheme \<Rightarrow> (('c, 'f, 'm) boot_state_scheme \<times> boot_outcome) option" where
  "launch_kernel theKernel commandline data len s =
     (let (initrd_start, initrd_end) = (if data \<noteq> 0 then (data, data + len) else (0, 0));
          st = linux_params_init (UNCACHED_SDRAM (bi_boot_params s)) commandline (ram s)
      in case env_vars (kernel_vars s initrd_start initrd_end) st of
           None \<Rightarrow> None
         | Some (p, r) \<Rightarrow>
             (let r = kseg_loop (linux_argv p) [1..<linux_argc p] r;
                  r = kseg_loop (linux_env p) [0..<linux_env_idx p] r
              in Some (s\<lparr>ram := r\<rparr>, Started_kernel theKernel (int (linux_argc p)) (KSEG0ADDR (linux_argv p)) (KSEG0ADDR (linux_env p)))))"

definition do_bootm_linux ::
  "string list \<Rightarrow> u32 \<Rightarrow> bool \<Rightarrow> ('c, 'f, 'm) boot_state_scheme \<Rightarrow> (('c, 'f, 'm) boot_state_scheme \<times> boot_outcome) option" where
  "do_bootm_linux argv len_ptr verify s =
     do {
       commandline \<leftarrow> getenv s ''bootargs'';
       (s1, initrd) \<leftarrow> find_initrd argv len_ptr verify s;
       case initrd of
         None \<Rightarrow> Some (s1, Reset_board)
       | Some (data, len) \<Rightarrow> launch_kernel (ntohl (ih_ep (header s))) commandline data len s1
     }"

subsection \<open>\<open>bootm\<close>\<close>

text \<open>The addresses \<open>do_bootm\<close> jumps to without looking at them.\<close>

definition jump_addrs :: "u32 list" where
  "jump_addrs = [0x8A200000, 0x80200000, 0x8A300000, 0x88001000, 0x8B800000]"

definition verify_of :: "string option \<Rightarrow> bool" where
  "verify_of v = (case v of Some s \<Rightarrow> peek s \<noteq> CHR ''n'' | None \<Rightarrow> True)"

definition boot_addr :: "string list \<Rightarrow> ('c, 'm) env_state_scheme \<Rightarrow> u32" where
  "boot_addr argv s = (if length argv < 2 then load_addr s else fst (simple_strtoul (argv ! 1) 16))"

text \<open>The image in memory, unpacked to its load address: the result of the decoder, 0 when all is well.\<close>

definition unpack :: "lzma_fn \<Rightarrow> u32 \<Rightarrow> u32 \<Rightarrow> u32 \<Rightarrow> ('c, 'f, 'm) boot_state_scheme \<Rightarrow> (('c, 'f, 'm) boot_state_scheme \<times> int) option" where
  "unpack lzma addr data len s =
     (if ih_comp (header s) = IH_COMP_NONE
      then Some (if ntohl (ih_load (header s)) = addr then (s, 0)
                 else (s\<lparr>ram := ram_move (ntohl (ih_load (header s))) data len (ram s)\<rparr>, 0))
      else if ih_comp (header s) = IH_COMP_LZMA
      then (let (r, i) = lzma (ntohl (ih_load (header s))) data len (ram s) in Some (s\<lparr>ram := r\<rparr>, i))
      else None)"

text \<open>From a checked image on: its type, its data at the load address, and the start.\<close>

definition start_image ::
  "lzma_fn \<Rightarrow> string list \<Rightarrow> u32 \<Rightarrow> u32 \<Rightarrow> u32 \<Rightarrow> bool \<Rightarrow> ('c, 'f, 'm) boot_state_scheme \<Rightarrow> (('c, 'f, 'm) boot_state_scheme \<times> boot_outcome) option" where
  "start_image lzma argv addr data len verify s =
     (if ih_arch (header s) \<noteq> IH_CPU_MIPS then Some (s, Returned 1)
      else if ih_type (header s) \<noteq> IH_TYPE_STANDALONE \<and> ih_type (header s) \<noteq> IH_TYPE_KERNEL then Some (s, Returned 1)
      else (let s = (if ih_type (header s) = IH_TYPE_STANDALONE \<and> length argv > 2
                     then s\<lparr>header := (header s)\<lparr>ih_load := fst (simple_strtoul (argv ! 2) 16)\<rparr>\<rparr> else s)
            in case unpack lzma addr data len s of
                 None \<Rightarrow> Some (s, Returned 1)
               | Some (s, i) \<Rightarrow>
                   if i \<noteq> 0 then Some (s, Reset_board)
                   else if ih_type (header s) = IH_TYPE_STANDALONE then Some (s, Started_app (ntohl (ih_ep (header s))) (tl argv))
                   else do_bootm_linux argv data verify s))"

definition do_bootm ::
  "'f nor_ops \<Rightarrow> lzma_fn \<Rightarrow> string list \<Rightarrow> ('c, 'f, 'm) boot_state_scheme \<Rightarrow> (('c, 'f, 'm) boot_state_scheme \<times> boot_outcome) option" where
  "do_bootm ops lzma argv s =
     do {
       v \<leftarrow> getenv s ''verify'';
       let verify = verify_of v;
       let addr = boot_addr argv s;
       if addr \<in> set jump_addrs then Some (s, Jumped addr)
       else do {
         let (s, r) = check_header (load_header ops addr s);
         if r \<noteq> 0 then Some (s, Returned 1)
         else do {
           let (data, len, s) = load_data ops addr s;
           let (s, r) = (if verify then check_data data len s else (s, 0));
           if r \<noteq> 0 then Some (s, Returned 1) else start_image lzma argv addr data len verify s
         }
       }
     }"

end
