(* ===== verification/BootSafe.thy ===== *)
theory BootSafe
  imports Bootm
begin

text \<open>
  What \<open>bootm\<close> starts: only images whose header and data carry the right checksums, and what is in memory when it does. The
  specification of an image is its bytes, in memory or in the cells of the flash; checksums are the bit-serial CRC-32.
\<close>

subsection \<open>Images\<close>

definition crc_val :: "u8 list \<Rightarrow> u32" where "crc_val bs = crc_ref 0xffffffff bs XOR 0xffffffff"

text \<open>\<open>n\<close> bytes at offset \<open>k\<close> of the image at \<open>addr\<close>.\<close>

definition image_bytes :: "(nat \<Rightarrow> u8) \<Rightarrow> (u32 \<Rightarrow> u8) \<Rightarrow> u32 \<Rightarrow> nat \<Rightarrow> nat \<Rightarrow> u8 list" where
  "image_bytes cells r addr k n =
     (if addr \<ge> CFG_FLASH_BASE then map cells [unat (addr - CFG_FLASH_BASE) + k..<unat (addr - CFG_FLASH_BASE) + k + n]
      else ram_bytes r (addr + of_nat k) n)"

definition valid_header :: "image_header \<Rightarrow> bool" where
  "valid_header h \<longleftrightarrow> ntohl (ih_magic h) = IH_MAGIC \<and> crc_val (header_bytes (h\<lparr>ih_hcrc := 0\<rparr>)) = ntohl (ih_hcrc h)"

lemma length_ram_bytes [simp]: "length (ram_bytes r a n) = n" by (simp add: ram_bytes_def)

lemma length_image_bytes [simp]: "length (image_bytes cells r a k n) = n" by (simp add: image_bytes_def)

lemma nth_ram_bytes: "i < n \<Longrightarrow> ram_bytes r a n ! i = r (a + of_nat i)" by (simp add: ram_bytes_def)

lemma le32_word_at:
  assumes "i + 4 \<le> length bs"
  shows "le32 (word_at bs i) = take 4 (drop i bs)"
proof -
  define xs where "xs = take 4 (drop i bs)"
  have "length xs = 4" using assms by (simp add: xs_def)
  then obtain a b c d where "xs = [a, b, c, d]" by (auto simp: length_Suc_conv eval_nat_numeral)
  then have t: "take 4 (drop i bs) = [a, b, c, d]" by (simp add: xs_def)
  have "ucast (of_le32 [a, b, c, d]) = a \<and> ucast (drop_bit 8 (of_le32 [a, b, c, d])) = b \<and>
    ucast (drop_bit 16 (of_le32 [a, b, c, d])) = c \<and> ucast (drop_bit 24 (of_le32 [a, b, c, d])) = d"
    by (intro conjI; rule bit_word_eqI) (auto simp: of_le32_def bit_simps dest: bit_u8_bound)
  then show ?thesis by (simp add: word_at_def t le32_def)
qed

lemma header_bytes_of_bytes:
  assumes "length bs = sizeof_header"
  shows "header_bytes (header_of_bytes bs) = bs"
proof -
  have l: "length bs = 64" using assms by (simp add: sizeof_header_def)
  have "bs = take 4 (drop 0 bs) @ take 4 (drop 4 bs) @ take 4 (drop 8 bs) @ take 4 (drop 12 bs) @ take 4 (drop 16 bs) @ take 4 (drop 20 bs) @
    take 4 (drop 24 bs) @ [bs ! 28, bs ! 29, bs ! 30, bs ! 31] @ drop 32 bs"
    by (rule nth_equalityI) (auto simp: l nth_append nth_Cons' less_diff_conv2 intro!: arg_cong [where f = "(!) bs"])
  moreover have "take IH_NMLEN (drop 32 bs) = drop 32 bs" using l by (simp add: IH_NMLEN_def)
  ultimately show ?thesis
    using l by (simp add: header_bytes_def header_of_bytes_def le32_word_at del: drop_0)
qed

subsection \<open>The checks\<close>

lemma crc_of_eq:
  assumes "crc_wf (crc_st s)"
  shows "crc_of bs s = (crc_val bs, s\<lparr>crc_st := fst (crc32 (crc_st s) 0 bs)\<rparr>)"
  using crc32_ref [OF assms, of 0 bs] by (simp add: crc_of_def Let_def crc_val_def case_prod_beta)

lemma check_header_spec:
  assumes "crc_wf (crc_st s)" "check_header s = (s1, r)"
  shows "(r = 0 \<longleftrightarrow> valid_header (header s)) \<and>
    (r = 0 \<longrightarrow> (\<exists>c. s1 = s\<lparr>header := (header s)\<lparr>ih_hcrc := 0\<rparr>, crc_st := c\<rparr> \<and> crc_wf c))"
proof (cases "ntohl (ih_magic (header s)) = IH_MAGIC")
  case False
  then show ?thesis using assms(2) by (simp add: check_header_def valid_header_def)
next
  case True
  let ?h = "(header s)\<lparr>ih_hcrc := 0\<rparr>"
  let ?s = "s\<lparr>header := ?h\<rparr>"
  have c: "crc_of (header_bytes ?h) ?s = (crc_val (header_bytes ?h), ?s\<lparr>crc_st := fst (crc32 (crc_st s) 0 (header_bytes ?h))\<rparr>)"
    using crc_of_eq [of ?s "header_bytes ?h"] assms(1) by simp
  have "check_header s = (?s\<lparr>crc_st := fst (crc32 (crc_st s) 0 (header_bytes ?h))\<rparr>, if crc_val (header_bytes ?h) \<noteq> ntohl (ih_hcrc (header s)) then 1 else 0)"
    using True by (simp add: check_header_def Let_def c)
  then have "s1 = ?s\<lparr>crc_st := fst (crc32 (crc_st s) 0 (header_bytes ?h))\<rparr>" "r = (if crc_val (header_bytes ?h) \<noteq> ntohl (ih_hcrc (header s)) then 1 else 0)"
    using assms(2) by simp_all
  then show ?thesis using True crc32_wf [OF assms(1)] by (auto simp: valid_header_def)
qed

lemma check_data_spec:
  assumes "crc_wf (crc_st s)" "check_data data len s = (s1, r)"
  shows "(r = 0 \<longleftrightarrow> crc_val (ram_bytes (ram s) data (unat len)) = ntohl (ih_dcrc (header s))) \<and> (\<exists>c. s1 = s\<lparr>crc_st := c\<rparr> \<and> crc_wf c)"
proof -
  have "s1 = s\<lparr>crc_st := fst (crc32 (crc_st s) 0 (ram_bytes (ram s) data (unat len)))\<rparr>"
    "r = (if crc_val (ram_bytes (ram s) data (unat len)) \<noteq> ntohl (ih_dcrc (header s)) then 1 else 0)"
    using assms(2) by (simp_all add: check_data_def crc_of_eq [OF assms(1)] Let_def)
  then show ?thesis using crc32_wf [OF assms(1)] by auto
qed

context nor_chip
begin

lemma load_header_cells:
  "\<exists>f. cells f = cells (nor s) \<and> load_header ops addr s = s\<lparr>header := header_of_bytes (image_bytes (cells (nor s)) (ram s) addr 0 sizeof_header), nor := f\<rparr>"
proof (cases "addr \<ge> CFG_FLASH_BASE")
  case True
  obtain f where f: "raspi_read ops (nor s) (unat (addr - CFG_FLASH_BASE)) sizeof_header =
      (f, map (cells (nor s)) [unat (addr - CFG_FLASH_BASE)..<unat (addr - CFG_FLASH_BASE) + sizeof_header], int sizeof_header)" "cells f = cells (nor s)"
    using raspi_read_cells by blast
  show ?thesis using True f
    by (intro exI [of _ f]) (simp add: load_header_def image_bytes_def header_of_bytes_def word_at_def sizeof_header_def IH_NMLEN_def nth_append del: upt_Suc)
next
  case False
  then show ?thesis by (intro exI [of _ "nor s"]) (simp add: load_header_def image_bytes_def)
qed

lemma load_data_cells:
  assumes "load_data ops addr s = (data, len, s1)"
  shows "len = ntohl (ih_size (header s)) \<and> (\<exists>f r. cells f = cells (nor s) \<and> s1 = s\<lparr>nor := f, ram := r\<rparr>) \<and>
    ram_bytes (ram s1) data (unat len) = image_bytes (cells (nor s)) (ram s) addr sizeof_header (unat len)"
proof (cases "addr \<ge> CFG_FLASH_BASE")
  case True
  let ?o = "unat (addr - CFG_FLASH_BASE)" and ?len = "ntohl (ih_size (header s))"
  have o: "unat (addr + of_nat sizeof_header - CFG_FLASH_BASE) = ?o + sizeof_header"
  proof -
    have "?o < 0x44000000"
      using True uint_lt2p [of addr] by (simp add: word_le_nat_alt unat_sub CFG_FLASH_BASE_def less_diff_conv2 unat_u32_bound [THEN less_trans])
    then have "unat (addr - CFG_FLASH_BASE + of_nat sizeof_header) = ?o + sizeof_header"
      by (simp add: unat_word_ariths(1) sizeof_header_def)
    moreover have "addr + of_nat sizeof_header - CFG_FLASH_BASE = addr - CFG_FLASH_BASE + of_nat sizeof_header" by simp
    ultimately show ?thesis by (simp only:)
  qed
  obtain f where f: "raspi_read ops (nor s) (?o + sizeof_header) (unat ?len) =
      (f, map (cells (nor s)) [?o + sizeof_header..<?o + sizeof_header + unat ?len], int (unat ?len))" "cells f = cells (nor s)"
    using raspi_read_cells by blast
  let ?bs = "map (cells (nor s)) [?o + sizeof_header..<?o + sizeof_header + unat ?len]"
  have r: "ram_bytes (ram_copy a (\<lambda>i. ?bs ! i) (of_nat (length ?bs)) m) a (unat ?len) = ?bs" for a m
    by (rule nth_equalityI) (simp_all add: nth_ram_bytes ram_copy_def word_less_nat_alt unat_u32_of_nat less_trans [OF _ unat_u32_bound])
  let ?r = "ram_copy CFG_SPINAND_LOAD_ADDR (\<lambda>i. ?bs ! i) (of_nat (length ?bs)) (ram s)"
  have "load_data ops addr s = (CFG_SPINAND_LOAD_ADDR, ?len, s\<lparr>nor := f, ram := ?r\<rparr>)"
    using True by (simp add: load_data_def Let_def o f(1))
  then have e: "len = ?len" "data = CFG_SPINAND_LOAD_ADDR" "s1 = s\<lparr>nor := f, ram := ?r\<rparr>" using assms by simp_all
  have "ram_bytes (ram s1) data (unat len) = image_bytes (cells (nor s)) (ram s) addr sizeof_header (unat len)"
    using True r [of CFG_SPINAND_LOAD_ADDR "ram s"] by (simp only: e image_bytes_def if_True boot_state.simps net_state.simps) simp
  then show ?thesis using e f(2) by blast
next
  case False
  then show ?thesis using assms by (auto simp: load_data_def Let_def image_bytes_def intro!: exI [of _ "nor s"] exI [of _ "ram s"])
qed

end

subsection \<open>Nothing unchecked is started\<close>

lemma launch_kernel_starts: "launch_kernel ep cl data len s = Some (s', out) \<Longrightarrow> \<exists>n a e. out = Started_kernel ep n a e"
  by (auto simp: launch_kernel_def Let_def split: option.splits prod.splits)

lemma linux_starts:
  assumes "do_bootm_linux argv p v s = Some (s', out)"
  shows "out = Reset_board \<or> (\<exists>n a e. out = Started_kernel (ntohl (ih_ep (header s))) n a e)"
proof -
  obtain cl s1 i where "find_initrd argv p v s = Some (s1, i)"
    "(case i of None \<Rightarrow> Some (s1, Reset_board) | Some (d, l) \<Rightarrow> launch_kernel (ntohl (ih_ep (header s))) cl d l s1) = Some (s', out)"
    using assms by (auto simp: do_bootm_linux_def bind_eq_Some_conv)
  then show ?thesis by (cases i) (auto dest: launch_kernel_starts)
qed

lemma unpack_header: "unpack lzma addr data len s = Some (s1, i) \<Longrightarrow> header s1 = header s"
  by (auto simp: unpack_def Let_def split: if_splits prod.splits)

definition started :: "boot_outcome \<Rightarrow> u32 option" where
  "started out = (case out of Started_app ep _ \<Rightarrow> Some ep | Started_kernel ep _ _ _ \<Rightarrow> Some ep | _ \<Rightarrow> None)"

lemma start_image_spec:
  assumes "start_image lzma argv addr data len v s = Some (s', out)" "started out = Some ep"
  shows "ih_arch (header s) = IH_CPU_MIPS \<and> (ih_type (header s) = IH_TYPE_STANDALONE \<or> ih_type (header s) = IH_TYPE_KERNEL) \<and>
    ep = ntohl (ih_ep (header s))"
proof -
  let ?s = "if ih_type (header s) = IH_TYPE_STANDALONE \<and> length argv > 2
    then s\<lparr>header := (header s)\<lparr>ih_load := fst (simple_strtoul (argv ! 2) 16)\<rparr>\<rparr> else s"
  have c: "ih_arch (header s) = IH_CPU_MIPS" "ih_type (header s) = IH_TYPE_STANDALONE \<or> ih_type (header s) = IH_TYPE_KERNEL"
    using assms by (auto simp: start_image_def started_def split: if_splits)
  have e: "ih_ep (header ?s) = ih_ep (header s)" "ih_type (header ?s) = ih_type (header s)" by simp_all
  obtain s1 i where u: "unpack lzma addr data len ?s = Some (s1, i)"
    using assms c by (cases "unpack lzma addr data len ?s") (auto simp: start_image_def started_def Let_def)
  have h: "header s1 = header ?s" using unpack_header [OF u] .
  have "(if i \<noteq> 0 then Some (s1, Reset_board)
      else if ih_type (header s1) = IH_TYPE_STANDALONE then Some (s1, Started_app (ntohl (ih_ep (header s1))) (tl argv))
      else do_bootm_linux argv data v s1) = Some (s', out)"
    using assms(1) c by (simp only: start_image_def Let_def u option.case prod.case if_False simp_thms) auto
  then have "ep = ntohl (ih_ep (header s1))" using assms(2) linux_starts [of argv data v s1 s' out] by (auto simp: started_def split: if_splits)
  then show ?thesis using c by (simp only: h e simp_thms)
qed

text \<open>The steps of \<open>do_bootm\<close> up to a start.\<close>

lemma bootm_steps:
  assumes "do_bootm ops lzma argv s = Some (s', out)" "started out = Some ep" "getenv s ''verify'' = Some v"
  obtains s1 data len s2 s3 where "boot_addr argv s \<notin> set jump_addrs" "check_header (load_header ops (boot_addr argv s) s) = (s1, 0)"
    "load_data ops (boot_addr argv s) s1 = (data, len, s2)" "verify_of v \<Longrightarrow> check_data data len s2 = (s3, 0)" "\<not> verify_of v \<Longrightarrow> s3 = s2"
    "start_image lzma argv (boot_addr argv s) data len (verify_of v) s3 = Some (s', out)"
proof -
  obtain s1 r where 1: "check_header (load_header ops (boot_addr argv s) s) = (s1, r)" by fastforce
  obtain data len s2 where 2: "load_data ops (boot_addr argv s) s1 = (data, len, s2)" by (metis prod_cases3)
  obtain s3 q where 3: "(if verify_of v then check_data data len s2 else (s2, 0)) = (s3, q)" by fastforce
  have j: "boot_addr argv s \<notin> set jump_addrs" using assms by (auto simp: do_bootm_def started_def)
  have r: "r = 0"
  proof (rule ccontr)
    assume "r \<noteq> 0"
    then have "do_bootm ops lzma argv s = Some (s1, Returned 1)" using assms(3) j by (simp add: do_bootm_def 1 Let_def)
    then show False using assms(1, 2) by (simp add: started_def)
  qed
  have d: "(if q \<noteq> 0 then Some (s3, Returned 1) else start_image lzma argv (boot_addr argv s) data len (verify_of v) s3) = Some (s', out)"
    using assms(1, 3) j 1 by (simp add: do_bootm_def r 2 3 Let_def)
  then have q: "q = 0" using assms(2) by (auto simp: started_def split: if_splits)
  show ?thesis
  proof (rule that [OF j _ 2])
    show "check_header (load_header ops (boot_addr argv s) s) = (s1, 0)" using 1 r by simp
    show "verify_of v \<Longrightarrow> check_data data len s2 = (s3, 0)" "\<not> verify_of v \<Longrightarrow> s3 = s2" using 3 q by simp_all
    show "start_image lzma argv (boot_addr argv s) data len (verify_of v) s3 = Some (s', out)" using d q by simp
  qed
qed

context nor_chip
begin

lemma bootm_started:
  assumes "crc_wf (crc_st s)" "do_bootm ops lzma argv s = Some (s', out)" "started out = Some ep" "getenv s ''verify'' = Some v"
  defines "addr \<equiv> boot_addr argv s"
  defines "h \<equiv> header_of_bytes (image_bytes (cells (nor s)) (ram s) addr 0 sizeof_header)"
  shows "valid_header h \<and> ih_arch h = IH_CPU_MIPS \<and> (ih_type h = IH_TYPE_STANDALONE \<or> ih_type h = IH_TYPE_KERNEL) \<and> ep = ntohl (ih_ep h) \<and>
    (verify_of v \<longrightarrow> crc_val (image_bytes (cells (nor s)) (ram s) addr sizeof_header (unat (ntohl (ih_size h)))) = ntohl (ih_dcrc h))"
proof -
  obtain s1 data len s2 s3 where st: "check_header (load_header ops addr s) = (s1, 0)" "load_data ops addr s1 = (data, len, s2)"
    "verify_of v \<Longrightarrow> check_data data len s2 = (s3, 0)" "\<not> verify_of v \<Longrightarrow> s3 = s2"
    "start_image lzma argv addr data len (verify_of v) s3 = Some (s', out)"
    using bootm_steps [OF assms(2-4)] unfolding addr_def by metis
  obtain f where f: "cells f = cells (nor s)" "load_header ops addr s = s\<lparr>header := h, nor := f\<rparr>"
    using load_header_cells [of s addr] unfolding h_def by blast
  have wf: "crc_wf (crc_st (load_header ops addr s))" using assms(1) f(2) by simp
  obtain c where c: "valid_header h" "s1 = load_header ops addr s\<lparr>header := h\<lparr>ih_hcrc := 0\<rparr>, crc_st := c\<rparr>" "crc_wf c"
    using check_header_spec [OF wf st(1)] f(2) by auto
  have s1: "header s1 = h\<lparr>ih_hcrc := 0\<rparr>" "crc_st s1 = c" "nor s1 = f" "ram s1 = ram s" using c(2) f(2) by simp_all
  obtain g r where ld: "len = ntohl (ih_size h)" "s2 = s1\<lparr>nor := g, ram := r\<rparr>"
    "ram_bytes (ram s2) data (unat len) = image_bytes (cells (nor s)) (ram s) addr sizeof_header (unat len)"
    using load_data_cells [OF st(2)] by (auto simp: s1 f(1))
  have s2: "header s2 = h\<lparr>ih_hcrc := 0\<rparr>" "crc_wf (crc_st s2)" using ld(2) s1 c(3) by simp_all
  have dcrc: "verify_of v \<Longrightarrow> crc_val (image_bytes (cells (nor s)) (ram s) addr sizeof_header (unat len)) = ntohl (ih_dcrc h) \<and> header s3 = header s2"
    using check_data_spec [OF s2(2) st(3)] s2(1) ld(3) by auto
  then have "header s3 = h\<lparr>ih_hcrc := 0\<rparr>" using st(4) s2(1) by (cases "verify_of v") auto
  then show ?thesis using start_image_spec [OF st(5) assms(3)] c(1) dcrc ld(1) by simp
qed

end

text \<open>C7: Nothing unchecked is started: when \<open>bootm\<close> starts a kernel or a program, the image at the address (in memory or
  in the flash) has the magic number and a header whose checksum is right, it is for this CPU and of a type that can be
  started, control goes to the entry point of that header, and unless the variable \<open>verify\<close> begins with n the checksum of its data is right
  too. (Five fixed addresses are jumped to without any check, which is the outcome \<open>Jumped\<close>.)\<close>

theorem bootm_starts_checked_images:
  assumes "nor_chip ops cells wel prot ss" "crc_wf (crc_st s)" "getenv s ''verify'' = Some v"
    and "do_bootm ops lzma argv s = Some (s', out)" "started out = Some ep"
  defines "img \<equiv> image_bytes (cells (nor s)) (ram s) (boot_addr argv s)"
  defines "h \<equiv> header_of_bytes (img 0 sizeof_header)"
  shows "valid_header h \<and> ih_arch h = IH_CPU_MIPS \<and> (ih_type h = IH_TYPE_STANDALONE \<or> ih_type h = IH_TYPE_KERNEL) \<and> ep = ntohl (ih_ep h) \<and>
    (verify_of v \<longrightarrow> crc_val (img sizeof_header (unat (ntohl (ih_size h)))) = ntohl (ih_dcrc h))"
  unfolding h_def img_def by (rule nor_chip.bootm_started [OF assms(1, 2, 4, 5, 3)])

end
