(* ===== verification/BootArgs.thy ===== *)
theory BootArgs
  imports BootSafe CString
begin

text \<open>
  What the kernel finds in memory: its argument vector with the words of \<open>bootargs\<close>, and its environment. The memory behind the
  parameter pointers is the physical memory, seen here as the byte memory of the string library (\<open>dram\<close>), in which the code's
  stores are \<open>blit\<close>s.
\<close>

subsection \<open>Physical memory\<close>

definition DRAM_END :: nat where "DRAM_END = 0x20000000"

definition seg :: "nat \<Rightarrow> u32" where "seg k = 0x80000000 + of_nat k"

definition dram :: "(u32 \<Rightarrow> u8) \<Rightarrow> mem" where "dram r k = (if k < DRAM_END then r (seg k) else 0)"

lemma kseg_of_nat: "k < DRAM_END \<Longrightarrow> KSEG0ADDR (of_nat k) = seg k"
proof -
  assume k: "k < DRAM_END"
  have u: "unat (of_nat k :: u32) = k" using k by (simp add: unat_u32_of_nat DRAM_END_def)
  have "(of_nat k :: u32) AND 0x1fffffff = take_bit 29 (of_nat k)" by (simp add: take_bit_eq_mask mask_eq_exp_minus_1)
  also have "\<dots> = of_nat k"
  proof -
    have "unat (take_bit 29 (of_nat k :: u32)) = k" using k u by (simp add: unsigned_take_bit_eq take_bit_nat_eq_self DRAM_END_def)
    then show ?thesis using u by (simp add: word_unat_eq_iff)
  qed
  finally have m: "(of_nat k :: u32) AND 0x1fffffff = of_nat k" .
  have "\<not> bit (of_nat k :: u32) n \<or> \<not> bit (0x80000000 :: u32) n" for n
  proof (cases "n = 31")
    case True
    have "\<not> bit k 31" using k by (simp add: bit_iff_odd DRAM_END_def)
    then show ?thesis using True by (simp add: bit_of_nat_iff)
  next
    case False
    have "bit (2 ^ 31 :: u32) n \<longleftrightarrow> n = 31" by (simp only: bit_exp_iff possible_bit_word) auto
    then show ?thesis using False by simp
  qed
  then have "of_nat k OR 0x80000000 = (of_nat k :: u32) + 0x80000000" by (simp add: disjunctive_add)
  with m show ?thesis by (simp add: KSEG0ADDR_def seg_def add.commute)
qed

lemma seg_inj: "j < DRAM_END \<Longrightarrow> k < DRAM_END \<Longrightarrow> seg j = seg k \<Longrightarrow> j = k"
  using of_nat_u32_inj [of j k] by (simp add: seg_def DRAM_END_def)

lemma dram_put: "k + length bs \<le> DRAM_END \<Longrightarrow> dram (put_bytes (of_nat k) bs r) = blit (dram r) k bs"
proof (induction bs arbitrary: k r)
  case (Cons b bs)
  have "dram (r(seg k := b)) = (dram r)(k := b)"
    using Cons.prems seg_inj [of _ k] by (auto simp: dram_def fun_eq_iff)
  moreover have "dram (put_bytes (of_nat (k + 1)) bs (r(seg k := b))) = blit (dram (r(seg k := b))) (k + 1) bs"
    using Cons.prems by (intro Cons.IH) simp
  ultimately show ?case using Cons.prems by (simp add: kseg_of_nat add.commute del: fun_upd_apply)
qed simp

lemma put_outside: "k + length bs \<le> DRAM_END \<Longrightarrow> (\<And>j. k \<le> j \<Longrightarrow> j < k + length bs \<Longrightarrow> x \<noteq> seg j) \<Longrightarrow> put_bytes (of_nat k) bs r x = r x"
proof (induction bs arbitrary: k r)
  case (Cons b bs)
  have "x \<noteq> seg k" using Cons.prems(2) [of k] by simp
  moreover have "put_bytes (of_nat (k + 1)) bs (r(seg k := b)) x = (r(seg k := b)) x" using Cons.prems by (intro Cons.IH) simp_all
  ultimately show ?case using Cons.prems(1) by (simp add: kseg_of_nat add.commute)
qed simp

definition mword :: "mem \<Rightarrow> nat \<Rightarrow> u32" where "mword m k = of_le32 (bytes m k 4)"

lemma get_word_dram: "k + 4 \<le> DRAM_END \<Longrightarrow> get_word (of_nat k) r = mword (dram r) k"
proof -
  assume k: "k + 4 \<le> DRAM_END"
  have "map (\<lambda>i. r (KSEG0ADDR (of_nat k + of_nat i))) [0..<4] = bytes (dram r) k 4"
  proof (rule nth_equalityI)
    fix i assume "i < length (map (\<lambda>i. r (KSEG0ADDR (of_nat k + of_nat i))) [0..<4])"
    then have i: "i < 4" by simp
    then have "KSEG0ADDR (of_nat k + of_nat i) = seg (k + i)" using k kseg_of_nat [of "k + i"] by simp
    then show "map (\<lambda>i. r (KSEG0ADDR (of_nat k + of_nat i))) [0..<4] ! i = bytes (dram r) k 4 ! i"
      using i k by (simp add: dram_def)
  qed simp
  then show ?thesis by (simp add: get_word_def mword_def)
qed

lemma dram_put_word: "k + 4 \<le> DRAM_END \<Longrightarrow> dram (put_word (of_nat k) w r) = blit (dram r) k (le32 w)"
  by (simp add: put_word_def dram_put)

lemma mword_blit [simp]: "mword (blit m k (le32 w)) k = w" by (simp add: mword_def)

lemma mword_cong: "(\<And>j. k \<le> j \<Longrightarrow> j < k + 4 \<Longrightarrow> m' j = m j) \<Longrightarrow> mword m' k = mword m k"
  unfolding mword_def by (rule arg_cong [where f = of_le32], rule nth_equalityI) auto

lemma cstr_cong: "(\<And>j. k \<le> j \<Longrightarrow> j \<le> k + length xs \<Longrightarrow> m' j = m j) \<Longrightarrow> cstr_at m' k xs = cstr_at m k xs"
proof -
  assume a: "\<And>j. k \<le> j \<Longrightarrow> j \<le> k + length xs \<Longrightarrow> m' j = m j"
  have "bytes m' k (length xs) = bytes m k (length xs)" by (rule nth_equalityI) (auto simp: a)
  with a show ?thesis by (simp add: cstr_at_iff)
qed

subsection \<open>The words of the command line\<close>

function linux_words :: "string \<Rightarrow> string list" where
  "linux_words line =
     (if line = [] then []
      else take (arg_end line) line # linux_words (drop (if arg_end line < length line then arg_end line + 1 else arg_end line) line))"
  by pat_completeness auto
termination
  by (relation "measure length") (auto intro!: diff_less simp: Suc_le_eq not_less dest: le_antisym [OF arg_end_le])

declare linux_words.simps [simp del]

definition arg_bytes :: "string \<Rightarrow> u8 list" where "arg_bytes w = map of_char w"

text \<open>The strings of a table of pointers: entry \<open>i\<close> is at \<open>t + 4 * i\<close>, pointers are mapped through \<open>f\<close>.\<close>

definition table :: "(nat \<Rightarrow> u32) \<Rightarrow> mem \<Rightarrow> nat \<Rightarrow> (nat \<times> string) list \<Rightarrow> bool" where
  "table f m t es \<longleftrightarrow> (\<forall>i < length es. mword m (t + 4 * i) = f (fst (es ! i)) \<and> cstr_at m (fst (es ! i)) (arg_bytes (snd (es ! i))))"

fun placed :: "nat \<Rightarrow> string list \<Rightarrow> (nat \<times> string) list" where
  "placed a [] = []"
| "placed a (w # ws) = (a, w) # placed (a + length w + 1) ws"

fun place_end :: "nat \<Rightarrow> string list \<Rightarrow> nat" where
  "place_end a [] = a"
| "place_end a (w # ws) = place_end (a + length w + 1) ws"

lemma length_placed [simp]: "length (placed a ws) = length ws"
  by (induction ws arbitrary: a) auto

lemma snd_placed [simp]: "map snd (placed a ws) = ws"
  by (induction ws arbitrary: a) auto

lemma place_end_mono: "a \<le> place_end a ws"
proof (induction ws arbitrary: a)
  case (Cons w ws)
  from Cons [of "a + length w + 1"] show ?case by simp
qed simp

lemma placed_bounds: "i < length ws \<Longrightarrow> a \<le> fst (placed a ws ! i) \<and> fst (placed a ws ! i) + length (ws ! i) < place_end a ws"
proof (induction ws arbitrary: a i)
  case (Cons w ws)
  show ?case
  proof (cases i)
    case 0
    then show ?thesis using place_end_mono [of "a + length w + 1" ws] by simp
  next
    case (Suc j)
    then show ?thesis using Cons.IH [of j "a + length w + 1"] Cons.prems by auto
  qed
qed simp

lemma linux_words_Nil [simp]: "linux_words [] = []" by (simp add: linux_words.simps)

definition next_arg :: "string \<Rightarrow> string" where
  "next_arg line = drop (if arg_end line < length line then arg_end line + 1 else arg_end line) line"

lemma linux_words_step: "line \<noteq> [] \<Longrightarrow> linux_words line = take (arg_end line) line # linux_words (next_arg line)"
  by (subst linux_words.simps) (simp add: next_arg_def)

lemma next_arg_length: "line \<noteq> [] \<Longrightarrow> length (next_arg line) < length line"
  using arg_end_le [of line] by (auto simp: next_arg_def)

lemma place_end_words: "place_end a (take k (linux_words line)) \<le> a + length line + 1"
proof (induction "length line" arbitrary: a k line rule: less_induct)
  case less
  show ?case
  proof (cases "line = [] \<or> k = 0")
    case True
    then show ?thesis by (elim disjE) simp_all
  next
    case False
    then obtain j where k: "k = Suc j" "line \<noteq> []" by (cases k) auto
    have n: "arg_end line \<le> length line" by (rule arg_end_le)
    have "place_end (a + arg_end line + 1) (take j (linux_words (next_arg line))) \<le> a + length line + 1"
    proof (cases "arg_end line < length line")
      case True
      then have "length (next_arg line) = length line - (arg_end line + 1)" by (simp add: next_arg_def)
      then show ?thesis using less [OF next_arg_length [OF k(2)], of "a + arg_end line + 1" j] True by simp
    next
      case False
      then have "next_arg line = []" by (simp add: next_arg_def)
      then show ?thesis using n by simp
    qed
    then show ?thesis using n by (simp add: k linux_words_step [OF k(2)])
  qed
qed

text \<open>Outside the cells from \<open>a\<close> to \<open>b\<close> the memory is the same.\<close>

definition only_within :: "nat \<Rightarrow> nat \<Rightarrow> (u32 \<Rightarrow> u8) \<Rightarrow> (u32 \<Rightarrow> u8) \<Rightarrow> bool" where
  "only_within a b r r' \<longleftrightarrow> (\<forall>x. (\<forall>j. a \<le> j \<longrightarrow> j < b \<longrightarrow> x \<noteq> seg j) \<longrightarrow> r' x = r x)"

lemma only_within_refl [simp]: "only_within a b r r" by (simp add: only_within_def)

lemma only_within_trans: "only_within a b r r' \<Longrightarrow> only_within a b r' r'' \<Longrightarrow> only_within a b r r''"
  unfolding only_within_def by metis

lemma only_within_mono: "only_within a b r r' \<Longrightarrow> a' \<le> a \<Longrightarrow> b \<le> b' \<Longrightarrow> only_within a' b' r r'"
  unfolding only_within_def by (meson le_trans less_le_trans)

lemma only_within_put: "k + length bs \<le> DRAM_END \<Longrightarrow> only_within k (k + length bs) r (put_bytes (of_nat k) bs r)"
  unfolding only_within_def using put_outside by blast

lemma only_within_word: "k + 4 \<le> DRAM_END \<Longrightarrow> only_within k (k + 4) r (put_word (of_nat k) w r)"
  using only_within_put [of k "le32 w"] by (simp add: put_word_def)

lemma only_within_dram: "only_within a b r r' \<Longrightarrow> b \<le> DRAM_END \<Longrightarrow> j < a \<or> b \<le> j \<Longrightarrow> dram r' j = dram r j"
  unfolding only_within_def dram_def by (metis less_le_trans not_less seg_inj)

lemma zero_notin_arg: "NUL \<notin> set w \<Longrightarrow> 0 \<notin> set (arg_bytes w)"
proof
  assume "NUL \<notin> set w" "0 \<in> set (arg_bytes w)"
  then obtain c where c: "c \<in> set w" "(of_char c :: u8) = 0" by (auto simp: arg_bytes_def)
  have "(of_char NUL :: u8) = 0" by (simp add: NUL_def)
  with c(2) have "c = NUL" by (simp only: of_char_u8_eq_iff [symmetric])
  with c(1) \<open>NUL \<notin> set w\<close> show False by simp
qed

lemma set_next_arg: "set (next_arg line) \<subseteq> set line"
  by (auto simp: next_arg_def dest: in_set_dropD)

text \<open>One argument: its pointer and its characters.\<close>

lemma store_arg:
  fixes r :: "u32 \<Rightarrow> u8"
  assumes "t + 4 \<le> a" "a + length w + 1 \<le> DRAM_END" "NUL \<notin> set w"
  defines "r' \<equiv> put_bytes (of_nat a) (map of_char w @ [0]) (put_word (of_nat t) (of_nat a) r)"
  shows "mword (dram r') t = of_nat a" "cstr_at (dram r') a (arg_bytes w)"
    "\<And>j. j < t \<or> t + 4 \<le> j \<and> j < a \<or> a + length w + 1 \<le> j \<Longrightarrow> dram r' j = dram r j" "only_within t (a + length w + 1) r r'"
proof -
  have d: "dram r' = blit (blit (dram r) t (le32 (of_nat a))) a (arg_bytes w @ [0])"
    using assms(1, 2) by (simp add: r'_def dram_put dram_put_word arg_bytes_def)
  have "mword (dram r') t = mword (blit (dram r) t (le32 (of_nat a))) t"
    unfolding d using assms(1) by (intro mword_cong blit_outside) simp
  then show "mword (dram r') t = of_nat a" by simp
  show "cstr_at (dram r') a (arg_bytes w)" unfolding d by (simp add: zero_notin_arg [OF assms(3)])
  show "j < t \<or> t + 4 \<le> j \<and> j < a \<or> a + length w + 1 \<le> j \<Longrightarrow> dram r' j = dram r j" for j
    unfolding d using assms(1) by (auto simp: blit_apply arg_bytes_def)
  have "only_within t (a + length w + 1) r (put_word (of_nat t) (of_nat a) r)"
    using assms(1, 2) by (intro only_within_mono [OF only_within_word]) simp_all
  moreover have "only_within t (a + length w + 1) (put_word (of_nat t) (of_nat a) r) r'"
    unfolding r'_def using assms(1, 2) only_within_put [of a "map of_char w @ [0]"] by (intro only_within_mono [OF only_within_put]) simp_all
  ultimately show "only_within t (a + length w + 1) r r'" by (rule only_within_trans)
qed

lemma table_cong:
  assumes "table f m t es" "\<And>j. t \<le> j \<Longrightarrow> j < t + 4 * length es \<Longrightarrow> m' j = m j"
    and "\<And>i j. i < length es \<Longrightarrow> fst (es ! i) \<le> j \<Longrightarrow> j \<le> fst (es ! i) + length (snd (es ! i)) \<Longrightarrow> m' j = m j"
  shows "table f m' t es"
  unfolding table_def
proof (intro allI impI conjI)
  fix i assume i: "i < length es"
  have "mword m' (t + 4 * i) = mword m (t + 4 * i)" using i by (intro mword_cong assms(2)) auto
  then show "mword m' (t + 4 * i) = f (fst (es ! i))" using assms(1) i by (simp add: table_def)
  have "cstr_at m' (fst (es ! i)) (arg_bytes (snd (es ! i))) = cstr_at m (fst (es ! i)) (arg_bytes (snd (es ! i)))"
    using i by (intro cstr_cong assms(3)) (auto simp: arg_bytes_def)
  then show "cstr_at m' (fst (es ! i)) (arg_bytes (snd (es ! i)))" using assms(1) i by (simp add: table_def)
qed

lemma placed_table_cong:
  assumes "table f m t (placed q ws)" "\<And>j. t \<le> j \<Longrightarrow> j < t + 4 * length ws \<Longrightarrow> m' j = m j"
    and "\<And>j. q \<le> j \<Longrightarrow> j < place_end q ws \<Longrightarrow> m' j = m j"
  shows "table f m' t (placed q ws)"
proof (rule table_cong [OF assms(1)])
  fix i j assume "i < length (placed q ws)" "fst (placed q ws ! i) \<le> j" "j \<le> fst (placed q ws ! i) + length (snd (placed q ws ! i))"
  then show "m' j = m j"
    using placed_bounds [of i ws q] by (intro assms(3)) (simp_all add: nth_map [symmetric, of i "placed q ws" snd])
qed (use assms(2) in simp)

lemma table_Cons:
  "table f m t ((a, w) # es) \<longleftrightarrow> mword m t = f a \<and> cstr_at m a (arg_bytes w) \<and> table f m (t + 4) es"
  unfolding table_def by (auto simp: less_Suc_eq_0_disj nth_Cons' add.assoc)

lemma params_loop_spec:
  "p + 4 * LINUX_MAX_ARGS \<le> a \<Longrightarrow> (line \<noteq> [] \<Longrightarrow> a + length line + 1 \<le> DRAM_END) \<Longrightarrow> argc \<le> LINUX_MAX_ARGS \<Longrightarrow> NUL \<notin> set line \<Longrightarrow>
   ws = take (LINUX_MAX_ARGS - argc) (linux_words line) \<Longrightarrow>
   \<exists>r'. params_loop (of_nat p) line argc (of_nat a) r = (argc + length ws, of_nat (place_end a ws), r') \<and>
     table of_nat (dram r') (p + 4 * argc) (placed a ws) \<and> only_within (p + 4 * argc) (place_end a ws) r r' \<and>
     (\<forall>j. p + 4 * (argc + length ws) \<le> j \<and> j < a \<longrightarrow> dram r' j = dram r j)"
proof (induction "length line" arbitrary: a line argc r ws rule: less_induct)
  case less
  show ?case
  proof (cases "line = [] \<or> argc = LINUX_MAX_ARGS")
    case True
    then have "ws = []" using less.prems(5) by auto
    with True show ?thesis by (subst params_loop.simps) (auto simp: table_def)
  next
    case False
    then have ne: "line \<noteq> []" and lt: "argc < LINUX_MAX_ARGS" using less.prems(3) by auto
    let ?n = "arg_end line" and ?rest = "next_arg line"
    let ?w = "take ?n line"
    define vs where "vs = take (LINUX_MAX_ARGS - (argc + 1)) (linux_words ?rest)"
    have ws: "ws = ?w # vs" using less.prems(5) lt by (simp add: vs_def linux_words_step [OF ne] take_Cons' Suc_diff_Suc)
    have n: "?n \<le> length line" by (rule arg_end_le)
    then have wl: "length ?w = ?n" by simp
    define b where "b = a + ?n + 1"
    define r1 where "r1 = put_bytes (of_nat a) (map of_char ?w @ [0]) (put_word (of_nat (p + 4 * argc)) (of_nat a) r)"
    have nul: "NUL \<notin> set ?w" "NUL \<notin> set ?rest" using less.prems(4) set_next_arg in_set_takeD by fast+
    have b: "a + length ?w + 1 = b" using wl by (simp add: b_def)
    have lim: "a + length line + 1 \<le> DRAM_END" using less.prems(2) ne .
    then have bD: "a + length ?w + 1 \<le> DRAM_END" using n by simp
    have rest: "?rest \<noteq> [] \<Longrightarrow> b + length ?rest + 1 = a + length line + 1" by (auto simp: b_def next_arg_def split: if_splits)
    have t4: "p + 4 * argc + 4 \<le> a" using less.prems(1) lt by simp
    note st = store_arg [where r = r, OF t4 bD nul(1), folded r1_def, unfolded b]
    have pre: "p + 4 * LINUX_MAX_ARGS \<le> b" "?rest \<noteq> [] \<Longrightarrow> b + length ?rest + 1 \<le> DRAM_END" "argc + 1 \<le> LINUX_MAX_ARGS"
      using less.prems(1) rest lim lt by (simp_all add: b_def)
    obtain r2 where r2: "params_loop (of_nat p) ?rest (argc + 1) (of_nat b) r1 = (argc + 1 + length vs, of_nat (place_end b vs), r2)"
      "table of_nat (dram r2) (p + 4 * (argc + 1)) (placed b vs)" "only_within (p + 4 * (argc + 1)) (place_end b vs) r1 r2"
      "\<forall>j. p + 4 * (argc + 1 + length vs) \<le> j \<and> j < b \<longrightarrow> dram r2 j = dram r1 j"
      using less.hyps [OF next_arg_length [OF ne] pre nul(2) vs_def, of r1] by blast
    have pe: "place_end b vs \<le> DRAM_END"
      using place_end_words [of b "LINUX_MAX_ARGS - (argc + 1)" ?rest] rest lim bD b by (cases "?rest = []") (auto simp: vs_def)
    have lv: "p + 4 * (argc + 1 + length vs) \<le> a" using less.prems(1) lt by (simp add: vs_def)
    have "mword (dram r2) (p + 4 * argc) = mword (dram r1) (p + 4 * argc)"
      by (rule mword_cong, rule only_within_dram [OF r2(3) pe]) simp
    then have "mword (dram r2) (p + 4 * argc) = of_nat a" using st(1) by simp
    moreover have "cstr_at (dram r2) a (arg_bytes ?w)"
      using st(2) by (subst cstr_cong [where m = "dram r1"]) (use r2(4) lv b wl in \<open>auto simp: arg_bytes_def\<close>)
    ultimately have tab: "table of_nat (dram r2) (p + 4 * argc) (placed a ws)"
      using r2(2) by (simp add: ws table_Cons min_absorb2 [OF n] b_def add.commute add.left_commute)
    have ow: "only_within (p + 4 * argc) (place_end a ws) r r2"
    proof (rule only_within_trans)
      show "only_within (p + 4 * argc) (place_end a ws) r r1"
        using only_within_mono [OF st(4)] place_end_mono [of b vs] by (simp add: ws min_absorb2 [OF n] b_def)
      show "only_within (p + 4 * argc) (place_end a ws) r1 r2" using only_within_mono [OF r2(3)] by (simp add: ws min_absorb2 [OF n] b_def)
    qed
    have "params_loop (of_nat p) line argc (of_nat a) r = (argc + length ws, of_nat (place_end a ws), r2)"
      using r2(1) ne lt by (subst params_loop.simps) (simp add: r1_def b_def ws min_absorb2 [OF n] next_arg_def add.commute add.left_commute)
    moreover have "\<forall>j. p + 4 * (argc + length ws) \<le> j \<and> j < a \<longrightarrow> dram r2 j = dram r j"
      using r2(4) st(3) by (auto simp: ws b_def)
    ultimately show ?thesis using tab ow by blast
  qed
qed

end
