(* ===== verification/BootParams.thy ===== *)
theory BootParams
  imports BootArgs
begin

text \<open>
  The parameter area as a whole: what \<open>linux_params_init\<close>, \<open>linux_env_set\<close> and the relocation loops of \<open>do_bootm_linux\<close> leave in
  memory, up to the property that a started kernel finds the words of \<open>bootargs\<close> and its five variables, and that nothing else in
  memory has changed.
\<close>

subsection \<open>The texts of the variables\<close>

definition num_text :: "string \<Rightarrow> nat \<Rightarrow> nat \<Rightarrow> string" where
  "num_text ds b n = (if n = 0 then ''0'' else rev (num_digits ds b n))"

definition zero_pad :: "nat \<Rightarrow> string \<Rightarrow> string" where "zero_pad k t = replicate (k - length t) (CHR ''0'') @ t"

lemma num_text_length: "2 \<le> b \<Longrightarrow> n < b ^ k \<Longrightarrow> 0 < k \<Longrightarrow> length (num_text ds b n) \<le> k"
  using length_num_digits_bound [of b n k ds] by (simp add: num_text_def)

lemma num_text_chars: "digit_set ds \<Longrightarrow> 2 \<le> b \<Longrightarrow> b \<le> 16 \<Longrightarrow> NUL \<notin> set (num_text ds b n)"
proof -
  assume a: "digit_set ds" "2 \<le> b" "b \<le> 16"
  have "\<not> isxdigit (of_char NUL)" by (simp add: NUL_def isxdigit_range)
  then show ?thesis using num_digits_valid [OF a, of NUL n] by (auto simp: num_text_def NUL_def)
qed

lemma digit_sets: "digit_set upper_digits" "digit_set lower_digits" by (simp_all add: digit_set_def)

lemma unat_digits: "unat (v :: u32) < 16 ^ 8" "unat (v :: u32) < 10 ^ 10"
  using unat_u32_bound [of v] by (simp_all add: less_trans [OF unat_u32_bound])

lemma number_padded:
  "number v 16 8 (- 1) (ZEROPAD OR LARGE) = Some (zero_pad 8 (num_text upper_digits 16 (unat v)))"
proof -
  have h: "has (ZEROPAD OR LARGE) LARGE" "\<not> has (ZEROPAD OR LARGE) LEFT" "\<not> has (ZEROPAD OR LARGE) SIGN" "\<not> has (ZEROPAD OR LARGE) SPECIAL"
    "has (ZEROPAD OR LARGE) ZEROPAD" "has (ZEROPAD OR LARGE) (ZEROPAD + LEFT)"
    by (simp_all add: has_def flag_defs)
  have l: "length (num_digits upper_digits 16 (unat v)) \<le> 8" using length_num_digits_bound [of 16 "unat v" 8] unat_digits by simp
  show ?thesis
  proof (cases "v = 0")
    case True
    then show ?thesis by (simp add: number_def number_sign_def h pad_out_def Let_def zero_pad_def num_text_def)
  next
    case False
    have "nat (8 - int (length (num_digits upper_digits 16 (unat v)))) = 8 - length (num_digits upper_digits 16 (unat v))" by simp
    then show ?thesis using False l by (simp add: number_def number_sign_def h pad_out_def Let_def zero_pad_def num_text_def unat_eq_zero)
  qed
qed

lemma env_text_lu: "env_text ''%lu'' v = Some (num_text lower_digits 10 (unat v))"
proof -
  have n: "number v 10 (- 1) (- 1) 0 = Some (num_text lower_digits 10 (unat v))"
    using number_plain [of 10 0 v] by (simp add: num_text_def has_LARGE(7) [symmetric] unat_eq_zero)
  have "length (num_text lower_digits 10 (unat v)) \<le> 10" using unat_digits by (intro num_text_length) simp_all
  then show ?thesis by (simp add: env_text_def sprintf1_def vsprintf_def conv_spec_eval n)
qed

lemma env_text_hex: "env_text ''0x%X'' v = Some (''0x'' @ num_text upper_digits 16 (unat v))"
proof -
  have n: "number v 16 (- 1) (- 1) LARGE = Some (num_text upper_digits 16 (unat v))"
    using number_plain [of 16 LARGE v] by (simp add: num_text_def unat_eq_zero)
  have "length (num_text upper_digits 16 (unat v)) \<le> 8" using unat_digits by (intro num_text_length) simp_all
  then show ?thesis by (simp add: env_text_def sprintf1_def vsprintf_def conv_spec_eval n)
qed

lemma env_text_hex8: "env_text ''0x%08X'' v = Some (''0x'' @ zero_pad 8 (num_text upper_digits 16 (unat v)))"
proof -
  have "length (num_text upper_digits 16 (unat v)) \<le> 8" using unat_digits by (intro num_text_length) simp_all
  then have "length (zero_pad 8 (num_text upper_digits 16 (unat v))) = 8" by (simp add: zero_pad_def)
  then show ?thesis by (simp add: env_text_def sprintf1_def vsprintf_def conv_spec_eval number_padded)
qed

subsection \<open>The start of the area\<close>

definition align16 :: "nat \<Rightarrow> nat" where "align16 k = (k + 15) div 16 * 16"

lemma align16_bounds: "k \<le> align16 k" "align16 k \<le> k + 15" unfolding align16_def by presburger+

lemma align16_word: "k + 15 < 2 ^ 32 \<Longrightarrow> (of_nat k + 15 :: u32) AND NOT 15 = of_nat (align16 k)"
proof -
  assume k: "k + 15 < 2 ^ 32"
  define x :: u32 where "x = of_nat (k + 15)"
  have u: "unat x = k + 15" using k by (simp add: x_def unat_u32_of_nat del: of_nat_add)
  have "x AND 15 = take_bit 4 x" by (simp add: take_bit_eq_mask mask_eq_exp_minus_1)
  moreover have "unat (take_bit 4 x) = take_bit 4 (unat x)" by (rule unsigned_take_bit_eq)
  then have "unat (take_bit 4 x) = (k + 15) mod 16" by (simp only: u take_bit_eq_mod) simp
  ultimately have m: "x AND 15 = of_nat ((k + 15) mod 16)" by (metis of_nat_unat ucast_id)
  have "x = (x AND NOT 15) OR (x AND 15)" by (rule bit_word_eqI) (auto simp: bit_simps)
  also have "\<dots> = (x AND NOT 15) + (x AND 15)" by (rule disjunctive_add [symmetric]) (auto simp: bit_simps)
  finally have "x AND NOT 15 = x - (x AND 15)" by (simp add: algebra_simps)
  also have "\<dots> = of_nat (k + 15 - (k + 15) mod 16)" using m by (simp add: x_def of_nat_diff del: of_nat_add)
  also have "k + 15 - (k + 15) mod 16 = align16 k" by (simp only: align16_def minus_mod_eq_div_mult)
  finally show ?thesis by (simp add: x_def)
qed

definition boot_words :: "string option \<Rightarrow> string list" where
  "boot_words cl = (case cl of None \<Rightarrow> [] | Some line \<Rightarrow> take (LINUX_MAX_ARGS - 1) (linux_words line))"

definition args_end :: "nat \<Rightarrow> string list \<Rightarrow> nat" where
  "args_end p ws = align16 (place_end (p + 4 * LINUX_MAX_ARGS) ws)"

lemma args_end_ge: "p + 4 * LINUX_MAX_ARGS \<le> args_end p ws" "place_end (p + 4 * LINUX_MAX_ARGS) ws \<le> args_end p ws"
  using place_end_mono [of "p + 4 * LINUX_MAX_ARGS" ws] align16_bounds(1) [of "place_end (p + 4 * LINUX_MAX_ARGS) ws"]
  by (simp_all add: args_end_def)

lemma params_init_spec:
  fixes r :: "u32 \<Rightarrow> u8"
  assumes "\<And>line. cl = Some line \<Longrightarrow> NUL \<notin> set line" "p + 4 * LINUX_MAX_ARGS + (case cl of None \<Rightarrow> 0 | Some line \<Rightarrow> length line) + 20 \<le> DRAM_END"
  defines "ws \<equiv> boot_words cl"
  defines "e \<equiv> args_end p ws"
  shows "\<exists>r'. linux_params_init (of_nat p) cl r =
      (\<lparr>linux_argc = 1 + length ws, linux_argv = of_nat p, linux_env = of_nat e, linux_env_p = of_nat (e + 4 * LINUX_MAX_ENVS), linux_env_idx = 0\<rparr>, r') \<and>
    mword (dram r') p = 0 \<and> table of_nat (dram r') (p + 4) (placed (p + 4 * LINUX_MAX_ARGS) ws) \<and> mword (dram r') e = 0 \<and> only_within p (e + 4) r r'"
proof -
  let ?a = "p + 4 * LINUX_MAX_ARGS"
  let ?e = "place_end ?a ws"
  have l: "4 \<le> 4 * LINUX_MAX_ARGS" by (simp add: LINUX_MAX_ARGS_def)
  define r0 where "r0 = put_word (of_nat p) 0 r"
  have pD: "p + 4 \<le> DRAM_END" using assms(2) l by (cases cl) auto
  have r0: "mword (dram r0) p = 0" "only_within p (p + 4) r r0"
    using pD by (simp_all add: r0_def dram_put_word only_within_word)
  have eD: "?e + 19 \<le> DRAM_END"
    using assms(2) place_end_words [of ?a "LINUX_MAX_ARGS - 1" "the cl"] by (cases cl) (simp_all add: ws_def boot_words_def)
  obtain r1 where r1: "(case cl of None \<Rightarrow> (1, of_nat ?a, r0) | Some line \<Rightarrow> params_loop (of_nat p) line 1 (of_nat ?a) r0) = (1 + length ws, of_nat ?e, r1)"
    "table of_nat (dram r1) (p + 4) (placed ?a ws)" "only_within (p + 4) ?e r0 r1"
  proof (cases cl)
    case None
    then show thesis by (intro that [of r0]) (simp_all add: ws_def boot_words_def table_def)
  next
    case (Some line)
    obtain r1 where "params_loop (of_nat p) line 1 (of_nat ?a) r0 = (1 + length ws, of_nat ?e, r1)"
      "table of_nat (dram r1) (p + 4 * 1) (placed ?a ws)" "only_within (p + 4 * 1) ?e r0 r1"
      using params_loop_spec [of p ?a line 1 ws r0] assms(1, 2) Some by (auto simp: ws_def boot_words_def LINUX_MAX_ARGS_def)
    then show thesis using Some by (intro that [of r1]) simp_all
  qed
  define r2 where "r2 = put_word (of_nat e) 0 r1"
  have e: "?e \<le> e" "e + 4 \<le> DRAM_END" using align16_bounds [of ?e] eD by (simp_all add: e_def args_end_def)
  have r2: "only_within e (e + 4) r1 r2" "mword (dram r2) e = 0" using e(2) by (simp_all add: r2_def dram_put_word only_within_word)
  have keep: "dram r2 j = dram r1 j" if "j < ?e" for j using only_within_dram [OF r2(1) e(2), of j] that e(1) by simp
  have "?a \<le> ?e" by (rule place_end_mono)
  have w: "((of_nat ?e :: u32) + 15) AND NOT 15 = of_nat e" using align16_word [of ?e] eD by (simp add: e_def args_end_def DRAM_END_def)
  have eq: "linux_params_init (of_nat p) cl r =
      (\<lparr>linux_argc = 1 + length ws, linux_argv = of_nat p, linux_env = of_nat e, linux_env_p = of_nat (e + 4 * LINUX_MAX_ENVS), linux_env_idx = 0\<rparr>, r2)"
  proof -
    have "(of_nat p + 4 * of_nat LINUX_MAX_ARGS :: u32) = of_nat ?a" by simp
    then show ?thesis
      by (simp only: linux_params_init_def Let_def r0_def [symmetric] r1(1) prod.case w r2_def) simp
  qed
  have "mword (dram r2) p = mword (dram r1) p" using \<open>?a \<le> ?e\<close> l by (intro mword_cong keep) simp
  also have "\<dots> = mword (dram r0) p" using eD by (intro mword_cong only_within_dram [OF r1(3)]) simp_all
  finally have "mword (dram r2) p = 0" using r0(1) by simp
  moreover have "table of_nat (dram r2) (p + 4) (placed ?a ws)"
  proof (rule placed_table_cong [OF r1(2) keep keep])
    fix j assume "j < p + 4 + 4 * length ws"
    moreover have "4 + 4 * length ws \<le> 4 * LINUX_MAX_ARGS" by (cases cl) (auto simp: ws_def boot_words_def LINUX_MAX_ARGS_def)
    ultimately show "j < ?e" using \<open>?a \<le> ?e\<close> by simp
  qed
  moreover have "only_within p (e + 4) r r2"
    using only_within_mono [OF r0(2), of p "e + 4"] only_within_mono [OF r1(3), of p "e + 4"] only_within_mono [OF r2(1), of p "e + 4"] e \<open>?a \<le> ?e\<close> l
    by (meson only_within_trans le_add1 le_trans add_le_mono order_refl)
  ultimately show ?thesis using eq r2(2) by blast
qed

subsection \<open>The variables\<close>

lemma env_set_spec:
  fixes r :: "u32 \<Rightarrow> u8"
  assumes "linux_env P = of_nat e" "linux_env_p P = of_nat q" "linux_env_idx P = i" "i < LINUX_MAX_ENVS - 1"
    and "e + 4 * (i + 2) \<le> q" "q + length (n @ ''='' @ t) + 1 \<le> DRAM_END" "NUL \<notin> set (n @ ''='' @ t)"
  defines "w \<equiv> n @ ''='' @ t"
  shows "\<exists>r'. linux_env_set n t (P, r) = (P\<lparr>linux_env_p := of_nat (q + length w + 1), linux_env_idx := i + 1\<rparr>, r') \<and>
    mword (dram r') (e + 4 * i) = of_nat q \<and> cstr_at (dram r') q (arg_bytes w) \<and> mword (dram r') (e + 4 * (i + 1)) = 0 \<and>
    (\<forall>j. j < e + 4 * i \<or> e + 4 * (i + 2) \<le> j \<and> j < q \<or> q + length w + 1 \<le> j \<longrightarrow> dram r' j = dram r j) \<and>
    only_within (e + 4 * i) (q + length w + 1) r r'"
proof -
  have t4: "e + 4 * i + 4 \<le> q" and qD: "q + length w + 1 \<le> DRAM_END" and nul: "NUL \<notin> set w" using assms(5-7) by (simp_all add: w_def)
  define r1 where "r1 = put_bytes (of_nat q) (map of_char w @ [0]) (put_word (of_nat (e + 4 * i)) (of_nat q) r)"
  note st = store_arg [where r = r, OF t4 qD nul, folded r1_def]
  define r2 where "r2 = put_word (of_nat (e + 4 * (i + 1))) 0 r1"
  have k: "e + 4 * (i + 1) + 4 \<le> DRAM_END" using assms(5) qD by simp
  have d2: "dram r2 = blit (dram r1) (e + 4 * (i + 1)) (le32 0)" using dram_put_word [OF k] by (simp add: r2_def)
  have keep: "dram r2 j = dram r1 j" if "j < e + 4 * (i + 1) \<or> e + 4 * (i + 2) \<le> j" for j
    unfolding d2 using that by (intro blit_outside) auto
  have "linux_env_set n t (P, r) = (P\<lparr>linux_env_p := of_nat (q + length w + 1), linux_env_idx := i + 1\<rparr>, r2)"
    using assms(4) by (simp add: linux_env_set_def assms(1-3) Let_def r2_def r1_def w_def)
  moreover have "mword (dram r2) (e + 4 * i) = of_nat q"
    using st(1) mword_cong [of "e + 4 * i" "dram r2" "dram r1"] keep by simp
  moreover have "cstr_at (dram r2) q (arg_bytes w)" using st(2) cstr_cong [of q "arg_bytes w" "dram r2" "dram r1"] keep assms(5) by simp
  moreover have "mword (dram r2) (e + 4 * (i + 1)) = 0" by (simp only: d2 mword_blit)
  moreover have "\<forall>j. j < e + 4 * i \<or> e + 4 * (i + 2) \<le> j \<and> j < q \<or> q + length w + 1 \<le> j \<longrightarrow> dram r2 j = dram r j"
    using keep st(3) assms(5) by auto
  moreover have "only_within (e + 4 * i) (q + length w + 1) r r2"
    using st(4) only_within_mono [OF only_within_word [OF k, of r1 0], of "e + 4 * i" "q + length w + 1"] assms(5)
    unfolding r2_def by (auto intro: only_within_trans)
  ultimately show ?thesis by blast
qed

definition var_entry :: "string \<times> string \<times> u32 \<Rightarrow> string" where
  "var_entry x = (case x of (n, fmt, v) \<Rightarrow> n @ ''='' @ the (env_text fmt v))"

definition kvar_ok :: "string \<times> string \<times> u32 \<Rightarrow> bool" where
  "kvar_ok x \<longleftrightarrow> (case x of (n, fmt, v) \<Rightarrow> env_text fmt v \<noteq> None) \<and> NUL \<notin> set (var_entry x)"

lemma env_vars_spec:
  "linux_env P = of_nat e \<Longrightarrow> linux_env_p P = of_nat q \<Longrightarrow> linux_env_idx P = i \<Longrightarrow> i + length vs < LINUX_MAX_ENVS \<Longrightarrow>
   e + 4 * (i + length vs + 1) \<le> q \<Longrightarrow> place_end q (map var_entry vs) \<le> DRAM_END \<Longrightarrow> list_all kvar_ok vs \<Longrightarrow> mword (dram r) (e + 4 * i) = 0 \<Longrightarrow>
   \<exists>r' q'. env_vars vs (P, r) = Some (P\<lparr>linux_env_p := q', linux_env_idx := i + length vs\<rparr>, r') \<and>
     table of_nat (dram r') (e + 4 * i) (placed q (map var_entry vs)) \<and> mword (dram r') (e + 4 * (i + length vs)) = 0 \<and>
     (\<forall>j. j < e + 4 * i \<or> e + 4 * (i + length vs + 1) \<le> j \<and> j < q \<longrightarrow> dram r' j = dram r j) \<and>
     only_within (e + 4 * i) (place_end q (map var_entry vs)) r r'"
proof (induction vs arbitrary: P q i r)
  case Nil
  then show ?case by (intro exI [of _ r] exI [of _ "of_nat q"]; cases P) (simp add: table_def)
next
  case (Cons x vs)
  obtain n fmt v where x: "x = (n, fmt, v)" by (cases x)
  obtain t where t: "env_text fmt v = Some t" using Cons.prems(7) by (auto simp: x kvar_ok_def)
  define w where "w = n @ ''='' @ t"
  have w: "var_entry x = w" by (simp add: x var_entry_def t w_def)
  define q1 where "q1 = q + length w + 1"
  let ?ws = "map var_entry vs"
  have pe: "place_end q (map var_entry (x # vs)) = place_end q1 ?ws" by (simp add: w q1_def)
  have q1: "q1 \<le> DRAM_END" using place_end_mono [of q1 ?ws] Cons.prems(6) pe by simp
  have nul: "NUL \<notin> set w" using Cons.prems(7) by (simp add: kvar_ok_def w)
  obtain r1 where r1: "linux_env_set n t (P, r) = (P\<lparr>linux_env_p := of_nat q1, linux_env_idx := i + 1\<rparr>, r1)"
    "mword (dram r1) (e + 4 * i) = of_nat q" "cstr_at (dram r1) q (arg_bytes w)" "mword (dram r1) (e + 4 * (i + 1)) = 0"
    "\<And>j. j < e + 4 * i \<or> e + 4 * (i + 2) \<le> j \<and> j < q \<or> q1 \<le> j \<Longrightarrow> dram r1 j = dram r j" "only_within (e + 4 * i) q1 r r1"
  proof -
    have "i < LINUX_MAX_ENVS - 1" "e + 4 * (i + 2) \<le> q" using Cons.prems(4, 5) by auto
    then show thesis
      using env_set_spec [where r = r, OF Cons.prems(1-3), of n t] q1 nul that unfolding w_def [symmetric] q1_def [symmetric] by blast
  qed
  let ?P = "P\<lparr>linux_env_p := of_nat q1, linux_env_idx := i + 1\<rparr>"
  have "e + 4 * (i + 1 + length vs + 1) \<le> q1" using Cons.prems(5) by (simp add: q1_def)
  then obtain r2 q' where r2: "env_vars vs (?P, r1) = Some (?P\<lparr>linux_env_p := q', linux_env_idx := i + 1 + length vs\<rparr>, r2)"
    "table of_nat (dram r2) (e + 4 * (i + 1)) (placed q1 ?ws)" "mword (dram r2) (e + 4 * (i + 1 + length vs)) = 0"
    "\<And>j. j < e + 4 * (i + 1) \<or> e + 4 * (i + 1 + length vs + 1) \<le> j \<and> j < q1 \<Longrightarrow> dram r2 j = dram r1 j"
    "only_within (e + 4 * (i + 1)) (place_end q1 ?ws) r1 r2"
    using Cons.IH [of ?P q1 "i + 1" r1] Cons.prems(1, 4, 6, 7) r1(4) pe by auto
  have "mword (dram r2) (e + 4 * i) = of_nat q" using r1(2) mword_cong [of "e + 4 * i" "dram r2" "dram r1"] r2(4) by simp
  moreover have "cstr_at (dram r2) q (arg_bytes w)"
    using r1(3) cstr_cong [of q "arg_bytes w" "dram r2" "dram r1"] r2(4) Cons.prems(5) by (simp add: arg_bytes_def q1_def)
  ultimately have "table of_nat (dram r2) (e + 4 * i) (placed q (map var_entry (x # vs)))"
    using r2(2) by (simp add: w table_Cons q1_def add.commute add.left_commute)
  moreover have "only_within (e + 4 * i) (place_end q1 ?ws) r r2"
    using only_within_mono [OF r1(6), of "e + 4 * i" "place_end q1 ?ws"] place_end_mono [of q1 ?ws] only_within_mono [OF r2(5), of "e + 4 * i" "place_end q1 ?ws"]
    by (auto intro: only_within_trans)
  moreover have "\<forall>j. j < e + 4 * i \<or> e + 4 * (i + length (x # vs) + 1) \<le> j \<and> j < q \<longrightarrow> dram r2 j = dram r j"
    using r1(5) r2(4) by (auto simp: q1_def)
  ultimately show ?case using r2(1, 3) r1(1) t unfolding pe by (auto simp: x)
qed

subsection \<open>Addresses for the kernel\<close>

lemma kseg_loop_spec:
  fixes r :: "u32 \<Rightarrow> u8"
  assumes "a \<le> b" "p + 4 * b \<le> DRAM_END"
  defines "r' \<equiv> kseg_loop (of_nat p) [a..<b] r"
  shows "(\<forall>k. a \<le> k \<and> k < b \<longrightarrow> mword (dram r') (p + 4 * k) = KSEG0ADDR (mword (dram r) (p + 4 * k))) \<and>
    (\<forall>j. j < p + 4 * a \<or> p + 4 * b \<le> j \<longrightarrow> dram r' j = dram r j) \<and> only_within (p + 4 * a) (p + 4 * b) r r'"
  using assms(1) unfolding r'_def
proof (induction "b - a" arbitrary: a r)
  case 0
  then show ?case by auto
next
  case (Suc n)
  then have lt: "a < b" by simp
  have aD: "p + 4 * a + 4 \<le> DRAM_END" using lt assms(2) by simp
  define r1 where "r1 = put_word (of_nat (p + 4 * a)) (KSEG0ADDR (get_word (of_nat (p + 4 * a)) r)) r"
  define r2 where "r2 = kseg_loop (of_nat p) [a + 1..<b] r1"
  have r2: "kseg_loop (of_nat p) [a..<b] r = r2" using lt by (simp add: upt_conv_Cons r1_def r2_def)
  have d1: "dram r1 = blit (dram r) (p + 4 * a) (le32 (KSEG0ADDR (mword (dram r) (p + 4 * a))))"
    using dram_put_word [OF aD] get_word_dram [OF aD] by (simp add: r1_def)
  have k1: "dram r1 j = dram r j" if "j < p + 4 * a \<or> p + 4 * a + 4 \<le> j" for j unfolding d1 using that by (intro blit_outside) auto
  have ih: "\<forall>k. a + 1 \<le> k \<and> k < b \<longrightarrow> mword (dram r2) (p + 4 * k) = KSEG0ADDR (mword (dram r1) (p + 4 * k))"
    "\<forall>j. j < p + 4 * (a + 1) \<or> p + 4 * b \<le> j \<longrightarrow> dram r2 j = dram r1 j" "only_within (p + 4 * (a + 1)) (p + 4 * b) r1 r2"
    using Suc.hyps(1) [of "a + 1" r1] Suc.hyps(2) lt unfolding r2_def by simp_all
  have "mword (dram r2) (p + 4 * k) = KSEG0ADDR (mword (dram r) (p + 4 * k))" if "a \<le> k" "k < b" for k
  proof (cases "k = a")
    case True
    have "mword (dram r2) (p + 4 * a) = mword (dram r1) (p + 4 * a)" using ih(2) by (intro mword_cong) simp
    then show ?thesis using True by (simp only: d1 mword_blit)
  next
    case False
    then have "mword (dram r1) (p + 4 * k) = mword (dram r) (p + 4 * k)" using that by (intro mword_cong k1) simp
    then show ?thesis using False that ih(1) by simp
  qed
  moreover have "\<forall>j. j < p + 4 * a \<or> p + 4 * b \<le> j \<longrightarrow> dram r2 j = dram r j" using ih(2) k1 lt by auto
  moreover have "only_within (p + 4 * a) (p + 4 * b) r r2"
    using only_within_mono [OF only_within_word [OF aD, of r], of "p + 4 * a" "p + 4 * b"] only_within_mono [OF ih(3), of "p + 4 * a" "p + 4 * b"] lt
    unfolding r1_def by (auto intro: only_within_trans)
  ultimately show ?case unfolding r2 by blast
qed

text \<open>A table of physical pointers becomes a table of KSEG0 pointers to the same strings.\<close>

lemma kseg_table:
  fixes r :: "u32 \<Rightarrow> u8"
  assumes "table of_nat (dram r) (p + 4 * a) (placed q ws)" "b = a + length ws" "p + 4 * b \<le> q" "place_end q ws \<le> DRAM_END"
  defines "r' \<equiv> kseg_loop (of_nat p) [a..<b] r"
  shows "table seg (dram r') (p + 4 * a) (placed q ws)" "\<And>j. j < p + 4 * a \<or> p + 4 * b \<le> j \<Longrightarrow> dram r' j = dram r j"
    "only_within (p + 4 * a) (p + 4 * b) r r'"
proof -
  have D: "p + 4 * b \<le> DRAM_END" using assms(3, 4) place_end_mono [of q ws] by simp
  have ab: "a \<le> b" using assms(2) by simp
  note k = kseg_loop_spec [where r = r, OF ab D, folded r'_def]
  show keep: "j < p + 4 * a \<or> p + 4 * b \<le> j \<Longrightarrow> dram r' j = dram r j" for j using k by blast
  show "only_within (p + 4 * a) (p + 4 * b) r r'" using k by blast
  show "table seg (dram r') (p + 4 * a) (placed q ws)"
    unfolding table_def
  proof (intro allI impI conjI)
    fix i assume i: "i < length (placed q ws)"
    let ?x = "placed q ws ! i"
    have b: "q \<le> fst ?x" "fst ?x + length (snd ?x) < place_end q ws"
      using placed_bounds [of i ws q] i by (simp_all add: nth_map [symmetric, of i "placed q ws" snd])
    have t: "mword (dram r) (p + 4 * (a + i)) = of_nat (fst ?x)" "cstr_at (dram r) (fst ?x) (arg_bytes (snd ?x))"
      using assms(1) i by (auto simp: table_def add_mult_distrib2 add.assoc)
    have "mword (dram r') (p + 4 * (a + i)) = KSEG0ADDR (of_nat (fst ?x))" using k t(1) i assms(2) by (metis le_add1 length_placed nat_add_left_cancel_less)
    then show "mword (dram r') (p + 4 * a + 4 * i) = seg (fst ?x)"
      using kseg_of_nat [of "fst ?x"] b(2) assms(4) by (simp add: add_mult_distrib2 add.assoc)
    show "cstr_at (dram r') (fst ?x) (arg_bytes (snd ?x))"
      using t(2) cstr_cong [of "fst ?x" "arg_bytes (snd ?x)" "dram r'" "dram r"] keep b(1) assms(3) by (simp add: arg_bytes_def)
  qed
qed

subsection \<open>What a started kernel finds\<close>

definition hex_word :: "u32 \<Rightarrow> string" where "hex_word v = num_text upper_digits 16 (unat v)"

definition kernel_env :: "('c, 'f, 'm) boot_state_scheme \<Rightarrow> u32 \<Rightarrow> u32 \<Rightarrow> string list" where
  "kernel_env s data len =
     [''memsize='' @ num_text lower_digits 10 (unat (drop_bit 20 (ram_size s))),
      ''initrd_start=0x'' @ zero_pad 8 (hex_word (UNCACHED_SDRAM data)),
      ''initrd_size=0x'' @ hex_word (if data \<noteq> 0 then len else 0),
      ''flash_start=0x'' @ zero_pad 8 (hex_word (bi_flashstart s)),
      ''flash_size=0x'' @ hex_word (bi_flashsize s)]"

lemma place_end_eq: "place_end q ws = q + sum_list (map length ws) + length ws"
  by (induction ws arbitrary: q) simp_all

lemma hex_word_facts: "length (hex_word v) \<le> 8" "length (zero_pad 8 (hex_word v)) = 8" "NUL \<notin> set (hex_word v)" "NUL \<notin> set (zero_pad 8 (hex_word v))"
proof -
  show l: "length (hex_word v) \<le> 8" unfolding hex_word_def using unat_digits by (intro num_text_length) simp_all
  show n: "NUL \<notin> set (hex_word v)" unfolding hex_word_def by (intro num_text_chars digit_sets) simp_all
  show "length (zero_pad 8 (hex_word v)) = 8" using l by (simp add: zero_pad_def)
  show "NUL \<notin> set (zero_pad 8 (hex_word v))" using n by (auto simp: zero_pad_def NUL_def)
qed

lemma dec_facts: "length (num_text lower_digits 10 (unat (v :: u32))) \<le> 10" "NUL \<notin> set (num_text lower_digits 10 (unat v))"
  using unat_digits by (intro num_text_length num_text_chars digit_sets; simp)+

lemma place_end_kernel_env: "place_end q (kernel_env s data len) \<le> q + 200"
proof -
  have "length (hex_word v) \<le> 8" for v by (rule hex_word_facts)
  from this [of "if data \<noteq> 0 then len else 0"] this [of "bi_flashsize s"] show ?thesis
    using dec_facts(1) [of "drop_bit 20 (ram_size s)"] by (simp add: place_end_eq kernel_env_def hex_word_facts(2) split del: if_split)
qed

lemma kernel_vars_entries:
  assumes "(i, j) = (if data \<noteq> 0 then (data, data + len) else (0, 0))"
  shows "map var_entry (kernel_vars s i j) = kernel_env s data len" "list_all kvar_ok (kernel_vars s i j)"
proof -
  have ij: "i = data" "j - data = (if data \<noteq> 0 then len else 0)" using assms by (auto split: if_splits)
  show "map var_entry (kernel_vars s i j) = kernel_env s data len"
    unfolding kernel_vars_def kernel_env_def ij
    by (simp add: var_entry_def env_text_lu env_text_hex env_text_hex8 hex_word_def [symmetric] split del: if_split)
  have n: "NUL \<notin> set ''memsize=''" "NUL \<notin> set ''initrd_start=0x''" "NUL \<notin> set ''initrd_size=0x''" "NUL \<notin> set ''flash_start=0x''" "NUL \<notin> set ''flash_size=0x''"
    by (simp_all add: NUL_def)
  show "list_all kvar_ok (kernel_vars s i j)"
    using n unfolding kernel_vars_def ij
    by (simp add: kvar_ok_def var_entry_def env_text_lu env_text_hex env_text_hex8 hex_word_def [symmetric] hex_word_facts dec_facts split del: if_split)
qed

lemma uncached_bound: "unat (UNCACHED_SDRAM a) < DRAM_END"
proof -
  have "UNCACHED_SDRAM a = take_bit 29 a" by (simp add: UNCACHED_SDRAM_def take_bit_eq_mask mask_eq_exp_minus_1)
  then have "unat (UNCACHED_SDRAM a) = take_bit 29 (unat a)" by (simp only: unsigned_take_bit_eq)
  then show ?thesis using take_bit_nat_less_exp [of 29 "unat a"] by (simp add: DRAM_END_def)
qed

definition line_of :: "string option \<Rightarrow> string" where "line_of cl = (case cl of None \<Rightarrow> [] | Some line \<Rightarrow> line)"

text \<open>The argument vector and the environment at \<open>p\<close>; \<open>f\<close> is how a pointer to a cell is written.\<close>

definition kernel_memory :: "(nat \<Rightarrow> u32) \<Rightarrow> nat \<Rightarrow> string list \<Rightarrow> string list \<Rightarrow> mem \<Rightarrow> bool" where
  "kernel_memory f p ws es m \<longleftrightarrow>
     mword m p = 0 \<and> table f m (p + 4) (placed (p + 4 * LINUX_MAX_ARGS) ws) \<and>
     (let e = args_end p ws in table f m e (placed (e + 4 * LINUX_MAX_ENVS) es) \<and> mword m (e + 4 * length es) = 0)"

text \<open>The layout of the area: the arguments end before the environment begins, and all lies below the limit.\<close>

lemma area_layout:
  fixes p :: nat and cl :: "string option"
  defines "ws \<equiv> boot_words cl"
  defines "e \<equiv> args_end p ws"
  shows "p + 4 * (1 + length ws) \<le> p + 4 * LINUX_MAX_ARGS" "p + 4 * LINUX_MAX_ARGS \<le> e" "place_end (p + 4 * LINUX_MAX_ARGS) ws \<le> e"
    "e \<le> p + 1050 + length (line_of cl)" "place_end (e + 4 * LINUX_MAX_ENVS) (kernel_env s data len) \<le> p + 0x1000 + length (line_of cl)"
proof -
  let ?a = "p + 4 * LINUX_MAX_ARGS"
  show "p + 4 * (1 + length ws) \<le> ?a" by (cases cl) (auto simp: ws_def boot_words_def LINUX_MAX_ARGS_def)
  show "?a \<le> e" "place_end ?a ws \<le> e" using args_end_ge [where p = p and ws = ws] by (simp_all add: e_def)
  have "place_end ?a ws \<le> ?a + length (line_of cl) + 1"
    using place_end_words [of ?a "LINUX_MAX_ARGS - 1" "the cl"] by (cases cl) (simp_all add: ws_def boot_words_def line_of_def)
  then show e: "e \<le> p + 1050 + length (line_of cl)"
    using align16_bounds(2) [of "place_end ?a ws"] by (simp add: e_def args_end_def LINUX_MAX_ARGS_def)
  then show "place_end (e + 4 * LINUX_MAX_ENVS) (kernel_env s data len) \<le> p + 0x1000 + length (line_of cl)"
    using place_end_kernel_env [of "e + 4 * LINUX_MAX_ENVS" s data len] by (simp add: LINUX_MAX_ENVS_def)
qed

lemma params_written:
  fixes s :: "('c, 'f, 'm) boot_state_scheme"
  assumes "NUL \<notin> set (line_of cl)" "p + 0x1000 + length (line_of cl) \<le> DRAM_END" "(i, j) = (if data \<noteq> 0 then (data, data + len) else (0, 0))"
  defines "ws \<equiv> boot_words cl"
  shows "\<exists>r q. env_vars (kernel_vars s i j) (linux_params_init (of_nat p) cl (ram s)) =
      Some (\<lparr>linux_argc = 1 + length ws, linux_argv = of_nat p, linux_env = of_nat (args_end p ws), linux_env_p = q, linux_env_idx = 5\<rparr>, r) \<and>
    kernel_memory of_nat p ws (kernel_env s data len) (dram r) \<and> only_within p (p + 0x1000 + length (line_of cl)) (ram s) r"
proof -
  let ?e = "args_end p ws" and ?a = "p + 4 * LINUX_MAX_ARGS" and ?lim = "p + 0x1000 + length (line_of cl)" and ?es = "kernel_env s data len"
  let ?q = "?e + 4 * LINUX_MAX_ENVS" and ?vs = "kernel_vars s i j"
  note kv = kernel_vars_entries [OF assms(3), of s]
  note lay = area_layout [of p cl, folded ws_def]
  let ?P = "\<lparr>linux_argc = 1 + length ws, linux_argv = of_nat p, linux_env = of_nat ?e, linux_env_p = of_nat ?q, linux_env_idx = 0\<rparr>"
  obtain r1 where r1: "linux_params_init (of_nat p) cl (ram s) = (?P, r1)" "mword (dram r1) p = 0"
    "table of_nat (dram r1) (p + 4) (placed ?a ws)" "mword (dram r1) ?e = 0" "only_within p (?e + 4) (ram s) r1"
    using params_init_spec [of cl p "ram s"] assms(1, 2) unfolding ws_def line_of_def by (cases cl) (auto simp: LINUX_MAX_ARGS_def)
  have lv: "length ?vs = 5" by (simp add: kernel_vars_def)
  have "\<exists>r' q'. env_vars ?vs (?P, r1) = Some (?P\<lparr>linux_env_p := q', linux_env_idx := 0 + length ?vs\<rparr>, r') \<and>
      table of_nat (dram r') (?e + 4 * 0) (placed ?q (map var_entry ?vs)) \<and> mword (dram r') (?e + 4 * (0 + length ?vs)) = 0 \<and>
      (\<forall>j. j < ?e + 4 * 0 \<or> ?e + 4 * (0 + length ?vs + 1) \<le> j \<and> j < ?q \<longrightarrow> dram r' j = dram r1 j) \<and>
      only_within (?e + 4 * 0) (place_end ?q (map var_entry ?vs)) r1 r'"
    using r1(4) lay(5) [of s data len] assms(2) by (intro env_vars_spec) (simp_all add: lv kv LINUX_MAX_ENVS_def)
  then obtain r2 q where r2: "env_vars ?vs (?P, r1) = Some (?P\<lparr>linux_env_p := q, linux_env_idx := 5\<rparr>, r2)"
    "table of_nat (dram r2) ?e (placed ?q ?es)" "mword (dram r2) (?e + 20) = 0" "\<And>k. k < ?e \<Longrightarrow> dram r2 k = dram r1 k"
    "only_within ?e (place_end ?q ?es) r1 r2" unfolding kv(1) lv by auto
  have "table of_nat (dram r2) (p + 4) (placed ?a ws)"
    by (rule placed_table_cong [OF r1(3)]; rule r2(4)) (use lay(1, 2, 3) in simp_all)
  moreover have "mword (dram r2) p = 0"
    using r1(2) mword_cong [of p "dram r2" "dram r1"] r2(4) lay(1, 2) by simp
  ultimately have "kernel_memory of_nat p ws ?es (dram r2)" using r2(2, 3) by (simp add: kernel_memory_def Let_def kernel_env_def)
  moreover have "only_within p ?lim (ram s) r2"
    using only_within_mono [OF r1(5), of p ?lim] only_within_mono [OF r2(5), of p ?lim] lay(2, 4) lay(5) [of s data len]
    by (auto intro: only_within_trans)
  ultimately show ?thesis using r2(1) r1(1) by auto
qed

lemma params_relocated:
  fixes r :: "u32 \<Rightarrow> u8"
  assumes "kernel_memory of_nat p ws es (dram r)" "p + 4 * (1 + length ws) \<le> p + 4 * LINUX_MAX_ARGS" "length es < LINUX_MAX_ENVS"
    and "place_end (args_end p ws + 4 * LINUX_MAX_ENVS) es \<le> lim" "lim \<le> DRAM_END"
  defines "r' \<equiv> kseg_loop (of_nat (args_end p ws)) [0..<length es] (kseg_loop (of_nat p) [1..<1 + length ws] r)"
  shows "kernel_memory seg p ws es (dram r')" "only_within p lim r r'"
proof -
  let ?e = "args_end p ws" and ?a = "p + 4 * LINUX_MAX_ARGS"
  let ?q = "?e + 4 * LINUX_MAX_ENVS"
  note e = args_end_ge [where p = p and ws = ws]
  have t: "mword (dram r) p = 0" "table of_nat (dram r) (p + 4 * 1) (placed ?a ws)" "table of_nat (dram r) (?e + 4 * 0) (placed ?q es)"
    "mword (dram r) (?e + 4 * length es) = 0"
    using assms(1) by (simp_all add: kernel_memory_def Let_def)
  define r1 where "r1 = kseg_loop (of_nat p) [1..<1 + length ws] r"
  have q: "?q \<le> DRAM_END" using place_end_mono [of ?q es] assms(4, 5) by simp
  then have D: "place_end ?a ws \<le> DRAM_END" "place_end ?q es \<le> DRAM_END" using e assms(4, 5) by simp_all
  note k1 = kseg_table [OF t(2) refl assms(2) D(1), folded r1_def]
  have s1: "dram r1 k = dram r k" if "?e \<le> k" for k using that assms(2) e(1) by (intro k1(2)) simp
  have t1: "table of_nat (dram r1) (?e + 4 * 0) (placed ?q es)" by (rule placed_table_cong [OF t(3)]; rule s1) simp_all
  have qw: "?e + 4 * (0 + length es) \<le> ?q" using assms(3) by simp
  have r': "r' = kseg_loop (of_nat ?e) [0..<0 + length es] r1" by (simp add: r'_def r1_def)
  note k2 = kseg_table [OF t1 refl qw D(2), folded r']
  have s2: "dram r' k = dram r1 k" if "k < ?e \<or> ?e + 4 * length es \<le> k" for k using that by (intro k2(2)) simp
  have "table seg (dram r') (p + 4 * 1) (placed ?a ws)"
    by (rule placed_table_cong [OF k1(1)]; rule s2) (use assms(2) e in simp_all)
  moreover have "mword (dram r') p = 0"
    using t(1) mword_cong [of p "dram r'" "dram r"] s2 k1(2) e(1) by (simp add: LINUX_MAX_ARGS_def)
  moreover have "mword (dram r') (?e + 4 * length es) = 0"
    using t(4) mword_cong [of "?e + 4 * length es" "dram r'" "dram r"] s1 s2 by simp
  ultimately show "kernel_memory seg p ws es (dram r')" using k2(1) by (simp add: kernel_memory_def Let_def)
  have "?q \<le> lim" using place_end_mono [of ?q es] assms(4) by simp
  then show "only_within p lim r r'"
    using only_within_mono [OF k1(3), of p lim] only_within_mono [OF k2(3), of p lim] assms(2) e qw by (auto intro: only_within_trans)
qed

lemma launch_kernel_memory:
  fixes s :: "('c, 'f, 'm) boot_state_scheme"
  assumes "NUL \<notin> set (line_of cl)"
  defines "p \<equiv> unat (UNCACHED_SDRAM (bi_boot_params s))"
  defines "ws \<equiv> boot_words cl"
  assumes "p + 0x1000 + length (line_of cl) \<le> DRAM_END"
  shows "\<exists>r. launch_kernel ep cl data len s = Some (s\<lparr>ram := r\<rparr>, Started_kernel ep (int (1 + length ws)) (seg p) (seg (args_end p ws))) \<and>
    kernel_memory seg p ws (kernel_env s data len) (dram r) \<and> only_within p (p + 0x1000 + length (line_of cl)) (ram s) r"
proof -
  let ?e = "args_end p ws" and ?es = "kernel_env s data len" and ?lim = "p + 0x1000 + length (line_of cl)"
  obtain i j where ij: "(if data \<noteq> 0 then (data, data + len) else (0, 0)) = (i, j)" by fastforce
  have b: "of_nat p = UNCACHED_SDRAM (bi_boot_params s)" by (simp add: p_def)
  note lay = area_layout [of p cl, folded ws_def]
  obtain r1 q where r1: "env_vars (kernel_vars s i j) (linux_params_init (of_nat p) cl (ram s)) =
      Some (\<lparr>linux_argc = 1 + length ws, linux_argv = of_nat p, linux_env = of_nat ?e, linux_env_p = q, linux_env_idx = 5\<rparr>, r1)"
    "kernel_memory of_nat p ws ?es (dram r1)" "only_within p ?lim (ram s) r1"
    using params_written [OF assms(1, 4) ij [symmetric], of s, folded ws_def] by blast
  define r2 where "r2 = kseg_loop (of_nat ?e) [0..<length ?es] (kseg_loop (of_nat p) [1..<1 + length ws] r1)"
  have le: "length ?es = 5" by (simp add: kernel_env_def)
  then have "length ?es < LINUX_MAX_ENVS" by (simp add: LINUX_MAX_ENVS_def)
  note m = params_relocated [OF r1(2) lay(1) this lay(5) assms(4), folded r2_def]
  have k: "KSEG0ADDR (of_nat p) = seg p" "KSEG0ADDR (of_nat ?e) = seg ?e" using lay(4) assms(4) by (simp_all add: kseg_of_nat)
  have "launch_kernel ep cl data len s = Some (s\<lparr>ram := r2\<rparr>, Started_kernel ep (int (1 + length ws)) (seg p) (seg ?e))"
    by (simp only: launch_kernel_def ij b [symmetric] r1(1) prod.case option.case Let_def linux_params.simps k r2_def le)
  then show ?thesis using m only_within_trans [OF r1(3)] by blast
qed

end
