(* ===== verification/BootKernel.thy ===== *)
theory BootKernel
  imports BootParams
begin

text \<open>
  From an image to a running kernel: an uncompressed kernel image that passes the checks is copied to its load address and started with
  its arguments, whether it lies in the flash or in memory.
\<close>

subsection \<open>Environment\<close>

lemma getenv_block: "env_block s' = env_block s \<Longrightarrow> getenv s' n = getenv s n" by (simp add: getenv_def)

lemma env_block_boot [simp]:
  "env_block (s\<lparr>header := h\<rparr>) = env_block s" "env_block (s\<lparr>nor := f\<rparr>) = env_block s" "env_block (s\<lparr>ram := r\<rparr>) = env_block s"
  "env_block (s\<lparr>crc_st := c\<rparr>) = env_block s"
  by (simp_all add: env_block_def)

lemma getenv_no_nul: "getenv s n = Some cl \<Longrightarrow> NUL \<notin> set (line_of cl)"
  by (auto simp: getenv_def line_of_def map_option_case str_at_def dest: set_takeWhileD split: option.splits)

subsection \<open>Copying\<close>

lemma ram_move_at: "i < unat len \<Longrightarrow> ram_move dst src len r (dst + of_nat i) = r (src + of_nat i)"
proof -
  assume i: "i < unat len"
  then have "unat (of_nat i :: u32) = i" using less_trans [OF i unat_u32_bound] by (simp add: unat_u32_of_nat)
  then show ?thesis using i by (simp add: ram_move_def ram_copy_def word_less_nat_alt)
qed

lemma ram_move_bytes: "ram_bytes (ram_move dst src len r) dst (unat len) = ram_bytes r src (unat len)"
  by (rule nth_equalityI) (simp_all add: nth_ram_bytes ram_move_at)

subsection \<open>A kernel that is started\<close>

lemma start_kernel:
  fixes data len :: u32
  assumes "ih_arch (header s) = IH_CPU_MIPS" "ih_type (header s) = IH_TYPE_KERNEL" "ih_comp (header s) = IH_COMP_NONE"
    and "ntohl (ih_load (header s)) \<noteq> addr" "length argv < 3" "getenv s ''bootargs'' = Some cl"
  defines "s1 \<equiv> s\<lparr>ram := ram_move (ntohl (ih_load (header s))) data len (ram s)\<rparr>"
  shows "start_image lzma argv addr data len v s = launch_kernel (ntohl (ih_ep (header s))) cl 0 0 s1"
proof -
  have t: "IH_TYPE_KERNEL \<noteq> IH_TYPE_STANDALONE" "IH_TYPE_KERNEL \<noteq> IH_TYPE_MULTI"
    by (simp_all add: IH_TYPE_KERNEL_def IH_TYPE_STANDALONE_def IH_TYPE_MULTI_def)
  have u: "unpack lzma addr data len s = Some (s1, 0)" using assms(3, 4) by (simp add: unpack_def s1_def)
  have h: "header s1 = header s" by (simp add: s1_def)
  have g: "getenv s1 ''bootargs'' = Some cl" using assms(6) getenv_block [of s1 s] by (simp add: s1_def)
  have f: "find_initrd argv data v s1 = Some (s1, Some (0, 0))" using assms(2, 5) t by (simp add: find_initrd_def h)
  have "do_bootm_linux argv data v s1 = launch_kernel (ntohl (ih_ep (header s))) cl 0 0 s1"
    by (simp add: do_bootm_linux_def g f h)
  then show ?thesis using assms(1, 2) t by (simp add: start_image_def u h)
qed

text \<open>The steps of \<open>do_bootm\<close> on an image that passes the checks.\<close>

lemma bootm_passes:
  assumes "getenv s ''verify'' = Some v" "boot_addr argv s = addr" "addr \<notin> set jump_addrs" "check_header (load_header ops addr s) = (s1, 0)"
    and "load_data ops addr s1 = (data, len, s2)" "(if verify_of v then check_data data len s2 else (s2, 0)) = (s3, 0)"
  shows "do_bootm ops lzma argv s = start_image lzma argv addr data len (verify_of v) s3"
  using assms by (simp add: do_bootm_def Let_def split del: if_split)

context nor_chip
begin

lemma bootm_checked_data:
  assumes "crc_wf (crc_st s)" "getenv s ''verify'' = Some v" "boot_addr argv s = addr" "addr \<notin> set jump_addrs"
  defines "img \<equiv> image_bytes (cells (nor s)) (ram s) addr"
  defines "h \<equiv> header_of_bytes (img 0 sizeof_header)"
  assumes "valid_header h" "verify_of v \<longrightarrow> crc_val (img sizeof_header (unat (ntohl (ih_size h)))) = ntohl (ih_dcrc h)"
  shows "\<exists>data s3. do_bootm ops lzma argv s = start_image lzma argv addr data (ntohl (ih_size h)) (verify_of v) s3 \<and>
    header s3 = h\<lparr>ih_hcrc := 0\<rparr> \<and> env_block s3 = env_block s \<and> bi_boot_params s3 = bi_boot_params s \<and> ram_size s3 = ram_size s \<and>
    bi_flashstart s3 = bi_flashstart s \<and> bi_flashsize s3 = bi_flashsize s \<and>
    ram_bytes (ram s3) data (unat (ntohl (ih_size h))) = img sizeof_header (unat (ntohl (ih_size h)))"
proof -
  obtain f where f: "cells f = cells (nor s)" "load_header ops addr s = s\<lparr>header := h, nor := f\<rparr>"
    using load_header_cells [of s addr] unfolding h_def img_def by blast
  obtain s1 r where c: "check_header (load_header ops addr s) = (s1, r)" by fastforce
  have wf: "crc_wf (crc_st (load_header ops addr s))" using assms(1) f(2) by simp
  have r: "r = 0" using check_header_spec [OF wf c] f(2) assms(7) by simp
  obtain cr where s1: "s1 = s\<lparr>header := h, nor := f\<rparr>\<lparr>header := h\<lparr>ih_hcrc := 0\<rparr>, crc_st := cr\<rparr>" "crc_wf cr"
    using check_header_spec [OF wf c] r f(2) by auto
  obtain data len s2 where l: "load_data ops addr s1 = (data, len, s2)" by (metis prod_cases3)
  have h1: "header s1 = h\<lparr>ih_hcrc := 0\<rparr>" "nor s1 = f" "ram s1 = ram s" "crc_st s1 = cr" by (simp_all add: s1(1))
  obtain g m where s2: "s2 = s1\<lparr>nor := g, ram := m\<rparr>" using load_data_cells [OF l] by blast
  have len: "len = ntohl (ih_size h)" "ram_bytes (ram s2) data (unat len) = img sizeof_header (unat len)"
    using load_data_cells [OF l] unfolding h1 f(1) img_def by auto
  have h2: "header s2 = h\<lparr>ih_hcrc := 0\<rparr>" "crc_wf (crc_st s2)" using h1 s1(2) by (simp_all add: s2)
  obtain s3 q where d: "(if verify_of v then check_data data len s2 else (s2, 0)) = (s3, q)" by fastforce
  have q: "q = 0 \<and> (\<exists>c. s3 = s2\<lparr>crc_st := c\<rparr>)"
  proof (cases "verify_of v")
    case True
    then show ?thesis using d check_data_spec [OF h2(2), of data len s3 q] assms(8) len h2(1) by auto
  next
    case False
    then show ?thesis using d by (auto intro!: exI [of _ "crc_st s2"])
  qed
  have "do_bootm ops lzma argv s = start_image lzma argv addr data len (verify_of v) s3"
    using bootm_passes [OF assms(2-4) c [unfolded r] l] d q by simp
  moreover obtain c3 where "s3 = s2\<lparr>crc_st := c3\<rparr>" using q by blast
  ultimately show ?thesis using len h2(1) by (intro exI [of _ data] exI [of _ s3]) (simp add: s2 s1(1))
qed

lemma bootm_kernel:
  assumes "crc_wf (crc_st s)" "getenv s ''verify'' = Some v" "getenv s ''bootargs'' = Some cl" "boot_addr argv s = addr" "addr \<notin> set jump_addrs"
    and "length argv < 3"
  defines "img \<equiv> image_bytes (cells (nor s)) (ram s) addr"
  defines "h \<equiv> header_of_bytes (img 0 sizeof_header)"
  defines "n \<equiv> unat (ntohl (ih_size h))"
  defines "load \<equiv> ntohl (ih_load h)"
  defines "p \<equiv> unat (UNCACHED_SDRAM (bi_boot_params s))"
  defines "lim \<equiv> p + 0x1000 + length (line_of cl)"
  assumes "valid_header h" "verify_of v \<longrightarrow> crc_val (img sizeof_header n) = ntohl (ih_dcrc h)"
    and "ih_arch h = IH_CPU_MIPS" "ih_type h = IH_TYPE_KERNEL" "ih_comp h = IH_COMP_NONE" "load \<noteq> addr"
    and "lim \<le> DRAM_END" "\<forall>i<n. \<forall>j. p \<le> j \<longrightarrow> j < lim \<longrightarrow> load + of_nat i \<noteq> seg j"
  shows "\<exists>s'. do_bootm ops lzma argv s =
      Some (s', Started_kernel (ntohl (ih_ep h)) (int (1 + length (boot_words cl))) (seg p) (seg (args_end p (boot_words cl)))) \<and>
    ram_bytes (ram s') load n = img sizeof_header n \<and> kernel_memory seg p (boot_words cl) (kernel_env s 0 0) (dram (ram s'))"
proof -
  obtain data s3 where b: "do_bootm ops lzma argv s = start_image lzma argv addr data (ntohl (ih_size h)) (verify_of v) s3"
    "header s3 = h\<lparr>ih_hcrc := 0\<rparr>" "env_block s3 = env_block s" "bi_boot_params s3 = bi_boot_params s" "ram_size s3 = ram_size s"
    "bi_flashstart s3 = bi_flashstart s" "bi_flashsize s3 = bi_flashsize s" "ram_bytes (ram s3) data n = img sizeof_header n"
    using bootm_checked_data [OF assms(1, 2, 4, 5), of lzma] assms(13, 14) unfolding img_def [symmetric] h_def [symmetric] n_def by blast
  define s4 where "s4 = s3\<lparr>ram := ram_move load data (ntohl (ih_size h)) (ram s3)\<rparr>"
  have g: "getenv s3 ''bootargs'' = Some cl" using assms(3) getenv_block [OF b(3)] by simp
  have st: "start_image lzma argv addr data (ntohl (ih_size h)) (verify_of v) s3 = launch_kernel (ntohl (ih_ep h)) cl 0 0 s4"
    using start_kernel [of s3 addr argv cl lzma data "ntohl (ih_size h)" "verify_of v"] assms(6, 15-18) g
    unfolding s4_def load_def by (simp add: b(2))
  have p: "unat (UNCACHED_SDRAM (bi_boot_params s4)) = p" by (simp add: s4_def b(4) p_def)
  have e: "kernel_env s4 0 0 = kernel_env s 0 0" by (simp add: kernel_env_def s4_def b(5-7))
  obtain r where r: "launch_kernel (ntohl (ih_ep h)) cl 0 0 s4 =
      Some (s4\<lparr>ram := r\<rparr>, Started_kernel (ntohl (ih_ep h)) (int (1 + length (boot_words cl))) (seg p) (seg (args_end p (boot_words cl))))"
    "kernel_memory seg p (boot_words cl) (kernel_env s 0 0) (dram r)" "only_within p lim (ram s4) r"
    using launch_kernel_memory [OF getenv_no_nul [OF assms(3)], of s4 "ntohl (ih_ep h)" 0 0] assms(19) unfolding p e lim_def by blast
  have "ram_bytes r load n = ram_bytes (ram s4) load n"
    using r(3) assms(20) by (intro nth_equalityI) (auto simp: nth_ram_bytes only_within_def)
  also have "\<dots> = img sizeof_header n" using ram_move_bytes b(8) by (simp add: s4_def n_def)
  finally show ?thesis using b(1) st r(1, 2) by (intro exI [of _ "s4\<lparr>ram := r\<rparr>"]) simp
qed

end

text \<open>C6: A kernel image boots: when the image at the address (in memory or in the flash) has a right header and, unless checking is switched off,
  right data, is an uncompressed kernel for this CPU and its load address is not the address of the image and its place in memory
  keeps clear of the parameter area, then \<open>bootm\<close> with no RAM disk starts it at its entry point, the bytes of the image stand at its load
  address, and the parameter area holds the argument vector with the words of \<open>bootargs\<close> (at most 255, a blank between quotes does not end
  a word) and the null-terminated environment with the size of the memory, the RAM disk and the flash, all pointers being cached kernel addresses.\<close>

theorem kernel_image_boots:
  assumes "nor_chip ops cells wel prot ss" "crc_wf (crc_st s)" "getenv s ''verify'' = Some v" "getenv s ''bootargs'' = Some cl"
    and "boot_addr argv s = addr" "addr \<notin> set jump_addrs" "length argv < 3"
  defines "img \<equiv> image_bytes (cells (nor s)) (ram s) addr"
  defines "h \<equiv> header_of_bytes (img 0 sizeof_header)"
  defines "n \<equiv> unat (ntohl (ih_size h))"
  defines "load \<equiv> ntohl (ih_load h)"
  defines "p \<equiv> unat (UNCACHED_SDRAM (bi_boot_params s))"
  defines "lim \<equiv> p + 0x1000 + length (line_of cl)"
  assumes "valid_header h" "verify_of v \<longrightarrow> crc_val (img sizeof_header n) = ntohl (ih_dcrc h)"
    and "ih_arch h = IH_CPU_MIPS" "ih_type h = IH_TYPE_KERNEL" "ih_comp h = IH_COMP_NONE" "load \<noteq> addr"
    and "lim \<le> DRAM_END" "\<forall>i<n. \<forall>j. p \<le> j \<longrightarrow> j < lim \<longrightarrow> load + of_nat i \<noteq> seg j"
  shows "\<exists>s'. do_bootm ops lzma argv s =
      Some (s', Started_kernel (ntohl (ih_ep h)) (int (1 + length (boot_words cl))) (seg p) (seg (args_end p (boot_words cl)))) \<and>
    ram_bytes (ram s') load n = img sizeof_header n \<and> kernel_memory seg p (boot_words cl) (kernel_env s 0 0) (dram (ram s'))"
  using assms(14-21) unfolding lim_def load_def n_def h_def img_def p_def
  by (intro nor_chip.bootm_kernel [OF assms(1-7)])

end
