(* ===== verification/EnvSpi.thy ===== *)
theory EnvSpi
  imports Env_Spec Flash
begin

text \<open>
  \<open>common/env_spi.c\<close> and the start-up half of \<open>common/env_common.c\<close>: loading the environment from the
  SPI flash, falling back to the compiled-in defaults, and saving it. \<open>env_t\<close> is four little-endian CRC
  bytes followed by the data. The flash is the driver of \<open>Flash\<close>.
\<close>

subsection \<open>The code\<close>

definition CFG_ENV_SECT_SIZE :: nat where "CFG_ENV_SECT_SIZE = CFG_CONFIG_SIZE"

text \<open>\<open>flash_addr = CFG_ENV_ADDR - CFG_FLASH_BASE\<close>, that is \<open>CFG_BOOTLOADER_SIZE\<close>.\<close>

definition flash_addr :: nat where "flash_addr = CFG_BOOTLOADER_SIZE"

definition default_environment :: string where
  "default_environment =
     ''bootcmd=tftp'' @ [NUL] @ ''bootdelay=3'' @ [NUL] @ ''baudrate=115200'' @ [NUL] @
     ''ethaddr='' @ [CHR 0x22] @ ''00:AA:BB:CC:DD:10'' @ [CHR 0x22] @ [NUL] @
     ''ipaddr=10.10.10.123'' @ [NUL] @ ''serverip=10.10.10.3'' @ [NUL] @ [NUL] @ [NUL]"

definition env_image :: "('c, 'm) env_state_scheme \<Rightarrow> u8 list" where
  "env_image s = le32 (hdr_crc s) @ map of_char (env_data s)"

definition load_image :: "u8 list \<Rightarrow> ('c, 'm) env_state_scheme \<Rightarrow> ('c, 'm) env_state_scheme" where
  "load_image bs s = s\<lparr>hdr_crc := of_le32 bs, env_data := map (\<lambda>b. char_of (unat b)) (drop 4 bs)\<rparr>"

definition env_init :: "('c, 'm) env_state_scheme \<Rightarrow> ('c, 'm) env_state_scheme" where
  "env_init s = s\<lparr>default_env := default_environment, env_valid := False\<rparr>"

text \<open>\<open>fresh\<close> is what the newly allocated \<open>env_ptr\<close> buffer holds, \<open>None\<close> when \<open>malloc\<close> fails.\<close>

definition spi_env_init ::
  "'f nor_ops \<Rightarrow> u8 list option \<Rightarrow> ('c, 'm) env_state_scheme \<Rightarrow> 'f \<Rightarrow> ('c, 'm) env_state_scheme \<times> 'f \<times> int" where
  "spi_env_init ops fresh s f =
     (case fresh of
        None \<Rightarrow> (s, f, - 1)
      | Some mem0 \<Rightarrow>
          (let (f, buf, r) = raspi_read ops f flash_addr CFG_ENV_SIZE;
               s = load_image (buf @ drop (length buf) mem0) s
           in if r \<noteq> int CFG_ENV_SIZE then (s, f, - 1)
              else (let (cs, crc) = crc32 (crc_st s) 0 (map of_char (env_data s)); s = s\<lparr>crc_st := cs\<rparr> in
                    if crc = hdr_crc s then (s\<lparr>env_valid := True\<rparr>, f, 0)
                    else (s\<lparr>default_env := default_environment, env_valid := False\<rparr>, f, 0))))"

definition env_relocate_spec ::
  "'f nor_ops \<Rightarrow> u8 list \<Rightarrow> ('c, 'm) env_state_scheme \<Rightarrow> 'f \<Rightarrow> ('c, 'm) env_state_scheme \<times> 'f" where
  "env_relocate_spec ops mem0 s f =
     (let (f, buf, _) = raspi_read ops f flash_addr CFG_ENV_SIZE
      in (load_image (buf @ drop (length buf) mem0) s, f))"

definition env_relocate ::
  "'f nor_ops \<Rightarrow> u8 list \<Rightarrow> ('c, 'm) env_state_scheme \<Rightarrow> 'f \<Rightarrow> ('c, 'm) env_state_scheme \<times> 'f" where
  "env_relocate ops mem0 s f =
     (if \<not> env_valid s
      then (if length (default_env s) > ENV_SIZE then (load_image mem0 s, f)
            else (let s = s\<lparr>hdr_crc := 0, env_data := default_env s @ replicate (ENV_SIZE - length (default_env s)) NUL\<rparr>
                  in ((env_crc_update s)\<lparr>env_valid := True\<rparr>, f)))
      else env_relocate_spec ops mem0 s f)"

definition saveenv ::
  "'f nor_ops \<Rightarrow> chip_info \<Rightarrow> ('c, 'm) env_state_scheme \<Rightarrow> 'f \<Rightarrow> ('f \<times> nat) option" where
  "saveenv ops ci s f =
     (let flash_offset = flash_addr mod CFG_ENV_SECT_SIZE;
          flash_sect_addr = flash_addr - flash_addr mod CFG_ENV_SECT_SIZE;
          len = CFG_ENV_SECT_SIZE;
          (f, env_buffer, r) = raspi_read ops f flash_sect_addr len
      in if r \<noteq> int len then Some (f, 1)
      else (let env_buffer = take flash_offset env_buffer @ env_image s @ drop (flash_offset + CFG_ENV_SIZE) env_buffer in
        case raspi_erase ops ci f flash_sect_addr (int len) of
          None \<Rightarrow> None
        | Some (f, r) \<Rightarrow>
          if r \<noteq> 0 then Some (f, 1)
          else (let (f, rc) = raspi_write ops ci f env_buffer flash_sect_addr
                in if rc \<noteq> int len then Some (f, 1) else Some (f, 0))))"

subsection \<open>Images\<close>

lemma char_byte_roundtrip: "map (\<lambda>b. char_of (unat b)) (map of_char cs :: u8 list) = cs"
  by (induction cs) auto

lemma load_image_env_image:
  "hdr_crc (load_image (env_image s) s') = hdr_crc s" "env_data (load_image (env_image s) s') = env_data s"
  by (simp_all add: load_image_def env_image_def of_le32_append char_byte_roundtrip del: map_map)

lemma length_env_image: "length (env_data s) = ENV_SIZE \<Longrightarrow> length (env_image s) = CFG_ENV_SIZE"
  by (simp add: env_image_def ENV_SIZE_def CFG_ENV_SIZE_def)

subsection \<open>Saving\<close>

lemma flash_consts:
  "flash_addr = 0x30000" "CFG_ENV_SECT_SIZE = 0x10000" "CFG_ENV_SIZE = 0x1000"
  by (simp_all add: flash_addr_def CFG_BOOTLOADER_SIZE_def CFG_ENV_SECT_SIZE_def CFG_CONFIG_SIZE_def CFG_ENV_SIZE_def)

text \<open>The chip the configuration expects: sectors that the environment sector is made of, and room for it.\<close>

definition chip_ok :: "chip_info \<Rightarrow> bool" where
  "chip_ok ci \<longleftrightarrow> 0 < sector_size ci \<and> CFG_ENV_SECT_SIZE mod sector_size ci = 0 \<and> flash_addr mod sector_size ci = 0 \<and>
     flash_addr + CFG_ENV_SECT_SIZE \<le> sector_size ci * n_sectors ci"

lemma saveenv_cells:
  assumes "nor_chip ops cells wel prot (sector_size ci)" "chip_ok ci" "\<not> prot f" "length (env_data s) = ENV_SIZE"
  shows "\<exists>f'. saveenv ops ci s f = Some (f', 0) \<and> cells f' = set_cells (cells f) flash_addr (env_image s) \<and> \<not> prot f'"
proof -
  note chip = nor_chip.raspi_read_cells [OF assms(1)] nor_chip.raspi_erase_cells [OF assms(1)]
    nor_chip.raspi_write_cells [OF assms(1)]
  define L where "L = CFG_ENV_SECT_SIZE"
  define old where "old = map (cells f) [flash_addr..<flash_addr + L]"
  define buf where "buf = env_image s @ drop CFG_ENV_SIZE old"
  have im: "length (env_image s) = CFG_ENV_SIZE" by (rule length_env_image [OF assms(4)])
  have "length old = L" "CFG_ENV_SIZE \<le> L" by (simp add: old_def) (simp add: L_def flash_consts)
  then have lb: "length buf = L" by (simp add: buf_def im)
  obtain f1 where f1: "raspi_read ops f flash_addr L = (f1, old, int L)" "cells f1 = cells f" "\<not> prot f1"
    using chip(1) [of f flash_addr L] assms(3) by (auto simp: old_def)
  have "sector_size ci dvd L" using assms(2) by (simp add: chip_ok_def L_def mod_0_imp_dvd)
  then obtain k where k: "L = k * sector_size ci" by (metis dvdE mult.commute)
  obtain f2 where f2: "raspi_erase ops ci f1 flash_addr (int L) = Some (f2, 0)" "cells f2 = erase_cells (cells f) flash_addr L" "\<not> prot f2"
    using chip(2) [OF refl _ _ f1(3), of flash_addr k] assms(2) k f1(2) by (auto simp: chip_ok_def)
  obtain f3 where f3: "raspi_write ops ci f2 buf flash_addr = (f3, int L)" "cells f3 = prog_cells (cells f2) flash_addr buf" "\<not> prot f3"
    using chip(3) [OF f2(3), of flash_addr buf ci] lb assms(2) by (auto simp: chip_ok_def L_def)
  have "cells f3 = set_cells (cells f) flash_addr buf"
    using prog_erased [of buf L "cells f" flash_addr] set_over_erased [of "cells f" flash_addr buf] lb f2 f3 by simp
  also have "\<dots> = set_cells (cells f) flash_addr (env_image s)"
    by (auto simp: fun_eq_iff set_cells_def buf_def old_def nth_append im L_def)
  finally have c: "cells f3 = set_cells (cells f) flash_addr (env_image s)" .
  have "flash_addr mod CFG_ENV_SECT_SIZE = 0" by (simp add: flash_consts)
  then have "saveenv ops ci s f = Some (f3, 0)"
    unfolding saveenv_def L_def [symmetric] by (simp add: f1(1) f2(1) f3(1) buf_def [symmetric])
  with c f3 show ?thesis by blast
qed

text \<open>C9: a saved environment survives a restart: after \<open>saveenv\<close> of a consistent environment on a working
  flash chip (which then returns 0), \<open>spi_env_init\<close> of a fresh start finds the CRC valid and loads the same
  variables, and \<open>env_relocate\<close> brings the same bytes into the relocated copy.\<close>

theorem saveenv_survives_restart:
  assumes "nor_chip ops cells wel prot (sector_size ci)" "chip_ok ci" "\<not> prot f"
    "env_ok s vs" "crc_ok s" "crc_wf (crc_st s0)" "length mem0 = CFG_ENV_SIZE" "length mem1 = CFG_ENV_SIZE"
  shows "\<exists>f' s1 f1 s2 f2. saveenv ops ci s f = Some (f', 0) \<and>
    spi_env_init ops (Some mem0) s0 f' = (s1, f1, 0) \<and> env_ok s1 vs \<and> crc_ok s1 \<and>
    env_relocate ops mem1 s1 f1 = (s2, f2) \<and> env_valid s2 \<and> env_data s2 = env_data s"
proof -
  note chip = nor_chip.raspi_read_cells [OF assms(1)]
  have len: "length (env_data s) = ENV_SIZE" using assms(4) by (simp add: env_ok_def)
  obtain f' where f': "saveenv ops ci s f = Some (f', 0)" "cells f' = set_cells (cells f) flash_addr (env_image s)"
    using saveenv_cells [OF assms(1-3) len] by blast
  have img: "map (cells g) [flash_addr..<flash_addr + CFG_ENV_SIZE] = env_image s" if "cells g = cells f'" for g
    using length_env_image [OF len] f'(2) that by (intro nth_equalityI) (auto simp: set_cells_def)
  obtain f1 where f1: "raspi_read ops f' flash_addr CFG_ENV_SIZE = (f1, env_image s, int CFG_ENV_SIZE)" "cells f1 = cells f'"
    using chip [of f' flash_addr CFG_ENV_SIZE] img by auto
  obtain f2 where f2: "raspi_read ops f1 flash_addr CFG_ENV_SIZE = (f2, env_image s, int CFG_ENV_SIZE)"
    using chip [of f1 flash_addr CFG_ENV_SIZE] img f1(2) by auto
  have li: "length (env_image s) = CFG_ENV_SIZE" by (rule length_env_image [OF len])
  let ?t = "load_image (env_image s) s0"
  have t: "hdr_crc ?t = hdr_crc s" "env_data ?t = env_data s" "crc_st ?t = crc_st s0"
    using load_image_env_image [of s s0] by (simp_all add: load_image_def)
  obtain cs crc where c: "crc32 (crc_st s0) 0 (map of_char (env_data s)) = (cs, crc)" by fastforce
  have "crc_wf (crc_st s)" using assms(4) by (simp add: env_ok_def)
  then have crc: "crc = hdr_crc s"
    using assms(5) crc32_ref [OF assms(6)] crc32_ref c unfolding crc_ok_def by (metis snd_conv)
  have cs: "crc_wf cs" using crc32_wf [OF assms(6)] c by (metis fst_conv)
  let ?s1 = "?t\<lparr>crc_st := cs, env_valid := True\<rparr>"
  have init: "spi_env_init ops (Some mem0) s0 f' = (?s1, f1, 0)"
    using f1(1) li assms(7) t c crc by (simp add: spi_env_init_def Let_def)
  have ok1: "env_ok ?s1 vs" using assms(4) t cs by (simp add: env_ok_def)
  have crc1: "crc_ok ?s1"
    using crc32_ref [OF assms(6)] crc32_ref [OF cs] c crc t unfolding crc_ok_def by (simp add: prod_eq_iff)
  have rel: "env_relocate ops mem1 ?s1 f1 = (load_image (env_image s) ?s1, f2)"
    using f2 li assms(8) by (simp add: env_relocate_def env_relocate_spec_def)
  have "env_valid (load_image (env_image s) ?s1)" "env_data (load_image (env_image s) ?s1) = env_data s"
    using load_image_env_image(2) [of s ?s1] by (simp_all add: load_image_def)
  with f'(1) init ok1 crc1 rel show ?thesis by blast
qed

text \<open>The chip fitted to the board: sectors of 64 KB, 16 MB in all.\<close>

definition board_chip :: chip_info where
  "board_chip = \<lparr>sector_size = 0x10000, n_sectors = 256, addr4b = False\<rparr>"

lemma board_chip_ok: "chip_ok board_chip"
  by (simp add: chip_ok_def board_chip_def flash_consts)

theorem saveenv_survives_restart_witness:
  "let s = env_crc_update blank_env; f = \<lparr>nor_cells = (\<lambda>_. 0xff), nor_wel = False, nor_prot = False\<rparr> in
   \<exists>f' s1 f1. saveenv (nor_device 0x10000) board_chip s f = Some (f', 0) \<and>
     spi_env_init (nor_device 0x10000) (Some (replicate CFG_ENV_SIZE 0)) blank_env f' = (s1, f1, 0) \<and> env_ok s1 []"
proof -
  have b: "length (env_data blank_env) = ENV_SIZE" "crc_wf (crc_st blank_env)"
    using blank_env_ok by (simp_all add: env_ok_def)
  note u = env_crc_update_ok [OF b]
  have ok: "env_ok (env_crc_update blank_env) []"
    using blank_env_ok u(2) by (simp add: env_ok_def)
  have "nor_chip (nor_device 0x10000) nor_cells nor_wel nor_prot (sector_size board_chip)"
    using nor_device_chip [of "0x10000"] by (simp add: board_chip_def)
  from saveenv_survives_restart [OF this board_chip_ok _ ok u(1) b(2), of "\<lparr>nor_cells = (\<lambda>_. 0xff), nor_wel = False, nor_prot = False\<rparr>"
      "replicate CFG_ENV_SIZE 0" "replicate CFG_ENV_SIZE 0"]
  show ?thesis by (auto simp: Let_def)
qed

text \<open>C26: \<open>saveenv\<close> touches nothing but the environment: on a working chip it returns 0 and every flash byte
  outside the 4 KB image keeps its value, although the whole 64 KB sector is erased on the way.\<close>

theorem saveenv_preserves_rest:
  assumes "nor_chip ops cells wel prot (sector_size ci)" "chip_ok ci" "\<not> prot f" "length (env_data s) = ENV_SIZE"
  shows "\<exists>f'. saveenv ops ci s f = Some (f', 0) \<and>
    (\<forall>x. x < flash_addr \<or> flash_addr + CFG_ENV_SIZE \<le> x \<longrightarrow> cells f' x = cells f x)"
  using saveenv_cells [OF assms] length_env_image [OF assms(4)] by (auto simp: set_cells_def)

theorem saveenv_preserves_rest_witness:
  "let f = \<lparr>nor_cells = (\<lambda>_. 7), nor_wel = False, nor_prot = False\<rparr> in
   \<exists>f'. saveenv (nor_device 0x10000) board_chip blank_env f = Some (f', 0) \<and> nor_cells f' 0x31000 = 7"
proof -
  have "nor_chip (nor_device 0x10000) nor_cells nor_wel nor_prot (sector_size board_chip)"
    using nor_device_chip [of "0x10000"] by (simp add: board_chip_def)
  from saveenv_preserves_rest [OF this board_chip_ok, of "\<lparr>nor_cells = (\<lambda>_. 7), nor_wel = False, nor_prot = False\<rparr>" blank_env]
  show ?thesis using blank_env_ok by (auto simp: Let_def env_ok_def flash_consts)
qed

subsection \<open>Defaults\<close>

definition default_vars :: "string list" where
  "default_vars = [''bootcmd=tftp'', ''bootdelay=3'', ''baudrate=115200'',
     ''ethaddr='' @ [CHR 0x22] @ ''00:AA:BB:CC:DD:10'' @ [CHR 0x22], ''ipaddr=10.10.10.123'', ''serverip=10.10.10.3'']"

lemma default_environment_enc: "default_environment = enc default_vars @ NUL # [NUL]"
  by (simp add: default_environment_def default_vars_def)

lemma default_vars_ok: "\<forall>v\<in>set default_vars. var_ok v" "distinct (map var_name default_vars)"
  by (simp_all add: default_vars_def var_ok_def var_name_def NUL_def)

lemma length_default_environment: "length default_environment \<le> ENV_SIZE"
  by (simp add: default_environment_def ENV_SIZE_def CFG_ENV_SIZE_def)

lemma env_relocate_defaults:
  assumes "\<not> env_valid s" "default_env s = default_environment" "crc_wf (crc_st s)"
  shows "\<exists>s'. env_relocate ops mem1 s f = (s', f) \<and> env_ok s' default_vars \<and> crc_ok s'"
proof -
  let ?d = "default_environment @ replicate (ENV_SIZE - length default_environment) NUL"
  let ?s = "s\<lparr>hdr_crc := 0, env_data := ?d\<rparr>"
  have len: "length (env_data ?s) = ENV_SIZE" using length_default_environment by simp
  have u: "crc_ok (env_crc_update ?s)" "crc_wf (crc_st (env_crc_update ?s))"
    using env_crc_update_ok [OF len] assms(3) by simp_all
  have rep: "env_repr ?d default_vars"
    using default_vars_ok(1) by (simp add: env_repr_def default_environment_enc default_vars_def)
  have "env_relocate ops mem1 s f = ((env_crc_update ?s)\<lparr>env_valid := True\<rparr>, f)"
    using assms(1, 2) length_default_environment by (simp add: env_relocate_def)
  moreover have "env_ok ((env_crc_update ?s)\<lparr>env_valid := True\<rparr>) default_vars"
    using rep len u(2) default_vars_ok(2) by (simp add: env_ok_def)
  moreover have "crc_ok ((env_crc_update ?s)\<lparr>env_valid := True\<rparr>)" using u(1) by (simp add: crc_ok_def)
  ultimately show ?thesis by blast
qed

lemma byte_char_roundtrip: "map of_char (map (\<lambda>b. char_of (unat b)) bs) = (bs :: u8 list)"
proof -
  have "of_char (char_of (unat b) :: char) = b" for b :: u8
    by (simp add: word_unat_eq_iff)
  then show ?thesis by (simp add: map_idI)
qed

text \<open>C28: a corrupted flash image is never used: when the CRC stored in the flash does not match the data,
  \<open>spi_env_init\<close> followed by \<open>env_relocate\<close> leaves a well-formed environment that holds exactly the
  compiled-in defaults, with a valid CRC.\<close>

theorem corrupt_flash_gives_defaults:
  assumes "nor_chip ops cells wel prot ss" "crc_wf (crc_st s0)" "length mem0 = CFG_ENV_SIZE"
    "img = map (cells f) [flash_addr..<flash_addr + CFG_ENV_SIZE]"
    "snd (crc32 (crc_st s0) 0 (drop 4 img)) \<noteq> of_le32 img"
  shows "\<exists>s1 f1 s2 f2. spi_env_init ops (Some mem0) s0 f = (s1, f1, 0) \<and> \<not> env_valid s1 \<and>
    env_relocate ops mem1 s1 f1 = (s2, f2) \<and> env_ok s2 default_vars \<and> crc_ok s2"
proof -
  obtain f1 where f1: "raspi_read ops f flash_addr CFG_ENV_SIZE = (f1, img, int CFG_ENV_SIZE)"
    using nor_chip.raspi_read_cells [OF assms(1), of f flash_addr CFG_ENV_SIZE] assms(4) by auto
  have li: "length img = CFG_ENV_SIZE" using assms(4) by simp
  obtain cs crc where c: "crc32 (crc_st s0) 0 (drop 4 img) = (cs, crc)" by fastforce
  let ?s1 = "(load_image img s0)\<lparr>crc_st := cs, default_env := default_environment, env_valid := False\<rparr>"
  have "crc32 (crc_st (load_image img s0)) 0 (map of_char (env_data (load_image img s0))) = (cs, crc)"
    using c byte_char_roundtrip [of "drop 4 img"] by (simp add: load_image_def del: map_map)
  moreover have "crc \<noteq> hdr_crc (load_image img s0)" using assms(5) c by (simp add: load_image_def)
  ultimately have init: "spi_env_init ops (Some mem0) s0 f = (?s1, f1, 0)"
    using f1 li assms(3) by (simp add: spi_env_init_def Let_def)
  have "crc_wf cs" using crc32_wf [OF assms(2)] c by (metis fst_conv)
  then obtain s2 where "env_relocate ops mem1 ?s1 f1 = (s2, f1)" "env_ok s2 default_vars" "crc_ok s2"
    using env_relocate_defaults [of ?s1 ops mem1 f1] by auto
  with init show ?thesis by (auto intro!: exI)
qed

theorem corrupt_flash_gives_defaults_witness:
  "\<exists>f s1 f1 s2 f2. spi_env_init (nor_device 0x10000) (Some (replicate CFG_ENV_SIZE 0)) blank_env f = (s1, f1, 0) \<and>
     env_relocate (nor_device 0x10000) (replicate CFG_ENV_SIZE 0) s1 f1 = (s2, f2) \<and> env_ok s2 default_vars"
proof -
  define img where "img = (\<lambda>c :: nat \<Rightarrow> u8. map c [flash_addr..<flash_addr + CFG_ENV_SIZE])"
  define cell where "cell = (\<lambda>b x. if Suc x = flash_addr + CFG_ENV_SIZE then b else 0 :: u8)"
  have wf: "crc_wf (crc_st blank_env)" using blank_env_ok by (simp add: env_ok_def)
  have n: "5 \<le> CFG_ENV_SIZE" by (simp add: flash_consts)
  then obtain e where e: "flash_addr + CFG_ENV_SIZE = Suc e" "flash_addr + 4 \<le> e"
    by (cases "flash_addr + CFG_ENV_SIZE") auto
  have "drop 4 (img (cell b)) = map (\<lambda>_. 0) [flash_addr + 4..<e] @ [b]" for b
    unfolding img_def e(1) using e(2) by (simp add: drop_map drop_upt cell_def e(1) del: upt_rec_numeral)
  then have "snd (crc32 (crc_st blank_env) 0 (drop 4 (img (cell 0)))) \<noteq> snd (crc32 (crc_st blank_env) 0 (drop 4 (img (cell 1))))"
    using crc32_byte_sensitive [OF wf, of 0 1 0 "map (\<lambda>_. 0) [flash_addr + 4..<e]" "[]"] by simp
  moreover have "of_le32 (img (cell b)) = 0" for b
    using n by (simp add: of_le32_def img_def cell_def del: upt_rec_numeral)
  ultimately obtain b where "snd (crc32 (crc_st blank_env) 0 (drop 4 (img (cell b)))) \<noteq> of_le32 (img (cell b))"
    by metis
  then show ?thesis
    using corrupt_flash_gives_defaults [OF nor_device_chip [of "0x10000"] wf, of "replicate CFG_ENV_SIZE 0" "img (cell b)"
        "\<lparr>nor_cells = cell b, nor_wel = False, nor_prot = False\<rparr>" "replicate CFG_ENV_SIZE 0"]
    by (simp add: img_def) metis
qed

lemma default_ethaddr_value:
  "var_value (''ethaddr='' @ [CHR 0x22] @ ''00:AA:BB:CC:DD:10'' @ [CHR 0x22]) = [CHR 0x22] @ ''00:AA:BB:CC:DD:10'' @ [CHR 0x22]"
  by (simp add: var_value_def)

text \<open>The default \<open>ethaddr\<close> is stringified together with the quotes of its macro, so the loop that reads it
  into \<open>bi_enetaddr\<close> takes the leading quote for an empty first field: the address in use is shifted.\<close>

lemma default_ethaddr_shifted:
  "mac_fields 6 ([CHR 0x22] @ ''00:AA:BB:CC:DD:10'' @ [CHR 0x22]) = [0, 0, 0xAA, 0xBB, 0xCC, 0xDD]"
proof -
  have six: "(6 :: nat) = Suc (Suc (Suc (Suc (Suc (Suc 0)))))" by simp
  show ?thesis unfolding six
    by (simp add: simple_strtoul_def next_field_def peek_def NUL_def isxdigit_range isdigit_range
        digit_value_def islower_ascii)
qed

end
