(* ===== verification/Fat.thy ===== *)
theory Fat
  imports Image
begin

text \<open>
  Reading a file of a FAT file system (\<open>fs/fat/fat.c\<close> with \<open>include/fat.h\<close>), from the block device that \<open>fat_register_device\<close> chose. The block
  device is a parameter: reading \<open>n\<close> blocks returns a count and the bytes it stored. Buffers are lists of bytes; a store or a read outside of them,
  and the use of bytes a device did not deliver, is \<open>None\<close>. A directory entry and a slot of a long name are 32 bytes. Messages are left out, except
  the listing of a directory.
\<close>

subsection \<open>Block devices and state\<close>

record block_dev =
  part_type :: u8
  dev_type :: u8
  dev_lba :: u32
  dev_blksz :: u32
  block_read :: "(u32 \<Rightarrow> u32 \<Rightarrow> u32 \<times> u8 list) option"

record disk_partition =
  p_start :: u32
  p_size :: u32
  p_blksz :: u32
  p_type :: string

datatype ls_line = Ls_file u32 "u8 list" | Ls_dir "u8 list" | Ls_total int int

record fat_state =
  cur_dev :: "block_dev option"
  cur_part_nr :: int
  cur_part_info :: disk_partition
  get_vfatname_block :: "u8 list"
  get_dentfromdir_block :: "u8 list"
  do_fat_read_block :: "u8 list"
  ls_lines :: "ls_line list"

record fsdata =
  fatsize :: int
  fatlength :: u16
  fat_sect :: u16
  rootdir_sect :: u16
  sect_size :: u16
  clust_size :: u16
  fatbuf :: "u8 list"
  fatbufnum :: u32
  data_begin :: u16

definition MAX_CLUSTSIZE :: nat where "MAX_CLUSTSIZE = 65536"
definition VFAT_MAXLEN_BYTES :: nat where "VFAT_MAXLEN_BYTES = 256"
definition VFAT_MAXSEQ :: nat where "VFAT_MAXSEQ = 9"
definition PREFETCH_BLOCKS :: nat where "PREFETCH_BLOCKS = 2"
definition FATBUFBLOCKS :: nat where "FATBUFBLOCKS = 6"
definition DELETED_FLAG :: u8 where "DELETED_FLAG = 0xe5"
definition aRING :: u8 where "aRING = 0x05"
definition LAST_LONG_ENTRY_MASK :: u8 where "LAST_LONG_ENTRY_MASK = 0x40"
definition ATTR_VOLUME :: u8 where "ATTR_VOLUME = 8"
definition ATTR_DIR :: u8 where "ATTR_DIR = 16"
definition ATTR_VFAT :: u8 where "ATTR_VFAT = 15"
definition LS_NO :: nat where "LS_NO = 0"
definition LS_YES :: nat where "LS_YES = 1"
definition LS_ROOT :: nat where "LS_ROOT = 2"

definition FATBUFSIZE :: "fsdata \<Rightarrow> nat" where "FATBUFSIZE fs = unat (sect_size fs) * FATBUFBLOCKS"
definition DIRENTSPERBLOCK :: "fsdata \<Rightarrow> nat" where "DIRENTSPERBLOCK fs = unat (sect_size fs) div 32"
definition DIRENTSPERCLUST :: "fsdata \<Rightarrow> nat" where "DIRENTSPERCLUST fs = unat (clust_size fs) * unat (sect_size fs) div 32"

definition ISDIRDELIM :: "u8 \<Rightarrow> bool" where "ISDIRDELIM c \<longleftrightarrow> c = 0x2F \<or> c = 0x5C"
definition TOLOWER :: "u8 \<Rightarrow> u8" where "TOLOWER c = (if 65 \<le> c \<and> c \<le> 90 then c + 32 else c)"

definition CHECK_CLUST :: "u32 \<Rightarrow> int \<Rightarrow> bool" where
  "CHECK_CLUST x bits \<longleftrightarrow> x \<le> 1 \<or> x \<ge> (if bits \<noteq> 32 then 0xfff0 else 0xffffff0)"

subsection \<open>Buffers\<close>

definition half_at :: "u8 list \<Rightarrow> nat \<Rightarrow> u16" where "half_at bs i = ucast (bs ! i) OR push_bit 8 (ucast (bs ! (i + 1)))"

definition into_buf :: "u8 list \<Rightarrow> u8 list \<Rightarrow> u8 list option" where
  "into_buf bs buf = (if length bs \<le> length buf then Some (bs @ drop (length bs) buf) else None)"

definition entry_at :: "u8 list \<Rightarrow> nat \<Rightarrow> u8 list option" where
  "entry_at buf i = (if 32 * i + 32 \<le> length buf then Some (take 32 (drop (32 * i) buf)) else None)"

definition put_entry :: "nat \<Rightarrow> u8 list \<Rightarrow> u8 list \<Rightarrow> u8 list" where
  "put_entry i d buf = take (32 * i) buf @ d @ drop (32 * i + 32) buf"

definition d_attr :: "u8 list \<Rightarrow> u8" where "d_attr d = d ! 11"
definition d_size :: "u8 list \<Rightarrow> u32" where "d_size d = word_at d 28"

definition START :: "fsdata \<Rightarrow> u8 list \<Rightarrow> u32" where
  "START fs d = ucast (half_at d 26) + (if fatsize fs \<noteq> 32 then 0 else push_bit 16 (ucast (half_at d 20)))"

subsection \<open>Blocks\<close>

definition disk_read :: "fat_state \<Rightarrow> u32 \<Rightarrow> u32 \<Rightarrow> int \<times> u8 list" where
  "disk_read st blk nr_blocks =
     (case cur_dev st of
        None \<Rightarrow> (- 1, [])
      | Some d \<Rightarrow>
          (case block_read d of
             None \<Rightarrow> (- 1, [])
           | Some read_fn \<Rightarrow> map_prod sint id (read_fn (p_start (cur_part_info st) + blk) nr_blocks)))"

text \<open>The result of \<open>get_cluster\<close>: whether it succeeded, and the bytes it stored from the start of its buffer.\<close>

definition get_cluster :: "fat_state \<Rightarrow> fsdata \<Rightarrow> u32 \<Rightarrow> u32 \<Rightarrow> (bool \<times> u8 list) option" where
  "get_cluster st fs clustnum len =
     (if sect_size fs = 0 then None
      else (let startsect = (if clustnum > 0 then signed (data_begin fs) + clustnum * ucast (clust_size fs) else ucast (rootdir_sect fs));
                sect = ucast (sect_size fs) :: u32;
                nr_sect = len div sect;
                (r, bs) = disk_read st startsect nr_sect
            in if word_of_int r \<noteq> nr_sect then Some (False, bs)
               else if length bs \<noteq> unat nr_sect * unat sect then None
               else if len mod sect = 0 then Some (True, bs)
               else (let (r, tmp) = disk_read st (startsect + nr_sect) 1
                     in if length tmp > unat sect then None
                        else if r \<noteq> 1 then Some (False, bs)
                        else if length tmp \<noteq> unat sect then None
                        else Some (True, bs @ take (unat (len mod sect)) tmp))))"

subsection \<open>The table\<close>

definition ents_per_buf :: "fsdata \<Rightarrow> nat option" where
  "ents_per_buf fs =
     (if fatsize fs = 32 then Some (FATBUFSIZE fs div 4)
      else if fatsize fs = 16 then Some (FATBUFSIZE fs div 2)
      else if fatsize fs = 12 then Some (FATBUFSIZE fs * 2 div 3)
      else None)"

text \<open>A new block of entries comes into the cache; \<open>Inl\<close> is a failed read.\<close>

definition fat_cache :: "fat_state \<Rightarrow> nat \<Rightarrow> fsdata \<Rightarrow> (fsdata + fsdata) option" where
  "fat_cache st bufnum fs =
     (if of_nat bufnum = fatbufnum fs then Some (Inr fs)
      else (let getsize = min (of_nat FATBUFBLOCKS) (ucast (fatlength fs));
                startblock = of_nat bufnum * of_nat FATBUFBLOCKS + ucast (fat_sect fs);
                (r, bs) = disk_read st startblock getsize
            in do {
              buf \<leftarrow> into_buf bs (fatbuf fs);
              let fs = fs\<lparr>fatbuf := buf\<rparr>;
              Some (if r < 0 then Inl fs else Inr (fs\<lparr>fatbufnum := of_nat bufnum\<rparr>))
            }))"

definition buf16 :: "u8 list \<Rightarrow> nat \<Rightarrow> u16 option" where "buf16 b i = (if 2 * i + 2 \<le> length b then Some (half_at b (2 * i)) else None)"
definition buf32 :: "u8 list \<Rightarrow> nat \<Rightarrow> u32 option" where "buf32 b i = (if 4 * i + 4 \<le> length b then Some (word_at b (4 * i)) else None)"

definition fat12_ent :: "u8 list \<Rightarrow> nat \<Rightarrow> u32 option" where
  "fat12_ent b offset =
     (let off16 = offset * 3 div 4
      in if offset mod 4 = 0 then do { v \<leftarrow> buf16 b off16; Some (ucast v AND 0xfff) }
         else if offset mod 4 = 1
         then do { v1 \<leftarrow> buf16 b off16; v2 \<leftarrow> buf16 b (off16 + 1);
                   Some (push_bit 4 (ucast (v2 AND 0x00ff)) OR drop_bit 12 (ucast (v1 AND 0xf000))) }
         else if offset mod 4 = 2
         then do { v1 \<leftarrow> buf16 b off16; v2 \<leftarrow> buf16 b (off16 + 1);
                   Some (push_bit 8 (ucast (v2 AND 0x000f)) OR drop_bit 8 (ucast (v1 AND 0xff00))) }
         else do { v \<leftarrow> buf16 b off16; Some (drop_bit 4 (ucast v AND 0xfff0)) })"

definition get_fatent :: "fat_state \<Rightarrow> u32 \<Rightarrow> fsdata \<Rightarrow> (u32 \<times> fsdata) option" where
  "get_fatent st entry fs =
     (case ents_per_buf fs of
        None \<Rightarrow> Some (0, fs)
      | Some per \<Rightarrow>
          if per = 0 then None
          else (let bufnum = unat entry div per; offset = unat entry mod per
                in do {
                  r \<leftarrow> fat_cache st bufnum fs;
                  case r of
                    Inl fs \<Rightarrow> Some (0, fs)
                  | Inr fs \<Rightarrow>
                      do {
                        v \<leftarrow> (if fatsize fs = 32 then buf32 (fatbuf fs) offset
                             else if fatsize fs = 16 then map_option ucast (buf16 (fatbuf fs) offset)
                             else fat12_ent (fatbuf fs) offset);
                        Some (v, fs)
                      }
                }))"

subsection \<open>The contents of a file\<close>

text \<open>How the search for consecutive clusters ends: at a break in the run, at an invalid entry, or with enough clusters for the rest of the file.\<close>

datatype run_end = Run_break | Run_invalid | Run_enough

partial_function (option) find_run :: "fat_state \<Rightarrow> u32 \<Rightarrow> u32 \<Rightarrow> u32 \<Rightarrow> u32 \<Rightarrow> fsdata \<Rightarrow> (run_end \<times> u32 \<times> u32 \<times> fsdata) option" where
  "find_run st bpc fsize endclust actsize fs =
     (if actsize < fsize
      then Option.bind (get_fatent st endclust fs) (\<lambda>(newclust, fs).
        if newclust - 1 \<noteq> endclust then Some (Run_break, endclust, actsize, fs)
        else if CHECK_CLUST newclust (fatsize fs) then Some (Run_invalid, endclust, actsize, fs)
        else find_run st bpc fsize newclust (actsize + bpc) fs)
      else Some (Run_enough, endclust, actsize, fs))"

definition ram_put :: "u32 \<Rightarrow> u8 list \<Rightarrow> (u32 \<Rightarrow> u8) \<Rightarrow> u32 \<Rightarrow> u8" where
  "ram_put a bs r = ram_copy a (\<lambda>i. bs ! i) (of_nat (length bs)) r"

text \<open>One call of \<open>get_cluster\<close> into memory.\<close>

definition load_clusters :: "fat_state \<Rightarrow> fsdata \<Rightarrow> u32 \<Rightarrow> u32 \<Rightarrow> u32 \<Rightarrow> (u32 \<Rightarrow> u8) \<Rightarrow> (bool \<times> (u32 \<Rightarrow> u8)) option" where
  "load_clusters st fs clust len buffer r = do { (ok, bs) \<leftarrow> get_cluster st fs clust len; Some (ok, ram_put buffer bs r) }"

partial_function (option) contents_loop ::
  "fat_state \<Rightarrow> u32 \<Rightarrow> u32 \<Rightarrow> u32 \<Rightarrow> u32 \<Rightarrow> u32 \<Rightarrow> (u32 \<Rightarrow> u8) \<Rightarrow> fsdata \<Rightarrow> (u32 \<times> (u32 \<Rightarrow> u8) \<times> fsdata) option" where
  "contents_loop st bpc curclust fsize gotsize buffer r fs =
     Option.bind (find_run st bpc fsize curclust bpc fs) (\<lambda>(end_of_run, endclust, actsize, fs).
       case end_of_run of
         Run_invalid \<Rightarrow> Some (gotsize, r, fs)
       | Run_enough \<Rightarrow>
           (let actsize = actsize - bpc
            in Option.bind (load_clusters st fs curclust actsize buffer r) (\<lambda>(ok, r).
              if \<not> ok then Some (- 1, r, fs)
              else (let gotsize = gotsize + actsize; fsize = fsize - actsize; buffer = buffer + actsize
                    in Option.bind (load_clusters st fs endclust fsize buffer r) (\<lambda>(ok, r).
                      Some (if ok then gotsize + fsize else - 1, r, fs)))))
       | Run_break \<Rightarrow>
           Option.bind (load_clusters st fs curclust actsize buffer r) (\<lambda>(ok, r).
             if \<not> ok then Some (- 1, r, fs)
             else (let gotsize = gotsize + actsize; fsize = fsize - actsize; buffer = buffer + actsize
                   in Option.bind (get_fatent st endclust fs) (\<lambda>(curclust, fs).
                     if CHECK_CLUST curclust (fatsize fs) then Some (gotsize, r, fs)
                     else contents_loop st bpc curclust fsize gotsize buffer r fs))))"

definition get_contents :: "fat_state \<Rightarrow> u8 list \<Rightarrow> u32 \<Rightarrow> u32 \<Rightarrow> (u32 \<Rightarrow> u8) \<Rightarrow> fsdata \<Rightarrow> (u32 \<times> (u32 \<Rightarrow> u8) \<times> fsdata) option" where
  "get_contents st dentptr buffer maxsize r fs =
     (let fsize = (if maxsize > 0 \<and> d_size dentptr > maxsize then maxsize else d_size dentptr)
      in contents_loop st (ucast (clust_size fs) * ucast (sect_size fs)) (START fs dentptr) fsize 0 buffer r fs)"

end
