(* ===== verification/FatDir.thy ===== *)
theory FatDir
  imports Fat
begin

text \<open>
  The directories of a FAT file system: names, long names, the search in a directory, and \<open>do_fat_read\<close> (\<open>fs/fat/fat.c\<close>). A C string is the list of
  its bytes before the NUL. The entries are read from the block buffers, where a long name replaces its first slot by the entry it belongs to.
\<close>

subsection \<open>Names\<close>

definition downcase :: "u8 list \<Rightarrow> u8 list" where "downcase = map TOLOWER"

fun dirdelim :: "u8 list \<Rightarrow> nat option" where
  "dirdelim [] = None"
| "dirdelim (c # cs) = (if ISDIRDELIM c then Some 0 else map_option Suc (dirdelim cs))"

definition unmark :: "u8 list \<Rightarrow> u8 list" where
  "unmark s = (case s of [] \<Rightarrow> [] | c # cs \<Rightarrow> if c = DELETED_FLAG then [] else if c = aRING then DELETED_FLAG # cs else s)"

definition name_part :: "u8 list \<Rightarrow> u8 list" where "name_part = takeWhile (\<lambda>c. c \<noteq> 0 \<and> c \<noteq> 0x20)"

definition get_name :: "u8 list \<Rightarrow> u8 list" where
  "get_name d =
     (let base = name_part (take 8 d);
          ext = take 3 (drop 8 d)
      in downcase (unmark (if ext ! 0 \<noteq> 0 \<and> ext ! 0 \<noteq> 0x20 then base @ 0x2E # name_part ext else base)))"

definition mkcksum :: "u8 list \<Rightarrow> u8" where
  "mkcksum str = foldl (\<lambda>ret c. (push_bit 7 (ret AND 1) OR drop_bit 1 (ret AND 0xfe)) + c) 0 (take 11 str)"

subsection \<open>Long names\<close>

definition slot_chars :: "u8 list \<Rightarrow> u8 list" where
  "slot_chars d = map (\<lambda>i. d ! i) [1, 3, 5, 7, 9, 14, 16, 18, 20, 22, 24, 28, 30]"

text \<open>The name so far, and whether its end was found. A character behind the 256 bytes of the array is \<open>None\<close>.\<close>

definition slot2str :: "u8 list \<Rightarrow> u8 list \<Rightarrow> (bool \<times> u8 list) option" where
  "slot2str d name =
     (let cs = takeWhile (\<lambda>c. c \<noteq> 0) (slot_chars d); fin = 0 \<in> set (slot_chars d)
      in if length name + length cs + (if fin then 1 else 0) \<le> VFAT_MAXLEN_BYTES then Some (fin, name @ cs) else None)"

definition slot_num :: "u8 list \<Rightarrow> nat" where "slot_num d = unat ((d ! 0) AND NOT LAST_LONG_ENTRY_MASK)"

text \<open>Over the slots with the numbers \<open>counter\<close> down to 1, as long as they lie below \<open>buflimit\<close>: the index behind them and the number left, \<open>Inl\<close> for a wrong
  number.\<close>

fun walk_slots :: "u8 list \<Rightarrow> nat \<Rightarrow> nat \<Rightarrow> nat \<Rightarrow> (unit + nat \<times> nat) option" where
  "walk_slots buf buflimit i 0 = Some (Inr (i, 0))"
| "walk_slots buf buflimit i (Suc counter) =
     (if 32 * i < buflimit
      then do { d \<leftarrow> entry_at buf i; if slot_num d \<noteq> Suc counter then Some (Inl ()) else walk_slots buf buflimit (i + 1) counter }
      else Some (Inr (i, Suc counter)))"

text \<open>Backwards over the slots below index \<open>i\<close>: all of them, in the block of the next cluster, or up to the one marked as last or the end of the name.\<close>

fun names_down :: "u8 list \<Rightarrow> nat \<Rightarrow> u8 list \<Rightarrow> u8 list option" where
  "names_down buf 0 name = Some name"
| "names_down buf (Suc i) name = do { d \<leftarrow> entry_at buf i; (_, name) \<leftarrow> slot2str d name; names_down buf i name }"

fun names_back :: "u8 list \<Rightarrow> nat \<Rightarrow> u8 list \<Rightarrow> u8 list option" where
  "names_back buf 0 name = None"
| "names_back buf (Suc i) name =
     do {
       d \<leftarrow> entry_at buf i;
       (fin, name) \<leftarrow> slot2str d name;
       if fin \<or> (d ! 0) AND LAST_LONG_ENTRY_MASK \<noteq> 0 then Some name else names_back buf i name
     }"

text \<open>The next cluster of the directory in \<open>get_vfatname_block\<close>, and whether it was read.\<close>

definition next_slots :: "fat_state \<Rightarrow> u32 \<Rightarrow> fsdata \<Rightarrow> (bool \<times> fat_state \<times> fsdata) option" where
  "next_slots st curclust fs =
     do {
       (curclust, fs) \<leftarrow> get_fatent st curclust fs;
       if CHECK_CLUST curclust (fatsize fs) then Some (False, st, fs)
       else do {
         (ok, bs) \<leftarrow> get_cluster st fs curclust (ucast (clust_size fs) * ucast (sect_size fs));
         buf \<leftarrow> into_buf bs (get_vfatname_block st);
         Some (ok, st\<lparr>get_vfatname_block := buf\<rparr>, fs)
       }
     }"

text \<open>The result of \<open>get_vfatname\<close>: the long name and the buffer with the real entry in place of the first slot, \<open>None\<close> for \<open>-1\<close>.\<close>

definition get_vfatname ::
  "fat_state \<Rightarrow> u32 \<Rightarrow> u8 list \<Rightarrow> nat \<Rightarrow> fsdata \<Rightarrow> ((u8 list \<times> u8 list) option \<times> fat_state \<times> fsdata) option" where
  "get_vfatname st curclust cluster i fs =
     do {
       retdent \<leftarrow> entry_at cluster i;
       let buflimit = unat (sect_size fs) * (if curclust = 0 then PREFETCH_BLOCKS else unat (clust_size fs));
       let counter = slot_num retdent;
       if counter > VFAT_MAXSEQ then Some (None, st, fs)
       else do {
         w \<leftarrow> walk_slots cluster buflimit i counter;
         case w of
           Inl _ \<Rightarrow> Some (None, st, fs)
         | Inr (j, left) \<Rightarrow>
             if 32 * j \<ge> buflimit
             then (if curclust = 0 then Some (None, st, fs)
                   else do {
                     (ok, st, fs) \<leftarrow> next_slots st curclust fs;
                     if \<not> ok then Some (None, st, fs)
                     else
                         do {
                           w \<leftarrow> walk_slots (get_vfatname_block st) (length (get_vfatname_block st) + 32 * left) 0 left;
                           case w of
                             Inl _ \<Rightarrow> Some (None, st, fs)
                           | Inr (k, _) \<Rightarrow>
                               do {
                                 realdent \<leftarrow> entry_at (get_vfatname_block st) k;
                                 name \<leftarrow> names_down (get_vfatname_block st) k [];
                                 name \<leftarrow> names_back cluster j name;
                                 if length name \<ge> VFAT_MAXLEN_BYTES then None
                                 else Some (Some (downcase (unmark name), put_entry i realdent cluster), st, fs)
                               }
                         }
                   })
             else do {
               realdent \<leftarrow> entry_at cluster j;
               name \<leftarrow> names_back cluster j [];
               if length name \<ge> VFAT_MAXLEN_BYTES then None
               else Some (Some (downcase (unmark name), put_entry i realdent cluster), st, fs)
             }
       }
     }"

subsection \<open>Searching a directory\<close>

record dir_scan =
  sc_st :: fat_state
  sc_fs :: fsdata
  prevcksum :: u16
  n_files :: int
  n_dirs :: int

datatype scan_end = Sc_next | Sc_end | Sc_found "u8 list" | Sc_stop

definition ls_print :: "ls_line \<Rightarrow> dir_scan \<Rightarrow> dir_scan" where
  "ls_print l sc = sc\<lparr>sc_st := (sc_st sc)\<lparr>ls_lines := ls_lines (sc_st sc) @ [l]\<rparr>\<rparr>"

definition ls_total :: "dir_scan \<Rightarrow> dir_scan" where "ls_total sc = ls_print (Ls_total (n_files sc) (n_dirs sc)) sc"

text \<open>A directory without a name is listed, except by its short name in the root directory.\<close>

definition ls_entry :: "bool \<Rightarrow> u8 list \<Rightarrow> u8 list \<Rightarrow> dir_scan \<Rightarrow> dir_scan" where
  "ls_entry unnamed_dir d name sc =
     (if d_attr d AND ATTR_DIR \<noteq> 0
      then (if unnamed_dir \<or> name \<noteq> [] then ls_print (Ls_dir name) (sc\<lparr>n_dirs := n_dirs sc + 1\<rparr>) else sc)
      else if name \<noteq> [] then ls_print (Ls_file (d_size d) name) (sc\<lparr>n_files := n_files sc + 1\<rparr>)
      else sc)"

definition is_long :: "u8 list \<Rightarrow> bool" where
  "is_long d \<longleftrightarrow> d_attr d AND ATTR_VFAT = ATTR_VFAT \<and> (d ! 0) AND LAST_LONG_ENTRY_MASK \<noteq> 0"

text \<open>The long name that starts at an entry; a failure leaves it empty and the entry in place.\<close>

definition take_long :: "u32 \<Rightarrow> nat \<Rightarrow> u8 list \<Rightarrow> u8 list \<Rightarrow> dir_scan \<Rightarrow> (u8 list \<times> u8 list \<times> dir_scan) option" where
  "take_long curclust i d buf sc =
     do {
       (r, st, fs) \<leftarrow> get_vfatname (sc_st sc) curclust buf i (sc_fs sc);
       let sc = sc\<lparr>sc_st := st, sc_fs := fs, prevcksum := ucast (d ! 13)\<rparr>;
       Some (case r of None \<Rightarrow> ([], buf, sc) | Some (l_name, buf) \<Rightarrow> (l_name, buf, sc))
     }"

fun scan_entries ::
  "(nat \<Rightarrow> u8 list \<Rightarrow> dir_scan \<Rightarrow> (scan_end \<times> u8 list \<times> dir_scan) option) \<Rightarrow> nat \<Rightarrow> nat \<Rightarrow> u8 list \<Rightarrow> dir_scan \<Rightarrow> (scan_end \<times> u8 list \<times> dir_scan) option" where
  "scan_entries step 0 i buf sc = Some (Sc_next, buf, sc)"
| "scan_entries step (Suc n) i buf sc =
     do { (r, buf, sc) \<leftarrow> step i buf sc; if r = Sc_next then scan_entries step n (i + 1) buf sc else Some (r, buf, sc) }"

definition dent_step :: "u8 list \<Rightarrow> nat \<Rightarrow> u32 \<Rightarrow> nat \<Rightarrow> u8 list \<Rightarrow> dir_scan \<Rightarrow> (scan_end \<times> u8 list \<times> dir_scan) option" where
  "dent_step filename dols curclust i buf sc =
     do {
       d \<leftarrow> entry_at buf i;
       if d ! 0 = DELETED_FLAG then Some (Sc_next, buf, sc)
       else if d_attr d AND ATTR_VOLUME \<noteq> 0 \<and> \<not> is_long d then Some (Sc_next, buf, sc)
       else do {
         let long = (d_attr d AND ATTR_VOLUME \<noteq> 0);
         (l_name, buf, sc) \<leftarrow> (if long then take_long curclust i d buf sc else Some ([], buf, sc));
         d \<leftarrow> entry_at buf i;
         if long \<and> dols \<noteq> 0 then Some (Sc_next, buf, ls_entry True d l_name sc)
         else if d ! 0 = 0 then Some (Sc_end, buf, if dols \<noteq> 0 then ls_total sc else sc)
         else if dols \<noteq> 0 \<and> ucast (mkcksum d) = prevcksum sc then Some (Sc_next, buf, sc\<lparr>prevcksum := 0xffff\<rparr>)
         else (let s_name = get_name d
               in if dols \<noteq> 0 then Some (Sc_next, buf, ls_entry True d s_name sc)
                  else if filename \<noteq> s_name \<and> filename \<noteq> l_name then Some (Sc_next, buf, sc)
                  else Some (Sc_found d, buf, sc))
       }
     }"

partial_function (option) dent_loop :: "u8 list \<Rightarrow> nat \<Rightarrow> u32 \<Rightarrow> dir_scan \<Rightarrow> (u8 list option \<times> dir_scan) option" where
  "dent_loop filename dols curclust sc =
     Option.bind (get_cluster (sc_st sc) (sc_fs sc) curclust (ucast (clust_size (sc_fs sc)) * ucast (sect_size (sc_fs sc)))) (\<lambda>(ok, bs).
     Option.bind (into_buf bs (get_dentfromdir_block (sc_st sc))) (\<lambda>buf.
       if \<not> ok then Some (None, sc\<lparr>sc_st := (sc_st sc)\<lparr>get_dentfromdir_block := buf\<rparr>\<rparr>)
       else Option.bind (scan_entries (dent_step filename dols curclust) (DIRENTSPERCLUST (sc_fs sc)) 0 buf sc) (\<lambda>(r, buf, sc).
         let sc = sc\<lparr>sc_st := (sc_st sc)\<lparr>get_dentfromdir_block := buf\<rparr>\<rparr>
         in case r of
              Sc_found d \<Rightarrow> Some (Some d, sc)
            | Sc_next \<Rightarrow>
                Option.bind (get_fatent (sc_st sc) curclust (sc_fs sc)) (\<lambda>(curclust, fs).
                  if CHECK_CLUST curclust (fatsize fs) then Some (None, sc\<lparr>sc_fs := fs\<rparr>)
                  else dent_loop filename dols curclust (sc\<lparr>sc_fs := fs\<rparr>))
            | _ \<Rightarrow> Some (None, sc))))"

definition get_dentfromdir :: "fat_state \<Rightarrow> fsdata \<Rightarrow> u8 list \<Rightarrow> u8 list \<Rightarrow> nat \<Rightarrow> (u8 list option \<times> fat_state \<times> fsdata) option" where
  "get_dentfromdir st fs filename retdent dols =
     map_option (\<lambda>(r, sc). (r, sc_st sc, sc_fs sc))
       (dent_loop filename dols (START fs retdent) \<lparr>sc_st = st, sc_fs = fs, prevcksum = 0xffff, n_files = 0, n_dirs = 0\<rparr>)"

subsection \<open>The root directory\<close>

definition root_step :: "u8 list \<Rightarrow> bool \<Rightarrow> nat \<Rightarrow> u32 \<Rightarrow> nat \<Rightarrow> u8 list \<Rightarrow> dir_scan \<Rightarrow> (scan_end \<times> u8 list \<times> dir_scan) option" where
  "root_step fname isdir dols root_cluster i buf sc =
     do {
       d \<leftarrow> entry_at buf i;
       if d ! 0 = DELETED_FLAG then Some (Sc_next, buf, sc)
       else if d_attr d AND ATTR_VOLUME \<noteq> 0 \<and> \<not> is_long d then Some (Sc_next, buf, sc)
       else do {
         let long = (d_attr d AND ATTR_VOLUME \<noteq> 0);
         (l_name, buf, sc) \<leftarrow> (if long then take_long root_cluster i d buf sc else Some ([], buf, sc));
         d \<leftarrow> entry_at buf i;
         if long \<and> dols = LS_ROOT then Some (Sc_next, buf, ls_entry True d l_name sc)
         else if \<not> long \<and> d ! 0 = 0 then Some (Sc_end, buf, if dols = LS_ROOT then ls_total sc else sc)
         else if \<not> long \<and> dols = LS_ROOT \<and> ucast (mkcksum d) = prevcksum sc then Some (Sc_next, buf, sc\<lparr>prevcksum := 0xffff\<rparr>)
         else (let s_name = get_name d
               in if dols = LS_ROOT then Some (Sc_next, buf, ls_entry False d s_name sc)
                  else if fname \<noteq> s_name \<and> fname \<noteq> l_name then Some (Sc_next, buf, sc)
                  else if isdir \<and> d_attr d AND ATTR_DIR = 0 then Some (Sc_stop, buf, sc)
                  else Some (Sc_found d, buf, sc))
       }
     }"

text \<open>\<open>Inl\<close> is the value of \<open>ret\<close> at \<open>exit\<close>, \<open>Inr\<close> the entry found.\<close>

definition root_exit :: "nat \<Rightarrow> u32" where "root_exit dols = (if dols = LS_ROOT then 0 else - 1)"

partial_function (option) root_loop ::
  "u8 list \<Rightarrow> bool \<Rightarrow> nat \<Rightarrow> int \<Rightarrow> u32 \<Rightarrow> u32 \<Rightarrow> int \<Rightarrow> dir_scan \<Rightarrow> ((u32 + u8 list) \<times> dir_scan) option" where
  "root_loop fname isdir dols rootdir_size cursect root_cluster j sc =
     (case disk_read (sc_st sc) cursect (if fatsize (sc_fs sc) = 32 then ucast (clust_size (sc_fs sc)) else of_nat PREFETCH_BLOCKS) of (r, bs) \<Rightarrow>
      Option.bind (into_buf bs (do_fat_read_block (sc_st sc))) (\<lambda>buf.
        if r < 0 then Some (Inl (- 1), sc\<lparr>sc_st := (sc_st sc)\<lparr>do_fat_read_block := buf\<rparr>\<rparr>)
        else Option.bind (scan_entries (root_step fname isdir dols root_cluster) (DIRENTSPERBLOCK (sc_fs sc)) 0 buf sc) (\<lambda>(r, buf, sc).
          let sc = sc\<lparr>sc_st := (sc_st sc)\<lparr>do_fat_read_block := buf\<rparr>\<rparr>; j = j + 1; fs = sc_fs sc
          in case r of
               Sc_found d \<Rightarrow> Some (Inr d, sc)
             | Sc_end \<Rightarrow> Some (Inl (root_exit dols), sc)
             | Sc_stop \<Rightarrow> Some (Inl (- 1), sc)
             | Sc_next \<Rightarrow>
                 if fatsize fs = 32 \<and> j = uint (clust_size fs)
                 then Option.bind (get_fatent (sc_st sc) root_cluster fs) (\<lambda>(nxt, fs).
                   if CHECK_CLUST nxt 32
                   then Some (Inl (root_exit dols), if dols = LS_ROOT then ls_total (sc\<lparr>sc_fs := fs\<rparr>) else sc\<lparr>sc_fs := fs\<rparr>)
                   else root_loop fname isdir dols rootdir_size (signed (data_begin fs) + nxt * ucast (clust_size fs)) nxt 0 (sc\<lparr>sc_fs := fs\<rparr>))
                 else if fatsize fs \<noteq> 32 \<and> j = rootdir_size
                 then Some (Inl (root_exit dols), if dols = LS_ROOT then ls_total sc else sc)
                 else root_loop fname isdir dols rootdir_size (cursect + 1) root_cluster j sc)))"

end
