(* ===== verification/FatRead.thy ===== *)
theory FatRead
  imports FatDir
begin

text \<open>
  The boot sector, \<open>do_fat_read\<close> and the registration of a device (\<open>fs/fat/fat.c\<close>), with the partition tables it looks at (\<open>disk/part.c\<close>,
  \<open>disk/part_dos.c\<close>). The argument \<open>fresh\<close> gives the bytes of a new block of memory, which are not defined. The test of \<open>malloc\<close>'s result comes after
  \<open>KSEG1ADDR\<close> and is never true; that no memory is left is not modelled.
\<close>

subsection \<open>The boot sector\<close>

record boot_sector =
  bs_sector_size :: "u8 list"
  bs_cluster_size :: u8
  bs_reserved :: u16
  bs_fats :: u8
  bs_dir_entries :: "u8 list"
  bs_fat_length :: u16
  bs_fat32_length :: u32
  bs_root_cluster :: u32

definition FAT12_SIGN :: "u8 list" where "FAT12_SIGN = [0x46, 0x41, 0x54, 0x31, 0x32, 0x20, 0x20, 0x20]"
definition FAT16_SIGN :: "u8 list" where "FAT16_SIGN = [0x46, 0x41, 0x54, 0x31, 0x36, 0x20, 0x20, 0x20]"
definition FAT32_SIGN :: "u8 list" where "FAT32_SIGN = [0x46, 0x41, 0x54, 0x33, 0x32, 0x20, 0x20, 0x20]"
definition SIGNLEN :: nat where "SIGNLEN = 8"

definition boot_sector_of :: "u8 list \<Rightarrow> boot_sector" where
  "boot_sector_of b =
     \<lparr>bs_sector_size = [b ! 11, b ! 12], bs_cluster_size = b ! 13, bs_reserved = half_at b 14, bs_fats = b ! 16,
      bs_dir_entries = [b ! 17, b ! 18], bs_fat_length = half_at b 22, bs_fat32_length = word_at b 36, bs_root_cluster = word_at b 44\<rparr>"

text \<open>The string of the volume info that follows the boot sector, or lies over the fields of FAT32.\<close>

definition fs_type :: "u8 list \<Rightarrow> u8 list" where
  "fs_type b = take SIGNLEN (drop (18 + (if half_at b 22 = 0 then 64 else 36)) b)"

text \<open>\<open>Inl\<close> is a failure.\<close>

definition read_bootsectandvi :: "(nat \<Rightarrow> u8 list) \<Rightarrow> fat_state \<Rightarrow> (unit + boot_sector \<times> int) option" where
  "read_bootsectandvi fresh st =
     (case cur_dev st of
        None \<Rightarrow> Some (Inl ())
      | Some d \<Rightarrow>
          (case disk_read st 0 1 of (r, bs) \<Rightarrow>
           do {
             b \<leftarrow> into_buf bs (fresh (unat (dev_blksz d)));
             if r < 0 then Some (Inl ())
             else if length b < 90 then None
             else (let sign = fs_type b; h = boot_sector_of b
                   in if bs_fat_length h = 0
                      then Some (if sign = FAT32_SIGN then Inr (h, 32) else Inl ())
                      else if sign = FAT12_SIGN then Some (Inr (h, 12))
                      else if sign = FAT16_SIGN then Some (Inr (h, 16))
                      else Some (Inl ()))
           }))"

text \<open>The parameters of the file system, and the first sector of the root directory.\<close>

definition rootdir_size_of :: "boot_sector \<Rightarrow> int \<Rightarrow> u16 \<Rightarrow> nat" where
  "rootdir_size_of b bits sect =
     (if bits = 32 then 0 else (unat (bs_dir_entries b ! 1) * 256 + unat (bs_dir_entries b ! 0)) * 32 div unat sect)"

definition fs_of_boot :: "boot_sector \<Rightarrow> int \<Rightarrow> fsdata" where
  "fs_of_boot b bits =
     (let flen = (if bits = 32 then ucast (bs_fat32_length b) else bs_fat_length b);
          rootdir = bs_reserved b + flen * ucast (bs_fats b);
          sect = push_bit 8 (ucast (bs_sector_size b ! 1)) + ucast (bs_sector_size b ! 0);
          clust = ucast (bs_cluster_size b)
      in \<lparr>fatsize = bits, fatlength = flen, fat_sect = bs_reserved b, rootdir_sect = rootdir, sect_size = sect, clust_size = clust,
          fatbuf = [], fatbufnum = - 1, data_begin = rootdir + of_nat (rootdir_size_of b bits sect) - 2 * clust\<rparr>)"

subsection \<open>Reading a file\<close>

definition skip_delims :: "u8 list \<Rightarrow> u8 list" where "skip_delims = dropWhile ISDIRDELIM"

text \<open>Down the directories of the path. \<open>Inl\<close> is the value of \<open>ret\<close> at \<open>exit\<close>.\<close>

partial_function (option) descend ::
  "nat \<Rightarrow> bool \<Rightarrow> u8 list \<Rightarrow> u8 list \<Rightarrow> fat_state \<Rightarrow> fsdata \<Rightarrow> ((u32 + u8 list) \<times> fat_state \<times> fsdata) option" where
  "descend dols firsttime subname dent st fs =
     (case dirdelim subname of
        Some idx \<Rightarrow>
          (let nextname = skip_delims (drop (idx + 1) subname)
           in Option.bind (get_dentfromdir st fs (take idx subname) dent 0) (\<lambda>(r, st, fs).
             case r of
               None \<Rightarrow> Some (Inl (- 1), st, fs)
             | Some d \<Rightarrow>
                 if d_attr d AND ATTR_DIR = 0 then Some (Inl (- 1), st, fs)
                 else descend dols (firsttime \<and> \<not> (dols \<noteq> 0 \<and> nextname = [])) nextname d st fs))
      | None \<Rightarrow>
          if dols \<noteq> 0 \<and> firsttime
          then Option.bind (get_dentfromdir st fs subname dent 0) (\<lambda>(r, st, fs).
            case r of None \<Rightarrow> Some (Inl (- 1), st, fs) | Some d \<Rightarrow> descend dols False subname d st fs)
          else Option.bind (get_dentfromdir st fs subname dent dols) (\<lambda>(r, st, fs).
            Some (case r of None \<Rightarrow> Inl (if dols \<noteq> 0 then 0 else - 1) | Some d \<Rightarrow> Inr d, st, fs)))"

text \<open>What the path asks for: the first name, whether it must be a directory, and the rest.\<close>

definition split_path :: "nat \<Rightarrow> u8 list \<Rightarrow> u8 list \<times> bool \<times> u8 list" where
  "split_path dols fnamecopy =
     (case dirdelim fnamecopy of
        Some idx \<Rightarrow> (take idx fnamecopy, True, skip_delims (drop (idx + 1) fnamecopy))
      | None \<Rightarrow> (fnamecopy, dols \<noteq> 0, []))"

definition do_fat_read ::
  "(nat \<Rightarrow> u8 list) \<Rightarrow> fat_state \<Rightarrow> u8 list \<Rightarrow> u32 \<Rightarrow> u32 \<Rightarrow> nat \<Rightarrow> (u32 \<Rightarrow> u8) \<Rightarrow> (u32 \<times> (u32 \<Rightarrow> u8) \<times> fat_state) option" where
  "do_fat_read fresh st filename buffer maxsize dols r =
     do {
       boot \<leftarrow> read_bootsectandvi fresh st;
       case boot of
         Inl _ \<Rightarrow> Some (- 1, r, st)
       | Inr (b, bits) \<Rightarrow>
           (let fs = fs_of_boot b bits
            in if ucast (sect_size fs) \<noteq> p_blksz (cur_part_info st) then Some (- 1, r, st)
               else if bits \<noteq> 32 \<and> sect_size fs = 0 then None
               else (let fs = fs\<lparr>fatbuf := fresh (FATBUFSIZE fs)\<rparr>;
                         fnamecopy = downcase (skip_delims filename)
                     in if length fnamecopy \<ge> 2048 then None
                        else if fnamecopy = [] \<and> dols = LS_NO then Some (- 1, r, st)
                        else (let (fname, isdir, subname) = (if fnamecopy = [] then ([], False, []) else split_path dols fnamecopy);
                                  ls = (if fnamecopy = [] then LS_ROOT else dols)
                              in do {
                                (found, sc) \<leftarrow> root_loop fname isdir ls (int (rootdir_size_of b bits (sect_size fs))) (ucast (rootdir_sect fs))
                                  (if bits = 32 then bs_root_cluster b else 0) 0
                                  \<lparr>sc_st = st, sc_fs = fs, prevcksum = 0xffff, n_files = 0, n_dirs = 0\<rparr>;
                                case found of
                                  Inl ret \<Rightarrow> Some (ret, r, sc_st sc)
                                | Inr d \<Rightarrow>
                                    do {
                                      (found, st, fs) \<leftarrow> (if isdir then descend ls True subname d (sc_st sc) (sc_fs sc) else Some (Inr d, sc_st sc, sc_fs sc));
                                      case found of
                                        Inl ret \<Rightarrow> Some (ret, r, st)
                                      | Inr d \<Rightarrow> do { (ret, r, _) \<leftarrow> get_contents st d buffer maxsize r fs; Some (ret, r, st) }
                                    }
                              }))) 
     }"

definition file_fat_read ::
  "(nat \<Rightarrow> u8 list) \<Rightarrow> fat_state \<Rightarrow> u8 list \<Rightarrow> u32 \<Rightarrow> u32 \<Rightarrow> (u32 \<Rightarrow> u8) \<Rightarrow> (u32 \<times> (u32 \<Rightarrow> u8) \<times> fat_state) option" where
  "file_fat_read fresh st filename buffer maxsize r = do_fat_read fresh st filename buffer maxsize LS_NO r"

definition file_fat_ls :: "(nat \<Rightarrow> u8 list) \<Rightarrow> fat_state \<Rightarrow> u8 list \<Rightarrow> (u32 \<Rightarrow> u8) \<Rightarrow> (u32 \<times> (u32 \<Rightarrow> u8) \<times> fat_state) option" where
  "file_fat_ls fresh st dir r = do_fat_read fresh st dir 0 0 LS_YES r"

text \<open>\<open>file_fat_detectfs\<close>, whose messages are left out.\<close>

definition file_fat_detectfs :: "(nat \<Rightarrow> u8 list) \<Rightarrow> fat_state \<Rightarrow> int option" where
  "file_fat_detectfs fresh st =
     (if cur_dev st = None then Some 1
      else do { b \<leftarrow> read_bootsectandvi fresh st; Some (case b of Inl _ \<Rightarrow> 1 | Inr _ \<Rightarrow> 0) })"

subsection \<open>Partitions\<close>

definition DEFAULT_SECTOR_SIZE :: nat where "DEFAULT_SECTOR_SIZE = 512"
definition DOS_PART_TBL_OFFSET :: nat where "DOS_PART_TBL_OFFSET = 0x1be"
definition DOS_PART_MAGIC_OFFSET :: nat where "DOS_PART_MAGIC_OFFSET = 0x1fe"
definition PART_TYPE_DOS :: u8 where "PART_TYPE_DOS = 2"
definition BOOT_PART_TYPE :: string where "BOOT_PART_TYPE = ''U-Boot''"

definition is_extended :: "u8 \<Rightarrow> bool" where "is_extended t \<longleftrightarrow> t = 0x5 \<or> t = 0xf \<or> t = 0x85"

definition part_ent :: "u8 list \<Rightarrow> nat \<Rightarrow> u8 list" where "part_ent buf i = take 16 (drop (DOS_PART_TBL_OFFSET + 16 * i) buf)"
definition sys_ind :: "u8 list \<Rightarrow> u8" where "sys_ind p = p ! 4"
definition start4 :: "u8 list \<Rightarrow> u32" where "start4 p = word_at p 8"
definition size4 :: "u8 list \<Rightarrow> u32" where "size4 p = word_at p 12"

text \<open>One block into a buffer of the stack.\<close>

definition read_sector :: "block_dev \<Rightarrow> u32 \<Rightarrow> u8 list \<Rightarrow> (bool \<times> u8 list) option" where
  "read_sector d blk buf =
     do { read_fn \<leftarrow> block_read d; let (r, bs) = read_fn blk 1; buf \<leftarrow> into_buf bs buf; Some (r = 1, buf) }"

definition dos_magic :: "u8 list \<Rightarrow> bool" where
  "dos_magic buf \<longleftrightarrow> buf ! DOS_PART_MAGIC_OFFSET = 0x55 \<and> buf ! (DOS_PART_MAGIC_OFFSET + 1) = 0xaa"

definition test_part_dos :: "(nat \<Rightarrow> u8 list) \<Rightarrow> block_dev \<Rightarrow> int option" where
  "test_part_dos fresh d = do { (ok, buf) \<leftarrow> read_sector d 0 (fresh DEFAULT_SECTOR_SIZE); Some (if ok \<and> dos_magic buf then 0 else - 1) }"

definition init_part :: "(nat \<Rightarrow> u8 list) \<Rightarrow> block_dev \<Rightarrow> block_dev option" where
  "init_part fresh d = do { r \<leftarrow> test_part_dos fresh d; Some (if r = 0 then d\<lparr>part_type := PART_TYPE_DOS\<rparr> else d) }"

text \<open>Over the four entries of a table: the partition looked for, or the number of the next one.\<close>

fun find_part :: "u8 list \<Rightarrow> bool \<Rightarrow> int \<Rightarrow> nat \<Rightarrow> nat \<Rightarrow> int \<Rightarrow> nat + int" where
  "find_part buf mbr which_part i 0 part_num = Inr part_num"
| "find_part buf mbr which_part i (Suc n) part_num =
     (let p = part_ent buf i
      in if sys_ind p \<noteq> 0 \<and> part_num = which_part \<and> \<not> is_extended (sys_ind p) then Inl i
         else find_part buf mbr which_part (i + 1) n (if mbr \<or> sys_ind p \<noteq> 0 \<and> \<not> is_extended (sys_ind p) then part_num + 1 else part_num))"

partial_function (option) get_partition_info_extended ::
  "(nat \<Rightarrow> u8 list) \<Rightarrow> block_dev \<Rightarrow> u32 \<Rightarrow> u32 \<Rightarrow> int \<Rightarrow> int \<Rightarrow> disk_partition \<Rightarrow> disk_partition option option" where
  "get_partition_info_extended fresh d ext_part_sector relative part_num which_part info =
     Option.bind (read_sector d ext_part_sector (fresh DEFAULT_SECTOR_SIZE)) (\<lambda>(ok, buf).
       if \<not> ok \<or> \<not> dos_magic buf then Some None
       else if part_ent buf 0 ! 0 \<noteq> 0x80 \<and> part_ent buf 0 ! 0 \<noteq> 0
       then Some (if ext_part_sector = 0 \<and> half_at buf 14 \<noteq> 0 \<and> buf ! 16 \<noteq> 0 then Some (info\<lparr>p_blksz := 512, p_start := ext_part_sector\<rparr>) else None)
       else (case find_part buf (ext_part_sector = 0) which_part 0 4 part_num of
               Inl i \<Rightarrow> Some (Some (info\<lparr>p_blksz := 512, p_start := ext_part_sector + start4 (part_ent buf i), p_size := size4 (part_ent buf i), p_type := BOOT_PART_TYPE\<rparr>))
             | Inr part_num \<Rightarrow>
                 (case find (\<lambda>i. is_extended (sys_ind (part_ent buf i))) [0..<4] of
                    None \<Rightarrow> Some None
                  | Some i \<Rightarrow>
                      (let lba_start = start4 (part_ent buf i) + relative
                       in get_partition_info_extended fresh d lba_start (if ext_part_sector = 0 then lba_start else relative) part_num which_part info))))"

definition get_partition_info_dos :: "(nat \<Rightarrow> u8 list) \<Rightarrow> block_dev \<Rightarrow> int \<Rightarrow> disk_partition \<Rightarrow> disk_partition option option" where
  "get_partition_info_dos fresh d part info = get_partition_info_extended fresh d 0 0 1 part info"

text \<open>\<open>Some None\<close> is the result \<open>-1\<close>.\<close>

definition get_partition_info :: "(nat \<Rightarrow> u8 list) \<Rightarrow> block_dev \<Rightarrow> int \<Rightarrow> disk_partition \<Rightarrow> disk_partition option option" where
  "get_partition_info fresh d part info =
     (if part_type d = PART_TYPE_DOS then get_partition_info_dos fresh d part info else Some None)"

definition fat_magic :: "u8 list \<Rightarrow> bool" where
  "fat_magic b \<longleftrightarrow> take 2 (drop 0x1fe b) = [0x55, 0xAA] \<and>
     (take 3 (drop 0x36 b) = take 3 FAT32_SIGN \<or> take 5 (drop 0x52 b) = take 5 FAT32_SIGN)"

definition fat_register_device :: "(nat \<Rightarrow> u8 list) \<Rightarrow> block_dev \<Rightarrow> int \<Rightarrow> fat_state \<Rightarrow> (int \<times> fat_state) option" where
  "fat_register_device fresh d part_no st =
     do {
       info \<leftarrow> get_partition_info fresh d part_no (cur_part_info st);
       let st = st\<lparr>cur_dev := None\<rparr>;
       if info = None \<and> part_no \<noteq> 1 then Some (- 1, st)
       else do {
         let st = (case info of
                     Some p \<Rightarrow> st\<lparr>cur_dev := Some d, cur_part_nr := part_no, cur_part_info := p\<rparr>
                   | None \<Rightarrow> st\<lparr>cur_dev := Some d, cur_part_nr := 1, cur_part_info := \<lparr>p_start = 0, p_size = dev_lba d, p_blksz = dev_blksz d, p_type = []\<rparr>\<rparr>);
         let (r, bs) = disk_read st 0 1;
         buf \<leftarrow> into_buf bs (fresh (unat (dev_blksz d)));
         if r \<noteq> 1 then Some (- 1, st\<lparr>cur_dev := None\<rparr>)
         else if length buf < 0x200 then None
         else if fat_magic buf then Some (0, st) else Some (- 1, st\<lparr>cur_dev := None\<rparr>)
       }
     }"

end
