(* ===== verification/BootMenu.thy ===== *)
theory BootMenu
  imports Kermit BootKernel EnvSpi FatRead
begin

text \<open>
  What the board does once it is up: the end of \<open>board_init_r\<close> in \<open>lib_mips/board.c\<close>, with the button, the count-down and the
  menu, \<open>tftp_config\<close>, and \<open>do_fat_fsload\<close> of \<open>common/cmd_fat.c\<close>, in the built configuration (SPI flash, USB, upgrade by
  serial line, command line). The state of the boot commands is extended by the globals of \<open>board.c\<close>. Hardware and code that is not
  modelled are fields of the record \<open>board\<close>: the pin of the button, the chip, the network's inputs, the decoder, whether \<open>usb start\<close> found
  storage, the block device that \<open>usb_stor_get_dev\<close> gives, the contents of new memory, and the setting of the speed of the serial line. Messages
  and the LED are left out.
\<close>

subsection \<open>State\<close>

text \<open>\<open>boot_end\<close> is what \<open>do_bootm\<close> did when \<open>do_tftpb\<close> called it; \<open>fault\<close> records that a call inside \<open>do_tftpb\<close> had no defined
  result.\<close>

record ('w, 'f) menu_state = "('w console_state, 'f) boot_state" +
  modifies :: nat
  console_buffer :: string
  boot_end :: "boot_outcome option"
  fault :: bool
  fat :: fat_state

record ('w, 'f) board =
  b_clk :: clock
  b_bufs :: bool
  b_init :: int
  b_net :: "((mem \<times> int) list \<times> bool) list"
  b_calls :: "'w dev_calls"
  b_drv :: serial_drv
  b_ops :: "'f nor_ops"
  b_chip :: chip_info
  b_malloc :: bool
  b_check :: bool
  b_lzma :: lzma_fn
  b_pin :: "nat \<Rightarrow> bool"
  b_usb :: bool
  b_stor :: "u32 \<Rightarrow> block_dev"
  b_fresh :: "nat \<Rightarrow> u8 list"
  b_setbrg :: "'w \<Rightarrow> 'w"

datatype menu_outcome =
  Booted boot_outcome
| Command_line
| In_transfer

type_synonym ('w, 'f) menu_result = "(('w, 'f) menu_state \<times> menu_outcome) option"

definition ARGV_LEN :: nat where "ARGV_LEN = 128"
definition CONFIG_BOOTDELAY :: int where "CONFIG_BOOTDELAY = 3"
definition CFG_KERN_OFFSET :: nat where "CFG_KERN_OFFSET = 0x50000"
definition CFG_KERN_ADDR :: u32 where "CFG_KERN_ADDR = CFG_FLASH_BASE + of_nat CFG_KERN_OFFSET"
definition flash_base :: u32 where "flash_base = 0x1000000"

subsection \<open>Calls\<close>

definition b_env :: "('w, 'f) board \<Rightarrow> 'w console_state env_calls" where "b_env b = console_env (b_calls b) (b_drv b) (b_setbrg b)"

definition set_var :: "('w, 'f) board \<Rightarrow> string \<Rightarrow> string \<Rightarrow> ('w, 'f) menu_state \<Rightarrow> ('w, 'f) menu_state option" where
  "set_var b name v s = setenv (b_env b) s name (Some v)"

text \<open>\<open>saveenv ()\<close> and \<open>do_bootm\<close> as \<open>netboot_common\<close> calls them.\<close>

definition menu_saveenv :: "('w, 'f) board \<Rightarrow> ('w, 'f) menu_state \<Rightarrow> ('w, 'f) menu_state" where
  "menu_saveenv b s = (case saveenv (b_ops b) (b_chip b) s (nor s) of Some (f, _) \<Rightarrow> s\<lparr>nor := f\<rparr> | None \<Rightarrow> s\<lparr>fault := True\<rparr>)"

definition menu_bootm :: "('w, 'f) board \<Rightarrow> string list \<Rightarrow> ('w, 'f) menu_state \<Rightarrow> ('w, 'f) menu_state \<times> int" where
  "menu_bootm b argv s =
     (case do_bootm (b_ops b) (b_lzma b) argv s of
        None \<Rightarrow> (s\<lparr>fault := True\<rparr>, 1)
      | Some (s, out) \<Rightarrow> (s\<lparr>boot_end := Some out\<rparr>, case out of Returned r \<Rightarrow> r | _ \<Rightarrow> 1))"

text \<open>\<open>do_tftpb (cmdtp, 0, 3, argv)\<close>: where it ended, or the state it returned with. Its result is not looked at.\<close>

definition run_tftp ::
  "('w, 'f) board \<Rightarrow> string list \<Rightarrow> ('w, 'f) menu_state \<Rightarrow> (('w, 'f) menu_state \<times> menu_outcome + ('w, 'f) menu_state) option" where
  "run_tftp b argv s =
     (case do_tftpb (b_clk b) (b_env b) (b_bufs b) (b_init b) (b_net b) (modifies s > 0) (menu_saveenv b) (menu_bootm b) argv
        (s\<lparr>boot_end := None, fault := False\<rparr>) of
        None \<Rightarrow> None
      | Some (Inr s) \<Rightarrow> Some (Inl (s, In_transfer))
      | Some (Inl (s, rc)) \<Rightarrow>
          if fault s then None
          else (case boot_end s of None \<Rightarrow> Some (Inr s) | Some (Returned _) \<Rightarrow> Some (Inr s) | Some out \<Rightarrow> Some (Inl (s, Booted out))))"

definition write_flash :: "('w, 'f) board \<Rightarrow> u32 \<Rightarrow> nat \<Rightarrow> ('w, 'f) menu_state \<Rightarrow> ('w, 'f) menu_state option" where
  "write_flash b addr offs s =
     (case raspi_erase_write (b_ops b) (b_chip b) (b_malloc b) (b_check b) (nor s)
        (ram_bytes (ram s) addr (unat (NetBootFileXferSize s))) offs of
        None \<Rightarrow> None
      | Some (f, _) \<Rightarrow> Some (s\<lparr>nor := f\<rparr>))"

text \<open>\<open>NetBootFileXferSize = simple_strtoul (getenv ("filesize"), NULL, 16)\<close>, which reads through NULL without the variable.\<close>

definition size_from_env :: "('w, 'f) menu_state \<Rightarrow> ('w, 'f) menu_state option" where
  "size_from_env s =
     (case getenv s ''filesize'' of
        Some (Some v) \<Rightarrow> Some (s\<lparr>NetBootFileXferSize := fst (simple_strtoul v 16)\<rparr>)
      | _ \<Rightarrow> None)"

text \<open>\<open>get_dev\<close>, and \<open>fatload\<close>, which stores the length of the file in the environment.\<close>

definition get_dev :: "('w, 'f) board \<Rightarrow> string \<Rightarrow> u32 \<Rightarrow> block_dev option" where
  "get_dev b ifname dev = (if take 3 ifname = ''usb'' then Some (b_stor b dev) else None)"

definition do_fat_fsload :: "('w, 'f) board \<Rightarrow> string list \<Rightarrow> ('w, 'f) menu_state \<Rightarrow> (('w, 'f) menu_state \<times> int) option" where
  "do_fat_fsload b argv s =
     (if length argv < 5 then Some (s, 1)
      else (let (dev, ep) = simple_strtoul (argv ! 2) 16
            in case get_dev b (argv ! 1) dev of
                 None \<Rightarrow> Some (s, 1)
               | Some dev_desc \<Rightarrow>
                   if peek ep \<noteq> NUL \<and> peek ep \<noteq> CHR '':'' then Some (s, 1)
                   else (let part = (if peek ep \<noteq> NUL then fst (simple_strtoul (tl ep) 16) else 1)
                         in do {
                           (r, ft) \<leftarrow> fat_register_device (b_fresh b) dev_desc (sint part) (fat s);
                           let s = s\<lparr>fat := ft\<rparr>;
                           if r \<noteq> 0 then Some (s, 1)
                           else do {
                             let offset = fst (simple_strtoul (argv ! 3) 16);
                             let count = (if length argv = 6 then fst (simple_strtoul (argv ! 5) 16) else 0);
                             (size, m, ft) \<leftarrow> file_fat_read (b_fresh b) (fat s) (map of_char (argv ! 4)) offset count (ram s);
                             let s = s\<lparr>ram := m, fat := ft\<rparr>;
                             if size = - 1 then Some (s, 1)
                             else do {
                               (buf, _) \<leftarrow> vsprintf ''%lX'' [VInt size];
                               s \<leftarrow> set_var b ''filesize'' buf s;
                               Some (s, 0)
                             }
                           }
                         })))"

subsection \<open>Addresses and file name for TFTP\<close>

text \<open>A value edited in an array of \<open>ARGV_LEN\<close> characters; \<open>None\<close> when it leaves the array.\<close>

definition edit_value :: "('w, 'f) board \<Rightarrow> string \<Rightarrow> ('w, 'f) menu_state \<Rightarrow> (string \<times> ('w, 'f) menu_state) option" where
  "edit_value b v s =
     (if length v \<ge> ARGV_LEN then None
      else case input_value (b_calls b) (b_drv b) (Some v) (console_buffer s) (con s) of
             Some (Some w, buf, cs) \<Rightarrow> if length w < ARGV_LEN then Some (w, s\<lparr>con := cs, console_buffer := buf\<rparr>) else None
           | _ \<Rightarrow> None)"

text \<open>One address: the variable is read (through NULL when it is not set), edited and set.\<close>

definition edit_address :: "('w, 'f) board \<Rightarrow> string \<Rightarrow> ('w, 'f) menu_state \<Rightarrow> ('w, 'f) menu_state option" where
  "edit_address b name s =
     do {
       v \<leftarrow> getenv s name;
       v \<leftarrow> v;
       (w, s) \<leftarrow> edit_value b v s;
       s \<leftarrow> set_var b name w s;
       Some (if w \<noteq> v then s\<lparr>modifies := modifies s + 1\<rparr> else s)
     }"

datatype sel = Sel_linux_sdram | Sel_linux_flash | Sel_boot_sdram | Sel_boot_flash

definition sel_addr :: "sel \<Rightarrow> string" where
  "sel_addr t = (case t of Sel_linux_sdram \<Rightarrow> ''0x80A00000'' | Sel_linux_flash \<Rightarrow> ''0x80100000'' | Sel_boot_sdram \<Rightarrow> ''0x80200000''
     | Sel_boot_flash \<Rightarrow> ''0x80100000'')"

text \<open>\<open>argv [1]\<close> and \<open>argv [2]\<close>, and the state. The default file name \<open>strncpy\<close> puts in \<open>argv [2]\<close> is always overwritten.\<close>

definition tftp_config :: "('w, 'f) board \<Rightarrow> sel \<Rightarrow> ('w, 'f) menu_state \<Rightarrow> (string list \<times> ('w, 'f) menu_state) option" where
  "tftp_config b type s =
     do {
       s \<leftarrow> edit_address b ''ipaddr'' s;
       s \<leftarrow> edit_address b ''serverip'' s;
       v \<leftarrow> getenv s ''bootfile'';
       let default_file = (case v of None \<Rightarrow> [] | Some v \<Rightarrow> v);
       (file', s) \<leftarrow> edit_value b default_file s;
       s \<leftarrow> set_var b ''bootfile'' file' s;
       Some ([sel_addr type, copy_filename file' ARGV_LEN], if file' \<noteq> default_file then s\<lparr>modifies := modifies s + 1\<rparr> else s)
     }"

subsection \<open>The file of Wi-Fi settings\<close>

text \<open>\<open>strchr (s, c)\<close> for a string in an array, as an index; \<open>c\<close> is not the terminator.\<close>

definition strchr_at :: "string \<Rightarrow> nat \<Rightarrow> char \<Rightarrow> nat option" where
  "strchr_at d i c = (let k = length (takeWhile (\<lambda>x. x \<noteq> c) (str_at d i)) in if k < length (str_at d i) then Some (i + k) else None)"

lemma strchr_at_bound: "strchr_at d i c = Some k \<Longrightarrow> i \<le> k \<and> k < length d"
proof -
  assume a: "strchr_at d i c = Some k"
  have "length (str_at d i) \<le> length d - i" using length_takeWhile_le [of _ "drop i d"] by (simp add: str_at_def)
  with a show ?thesis by (auto simp: strchr_at_def Let_def split: if_splits)
qed

lemma cfg_measure: "strchr_at d s c = Some k \<Longrightarrow> s < length d \<Longrightarrow> length d - Suc k < length d - s"
  using strchr_at_bound [of d s c k] by linarith

text \<open>The loop over the lines, in place: the array, and where the values of \<open>wifi_ssid\<close> and \<open>wifi_key\<close> begin. A line without
  \<open>=\<close> is cut off at its first character, which ends the loop. After a line without a newline \<open>s\<close> is NULL (\<open>None\<close>).\<close>

function cfg_loop :: "string \<Rightarrow> nat \<Rightarrow> nat option \<Rightarrow> nat option \<Rightarrow> (string \<times> nat option \<times> nat option) option" where
  "cfg_loop d s ssid key =
     (case rd d s of
        None \<Rightarrow> None
      | Some c \<Rightarrow>
          if c = NUL then Some (d, ssid, key)
          else (let e = strchr_at d s (CHR 10);
                    d1 = (case e of None \<Rightarrow> d | Some i \<Rightarrow> d[i := NUL])
                in case strchr_at d1 s (CHR ''='') of
                     None \<Rightarrow> Some (d1[s := NUL], ssid, key)
                   | Some v \<Rightarrow>
                       (let d2 = d1[v := NUL];
                            name = str_at d2 s;
                            ssid = (if name = ''wifi_ssid'' then Some (v + 1) else ssid);
                            key = (if name = ''wifi_key'' then Some (v + 1) else key)
                        in case e of None \<Rightarrow> None | Some i \<Rightarrow> cfg_loop d2 (i + 1) ssid key)))"
  by pat_completeness auto
termination
  by (relation "measure (\<lambda>(d, s, _). length d - s)") (auto simp: rd_def intro!: cfg_measure split: if_splits option.splits)

declare cfg_loop.simps [simp del]

text \<open>One setting: set when its length is right; whether the environment is to be saved.\<close>

definition cfg_set ::
  "('w, 'f) board \<Rightarrow> string \<Rightarrow> (string \<Rightarrow> bool) \<Rightarrow> string option \<Rightarrow> ('w, 'f) menu_state \<times> bool \<Rightarrow> (('w, 'f) menu_state \<times> bool) option" where
  "cfg_set b name ok v st =
     (case st of (s, save) \<Rightarrow>
        (case v of
           None \<Rightarrow> Some (s, save)
         | Some v \<Rightarrow> if ok v then do { s \<leftarrow> set_var b name v s; Some (s, True) } else Some (s, save)))"

definition ssid_ok :: "string \<Rightarrow> bool" where "ssid_ok v \<longleftrightarrow> length v \<le> 32"
definition key_ok :: "string \<Rightarrow> bool" where "key_ok v \<longleftrightarrow> 8 \<le> length v \<and> length v < 64"

definition cfg_next_seq :: "('w, 'f) board \<Rightarrow> ('w, 'f) menu_state \<Rightarrow> ('w, 'f) menu_state option" where
  "cfg_next_seq b s =
     do {
       v \<leftarrow> getenv s ''wifi_seq'';
       let id = (case v of None \<Rightarrow> 0 | Some v \<Rightarrow> fst (simple_strtoul v 10));
       (buf, _) \<leftarrow> vsprintf ''%d'' [VInt (id + 1)];
       s \<leftarrow> set_var b ''wifi_seq'' buf s;
       let s = menu_saveenv b s;
       if fault s then None else Some s
     }"

definition load_cfg :: "('w, 'f) board \<Rightarrow> ('w, 'f) menu_state \<Rightarrow> ('w, 'f) menu_state option" where
  "load_cfg b s =
     do {
       s \<leftarrow> size_from_env s;
       let n = unat (NetBootFileXferSize s);
       let d = map (\<lambda>x. char_of (unat x)) (ram_bytes (ram s) CFG_LOAD_ADDR n) @ [NUL];
       (d, ssid, key) \<leftarrow> cfg_loop d 0 None None;
       let s = s\<lparr>ram := ram_copy CFG_LOAD_ADDR (\<lambda>i. of_char (d ! i)) (of_nat (n + 1)) (ram s)\<rparr>;
       (s, save) \<leftarrow> cfg_set b ''wifi_ssid'' ssid_ok (map_option (str_at d) ssid) (s, False);
       (s, save) \<leftarrow> cfg_set b ''wifi_key'' key_ok (map_option (str_at d) key) (s, save);
       if save then cfg_next_seq b s else Some s
     }"

subsection \<open>The choices\<close>

definition reset_board :: "('w, 'f) menu_state \<Rightarrow> ('w, 'f) menu_result" where "reset_board s = Some (s, Booted Reset_board)"

text \<open>\<open>argv [0]\<close> is never set and never read.\<close>

definition tftp_then ::
  "('w, 'f) board \<Rightarrow> string list \<Rightarrow> (('w, 'f) menu_state \<Rightarrow> ('w, 'f) menu_result) \<Rightarrow> ('w, 'f) menu_state \<Rightarrow> ('w, 'f) menu_result" where
  "tftp_then b args rest s =
     (case run_tftp b ([] # args) s of None \<Rightarrow> None | Some (Inl r) \<Rightarrow> Some r | Some (Inr s) \<Rightarrow> rest s)"

definition bootm_then ::
  "('w, 'f) board \<Rightarrow> string list \<Rightarrow> (('w, 'f) menu_state \<Rightarrow> ('w, 'f) menu_result) \<Rightarrow> ('w, 'f) menu_state \<Rightarrow> ('w, 'f) menu_result" where
  "bootm_then b args rest s =
     (case do_bootm (b_ops b) (b_lzma b) ([] # args) s of
        None \<Rightarrow> None
      | Some (s, Returned _) \<Rightarrow> rest s
      | Some (s, out) \<Rightarrow> Some (s, Booted out))"

definition confirmed :: "('w, 'f) board \<Rightarrow> ('w, 'f) menu_state \<Rightarrow> (bool \<times> ('w, 'f) menu_state) option" where
  "confirmed b s = do { (c, cs) \<leftarrow> con_getc (b_calls b) (b_drv b) (con s); Some (c = 0x79 \<or> c = 0x59, s\<lparr>con := cs\<rparr>) }"

definition kern_addr_text :: "string option" where "kern_addr_text = sprintf1 ''0x%X'' CFG_KERN_ADDR"

definition menu_m :: "('w, 'f) board \<Rightarrow> ('w, 'f) menu_state \<Rightarrow> ('w, 'f) menu_result" where
  "menu_m b s =
     do {
       s \<leftarrow> set_var b ''autostart'' ''yes'' s;
       tftp_then b [''0x80A00000'', ''root_uImage''] reset_board s
     }"

text \<open>Choices 1 and 8: load over the network and start.\<close>

definition menu_run :: "('w, 'f) board \<Rightarrow> sel \<Rightarrow> ('w, 'f) menu_state \<Rightarrow> ('w, 'f) menu_result" where
  "menu_run b type s =
     do {
       (args, s) \<leftarrow> tftp_config b type s;
       s \<leftarrow> set_var b ''autostart'' ''yes'' s;
       tftp_then b args reset_board s
     }"

text \<open>Choice 2 from \<open>setenv ("autostart", "no")\<close> on: load, write and start the system, whatever \<open>do_tftpb\<close> returned.\<close>

definition linux_to_flash :: "('w, 'f) board \<Rightarrow> string list \<Rightarrow> ('w, 'f) menu_state \<Rightarrow> ('w, 'f) menu_result" where
  "linux_to_flash b args s =
     do {
       s \<leftarrow> set_var b ''autostart'' ''no'' s;
       tftp_then b args
         (\<lambda>s. do {
           s \<leftarrow> write_flash b (fst (simple_strtoul (hd args) 16)) CFG_KERN_OFFSET s;
           a \<leftarrow> kern_addr_text;
           bootm_then b [a] reset_board s
         }) s
     }"

definition menu_2 :: "('w, 'f) board \<Rightarrow> ('w, 'f) menu_state \<Rightarrow> ('w, 'f) menu_result" where
  "menu_2 b s =
     do {
       (yes, s) \<leftarrow> confirmed b s;
       if \<not> yes then reset_board s
       else do { (args, s) \<leftarrow> tftp_config b Sel_linux_flash s; linux_to_flash b args s }
     }"

definition menu_9 :: "('w, 'f) board \<Rightarrow> ('w, 'f) menu_state \<Rightarrow> ('w, 'f) menu_result" where
  "menu_9 b s =
     do {
       (yes, s) \<leftarrow> confirmed b s;
       if \<not> yes then reset_board s
       else do {
         (args, s) \<leftarrow> tftp_config b Sel_boot_flash s;
         s \<leftarrow> set_var b ''autostart'' ''no'' s;
         tftp_then b args
           (\<lambda>s. if unat (NetBootFileXferSize s) > CFG_BOOTLOADER_SIZE then reset_board s
                 else do { s \<leftarrow> write_flash b (fst (simple_strtoul (hd args) 16)) 0 s; reset_board s }) s
       }
     }"

definition load_serial :: "('w, 'f) board \<Rightarrow> ('w, 'f) menu_state \<Rightarrow> (('w, 'f) menu_state \<times> int) option" where
  "load_serial b = do_load_serial_bin (b_env b) (b_calls b) (b_drv b) (b_setbrg b) [[]]"

definition menu_7 :: "('w, 'f) board \<Rightarrow> ('w, 'f) menu_state \<Rightarrow> ('w, 'f) menu_result" where
  "menu_7 b s =
     do {
       s \<leftarrow> set_var b ''autostart'' ''no'' s;
       (s, my_tmp) \<leftarrow> load_serial b s;
       s \<leftarrow> size_from_env s;
       if unat (NetBootFileXferSize s) > CFG_BOOTLOADER_SIZE \<or> my_tmp = 1 then reset_board s
       else do { s \<leftarrow> write_flash b CFG_LOAD_ADDR 0 s; reset_board s }
     }"

definition menu_0 :: "('w, 'f) board \<Rightarrow> ('w, 'f) menu_state \<Rightarrow> ('w, 'f) menu_result" where
  "menu_0 b s =
     do {
       s \<leftarrow> set_var b ''autostart'' ''no'' s;
       (s, my_tmp) \<leftarrow> load_serial b s;
       s \<leftarrow> size_from_env s;
       s \<leftarrow> write_flash b CFG_LOAD_ADDR CFG_KERN_OFFSET s;
       reset_board s
     }"

text \<open>Choices 5, c and b: a file of the USB storage. The array \<open>argv\<close> has four entries; a store behind it is \<open>None\<close>.\<close>

definition put_arg :: "string list \<Rightarrow> nat \<Rightarrow> string \<Rightarrow> string list option" where
  "put_arg argv i v = (if i < length argv then Some (argv[i := v]) else None)"

definition usb_load ::
  "('w, 'f) board \<Rightarrow> string \<Rightarrow> (('w, 'f) menu_state \<Rightarrow> ('w, 'f) menu_state) \<Rightarrow> (('w, 'f) menu_state \<Rightarrow> ('w, 'f) menu_state option) \<Rightarrow>
   ('w, 'f) menu_state \<Rightarrow> ('w, 'f) menu_result" where
  "usb_load b name prepare use s =
     do {
       argv \<leftarrow> put_arg (replicate 4 []) 1 ''start'';
       if \<not> b_usb b then reset_board s
       else do {
         argv \<leftarrow> put_arg argv 1 ''usb'';
         argv \<leftarrow> put_arg argv 2 ''0'';
         a \<leftarrow> sprintf1 ''0x%X'' CFG_LOAD_ADDR;
         argv \<leftarrow> put_arg argv 3 a;
         argv \<leftarrow> put_arg argv 4 name;
         s \<leftarrow> set_var b ''autostart'' ''no'' s;
         (s, r) \<leftarrow> do_fat_fsload b argv (prepare s);
         s \<leftarrow> (if r \<noteq> 0 then Some s else use s);
         reset_board s
       }
     }"

definition menu_5 :: "('w, 'f) board \<Rightarrow> ('w, 'f) menu_state \<Rightarrow> ('w, 'f) menu_result" where
  "menu_5 b =
     usb_load b ''lks7688.img'' id
       (\<lambda>s. do {
         s \<leftarrow> size_from_env s;
         if NetBootFileXferSize s > 0xfb0000 + flash_base then Some s else write_flash b CFG_LOAD_ADDR CFG_KERN_OFFSET s
       })"

definition clear_load_area :: "('w, 'f) menu_state \<Rightarrow> ('w, 'f) menu_state" where
  "clear_load_area s = s\<lparr>ram := ram_copy CFG_LOAD_ADDR (\<lambda>_. 0) (64 * 1024 + 1) (ram s)\<rparr>"

definition menu_c :: "('w, 'f) board \<Rightarrow> ('w, 'f) menu_state \<Rightarrow> ('w, 'f) menu_result" where
  "menu_c b = usb_load b ''lks7688.cfg'' clear_load_area (load_cfg b)"

definition menu_b :: "('w, 'f) board \<Rightarrow> ('w, 'f) menu_state \<Rightarrow> ('w, 'f) menu_result" where
  "menu_b b =
     usb_load b ''lks7688.ldr'' id
       (\<lambda>s. do {
         s \<leftarrow> size_from_env s;
         if NetBootFileXferSize s > 0x30000 then Some s else write_flash b CFG_LOAD_ADDR 0 s
       })"

text \<open>The image in the flash, the default; when \<open>do_bootm\<close> returns, so does \<open>board_init_r\<close>.\<close>

definition menu_3 :: "('w, 'f) board \<Rightarrow> ('w, 'f) menu_state \<Rightarrow> ('w, 'f) menu_result" where
  "menu_3 b s =
     do {
       a \<leftarrow> kern_addr_text;
       (s, out) \<leftarrow> do_bootm (b_ops b) (b_lzma b) [[], a] s;
       Some (s, Booted out)
     }"

definition menu_switch :: "('w, 'f) board \<Rightarrow> char \<Rightarrow> ('w, 'f) menu_state \<Rightarrow> ('w, 'f) menu_result" where
  "menu_switch b c s =
     (if c = CHR ''3'' then menu_3 b s
      else if c = CHR ''m'' then menu_m b s
      else if c = CHR ''1'' then menu_run b Sel_linux_sdram s
      else if c = CHR ''2'' then menu_2 b s
      else if c = CHR ''4'' then Some (s, Command_line)
      else if c = CHR ''7'' then menu_7 b s
      else if c = CHR ''8'' then menu_run b Sel_boot_sdram s
      else if c = CHR ''9'' then menu_9 b s
      else if c = CHR ''0'' then menu_0 b s
      else if c = CHR ''5'' then menu_5 b s
      else if c = CHR ''c'' then menu_c b s
      else if c = CHR ''b'' then menu_b b s
      else bootm_then b [] reset_board s)"

subsection \<open>Button and count-down\<close>

text \<open>Seconds until the pin is high again; the pin is read once before the loop and once before every round.\<close>

partial_function (option) button_loop :: "(nat \<Rightarrow> bool) \<Rightarrow> nat \<Rightarrow> int \<Rightarrow> int option" where
  "button_loop pin k timer1 = (if pin k then Some timer1 else button_loop pin (k + 1) (timer1 + 1))"

definition mfg_mac :: "u8 list" where "mfg_mac = [0x00, 0x0c, 0x43, 0xe1, 0x76, 0x28]"

text \<open>The type of boot and the seconds to count down, from the button or the MAC address in the flash.\<close>

definition select_type :: "('w, 'f) board \<Rightarrow> int \<Rightarrow> ('w, 'f) menu_state \<Rightarrow> (char \<times> int \<times> ('w, 'f) menu_state) option" where
  "select_type b timer1 s =
     (if \<not> b_pin b 0
      then do {
        t \<leftarrow> button_loop (b_pin b) 1 0;
        Some (if t < 3 then (CHR ''c'', CONFIG_BOOTDELAY, s) else if t < 18 then (CHR ''5'', 0, s) else (CHR ''b'', 0, s))
      }
      else (let (f, bs, _) = raspi_read (b_ops b) (nor s) 0x40004 6;
                s = s\<lparr>nor := f, ram := ram_copy CFG_LOAD_ADDR (\<lambda>i. bs ! i) (of_nat (length bs)) (ram s)\<rparr>
            in Some (if ram_bytes (ram s) CFG_LOAD_ADDR 6 = mfg_mac then CHR ''m'' else CHR ''3'', timer1, s)))"

fun poll_keys :: "('w, 'f) board \<Rightarrow> nat \<Rightarrow> 'w console_state \<Rightarrow> (int option \<times> 'w console_state) option" where
  "poll_keys b 0 cs = Some (None, cs)"
| "poll_keys b (Suc n) cs =
     do {
       (t, cs) \<leftarrow> con_tstc (b_calls b) (b_drv b) cs;
       if t \<noteq> 0 then do { (c, cs) \<leftarrow> con_getc (b_calls b) (b_drv b) cs; Some (Some c, cs) } else poll_keys b n cs
     }"

definition key_type :: "int \<Rightarrow> char" where
  "key_type c =
     (let t = char_of (nat (c mod 256))
      in if (of_char t < (of_char (CHR ''0'') :: nat) \<or> of_char t > (of_char (CHR ''5'') :: nat)) \<and> t \<notin> {CHR ''7'', CHR ''8'', CHR ''9'', CHR ''b'', CHR ''m'', CHR ''c''}
         then CHR ''3'' else t)"

text \<open>\<open>while (timer1 > 0)\<close>: a second is 100 polls, 10 ms apart.\<close>

fun count_down :: "('w, 'f) board \<Rightarrow> nat \<Rightarrow> char \<Rightarrow> 'w console_state \<Rightarrow> (char \<times> 'w console_state) option" where
  "count_down b 0 bt cs = Some (bt, cs)"
| "count_down b (Suc t) bt cs =
     do {
       (k, cs) \<leftarrow> poll_keys b 100 cs;
       case k of None \<Rightarrow> count_down b t bt cs | Some c \<Rightarrow> Some (key_type c, cs)
     }"

definition bootdelay :: "('w, 'f) menu_state \<Rightarrow> int option" where
  "bootdelay s =
     do { v \<leftarrow> getenv s ''bootdelay''; Some (case v of Some v \<Rightarrow> sint (fst (simple_strtol v 10)) | None \<Rightarrow> CONFIG_BOOTDELAY) }"

definition board_menu :: "('w, 'f) board \<Rightarrow> ('w, 'f) menu_state \<Rightarrow> ('w, 'f) menu_result" where
  "board_menu b s =
     do {
       t \<leftarrow> bootdelay s;
       (bt, t, s) \<leftarrow> select_type b t s;
       (bt, cs) \<leftarrow> count_down b (nat t) bt (con s);
       menu_switch b bt (s\<lparr>con := cs\<rparr>)
     }"

end
