(* ===== verification/BootDemo.thy ===== *)
theory BootDemo
  imports BootKernel
begin

text \<open>A small kernel image in the flash, and \<open>bootm\<close> on it.\<close>

lemma ntohl_ntohl [simp]: "ntohl (ntohl x) = x" by (simp add: ntohl_def)

lemma word_at_append_skip: "length xs \<le> i \<Longrightarrow> word_at (xs @ ys) i = word_at ys (i - length xs)"
  by (simp add: word_at_def)

lemma word_at_le32 [simp]: "word_at (le32 w @ ys) 0 = w"
  by (simp add: word_at_def)

lemma header_of_header_bytes:
  assumes "length (ih_name h) = IH_NMLEN"
  shows "header_of_bytes (header_bytes h) = h"
  using assms by (simp add: header_of_bytes_def header_bytes_def word_at_append_skip nth_append)

definition demo_header :: image_header where
  "demo_header = \<lparr>ih_magic = ntohl IH_MAGIC, ih_hcrc = 0, ih_time = 0, ih_size = ntohl 4, ih_load = ntohl 0x80000000, ih_ep = ntohl 0x80000400,
     ih_dcrc = ntohl (crc_val [1, 2, 3, 4]), ih_os = IH_OS_LINUX, ih_arch = IH_CPU_MIPS, ih_type = IH_TYPE_KERNEL, ih_comp = IH_COMP_NONE,
     ih_name = replicate IH_NMLEN 0\<rparr>"

definition demo_image :: "u8 list" where
  "demo_image = header_bytes (demo_header\<lparr>ih_hcrc := ntohl (crc_val (header_bytes demo_header))\<rparr>) @ [1, 2, 3, 4]"

definition demo_cells :: "nat \<Rightarrow> u8" where
  "demo_cells a = (if 0x50000 \<le> a \<and> a < 0x50000 + length demo_image then demo_image ! (a - 0x50000) else 0xff)"

definition demo_boot :: "(unit, nor) boot_state" where
  "demo_boot = tftp_state.extend (demo_client\<lparr>env_data := ''bootargs=console=ttyS1 root=/dev/mtdblock5'' @ NUL # NUL # replicate 4048 NUL\<rparr>)
     (boot_state.fields demo_header \<lparr>nor_cells = demo_cells, nor_wel = False, nor_prot = False\<rparr> 0x4000000 0x83f80000 0xbc000000 0x1000000)"

lemmas demo_boot_defs = demo_boot_def tftp_state.defs boot_state.defs demo_client_def

lemma demo_boot_fields:
  "nor demo_boot = \<lparr>nor_cells = demo_cells, nor_wel = False, nor_prot = False\<rparr>" "bi_boot_params demo_boot = 0x83f80000" "crc_wf (crc_st demo_boot)"
  "ram_size demo_boot = 0x4000000" "bi_flashstart demo_boot = 0xbc000000" "bi_flashsize demo_boot = 0x1000000"
  by (simp_all add: demo_boot_defs crc_wf_def)

lemma demo_boot_env: "env_ok demo_boot [''bootargs=console=ttyS1 root=/dev/mtdblock5'']"
proof -
  have d: "env_data demo_boot = ''bootargs=console=ttyS1 root=/dev/mtdblock5'' @ NUL # NUL # replicate 4048 NUL" "env_valid demo_boot"
    by (simp_all add: demo_boot_defs)
  have "env_repr (env_data demo_boot) [''bootargs=console=ttyS1 root=/dev/mtdblock5'']"
    unfolding env_repr_def d by (intro conjI exI [of _ "replicate 4048 NUL"]) (simp_all add: var_ok_def NUL_def)
  moreover have "length (env_data demo_boot) = ENV_SIZE" by (simp add: d ENV_SIZE_def CFG_ENV_SIZE_def)
  ultimately show ?thesis using d demo_boot_fields by (simp add: env_ok_def)
qed

lemma demo_boot_vars:
  "getenv demo_boot ''verify'' = Some None" "getenv demo_boot ''bootargs'' = Some (Some ''console=ttyS1 root=/dev/mtdblock5'')"
  using getenv_lookup [OF demo_boot_env, of "''verify''"] getenv_lookup [OF demo_boot_env, of "''bootargs''"]
  by (simp_all add: name_ok_def NUL_def lookup_def var_name_def var_value_def)

lemma demo_boot_image:
  "image_bytes demo_cells r 0xbc050000 0 sizeof_header = header_bytes (demo_header\<lparr>ih_hcrc := ntohl (crc_val (header_bytes demo_header))\<rparr>)"
  "image_bytes demo_cells r 0xbc050000 sizeof_header 4 = [1, 2, 3, 4]"
proof -
  have l: "length (header_bytes h) = 32 + length (ih_name h)" for h by (simp add: header_bytes_def le32_def)
  have n: "length (ih_name demo_header) = 32" by (simp add: demo_header_def IH_NMLEN_def)
  have "image_bytes demo_cells r 0xbc050000 k m = take m (drop k demo_image)" if "k + m \<le> length demo_image" for k m
    using that by (intro nth_equalityI) (auto simp: image_bytes_def CFG_FLASH_BASE_def demo_cells_def nth_append)
  from this [of 0 sizeof_header] this [of sizeof_header 4]
  show "image_bytes demo_cells r 0xbc050000 0 sizeof_header = header_bytes (demo_header\<lparr>ih_hcrc := ntohl (crc_val (header_bytes demo_header))\<rparr>)"
    "image_bytes demo_cells r 0xbc050000 sizeof_header 4 = [1, 2, 3, 4]"
    by (simp_all add: demo_image_def l n sizeof_header_def)
qed

lemma demo_boot_header:
  "header_of_bytes (header_bytes (demo_header\<lparr>ih_hcrc := ntohl (crc_val (header_bytes demo_header))\<rparr>)) =
     demo_header\<lparr>ih_hcrc := ntohl (crc_val (header_bytes demo_header))\<rparr>"
  "valid_header (demo_header\<lparr>ih_hcrc := ntohl (crc_val (header_bytes demo_header))\<rparr>)"
proof -
  have "demo_header\<lparr>ih_hcrc := 0\<rparr> = demo_header" by (simp add: demo_header_def)
  then show "valid_header (demo_header\<lparr>ih_hcrc := ntohl (crc_val (header_bytes demo_header))\<rparr>)"
    by (simp add: valid_header_def) (simp add: demo_header_def)
qed (simp add: header_of_header_bytes demo_header_def)

lemma demo_boot_addr: "boot_addr [''bootm'', ''bc050000''] demo_boot = 0xbc050000"
  by (simp add: boot_addr_def) code_simp

lemma demo_boot_words: "boot_words (Some ''console=ttyS1 root=/dev/mtdblock5'') = [''console=ttyS1'', ''root=/dev/mtdblock5'']"
  by code_simp

lemma demo_boot_place: "unat (UNCACHED_SDRAM 0x83f80000) = 0x3f80000" by (simp add: UNCACHED_SDRAM_def)

lemma demo_boot_clear: "\<forall>i<4. \<forall>j\<ge>0x3f80000. j < 66588705 \<longrightarrow> 0x80000000 + of_nat i \<noteq> seg j"
proof (intro allI impI notI)
  fix i j :: nat
  assume a: "i < 4" "0x3f80000 \<le> j" "j < 66588705" "0x80000000 + of_nat i = seg j"
  then have "i = j" by (intro seg_inj) (simp_all add: DRAM_END_def seg_def)
  with a show False by simp
qed

lemma demo_header_fields:
  defines "h \<equiv> demo_header\<lparr>ih_hcrc := ntohl (crc_val (header_bytes demo_header))\<rparr>"
  shows "ntohl (ih_size h) = 4" "ntohl (ih_load h) = 0x80000000" "ntohl (ih_ep h) = 0x80000400" "ntohl (ih_dcrc h) = crc_val [1, 2, 3, 4]"
    "ih_arch h = IH_CPU_MIPS" "ih_type h = IH_TYPE_KERNEL" "ih_comp h = IH_COMP_NONE"
  by (simp_all add: h_def demo_header_def)

lemma demo_args_end: "args_end 0x3f80000 [''console=ttyS1'', ''root=/dev/mtdblock5''] = 0x3f80430"
  by (simp add: args_end_def align16_def LINUX_MAX_ARGS_def)

lemma replicate_7: "replicate 7 x = [x, x, x, x, x, x, x]" by (simp add: eval_nat_numeral)

lemma demo_kernel_env:
  "kernel_env demo_boot 0 0 =
    [''memsize=64'', ''initrd_start=0x00000000'', ''initrd_size=0x0'', ''flash_start=0xBC000000'', ''flash_size=0x1000000'']"
  by (simp add: kernel_env_def demo_boot_fields hex_word_def num_text_def zero_pad_def UNCACHED_SDRAM_def drop_bit_eq_div
    num_digits.simps [of _ 16] num_digits.simps [of _ 10] lower_digits_def upper_digits_def replicate_7)

lemma demo_seg: "seg 0x3f80000 = 0x83f80000" "seg 0x3f80430 = 0x83f80430" by (simp_all add: seg_def)

lemma demo_addr: "0xbc050000 \<notin> set jump_addrs" by (simp add: jump_addrs_def)

lemmas demo_eval = demo_boot_fields nor.simps demo_boot_image(1) demo_boot_header(1) demo_header_fields demo_boot_place demo_boot_words
  demo_args_end demo_kernel_env demo_seg

lemmas demo_holds = demo_boot_header(2) demo_boot_image(2) demo_boot_clear

lemma demo_boots:
  "\<exists>s'. do_bootm (nor_device 0x10000) (\<lambda>_ _ _ r. (r, 1)) [''bootm'', ''bc050000''] demo_boot = Some (s', Started_kernel 0x80000400 3 0x83f80000 0x83f80430)"
  using dev.bootm_kernel [OF demo_boot_fields(3) demo_boot_vars demo_boot_addr demo_addr, where lzma = "\<lambda>_ _ _ r. (r, 1)" and ss = "0x10000", unfolded demo_eval] demo_holds
  by (auto simp: line_of_def DRAM_END_def)

theorem kernel_image_boots_witness:
  "\<exists>s'. do_bootm (nor_device 0x10000) (\<lambda>_ _ _ r. (r, 1)) [''bootm'', ''bc050000''] demo_boot = Some (s', Started_kernel 0x80000400 3 0x83f80000 0x83f80430) \<and>
    ram_bytes (ram s') 0x80000000 4 = [1, 2, 3, 4] \<and>
    kernel_memory seg 0x3f80000 [''console=ttyS1'', ''root=/dev/mtdblock5'']
      [''memsize=64'', ''initrd_start=0x00000000'', ''initrd_size=0x0'', ''flash_start=0xBC000000'', ''flash_size=0x1000000''] (dram (ram s'))"
  using kernel_image_boots [OF nor_device_chip [of "0x10000"] demo_boot_fields(3) demo_boot_vars demo_boot_addr demo_addr,
    of "\<lambda>_ _ _ r. (r, 1)", unfolded demo_eval] demo_holds
  by (auto simp: line_of_def DRAM_END_def)

theorem bootm_starts_checked_images_witness:
  "\<exists>s'. do_bootm (nor_device 0x10000) (\<lambda>_ _ _ r. (r, 1)) [''bootm'', ''bc050000''] demo_boot = Some (s', Started_kernel 0x80000400 3 0x83f80000 0x83f80430) \<and>
    valid_header (header_of_bytes (image_bytes demo_cells (ram demo_boot) 0xbc050000 0 sizeof_header))"
proof -
  obtain s' where s: "do_bootm (nor_device 0x10000) (\<lambda>_ _ _ r. (r, 1)) [''bootm'', ''bc050000''] demo_boot = Some (s', Started_kernel 0x80000400 3 0x83f80000 0x83f80430)"
    using demo_boots by blast
  have "started (Started_kernel 0x80000400 3 0x83f80000 0x83f80430) = Some 0x80000400" by (simp add: started_def)
  then show ?thesis
    using s bootm_starts_checked_images [OF nor_device_chip [of "0x10000"] demo_boot_fields(3) demo_boot_vars(1) s, of "0x80000400"]
    by (auto simp: demo_boot_addr demo_boot_fields)
qed

end
