(* ===== verification/FatSpec.thy ===== *)
theory FatSpec
  imports FatRead
begin

text \<open>
  What reading a file means: the device as an array of blocks, the table as the format defines it, a file as the chain of its clusters. Termination for
  every content of the disk, and the contents of a file on an intact one.
\<close>

subsection \<open>Devices\<close>

text \<open>A device delivers all blocks asked for, or fails and stores no more than was asked for.\<close>

locale block_reads =
  fixes read_fn :: "u32 \<Rightarrow> u32 \<Rightarrow> u32 \<times> u8 list" and bsz :: nat
  assumes bsz: "0 < bsz" "bsz < 65536"
    and full: "read_fn b n = (n, bs) \<Longrightarrow> length bs = unat n * bsz"
    and room: "read_fn b n = (k, bs) \<Longrightarrow> length bs \<le> unat n * bsz"

text \<open>A device that holds \<open>nblk\<close> blocks and reads all of them.\<close>

locale block_array = block_reads +
  fixes sec :: "nat \<Rightarrow> u8 list" and nblk :: nat
  assumes sec: "length (sec i) = bsz"
    and nblk: "nblk < 2 ^ 31"
    and even: "even bsz"
    and reads: "unat b + unat n \<le> nblk \<Longrightarrow> read_fn b n = (n, concat (map sec [unat b..<unat b + unat n]))"

definition reads_with :: "fat_state \<Rightarrow> (u32 \<Rightarrow> u32 \<Rightarrow> u32 \<times> u8 list) \<Rightarrow> bool" where
  "reads_with st f \<longleftrightarrow> (\<exists>d. cur_dev st = Some d \<and> block_read d = Some f)"

lemma disk_read_fn: "reads_with st f \<Longrightarrow> disk_read st b n = map_prod sint id (f (p_start (cur_part_info st) + b) n)"
  by (auto simp: reads_with_def disk_read_def)

text \<open>The parameters of a file system fit the device.\<close>

definition fs_ok :: "nat \<Rightarrow> fsdata \<Rightarrow> bool" where
  "fs_ok bsz fs \<longleftrightarrow> unat (sect_size fs) = bsz \<and> length (fatbuf fs) = FATBUFSIZE fs \<and> fatsize fs \<in> {12, 16, 32}"

definition same_geo :: "fsdata \<Rightarrow> fsdata \<Rightarrow> bool" where
  "same_geo fs fs' \<longleftrightarrow> fs' = fs\<lparr>fatbuf := fatbuf fs', fatbufnum := fatbufnum fs'\<rparr>"

lemma same_geo_refl [simp]: "same_geo fs fs" by (simp add: same_geo_def)

lemma same_geo_trans: "same_geo a b \<Longrightarrow> same_geo b c \<Longrightarrow> same_geo a c"
  by (cases a; cases b; cases c) (simp add: same_geo_def)

lemma same_geo_fields:
  assumes "same_geo fs fs'"
  shows "fatsize fs' = fatsize fs" "fatlength fs' = fatlength fs" "fat_sect fs' = fat_sect fs" "rootdir_sect fs' = rootdir_sect fs"
    "sect_size fs' = sect_size fs" "clust_size fs' = clust_size fs" "data_begin fs' = data_begin fs" "FATBUFSIZE fs' = FATBUFSIZE fs"
  using assms by (cases fs; cases fs'; simp add: same_geo_def FATBUFSIZE_def)+

lemma ents_per_buf_ok:
  assumes "fs_ok bsz fs" "0 < bsz"
  shows "\<exists>per. ents_per_buf fs = Some per \<and> 0 < per \<and>
    (fatsize fs = 32 \<longrightarrow> 4 * per \<le> FATBUFSIZE fs) \<and> (fatsize fs = 16 \<longrightarrow> 2 * per \<le> FATBUFSIZE fs) \<and> (fatsize fs = 12 \<longrightarrow> 3 * per \<le> 2 * FATBUFSIZE fs)"
  using assms by (auto simp: fs_ok_def ents_per_buf_def FATBUFSIZE_def FATBUFBLOCKS_def)

lemma length_into_buf: "into_buf bs buf = Some buf' \<Longrightarrow> length buf' = length buf"
  by (auto simp: into_buf_def split: if_splits)

context block_reads
begin

lemma fat_cache_ok:
  assumes "reads_with st read_fn" "fs_ok bsz fs"
  shows "\<exists>r fs'. fat_cache st n fs = Some r \<and> (r = Inl fs' \<or> r = Inr fs') \<and> fs_ok bsz fs' \<and> same_geo fs fs'"
proof (cases "of_nat n = fatbufnum fs")
  case True
  then show ?thesis using assms(2) by (intro exI [of _ "Inr fs"] exI [of _ fs]) (simp add: fat_cache_def)
next
  case False
  let ?get = "min (of_nat FATBUFBLOCKS) (ucast (fatlength fs)) :: u32" and ?b = "of_nat n * of_nat FATBUFBLOCKS + ucast (fat_sect fs) :: u32"
  obtain k bs where r: "read_fn (p_start (cur_part_info st) + ?b) ?get = (k, bs)" by fastforce
  have "unat ?get \<le> FATBUFBLOCKS" by (simp add: min_def word_le_nat_alt FATBUFBLOCKS_def)
  then have "unat ?get * bsz \<le> FATBUFSIZE fs" using assms(2) by (simp add: fs_ok_def FATBUFSIZE_def mult.commute)
  then have "length bs \<le> length (fatbuf fs)" using room [OF r] assms(2) by (simp add: fs_ok_def)
  then obtain buf where b: "into_buf bs (fatbuf fs) = Some buf" by (simp add: into_buf_def)
  let ?fs = "fs\<lparr>fatbuf := buf\<rparr>"
  have ok: "fs_ok bsz ?fs" "fs_ok bsz (?fs\<lparr>fatbufnum := of_nat n\<rparr>)"
    using assms(2) length_into_buf [OF b] by (simp_all add: fs_ok_def FATBUFSIZE_def)
  have g: "same_geo fs ?fs" "same_geo fs (?fs\<lparr>fatbufnum := of_nat n\<rparr>)" by (simp_all add: same_geo_def)
  show ?thesis using False r b ok g
    by (cases "sint k < 0") (auto simp: fat_cache_def disk_read_fn [OF assms(1)] Let_def)
qed

lemma fat12_ent_total:
  assumes "offset < per" "3 * per \<le> 2 * length b" "6 dvd length b"
  shows "fat12_ent b offset \<noteq> None"
proof -
  from assms(3) obtain k where k: "length b = 6 * k" by (auto simp: dvd_def)
  define q where "q = offset div 4"
  have "offset mod 4 < 4" by simp
  then consider "offset = 4 * q" | "offset = 4 * q + 1" | "offset = 4 * q + 2" | "offset = 4 * q + 3" unfolding q_def by linarith
  then show ?thesis
  proof cases
    case 1
    have "offset * 3 div 4 = 3 * q" "offset mod 4 = 0" using 1 by simp_all
    moreover have "q < k" using 1 assms(1, 2) k by linarith
    ultimately show ?thesis using k by (simp add: fat12_ent_def buf16_def Let_def)
  next
    case 2
    have "offset * 3 div 4 = 3 * q" "offset mod 4 = 1" using 2 by simp_all
    moreover have "q < k" using 2 assms(1, 2) k by linarith
    ultimately show ?thesis using k by (simp add: fat12_ent_def buf16_def Let_def)
  next
    case 3
    have "offset * 3 div 4 = 3 * q + 1" "offset mod 4 = 2" using 3 by (simp, presburger)
    moreover have "q < k" using 3 assms(1, 2) k by linarith
    ultimately show ?thesis using k by (simp add: fat12_ent_def buf16_def Let_def)
  next
    case 4
    have "offset * 3 div 4 = 3 * q + 2" "offset mod 4 = 3" using 4 by (simp, presburger)
    moreover have "q < k" using 4 assms(1, 2) k by linarith
    ultimately show ?thesis using k by (simp add: fat12_ent_def buf16_def Let_def)
  qed
qed

lemma get_fatent_total:
  assumes "reads_with st read_fn" "fs_ok bsz fs"
  shows "\<exists>v fs'. get_fatent st e fs = Some (v, fs') \<and> fs_ok bsz fs' \<and> same_geo fs fs'"
proof -
  obtain per where per: "ents_per_buf fs = Some per" "0 < per" "fatsize fs = 32 \<longrightarrow> 4 * per \<le> FATBUFSIZE fs"
    "fatsize fs = 16 \<longrightarrow> 2 * per \<le> FATBUFSIZE fs" "fatsize fs = 12 \<longrightarrow> 3 * per \<le> 2 * FATBUFSIZE fs"
    using ents_per_buf_ok [OF assms(2) bsz(1)] by blast
  obtain r fs' where c: "fat_cache st (unat e div per) fs = Some r" "r = Inl fs' \<or> r = Inr fs'" "fs_ok bsz fs'" "same_geo fs fs'"
    using fat_cache_ok [OF assms, of "unat e div per"] by blast
  note g = same_geo_fields [OF c(4)]
  have len: "length (fatbuf fs') = FATBUFSIZE fs" "6 dvd length (fatbuf fs')" using c(3) g by (simp_all add: fs_ok_def FATBUFSIZE_def FATBUFBLOCKS_def)
  let ?o = "unat e mod per"
  have o: "?o < per" using per(2) by simp
  have "(if fatsize fs' = 32 then buf32 (fatbuf fs') ?o else if fatsize fs' = 16 then map_option ucast (buf16 (fatbuf fs') ?o)
      else fat12_ent (fatbuf fs') ?o) \<noteq> None"
  proof -
    consider "fatsize fs' = 32" | "fatsize fs' = 16" | "fatsize fs' = 12" using c(3) by (auto simp: fs_ok_def)
    then show ?thesis
    proof cases
      case 1
      then show ?thesis using per(3) o g len by (simp add: buf32_def)
    next
      case 2
      then show ?thesis using per(4) o g len by (simp add: buf16_def)
    next
      case 3
      then show ?thesis using fat12_ent_total [OF o _ len(2)] per(5) g len by simp
    qed
  qed
  then show ?thesis using per(1, 2) c by (cases r) (auto simp: get_fatent_def Let_def)
qed

lemma get_cluster_total:
  assumes "reads_with st read_fn" "unat (sect_size fs) = bsz"
  shows "\<exists>ok bs. get_cluster st fs c n = Some (ok, bs) \<and> length bs \<le> unat n"
proof -
  let ?sect = "ucast (sect_size fs) :: u32"
  have s: "unat ?sect = bsz" "sect_size fs \<noteq> 0"
    using assms(2) bsz by (auto simp: unsigned_ucast_eq take_bit_nat_eq_self simp flip: unat_eq_0)
  have nr: "unat (n div ?sect) = unat n div bsz" "unat (n mod ?sect) = unat n mod bsz" by (simp_all add: unat_div unat_mod s(1))
  have one: "unat (1 :: u32) = 1" by simp
  have dm: "unat n div bsz * bsz + unat n mod bsz = unat n" by simp
  define start0 where "start0 = (if c > 0 then signed (data_begin fs) + c * ucast (clust_size fs) else (ucast (rootdir_sect fs) :: u32))"
  define start where "start = p_start (cur_part_info st) + start0"
  obtain k bs where r: "read_fn start (n div ?sect) = (k, bs)" by fastforce
  obtain k2 tmp where r2: "read_fn (start + n div ?sect) 1 = (k2, tmp)" by fastforce
  have e: "get_cluster st fs c n =
      (if k \<noteq> n div ?sect then Some (False, bs)
       else if length bs \<noteq> unat n div bsz * bsz then None
       else if n mod ?sect = 0 then Some (True, bs)
       else if length tmp > bsz then None
       else if sint k2 \<noteq> 1 then Some (False, bs)
       else if length tmp \<noteq> bsz then None
       else Some (True, bs @ take (unat n mod bsz) tmp))"
    unfolding get_cluster_def disk_read_fn [OF assms(1)] Let_def start0_def [symmetric] add.assoc [symmetric] start_def [symmetric] r r2
    by (simp add: s nr)
  have l: "length bs \<le> unat n div bsz * bsz" "length tmp \<le> bsz" using room [OF r] room [OF r2] by (simp_all add: nr)
  have f: "k = n div ?sect \<Longrightarrow> length bs = unat n div bsz * bsz" using full [of start "n div ?sect" bs] r by (simp add: nr)
  have f2: "sint k2 = 1 \<Longrightarrow> length tmp = bsz"
  proof -
    assume "sint k2 = 1"
    then have "word_of_int (sint k2) = (1 :: u32)" by (simp only:) simp
    then have "k2 = 1" by simp
    then show "length tmp = bsz" using full [of "start + n div ?sect" 1 tmp] r2 by simp
  qed
  have lb: "length bs \<le> unat n" using l(1) dm by linarith
  have la: "length (bs @ take (unat n mod bsz) tmp) \<le> unat n" if "k = n div ?sect"
  proof -
    have "length (take (unat n mod bsz) tmp) \<le> unat n mod bsz" by simp
    then show ?thesis using f [OF that] dm unfolding length_append by linarith
  qed
  show ?thesis
  proof (cases "k = n div ?sect")
    case True
    show ?thesis unfolding e using f [OF True] l(2) f2 lb la [OF True] True by (cases "n mod ?sect = 0"; cases "sint k2 = 1") auto
  next
    case False
    then show ?thesis unfolding e using lb by auto
  qed
qed

text \<open>The search for consecutive clusters ends, whatever the table says: the numbers of a run increase, and stay below the end markers.\<close>

lemma find_run_total:
  assumes "reads_with st read_fn" "fs_ok bsz fs"
  shows "\<exists>k e act fs'. find_run st bpc n endclust actsize fs = Some (k, e, act, fs') \<and> fs_ok bsz fs' \<and> same_geo fs fs' \<and>
    (k = Run_enough \<longrightarrow> n \<le> act) \<and> (k = Run_break \<longrightarrow> act < n) \<and>
    (unat n + unat bpc \<le> 2 ^ 32 \<longrightarrow> bpc \<le> actsize \<longrightarrow> bpc \<le> act)"
  using assms(2)
proof (induction "unat (- endclust)" arbitrary: endclust actsize fs rule: less_induct)
  case less
  show ?case
  proof (cases "actsize < n")
    case False
    then show ?thesis using less.prems by (subst find_run.simps) (simp add: leD)
  next
    case True
    obtain v fs1 where g: "get_fatent st endclust fs = Some (v, fs1)" "fs_ok bsz fs1" "same_geo fs fs1"
      using get_fatent_total [OF assms(1) less.prems] by blast
    show ?thesis
    proof (cases "v - 1 \<noteq> endclust \<or> CHECK_CLUST v (fatsize fs1)")
      case stop: True
      then show ?thesis using True g by (subst find_run.simps) auto
    next
      case False
      then have v: "v = endclust + 1" "\<not> CHECK_CLUST v (fatsize fs1)" by (auto simp: algebra_simps)
      have "endclust \<noteq> 0"
      proof
        assume "endclust = 0"
        then show False using v by (simp add: CHECK_CLUST_def)
      qed
      then have "unat (- endclust - 1) < unat (- endclust)" by (intro measure_unat) simp
      then have "unat (- v) < unat (- endclust)" using v(1) by simp
      from less.hyps [OF this g(2), of "actsize + bpc"] obtain k e act fs' where
        "find_run st bpc n v (actsize + bpc) fs1 = Some (k, e, act, fs')" "fs_ok bsz fs'" "same_geo fs1 fs'"
        "(k = Run_enough \<longrightarrow> n \<le> act) \<and> (k = Run_break \<longrightarrow> act < n) \<and>
          (unat n + unat bpc \<le> 2 ^ 32 \<longrightarrow> bpc \<le> actsize + bpc \<longrightarrow> bpc \<le> act)" by blast
      moreover have "bpc \<le> actsize + bpc" if "unat n + unat bpc \<le> 2 ^ 32"
      proof -
        have "unat actsize + unat bpc < 2 ^ LENGTH(32)" using True that by (simp add: word_less_nat_alt)
        then have "unat (actsize + bpc) = unat actsize + unat bpc" by (simp only: unat_add_lem)
        then show ?thesis by (simp add: word_le_nat_alt)
      qed
      ultimately show ?thesis using True g(1) v same_geo_trans [OF g(3)] by (subst find_run.simps) auto
    qed
  qed
qed

lemma load_clusters_total:
  assumes "reads_with st read_fn" "fs_ok bsz fs"
  shows "\<exists>x. load_clusters st fs c n a r = Some x"
proof -
  have "unat (sect_size fs) = bsz" using assms(2) by (simp add: fs_ok_def)
  from get_cluster_total [OF assms(1) this, of c n] show ?thesis by (auto simp: load_clusters_def)
qed

lemma contents_total:
  assumes "reads_with st read_fn" "fs_ok bsz fs" "0 < bpc" "unat n + unat bpc \<le> 2 ^ 32"
  shows "\<exists>x. contents_loop st bpc c n got a r fs = Some x"
  using assms(2, 4)
proof (induction "unat n" arbitrary: n c got a r fs rule: less_induct)
  case less
  obtain k e act fs1 where f: "find_run st bpc n c bpc fs = Some (k, e, act, fs1)" "fs_ok bsz fs1" "k = Run_enough \<longrightarrow> n \<le> act"
    "k = Run_break \<longrightarrow> act < n" "bpc \<le> act"
    using find_run_total [OF assms(1) less.prems(1), of bpc n c bpc] less.prems(2) by auto
  note l = load_clusters_total [OF assms(1) f(2)]
  show ?case
  proof (cases k)
    case Run_invalid
    then show ?thesis using f(1) by (subst contents_loop.simps) simp
  next
    case Run_enough
    obtain ok r1 where 1: "load_clusters st fs1 c (act - bpc) a r = Some (ok, r1)" using l by fastforce
    obtain ok2 r2 where 2: "load_clusters st fs1 e (n - (act - bpc)) (a + (act - bpc)) r1 = Some (ok2, r2)" using l by fastforce
    show ?thesis using f(1) Run_enough 1 2 by (subst contents_loop.simps) (simp add: Let_def)
  next
    case Run_break
    obtain ok r1 where 1: "load_clusters st fs1 c act a r = Some (ok, r1)" using l by fastforce
    obtain v fs2 where 2: "get_fatent st e fs1 = Some (v, fs2)" "fs_ok bsz fs2" using get_fatent_total [OF assms(1) f(2)] by blast
    have act: "unat act \<le> unat n" "0 < unat act" "unat (n - act) = unat n - unat act"
      using f(4, 5) assms(3) Run_break by (simp_all add: word_less_nat_alt word_le_nat_alt unat_sub)
    then have "unat (n - act) < unat n" "unat (n - act) + unat bpc \<le> 2 ^ 32" using less.prems(2) by simp_all
    from less.hyps [OF this(1) 2(2) this(2)] obtain x where "contents_loop st bpc v (n - act) (got + act) (a + act) r1 fs2 = Some x" by blast
    then show ?thesis using f(1) Run_break 1 2(1) by (cases x, subst contents_loop.simps) (simp add: Let_def)
  qed
qed

end

subsection \<open>The table as the format defines it\<close>

definition fat_pos :: "int \<Rightarrow> nat \<Rightarrow> nat" where
  "fat_pos bits e = (if bits = 32 then 4 * e else if bits = 16 then 2 * e else e + e div 2)"

definition fat_width :: "int \<Rightarrow> nat" where "fat_width bits = (if bits = 32 then 4 else 2)"

definition fat_entry :: "int \<Rightarrow> u8 list \<Rightarrow> nat \<Rightarrow> u32" where
  "fat_entry bits fb e =
     (if bits = 32 then word_at fb (4 * e)
      else (let h = ucast (half_at fb (fat_pos bits e)) in if bits = 16 then h else if even e then h AND 0xfff else drop_bit 4 h))"

definition fat_has :: "int \<Rightarrow> u8 list \<Rightarrow> nat \<Rightarrow> bool" where "fat_has bits fb e \<longleftrightarrow> fat_pos bits e + fat_width bits \<le> length fb"

definition half :: "u8 \<Rightarrow> u8 \<Rightarrow> u16" where "half x y = ucast x OR push_bit 8 (ucast y)"

lemma bit_half: "bit (half x y) n \<longleftrightarrow> (if n < 8 then bit x n else n < 16 \<and> bit y (n - 8))"
  using bit_u8_bound [of x n] by (auto simp: half_def bit_simps)

lemma nibble_masks: "(0xff :: u16) = mask 8" "(0xf :: u16) = mask 4" "(0xfff :: u32) = mask 12" "(0xf000 :: u16) = push_bit 12 (mask 4)"
  "(0xff00 :: u16) = push_bit 8 (mask 8)" "(0xfff0 :: u32) = push_bit 4 (mask 12)"
  by (simp_all add: mask_eq_exp_minus_1 push_bit_eq_mult)

lemma nib1: "push_bit 4 (ucast (half c d AND 0xff)) OR drop_bit 12 (ucast (half a b AND 0xf000)) = drop_bit 4 (ucast (half b c) :: u32)"
  unfolding nibble_masks by (rule bit_word_eqI) (auto simp: bit_half bit_simps)

lemma nib2: "push_bit 8 (ucast (half c d AND 0xf)) OR drop_bit 8 (ucast (half a b AND 0xff00)) = ucast (half b c) AND (0xfff :: u32)"
  unfolding nibble_masks by (rule bit_word_eqI) (auto simp: bit_half bit_simps)

lemma nib3: "drop_bit 4 (ucast (half a b) AND 0xfff0) = drop_bit 4 (ucast (half a b) :: u32)"
  unfolding nibble_masks by (rule bit_word_eqI) (auto simp: bit_half bit_simps)

lemma half_at_half: "j = i + 1 \<Longrightarrow> half_at b i = half (b ! i) (b ! j)" by (simp add: half_at_def half_def)

lemma fat12_ent_is:
  assumes "6 dvd length b" "e < per" "3 * per \<le> 2 * length b"
  shows "fat12_ent b e = Some (if even e then ucast (half_at b (e + e div 2)) AND 0xfff else drop_bit 4 (ucast (half_at b (e + e div 2))))"
proof -
  from assms(1) obtain k where k: "length b = 6 * k" by (auto simp: dvd_def)
  define q where "q = e div 4"
  have s4: "Suc (Suc (Suc (Suc (6 * q)))) = 6 * q + 4" by simp
  have "e mod 4 < 4" by simp
  then consider "e = 4 * q" | "e = 4 * q + 1" | "e = 4 * q + 2" | "e = 4 * q + 3" unfolding q_def by linarith
  then show ?thesis
  proof cases
    case 1
    have c: "e * 3 div 4 = 3 * q" "e mod 4 = 0" "e + e div 2 = 6 * q" "even e" using 1 by simp_all
    moreover have "q < k" using 1 assms(2, 3) k by linarith
    ultimately show ?thesis using k by (simp add: fat12_ent_def buf16_def Let_def)
  next
    case 2
    have c: "e * 3 div 4 = 3 * q" "e mod 4 = 1" "e + e div 2 = 6 * q + 1" "odd e" using 2 by simp_all
    have "q < k" using 2 assms(2, 3) k by linarith
    then have e: "fat12_ent b e = Some (push_bit 4 (ucast (half_at b (6 * q + 2) AND 0xff)) OR drop_bit 12 (ucast (half_at b (6 * q) AND 0xf000)))"
      using c k by (simp add: fat12_ent_def buf16_def Let_def)
    have h: "half_at b (6 * q + 2) = half (b ! (6 * q + 2)) (b ! (6 * q + 3))" "half_at b (6 * q) = half (b ! (6 * q)) (b ! (6 * q + 1))"
      "half_at b (6 * q + 1) = half (b ! (6 * q + 1)) (b ! (6 * q + 2))" by (rule half_at_half, simp)+
    show ?thesis unfolding e c(3) h nib1 using c(4) by simp
  next
    case 3
    have c: "e * 3 div 4 = 3 * q + 1" "e mod 4 = 2" "e + e div 2 = 6 * q + 3" "even e" using 3 by (simp, presburger, simp_all)
    have "q < k" using 3 assms(2, 3) k by linarith
    then have e: "fat12_ent b e = Some (push_bit 8 (ucast (half_at b (6 * q + 4) AND 0xf)) OR drop_bit 8 (ucast (half_at b (6 * q + 2) AND 0xff00)))"
      using c k by (simp add: fat12_ent_def buf16_def Let_def s4)
    have h: "half_at b (6 * q + 4) = half (b ! (6 * q + 4)) (b ! (6 * q + 5))" "half_at b (6 * q + 2) = half (b ! (6 * q + 2)) (b ! (6 * q + 3))"
      "half_at b (6 * q + 3) = half (b ! (6 * q + 3)) (b ! (6 * q + 4))" by (rule half_at_half, simp)+
    show ?thesis unfolding e c(3) h nib2 using c(4) by simp
  next
    case 4
    have c: "e * 3 div 4 = 3 * q + 2" "e mod 4 = 3" "e + e div 2 = 6 * q + 4" "odd e" using 4 by (simp, presburger, simp_all)
    have "q < k" using 4 assms(2, 3) k by linarith
    then have e: "fat12_ent b e = Some (drop_bit 4 (ucast (half_at b (6 * q + 4)) AND 0xfff0))"
      using c k by (simp add: fat12_ent_def buf16_def Let_def s4)
    have h: "half_at b (6 * q + 4) = half (b ! (6 * q + 4)) (b ! (6 * q + 5))" by (rule half_at_half) simp
    show ?thesis unfolding e c(3) h nib3 using c(4) by simp
  qed
qed

lemma sint_u32: "unat (x :: u32) < 2 ^ 31 \<Longrightarrow> sint x = int (unat x)"
proof -
  assume x: "unat x < 2 ^ 31"
  then have "uint x < int (2 ^ 31)" unfolding unat_eq_nat_uint by (simp only: nat_less_iff [OF uint_ge_0])
  then have "uint x < 2 ^ 31" by simp
  moreover have "- (2 ^ 31) \<le> uint x" by (rule order_trans [OF _ uint_ge_0]) simp
  ultimately have "signed_take_bit 31 (uint x) = uint x" by (simp only: signed_take_bit_int_eq_self)
  then show ?thesis by (simp add: sint_uint)
qed

lemma unat_ucast_u16: "unat (ucast (x :: u16) :: u32) = unat x"
  by (simp add: unsigned_ucast_eq take_bit_nat_eq_self order.strict_trans [OF unat_u16_bound])

lemma length_blocks: "(\<And>i. length (f i) = b) \<Longrightarrow> length (concat (map f [a..<a + n])) = n * b"
  by (induction n) simp_all

lemma nth_blocks:
  assumes "\<And>i. length (f i) = b" "0 < b"
  shows "i < n * b \<Longrightarrow> concat (map f [a..<a + n]) ! i = f (a + i div b) ! (i mod b)"
proof (induction n)
  case (Suc n)
  have len: "length (concat (map f [a..<a + n])) = n * b" by (rule length_blocks [OF assms(1)])
  show ?case
  proof (cases "i < n * b")
    case True
    with Suc.IH len show ?thesis by (simp add: nth_append)
  next
    case False
    then have "i div b = n" using Suc.prems assms(2) by (intro div_nat_eqI) (simp_all add: mult.commute)
    moreover from this have "i mod b = i - n * b" by (simp add: minus_div_mult_eq_mod [symmetric])
    ultimately show ?thesis using False len by (simp add: nth_append)
  qed
qed simp

lemma blocks_append: "concat (map f [a..<a + n]) @ concat (map f [a + n..<a + n + m]) = concat (map f [a..<a + (n + m)])"
proof -
  have "[a..<a + (n + m)] = [a..<a + n] @ [a + n..<a + n + m]" using upt_add_eq_append [of a "a + n" m] by (simp add: add.assoc)
  then show ?thesis by simp
qed

text \<open>The sectors of the partition.\<close>

definition psec :: "(nat \<Rightarrow> u8 list) \<Rightarrow> fat_state \<Rightarrow> nat \<Rightarrow> u8 list" where "psec sec st i = sec (unat (p_start (cur_part_info st)) + i)"

text \<open>The table as it lies on the disk, and what the cache holds of it.\<close>

definition fat_bytes :: "(nat \<Rightarrow> u8 list) \<Rightarrow> fat_state \<Rightarrow> fsdata \<Rightarrow> u8 list" where
  "fat_bytes sec st fs = concat (map (psec sec st) [unat (fat_sect fs)..<unat (fat_sect fs) + unat (fatlength fs)])"

definition on_volume :: "(u32 \<Rightarrow> u32 \<Rightarrow> u32 \<times> u8 list) \<Rightarrow> nat \<Rightarrow> nat \<Rightarrow> fat_state \<Rightarrow> fsdata \<Rightarrow> bool" where
  "on_volume read_fn bsz nblk st fs \<longleftrightarrow> reads_with st read_fn \<and> fs_ok bsz fs \<and>
     unat (p_start (cur_part_info st)) + unat (fat_sect fs) + unat (fatlength fs) + FATBUFBLOCKS \<le> nblk"

definition cache_ok :: "(nat \<Rightarrow> u8 list) \<Rightarrow> fat_state \<Rightarrow> fsdata \<Rightarrow> bool" where
  "cache_ok sec st fs \<longleftrightarrow> fatbufnum fs = - 1 \<or>
     (\<forall>i<FATBUFSIZE fs. unat (fatbufnum fs) * FATBUFSIZE fs + i < length (fat_bytes sec st fs) \<longrightarrow>
        fatbuf fs ! i = fat_bytes sec st fs ! (unat (fatbufnum fs) * FATBUFSIZE fs + i))"

context block_array
begin

lemma length_psec [simp]: "length (psec sec st i) = bsz" by (simp add: psec_def sec)

lemma map_psec: "map sec [unat (p_start (cur_part_info st)) + a..<unat (p_start (cur_part_info st)) + b] = map (psec sec st) [a..<b]"
  by (rule nth_equalityI) (simp_all add: psec_def add.assoc)

lemma disk_read_blocks:
  assumes "reads_with st read_fn" "unat (p_start (cur_part_info st)) + unat b + unat n \<le> nblk"
  shows "disk_read st b n = (sint n, concat (map (psec sec st) [unat b..<unat b + unat n]))"
proof -
  have "unat (p_start (cur_part_info st)) + unat b < 2 ^ LENGTH(32)" using assms(2) nblk by simp
  then have u: "unat (p_start (cur_part_info st) + b) = unat (p_start (cur_part_info st)) + unat b" by (simp only: unat_add_lem)
  have "read_fn (p_start (cur_part_info st) + b) n = (n, concat (map sec [unat (p_start (cur_part_info st)) + unat b..<unat (p_start (cur_part_info st)) + unat b + unat n]))"
    using reads [of "p_start (cur_part_info st) + b" n] assms(2) unfolding u by simp
  then show ?thesis using map_psec [of st "unat b" "unat b + unat n"] by (simp add: disk_read_fn [OF assms(1)] add.assoc)
qed

lemma length_fat_bytes: "length (fat_bytes sec st fs) = unat (fatlength fs) * bsz"
  unfolding fat_bytes_def by (rule length_blocks) simp

lemma fat_cache_reads:
  assumes v: "on_volume read_fn bsz nblk st fs" and c: "cache_ok sec st fs" and n: "FATBUFBLOCKS * n < unat (fatlength fs)"
  shows "\<exists>fs'. fat_cache st n fs = Some (Inr fs') \<and> fs_ok bsz fs' \<and> same_geo fs fs' \<and> cache_ok sec st fs' \<and> unat (fatbufnum fs') = n \<and> fatbufnum fs' \<noteq> - 1"
proof -
  have "6 * n < 65536" using n unat_u16_bound [of "fatlength fs"] unfolding FATBUFBLOCKS_def by linarith
  then have lim: "n < 2 ^ 32 - 1" "6 * n < 65536" by simp_all
  then have un: "unat (of_nat n :: u32) = n" by (simp add: unat_u32_of_nat)
  have m1: "(of_nat n :: u32) \<noteq> - 1"
  proof
    assume "(of_nat n :: u32) = - 1"
    then have "unat (of_nat n :: u32) = unat (- 1 :: u32)" by simp
    then show False using un lim(1) by (simp add: unsigned_minus_1_eq_mask mask_eq_exp_minus_1)
  qed
  show ?thesis
  proof (cases "of_nat n = fatbufnum fs")
    case True
    then show ?thesis using v c un m1 by (intro exI [of _ fs]) (auto simp: fat_cache_def on_volume_def)
  next
    case False
    let ?get = "min (of_nat FATBUFBLOCKS) (ucast (fatlength fs)) :: u32" and ?b = "of_nat n * of_nat FATBUFBLOCKS + ucast (fat_sect fs) :: u32"
    have g: "unat ?get = min FATBUFBLOCKS (unat (fatlength fs))"
      by (simp add: min_def word_le_nat_alt FATBUFBLOCKS_def unat_ucast_u16)
    have sb: "unat ?b = 6 * n + unat (fat_sect fs)"
    proof -
      have "(of_nat (6 * n + unat (fat_sect fs)) :: u32) = ?b" by (simp add: FATBUFBLOCKS_def mult.commute)
      moreover have "6 * n + unat (fat_sect fs) < 2 ^ 32"
        by (rule order.strict_trans [OF add_strict_mono [OF lim(2) unat_u16_bound]]) simp
      ultimately show ?thesis using unat_u32_of_nat [of "6 * n + unat (fat_sect fs)"] by simp
    qed
    have rw: "reads_with st read_fn" "fs_ok bsz fs" using v by (simp_all add: on_volume_def)
    have room: "unat (p_start (cur_part_info st)) + unat ?b + unat ?get \<le> nblk" unfolding g sb
    proof -
      have "unat (p_start (cur_part_info st)) + unat (fat_sect fs) + unat (fatlength fs) + 6 \<le> nblk"
        using v by (simp add: on_volume_def FATBUFBLOCKS_def)
      moreover have "6 * n < unat (fatlength fs)" using n by (simp add: FATBUFBLOCKS_def)
      moreover have "min FATBUFBLOCKS (unat (fatlength fs)) \<le> 6" by (simp add: FATBUFBLOCKS_def)
      ultimately show "unat (p_start (cur_part_info st)) + (6 * n + unat (fat_sect fs)) + min FATBUFBLOCKS (unat (fatlength fs)) \<le> nblk" by linarith
    qed
    let ?bs = "concat (map (psec sec st) [unat ?b..<unat ?b + unat ?get])"
    have r: "disk_read st ?b ?get = (sint ?get, ?bs)" by (rule disk_read_blocks [OF rw(1) room])
    have lb: "length ?bs = unat ?get * bsz" by (rule length_blocks) simp
    have fb: "FATBUFSIZE fs = 6 * bsz" using rw(2) by (simp add: fs_ok_def FATBUFSIZE_def FATBUFBLOCKS_def)
    have "length ?bs \<le> length (fatbuf fs)" using rw(2) lb fb unfolding g by (simp add: fs_ok_def FATBUFBLOCKS_def)
    then have ib: "into_buf ?bs (fatbuf fs) = Some (?bs @ drop (length ?bs) (fatbuf fs))" by (simp add: into_buf_def)
    let ?fs = "fs\<lparr>fatbuf := ?bs @ drop (length ?bs) (fatbuf fs), fatbufnum := of_nat n\<rparr>"
    have pos: "0 \<le> sint ?get" using g by (simp add: sint_u32 FATBUFBLOCKS_def)
    have e: "fat_cache st n fs = Some (Inr ?fs)"
      unfolding fat_cache_def Let_def r using False ib pos by simp
    have fb': "fat_bytes sec st ?fs = fat_bytes sec st fs" "FATBUFSIZE ?fs = FATBUFSIZE fs" by (simp_all add: fat_bytes_def FATBUFSIZE_def)
    have "fatbuf ?fs ! i = fat_bytes sec st fs ! (n * (6 * bsz) + i)" if "i < 6 * bsz" "n * (6 * bsz) + i < length (fat_bytes sec st fs)" for i
    proof -
      have lt: "n * (6 * bsz) + i < unat (fatlength fs) * bsz" using that(2) by (simp add: length_fat_bytes)
      have "i div bsz < 6" using that(1) by (simp add: less_mult_imp_div_less)
      moreover have "6 * n + i div bsz < unat (fatlength fs)"
      proof -
        have "(n * (6 * bsz) + i) div bsz < unat (fatlength fs)" using lt by (rule less_mult_imp_div_less)
        moreover have "(n * (6 * bsz) + i) div bsz = 6 * n + i div bsz" using bsz(1) by (simp add: mult.commute mult.left_commute)
        ultimately show ?thesis by simp
      qed
      ultimately have "i div bsz < unat ?get" unfolding g using n by (simp add: FATBUFBLOCKS_def)
      then have i: "i < unat ?get * bsz" using bsz(1) by (simp add: div_less_iff_less_mult)
      then have "fatbuf ?fs ! i = psec sec st (unat ?b + i div bsz) ! (i mod bsz)"
        using nth_blocks [of "psec sec st" bsz i "unat ?get" "unat ?b"] lb bsz(1) by (simp add: nth_append)
      moreover have "fat_bytes sec st fs ! (n * (6 * bsz) + i) = psec sec st (unat (fat_sect fs) + (6 * n + i div bsz)) ! (i mod bsz)"
      proof -
        have "(n * (6 * bsz) + i) div bsz = 6 * n + i div bsz" "(n * (6 * bsz) + i) mod bsz = i mod bsz"
          using bsz(1) by (simp_all add: mult.commute mult.left_commute)
        then show ?thesis unfolding fat_bytes_def
          using nth_blocks [of "psec sec st" bsz "n * (6 * bsz) + i" "unat (fatlength fs)" "unat (fat_sect fs)"] lt bsz(1) by simp
      qed
      ultimately show ?thesis unfolding sb by (simp add: add.commute add.left_commute)
    qed
    then have c': "cache_ok sec st ?fs" using un by (simp add: cache_ok_def fb' fb)
    have ok: "fs_ok bsz ?fs" using rw(2) length_into_buf [OF ib] by (simp add: fs_ok_def fb')
    show ?thesis using e c' ok un m1 by (intro exI [of _ ?fs]) (simp add: same_geo_def)
  qed
qed

lemma cached_bytes:
  assumes "on_volume read_fn bsz nblk st fs" "cache_ok sec st fs" "fatbufnum fs \<noteq> - 1" "unat (fatbufnum fs) = n" "FATBUFSIZE fs = F" "i < F"
    "n * F + i < length (fat_bytes sec st fs)"
  shows "fatbuf fs ! i = fat_bytes sec st fs ! (n * F + i)"
  using assms by (auto simp: cache_ok_def)

lemma fat_position:
  assumes "fatsize fs \<in> {12, 16, 32}" "ents_per_buf fs = Some per" "FATBUFSIZE fs = 6 * bsz"
  shows "fat_pos (fatsize fs) e = e div per * (6 * bsz) + fat_pos (fatsize fs) (e mod per)" (is ?pos)
    "fat_pos (fatsize fs) (e mod per) + fat_width (fatsize fs) \<le> 6 * bsz" (is ?fits) and "0 < per" "even (e mod per) = even e \<or> fatsize fs \<noteq> 12"
proof -
  obtain h where h: "bsz = 2 * h" using even by (auto elim: evenE)
  have hp: "0 < h" using bsz(1) h by simp
  define n where "n = e div per"
  define r where "r = e mod per"
  have er: "e = n * per + r" by (simp add: n_def r_def)
  have "per = 3 * h \<and> fatsize fs = 32 \<or> per = 6 * h \<and> fatsize fs = 16 \<or> per = 8 * h \<and> fatsize fs = 12"
    using assms h by (auto simp: ents_per_buf_def)
  then consider (a) "per = 3 * h" "fatsize fs = 32" | (b) "per = 6 * h" "fatsize fs = 16" | (c) "per = 8 * h" "fatsize fs = 12" by blast
  note cs = this
  show pp: "0 < per" using cs hp by (cases rule: cs) auto
  have rl: "r < per" using pp by (simp add: r_def)
  show ?pos unfolding n_def [symmetric] r_def [symmetric]
  proof (cases rule: cs)
    case a
    then show "fat_pos (fatsize fs) e = n * (6 * bsz) + fat_pos (fatsize fs) r" using er h by (simp add: fat_pos_def algebra_simps)
  next
    case b
    then show "fat_pos (fatsize fs) e = n * (6 * bsz) + fat_pos (fatsize fs) r" using er h by (simp add: fat_pos_def algebra_simps)
  next
    case c
    have "e div 2 = n * (4 * h) + r div 2" unfolding er c by simp
    then show "fat_pos (fatsize fs) e = n * (6 * bsz) + fat_pos (fatsize fs) r" using er c h by (simp add: fat_pos_def algebra_simps)
  qed
  show ?fits unfolding r_def [symmetric]
  proof (cases rule: cs)
    case a
    then show "fat_pos (fatsize fs) r + fat_width (fatsize fs) \<le> 6 * bsz" using rl h by (simp add: fat_pos_def fat_width_def)
  next
    case b
    then show "fat_pos (fatsize fs) r + fat_width (fatsize fs) \<le> 6 * bsz" using rl h by (simp add: fat_pos_def fat_width_def)
  next
    case c
    then have "r div 2 < 4 * h" using rl by linarith
    then show "fat_pos (fatsize fs) r + fat_width (fatsize fs) \<le> 6 * bsz" using rl c h by (simp add: fat_pos_def fat_width_def)
  qed
  show "even (e mod per) = even e \<or> fatsize fs \<noteq> 12" unfolding r_def [symmetric]
  proof (cases rule: cs)
    case c
    then show "even r = even e \<or> fatsize fs \<noteq> 12" using er by simp
  qed auto
qed

end

lemma word_at_eq:
  assumes k: "\<And>k. k < 4 \<Longrightarrow> b ! (i + k) = c ! (j + k)" and "i + 4 \<le> length b" "j + 4 \<le> length c"
  shows "word_at b i = word_at c j"
  using k [of 0] k [of 1] k [of 2] k [of 3] assms(2, 3) by (simp add: word_at_def of_le32_def)

lemma half_at_eq:
  assumes k: "\<And>k. k < 2 \<Longrightarrow> b ! (i + k) = c ! (j + k)"
  shows "half_at b i = half_at c j"
  using k [of 0] k [of 1] by (simp add: half_at_def)

context block_array
begin

lemma get_fatent_reads:
  assumes v: "on_volume read_fn bsz nblk st fs" "cache_ok sec st fs" and e: "fat_has (fatsize fs) (fat_bytes sec st fs) (unat e)"
  shows "\<exists>fs'. get_fatent st e fs = Some (fat_entry (fatsize fs) (fat_bytes sec st fs) (unat e), fs') \<and> on_volume read_fn bsz nblk st fs' \<and> cache_ok sec st fs' \<and> same_geo fs fs'"
proof -
  let ?b = "fatsize fs" and ?fb = "fat_bytes sec st fs" and ?e = "unat e"
  have ok: "fs_ok bsz fs" using v(1) by (simp add: on_volume_def)
  then have F: "FATBUFSIZE fs = 6 * bsz" and bits: "?b \<in> {12, 16, 32}" by (simp_all add: fs_ok_def FATBUFSIZE_def FATBUFBLOCKS_def)
  obtain per where per: "ents_per_buf fs = Some per" using ents_per_buf_ok [OF ok bsz(1)] by blast
  note p = fat_position(1, 2, 4) [OF bits per F, of ?e] and p0 = fat_position(3) [OF bits per F]
  let ?n = "?e div per" and ?o = "?e mod per"
  have lt: "?n * (6 * bsz) + fat_pos ?b ?o + fat_width ?b \<le> length ?fb" using e p(1) by (simp add: fat_has_def)
  have "0 < fat_width ?b" by (simp add: fat_width_def)
  then have "?n * (6 * bsz) < length ?fb" using lt by linarith
  then have "?n * (6 * bsz) < unat (fatlength fs) * bsz" by (simp only: length_fat_bytes)
  then have n: "FATBUFBLOCKS * ?n < unat (fatlength fs)" using bsz(1) by (simp add: FATBUFBLOCKS_def mult.commute mult.left_commute)
  obtain fs' where c: "fat_cache st ?n fs = Some (Inr fs')" "fs_ok bsz fs'" "same_geo fs fs'" "cache_ok sec st fs'" "unat (fatbufnum fs') = ?n" "fatbufnum fs' \<noteq> - 1"
    using fat_cache_reads [OF v n] by blast
  note g = same_geo_fields [OF c(3)]
  have v': "on_volume read_fn bsz nblk st fs'" using v(1) c(2) g by (simp add: on_volume_def)
  have fb': "fat_bytes sec st fs' = ?fb" by (simp add: fat_bytes_def g)
  have byte: "fatbuf fs' ! (fat_pos ?b ?o + k) = ?fb ! (fat_pos ?b ?e + k)" if "k < fat_width ?b" for k
    using cached_bytes [OF v' c(4, 6, 5), of "6 * bsz" "fat_pos ?b ?o + k"] that p(1, 2) lt F g by (simp add: fb' add.assoc)
  have len: "length (fatbuf fs') = 6 * bsz" using c(2) F g by (simp add: fs_ok_def)
  have "(if fatsize fs' = 32 then buf32 (fatbuf fs') ?o else if fatsize fs' = 16 then map_option ucast (buf16 (fatbuf fs') ?o)
      else fat12_ent (fatbuf fs') ?o) = Some (fat_entry ?b ?fb ?e)"
  proof -
    consider "?b = 32" | "?b = 16" | "?b = 12" using bits by blast
    then show ?thesis
    proof cases
      case 1
      have "word_at (fatbuf fs') (4 * ?o) = word_at ?fb (4 * ?e)"
        using byte p(2) lt len e 1 by (intro word_at_eq) (simp_all add: fat_pos_def fat_width_def fat_has_def)
      then show ?thesis using 1 g p(2) len by (simp add: buf32_def fat_entry_def fat_pos_def fat_width_def)
    next
      case 2
      have "half_at (fatbuf fs') (2 * ?o) = half_at ?fb (2 * ?e)"
        using byte 2 by (intro half_at_eq) (simp add: fat_pos_def fat_width_def)
      then show ?thesis using 2 g p(2) len by (simp add: buf16_def fat_entry_def fat_pos_def fat_width_def Let_def)
    next
      case 3
      have h: "half_at (fatbuf fs') (?o + ?o div 2) = half_at ?fb (?e + ?e div 2)"
        using byte 3 by (intro half_at_eq) (simp add: fat_pos_def fat_width_def)
      have "?o < per" "3 * per \<le> 2 * length (fatbuf fs')" using p0 per 3 F len by (auto simp: ents_per_buf_def)
      then show ?thesis using fat12_ent_is [of "fatbuf fs'" ?o per] len 3 g p(3) by (simp add: fat_entry_def fat_pos_def Let_def h)
    qed
  qed
  then show ?thesis using per p0 c v' by (intro exI [of _ fs']) (simp add: get_fatent_def Let_def)
qed

end

end
