(* ===== verification/FatFile.thy ===== *)
theory FatFile
  imports FatSpec
begin

text \<open>
  The contents of a file: the clusters of its chain one after another, although \<open>get_contents\<close> reads runs of consecutive clusters at once.
\<close>

subsection \<open>Memory\<close>

lemma ram_put_over:
  assumes "k + length ys \<le> length xs" "length xs < 2 ^ 32"
  shows "ram_put (a + of_nat k) ys (ram_put a xs r) = ram_put a (take k xs @ ys @ drop (k + length ys) xs) r"
proof
  fix p
  define d where "d = p - a"
  have u: "unat (of_nat k :: u32) = k" "unat (of_nat (length ys) :: u32) = length ys" "unat (of_nat (length xs) :: u32) = length xs"
    using assms by (simp_all add: unat_u32_of_nat)
  have s: "p - (a + of_nat k) = d - of_nat k" by (simp add: d_def)
  have m: "unat (d - of_nat k) = unat d - k" if "k \<le> unat d" using that u by (simp add: unat_sub word_le_nat_alt)
  have w: "\<not> unat (d - of_nat k) < length ys" if "unat d < k"
  proof -
    have "unat (d - of_nat k) = 2 ^ 32 + unat d - k"
      using that u unat_u32_bound [of d] by (simp add: unat_sub_if')
    then show ?thesis using assms by simp
  qed
  show "ram_put (a + of_nat k) ys (ram_put a xs r) p = ram_put a (take k xs @ ys @ drop (k + length ys) xs) r p"
  proof (cases "unat d < k")
    case True
    then show ?thesis using u w assms by (simp add: ram_put_def ram_copy_def s d_def [symmetric] word_less_nat_alt nth_append)
  next
    case False
    then have "unat (d - of_nat k) = unat d - k" using m by simp
    then show ?thesis using u False assms by (auto simp: ram_put_def ram_copy_def s d_def [symmetric] word_less_nat_alt nth_append)
  qed
qed

lemma ram_bytes_put:
  assumes "i + n \<le> length bs" "length bs < 2 ^ 32"
  shows "ram_bytes (ram_put a bs r) (a + of_nat i) n = take n (drop i bs)"
proof (rule nth_equalityI)
  fix k assume "k < length (ram_bytes (ram_put a bs r) (a + of_nat i) n)"
  then have k: "k < n" by (simp add: ram_bytes_def)
  have "a + of_nat i + of_nat k - a = (of_nat (i + k) :: u32)" by simp
  moreover have "unat (of_nat (i + k) :: u32) = i + k" "unat (of_nat (length bs) :: u32) = length bs" using assms k by (simp_all add: unat_u32_of_nat del: of_nat_add)
  ultimately show "ram_bytes (ram_put a bs r) (a + of_nat i) n ! k = take n (drop i bs) ! k"
    using assms k by (simp add: ram_bytes_def ram_put_def ram_copy_def word_less_nat_alt del: of_nat_add)
qed (use assms in \<open>simp add: ram_bytes_def\<close>)

lemma ram_put_append:
  assumes "length xs + length ys < 2 ^ 32"
  shows "ram_put (a + of_nat (length xs)) ys (ram_put a xs r) = ram_put a (xs @ ys) r"
proof
  fix p
  define d where "d = p - a"
  have u: "unat (of_nat (length xs) :: u32) = length xs" "unat (of_nat (length ys) :: u32) = length ys"
    "unat (of_nat (length xs + length ys) :: u32) = length xs + length ys" using assms by (simp_all add: unat_u32_of_nat del: of_nat_add)
  have s: "p - (a + of_nat (length xs)) = d - of_nat (length xs)" by (simp add: d_def)
  show "ram_put (a + of_nat (length xs)) ys (ram_put a xs r) p = ram_put a (xs @ ys) r p"
  proof (cases "of_nat (length xs) \<le> d")
    case True
    then have m: "unat (d - of_nat (length xs)) = unat d - length xs" "length xs \<le> unat d" using u(1) by (simp_all add: unat_sub word_le_nat_alt)
    then show ?thesis using u True by (auto simp: ram_put_def ram_copy_def s d_def [symmetric] word_less_nat_alt nth_append not_less simp del: of_nat_add)
  next
    case False
    then have l: "unat d < length xs" using u(1) by (simp add: word_le_nat_alt)
    have "\<not> d - of_nat (length xs) < of_nat (length ys)"
    proof -
      have "d < of_nat (length xs)" using False by simp
      then have "unat (d - of_nat (length xs)) = unat d + 2 ^ 32 - length xs"
        using u(1) by (simp add: unat_sub_if_size word_size word_less_nat_alt)
      then show ?thesis using u(2) l assms by (simp add: word_less_nat_alt)
    qed
    then show ?thesis using u l by (simp add: ram_put_def ram_copy_def s d_def [symmetric] word_less_nat_alt nth_append del: of_nat_add)
  qed
qed

subsection \<open>Clusters\<close>

text \<open>The sector where a cluster begins, and whether the cluster lies on the volume.\<close>

definition clust_sect :: "fsdata \<Rightarrow> u32 \<Rightarrow> nat" where
  "clust_sect fs c = nat (sint (data_begin fs) + int (unat c) * int (unat (clust_size fs)))"

definition clust_bytes :: "fsdata \<Rightarrow> nat" where "clust_bytes fs = unat (clust_size fs) * unat (sect_size fs)"

fun consec :: "u32 \<Rightarrow> u32 list \<Rightarrow> bool" where
  "consec c [] = True"
| "consec c (d # ds) = (d = c + 1 \<and> consec d ds)"

definition good_cluster :: "nat \<Rightarrow> fat_state \<Rightarrow> fsdata \<Rightarrow> u32 \<Rightarrow> bool" where
  "good_cluster nblk st fs c \<longleftrightarrow> 1 < c \<and> 0 \<le> sint (data_begin fs) + int (unat c) * int (unat (clust_size fs)) \<and>
     unat (p_start (cur_part_info st)) + clust_sect fs c + unat (clust_size fs) \<le> nblk"

definition cluster_data :: "(nat \<Rightarrow> u8 list) \<Rightarrow> fat_state \<Rightarrow> fsdata \<Rightarrow> u32 \<Rightarrow> u8 list" where
  "cluster_data sec st fs c = concat (map (psec sec st) [clust_sect fs c..<clust_sect fs c + unat (clust_size fs)])"

text \<open>The clusters \<open>cs\<close> follow \<open>c\<close> in the table.\<close>

fun chained :: "(nat \<Rightarrow> u8 list) \<Rightarrow> fat_state \<Rightarrow> fsdata \<Rightarrow> u32 \<Rightarrow> u32 list \<Rightarrow> bool" where
  "chained sec st fs c [] = True"
| "chained sec st fs c (d # ds) \<longleftrightarrow>
     fat_has (fatsize fs) (fat_bytes sec st fs) (unat c) \<and> fat_entry (fatsize fs) (fat_bytes sec st fs) (unat c) = d \<and>
     \<not> CHECK_CLUST d (fatsize fs) \<and> chained sec st fs d ds"

context block_array
begin

lemma length_cluster_data: "length (cluster_data sec st fs c) = unat (clust_size fs) * bsz"
  unfolding cluster_data_def by (rule length_blocks) simp

lemma start_sect:
  assumes "good_cluster nblk st fs c"
  shows "unat ((signed (data_begin fs) :: u32) + c * ucast (clust_size fs)) = clust_sect fs c"
proof -
  let ?i = "sint (data_begin fs) + int (unat c) * int (unat (clust_size fs))"
  have i: "0 \<le> ?i" "nat ?i < 4294967296" using assms nblk by (simp_all add: good_cluster_def clust_sect_def)
  have "(signed (data_begin fs) :: u32) = word_of_int (sint (data_begin fs))" by simp
  moreover have "c * ucast (clust_size fs) = word_of_int (int (unat c) * int (unat (clust_size fs)))" by simp
  ultimately have "(signed (data_begin fs) :: u32) + c * ucast (clust_size fs) = word_of_int ?i" by (simp only: wi_hom_add)
  moreover have "word_of_int ?i = (of_nat (nat ?i) :: u32)" using i(1) by simp
  ultimately have "(signed (data_begin fs) :: u32) + c * ucast (clust_size fs) = of_nat (nat ?i)" by (simp only:)
  then show ?thesis using unat_u32_of_nat [OF i(2)] by (simp only: clust_sect_def)
qed

lemma next_cluster:
  assumes "good_cluster nblk st fs c" "good_cluster nblk st fs (c + 1)"
  shows "clust_sect fs (c + 1) = clust_sect fs c + unat (clust_size fs)"
proof -
  have "1 + c \<noteq> 0" using assms(2) by (auto simp: good_cluster_def add.commute)
  then have u: "unat (c + 1) = Suc (unat c)" using unatSuc [of c] by (simp add: add.commute)
  have "sint (data_begin fs) + int (unat (c + 1)) * int (unat (clust_size fs)) =
      sint (data_begin fs) + int (unat c) * int (unat (clust_size fs)) + int (unat (clust_size fs))" unfolding u by (simp add: algebra_simps)
  moreover have "0 \<le> sint (data_begin fs) + int (unat c) * int (unat (clust_size fs))" using assms(1) by (simp only: good_cluster_def)
  ultimately show ?thesis unfolding clust_sect_def by (simp only: nat_add_distrib of_nat_0_le_iff nat_int)
qed

lemma run_fits:
  "consec c cs \<Longrightarrow> \<forall>d\<in>set (c # cs). good_cluster nblk st fs d \<Longrightarrow>
   unat (p_start (cur_part_info st)) + clust_sect fs c + length (c # cs) * unat (clust_size fs) \<le> nblk"
proof (induction cs arbitrary: c)
  case Nil
  then show ?case by (simp add: good_cluster_def)
next
  case (Cons d ds)
  then have d: "clust_sect fs d = clust_sect fs c + unat (clust_size fs)" using next_cluster [of st fs c] by simp
  have "unat (p_start (cur_part_info st)) + clust_sect fs d + length (d # ds) * unat (clust_size fs) \<le> nblk"
    using Cons.prems(2) by (intro Cons.IH [OF conjunct2 [OF Cons.prems(1) [unfolded consec.simps]]]) simp
  then show ?case by (simp add: d)
qed

lemma run_data:
  "consec c cs \<Longrightarrow> \<forall>d\<in>set (c # cs). good_cluster nblk st fs d \<Longrightarrow>
   concat (map (cluster_data sec st fs) (c # cs)) = concat (map (psec sec st) [clust_sect fs c..<clust_sect fs c + length (c # cs) * unat (clust_size fs)])"
proof (induction cs arbitrary: c)
  case Nil
  then show ?case by (simp add: cluster_data_def)
next
  case (Cons d ds)
  then have d: "clust_sect fs d = clust_sect fs c + unat (clust_size fs)" using next_cluster [of st fs c] by simp
  have i: "concat (map (cluster_data sec st fs) (d # ds)) =
      concat (map (psec sec st) [clust_sect fs d..<clust_sect fs d + length (d # ds) * unat (clust_size fs)])"
    using Cons.prems(2) by (intro Cons.IH [OF conjunct2 [OF Cons.prems(1) [unfolded consec.simps]]]) simp
  have "concat (map (cluster_data sec st fs) (c # d # ds)) = cluster_data sec st fs c @ concat (map (cluster_data sec st fs) (d # ds))" by simp
  also have "\<dots> = concat (map (psec sec st) [clust_sect fs c..<clust_sect fs c + (unat (clust_size fs) + length (d # ds) * unat (clust_size fs))])"
    unfolding i d cluster_data_def by (rule blocks_append)
  finally show ?case by simp
qed

lemma take_blocks:
  assumes "\<And>i. length (f i) = b" "q * b + m \<le> k * b" "m < b"
  shows "take (q * b + m) (concat (map f [a..<a + k])) = concat (map f [a..<a + q]) @ (if m = 0 then [] else take m (f (a + q)))"
proof -
  have "q * b \<le> k * b" using assms(2) by linarith
  then have q: "q \<le> k" using assms(3) by simp
  have qk: "q < k" if "m \<noteq> 0"
  proof (rule ccontr)
    assume "\<not> q < k"
    then have "k * b \<le> q * b" by simp
    then show False using assms(2) that by linarith
  qed
  have e: "concat (map f [a..<a + k]) = concat (map f [a..<a + q]) @ concat (map f [a + q..<a + q + (k - q)])"
    using q blocks_append [of f a q "k - q"] by simp
  have l: "length (concat (map f [a..<a + q])) = q * b" by (rule length_blocks [OF assms(1)])
  show ?thesis
  proof (cases "m = 0")
    case True
    then show ?thesis using l unfolding e by simp
  next
    case False
    then have "[a + q..<a + q + (k - q)] = (a + q) # [Suc (a + q)..<a + k]" using qk by (simp add: upt_conv_Cons)
    then show ?thesis using l False assms(1, 3) unfolding e by simp
  qed
qed

lemma get_cluster_reads:
  assumes "reads_with st read_fn" "unat (sect_size fs) = bsz" "good_cluster nblk st fs c"
    "unat (p_start (cur_part_info st)) + clust_sect fs c + k \<le> nblk" "unat len \<le> k * bsz"
  shows "get_cluster st fs c len = Some (True, take (unat len) (concat (map (psec sec st) [clust_sect fs c..<clust_sect fs c + k])))"
proof -
  let ?sect = "ucast (sect_size fs) :: u32" and ?S = "clust_sect fs c"
  define q where "q = unat len div bsz"
  define m where "m = unat len mod bsz"
  have s: "unat ?sect = bsz" "sect_size fs \<noteq> 0" using assms(2) bsz by (auto simp: unat_ucast_u16 simp flip: unat_eq_0)
  have nr: "unat (len div ?sect) = q" "unat (len mod ?sect) = m" by (simp_all add: q_def m_def unat_div unat_mod s(1))
  have len: "unat len = q * bsz + m" "m < bsz" using bsz(1) by (simp_all add: q_def m_def)
  have le: "q * bsz + m \<le> k * bsz" using assms(5) len(1) by simp
  have "q * bsz \<le> k * bsz" using le by linarith
  then have qk: "q \<le> k" using bsz(1) by simp
  have qk2: "q < k" if "m \<noteq> 0"
  proof (rule ccontr)
    assume "\<not> q < k"
    then have "k * bsz \<le> q * bsz" by simp
    then show False using le that by linarith
  qed
  define start where "start = (if c > 0 then signed (data_begin fs) + c * ucast (clust_size fs) else (ucast (rootdir_sect fs) :: u32))"
  have c0: "c > 0" using assms(3) by (auto simp: good_cluster_def word_gt_0)
  have st: "unat start = ?S" unfolding start_def using start_sect [OF assms(3)] c0 by simp
  have r1: "disk_read st start (len div ?sect) = (sint (len div ?sect), concat (map (psec sec st) [?S..<?S + q]))"
    using disk_read_blocks [OF assms(1), of start "len div ?sect"] assms(4) qk by (simp add: st nr)
  have r2: "disk_read st (start + len div ?sect) 1 = (1, psec sec st (?S + q))" if "m \<noteq> 0"
  proof -
    have "unat start + unat (len div ?sect) < 2 ^ LENGTH(32)" using assms(4) qk nblk by (simp add: st nr)
    then have u: "unat (start + len div ?sect) = ?S + q" by (simp only: unat_add_lem) (simp add: st nr)
    show ?thesis using disk_read_blocks [OF assms(1), of "start + len div ?sect" 1] assms(4) qk2 [OF that] by (simp add: u)
  qed
  have l: "length (concat (map (psec sec st) [?S..<?S + q])) = q * bsz" by (rule length_blocks) simp
  have m0: "len mod ?sect = 0 \<longleftrightarrow> m = 0" using nr(2) by (simp flip: unat_eq_0)
  have t: "take (unat len) (concat (map (psec sec st) [?S..<?S + k])) = concat (map (psec sec st) [?S..<?S + q]) @ (if m = 0 then [] else take m (psec sec st (?S + q)))"
    unfolding len(1) by (rule take_blocks) (simp_all add: le len(2))
  show ?thesis
  proof (cases "m = 0")
    case True
    then show ?thesis unfolding t get_cluster_def Let_def start_def [symmetric] r1 using s l m0 nr by simp
  next
    case False
    then show ?thesis unfolding t get_cluster_def Let_def start_def [symmetric] r1 using s l m0 nr r2 [OF False] by simp
  qed
qed

lemma get_cluster_run:
  assumes "reads_with st read_fn" "unat (sect_size fs) = bsz" "consec c cs" "\<forall>d\<in>set (c # cs). good_cluster nblk st fs d"
    "unat len \<le> length (c # cs) * clust_bytes fs"
  shows "get_cluster st fs c len = Some (True, take (unat len) (concat (map (cluster_data sec st fs) (c # cs))))"
  unfolding run_data [OF assms(3, 4)]
  by (rule get_cluster_reads [OF assms(1, 2) _ run_fits [OF assms(3, 4)]])
    (use assms(2, 4, 5) in \<open>simp_all add: clust_bytes_def add_mult_distrib mult.assoc\<close>)

subsection \<open>The chain\<close>

lemma geo_bytes: "same_geo fs fs' \<Longrightarrow> fat_bytes sec st fs' = fat_bytes sec st fs"
  by (simp add: fat_bytes_def same_geo_fields)

lemma geo_chained: "same_geo fs fs' \<Longrightarrow> chained sec st fs' c cs = chained sec st fs c cs"
  by (induction cs arbitrary: c) (simp_all add: geo_bytes same_geo_fields)

lemma geo_cluster:
  assumes "same_geo fs fs'"
  shows "good_cluster nblk st fs' = good_cluster nblk st fs" "cluster_data sec st fs' = cluster_data sec st fs" "clust_bytes fs' = clust_bytes fs"
  by (rule ext, simp add: good_cluster_def clust_sect_def same_geo_fields [OF assms],
      rule ext, simp add: cluster_data_def clust_sect_def same_geo_fields [OF assms], simp add: clust_bytes_def same_geo_fields [OF assms])

text \<open>The search for consecutive clusters takes the clusters of the chain, up to the first that does not follow its predecessor.\<close>

lemma find_run_chain:
  assumes "on_volume read_fn bsz nblk st fs" "cache_ok sec st fs" "chained sec st fs c cs" "0 < bpc" "unat n \<le> k + length cs * unat bpc"
    "cs \<noteq> [] \<longrightarrow> k + (length cs - 1) * unat bpc < unat n" "unat act = k" "unat n + unat bpc \<le> 2 ^ 32"
  shows "\<exists>run rest e act' fs'. find_run st bpc n c act fs = Some (if rest = [] then Run_enough else Run_break, e, act', fs') \<and>
    cs = run @ rest \<and> consec c run \<and> e = last (c # run) \<and> unat act' = k + length run * unat bpc \<and> chained sec st fs e rest \<and>
    on_volume read_fn bsz nblk st fs' \<and> cache_ok sec st fs' \<and> same_geo fs fs'"
  using assms
proof (induction cs arbitrary: c k act fs)
  case Nil
  then have "\<not> act < n" by (simp add: word_less_nat_alt)
  then show ?case using Nil.prems by (subst find_run.simps) (auto intro!: exI [of _ "[]"])
next
  case (Cons d ds)
  note v = Cons.prems(1, 2) and bpc = Cons.prems(4)
  have ch: "fat_has (fatsize fs) (fat_bytes sec st fs) (unat c)" "fat_entry (fatsize fs) (fat_bytes sec st fs) (unat c) = d"
    "\<not> CHECK_CLUST d (fatsize fs)" "chained sec st fs d ds" using Cons.prems(3) by simp_all
  obtain fs1 where g: "get_fatent st c fs = Some (d, fs1)" "on_volume read_fn bsz nblk st fs1" "cache_ok sec st fs1" "same_geo fs fs1"
    using get_fatent_reads [OF v ch(1)] ch(2) by blast
  have kn: "k < unat n" using Cons.prems(6) by simp
  then have lt: "act < n" using Cons.prems(7) by (simp add: word_less_nat_alt)
  show ?case
  proof (cases "d = c + 1")
    case False
    then have "d - 1 \<noteq> c" by (auto simp: algebra_simps)
    then have s: "find_run st bpc n c act fs = Some (Run_break, c, act, fs1)" using lt g(1) by (subst find_run.simps) simp
    show ?thesis unfolding s
      by (rule exI [of _ "[]"], rule exI [of _ "d # ds"], rule exI [of _ c], rule exI [of _ act], rule exI [of _ fs1])
        (use g Cons.prems(3, 7) in \<open>simp del: chained.simps\<close>)
  next
    case True
    have p: "0 < unat bpc" using bpc by (simp add: word_less_nat_alt)
    have "unat act + unat bpc < 2 ^ LENGTH(32)" using kn Cons.prems(7, 8) by simp
    then have "unat (act + bpc) = unat act + unat bpc" by (simp only: unat_add_lem)
    then have a: "unat (act + bpc) = k + unat bpc" using Cons.prems(7) by simp
    have g': "fatsize fs1 = fatsize fs" using g(4) by (simp add: same_geo_fields)
    have s: "find_run st bpc n c act fs = find_run st bpc n d (act + bpc) fs1"
      using lt g(1) ch(3) g' True by (subst find_run.simps) simp
    have n1: "unat n \<le> (k + unat bpc) + length ds * unat bpc" using Cons.prems(5) by simp
    have n2: "ds \<noteq> [] \<longrightarrow> (k + unat bpc) + (length ds - 1) * unat bpc < unat n"
      using Cons.prems(6) by (cases ds) simp_all
    have cd: "chained sec st fs1 d ds" using ch(4) by (simp add: geo_chained [OF g(4)])
    from Cons.IH [OF g(2, 3) cd bpc n1 n2 a Cons.prems(8)] obtain run rest e act' fs' where
      r: "find_run st bpc n d (act + bpc) fs1 = Some (if rest = [] then Run_enough else Run_break, e, act', fs')"
      "ds = run @ rest" "consec d run" "e = last (d # run)" "unat act' = k + unat bpc + length run * unat bpc" "chained sec st fs1 e rest"
      "on_volume read_fn bsz nblk st fs'" "cache_ok sec st fs'" "same_geo fs1 fs'" by blast
    show ?thesis unfolding s
      by (rule exI [of _ "d # run"], rule exI [of _ rest], rule exI [of _ e], rule exI [of _ act'], rule exI [of _ fs'])
        (use r True geo_chained [OF g(4)] same_geo_trans [OF g(4) r(9)] in simp)
  qed
qed

lemma load_run:
  assumes "on_volume read_fn bsz nblk st fs" "consec c cs" "\<forall>d\<in>set (c # cs). good_cluster nblk st fs d" "unat len \<le> length (c # cs) * clust_bytes fs"
  shows "load_clusters st fs c len a r = Some (True, ram_put a (take (unat len) (concat (map (cluster_data sec st fs) (c # cs)))) r)"
proof -
  have "reads_with st read_fn" "unat (sect_size fs) = bsz" using assms(1) by (simp_all add: on_volume_def fs_ok_def)
  then show ?thesis using get_cluster_run [OF _ _ assms(2-4)] by (simp add: load_clusters_def)
qed

lemma length_clusters:
  assumes "on_volume read_fn bsz nblk st fs"
  shows "length (concat (map (cluster_data sec st fs) cs)) = length cs * clust_bytes fs"
  using assms by (induction cs) (simp_all add: length_cluster_data clust_bytes_def on_volume_def fs_ok_def)

lemma consec_last: "consec c (run @ [d]) \<Longrightarrow> consec c run"
  by (induction run arbitrary: c) auto

text \<open>A file of \<open>n\<close> bytes: its clusters, no more than it needs, one after another in the buffer.\<close>

lemma contents_chain:
  assumes "on_volume read_fn bsz nblk st fs" "cache_ok sec st fs" "chained sec st fs c cs" "\<forall>d\<in>set (c # cs). good_cluster nblk st fs d"
    "unat bpc = clust_bytes fs" "0 < bpc" "length cs * unat bpc < unat n" "unat n \<le> length (c # cs) * unat bpc" "unat n + unat bpc \<le> 2 ^ 32"
  shows "\<exists>fs'. contents_loop st bpc c n got a r fs = Some (got + n, ram_put a (take (unat n) (concat (map (cluster_data sec st fs) (c # cs)))) r, fs') \<and>
    on_volume read_fn bsz nblk st fs' \<and> cache_ok sec st fs' \<and> same_geo fs fs'"
  using assms
proof (induction "length cs" arbitrary: c cs n got a r fs rule: less_induct)
  case less
  note v = less.prems(1, 2) and ch = less.prems(3) and good = less.prems(4) and bpc = less.prems(5, 6) and lo = less.prems(7) and hi = less.prems(8, 9)
  have pb: "0 < unat bpc" using bpc(2) by (simp add: word_less_nat_alt)
  have h1: "unat n \<le> unat bpc + length cs * unat bpc" using hi(1) by simp
  have h2: "cs \<noteq> [] \<longrightarrow> unat bpc + (length cs - 1) * unat bpc < unat n" using lo by (cases cs) simp_all
  obtain run rest e act fs1 where f:
    "find_run st bpc n c bpc fs = Some (if rest = [] then Run_enough else Run_break, e, act, fs1)"
    "cs = run @ rest" "consec c run" "e = last (c # run)" "unat act = unat bpc + length run * unat bpc" "chained sec st fs e rest"
    "on_volume read_fn bsz nblk st fs1" "cache_ok sec st fs1" "same_geo fs fs1"
    using find_run_chain [OF v ch bpc(2) h1 h2 refl hi(2)] by blast
  note geo = geo_cluster [OF f(9)]
  let ?D = "\<lambda>cs. concat (map (cluster_data sec st fs) cs)"
  have lD: "length (?D xs) = length xs * unat bpc" for xs using length_clusters [OF v(1)] bpc(1) by simp
  have gr: "\<forall>d\<in>set (c # run). good_cluster nblk st fs1 d" using good f(2) by (simp add: geo)
  show ?case
  proof (cases "rest = []")
    case True
    then have cs: "cs = run" using f(2) by simp
    have act: "unat (act - bpc) = length cs * unat bpc" using f(5) cs by (simp add: unat_sub word_le_nat_alt)
    have na: "unat (n - (act - bpc)) = unat n - length cs * unat bpc" using lo act by (simp add: unat_sub word_le_nat_alt)
    have "unat (act - bpc) \<le> length (c # run) * clust_bytes fs1" unfolding act using cs bpc(1) by (simp add: geo)
    from load_run [OF f(7, 3) gr this] have l1:
      "load_clusters st fs1 c (act - bpc) a r = Some (True, ram_put a (take (length cs * unat bpc) (?D (c # run))) r)" by (simp add: geo act)
    have "unat (n - (act - bpc)) \<le> length [e] * clust_bytes fs1" unfolding na using h1 bpc(1) by (simp add: geo)
    moreover have "\<forall>d\<in>set [e]. good_cluster nblk st fs1 d" using gr f(4) by (cases run rule: rev_cases) auto
    ultimately have l2: "load_clusters st fs1 e (n - (act - bpc)) b m =
        Some (True, ram_put b (take (unat n - length cs * unat bpc) (?D [e])) m)" for b m
      using load_run [OF f(7), of e "[]"] by (simp add: geo na)
    have split: "?D (c # run) = ?D (butlast (c # run)) @ ?D [e]" using f(4) by (cases run rule: rev_cases) simp_all
    have lb: "length (?D (butlast (c # run))) = length cs * unat bpc" by (simp add: lD cs)
    define X where "X = ?D (butlast (c # run))"
    define Y where "Y = take (unat n - length cs * unat bpc) (?D [e])"
    have lX: "length X = unat (act - bpc)" using lb act by (simp add: X_def)
    have tX: "take (length cs * unat bpc) (?D (c # run)) = X" unfolding split X_def using lb by simp
    have XY: "X @ Y = take (unat n) (?D (c # cs))" unfolding cs split X_def Y_def using lb lo cs by simp
    have lY: "length Y = unat n - length cs * unat bpc" unfolding Y_def using h1 lD [of "[e]"] by simp
    have "length X + length Y < 2 ^ 32" using lX lY act lo unat_u32_bound [of n] by simp
    then have put: "ram_put (a + (act - bpc)) Y (ram_put a X r) = ram_put a (X @ Y) r"
      using ram_put_append [of X Y a r] by (simp add: lX)
    have "contents_loop st bpc c n got a r fs = Some (got + (act - bpc) + (n - (act - bpc)), ram_put (a + (act - bpc)) Y (ram_put a X r), fs1)"
      using f(1) True l1 [unfolded tX] l2 [folded Y_def] by (subst contents_loop.simps) (simp add: Let_def)
    then show ?thesis using f(7-9) unfolding put XY by (intro exI [of _ fs1]) simp
  next
    case False
    then obtain d ds where rest: "rest = d # ds" by (cases rest) simp_all
    have act: "unat act = length (c # run) * unat bpc" using f(5) by simp
    have lcs: "length cs = length run + 1 + length ds" using f(2) rest by simp
    have an: "unat act < unat n" using lo unfolding act lcs by (simp add: add_mult_distrib)
    then have na: "unat (n - act) = unat n - unat act" by (simp add: unat_sub word_le_nat_alt)
    have "unat act \<le> length (c # run) * clust_bytes fs1" unfolding act using bpc(1) by (simp add: geo)
    from load_run [OF f(7, 3) gr this] have l1: "load_clusters st fs1 c act a r = Some (True, ram_put a (take (unat act) (?D (c # run))) r)"
      by (simp add: geo)
    have tX: "take (unat act) (?D (c # run)) = ?D (c # run)" using act by (simp add: lD del: concat.simps list.map)
    have ch': "fat_has (fatsize fs1) (fat_bytes sec st fs1) (unat e)" "fat_entry (fatsize fs1) (fat_bytes sec st fs1) (unat e) = d"
      "\<not> CHECK_CLUST d (fatsize fs1)" "chained sec st fs1 d ds"
      using f(6) rest geo_bytes [OF f(9)] same_geo_fields(1) [OF f(9)] geo_chained [OF f(9)] by simp_all
    obtain fs2 where g: "get_fatent st e fs1 = Some (d, fs2)" "on_volume read_fn bsz nblk st fs2" "cache_ok sec st fs2" "same_geo fs1 fs2"
      using get_fatent_reads [OF f(7, 8) ch'(1)] ch'(2) by blast
    have gg: "same_geo fs fs2" by (rule same_geo_trans [OF f(9) g(4)])
    have nd: "\<not> CHECK_CLUST d (fatsize fs2)" using ch'(3) same_geo_fields(1) [OF g(4)] by simp
    have "length ds < length cs" using lcs by simp
    moreover have "chained sec st fs2 d ds" using ch'(4) by (simp add: geo_chained [OF g(4)])
    moreover have "\<forall>d\<in>set (d # ds). good_cluster nblk st fs2 d" using good f(2) rest by (simp add: geo_cluster [OF gg])
    moreover have "unat bpc = clust_bytes fs2" using bpc(1) by (simp add: geo_cluster [OF gg])
    moreover have "length ds * unat bpc < unat (n - act)" "unat (n - act) \<le> length (d # ds) * unat bpc" "unat (n - act) + unat bpc \<le> 2 ^ 32"
      using lo hi unfolding na act lcs length_Cons by (simp_all add: add_mult_distrib lcs)
    ultimately obtain fs' where i:
      "contents_loop st bpc d (n - act) (got + act) (a + act) (ram_put a (?D (c # run)) r) fs2 =
        Some (got + act + (n - act), ram_put (a + act) (take (unat (n - act)) (concat (map (cluster_data sec st fs2) (d # ds)))) (ram_put a (?D (c # run)) r), fs')"
      "on_volume read_fn bsz nblk st fs'" "cache_ok sec st fs'" "same_geo fs2 fs'"
      using less.hyps [of ds fs2 d "n - act" "got + act" "a + act" "ram_put a (?D (c # run)) r"] g(2, 3) bpc(2) by blast
    define X where "X = ?D (c # run)"
    define Y where "Y = take (unat n - unat act) (?D (d # ds))"
    have lX: "length X = unat act" using act by (simp add: X_def lD del: concat.simps list.map)
    have lY: "length Y \<le> unat n - unat act" by (simp add: Y_def)
    have XY: "X @ Y = take (unat n) (?D (c # cs))" unfolding Y_def using lX an by (simp add: X_def f(2) rest)
    have "length X + length Y \<le> unat n" using lX lY an by linarith
    then have "length X + length Y < 2 ^ LENGTH(32)" by (rule le_less_trans) (rule unsigned_less)
    then have put: "ram_put (a + act) Y (ram_put a X r) = ram_put a (X @ Y) r" using ram_put_append [of X Y a r] by (simp add: lX)
    have "contents_loop st bpc c n got a r fs = contents_loop st bpc d (n - act) (got + act) (a + act) (ram_put a X r) fs2"
      using f(1) False l1 [unfolded tX, folded X_def] g(1) nd by (subst contents_loop.simps) (simp add: Let_def)
    also have "\<dots> = Some (got + n, ram_put (a + act) Y (ram_put a X r), fs')"
      using i(1) unfolding X_def Y_def geo_cluster(2) [OF gg] na by simp
    finally show ?thesis using i(2, 3) same_geo_trans [OF gg i(4)] unfolding put XY by (intro exI [of _ fs']) simp
  qed
qed

end

end
