(* ===== verification/FatName.thy ===== *)
theory FatName
  imports FatFile
begin

text \<open>
  Names in a directory: what \<open>get_vfatname\<close> reads from the slots of a long name, and the entry that a search finds, over the plain list of the
  entries of a directory.
\<close>

subsection \<open>Long names\<close>

definition long_chars :: "u8 list list \<Rightarrow> u8 list" where "long_chars ss = takeWhile (\<lambda>c. c \<noteq> 0) (concat (map slot_chars (rev ss)))"

definition last_slot :: "u8 list \<Rightarrow> bool" where "last_slot d \<longleftrightarrow> (d ! 0) AND LAST_LONG_ENTRY_MASK \<noteq> 0"

text \<open>The slots of one name, as they stand before its entry: the last one first, marked, and numbered down to 1.\<close>

definition slots_ok :: "u8 list list \<Rightarrow> bool" where
  "slots_ok ss \<longleftrightarrow> ss \<noteq> [] \<and> length ss \<le> VFAT_MAXSEQ \<and>
     (\<forall>k<length ss. slot_num (ss ! k) = length ss - k \<and> (last_slot (ss ! k) \<longleftrightarrow> k = 0))"

lemma length_slot_chars [simp]: "length (slot_chars d) = 13" by (simp add: slot_chars_def)

lemma takeWhile_fin:
  "takeWhile (\<lambda>c. c \<noteq> (0 :: u8)) (xs @ ys) = (if 0 \<in> set xs then takeWhile (\<lambda>c. c \<noteq> 0) xs else xs @ takeWhile (\<lambda>c. c \<noteq> 0) ys)"
  by (auto simp: takeWhile_append)

lemma slot2str_fits:
  assumes "length name + 13 < VFAT_MAXLEN_BYTES"
  shows "slot2str d name = Some (0 \<in> set (slot_chars d), name @ takeWhile (\<lambda>c. c \<noteq> 0) (slot_chars d))"
  using assms length_takeWhile_le [of "\<lambda>c. c \<noteq> 0" "slot_chars d"] by (simp add: slot2str_def Let_def)

lemma names_back_slots:
  assumes "\<forall>k<length ss. entry_at buf (i + k) = Some (ss ! k)" "ss \<noteq> []" "\<forall>k<length ss. last_slot (ss ! k) \<longleftrightarrow> k = 0"
    "length name + 13 * length ss < VFAT_MAXLEN_BYTES"
  shows "names_back buf (i + length ss) name = Some (name @ long_chars ss)"
  using assms
proof (induction ss arbitrary: name rule: rev_induct)
  case (snoc d ds)
  have e: "entry_at buf (i + length ds) = Some d" using snoc.prems(1) by (auto dest: spec [of _ "length ds"])
  have l: "last_slot d \<longleftrightarrow> ds = []" using snoc.prems(3) by (auto dest: spec [of _ "length ds"])
  have s: "slot2str d name = Some (0 \<in> set (slot_chars d), name @ takeWhile (\<lambda>c. c \<noteq> 0) (slot_chars d))"
    using snoc.prems(4) by (intro slot2str_fits) simp
  show ?case
  proof (cases "0 \<in> set (slot_chars d)")
    case True
    then show ?thesis using e s by (simp add: long_chars_def takeWhile_fin)
  next
    case False
    then have tw: "takeWhile (\<lambda>c. c \<noteq> 0) (slot_chars d) = slot_chars d" by (auto simp: takeWhile_eq_all_conv)
    show ?thesis
    proof (cases "ds = []")
      case True
      then show ?thesis using e s l by (simp add: long_chars_def last_slot_def)
    next
      case ne: False
      have "names_back buf (i + length ds) (name @ slot_chars d) = Some ((name @ slot_chars d) @ long_chars ds)"
      proof (rule snoc.IH)
        show "\<forall>k<length ds. entry_at buf (i + k) = Some (ds ! k)" using snoc.prems(1) by (auto simp: nth_append dest: spec)
        show "\<forall>k<length ds. last_slot (ds ! k) \<longleftrightarrow> k = 0"
        proof (intro allI impI)
          fix k assume "k < length ds"
          then show "last_slot (ds ! k) \<longleftrightarrow> k = 0" using snoc.prems(3) [rule_format, of k] by (simp add: nth_append)
        qed
      qed (use ne snoc.prems(4) in simp_all)
      then show ?thesis using e s l ne False by (simp add: long_chars_def takeWhile_fin tw last_slot_def)
    qed
  qed
qed simp

lemma walk_slots_run:
  "\<forall>k<n. entry_at buf (i + k) = Some (g k) \<and> slot_num (g k) = n - k \<Longrightarrow> 32 * (i + n) \<le> buflimit \<Longrightarrow>
   walk_slots buf buflimit i n = Some (Inr (i + n, 0))"
proof (induction n arbitrary: i g)
  case (Suc n)
  have e: "entry_at buf i = Some (g 0)" "slot_num (g 0) = Suc n" using Suc.prems(1) [rule_format, of 0] by simp_all
  have "walk_slots buf buflimit (i + 1) n = Some (Inr (i + 1 + n, 0))"
  proof (rule Suc.IH [of _ "\<lambda>k. g (Suc k)"])
    show "\<forall>k<n. entry_at buf (i + 1 + k) = Some (g (Suc k)) \<and> slot_num (g (Suc k)) = n - k"
    proof (intro allI impI)
      fix k assume "k < n"
      then show "entry_at buf (i + 1 + k) = Some (g (Suc k)) \<and> slot_num (g (Suc k)) = n - k"
        using Suc.prems(1) [rule_format, of "Suc k"] by simp
    qed
  qed (use Suc.prems(2) in simp)
  then show ?case using e Suc.prems(2) by simp
qed simp

text \<open>The name of an entry that stands behind its slots, all in one block.\<close>

lemma get_vfatname_here:
  assumes "slots_ok ss" "\<forall>k<length ss. entry_at buf (i + k) = Some (ss ! k)" "entry_at buf (i + length ss) = Some e"
    "32 * (i + length ss) < unat (sect_size fs) * (if c = 0 then PREFETCH_BLOCKS else unat (clust_size fs))"
  shows "get_vfatname st c buf i fs = Some (Some (downcase (unmark (long_chars ss)), put_entry i e buf), st, fs)"
proof -
  have ne: "ss \<noteq> []" and n9: "length ss \<le> VFAT_MAXSEQ" using assms(1) by (simp_all add: slots_ok_def)
  have e0: "entry_at buf i = Some (ss ! 0)" using assms(2) [rule_format, of 0] ne by simp
  have n0: "slot_num (ss ! 0) = length ss" using assms(1) ne by (simp add: slots_ok_def)
  have w: "walk_slots buf lim i (length ss) = Some (Inr (i + length ss, 0))" if "32 * (i + length ss) < lim" for lim
    by (rule walk_slots_run [of _ _ _ "\<lambda>k. ss ! k"]) (use assms(1, 2) that in \<open>simp_all add: slots_ok_def\<close>)
  have "13 * length ss < VFAT_MAXLEN_BYTES" using n9 by (simp add: VFAT_MAXSEQ_def VFAT_MAXLEN_BYTES_def)
  then have b: "names_back buf (i + length ss) [] = Some (long_chars ss)"
    using names_back_slots [OF assms(2) ne, of "[]"] assms(1) by (simp add: slots_ok_def)
  have "length (concat (map slot_chars xs)) = 13 * length xs" for xs by (induction xs) simp_all
  from this [of "rev ss"] have "length (long_chars ss) \<le> 13 * length ss"
    unfolding long_chars_def using length_takeWhile_le [of "\<lambda>c. c \<noteq> 0" "concat (map slot_chars (rev ss))"] by simp
  then have l: "\<not> VFAT_MAXLEN_BYTES \<le> length (long_chars ss)" using n9 by (simp add: VFAT_MAXSEQ_def VFAT_MAXLEN_BYTES_def)
  show ?thesis using e0 n0 n9 w [OF assms(4)] assms(3, 4) b l by (simp add: get_vfatname_def Let_def)
qed

subsection \<open>The search\<close>

text \<open>The entry a name leads to: the first whose short name it is, or whose long name. Entries that are deleted, slots that do not begin a long name, and the label
  of the volume are passed over, and an entry that begins with 0 ends the directory.\<close>

definition begins_long :: "u8 list \<Rightarrow> bool" where "begins_long d \<longleftrightarrow> d_attr d AND ATTR_VOLUME \<noteq> 0 \<and> is_long d"

definition passed_over :: "u8 list \<Rightarrow> bool" where
  "passed_over d \<longleftrightarrow> d ! 0 = DELETED_FLAG \<or> d_attr d AND ATTR_VOLUME \<noteq> 0 \<and> \<not> is_long d"

definition long_name :: "u8 list list \<Rightarrow> u8 list" where "long_name ss = downcase (unmark (long_chars ss))"

fun dir_find :: "u8 list \<Rightarrow> u8 list list \<Rightarrow> u8 list option" where
  "dir_find fname [] = None"
| "dir_find fname (d # ds) =
     (if passed_over d then dir_find fname ds
      else if begins_long d
      then (let n = slot_num d; e = (d # ds) ! n
            in if fname = get_name e \<or> fname = long_name (take n (d # ds)) then Some e else dir_find fname ds)
      else if d ! 0 = 0 then None
      else if fname = get_name d then Some d else dir_find fname ds)"

text \<open>Every long name that begins in the directory is complete.\<close>

definition dir_ok :: "u8 list list \<Rightarrow> bool" where
  "dir_ok es \<longleftrightarrow> (\<forall>i<length es. d_attr (es ! i) AND ATTR_VOLUME \<noteq> 0 \<longrightarrow> is_long (es ! i) \<longrightarrow> es ! i ! 0 \<noteq> DELETED_FLAG \<longrightarrow>
     i + slot_num (es ! i) < length es \<and> slots_ok (take (slot_num (es ! i)) (drop i es)))"

subsection \<open>How long names are stored\<close>

text \<open>The format of VFAT: units of 16 bits, thirteen in each slot, a 0 and ones behind the name.\<close>

definition unit_bytes :: "u16 \<Rightarrow> u8 list" where "unit_bytes c = [ucast c, ucast (drop_bit 8 c)]"

definition slot_bytes :: "u8 \<Rightarrow> u8 \<Rightarrow> u16 list \<Rightarrow> u8 list" where
  "slot_bytes num cksum cs =
     num # concat (map unit_bytes (take 5 cs)) @ [ATTR_VFAT, 0, cksum] @ concat (map unit_bytes (take 6 (drop 5 cs))) @ [0, 0] @
     concat (map unit_bytes (drop 11 cs))"

definition slot_count :: "u8 list \<Rightarrow> nat" where "slot_count name = (length name + 12) div 13"

definition padded :: "u8 list \<Rightarrow> u16 list" where
  "padded name = take (13 * slot_count name) (map ucast name @ 0 # replicate 12 0xffff)"

definition vfat_slot :: "u8 \<Rightarrow> u8 list \<Rightarrow> nat \<Rightarrow> u8 list" where
  "vfat_slot cksum name k =
     slot_bytes (of_nat (k + 1) OR (if k + 1 = slot_count name then LAST_LONG_ENTRY_MASK else 0)) cksum (take 13 (drop (13 * k) (padded name)))"

definition vfat_slots :: "u8 \<Rightarrow> u8 list \<Rightarrow> u8 list list" where
  "vfat_slots cksum name = map (vfat_slot cksum name) (rev [0..<slot_count name])"

lemma slot_bytes_fields:
  assumes "length cs = 13"
  shows "slot_chars (slot_bytes num ck cs) = map ucast cs" "slot_bytes num ck cs ! 0 = num" "d_attr (slot_bytes num ck cs) = ATTR_VFAT"
    "length (slot_bytes num ck cs) = 32"
proof -
  from assms obtain a b c d e f g h i j k l m where cs: "cs = [a, b, c, d, e, f, g, h, i, j, k, l, m]"
    by (auto simp: numeral_eq_Suc length_Suc_conv)
  show "slot_chars (slot_bytes num ck cs) = map ucast cs" by (simp add: cs slot_chars_def slot_bytes_def unit_bytes_def)
  show "slot_bytes num ck cs ! 0 = num" by (simp add: slot_bytes_def)
  show "length (slot_bytes num ck cs) = 32" by (simp add: cs slot_bytes_def unit_bytes_def)
  show "d_attr (slot_bytes num ck cs) = ATTR_VFAT" by (simp add: cs d_attr_def slot_bytes_def unit_bytes_def)
qed

lemma length_padded: "length (padded name) = 13 * slot_count name"
  by (simp add: padded_def slot_count_def)

lemma concat_chunks: "length xs = 13 * n \<Longrightarrow> concat (map (\<lambda>k. take 13 (drop (13 * k) xs)) [0..<n]) = xs"
proof -
  assume l: "length xs = 13 * n"
  have "m \<le> n \<Longrightarrow> concat (map (\<lambda>k. take 13 (drop (13 * k) xs)) [0..<m]) = take (13 * m) xs" for m
  proof (induction m)
    case (Suc m)
    have "take (13 * m) xs @ take 13 (drop (13 * m) xs) = take (13 * m + 13) xs" by (simp add: take_add)
    then show ?case using Suc by (simp add: add.commute)
  qed simp
  from this [of n] show ?thesis using l by simp
qed

lemma chunk_length: "k < slot_count name \<Longrightarrow> length (take 13 (drop (13 * k) (padded name))) = 13"
  by (simp add: length_padded)

lemma vfat_slot_fields:
  assumes "k < slot_count name"
  shows "slot_chars (vfat_slot ck name k) = map ucast (take 13 (drop (13 * k) (padded name)))" "d_attr (vfat_slot ck name k) = ATTR_VFAT"
    "vfat_slot ck name k ! 0 = of_nat (k + 1) OR (if k + 1 = slot_count name then LAST_LONG_ENTRY_MASK else 0)"
    "length (vfat_slot ck name k) = 32"
  unfolding vfat_slot_def by (rule slot_bytes_fields [OF chunk_length [OF assms]])+

lemma long_chars_slots:
  assumes "0 \<notin> set name"
  shows "long_chars (vfat_slots ck name) = name"
proof -
  have "concat (map slot_chars (rev (vfat_slots ck name))) = concat (map (\<lambda>k. map ucast (take 13 (drop (13 * k) (padded name)))) [0..<slot_count name])"
    by (intro arg_cong [of _ _ concat]) (simp add: vfat_slots_def rev_map comp_def vfat_slot_fields)
  also have "\<dots> = map ucast (concat (map (\<lambda>k. take 13 (drop (13 * k) (padded name))) [0..<slot_count name]))"
    by (simp add: map_concat comp_def)
  also have "\<dots> = map ucast (padded name)" by (simp only: concat_chunks [OF length_padded])
  finally have c: "concat (map slot_chars (rev (vfat_slots ck name))) = map ucast (padded name)" .
  have id: "map (\<lambda>c. ucast (ucast c :: u16)) name = name"
  proof (rule nth_equalityI)
    fix i assume "i < length (map (\<lambda>c. ucast (ucast c :: u16)) name)"
    then show "map (\<lambda>c. ucast (ucast c :: u16)) name ! i = name ! i" by (simp add: bit_eq_iff) (auto simp: bit_simps)
  qed simp
  have n: "length name \<le> 13 * slot_count name" by (simp add: slot_count_def)
  have tw: "takeWhile (\<lambda>c. c \<noteq> 0) (name @ ys) = name @ takeWhile (\<lambda>c. c \<noteq> 0) ys" for ys using assms by (induction name) auto
  have "map ucast (padded name) = name @ map ucast (take (13 * slot_count name - length name) (0 # replicate 12 (0xffff :: u16)))"
    using n by (simp add: padded_def take_map id comp_def)
  then show ?thesis unfolding long_chars_def c by (simp add: tw take_Cons' )
qed

lemma length_vfat_slots [simp]: "length (vfat_slots ck name) = slot_count name" by (simp add: vfat_slots_def)

lemma nth_vfat_slots: "k < slot_count name \<Longrightarrow> vfat_slots ck name ! k = vfat_slot ck name (slot_count name - Suc k)"
  by (simp add: vfat_slots_def rev_nth)

lemma slot_number: "n \<le> 9 \<Longrightarrow> unat ((of_nat n OR x) AND NOT 0x40 :: u8) = n \<and> ((of_nat n OR x) AND (0x40 :: u8) \<noteq> 0 \<longleftrightarrow> x \<noteq> 0)"
  if "x = 0 \<or> x = 0x40"
proof -
  assume "n \<le> 9"
  then have "n = 0 \<or> n = 1 \<or> n = 2 \<or> n = 3 \<or> n = 4 \<or> n = 5 \<or> n = 6 \<or> n = 7 \<or> n = 8 \<or> n = 9" by presburger
  then show ?thesis using that by (elim disjE) (simp_all)
qed

lemma slots_ok_vfat:
  assumes "name \<noteq> []" "length name \<le> 13 * VFAT_MAXSEQ"
  shows "slots_ok (vfat_slots ck name)"
proof -
  have c: "0 < slot_count name" "slot_count name \<le> 9"
    using assms by (cases name; simp add: slot_count_def VFAT_MAXSEQ_def)+
  have "slot_num (vfat_slots ck name ! k) = slot_count name - k \<and> (last_slot (vfat_slots ck name ! k) \<longleftrightarrow> k = 0)" if k: "k < slot_count name" for k
  proof -
    let ?j = "slot_count name - Suc k"
    let ?x = "if ?j + 1 = slot_count name then LAST_LONG_ENTRY_MASK else 0"
    have "?j < slot_count name" using k by simp
    note f = vfat_slot_fields(3) [OF this, of ck]
    have j: "?j + 1 = slot_count name - k" "?j + 1 \<le> 9" using k c by simp_all
    have "?x = 0 \<or> ?x = 0x40" by (simp add: LAST_LONG_ENTRY_MASK_def)
    from slot_number [OF this j(2)] have "unat ((of_nat (?j + 1) OR ?x) AND NOT 0x40) = ?j + 1"
      "(of_nat (?j + 1) OR ?x) AND 0x40 \<noteq> 0 \<longleftrightarrow> ?x \<noteq> 0" by blast+
    moreover have "?x \<noteq> 0 \<longleftrightarrow> k = 0" using k by (auto simp: LAST_LONG_ENTRY_MASK_def)
    ultimately show ?thesis unfolding nth_vfat_slots [OF k] slot_num_def last_slot_def f LAST_LONG_ENTRY_MASK_def
      using j(1) by (simp only: LAST_LONG_ENTRY_MASK_def [symmetric])
  qed
  then show ?thesis using c by (simp add: slots_ok_def VFAT_MAXSEQ_def flip: length_greater_0_conv)
qed

text \<open>Entries that a search passes by: of other files, by their short names, and of no file.\<close>

definition other_entry :: "u8 list \<Rightarrow> u8 list \<Rightarrow> bool" where
  "other_entry fname d \<longleftrightarrow> passed_over d \<or> \<not> begins_long d \<and> d ! 0 \<noteq> 0 \<and> get_name d \<noteq> fname"

lemma dir_find_other: "\<forall>d\<in>set pre. other_entry fname d \<Longrightarrow> dir_find fname (pre @ es) = dir_find fname es"
  by (induction pre) (auto simp: other_entry_def)

lemma dir_find_slots:
  assumes "name \<noteq> []" "length name \<le> 13 * VFAT_MAXSEQ" "0 \<notin> set name" "name ! 0 \<noteq> DELETED_FLAG" "name ! 0 \<noteq> aRING"
  shows "dir_find (downcase name) (vfat_slots ck name @ e # es) = Some e"
proof -
  have c: "0 < slot_count name" "slot_count name \<le> 9"
    using assms(1, 2) by (cases name; simp add: slot_count_def VFAT_MAXSEQ_def)+
  note ok = slots_ok_vfat [OF assms(1, 2), of ck]
  let ?s = "vfat_slots ck name"
  obtain d ds where s: "?s = d # ds" using c(1) by (cases ?s) (auto simp flip: length_0_conv)
  have d0: "d = vfat_slot ck name (slot_count name - 1)" using nth_vfat_slots [OF c(1), of ck] s by simp
  have at: "d_attr d = ATTR_VFAT" unfolding d0 by (rule vfat_slot_fields(2)) (use c(1) in simp)
  have "slot_num (?s ! 0) = slot_count name - 0 \<and> (last_slot (?s ! 0) \<longleftrightarrow> 0 = (0 :: nat))"
    using ok c(1) unfolding slots_ok_def length_vfat_slots by blast
  then have n: "slot_num d = slot_count name" "last_slot d" by (simp_all add: s)
  have "slot_num d \<le> 9" using n c by simp
  then have "d ! 0 \<noteq> DELETED_FLAG" by (auto simp: slot_num_def DELETED_FLAG_def LAST_LONG_ENTRY_MASK_def)
  moreover have "d_attr d AND ATTR_VOLUME \<noteq> 0" "is_long d"
    using at n(2) by (simp_all add: ATTR_VFAT_def ATTR_VOLUME_def is_long_def last_slot_def)
  ultimately have p: "\<not> passed_over d" "begins_long d" by (simp_all add: passed_over_def begins_long_def)
  have "unmark name = name" using assms(1, 4, 5) by (cases name) (simp_all add: unmark_def)
  then have l: "long_name ?s = downcase name" by (simp add: long_name_def long_chars_slots [OF assms(3)])
  have "take (slot_num d) (?s @ e # es) = ?s" "(?s @ e # es) ! slot_num d = e" using n(1) by (simp_all add: nth_append)
  then show ?thesis using p l unfolding s by (simp add: Let_def)
qed

end
