(* ===== verification/FatRoot.thy ===== *)
theory FatRoot
  imports FatName
begin

text \<open>
  The root directory of a FAT12 or FAT16 volume: \<open>do_fat_read\<close> reads two sectors for each sector of the directory, and finds the entry that
  \<open>dir_find\<close> finds in the list of all entries; and the whole of \<open>file_fat_read\<close> for a file of the root directory.
\<close>

subsection \<open>One step\<close>

lemma length_entry_at: "entry_at buf i = Some d \<Longrightarrow> length d = 32"
  by (auto simp: entry_at_def split: if_splits)

lemma entry_at_room: "entry_at buf i = Some d \<Longrightarrow> 32 * i + 32 \<le> length buf"
  by (auto simp: entry_at_def split: if_splits)

lemma length_put_entry: "length d = 32 \<Longrightarrow> 32 * i + 32 \<le> length buf \<Longrightarrow> length (put_entry i d buf) = length buf"
  by (simp add: put_entry_def)

lemma entry_at_put:
  assumes "length d = 32" "32 * i + 32 \<le> length buf"
  shows "entry_at (put_entry i d buf) i = Some d" and "i < k \<Longrightarrow> entry_at (put_entry i d buf) k = entry_at buf k"
proof -
  have l: "length (take (32 * i) buf) = 32 * i" using assms(2) by simp
  show "entry_at (put_entry i d buf) i = Some d" using assms l by (simp add: entry_at_def length_put_entry) (simp add: put_entry_def)
  assume k: "i < k"
  then obtain m where m: "k = i + 1 + m" using less_iff_Suc_add by auto
  have "drop (32 * k) (put_entry i d buf) = drop (32 * k) buf" using assms l by (simp add: put_entry_def m algebra_simps)
  then show "entry_at (put_entry i d buf) k = entry_at buf k" using assms by (simp add: entry_at_def length_put_entry)
qed

definition head_find :: "u8 list \<Rightarrow> u8 list list \<Rightarrow> scan_end" where
  "head_find fname es =
     (let d = hd es
      in if passed_over d then Sc_next
         else if begins_long d
         then (if fname = get_name (es ! slot_num d) \<or> fname = long_name (take (slot_num d) es) then Sc_found (es ! slot_num d) else Sc_next)
         else if d ! 0 = 0 then Sc_end
         else if fname = get_name d then Sc_found d else Sc_next)"

lemma dir_find_head:
  "es \<noteq> [] \<Longrightarrow> dir_find fname es = (case head_find fname es of Sc_next \<Rightarrow> dir_find fname (tl es) | Sc_found d \<Rightarrow> Some d | _ \<Rightarrow> None)"
  by (cases es) (simp_all add: head_find_def Let_def)

lemma root_step_find:
  assumes "fname \<noteq> []" "\<forall>k<length es. i + k < w \<longrightarrow> entry_at buf (i + k) = Some (es ! k)" "es \<noteq> []" "i < w"
    "32 * w = unat (sect_size (sc_fs sc)) * PREFETCH_BLOCKS"
    "begins_long (hd es) \<longrightarrow> \<not> passed_over (hd es) \<longrightarrow> slot_num (hd es) < length es \<and> slots_ok (take (slot_num (hd es)) es) \<and> i + slot_num (hd es) < w"
  shows "\<exists>buf' sc'. root_step fname False LS_NO 0 i buf sc = Some (head_find fname es, buf', sc') \<and> sc_st sc' = sc_st sc \<and> sc_fs sc' = sc_fs sc \<and>
    length buf' = length buf \<and> (\<forall>k>i. entry_at buf' k = entry_at buf k)"
proof -
  let ?d = "hd es"
  have e: "entry_at buf i = Some ?d" using assms(2) [rule_format, of 0] assms(3, 4) by (simp add: hd_conv_nth)
  have room: "32 * i + 32 \<le> length buf" by (rule entry_at_room [OF e])
  consider "passed_over ?d" | "\<not> passed_over ?d" "begins_long ?d" | "\<not> passed_over ?d" "\<not> begins_long ?d" by blast
  then show ?thesis
  proof cases
    case 1
    then have "root_step fname False LS_NO 0 i buf sc = Some (Sc_next, buf, sc)" using e by (auto simp: root_step_def passed_over_def)
    then show ?thesis using 1 by (intro exI [of _ buf] exI [of _ sc]) (simp add: head_find_def)
  next
    case 2
    let ?n = "slot_num ?d"
    have n: "?n < length es" "slots_ok (take ?n es)" "i + ?n < w" using assms(6) 2 by blast+
    have l: "length (take ?n es) = ?n" using n(1) by simp
    have r: "entry_at buf (i + ?n) = Some (es ! ?n)" using assms(2) n(1, 3) by blast
    have "32 * (i + ?n) < unat (sect_size (sc_fs sc)) * (if (0 :: u32) = 0 then PREFETCH_BLOCKS else unat (clust_size (sc_fs sc)))"
      using n(3) assms(5) by simp
    moreover have "\<forall>k<length (take ?n es). entry_at buf (i + k) = Some (take ?n es ! k)" using assms(2) n(1, 3) by simp
    ultimately have g: "get_vfatname (sc_st sc) 0 buf i (sc_fs sc) = Some (Some (long_name (take ?n es), put_entry i (es ! ?n) buf), sc_st sc, sc_fs sc)"
      using get_vfatname_here [OF n(2), of buf i "es ! ?n" "sc_fs sc" 0 "sc_st sc"] r unfolding l long_name_def by blast
    have l32: "length (es ! ?n) = 32" by (rule length_entry_at [OF r])
    have a: "?d ! 0 \<noteq> DELETED_FLAG" "d_attr ?d AND ATTR_VOLUME \<noteq> 0" "is_long ?d" using 2 by (auto simp: passed_over_def begins_long_def)
    let ?b = "put_entry i (es ! ?n) buf" and ?sc = "sc\<lparr>prevcksum := ucast (?d ! 13)\<rparr>"
    have "root_step fname False LS_NO 0 i buf sc =
        Some (if fname = get_name (es ! ?n) \<or> fname = long_name (take ?n es) then Sc_found (es ! ?n) else Sc_next, ?b, ?sc)"
      using e a g entry_at_put(1) [OF l32 room] by (simp add: root_step_def take_long_def Let_def LS_NO_def LS_ROOT_def)
    then show ?thesis using 2 entry_at_put(2) [OF l32 room] length_put_entry [OF l32 room]
      by (intro exI [of _ ?b] exI [of _ ?sc]) (simp add: head_find_def Let_def)
  next
    case 3
    then have a: "?d ! 0 \<noteq> DELETED_FLAG" "d_attr ?d AND ATTR_VOLUME = 0" by (auto simp: passed_over_def begins_long_def)
    have "root_step fname False LS_NO 0 i buf sc = Some (if ?d ! 0 = 0 then Sc_end else if fname = get_name ?d then Sc_found ?d else Sc_next, buf, sc)"
      using e a assms(1) by (auto simp: root_step_def Let_def LS_NO_def LS_ROOT_def)
    then show ?thesis using 3 by (intro exI [of _ buf] exI [of _ sc]) (simp add: head_find_def Let_def)
  qed
qed

text \<open>The entries of one sector.\<close>

lemma scan_find:
  assumes "fname \<noteq> []" "dir_ok es" "32 * w = unat (sect_size (sc_fs sc)) * PREFETCH_BLOCKS"
    "i + n + VFAT_MAXSEQ \<le> w" "p + n \<le> length es" "\<forall>k. p + k < length es \<longrightarrow> i + k < w \<longrightarrow> entry_at buf (i + k) = Some (es ! (p + k))"
  shows "\<exists>r buf' sc'. scan_entries (root_step fname False LS_NO 0) n i buf sc = Some (r, buf', sc') \<and> sc_st sc' = sc_st sc \<and> sc_fs sc' = sc_fs sc \<and>
    length buf' = length buf \<and>
    (case r of Sc_next \<Rightarrow> dir_find fname (drop p es) = dir_find fname (drop (p + n) es)
     | Sc_found d \<Rightarrow> dir_find fname (drop p es) = Some d | Sc_end \<Rightarrow> dir_find fname (drop p es) = None | Sc_stop \<Rightarrow> False)"
  using assms(3-6)
proof (induction n arbitrary: i p buf sc)
  case (Suc n)
  let ?es = "drop p es"
  have ne: "?es \<noteq> []" using Suc.prems(3) by simp
  have hd: "hd ?es = es ! p" using Suc.prems(3) by (simp add: hd_drop_conv_nth)
  have long: "begins_long (hd ?es) \<longrightarrow> \<not> passed_over (hd ?es) \<longrightarrow>
      slot_num (hd ?es) < length ?es \<and> slots_ok (take (slot_num (hd ?es)) ?es) \<and> i + slot_num (hd ?es) < w"
  proof (intro impI)
    assume "begins_long (hd ?es)" "\<not> passed_over (hd ?es)"
    then have d: "p + slot_num (es ! p) < length es" "slots_ok (take (slot_num (es ! p)) (drop p es))"
      using assms(2) Suc.prems(3) unfolding hd by (auto simp: dir_ok_def begins_long_def passed_over_def)
    then have "slot_num (es ! p) \<le> VFAT_MAXSEQ" by (simp add: slots_ok_def)
    then show "slot_num (hd ?es) < length ?es \<and> slots_ok (take (slot_num (hd ?es)) ?es) \<and> i + slot_num (hd ?es) < w"
      using d Suc.prems(2) unfolding hd by simp
  qed
  have here: "\<forall>k<length ?es. i + k < w \<longrightarrow> entry_at buf (i + k) = Some (?es ! k)" using Suc.prems(4) by (simp add: less_diff_conv add.commute)
  have iw: "i < w" using Suc.prems(2) by (simp add: VFAT_MAXSEQ_def)
  obtain buf1 sc1 where s: "root_step fname False LS_NO 0 i buf sc = Some (head_find fname ?es, buf1, sc1)" "sc_st sc1 = sc_st sc" "sc_fs sc1 = sc_fs sc"
    "length buf1 = length buf" "\<forall>k>i. entry_at buf1 k = entry_at buf k"
    using root_step_find [OF assms(1) here ne iw Suc.prems(1) long] by blast
  have tl: "tl ?es = drop (p + 1) es" by (simp add: drop_Suc tl_drop)
  show ?case
  proof (cases "head_find fname ?es = Sc_next")
    case True
    then have step: "scan_entries (root_step fname False LS_NO 0) (Suc n) i buf sc = scan_entries (root_step fname False LS_NO 0) n (i + 1) buf1 sc1"
      using s(1) by simp
    have "\<forall>k. p + 1 + k < length es \<longrightarrow> i + 1 + k < w \<longrightarrow> entry_at buf1 (i + 1 + k) = Some (es ! (p + 1 + k))"
    proof (intro allI impI)
      fix k assume "p + 1 + k < length es" "i + 1 + k < w"
      then show "entry_at buf1 (i + 1 + k) = Some (es ! (p + 1 + k))" using s(5) [rule_format, of "i + 1 + k"] Suc.prems(4) [rule_format, of "k + 1"] by simp
    qed
    moreover have "32 * w = unat (sect_size (sc_fs sc1)) * PREFETCH_BLOCKS" using Suc.prems(1) s(3) by simp
    moreover have "i + 1 + n + VFAT_MAXSEQ \<le> w" "p + 1 + n \<le> length es" using Suc.prems(2, 3) by simp_all
    ultimately obtain r buf' sc' where i: "scan_entries (root_step fname False LS_NO 0) n (i + 1) buf1 sc1 = Some (r, buf', sc')" "sc_st sc' = sc_st sc1"
      "sc_fs sc' = sc_fs sc1" "length buf' = length buf1"
      "case r of Sc_next \<Rightarrow> dir_find fname (drop (p + 1) es) = dir_find fname (drop (p + 1 + n) es)
       | Sc_found d \<Rightarrow> dir_find fname (drop (p + 1) es) = Some d | Sc_end \<Rightarrow> dir_find fname (drop (p + 1) es) = None | Sc_stop \<Rightarrow> False"
      using Suc.IH [of sc1 "i + 1" "p + 1" buf1] by blast
    have f: "dir_find fname ?es = dir_find fname (drop (p + 1) es)" using dir_find_head [OF ne] True tl by simp
    have pn: "p + 1 + n = p + Suc n" by simp
    show ?thesis unfolding step f using i(1-4) i(5) [unfolded pn] s(2-4) by (intro exI [of _ r] exI [of _ buf'] exI [of _ sc']) simp
  next
    case False
    then have step: "scan_entries (root_step fname False LS_NO 0) (Suc n) i buf sc = Some (head_find fname ?es, buf1, sc1)" using s(1) by simp
    have "case head_find fname ?es of Sc_next \<Rightarrow> dir_find fname ?es = dir_find fname (drop (p + Suc n) es)
       | Sc_found d \<Rightarrow> dir_find fname ?es = Some d | Sc_end \<Rightarrow> dir_find fname ?es = None | Sc_stop \<Rightarrow> False"
      using False dir_find_head [OF ne, of fname] by (auto simp: head_find_def Let_def split: if_splits)
    then show ?thesis unfolding step using s(2-4) by (intro exI [of _ "head_find fname ?es"] exI [of _ buf1] exI [of _ sc1]) simp
  qed
qed simp

subsection \<open>The directory\<close>

text \<open>Operations leave the device and its partition as they are.\<close>

definition same_dev :: "fat_state \<Rightarrow> fat_state \<Rightarrow> bool" where
  "same_dev st st' \<longleftrightarrow> cur_dev st' = cur_dev st \<and> cur_part_info st' = cur_part_info st"

lemma same_dev_refl [simp]: "same_dev st st" by (simp add: same_dev_def)

lemma same_dev_trans: "same_dev a b \<Longrightarrow> same_dev b c \<Longrightarrow> same_dev a c" by (simp add: same_dev_def)

lemma same_dev_reads: "same_dev st st' \<Longrightarrow> reads_with st' f = reads_with st f" by (simp add: same_dev_def reads_with_def)

text \<open>The entries of the \<open>R\<close> sectors of the root directory.\<close>

definition root_entries :: "(nat \<Rightarrow> u8 list) \<Rightarrow> fat_state \<Rightarrow> fsdata \<Rightarrow> nat \<Rightarrow> u8 list list" where
  "root_entries sec st fs R =
     map (\<lambda>i. take 32 (drop (32 * (i mod DIRENTSPERBLOCK fs)) (psec sec st (unat (rootdir_sect fs) + i div DIRENTSPERBLOCK fs)))) [0..<R * DIRENTSPERBLOCK fs]"

context block_array
begin

lemma same_dev_psec: "same_dev st st' \<Longrightarrow> psec sec st' = psec sec st"
  by (intro ext) (simp add: psec_def same_dev_def)

lemma same_dev_volume:
  assumes "same_dev st st'"
  shows "on_volume read_fn bsz nblk st' fs = on_volume read_fn bsz nblk st fs" "cache_ok sec st' fs = cache_ok sec st fs" "good_cluster nblk st' fs = good_cluster nblk st fs"
    "cluster_data sec st' fs = cluster_data sec st fs" "fat_bytes sec st' fs = fat_bytes sec st fs"
proof -
  note p = same_dev_psec [OF assms] same_dev_reads [OF assms]
  show f: "fat_bytes sec st' fs = fat_bytes sec st fs" by (simp add: fat_bytes_def p)
  show "on_volume read_fn bsz nblk st' fs = on_volume read_fn bsz nblk st fs" using assms by (simp add: on_volume_def p same_dev_def)
  show "cache_ok sec st' fs = cache_ok sec st fs" by (simp add: cache_ok_def f)
  show "good_cluster nblk st' fs = good_cluster nblk st fs" using assms by (intro ext) (simp add: good_cluster_def same_dev_def)
  show "cluster_data sec st' fs = cluster_data sec st fs" by (intro ext) (simp add: cluster_data_def p)
qed

lemma same_dev_chained: "same_dev st st' \<Longrightarrow> chained sec st' fs c cs = chained sec st fs c cs"
  by (induction cs arbitrary: c) (simp_all add: same_dev_volume)

lemma entry_of_blocks:
  assumes "bsz = 32 * per" "k < 2 * per" "length a = bsz" "length b = bsz"
  shows "entry_at (a @ b @ c) k = Some (take 32 (drop (32 * (k mod per)) (if k div per = 0 then a else b)))"
proof (cases "k < per")
  case True
  have "32 * k + 32 \<le> bsz" using True assms(1) by simp
  then show ?thesis using True assms by (simp add: entry_at_def)
next
  case False
  then obtain m where m: "k = per + m" using le_Suc_ex not_less by blast
  then have "m < per" using assms(2) by simp
  then have mm: "k mod per = m" "k div per = 1" using m by (simp_all add: div_nat_eqI)
  have "32 * m + 32 \<le> bsz" using \<open>m < per\<close> assms(1) by simp
  then show ?thesis unfolding mm using assms m by (simp add: entry_at_def)
qed

lemma root_loop_finds:
  assumes "fname \<noteq> []" "on_volume read_fn bsz nblk st fs" "fatsize fs \<noteq> 32" "dir_ok (root_entries sec st fs R)" "32 dvd bsz" "512 \<le> bsz" "bsz \<le> 32768"
    "unat (p_start (cur_part_info st)) + unat (rootdir_sect fs) + R + 1 \<le> nblk"
    "same_dev st (sc_st sc)" "sc_fs sc = fs" "length (do_fat_read_block (sc_st sc)) = MAX_CLUSTSIZE" "j < R"
    "unat cursect = unat (rootdir_sect fs) + j"
  shows "\<exists>sc'. root_loop fname False LS_NO (int R) cursect 0 (int j) sc =
      Some (case dir_find fname (drop (j * DIRENTSPERBLOCK fs) (root_entries sec st fs R)) of None \<Rightarrow> Inl (- 1) | Some d \<Rightarrow> Inr d, sc') \<and>
    same_dev st (sc_st sc') \<and> sc_fs sc' = fs"
  using assms(9-13)
proof (induction "R - j" arbitrary: j cursect sc rule: less_induct)
  case less
  define per where "per = DIRENTSPERBLOCK fs"
  define E where "E = root_entries sec st fs R"
  let ?st = "sc_st sc" and ?rs = "unat (rootdir_sect fs)"
  have sect: "unat (sect_size fs) = bsz" using assms(2) by (simp add: on_volume_def fs_ok_def)
  have per: "bsz = 32 * per" "16 \<le> per" using assms(5, 6) sect by (simp_all add: per_def DIRENTSPERBLOCK_def)
  have two: "unat (of_nat PREFETCH_BLOCKS :: u32) = 2" by (simp add: PREFETCH_BLOCKS_def)
  have rw: "reads_with ?st read_fn" using assms(2) same_dev_reads [OF less.prems(1)] by (simp add: on_volume_def)
  let ?a = "psec sec st (?rs + j)" and ?b = "psec sec st (?rs + j + 1)"
  have "unat (p_start (cur_part_info ?st)) + unat cursect + unat (of_nat PREFETCH_BLOCKS :: u32) \<le> nblk"
    using less.prems(1, 4, 5) assms(8) unfolding two by (simp add: same_dev_def)
  from disk_read_blocks [OF rw this] have rd: "disk_read ?st cursect (of_nat PREFETCH_BLOCKS) = (2, ?a @ ?b)"
    unfolding two same_dev_psec [OF less.prems(1)] less.prems(5) by (simp add: PREFETCH_BLOCKS_def upt_rec)
  define old where "old = drop (bsz + bsz) (do_fat_read_block ?st)"
  have ib: "into_buf (?a @ ?b) (do_fat_read_block ?st) = Some (?a @ ?b @ old)"
    using less.prems(3) assms(7) by (simp add: into_buf_def old_def MAX_CLUSTSIZE_def)
  have lE: "length E = R * per" by (simp add: E_def root_entries_def per_def)
  have pj: "j * per + per \<le> length E"
  proof -
    have "Suc j * per \<le> R * per" using less.prems(4) by (intro mult_right_mono) simp_all
    then show ?thesis by (simp add: lE add.commute)
  qed
  have ent: "entry_at (?a @ ?b @ old) k = Some (E ! (j * per + k))" if k: "j * per + k < length E" "k < 2 * per" for k
  proof -
    have "E ! (j * per + k) = take 32 (drop (32 * (k mod per)) (psec sec st (?rs + (j + k div per))))"
      using k(1) per(2) by (simp add: E_def root_entries_def per_def [symmetric])
    moreover have "k div per < 2" using k(2) by (simp add: less_mult_imp_div_less)
    then have "k div per = 0 \<or> k div per = 1" by linarith
    ultimately show ?thesis using entry_of_blocks [OF per(1) k(2), of ?a ?b old] by (auto simp: add.assoc)
  qed
  have w: "32 * (2 * per) = unat (sect_size (sc_fs sc)) * PREFETCH_BLOCKS" using per sect less.prems(2) by (simp add: PREFETCH_BLOCKS_def)
  have "0 + per + VFAT_MAXSEQ \<le> 2 * per" using per(2) by (simp add: VFAT_MAXSEQ_def)
  then obtain r buf sc1 where s: "scan_entries (root_step fname False LS_NO 0) per 0 (?a @ ?b @ old) sc = Some (r, buf, sc1)" "sc_st sc1 = ?st"
    "sc_fs sc1 = fs" "length buf = length (?a @ ?b @ old)"
    "case r of Sc_next \<Rightarrow> dir_find fname (drop (j * per) E) = dir_find fname (drop (j * per + per) E)
     | Sc_found d \<Rightarrow> dir_find fname (drop (j * per) E) = Some d | Sc_end \<Rightarrow> dir_find fname (drop (j * per) E) = None | Sc_stop \<Rightarrow> False"
    using scan_find [OF assms(1) assms(4) [folded E_def] w _ pj, of 0 "?a @ ?b @ old"] ent less.prems(2) by auto
  let ?sc = "sc1\<lparr>sc_st := ?st\<lparr>do_fat_read_block := buf\<rparr>\<rparr>"
  have sd: "same_dev st (sc_st ?sc)" using less.prems(1) by (simp add: same_dev_def)
  have f32: "fatsize (sc_fs sc) \<noteq> 32" using assms(3) less.prems(2) by simp
  have nl: "LS_NO \<noteq> LS_ROOT" by (simp add: LS_NO_def LS_ROOT_def)
  have ex: "root_exit LS_NO = - 1" by (simp add: root_exit_def LS_NO_def LS_ROOT_def)
  have loop: "root_loop fname False LS_NO (int R) cursect 0 (int j) sc =
      (case r of Sc_found d \<Rightarrow> Some (Inr d, ?sc) | Sc_end \<Rightarrow> Some (Inl (- 1), ?sc) | Sc_stop \<Rightarrow> Some (Inl (- 1), ?sc)
       | Sc_next \<Rightarrow> if int j + 1 = int R then Some (Inl (- 1), ?sc) else root_loop fname False LS_NO (int R) (cursect + 1) 0 (int j + 1) ?sc)"
    using rd ib s(1, 2, 3) f32 less.prems(2) assms(3) unfolding per_def
    by (subst root_loop.simps, cases r) (simp_all add: Let_def ex nl)
  show ?case
  proof (cases r)
    case Sc_next
    then have d: "dir_find fname (drop (j * per) E) = dir_find fname (drop (j * per + per) E)" using s(5) by simp
    show ?thesis
    proof (cases "Suc j = R")
      case True
      then have "drop (j * per + per) E = []" using lE by (simp add: add.commute flip: mult_Suc)
      then have "dir_find fname (drop (j * per) E) = None" using d by simp
      moreover have "int j + 1 = int R" using True by simp
      ultimately show ?thesis using loop Sc_next sd s(3) unfolding per_def E_def by (intro exI [of _ ?sc]) simp
    next
      case False
      then have lt: "Suc j < R" using less.prems(4) by simp
      have "unat cursect + 1 < 2 ^ 32" using less.prems(5) unat_u16_bound [of "rootdir_sect fs"] lt assms(8) nblk by simp
      then have "unat cursect + unat (1 :: u32) < 2 ^ LENGTH(32)" by simp
      then have "unat (cursect + 1) = unat cursect + unat (1 :: u32)" by (simp only: unat_add_lem)
      then have c: "unat (cursect + 1) = ?rs + Suc j" using less.prems(5) by simp
      have "R - Suc j < R - j" using lt by simp
      moreover have "length (do_fat_read_block (sc_st ?sc)) = MAX_CLUSTSIZE" using s(4) less.prems(3) assms(7) by (simp add: old_def MAX_CLUSTSIZE_def)
      moreover have "sc_fs ?sc = fs" using s(3) by simp
      ultimately obtain sc' where i: "root_loop fname False LS_NO (int R) (cursect + 1) 0 (int (Suc j)) ?sc =
          Some (case dir_find fname (drop (Suc j * DIRENTSPERBLOCK fs) (root_entries sec st fs R)) of None \<Rightarrow> Inl (- 1) | Some d \<Rightarrow> Inr d, sc')"
        "same_dev st (sc_st sc')" "sc_fs sc' = fs"
        using less.hyps [of "Suc j" ?sc "cursect + 1"] sd lt c by blast
      have "int j + 1 \<noteq> int R" using False by simp
      moreover have "drop (Suc j * DIRENTSPERBLOCK fs) (root_entries sec st fs R) = drop (j * per + per) E" by (simp add: per_def E_def add.commute)
      ultimately show ?thesis using loop Sc_next i d unfolding per_def E_def by (intro exI [of _ sc']) (simp add: add.commute)
    qed
  next
    case Sc_end
    then show ?thesis using loop s(3, 5) sd unfolding per_def E_def by (intro exI [of _ ?sc]) simp
  next
    case (Sc_found x)
    then show ?thesis using loop s(3, 5) sd unfolding per_def E_def by (intro exI [of _ ?sc]) simp
  next
    case Sc_stop
    then show ?thesis using s(5) by simp
  qed
qed

end

end
