(* ===== verification/FatLoad.thy ===== *)
theory FatLoad
  imports FatRoot
begin

text \<open>
  A file of the root directory of a FAT12 or FAT16 volume, from its name to the bytes in memory, and the failures that the code does not see.
\<close>

subsection \<open>A mounted volume\<close>

definition volume_of :: "u8 list \<Rightarrow> (boot_sector \<times> int) option" where
  "volume_of s =
     (let b = boot_sector_of s
      in if bs_fat_length b = 0 then (if fs_type s = FAT32_SIGN then Some (b, 32) else None)
         else if fs_type s = FAT12_SIGN then Some (b, 12) else if fs_type s = FAT16_SIGN then Some (b, 16) else None)"

definition fs_start :: "(nat \<Rightarrow> u8 list) \<Rightarrow> boot_sector \<Rightarrow> int \<Rightarrow> fsdata" where
  "fs_start fresh b bits = (fs_of_boot b bits)\<lparr>fatbuf := fresh (FATBUFSIZE (fs_of_boot b bits))\<rparr>"

text \<open>The device holds a FAT12 or FAT16 volume with \<open>R\<close> sectors of root directory, all of it within the partition.\<close>

definition mounted ::
  "(nat \<Rightarrow> u8 list) \<Rightarrow> (u32 \<Rightarrow> u32 \<Rightarrow> u32 \<times> u8 list) \<Rightarrow> nat \<Rightarrow> (nat \<Rightarrow> u8 list) \<Rightarrow> nat \<Rightarrow> fat_state \<Rightarrow> boot_sector \<Rightarrow> int \<Rightarrow> bool" where
  "mounted fresh read_fn bsz sec nblk st b bits \<longleftrightarrow>
     (\<exists>d. cur_dev st = Some d \<and> block_read d = Some read_fn \<and> unat (dev_blksz d) = bsz) \<and>
     (\<forall>n. length (fresh n) = n) \<and> volume_of (psec sec st 0) = Some (b, bits) \<and> bits \<noteq> 32 \<and>
     unat (p_blksz (cur_part_info st)) = bsz \<and> unat (sect_size (fs_of_boot b bits)) = bsz \<and>
     on_volume read_fn bsz nblk st (fs_start fresh b bits) \<and> 0 < rootdir_size_of b bits (sect_size (fs_of_boot b bits)) \<and>
     unat (p_start (cur_part_info st)) + unat (rootdir_sect (fs_of_boot b bits)) + rootdir_size_of b bits (sect_size (fs_of_boot b bits)) + 1 \<le> nblk \<and>
     length (do_fat_read_block st) = MAX_CLUSTSIZE \<and> 32 dvd bsz \<and> 512 \<le> bsz \<and> bsz \<le> 32768"

definition root_dir :: "(nat \<Rightarrow> u8 list) \<Rightarrow> fat_state \<Rightarrow> boot_sector \<Rightarrow> int \<Rightarrow> u8 list list" where
  "root_dir sec st b bits = root_entries sec st (fs_of_boot b bits) (rootdir_size_of b bits (sect_size (fs_of_boot b bits)))"

definition root_name :: "u8 list \<Rightarrow> u8 list \<Rightarrow> bool" where
  "root_name filename fname \<longleftrightarrow> downcase (skip_delims filename) = fname \<and> fname \<noteq> [] \<and> dirdelim fname = None \<and> length fname < 2048"

lemma fs_start_fields: "fatsize (fs_start fresh b bits) = bits" "sect_size (fs_start fresh b bits) = sect_size (fs_of_boot b bits)"
  "rootdir_sect (fs_start fresh b bits) = rootdir_sect (fs_of_boot b bits)" "fatbufnum (fs_start fresh b bits) = - 1"
  "DIRENTSPERBLOCK (fs_start fresh b bits) = DIRENTSPERBLOCK (fs_of_boot b bits)"
  by (simp_all add: fs_start_def fs_of_boot_def Let_def DIRENTSPERBLOCK_def)

context block_array
begin

lemma read_boot:
  assumes "mounted fresh read_fn bsz sec nblk st b bits"
  shows "read_bootsectandvi fresh st = Some (Inr (b, bits))"
proof -
  note m = assms [unfolded mounted_def]
  obtain d where d: "cur_dev st = Some d" "block_read d = Some read_fn" "unat (dev_blksz d) = bsz" using m by blast
  have rw: "reads_with st read_fn" using d by (simp add: reads_with_def)
  have v: "volume_of (psec sec st 0) = Some (b, bits)" "512 \<le> bsz" "length (fresh bsz) = bsz" using m by blast+
  have "unat (p_start (cur_part_info st)) + unat (0 :: u32) + unat (1 :: u32) \<le> nblk" using m by simp
  from disk_read_blocks [OF rw this] have r: "disk_read st 0 1 = (1, psec sec st 0)" by simp
  have "into_buf (psec sec st 0) (fresh bsz) = Some (psec sec st 0)" using v(3) by (simp add: into_buf_def)
  then have "read_bootsectandvi fresh st = (if length (psec sec st 0) < 90 then None
      else Some (case volume_of (psec sec st 0) of None \<Rightarrow> Inl () | Some x \<Rightarrow> Inr x))"
    using d r by (simp add: read_bootsectandvi_def volume_of_def Let_def)
  then show ?thesis using v by simp
qed

lemma file_read_root:
  assumes m: "mounted fresh read_fn bsz sec nblk st b bits" and n: "root_name filename fname" and ok: "dir_ok (root_dir sec st b bits)"
  shows "\<exists>st'. same_dev st st' \<and> file_fat_read fresh st filename buffer maxsize r =
    (case dir_find fname (root_dir sec st b bits) of
       None \<Rightarrow> Some (- 1, r, st')
     | Some d \<Rightarrow> map_option (\<lambda>(ret, r, _). (ret, r, st')) (get_contents st' d buffer maxsize r (fs_start fresh b bits)))"
proof -
  note mm = m [unfolded mounted_def]
  let ?R = "rootdir_size_of b bits (sect_size (fs_of_boot b bits))" and ?fs = "fs_start fresh b bits"
  note f = fs_start_fields [of fresh b bits]
  have eq: "ucast (sect_size (fs_of_boot b bits)) = p_blksz (cur_part_info st)"
    using mm unfolding word_unat_eq_iff by (simp add: unat_ucast_u16)
  have nz: "sect_size (fs_of_boot b bits) \<noteq> 0" using mm by auto
  have E: "root_entries sec st ?fs ?R = root_dir sec st b bits" by (simp add: root_dir_def root_entries_def f)
  have ne: "fname \<noteq> []" and fn: "downcase (skip_delims filename) = fname" "dirdelim fname = None" "\<not> 2048 \<le> length fname"
    using n unfolding root_name_def by auto
  let ?sc = "\<lparr>sc_st = st, sc_fs = ?fs, prevcksum = 0xffff, n_files = 0, n_dirs = 0\<rparr>"
  have "\<exists>sc'. root_loop fname False LS_NO (int ?R) (ucast (rootdir_sect (fs_of_boot b bits))) 0 (int 0) ?sc =
      Some (case dir_find fname (drop (0 * DIRENTSPERBLOCK ?fs) (root_entries sec st ?fs ?R)) of None \<Rightarrow> Inl (- 1) | Some d \<Rightarrow> Inr d, sc') \<and>
    same_dev st (sc_st sc') \<and> sc_fs sc' = ?fs"
    by (rule root_loop_finds) (use ne mm ok f E in \<open>simp_all add: unat_ucast_u16\<close>)
  then obtain sc' where r: "root_loop fname False LS_NO (int ?R) (ucast (rootdir_sect (fs_of_boot b bits))) 0 0 ?sc =
      Some (case dir_find fname (root_dir sec st b bits) of None \<Rightarrow> Inl (- 1) | Some d \<Rightarrow> Inr d, sc')"
    "same_dev st (sc_st sc')" "sc_fs sc' = ?fs" unfolding E by auto
  have b32: "bits \<noteq> 32" using mm by blast
  have s: "split_path LS_NO fname = (fname, False, [])" using fn(2) by (simp add: split_path_def LS_NO_def)
  have "file_fat_read fresh st filename buffer maxsize r =
    (case dir_find fname (root_dir sec st b bits) of
       None \<Rightarrow> Some (- 1, r, sc_st sc')
     | Some d \<Rightarrow> map_option (\<lambda>(ret, r, _). (ret, r, sc_st sc')) (get_contents (sc_st sc') d buffer maxsize r ?fs))"
    unfolding file_fat_read_def do_fat_read_def read_boot [OF m] Let_def fn(1) fs_start_def [symmetric]
    using eq nz ne fn(3) b32 r s
    by (cases "dir_find fname (root_dir sec st b bits)")
      (auto simp: f(2, 3) map_option_case split: option.splits)
  then show ?thesis using r(2) by blast
qed

end

text \<open>A file that is not empty: its entry names the first of its clusters, the table the others, no more than the file needs, and all lie on the device.\<close>

definition file_on ::
  "(nat \<Rightarrow> u8 list) \<Rightarrow> nat \<Rightarrow> fat_state \<Rightarrow> fsdata \<Rightarrow> u8 list \<Rightarrow> u32 list \<Rightarrow> bool" where
  "file_on sec nblk st fs d cs \<longleftrightarrow>
     chained sec st fs (START fs d) cs \<and> (\<forall>c\<in>set (START fs d # cs). good_cluster nblk st fs c) \<and> 0 < clust_bytes fs \<and>
     length cs * clust_bytes fs < unat (d_size d) \<and> unat (d_size d) \<le> (length cs + 1) * clust_bytes fs \<and>
     unat (d_size d) + clust_bytes fs \<le> 2 ^ 32"

definition file_bytes :: "(nat \<Rightarrow> u8 list) \<Rightarrow> fat_state \<Rightarrow> fsdata \<Rightarrow> u8 list \<Rightarrow> u32 list \<Rightarrow> u8 list" where
  "file_bytes sec st fs d cs = take (unat (d_size d)) (concat (map (cluster_data sec st fs) (START fs d # cs)))"

lemma unat_clust_bytes: "clust_bytes fs < 2 ^ 32 \<Longrightarrow> unat (ucast (clust_size fs) * ucast (sect_size fs) :: u32) = clust_bytes fs"
  by (simp add: clust_bytes_def unat_word_ariths unat_ucast_u16)

context block_array
begin

lemma get_contents_file:
  assumes "on_volume read_fn bsz nblk st fs" "cache_ok sec st fs" "file_on sec nblk st fs d cs"
  shows "\<exists>fs'. get_contents st d buffer 0 r fs = Some (d_size d, ram_put buffer (file_bytes sec st fs d cs) r, fs')"
proof -
  let ?bpc = "ucast (clust_size fs) * ucast (sect_size fs) :: u32"
  have f: "chained sec st fs (START fs d) cs" "\<forall>c\<in>set (START fs d # cs). good_cluster nblk st fs c" "0 < clust_bytes fs"
    "length cs * clust_bytes fs < unat (d_size d)" "unat (d_size d) \<le> (length cs + 1) * clust_bytes fs" "unat (d_size d) + clust_bytes fs \<le> 2 ^ 32"
    using assms(3) unfolding file_on_def by blast+
  have "clust_bytes fs < 2 ^ 32" using f(4, 6) by simp
  then have b: "unat ?bpc = clust_bytes fs" by (rule unat_clust_bytes)
  have "0 < ?bpc" using b f(3) by (simp add: word_less_nat_alt)
  then have "\<exists>fs'. contents_loop st ?bpc (START fs d) (d_size d) 0 buffer r fs =
      Some (0 + d_size d, ram_put buffer (take (unat (d_size d)) (concat (map (cluster_data sec st fs) (START fs d # cs)))) r, fs') \<and>
      on_volume read_fn bsz nblk st fs' \<and> cache_ok sec st fs' \<and> same_geo fs fs'"
    using assms(1, 2) f b by (intro contents_chain) simp_all
  then show ?thesis by (auto simp: get_contents_def file_bytes_def Let_def)
qed

lemma root_file_read:
  assumes m: "mounted fresh read_fn bsz sec nblk st b bits" and n: "root_name filename fname" and ok: "dir_ok (root_dir sec st b bits)"
    and d: "dir_find fname (root_dir sec st b bits) = Some d" and c: "file_on sec nblk st (fs_start fresh b bits) d cs"
  shows "\<exists>st'. file_fat_read fresh st filename buffer 0 r = Some (d_size d, ram_put buffer (file_bytes sec st (fs_start fresh b bits) d cs) r, st') \<and>
    same_dev st st'"
proof -
  obtain st' where st: "same_dev st st'" "file_fat_read fresh st filename buffer 0 r =
      map_option (\<lambda>(ret, r, _). (ret, r, st')) (get_contents st' d buffer 0 r (fs_start fresh b bits))"
    using file_read_root [OF m n ok, of buffer 0 r] d by auto
  note sd = same_dev_volume [OF st(1)]
  have v: "on_volume read_fn bsz nblk st' (fs_start fresh b bits)" unfolding sd using m by (simp add: mounted_def)
  have k: "cache_ok sec st' (fs_start fresh b bits)" by (simp add: cache_ok_def fs_start_fields)
  have "file_on sec nblk st' (fs_start fresh b bits) d cs" using c by (simp add: file_on_def sd same_dev_chained [OF st(1)])
  from get_contents_file [OF v k this] obtain fs' where
    "get_contents st' d buffer 0 r (fs_start fresh b bits) = Some (d_size d, ram_put buffer (file_bytes sec st' (fs_start fresh b bits) d cs) r, fs')"
    by blast
  then show ?thesis using st by (intro exI [of _ st']) (simp add: file_bytes_def sd)
qed

end

end
