(* ===== verification/UsbStor.thy ===== *)
theory UsbStor
  imports Image
begin

text \<open>
  USB mass storage (\<open>common/usb_storage.c\<close>): the bulk transport, the SCSI commands with their retries, reading blocks, and the description of a
  device that a scan of the bus makes. The host controller with the device behind it is a parameter: what a bulk transfer gives, and its state.
  The buffer of a request is the list of the bytes that were stored; a controller never stores more bytes than it is asked for, which the model
  writes as \<open>take\<close>. The data of a request-sense command goes only into messages, and is left out with them.
\<close>

subsection \<open>The bulk transport\<close>

record ccb =
  cmd :: "u8 list"
  lun :: u8
  datalen :: u32

type_synonym 's transport = "ccb \<Rightarrow> 's \<Rightarrow> int \<times> u8 list \<times> 's"

text \<open>Results of the controller are a code, negative for an error, whether the endpoint stalled, and the bytes received.\<close>

record 'd usb_hc =
  bulk_out :: "u8 list \<Rightarrow> 'd \<Rightarrow> int \<times> 'd"
  bulk_data :: "bool \<Rightarrow> nat \<Rightarrow> 'd \<Rightarrow> int \<times> bool \<times> u8 list \<times> 'd"
  bulk_status :: "nat \<Rightarrow> 'd \<Rightarrow> int \<times> bool \<times> u8 list \<times> 'd"
  clear_stall :: "bool \<Rightarrow> 'd \<Rightarrow> int \<times> 'd"
  bbb_reset :: "'d \<Rightarrow> 'd"

record 'd bbb =
  hc :: 'd
  CBWTag :: u32

definition USB_STOR_TRANSPORT_GOOD :: int where "USB_STOR_TRANSPORT_GOOD = 0"
definition USB_STOR_TRANSPORT_FAILED :: int where "USB_STOR_TRANSPORT_FAILED = - 1"
definition CBWSIGNATURE :: u32 where "CBWSIGNATURE = 0x43425355"
definition CSWSIGNATURE :: u32 where "CSWSIGNATURE = 0x53425355"
definition UMASS_BBB_CSW_SIZE :: nat where "UMASS_BBB_CSW_SIZE = 13"
definition CSWSTATUS_FAILED :: u8 where "CSWSTATUS_FAILED = 1"
definition CSWSTATUS_PHASE :: u8 where "CSWSTATUS_PHASE = 2"
definition CBWFLAGS_IN :: u8 where "CBWFLAGS_IN = 0x80"

definition us_direction :: "u8 list" where
  "us_direction =
     [0x28, 0x81, 0x14, 0x14, 0x20, 0x01, 0x90, 0x77,
      0x0C, 0x20, 0x00, 0x04, 0x00, 0x00, 0x00, 0x00,
      0x00, 0x00, 0x00, 0x00, 0x00, 0x01, 0x00, 0x01,
      0x00, 0x00, 0x00, 0x00, 0x00, 0x00, 0x00, 0x00]"

definition US_DIRECTION :: "u8 \<Rightarrow> bool" where "US_DIRECTION x \<longleftrightarrow> bit (us_direction ! unat (drop_bit 3 x)) (unat (x AND 7))"

text \<open>The last four bytes of the command block are not set.\<close>

definition cbw_bytes :: "u8 list \<Rightarrow> ccb \<Rightarrow> u32 \<Rightarrow> u8 list" where
  "cbw_bytes junk srb tag =
     le32 CBWSIGNATURE @ le32 tag @ le32 (datalen srb) @ [if US_DIRECTION (cmd srb ! 0) then CBWFLAGS_IN else 0, lun srb, 12] @ take 12 (cmd srb) @ junk"

definition usb_stor_BBB_comdat :: "'d usb_hc \<Rightarrow> u8 list \<Rightarrow> ccb \<Rightarrow> 'd bbb \<Rightarrow> int \<times> 'd bbb" where
  "usb_stor_BBB_comdat u junk srb s =
     (let (r, d) = bulk_out u (cbw_bytes junk srb (CBWTag s)) (hc s) in (r, s\<lparr>hc := d, CBWTag := CBWTag s + 1\<rparr>))"

definition bbb_fail :: "'d usb_hc \<Rightarrow> u8 list \<Rightarrow> 'd bbb \<Rightarrow> int \<times> u8 list \<times> 'd bbb" where
  "bbb_fail u bs s = (USB_STOR_TRANSPORT_FAILED, bs, s\<lparr>hc := bbb_reset u (hc s)\<rparr>)"

text \<open>The status phase, tried again once after a stall: the code and the status block.\<close>

definition read_csw :: "'d usb_hc \<Rightarrow> 'd bbb \<Rightarrow> int \<times> bool \<times> u8 list \<times> 'd bbb" where
  "read_csw u s =
     (let (r, stalled, bs, d) = bulk_status u UMASS_BBB_CSW_SIZE (hc s)
      in (r, stalled, bs @ drop (length bs) (replicate UMASS_BBB_CSW_SIZE 0), s\<lparr>hc := d\<rparr>))"

definition bbb_status :: "'d usb_hc \<Rightarrow> 'd bbb \<Rightarrow> int \<times> u8 list \<times> 'd bbb" where
  "bbb_status u s =
     (let (r, stalled, csw, s) = read_csw u s
      in if r < 0 \<and> stalled
         then (let (c, d) = clear_stall u True (hc s); s = s\<lparr>hc := d\<rparr>
               in if c \<ge> 0 then (let (r, _, csw, s) = read_csw u s in (r, csw, s)) else (c, csw, s))
         else (r, csw, s))"

text \<open>The result of a command: the code, and the bytes stored. The residue that the device reports is read, and not used.\<close>

definition bbb_check :: "'d usb_hc \<Rightarrow> ccb \<Rightarrow> u8 list \<Rightarrow> 'd bbb \<Rightarrow> int \<times> u8 list \<times> 'd bbb" where
  "bbb_check u srb bs s =
     (let (r, csw, s) = bbb_status u s
      in if r < 0 then bbb_fail u bs s
         else if word_at csw 0 \<noteq> CSWSIGNATURE then bbb_fail u bs s
         else if CBWTag s - 1 \<noteq> word_at csw 4 then bbb_fail u bs s
         else if csw ! 12 \<ge> CSWSTATUS_PHASE then bbb_fail u bs s
         else if length bs > unat (datalen srb) then (USB_STOR_TRANSPORT_FAILED, bs, s)
         else if csw ! 12 = CSWSTATUS_FAILED then (USB_STOR_TRANSPORT_FAILED, bs, s)
         else (r, bs, s))"

definition usb_stor_BBB_transport :: "'d usb_hc \<Rightarrow> u8 list \<Rightarrow> 'd bbb transport" where
  "usb_stor_BBB_transport u junk srb s =
     (let dir_in = US_DIRECTION (cmd srb ! 0); (r, s) = usb_stor_BBB_comdat u junk srb s
      in if r < 0 then bbb_fail u [] s
         else if datalen srb = 0 then bbb_check u srb [] s
         else (let (r, stalled, bs, d) = bulk_data u dir_in (unat (datalen srb)) (hc s); s = s\<lparr>hc := d\<rparr>
               in if r < 0 \<and> stalled
                  then (let (c, d) = clear_stall u dir_in (hc s); s = s\<lparr>hc := d\<rparr> in if c \<ge> 0 then bbb_check u srb bs s else bbb_fail u bs s)
                  else if r < 0 then bbb_fail u bs s
                  else bbb_check u srb bs s))"

subsection \<open>Commands\<close>

definition SCSI_TST_U_RDY :: u8 where "SCSI_TST_U_RDY = 0x00"
definition SCSI_REQ_SENSE :: u8 where "SCSI_REQ_SENSE = 0x03"
definition SCSI_INQUIRY :: u8 where "SCSI_INQUIRY = 0x12"
definition SCSI_RD_CAPAC :: u8 where "SCSI_RD_CAPAC = 0x25"
definition SCSI_READ10 :: u8 where "SCSI_READ10 = 0x28"

text \<open>A command of 12 bytes: the operation, the unit, and the bytes from the third on.\<close>

definition scsi :: "u8 \<Rightarrow> u8 \<Rightarrow> u8 list \<Rightarrow> u32 \<Rightarrow> ccb" where
  "scsi op l args n = \<lparr>cmd = op # push_bit 5 l # args @ replicate (10 - length args) 0, lun = l, datalen = n\<rparr>"

definition overlay :: "u8 list \<Rightarrow> u8 list \<Rightarrow> u8 list" where "overlay new old = new @ drop (length new) old"

definition usb_request_sense :: "'s transport \<Rightarrow> u8 \<Rightarrow> 's \<Rightarrow> 's" where
  "usb_request_sense tr l s = snd (snd (tr (scsi SCSI_REQ_SENSE l [0, 0, 18] 18) s))"

fun ready_loop :: "'s transport \<Rightarrow> u8 \<Rightarrow> nat \<Rightarrow> 's \<Rightarrow> int \<times> 's" where
  "ready_loop tr l 0 s = (- 1, s)"
| "ready_loop tr l (Suc n) s =
     (let (r, _, s) = tr (scsi SCSI_TST_U_RDY l [] 0) s
      in if r = USB_STOR_TRANSPORT_GOOD then (0, s) else ready_loop tr l n (usb_request_sense tr l s))"

definition usb_test_unit_ready :: "'s transport \<Rightarrow> u8 \<Rightarrow> 's \<Rightarrow> int \<times> 's" where "usb_test_unit_ready tr l = ready_loop tr l 11"

text \<open>The value of \<open>retry\<close> behind the loop, with the buffer.\<close>

fun inquiry_loop :: "'s transport \<Rightarrow> u8 \<Rightarrow> nat \<Rightarrow> u8 list \<Rightarrow> 's \<Rightarrow> int \<times> u8 list \<times> 's" where
  "inquiry_loop tr l retry buf s =
     (let (r, bs, s) = tr (scsi SCSI_INQUIRY l [0, 0, 36] 36) s; buf = overlay bs buf
      in if r = 0 then (int retry, buf, s)
         else (case retry of 0 \<Rightarrow> (- 1, buf, s) | Suc n \<Rightarrow> inquiry_loop tr l n buf s))"

definition usb_inquiry :: "'s transport \<Rightarrow> u8 \<Rightarrow> u8 list \<Rightarrow> 's \<Rightarrow> int \<times> u8 list \<times> 's" where
  "usb_inquiry tr l buf s = (let (retry, buf, s) = inquiry_loop tr l 5 buf s in (if retry = 0 then - 1 else 0, buf, s))"

fun capacity_loop :: "'s transport \<Rightarrow> u8 \<Rightarrow> nat \<Rightarrow> u8 list \<Rightarrow> 's \<Rightarrow> int \<times> u8 list \<times> 's" where
  "capacity_loop tr l 0 buf s = (- 1, buf, s)"
| "capacity_loop tr l (Suc n) buf s =
     (let (r, bs, s) = tr (scsi SCSI_RD_CAPAC l [] 8) s; buf = overlay bs buf
      in if r = USB_STOR_TRANSPORT_GOOD then (0, buf, s) else capacity_loop tr l n buf s)"

definition usb_read_capacity :: "'s transport \<Rightarrow> u8 \<Rightarrow> u8 list \<Rightarrow> 's \<Rightarrow> int \<times> u8 list \<times> 's" where
  "usb_read_capacity tr l = capacity_loop tr l 4"

definition usb_read_10 :: "'s transport \<Rightarrow> u8 \<Rightarrow> u32 \<Rightarrow> u16 \<Rightarrow> u32 \<Rightarrow> 's \<Rightarrow> int \<times> u8 list \<times> 's" where
  "usb_read_10 tr l start blocks n s =
     tr (scsi SCSI_READ10 l [ucast (drop_bit 24 start), ucast (drop_bit 16 start), ucast (drop_bit 8 start), ucast start, 0,
           ucast (drop_bit 8 blocks), ucast blocks] n) s"

subsection \<open>Reading blocks\<close>

definition USB_MAX_READ_BLK :: u32 where "USB_MAX_READ_BLK = 10"
definition USB_MAX_DEVICE :: nat where "USB_MAX_DEVICE = 32"
definition USB_MAX_STOR_DEV :: nat where "USB_MAX_STOR_DEV = 5"

text \<open>One piece of at most ten blocks, tried three times: whether it was read, and what it stored.\<close>

fun piece_loop :: "'s transport \<Rightarrow> u8 \<Rightarrow> u32 \<Rightarrow> u16 \<Rightarrow> u32 \<Rightarrow> nat \<Rightarrow> u8 list \<Rightarrow> 's \<Rightarrow> bool \<times> u8 list \<times> 's" where
  "piece_loop tr l start smallblks n 0 buf s = (False, buf, s)"
| "piece_loop tr l start smallblks n (Suc k) buf s =
     (let (r, bs, s) = usb_read_10 tr l start smallblks n s; buf = overlay bs buf
      in if r \<noteq> 0 then piece_loop tr l start smallblks n k buf (usb_request_sense tr l s) else (True, buf, s))"

text \<open>The pieces: how many blocks are left, and the buffer, which held \<open>old\<close>.\<close>

function read_pieces :: "'s transport \<Rightarrow> u8 \<Rightarrow> u32 \<Rightarrow> u32 \<Rightarrow> u32 \<Rightarrow> u8 list \<Rightarrow> 's \<Rightarrow> u32 \<times> u8 list \<times> 's" where
  "read_pieces tr l blksz start blks old s =
     (let smallblks = (if blks > USB_MAX_READ_BLK then ucast USB_MAX_READ_BLK else ucast blks) :: u16;
          n = blksz * ucast smallblks;
          (ok, bs, s) = piece_loop tr l start smallblks n 3 [] s;
          buf = overlay (take (unat n) bs) old;
          rest = blks - ucast smallblks
      in if \<not> ok then (blks, buf, s)
         else if rest = 0 then (0, buf, s)
         else (let (left, more, s) = read_pieces tr l blksz (start + ucast smallblks) rest (drop (unat n) buf) s
               in (left, take (unat n) buf @ more, s)))"
  by pat_completeness auto

lemma small_piece: "blks \<le> USB_MAX_READ_BLK \<Longrightarrow> ucast (ucast blks :: u16) = (blks :: u32)"
proof -
  assume "blks \<le> USB_MAX_READ_BLK"
  then have "unat blks \<le> 10" by (simp add: USB_MAX_READ_BLK_def word_le_nat_alt)
  then show ?thesis by (intro word_unat_eq_iff [THEN iffD2]) (simp add: unsigned_ucast_eq unsigned_take_bit_eq take_bit_nat_eq_self)
qed

termination read_pieces
proof (relation "measure (\<lambda>(tr, l, blksz, start, blks, old, s). unat blks)")
  fix blks rest :: u32 and smallblks :: u16
  assume s: "smallblks = (if blks > USB_MAX_READ_BLK then ucast USB_MAX_READ_BLK else ucast blks)" and r: "rest = blks - ucast smallblks" "\<not> rest = 0"
  have big: "blks > USB_MAX_READ_BLK"
  proof (rule ccontr)
    assume "\<not> blks > USB_MAX_READ_BLK"
    then show False using s r small_piece [of blks] by simp
  qed
  then have "rest = blks - 10" using s r(1) by (simp add: USB_MAX_READ_BLK_def)
  then have "unat rest < unat blks" using big by (simp add: USB_MAX_READ_BLK_def word_less_nat_alt unat_sub word_le_nat_alt)
  then show "((tr, l, b, st, rest, o1, s1), (tr, l, b, st0, blks, o0, s0)) \<in> measure (\<lambda>(tr, l, blksz, start, blks, old, s). unat blks)"
    for tr l b st o1 s1 st0 o0 s0 by simp
qed auto

record usb_desc =
  target :: int
  dlun :: u8
  dtype :: u8
  removable :: bool
  dlba :: u32
  dblksz :: u32

text \<open>The devices on the bus, with their numbers and transports. With all 32 in use and no match, the last is taken.\<close>

definition find_usb :: "(int \<times> 's transport) list \<Rightarrow> int \<Rightarrow> 's transport option" where
  "find_usb devs num =
     (case find (\<lambda>d. fst d = num) (take USB_MAX_DEVICE devs) of
        Some d \<Rightarrow> Some (snd d)
      | None \<Rightarrow> if length devs \<ge> USB_MAX_DEVICE then Some (snd (devs ! (USB_MAX_DEVICE - 1))) else None)"

definition usb_stor_read :: "(int \<times> 's transport) list \<Rightarrow> usb_desc \<Rightarrow> u32 \<Rightarrow> u32 \<Rightarrow> u8 list \<Rightarrow> 's \<Rightarrow> u32 \<times> u8 list \<times> 's" where
  "usb_stor_read devs desc blknr blkcnt old s =
     (if blkcnt = 0 then (0, old, s)
      else (case find_usb devs (target desc) of
              None \<Rightarrow> (0, old, s)
            | Some tr \<Rightarrow>
                (let (r, s) = usb_test_unit_ready tr (dlun desc) s
                 in if r \<noteq> 0 then (0, old, s)
                    else (let (left, buf, s) = read_pieces tr (dlun desc) (dblksz desc) blknr blkcnt old s in (blkcnt - left, buf, s)))))"

subsection \<open>Devices\<close>

definition be32_at :: "u8 list \<Rightarrow> nat \<Rightarrow> u32" where "be32_at b i = of_le32 (rev (take 4 (drop i b)))"

text \<open>The answer to a read-capacity command comes with the high byte first; the code swaps the bytes of the numbers that it uses instead of a failed answer, too.\<close>

definition capacity_of :: "int \<Rightarrow> u8 list \<Rightarrow> u32 \<times> u32" where
  "capacity_of r cap =
     (let cap = (if r \<noteq> 0 then le32 2880 @ le32 0x200 else cap)
      in (be32_at cap 0 + 1, be32_at cap 4))"

text \<open>The result, 0 for a device without a disk, and the description. Names and the partition type are left out.\<close>

definition usb_stor_get_info :: "'s transport \<Rightarrow> int \<Rightarrow> u8 list \<Rightarrow> usb_desc \<Rightarrow> 's \<Rightarrow> int \<times> usb_desc \<times> u8 list \<times> 's" where
  "usb_stor_get_info tr devnum usb_stor_buf desc s =
     (let desc = desc\<lparr>target := devnum\<rparr>;
          (r, buf, s) = usb_inquiry tr (dlun desc) usb_stor_buf s
      in if r \<noteq> 0 then (- 1, desc, buf, s)
         else if buf ! 0 AND 0x1f = 0x1f then (0, desc, buf, s)
         else (let desc = (if buf ! 1 AND 0x80 = 0x80 then desc\<lparr>removable := True\<rparr> else desc);
                   (r, s) = usb_test_unit_ready tr (dlun desc) s
               in if r \<noteq> 0 then (if removable desc then (1, desc\<lparr>dtype := buf ! 0\<rparr>, buf, s) else (0, desc, buf, s))
                  else (let (r, cap, s) = usb_read_capacity tr (dlun desc) (replicate 8 0) s;
                            (lba, blksz) = capacity_of r cap
                        in (1, desc\<lparr>dlba := lba, dblksz := blksz, dtype := buf ! 0\<rparr>, buf, s))))"

text \<open>Over the devices of the bus, with the transport where \<open>usb_storage_probe\<close> accepts one: the descriptions filled in, and how many.\<close>

fun scan_usb ::
  "(int \<times> 's transport option) list \<Rightarrow> nat \<Rightarrow> usb_desc list \<Rightarrow> u8 list \<Rightarrow> 's \<Rightarrow> nat \<times> usb_desc list \<times> 's" where
  "scan_usb [] k descs buf s = (k, descs, s)"
| "scan_usb ((num, probe) # devs) k descs buf s =
     (let (k, descs, buf, s) =
        (case probe of
           None \<Rightarrow> (k, descs, buf, s)
         | Some tr \<Rightarrow>
             (let (r, desc, buf, s) = usb_stor_get_info tr num buf (descs ! k) s
              in (if r \<noteq> 0 then k + 1 else k, descs[k := desc], buf, s)))
      in if k = USB_MAX_STOR_DEV then (k, descs, s) else scan_usb devs k descs buf s)"

definition usb_stor_scan :: "(int \<times> 's transport option) list \<Rightarrow> 's \<Rightarrow> int \<times> nat \<times> usb_desc list \<times> 's" where
  "usb_stor_scan devs s =
     (let blank = \<lparr>target = 0xff, dlun = 0, dtype = 0, removable = False, dlba = 0, dblksz = 0\<rparr>;
          (k, descs, s) = scan_usb (take USB_MAX_DEVICE devs) 0 (replicate USB_MAX_STOR_DEV blank) (replicate 512 0) s
      in (if k > 0 then 0 else - 1, k, descs, s))"

end
