(* ===== verification/UsbDisk.thy ===== *)
theory UsbDisk
  imports UsbStor FatSpec
begin

text \<open>
  A USB disk as the block device of the file system: what every device gives, and what one gives that answers its commands.
\<close>

subsection \<open>Lengths\<close>

lemma length_overlay: "length new \<le> length old \<Longrightarrow> length (overlay new old) = length old"
  by (simp add: overlay_def)

lemma read_pieces_length:
  assumes "unat blksz < 65536" "length old = unat blks * unat blksz"
  shows "case read_pieces tr l blksz start blks old s of (left, buf, s') \<Rightarrow> length buf = length old \<and> left \<le> blks"
  using assms
proof (induction tr l blksz start blks old s rule: read_pieces.induct)
  case (1 tr l blksz start blks old s)
  define small where "small = (if blks > USB_MAX_READ_BLK then ucast USB_MAX_READ_BLK else ucast blks :: u16)"
  define n where "n = blksz * ucast small"
  obtain ok bs s1 where p: "piece_loop tr l start small n 3 [] s = (ok, bs, s1)" by (metis prod_cases3)
  define buf where "buf = overlay (take (unat n) bs) old"
  define rest where "rest = blks - ucast small"
  have sm: "unat (ucast small :: u32) \<le> unat blks \<and> unat (ucast small :: u32) \<le> 10"
    using small_piece [of blks] by (auto simp: small_def USB_MAX_READ_BLK_def word_le_nat_alt word_less_nat_alt)
  then have "unat blksz * unat (ucast small :: u32) < 65536 * 11" using 1(2) by (intro mult_strict_mono') simp_all
  then have un: "unat n = unat blksz * unat (ucast small :: u32)" by (simp add: n_def unat_word_ariths)
  then have "unat n \<le> length old" using sm 1(3) by (simp add: mult.commute)
  then have lb: "length buf = length old" by (simp add: buf_def length_overlay)
  have ur: "unat rest = unat blks - unat (ucast small :: u32)" using sm by (simp add: rest_def unat_sub word_le_nat_alt)
  have e: "read_pieces tr l blksz start blks old s =
      (if \<not> ok then (blks, buf, s1) else if rest = 0 then (0, buf, s1)
       else (let (left, more, s) = read_pieces tr l blksz (start + ucast small) rest (drop (unat n) buf) s1 in (left, take (unat n) buf @ more, s)))"
    by (subst read_pieces.simps) (simp only: small_def [symmetric] n_def [symmetric] rest_def [symmetric] p Let_def prod.case buf_def [symmetric])
  show ?case
  proof (cases "ok \<and> rest \<noteq> 0")
    case True
    have ld: "length (drop (unat n) buf) = unat rest * unat blksz" using lb 1(3) un ur by (simp add: diff_mult_distrib2 mult.commute)
    obtain left more s2 where r: "read_pieces tr l blksz (start + ucast small) rest (drop (unat n) buf) s1 = (left, more, s2)" by (metis prod_cases3)
    have m: "length more = length (drop (unat n) buf)" "left \<le> rest"
      using 1(1) [OF small_def n_def p [symmetric] refl refl buf_def rest_def _ _ 1(2) ld] True unfolding r by simp_all
    have "rest \<le> blks" using ur by (simp add: word_le_nat_alt)
    with m(2) have "left \<le> blks" by (rule order.trans)
    then show ?thesis using True m(1) lb \<open>unat n \<le> length old\<close> unfolding e r by simp
  next
    case False
    then show ?thesis using lb unfolding e by auto
  qed
qed

lemma usb_stor_read_length:
  assumes "unat (dblksz desc) < 65536" "length old = unat n * unat (dblksz desc)"
  shows "case usb_stor_read devs desc b n old s of (k, buf, s') \<Rightarrow> length buf = length old \<and> k \<le> n"
proof (cases "n = 0 \<or> find_usb devs (target desc) = None")
  case True
  then show ?thesis by (auto simp: usb_stor_read_def)
next
  case False
  then obtain tr where tr: "find_usb devs (target desc) = Some tr" "n \<noteq> 0" by auto
  obtain r s1 where r: "usb_test_unit_ready tr (dlun desc) s = (r, s1)" by fastforce
  obtain left buf s2 where p: "read_pieces tr (dlun desc) (dblksz desc) b n old s1 = (left, buf, s2)" by (metis prod_cases3)
  have "length buf = length old \<and> left \<le> n" using read_pieces_length [OF assms, of tr "dlun desc" b s1] p by simp
  moreover from this have "n - left \<le> n" by (simp add: word_le_nat_alt unat_sub)
  ultimately show ?thesis using tr r p by (simp add: usb_stor_read_def)
qed

subsection \<open>The block device\<close>

text \<open>Reading as \<open>fs/fat/fat.c\<close> sees it: the count, and the blocks before the first that was not read. The buffer held what \<open>fresh\<close> gives.\<close>

definition usb_block_read ::
  "(nat \<Rightarrow> u8 list) \<Rightarrow> (int \<times> 's transport) list \<Rightarrow> usb_desc \<Rightarrow> 's \<Rightarrow> u32 \<Rightarrow> u32 \<Rightarrow> u32 \<times> u8 list" where
  "usb_block_read fresh devs desc s b n =
     (let (k, buf, _) = usb_stor_read devs desc b n (fresh (unat n * unat (dblksz desc))) s in (k, take (unat k * unat (dblksz desc)) buf))"

locale usb_device =
  fixes fresh :: "nat \<Rightarrow> u8 list" and devs :: "(int \<times> 's transport) list" and desc :: usb_desc and s :: 's
  assumes fresh: "length (fresh n) = n"
    and blksz: "0 < unat (dblksz desc)" "unat (dblksz desc) < 65536"
begin

lemma count_length:
  assumes "usb_block_read fresh devs desc s b n = (k, bs)"
  shows "length bs = unat k * unat (dblksz desc)" "k \<le> n"
proof -
  obtain k' buf s' where r: "usb_stor_read devs desc b n (fresh (unat n * unat (dblksz desc))) s = (k', buf, s')" by (metis prod_cases3)
  have l: "length buf = unat n * unat (dblksz desc)" "k' \<le> n"
    using usb_stor_read_length [OF blksz(2) fresh, where devs = devs and b = b and n = n and s = s] r by (simp_all add: fresh)
  have kb: "k' = k" "bs = take (unat k * unat (dblksz desc)) buf" using assms r by (auto simp: usb_block_read_def)
  show "k \<le> n" using l(2) kb(1) by simp
  then have "unat k * unat (dblksz desc) \<le> length buf" using l(1) by (simp add: word_le_nat_alt)
  then show "length bs = unat k * unat (dblksz desc)" using kb(2) by simp
qed

end

sublocale usb_device \<subseteq> block_reads "usb_block_read fresh devs desc s" "unat (dblksz desc)"
proof
  show "0 < unat (dblksz desc)" "unat (dblksz desc) < 65536" by (rule blksz)+
  show "length bs = unat n * unat (dblksz desc)" if "usb_block_read fresh devs desc s b n = (n, bs)" for b n bs
    using count_length(1) [OF that] .
  show "length bs \<le> unat n * unat (dblksz desc)" if "usb_block_read fresh devs desc s b n = (k, bs)" for b n k bs
    using count_length [OF that] by (simp add: word_le_nat_alt)
qed

text \<open>A disk of \<open>nblk\<close> blocks that is ready and answers every read of at most ten of them.\<close>

locale usb_disk = usb_device fresh devs desc s
  for fresh and devs :: "(int \<times> 's transport) list" and desc and s +
  fixes tr :: "'s transport" and sec :: "nat \<Rightarrow> u8 list" and nblk :: nat
  assumes found: "find_usb devs (target desc) = Some tr"
    and ready: "\<exists>s'. tr (scsi SCSI_TST_U_RDY (dlun desc) [] 0) t = (0, [], s')"
    and answers: "0 < n \<Longrightarrow> n \<le> 10 \<Longrightarrow> unat b + unat n \<le> nblk \<Longrightarrow>
      \<exists>s'. usb_read_10 tr (dlun desc) b n (dblksz desc * ucast n) t = (0, concat (map sec [unat b..<unat b + unat n]), s')"
    and sectors: "length (sec i) = unat (dblksz desc)" "nblk < 2 ^ 31" "even (unat (dblksz desc))"
begin

lemma pieces:
  assumes "unat b + unat n \<le> nblk" "0 < n" "length old = unat n * unat (dblksz desc)"
  shows "\<exists>s'. read_pieces tr (dlun desc) (dblksz desc) b n old t = (0, concat (map sec [unat b..<unat b + unat n]), s')"
  using assms
proof (induction "unat n" arbitrary: b n old t rule: less_induct)
  case less
  let ?bz = "unat (dblksz desc)"
  define small where "small = (if n > USB_MAX_READ_BLK then ucast USB_MAX_READ_BLK else ucast n :: u16)"
  define z where "z = dblksz desc * ucast small"
  have sm: "unat (ucast small :: u32) = min 10 (unat n)"
    using small_piece [of n] by (auto simp: small_def USB_MAX_READ_BLK_def word_le_nat_alt word_less_nat_alt)
  have s16: "unat small = min 10 (unat n)" using sm by (simp add: unat_ucast_u16)
  have s10: "0 < small" "small \<le> 10" using s16 less.prems(2) by (simp_all add: word_less_nat_alt word_le_nat_alt)
  have "unat b + unat small \<le> nblk" using s16 less.prems(1) by simp
  then obtain t1 where a: "usb_read_10 tr (dlun desc) b small z t = (0, concat (map sec [unat b..<unat b + unat small]), t1)"
    using answers [OF s10, of b t] unfolding z_def by blast
  let ?bs = "concat (map sec [unat b..<unat b + unat small])"
  have lb: "length ?bs = unat small * ?bz" by (rule length_blocks [OF sectors(1)])
  have "?bz * unat (ucast small :: u32) < 65536 * 11" unfolding sm using blksz(2) by (intro mult_strict_mono') simp_all
  then have uz: "unat z = ?bz * unat small" by (simp add: z_def unat_word_ariths unat_ucast_u16)
  have p: "piece_loop tr (dlun desc) b small z 3 [] t = (True, ?bs, t1)" using a by (simp add: numeral_3_eq_3 overlay_def)
  define buf where "buf = overlay (take (unat z) ?bs) old"
  have buf: "buf = ?bs @ drop (length ?bs) old" using lb uz by (simp add: buf_def overlay_def mult.commute)
  define rest where "rest = n - ucast small"
  have ur: "unat rest = unat n - unat small" using sm s16 by (simp add: rest_def unat_sub word_le_nat_alt)
  have e: "read_pieces tr (dlun desc) (dblksz desc) b n old t =
      (if rest = 0 then (0, buf, t1)
       else (let (left, more, s) = read_pieces tr (dlun desc) (dblksz desc) (b + ucast small) rest (drop (unat z) buf) t1 in (left, take (unat z) buf @ more, s)))"
    by (subst read_pieces.simps)
      (simp only: small_def [symmetric] z_def [symmetric] rest_def [symmetric] p Let_def prod.case buf_def [symmetric] not_True_eq_False if_False)
  show ?case
  proof (cases "rest = 0")
    case True
    then have "unat n = unat small" using ur s16 by simp
    then show ?thesis using True less.prems(3) lb unfolding e buf by simp
  next
    case False
    then have lt: "unat small < unat n" using ur by (metis not_less zero_less_diff unat_eq_0 neq0_conv)
    have r1: "unat rest < unat n" using ur s16 lt less.prems(2) by (simp add: word_less_nat_alt)
    have "unat b + unat (ucast small :: u32) < 2 ^ LENGTH(32)" using less.prems(1) sectors(2) lt by (simp add: unat_ucast_u16)
    then have "unat (b + ucast small) = unat b + unat (ucast small :: u32)" by (simp only: unat_add_lem)
    then have ub: "unat (b + ucast small) = unat b + unat small" by (simp add: unat_ucast_u16)
    have r2: "unat (b + ucast small) + unat rest \<le> nblk" using ub ur lt less.prems(1) by simp
    have r3: "0 < rest" using False by (simp add: word_gt_0)
    have dz: "drop (unat z) buf = drop (unat small * ?bz) old" "take (unat z) buf = ?bs" using lb uz unfolding buf by (simp_all add: mult.commute)
    have "length (drop (unat z) buf) = unat rest * ?bz" unfolding dz using less.prems(3) ur by (simp add: diff_mult_distrib)
    from less.hyps [OF r1 r2 r3 this, of t1] obtain t2 where
      "read_pieces tr (dlun desc) (dblksz desc) (b + ucast small) rest (drop (unat z) buf) t1 =
        (0, concat (map sec [unat b + unat small..<unat b + unat small + unat rest]), t2)" unfolding ub by blast
    moreover have "unat small + unat rest = unat n" using ur lt by simp
    then have "?bs @ concat (map sec [unat b + unat small..<unat b + unat small + unat rest]) = concat (map sec [unat b..<unat b + unat n])"
      using blocks_append [of sec "unat b" "unat small" "unat rest"] by simp
    ultimately show ?thesis using False unfolding e dz by simp
  qed
qed

lemma blocks_read:
  assumes "unat b + unat n \<le> nblk"
  shows "usb_block_read fresh devs desc s b n = (n, concat (map sec [unat b..<unat b + unat n]))"
proof (cases "n = 0")
  case False
  then have n: "0 < n" by (simp add: word_gt_0)
  obtain s1 where r: "tr (scsi SCSI_TST_U_RDY (dlun desc) [] 0) s = (0, [], s1)" using ready by blast
  have "(11 :: nat) = Suc 10" by simp
  then have rd: "usb_test_unit_ready tr (dlun desc) s = (0, s1)"
    unfolding usb_test_unit_ready_def by (simp only: ready_loop.simps r Let_def prod.case USB_STOR_TRANSPORT_GOOD_def if_True refl)
  obtain s2 where p: "read_pieces tr (dlun desc) (dblksz desc) b n (fresh (unat n * unat (dblksz desc))) s1 =
      (0, concat (map sec [unat b..<unat b + unat n]), s2)"
    using pieces [OF assms n fresh] by blast
  have "length (concat (map sec [unat b..<unat b + unat n])) = unat n * unat (dblksz desc)" by (rule length_blocks [OF sectors(1)])
  then show ?thesis using False found rd p by (simp add: usb_block_read_def usb_stor_read_def)
qed (simp add: usb_block_read_def usb_stor_read_def)

end

sublocale usb_disk \<subseteq> block_array "usb_block_read fresh devs desc s" "unat (dblksz desc)" sec nblk
  by unfold_locales (use sectors blocks_read in simp_all)

subsection \<open>A device with the contents of an image\<close>

text \<open>It decodes the bytes of the commands.\<close>

definition disk_transport :: "(nat \<Rightarrow> u8 list) \<Rightarrow> unit transport" where
  "disk_transport sec srb s =
     (if cmd srb ! 0 = SCSI_READ10
      then (let b = unat (be32_at (cmd srb) 2); n = unat (cmd srb ! 7) * 256 + unat (cmd srb ! 8) in (0, concat (map sec [b..<b + n]), s))
      else (0, [], s))"

definition image_sector :: "(nat \<Rightarrow> u8 list) \<Rightarrow> nat \<Rightarrow> u8 list" where "image_sector img i = take 512 (img i @ replicate 512 0)"

definition image_devs :: "(nat \<Rightarrow> u8 list) \<Rightarrow> (int \<times> unit transport) list" where "image_devs img = [(1, disk_transport (image_sector img))]"

definition image_desc :: usb_desc where
  "image_desc = \<lparr>target = 1, dlun = 0, dtype = 0, removable = True, dlba = 0x10000, dblksz = 512\<rparr>"

definition zeros :: "nat \<Rightarrow> u8 list" where "zeros n = replicate n 0"

lemma read10_decoded:
  assumes "n \<le> 10"
  shows "usb_read_10 (disk_transport sec) l b n z t = (0, concat (map sec [unat b..<unat b + unat n]), t)"
proof -
  have "take 4 (drop 2 (cmd (scsi SCSI_READ10 l [ucast (drop_bit 24 b), ucast (drop_bit 16 b), ucast (drop_bit 8 b), ucast b, 0,
      ucast (drop_bit 8 n), ucast n] z))) = rev (le32 b)" by (simp add: scsi_def le32_def)
  then have b: "be32_at (cmd (scsi SCSI_READ10 l [ucast (drop_bit 24 b), ucast (drop_bit 16 b), ucast (drop_bit 8 b), ucast b, 0,
      ucast (drop_bit 8 n), ucast n] z)) 2 = b" by (simp add: be32_at_def)
  have n: "unat n \<le> 10" using assms by (simp add: word_le_nat_alt)
  then have "unat (drop_bit 8 n) = 0" by (simp add: drop_bit_eq_div unat_div)
  then have h: "drop_bit 8 n = 0" by (simp only: unat_eq_0)
  have l: "unat (ucast n :: u8) = unat n" using n by (simp add: unsigned_ucast_eq take_bit_nat_eq_self)
  show ?thesis unfolding usb_read_10_def disk_transport_def b by (simp add: scsi_def h l Let_def)
qed

interpretation image: usb_disk zeros "image_devs img" image_desc "()" "disk_transport (image_sector img)" "image_sector img" 65536 for img
proof
  show "length (zeros n) = n" for n by (simp add: zeros_def)
  show "0 < unat (dblksz image_desc)" "unat (dblksz image_desc) < 65536" by (simp_all add: image_desc_def)
  show "find_usb (image_devs img) (target image_desc) = Some (disk_transport (image_sector img))"
    by (simp add: find_usb_def image_devs_def image_desc_def USB_MAX_DEVICE_def)
  show "\<exists>s'. disk_transport (image_sector img) (scsi SCSI_TST_U_RDY (dlun image_desc) [] 0) t = (0, [], s')" for t
    by (simp add: disk_transport_def scsi_def SCSI_TST_U_RDY_def SCSI_READ10_def)
  show "\<exists>s'. usb_read_10 (disk_transport (image_sector img)) (dlun image_desc) b n (dblksz image_desc * ucast n) t =
      (0, concat (map (image_sector img) [unat b..<unat b + unat n]), s')" if "n \<le> 10" for n b t
    using read10_decoded [OF that] by blast
  show "length (image_sector img i) = unat (dblksz image_desc)" for i by (simp add: image_sector_def image_desc_def)
  show "(65536 :: nat) < 2 ^ 31" "even (unat (dblksz image_desc))" by (simp_all add: image_desc_def)
qed

end
