(* ===== verification/FatDisk.thy ===== *)
theory FatDisk
  imports FatLoad UsbDisk BootDemo
begin

text \<open>
  A small FAT16 disk, served by the USB code, on which the properties of the file system and of the boot menu are applied.
\<close>

subsection \<open>A disk\<close>

text \<open>One sector each for the boot block, the table and the root directory; the file \<open>firmware.bin\<close> in the clusters 2 and 5, the files that the boot menu
  looks for in the clusters 3, with three bytes, and 4, with the image of a kernel.\<close>

definition stick_boot :: "u8 list" where
  "stick_boot = [0, 0, 0, 0, 0, 0, 0, 0, 0, 0, 0, 0, 2, 1, 1, 0, 1, 16, 0, 0, 0, 0, 1, 0, 0, 0, 0, 0, 0, 0, 0, 0, 0, 0, 0, 0, 0, 0, 0, 0, 0, 0, 0, 0, 0, 0, 0, 0, 0, 0, 0, 0, 0, 0] @
     FAT16_SIGN"

definition stick_name :: "u8 list" where "stick_name = [0x66, 0x69, 0x72, 0x6d, 0x77, 0x61, 0x72, 0x65, 0x2e, 0x62, 0x69, 0x6e]"

definition stick_entry :: "u8 list" where
  "stick_entry = [0x46, 0x49, 0x52, 0x4d, 0x57, 0x41, 0x7e, 0x31, 0x42, 0x49, 0x4e, 0x20, 0, 0, 0, 0, 0, 0, 0, 0, 0, 0, 0, 0, 0, 0, 2, 0, 0xbc, 2, 0, 0]"

definition stick_ldr :: "u8 list" where
  "stick_ldr = [0x4c, 0x4b, 0x53, 0x37, 0x36, 0x38, 0x38, 0x20, 0x4c, 0x44, 0x52, 0x20, 0, 0, 0, 0, 0, 0, 0, 0, 0, 0, 0, 0, 0, 0, 3, 0, 3, 0, 0, 0]"

definition stick_sys :: "u8 list" where
  "stick_sys = [0x4c, 0x4b, 0x53, 0x37, 0x36, 0x38, 0x38, 0x20, 0x49, 0x4d, 0x47, 0x20, 0, 0, 0, 0, 0, 0, 0, 0, 0, 0, 0, 0, 0, 0, 4, 0, 68, 0, 0, 0]"

definition stick_img :: "nat \<Rightarrow> u8 list" where
  "stick_img i =
     (if i = 0 then stick_boot @ replicate 448 0 @ [0x55, 0xaa]
      else if i = 1 then [0xf8, 0xff, 0xff, 0xff, 5, 0, 0, 0, 0, 0, 0xff, 0xff]
      else if i = 2 then concat (vfat_slots 0x51 stick_name) @ stick_entry @ stick_ldr @ stick_sys
      else if i = 4 then [1, 2, 3] else if i = 5 then demo_image
      else if i = 3 then replicate 512 0x41 else if i = 6 then replicate 512 0x42 else [])"

definition stick_sec :: "nat \<Rightarrow> u8 list" where "stick_sec = image_sector stick_img"
definition stick_read :: "u32 \<Rightarrow> u32 \<Rightarrow> u32 \<times> u8 list" where "stick_read = usb_block_read zeros (image_devs stick_img) image_desc ()"

definition stick_dev :: block_dev where "stick_dev = \<lparr>part_type = 0, dev_type = 0, dev_lba = 65536, dev_blksz = 512, block_read = Some stick_read\<rparr>"

definition stick_st :: fat_state where
  "stick_st =
     \<lparr>cur_dev = Some stick_dev, cur_part_nr = 1, cur_part_info = \<lparr>p_start = 0, p_size = 65536, p_blksz = 512, p_type = []\<rparr>,
      get_vfatname_block = replicate 65536 0, get_dentfromdir_block = replicate 65536 0, do_fat_read_block = replicate 65536 0, ls_lines = []\<rparr>"

definition stick_fs :: fsdata where
  "stick_fs =
     \<lparr>fatsize = 16, fatlength = 1, fat_sect = 1, rootdir_sect = 2, sect_size = 512, clust_size = 1, fatbuf = zeros 3072, fatbufnum = - 1, data_begin = 1\<rparr>"

definition stick_bs :: boot_sector where "stick_bs = boot_sector_of (stick_sec 0)"

lemma stick_array: "block_array stick_read 512 stick_sec 65536"
  using image.block_array_axioms [of stick_img] by (simp add: stick_read_def stick_sec_def image_desc_def)

lemma stick_psec: "psec stick_sec stick_st i = stick_sec i" by (simp add: psec_def stick_st_def)

lemma stick_sec0: "stick_sec 0 = stick_boot @ replicate 448 0 @ [0x55, 0xaa]"
  by (simp add: stick_sec_def image_sector_def stick_img_def stick_boot_def FAT16_SIGN_def)

lemma stick_volume: "volume_of (stick_sec 0) = Some (stick_bs, 16)"
  unfolding stick_bs_def stick_sec0
  by (simp add: volume_of_def Let_def boot_sector_of_def fs_type_def half_at_def stick_boot_def nth_append FAT12_SIGN_def FAT16_SIGN_def SIGNLEN_def)

lemma stick_fs_start: "fs_start zeros stick_bs 16 = stick_fs" "rootdir_size_of stick_bs 16 512 = 1" "sect_size (fs_of_boot stick_bs 16) = 512"
  by (simp_all add: fs_start_def fs_of_boot_def rootdir_size_of_def stick_bs_def stick_sec0 boot_sector_of_def half_at_def stick_boot_def nth_append Let_def
      FATBUFSIZE_def FATBUFBLOCKS_def stick_fs_def)

lemma stick_fs_boot: "rootdir_sect (fs_of_boot stick_bs 16) = 2" "DIRENTSPERBLOCK (fs_of_boot stick_bs 16) = 16"
  using stick_fs_start(1) fs_start_fields [of zeros stick_bs 16] by (simp_all add: stick_fs_def DIRENTSPERBLOCK_def)

lemma stick_on_volume: "on_volume stick_read 512 65536 stick_st stick_fs"
  by (simp add: on_volume_def reads_with_def fs_ok_def stick_st_def stick_dev_def stick_fs_def zeros_def FATBUFSIZE_def FATBUFBLOCKS_def)

lemma stick_mounted: "mounted zeros stick_read 512 stick_sec 65536 stick_st stick_bs 16"
  using stick_volume stick_on_volume
  by (simp add: mounted_def stick_fs_start stick_fs_boot stick_psec) (simp add: stick_st_def stick_dev_def zeros_def MAX_CLUSTSIZE_def)

lemma stick_plain: "root_name (0x2f # stick_name) stick_name"
  by (simp add: root_name_def skip_delims_def stick_name_def downcase_def TOLOWER_def ISDIRDELIM_def)

lemma stick_count: "slot_count stick_name = 1" by (simp add: slot_count_def stick_name_def)

lemma stick_slots: "vfat_slots 0x51 stick_name = [vfat_slot 0x51 stick_name 0]" by (simp add: vfat_slots_def stick_count)

lemma stick_slot_length: "length (vfat_slot 0x51 stick_name 0) = 32"
  by (rule vfat_slot_fields(4)) (simp add: stick_count)

lemma stick_root: "root_dir stick_sec stick_st stick_bs 16 = vfat_slots 0x51 stick_name @ stick_entry # stick_ldr # stick_sys # replicate 12 (replicate 32 0)"
proof -
  have l: "length stick_entry = 32" "length stick_ldr = 32" "length stick_sys = 32" by (simp_all add: stick_entry_def stick_ldr_def stick_sys_def)
  have s2: "stick_sec 2 = vfat_slot 0x51 stick_name 0 @ stick_entry @ stick_ldr @ stick_sys @ replicate 384 0"
    by (simp add: stick_sec_def image_sector_def stick_img_def stick_slots stick_slot_length l)
  have u: "[0..<16] = [0, 1, 2, 3, 4, 5, 6, 7, 8, 9, 10, 11, 12, 13, 14, 15 :: nat]" by (simp add: upt_rec)
  have r: "replicate 12 (replicate 32 (0 :: u8)) =
      [replicate 32 0, replicate 32 0, replicate 32 0, replicate 32 0, replicate 32 0, replicate 32 0, replicate 32 0, replicate 32 0,
       replicate 32 0, replicate 32 0, replicate 32 0, replicate 32 0]" by (simp add: numeral_eq_Suc)
  show ?thesis unfolding root_dir_def root_entries_def stick_fs_start stick_fs_boot stick_psec r
    by (simp add: u s2 [unfolded numeral_2_eq_2] stick_slots stick_slot_length l del: upt_rec_numeral)
qed

lemma stick_dir_ok: "dir_ok (root_dir stick_sec stick_st stick_bs 16)"
proof -
  let ?s = "vfat_slot 0x51 stick_name 0"
  have ok: "slots_ok (vfat_slots 0x51 stick_name)" by (rule slots_ok_vfat) (simp_all add: stick_name_def VFAT_MAXSEQ_def)
  then have n: "slot_num ?s = 1" by (simp add: slots_ok_def stick_slots)
  have e: "d_attr (root_dir stick_sec stick_st stick_bs 16 ! i) AND ATTR_VOLUME = 0" if "0 < i" "i < 16" for i
  proof -
    define j where "j = i - 1"
    then have j: "i = Suc j" "j < 15" using that by simp_all
    have "j = 0 \<or> j = 1 \<or> j = 2 \<or> j = 3 + (j - 3)" by linarith
    then consider "j = 0" | "j = 1" | "j = 2" | "j = Suc (Suc (Suc (j - 3)))" "j - 3 < 12" using j(2) by fastforce
    then show ?thesis unfolding stick_root stick_slots j(1)
    proof cases
      case 4
      then show "d_attr ((([vfat_slot 0x51 stick_name 0] @ stick_entry # stick_ldr # stick_sys # replicate 12 (replicate 32 0)) ! Suc j)) AND ATTR_VOLUME = 0"
        by (subst 4(1)) (simp add: d_attr_def)
    qed (simp_all add: d_attr_def ATTR_VOLUME_def stick_entry_def stick_ldr_def stick_sys_def)
  qed
  have l: "length (root_dir stick_sec stick_st stick_bs 16) = 16" by (simp add: stick_root stick_count)
  show ?thesis unfolding dir_ok_def l
  proof (intro allI impI)
    fix i assume i: "i < (16 :: nat)" "d_attr (root_dir stick_sec stick_st stick_bs 16 ! i) AND ATTR_VOLUME \<noteq> 0"
    then have "i = 0" using e [of i] by (cases "i = 0") auto
    then show "i + slot_num (root_dir stick_sec stick_st stick_bs 16 ! i) < 16 \<and>
        slots_ok (take (slot_num (root_dir stick_sec stick_st stick_bs 16 ! i)) (drop i (root_dir stick_sec stick_st stick_bs 16)))"
      using ok n by (simp add: stick_root stick_slots)
  qed
qed

lemma stick_found: "dir_find stick_name (root_dir stick_sec stick_st stick_bs 16) = Some stick_entry"
proof -
  have "downcase stick_name = stick_name" by (simp add: downcase_def stick_name_def TOLOWER_def)
  then show ?thesis unfolding stick_root
    using dir_find_slots [of stick_name "0x51" stick_entry "stick_ldr # stick_sys # replicate 12 (replicate 32 0)"]
    by (simp add: stick_name_def VFAT_MAXSEQ_def DELETED_FLAG_def aRING_def)
qed

lemma stick_file: "file_on stick_sec 65536 stick_st stick_fs stick_entry [5]" "d_size stick_entry = 700"
proof -
  have b: "fat_bytes stick_sec stick_st stick_fs = stick_sec 1" by (simp add: fat_bytes_def stick_fs_def stick_psec upt_rec)
  have s1: "stick_sec (Suc 0) = [0xf8, 0xff, 0xff, 0xff, 5, 0, 0, 0, 0, 0, 0xff, 0xff] @ replicate 500 0"
    by (simp add: stick_sec_def image_sector_def stick_img_def)
  have st: "START stick_fs stick_entry = 2" by (simp add: START_def stick_fs_def half_at_def stick_entry_def)
  have ck: "\<not> CHECK_CLUST 5 (fatsize stick_fs)" by (simp add: CHECK_CLUST_def word_le_nat_alt stick_fs_def)
  show "d_size stick_entry = 700" by (simp add: d_size_def word_at_def of_le32_def stick_entry_def)
  then show "file_on stick_sec 65536 stick_st stick_fs stick_entry [5]"
    by (simp add: file_on_def st b s1 fat_has_def fat_pos_def fat_width_def fat_entry_def half_at_def ck good_cluster_def clust_sect_def
        clust_bytes_def) (simp add: stick_fs_def stick_st_def)
qed

lemma stick_lookup:
  assumes "fname \<noteq> stick_name" "fname \<noteq> get_name stick_entry"
  shows "dir_find fname (root_dir stick_sec stick_st stick_bs 16) = dir_find fname (stick_ldr # stick_sys # replicate 12 (replicate 32 0))"
proof -
  let ?s = "vfat_slot 0x51 stick_name 0"
  have ok: "slots_ok (vfat_slots 0x51 stick_name)" by (rule slots_ok_vfat) (simp_all add: stick_name_def VFAT_MAXSEQ_def)
  then have n: "slot_num ?s = 1" "last_slot ?s" by (simp_all add: slots_ok_def stick_slots)
  have at: "d_attr ?s = ATTR_VFAT" by (rule vfat_slot_fields(2)) (simp add: stick_count)
  have "?s ! 0 \<noteq> DELETED_FLAG" using n(1) by (auto simp: slot_num_def DELETED_FLAG_def LAST_LONG_ENTRY_MASK_def)
  then have p: "\<not> passed_over ?s" "begins_long ?s"
    using at n(2) by (simp_all add: passed_over_def begins_long_def ATTR_VFAT_def ATTR_VOLUME_def is_long_def last_slot_def)
  have "unmark stick_name = stick_name" "downcase stick_name = stick_name" "0 \<notin> set stick_name"
    by (simp_all add: unmark_def stick_name_def DELETED_FLAG_def aRING_def downcase_def TOLOWER_def)
  then have l: "long_name [?s] = stick_name" using long_chars_slots [of stick_name "0x51"] by (simp add: long_name_def stick_slots)
  have e: "\<not> passed_over stick_entry" "\<not> begins_long stick_entry" "stick_entry ! 0 \<noteq> 0"
    by (simp_all add: passed_over_def begins_long_def d_attr_def stick_entry_def ATTR_VOLUME_def DELETED_FLAG_def)
  show ?thesis using assms p l n(1) e by (simp add: stick_root stick_slots Let_def)
qed

definition ldr_name :: "u8 list" where "ldr_name = [0x6c, 0x6b, 0x73, 0x37, 0x36, 0x38, 0x38, 0x2e, 0x6c, 0x64, 0x72]"
definition sys_name :: "u8 list" where "sys_name = [0x6c, 0x6b, 0x73, 0x37, 0x36, 0x38, 0x38, 0x2e, 0x69, 0x6d, 0x67]"

lemma stick_names:
  "dir_find ldr_name (root_dir stick_sec stick_st stick_bs 16) = Some stick_ldr"
  "dir_find sys_name (root_dir stick_sec stick_st stick_bs 16) = Some stick_sys"
proof -
  have g: "get_name stick_entry = [0x66, 0x69, 0x72, 0x6d, 0x77, 0x61, 0x7e, 0x31, 0x2e, 0x62, 0x69, 0x6e]" "get_name stick_ldr = ldr_name" "get_name stick_sys = sys_name"
    by (simp_all add: get_name_def name_part_def unmark_def downcase_def TOLOWER_def stick_entry_def stick_ldr_def stick_sys_def ldr_name_def sys_name_def
        DELETED_FLAG_def aRING_def)
  have o: "\<not> passed_over stick_ldr" "\<not> begins_long stick_ldr" "stick_ldr ! 0 \<noteq> 0" "\<not> passed_over stick_sys" "\<not> begins_long stick_sys" "stick_sys ! 0 \<noteq> 0"
    by (simp_all add: passed_over_def begins_long_def d_attr_def stick_ldr_def stick_sys_def ATTR_VOLUME_def DELETED_FLAG_def)
  have d: "ldr_name \<noteq> sys_name" by (simp add: ldr_name_def sys_name_def)
  show "dir_find ldr_name (root_dir stick_sec stick_st stick_bs 16) = Some stick_ldr"
    using o g by (subst stick_lookup) (simp_all add: ldr_name_def stick_name_def)
  show "dir_find sys_name (root_dir stick_sec stick_st stick_bs 16) = Some stick_sys"
    using o g d by (subst stick_lookup) (simp_all add: sys_name_def stick_name_def)
qed

lemma length_demo_image: "length demo_image = 68"
  by (simp add: demo_image_def demo_header_def header_bytes_def le32_def IH_NMLEN_def)

lemma stick_small:
  "file_on stick_sec 65536 stick_st stick_fs stick_ldr []" "file_bytes stick_sec stick_st stick_fs stick_ldr [] = [1, 2, 3]"
  "file_on stick_sec 65536 stick_st stick_fs stick_sys []" "file_bytes stick_sec stick_st stick_fs stick_sys [] = demo_image"
proof -
  have st: "START stick_fs stick_ldr = 3" "START stick_fs stick_sys = 4" by (simp_all add: START_def stick_fs_def half_at_def stick_ldr_def stick_sys_def)
  have z: "d_size stick_ldr = 3" "d_size stick_sys = 68" by (simp_all add: d_size_def word_at_def of_le32_def stick_ldr_def stick_sys_def)
  show "file_on stick_sec 65536 stick_st stick_fs stick_ldr []" "file_on stick_sec 65536 stick_st stick_fs stick_sys []"
    unfolding file_on_def st z by (simp_all add: good_cluster_def clust_sect_def clust_bytes_def stick_fs_def stick_st_def)
  have "cluster_data stick_sec stick_st stick_fs 3 = stick_sec 4" "cluster_data stick_sec stick_st stick_fs 4 = stick_sec 5"
    by (simp_all add: cluster_data_def clust_sect_def stick_fs_def stick_psec upt_rec)
  moreover have "take 3 (stick_sec 4) = [1, 2, 3]" "take 68 (stick_sec 5) = demo_image"
    by (simp_all add: stick_sec_def image_sector_def stick_img_def length_demo_image)
  ultimately show "file_bytes stick_sec stick_st stick_fs stick_ldr [] = [1, 2, 3]" "file_bytes stick_sec stick_st stick_fs stick_sys [] = demo_image"
    by (simp_all add: file_bytes_def st z)
qed

text \<open>Before a device is registered.\<close>

definition no_device :: fat_state where "no_device = stick_st\<lparr>cur_dev := None\<rparr>"

lemma stick_registered: "fat_register_device zeros stick_dev 1 no_device = Some (0, stick_st)"
proof -
  have p: "part_type stick_dev \<noteq> PART_TYPE_DOS" "dev_lba stick_dev = 65536" "dev_blksz stick_dev = 512" by (simp_all add: stick_dev_def PART_TYPE_DOS_def)
  have rw: "reads_with stick_st stick_read" using stick_on_volume by (simp add: on_volume_def)
  have "unat (p_start (cur_part_info stick_st)) + unat (0 :: u32) + unat (1 :: u32) \<le> 65536" by (simp add: stick_st_def)
  from block_array.disk_read_blocks [OF stick_array rw this] have r: "disk_read stick_st 0 1 = (1, stick_sec 0)" by (simp add: stick_psec)
  have l: "length (stick_sec 0) = 512" by (simp add: stick_sec0 stick_boot_def FAT16_SIGN_def)
  have "drop 62 (stick_sec 0) = replicate 448 0 @ [0x55, 0xaa]" by (simp add: stick_sec0 stick_boot_def FAT16_SIGN_def)
  then have "drop 510 (stick_sec 0) = [0x55, 0xaa]" using drop_drop [of 448 62 "stick_sec 0"] by simp
  then have m: "fat_magic (stick_sec 0)"
    by (simp add: fat_magic_def) (simp add: stick_sec0 stick_boot_def FAT16_SIGN_def FAT32_SIGN_def)
  have s: "no_device\<lparr>cur_dev := Some stick_dev, cur_part_nr := 1, cur_part_info := \<lparr>p_start = 0, p_size = 65536, p_blksz = 512, p_type = []\<rparr>\<rparr> = stick_st"
    by (simp add: no_device_def stick_st_def)
  show ?thesis using p r l m s by (simp add: fat_register_device_def get_partition_info_def into_buf_def zeros_def)
qed

end
