(* ===== verification/MenuBoot.thy ===== *)
theory MenuBoot
  imports BootMenu BootDemo FatDisk
begin

text \<open>
  What the board does at power-up: the count-down, and the boot of the kernel in the flash when nobody interferes.
\<close>

subsection \<open>Count-down\<close>

text \<open>\<open>cs 0\<close>, \<open>cs 1\<close>, \<open>\<dots>\<close> are the states of a console that has no key ready at the first \<open>n\<close> polls.\<close>

definition quiet :: "('w, 'f) board \<Rightarrow> nat \<Rightarrow> (nat \<Rightarrow> 'w console_state) \<Rightarrow> bool" where
  "quiet b n cs \<longleftrightarrow> (\<forall>i<n. con_tstc (b_calls b) (b_drv b) (cs i) = Some (0, cs (i + 1)))"

text \<open>A key is ready at the poll of state \<open>c\<close>.\<close>

definition key_at :: "('w, 'f) board \<Rightarrow> 'w console_state \<Rightarrow> int \<Rightarrow> 'w console_state \<Rightarrow> bool" where
  "key_at b c k c' \<longleftrightarrow> (\<exists>t c1. con_tstc (b_calls b) (b_drv b) c = Some (t, c1) \<and> t \<noteq> 0 \<and> con_getc (b_calls b) (b_drv b) c1 = Some (k, c'))"

lemma quiet_shift: "quiet b (m + n) cs \<Longrightarrow> quiet b m cs \<and> quiet b n (\<lambda>i. cs (m + i))"
  by (auto simp: quiet_def add.assoc)

lemma poll_keys_quiet: "quiet b n cs \<Longrightarrow> poll_keys b n (cs 0) = Some (None, cs n)"
proof (induction n arbitrary: cs)
  case (Suc n)
  have "quiet b n (\<lambda>i. cs (1 + i))" using quiet_shift [of b 1 n cs] Suc.prems by simp
  from Suc.IH [OF this] show ?case using Suc.prems by (simp add: quiet_def)
qed simp

lemma poll_keys_key: "quiet b i cs \<Longrightarrow> i < n \<Longrightarrow> key_at b (cs i) k c' \<Longrightarrow> poll_keys b n (cs 0) = Some (Some k, c')"
proof (induction i arbitrary: n cs)
  case 0
  then show ?case by (cases n) (auto simp: key_at_def)
next
  case (Suc i)
  then obtain m where n: "n = Suc m" by (cases n) auto
  have "quiet b i (\<lambda>j. cs (1 + j))" using quiet_shift [of b 1 i cs] Suc.prems(1) by simp
  from Suc.IH [OF this, of m] show ?case using Suc.prems n by (simp add: quiet_def)
qed

lemma count_down_quiet: "quiet b (100 * t) cs \<Longrightarrow> count_down b t bt (cs 0) = Some (bt, cs (100 * t))"
proof (induction t arbitrary: cs)
  case (Suc t)
  have q: "quiet b 100 cs" "quiet b (100 * t) (\<lambda>i. cs (100 + i))" using quiet_shift [of b 100 "100 * t" cs] Suc.prems by simp_all
  from Suc.IH [OF q(2)] poll_keys_quiet [OF q(1)] show ?case by simp
qed simp

lemma count_down_key:
  "quiet b i cs \<Longrightarrow> i < 100 * t \<Longrightarrow> key_at b (cs i) k c' \<Longrightarrow> count_down b t bt (cs 0) = Some (key_type k, c')"
proof (induction t arbitrary: i cs)
  case (Suc t)
  show ?case
  proof (cases "i < 100")
    case True
    then show ?thesis using poll_keys_key [OF Suc.prems(1) True Suc.prems(3)] by simp
  next
    case False
    then obtain j where i: "i = 100 + j" by (metis le_add_diff_inverse not_less)
    have q: "quiet b 100 cs" "quiet b j (\<lambda>i. cs (100 + i))" using quiet_shift [of b 100 j cs] Suc.prems(1) i by simp_all
    from Suc.IH [OF q(2)] poll_keys_quiet [OF q(1)] show ?thesis using Suc.prems(2, 3) i by simp
  qed
qed simp

definition menu_keys :: "char set" where "menu_keys = {CHR ''0'', CHR ''1'', CHR ''2'', CHR ''3'', CHR ''4'', CHR ''5'', CHR ''7'', CHR ''8'', CHR ''9'', CHR ''b'', CHR ''m'', CHR ''c''}"

definition byte_char :: "int \<Rightarrow> char" where "byte_char c = char_of (nat (c mod 256))"

lemma char_code: "of_char t = n \<longleftrightarrow> t = char_of n" if "n < 256" for n :: nat
proof
  assume "of_char t = n"
  then have "char_of (of_char t :: nat) = char_of n" by simp
  then show "t = char_of n" by simp
qed (use that in \<open>simp add: of_char_of\<close>)

lemma digit_key: "48 \<le> (of_char t :: nat) \<and> (of_char t :: nat) \<le> 53 \<longleftrightarrow> t \<in> {CHR ''0'', CHR ''1'', CHR ''2'', CHR ''3'', CHR ''4'', CHR ''5''}"
proof -
  have "48 \<le> n \<and> n \<le> 53 \<longleftrightarrow> n = 48 \<or> n = 49 \<or> n = 50 \<or> n = 51 \<or> n = 52 \<or> n = 53" for n :: nat by auto
  moreover have "char_of (48::nat) = CHR ''0''" "char_of (49::nat) = CHR ''1''" "char_of (50::nat) = CHR ''2''" "char_of (51::nat) = CHR ''3''"
    "char_of (52::nat) = CHR ''4''" "char_of (53::nat) = CHR ''5''"
    by code_simp+
  ultimately show ?thesis by (simp add: char_code)
qed

lemma key_type_eq: "key_type k = (if byte_char k \<in> menu_keys then byte_char k else CHR ''3'')"
proof -
  let ?t = "byte_char k"
  have "((of_char ?t :: nat) < of_char (CHR ''0'') \<or> (of_char (CHR ''5'') :: nat) < of_char ?t) \<longleftrightarrow> \<not> (48 \<le> (of_char ?t :: nat) \<and> (of_char ?t :: nat) \<le> 53)"
    by auto
  moreover have "?t \<in> menu_keys \<longleftrightarrow> ?t \<in> {CHR ''0'', CHR ''1'', CHR ''2'', CHR ''3'', CHR ''4'', CHR ''5''} \<or> ?t \<in> {CHR ''7'', CHR ''8'', CHR ''9'', CHR ''b'', CHR ''m'', CHR ''c''}"
    unfolding menu_keys_def by blast
  ultimately show ?thesis
    unfolding key_type_def Let_def byte_char_def [symmetric] digit_key by (simp only: de_Morgan_disj [symmetric] if_not_P split: if_split) metis
qed

text \<open>The count-down waits and chooses right: with no key for its 100 polls a second it ends with the type of boot it began with; a key that is
  ready at an earlier poll ends it at once, and is the choice when it is one of the menu's keys, and choice 3 (boot from the flash) otherwise.\<close>

theorem count_down_chooses:
  assumes "quiet b i cs"
  shows "(i = 100 * t \<longrightarrow> count_down b t bt (cs 0) = Some (bt, cs i)) \<and>
    (i < 100 * t \<and> key_at b (cs i) k c' \<longrightarrow> count_down b t bt (cs 0) = Some (if byte_char k \<in> menu_keys then byte_char k else CHR ''3'', c'))"
  using assms count_down_quiet [of b t cs bt] count_down_key [of b i cs t k c' bt] by (auto simp: key_type_eq)

subsection \<open>Booting undisturbed\<close>

context nor_chip
begin

lemma select_type_default:
  assumes "b_ops b = ops" "b_pin b 0" "map (cells (nor s)) [0x40004..<0x4000a] \<noteq> mfg_mac"
  shows "\<exists>f r. select_type b t s = Some (CHR ''3'', t, s\<lparr>nor := f, ram := r\<rparr>) \<and> cells f = cells (nor s)"
proof -
  let ?bs = "map (cells (nor s)) [0x40004..<0x4000a]"
  obtain f where f: "raspi_read ops (nor s) 0x40004 6 = (f, ?bs, 6)" "cells f = cells (nor s)"
    using raspi_read_cells [of "nor s" "0x40004" 6] by auto
  let ?r = "ram_copy CFG_LOAD_ADDR (\<lambda>i. ?bs ! i) (of_nat (length ?bs)) (ram s)"
  have "ram_bytes ?r CFG_LOAD_ADDR 6 = ?bs"
    by (rule nth_equalityI) (auto simp: nth_ram_bytes ram_copy_def word_less_nat_alt unat_u32_of_nat simp del: upt_rec_numeral)
  then have "select_type b t s = Some (CHR ''3'', t, s\<lparr>nor := f, ram := ?r\<rparr>)"
    using assms by (simp add: select_type_def f(1) Let_def del: upt_rec_numeral)
  with f(2) show ?thesis by blast
qed

end

lemma kern_addr_text: "kern_addr_text = Some ''0xBC050000''"
proof -
  have "CFG_KERN_ADDR = 0xBC050000" by (simp add: CFG_KERN_ADDR_def CFG_FLASH_BASE_def CFG_KERN_OFFSET_def)
  moreover have "number 0xBC050000 16 (- 1) (- 1) LARGE = Some ''BC050000''"
    using number_plain [of 16 LARGE "0xBC050000"] by (simp add: num_digits.simps [of _ 16] upper_digits_def)
  ultimately show ?thesis by (simp add: kern_addr_text_def sprintf1_def vsprintf_def conv_spec_eval)
qed

lemma kern_boot_addr: "boot_addr [[], ''0xBC050000''] s = CFG_KERN_ADDR"
proof -
  have "fst (simple_strtoul ''0xBC050000'' 16) = 0xBC050000" by code_simp
  then show ?thesis by (simp add: boot_addr_def CFG_KERN_ADDR_def CFG_FLASH_BASE_def CFG_KERN_OFFSET_def)
qed

lemma image_bytes_flash: "image_bytes c r CFG_KERN_ADDR k n = map c [CFG_KERN_OFFSET + k..<CFG_KERN_OFFSET + k + n]"
  by (simp add: image_bytes_def CFG_KERN_ADDR_def CFG_FLASH_BASE_def CFG_KERN_OFFSET_def)

text \<open>C3: Left alone, the board boots: with the button not pressed, no key during the boot delay, a MAC address in the flash that is not the
  factory one, and at \<open>CFG_KERN_ADDR\<close> an uncompressed kernel image with right checksums whose place in memory keeps clear of the parameter
  area, the boot menu ends in that kernel at its entry point, loaded at its load address, with the words of \<open>bootargs\<close> and the environment in the
  parameter area.\<close>

theorem board_boots_undisturbed:
  fixes s :: "('w, 'f) menu_state"
  assumes chip: "nor_chip (b_ops b) cells wel prot ss" and wf: "crc_wf (crc_st s)"
    and env: "getenv s ''verify'' = Some v" "getenv s ''bootargs'' = Some cl" "bootdelay s = Some t"
    and idle: "b_pin b 0" "quiet b (100 * nat t) cs" "cs 0 = con s" "map (cells (nor s)) [0x40004..<0x4000a] \<noteq> mfg_mac"
  defines "img \<equiv> \<lambda>k n. map (cells (nor s)) [CFG_KERN_OFFSET + k..<CFG_KERN_OFFSET + k + n]"
  defines "h \<equiv> header_of_bytes (img 0 sizeof_header)"
  defines "n \<equiv> unat (ntohl (ih_size h))"
  defines "load \<equiv> ntohl (ih_load h)"
  defines "p \<equiv> unat (UNCACHED_SDRAM (bi_boot_params s))"
  defines "lim \<equiv> p + 0x1000 + length (line_of cl)"
  assumes image: "valid_header h" "verify_of v \<longrightarrow> crc_val (img sizeof_header n) = ntohl (ih_dcrc h)"
    "ih_arch h = IH_CPU_MIPS" "ih_type h = IH_TYPE_KERNEL" "ih_comp h = IH_COMP_NONE" "load \<noteq> CFG_KERN_ADDR"
    "lim \<le> DRAM_END" "\<forall>i<n. \<forall>j. p \<le> j \<longrightarrow> j < lim \<longrightarrow> load + of_nat i \<noteq> seg j"
  shows "\<exists>s'. board_menu b s =
      Some (s', Booted (Started_kernel (ntohl (ih_ep h)) (int (1 + length (boot_words cl))) (seg p) (seg (args_end p (boot_words cl))))) \<and>
    ram_bytes (ram s') load n = img sizeof_header n \<and> kernel_memory seg p (boot_words cl) (kernel_env s 0 0) (dram (ram s'))"
proof -
  obtain f r where sel: "select_type b t s = Some (CHR ''3'', t, s\<lparr>nor := f, ram := r\<rparr>)" "cells f = cells (nor s)"
    using nor_chip.select_type_default [OF chip, of b s t] idle(1, 4) by blast
  define s1 where "s1 = s\<lparr>nor := f, ram := r\<rparr>\<lparr>con := cs (100 * nat t)\<rparr>"
  have "board_menu b s = menu_3 b s1"
    using env(3) sel(1) count_down_quiet [OF idle(2), of "CHR ''3''"] idle(3) by (simp add: board_menu_def s1_def menu_switch_def)
  moreover have "env_block s1 = env_block s" by (simp add: s1_def env_block_def)
  then have g: "getenv s1 x = getenv s x" for x by (rule getenv_block)
  have e: "crc_st s1 = crc_st s" "bi_boot_params s1 = bi_boot_params s" "kernel_env s1 0 0 = kernel_env s 0 0" "cells (nor s1) = cells (nor s)"
    using sel(2) by (simp_all add: s1_def kernel_env_def)
  have "CFG_KERN_ADDR \<notin> set jump_addrs" by (simp add: jump_addrs_def CFG_KERN_ADDR_def CFG_FLASH_BASE_def CFG_KERN_OFFSET_def)
  then have "\<exists>s'. do_bootm (b_ops b) (b_lzma b) [[], ''0xBC050000''] s1 =
      Some (s', Started_kernel (ntohl (ih_ep h)) (int (1 + length (boot_words cl))) (seg p) (seg (args_end p (boot_words cl)))) \<and>
    ram_bytes (ram s') load n = img sizeof_header n \<and> kernel_memory seg p (boot_words cl) (kernel_env s 0 0) (dram (ram s'))"
    using nor_chip.bootm_kernel [OF chip, of s1 v cl "[[], ''0xBC050000'']" CFG_KERN_ADDR "b_lzma b"] wf env(1, 2) image
    unfolding g e image_bytes_flash lim_def load_def n_def h_def img_def p_def by (simp add: kern_boot_addr)
  ultimately show ?thesis by (auto simp: menu_3_def kern_addr_text)
qed

subsection \<open>A board left alone\<close>

definition demo_console :: "unit console_state" where
  "demo_console = \<lparr>devlist = None, stdio_devices = [None, None, None], jt = (\<lambda>_. 0), gd_flags = 0, have_console = True, ctrlc_disabled = 0,
     ctrlc_was_pressed = 0, world = ()\<rparr>"

definition menu_on :: "'w console_state \<Rightarrow> ('w, nor) menu_state" where
  "menu_on cs =
     \<lparr>hdr_crc = hdr_crc demo_boot, env_data = env_data demo_boot, default_env = default_env demo_boot, env_valid = env_valid demo_boot,
      gd_baudrate = gd_baudrate demo_boot, bi_enetaddr = bi_enetaddr demo_boot, bi_ip_addr = bi_ip_addr demo_boot, load_addr = load_addr demo_boot,
      BootFile = BootFile demo_boot, crc_st = crc_st demo_boot, con = cs, NetOurIP = NetOurIP demo_boot,
      NetServerIP = NetServerIP demo_boot, NetOurGatewayIP = NetOurGatewayIP demo_boot, NetOurSubnetMask = NetOurSubnetMask demo_boot,
      NetOurDNSIP = NetOurDNSIP demo_boot, NetOurNISDomain = NetOurNISDomain demo_boot, NetOurHostName = NetOurHostName demo_boot,
      NetOurRootPath = NetOurRootPath demo_boot, NetOurEther = NetOurEther demo_boot, NetServerEther = NetServerEther demo_boot,
      NetBcastAddr = NetBcastAddr demo_boot, NetBootFileXferSize = NetBootFileXferSize demo_boot, NetIPID = NetIPID demo_boot,
      NetState = NetState demo_boot, NetTxPacket = NetTxPacket demo_boot, NetArpWaitTxPacket = NetArpWaitTxPacket demo_boot,
      NetArpWaitTxPacketSize = NetArpWaitTxPacketSize demo_boot, NetArpWaitPacketIP = NetArpWaitPacketIP demo_boot,
      NetArpWaitReplyIP = NetArpWaitReplyIP demo_boot, NetArpWaitPacketMAC = NetArpWaitPacketMAC demo_boot,
      NetArpWaitTimerStart = NetArpWaitTimerStart demo_boot, NetArpWaitTry = NetArpWaitTry demo_boot, packetHandler = packetHandler demo_boot,
      timeHandler = timeHandler demo_boot, timeStart = timeStart demo_boot, timeDelta = timeDelta demo_boot, ram = ram demo_boot,
      eth_log = eth_log demo_boot, timer_reads = timer_reads demo_boot, TftpServerPort = TftpServerPort demo_boot,
      TftpOurPort = TftpOurPort demo_boot, TftpTimeoutCount = TftpTimeoutCount demo_boot, TftpBlock = TftpBlock demo_boot,
      TftpLastBlock = TftpLastBlock demo_boot, TftpBlockWrap = TftpBlockWrap demo_boot, TftpBlockWrapOffset = TftpBlockWrapOffset demo_boot,
      TftpState = TftpState demo_boot, TftpStarted = TftpStarted demo_boot, default_filename = default_filename demo_boot,
      tftp_filename = tftp_filename demo_boot, header = header demo_boot, nor = nor demo_boot, ram_size = ram_size demo_boot,
      bi_boot_params = bi_boot_params demo_boot, bi_flashstart = bi_flashstart demo_boot, bi_flashsize = bi_flashsize demo_boot, modifies = 0,
      console_buffer = replicate 256 NUL, boot_end = None, fault = False, fat = no_device\<rparr>"

definition demo_menu :: "(unit, nor) menu_state" where "demo_menu = menu_on demo_console"

definition board_on :: "'w dev_calls \<Rightarrow> serial_drv \<Rightarrow> ('w \<Rightarrow> 'w) \<Rightarrow> ('w, nor) board" where
  "board_on calls drv setbrg =
     \<lparr>b_clk = (\<lambda>_. 0), b_bufs = True, b_init = 0, b_net = [],
      b_calls = calls, b_drv = drv, b_ops = nor_device 0x10000,
      b_chip = \<lparr>sector_size = 0x10000, n_sectors = 256, addr4b = False\<rparr>, b_malloc = True, b_check = True, b_lzma = (\<lambda>_ _ _ r. (r, 1)), b_pin = (\<lambda>_. True),
      b_usb = True, b_stor = (\<lambda>_. stick_dev), b_fresh = zeros, b_setbrg = setbrg\<rparr>"

definition demo_board :: "(unit, nor) board" where
  "demo_board =
     board_on \<lparr>call_start = (\<lambda>_ w. (0, w)), call_putc = (\<lambda>_ _ w. w), call_puts = (\<lambda>_ _ w. w), call_getc = (\<lambda>_ w. (0, w)), call_tstc = (\<lambda>_ w. (0, w))\<rparr>
       \<lparr>serial_putc = 1, serial_puts = 2, serial_getc = 3, serial_tstc = 4, serial_printf = 5, printf_fn = 6\<rparr> id"

lemmas demo_menu_defs = demo_menu_def menu_on_def

lemmas demo_board_defs = demo_board_def board_on_def

lemma demo_menu_fields:
  "nor demo_menu = nor demo_boot" "crc_st demo_menu = crc_st demo_boot" "con demo_menu = demo_console" "bi_boot_params demo_menu = 0x83f80000"
  "env_block demo_menu = env_block demo_boot" "kernel_env demo_menu 0 0 = kernel_env demo_boot 0 0"
  by (simp_all add: demo_menu_defs env_block_def kernel_env_def demo_boot_fields)

lemma demo_menu_vars: "getenv demo_menu n = getenv demo_boot n"
  using demo_menu_fields(5) by (simp add: getenv_def)

lemma demo_bootdelay: "bootdelay demo_menu = Some 3"
proof -
  have "getenv demo_boot ''bootdelay'' = Some None"
    using getenv_lookup [OF demo_boot_env, of "''bootdelay''"] by (simp add: name_ok_def NUL_def lookup_def var_name_def var_value_def)
  then show ?thesis by (simp add: bootdelay_def demo_menu_vars CONFIG_BOOTDELAY_def)
qed

lemma demo_quiet: "quiet demo_board n (\<lambda>_. demo_console)"
  by (simp add: quiet_def con_tstc_def demo_board_defs demo_console_def)

lemma demo_flash_image:
  "map demo_cells [CFG_KERN_OFFSET + 0..<CFG_KERN_OFFSET + 0 + sizeof_header] = header_bytes (demo_header\<lparr>ih_hcrc := ntohl (crc_val (header_bytes demo_header))\<rparr>)"
  "map demo_cells [CFG_KERN_OFFSET + sizeof_header..<CFG_KERN_OFFSET + sizeof_header + 4] = [1, 2, 3, 4]"
proof -
  have a: "CFG_KERN_ADDR = 0xbc050000" by (simp add: CFG_KERN_ADDR_def CFG_FLASH_BASE_def CFG_KERN_OFFSET_def)
  show "map demo_cells [CFG_KERN_OFFSET + 0..<CFG_KERN_OFFSET + 0 + sizeof_header] = header_bytes (demo_header\<lparr>ih_hcrc := ntohl (crc_val (header_bytes demo_header))\<rparr>)"
    "map demo_cells [CFG_KERN_OFFSET + sizeof_header..<CFG_KERN_OFFSET + sizeof_header + 4] = [1, 2, 3, 4]"
    using demo_boot_image unfolding a [symmetric] image_bytes_flash by blast+
qed

lemma demo_not_mfg: "map demo_cells [0x40004..<0x4000a] \<noteq> mfg_mac"
proof -
  have "map demo_cells [0x40004..<0x4000a] ! 0 = 0xff" by (simp add: demo_cells_def)
  moreover have "mfg_mac ! 0 = 0" by (simp add: mfg_mac_def)
  moreover have "(0xff :: u8) \<noteq> 0" by simp
  ultimately show ?thesis by metis
qed

theorem count_down_chooses_witness: "count_down demo_board 3 (CHR ''3'') demo_console = Some (CHR ''3'', demo_console)"
  using count_down_chooses [OF demo_quiet [of 300], of 3 "CHR ''3''"] by simp

theorem board_boots_undisturbed_witness:
  "\<exists>s'. board_menu demo_board demo_menu = Some (s', Booted (Started_kernel 0x80000400 3 0x83f80000 0x83f80430)) \<and>
    ram_bytes (ram s') 0x80000000 4 = [1, 2, 3, 4] \<and>
    kernel_memory seg 0x3f80000 [''console=ttyS1'', ''root=/dev/mtdblock5'']
      [''memsize=64'', ''initrd_start=0x00000000'', ''initrd_size=0x0'', ''flash_start=0xBC000000'', ''flash_size=0x1000000''] (dram (ram s'))"
proof -
  have o: "b_ops demo_board = nor_device 0x10000" "b_pin demo_board 0" by (simp_all add: demo_board_defs)
  have c: "nor_chip (b_ops demo_board) nor_cells nor_wel nor_prot 0x10000" "crc_wf (crc_st demo_menu)" "getenv demo_menu ''verify'' = Some None"
    "getenv demo_menu ''bootargs'' = Some (Some ''console=ttyS1 root=/dev/mtdblock5'')" "map (nor_cells (nor demo_menu)) [0x40004..<0x4000a] \<noteq> mfg_mac"
    using nor_device_chip demo_boot_vars demo_not_mfg
    by (simp_all add: o demo_menu_fields demo_menu_vars demo_boot_fields del: upt_rec_numeral)
  have k: "0x80000000 \<noteq> CFG_KERN_ADDR" by (simp add: CFG_KERN_ADDR_def CFG_FLASH_BASE_def CFG_KERN_OFFSET_def)
  note b = board_boots_undisturbed [OF c(1-4) demo_bootdelay o(2) demo_quiet demo_menu_fields(3) [symmetric] c(5),
    unfolded demo_menu_fields demo_boot_fields nor.simps demo_flash_image(1) demo_eval]
  show ?thesis using b demo_holds(1, 3) demo_flash_image(2) k by (simp add: line_of_def DRAM_END_def)
qed

end
