(* ===== verification/MenuFlash.thy ===== *)
theory MenuFlash
  imports MenuBoot
begin

text \<open>
  What the menu writes to the flash, among it what choice 2 writes after a transfer that failed. The choices that read a file of the USB storage leave an
  array before they do.
\<close>

subsection \<open>The variables of a load\<close>

lemma menu_names: "uncached ''autostart''" "uncached ''filesize''"
  by (simp_all add: uncached_def plain_name_def name_ok_def NUL_def)

lemma outside_env_menu:
  fixes s s' :: "('w, 'f) menu_state"
  assumes "outside_env s' = outside_env s"
  shows "nor s' = nor s" "ram s' = ram s" "con s' = con s" "fat s' = fat s"
  using arg_cong [OF assms, of nor] arg_cong [OF assms, of ram] arg_cong [OF assms, of con] arg_cong [OF assms, of fat] by (simp_all add: outside_env_def)

lemma env_ok_ram: "env_ok (s\<lparr>ram := r\<rparr>) vs \<longleftrightarrow> env_ok s vs" by (simp add: env_ok_def)

lemma load_addr_text: "sprintf1 ''0x%X'' CFG_LOAD_ADDR = Some ''0x80100000''" "fst (simple_strtoul ''0x80100000'' 16) = CFG_LOAD_ADDR"
proof -
  have "number 0x80100000 16 (- 1) (- 1) LARGE = Some ''80100000''"
    using number_plain [of 16 LARGE "0x80100000"] by (simp add: num_digits.simps [of _ 16] upper_digits_def)
  then show "sprintf1 ''0x%X'' CFG_LOAD_ADDR = Some ''0x80100000''" by (simp add: sprintf1_def vsprintf_def conv_spec_eval CFG_LOAD_ADDR_def)
  show "fst (simple_strtoul ''0x80100000'' 16) = CFG_LOAD_ADDR" unfolding CFG_LOAD_ADDR_def by code_simp
qed

text \<open>With a storage found, choices 5, c and b store a fifth entry into \<open>argv\<close>, which has four.\<close>

theorem usb_choices_overrun:
  assumes "b_usb b" "c \<in> {CHR ''5'', CHR ''c'', CHR ''b''}"
  shows "menu_switch b c s = None"
  using assms by (auto simp: menu_switch_def menu_5_def menu_c_def menu_b_def usb_load_def put_arg_def load_addr_text)

subsection \<open>What is written\<close>

lemma bind_as_case: "Option.bind x f = (case x of None \<Rightarrow> None | Some y \<Rightarrow> f y)" by (cases x) auto

definition flash_capacity :: "chip_info \<Rightarrow> nat" where "flash_capacity ci = sector_size ci * n_sectors ci"

definition reserved :: nat where "reserved = CFG_BOOTLOADER_SIZE + CFG_CONFIG_SIZE + CFG_FACTORY_SIZE"

context nor_chip
begin

lemma write_flash_cells:
  fixes s :: "('w, 'f) menu_state"
  assumes "b_ops b = ops" "sector_size (b_chip b) = ssize" "0 < ssize" "\<not> prot (nor s)" "b_malloc b" "ram_bytes (ram s) addr (unat (NetBootFileXferSize s)) = bs"
    and "offs \<le> reserved"
  shows "\<exists>f. write_flash b addr offs s = Some (s\<lparr>nor := f\<rparr>) \<and>
    cells f = (if length bs + reserved \<le> flash_capacity (b_chip b) then set_cells (cells (nor s)) offs bs else cells (nor s))"
proof (cases "length bs + reserved \<le> flash_capacity (b_chip b)")
  case True
  then have room: "\<not> int (length bs) > int (sector_size (b_chip b) * n_sectors (b_chip b)) - int (CFG_BOOTLOADER_SIZE + CFG_CONFIG_SIZE + CFG_FACTORY_SIZE)"
    unfolding flash_capacity_def reserved_def by linarith
  have "offs + length bs \<le> ssize * n_sectors (b_chip b)" using True assms(2, 7) by (simp add: flash_capacity_def)
  then obtain f where "erase_write_loop ops (b_chip b) True (b_check b) (nor s) bs offs = Some (f, 0)" "cells f = set_cells (cells (nor s)) offs bs"
    using erase_write_loop_cells [OF assms(2, 3, 4), of offs bs "b_check b"] by auto
  then show ?thesis using True room assms(1, 5, 6) by (intro exI [of _ f]) (simp add: write_flash_def raspi_erase_write_def)
next
  case False
  then have "int (length bs) > int (sector_size (b_chip b) * n_sectors (b_chip b)) - int (CFG_BOOTLOADER_SIZE + CFG_CONFIG_SIZE + CFG_FACTORY_SIZE)"
    unfolding flash_capacity_def reserved_def by linarith
  then show ?thesis using False assms(1, 6) by (intro exI [of _ "nor s"]) (simp add: write_flash_def raspi_erase_write_def)
qed

end

lemma demo_menu_env: "env_ok demo_menu [''bootargs=console=ttyS1 root=/dev/mtdblock5'']"
  using demo_boot_env by (simp add: env_ok_def demo_menu_defs)

subsection \<open>A transfer that fails\<close>

text \<open>C37: Choice 2 writes to the flash what a failed transfer left: when \<open>do_tftpb\<close> reports an error, and started nothing, the bytes at the load address, as many as
  \<open>NetBootFileXferSize\<close> says (a part of the file, or the length and the memory of an earlier command), still replace the system in the flash, and
  \<open>bootm\<close> is run on the result.\<close>

theorem failed_transfer_is_flashed:
  fixes s :: "('w, 'f) menu_state"
  assumes "nor_chip (b_ops b) cells wel prot ss" "sector_size (b_chip b) = ss" "0 < ss" "b_malloc b" "set_var b ''autostart'' ''no'' s = Some s1"
    and "do_tftpb (b_clk b) (b_env b) (b_bufs b) (b_init b) (b_net b) (modifies s1 > 0) (menu_saveenv b) (menu_bootm b) ([] # args)
      (s1\<lparr>boot_end := None, fault := False\<rparr>) = Some (Inl (s2, 1))" "\<not> fault s2" "boot_end s2 = None" "\<not> prot (nor s2)"
  defines "bs \<equiv> ram_bytes (ram s2) (fst (simple_strtoul (hd args) 16)) (unat (NetBootFileXferSize s2))"
  assumes "length bs + 0x50000 \<le> flash_capacity (b_chip b)"
  shows "\<exists>f. linux_to_flash b args s = bootm_then b [''0xBC050000''] reset_board (s2\<lparr>nor := f\<rparr>) \<and>
    (\<forall>x. cells f x = (if 0x50000 \<le> x \<and> x < 0x50000 + length bs then bs ! (x - 0x50000) else cells (nor s2) x))"
proof -
  have r: "reserved = 0x50000" by (simp add: reserved_def CFG_BOOTLOADER_SIZE_def CFG_CONFIG_SIZE_def CFG_FACTORY_SIZE_def)
  have t: "run_tftp b ([] # args) s1 = Some (Inr s2)" using assms(6-8) by (simp add: run_tftp_def)
  obtain f where f: "write_flash b (fst (simple_strtoul (hd args) 16)) CFG_KERN_OFFSET s2 = Some (s2\<lparr>nor := f\<rparr>)"
    "cells f = set_cells (cells (nor s2)) CFG_KERN_OFFSET bs"
    using nor_chip.write_flash_cells [OF assms(1) refl assms(2, 3, 9, 4), of "fst (simple_strtoul (hd args) 16)" bs CFG_KERN_OFFSET] assms(11)
    by (auto simp: bs_def r CFG_KERN_OFFSET_def)
  have "linux_to_flash b args s = bootm_then b [''0xBC050000''] reset_board (s2\<lparr>nor := f\<rparr>)"
    using assms(5) t f(1) by (simp add: linux_to_flash_def tftp_then_def kern_addr_text)
  then show ?thesis using f(2) by (auto simp: set_cells_def CFG_KERN_OFFSET_def)
qed

definition stale_board :: "(unit, nor) board" where "stale_board = demo_board\<lparr>b_bufs := False\<rparr>"

definition stale_menu :: "(unit, nor) menu_state" where "stale_menu = demo_menu\<lparr>NetBootFileXferSize := 3\<rparr>"

lemma demo_menu_ram: "ram demo_menu a = 0"
proof -
  have "ram demo_menu = ram demo_boot" by (simp add: demo_menu_defs)
  then show ?thesis by (simp add: demo_boot_defs)
qed

theorem failed_transfer_is_flashed_witness:
  "\<exists>s2 f. linux_to_flash stale_board [''0x80100000'', ''uImage''] stale_menu = bootm_then stale_board [''0xBC050000''] reset_board (s2\<lparr>nor := f\<rparr>) \<and>
    nor_cells f 0x50000 = 0 \<and> nor_cells (nor stale_menu) 0x50000 = 0x27"
proof -
  have ok: "env_ok stale_menu [''bootargs=console=ttyS1 root=/dev/mtdblock5'']" using demo_menu_env by (simp add: env_ok_def stale_menu_def)
  have no: "value_ok ''no''" by (simp add: value_ok_def NUL_def)
  obtain s1 where s1: "setenv (b_env stale_board) stale_menu ''autostart'' (Some ''no'') = Some s1" "outside_env s1 = outside_env stale_menu"
    "getenv s1 ''loadaddr'' = getenv stale_menu ''loadaddr''"
    using setenv_short [OF ok menu_names(1) no, of "b_env stale_board"] by (auto simp: plain_name_def name_ok_def NUL_def ENV_SIZE_def CFG_ENV_SIZE_def)
  have la: "getenv stale_menu ''loadaddr'' = Some None"
    using getenv_lookup [OF ok, of "''loadaddr''"] by (simp add: name_ok_def NUL_def lookup_def var_name_def var_value_def)
  define s0 where "s0 = s1\<lparr>boot_end := None, fault := False\<rparr>"
  have g0: "getenv s0 ''loadaddr'' = Some None" using s1(3) la getenv_block [of s0 s1] by (simp add: s0_def env_block_def)
  define s2 where "s2 = s0\<lparr>load_addr := fst (simple_strtoul ''0x80100000'' 16), BootFile := copy_filename ''uImage'' 128\<rparr>
    \<lparr>NetArpWaitPacketMAC := None, NetArpWaitPacketIP := 0, NetArpWaitReplyIP := 0\<rparr>"
  have f: "nor s1 = nor stale_menu" "ram s1 = ram stale_menu" "NetBootFileXferSize s1 = 3"
    using outside_env_menu [OF s1(2)] outside_env_fields(1) [OF s1(2)] by (simp_all add: stale_menu_def)
  have t: "do_tftpb (b_clk stale_board) (b_env stale_board) (b_bufs stale_board) (b_init stale_board) (b_net stale_board) (modifies s1 > 0)
      (menu_saveenv stale_board) (menu_bootm stale_board) [[], ''0x80100000'', ''uImage''] (s1\<lparr>boot_end := None, fault := False\<rparr>) = Some (Inl (s2, 1))"
    unfolding s0_def [symmetric] by (simp add: do_tftpb_def netboot_common_def g0 netboot_args_def NetLoop_def stale_board_def s2_def Let_def)
  have c: "nor_chip (b_ops stale_board) nor_cells nor_wel nor_prot 0x10000" "sector_size (b_chip stale_board) = 0x10000" "b_malloc stale_board"
    "flash_capacity (b_chip stale_board) = 0x1000000"
    using nor_device_chip by (simp_all add: stale_board_def demo_board_defs flash_capacity_def)
  have s2: "nor s2 = nor demo_menu" "ram s2 = ram demo_menu" "NetBootFileXferSize s2 = 3" "\<not> fault s2" "boot_end s2 = None"
    using f by (simp_all add: s2_def s0_def stale_menu_def)
  have e: "\<not> nor_prot (nor s2)" "ram_bytes (ram s2) a (unat (NetBootFileXferSize s2)) = [0, 0, 0]" for a
    by (simp_all add: s2 demo_menu_fields demo_boot_fields demo_menu_ram ram_bytes_def upt_rec)
  have "nor_cells (nor stale_menu) 0x50000 = 0x27"
    by (simp add: stale_menu_def demo_menu_fields demo_boot_fields demo_cells_def demo_image_def header_bytes_def demo_header_def le32_def ntohl_def
      byte_swap32_def IH_MAGIC_def)
  moreover have "set_var stale_board ''autostart'' ''no'' stale_menu = Some s1" using s1(1) by (simp add: set_var_def)
  ultimately show ?thesis
    using failed_transfer_is_flashed [OF c(1, 2) _ c(3) _ t s2(4, 5) e(1), unfolded e(2) c(4)] by fastforce
qed

end
