(* ===== verification/KermitSpec.thy ===== *)
theory KermitSpec
  imports Kermit
begin

text \<open>
  The receiver against an abstract one. A packet on the line is an event; the abstract receiver keeps the data decoded so far, the data
  before the last packet, and the last sequence number. The locale \<open>kermit_line\<close> is what the receiver relies on of the console.
\<close>

subsection \<open>The line\<close>

locale kermit_line =
  fixes calls :: "'w dev_calls" and drv :: serial_drv and ok :: "'w console_state \<Rightarrow> bool" and inp :: "'w console_state \<Rightarrow> u8 list"
  assumes line_getc: "ok cs \<Longrightarrow> inp cs = c # r \<Longrightarrow> \<exists>cs'. con_getc calls drv cs = Some (uint c, cs') \<and> ok cs' \<and> inp cs' = r"
    and line_putc: "ok cs \<Longrightarrow> \<exists>cs'. con_putc calls drv x cs = Some cs' \<and> ok cs' \<and> inp cs' = inp cs"
    and line_tstc: "ok cs \<Longrightarrow> \<exists>t cs'. con_tstc calls drv cs = Some (t, cs') \<and> ok cs' \<and> inp cs' = inp cs \<and> (t \<noteq> 0 \<longrightarrow> inp cs \<noteq> [])"

lemma uint_of_char_u8: "uint (of_char c :: u8) = of_char c"
proof -
  have "uint (of_nat (of_char c) :: u8) = int (of_char c)"
    using nat_of_char_less_256 [of c] by (simp add: unsigned_of_nat take_bit_nat_eq_self uint_nat del: of_nat_of_char)
  then show ?thesis by (simp add: of_nat_of_char)
qed

lemma serial_tstc_call:
  assumes "on_serial drv cs"
  shows "con_tstc calls drv cs = Some (case call_tstc calls (serial_tstc drv) (world cs) of (c, w) \<Rightarrow> (c, cs\<lparr>world := w\<rparr>))"
  using assms serial_stdio_dev [of cs _ drv 0]
  by (auto simp: on_serial_def con_tstc_def ftstc_def serial_console_def MAX_FILES_def serial_dev_def split: prod.splits)

context uart_line
begin

lemma tstc_polls:
  assumes "uart_tstc io u = (t, u')"
  shows "pending u' = pending u \<and> (t \<noteq> 0 \<longrightarrow> pending u \<noteq> [])"
proof -
  obtain v where r: "reg_read io (LSR CFG_RT2880_CONSOLE) u = (v, u')" "t = sint (v AND LSR_DR)"
    using assms by (auto simp: uart_tstc_def split: prod.splits)
  obtain b u2 where "reg_read io (RBR CFG_RT2880_CONSOLE) u' = (b, u2)" by fastforce
  then have "v AND LSR_DR \<noteq> 0 \<Longrightarrow> pending u' \<noteq> []" using rbr [OF r(1)] by fastforce
  then show ?thesis using lsr [OF r(1)] r(2) by (cases "v AND LSR_DR = 0") auto
qed

end

sublocale uart_line < kermit: kermit_line "serial_calls io drv" drv "on_serial drv" "\<lambda>cs. map of_char (pending (world cs))" for drv
proof
  fix cs :: "'u console_state" and c r assume cs: "on_serial drv cs" "map of_char (pending (world cs)) = (c :: u8) # r"
  then obtain d t where d: "pending (world cs) = d # t" "of_char d = c" "map of_char t = r" by auto
  show "\<exists>cs'. con_getc (serial_calls io drv) drv cs = Some (uint c, cs') \<and> on_serial drv cs' \<and> map of_char (pending (world cs')) = r"
    using line.getc_takes [OF cs(1) d(1)] cs(1) d(2, 3) uint_of_char_u8 [of d] by (auto dest: same_con_serial [of _ _ drv])
next
  fix cs :: "'u console_state" and x assume cs: "on_serial drv cs"
  show "\<exists>cs'. con_putc (serial_calls io drv) drv x cs = Some cs' \<and> on_serial drv cs' \<and> (map of_char (pending (world cs')) :: u8 list) = map of_char (pending (world cs))"
    using line.putc_emits [OF cs, of x] same_con_serial [OF emits_same] cs by (fastforce simp: emits_def)
next
  fix cs :: "'u console_state" assume cs: "on_serial drv cs"
  show "\<exists>t cs'. con_tstc (serial_calls io drv) drv cs = Some (t, cs') \<and> on_serial drv cs' \<and>
      (map of_char (pending (world cs')) :: u8 list) = map of_char (pending (world cs)) \<and> (t \<noteq> 0 \<longrightarrow> (map of_char (pending (world cs)) :: u8 list) \<noteq> [])"
    using tstc_polls [of "world cs"] cs by (auto simp: serial_tstc_call [OF cs] serial_calls_def split: prod.split)
qed

subsection \<open>The abstract receiver\<close>

type_synonym kdata = "bool \<times> u8 list"

definition kdec :: "kdata \<Rightarrow> u8 \<Rightarrow> kdata" where
  "kdec d c = (if fst d then (False, snd d @ [ktrans c]) else if c = K_ESCAPE then (True, snd d) else (False, snd d @ [c]))"

text \<open>A packet as it arrives: the characters before it, sequence number, type, data and check character.\<close>

record kpkt =
  p_noise :: "u8 list"
  p_seq :: nat
  p_type :: u8
  p_data :: "u8 list"
  p_check :: u8

definition pkt_body :: "kpkt \<Rightarrow> u8 list" where
  "pkt_body p = [tochar (int (length (p_data p)) + 3), tochar (int (p_seq p)), p_type p] @ p_data p"

definition pkt_sum :: "kpkt \<Rightarrow> u8" where "pkt_sum p = tochar (fold_sum (sum_list (map uint (pkt_body p))))"

definition pkt_good :: "kpkt \<Rightarrow> bool" where "pkt_good p \<longleftrightarrow> p_check p = pkt_sum p"

definition pkt_text :: "kpkt \<Rightarrow> u8 list" where "pkt_text p = p_noise p @ START_CHAR # pkt_body p @ [p_check p, END_CHAR]"

definition noise :: "u8 list \<Rightarrow> bool" where "noise js \<longleftrightarrow> START_CHAR \<notin> set js \<and> ETX_CHAR \<notin> set js"

definition pkt_plain :: "kpkt \<Rightarrow> bool" where
  "pkt_plain p \<longleftrightarrow> p_seq p < 64 \<and> length (p_data p) \<le> 91 \<and> \<not> control (p_type p) \<and> list_all (\<lambda>c. \<not> control c) (p_data p) \<and> \<not> control (p_check p) \<and> noise (p_noise p)"

record kabs =
  a_last :: int
  a_cur :: kdata
  a_sav :: kdata

definition kseq :: "nat \<Rightarrow> kabs \<Rightarrow> kabs" where
  "kseq n a = (if int n = a_last a then a\<lparr>a_cur := a_sav a\<rparr> else a\<lparr>a_last := int n, a_sav := a_cur a\<rparr>)"

definition kput :: "kpkt \<Rightarrow> kdata \<Rightarrow> kdata" where "kput p d = (if p_type p = DATA_TYPE then foldl kdec d (p_data p) else d)"

definition kstep :: "kabs \<Rightarrow> kpkt \<Rightarrow> kabs" where
  "kstep a p = (let a = kseq (p_seq p) a in if pkt_good p then a\<lparr>a_cur := kput p (a_cur a)\<rparr> else a\<lparr>a_cur := a_sav a\<rparr>)"

definition kinit :: kabs where "kinit = \<lparr>a_last = - 1, a_cur = (False, []), a_sav = (False, [])\<rparr>"

text \<open>A packet that announces parameters keeps the quote character, and does not fill the array.\<close>

definition parms_ok :: "kpkt \<Rightarrow> bool" where
  "parms_ok p \<longleftrightarrow> p_type p = SEND_TYPE \<longrightarrow> length (p_data p) \<le> 18 \<and> (5 < length (p_data p) \<longrightarrow> p_data p ! 5 = K_ESCAPE)"

subsection \<open>Stored data\<close>

definition stored :: "(u32 \<Rightarrow> u8) \<Rightarrow> u32 \<Rightarrow> u8 list \<Rightarrow> bool" where
  "stored r a out \<longleftrightarrow> (\<forall>i<length out. r (a + of_nat i) = out ! i)"

definition krel :: "u32 \<Rightarrow> 'w kermit \<Rightarrow> kabs \<Rightarrow> bool" where
  "krel a k s \<longleftrightarrow>
     last_n k = a_last s \<and> his_quote k = K_ESCAPE \<and> length (send_parms k) = SEND_DATA_SIZE \<and>
     k_data_escape k = fst (a_cur s) \<and> os_data_addr k = a + of_nat (length (snd (a_cur s))) \<and> stored (k_ram k) a (snd (a_cur s)) \<and>
     k_data_escape_saved k = fst (a_sav s) \<and> os_data_addr_saved k = a + of_nat (length (snd (a_sav s))) \<and> stored (k_ram k) a (snd (a_sav s)) \<and>
     length (snd (a_sav s)) \<le> length (snd (a_cur s))"

definition kdata_eq :: "'w kermit \<Rightarrow> 'w kermit \<Rightarrow> bool" where
  "kdata_eq k k' \<longleftrightarrow>
     k_ram k = k_ram k' \<and> last_n k = last_n k' \<and> length (send_parms k) = length (send_parms k') \<and>
     os_data_addr k = os_data_addr k' \<and> os_data_addr_saved k = os_data_addr_saved k' \<and>
     k_data_escape k = k_data_escape k' \<and> k_data_escape_saved k = k_data_escape_saved k'"

lemma krel_data_eq: "krel a k s \<Longrightarrow> kdata_eq k' k \<Longrightarrow> his_quote k' = K_ESCAPE \<Longrightarrow> krel a k' s"
  by (simp add: krel_def kdata_eq_def)

lemma stored_update:
  assumes "stored r a out" "length out \<le> n" "n < 2 ^ 32"
  shows "stored (r(a + of_nat n := c)) a out"
proof -
  have "a + of_nat i \<noteq> a + (of_nat n :: u32)" if "i < length out" for i
    using of_nat_u32_inj [of i n] that assms(2, 3) by auto
  then show ?thesis using assms(1) by (simp add: stored_def)
qed

lemma stored_append: "stored r a out \<Longrightarrow> length out < 2 ^ 32 \<Longrightarrow> stored (r(a + of_nat (length out) := c)) a (out @ [c])"
  using stored_update [of r a out "length out" c] by (auto simp: stored_def nth_append less_Suc_eq)

lemma krel_data_char:
  assumes "krel a k s" "length (snd (a_cur s)) < 2 ^ 32"
  shows "krel a (k_data_char c k) (s\<lparr>a_cur := kdec (a_cur s) c\<rparr>)"
  using assms stored_update [of "k_ram k" a "snd (a_sav s)" "length (snd (a_cur s))"] stored_append [of "k_ram k" a "snd (a_cur s)"]
  by (auto simp: krel_def k_data_char_def kdec_def bin_data_char_def add.assoc)

lemma length_kdec: "length (snd (kdec d c)) \<le> Suc (length (snd d))" by (simp add: kdec_def)

lemma length_foldl_kdec: "length (snd (foldl kdec d cs)) \<le> length (snd d) + length cs"
proof (induction cs arbitrary: d)
  case (Cons c cs)
  from Cons [of "kdec d c"] show ?case using length_kdec [of d c] by simp
qed simp

text \<open>The state of the receiver after the data of a packet.\<close>

definition in_packet :: "kpkt \<Rightarrow> 'w kermit \<Rightarrow> 'w kermit" where
  "in_packet p k = foldl (\<lambda>k c. k_take c k) ((k_sequence (int (p_seq p)) k)\<lparr>k_state := p_type p\<rparr>) (p_data p)"

lemma krel_sequence: "krel a k s \<Longrightarrow> krel a ((k_sequence (int n) k)\<lparr>k_state := t\<rparr>) (kseq n s)"
  by (simp add: krel_def kseq_def k_sequence_def Let_def k_data_defs)

lemma krel_restore: "krel a k s \<Longrightarrow> krel a (k_data_restore (k\<lparr>k_state := t\<rparr>)) (s\<lparr>a_cur := a_sav s\<rparr>)"
  by (simp add: krel_def k_data_defs)

lemma take_data:
  assumes "krel a k s" "k_state k = DATA_TYPE" "length (snd (a_cur s)) + length ds < 2 ^ 32"
  shows "krel a (foldl (\<lambda>k c. k_take c k) k ds) (s\<lparr>a_cur := foldl kdec (a_cur s) ds\<rparr>)"
  using assms
proof (induction ds arbitrary: k s)
  case (Cons d ds)
  have "k_state (k_take d k) = DATA_TYPE" using Cons.prems(2) by (simp add: k_take_def k_data_char_def bin_data_char_def)
  moreover have "krel a (k_take d k) (s\<lparr>a_cur := kdec (a_cur s) d\<rparr>)"
    using krel_data_char [OF Cons.prems(1)] Cons.prems(2, 3) by (simp add: k_take_def)
  ultimately show ?case
    using Cons.IH [of "k_take d k" "s\<lparr>a_cur := kdec (a_cur s) d\<rparr>"] Cons.prems(3) length_kdec [of "a_cur s" d] by simp
qed simp

lemma take_parms_data:
  assumes "k_state k = SEND_TYPE" "send_ptr k + length ds \<le> 18" "length (send_parms k) = SEND_DATA_SIZE"
  shows "foldl (\<lambda>k c. k_take c k) k ds =
    k\<lparr>send_parms := take (send_ptr k) (send_parms k) @ ds @ drop (send_ptr k + length ds) (send_parms k), send_ptr := send_ptr k + length ds\<rparr>"
  using assms
proof (induction ds arbitrary: k)
  case (Cons d ds)
  have "k_take d k = k\<lparr>send_parms := (send_parms k)[send_ptr k := d], send_ptr := send_ptr k + 1\<rparr>"
    using Cons.prems by (simp add: k_take_def SEND_DATA_SIZE_def SEND_TYPE_def DATA_TYPE_def)
  then show ?case using Cons.IH [of "k\<lparr>send_parms := (send_parms k)[send_ptr k := d], send_ptr := send_ptr k + 1\<rparr>"] Cons.prems
    by (simp add: SEND_DATA_SIZE_def take_Suc_conv_app_nth)
qed simp

lemma take_nothing: "k_state k \<noteq> DATA_TYPE \<Longrightarrow> k_state k \<noteq> SEND_TYPE \<Longrightarrow> foldl (\<lambda>k c. k_take c k) k ds = k"
  by (induction ds) (simp_all add: k_take_def)

lemma take_keeps:
  "k_state (foldl (\<lambda>k c. k_take c k) k ds) = k_state k \<and> k_n (foldl (\<lambda>k c. k_take c k) k ds) = k_n k"
  by (induction ds arbitrary: k) (simp_all add: k_take_def k_data_char_def bin_data_char_def)

lemma in_packet_state: "k_state (in_packet p k) = p_type p" by (simp add: in_packet_def take_keeps)

lemma krel_packet:
  assumes "krel a k s" "length (snd (a_cur s)) + length (p_data p) < 2 ^ 32" "send_ptr k = 0" "parms_ok p"
  shows "krel a (in_packet p k) ((kseq (p_seq p) s)\<lparr>a_cur := kput p (a_cur (kseq (p_seq p) s))\<rparr>)"
proof -
  let ?k = "(k_sequence (int (p_seq p)) k)\<lparr>k_state := p_type p\<rparr>" and ?s = "kseq (p_seq p) s"
  have r: "krel a ?k ?s" by (rule krel_sequence [OF assms(1)])
  have len: "length (snd (a_cur ?s)) + length (p_data p) < 2 ^ 32" using assms(1, 2) by (auto simp: kseq_def krel_def)
  have ptr: "send_ptr ?k = 0" using assms(3) by (simp add: k_sequence_def Let_def k_data_defs)
  consider "p_type p = DATA_TYPE" | "p_type p = SEND_TYPE" "p_type p \<noteq> DATA_TYPE" | "p_type p \<noteq> DATA_TYPE" "p_type p \<noteq> SEND_TYPE" by blast
  then show ?thesis
  proof cases
    case 1
    with take_data [OF r _ len] show ?thesis by (simp add: in_packet_def kput_def)
  next
    case 2
    have "length (send_parms ?k) = SEND_DATA_SIZE" using r by (simp add: krel_def)
    with take_parms_data [of ?k "p_data p"] 2 ptr assms(4) r show ?thesis
      by (simp add: in_packet_def kput_def parms_ok_def krel_def SEND_DATA_SIZE_def)
  next
    case 3
    with r show ?thesis by (simp add: in_packet_def kput_def take_nothing)
  qed
qed

lemma in_packet_parms:
  assumes "krel a k s" "send_ptr k = 0" "parms_ok p" "p_type p = SEND_TYPE"
  shows "send_ptr (in_packet p k) < 19" "5 < send_ptr (in_packet p k) \<longrightarrow> send_parms (in_packet p k) ! 5 = K_ESCAPE"
proof -
  let ?k = "(k_sequence (int (p_seq p)) k)\<lparr>k_state := p_type p\<rparr>"
  have ptr: "send_ptr ?k = 0" using assms(2) by (simp add: k_sequence_def Let_def k_data_defs)
  have "length (send_parms ?k) = SEND_DATA_SIZE" using krel_sequence [OF assms(1)] by (simp add: krel_def)
  then have e: "in_packet p k = ?k\<lparr>send_parms := p_data p @ drop (length (p_data p)) (send_parms ?k), send_ptr := length (p_data p)\<rparr>"
    using take_parms_data [of ?k "p_data p"] ptr assms(3, 4) by (simp add: in_packet_def parms_ok_def)
  show "send_ptr (in_packet p k) < 19" "5 < send_ptr (in_packet p k) \<longrightarrow> send_parms (in_packet p k) ! 5 = K_ESCAPE"
    unfolding e using assms(3, 4) by (auto simp: parms_ok_def nth_append)
qed

text \<open>A line that ends with a good end of transmission, the only one.\<close>

definition transmission :: "kpkt list \<Rightarrow> bool" where
  "transmission ps \<longleftrightarrow>
     ps \<noteq> [] \<and> pkt_good (last ps) \<and> p_type (last ps) = BREAK_TYPE \<and> list_all (\<lambda>p. \<not> (pkt_good p \<and> p_type p = BREAK_TYPE)) (butlast ps) \<and>
     list_all (\<lambda>p. pkt_plain p \<and> parms_ok p) ps"

lemma length_kstep: "length (snd (a_sav s)) \<le> length (snd (a_cur s)) \<Longrightarrow> length (snd (a_cur (kstep s p))) \<le> length (snd (a_cur s)) + length (p_data p)"
  using length_foldl_kdec [of "a_sav s" "p_data p"] length_foldl_kdec [of "a_cur s" "p_data p"]
  by (auto simp: kstep_def kseq_def kput_def Let_def)

lemma length_foldl_kdec_mono: "length (snd d) \<le> length (snd (foldl kdec d cs))"
proof (induction cs arbitrary: d)
  case (Cons c cs)
  have "length (snd d) \<le> length (snd (kdec d c))" by (simp add: kdec_def)
  also have "\<dots> \<le> length (snd (foldl kdec (kdec d c) cs))" by (rule Cons.IH)
  finally show ?case by simp
qed simp

lemma kstep_saved: "length (snd (a_sav (kstep s p))) \<le> length (snd (a_cur (kstep s p)))"
  using length_foldl_kdec_mono by (simp add: kstep_def kseq_def kput_def Let_def)

lemma length_ksteps:
  "length (snd (a_sav s)) \<le> length (snd (a_cur s)) \<Longrightarrow>
   length (snd (a_cur (foldl kstep s ps))) \<le> length (snd (a_cur s)) + length (concat (map p_data ps))"
proof (induction ps arbitrary: s)
  case (Cons p ps)
  from Cons.IH [OF kstep_saved, of s p] length_kstep [OF Cons.prems, of p] show ?case by simp
qed simp

subsection \<open>Reading a packet\<close>

lemma zero_u8_bits: "(w :: u8) = 0 \<longleftrightarrow> (\<forall>n\<in>{0, 1, 2, 3, 4, 5, 6, 7}. \<not> bit w n)"
proof
  assume b: "\<forall>n\<in>{0, 1, 2, 3, 4, 5, 6, 7}. \<not> bit w n"
  show "w = 0"
  proof (rule bit_word_eqI)
    fix n assume "n < LENGTH(8)"
    then have "n \<in> {0, 1, 2, 3, 4, 5, 6, 7}" by auto
    then show "bit w n = bit 0 n" using b by (simp only: bit_0_eq) blast
  qed
qed simp

lemma control_iff: "control c \<longleftrightarrow> unat c < 32"
proof -
  have "control c \<longleftrightarrow> \<not> bit c 5 \<and> \<not> bit c 6 \<and> \<not> bit c 7"
    unfolding control_def zero_u8_bits by (simp add: bit_and_iff)
  also have "\<dots> \<longleftrightarrow> drop_bit 5 c = 0"
    using bit_u8_bound [of c 8] bit_u8_bound [of c 9] bit_u8_bound [of c 10] bit_u8_bound [of c 11] bit_u8_bound [of c 12]
    unfolding zero_u8_bits by (auto simp: bit_drop_bit_eq)
  also have "\<dots> \<longleftrightarrow> unat (drop_bit 5 c) = 0" by (simp only: unsigned_eq_0_iff)
  also have "unat (drop_bit 5 c) = drop_bit 5 (unat c)"
    using unsigned_less [of c] by (simp only: unsigned_drop_bit_eq) (simp add: take_bit_nat_eq_self)
  also have "drop_bit 5 (unat c) = 0 \<longleftrightarrow> unat c < 32" by (simp add: drop_bit_eq_div div_eq_0_iff)
  finally show ?thesis .
qed

lemma unat_tochar: "0 \<le> x \<Longrightarrow> x < 224 \<Longrightarrow> unat (tochar x) = nat x + 32"
proof -
  assume x: "0 \<le> x" "x < 224"
  have "uint (word_of_int (x + 32) :: u8) = x + 32" using x by (simp add: unsigned_of_int take_bit_int_eq_self del: of_int_add)
  then show ?thesis using x by (simp del: of_int_add add: tochar_def unat_eq_nat_uint nat_add_distrib)
qed

lemma tochar_plain: "0 \<le> x \<Longrightarrow> x < 224 \<Longrightarrow> \<not> control (tochar x)"
  by (simp add: control_iff unat_tochar)

lemma untochar_tochar: "0 \<le> x \<Longrightarrow> x < 224 \<Longrightarrow> untochar (tochar x) = x"
proof -
  assume x: "0 \<le> x" "x < 224"
  have "tochar x - 32 = (word_of_int x :: u8)" by (simp add: tochar_def)
  then show ?thesis using x by (simp add: untochar_def unsigned_of_int take_bit_int_eq_self)
qed

lemma fold_sum_range: "0 \<le> fold_sum t \<and> fold_sum t < 64"
proof -
  have "fold_sum t = take_bit 6 (t + (drop_bit 6 t AND 3))" by (simp add: fold_sum_def take_bit_eq_mask mask_eq_exp_minus_1)
  then show ?thesis by (simp add: take_bit_int_less_exp [of 6, simplified])
qed

context kermit_line
begin

definition fed :: "u8 list \<Rightarrow> 'w console_state \<Rightarrow> bool" where "fed r cs \<longleftrightarrow> ok cs \<and> inp cs = r"

lemma k_getc_fed: "fed (c # r) (k_con k) \<Longrightarrow> \<exists>cs. k_getc calls drv k = Some (c, k\<lparr>k_con := cs\<rparr>) \<and> fed r cs"
  using line_getc [of "k_con k" c r] by (auto simp: fed_def k_getc_def)

lemma k_puts_fed: "fed r (k_con k) \<Longrightarrow> \<exists>cs. k_puts calls drv xs k = Some (k\<lparr>k_con := cs\<rparr>) \<and> fed r cs"
proof (induction xs arbitrary: k)
  case Nil
  then show ?case by (intro exI [of _ "k_con k"]) simp
next
  case (Cons x xs)
  obtain c1 where "con_putc calls drv (char_of (unat x)) (k_con k) = Some c1" "fed r c1"
    using line_putc [of "k_con k" "char_of (unat x)"] Cons.prems by (auto simp: fed_def)
  then show ?case using Cons.IH [of "k\<lparr>k_con := c1\<rparr>"] by simp
qed

lemma s1_sendpacket_fed: "fed r (k_con k) \<Longrightarrow> \<exists>cs. s1_sendpacket calls drv p k = Some (k\<lparr>k_con := cs\<rparr>) \<and> fed r cs"
proof -
  assume f: "fed r (k_con k)"
  obtain c1 where c1: "k_puts calls drv (replicate (nat (his_pad_count k)) (his_pad_char k)) k = Some (k\<lparr>k_con := c1\<rparr>)" "fed r c1"
    using k_puts_fed [OF f] by blast
  then show ?thesis using k_puts_fed [of r "k\<lparr>k_con := c1\<rparr>"] by (simp add: s1_sendpacket_def send_pad_def)
qed

lemma k_field_fed:
  "fed (c # r) (k_con k) \<Longrightarrow> \<not> control c \<Longrightarrow> \<exists>cs. k_field calls drv t k = Some (Inr (c, t + uint c, k\<lparr>k_con := cs\<rparr>)) \<and> fed r cs"
  using k_getc_fed [of c r k] by (auto simp: k_field_def)

lemma k_check_fed:
  "fed (c # r) (k_con k) \<Longrightarrow> \<not> control c \<Longrightarrow>
   \<exists>cs. k_check calls drv t k = Some (if c = tochar (fold_sum t) then Inr (c, t + uint c, k\<lparr>k_con := cs\<rparr>) else Inl (k\<lparr>k_con := cs\<rparr>)) \<and> fed r cs"
  using k_field_fed [of c r k t] by (auto simp: k_check_def ebind_def)

lemma k_take_con: "k_take c (k\<lparr>k_con := cs\<rparr>) = (k_take c k)\<lparr>k_con := cs\<rparr>"
  by (simp add: k_take_def k_data_char_def bin_data_char_def)

lemma k_take_all_con: "foldl (\<lambda>k c. k_take c k) (k\<lparr>k_con := cs\<rparr>) ds = (foldl (\<lambda>k c. k_take c k) k ds)\<lparr>k_con := cs\<rparr>"
proof (induction ds arbitrary: k)
  case (Cons x ds)
  from Cons [of "k_take x k"] show ?case by (simp add: k_take_con)
qed simp

lemma k_rest_fed:
  "fed (ds @ r) (k_con k) \<Longrightarrow> list_all (\<lambda>c. \<not> control c) ds \<Longrightarrow>
   \<exists>cs. k_rest calls drv (length ds) t k = Some (Inr (t + sum_list (map uint ds), (foldl (\<lambda>k c. k_take c k) k ds)\<lparr>k_con := cs\<rparr>)) \<and> fed r cs"
proof (induction ds arbitrary: k t)
  case Nil
  then show ?case by (intro exI [of _ "k_con k"]) simp
next
  case (Cons d ds)
  obtain c1 where c1: "k_field calls drv t k = Some (Inr (d, t + uint d, k\<lparr>k_con := c1\<rparr>))" "fed (ds @ r) c1"
    using k_field_fed [of d "ds @ r" k t] Cons.prems by auto
  show ?case using Cons.IH [of "k_take d (k\<lparr>k_con := c1\<rparr>)" "t + uint d"] c1 Cons.prems(2)
    by (auto simp: ebind_def k_take_con k_take_all_con add.assoc)
qed


lemma wait_start_fed:
  "fed (js @ START_CHAR # r) (k_con k) \<Longrightarrow> noise js \<Longrightarrow> \<exists>cs. wait_start calls drv k = Some (True, k\<lparr>k_con := cs\<rparr>) \<and> fed r cs"
proof (induction js arbitrary: k)
  case Nil
  then obtain cs where "con_getc calls drv (k_con k) = Some (uint START_CHAR, cs)" "fed r cs"
    using line_getc [of "k_con k" START_CHAR r] by (auto simp: fed_def)
  then show ?case by (subst wait_start.simps) auto
next
  case (Cons j js)
  obtain cs where cs: "con_getc calls drv (k_con k) = Some (uint j, cs)" "fed (js @ START_CHAR # r) cs"
    using line_getc [of "k_con k" j "js @ START_CHAR # r"] Cons.prems(1) by (auto simp: fed_def)
  have j: "uint j \<noteq> uint START_CHAR" "uint j \<noteq> uint ETX_CHAR" and js: "noise js" using Cons.prems(2) by (auto simp: noise_def dest!: unsigned_word_eqI)
  obtain c1 where "wait_start calls drv (k\<lparr>k_con := cs\<rparr>) = Some (True, k\<lparr>k_con := c1\<rparr>)" "fed r c1"
    using Cons.IH [of "k\<lparr>k_con := cs\<rparr>"] cs(2) js by auto
  then show ?case using cs(1) j by (subst wait_start.simps) auto
qed

lemma k_packet_fed:
  assumes "fed (pkt_body p @ [p_check p, END_CHAR] @ r) (k_con k)" "pkt_plain p"
  shows "\<exists>cs. fed (if pkt_good p then r else END_CHAR # r) cs \<and>
    k_packet calls drv k = Some ((if pkt_good p then Inr else Inl) ((in_packet p k)\<lparr>k_con := cs\<rparr>))"
proof -
  let ?l = "tochar (int (length (p_data p)) + 3)" and ?n = "tochar (int (p_seq p))"
  have plain: "\<not> control ?l" "\<not> control ?n" "\<not> control (p_type p)" "list_all (\<lambda>c. \<not> control c) (p_data p)" "\<not> control (p_check p)"
    and vals: "untochar ?l = int (length (p_data p)) + 3" "untochar ?n = int (p_seq p)"
    using assms(2) by (auto simp: pkt_plain_def tochar_plain untochar_tochar)
  obtain c1 where 1: "k_field calls drv 0 k = Some (Inr (?l, 0 + uint ?l, k\<lparr>k_con := c1\<rparr>))"
    "fed (?n # p_type p # p_data p @ [p_check p, END_CHAR] @ r) c1"
    using k_field_fed [of ?l "?n # p_type p # p_data p @ [p_check p, END_CHAR] @ r" k 0] assms(1) plain(1) by (auto simp: pkt_body_def)
  let ?s1 = "0 + uint ?l" and ?s2 = "0 + uint ?l + uint ?n"
  obtain c2 where 2: "k_field calls drv ?s1 (k\<lparr>k_con := c1\<rparr>) = Some (Inr (?n, ?s2, k\<lparr>k_con := c2\<rparr>))"
    "fed (p_type p # p_data p @ [p_check p, END_CHAR] @ r) c2"
    using k_field_fed [of ?n "p_type p # p_data p @ [p_check p, END_CHAR] @ r" "k\<lparr>k_con := c1\<rparr>" ?s1] 1(2) plain(2) by auto
  let ?k2 = "k_sequence (int (p_seq p)) k"
  have seq: "k_sequence n (k\<lparr>k_con := c\<rparr>) = (k_sequence n k)\<lparr>k_con := c\<rparr>" for n c
    by (simp add: k_sequence_def Let_def k_data_defs)
  let ?s3 = "?s2 + uint (p_type p)"
  obtain c3 where 3: "k_field calls drv ?s2 (?k2\<lparr>k_con := c2\<rparr>) = Some (Inr (p_type p, ?s3, ?k2\<lparr>k_con := c3\<rparr>))"
    "fed (p_data p @ [p_check p, END_CHAR] @ r) c3"
    using k_field_fed [of "p_type p" "p_data p @ [p_check p, END_CHAR] @ r" "?k2\<lparr>k_con := c2\<rparr>" ?s2] 2(2) plain(3) by auto
  let ?k3 = "?k2\<lparr>k_state := p_type p\<rparr>" and ?s4 = "?s3 + sum_list (map uint (p_data p))"
  obtain c4 where 4: "k_rest calls drv (length (p_data p)) ?s3 (?k3\<lparr>k_con := c3\<rparr>) = Some (Inr (?s4, (in_packet p k)\<lparr>k_con := c4\<rparr>))"
    "fed (p_check p # END_CHAR # r) c4"
    using k_rest_fed [of "p_data p" "[p_check p, END_CHAR] @ r" "?k3\<lparr>k_con := c3\<rparr>" ?s3] 3(2) plain(4)
    by (auto simp: in_packet_def k_take_all_con)
  obtain c5 where 5: "k_check calls drv ?s4 ((in_packet p k)\<lparr>k_con := c4\<rparr>) =
      Some (if pkt_good p then Inr (p_check p, ?s4 + uint (p_check p), (in_packet p k)\<lparr>k_con := c5\<rparr>) else Inl ((in_packet p k)\<lparr>k_con := c5\<rparr>))"
    "fed (END_CHAR # r) c5"
    using k_check_fed [of "p_check p" "END_CHAR # r" "(in_packet p k)\<lparr>k_con := c4\<rparr>" ?s4] 4(2) plain(5)
    by (auto simp: pkt_good_def pkt_sum_def pkt_body_def add.assoc)
  obtain c6 where 6: "k_getc calls drv ((in_packet p k)\<lparr>k_con := c5\<rparr>) = Some (END_CHAR, (in_packet p k)\<lparr>k_con := c6\<rparr>)" "fed r c6"
    using k_getc_fed [of END_CHAR r "(in_packet p k)\<lparr>k_con := c5\<rparr>"] 5(2) by auto
  have swap: "?k2\<lparr>k_con := c3, k_state := p_type p\<rparr> = ?k3\<lparr>k_con := c3\<rparr>" by simp
  have len: "untochar ?l - 2 \<noteq> - 2" "nat (untochar ?l - 2 - 1) = length (p_data p)" by (simp_all add: vals)
  have "k_packet calls drv k = ebind (k_check calls drv ?s4 ((in_packet p k)\<lparr>k_con := c4\<rparr>)) (\<lambda>(_, _, k).
       do { (c, k) \<leftarrow> k_getc calls drv k; Some (if c \<noteq> END_CHAR then Inl k else Inr k) })"
    unfolding k_packet_def using 1(1) 2(1) 3(1) 4(1) len by (simp add: ebind_def vals seq swap)
  then show ?thesis using 5 6 by (cases "pkt_good p") (auto simp: ebind_def)
qed

lemma handle_send_packet_fed:
  assumes "fed r (k_con k)" "send_ptr k < 19" "5 < send_ptr k \<longrightarrow> send_parms k ! 5 = K_ESCAPE"
  shows "\<exists>k'. handle_send_packet calls drv n k = Some k' \<and> fed r (k_con k') \<and> his_quote k' = K_ESCAPE \<and> kdata_eq k' k"
proof -
  have t: "k_con (take_parms k) = k_con k" "kdata_eq (take_parms k) k" "his_quote (take_parms k) = K_ESCAPE"
    using assms(2, 3) by (simp_all add: take_parms_def Let_def kdata_eq_def SEND_DATA_SIZE_def)
  then show ?thesis using s1_sendpacket_fed [of r "take_parms k"] assms(1)
    by (fastforce simp: handle_send_packet_def Let_def kdata_eq_def)
qed

lemma k_finish_fed:
  assumes "fed r (k_con k)" "krel a k s" "k_state k = SEND_TYPE \<longrightarrow> send_ptr k < 19 \<and> (5 < send_ptr k \<longrightarrow> send_parms k ! 5 = K_ESCAPE)"
  shows "\<exists>k'. k_finish calls drv (Inr k) = Some (k_state k = BREAK_TYPE, k') \<and> krel a k' s \<and> fed r (k_con k')"
    and "\<exists>k'. k_finish calls drv (Inl k) = Some (False, k') \<and> krel a k' (s\<lparr>a_cur := a_sav s\<rparr>) \<and> fed r (k_con k')"
proof -
  have q: "his_quote k = K_ESCAPE" using assms(2) by (simp add: krel_def)
  show "\<exists>k'. k_finish calls drv (Inr k) = Some (k_state k = BREAK_TYPE, k') \<and> krel a k' s \<and> fed r (k_con k')"
  proof (cases "k_state k = SEND_TYPE")
    case True
    obtain k' where "handle_send_packet calls drv (k_n k) k = Some k'" "fed r (k_con k')" "his_quote k' = K_ESCAPE" "kdata_eq k' k"
      using handle_send_packet_fed [OF assms(1), of "k_n k"] assms(3) True by blast
    with True krel_data_eq [OF assms(2)] show ?thesis by (auto simp: k_finish_def SEND_TYPE_def BREAK_TYPE_def)
  next
    case False
    obtain cs where "send_ack calls drv (k_n k) k = Some (k\<lparr>k_con := cs\<rparr>)" "fed r cs"
      using s1_sendpacket_fed [OF assms(1)] by (auto simp: send_ack_def)
    with False krel_data_eq [OF assms(2), of "k\<lparr>k_con := cs\<rparr>"] q show ?thesis by (auto simp: k_finish_def kdata_eq_def)
  qed
  let ?k = "k_data_restore (k\<lparr>k_state := k_state_saved k\<rparr>)"
  have r: "krel a ?k (s\<lparr>a_cur := a_sav s\<rparr>)" "his_quote ?k = K_ESCAPE" "fed r (k_con ?k)"
    using krel_restore [OF assms(2)] q assms(1) by (simp_all add: k_data_defs)
  obtain cs where "send_nack calls drv (k_n k) ?k = Some (?k\<lparr>k_con := cs\<rparr>)" "fed r cs"
    using s1_sendpacket_fed [OF r(3)] by (auto simp: send_nack_def)
  with krel_data_eq [OF r(1), of "?k\<lparr>k_con := cs\<rparr>"] r(2)
  show "\<exists>k'. k_finish calls drv (Inl k) = Some (False, k') \<and> krel a k' (s\<lparr>a_cur := a_sav s\<rparr>) \<and> fed r (k_con k')"
    by (auto simp: k_finish_def kdata_eq_def)
qed

lemma k_loop_step:
  assumes "krel a k s" "fed (js @ pkt_text p @ r) (k_con k)" "noise js" "pkt_plain p" "parms_ok p"
    "length (snd (a_cur s)) + length (p_data p) < 2 ^ 32"
  shows "\<exists>k' js'. krel a k' (kstep s p) \<and> fed (js' @ r) (k_con k') \<and> noise js' \<and>
    k_loop calls drv k = (if pkt_good p \<and> p_type p = BREAK_TYPE then Some (True, k') else k_loop calls drv k')"
proof -
  let ?k = "k\<lparr>send_ptr := 0\<rparr>"
  have k: "krel a ?k s" using assms(1) by (simp add: krel_def)
  have n: "noise (js @ p_noise p)" using assms(3, 4) by (auto simp: noise_def pkt_plain_def)
  obtain c1 where 1: "wait_start calls drv ?k = Some (True, ?k\<lparr>k_con := c1\<rparr>)" "fed (pkt_body p @ [p_check p, END_CHAR] @ r) c1"
    using wait_start_fed [OF _ n, of "pkt_body p @ [p_check p, END_CHAR] @ r" ?k] assms(2) by (auto simp: pkt_text_def)
  let ?k1 = "?k\<lparr>k_con := c1\<rparr>" and ?j = "if pkt_good p then [] else [END_CHAR]"
  have k1: "krel a ?k1 s" "send_ptr ?k1 = 0" using k by (simp_all add: krel_def)
  obtain c2 where 2: "fed (?j @ r) c2" "k_packet calls drv ?k1 = Some ((if pkt_good p then Inr else Inl) ((in_packet p ?k1)\<lparr>k_con := c2\<rparr>))"
    using k_packet_fed [of p r ?k1] 1(2) assms(4) by (auto split: if_splits)
  let ?k2 = "(in_packet p ?k1)\<lparr>k_con := c2\<rparr>" and ?s = "(kseq (p_seq p) s)\<lparr>a_cur := kput p (a_cur (kseq (p_seq p) s))\<rparr>"
  have k2: "krel a ?k2 ?s" using krel_packet [OF k1(1) assms(6) k1(2) assms(5)] by (simp add: krel_def)
  have st: "k_state ?k2 = p_type p" by (simp add: in_packet_state)
  have parms: "k_state ?k2 = SEND_TYPE \<longrightarrow> send_ptr ?k2 < 19 \<and> (5 < send_ptr ?k2 \<longrightarrow> send_parms ?k2 ! 5 = K_ESCAPE)"
    using in_packet_parms [OF k1 assms(5)] st by simp
  have f2: "fed (?j @ r) (k_con ?k2)" using 2(1) by simp
  note fin = k_finish_fed [OF f2 k2 parms]
  have "noise ?j" by (simp add: noise_def kermit_chars)
  moreover have "\<exists>k3. k_finish calls drv ((if pkt_good p then Inr else Inl) ?k2) = Some (pkt_good p \<and> p_type p = BREAK_TYPE, k3) \<and>
      krel a k3 (kstep s p) \<and> fed (?j @ r) (k_con k3)"
    using fin st by (cases "pkt_good p") (simp_all add: kstep_def Let_def)
  then obtain k3 where "k_finish calls drv ((if pkt_good p then Inr else Inl) ?k2) = Some (pkt_good p \<and> p_type p = BREAK_TYPE, k3)"
      "krel a k3 (kstep s p)" "fed (?j @ r) (k_con k3)" by blast
  moreover have "k_loop calls drv k = Option.bind (k_finish calls drv ((if pkt_good p then Inr else Inl) ?k2))
      (\<lambda>(fin, k). if fin then Some (True, k) else k_loop calls drv k)"
    using 1(1) 2(2) by (subst k_loop.simps) simp
  ultimately show ?thesis by (intro exI [of _ k3] exI [of _ ?j]) simp
qed

lemma k_loop_fed:
  assumes "krel a k s" "fed (js @ concat (map pkt_text ps) @ r) (k_con k)" "noise js" "transmission ps"
    "length (snd (a_cur s)) + length (concat (map p_data ps)) < 2 ^ 32"
  shows "\<exists>k' js'. k_loop calls drv k = Some (True, k') \<and> krel a k' (foldl kstep s ps) \<and> fed (js' @ r) (k_con k') \<and> noise js'"
  using assms
proof (induction ps arbitrary: k s js)
  case Nil
  then show ?case by (simp add: transmission_def)
next
  case (Cons p ps)
  have p: "pkt_plain p" "parms_ok p" using Cons.prems(4) by (simp_all add: transmission_def)
  obtain k1 js1 where 1: "krel a k1 (kstep s p)" "fed (js1 @ concat (map pkt_text ps) @ r) (k_con k1)" "noise js1"
    "k_loop calls drv k = (if pkt_good p \<and> p_type p = BREAK_TYPE then Some (True, k1) else k_loop calls drv k1)"
    using k_loop_step [OF Cons.prems(1) _ Cons.prems(3) p, of "concat (map pkt_text ps) @ r"] Cons.prems(2, 5) by auto
  show ?case
  proof (cases "ps = []")
    case True
    with Cons.prems(4) 1 show ?thesis by (auto simp: transmission_def)
  next
    case False
    then have ps: "transmission ps" "\<not> (pkt_good p \<and> p_type p = BREAK_TYPE)" using Cons.prems(4) by (auto simp: transmission_def)
    have "length (snd (a_cur (kstep s p))) \<le> length (snd (a_cur s)) + length (p_data p)"
      using Cons.prems(1) by (auto simp: krel_def intro: length_kstep)
    with Cons.IH [OF 1(1, 2, 3) ps(1)] Cons.prems(5) 1(4) ps(2) show ?thesis by simp
  qed
qed

lemma k_recv_fed:
  assumes "fed (concat (map pkt_text ps) @ r) (k_con k)" "transmission ps" "length (concat (map p_data ps)) < 2 ^ 32"
    "length (send_parms k) = SEND_DATA_SIZE"
  defines "out \<equiv> snd (a_cur (foldl kstep kinit ps))"
  shows "\<exists>k' js'. k_recv calls drv a k = Some (of_nat (length out), k') \<and> stored (k_ram k') a out \<and> fed (js' @ r) (k_con k') \<and> noise js'"
proof -
  let ?k = "(k_data_save ((k_data_init a (k\<lparr>his_eol := END_CHAR, his_pad_count := 0, his_pad_char := 0, his_quote := K_ESCAPE, k_state := 0\<rparr>))
    \<lparr>k_state_saved := 0\<rparr>))\<lparr>k_n := 0, last_n := - 1\<rparr>"
  have "krel a ?k kinit" using assms(4) by (simp add: krel_def kinit_def k_data_defs stored_def)
  moreover have "fed ([] @ concat (map pkt_text ps) @ r) (k_con ?k)" using assms(1) by (simp add: k_data_defs)
  ultimately obtain k' js' where "k_loop calls drv ?k = Some (True, k')" "krel a k' (foldl kstep kinit ps)" "fed (js' @ r) (k_con k')" "noise js'"
    using k_loop_fed [of a ?k kinit "[]" ps r] assms(2, 3) by (auto simp: noise_def kinit_def)
  then show ?thesis by (auto simp: k_recv_def k_data_defs out_def krel_def)
qed

lemma drain_fed: "fed r cs \<Longrightarrow> \<exists>cs' r'. drain calls drv n cs = Some cs' \<and> fed r' cs'"
proof (induction n arbitrary: r cs)
  case 0
  then show ?case by auto
next
  case (Suc n)
  obtain t c1 where 1: "con_tstc calls drv cs = Some (t, c1)" "fed r c1" "t \<noteq> 0 \<longrightarrow> r \<noteq> []"
    using line_tstc [of cs] Suc.prems by (auto simp: fed_def)
  show ?case
  proof (cases "t = 0")
    case True
    with 1 Suc.IH [OF 1(2)] show ?thesis by auto
  next
    case False
    then obtain c r1 where r1: "r = c # r1" using 1(3) by (cases r) auto
    then obtain c2 where "con_getc calls drv c1 = Some (uint c, c2)" "fed r1 c2" using line_getc [of c1 c r1] 1(2) by (auto simp: fed_def)
    with 1(1) False Suc.IH [of r1 c2] show ?thesis by auto
  qed
qed

end

end
