(* ===== verification/KermitFile.thy ===== *)
theory KermitFile
  imports KermitSpec Image
begin

text \<open>
  A file over the line: how a sender quotes bytes and numbers packets, the copies of a packet that arrive, and that the receiver ends
  with the file in memory, whatever copies were damaged or repeated, as long as no sequence number was.
\<close>

subsection \<open>Quoting\<close>

definition kenc :: "u8 \<Rightarrow> u8 list" where
  "kenc b = (if b AND 0x60 = 0 \<or> b AND 0x7f = 0x7f then [K_ESCAPE, b XOR 0x40] else if b = K_ESCAPE then [K_ESCAPE, K_ESCAPE] else [b])"

definition quoted :: "u8 list \<Rightarrow> u8 list" where "quoted bs = concat (map kenc bs)"

lemma u8_eq_bits: "(v :: u8) = w \<longleftrightarrow> (\<forall>n\<in>{0, 1, 2, 3, 4, 5, 6, 7}. bit v n = bit w n)"
proof
  assume b: "\<forall>n\<in>{0, 1, 2, 3, 4, 5, 6, 7}. bit v n = bit w n"
  show "v = w"
  proof (rule bit_word_eqI)
    fix n assume "n < LENGTH(8)"
    then have "n \<in> {0, 1, 2, 3, 4, 5, 6, 7}" by auto
    then show "bit v n = bit w n" using b by blast
  qed
qed simp

lemma ktrans_quoted: "b AND 0x60 = 0 \<or> b AND 0x7f = 0x7f \<Longrightarrow> ktrans (b XOR 0x40) = b"
  unfolding ktrans_def by (auto simp: u8_eq_bits bit_simps)

lemma kdec_kenc: "foldl kdec (False, out) (kenc b) = (False, out @ [b])"
proof (cases "b AND 0x60 = 0 \<or> b AND 0x7f = 0x7f")
  case True
  then show ?thesis using ktrans_quoted [OF True] by (simp add: kenc_def kdec_def)
next
  case False
  moreover have "ktrans K_ESCAPE = K_ESCAPE" by (simp add: ktrans_def K_ESCAPE_def)
  ultimately show ?thesis by (simp add: kenc_def kdec_def)
qed

lemma kdec_quoted: "foldl kdec (False, out) (quoted bs) = (False, out @ bs)"
  by (induction bs arbitrary: out) (simp_all add: quoted_def kdec_kenc)

lemma quoted_plain: "list_all (\<lambda>c. \<not> control c) (quoted bs)"
proof -
  have "\<not> control (b XOR 0x40)" if "b AND 0x60 = 0 \<or> b AND 0x7f = 0x7f" for b
    using that unfolding control_def by (auto simp: u8_eq_bits bit_simps)
  moreover have "b AND 0x60 = 0" if "control b" for b using that unfolding control_def by (simp add: u8_eq_bits bit_simps)
  moreover have "\<not> control K_ESCAPE" by (simp add: control_def K_ESCAPE_def)
  ultimately show ?thesis by (induction bs) (auto simp: quoted_def kenc_def)
qed

subsection \<open>The sender\<close>

text \<open>The packets of a transfer: parameters, name, data, end of file, end of transmission; and the copies of each that arrive, all with its number. A
  copy whose check is right is intact, and the last one is.\<close>

definition file_packets :: "u8 list \<Rightarrow> u8 list \<Rightarrow> u8 list list \<Rightarrow> (u8 \<times> u8 list) list" where
  "file_packets parms name chunks =
     [(SEND_TYPE, parms), (0x46, name)] @ map (\<lambda>bs. (DATA_TYPE, quoted bs)) chunks @ [(0x5A, []), (BREAK_TYPE, [])]"

definition copies :: "nat \<Rightarrow> u8 \<times> u8 list \<Rightarrow> kpkt list \<Rightarrow> bool" where
  "copies n td ps \<longleftrightarrow>
     ps \<noteq> [] \<and> pkt_good (last ps) \<and> list_all (\<lambda>p. p_seq p = n \<and> (pkt_good p \<longrightarrow> (p_type p, p_data p) = td)) ps"

fun arrive :: "nat \<Rightarrow> (u8 \<times> u8 list) list \<Rightarrow> kpkt list list \<Rightarrow> bool" where
  "arrive n [] css \<longleftrightarrow> css = []"
| "arrive n (td # tds) css \<longleftrightarrow> (case css of [] \<Rightarrow> False | ps # css \<Rightarrow> copies n td ps \<and> arrive ((n + 1) mod 64) tds css)"

definition put :: "kdata \<Rightarrow> u8 \<times> u8 list \<Rightarrow> kdata" where "put d td = (if fst td = DATA_TYPE then foldl kdec d (snd td) else d)"

lemma copies_step:
  "ps \<noteq> [] \<Longrightarrow> list_all (\<lambda>p. p_seq p = n \<and> (pkt_good p \<longrightarrow> (p_type p, p_data p) = td)) ps \<Longrightarrow> a_last s \<noteq> int n \<Longrightarrow>
   foldl kstep s ps = \<lparr>a_last = int n, a_cur = (if pkt_good (last ps) then put (a_cur s) td else a_cur s), a_sav = a_cur s\<rparr>"
proof (induction ps rule: rev_induct)
  case (snoc p ps)
  then show ?case by (cases "ps = []") (auto simp: kstep_def kseq_def kput_def put_def Let_def)
qed simp

lemma arrive_step:
  "arrive n tds css \<Longrightarrow> a_last s \<noteq> int n \<Longrightarrow> n < 64 \<Longrightarrow> a_cur (foldl kstep s (concat css)) = foldl put (a_cur s) tds"
proof (induction n tds css arbitrary: s rule: arrive.induct)
  case (2 n td tds css)
  from 2(2) obtain ps css' where css: "css = ps # css'" "copies n td ps" "arrive ((n + 1) mod 64) tds css'" by (auto split: list.splits)
  then have e: "foldl kstep s ps = \<lparr>a_last = int n, a_cur = put (a_cur s) td, a_sav = a_cur s\<rparr>"
    using copies_step [of ps n td s] 2(3) by (simp add: copies_def)
  have "int n \<noteq> int ((n + 1) mod 64)" using 2(4) by (cases "n = 63") auto
  with 2(1) [OF css(1) css(3), of "\<lparr>a_last = int n, a_cur = put (a_cur s) td, a_sav = a_cur s\<rparr>"] show ?case using e by (simp add: css(1))
qed simp

lemma put_chunks: "foldl put (False, out) (map (\<lambda>bs. (DATA_TYPE, quoted bs)) chunks) = (False, out @ concat chunks)"
  by (induction chunks arbitrary: out) (simp_all add: put_def kdec_quoted)

lemma put_file: "foldl put (False, []) (file_packets parms name chunks) = (False, concat chunks)"
proof -
  have "put d (SEND_TYPE, x) = d" "put d (0x46, x) = d" "put d (0x5A, x) = d" "put d (BREAK_TYPE, x) = d" for d x
    by (simp_all add: put_def kermit_chars)
  then show ?thesis by (simp add: file_packets_def put_chunks)
qed

lemma arrive_last:
  "arrive n tds css \<Longrightarrow> tds \<noteq> [] \<Longrightarrow> list_all (\<lambda>td. fst td \<noteq> BREAK_TYPE) (butlast tds) \<Longrightarrow> fst (last tds) = BREAK_TYPE \<Longrightarrow>
   list_all (\<lambda>p. \<not> pkt_good p) (butlast (last css)) \<Longrightarrow> list_all (\<lambda>p. pkt_plain p \<and> parms_ok p) (concat css) \<Longrightarrow> transmission (concat css)"
proof (induction n tds css rule: arrive.induct)
  case (2 n td tds css)
  from 2(2) obtain ps css' where css: "css = ps # css'" "copies n td ps" "arrive ((n + 1) mod 64) tds css'" by (auto split: list.splits)
  have ps: "ps \<noteq> []" "pkt_good (last ps)" "list_all (\<lambda>p. pkt_good p \<longrightarrow> p_type p = fst td) ps"
    using css(2) by (auto simp: copies_def list_all_iff)
  show ?case
  proof (cases "tds = []")
    case True
    then have "css' = []" using css(3) by simp
    then show ?thesis using True 2(5, 6, 7) ps css(1) by (auto simp: transmission_def list_all_iff)
  next
    case False
    then have "css' \<noteq> []" using css(3) by (cases tds) auto
    then have t: "transmission (concat css')" using 2(1) [OF css(1) css(3) False] 2(4, 5, 6, 7) css(1) False by simp
    have "fst td \<noteq> BREAK_TYPE" using 2(4) False by simp
    with t ps 2(7) show ?thesis by (auto simp: css(1) transmission_def list_all_iff butlast_append)
  qed
qed simp

text \<open>What arrives when a file is sent. The end of transmission is received once.\<close>

definition sent_file :: "u8 list \<Rightarrow> u8 list \<Rightarrow> u8 list list \<Rightarrow> kpkt list list \<Rightarrow> bool" where
  "sent_file parms name chunks css \<longleftrightarrow>
     arrive 0 (file_packets parms name chunks) css \<and> list_all (\<lambda>p. \<not> pkt_good p) (butlast (last css)) \<and>
     list_all (\<lambda>p. pkt_plain p \<and> parms_ok p) (concat css)"

lemma sent_file_transmission: "sent_file parms name chunks css \<Longrightarrow> transmission (concat css)"
  unfolding sent_file_def by (elim conjE, erule arrive_last) (auto simp: file_packets_def list_all_iff butlast_append kermit_chars)

lemma sent_file_data: "sent_file parms name chunks css \<Longrightarrow> a_cur (foldl kstep kinit (concat css)) = (False, concat chunks)"
  using arrive_step [of 0 "file_packets parms name chunks" css kinit] put_file [of parms name chunks] by (simp add: sent_file_def kinit_def)

subsection \<open>The command\<close>

lemma hex_text_X: "vsprintf ''%X'' [VInt n] = vsprintf ''%lX'' [VInt n]"
  by (simp add: vsprintf_def conv_spec_eval)

lemma stored_bytes: "stored r a out \<Longrightarrow> ram_bytes r a (length out) = out"
  by (rule nth_equalityI) (simp_all add: stored_def ram_bytes_def)

lemma outside_load_addr: "outside_env (s\<lparr>load_addr := a\<rparr>) = (outside_env s)\<lparr>load_addr := a\<rparr>" by (simp add: outside_env_def)

lemma getenv_load_addr: "getenv (s\<lparr>load_addr := a\<rparr>) m = getenv s m" by (simp add: getenv_def env_block_def)

lemma env_ok_con_ram: "env_ok (s\<lparr>con := cs, ram := r\<rparr>) vs \<longleftrightarrow> env_ok s vs" by (simp add: env_ok_def)

text \<open>The environment after a load: \<open>filesize\<close> has the size, the other variables are as before.\<close>

definition sized :: "nat \<Rightarrow> ('c, 'm) env_state_scheme \<Rightarrow> ('c, 'm) env_state_scheme \<Rightarrow> bool" where
  "sized n s s' \<longleftrightarrow>
     (\<exists>t. getenv s' ''filesize'' = Some (Some t) \<and> simple_strtoul t 16 = (of_nat n, [])) \<and>
     (\<forall>m. plain_name m \<and> m \<noteq> ''filesize'' \<longrightarrow> getenv s' m = getenv s m)"

context kermit_line
begin

lemma load_serial_bin_fed:
  assumes "fed (concat (map pkt_text (concat css)) @ r) (con s)" "sent_file parms name chunks css"
    "length (concat (map p_data (concat css))) < 2 ^ 32" "env_ok s vs" "length (enc vs) + 19 \<le> ENV_SIZE"
  shows "\<exists>s' cs m. load_serial_bin ca calls drv a s = Some (a, s') \<and> outside_env s' = outside_env (s\<lparr>con := cs, ram := m\<rparr>) \<and> ok cs \<and>
    ram_bytes m a (length (concat chunks)) = concat chunks \<and> sized (length (concat chunks)) s s'"
proof -
  let ?out = "concat chunks"
  have out: "snd (a_cur (foldl kstep kinit (concat css))) = ?out" using sent_file_data [OF assms(2)] by simp
  obtain k' js' where k: "k_recv calls drv a (kermit_of s) = Some (of_nat (length ?out), k')" "stored (k_ram k') a ?out" "fed (js' @ r) (k_con k')"
    using k_recv_fed [of "concat css" r "kermit_of s" a] assms(1, 3) sent_file_transmission [OF assms(2)] unfolding out
    by (auto simp: kermit_of_def)
  obtain cs r' where cs: "drain calls drv 100 (k_con k') = Some cs" "fed r' cs" using drain_fed [OF k(3)] by blast
  obtain t where t: "vsprintf ''%X'' [VInt (of_nat (length ?out))] = Some (t, [], int (length t))"
    "simple_strtoul t 16 = (of_nat (length ?out), [])" "length t \<le> 8" "value_ok t"
    using hex_text [of LARGE "''%lX''" "of_nat (length ?out)"] by (auto simp: hex_text_X)
  let ?s = "s\<lparr>con := cs, ram := k_ram k'\<rparr>"
  have ok: "env_ok ?s vs" using assms(4) by (simp add: env_ok_con_ram)
  obtain s' where s': "setenv ca ?s ''filesize'' (Some t) = Some s'" "getenv s' ''filesize'' = Some (Some t)"
    "\<forall>m. plain_name m \<and> m \<noteq> ''filesize'' \<longrightarrow> getenv s' m = getenv ?s m" "outside_env s' = outside_env ?s"
    using setenv_short [OF ok file_names(1) t(4), of ca] assms(5) t(3) by auto
  have g: "getenv ?s m = getenv s m" for m by (simp add: getenv_def env_block_def)
  have "load_serial_bin ca calls drv a s = Some (a, s')"
    unfolding load_serial_bin_def using k(1) cs(1) t(1) s'(1) by simp
  then show ?thesis using s' t(2) stored_bytes [OF k(2)] cs(2) unfolding g
    by (intro exI [of _ s'] exI [of _ cs] exI [of _ "k_ram k'"]) (auto simp: sized_def fed_def)
qed

lemma do_load_serial_bin_fed:
  assumes "fed (concat (map pkt_text (concat css)) @ r) (con s)" "sent_file parms name chunks css"
    "length (concat (map p_data (concat css))) < 2 ^ 32" "env_ok s vs" "length (enc vs) + 19 \<le> ENV_SIZE"
    "load_offset argv s = Some a" "a \<noteq> 0xFFFFFFFF" "length argv < 3"
  shows "\<exists>s' cs m. do_load_serial_bin ca calls drv setbrg argv s = Some (s', 0) \<and>
    outside_env s' = outside_env (s\<lparr>con := cs, ram := m, load_addr := a\<rparr>) \<and> ok cs \<and>
    ram_bytes m a (length (concat chunks)) = concat chunks \<and> sized (length (concat chunks)) s s'"
proof -
  obtain s' cs m where 1: "load_serial_bin ca calls drv a s = Some (a, s')" "outside_env s' = outside_env (s\<lparr>con := cs, ram := m\<rparr>)" "ok cs"
    "ram_bytes m a (length (concat chunks)) = concat chunks" "sized (length (concat chunks)) s s'"
    using load_serial_bin_fed [OF assms(1-5), of ca a] by blast
  have rate: "load_rate argv (gd_baudrate s) = gd_baudrate s" using assms(8) by (simp add: load_rate_def)
  have "do_load_serial_bin ca calls drv setbrg argv s = Some (s'\<lparr>load_addr := a\<rparr>, 0)"
    unfolding do_load_serial_bin_def using assms(6, 7) 1(1) rate by simp
  moreover have "outside_env (s'\<lparr>load_addr := a\<rparr>) = outside_env (s\<lparr>con := cs, ram := m, load_addr := a\<rparr>)"
    using 1(2) outside_load_addr [of a s'] outside_load_addr [of a "s\<lparr>con := cs, ram := m\<rparr>"] by simp
  moreover have "sized (length (concat chunks)) s (s'\<lparr>load_addr := a\<rparr>)" using 1(5) by (simp add: sized_def getenv_load_addr)
  ultimately show ?thesis using 1(3, 4) by blast
qed

end

context uart_line
begin

lemma kermit_on_serial: "kermit_line (serial_calls io drv) drv (on_serial drv) (\<lambda>cs. map of_char (pending (world cs)))"
  by (rule kermit.kermit_line_axioms)

end

lemmas serial_kermit = uart_line.kermit_on_serial

subsection \<open>Properties\<close>

text \<open>C14: the receiver of \<open>loadb\<close> refines the abstract one, packet by packet: with the serial line delivering any sequence of short packets,
  with noise before them and wrong check characters in any of them, up to the first good end of transmission, \<open>k_recv\<close> returns, its result
  is the number of bytes the abstract receiver decoded, and those bytes are in memory from the load address on.\<close>

theorem k_recv_refines:
  assumes "uart_line io pending sent delay" "on_serial drv (k_con k)"
    and "map of_char (pending (world (k_con k))) = concat (map pkt_text ps) @ r" "transmission ps"
    and "length (concat (map p_data ps)) < 2 ^ 32" "length (send_parms k) = SEND_DATA_SIZE"
  shows "\<exists>k'. k_recv (serial_calls io drv) drv a k = Some (of_nat (length (snd (a_cur (foldl kstep kinit ps)))), k') \<and>
    ram_bytes (k_ram k') a (length (snd (a_cur (foldl kstep kinit ps)))) = snd (a_cur (foldl kstep kinit ps))"
proof -
  note line = serial_kermit [OF assms(1), of drv]
  have "kermit_line.fed (on_serial drv) (\<lambda>cs. map of_char (pending (world cs))) (concat (map pkt_text ps) @ r) (k_con k)"
    using assms(2, 3) by (simp add: kermit_line.fed_def [OF line])
  from kermit_line.k_recv_fed [OF line this assms(4-6), of a] show ?thesis using stored_bytes by blast
qed

text \<open>Packets with a right check.\<close>

definition good :: "nat \<Rightarrow> u8 \<Rightarrow> u8 list \<Rightarrow> kpkt" where
  "good n t d = (let p = \<lparr>p_noise = [], p_seq = n, p_type = t, p_data = d, p_check = 0\<rparr> in p\<lparr>p_check := pkt_sum p\<rparr>)"

lemma good_fields [simp]: "p_noise (good n t d) = []" "p_seq (good n t d) = n" "p_type (good n t d) = t" "p_data (good n t d) = d"
  by (simp_all add: good_def Let_def)

lemma good_is_good [simp]: "pkt_good (good n t d)" by (simp add: good_def Let_def pkt_good_def pkt_sum_def pkt_body_def)

lemma good_check: "pkt_good p \<Longrightarrow> \<not> control (p_check p)"
  using fold_sum_range [of "sum_list (map uint (pkt_body p))"] by (simp add: pkt_good_def pkt_sum_def tochar_plain)

text \<open>C39: a damaged sequence number loses data, and nobody is told: after a file of two data packets was sent, if a copy of the second packet arrives
  damaged in such a way that its number became the first one's, the receiver refuses the copy and takes back the first packet, which it had acknowledged;
  the second packet, sent again, the end of file and the end of transmission are accepted, and the file received is the second half alone.\<close>

theorem damaged_number_loses_data:
  assumes "uart_line io pending sent delay" "on_serial drv (k_con k)" "length (send_parms k) = SEND_DATA_SIZE"
    and "map of_char (pending (world (k_con k))) = concat (map pkt_text
      [good 0 SEND_TYPE parms, good 1 0x46 name, good 2 DATA_TYPE (quoted first), bad, good 3 DATA_TYPE (quoted second), good 4 0x5A [], good 5 BREAK_TYPE []]) @ r"
    and "\<not> pkt_good bad" "p_seq bad = 2" "pkt_plain bad" "parms_ok bad" "length parms \<le> 5" "length name \<le> 91"
    and "list_all (\<lambda>c. \<not> control c) (parms @ name)" "length (quoted first) \<le> 91" "length (quoted second) \<le> 91"
  shows "\<exists>k'. k_recv (serial_calls io drv) drv a k = Some (of_nat (length second), k') \<and> ram_bytes (k_ram k') a (length second) = second"
proof -
  let ?ps = "[good 0 SEND_TYPE parms, good 1 0x46 name, good 2 DATA_TYPE (quoted first), bad, good 3 DATA_TYPE (quoted second), good 4 0x5A [], good 5 BREAK_TYPE []]"
  note line = serial_kermit [OF assms(1), of drv]
  have "kermit_line.fed (on_serial drv) (\<lambda>cs. map of_char (pending (world cs))) (concat (map pkt_text ?ps) @ r) (k_con k)"
    using assms(2, 4) by (simp add: kermit_line.fed_def [OF line])
  moreover have "transmission ?ps"
    using assms(5-13) good_check quoted_plain [of first] quoted_plain [of second]
    by (simp add: transmission_def parms_ok_def pkt_plain_def noise_def, simp add: control_def kermit_chars)
  moreover have "length (concat (map p_data ?ps)) < 2 ^ 32" using assms(7, 9, 10, 12, 13) by (simp add: pkt_plain_def)
  ultimately obtain k' where "k_recv (serial_calls io drv) drv a k = Some (of_nat (length (snd (a_cur (foldl kstep kinit ?ps)))), k')"
    "stored (k_ram k') a (snd (a_cur (foldl kstep kinit ?ps)))"
    using kermit_line.k_recv_fed [OF line, of ?ps r k a] assms(3) by blast
  moreover have "snd (a_cur (foldl kstep kinit ?ps)) = second"
    using kdec_quoted [of "[]" second] assms(5, 6)
    by (simp add: kinit_def kstep_def kseq_def kput_def Let_def, simp add: kermit_chars)
  ultimately show ?thesis using stored_bytes by auto
qed

text \<open>C15: a file sent over the serial line is loaded: whatever noise arrives between packets and whatever copies of each packet arrive damaged or again, as
  long as every copy has the packet's number and the last copy is intact, \<open>loadb\<close> returns 0 with the file in memory at the load address, the
  address in \<open>load_addr\<close>, its size in \<open>filesize\<close>, and every other variable as before.\<close>

theorem serial_file_loaded:
  assumes "uart_line io pending sent delay" "on_serial drv (con s)"
    and "map of_char (pending (world (con s))) = concat (map pkt_text (concat css)) @ r" "sent_file parms name chunks css"
    and "length (concat (map p_data (concat css))) < 2 ^ 32" "env_ok s vs" "length (enc vs) + 19 \<le> ENV_SIZE"
    and "load_offset argv s = Some a" "a \<noteq> 0xFFFFFFFF" "length argv < 3"
  shows "\<exists>s'. do_load_serial_bin ca (serial_calls io drv) drv setbrg argv s = Some (s', 0) \<and> load_addr s' = a \<and>
    ram_bytes (ram s') a (length (concat chunks)) = concat chunks \<and> sized (length (concat chunks)) s s'"
proof -
  note line = serial_kermit [OF assms(1), of drv]
  have "kermit_line.fed (on_serial drv) (\<lambda>cs. map of_char (pending (world cs))) (concat (map pkt_text (concat css)) @ r) (con s)"
    using assms(2, 3) by (simp add: kermit_line.fed_def [OF line])
  from kermit_line.do_load_serial_bin_fed [OF line this assms(4-10), of ca setbrg] obtain s' cs m
    where s': "do_load_serial_bin ca (serial_calls io drv) drv setbrg argv s = Some (s', 0)"
      "outside_env s' = outside_env (s\<lparr>con := cs, ram := m, load_addr := a\<rparr>)"
      "ram_bytes m a (length (concat chunks)) = concat chunks" "sized (length (concat chunks)) s s'" by blast
  have "load_addr s' = a" "ram s' = m"
    using arg_cong [OF s'(2), of load_addr] arg_cong [OF s'(2), of ram] by (simp_all add: outside_env_def)
  with s' show ?thesis by blast
qed

end
