(* ===== verification/MenuSerial.thy ===== *)
theory MenuSerial
  imports MenuFlash KermitFile
begin

text \<open>
  Choices 7 and 0 of the menu: a file from the serial line goes to the flash. The load address is that of the variable \<open>loadaddr\<close>, and the flash
  is written from another, fixed one; only without the variable are they the same.
\<close>

subsection \<open>The load\<close>

text \<open>A file arrives on the console of a board, whose environment has room for the variables the load sets.\<close>

definition serial_ready ::
  "'u reg_io \<Rightarrow> ('u \<Rightarrow> string) \<Rightarrow> ('u \<Rightarrow> string) \<Rightarrow> ('u \<Rightarrow> nat) \<Rightarrow> ('u, 'f) board \<Rightarrow> u8 list list \<Rightarrow> ('u, 'f) menu_state \<Rightarrow> bool" where
  "serial_ready io pending sent delay b chunks s \<longleftrightarrow>
     uart_line io pending sent delay \<and> b_calls b = serial_calls io (b_drv b) \<and> on_serial (b_drv b) (con s) \<and>
     (\<exists>css r parms name. map of_char (pending (world (con s))) = concat (map pkt_text (concat css)) @ r \<and> sent_file parms name chunks css \<and>
        length (concat (map p_data (concat css))) < 2 ^ 32) \<and>
     (\<exists>vs. env_ok s vs \<and> length (enc vs) + 33 \<le> ENV_SIZE)"

text \<open>Where \<open>loadb\<close> without arguments puts the file.\<close>

definition serial_addr :: "('u, 'f) menu_state \<Rightarrow> u32 option" where
  "serial_addr s = (case getenv s ''loadaddr'' of None \<Rightarrow> None | Some None \<Rightarrow> Some CFG_LOAD_ADDR | Some (Some v) \<Rightarrow> Some (fst (simple_strtoul v 16)))"

lemma load_serial_done:
  fixes s :: "('u, 'f) menu_state"
  assumes "serial_ready io pending sent delay b chunks s" "serial_addr s = Some a" "a \<noteq> 0xFFFFFFFF"
  shows "\<exists>s1 s2. set_var b ''autostart'' ''no'' s = Some s1 \<and> load_serial b s1 = Some (s2, 0) \<and> nor s2 = nor s \<and>
    ram_bytes (ram s2) a (length (concat chunks)) = concat chunks \<and>
    size_from_env s2 = Some (s2\<lparr>NetBootFileXferSize := of_nat (length (concat chunks))\<rparr>)"
proof -
  note line = serial_kermit [of io pending sent delay "b_drv b"]
  from assms(1) obtain css r parms name vs where r: "uart_line io pending sent delay" "b_calls b = serial_calls io (b_drv b)" "on_serial (b_drv b) (con s)"
    "map of_char (pending (world (con s))) = concat (map pkt_text (concat css)) @ r" "sent_file parms name chunks css"
    "length (concat (map p_data (concat css))) < 2 ^ 32" "env_ok s vs" "length (enc vs) + 33 \<le> ENV_SIZE"
    unfolding serial_ready_def by blast
  have no: "value_ok ''no''" by (simp add: value_ok_def NUL_def)
  obtain s1 where s1: "setenv (b_env b) s ''autostart'' (Some ''no'') = Some s1" "outside_env s1 = outside_env s"
    "env_ok s1 (without ''autostart'' vs @ [''autostart'' @ CHR ''='' # ''no''])"
    "\<forall>m. plain_name m \<and> m \<noteq> ''autostart'' \<longrightarrow> getenv s1 m = getenv s m"
    using setenv_short [OF r(7) menu_names(1) no, of "b_env b"] r(8) by auto
  have len: "length (enc (without ''autostart'' vs @ [''autostart'' @ CHR ''='' # ''no''])) + 19 \<le> ENV_SIZE"
    using enc_without [of "''autostart''" vs] r(8) by simp
  have "getenv s1 ''loadaddr'' = getenv s ''loadaddr''" using s1(4) by (simp add: plain_name_def name_ok_def NUL_def)
  then have a: "load_offset [[]] s1 = Some a" using assms(2) by (auto simp: load_offset_def serial_addr_def split: option.splits)
  have "kermit_line.fed (on_serial (b_drv b)) (\<lambda>cs. map of_char (pending (world cs))) (concat (map pkt_text (concat css)) @ r) (con s1)"
    using r(3, 4) outside_env_menu [OF s1(2)] by (simp add: kermit_line.fed_def [OF line [OF r(1)]])
  from kermit_line.do_load_serial_bin_fed [OF line [OF r(1)] this r(5, 6) s1(3) len a assms(3), of "b_env b" "b_setbrg b"]
  obtain s2 cs m where s2: "load_serial b s1 = Some (s2, 0)" "outside_env s2 = outside_env (s1\<lparr>con := cs, ram := m, load_addr := a\<rparr>)"
    "ram_bytes m a (length (concat chunks)) = concat chunks" "sized (length (concat chunks)) s1 s2"
    by (auto simp: load_serial_def r(2))
  have "nor s2 = nor s" "ram s2 = m" using outside_env_menu [OF s2(2)] outside_env_menu [OF s1(2)] by simp_all
  moreover have "size_from_env s2 = Some (s2\<lparr>NetBootFileXferSize := of_nat (length (concat chunks))\<rparr>)"
    using s2(4) by (auto simp: sized_def size_from_env_def)
  ultimately show ?thesis using s1(1) s2(1, 3) by (auto simp: set_var_def)
qed

lemma ready_length: "serial_ready io pending sent delay b chunks s \<Longrightarrow> length (concat chunks) < 2 ^ 32"
proof -
  assume "serial_ready io pending sent delay b chunks s"
  then obtain css parms name where c: "sent_file parms name chunks css" "length (concat (map p_data (concat css))) < 2 ^ 32"
    by (auto simp: serial_ready_def)
  show ?thesis using length_ksteps [of kinit "concat css"] sent_file_data [OF c(1)] c(2) by (simp add: kinit_def)
qed

subsection \<open>What is written\<close>

context nor_chip
begin

lemma serial_write:
  fixes s :: "('u, 'f) menu_state"
  assumes "b_ops b = ops" "sector_size (b_chip b) = ssize" "0 < ssize" "\<not> prot (nor s)" "b_malloc b"
    and "serial_ready io pending sent delay b chunks s" "serial_addr s = Some CFG_LOAD_ADDR" "offs \<le> reserved"
  defines "file \<equiv> concat chunks"
  shows "\<exists>s1 s2 s3 f. set_var b ''autostart'' ''no'' s = Some s1 \<and> load_serial b s1 = Some (s2, 0) \<and> size_from_env s2 = Some s3 \<and>
    unat (NetBootFileXferSize s3) = length file \<and> nor s3 = nor s \<and> write_flash b CFG_LOAD_ADDR offs s3 = Some (s3\<lparr>nor := f\<rparr>) \<and>
    cells f = (if length file + reserved \<le> flash_capacity (b_chip b) then set_cells (cells (nor s)) offs file else cells (nor s))"
proof -
  have "CFG_LOAD_ADDR \<noteq> 0xFFFFFFFF" by (simp add: CFG_LOAD_ADDR_def)
  then obtain s1 s2 where s: "set_var b ''autostart'' ''no'' s = Some s1" "load_serial b s1 = Some (s2, 0)" "nor s2 = nor s"
    "ram_bytes (ram s2) CFG_LOAD_ADDR (length file) = file" "size_from_env s2 = Some (s2\<lparr>NetBootFileXferSize := of_nat (length file)\<rparr>)"
    using load_serial_done [OF assms(6, 7)] by (auto simp: file_def)
  let ?s = "s2\<lparr>NetBootFileXferSize := of_nat (length file)\<rparr>"
  have len: "unat (NetBootFileXferSize ?s) = length file" using ready_length [OF assms(6)] by (simp add: file_def unat_u32_of_nat)
  then have "ram_bytes (ram ?s) CFG_LOAD_ADDR (unat (NetBootFileXferSize ?s)) = file" "\<not> prot (nor ?s)" using s(3, 4) assms(4) by simp_all
  then obtain f where f: "write_flash b CFG_LOAD_ADDR offs ?s = Some (?s\<lparr>nor := f\<rparr>)"
    "cells f = (if length file + reserved \<le> flash_capacity (b_chip b) then set_cells (cells (nor ?s)) offs file else cells (nor ?s))"
    using write_flash_cells [OF assms(1-3) _ assms(5) _ assms(8), of ?s] by blast
  have n: "nor ?s = nor s" using s(3) by simp
  show ?thesis
    using s(1, 2, 5) len n f(1) f(2) [unfolded n] by (intro exI [of _ s1] exI [of _ s2] exI [of _ ?s] exI [of _ f]) simp
qed

end

text \<open>C40: a file from the serial line goes to the flash whole and to its place, or not at all: while a file arrives on the console, packets damaged and repeated
  included, choice 0 leaves in the flash exactly the file, from 0x50000 on, when it fits behind the reserved blocks, and choice 7 exactly the file, from
  the start, when it has at most 0x30000 bytes; every other byte of the flash is as it was, a file that is too long changes nothing, and the board is
  reset. This needs the variable \<open>loadaddr\<close> to be unset, or to name the fixed load address.\<close>

theorem serial_update_exact:
  fixes s :: "('u, 'f) menu_state"
  assumes "nor_chip (b_ops b) cells wel prot ss" "sector_size (b_chip b) = ss" "0 < ss" "\<not> prot (nor s)" "b_malloc b"
    and "serial_ready io pending sent delay b chunks s" "serial_addr s = Some CFG_LOAD_ADDR" "0x80000 \<le> flash_capacity (b_chip b)"
  defines "f \<equiv> concat chunks"
  shows "(\<exists>s'. menu_switch b (CHR ''0'') s = Some (s', Booted Reset_board) \<and>
      (\<forall>x. cells (nor s') x = (if length f + 0x50000 \<le> flash_capacity (b_chip b) \<and> 0x50000 \<le> x \<and> x < 0x50000 + length f then f ! (x - 0x50000)
        else cells (nor s) x))) \<and>
    (\<exists>s'. menu_switch b (CHR ''7'') s = Some (s', Booted Reset_board) \<and>
      (\<forall>x. cells (nor s') x = (if length f \<le> 0x30000 \<and> x < length f then f ! x else cells (nor s) x)))"
proof (rule conjI)
  have r: "reserved = 0x50000" by (simp add: reserved_def CFG_BOOTLOADER_SIZE_def CFG_CONFIG_SIZE_def CFG_FACTORY_SIZE_def)
  have m: "menu_switch b (CHR ''0'') s = menu_0 b s" "menu_switch b (CHR ''7'') s = menu_7 b s" by (simp_all add: menu_switch_def)
  obtain s1 s2 s3 g where 0: "set_var b ''autostart'' ''no'' s = Some s1" "load_serial b s1 = Some (s2, 0)" "size_from_env s2 = Some s3"
    "write_flash b CFG_LOAD_ADDR CFG_KERN_OFFSET s3 = Some (s3\<lparr>nor := g\<rparr>)"
    "cells g = (if length f + reserved \<le> flash_capacity (b_chip b) then set_cells (cells (nor s)) CFG_KERN_OFFSET f else cells (nor s))"
    using nor_chip.serial_write [OF assms(1) refl assms(2-7), of CFG_KERN_OFFSET] unfolding f_def by (auto simp: r CFG_KERN_OFFSET_def)
  show "\<exists>s'. menu_switch b (CHR ''0'') s = Some (s', Booted Reset_board) \<and>
      (\<forall>x. cells (nor s') x = (if length f + 0x50000 \<le> flash_capacity (b_chip b) \<and> 0x50000 \<le> x \<and> x < 0x50000 + length f then f ! (x - 0x50000)
        else cells (nor s) x))"
    unfolding m menu_0_def using 0 by (intro exI [of _ "s3\<lparr>nor := g\<rparr>"]) (simp add: reset_board_def r set_cells_def CFG_KERN_OFFSET_def)
  obtain s1 s2 s3 g where 7: "set_var b ''autostart'' ''no'' s = Some s1" "load_serial b s1 = Some (s2, 0)" "size_from_env s2 = Some s3"
    "unat (NetBootFileXferSize s3) = length f" "nor s3 = nor s" "write_flash b CFG_LOAD_ADDR 0 s3 = Some (s3\<lparr>nor := g\<rparr>)"
    "cells g = (if length f + reserved \<le> flash_capacity (b_chip b) then set_cells (cells (nor s)) 0 f else cells (nor s))"
    using nor_chip.serial_write [OF assms(1) refl assms(2-7), of 0] unfolding f_def by auto
  show "\<exists>s'. menu_switch b (CHR ''7'') s = Some (s', Booted Reset_board) \<and>
      (\<forall>x. cells (nor s') x = (if length f \<le> 0x30000 \<and> x < length f then f ! x else cells (nor s) x))"
  proof (cases "length f \<le> 0x30000")
    case True
    then show ?thesis unfolding m menu_7_def using 7 assms(8)
      by (intro exI [of _ "s3\<lparr>nor := g\<rparr>"]) (simp add: reset_board_def r set_cells_def CFG_BOOTLOADER_SIZE_def)
  next
    case False
    then show ?thesis unfolding m menu_7_def using 7 by (intro exI [of _ s3]) (simp add: reset_board_def CFG_BOOTLOADER_SIZE_def)
  qed
qed

subsection \<open>A transfer\<close>

text \<open>Three bytes in two packets; the first arrives damaged, then intact, then again.\<close>

definition demo_bad :: kpkt where "demo_bad = \<lparr>p_noise = [0x0D], p_seq = 2, p_type = DATA_TYPE, p_data = [0x41], p_check = 0x7E\<rparr>"

definition demo_copies :: "kpkt list list" where
  "demo_copies =
     [[good 0 SEND_TYPE []], [good 1 0x46 [0x41]], [demo_bad, good 2 DATA_TYPE (quoted [0x27, 5]), good 2 DATA_TYPE (quoted [0x27, 5])],
      [good 3 DATA_TYPE (quoted [0x23])], [good 4 0x5A []], [good 5 BREAK_TYPE []]]"

definition on_line :: "kpkt list \<Rightarrow> string" where "on_line ps = map (\<lambda>c. char_of (unat c)) (concat (map pkt_text ps))"

lemma of_char_on_line [simp]: "map of_char (on_line ps) = concat (map pkt_text ps)"
proof -
  have "of_char (char_of (unat c)) = (c :: u8)" for c
  proof -
    have e: "of_char (char_of (unat c)) = unat c" using unat_u8_bound [of c] by (simp add: of_char_of take_bit_nat_eq_self)
    have "(of_nat (of_char (char_of (unat c))) :: u8) = of_nat (unat c)" by (simp only: e)
    then show ?thesis unfolding of_nat_of_char by simp
  qed
  then show ?thesis by (simp add: on_line_def comp_def)
qed

lemma demo_bad_not_good: "\<not> pkt_good demo_bad"
proof -
  have "unat (pkt_sum demo_bad) < 96"
    using fold_sum_range [of "sum_list (map uint (pkt_body demo_bad))"] by (simp add: pkt_sum_def unat_tochar nat_less_iff)
  moreover have "unat (p_check demo_bad) = 126" by (simp add: demo_bad_def)
  ultimately show ?thesis by (auto simp: pkt_good_def)
qed

lemma demo_bad_plain: "pkt_plain demo_bad" "parms_ok demo_bad" "p_seq demo_bad = 2"
  by (simp_all add: demo_bad_def pkt_plain_def control_def noise_def parms_ok_def kermit_chars)

lemma quoted_demo: "quoted [0x27, 5] = [0x27, 0x23, 0x45]" "quoted [0x23] = [0x23, 0x23]"
  by (simp_all add: quoted_def kenc_def K_ESCAPE_def)

lemma demo_sent: "sent_file [] [0x41] [[0x27, 5], [0x23]] demo_copies"
proof -
  have "list_all (\<lambda>p. pkt_plain p \<and> parms_ok p) (concat demo_copies)"
    using demo_bad_plain good_check quoted_plain
    by (simp add: demo_copies_def quoted_demo pkt_plain_def noise_def parms_ok_def) (simp add: control_def kermit_chars)
  moreover have "arrive 0 (file_packets [] [0x41] [[0x27, 5], [0x23]]) demo_copies"
    using demo_bad_not_good demo_bad_plain(3) by (simp add: demo_copies_def file_packets_def copies_def)
  ultimately show ?thesis by (simp add: sent_file_def) (simp add: demo_copies_def)
qed

lemma demo_copies_length: "length (concat (map p_data (concat demo_copies))) < 2 ^ 32"
  by (simp add: demo_copies_def demo_bad_def quoted_demo)

definition demo_receiver :: "clist \<Rightarrow> kpkt list \<Rightarrow> uart16550 kermit" where
  "demo_receiver l ps = kermit_of (menu_on (tty_console demo_drv l (demo_uart (on_line ps))))"

lemma demo_receiver_fields:
  "k_con (demo_receiver l ps) = tty_console demo_drv l (demo_uart (on_line ps))" "length (send_parms (demo_receiver l ps)) = SEND_DATA_SIZE"
  by (simp_all add: demo_receiver_def kermit_of_def menu_on_def)

lemma demo_line: "map of_char (map snd (rx (world (tty_console demo_drv l (demo_uart (on_line ps)))))) = concat (map pkt_text ps) @ ([] :: u8 list)"
  by (simp add: tty_console_def)

theorem k_recv_refines_witness:
  "\<exists>l k'. k_recv (serial_calls (uart_io 3) demo_drv) demo_drv 0x80100000 (demo_receiver l (concat demo_copies)) = Some (3, k') \<and>
    ram_bytes (k_ram k') 0x80100000 3 = [0x27, 5, 0x23]"
proof -
  obtain l where l: "devs_rep l [serial_dev demo_drv]" using devices_init_rep [of "\<lambda>_. True" demo_drv] by auto
  from k_recv_refines [OF uart.uart_line_axioms [of 3], where drv = demo_drv and k = "demo_receiver l (concat demo_copies)" and
        ps = "concat demo_copies" and r = "[]" and a = "0x80100000", unfolded demo_receiver_fields,
      OF tty_console_serial [OF l] demo_line sent_file_transmission [OF demo_sent] demo_copies_length refl]
  show ?thesis using sent_file_data [OF demo_sent] by (auto simp: eval_nat_numeral)
qed

theorem damaged_number_loses_data_witness:
  "\<exists>l k'. k_recv (serial_calls (uart_io 3) demo_drv) demo_drv 0x80100000 (demo_receiver l
      [good 0 SEND_TYPE [], good 1 0x46 [0x41], good 2 DATA_TYPE (quoted [0x27, 5]), demo_bad, good 3 DATA_TYPE (quoted [0x23]), good 4 0x5A [], good 5 BREAK_TYPE []]) =
      Some (1, k') \<and> ram_bytes (k_ram k') 0x80100000 1 = [0x23]"
proof -
  let ?ps = "[good 0 SEND_TYPE [], good 1 0x46 [0x41], good 2 DATA_TYPE (quoted [0x27, 5]), demo_bad, good 3 DATA_TYPE (quoted [0x23]), good 4 0x5A [], good 5 BREAK_TYPE []]"
  obtain l where l: "devs_rep l [serial_dev demo_drv]" using devices_init_rep [of "\<lambda>_. True" demo_drv] by auto
  have c: "list_all (\<lambda>c. \<not> control c) ([] @ [0x41])" by (simp add: control_def)
  from damaged_number_loses_data [OF uart.uart_line_axioms [of 3], where drv = demo_drv and k = "demo_receiver l ?ps" and parms = "[]" and name = "[0x41]" and
        first = "[0x27, 5]" and bad = demo_bad and second = "[0x23]" and r = "[]" and a = "0x80100000", unfolded demo_receiver_fields, OF tty_console_serial [OF l] refl demo_line demo_bad_not_good demo_bad_plain(3, 1, 2) _ _ c]
  show ?thesis by (auto simp: quoted_demo)
qed

subsection \<open>A board that receives it\<close>

definition serial_menu :: "clist \<Rightarrow> (uart16550, nor) menu_state" where
  "serial_menu l = menu_on (tty_console demo_drv l (demo_uart (on_line (concat demo_copies))))"

definition serial_board :: "(uart16550, nor) board" where
  "serial_board = board_on (serial_calls (uart_io 3) demo_drv) demo_drv (uart_setbrg (uart_io 3))"

lemma serial_menu_fields:
  "con (serial_menu l) = tty_console demo_drv l (demo_uart (on_line (concat demo_copies)))" "nor (serial_menu l) = nor demo_menu"
  "env_ok (serial_menu l) [''bootargs=console=ttyS1 root=/dev/mtdblock5'']"
  using demo_menu_env by (simp_all add: serial_menu_def demo_menu_def menu_on_def env_ok_def)

lemma serial_menu_addr: "getenv (serial_menu l) ''loadaddr'' = Some None"
  using getenv_lookup [OF serial_menu_fields(3), of "''loadaddr''"] by (simp add: name_ok_def NUL_def lookup_def var_name_def var_value_def)

theorem serial_file_loaded_witness:
  "\<exists>l s'. do_load_serial_bin quiet_calls (serial_calls (uart_io 3) demo_drv) demo_drv id [''loadb'', ''80200000''] (serial_menu l) = Some (s', 0) \<and>
    ram_bytes (ram s') 0x80200000 3 = [0x27, 5, 0x23] \<and> sized 3 (serial_menu l) s'"
proof -
  obtain l where l: "devs_rep l [serial_dev demo_drv]" using devices_init_rep [of "\<lambda>_. True" demo_drv] by auto
  have "fst (simple_strtoul ''80200000'' 16) = 0x80200000" by code_simp
  then have a: "load_offset [''loadb'', ''80200000''] (serial_menu l) = Some 0x80200000" by (simp add: load_offset_def serial_menu_addr)
  have room: "length (enc [''bootargs=console=ttyS1 root=/dev/mtdblock5'']) + 19 \<le> ENV_SIZE" by (simp add: ENV_SIZE_def CFG_ENV_SIZE_def)
  have n: "(0x80200000 :: u32) \<noteq> 0xFFFFFFFF" "length [''loadb'', ''80200000''] < 3" by simp_all
  have f: "length [0x27, 5, 0x23 :: u8] = 3" "concat [[0x27, 5], [0x23 :: u8]] = [0x27, 5, 0x23]" by simp_all
  from serial_file_loaded [OF uart.uart_line_axioms [of 3], where drv = demo_drv and s = "serial_menu l", unfolded serial_menu_fields(1),
      OF tty_console_serial [OF l] demo_line demo_sent demo_copies_length serial_menu_fields(3) room a n,
      of quiet_calls id, unfolded f]
  show ?thesis by blast
qed

theorem serial_update_exact_witness:
  "\<exists>l s'. menu_switch serial_board (CHR ''0'') (serial_menu l) = Some (s', Booted Reset_board) \<and> nor_cells (nor s') 0x50001 = 5 \<and>
    nor_cells (nor s') 0x50003 = nor_cells (nor (serial_menu l)) 0x50003"
proof -
  obtain l where l: "devs_rep l [serial_dev demo_drv]" using devices_init_rep [of "\<lambda>_. True" demo_drv] by auto
  have c: "b_ops serial_board = nor_device 0x10000" "sector_size (b_chip serial_board) = 0x10000" "b_malloc serial_board"
    "flash_capacity (b_chip serial_board) = 0x1000000" "\<not> nor_prot (nor (serial_menu l))" "b_drv serial_board = demo_drv"
    "b_calls serial_board = serial_calls (uart_io 3) demo_drv"
    by (simp_all add: serial_board_def board_on_def flash_capacity_def serial_menu_fields demo_menu_fields demo_boot_fields)
  have n: "nor_chip (b_ops serial_board) nor_cells nor_wel nor_prot 0x10000" using nor_device_chip c(1) by simp
  have r: "serial_ready (uart_io 3) (\<lambda>u. map snd (rx u)) line_out uart_delay serial_board [[0x27, 5], [0x23]] (serial_menu l)"
    unfolding serial_ready_def c serial_menu_fields(1)
    using uart.uart_line_axioms [of 3] tty_console_serial [OF l] demo_line demo_sent demo_copies_length serial_menu_fields(3) [of l]
    by (intro conjI exI) (auto simp: ENV_SIZE_def CFG_ENV_SIZE_def)
  have a: "serial_addr (serial_menu l) = Some CFG_LOAD_ADDR" by (simp add: serial_addr_def serial_menu_addr)
  from serial_update_exact [OF n c(2) _ c(5, 3) r a] show ?thesis using c(4) by fastforce
qed

end
