(* ===== verification/WifiCfg.thy ===== *)
theory WifiCfg
  imports BootMenu
begin

text \<open>
  The file of Wi-Fi settings: the loop of choice c, which cuts the file into strings in place, finds the values of a well-formed file. A last
  line that does not end in a newline makes it go on at address 0.
\<close>

definition cfg_line :: "string \<times> string \<Rightarrow> string" where "cfg_line x = fst x @ ''='' @ snd x @ [CHR 10]"

definition cfg_text :: "(string \<times> string) list \<Rightarrow> string" where "cfg_text ls = concat (map cfg_line ls)"

definition cfg_entry_ok :: "string \<times> string \<Rightarrow> bool" where
  "cfg_entry_ok x \<longleftrightarrow> NUL \<notin> set (fst x) \<and> CHR 10 \<notin> set (fst x) \<and> CHR ''='' \<notin> set (fst x) \<and> NUL \<notin> set (snd x) \<and> CHR 10 \<notin> set (snd x)"

lemma cfg_text_simps [simp]: "cfg_text [] = []" "cfg_text (x # ls) = cfg_line x @ cfg_text ls"
  by (simp_all add: cfg_text_def)

subsection \<open>Strings in the array\<close>

lemma str_at_append: "str_at (pre @ d) (length pre + i) = str_at d i" by (simp add: str_at_def)

lemma str_at_append0: "str_at (pre @ d) (length pre) = takeWhile (\<lambda>c. c \<noteq> NUL) d" by (simp add: str_at_def)

lemma takeWhile_stop: "c \<notin> set xs \<Longrightarrow> takeWhile (\<lambda>x. x \<noteq> c) (xs @ c # ys) = xs"
  by (induction xs) auto

lemma takeWhile_id: "c \<notin> set xs \<Longrightarrow> takeWhile (\<lambda>x. x \<noteq> c) xs = xs"
  by (induction xs) auto

lemma strchr_at_found:
  assumes "NUL \<notin> set xs" "c \<notin> set xs" "c \<noteq> NUL"
  shows "strchr_at (pre @ xs @ c # ys) (length pre) c = Some (length pre + length xs)"
proof -
  have "str_at (pre @ xs @ c # ys) (length pre) = xs @ c # takeWhile (\<lambda>x. x \<noteq> NUL) ys"
    using assms by (simp add: str_at_append0 takeWhile_append)
  then show ?thesis using assms(2) by (simp add: strchr_at_def takeWhile_stop)
qed

lemma strchr_at_absent:
  assumes "NUL \<notin> set xs" "c \<notin> set xs"
  shows "strchr_at (pre @ xs @ NUL # ys) (length pre) c = None"
  using assms by (simp add: strchr_at_def str_at_append0 takeWhile_stop takeWhile_id)

lemma upd_at: "(pre @ xs @ c # ys)[length pre + length xs := x] = pre @ xs @ x # ys"
  by (simp add: list_update_append)

text \<open>One line, with what is behind it: the newline, or the terminator.\<close>

lemma cfg_step:
  assumes "cfg_entry_ok (n, v)"
  shows "cfg_loop (pre @ cfg_line (n, v) @ rest) (length pre) ssid key =
      (let pre' = pre @ n @ NUL # v @ [NUL]; p = length pre + length n + 1
       in cfg_loop (pre' @ rest) (length pre') (if n = ''wifi_ssid'' then Some p else ssid) (if n = ''wifi_key'' then Some p else key))"
    and "cfg_loop (pre @ n @ ''='' @ v @ NUL # rest) (length pre) ssid key = None"
proof -
  have ok: "NUL \<notin> set n" "CHR 10 \<notin> set n" "CHR ''='' \<notin> set n" "NUL \<notin> set v" "CHR 10 \<notin> set v"
    using assms by (simp_all add: cfg_entry_ok_def)
  have ch: "CHR 10 \<noteq> NUL" "CHR ''='' \<noteq> NUL" "CHR ''='' \<noteq> CHR 10" by (simp_all add: NUL_def)
  let ?l = "n @ ''='' @ v"
  have l: "NUL \<notin> set ?l" "CHR 10 \<notin> set ?l" using ok ch by auto
  have rd: "\<exists>c. rd (pre @ ?l @ ys) (length pre) = Some c \<and> c \<noteq> NUL" for ys
    using ok ch by (cases n) (auto simp: rd_def nth_append)
  have eq: "strchr_at (pre @ ?l @ NUL # ys) (length pre) (CHR ''='') = Some (length pre + length n)" for ys
    using strchr_at_found [of n "CHR ''=''" pre "v @ NUL # ys"] ok ch by simp
  have upd: "(pre @ ?l @ NUL # ys)[length pre + length n := NUL] = pre @ n @ NUL # v @ NUL # ys" for ys
    using upd_at [of pre n "CHR ''=''" "v @ NUL # ys" NUL] by simp
  have name: "str_at (pre @ n @ NUL # v @ NUL # ys) (length pre) = n" for ys
    using ok by (simp add: str_at_append0 takeWhile_stop)
  have nl: "strchr_at (pre @ ?l @ CHR 10 # rest) (length pre) (CHR 10) = Some (length pre + length ?l)"
    by (rule strchr_at_found) (use l ch in auto)
  have cut: "(pre @ ?l @ CHR 10 # rest)[length pre + length ?l := NUL] = pre @ ?l @ NUL # rest" by (rule upd_at)
  obtain c where c: "rd (pre @ ?l @ CHR 10 # rest) (length pre) = Some c" "c \<noteq> NUL" using rd by blast
  have "cfg_loop (pre @ ?l @ CHR 10 # rest) (length pre) ssid key =
      cfg_loop (pre @ n @ NUL # v @ NUL # rest) (length pre + length ?l + 1)
        (if n = ''wifi_ssid'' then Some (length pre + length n + 1) else ssid) (if n = ''wifi_key'' then Some (length pre + length n + 1) else key)"
    by (subst cfg_loop.simps) (simp only: c option.case nl cut eq upd name Let_def if_False)
  then show "cfg_loop (pre @ cfg_line (n, v) @ rest) (length pre) ssid key =
      (let pre' = pre @ n @ NUL # v @ [NUL]; p = length pre + length n + 1
       in cfg_loop (pre' @ rest) (length pre') (if n = ''wifi_ssid'' then Some p else ssid) (if n = ''wifi_key'' then Some p else key))"
    by (simp add: cfg_line_def Let_def)
  have no: "strchr_at (pre @ ?l @ NUL # rest) (length pre) (CHR 10) = None" by (rule strchr_at_absent) (use l in auto)
  obtain k where k: "rd (pre @ ?l @ NUL # rest) (length pre) = Some k" "k \<noteq> NUL" using rd by blast
  have "cfg_loop (pre @ ?l @ NUL # rest) (length pre) ssid key = None"
    by (subst cfg_loop.simps) (simp only: k option.case no eq upd name Let_def if_False)
  then show "cfg_loop (pre @ n @ ''='' @ v @ NUL # rest) (length pre) ssid key = None" by simp
qed

subsection \<open>The whole file\<close>

definition found :: "string \<Rightarrow> nat option \<Rightarrow> nat option \<Rightarrow> string option \<Rightarrow> bool" where
  "found d old pos v = (case v of None \<Rightarrow> pos = old | Some w \<Rightarrow> map_option (str_at d) pos = Some w)"

lemma cfg_lines:
  "list_all cfg_entry_ok ls \<Longrightarrow>
   \<exists>t p q. cfg_loop (pre @ cfg_text ls @ NUL # rest) (length pre) ssid key = Some (pre @ t, p, q) \<and>
     found (pre @ t) ssid p (map_of (rev ls) ''wifi_ssid'') \<and> found (pre @ t) key q (map_of (rev ls) ''wifi_key'')"
proof (induction ls arbitrary: pre ssid key)
  case Nil
  show ?case by (subst cfg_loop.simps) (simp add: rd_def nth_append found_def)
next
  case (Cons x ls)
  obtain n v where x: "x = (n, v)" by (cases x)
  have ok: "cfg_entry_ok (n, v)" "list_all cfg_entry_ok ls" using Cons.prems by (simp_all add: x)
  define pre' where "pre' = pre @ n @ NUL # v @ [NUL]"
  define i where "i = length pre + length n + 1"
  let ?s = "if n = ''wifi_ssid'' then Some i else ssid" and ?k = "if n = ''wifi_key'' then Some i else key"
  obtain t p q where t: "cfg_loop (pre' @ cfg_text ls @ NUL # rest) (length pre') ?s ?k = Some (pre' @ t, p, q)"
    "found (pre' @ t) ?s p (map_of (rev ls) ''wifi_ssid'')" "found (pre' @ t) ?k q (map_of (rev ls) ''wifi_key'')"
    using Cons.IH [OF ok(2), of pre' ?s ?k] by blast
  have "cfg_loop (pre @ cfg_text (x # ls) @ NUL # rest) (length pre) ssid key = Some (pre' @ t, p, q)"
    using cfg_step(1) [OF ok(1), of pre "cfg_text ls @ NUL # rest" ssid key, unfolded Let_def, folded pre'_def i_def] t(1)
    by (simp only: x cfg_text_simps append_assoc)
  moreover have s: "str_at (pre' @ t) i = v"
    using ok(1) str_at_append [of "pre @ n @ [NUL]" "v @ NUL # t" 0]
    by (simp add: pre'_def i_def str_at_def takeWhile_stop cfg_entry_ok_def)
  moreover have "found (pre' @ t) ssid p (map_of (rev (x # ls)) ''wifi_ssid'')" "found (pre' @ t) key q (map_of (rev (x # ls)) ''wifi_key'')"
    using t(2, 3) s by (auto simp: found_def x map_add_def split: option.splits if_splits)
  ultimately show ?case by (auto simp: pre'_def)
qed

text \<open>C38: The Wi-Fi settings are read right: from a file of lines name=value, each ended by a newline, the loop of choice c, which works in
  place, comes back with the values the last lines named \<open>wifi_ssid\<close> and \<open>wifi_key\<close> have, or none when there is no such line, whatever the other
  lines are.\<close>

theorem wifi_file_parses:
  assumes "list_all cfg_entry_ok ls"
  shows "\<exists>d p q. cfg_loop (cfg_text ls @ NUL # rest) 0 None None = Some (d, p, q) \<and>
    map_option (str_at d) p = map_of (rev ls) ''wifi_ssid'' \<and> map_option (str_at d) q = map_of (rev ls) ''wifi_key''"
  using cfg_lines [OF assms, of "[]" rest None None] by (fastforce simp: found_def split: option.splits)

theorem wifi_file_parses_witness:
  "\<exists>d p q. cfg_loop (cfg_text [(''wifi_ssid'', ''home''), (''channel'', ''6=auto''), (''wifi_key'', ''secret123'')] @ [NUL]) 0 None None = Some (d, p, q) \<and>
    map_option (str_at d) p = Some ''home'' \<and> map_option (str_at d) q = Some ''secret123''"
  using wifi_file_parses [of "[(''wifi_ssid'', ''home''), (''channel'', ''6=auto''), (''wifi_key'', ''secret123'')]" "[]"]
  by (simp add: cfg_entry_ok_def NUL_def)

text \<open>A file of Wi-Fi settings whose last line does not end in a newline makes the loader read at address 0: after that line \<open>s\<close> is the NULL
  \<open>strchr\<close> returned, and the loop tests \<open>*s\<close>. The model's \<open>None\<close> is that access.\<close>

theorem wifi_file_unterminated:
  assumes "list_all cfg_entry_ok ls" "cfg_entry_ok (n, v)"
  shows "cfg_loop (cfg_text ls @ n @ ''='' @ v @ NUL # rest) 0 None None = None"
proof -
  have "cfg_loop (pre @ cfg_text ls @ n @ ''='' @ v @ NUL # rest) (length pre) ssid key = None" for pre ssid key
    using assms(1)
  proof (induction ls arbitrary: pre ssid key)
    case Nil
    show ?case using cfg_step(2) [OF assms(2), of pre rest ssid key] by simp
  next
    case (Cons x ls)
    then show ?case using cfg_step(1) [of "fst x" "snd x" pre "cfg_text ls @ n @ ''='' @ v @ NUL # rest" ssid key] by (simp add: Let_def)
  qed
  from this [of "[]"] show ?thesis by simp
qed

theorem wifi_file_unterminated_witness:
  "cfg_loop (''wifi_ssid=home'' @ [NUL]) 0 None None = None"
  using wifi_file_unterminated [of "[]" "''wifi_ssid''" "''home''" "[]"] by (simp add: cfg_entry_ok_def NUL_def)

end
