(* ===== verification/FatType.thy ===== *)
theory FatType
  imports FatDisk
begin

text \<open>
  What the calls of the file system keep whenever they end and leave no buffer: which device is registered, its partition and its signed boot sector, and the sizes of the
  static blocks.
\<close>

definition keeps :: "fat_state \<Rightarrow> fat_state \<Rightarrow> bool" where
  "keeps st st' \<longleftrightarrow> cur_dev st' = cur_dev st \<and> cur_part_nr st' = cur_part_nr st \<and> cur_part_info st' = cur_part_info st \<and>
     length (get_vfatname_block st') = length (get_vfatname_block st) \<and>
     length (get_dentfromdir_block st') = length (get_dentfromdir_block st) \<and> length (do_fat_read_block st') = length (do_fat_read_block st)"

lemma keeps_refl [simp]: "keeps st st" by (simp add: keeps_def)

lemma keeps_trans: "keeps a b \<Longrightarrow> keeps b c \<Longrightarrow> keeps a c" by (simp add: keeps_def)

lemma keeps_blocks:
  "length b = length (get_vfatname_block st) \<Longrightarrow> keeps st (st\<lparr>get_vfatname_block := b\<rparr>)"
  "length b = length (get_dentfromdir_block st) \<Longrightarrow> keeps st (st\<lparr>get_dentfromdir_block := b\<rparr>)"
  "length b = length (do_fat_read_block st) \<Longrightarrow> keeps st (st\<lparr>do_fat_read_block := b\<rparr>)"
  "keeps st (st\<lparr>ls_lines := l\<rparr>)"
  by (simp_all add: keeps_def)

subsection \<open>What a step ensures\<close>

text \<open>A property of every result of a step that may be undefined, with a rule for each construct.\<close>

definition ens :: "('a \<Rightarrow> bool) \<Rightarrow> 'a option \<Rightarrow> bool" where "ens P m \<longleftrightarrow> (\<forall>y. m = Some y \<longrightarrow> P y)"

lemma ensD: "ens P m \<Longrightarrow> m = Some y \<Longrightarrow> P y" by (simp add: ens_def)
lemma ens_None: "ens P None" by (simp add: ens_def)
lemma ens_Some: "P y \<Longrightarrow> ens P (Some y)" by (simp add: ens_def)
lemma ens_bind: "(\<And>x. m = Some x \<Longrightarrow> ens P (f x)) \<Longrightarrow> ens P (Option.bind m f)" by (auto simp: ens_def bind_eq_Some_conv)
lemma ens_map: "(\<And>x. m = Some x \<Longrightarrow> P (f x)) \<Longrightarrow> ens P (map_option f m)" by (auto simp: ens_def)
lemma ens_if: "(b \<Longrightarrow> ens P x) \<Longrightarrow> (\<not> b \<Longrightarrow> ens P y) \<Longrightarrow> ens P (if b then x else y)" by simp
lemma ens_let: "(\<And>x. x = t \<Longrightarrow> ens P (f x)) \<Longrightarrow> ens P (let x = t in f x)" by simp
lemma ens_prod: "(\<And>a b. p = (a, b) \<Longrightarrow> ens P (f a b)) \<Longrightarrow> ens P (case p of (a, b) \<Rightarrow> f a b)" by (cases p) simp
lemma ens_sum: "(\<And>a. s = Inl a \<Longrightarrow> ens P (f a)) \<Longrightarrow> (\<And>b. s = Inr b \<Longrightarrow> ens P (g b)) \<Longrightarrow> ens P (case s of Inl a \<Rightarrow> f a | Inr b \<Rightarrow> g b)"
  by (cases s) simp_all
lemma ens_option: "(s = None \<Longrightarrow> ens P x) \<Longrightarrow> (\<And>b. s = Some b \<Longrightarrow> ens P (g b)) \<Longrightarrow> ens P (case s of None \<Rightarrow> x | Some b \<Rightarrow> g b)"
  by (cases s) simp_all

lemma ens_scan_end:
  "(e = Sc_next \<Longrightarrow> ens P a) \<Longrightarrow> (e = Sc_end \<Longrightarrow> ens P b) \<Longrightarrow> (\<And>d. e = Sc_found d \<Longrightarrow> ens P (f d)) \<Longrightarrow> (e = Sc_stop \<Longrightarrow> ens P c) \<Longrightarrow>
     ens P (case e of Sc_next \<Rightarrow> a | Sc_end \<Rightarrow> b | Sc_found d \<Rightarrow> f d | Sc_stop \<Rightarrow> c)"
  by (cases e) simp_all

lemmas ens_rules = ens_None ens_Some ens_bind ens_map ens_if ens_let ens_prod ens_sum ens_option

subsection \<open>Long names\<close>

lemma next_slots_keeps: "ens (\<lambda>(ok, st', fs'). keeps st st') (next_slots st c fs)"
  unfolding next_slots_def by (intro ens_rules) (auto simp: length_into_buf keeps_blocks)

lemma put_keeps_length: "entry_at b k = Some d \<Longrightarrow> entry_at buf i = Some e \<Longrightarrow> length (put_entry i d buf) = length buf"
  by (intro length_put_entry) (simp_all add: length_entry_at entry_at_room)

lemma get_vfatname_keeps:
  "ens (\<lambda>(r, st', fs'). keeps st st' \<and> (\<forall>l buf'. r = Some (l, buf') \<longrightarrow> length buf' = length buf)) (get_vfatname st c buf i fs)"
  unfolding get_vfatname_def
  by (intro ens_rules) (auto simp: put_keeps_length dest: ensD [OF next_slots_keeps])

lemma take_long_keeps: "ens (\<lambda>(l, buf', sc'). keeps (sc_st sc) (sc_st sc') \<and> length buf' = length buf) (take_long c i d buf sc)"
  unfolding take_long_def by (intro ens_rules) (auto dest: ensD [OF get_vfatname_keeps] split: option.splits)

lemma ls_entry_keeps: "keeps (sc_st sc) (sc_st (ls_entry u d n sc))"
  by (simp add: ls_entry_def ls_print_def keeps_blocks)

lemma ls_total_keeps: "keeps (sc_st sc) (sc_st (ls_total sc))" by (simp add: ls_total_def ls_print_def keeps_blocks)

definition step_keeps :: "(nat \<Rightarrow> u8 list \<Rightarrow> dir_scan \<Rightarrow> (scan_end \<times> u8 list \<times> dir_scan) option) \<Rightarrow> bool" where
  "step_keeps step \<longleftrightarrow> (\<forall>i buf sc. ens (\<lambda>(r, buf', sc'). keeps (sc_st sc) (sc_st sc') \<and> length buf' = length buf) (step i buf sc))"

lemma long_or_plain:
  assumes "(if b then take_long c i d buf sc else Some ([], buf, sc)) = Some (l, buf', sc')"
  shows "keeps (sc_st sc) (sc_st sc') \<and> length buf' = length buf"
  using assms ensD [OF take_long_keeps, of c i d buf sc "(l, buf', sc')"] by (cases b) auto

lemma ls_keeps:
  "keeps st (sc_st sc) \<Longrightarrow> keeps st (sc_st (ls_entry u d n sc))" "keeps st (sc_st sc) \<Longrightarrow> keeps st (sc_st (ls_total sc))"
  using ls_entry_keeps ls_total_keeps keeps_trans by blast+

lemma dent_step_keeps: "step_keeps (dent_step fname dols c)"
  unfolding step_keeps_def dent_step_def
  by (intro allI ens_rules) (auto simp: ls_keeps dest!: long_or_plain ensD [OF take_long_keeps])

lemma root_step_keeps: "step_keeps (root_step fname isdir dols c)"
  unfolding step_keeps_def root_step_def
  by (intro allI ens_rules) (auto simp: ls_keeps dest!: long_or_plain ensD [OF take_long_keeps])

lemma scan_keeps:
  assumes "step_keeps step"
  shows "step_keeps (scan_entries step n)"
proof (induction n)
  case (Suc n)
  show ?case unfolding step_keeps_def scan_entries.simps
  proof (intro allI ens_rules)
    fix i buf sc x r p buf1 sc1
    assume s: "step i buf sc = Some x" "x = (r, p)" "p = (buf1, sc1)"
    have k: "keeps (sc_st sc) (sc_st sc1) \<and> length buf1 = length buf" using assms s unfolding step_keeps_def by (auto dest: ensD)
    then show "case (r, buf1, sc1) of (r, buf', sc') \<Rightarrow> keeps (sc_st sc) (sc_st sc') \<and> length buf' = length buf" by simp
    have "ens (\<lambda>(r, buf', sc'). keeps (sc_st sc1) (sc_st sc') \<and> length buf' = length buf1) (scan_entries step n (i + 1) buf1 sc1)"
      using Suc unfolding step_keeps_def by blast
    then show "ens (\<lambda>(r, buf', sc'). keeps (sc_st sc) (sc_st sc') \<and> length buf' = length buf) (scan_entries step n (i + 1) buf1 sc1)"
      using k keeps_trans by (auto simp: ens_def)
  qed
qed (simp add: step_keeps_def ens_def)

lemma dent_scan_keeps:
  assumes "scan_entries (dent_step fname dols c) n 0 buf sc = Some (r, buf1, sc1)" "length buf = length (get_dentfromdir_block (sc_st sc))"
  shows "keeps (sc_st sc) ((sc_st sc1)\<lparr>get_dentfromdir_block := buf1\<rparr>)"
proof -
  have "keeps (sc_st sc) (sc_st sc1) \<and> length buf1 = length buf"
    using scan_keeps [OF dent_step_keeps, of fname dols c n] assms(1) unfolding step_keeps_def by (auto dest: ensD)
  then show ?thesis using assms(2) by (simp add: keeps_def)
qed

lemma root_scan_keeps:
  assumes "scan_entries (root_step fname isdir dols c) n 0 buf sc = Some (r, buf1, sc1)" "length buf = length (do_fat_read_block (sc_st sc))"
  shows "keeps (sc_st sc) ((sc_st sc1)\<lparr>do_fat_read_block := buf1\<rparr>)"
proof -
  have "keeps (sc_st sc) (sc_st sc1) \<and> length buf1 = length buf"
    using scan_keeps [OF root_step_keeps, of fname isdir dols c n] assms(1) unfolding step_keeps_def by (auto dest: ensD)
  then show ?thesis using assms(2) by (simp add: keeps_def)
qed

subsection \<open>Loops\<close>

lemma dent_loop_keeps: "ens (\<lambda>y. keeps (sc_st sc) (sc_st (snd y))) (dent_loop fname dols c sc)"
  unfolding ens_def
proof (intro allI impI)
  fix y assume "dent_loop fname dols c sc = Some y"
  then show "keeps (sc_st sc) (sc_st (snd y))"
  proof (rule dent_loop.raw_induct [where P = "\<lambda>fname dols c sc y. keeps (sc_st sc) (sc_st (snd y))", rotated])
    fix rec_loop :: "u8 list \<Rightarrow> nat \<Rightarrow> u32 \<Rightarrow> dir_scan \<Rightarrow> (u8 list option \<times> dir_scan) option" and fname dols c sc y
    assume ih: "\<And>fname dols c sc y. rec_loop fname dols c sc = Some y \<Longrightarrow> keeps (sc_st sc) (sc_st (snd y))"
      and body: "Option.bind (get_cluster (sc_st sc) (sc_fs sc) c (ucast (clust_size (sc_fs sc)) * ucast (sect_size (sc_fs sc)))) (\<lambda>(ok, bs).
      Option.bind (into_buf bs (get_dentfromdir_block (sc_st sc))) (\<lambda>buf.
        if \<not> ok then Some (None, sc\<lparr>sc_st := (sc_st sc)\<lparr>get_dentfromdir_block := buf\<rparr>\<rparr>)
        else Option.bind (scan_entries (dent_step fname dols c) (DIRENTSPERCLUST (sc_fs sc)) 0 buf sc) (\<lambda>(r, buf, sc).
          let sc = sc\<lparr>sc_st := (sc_st sc)\<lparr>get_dentfromdir_block := buf\<rparr>\<rparr>
          in case r of
               Sc_next \<Rightarrow>
                 Option.bind (get_fatent (sc_st sc) c (sc_fs sc)) (\<lambda>(curclust, fs).
                   if CHECK_CLUST curclust (fatsize fs) then Some (None, sc\<lparr>sc_fs := fs\<rparr>)
                   else rec_loop fname dols curclust (sc\<lparr>sc_fs := fs\<rparr>))
             | Sc_found d \<Rightarrow> Some (Some d, sc)
             | _ \<Rightarrow> Some (None, sc)))) = Some y"
    have r: "ens (\<lambda>y. keeps st (sc_st (snd y))) (rec_loop f d c' sc')" if "keeps st (sc_st sc')" for st f d c' sc'
      unfolding ens_def using ih that keeps_trans by blast
    show "keeps (sc_st sc) (sc_st (snd y))"
      by (rule ensD [OF _ body], intro ens_rules ens_scan_end)
        (auto simp: length_into_buf keeps_blocks dest: dent_scan_keeps intro!: r)
  qed
qed

lemma get_dentfromdir_keeps: "ens (\<lambda>(r, st', fs'). keeps st st') (get_dentfromdir st fs fname d dols)"
  unfolding get_dentfromdir_def by (intro ens_rules) (auto dest: ensD [OF dent_loop_keeps])

lemma root_loop_keeps: "ens (\<lambda>y. keeps (sc_st sc) (sc_st (snd y))) (root_loop fname isdir dols rsize cursect root_cluster j sc)"
  unfolding ens_def
proof (intro allI impI)
  fix y assume "root_loop fname isdir dols rsize cursect root_cluster j sc = Some y"
  then show "keeps (sc_st sc) (sc_st (snd y))"
  proof (rule root_loop.raw_induct [where P = "\<lambda>fname isdir dols rsize cursect root_cluster j sc y. keeps (sc_st sc) (sc_st (snd y))", rotated])
    fix rec_loop :: "u8 list \<Rightarrow> bool \<Rightarrow> nat \<Rightarrow> int \<Rightarrow> u32 \<Rightarrow> u32 \<Rightarrow> int \<Rightarrow> dir_scan \<Rightarrow> ((u32 + u8 list) \<times> dir_scan) option"
      and fname isdir dols rootdir_size cursect root_cluster j sc y
    assume ih: "\<And>fname isdir dols rootdir_size cursect root_cluster j sc y.
        rec_loop fname isdir dols rootdir_size cursect root_cluster j sc = Some y \<Longrightarrow> keeps (sc_st sc) (sc_st (snd y))"
      and body: "(case disk_read (sc_st sc) cursect (if fatsize (sc_fs sc) = 32 then ucast (clust_size (sc_fs sc)) else of_nat PREFETCH_BLOCKS) of (r, bs) \<Rightarrow>
      Option.bind (into_buf bs (do_fat_read_block (sc_st sc))) (\<lambda>buf.
        if r < 0 then Some (Inl (- 1), sc\<lparr>sc_st := (sc_st sc)\<lparr>do_fat_read_block := buf\<rparr>\<rparr>)
        else Option.bind (scan_entries (root_step fname isdir dols root_cluster) (DIRENTSPERBLOCK (sc_fs sc)) 0 buf sc) (\<lambda>(r, buf, sc).
          let sc = sc\<lparr>sc_st := (sc_st sc)\<lparr>do_fat_read_block := buf\<rparr>\<rparr>; j = j + 1; fs = sc_fs sc
          in case r of
               Sc_next \<Rightarrow>
                 if fatsize fs = 32 \<and> j = uint (clust_size fs)
                 then Option.bind (get_fatent (sc_st sc) root_cluster fs) (\<lambda>(nxt, fs).
                   if CHECK_CLUST nxt 32
                   then Some (Inl (root_exit dols), if dols = LS_ROOT then ls_total (sc\<lparr>sc_fs := fs\<rparr>) else sc\<lparr>sc_fs := fs\<rparr>)
                   else rec_loop fname isdir dols rootdir_size (signed (data_begin fs) + nxt * ucast (clust_size fs)) nxt 0 (sc\<lparr>sc_fs := fs\<rparr>))
                 else if fatsize fs \<noteq> 32 \<and> j = rootdir_size
                 then Some (Inl (root_exit dols), if dols = LS_ROOT then ls_total sc else sc)
                 else rec_loop fname isdir dols rootdir_size (cursect + 1) root_cluster j sc
             | Sc_end \<Rightarrow> Some (Inl (root_exit dols), sc)
             | Sc_found d \<Rightarrow> Some (Inr d, sc)
             | Sc_stop \<Rightarrow> Some (Inl (- 1), sc)))) = Some y"
    have r: "ens (\<lambda>y. keeps st (sc_st (snd y))) (rec_loop f i d z u c' k sc')" if "keeps st (sc_st sc')" for st f i d z u c' k sc'
      unfolding ens_def using ih that keeps_trans by blast
    show "keeps (sc_st sc) (sc_st (snd y))"
      by (rule ensD [OF _ body], intro ens_rules ens_scan_end)
        (auto simp: length_into_buf keeps_blocks ls_keeps dest: root_scan_keeps intro!: r)
  qed
qed

lemma descend_keeps: "ens (\<lambda>(r, st', fs'). keeps st st') (descend dols firsttime subname dent st fs)"
  unfolding ens_def
proof (intro allI impI)
  fix y assume "descend dols firsttime subname dent st fs = Some y"
  then show "case y of (r, st', fs') \<Rightarrow> keeps st st'"
  proof (rule descend.raw_induct [where P = "\<lambda>dols firsttime subname dent st fs y. case y of (r, st', fs') \<Rightarrow> keeps st st'", rotated])
    fix rec_descend :: "nat \<Rightarrow> bool \<Rightarrow> u8 list \<Rightarrow> u8 list \<Rightarrow> fat_state \<Rightarrow> fsdata \<Rightarrow> ((u32 + u8 list) \<times> fat_state \<times> fsdata) option"
      and dols firsttime subname dent st fs y
    assume ih: "\<And>dols firsttime subname dent st fs y. rec_descend dols firsttime subname dent st fs = Some y \<Longrightarrow> case y of (r, st', fs') \<Rightarrow> keeps st st'"
      and body: "(case dirdelim subname of
        None \<Rightarrow>
          if dols \<noteq> 0 \<and> firsttime
          then Option.bind (get_dentfromdir st fs subname dent 0) (\<lambda>(r, st, fs).
            case r of None \<Rightarrow> Some (Inl (- 1), st, fs) | Some d \<Rightarrow> rec_descend dols False subname d st fs)
          else Option.bind (get_dentfromdir st fs subname dent dols) (\<lambda>(r, st, fs).
            Some (case r of None \<Rightarrow> Inl (if dols \<noteq> 0 then 0 else - 1) | Some d \<Rightarrow> Inr d, st, fs))
      | Some idx \<Rightarrow>
          (let nextname = skip_delims (drop (idx + 1) subname)
           in Option.bind (get_dentfromdir st fs (take idx subname) dent 0) (\<lambda>(r, st, fs).
             case r of
               None \<Rightarrow> Some (Inl (- 1), st, fs)
             | Some d \<Rightarrow>
                 if d_attr d AND ATTR_DIR = 0 then Some (Inl (- 1), st, fs)
                 else rec_descend dols (firsttime \<and> \<not> (dols \<noteq> 0 \<and> nextname = [])) nextname d st fs))) = Some y"
    have r: "ens (\<lambda>(r, st', fs'). keeps st0 st') (rec_descend d f n e st fs)" if "keeps st0 st" for st0 d f n e st fs
      unfolding ens_def using ih [of d f n e st fs] that keeps_trans by fastforce
    show "case y of (r, st', fs') \<Rightarrow> keeps st st'"
      by (rule ensD [OF _ body], intro ens_rules) (auto dest: ensD [OF get_dentfromdir_keeps] intro!: r)
  qed
qed

lemma found_keeps:
  "root_loop fname isdir dols rsize cursect root_cluster j sc = Some (x, sc') \<Longrightarrow> keeps (sc_st sc) (sc_st sc')"
  "descend dols firsttime subname d st1 fs1 = Some (y, st2, fs2) \<Longrightarrow> keeps st st1 \<Longrightarrow> keeps st st2"
  by (auto dest: ensD [OF root_loop_keeps] ensD [OF descend_keeps] intro: keeps_trans)

lemma do_fat_read_keeps: "ens (\<lambda>(ret, r', st'). keeps st st') (do_fat_read fresh st filename buffer maxsize dols r)"
  unfolding do_fat_read_def
  by (intro ens_rules) (auto dest!: found_keeps(1) intro: found_keeps(2) split: if_splits)

subsection \<open>Calls\<close>

definition fat_typed :: "fat_state \<Rightarrow> bool" where
  "fat_typed st \<longleftrightarrow> length (get_vfatname_block st) = MAX_CLUSTSIZE \<and> length (get_dentfromdir_block st) = MAX_CLUSTSIZE \<and>
     length (do_fat_read_block st) = MAX_CLUSTSIZE \<and> (\<forall>d. cur_dev st = Some d \<longrightarrow> block_read d \<noteq> None)"

text \<open>The boot sector of the registered partition can be read and carries the marks that \<open>fat_register_device\<close> looks for.\<close>

definition boot_signed :: "(nat \<Rightarrow> u8 list) \<Rightarrow> fat_state \<Rightarrow> bool" where
  "boot_signed fresh st \<longleftrightarrow>
     (\<forall>d. cur_dev st = Some d \<longrightarrow> fst (disk_read st 0 1) = 1 \<and> (\<exists>buf. into_buf (snd (disk_read st 0 1)) (fresh (unat (dev_blksz d))) = Some buf \<and> fat_magic buf))"

lemma signed_read: "disk_read st 0 1 = (1, bs) \<Longrightarrow> cur_dev st = Some d \<Longrightarrow> block_read d \<noteq> None"
  by (auto simp: disk_read_def split: option.splits)

lemma typed_keeps: "fat_typed st \<Longrightarrow> keeps st st' \<Longrightarrow> fat_typed st'" by (simp add: fat_typed_def keeps_def)

lemma keeps_disk_read: "keeps st st' \<Longrightarrow> disk_read st' b n = disk_read st b n"
  by (simp add: disk_read_def keeps_def cong: option.case_cong)

lemma signed_keeps: "boot_signed fresh st \<Longrightarrow> keeps st st' \<Longrightarrow> boot_signed fresh st'"
  by (simp add: boot_signed_def keeps_disk_read) (simp add: keeps_def)

lemma signed_now:
  assumes "disk_read st 0 1 = (1, bs)" "cur_dev st = Some d" "into_buf bs (fresh (unat (dev_blksz d))) = Some buf" "fat_magic buf"
  shows "boot_signed fresh st" "block_read d \<noteq> None"
  using assms signed_read by (auto simp: boot_signed_def)

text \<open>The check of the boot sector, once the device and its partition are set.\<close>

lemma check_typed:
  assumes "cur_dev st = Some d" "length (get_vfatname_block st) = MAX_CLUSTSIZE" "length (get_dentfromdir_block st) = MAX_CLUSTSIZE"
    "length (do_fat_read_block st) = MAX_CLUSTSIZE"
  shows "ens (\<lambda>(ret, st'). fat_typed st' \<and> boot_signed fresh st' \<and> cur_dev st' = (if ret = 0 then Some d else None))
    (case disk_read st 0 1 of (r, bs) \<Rightarrow> Option.bind (into_buf bs (fresh (unat (dev_blksz d)))) (\<lambda>buf.
       if r \<noteq> 1 then Some (- 1 :: int, st\<lparr>cur_dev := None\<rparr>)
       else if length buf < 0x200 then None
       else if fat_magic buf then Some (0, st) else Some (- 1, st\<lparr>cur_dev := None\<rparr>)))"
proof -
  have n: "fat_typed (st\<lparr>cur_dev := None\<rparr>)" "boot_signed fresh (st\<lparr>cur_dev := None\<rparr>)" using assms by (simp_all add: fat_typed_def boot_signed_def)
  have y: "fat_typed st" if "block_read d \<noteq> None" using that assms by (simp add: fat_typed_def)
  show ?thesis
  proof (intro ens_rules)
    fix r bs buf assume *: "disk_read st 0 1 = (r, bs)" "into_buf bs (fresh (unat (dev_blksz d))) = Some buf" "\<not> r \<noteq> 1" "fat_magic buf"
    then have "disk_read st 0 1 = (1, bs)" by simp
    note k = signed_now [where fresh = fresh and st = st and d = d and bs = bs and buf = buf, OF this assms(1) *(2, 4)]
    show "case (0 :: int, st) of (ret, st') \<Rightarrow> fat_typed st' \<and> boot_signed fresh st' \<and> cur_dev st' = (if ret = 0 then Some d else None)"
      using k(1) y [OF k(2)] assms(1) by simp
  qed (use n in simp_all)
qed

lemma register_typed:
  assumes "fat_typed st"
  shows "ens (\<lambda>(ret, st'). fat_typed st' \<and> boot_signed fresh st' \<and> cur_dev st' = (if ret = 0 then Some d else None)) (fat_register_device fresh d part_no st)"
  unfolding fat_register_device_def Let_def
proof (rule ens_bind, rule ens_if)
  fix info
  show "ens (\<lambda>(ret, st'). fat_typed st' \<and> boot_signed fresh st' \<and> cur_dev st' = (if ret = 0 then Some d else None)) (Some (- 1 :: int, st\<lparr>cur_dev := None\<rparr>))"
    using assms by (simp add: ens_def fat_typed_def boot_signed_def)
qed (rule check_typed; use assms in \<open>simp add: fat_typed_def split: option.splits\<close>)

text \<open>The calls of the file system by the rest of the program, one after another, with their results.\<close>

datatype fat_call = Fat_register block_dev int | Fat_read "u8 list" u32 u32 | Fat_ls "u8 list"

fun fat_step :: "(nat \<Rightarrow> u8 list) \<Rightarrow> fat_call \<Rightarrow> fat_state \<times> (u32 \<Rightarrow> u8) \<Rightarrow> (int \<times> fat_state \<times> (u32 \<Rightarrow> u8)) option" where
  "fat_step fresh (Fat_register d part_no) (st, r) = map_option (\<lambda>(ret, st). (ret, st, r)) (fat_register_device fresh d part_no st)"
| "fat_step fresh (Fat_read name buffer maxsize) (st, r) = map_option (\<lambda>(ret, r, st). (sint ret, st, r)) (file_fat_read fresh st name buffer maxsize r)"
| "fat_step fresh (Fat_ls dir) (st, r) = map_option (\<lambda>(ret, r, st). (sint ret, st, r)) (file_fat_ls fresh st dir r)"

fun fat_calls :: "(nat \<Rightarrow> u8 list) \<Rightarrow> fat_call list \<Rightarrow> fat_state \<times> (u32 \<Rightarrow> u8) \<Rightarrow> (int list \<times> fat_state \<times> (u32 \<Rightarrow> u8)) option" where
  "fat_calls fresh [] s = Some ([], s)"
| "fat_calls fresh (c # cs) s = Option.bind (fat_step fresh c s) (\<lambda>(ret, s). map_option (\<lambda>(rets, s). (ret # rets, s)) (fat_calls fresh cs s))"

text \<open>The device that a registration leaves: its own when it succeeds, none when it fails; the other calls change nothing.\<close>

fun after_call :: "fat_call \<Rightarrow> int \<Rightarrow> block_dev option \<Rightarrow> block_dev option" where
  "after_call (Fat_register d _) ret _ = (if ret = 0 then Some d else None)"
| "after_call _ _ dev = dev"

fun after_calls :: "fat_call list \<Rightarrow> int list \<Rightarrow> block_dev option \<Rightarrow> block_dev option" where
  "after_calls (c # cs) (ret # rets) dev = after_calls cs rets (after_call c ret dev)"
| "after_calls _ _ dev = dev"

fun registers :: "fat_call \<Rightarrow> bool" where "registers (Fat_register _ _) = True" | "registers _ = False"

lemma keeps_step:
  "fat_typed st \<Longrightarrow> boot_signed fresh st \<Longrightarrow> keeps st st' \<Longrightarrow> fat_typed st' \<and> boot_signed fresh st' \<and> cur_dev st' = cur_dev st"
  using typed_keeps signed_keeps by (simp add: keeps_def)

lemma step_typed:
  assumes "fat_typed st" "boot_signed fresh st" "fat_step fresh c (st, r) = Some (ret, st', r')"
  shows "fat_typed st' \<and> boot_signed fresh st' \<and> cur_dev st' = after_call c ret (cur_dev st) \<and> (\<not> registers c \<longrightarrow> keeps st st')"
proof (cases c)
  case (Fat_register d part_no)
  then have "fat_register_device fresh d part_no st = Some (ret, st')" using assms(3) by auto
  then show ?thesis using ensD [OF register_typed [OF assms(1)], of fresh d part_no "(ret, st')"] Fat_register by auto
next
  case (Fat_read name buffer maxsize)
  then obtain ret where "do_fat_read fresh st name buffer maxsize LS_NO r = Some (ret, r', st')" using assms(3) by (auto simp: file_fat_read_def)
  then have "keeps st st'" using ensD [OF do_fat_read_keeps] by fastforce
  then show ?thesis using keeps_step [OF assms(1, 2), of st'] Fat_read by simp
next
  case (Fat_ls dir)
  then obtain ret where "do_fat_read fresh st dir 0 0 LS_YES r = Some (ret, r', st')" using assms(3) by (auto simp: file_fat_ls_def)
  then have "keeps st st'" using ensD [OF do_fat_read_keeps] by fastforce
  then show ?thesis using keeps_step [OF assms(1, 2), of st'] Fat_ls by simp
qed

lemma calls_typed:
  "fat_typed st \<Longrightarrow> boot_signed fresh st \<Longrightarrow> fat_calls fresh cs (st, r) = Some (rets, st', r') \<Longrightarrow>
     fat_typed st' \<and> boot_signed fresh st' \<and> cur_dev st' = after_calls cs rets (cur_dev st) \<and> (list_all (\<lambda>c. \<not> registers c) cs \<longrightarrow> keeps st st')"
proof (induction cs arbitrary: st r rets)
  case (Cons c cs)
  then obtain ret st1 r1 rs where s: "fat_step fresh c (st, r) = Some (ret, st1, r1)" "fat_calls fresh cs (st1, r1) = Some (rs, st', r')" "rets = ret # rs"
    by (auto simp: bind_eq_Some_conv)
  note k = step_typed [OF Cons.prems(1, 2) s(1)]
  have "fat_typed st1" "boot_signed fresh st1" using k by blast+
  from Cons.IH [OF this s(2)] show ?case using k keeps_trans s(3) by auto
qed simp

text \<open>C18: A registered device always carries a FAT file system, and it is the one of the last registration: through every sequence of registrations, reads and
  listings in which no call leaves a buffer (on a damaged disk one can, and a search need not end), the registered device is the one of the last registration when that
  returned 0, and none when it failed, whatever was registered before; its boot sector can be read through the registered partition and has the signature; reads and
  listings leave device, partition number and partition as they are; and the static blocks keep their sizes.\<close>

theorem fat_state_typed:
  assumes "fat_typed st" "boot_signed fresh st" "fat_calls fresh cs (st, r) = Some (rets, st', r')"
  shows "fat_typed st' \<and> boot_signed fresh st' \<and> cur_dev st' = after_calls cs rets (cur_dev st) \<and>
    (list_all (\<lambda>c. \<not> registers c) cs \<longrightarrow> cur_part_nr st' = cur_part_nr st \<and> cur_part_info st' = cur_part_info st)"
  using calls_typed [OF assms] by (simp add: keeps_def)

text \<open>The disk of the example is registered and its file read.\<close>

lemma fat_state_typed_witness:
  "\<exists>st' r'. fat_calls zeros [Fat_register stick_dev 1, Fat_read (0x2f # stick_name) 0x80100000 0] (no_device, \<lambda>_. 0) = Some ([0, 700], st', r') \<and>
     boot_signed zeros st' \<and> cur_dev st' = Some stick_dev"
proof -
  have t: "fat_typed no_device" "boot_signed zeros no_device"
    by (simp_all add: fat_typed_def boot_signed_def no_device_def stick_st_def MAX_CLUSTSIZE_def)
  obtain st' where s: "file_fat_read zeros stick_st (0x2f # stick_name) 0x80100000 0 (\<lambda>_. 0) =
      Some (700, ram_put 0x80100000 (file_bytes stick_sec stick_st stick_fs stick_entry [5]) (\<lambda>_. 0), st')"
    using block_array.root_file_read [OF stick_array stick_mounted stick_plain stick_dir_ok stick_found, of "[5]" "0x80100000" "\<lambda>_. 0"] stick_file
    by (auto simp: stick_fs_start)
  have c: "fat_calls zeros [Fat_register stick_dev 1, Fat_read (0x2f # stick_name) 0x80100000 0] (no_device, \<lambda>_. 0) =
      Some ([0, 700], st', ram_put 0x80100000 (file_bytes stick_sec stick_st stick_fs stick_entry [5]) (\<lambda>_. 0))"
    by (simp add: stick_registered s)
  from fat_state_typed [OF t c] show ?thesis using c by simp
qed

end
