(* ===== verification/MemCmd.thy ===== *)
theory MemCmd
  imports MenuBoot KermitSpec
begin

text \<open>
  The memory commands \<open>md\<close>, \<open>mm\<close> and \<open>nm\<close> (\<open>common/cmd_mem.c\<close>; the other commands of the file are not built). An access that is not aligned, which
  the processor refuses, is \<open>None\<close>. What \<open>md\<close> prints is the list of its lines; the prompt of \<open>mm\<close>, with the address and the value, is left out.
\<close>

subsection \<open>Model\<close>

record mem_cmd =
  base_address :: u32
  dp_last_addr :: u32
  dp_last_size :: u32
  dp_last_length :: u32
  mm_last_addr :: u32
  mm_last_size :: u32

definition cmd_get_data_size :: "string \<Rightarrow> int \<Rightarrow> int" where
  "cmd_get_data_size arg default_size =
     (let len = length arg
      in if len > 2 \<and> arg ! (len - 2) = CHR ''.''
         then (if arg ! (len - 1) = CHR ''b'' then 1
               else if arg ! (len - 1) = CHR ''w'' then 2
               else if arg ! (len - 1) = CHR ''l'' then 4
               else if arg ! (len - 1) = CHR ''s'' then - 2
               else - 1)
         else default_size)"

definition mem_load :: "u32 \<Rightarrow> u32 \<Rightarrow> (u32 \<Rightarrow> u8) \<Rightarrow> u32 option" where
  "mem_load sz a r =
     (if sz = 4 then (if a mod 4 = 0 then Some (of_le32 (ram_bytes r a 4)) else None)
      else if sz = 2 then (if a mod 2 = 0 then Some (ucast (half_at (ram_bytes r a 2) 0)) else None)
      else Some (ucast (r a)))"

definition mem_unit :: "u32 \<Rightarrow> u32 \<Rightarrow> u8 list" where
  "mem_unit sz v = (if sz = 4 then le32 v else if sz = 2 then [ucast v, ucast (drop_bit 8 v)] else [ucast v])"

definition mem_store :: "u32 \<Rightarrow> u32 \<Rightarrow> u32 \<Rightarrow> (u32 \<Rightarrow> u8) \<Rightarrow> (u32 \<Rightarrow> u8) option" where
  "mem_store sz a v r = (if (sz = 4 \<or> sz = 2) \<and> a mod sz \<noteq> 0 then None else Some (ram_put a (mem_unit sz v) r))"

text \<open>A line of \<open>md\<close>: the address, the values and the characters.\<close>

datatype md_line = Md_line (md_addr: u32) (md_values: "u32 list") (md_text: string)

definition DISP_LINE_LEN :: u32 where "DISP_LINE_LEN = 16"

primrec md_items :: "u32 \<Rightarrow> (u32 \<Rightarrow> u8) \<Rightarrow> nat \<Rightarrow> u32 \<Rightarrow> u32 list option" where
  "md_items sz r 0 a = Some []"
| "md_items sz r (Suc n) a = do { v \<leftarrow> mem_load sz a r; vs \<leftarrow> md_items sz r n (a + sz); Some (v # vs) }"

definition md_char :: "u8 \<Rightarrow> char" where "md_char c = (if c < 0x20 \<or> c > 0x7e then CHR ''.'' else char_of (unat c))"

text \<open>The lines, the address behind the last one, and whether they were interrupted.\<close>

function md_loop ::
  "('w, 'f) board \<Rightarrow> u32 \<Rightarrow> (u32 \<Rightarrow> u8) \<Rightarrow> u32 \<Rightarrow> u32 \<Rightarrow> 'w console_state \<Rightarrow> (md_line list \<times> u32 \<times> int \<times> 'w console_state) option" where
  "md_loop b sz r addr nbytes cs =
     (let linebytes = (if nbytes > DISP_LINE_LEN then DISP_LINE_LEN else nbytes);
          n = (unat linebytes + unat sz - 1) div unat sz
      in do {
        vs \<leftarrow> md_items sz r n addr;
        let line = Md_line addr vs (map md_char (ram_bytes r addr (unat linebytes)));
        let addr = addr + of_nat n * sz;
        (stop, cs) \<leftarrow> ctrlc (b_calls b) (b_drv b) cs;
        if stop then Some ([line], addr, 1, cs)
        else if nbytes - linebytes = 0 then Some ([line], addr, 0, cs)
        else do {
          (lines, addr, rc, cs) \<leftarrow> md_loop b sz r addr (nbytes - linebytes) cs;
          Some (line # lines, addr, rc, cs)
        }
      })"
  by pat_completeness auto

termination md_loop
proof (relation "measure (\<lambda>(b, sz, r, addr, nbytes, cs). unat nbytes)")
  fix nbytes linebytes :: u32
  assume l: "linebytes = (if nbytes > DISP_LINE_LEN then DISP_LINE_LEN else nbytes)" and n: "nbytes - linebytes \<noteq> 0"
  then have "linebytes = 16" "16 < nbytes" by (auto simp: DISP_LINE_LEN_def split: if_splits)
  then have "unat (nbytes - linebytes) < unat nbytes" by (simp add: unat_sub word_le_nat_alt word_less_nat_alt)
  then show "((b, sz, r, addr', nbytes - linebytes, cs'), (b, sz, r, addr, nbytes, cs)) \<in> measure (\<lambda>(b, sz, r, addr, nbytes, cs). unat nbytes)"
    for b sz r addr addr' cs cs' by simp
qed auto

declare md_loop.simps [simp del]

text \<open>The result, with the lines. \<open>rep\<close> is the flag of a repeated command.\<close>

definition do_mem_md ::
  "('w, 'f) board \<Rightarrow> bool \<Rightarrow> string list \<Rightarrow> mem_cmd \<Rightarrow> ('w, 'f) menu_state \<Rightarrow> (int \<times> md_line list \<times> mem_cmd \<times> ('w, 'f) menu_state) option" where
  "do_mem_md b rep argv g s =
     (if length argv < 2 \<or> \<not> rep \<and> cmd_get_data_size (argv ! 0) 4 < 0 then Some (1, [], g, s)
      else (let sz = (if rep then dp_last_size g else word_of_int (cmd_get_data_size (argv ! 0) 4));
                addr = (if rep then dp_last_addr g else fst (simple_strtoul (argv ! 1) 16) + base_address g);
                len = (if \<not> rep \<and> length argv > 2 then fst (simple_strtoul (argv ! 2) 16) else dp_last_length g)
            in do {
              (lines, addr, rc, cs) \<leftarrow> md_loop b sz (ram s) addr (len * sz) (con s);
              Some (rc, lines, g\<lparr>dp_last_addr := addr, dp_last_length := len, dp_last_size := sz\<rparr>, s\<lparr>con := cs\<rparr>)
            }))"

text \<open>The loop of \<open>mod_mem\<close>: the address at the end.\<close>

partial_function (option) mod_loop ::
  "('w, 'f) board \<Rightarrow> bool \<Rightarrow> u32 \<Rightarrow> u32 \<Rightarrow> ('w, 'f) menu_state \<Rightarrow> (u32 \<times> ('w, 'f) menu_state) option" where
  "mod_loop b incrflag sz addr s =
     Option.bind (mem_load sz addr (ram s)) (\<lambda>_.
     Option.bind (readline (b_calls b) (b_drv b) (Some '' ? '') False (console_buffer s) (con s)) (\<lambda>(nbytes, buf, cs).
       let s = s\<lparr>con := cs, console_buffer := buf\<rparr>
       in if nbytes = 0 \<or> nbytes = 1 \<and> buf ! 0 = CHR ''-''
          then (if incrflag then Some (if nbytes \<noteq> 0 then addr - sz else addr + sz, s) else mod_loop b incrflag sz addr s)
          else (let (i, endp) = simple_strtoul (cstr buf) 16
                in if length endp = length (cstr buf) then Some (addr, s)
                   else Option.bind (mem_store sz addr i (ram s)) (\<lambda>r.
                     mod_loop b incrflag sz (if incrflag then addr + sz else addr) (s\<lparr>ram := r\<rparr>)))))"

definition mod_mem ::
  "('w, 'f) board \<Rightarrow> bool \<Rightarrow> bool \<Rightarrow> string list \<Rightarrow> mem_cmd \<Rightarrow> ('w, 'f) menu_state \<Rightarrow> (int \<times> mem_cmd \<times> ('w, 'f) menu_state) option" where
  "mod_mem b incrflag rep argv g s =
     (if length argv \<noteq> 2 \<or> \<not> rep \<and> cmd_get_data_size (argv ! 0) 4 < 0 then Some (1, g, s)
      else (let sz = (if rep then mm_last_size g else word_of_int (cmd_get_data_size (argv ! 0) 4));
                addr = (if rep then mm_last_addr g else fst (simple_strtoul (argv ! 1) 16) + base_address g)
            in do {
              (addr, s) \<leftarrow> mod_loop b incrflag sz addr s;
              Some (0, g\<lparr>mm_last_addr := addr, mm_last_size := sz\<rparr>, s)
            }))"

definition do_mem_mm where "do_mem_mm b = mod_mem b True"
definition do_mem_nm where "do_mem_nm b = mod_mem b False"

subsection \<open>Display\<close>

text \<open>The value at an aligned address, by the width.\<close>

definition value_at :: "u32 \<Rightarrow> (u32 \<Rightarrow> u8) \<Rightarrow> u32 \<Rightarrow> u32" where
  "value_at sz r a = (if sz = 4 then of_le32 (ram_bytes r a 4) else if sz = 2 then ucast (half_at (ram_bytes r a 2) 0) else ucast (r a))"

definition widths :: "u32 set" where "widths = {1, 2, 4}"

lemma widths_cases: "sz \<in> widths \<Longrightarrow> (sz = 1 \<Longrightarrow> P) \<Longrightarrow> (sz = 2 \<Longrightarrow> P) \<Longrightarrow> (sz = 4 \<Longrightarrow> P) \<Longrightarrow> P" by (auto simp: widths_def)

lemma mem_load_aligned: "sz \<in> widths \<Longrightarrow> a mod sz = 0 \<Longrightarrow> mem_load sz a r = Some (value_at sz r a)"
  by (elim widths_cases) (simp_all add: mem_load_def value_at_def)

lemma aligned_step:
  assumes "sz \<in> widths" "a mod sz = (0 :: u32)"
  shows "(a + of_nat k * sz) mod sz = 0"
proof -
  have d: "unat sz dvd 2 ^ 32" "unat a mod unat sz = 0"
    using assms by (auto elim!: widths_cases simp: unat_mod [symmetric])
  have "a + of_nat k * sz = of_nat (unat a + k * unat sz)" by simp
  then have "unat (a + of_nat k * sz) mod unat sz = (unat a + k * unat sz) mod unat sz"
    using d(1) by (simp only: unat_of_nat) (simp add: mod_mod_cancel)
  then have "unat ((a + of_nat k * sz) mod sz) = 0" using d(2) by (simp add: unat_mod)
  then show ?thesis by (simp add: unat_eq_zero)
qed

lemma md_items_values:
  "sz \<in> widths \<Longrightarrow> a mod sz = 0 \<Longrightarrow> md_items sz r n a = Some (map (\<lambda>k. value_at sz r (a + of_nat k * sz)) [0..<n])"
proof (induction n arbitrary: a)
  case (Suc n)
  have "(a + sz) mod sz = 0" using aligned_step [OF Suc.prems, of 1] by simp
  moreover have "map (\<lambda>k. value_at sz r (a + of_nat k * sz)) [0..<Suc n] =
      value_at sz r a # map (\<lambda>k. value_at sz r (a + sz + of_nat k * sz)) [0..<n]"
    unfolding upt_conv_Cons [OF zero_less_Suc] map_Suc_upt [symmetric] by (simp add: comp_def algebra_simps)
  ultimately show ?case using Suc by (simp add: mem_load_aligned)
qed simp

text \<open>The values, the text and the addresses of the lines that show \<open>n\<close> values from an address on.\<close>

definition shows_mem :: "u32 \<Rightarrow> (u32 \<Rightarrow> u8) \<Rightarrow> u32 \<Rightarrow> nat \<Rightarrow> md_line list \<Rightarrow> bool" where
  "shows_mem sz r a n ls \<longleftrightarrow>
     concat (map md_values ls) = map (\<lambda>k. value_at sz r (a + of_nat k * sz)) [0..<n] \<and>
     concat (map md_text ls) = map md_char (ram_bytes r a (n * unat sz)) \<and>
     map md_addr ls = map (\<lambda>k. a + of_nat (16 * k)) [0..<length ls]"

lemma upt_shift: "[m..<m + n] = map ((+) m) [0..<n]" by (simp add: map_add_upt [of m n, unfolded add.commute [of _ m]])

lemma unit_count: "m * unat sz = 16 \<Longrightarrow> of_nat m * sz = (16 :: u32) \<and> sz * of_nat m = 16"
proof -
  assume "m * unat sz = 16"
  then have "of_nat (m * unat sz) = (of_nat 16 :: u32)" by (simp only:)
  then show ?thesis by (simp add: mult.commute)
qed

lemma ram_bytes_add: "ram_bytes r a (m + n) = ram_bytes r a m @ ram_bytes r (a + of_nat m) n"
  unfolding ram_bytes_def upt_add_eq_append [OF le0] map_append by (simp add: upt_shift comp_def algebra_simps)

lemma shows_cons:
  assumes "shows_mem sz r (a + 16) n ls" "m * unat sz = 16"
  shows "shows_mem sz r a (m + n)
    (Md_line a (map (\<lambda>k. value_at sz r (a + of_nat k * sz)) [0..<m]) (map md_char (ram_bytes r a 16)) # ls)"
proof -
  note sz = unit_count [OF assms(2)]
  have "map (\<lambda>k. value_at sz r (a + of_nat k * sz)) [0..<m + n] =
      map (\<lambda>k. value_at sz r (a + of_nat k * sz)) [0..<m] @ map (\<lambda>k. value_at sz r (a + 16 + of_nat k * sz)) [0..<n]"
    unfolding upt_add_eq_append [OF le0] map_append by (simp add: upt_shift comp_def algebra_simps sz)
  moreover have "ram_bytes r a ((m + n) * unat sz) = ram_bytes r a 16 @ ram_bytes r (a + 16) (n * unat sz)"
    using ram_bytes_add [of r a 16 "n * unat sz"] assms(2) by (simp add: add_mult_distrib)
  moreover have "map (\<lambda>k. a + of_nat (16 * k)) [0..<Suc (length ls)] = a # map (\<lambda>k. a + 16 + of_nat (16 * k)) [0..<length ls]"
    unfolding upt_conv_Cons [OF zero_less_Suc] map_Suc_upt [symmetric] by (simp add: comp_def algebra_simps)
  ultimately show ?thesis using assms(1) by (simp add: shows_mem_def)
qed

lemma md_loop_shows:
  fixes nbytes :: u32
  assumes "sz \<in> widths" "\<And>cs. quiet_line cs \<Longrightarrow> \<exists>cs'. ctrlc (b_calls b) (b_drv b) cs = Some (False, cs') \<and> quiet_line cs'"
  shows "a mod sz = 0 \<Longrightarrow> unat nbytes = n * unat sz \<Longrightarrow> quiet_line cs \<Longrightarrow>
    \<exists>ls cs'. md_loop b sz r a nbytes cs = Some (ls, a + of_nat n * sz, 0, cs') \<and> shows_mem sz r a n ls \<and> quiet_line cs'"
proof (induction "unat nbytes" arbitrary: a nbytes n cs rule: less_induct)
  case less
  obtain c1 where c1: "ctrlc (b_calls b) (b_drv b) cs = Some (False, c1)" "quiet_line c1" using assms(2) less.prems(3) by blast
  have u: "unat sz \<in> {1, 2, 4}" using assms(1) by (auto elim: widths_cases)
  note it = md_items_values [OF assms(1) less.prems(1)]
  show ?case
  proof (cases "nbytes > DISP_LINE_LEN")
    case False
    have "(unat nbytes + unat sz - 1) div unat sz = n" using less.prems(2) u by auto
    moreover have "shows_mem sz r a n [Md_line a (map (\<lambda>k. value_at sz r (a + of_nat k * sz)) [0..<n]) (map md_char (ram_bytes r a (unat nbytes)))]"
      using less.prems(2) by (simp add: shows_mem_def)
    ultimately show ?thesis using False it c1 by (subst md_loop.simps) (simp add: Let_def)
  next
    case True
    obtain m where m: "m * unat sz = 16" "(16 + unat sz - 1) div unat sz = m"
    proof (rule that [of "16 div unat sz"])
      show "16 div unat sz * unat sz = 16" "(16 + unat sz - 1) div unat sz = 16 div unat sz" using u by auto
    qed
    have gt: "16 < unat nbytes" using True by (simp add: DISP_LINE_LEN_def word_less_nat_alt)
    have sub: "unat (nbytes - 16) = unat nbytes - 16" using gt by (simp add: unat_sub word_le_nat_alt)
    have mn: "m < n" using gt m(1) less.prems(2) u by auto
    note step = unit_count [OF m(1), THEN conjunct1]
    have al: "(a + 16) mod sz = 0" using aligned_step [OF assms(1) less.prems(1), of m] by (simp add: step)
    have "unat (nbytes - 16) = (n - m) * unat sz" using sub less.prems(2) m(1) by (simp add: diff_mult_distrib)
    from less.hyps [OF _ al this c1(2)] gt sub obtain ls c2 where
      ls: "md_loop b sz r (a + 16) (nbytes - 16) c1 = Some (ls, a + 16 + of_nat (n - m) * sz, 0, c2)" "shows_mem sz r (a + 16) (n - m) ls" "quiet_line c2"
      by auto
    have e: "a + 16 + of_nat (n - m) * sz = a + of_nat n * sz"
      using mn step by (simp add: of_nat_diff left_diff_distrib)
    have ne: "nbytes - 16 \<noteq> 0" using gt sub by auto
    have "md_loop b sz r a nbytes cs =
        Some (Md_line a (map (\<lambda>k. value_at sz r (a + of_nat k * sz)) [0..<m]) (map md_char (ram_bytes r a 16)) # ls, a + of_nat n * sz, 0, c2)"
      using True it [of r m] c1(1) ls(1) ne m(2) e step by (subst md_loop.simps) (simp add: Let_def DISP_LINE_LEN_def)
    moreover have "m + (n - m) = n" using mn by simp
    ultimately show ?thesis using shows_cons [OF ls(2) m(1)] ls(3) by auto
  qed
qed

text \<open>A serial line on which no key arrives.\<close>

definition no_key :: "('u \<Rightarrow> string) \<Rightarrow> serial_drv \<Rightarrow> 'u console_state \<Rightarrow> bool" where
  "no_key pending drv cs \<longleftrightarrow> on_serial drv cs \<and> pending (world cs) = []"

context uart_line
begin

lemma no_ctrlc:
  assumes "no_key pending drv cs"
  shows "\<exists>cs'. ctrlc (serial_calls io drv) drv cs = Some (False, cs') \<and> no_key pending drv cs'"
proof -
  have cs: "on_serial drv cs" "pending (world cs) = []" using assms by (simp_all add: no_key_def)
  obtain t u where t: "uart_tstc io (world cs) = (t, u)" by fastforce
  have "pending u = [] \<and> t = 0" using tstc_polls [OF t] cs(2) by auto
  then show ?thesis using t cs by (simp add: ctrlc_def serial_tstc_call [OF cs(1)] serial_calls_def no_key_def)
qed

end

subsection \<open>Modification\<close>

lemma length_mem_unit: "sz \<in> widths \<Longrightarrow> length (mem_unit sz v) = unat sz" by (elim widths_cases) (simp_all add: mem_unit_def)

lemma mem_store_aligned: "sz \<in> widths \<Longrightarrow> a mod sz = 0 \<Longrightarrow> mem_store sz a v r = Some (ram_put a (mem_unit sz v) r)"
  by (simp add: mem_store_def)

text \<open>A line that is a number, and one that ends the command.\<close>

definition edited_line :: "string \<Rightarrow> string" where "edited_line keys = foldl edit_key [] keys"

definition num_line :: "string \<Rightarrow> bool" where
  "num_line keys \<longleftrightarrow> (\<forall>c\<in>set keys. \<not> stop_key c) \<and> edited_line keys \<noteq> [] \<and> edited_line keys \<noteq> ''-'' \<and>
     length (snd (simple_strtoul (edited_line keys) 16)) < length (edited_line keys)"

definition end_line :: "string \<Rightarrow> bool" where
  "end_line keys \<longleftrightarrow> (\<forall>c\<in>set keys. \<not> stop_key c) \<and> edited_line keys \<noteq> [] \<and> edited_line keys \<noteq> ''-'' \<and>
     snd (simple_strtoul (edited_line keys) 16) = edited_line keys"

definition line_value :: "string \<Rightarrow> u32" where "line_value keys = fst (simple_strtoul (edited_line keys) 16)"

definition units :: "u32 \<Rightarrow> string list \<Rightarrow> u8 list" where "units sz ls = concat (map (mem_unit sz \<circ> line_value) ls)"

definition typed :: "string list \<Rightarrow> string" where "typed ls = concat (map (\<lambda>l. l @ [CHR 13]) ls)"

context tty
begin

lemma read_number:
  fixes s :: "('u, 'f) menu_state"
  assumes "b_calls b = calls" "b_drv b = drv" "on_serial drv (con s)" "length (console_buffer s) = CFG_CBSIZE"
    "pending (world (con s)) = keys @ CHR 13 # rest" "\<forall>c\<in>set keys. \<not> stop_key c"
  shows "\<exists>buf cs. readline (b_calls b) (b_drv b) (Some '' ? '') False (console_buffer s) (con s) = Some (int (length (edited_line keys)), buf, cs) \<and>
    length buf = CFG_CBSIZE \<and> cstr buf = edited_line keys \<and> on_serial drv cs \<and> pending (world cs) = rest"
proof -
  have "CHR 10 \<notin> set '' ? ''" "stop_key (CHR 13)" by (simp_all add: stop_key_def)
  from readline_line [OF assms(3, 4) this(1) assms(5, 6) this(2)]
  obtain buf cs where r: "readline calls drv (Some '' ? '') False (console_buffer s) (con s) = Some (int (length (edited_line keys)), buf, cs)"
    "length buf = CFG_CBSIZE" "cstr buf = edited_line keys" "same_con (con s) cs" "pending (world cs) = rest"
    by (auto simp: line_result_def edited_line_def)
  then show ?thesis using assms(1-3) same_con_serial [OF r(4)] by blast
qed

lemma first_key: "cstr buf = c # cs \<Longrightarrow> buf ! 0 = c" by (cases buf) (auto simp: cstr_def split: if_splits)

lemma mod_loop_writes:
  fixes s :: "('u, 'f) menu_state"
  assumes "b_calls b = calls" "b_drv b = drv" "sz \<in> widths" "end_line q"
  shows "on_serial drv (con s) \<Longrightarrow> length (console_buffer s) = CFG_CBSIZE \<Longrightarrow> a mod sz = 0 \<Longrightarrow> \<forall>k\<in>set ls. num_line k \<Longrightarrow>
    pending (world (con s)) = typed ls @ q @ CHR 13 # rest \<Longrightarrow> length (units sz ls) < 2 ^ 32 \<Longrightarrow>
    \<exists>s'. mod_loop b True sz a s = Some (a + of_nat (length ls) * sz, s') \<and> ram s' = ram_put a (units sz ls) (ram s) \<and>
      pending (world (con s')) = rest \<and> on_serial drv (con s') \<and> s' = s\<lparr>con := con s', console_buffer := console_buffer s', ram := ram s'\<rparr>"
proof (induction ls arbitrary: a s)
  case Nil
  have k: "\<forall>c\<in>set q. \<not> stop_key c" using assms(4) by (simp add: end_line_def)
  have "pending (world (con s)) = q @ CHR 13 # rest" using Nil by (simp add: typed_def)
  from read_number [OF assms(1, 2) Nil(1, 2) this k] obtain buf cs where r:
    "readline (b_calls b) (b_drv b) (Some '' ? '') False (console_buffer s) (con s) = Some (int (length (edited_line q)), buf, cs)"
    "cstr buf = edited_line q" "pending (world cs) = rest" "on_serial drv cs" by blast
  have nd: "edited_line q \<noteq> []" "\<not> (length (edited_line q) = Suc 0 \<and> buf ! 0 = CHR ''-'')"
    using assms(4) first_key [of buf] r(2) by (auto simp: end_line_def length_Suc_conv)
  have "length (snd (simple_strtoul (cstr buf) 16)) = length (cstr buf)" using assms(4) r(2) by (simp add: end_line_def)
  then have "mod_loop b True sz a s = Some (a, s\<lparr>con := cs, console_buffer := buf\<rparr>)"
    using nd by (subst mod_loop.simps) (auto simp add: mem_load_aligned [OF assms(3) Nil(3)] r(1) Let_def split_beta)
  moreover have "ram_put a (units sz []) (ram s) = ram s" by (rule ext) (simp add: units_def ram_put_def ram_copy_def)
  ultimately show ?case using r(3, 4) by simp
next
  case (Cons k ls)
  have n: "num_line k" using Cons.prems(4) by simp
  then have kk: "\<forall>c\<in>set k. \<not> stop_key c" by (simp add: num_line_def)
  have "pending (world (con s)) = k @ CHR 13 # typed ls @ q @ CHR 13 # rest" using Cons.prems(5) by (simp add: typed_def)
  from read_number [OF assms(1, 2) Cons.prems(1, 2) this kk] obtain buf cs where r:
    "readline (b_calls b) (b_drv b) (Some '' ? '') False (console_buffer s) (con s) = Some (int (length (edited_line k)), buf, cs)"
    "length buf = CFG_CBSIZE" "cstr buf = edited_line k" "on_serial drv cs" "pending (world cs) = typed ls @ q @ CHR 13 # rest" by blast
  have nd: "edited_line k \<noteq> []" "\<not> (length (edited_line k) = Suc 0 \<and> buf ! 0 = CHR ''-'')"
    using n first_key [of buf] r(3) by (auto simp: num_line_def length_Suc_conv)
  have ne: "length (snd (simple_strtoul (cstr buf) 16)) \<noteq> length (cstr buf)" using n r(3) by (simp add: num_line_def)
  let ?r = "ram_put a (mem_unit sz (line_value k)) (ram s)" and ?s = "s\<lparr>con := cs, console_buffer := buf\<rparr>"
  have "mod_loop b True sz a s = mod_loop b True sz (a + sz) (?s\<lparr>ram := ?r\<rparr>)"
    using nd ne r(3) by (subst mod_loop.simps)
      (auto simp add: mem_load_aligned [OF assms(3) Cons.prems(3)] mem_store_aligned [OF assms(3) Cons.prems(3)] r(1) Let_def split_beta line_value_def)
  moreover have "(a + sz) mod sz = 0" using aligned_step [OF assms(3) Cons.prems(3), of 1] by simp
  from Cons.IH [OF _ _ this, of "?s\<lparr>ram := ?r\<rparr>"] Cons.prems(4, 6) r obtain s' where
    i: "mod_loop b True sz (a + sz) (?s\<lparr>ram := ?r\<rparr>) = Some (a + sz + of_nat (length ls) * sz, s')" "ram s' = ram_put (a + sz) (units sz ls) ?r"
    "pending (world (con s')) = rest" "on_serial drv (con s')" "s' = ?s\<lparr>ram := ?r, con := con s', console_buffer := console_buffer s', ram := ram s'\<rparr>"
    by (auto simp: units_def)
  moreover have "ram_put (a + sz) (units sz ls) ?r = ram_put a (units sz (k # ls)) (ram s)"
    using ram_put_append [of "mem_unit sz (line_value k)" "units sz ls" a "ram s"] Cons.prems(6) length_mem_unit [OF assms(3)]
    by (simp add: units_def)
  moreover have "s' = s\<lparr>con := con s', console_buffer := console_buffer s', ram := ram s'\<rparr>" by (subst i(5)) simp
  ultimately show ?case by (auto simp: algebra_simps)
qed

end

lemma length_units: "sz \<in> widths \<Longrightarrow> length (units sz ls) = length ls * unat sz"
  by (induction ls) (simp_all add: units_def length_mem_unit)

text \<open>What is read back: the low part of the value.\<close>

definition low_part :: "u32 \<Rightarrow> u32 \<Rightarrow> u32" where "low_part sz v = (if sz = 4 then v else take_bit (8 * unat sz) v)"

lemma value_of_unit:
  assumes "sz \<in> widths" "ram_bytes r a (unat sz) = mem_unit sz v"
  shows "value_at sz r a = low_part sz v"
  using assms(1)
proof (elim widths_cases)
  assume "sz = 1"
  then have "r a = ucast v" using assms(2) by (simp add: ram_bytes_def mem_unit_def)
  then show ?thesis using \<open>sz = 1\<close> by (simp add: value_at_def low_part_def) (simp add: bit_eq_iff, auto simp: bit_simps)
next
  assume "sz = 2"
  then have "ram_bytes r a 2 = [ucast v, ucast (drop_bit 8 v)]" using assms(2) by (simp add: mem_unit_def)
  then have "value_at sz r a = ucast (ucast (ucast v :: u8) OR push_bit 8 (ucast (ucast (drop_bit 8 v) :: u8)) :: u16)"
    using \<open>sz = 2\<close> by (simp add: value_at_def half_at_def)
  also have "\<dots> = take_bit 16 v"
  proof (rule bit_word_eqI)
    fix n assume "n < LENGTH(32)"
    show "bit (ucast (ucast (ucast v :: u8) OR push_bit 8 (ucast (ucast (drop_bit 8 v) :: u8)) :: u16) :: u32) n \<longleftrightarrow> bit (take_bit 16 v) n"
      by (cases "n < 8"; cases "n < 16") (auto simp: bit_simps)
  qed
  finally show ?thesis using \<open>sz = 2\<close> by (simp add: low_part_def)
next
  assume "sz = 4"
  then show ?thesis using assms(2) by (simp add: value_at_def mem_unit_def low_part_def)
qed

lemma value_of_units:
  assumes "sz \<in> widths" "k < length ls" "length ls * unat sz < 2 ^ 32"
  shows "value_at sz (ram_put a (units sz ls) r) (a + of_nat k * sz) = low_part sz (line_value (ls ! k))"
proof (rule value_of_unit [OF assms(1)])
  have "(k + 1) * unat sz \<le> length ls * unat sz" using assms(2) by (intro mult_le_mono1) simp
  then have "k * unat sz + unat sz \<le> length (units sz ls)" using length_units [OF assms(1), of ls] by simp
  from ram_bytes_put [OF this] have "ram_bytes (ram_put a (units sz ls) r) (a + of_nat k * sz) (unat sz) = take (unat sz) (drop (k * unat sz) (units sz ls))"
    using assms(3) length_units [OF assms(1), of ls] by simp
  moreover have "take (unat sz) (drop (k * unat sz) (units sz ls)) = mem_unit sz (line_value (ls ! k))"
  proof -
    have "units sz ls = units sz (take k ls) @ mem_unit sz (line_value (ls ! k)) @ units sz (drop (Suc k) ls)"
      by (subst id_take_nth_drop [OF assms(2)]) (simp add: units_def)
    then show ?thesis using length_units [OF assms(1), of "take k ls"] length_mem_unit [OF assms(1)] assms(2) by simp
  qed
  ultimately show "ram_bytes (ram_put a (units sz ls) r) (a + of_nat k * sz) (unat sz) = mem_unit sz (line_value (ls ! k))" by simp
qed

subsection \<open>What the commands do\<close>

text \<open>C21: What is typed into \<open>mm\<close> is in the memory and is what \<open>md\<close> shows: with a width in the name of the command, an aligned address, and lines of numbers arriving on
  the serial line, ended by a line that is not a number, \<open>mm\<close> writes the values one after another and changes nothing else in memory, and \<open>md\<close> on the same
  address then shows the numbers, cut to their width, sixteen bytes in a line.\<close>

theorem typed_memory_shown:
  fixes s :: "('u, 'f) menu_state"
  assumes "uart_line io pending sent delay" "b_calls b = serial_calls io (b_drv b)" "on_serial (b_drv b) (con s)" "length (console_buffer s) = CFG_CBSIZE"
    and "cmd_get_data_size mm 4 = int w" "cmd_get_data_size md 4 = int w" "w \<in> {1, 2, 4}" "simple_strtoul a 16 = (addr, x)"
    and "(addr + base_address g) mod of_nat w = 0" "\<forall>k\<in>set ls. num_line k" "end_line q" "pending (world (con s)) = typed ls @ q @ [CHR 13]"
    and "simple_strtoul n 16 = (of_nat (length ls), y)" "length ls * w < 2 ^ 32"
  shows "\<exists>g' s' lines g2 s2. do_mem_mm b False [mm, a] g s = Some (0, g', s') \<and>
    ram s' = ram_put (addr + base_address g) (units (of_nat w) ls) (ram s) \<and>
    do_mem_md b False [md, a, n] g' s' = Some (0, lines, g2, s2) \<and> ram s2 = ram s' \<and>
    concat (map md_values lines) = map (\<lambda>k. low_part (of_nat w) (line_value k)) ls \<and>
    map md_addr lines = map (\<lambda>k. addr + base_address g + of_nat (16 * k)) [0..<length lines]"
proof -
  have t: "tty (serial_calls io (b_drv b)) (b_drv b) pending sent" using assms(1) by (rule uart_line.serial_tty)
  have sz: "(of_nat w :: u32) \<in> widths" "unat (of_nat w :: u32) = w" using assms(7) by (auto simp: widths_def)
  let ?a = "addr + base_address g" and ?w = "of_nat w :: u32"
  have l: "length (units ?w ls) < 2 ^ 32" using length_units [OF sz(1)] sz(2) assms(14) by simp
  from tty.mod_loop_writes [OF t assms(2) refl sz(1) assms(11, 3, 4, 9, 10, 12) l] obtain s' where
    s': "mod_loop b True ?w ?a s = Some (?a + of_nat (length ls) * ?w, s')" "ram s' = ram_put ?a (units ?w ls) (ram s)" "no_key pending (b_drv b) (con s')"
    by (auto simp: no_key_def)
  let ?g = "g\<lparr>mm_last_addr := ?a + of_nat (length ls) * ?w, mm_last_size := ?w\<rparr>"
  have m: "do_mem_mm b False [mm, a] g s = Some (0, ?g, s')"
    using assms(5, 8) s'(1) by (simp add: do_mem_mm_def mod_mem_def Let_def)
  have q: "\<And>cs. no_key pending (b_drv b) cs \<Longrightarrow> \<exists>cs'. ctrlc (b_calls b) (b_drv b) cs = Some (False, cs') \<and> no_key pending (b_drv b) cs'"
    unfolding assms(2) by (rule uart_line.no_ctrlc [OF assms(1)])
  have "unat (of_nat (length ls) * ?w) = length ls * w" using assms(14) by (simp add: unat_u32_of_nat flip: of_nat_mult)
  then obtain lines cs where lines: "md_loop b ?w (ram s') ?a (of_nat (length ls) * ?w) (con s') = Some (lines, ?a + of_nat (length ls) * ?w, 0, cs)"
    "shows_mem ?w (ram s') ?a (length ls) lines"
    using md_loop_shows [OF sz(1) q assms(9) _ s'(3), of "of_nat (length ls) * ?w" "length ls" "ram s'"] sz(2) by auto
  have "map (\<lambda>k. value_at ?w (ram s') (?a + of_nat k * ?w)) [0..<length ls] = map (\<lambda>k. low_part ?w (line_value k)) ls"
    using value_of_units [OF sz(1)] sz(2) assms(14) s'(2) by (intro nth_equalityI) simp_all
  then have "\<exists>g2 s2. do_mem_md b False [md, a, n] ?g s' = Some (0, lines, g2, s2) \<and> ram s2 = ram s' \<and>
      concat (map md_values lines) = map (\<lambda>k. low_part ?w (line_value k)) ls \<and> map md_addr lines = map (\<lambda>k. ?a + of_nat (16 * k)) [0..<length lines]"
    using lines assms(6, 8, 13) by (simp add: do_mem_md_def Let_def shows_mem_def)
  then show ?thesis using m s'(2) by blast
qed

definition demo_mem :: mem_cmd where
  "demo_mem = \<lparr>base_address = 0, dp_last_addr = 0, dp_last_size = 0, dp_last_length = 0x40, mm_last_addr = 0, mm_last_size = 0\<rparr>"

definition demo_typed :: "string list" where "demo_typed = [''12'', ''cafe'' @ [CHR 8] @ ''f'']"

lemma typed_memory_shown_witness:
  "\<exists>l g' s' lines g2 s2. devs_rep l [serial_dev demo_drv] \<and>
    do_mem_mm (board_on (serial_calls (uart_io 3) demo_drv) demo_drv id) False [''mm.w'', ''80100000''] demo_mem
      (menu_on (tty_console demo_drv l (demo_uart (typed demo_typed @ ''q'' @ [CHR 13])))) = Some (0, g', s') \<and>
    do_mem_md (board_on (serial_calls (uart_io 3) demo_drv) demo_drv id) False [''md.w'', ''80100000'', ''2''] g' s' = Some (0, lines, g2, s2) \<and>
    concat (map md_values lines) = [0x12, 0xcaff]"
proof -
  obtain l where l: "devs_rep l [serial_dev demo_drv]" using devices_init_rep [of "\<lambda>_. True" demo_drv] by auto
  let ?b = "board_on (serial_calls (uart_io 3) demo_drv) demo_drv id"
  let ?s = "menu_on (tty_console demo_drv l (demo_uart (typed demo_typed @ ''q'' @ [CHR 13])))"
  have c: "con ?s = tty_console demo_drv l (demo_uart (typed demo_typed @ ''q'' @ [CHR 13]))" "length (console_buffer ?s) = CFG_CBSIZE"
    by (simp_all add: menu_on_def CFG_CBSIZE_def)
  have b: "b_calls ?b = serial_calls (uart_io 3) (b_drv ?b)" "b_drv ?b = demo_drv" by (simp_all add: board_on_def)
  have os: "on_serial (b_drv ?b) (con ?s)" unfolding c b(2) by (rule tty_console_serial [OF l])
  have p: "map snd (rx (world (con ?s))) = typed demo_typed @ ''q'' @ [CHR 13]" unfolding c(1) by (simp add: tty_console_def)
  have v: "edited_line ''12'' = ''12''" "edited_line (''cafe'' @ [CHR 8] @ ''f'') = ''caff''" "edited_line ''q'' = ''q''"
    by (simp_all add: edited_line_def edit_key_def NUL_def)
  have d: "simple_strtoul ''12'' 16 = (0x12, [])" "simple_strtoul ''caff'' 16 = (0xcaff, [])" "simple_strtoul ''q'' 16 = (0, ''q'')"
    "simple_strtoul ''80100000'' 16 = (0x80100000, [])" "simple_strtoul ''2'' 16 = (2, [])" by code_simp+
  have n: "\<forall>k\<in>set demo_typed. num_line k" "end_line ''q''"
    using v d by (simp_all add: demo_typed_def num_line_def end_line_def stop_key_def)
  have z: "cmd_get_data_size ''mm.w'' 4 = int 2" "cmd_get_data_size ''md.w'' 4 = int 2" by (simp_all add: cmd_get_data_size_def)
  have a: "(0x80100000 + base_address demo_mem) mod of_nat 2 = 0" by (simp add: demo_mem_def)
  have len: "simple_strtoul ''2'' 16 = (of_nat (length demo_typed), [])" "length demo_typed * 2 < 2 ^ 32" by (simp_all add: demo_typed_def d)
  have w: "(2 :: nat) \<in> {1, 2, 4}" by simp
  have vs: "map (\<lambda>k. low_part (of_nat 2) (line_value k)) demo_typed = [0x12, 0xcaff]"
    using v d by (simp add: demo_typed_def low_part_def line_value_def take_bit_eq_mod)
  from typed_memory_shown [OF uart.uart_line_axioms b(1) os c(2) z w d(4) a n p len, unfolded vs] l show ?thesis
    by (elim exE conjE) (intro exI conjI, assumption+)
qed

text \<open>An empty line ends \<open>mm\<close>, one place further.\<close>

theorem return_ends_mm:
  fixes s :: "('u, 'f) menu_state"
  assumes "tty (b_calls b) (b_drv b) pending sent" "on_serial (b_drv b) (con s)" "length (console_buffer s) = CFG_CBSIZE" "sz \<in> widths" "a mod sz = 0"
    "pending (world (con s)) = CHR 13 # rest"
  shows "\<exists>s'. mod_loop b True sz a s = Some (a + sz, s') \<and> ram s' = ram s \<and> pending (world (con s')) = rest"
proof -
  from tty.read_number [OF assms(1) refl refl assms(2, 3), of "[]" rest] assms(6) obtain buf cs where
    "readline (b_calls b) (b_drv b) (Some '' ? '') False (console_buffer s) (con s) = Some (0, buf, cs)" "pending (world cs) = rest"
    by (auto simp: edited_line_def)
  then show ?thesis by (subst mod_loop.simps) (simp add: mem_load_aligned [OF assms(4, 5)])
qed

end
