(* ===== verification/FatDemo.thy ===== *)
theory FatDemo
  imports FatDisk
begin

text \<open>
  The properties of the file system on any device and disk.
\<close>

subsection \<open>Entries in a buffer\<close>

lemma length_concat_const: "\<forall>d\<in>set ss. length d = n \<Longrightarrow> length (concat ss) = n * length ss" by (induction ss) simp_all

lemma entry_at_concat:
  "length pre = 32 * i \<Longrightarrow> \<forall>d\<in>set ss. length d = 32 \<Longrightarrow> \<forall>k<length ss. entry_at (pre @ concat ss @ post) (i + k) = Some (ss ! k)"
proof (induction ss arbitrary: pre i)
  case (Cons d ds)
  have "\<forall>k<length ds. entry_at ((pre @ d) @ concat ds @ post) (i + 1 + k) = Some (ds ! k)" by (rule Cons.IH) (use Cons.prems in simp_all)
  moreover have "entry_at (pre @ concat (d # ds) @ post) i = Some d" using Cons.prems by (simp add: entry_at_def)
  ultimately show ?case by (auto simp: less_Suc_eq_0_disj)
qed simp

subsection \<open>Files\<close>

text \<open>C4: a file in the root directory of a FAT12 or FAT16 volume is loaded whole and in order: \<open>file_fat_read\<close> returns the size in its entry, and memory from
  the buffer on holds exactly the first bytes of its chain of clusters, although runs of consecutive clusters are read at once and the last cluster in part. The
  file is found by its long name or by its short one, in any case and behind any number of delimiters.\<close>

theorem fat_file_loaded:
  assumes "block_array read_fn bsz sec nblk" "mounted fresh read_fn bsz sec nblk st b bits" "root_name filename fname" "dir_ok (root_dir sec st b bits)"
    "dir_find fname (root_dir sec st b bits) = Some d" "file_on sec nblk st (fs_start fresh b bits) d cs"
  shows "\<exists>st'. file_fat_read fresh st filename buffer 0 r = Some (d_size d, ram_put buffer (file_bytes sec st (fs_start fresh b bits) d cs) r, st')"
  using block_array.root_file_read [OF assms] by blast

lemma fat_file_loaded_witness:
  "\<exists>st'. file_fat_read zeros stick_st (0x2f # stick_name) 0x80100000 0 (\<lambda>_. 0) =
     Some (700, ram_put 0x80100000 (file_bytes stick_sec stick_st stick_fs stick_entry [5]) (\<lambda>_. 0), st')"
  using fat_file_loaded [OF stick_array stick_mounted stick_plain stick_dir_ok stick_found, of "[5]" "0x80100000" "\<lambda>_. 0"] stick_file
  by (simp add: stick_fs_start)

text \<open>C17: reading a file comes to an end: on every volume whose clusters are not empty, for every file whose size plus one cluster does not exceed 2^32, for every content of the
  table and of the clusters, and for every device that stores no more than it is asked for, \<open>get_contents\<close> returns, with a number of bytes or an error. Neither a chain that runs
  in a circle nor one that leaves the table keeps it. (Empty clusters can: \<open>FatEmpty\<close>.)\<close>

theorem fat_contents_end:
  assumes "block_reads read_fn bsz" "reads_with st read_fn" "fs_ok bsz fs" "0 < clust_bytes fs" "unat (d_size d) + clust_bytes fs \<le> 2 ^ 32"
  shows "\<exists>ret r' fs'. get_contents st d buffer 0 r fs = Some (ret, r', fs')"
proof -
  have "unat (clust_size fs) * unat (sect_size fs) < 65536 * 65536"
    by (rule mult_strict_mono') (use unat_u16_bound [of "clust_size fs"] unat_u16_bound [of "sect_size fs"] in simp_all)
  then have "clust_bytes fs < 2 ^ 32" by (simp add: clust_bytes_def)
  then have b: "unat (ucast (clust_size fs) * ucast (sect_size fs) :: u32) = clust_bytes fs" by (rule unat_clust_bytes)
  then have "0 < (ucast (clust_size fs) * ucast (sect_size fs) :: u32)" using assms(4) by (simp add: word_less_nat_alt)
  from block_reads.contents_total [OF assms(1-3) this, of "d_size d" "START fs d" 0 buffer r] assms(5) b
  show ?thesis by (auto simp: get_contents_def)
qed

lemma fat_contents_end_witness:
  "\<exists>ret r' fs'. get_contents stick_st stick_entry 0x80100000 0 (\<lambda>_. 0) stick_fs = Some (ret, r', fs')"
proof (rule fat_contents_end)
  show "block_reads stick_read 512" using stick_array by (simp add: block_array_def)
  show "reads_with stick_st stick_read" "fs_ok 512 stick_fs" using stick_on_volume by (simp_all add: on_volume_def)
  show "0 < clust_bytes stick_fs" "unat (d_size stick_entry) + clust_bytes stick_fs \<le> 2 ^ 32"
    by (simp_all add: clust_bytes_def stick_file(2)) (simp_all add: stick_fs_def)
qed

text \<open>C16: \<open>get_fatent\<close> gives the entry of the table on the disk, as the format defines it for 12, 16 and 32 bits, entries of 12 bits that lie across two bytes
  and halves included; and it keeps the invariant of its cache, which holds six sectors at a time.\<close>

theorem fat_entry_cached:
  assumes "block_array read_fn bsz sec nblk" "on_volume read_fn bsz nblk st fs" "cache_ok sec st fs" "fat_has (fatsize fs) (fat_bytes sec st fs) (unat e)"
  shows "\<exists>fs'. get_fatent st e fs = Some (fat_entry (fatsize fs) (fat_bytes sec st fs) (unat e), fs') \<and>
    on_volume read_fn bsz nblk st fs' \<and> cache_ok sec st fs' \<and> same_geo fs fs'"
  by (rule block_array.get_fatent_reads [OF assms])

lemma fat_entry_cached_witness: "\<exists>fs'. get_fatent stick_st 2 stick_fs = Some (5, fs') \<and> cache_ok stick_sec stick_st fs'"
proof -
  have b: "fat_bytes stick_sec stick_st stick_fs = stick_sec 1" by (simp add: fat_bytes_def stick_fs_def stick_psec upt_rec)
  have s1: "stick_sec (Suc 0) = [0xf8, 0xff, 0xff, 0xff, 5, 0, 0, 0, 0, 0, 0xff, 0xff] @ replicate 500 0"
    by (simp add: stick_sec_def image_sector_def stick_img_def)
  have c: "cache_ok stick_sec stick_st stick_fs" by (simp add: cache_ok_def stick_fs_def)
  have "fatsize stick_fs = 16" by (simp add: stick_fs_def)
  then have "fat_has (fatsize stick_fs) (fat_bytes stick_sec stick_st stick_fs) (unat (2 :: u32))"
    "fat_entry (fatsize stick_fs) (fat_bytes stick_sec stick_st stick_fs) (unat (2 :: u32)) = 5"
    by (simp_all add: b s1 fat_has_def fat_pos_def fat_width_def fat_entry_def half_at_def)
  then show ?thesis using fat_entry_cached [OF stick_array stick_on_volume c, of 2] by auto
qed

text \<open>C20: a long name is read as it was stored: the format cuts the name into slots of thirteen characters, stored from the last piece to the first before the entry of
  the file, and \<open>get_vfatname\<close>, called at the first slot, gives the whole name in small letters and puts the entry behind the slots in place of the first, when
  all of them lie in the buffer.\<close>

theorem long_name_found:
  assumes "name \<noteq> []" "length name \<le> 13 * VFAT_MAXSEQ" "0 \<notin> set name" "name ! 0 \<noteq> DELETED_FLAG" "name ! 0 \<noteq> aRING"
    "length pre = 32 * i" "length e = 32" "32 * (i + slot_count name) < unat (sect_size fs) * (if c = 0 then PREFETCH_BLOCKS else unat (clust_size fs))"
    "buf = pre @ concat (vfat_slots ck name) @ e @ post"
  shows "get_vfatname st c buf i fs = Some (Some (downcase name, put_entry i e buf), st, fs)"
proof -
  let ?ss = "vfat_slots ck name"
  have l: "\<forall>d\<in>set ?ss. length d = 32" by (auto simp: vfat_slots_def vfat_slot_fields(4))
  then have "\<forall>k<length ?ss. entry_at buf (i + k) = Some (?ss ! k)" unfolding assms(9) by (rule entry_at_concat [OF assms(6)])
  moreover have "entry_at buf (i + length ?ss) = Some e"
  proof -
    have "length (pre @ concat ?ss) = 32 * (i + length ?ss)" using assms(6) l by (simp add: length_concat_const [of _ 32])
    from entry_at_concat [OF this, of "[e]" post] assms(7) show ?thesis by (simp add: assms(9))
  qed
  moreover have "unmark name = name" using assms(1, 4, 5) by (cases name) (simp_all add: unmark_def)
  ultimately show ?thesis
    using get_vfatname_here [OF slots_ok_vfat [OF assms(1, 2)], of ck buf i e fs c st] assms(8) by (simp add: long_chars_slots [OF assms(3)])
qed

lemma long_name_found_witness:
  "get_vfatname stick_st 0 (replicate 32 0xe5 @ concat (vfat_slots 0x51 stick_name) @ stick_entry @ []) 1 stick_fs =
     Some (Some (stick_name, put_entry 1 stick_entry (replicate 32 0xe5 @ concat (vfat_slots 0x51 stick_name) @ stick_entry @ [])), stick_st, stick_fs)"
proof -
  have d: "downcase stick_name = stick_name" by (simp add: downcase_def stick_name_def TOLOWER_def)
  have n: "stick_name \<noteq> []" "length stick_name \<le> 13 * VFAT_MAXSEQ" "0 \<notin> set stick_name" "stick_name ! 0 \<noteq> DELETED_FLAG" "stick_name ! 0 \<noteq> aRING"
    by (simp_all add: stick_name_def VFAT_MAXSEQ_def DELETED_FLAG_def aRING_def)
  have l: "length (replicate 32 (0xe5 :: u8)) = 32 * 1" "length stick_entry = 32" by (simp_all add: stick_entry_def)
  have r: "32 * (1 + slot_count stick_name) < unat (sect_size stick_fs) * (if (0 :: u32) = 0 then PREFETCH_BLOCKS else unat (clust_size stick_fs))"
    by (simp add: stick_count stick_fs_def PREFETCH_BLOCKS_def)
  show ?thesis using long_name_found [OF n l r refl, where ck = "0x51" and post = "[]" and st = stick_st] unfolding d .
qed

end
