(* ===== verification/FatFail.thy ===== *)
theory FatFail
  imports FatDemo
begin

text \<open>
  Partitions, the commands of a USB disk, and the failures that the code of the file system does not see.
\<close>

subsection \<open>Partitions\<close>

text \<open>C31: the number of a primary partition leads to its entry in the table of the first block: \<open>get_partition_info\<close> gives the start and the size that entry
  \<open>n - 1\<close> holds, when it is in use and is not an extended one and the first entry has a valid boot flag; the other entries may hold anything.\<close>

theorem primary_partition_found:
  assumes "part_type d = PART_TYPE_DOS" "block_read d = Some read_fn" "read_fn 0 1 = (1, tbl)" "length tbl = 512" "length (fresh 512) = 512"
    "dos_magic tbl" "part_ent tbl 0 ! 0 = 0x80 \<or> part_ent tbl 0 ! 0 = 0" "n < 4" "sys_ind (part_ent tbl n) \<noteq> 0" "\<not> is_extended (sys_ind (part_ent tbl n))"
  shows "get_partition_info fresh d (int n + 1) info =
    Some (Some (info\<lparr>p_blksz := 512, p_start := start4 (part_ent tbl n), p_size := size4 (part_ent tbl n), p_type := BOOT_PART_TYPE\<rparr>))"
proof -
  have "read_sector d 0 (fresh 512) = Some (True, tbl)" using assms(2-5) by (simp add: read_sector_def into_buf_def)
  moreover have "find_part tbl True (int n + 1) 0 4 1 = Inl n"
  proof -
    have "n = 0 \<or> n = 1 \<or> n = 2 \<or> n = 3" using assms(8) by linarith
    then show ?thesis using assms(9, 10) by (elim disjE) (simp_all add: numeral_eq_Suc Let_def)
  qed
  ultimately show ?thesis using assms(1, 6, 7)
    by (simp add: get_partition_info_def get_partition_info_dos_def DEFAULT_SECTOR_SIZE_def) (subst get_partition_info_extended.simps, auto simp: DEFAULT_SECTOR_SIZE_def)
qed

definition stick_table :: "u8 list" where
  "stick_table = replicate 446 0 @ [0x80, 0, 0, 0, 0xb, 0, 0, 0, 0x3f, 0, 0, 0, 0, 0x10, 0, 0] @ replicate 48 0 @ [0x55, 0xaa]"

lemma primary_partition_found_witness:
  "get_partition_info zeros (stick_dev\<lparr>part_type := PART_TYPE_DOS, block_read := Some (\<lambda>_ _. (1, stick_table))\<rparr>) 1 \<lparr>p_start = 0, p_size = 0, p_blksz = 0, p_type = []\<rparr> =
     Some (Some \<lparr>p_start = 0x3f, p_size = 0x1000, p_blksz = 512, p_type = ''U-Boot''\<rparr>)"
proof -
  have p: "part_ent stick_table 0 = [0x80, 0, 0, 0, 0xb, 0, 0, 0, 0x3f, 0, 0, 0, 0, 0x10, 0, 0]"
    by (simp add: part_ent_def stick_table_def DOS_PART_TBL_OFFSET_def)
  have m: "dos_magic stick_table" by (simp add: dos_magic_def stick_table_def DOS_PART_MAGIC_OFFSET_def nth_append)
  have l: "length stick_table = 512" by (simp add: stick_table_def)
  have s: "start4 (part_ent stick_table 0) = 0x3f" "size4 (part_ent stick_table 0) = 0x1000" "sys_ind (part_ent stick_table 0) = 0xb"
    by (simp_all add: p start4_def size4_def sys_ind_def word_at_def of_le32_def)
  have e: "\<not> is_extended 0xb" by (simp add: is_extended_def)
  let ?d = "stick_dev\<lparr>part_type := PART_TYPE_DOS, block_read := Some (\<lambda>_ _. (1, stick_table))\<rparr>"
  show ?thesis
    using primary_partition_found [of ?d "\<lambda>_ _. (1, stick_table)" stick_table zeros 0 "\<lparr>p_start = 0, p_size = 0, p_blksz = 0, p_type = []\<rparr>"] m l s e
    by (simp add: zeros_def p BOOT_PART_TYPE_def)
qed

subsection \<open>USB disks\<close>

text \<open>C19: a disk on the bus is read as its blocks: for a device that answers a read of at most ten blocks, \<open>usb_stor_read\<close> gives any number of blocks, in pieces
  of ten and a rest, complete and in order, and reports the number that was asked for.\<close>

theorem usb_blocks_read:
  assumes "usb_disk fresh devs desc tr sec nblk" "unat b + unat n \<le> nblk"
  shows "usb_block_read fresh devs desc s b n = (n, concat (map sec [unat b..<unat b + unat n]))"
  by (rule usb_disk.blocks_read [OF assms])

lemma usb_blocks_read_witness:
  "usb_block_read zeros (image_devs stick_img) image_desc () 3 25 = (25, concat (map stick_sec [3..<28]))"
proof -
  have "unat (3 :: u32) + unat (25 :: u32) \<le> 65536" by simp
  from usb_blocks_read [OF image.usb_disk_axioms this, of stick_img] show ?thesis by (simp add: stick_sec_def del: upt_rec_numeral)
qed

text \<open>C35: the bulk transport takes a short answer for a whole one: when the device reports success, the result is success, whatever residue it declares and however
  few of the bytes that were asked for it delivered. The residue is read and not used.\<close>

theorem short_transfer_accepted:
  assumes "US_DIRECTION (cmd srb ! 0)" "datalen srb \<noteq> 0" "bulk_out u (cbw_bytes junk srb (CBWTag s)) (hc s) = (0, d1)"
    "bulk_data u True (unat (datalen srb)) d1 = (0, stalled, bs, d2)" "length bs \<le> unat (datalen srb)"
    "bulk_status u UMASS_BBB_CSW_SIZE d2 = (0, stalled2, le32 CSWSIGNATURE @ le32 (CBWTag s) @ le32 residue @ [0], d3)"
  shows "usb_stor_BBB_transport u junk srb s = (USB_STOR_TRANSPORT_GOOD, bs, s\<lparr>hc := d3, CBWTag := CBWTag s + 1\<rparr>)"
proof -
  let ?csw = "le32 CSWSIGNATURE @ le32 (CBWTag s) @ le32 residue @ [0]"
  have w: "word_at ?csw 0 = CSWSIGNATURE" "word_at ?csw 4 = CBWTag s" "?csw ! 12 = 0" "length ?csw = 13"
    by (simp_all add: word_at_def nth_append)
  have r: "read_csw u (s\<lparr>CBWTag := CBWTag s + 1, hc := d2\<rparr>) = (0, stalled2, ?csw, s\<lparr>hc := d3, CBWTag := CBWTag s + 1\<rparr>)"
    using assms(6) w(4) by (simp add: read_csw_def UMASS_BBB_CSW_SIZE_def)
  have c: "bbb_check u srb bs (s\<lparr>CBWTag := CBWTag s + 1, hc := d2\<rparr>) = (0, bs, s\<lparr>hc := d3, CBWTag := CBWTag s + 1\<rparr>)"
    unfolding bbb_check_def bbb_status_def r using w(1-3) assms(5) by (simp add: CSWSTATUS_PHASE_def CSWSTATUS_FAILED_def)
  show ?thesis using assms(1-4) c by (simp add: usb_stor_BBB_transport_def usb_stor_BBB_comdat_def USB_STOR_TRANSPORT_GOOD_def)
qed

text \<open>A device that gives two bytes, says that 510 are missing, and reports success.\<close>

definition short_hc :: "unit usb_hc" where
  "short_hc =
     \<lparr>bulk_out = (\<lambda>_ d. (0, d)), bulk_data = (\<lambda>_ _ d. (0, False, [1, 2], d)),
      bulk_status = (\<lambda>_ d. (0, False, le32 CSWSIGNATURE @ le32 7 @ le32 510 @ [0], d)), clear_stall = (\<lambda>_ d. (0, d)), bbb_reset = (\<lambda>d. d)\<rparr>"

lemma short_transfer_accepted_witness:
  "usb_stor_BBB_transport short_hc [0, 0, 0, 0] (scsi SCSI_READ10 0 [] 512) \<lparr>hc = (), CBWTag = 7\<rparr> =
     (USB_STOR_TRANSPORT_GOOD, [1, 2], \<lparr>hc = (), CBWTag = 8\<rparr>)"
proof -
  have d: "US_DIRECTION SCSI_READ10" by (simp add: US_DIRECTION_def us_direction_def SCSI_READ10_def)
  show ?thesis
    using short_transfer_accepted [of "scsi SCSI_READ10 0 [] 512" short_hc "[0, 0, 0, 0]" "\<lparr>hc = (), CBWTag = 7\<rparr>" "()" False "[1, 2]" "()" False 510 "()"] d
    by (simp add: scsi_def short_hc_def)
qed

text \<open>A device that answers no inquiry is taken for one that answered: the loop counts \<open>retry\<close> down past 0, and the test behind it looks for 0, so that
  \<open>usb_inquiry\<close> returns success after six failures.\<close>

theorem failed_inquiry_succeeds:
  assumes "\<And>c t. fst (tr c t) \<noteq> 0"
  shows "fst (usb_inquiry tr l buf s) = 0"
proof -
  have "fst (inquiry_loop tr l n buf s) = - 1" for n
  proof (induction n arbitrary: buf s)
    case 0
    show ?case using assms [of "scsi SCSI_INQUIRY l [0, 0, 36] 36" s] by (auto simp: split_beta)
  next
    case (Suc n)
    then show ?case using assms [of "scsi SCSI_INQUIRY l [0, 0, 36] 36" s] by (auto simp: split_beta)
  qed
  from this [of 5] show ?thesis unfolding usb_inquiry_def Let_def by (simp add: split_beta del: inquiry_loop.simps)
qed

lemma failed_inquiry_succeeds_witness: "fst (usb_inquiry (\<lambda>_ t. (- 1, [], t :: unit)) 0 [] ()) = 0"
  by (rule failed_inquiry_succeeds) simp

text \<open>When a disk does not tell its capacity, the code means to go on with 2880 blocks of 512 bytes, but swaps the bytes of these numbers as if the disk had
  sent them: the device is registered with blocks of 131072 bytes.\<close>

theorem lost_capacity_swapped:
  assumes "\<And>t. \<exists>t'. tr (scsi SCSI_INQUIRY (dlun desc) [0, 0, 36] 36) t = (0, ans, t')" "length ans = 36" "ans ! 0 = 0"
    "\<And>t. \<exists>t'. tr (scsi SCSI_TST_U_RDY (dlun desc) [] 0) t = (0, [], t')" "\<And>t. fst (tr (scsi SCSI_RD_CAPAC (dlun desc) [] 8) t) \<noteq> 0"
  shows "\<exists>desc' buf' s'. usb_stor_get_info tr num buf desc s = (1, desc', buf', s') \<and> dblksz desc' = 0x20000 \<and> dlba desc' = 0x400b0001"
proof -
  obtain t1 where t1: "tr (scsi SCSI_INQUIRY (dlun desc) [0, 0, 36] 36) s = (0, ans, t1)" using assms(1) by blast
  obtain t2 where t2: "tr (scsi SCSI_TST_U_RDY (dlun desc) [] 0) t1 = (0, [], t2)" using assms(4) by blast
  let ?b = "overlay ans buf"
  have i: "usb_inquiry tr (dlun desc) buf s = (0, ?b, t1)" unfolding usb_inquiry_def by (subst inquiry_loop.simps) (simp add: t1)
  have b0: "?b ! 0 = 0" using assms(2, 3) by (simp add: overlay_def nth_append)
  have "(11 :: nat) = Suc 10" by simp
  then have r: "usb_test_unit_ready tr (dlun desc) t1 = (0, t2)"
    unfolding usb_test_unit_ready_def by (simp only: ready_loop.simps t2 Let_def prod.case USB_STOR_TRANSPORT_GOOD_def if_True refl)
  have "fst (capacity_loop tr (dlun desc) n cap t) = - 1" for n cap t
  proof (induction n arbitrary: cap t)
    case (Suc n)
    then show ?case using assms(5) [of t] by (auto simp: split_beta USB_STOR_TRANSPORT_GOOD_def)
  qed simp
  then obtain cap t3 where c: "usb_read_capacity tr (dlun desc) (replicate 8 0) t2 = (- 1, cap, t3)"
    unfolding usb_read_capacity_def by (metis fst_conv prod_cases3)
  have k: "capacity_of (- 1) cap = (0x400b0001, 0x20000)"
    by (simp add: capacity_of_def be32_at_def le32_def of_le32_def)
  show ?thesis unfolding usb_stor_get_info_def using i b0 r c k by (simp add: Let_def)
qed

definition mute_disk :: "unit transport" where
  "mute_disk c t = (if cmd c ! 0 = SCSI_INQUIRY then (0, replicate 36 0, t) else if cmd c ! 0 = SCSI_RD_CAPAC then (- 1, [], t) else (0, [], t))"

lemma lost_capacity_swapped_witness:
  "\<exists>desc' buf' s'. usb_stor_get_info mute_disk 1 (replicate 512 0) image_desc () = (1, desc', buf', s') \<and> dblksz desc' = 0x20000 \<and> dlba desc' = 0x400b0001"
  by (rule lost_capacity_swapped [of _ _ "replicate 36 0"])
    (simp_all add: mute_disk_def scsi_def SCSI_INQUIRY_def SCSI_TST_U_RDY_def SCSI_RD_CAPAC_def)

subsection \<open>Large volumes\<close>

lemma sint_u16_neg: "32768 \<le> unat (x :: u16) \<Longrightarrow> sint x = int (unat x) - 65536"
proof -
  assume "32768 \<le> unat x"
  then have "int 32768 \<le> int (unat x)" by (simp only: of_nat_le_iff)
  then have r: "32768 \<le> uint x" "uint x < 65536" using uint_lt2p [of x] by simp_all
  have "take_bit 16 (uint x - 65536) = take_bit 16 (uint x)" by (simp add: take_bit_eq_mod)
  then have "signed_take_bit 15 (uint x) = signed_take_bit 15 (uint x - 65536)"
    by (simp add: signed_take_bit_eq_iff_take_bit_eq)
  also have "\<dots> = uint x - 65536" using r by (intro signed_take_bit_int_eq_self) simp_all
  finally show ?thesis by (simp add: sint_uint)
qed

text \<open>C36: The sector where the clusters begin is kept in 16 bits with a sign. On a FAT12 or FAT16 volume where it is 32768 or more, every cluster is read 65536
  sectors before its place: reads that the device can serve succeed, with other data.\<close>

theorem data_begin_wraps:
  assumes "block_array read_fn bsz sec nblk" "reads_with st read_fn" "bits \<noteq> 32" "unat (sect_size (fs_of_boot b bits)) = bsz"
    "T = unat (bs_reserved b) + unat (bs_fat_length b) * unat (bs_fats b) + rootdir_size_of b bits (sect_size (fs_of_boot b bits))"
    "32768 + 2 * unat (bs_cluster_size b) \<le> T" "T < 65536" "2 \<le> unat c"
    "P = T + (unat c - 2) * unat (bs_cluster_size b)" "65536 \<le> P" "unat (p_start (cur_part_info st)) + (P - 65536) + unat (bs_cluster_size b) \<le> nblk"
    "0 < bs_cluster_size b"
  shows "get_cluster st (fs_of_boot b bits) c (of_nat bsz) = Some (True, psec sec st (P - 65536))"
proof -
  let ?fs = "fs_of_boot b bits" and ?R = "rootdir_size_of b bits (sect_size (fs_of_boot b bits))" and ?cl = "unat (bs_cluster_size b)"
  have cl: "unat (clust_size ?fs) = ?cl" by (simp add: fs_of_boot_def Let_def unsigned_ucast_eq take_bit_nat_eq_self order.strict_trans [OF unat_u8_bound])
  have f8: "unat (ucast (bs_fats b) :: u16) = unat (bs_fats b)"
    by (simp add: unsigned_ucast_eq take_bit_nat_eq_self order.strict_trans [OF unat_u8_bound])
  have db: "data_begin ?fs = of_nat (T - 2 * ?cl)"
  proof -
    have s: "sect_size ?fs = push_bit 8 (ucast (bs_sector_size b ! 1)) + ucast (bs_sector_size b ! 0)" by (simp add: fs_of_boot_def Let_def)
    have "data_begin ?fs = bs_reserved b + bs_fat_length b * ucast (bs_fats b) + of_nat ?R - 2 * ucast (bs_cluster_size b)"
      using assms(3) unfolding s by (simp add: fs_of_boot_def Let_def)
    also have "\<dots> = of_nat T - of_nat (2 * ?cl)"
    proof -
      have "(of_nat (unat (bs_fats b)) :: u16) = ucast (bs_fats b)" "(of_nat ?cl :: u16) = ucast (bs_cluster_size b)" by simp_all
      then show ?thesis unfolding assms(5) of_nat_add of_nat_mult by simp
    qed
    also have "\<dots> = of_nat (T - 2 * ?cl)" using assms(6) by (subst of_nat_diff) simp_all
    finally show ?thesis .
  qed
  have "T - 2 * ?cl < 65536" using assms(7) by simp
  then have ud: "unat (data_begin ?fs) = T - 2 * ?cl" unfolding db by (simp add: unsigned_of_nat take_bit_nat_eq_self)
  then have sd: "sint (data_begin ?fs) = int T - 2 * int ?cl - 65536" using sint_u16_neg [of "data_begin ?fs"] assms(6) by simp
  obtain m where m: "unat c = m + 2" using assms(8) le_Suc_ex by (metis add.commute)
  have P: "P = T + m * ?cl" using assms(9) m by simp
  have v: "sint (data_begin ?fs) + int (unat c) * int (unat (clust_size ?fs)) = int (P - 65536)"
    using assms(10) unfolding sd cl m P by (simp add: algebra_simps)
  have S: "clust_sect ?fs c = P - 65536" unfolding clust_sect_def v by simp
  have c1: "1 < c" using assms(8) by (simp add: word_less_nat_alt)
  have "0 \<le> sint (data_begin ?fs) + int (unat c) * int (unat (clust_size ?fs))" unfolding v by (rule of_nat_0_le_iff)
  then have g: "good_cluster nblk st ?fs c" using c1 assms(11) by (simp only: good_cluster_def S cl)
  have bs: "bsz < 65536" using assms(4) unat_u16_bound [of "sect_size ?fs"] by simp
  then have l: "unat (of_nat bsz :: u32) = bsz" by (simp add: unat_u32_of_nat)
  have cl1: "0 < ?cl" using assms(12) by (simp add: word_less_nat_alt)
  have "get_cluster st ?fs c (of_nat bsz) = Some (True, take (unat (of_nat bsz :: u32)) (concat (map (psec sec st) [clust_sect ?fs c..<clust_sect ?fs c + 1])))"
    by (rule block_array.get_cluster_reads [OF assms(1, 2, 4) g]) (use assms(11) S cl1 l in simp_all)
  moreover have "length (psec sec st (P - 65536)) = bsz" by (rule block_array.length_psec [OF assms(1)])
  ultimately show ?thesis unfolding l S by simp
qed

definition large_boot :: boot_sector where
  "large_boot =
     \<lparr>bs_sector_size = [0, 2], bs_cluster_size = 1, bs_reserved = 1, bs_fats = 130, bs_dir_entries = [16, 0], bs_fat_length = 255, bs_fat32_length = 0,
      bs_root_cluster = 0\<rparr>"

lemma data_begin_wraps_witness: "get_cluster stick_st (fs_of_boot large_boot 16) 40000 512 = Some (True, psec stick_sec stick_st 7614)"
proof -
  have r: "reads_with stick_st stick_read" using stick_on_volume by (simp add: on_volume_def)
  have s: "sect_size (fs_of_boot large_boot 16) = 512" by (simp add: fs_of_boot_def Let_def large_boot_def)
  have d: "rootdir_size_of large_boot 16 512 = 1" by (simp add: rootdir_size_of_def large_boot_def)
  show ?thesis
    using data_begin_wraps [OF stick_array r, of 16 large_boot 33152 40000 73150] s d
    by (simp add: large_boot_def) (simp add: stick_st_def)
qed

subsection \<open>Directories that do not end\<close>

lemma scan_passed:
  "\<forall>k<n. \<exists>d. entry_at buf (i + k) = Some d \<and> passed_over d \<Longrightarrow>
   scan_entries (dent_step fname dols c) n i buf sc = Some (Sc_next, buf, sc)"
proof (induction n arbitrary: i)
  case (Suc n)
  obtain d where "entry_at buf i = Some d" "passed_over d" using Suc.prems [rule_format, of 0] by auto
  then have "dent_step fname dols c i buf sc = Some (Sc_next, buf, sc)" by (auto simp: dent_step_def passed_over_def)
  moreover have "scan_entries (dent_step fname dols c) n (i + 1) buf sc = Some (Sc_next, buf, sc)"
  proof (rule Suc.IH, intro allI impI)
    fix k assume "k < n"
    then show "\<exists>d. entry_at buf (i + 1 + k) = Some d \<and> passed_over d" using Suc.prems [rule_format, of "Suc k"] by simp
  qed
  ultimately show ?case by simp
qed simp

context block_array
begin

text \<open>What a search keeps.\<close>

definition dir_search :: "fat_state \<Rightarrow> fsdata \<Rightarrow> dir_scan \<Rightarrow> bool" where
  "dir_search st fs sc \<longleftrightarrow> same_dev st (sc_st sc) \<and> same_geo fs (sc_fs sc) \<and> on_volume read_fn bsz nblk (sc_st sc) (sc_fs sc) \<and>
     cache_ok sec (sc_st sc) (sc_fs sc) \<and> length (get_dentfromdir_block (sc_st sc)) = MAX_CLUSTSIZE"

lemma circle_round:
  assumes "chained sec st fs c [c]" "good_cluster nblk st fs c" "clust_bytes fs \<le> MAX_CLUSTSIZE"
    "\<forall>i<DIRENTSPERCLUST fs. passed_over (take 32 (drop (32 * i) (cluster_data sec st fs c)))" "dir_search st fs sc"
  shows "\<exists>buf fs'. get_cluster (sc_st sc) (sc_fs sc) c (ucast (clust_size (sc_fs sc)) * ucast (sect_size (sc_fs sc))) = Some (True, cluster_data sec st fs c) \<and>
    into_buf (cluster_data sec st fs c) (get_dentfromdir_block (sc_st sc)) = Some buf \<and>
    scan_entries (dent_step fname dols c) (DIRENTSPERCLUST (sc_fs sc)) 0 buf sc = Some (Sc_next, buf, sc) \<and>
    get_fatent ((sc_st sc)\<lparr>get_dentfromdir_block := buf\<rparr>) c (sc_fs sc) = Some (c, fs') \<and> \<not> CHECK_CLUST c (fatsize fs') \<and>
    dir_search st fs (sc\<lparr>sc_st := (sc_st sc)\<lparr>get_dentfromdir_block := buf\<rparr>, sc_fs := fs'\<rparr>)"
proof -
  let ?st = "sc_st sc" and ?fs = "sc_fs sc"
  have s: "same_dev st ?st" "same_geo fs ?fs" "on_volume read_fn bsz nblk ?st ?fs" "cache_ok sec ?st ?fs" "length (get_dentfromdir_block ?st) = MAX_CLUSTSIZE"
    using assms(5) by (simp_all add: dir_search_def)
  note geo = geo_cluster [OF s(2)] and sd = same_dev_volume [OF s(1)]
  have D: "cluster_data sec ?st ?fs c = cluster_data sec st fs c" "good_cluster nblk ?st ?fs c" using assms(2) by (simp_all add: geo sd)
  have rw: "reads_with ?st read_fn" "unat (sect_size ?fs) = bsz" using s(3) by (simp_all add: on_volume_def fs_ok_def)
  have "clust_bytes fs < 2 ^ 32" using assms(3) by (simp add: MAX_CLUSTSIZE_def)
  then have b: "unat (ucast (clust_size ?fs) * ucast (sect_size ?fs) :: u32) = clust_bytes fs"
    using unat_clust_bytes [of ?fs] by (simp add: geo)
  have len: "length (cluster_data sec st fs c) = clust_bytes fs"
    using length_cluster_data [of ?st ?fs c] rw(2) same_geo_fields [OF s(2)] by (simp add: D clust_bytes_def)
  have g: "get_cluster ?st ?fs c (ucast (clust_size ?fs) * ucast (sect_size ?fs)) = Some (True, cluster_data sec st fs c)"
    using get_cluster_run [OF rw, of c "[]"] D len b geo(3) by simp
  define buf where "buf = cluster_data sec st fs c @ drop (clust_bytes fs) (get_dentfromdir_block ?st)"
  have ib: "into_buf (cluster_data sec st fs c) (get_dentfromdir_block ?st) = Some buf" using s(5) assms(3) len by (simp add: into_buf_def buf_def)
  have n: "DIRENTSPERCLUST ?fs = DIRENTSPERCLUST fs" by (simp add: DIRENTSPERCLUST_def same_geo_fields [OF s(2)])
  have sc: "scan_entries (dent_step fname dols c) (DIRENTSPERCLUST ?fs) 0 buf sc = Some (Sc_next, buf, sc)"
  proof (rule scan_passed, intro allI impI)
    fix k assume k: "k < DIRENTSPERCLUST ?fs"
    have "32 * DIRENTSPERCLUST fs \<le> clust_bytes fs" by (simp add: DIRENTSPERCLUST_def clust_bytes_def)
    then have l: "32 * k + 32 \<le> clust_bytes fs" using k n by simp
    then have "entry_at buf (0 + k) = Some (take 32 (drop (32 * k) (cluster_data sec st fs c)))" using len by (simp add: entry_at_def buf_def)
    then show "\<exists>d. entry_at buf (0 + k) = Some d \<and> passed_over d" using assms(4) k n by simp
  qed
  let ?st' = "?st\<lparr>get_dentfromdir_block := buf\<rparr>"
  have sd2: "same_dev ?st ?st'" by (simp add: same_dev_def)
  note v2 = same_dev_volume [OF sd2]
  have ch: "fat_has (fatsize ?fs) (fat_bytes sec ?st' ?fs) (unat c)" "fat_entry (fatsize ?fs) (fat_bytes sec ?st' ?fs) (unat c) = c"
    using assms(1) by (simp_all add: v2 sd geo_bytes [OF s(2)] same_geo_fields [OF s(2)])
  obtain fs' where f: "get_fatent ?st' c ?fs = Some (c, fs')" "on_volume read_fn bsz nblk ?st' fs'" "cache_ok sec ?st' fs'" "same_geo ?fs fs'"
    using get_fatent_reads [of ?st' ?fs c] s(3, 4) ch by (auto simp: v2)
  have k: "\<not> CHECK_CLUST c (fatsize fs')" using assms(1) same_geo_fields(1) [OF f(4)] same_geo_fields(1) [OF s(2)] by simp
  have "length buf = MAX_CLUSTSIZE" using length_into_buf [OF ib] s(5) by simp
  then have "dir_search st fs (sc\<lparr>sc_st := ?st', sc_fs := fs'\<rparr>)"
    using f s(1) same_geo_trans [OF s(2) f(4)] same_dev_trans [OF s(1) sd2] by (simp add: dir_search_def)
  then show ?thesis using g ib sc f(1) k by blast
qed

lemma circle_none:
  assumes "chained sec st fs c [c]" "good_cluster nblk st fs c" "clust_bytes fs \<le> MAX_CLUSTSIZE"
    "\<forall>i<DIRENTSPERCLUST fs. passed_over (take 32 (drop (32 * i) (cluster_data sec st fs c)))" "dent_loop fname dols c0 sc = Some y"
  shows "c0 = c \<longrightarrow> \<not> dir_search st fs sc"
proof (rule dent_loop.raw_induct [where P = "\<lambda>fname dols c0 sc y. c0 = c \<longrightarrow> \<not> dir_search st fs sc", OF _ assms(5)])
  fix rec_loop :: "u8 list \<Rightarrow> nat \<Rightarrow> u32 \<Rightarrow> dir_scan \<Rightarrow> (u8 list option \<times> dir_scan) option" and fname dols c0 sc y
  assume ih: "\<And>fname dols c0 sc y. rec_loop fname dols c0 sc = Some y \<Longrightarrow> c0 = c \<longrightarrow> \<not> dir_search st fs sc"
    and body: "Option.bind (get_cluster (sc_st sc) (sc_fs sc) c0 (ucast (clust_size (sc_fs sc)) * ucast (sect_size (sc_fs sc)))) (\<lambda>(ok, bs).
      Option.bind (into_buf bs (get_dentfromdir_block (sc_st sc))) (\<lambda>buf.
        if \<not> ok then Some (None, sc\<lparr>sc_st := (sc_st sc)\<lparr>get_dentfromdir_block := buf\<rparr>\<rparr>)
        else Option.bind (scan_entries (dent_step fname dols c0) (DIRENTSPERCLUST (sc_fs sc)) 0 buf sc) (\<lambda>(r, buf, sc).
          let sc = sc\<lparr>sc_st := (sc_st sc)\<lparr>get_dentfromdir_block := buf\<rparr>\<rparr>
          in case r of
               Sc_next \<Rightarrow>
                 Option.bind (get_fatent (sc_st sc) c0 (sc_fs sc)) (\<lambda>(curclust, fs).
                   if CHECK_CLUST curclust (fatsize fs) then Some (None, sc\<lparr>sc_fs := fs\<rparr>)
                   else rec_loop fname dols curclust (sc\<lparr>sc_fs := fs\<rparr>))
             | Sc_found d \<Rightarrow> Some (Some d, sc)
             | _ \<Rightarrow> Some (None, sc)))) = Some y"
  show "c0 = c \<longrightarrow> \<not> dir_search st fs sc"
  proof (intro impI notI)
    assume c: "c0 = c" and d: "dir_search st fs sc"
    obtain buf fs' where r:
      "get_cluster (sc_st sc) (sc_fs sc) c (ucast (clust_size (sc_fs sc)) * ucast (sect_size (sc_fs sc))) = Some (True, cluster_data sec st fs c)"
      "into_buf (cluster_data sec st fs c) (get_dentfromdir_block (sc_st sc)) = Some buf"
      "scan_entries (dent_step fname dols c) (DIRENTSPERCLUST (sc_fs sc)) 0 buf sc = Some (Sc_next, buf, sc)"
      "get_fatent ((sc_st sc)\<lparr>get_dentfromdir_block := buf\<rparr>) c (sc_fs sc) = Some (c, fs')" "\<not> CHECK_CLUST c (fatsize fs')"
      "dir_search st fs (sc\<lparr>sc_st := (sc_st sc)\<lparr>get_dentfromdir_block := buf\<rparr>, sc_fs := fs'\<rparr>)"
      using circle_round [OF assms(1-4) d, of fname dols] by (elim exE conjE) (rule that, assumption+)
    have f: "get_fatent (sc_st (sc\<lparr>sc_st := (sc_st sc)\<lparr>get_dentfromdir_block := buf\<rparr>\<rparr>)) c
        (sc_fs (sc\<lparr>sc_st := (sc_st sc)\<lparr>get_dentfromdir_block := buf\<rparr>\<rparr>)) = Some (c, fs')" using r(4) by simp
    have "rec_loop fname dols c (sc\<lparr>sc_st := (sc_st sc)\<lparr>get_dentfromdir_block := buf\<rparr>, sc_fs := fs'\<rparr>) = Some y"
      using body by (simp only: c r(1-3, 5) f Option.bind_lunit prod.case not_True_eq_False if_False Let_def scan_end.case)
    from ih [OF this] show False using r(6) by simp
  qed
qed

end

text \<open>C33: the search in a directory does not end when its chain of clusters runs in a circle and no entry stops it: a directory of one cluster that follows itself in
  the table, with nothing but deleted entries, keeps \<open>get_dentfromdir\<close> for ever, for every name.\<close>

theorem circular_directory_hangs:
  assumes "block_array read_fn bsz sec nblk" "on_volume read_fn bsz nblk st fs" "cache_ok sec st fs" "chained sec st fs (START fs d) [START fs d]"
    "good_cluster nblk st fs (START fs d)" "clust_bytes fs \<le> MAX_CLUSTSIZE" "length (get_dentfromdir_block st) = MAX_CLUSTSIZE"
    "\<forall>i<DIRENTSPERCLUST fs. passed_over (take 32 (drop (32 * i) (cluster_data sec st fs (START fs d))))"
  shows "get_dentfromdir st fs fname d dols = None"
proof -
  let ?sc = "\<lparr>sc_st = st, sc_fs = fs, prevcksum = 0xffff, n_files = 0, n_dirs = 0\<rparr>"
  have "block_array.dir_search read_fn bsz sec nblk st fs ?sc"
    using assms(2, 3, 7) by (simp add: block_array.dir_search_def [OF assms(1)])
  then have "dent_loop fname dols (START fs d) ?sc \<noteq> Some y" for y
    using block_array.circle_none [OF assms(1, 4, 5, 6, 8), of fname dols "START fs d" ?sc y] by auto
  note no = this
  have "dent_loop fname dols (START fs d) ?sc = None"
  proof (cases "dent_loop fname dols (START fs d) ?sc")
    case (Some y)
    then show ?thesis using no [of y] by simp
  qed
  then show ?thesis by (simp add: get_dentfromdir_def)
qed

definition circle_img :: "nat \<Rightarrow> u8 list" where
  "circle_img i = (if i = 1 then [0xf8, 0xff, 0xff, 0xff, 2, 0] else if i = 3 then replicate 512 0xe5 else [])"

definition circle_sec :: "nat \<Rightarrow> u8 list" where "circle_sec = image_sector circle_img"
definition circle_read :: "u32 \<Rightarrow> u32 \<Rightarrow> u32 \<times> u8 list" where "circle_read = usb_block_read zeros (image_devs circle_img) image_desc ()"
definition circle_st :: fat_state where "circle_st = stick_st\<lparr>cur_dev := Some (stick_dev\<lparr>block_read := Some circle_read\<rparr>)\<rparr>"

lemma circular_directory_hangs_witness: "get_dentfromdir circle_st stick_fs stick_name stick_entry 0 = None"
proof (rule circular_directory_hangs)
  show "block_array circle_read 512 circle_sec 65536"
    using image.block_array_axioms [of circle_img] by (simp add: circle_read_def circle_sec_def image_desc_def)
  show "on_volume circle_read 512 65536 circle_st stick_fs"
    using stick_on_volume by (simp add: on_volume_def reads_with_def circle_st_def)
  show "cache_ok circle_sec circle_st stick_fs" by (simp add: cache_ok_def stick_fs_def)
  have p: "psec circle_sec circle_st i = circle_sec i" for i by (simp add: psec_def circle_st_def stick_st_def)
  have st: "START stick_fs stick_entry = 2" by (simp add: START_def stick_fs_def half_at_def stick_entry_def)
  have b: "fat_bytes circle_sec circle_st stick_fs = circle_sec 1" by (simp add: fat_bytes_def stick_fs_def p upt_rec)
  have s1: "circle_sec (Suc 0) = [0xf8, 0xff, 0xff, 0xff, 2, 0] @ replicate 506 0"
    by (simp add: circle_sec_def image_sector_def circle_img_def)
  have ck: "\<not> CHECK_CLUST 2 (fatsize stick_fs)" by (simp add: CHECK_CLUST_def word_le_nat_alt stick_fs_def)
  show "chained circle_sec circle_st stick_fs (START stick_fs stick_entry) [START stick_fs stick_entry]"
    by (simp add: st b s1 fat_has_def fat_pos_def fat_width_def fat_entry_def half_at_def ck) (simp add: stick_fs_def)
  show "good_cluster 65536 circle_st stick_fs (START stick_fs stick_entry)"
    unfolding st by (simp add: good_cluster_def clust_sect_def stick_fs_def circle_st_def stick_st_def)
  show "clust_bytes stick_fs \<le> MAX_CLUSTSIZE" by (simp add: clust_bytes_def stick_fs_def MAX_CLUSTSIZE_def)
  show "length (get_dentfromdir_block circle_st) = MAX_CLUSTSIZE" by (simp add: circle_st_def stick_st_def MAX_CLUSTSIZE_def)
  have c: "cluster_data circle_sec circle_st stick_fs 2 = replicate 512 0xe5"
    by (simp add: cluster_data_def clust_sect_def stick_fs_def p upt_rec) (simp add: circle_sec_def image_sector_def circle_img_def)
  have "DIRENTSPERCLUST stick_fs = 16" by (simp add: DIRENTSPERCLUST_def stick_fs_def)
  then show "\<forall>i<DIRENTSPERCLUST stick_fs. passed_over (take 32 (drop (32 * i) (cluster_data circle_sec circle_st stick_fs (START stick_fs stick_entry))))"
    by (simp add: st c passed_over_def DELETED_FLAG_def)
qed

end
