(* ===== verification/UsbCmd.thy ===== *)
theory UsbCmd
  imports FatFail MenuFlash
begin

text \<open>
  The commands \<open>fatls\<close>, \<open>fatinfo\<close> (\<open>common/cmd_fat.c\<close>), \<open>usb\<close> and \<open>usbboot\<close> (\<open>common/cmd_usb.c\<close>). Listings of descriptors and partitions, messages and
  starting the bus are left out; the result of starting it is an argument. A missing argument that the code reads, and a description outside of the array
  of five, is \<open>None\<close>.
\<close>

subsection \<open>Model\<close>

definition DEV_TYPE_UNKNOWN :: u8 where "DEV_TYPE_UNKNOWN = 0xff"
definition BOOT_PART_COMP :: string where "BOOT_PART_COMP = ''PPCBoot''"

text \<open>The argument \<open>dev[:part]\<close>, with partition 1 when none is given.\<close>

definition dev_part :: "string \<Rightarrow> u32 \<times> int option" where
  "dev_part arg =
     (let (dev, ep) = simple_strtoul arg 16
      in (dev, if peek ep = NUL then Some 1 else if peek ep \<noteq> CHR '':'' then None else Some (sint (fst (simple_strtoul (tl ep) 16)))))"

text \<open>The device and partition of a command are registered; the flag says whether that succeeded.\<close>

definition fat_open :: "('w, 'f) board \<Rightarrow> string list \<Rightarrow> ('w, 'f) menu_state \<Rightarrow> (('w, 'f) menu_state \<times> bool) option" where
  "fat_open b argv s =
     (if length argv < 3 then None
      else (case dev_part (argv ! 2) of (dev, part) \<Rightarrow>
       (case (get_dev b (argv ! 1) dev, part) of
          (Some dev_desc, Some part) \<Rightarrow>
            do { (r, ft) \<leftarrow> fat_register_device (b_fresh b) dev_desc part (fat s); Some (s\<lparr>fat := ft\<rparr>, r = 0) }
        | _ \<Rightarrow> Some (s, False))))"

definition do_fat_ls :: "('w, 'f) board \<Rightarrow> string list \<Rightarrow> ('w, 'f) menu_state \<Rightarrow> (('w, 'f) menu_state \<times> int) option" where
  "do_fat_ls b argv s =
     (if length argv < 3 then Some (s, 0)
      else do {
        (s, ok) \<leftarrow> fat_open b argv s;
        if \<not> ok then Some (s, 1)
        else do {
          (ret, r, ft) \<leftarrow> file_fat_ls (b_fresh b) (fat s) (map of_char (if length argv = 4 then argv ! 3 else ''/'')) (ram s);
          Some (s\<lparr>ram := r, fat := ft\<rparr>, sint ret)
        }
      })"

definition do_fat_fsinfo :: "('w, 'f) board \<Rightarrow> string list \<Rightarrow> ('w, 'f) menu_state \<Rightarrow> (('w, 'f) menu_state \<times> int) option" where
  "do_fat_fsinfo b argv s =
     (if length argv < 2 then Some (s, 0)
      else do {
        (s, ok) \<leftarrow> fat_open b argv s;
        if \<not> ok then Some (s, 1)
        else do { ret \<leftarrow> file_fat_detectfs (b_fresh b) (fat s); Some (s, ret) }
      })"

definition usb_stor_get_dev :: "('w, 'f) board \<Rightarrow> int \<Rightarrow> block_dev option" where
  "usb_stor_get_dev b dev = (if 0 \<le> dev \<and> dev < int USB_MAX_STOR_DEV then Some (b_stor b (word_of_int dev)) else None)"

text \<open>Blocks into memory: the number read.\<close>

definition read_to :: "block_dev \<Rightarrow> u32 \<Rightarrow> u32 \<Rightarrow> u32 \<Rightarrow> ('w, 'f) menu_state \<Rightarrow> (u32 \<times> ('w, 'f) menu_state) option" where
  "read_to d blk n addr s = do { f \<leftarrow> block_read d; let (r, bs) = f blk n; Some (r, s\<lparr>ram := ram_put addr bs (ram s)\<rparr>) }"

text \<open>The check of the header in memory, whose checksum field is cleared meanwhile and stays so when the checksum is wrong.\<close>

definition usb_header :: "u32 \<Rightarrow> ('w, 'f) menu_state \<Rightarrow> ('w, 'f) menu_state \<times> bool" where
  "usb_header addr s =
     (let h = header_of_bytes (ram_bytes (ram s) addr sizeof_header)
      in if ntohl (ih_magic h) \<noteq> IH_MAGIC then (s, False)
         else (let s = s\<lparr>ram := ram_put (addr + 4) [0, 0, 0, 0] (ram s)\<rparr>;
                   (v, s) = crc_of (ram_bytes (ram s) addr sizeof_header) s
               in if v \<noteq> ntohl (ih_hcrc h) then (s, False)
                  else (s\<lparr>ram := ram_put (addr + 4) (le32 (ih_hcrc h)) (ram s)\<rparr>, True)))"

text \<open>The image from the start of a partition, block by block, and \<open>bootm\<close> when the variable \<open>autostart\<close> asks for it.\<close>

definition usb_load_image :: "('w, 'f) board \<Rightarrow> string \<Rightarrow> u32 \<Rightarrow> block_dev \<Rightarrow> disk_partition \<Rightarrow> ('w, 'f) menu_state \<Rightarrow> (('w, 'f) menu_state \<times> int) option" where
  "usb_load_image b arg0 addr d info s =
     do {
       (n, s) \<leftarrow> read_to d (p_start info) 1 addr s;
       if n \<noteq> 1 then Some (s, 1)
       else (case usb_header addr s of (s, ok) \<Rightarrow>
         if \<not> ok then Some (s, 1)
         else if p_blksz info = 0 then None
         else (let h = header_of_bytes (ram_bytes (ram s) addr sizeof_header);
                   cnt = (ntohl (ih_size h) + of_nat sizeof_header + p_blksz info - 1) div p_blksz info - 1
               in do {
                 (n, s) \<leftarrow> read_to d (p_start info + 1) cnt (addr + p_blksz info) s;
                 if n \<noteq> cnt then Some (s, 1)
                 else do {
                   let s = s\<lparr>load_addr := addr\<rparr>;
                   v \<leftarrow> getenv s ''autostart'';
                   Some (if v = Some ''yes'' then menu_bootm b [arg0] s else (s, 0))
                 }
               }))
     }"

definition boot_part :: "disk_partition option \<Rightarrow> disk_partition" where
  "boot_part i = (case i of None \<Rightarrow> \<lparr>p_start = 0, p_size = 2880, p_blksz = 0x200, p_type = BOOT_PART_TYPE\<rparr> | Some p \<Rightarrow> p)"

text \<open>\<open>info\<close> is what the stack holds when the command begins.\<close>

definition do_usbboot :: "('w, 'f) board \<Rightarrow> disk_partition \<Rightarrow> string list \<Rightarrow> ('w, 'f) menu_state \<Rightarrow> (('w, 'f) menu_state \<times> int) option" where
  "do_usbboot b info argv s =
     (if length argv = 0 \<or> length argv > 3 then Some (s, 1)
      else do {
        let addr = (if length argv = 1 then CFG_LOAD_ADDR else fst (simple_strtoul (argv ! 1) 16));
        boot_device \<leftarrow> (if length argv = 3 then Some (Some (argv ! 2)) else getenv s ''bootdevice'');
        case boot_device of
          None \<Rightarrow> Some (s, 1)
        | Some bd \<Rightarrow>
            (case dev_part bd of (dev, part) \<Rightarrow>
             do {
               d \<leftarrow> usb_stor_get_dev b (sint dev);
               if dev_type d = DEV_TYPE_UNKNOWN \<or> block_read d = None \<or> part = None then Some (s, 1)
               else do {
                 i \<leftarrow> get_partition_info (b_fresh b) d (the part) info;
                 let p = boot_part i;
                 if p_type p \<noteq> BOOT_PART_TYPE \<and> p_type p \<noteq> BOOT_PART_COMP then Some (s, 1)
                 else usb_load_image b (argv ! 0) addr d p s
               }
             })
      })"

text \<open>The command \<open>usb\<close>: the current device, the state and the result. \<open>scanned\<close> is the result of the scan when the bus could be scanned.\<close>

definition begins :: "string \<Rightarrow> string \<Rightarrow> bool" where "begins arg name \<longleftrightarrow> take (length name) arg = name"

definition usb_read_cmd :: "('w, 'f) board \<Rightarrow> string list \<Rightarrow> int \<Rightarrow> ('w, 'f) menu_state \<Rightarrow> (int \<times> ('w, 'f) menu_state) option" where
  "usb_read_cmd b argv cur s =
     (let addr = fst (simple_strtoul (argv ! 2) 16); blk = fst (simple_strtoul (argv ! 3) 16); cnt = fst (simple_strtoul (argv ! 4) 16)
      in do {
        d \<leftarrow> usb_stor_get_dev b cur;
        (n, s) \<leftarrow> read_to d blk cnt addr s;
        Some (if n = cnt then 0 else 1, s)
      })"

definition usb_dev_cmd :: "('w, 'f) board \<Rightarrow> string list \<Rightarrow> int \<Rightarrow> (int \<times> int) option" where
  "usb_dev_cmd b argv cur =
     (if length argv = 3
      then (let dev = sint (fst (simple_strtoul (argv ! 2) 10))
            in if dev \<ge> int USB_MAX_STOR_DEV then Some (cur, 1)
               else do { d \<leftarrow> usb_stor_get_dev b dev; Some (if dev_type d = DEV_TYPE_UNKNOWN then (cur, 1) else (dev, 0)) })
      else do { d \<leftarrow> usb_stor_get_dev b cur; Some (cur, if dev_type d = DEV_TYPE_UNKNOWN then 1 else 0) })"

definition do_usb :: "('w, 'f) board \<Rightarrow> int option \<Rightarrow> string list \<Rightarrow> int \<Rightarrow> ('w, 'f) menu_state \<Rightarrow> (int \<times> int \<times> ('w, 'f) menu_state) option" where
  "do_usb b scanned argv cur s =
     (if length argv < 2 then None
      else if begins (argv ! 1) ''reset'' \<or> begins (argv ! 1) ''start'' then Some (case scanned of None \<Rightarrow> cur | Some r \<Rightarrow> r, 0, s)
      else if begins (argv ! 1) ''stop'' \<or> begins (argv ! 1) ''tree'' \<or> begins (argv ! 1) ''inf'' \<or> begins (argv ! 1) ''scan'' \<or> begins (argv ! 1) ''stor''
      then Some (cur, 0, s)
      else if begins (argv ! 1) ''part''
      then Some (cur, if \<exists>dev\<in>{0..<USB_MAX_STOR_DEV}. dev_type (b_stor b (of_nat dev)) \<noteq> DEV_TYPE_UNKNOWN then 0 else 1, s)
      else if argv ! 1 = ''read'' \<and> cur < 0 then Some (cur, 1, s)
      else if argv ! 1 = ''read'' \<and> length argv = 5 then do { (r, s) \<leftarrow> usb_read_cmd b argv cur s; Some (cur, r, s) }
      else if begins (argv ! 1) ''dev'' then do { (cur, r) \<leftarrow> usb_dev_cmd b argv cur; Some (cur, r, s) }
      else Some (cur, 1, s))"

subsection \<open>The image in memory\<close>

lemma header_hcrc:
  assumes "length bs = 64"
  shows "header_bytes ((header_of_bytes bs)\<lparr>ih_hcrc := c\<rparr>) = take 4 bs @ le32 c @ drop 8 bs"
proof -
  have "header_bytes (header_of_bytes bs) = bs" using assms by (intro header_bytes_of_bytes) (simp add: sizeof_header_def)
  then have "le32 (ih_magic (header_of_bytes bs)) = take 4 bs" "drop 8 (header_bytes (header_of_bytes bs)) = drop 8 bs"
    by (auto simp: header_bytes_def dest: arg_cong [of _ _ "take 4"])
  then show ?thesis using assms by (simp add: header_bytes_def)
qed

lemma usb_header_ok:
  fixes s :: "('w, 'f) menu_state"
  assumes "crc_wf (crc_st s)" "ram s = ram_put addr B m" "64 \<le> length B" "length B < 2 ^ 32" "valid_header (header_of_bytes (take 64 B))"
  shows "\<exists>c. usb_header addr s = (s\<lparr>crc_st := c\<rparr>, True) \<and> crc_wf c"
proof -
  let ?h = "header_of_bytes (take 64 B)" and ?s = "s\<lparr>ram := ram_put (addr + 4) [0, 0, 0, 0] (ram s)\<rparr>"
  have four: "addr + of_nat 4 = addr + 4" by simp
  have rb: "ram_bytes (ram_put addr xs m) addr 64 = take 64 xs" if "64 \<le> length xs" "length xs < 2 ^ 32" for xs
    using ram_bytes_put [of 0 64 xs addr m] that by simp
  have z: "ram ?s = ram_put addr (take 4 B @ [0, 0, 0, 0] @ drop 8 B) m"
    using ram_put_over [of 4 "[0, 0, 0, 0]" B addr m] assms(2-4) four by simp
  have h: "ram_bytes (ram s) addr sizeof_header = take 64 B" using rb assms(2-4) by (simp add: sizeof_header_def)
  have zb: "ram_bytes (ram ?s) addr sizeof_header = header_bytes (?h\<lparr>ih_hcrc := 0\<rparr>)"
  proof -
    have "ram_bytes (ram ?s) addr sizeof_header = take 64 (take 4 B @ [0, 0, 0, 0] @ drop 8 B)"
      unfolding z sizeof_header_def by (rule rb) (use assms(3, 4) in simp_all)
    also have "\<dots> = take 4 (take 64 B) @ le32 0 @ drop 8 (take 64 B)" using assms(3) by (simp add: le32_def take_Cons' drop_take)
    finally show ?thesis using header_hcrc [of "take 64 B" 0] assms(3) by simp
  qed
  define c where "c = fst (crc32 (crc_st s) 0 (header_bytes (?h\<lparr>ih_hcrc := 0\<rparr>)))"
  have crc: "crc_of (header_bytes (?h\<lparr>ih_hcrc := 0\<rparr>)) ?s = (crc_val (header_bytes (?h\<lparr>ih_hcrc := 0\<rparr>)), ?s\<lparr>crc_st := c\<rparr>)"
    using crc_of_eq [of ?s] assms(1) by (simp add: c_def)
  have wf: "crc_wf c" using crc32_wf [OF assms(1), of 0] by (simp add: c_def)
  have restored: "ram_put (addr + 4) (le32 (ih_hcrc ?h)) (ram ?s) = ram s"
  proof -
    have "take 64 B = take 4 (take 64 B) @ le32 (ih_hcrc ?h) @ drop 8 (take 64 B)"
      using header_hcrc [of "take 64 B" "ih_hcrc ?h"] header_bytes_of_bytes [of "take 64 B"] assms(3) by (simp add: sizeof_header_def)
    then have "take 4 (drop 4 (take 64 B)) = take 4 (drop 4 (take 4 (take 64 B) @ le32 (ih_hcrc ?h) @ drop 8 (take 64 B)))" by (simp only:)
    then have hb: "le32 (ih_hcrc ?h) = take 4 (drop 4 B)" using assms(3) by (simp add: drop_take)
    have "ram_put (addr + of_nat 4) (le32 (ih_hcrc ?h)) (ram_put addr (take 4 B @ [0, 0, 0, 0] @ drop 8 B) m) =
        ram_put addr (take 4 B @ le32 (ih_hcrc ?h) @ drop 8 B) m"
      using ram_put_over [of 4 "le32 (ih_hcrc ?h)" "take 4 B @ [0, 0, 0, 0] @ drop 8 B" addr m] assms(3, 4) by simp
    moreover have "take 4 B @ take 4 (drop 4 B) @ drop 8 B = B" using append_take_drop_id [of 4 "drop 4 B"] by (simp del: append_take_drop_id) simp
    ultimately show ?thesis using z hb assms(2) by simp
  qed
  have "usb_header addr s = (?s\<lparr>crc_st := c\<rparr>\<lparr>ram := ram s\<rparr>, True)"
    using assms(5) crc restored unfolding usb_header_def Let_def h zb valid_header_def by simp
  then show ?thesis using wf by auto
qed

text \<open>The blocks of an image of \<open>n\<close> bytes behind its header, and what stands in memory once they are read.\<close>

definition image_blocks :: "nat \<Rightarrow> nat \<Rightarrow> nat" where "image_blocks bsz n = (n + 63 + bsz) div bsz"

definition disk_image :: "nat \<Rightarrow> (nat \<Rightarrow> u8 list) \<Rightarrow> u32 \<Rightarrow> u8 list" where
  "disk_image bsz sec start =
     concat (map sec [unat start..<unat start + image_blocks bsz (unat (ntohl (ih_size (header_of_bytes (take 64 (sec (unat start)))))))])"

lemma block_count:
  fixes x :: u32
  assumes "unat x + 64 + bsz < 2 ^ 32" "0 < bsz"
  shows "unat ((x + 64 + of_nat bsz - 1) div of_nat bsz - 1) = image_blocks bsz (unat x) - 1" "0 < image_blocks bsz (unat x)"
    "image_blocks bsz (unat x) * bsz < 2 ^ 32" "unat x + 64 \<le> image_blocks bsz (unat x) * bsz"
proof -
  have w: "x + 64 + of_nat bsz - 1 = of_nat (unat x + 63 + bsz)" by simp
  have "unat (of_nat (unat x + 63 + bsz) :: u32) = unat x + 63 + bsz" "unat (of_nat bsz :: u32) = bsz"
    using assms(1) by (simp_all add: unat_u32_of_nat del: of_nat_add)
  then have q: "unat (of_nat (unat x + 63 + bsz) div of_nat bsz :: u32) = image_blocks bsz (unat x)"
    unfolding unat_div image_blocks_def by simp
  show p: "0 < image_blocks bsz (unat x)" using assms(2) by (simp add: image_blocks_def div_greater_zero_iff)
  then show "unat ((x + 64 + of_nat bsz - 1) div of_nat bsz - 1) = image_blocks bsz (unat x) - 1"
    unfolding w using q by (simp add: unat_sub word_le_nat_alt)
  have "image_blocks bsz (unat x) * bsz + (unat x + 63 + bsz) mod bsz = unat x + 63 + bsz" unfolding image_blocks_def by (rule div_mult_mod_eq)
  moreover have "(unat x + 63 + bsz) mod bsz < bsz" using assms(2) by simp
  ultimately show "image_blocks bsz (unat x) * bsz < 2 ^ 32" "unat x + 64 \<le> image_blocks bsz (unat x) * bsz" using assms(1) by linarith+
qed

lemma disk_image_parts:
  fixes st :: u32
  assumes "\<And>i. length (sec i) = bsz" "64 \<le> bsz"
  defines "n \<equiv> unat (ntohl (ih_size (header_of_bytes (take 64 (sec (unat st))))))"
  shows "disk_image bsz sec st = sec (unat st) @ concat (map sec [unat st + 1..<unat st + 1 + (image_blocks bsz n - 1)])"
    "length (disk_image bsz sec st) = image_blocks bsz n * bsz" "take 64 (disk_image bsz sec st) = take 64 (sec (unat st))"
proof -
  have "bsz \<le> n + 63 + bsz" by simp
  then have "0 < image_blocks bsz n" using assms(2) unfolding image_blocks_def by (simp only: div_greater_zero_iff) simp
  then have one: "concat (map sec [unat st..<unat st + 1]) = sec (unat st)" "1 + (image_blocks bsz n - 1) = image_blocks bsz n" by simp_all
  show p: "disk_image bsz sec st = sec (unat st) @ concat (map sec [unat st + 1..<unat st + 1 + (image_blocks bsz n - 1)])"
    using blocks_append [of sec "unat st" 1 "image_blocks bsz n - 1"] unfolding one disk_image_def n_def [symmetric] by (rule sym)
  show "length (disk_image bsz sec st) = image_blocks bsz n * bsz"
    unfolding disk_image_def n_def [symmetric] by (rule length_blocks [OF assms(1)])
  show "take 64 (disk_image bsz sec st) = take 64 (sec (unat st))" unfolding p using assms(1, 2) by simp
qed

text \<open>The image of a partition, with the state of the CRC table changed at most.\<close>

lemma image_loaded:
  fixes s :: "('w, 'f) menu_state"
  assumes "block_array f bsz sec nblk" "block_read d = Some f" "p_blksz p = of_nat bsz" "64 \<le> bsz" "crc_wf (crc_st s)"
  defines "h \<equiv> header_of_bytes (take 64 (sec (unat (p_start p))))"
  assumes "valid_header h" "unat (ntohl (ih_size h)) + 64 + bsz < 2 ^ 32" "unat (p_start p) + image_blocks bsz (unat (ntohl (ih_size h))) \<le> nblk"
  shows "\<exists>c. crc_wf c \<and> usb_load_image b arg0 addr d p s =
    (let s' = s\<lparr>ram := ram_put addr (disk_image bsz sec (p_start p)) (ram s), crc_st := c, load_addr := addr\<rparr>
     in do { v \<leftarrow> getenv s ''autostart''; Some (if v = Some ''yes'' then menu_bootm b [arg0] s' else (s', 0)) })"
proof -
  note arr = block_array.sec [OF assms(1)] block_array.reads [OF assms(1)] block_array.nblk [OF assms(1)]
  let ?st = "p_start p" and ?x = "ntohl (ih_size h)"
  let ?n = "image_blocks bsz (unat ?x)"
  define cnt where "cnt = (?x + of_nat sizeof_header + p_blksz p - 1) div p_blksz p - 1"
  have bz: "bsz < 65536" "0 < bsz" using block_reads.bsz [OF block_array.axioms(1) [OF assms(1)]] by simp_all
  note n = block_count [OF assms(8) bz(2)]
  have cnt: "unat cnt = ?n - 1" using n(1) by (simp add: cnt_def assms(3) sizeof_header_def)
  have ne: "p_blksz p \<noteq> 0" using bz by (simp add: assms(3) unat_eq_0 [symmetric] unat_u32_of_nat del: unat_eq_0)
  have f1: "f ?st 1 = (1, sec (unat ?st))" using arr(2) [of ?st 1] n(2) assms(9) by simp
  have st1: "unat (?st + 1) = unat ?st + 1"
  proof -
    have "unat ?st + unat (1 :: u32) < 2 ^ LENGTH(32)" using n(2) assms(9) arr(3) by simp
    then show ?thesis by (simp only: unat_add_lem) simp
  qed
  define rest where "rest = concat (map sec [unat ?st + 1..<unat ?st + 1 + (?n - 1)])"
  have f2: "f (?st + 1) cnt = (cnt, rest)" using arr(2) [of "?st + 1" cnt] n(2) assms(9) by (simp add: st1 cnt rest_def)
  define s1 where "s1 = s\<lparr>ram := ram_put addr (sec (unat ?st)) (ram s)\<rparr>"
  have r1: "read_to d ?st 1 addr s = Some (1, s1)" by (simp add: read_to_def assms(2) f1 s1_def)
  obtain c where c: "usb_header addr s1 = (s1\<lparr>crc_st := c\<rparr>, True)" "crc_wf c"
    using usb_header_ok [of s1 addr "sec (unat ?st)" "ram s"] assms(4, 5, 7) bz arr(1) by (auto simp: s1_def h_def)
  have hd: "header_of_bytes (ram_bytes (ram (s1\<lparr>crc_st := c\<rparr>)) addr sizeof_header) = h"
    using ram_bytes_put [of 0 64 "sec (unat ?st)" addr "ram s"] assms(4) bz arr(1) by (simp add: s1_def h_def sizeof_header_def)
  note img = disk_image_parts [where sec = sec and st = ?st, OF arr(1) assms(4), folded h_def]
  have app: "sec (unat ?st) @ rest = disk_image bsz sec ?st" unfolding rest_def by (rule img(1) [symmetric])
  have len: "length (sec (unat ?st)) + length rest < 2 ^ 32" using img(2) n(3) unfolding app [symmetric] by simp
  have r2: "read_to d (?st + 1) cnt (addr + p_blksz p) (s1\<lparr>crc_st := c\<rparr>) = Some (cnt, s\<lparr>ram := ram_put addr (disk_image bsz sec ?st) (ram s), crc_st := c\<rparr>)"
    using ram_put_append [OF len, of addr "ram s"] by (simp add: read_to_def assms(2, 3) f2 s1_def arr(1) app)
  have g: "getenv (s\<lparr>ram := m, crc_st := c, load_addr := addr\<rparr>) n = getenv s n" for m n by (intro getenv_block) (simp add: env_block_def)
  have "usb_load_image b arg0 addr d p s =
    (let s' = s\<lparr>ram := ram_put addr (disk_image bsz sec ?st) (ram s), crc_st := c, load_addr := addr\<rparr>
     in do { v \<leftarrow> getenv s ''autostart''; Some (if v = Some ''yes'' then menu_bootm b [arg0] s' else (s', 0)) })"
    unfolding usb_load_image_def r1 using c(1) hd ne r2 g by (simp add: Let_def cnt_def [symmetric])
  then show ?thesis using c(2) by (intro exI conjI)
qed

subsection \<open>Booting from a USB disk\<close>

text \<open>The partition that a boot device names.\<close>

definition usb_part :: "('w, 'f) board \<Rightarrow> disk_partition \<Rightarrow> string \<Rightarrow> block_dev \<Rightarrow> disk_partition \<Rightarrow> bool" where
  "usb_part b info bd d p \<longleftrightarrow>
     (\<exists>dev part i. dev_part bd = (dev, Some part) \<and> usb_stor_get_dev b (sint dev) = Some d \<and> dev_type d \<noteq> DEV_TYPE_UNKNOWN \<and>
        get_partition_info (b_fresh b) d part info = Some i \<and> p = boot_part i \<and> p_type p \<in> {BOOT_PART_TYPE, BOOT_PART_COMP})"

lemma usbboot_image:
  assumes "usb_part b info bd d p" "block_read d \<noteq> None"
  shows "do_usbboot b info [arg0, a, bd] s = usb_load_image b arg0 (fst (simple_strtoul a 16)) d p s"
  using assms by (auto simp: usb_part_def do_usbboot_def Let_def)

text \<open>C5: A kernel on a USB disk boots: \<open>usbboot\<close> with an address and the name of a partition that holds, from its first block on, the image of an uncompressed
  kernel for this CPU, with a right header and right data, reads the blocks of the image to the address, and with \<open>autostart\<close> set to \<open>yes\<close> the kernel is started at its entry
  point, the bytes behind the header stand at its load address, and the parameter area holds its arguments and its environment.\<close>

theorem usb_kernel_boots:
  fixes s :: "('w, 'f) menu_state"
  assumes "nor_chip (b_ops b) cells wel prot ss" "crc_wf (crc_st s)" "getenv s ''verify'' = Some v" "getenv s ''bootargs'' = Some cl"
    and "getenv s ''autostart'' = Some (Some ''yes'')" "usb_part b info bd d q" "block_read d = Some f" "block_array f bsz sec nblk"
    and "p_blksz q = of_nat bsz" "64 \<le> bsz" "simple_strtoul a 16 = (addr, x)" "addr < CFG_FLASH_BASE" "addr \<notin> set jump_addrs"
  defines "h \<equiv> header_of_bytes (take 64 (sec (unat (p_start q))))"
  defines "n \<equiv> unat (ntohl (ih_size h))"
  defines "data \<equiv> take n (drop 64 (disk_image bsz sec (p_start q)))"
  defines "load \<equiv> ntohl (ih_load h)"
  defines "p \<equiv> unat (UNCACHED_SDRAM (bi_boot_params s))"
  defines "lim \<equiv> p + 0x1000 + length (line_of cl)"
  assumes "n + 64 + bsz < 2 ^ 32" "unat (p_start q) + image_blocks bsz n \<le> nblk" "valid_header h" "verify_of v \<longrightarrow> crc_val data = ntohl (ih_dcrc h)"
    and "ih_arch h = IH_CPU_MIPS" "ih_type h = IH_TYPE_KERNEL" "ih_comp h = IH_COMP_NONE" "load \<noteq> addr"
    and "lim \<le> DRAM_END" "\<forall>i<n. \<forall>j. p \<le> j \<longrightarrow> j < lim \<longrightarrow> load + of_nat i \<noteq> seg j"
  shows "\<exists>s'. do_usbboot b info [arg0, a, bd] s = Some (s', 1) \<and>
    boot_end s' = Some (Started_kernel (ntohl (ih_ep h)) (int (1 + length (boot_words cl))) (seg p) (seg (args_end p (boot_words cl)))) \<and>
    ram_bytes (ram s') load n = data \<and> kernel_memory seg p (boot_words cl) (kernel_env s 0 0) (dram (ram s'))"
proof -
  let ?B = "disk_image bsz sec (p_start q)"
  obtain c where c: "crc_wf c" "usb_load_image b arg0 addr d q s =
    (let s' = s\<lparr>ram := ram_put addr ?B (ram s), crc_st := c, load_addr := addr\<rparr>
     in do { v \<leftarrow> getenv s ''autostart''; Some (if v = Some ''yes'' then menu_bootm b [arg0] s' else (s', 0)) })"
    using image_loaded [OF assms(8, 7, 9, 10, 2), of b arg0 addr] assms(20-22) unfolding h_def n_def by blast
  define s1 where "s1 = s\<lparr>ram := ram_put addr ?B (ram s), crc_st := c, load_addr := addr\<rparr>"
  have u: "do_usbboot b info [arg0, a, bd] s = Some (menu_bootm b [arg0] s1)"
    using usbboot_image [OF assms(6)] c(2) assms(5, 7, 11) by (simp add: s1_def)
  note img = disk_image_parts [where sec = sec and st = "p_start q", OF block_array.sec [OF assms(8)] assms(10), folded h_def, folded n_def]
  have bz: "0 < bsz" using assms(10) by simp
  note bc = block_count [OF assms(20) [unfolded n_def] bz, folded n_def]
  have B: "length ?B < 2 ^ 32" "64 + n \<le> length ?B" using bc(3, 4) by (simp_all add: img(2))
  have low: "\<not> CFG_FLASH_BASE \<le> addr" using assms(12) by simp
  have ib: "image_bytes (cells (nor s1)) (ram s1) addr 0 sizeof_header = take 64 (sec (unat (p_start q)))"
    "image_bytes (cells (nor s1)) (ram s1) addr sizeof_header n = data"
    using ram_bytes_put [of 0 64 ?B addr "ram s"] ram_bytes_put [of 64 n ?B addr "ram s"] B low img(3)
    by (simp_all add: image_bytes_def sizeof_header_def s1_def data_def)
  have g: "getenv s1 m = getenv s m" for m by (intro getenv_block) (simp add: env_block_def s1_def)
  have k: "crc_wf (crc_st s1)" "boot_addr [arg0] s1 = addr" "bi_boot_params s1 = bi_boot_params s" "kernel_env s1 0 0 = kernel_env s 0 0"
    using c(1) by (simp_all add: s1_def boot_addr_def kernel_env_def)
  obtain s2 where s2: "do_bootm (b_ops b) (b_lzma b) [arg0] s1 =
      Some (s2, Started_kernel (ntohl (ih_ep h)) (int (1 + length (boot_words cl))) (seg p) (seg (args_end p (boot_words cl))))"
    "ram_bytes (ram s2) load n = data" "kernel_memory seg p (boot_words cl) (kernel_env s 0 0) (dram (ram s2))"
    using nor_chip.bootm_kernel [OF assms(1) k(1) assms(3) [folded g] assms(4) [folded g] k(2) assms(13), of "b_lzma b"] assms(22-29)
    unfolding ib h_def [symmetric] n_def [symmetric] k(3, 4) p_def [symmetric] lim_def [symmetric] load_def [symmetric]
    by auto
  have "menu_bootm b [arg0] s1 = (s2\<lparr>boot_end := Some (Started_kernel (ntohl (ih_ep h)) (int (1 + length (boot_words cl))) (seg p) (seg (args_end p (boot_words cl))))\<rparr>, 1)"
    unfolding menu_bootm_def s2(1) by simp
  then show ?thesis using u s2(2, 3) by (intro exI) auto
qed

definition kernel_img :: "nat \<Rightarrow> u8 list" where "kernel_img i = (if i = 0 then demo_image else [])"
definition kernel_read :: "u32 \<Rightarrow> u32 \<Rightarrow> u32 \<times> u8 list" where "kernel_read = usb_block_read zeros (image_devs kernel_img) image_desc ()"
definition kernel_dev :: block_dev where
  "kernel_dev = \<lparr>part_type = 0, dev_type = 0, dev_lba = 65536, dev_blksz = 512, block_read = Some kernel_read\<rparr>"
definition kernel_board :: "(unit, nor) board" where "kernel_board = demo_board\<lparr>b_stor := \<lambda>_. kernel_dev\<rparr>"
definition kernel_menu :: "(unit, nor) menu_state" where
  "kernel_menu = demo_menu\<lparr>env_data := ''bootargs=console=ttyS1 root=/dev/mtdblock5'' @ NUL # ''autostart=yes'' @ NUL # NUL # replicate 4034 NUL\<rparr>"

lemma kernel_menu_env: "env_ok kernel_menu [''bootargs=console=ttyS1 root=/dev/mtdblock5'', ''autostart=yes'']"
proof -
  have d: "env_data kernel_menu = ''bootargs=console=ttyS1 root=/dev/mtdblock5'' @ NUL # ''autostart=yes'' @ NUL # NUL # replicate 4034 NUL"
    by (simp add: kernel_menu_def)
  have "env_repr (env_data kernel_menu) [''bootargs=console=ttyS1 root=/dev/mtdblock5'', ''autostart=yes'']"
    unfolding env_repr_def d by (intro conjI exI [of _ "replicate 4034 NUL"]) (simp_all add: var_ok_def NUL_def)
  moreover have "length (env_data kernel_menu) = ENV_SIZE" by (simp add: d ENV_SIZE_def CFG_ENV_SIZE_def)
  moreover have "env_valid kernel_menu" "crc_wf (crc_st kernel_menu)" using demo_menu_env by (simp_all add: env_ok_def kernel_menu_def)
  moreover have "distinct (map var_name [''bootargs=console=ttyS1 root=/dev/mtdblock5'', ''autostart=yes''])" by (simp add: var_name_def)
  ultimately show ?thesis unfolding env_ok_def by blast
qed

lemma kernel_menu_vars:
  "getenv kernel_menu ''verify'' = Some None" "getenv kernel_menu ''bootargs'' = Some (Some ''console=ttyS1 root=/dev/mtdblock5'')"
  "getenv kernel_menu ''autostart'' = Some (Some ''yes'')"
  using getenv_lookup [OF kernel_menu_env, of "''verify''"] getenv_lookup [OF kernel_menu_env, of "''bootargs''"]
    getenv_lookup [OF kernel_menu_env, of "''autostart''"]
  by (simp_all add: name_ok_def NUL_def lookup_def var_name_def var_value_def)

lemma kernel_array: "block_array kernel_read 512 (image_sector kernel_img) 65536"
  using image.block_array_axioms [of kernel_img] by (simp add: kernel_read_def image_desc_def)

lemma kernel_part:
  "usb_part kernel_board info ''0'' kernel_dev \<lparr>p_start = 0, p_size = 2880, p_blksz = 0x200, p_type = BOOT_PART_TYPE\<rparr>"
proof -
  have "simple_strtoul ''0'' 16 = (0, [])" by code_simp
  then have d: "dev_part ''0'' = (0, Some 1)" by (simp add: dev_part_def peek_def)
  have "usb_stor_get_dev kernel_board (sint 0) = Some kernel_dev" by (simp add: usb_stor_get_dev_def kernel_board_def USB_MAX_STOR_DEV_def)
  moreover have "get_partition_info (b_fresh kernel_board) kernel_dev 1 info = Some None"
    by (simp add: get_partition_info_def kernel_dev_def PART_TYPE_DOS_def)
  moreover have "dev_type kernel_dev \<noteq> DEV_TYPE_UNKNOWN" by (simp add: kernel_dev_def DEV_TYPE_UNKNOWN_def)
  ultimately show ?thesis unfolding usb_part_def
    by (intro exI conjI) (rule d, assumption+, simp_all add: boot_part_def)
qed

lemma kernel_sector:
  "take 64 (image_sector kernel_img 0) = header_bytes (demo_header\<lparr>ih_hcrc := ntohl (crc_val (header_bytes demo_header))\<rparr>)"
  "take 4 (drop 64 (image_sector kernel_img 0)) = [1, 2, 3, 4]"
proof -
  have n: "length (ih_name demo_header) = 32" by (simp add: demo_header_def IH_NMLEN_def)
  have l: "length (header_bytes h) = 32 + length (ih_name h)" for h by (simp add: header_bytes_def le32_def)
  show "take 64 (image_sector kernel_img 0) = header_bytes (demo_header\<lparr>ih_hcrc := ntohl (crc_val (header_bytes demo_header))\<rparr>)"
    "take 4 (drop 64 (image_sector kernel_img 0)) = [1, 2, 3, 4]"
    by (simp_all add: image_sector_def kernel_img_def demo_image_def l n)
qed

theorem usb_kernel_boots_witness:
  "\<exists>s'. do_usbboot kernel_board (cur_part_info no_device) [''usbboot'', ''80100000'', ''0''] kernel_menu = Some (s', 1) \<and>
    boot_end s' = Some (Started_kernel 0x80000400 3 0x83f80000 0x83f80430) \<and> ram_bytes (ram s') 0x80000000 4 = [1, 2, 3, 4]"
proof -
  let ?q = "\<lparr>p_start = 0, p_size = 2880, p_blksz = 0x200, p_type = BOOT_PART_TYPE\<rparr>" and ?h = "demo_header\<lparr>ih_hcrc := ntohl (crc_val (header_bytes demo_header))\<rparr>"
  have c: "nor_chip (b_ops kernel_board) nor_cells nor_wel nor_prot 0x10000"
    using nor_device_chip by (simp add: kernel_board_def demo_board_defs)
  have wf: "crc_wf (crc_st kernel_menu)" using kernel_menu_env by (simp add: env_ok_def)
  have rd: "block_read kernel_dev = Some kernel_read" by (simp add: kernel_dev_def)
  have bz: "p_blksz ?q = of_nat 512" "(64 :: nat) \<le> 512" "p_start ?q = 0" by simp_all
  have a: "simple_strtoul ''80100000'' 16 = (0x80100000, [])" by code_simp
  have lo: "(0x80100000 :: u32) < CFG_FLASH_BASE" "0x80100000 \<notin> set jump_addrs" by (simp_all add: CFG_FLASH_BASE_def jump_addrs_def)
  have b: "bi_boot_params kernel_menu = 0x83f80000" by (simp add: kernel_menu_def demo_menu_fields)
  have n: "image_blocks 512 4 = 1" by (simp add: image_blocks_def)
  have i: "take 4 (drop 64 (disk_image 512 (image_sector kernel_img) 0)) = [1, 2, 3, 4]"
    using kernel_sector demo_boot_header(1) demo_header_fields(1) n by (simp add: disk_image_def)
  note h = kernel_sector(1) demo_boot_header(1) demo_header_fields
  from usb_kernel_boots [OF c wf kernel_menu_vars kernel_part rd kernel_array bz(1, 2) a lo,
      unfolded bz(3) unat_0 h unat_numeral b demo_boot_place demo_boot_words demo_args_end demo_seg i n, of "cur_part_info no_device" "''usbboot''"] demo_boot_header(2) demo_boot_clear
  show ?thesis by (auto simp: line_of_def DRAM_END_def i n)
qed

end
