(* ===== verification/FatBoot.thy ===== *)
theory FatBoot
  imports UsbCmd
begin

text \<open>
  From a file on a disk to a running kernel: \<open>fatload\<close> and \<open>bootm\<close>, as they are typed one after the other.
\<close>

subsection \<open>The load\<close>

lemma names_kept: "plain_name ''verify''" "plain_name ''bootargs''" "plain_name ''filesize''"
  by (simp_all add: plain_name_def name_ok_def NUL_def)

text \<open>What \<open>fatload\<close> leaves: the file in memory, its size in the environment, and everything else as it was.\<close>

lemma fatload_file:
  fixes s :: "('w, 'f) menu_state"
  assumes "dev_part dv = (dev, Some part)" "block_array read_fn bsz sec nblk" "fat_register_device (b_fresh b) (b_stor b dev) part (fat s) = Some (0, st)"
    "mounted (b_fresh b) read_fn bsz sec nblk st pb bits" "root_name (map of_char name) fname" "dir_ok (root_dir sec st pb bits)"
    "dir_find fname (root_dir sec st pb bits) = Some d" "file_on sec nblk st (fs_start (b_fresh b) pb bits) d cs" "simple_strtoul a 16 = (addr, x)"
    "env_ok s vs" "length (enc vs) + 19 \<le> ENV_SIZE"
  defines "bs \<equiv> file_bytes sec st (fs_start (b_fresh b) pb bits) d cs"
  shows "\<exists>s'. do_fat_fsload b [c, ''usb'', dv, a, name] s = Some (s', 0) \<and> ram s' = ram_put addr bs (ram s) \<and> length bs = unat (d_size d) \<and>
    size_from_env s' = Some (s'\<lparr>NetBootFileXferSize := d_size d\<rparr>) \<and> (\<forall>n. plain_name n \<and> n \<noteq> ''filesize'' \<longrightarrow> getenv s' n = getenv s n) \<and>
    nor s' = nor s \<and> crc_wf (crc_st s') \<and> bi_boot_params s' = bi_boot_params s \<and> kernel_env s' 0 0 = kernel_env s 0 0"
proof -
  let ?fs = "fs_start (b_fresh b) pb bits"
  have v: "on_volume read_fn bsz nblk st ?fs" "512 \<le> bsz" "unat (sect_size ?fs) = bsz" using assms(4) by (simp_all add: mounted_def fs_start_fields)
  have f: "0 < clust_bytes ?fs" "unat (d_size d) \<le> (length cs + 1) * clust_bytes ?fs" "unat (d_size d) + clust_bytes ?fs \<le> 2 ^ 32"
    using assms(8) unfolding file_on_def by blast+
  have l: "length bs = unat (d_size d)"
    using f(2) block_array.length_clusters [OF assms(2) v(1), of "START ?fs d # cs"] by (simp add: bs_def file_bytes_def)
  have "2 \<le> clust_bytes ?fs" using f(1) v(2, 3) by (cases "unat (clust_size ?fs)") (simp_all add: clust_bytes_def)
  then have "unat (d_size d) \<noteq> unat (- 1 :: u32)" using f(3) by (simp add: unsigned_minus_1_eq_mask mask_eq_exp_minus_1)
  then have ne: "d_size d \<noteq> - 1" by auto
  obtain st' where r: "file_fat_read (b_fresh b) st (map of_char name) addr 0 (ram s) = Some (d_size d, ram_put addr bs (ram s), st')"
    using block_array.root_file_read [OF assms(2, 4-8), of addr "ram s"] unfolding bs_def by blast
  obtain t where t: "vsprintf ''%lX'' [VInt (d_size d)] = Some (t, [], int (length t))" "simple_strtoul t 16 = (d_size d, [])" "length t \<le> 8" "value_ok t"
    using hex_text [of LARGE "''%lX''" "d_size d"] by auto
  define s2 where "s2 = s\<lparr>ram := ram_put addr bs (ram s), fat := st'\<rparr>"
  have ok: "env_ok s2 vs" using assms(10) by (simp add: s2_def env_ok_def)
  obtain s1 where s1: "setenv (b_env b) s2 ''filesize'' (Some t) = Some s1" "getenv s1 ''filesize'' = Some (Some t)" "outside_env s1 = outside_env s2"
    "\<forall>m. plain_name m \<and> m \<noteq> ''filesize'' \<longrightarrow> getenv s1 m = getenv s2 m" "env_ok s1 (without ''filesize'' vs @ [''filesize'' @ CHR ''='' # t])"
    using setenv_short [OF ok menu_names(2) t(4), of "b_env b"] assms(11) t(3) by auto
  obtain ep where ep: "simple_strtoul dv 16 = (dev, ep)" "peek ep = NUL \<or> peek ep = CHR '':''" "part = sint (if peek ep \<noteq> NUL then fst (simple_strtoul (tl ep) 16) else 1)"
    using assms(1) by (auto simp: dev_part_def Let_def split: prod.splits if_splits)
  have g: "getenv s2 n = getenv s n" for n by (intro getenv_block) (simp add: env_block_def s2_def)
  have ld: "do_fat_fsload b [c, ''usb'', dv, a, name] s = Some (s1, 0)"
    using assms(3, 9) r t(1) s1(1) ne ep by (auto simp: do_fat_fsload_def get_dev_def set_var_def s2_def Let_def)
  have out: "nor s1 = nor s" "ram s1 = ram_put addr bs (ram s)" using outside_env_menu [OF s1(3)] by (simp_all add: s2_def)
  have par: "bi_boot_params s1 = bi_boot_params s" "kernel_env s1 0 0 = kernel_env s 0 0"
    using arg_cong [OF s1(3), of bi_boot_params] arg_cong [OF s1(3), of ram_size] arg_cong [OF s1(3), of bi_flashstart] arg_cong [OF s1(3), of bi_flashsize]
    by (simp_all add: outside_env_def s2_def kernel_env_def)
  have "size_from_env s1 = Some (s1\<lparr>NetBootFileXferSize := d_size d\<rparr>)" by (simp add: size_from_env_def s1(2) t(2))
  moreover have "crc_wf (crc_st s1)" using s1(5) by (simp add: env_ok_def)
  ultimately show ?thesis using ld out l par s1(4) g by auto
qed

subsection \<open>From the disk to the kernel\<close>

text \<open>C2: A kernel in a file on a USB disk boots: \<open>fatload\<close> with the name of a disk that has a FAT12 or FAT16 volume, an address and the name of a file in the root
  directory brings the clusters of the file into memory and its size into the variable \<open>filesize\<close>, and \<open>bootm\<close> with that address then starts the kernel, when the file is the
  image of an uncompressed kernel for this CPU with a right header and, unless checking is switched off, right data: the bytes behind the header stand at the load address of
  the image, and the parameter area holds the arguments and the environment of the kernel.\<close>

theorem fat_kernel_boots:
  fixes s :: "('w, 'f) menu_state"
  assumes "nor_chip (b_ops b) cells wel prot ss" "getenv s ''verify'' = Some v" "getenv s ''bootargs'' = Some cl" "env_ok s vs" "length (enc vs) + 19 \<le> ENV_SIZE"
    and "dev_part dv = (dev, Some part)" "block_array read_fn bsz sec nblk" "fat_register_device (b_fresh b) (b_stor b dev) part (fat s) = Some (0, st)"
    and "mounted (b_fresh b) read_fn bsz sec nblk st pb bits" "root_name (map of_char name) fname" "dir_ok (root_dir sec st pb bits)"
    and "dir_find fname (root_dir sec st pb bits) = Some d" "file_on sec nblk st (fs_start (b_fresh b) pb bits) d cs"
    and "simple_strtoul a 16 = (addr, x)" "addr < CFG_FLASH_BASE" "addr \<notin> set jump_addrs"
  defines "bs \<equiv> file_bytes sec st (fs_start (b_fresh b) pb bits) d cs"
  defines "h \<equiv> header_of_bytes (take 64 bs)"
  defines "n \<equiv> unat (ntohl (ih_size h))"
  defines "data \<equiv> take n (drop 64 bs)"
  defines "load \<equiv> ntohl (ih_load h)"
  defines "p \<equiv> unat (UNCACHED_SDRAM (bi_boot_params s))"
  defines "lim \<equiv> p + 0x1000 + length (line_of cl)"
  assumes "64 + n \<le> unat (d_size d)" "valid_header h" "verify_of v \<longrightarrow> crc_val data = ntohl (ih_dcrc h)"
    and "ih_arch h = IH_CPU_MIPS" "ih_type h = IH_TYPE_KERNEL" "ih_comp h = IH_COMP_NONE" "load \<noteq> addr"
    and "lim \<le> DRAM_END" "\<forall>i<n. \<forall>j. p \<le> j \<longrightarrow> j < lim \<longrightarrow> load + of_nat i \<noteq> seg j"
  shows "\<exists>s1 s2. do_fat_fsload b [c, ''usb'', dv, a, name] s = Some (s1, 0) \<and> ram s1 = ram_put addr bs (ram s) \<and>
    size_from_env s1 = Some (s1\<lparr>NetBootFileXferSize := d_size d\<rparr>) \<and>
    do_bootm (b_ops b) (b_lzma b) [m, a] s1 =
      Some (s2, Started_kernel (ntohl (ih_ep h)) (int (1 + length (boot_words cl))) (seg p) (seg (args_end p (boot_words cl)))) \<and>
    ram_bytes (ram s2) load n = data \<and> kernel_memory seg p (boot_words cl) (kernel_env s 0 0) (dram (ram s2))"
proof -
  obtain s1 where s1: "do_fat_fsload b [c, ''usb'', dv, a, name] s = Some (s1, 0)" "ram s1 = ram_put addr bs (ram s)" "length bs = unat (d_size d)"
    "size_from_env s1 = Some (s1\<lparr>NetBootFileXferSize := d_size d\<rparr>)" "\<forall>n. plain_name n \<and> n \<noteq> ''filesize'' \<longrightarrow> getenv s1 n = getenv s n"
    "nor s1 = nor s" "crc_wf (crc_st s1)" "bi_boot_params s1 = bi_boot_params s" "kernel_env s1 0 0 = kernel_env s 0 0"
    using fatload_file [OF assms(6-14, 4, 5), of c] unfolding bs_def by blast
  have len: "length bs < 2 ^ 32" "64 + n \<le> length bs" using s1(3) assms(24) unat_u32_bound [of "d_size d"] by simp_all
  have low: "\<not> CFG_FLASH_BASE \<le> addr" using assms(15) by simp
  have ib: "image_bytes (cells (nor s1)) (ram s1) addr 0 sizeof_header = take 64 bs" "image_bytes (cells (nor s1)) (ram s1) addr sizeof_header n = data"
    using ram_bytes_put [of 0 64 bs addr "ram s"] ram_bytes_put [of 64 n bs addr "ram s"] len low
    by (simp_all add: image_bytes_def sizeof_header_def s1(2) data_def)
  have g: "getenv s1 ''verify'' = Some v" "getenv s1 ''bootargs'' = Some cl" using s1(5) names_kept assms(2, 3) by auto
  have ba: "boot_addr [m, a] s1 = addr" using assms(14) by (simp add: boot_addr_def)
  obtain s2 where "do_bootm (b_ops b) (b_lzma b) [m, a] s1 =
      Some (s2, Started_kernel (ntohl (ih_ep h)) (int (1 + length (boot_words cl))) (seg p) (seg (args_end p (boot_words cl))))"
    "ram_bytes (ram s2) load n = data" "kernel_memory seg p (boot_words cl) (kernel_env s 0 0) (dram (ram s2))"
    using nor_chip.bootm_kernel [OF assms(1) s1(7) g ba assms(16), of "b_lzma b"] assms(25-32)
    unfolding ib h_def [symmetric] n_def [symmetric] s1(8, 9) p_def [symmetric] lim_def [symmetric] load_def [symmetric]
    by auto
  then show ?thesis using s1(1, 2, 4) by blast
qed

lemma sys_root_name: "root_name (map of_char ''lks7688.img'') sys_name"
  by (simp add: root_name_def skip_delims_def sys_name_def downcase_def TOLOWER_def ISDIRDELIM_def)

lemma demo_usb: "b_fresh demo_board = zeros" "b_stor demo_board dev = stick_dev" "fat demo_menu = no_device"
  by (simp_all add: demo_board_defs demo_menu_defs)

lemma demo_image_parts:
  "take 64 demo_image = header_bytes (demo_header\<lparr>ih_hcrc := ntohl (crc_val (header_bytes demo_header))\<rparr>)" "take 4 (drop 64 demo_image) = [1, 2, 3, 4]"
proof -
  have n: "length (ih_name demo_header) = 32" by (simp add: demo_header_def IH_NMLEN_def)
  have l: "length (header_bytes h) = 32 + length (ih_name h)" for h by (simp add: header_bytes_def le32_def)
  show "take 64 demo_image = header_bytes (demo_header\<lparr>ih_hcrc := ntohl (crc_val (header_bytes demo_header))\<rparr>)" "take 4 (drop 64 demo_image) = [1, 2, 3, 4]"
    by (simp_all add: demo_image_def l n)
qed

theorem fat_kernel_boots_witness:
  "\<exists>s1 s2. do_fat_fsload demo_board [''fatload'', ''usb'', ''0'', ''80100000'', ''lks7688.img''] demo_menu = Some (s1, 0) \<and>
    do_bootm (b_ops demo_board) (b_lzma demo_board) [''bootm'', ''80100000''] s1 = Some (s2, Started_kernel 0x80000400 3 0x83f80000 0x83f80430) \<and>
    ram_bytes (ram s2) 0x80000000 4 = [1, 2, 3, 4]"
proof -
  have c: "nor_chip (b_ops demo_board) nor_cells nor_wel nor_prot 0x10000" using nor_device_chip by (simp add: demo_board_defs)
  have g: "getenv demo_menu ''verify'' = Some None" "getenv demo_menu ''bootargs'' = Some (Some ''console=ttyS1 root=/dev/mtdblock5'')"
    by (simp_all add: demo_menu_vars demo_boot_vars)
  have e: "length (enc [''bootargs=console=ttyS1 root=/dev/mtdblock5'']) + 19 \<le> ENV_SIZE" by (simp add: ENV_SIZE_def CFG_ENV_SIZE_def)
  have "simple_strtoul ''0'' 16 = (0, [])" by code_simp
  then have dp: "dev_part ''0'' = (0, Some 1)" by (simp add: dev_part_def peek_def)
  have r: "fat_register_device (b_fresh demo_board) (b_stor demo_board 0) 1 (fat demo_menu) = Some (0, stick_st)"
    "mounted (b_fresh demo_board) stick_read 512 stick_sec 65536 stick_st stick_bs 16" "fs_start (b_fresh demo_board) stick_bs 16 = stick_fs"
    using stick_registered stick_mounted stick_fs_start by (simp_all add: demo_usb)
  have f: "file_on stick_sec 65536 stick_st (fs_start (b_fresh demo_board) stick_bs 16) stick_sys []" using stick_small(3) by (simp add: r(3))
  have a: "simple_strtoul ''80100000'' 16 = (0x80100000, [])" by code_simp
  have lo: "(0x80100000 :: u32) < CFG_FLASH_BASE" "0x80100000 \<notin> set jump_addrs" by (simp_all add: CFG_FLASH_BASE_def jump_addrs_def)
  have z: "unat (d_size stick_sys) = 68" by (simp add: d_size_def word_at_def of_le32_def stick_sys_def)
  have b: "bi_boot_params demo_menu = 0x83f80000" by (rule demo_menu_fields)
  note h = demo_image_parts(1) demo_boot_header(1) demo_header_fields
  from fat_kernel_boots [OF c g demo_menu_env e dp stick_array r(1, 2) sys_root_name stick_dir_ok stick_names(2) f a lo,
      unfolded r(3) stick_small(4) h unat_numeral b demo_boot_place demo_boot_words demo_args_end demo_seg z, of "''fatload''" "''bootm''"]
    demo_boot_header(2) demo_boot_clear
  show ?thesis by (auto simp: line_of_def DRAM_END_def demo_image_parts(2))
qed

end
