(* ===== verification/FatEmpty.thy ===== *)
theory FatEmpty
  imports FatFail
begin

text \<open>
  A boot sector may declare clusters of no sectors, which the code does not check. Reading a file then makes no progress from one cluster to the next.
\<close>

context block_array
begin

text \<open>The clusters of a circle in the table, no two of them consecutive.\<close>

definition circle :: "fat_state \<Rightarrow> fsdata \<Rightarrow> u32 set \<Rightarrow> bool" where
  "circle st fs C \<longleftrightarrow>
     (\<forall>c\<in>C. good_cluster nblk st fs c \<and> fat_has (fatsize fs) (fat_bytes sec st fs) (unat c) \<and> fat_entry (fatsize fs) (fat_bytes sec st fs) (unat c) \<in> C \<and>
        fat_entry (fatsize fs) (fat_bytes sec st fs) (unat c) - 1 \<noteq> c \<and> \<not> CHECK_CLUST (fat_entry (fatsize fs) (fat_bytes sec st fs) (unat c)) (fatsize fs))"

definition on_circle :: "fat_state \<Rightarrow> fsdata \<Rightarrow> u32 set \<Rightarrow> bool" where
  "on_circle st fs C \<longleftrightarrow> on_volume read_fn bsz nblk st fs \<and> cache_ok sec st fs \<and> circle st fs C \<and> clust_size fs = 0"

lemma circle_entry:
  assumes "on_circle st fs C" "c \<in> C"
  shows "\<exists>e fs'. get_fatent st c fs = Some (e, fs') \<and> on_circle st fs' C \<and> e \<in> C \<and> e - 1 \<noteq> c \<and> \<not> CHECK_CLUST e (fatsize fs')"
proof -
  let ?e = "fat_entry (fatsize fs) (fat_bytes sec st fs) (unat c)"
  have v: "on_volume read_fn bsz nblk st fs" "cache_ok sec st fs" "circle st fs C" "clust_size fs = 0" using assms(1) by (simp_all add: on_circle_def)
  have c: "fat_has (fatsize fs) (fat_bytes sec st fs) (unat c)" "?e \<in> C" "?e - 1 \<noteq> c" "\<not> CHECK_CLUST ?e (fatsize fs)"
    using v(3) assms(2) by (auto simp: circle_def)
  obtain fs' where f: "get_fatent st c fs = Some (?e, fs')" "on_volume read_fn bsz nblk st fs'" "cache_ok sec st fs'" "same_geo fs fs'"
    using get_fatent_reads [OF v(1, 2) c(1)] by blast
  have "circle st fs' C" using v(3) by (simp add: circle_def geo_bytes [OF f(4)] geo_cluster [OF f(4)] same_geo_fields [OF f(4)])
  then have "on_circle st fs' C" using f(2, 3) v(4) same_geo_fields(6) [OF f(4)] by (simp add: on_circle_def)
  then show ?thesis using f(1) c same_geo_fields(1) [OF f(4)] by auto
qed

lemma load_nothing:
  assumes "on_circle st fs C" "c \<in> C"
  shows "load_clusters st fs c 0 buffer r = Some (True, ram_put buffer [] r)"
proof -
  have v: "on_volume read_fn bsz nblk st fs" "good_cluster nblk st fs c" "clust_size fs = 0" using assms by (auto simp: on_circle_def circle_def)
  have rw: "reads_with st read_fn" "unat (sect_size fs) = bsz" using v(1) by (simp_all add: on_volume_def fs_ok_def)
  have "unat (p_start (cur_part_info st)) + clust_sect fs c + 0 \<le> nblk" using v(2, 3) by (simp add: good_cluster_def)
  from get_cluster_reads [OF rw v(2) this, of 0] show ?thesis by (simp add: load_clusters_def)
qed

text \<open>One round leads from a cluster of the circle to the next, with the rest of the file as before.\<close>

lemma circle_never:
  assumes "contents_loop st bpc c n got a r fs = Some y"
  shows "bpc = 0 \<longrightarrow> 0 < n \<longrightarrow> c \<in> C \<longrightarrow> \<not> on_circle st fs C"
proof (rule contents_loop.raw_induct [where P = "\<lambda>st bpc c n got a r fs y. bpc = 0 \<longrightarrow> 0 < n \<longrightarrow> c \<in> C \<longrightarrow> \<not> on_circle st fs C", OF _ assms])
  fix rec_loop :: "fat_state \<Rightarrow> u32 \<Rightarrow> u32 \<Rightarrow> u32 \<Rightarrow> u32 \<Rightarrow> u32 \<Rightarrow> (u32 \<Rightarrow> u8) \<Rightarrow> fsdata \<Rightarrow> (u32 \<times> (u32 \<Rightarrow> u8) \<times> fsdata) option"
    and st bpc c n got a r fs y
  assume ih: "\<And>st bpc c n got a r fs y. rec_loop st bpc c n got a r fs = Some y \<Longrightarrow> bpc = 0 \<longrightarrow> 0 < n \<longrightarrow> c \<in> C \<longrightarrow> \<not> on_circle st fs C"
    and body: "Option.bind (find_run st bpc n c bpc fs) (\<lambda>(end_of_run, endclust, actsize, fs).
       case end_of_run of
         Run_invalid \<Rightarrow> Some (got, r, fs)
       | Run_enough \<Rightarrow>
           (let actsize = actsize - bpc
            in Option.bind (load_clusters st fs c actsize a r) (\<lambda>(ok, r).
              if \<not> ok then Some (- 1, r, fs)
              else (let gotsize = got + actsize; fsize = n - actsize; buffer = a + actsize
                    in Option.bind (load_clusters st fs endclust fsize buffer r) (\<lambda>(ok, r).
                      Some (if ok then gotsize + fsize else - 1, r, fs)))))
       | Run_break \<Rightarrow>
           Option.bind (load_clusters st fs c actsize a r) (\<lambda>(ok, r).
             if \<not> ok then Some (- 1, r, fs)
             else (let gotsize = got + actsize; fsize = n - actsize; buffer = a + actsize
                   in Option.bind (get_fatent st endclust fs) (\<lambda>(curclust, fs).
                     if CHECK_CLUST curclust (fatsize fs) then Some (gotsize, r, fs)
                     else rec_loop st bpc curclust fsize gotsize buffer r fs)))) = Some y"
  show "bpc = 0 \<longrightarrow> 0 < n \<longrightarrow> c \<in> C \<longrightarrow> \<not> on_circle st fs C"
  proof (intro impI notI)
    assume z: "bpc = 0" and n: "0 < n" and c: "c \<in> C" and inv: "on_circle st fs C"
    obtain e fs1 where e: "get_fatent st c fs = Some (e, fs1)" "on_circle st fs1 C" "e - 1 \<noteq> c"
      using circle_entry [OF inv c] by blast
    obtain e2 fs2 where e2: "get_fatent st c fs1 = Some (e2, fs2)" "on_circle st fs2 C" "e2 \<in> C" "\<not> CHECK_CLUST e2 (fatsize fs2)"
      using circle_entry [OF e(2) c] by blast
    have run: "find_run st 0 n c 0 fs = Some (Run_break, c, 0, fs1)" using n e by (subst find_run.simps) simp
    have "rec_loop st 0 e2 n got a (ram_put a [] r) fs2 = Some y"
      using body by (simp only: z run load_nothing [OF e(2) c] e2(1, 4) Option.bind_lunit prod.case run_end.case not_True_eq_False if_False Let_def
          diff_zero add_0_right)
    from ih [OF this] show False using n e2(2, 3) by simp
  qed
qed

end

text \<open>C34: Clusters of no sectors hang the load: on a volume whose boot sector declares a cluster size of 0, a file that is not empty and whose chain of clusters runs in a circle, no
  two of them consecutive, keeps \<open>get_contents\<close> in its loop for ever. The code does not check the size.\<close>

theorem empty_clusters_hang:
  assumes "block_array read_fn bsz sec nblk" "on_volume read_fn bsz nblk st fs" "cache_ok sec st fs" "clust_size fs = 0" "0 < d_size d" "START fs d \<in> C"
    and "\<forall>c\<in>C. good_cluster nblk st fs c \<and> fat_has (fatsize fs) (fat_bytes sec st fs) (unat c) \<and> fat_entry (fatsize fs) (fat_bytes sec st fs) (unat c) \<in> C \<and>
        fat_entry (fatsize fs) (fat_bytes sec st fs) (unat c) \<noteq> c + 1 \<and> \<not> CHECK_CLUST (fat_entry (fatsize fs) (fat_bytes sec st fs) (unat c)) (fatsize fs)"
  shows "get_contents st d buffer 0 r fs = None"
proof -
  have "block_array.on_circle read_fn bsz sec nblk st fs C"
    unfolding block_array.on_circle_def [OF assms(1)] block_array.circle_def [OF assms(1)] using assms(2-4, 7) by (auto simp: diff_eq_eq)
  then have "contents_loop st 0 (START fs d) (d_size d) 0 buffer r fs \<noteq> Some y" for y
    using block_array.circle_never [OF assms(1), of st 0 "START fs d" "d_size d" 0 buffer r fs y C] assms(5, 6) by auto
  then have "contents_loop st 0 (START fs d) (d_size d) 0 buffer r fs = None" by (rule not_Some_eq [THEN iffD1, OF allI])
  then show ?thesis using assms(4) by (simp add: get_contents_def)
qed

definition empty_img :: "nat \<Rightarrow> u8 list" where
  "empty_img i = (if i = 1 then [0xf8, 0xff, 0xff, 0xff, 5, 0, 0, 0, 0, 0, 2, 0] else [])"

definition empty_sec :: "nat \<Rightarrow> u8 list" where "empty_sec = image_sector empty_img"
definition empty_read :: "u32 \<Rightarrow> u32 \<Rightarrow> u32 \<times> u8 list" where "empty_read = usb_block_read zeros (image_devs empty_img) image_desc ()"
definition empty_st :: fat_state where "empty_st = stick_st\<lparr>cur_dev := Some (stick_dev\<lparr>block_read := Some empty_read\<rparr>)\<rparr>"
definition empty_fs :: fsdata where "empty_fs = stick_fs\<lparr>clust_size := 0\<rparr>"

lemma empty_clusters_hang_witness: "get_contents empty_st stick_entry 0x80100000 0 (\<lambda>_. 0) empty_fs = None"
proof (rule empty_clusters_hang [where C = "{2, 5}"])
  show "block_array empty_read 512 empty_sec 65536"
    using image.block_array_axioms [of empty_img] by (simp add: empty_read_def empty_sec_def image_desc_def)
  show "on_volume empty_read 512 65536 empty_st empty_fs"
    using stick_on_volume by (simp add: on_volume_def reads_with_def empty_st_def empty_fs_def fs_ok_def FATBUFSIZE_def)
  show "cache_ok empty_sec empty_st empty_fs" by (simp add: cache_ok_def empty_fs_def stick_fs_def)
  show "clust_size empty_fs = 0" by (simp add: empty_fs_def)
  show "0 < d_size stick_entry" using stick_file(2) by simp
  show "START empty_fs stick_entry \<in> {2, 5}" by (simp add: START_def empty_fs_def stick_fs_def half_at_def stick_entry_def)
  have p: "psec empty_sec empty_st i = empty_sec i" for i by (simp add: psec_def empty_st_def stick_st_def)
  have f: "fatsize empty_fs = 16" "fat_sect empty_fs = 1" "fatlength empty_fs = 1" "data_begin empty_fs = 1" "clust_size empty_fs = 0"
    by (simp_all add: empty_fs_def stick_fs_def)
  have b: "fat_bytes empty_sec empty_st empty_fs = empty_sec 1" by (simp add: fat_bytes_def f p upt_rec)
  have s1: "empty_sec (Suc 0) = [0xf8, 0xff, 0xff, 0xff, 5, 0, 0, 0, 0, 0, 2, 0] @ replicate 500 0"
    by (simp add: empty_sec_def image_sector_def empty_img_def)
  have e: "fat_entry 16 (empty_sec 1) (unat (2 :: u32)) = 5" "fat_entry 16 (empty_sec 1) (unat (5 :: u32)) = 2"
    "fat_has 16 (empty_sec 1) (unat (2 :: u32))" "fat_has 16 (empty_sec 1) (unat (5 :: u32))"
    by (simp_all add: s1 fat_entry_def fat_has_def fat_pos_def fat_width_def half_at_def)
  have ck: "\<not> CHECK_CLUST 2 16" "\<not> CHECK_CLUST 5 16" by (simp_all add: CHECK_CLUST_def word_le_nat_alt)
  have g: "good_cluster 65536 empty_st empty_fs 2" "good_cluster 65536 empty_st empty_fs 5"
    by (simp_all add: good_cluster_def clust_sect_def f) (simp_all add: empty_st_def stick_st_def)
  show "\<forall>c\<in>{2, 5}. good_cluster 65536 empty_st empty_fs c \<and> fat_has (fatsize empty_fs) (fat_bytes empty_sec empty_st empty_fs) (unat c) \<and>
      fat_entry (fatsize empty_fs) (fat_bytes empty_sec empty_st empty_fs) (unat c) \<in> {2, 5} \<and>
      fat_entry (fatsize empty_fs) (fat_bytes empty_sec empty_st empty_fs) (unat c) \<noteq> c + 1 \<and>
      \<not> CHECK_CLUST (fat_entry (fatsize empty_fs) (fat_bytes empty_sec empty_st empty_fs) (unat c)) (fatsize empty_fs)"
    unfolding b f(1) using e ck g by simp
qed

end
