(* ===== verification/Spec2Isabelle.thy ===== *)
theory Spec2Isabelle
  imports CString Crc32_Table MenuSerial WifiCfg FatType MemCmd FatBoot FatEmpty
begin

text \<open>
  \<^bold>\<open>The boot loader of the IOT7688 board\<close> (\<open>src/uboot/\<close>, a U-Boot 1.1.3 for the MT7688, a little-endian MIPS32).

  The boot loader comes up, brings its environment from SPI flash into memory, gives the user a command line on the
  serial console and runs commands, among them the one that loads a file over the network. The theories follow
  that structure; each names the C functions it models and keeps their names where they do not clash with HOL.

  \<^item> \<open>UB_Prelude\<close>: integer widths, byte memory, shared lemmas. \<open>Ctype\<close>, \<open>CString\<close>: \<open>lib_generic/ctype.c\<close> and
    \<open>string.c\<close> over a byte memory (\<open>addr \<Rightarrow> u8\<close>). \<open>Crc32\<close>, \<open>Crc32_Table\<close>: \<open>crc32.c\<close> against a bit-serial definition, and
    its static table against the computed one. \<open>Vsprintf\<close>: \<open>vsprintf.c\<close>, numbers to text and back.
  \<^item> \<open>Env\<close>, \<open>Env_Spec\<close>: \<open>common/cmd_nvedit.c\<close> and \<open>env_common.c\<close>. The environment is the block of bytes
    \<open>name=value\<close> with its CRC; the specification is the list of variables. What \<open>_do_setenv\<close> calls outside (\<open>console_assign\<close>, \<open>serial_setbrg\<close> and \<open>getc\<close>, with which
    it waits for a carriage return after a change of the speed) is the record \<open>env_calls\<close>, which \<open>Console\<close> provides. The locale \<open>var_store\<close> is the contract of
    reading and setting a variable, interpreted on \<open>getenv\<close> and \<open>setenv\<close>.
  \<^item> \<open>Flash\<close>, \<open>EnvSpi\<close>: \<open>drivers/spi_rt6855A_flash.c\<close> and \<open>common/env_spi.c\<close>. The chip is the parameter record
    \<open>nor_ops\<close> with the locale \<open>nor_chip\<close> as its contract, interpreted on a NOR device with cells, write latch and protection.
  \<^item> \<open>Lists\<close>, \<open>Lists_Spec\<close>, \<open>Devices\<close>, \<open>Console\<close>: \<open>common/lists.c\<close>, \<open>devices.c\<close>, \<open>console.c\<close>. A list is a byte
    block of items (locale \<open>item_list\<close>); the device table is such a list; the standard files are offsets into it. The
    functions of a device are called through the parameter \<open>dev_calls\<close>.
  \<^item> \<open>Serial\<close>: \<open>board/rt2880/serial.c\<close> over the UART's registers. The locale \<open>uart_line\<close> says what the driver relies on of
    the hardware, \<open>tty\<close> what the console relies on of the driver; a \<open>sublocale\<close> derives the second from the first.
  \<^item> \<open>Command\<close>, \<open>Shell\<close>, \<open>Readline\<close>: \<open>common/command.c\<close>, \<open>common/main.c\<close> and the line editor of
    \<open>drivers/rt2880_eth.c\<close>: look-up of commands, macros and arguments, running a line, the main loop, editing a line.
  \<^item> \<open>NetAddr\<close>, \<open>Net\<close>, \<open>Tftp\<close>, \<open>NetMain\<close>, \<open>NetBoot\<close>: \<open>net/net.c\<close>, \<open>net/tftp.c\<close>, \<open>common/cmd_net.c\<close>. The state
    of the stack extends the state of the environment; the Ethernet driver is the log of its calls and the
    frames it delivers. \<open>NetSession\<close> composes client, server and a network that may lose, repeat, delay and reorder
    frames (\<open>client_step\<close>, \<open>transfer\<close>), with the invariant of a transfer; \<open>NetDelivery\<close> adds progress, \<open>NetExchange\<close> the
    exchange of single frames between two stations.
  \<^item> \<open>Image\<close>, \<open>Bootm\<close>: \<open>common/cmd_bootm.c\<close> and \<open>lib_mips/mips_linux.c\<close>. The header of an image as it lies in memory, the checks,
    loading and starting, the RAM disk, the kernel's arguments and environment. Where control goes is the outcome of \<open>do_bootm\<close>.
    \<open>BootSafe\<close> shows what is started, \<open>BootArgs\<close> and \<open>BootParams\<close> what the parameter area holds (the stores of the code as
    \<open>blit\<close>s into the byte memory of the string library), \<open>BootKernel\<close> that a good kernel boots; \<open>BootDemo\<close> is an example image.
  \<^item> \<open>Kermit\<close>: \<open>loadb\<close> of \<open>common/cmd_load.c\<close>, the reception of a file over the serial line. \<open>KermitSpec\<close> relates the receiver to one that
    consumes whole packets (locale \<open>kermit_line\<close>, which a \<open>sublocale\<close> derives from \<open>uart_line\<close>), \<open>KermitFile\<close> adds the sender and its file.
  \<^item> \<open>Fat\<close>, \<open>FatDir\<close>, \<open>FatRead\<close>: \<open>fs/fat/fat.c\<close> with \<open>include/fat.h\<close>, and the DOS partition tables of \<open>disk/part.c\<close> and \<open>part_dos.c\<close>. The state is the
    registered device, its partition and the static block buffers; the parameters of the volume and the cache of the table are the record \<open>fsdata\<close>. \<open>FatSpec\<close>
    says what lies on the disk: the locale \<open>block_reads\<close> is a device that stores no more than it is asked for, \<open>block_array\<close> extends it to one that is an array of
    sectors; the entries of the table, the chain of a file (\<open>file_on\<close>) and the search by name (\<open>dir_find\<close>) are defined over the sectors. \<open>FatFile\<close>, \<open>FatName\<close>,
    \<open>FatRoot\<close> and \<open>FatLoad\<close> show that the code computes them, \<open>FatType\<close> what registrations, reads and listings keep, with a rule \<open>ens\<close> for each construct: the device of the
    last registration, its partition and its signature.
  \<^item> \<open>UsbStor\<close>: \<open>common/usb_storage.c\<close>, with the host controller as the parameter \<open>usb_hc\<close>. \<open>UsbDisk\<close> has the locales \<open>usb_device\<close> and \<open>usb_disk\<close> for a device
    that answers commands, and a \<open>sublocale\<close> that makes such a disk a \<open>block_array\<close>; it is interpreted on the image of a disk, \<open>FatDisk\<close> is an example of one.
    \<open>FatDemo\<close>, \<open>FatFail\<close> and \<open>FatEmpty\<close> hold the properties: what is read, and what the code does not notice.
  \<^item> \<open>BootMenu\<close>: the end of \<open>board_init_r\<close> in \<open>lib_mips/board.c\<close>, which calls all of the above. Its hardware, the block devices and the code that
    is not modelled are the record \<open>board\<close>. \<open>MenuBoot\<close> shows the count-down and the undisturbed boot, \<open>MenuFlash\<close> what the choices
    write to the flash (5, c and b store behind the end of \<open>argv\<close> first, which is undefined), \<open>MenuSerial\<close> the same for a file from the serial line, \<open>WifiCfg\<close> how the file of Wi-Fi settings is read.
  \<^item> \<open>MemCmd\<close>: \<open>md\<close>, \<open>mm\<close> and \<open>nm\<close> of \<open>common/cmd_mem.c\<close>, on the keys of the serial line. \<open>UsbCmd\<close>: \<open>usb\<close> and \<open>usbboot\<close> of \<open>common/cmd_usb.c\<close>, \<open>fatls\<close> and
    \<open>fatinfo\<close> of \<open>common/cmd_fat.c\<close>; a kernel on a USB disk boots. \<open>FatBoot\<close>: a kernel in a file, from \<open>fatload\<close> to \<open>bootm\<close>.

  \<^bold>\<open>What is shown.\<close> Refinement: setting a variable in the block is assignment in the list of variables, inserting into a
  list's block is insertion into the sequence, running a line is running its commands in order. Round trips: saved
  environments are loaded again, numbers and addresses survive their notation, a frame sent is the frame received. Safety and
  liveness: a finished TFTP transfer has put the file in memory whatever the network did, and can always be
  finished; \<open>bootm\<close> starts nothing whose checksums are wrong, and left alone the board boots the kernel in its flash. Files: a file of a FAT volume is loaded whole whatever its
  chain of clusters, and a kernel in one boots; reading one ends whatever the table holds, as long as the clusters are not empty. Editing: \<open>readline\<close> stays in its buffer and the terminal shows the line; \<open>typed_line_runs\<close> below carries the keys
  on the wire through the UART, the console and the editor to the commands that run. Errors: where the code
  overruns a buffer, follows a NULL pointer or loses data, a theorem exhibits it, and the same condition is absent
  from the hypotheses of the correctness theorems only where the code handles it.

  \<^bold>\<open>Conventions.\<close> \<open>None\<close> stands for undefined behaviour (leaving an array, following NULL) or for a loop that does not
  end; a theorem that an operation succeeds says so (\<open>= Some \<dots>\<close>). C integers are words where they can wrap. Loops
  without a bound are \<open>partial_function (option)\<close>, so no fuel is chosen anywhere, except for \<open>net_rounds\<close>, whose number
  of rounds is an argument. Hardware and code outside the repository are parameters, with locales as their
  contracts. Compile-time options are resolved as \<open>include/configs/rt2880.h\<close> and the board's configuration set them.

  \<^bold>\<open>Not modelled.\<close> Register-level drivers (Ethernet, NAND, SD, the USB controllers with the bus below \<open>usb_storage.c\<close>), the memory allocator and the
  decompressors (third-party code), the set-up of the hardware before the boot menu, protocols that are not built (BOOTP, RARP, NFS), console
  messages of the network code, and everything outside \<open>src/uboot/\<close>, which is the OpenWrt tree and its packages.
\<close>

text \<open>C10: A typed line is run: one round of the main loop, with the console on the serial device and the UART keeping
  its contract, reads the keys up to the end of the line, and when they make a line of commands, runs exactly those
  commands in order with their words as arguments; what was typed after the line is left for the next round, only the state of the
  devices has changed before the first command starts, and the line is kept for repetition when the commands allow it.\<close>

theorem typed_line_runs:
  assumes "uart_line io pending sent delay" "on_serial drv (con s)" "length buf = CFG_CBSIZE"
    and "pending (world (con s)) = keys @ CHR 13 # rest" "\<forall>c\<in>set keys. \<not> stop_key c"
    and "foldl edit_key [] keys = join_cmds ts" "\<forall>t\<in>set ts. cmd_ok t" "ts \<noteq> []"
  defines "calls \<equiv> serial_calls io drv"
  shows "\<exists>cs. same_con (con s) cs \<and> pending (world cs) = rest \<and>
    main_round (run_command calls drv call_cmd tbl before junk) (main_readline calls drv buf) calls drv (lastcommand, rc, s) =
      map_option (\<lambda>(s', r). (if r \<le> 0 then [] else join_cmds ts, r, s'))
        (exec_seq calls drv call_cmd tbl 0 (map words ts) 0 1 (s\<lparr>con := clear_ctrlc cs\<rparr>))"
proof -
  have t: "tty calls drv pending sent" unfolding calls_def using assms(1) by (rule uart_line.serial_tty)
  let ?line = "join_cmds ts"
  obtain buf' cs where r: "readline calls drv (Some CFG_PROMPT) False buf (con s) = Some (int (length ?line), buf', cs)"
    "cstr buf' = ?line" "same_con (con s) cs" "pending (world cs) = rest"
    using tty.readline_line [OF t assms(2, 3) CFG_PROMPT_plain assms(4, 5)] assms(6) by (auto simp: stop_key_def line_result_def)
  have ne: "?line \<noteq> []" using assms(7, 8) cmd_ok_nonempty join_cmds_empty by blast
  have "length ?line < CFG_CBSIZE" using edited_length [of "[]" keys] assms(6) by (simp add: CFG_CBSIZE_def)
  then have run: "run_command calls drv call_cmd tbl before junk (Some ?line) 0 (s\<lparr>con := cs\<rparr>) =
      exec_seq calls drv call_cmd tbl 0 (map words ts) 0 1 (s\<lparr>con := clear_ctrlc cs\<rparr>)"
    using ne run_loop_seq [OF assms(7)] by (simp add: run_command_def)
  have rl: "main_readline calls drv buf s = Some (int (length ?line), ?line, s\<lparr>con := cs\<rparr>)"
    using r(1, 2) by (simp add: main_readline_def)
  show ?thesis using r(3, 4) ne
    by (intro exI [of _ cs]) (auto simp: main_round_def rl run Let_def map_option_case split: option.splits)
qed

definition tty_env :: "'w console_state \<Rightarrow> 'w ub_state" where
  "tty_env cs = \<lparr>hdr_crc = 0, env_data = NUL # NUL # replicate 4090 NUL, default_env = [], env_valid = True,
     gd_baudrate = 115200, bi_enetaddr = [], bi_ip_addr = 0, load_addr = 0, BootFile = [],
     crc_st = \<lparr>crc_table_empty = True, crc_table = []\<rparr>, con = cs\<rparr>"

theorem typed_line_runs_witness:
  "\<exists>l s'. devs_rep l [serial_dev demo_drv] \<and>
    main_round (run_command (serial_calls (uart_io 3) demo_drv) demo_drv (\<lambda>_ _ _ _ s. Some (s, 0)) [demo_cmd ''help''] NUL [])
      (main_readline (serial_calls (uart_io 3) demo_drv) demo_drv (replicate CFG_CBSIZE NUL)) (serial_calls (uart_io 3) demo_drv) demo_drv
      ([], 1, tty_env (tty_console demo_drv l (demo_uart (''hex'' @ [CHR 8] @ ''lp'' @ [CHR 13])))) = Some (''help'', 1, s')"
proof -
  obtain l where l: "devs_rep l [serial_dev demo_drv]" using devices_init_rep [of "\<lambda>_. True" demo_drv] by auto
  let ?s = "tty_env (tty_console demo_drv l (demo_uart (''hex'' @ [CHR 8] @ ''lp'' @ [CHR 13])))"
  have con: "con ?s = tty_console demo_drv l (demo_uart (''hex'' @ [CHR 8] @ ''lp'' @ [CHR 13]))" by (simp add: tty_env_def)
  have e: "foldl edit_key [] (''hex'' @ [CHR 8] @ ''lp'') = join_cmds [''help'']" by (simp add: edit_key_def NUL_def)
  have p: "map snd (rx (world (con ?s))) = (''hex'' @ [CHR 8] @ ''lp'') @ CHR 13 # []" by (simp add: tty_env_def tty_console_def demo_uart_def)
  have w: "words ''help'' = [''help'']" by (simp add: words_single is_blank_def)
  have ok: "\<forall>t\<in>set [''help'']. cmd_ok t"
    by (simp add: cmd_ok_def w token_ok_def plain_char_def NUL_def CFG_CBSIZE_def CFG_MAXARGS_def)
  have f: "find_cmd [demo_cmd ''help''] ''help'' = Some (demo_cmd ''help'')" by (simp add: find_cmd_def demo_cmd_def cmp_len_def)
  have d: "maxargs (demo_cmd ''help'') = 16" "repeatable (demo_cmd ''help'') = 1" by (simp_all add: demo_cmd_def)
  have ks: "\<forall>c\<in>set (''hex'' @ [CHR 8] @ ''lp''). \<not> stop_key c" by (simp add: stop_key_def)
  have "on_serial demo_drv (con ?s)" unfolding con by (rule tty_console_serial [OF l])
  from typed_line_runs [OF uart.uart_line_axioms this _ p ks e ok, of "replicate CFG_CBSIZE NUL" 3
      "\<lambda>_ _ _ _ s. Some (s, 0)" "[demo_cmd ''help'']" NUL "[]" "[]" 1]
  show ?thesis using l by (auto simp: w f d had_ctrlc_def clear_ctrlc_def)
qed

end
